(* ===== verification/Prelude.thy ===== *)
theory Prelude
  imports Main "HOL-Library.Word" "HOL-Library.Monad_Syntax"
begin

text \<open>
  The ground the component theories stand on: the machine types of Mayaqua
  (\<open>UCHAR\<close>, \<open>USHORT\<close>, \<open>UINT\<close>, \<open>UINT64\<close>), memory blocks with
  their bounds, the option monad for accesses that may leave a block, and the generic
  lemmas on words, lists and options the components share.

  A definition whose result is an option in the memory-level theories returns
  \<^const>\<open>None\<close> exactly where the C code aborts the process
  (\<open>AbortExitEx\<close>), does not return, or reads or writes outside an allocated
  block; such a result is never an ordinary return value of the C function.
\<close>

section \<open>Machine types\<close>

type_synonym u8 = "8 word"
type_synonym u16 = "16 word"
type_synonym u32 = "32 word"
type_synonym u64 = "64 word"

abbreviation INFINITE :: u32 where
  "INFINITE \<equiv> 0xFFFFFFFF"

abbreviation two32 :: nat where
  "two32 \<equiv> 4294967296"

section \<open>Collections of facts\<close>

text \<open>
  \<open>nowrap\<close> holds the rules that turn word arithmetic into arithmetic on \<^typ>\<open>nat\<close>
  where no wrap-around happens; \<open>mem_simps\<close> the rules of memory blocks;
  \<open>buf_simps\<close>, \<open>fifo_simps\<close> and \<open>pack_simps\<close> what each component exports.
\<close>

named_theorems nowrap
named_theorems mem_simps
named_theorems buf_simps
named_theorems fifo_simps
named_theorems pack_simps

section \<open>Words\<close>

lemma unat_add32 [nowrap]:
  "unat (a + b) = unat a + unat b" if "unat a + unat b < two32" for a b :: u32
  using that by (simp add: unat_word_ariths)

lemma unat_sub32 [nowrap]:
  "unat (a - b) = unat a - unat b" if "unat b \<le> unat a" for a b :: u32
  using that by (simp add: unat_sub word_le_nat_alt)

lemma unat_mult32 [nowrap]:
  "unat (a * b) = unat a * unat b" if "unat a * unat b < two32" for a b :: u32
  using that by (simp add: unat_word_ariths)

lemma unat_of_nat32 [nowrap]:
  "unat (of_nat n :: u32) = n" if "n < two32"
  using that by (simp add: unat_of_nat take_bit_nat_eq_self)

lemma unat_lt32 [simp]: "unat (x :: u32) < two32"
proof -
  have "unat x < 2 ^ LENGTH(32)" by (rule unsigned_less)
  then show ?thesis by simp
qed

lemma bit_byte_beyond: "8 \<le> n \<Longrightarrow> \<not> bit (x :: u8) n"
  by (auto dest: bit_imp_le_length)

lemma of_nat_unat32: "of_nat (unat x) = (x :: u32)"
  by simp

lemma word_of_nat_eq_iff32:
  "(of_nat m = (of_nat n :: u32)) = (m = n)" if "m < two32" "n < two32"
  using that by (metis unat_of_nat32)

lemma unat_le_mono32: "(a \<le> b) = (unat a \<le> unat b)" for a b :: u32
  by (rule word_le_nat_alt)

lemma unat_less_mono32: "(a < b) = (unat a < unat b)" for a b :: u32
  by (rule word_less_nat_alt)

lemmas unat_order = unat_le_mono32 unat_less_mono32

section \<open>Options\<close>

lemma bind_Some_conv: "(Option.bind x f = Some y) = (\<exists>a. x = Some a \<and> f a = Some y)"
  by (cases x) auto

lemma bind_None_conv: "(Option.bind x f = None) = (x = None \<or> (\<exists>a. x = Some a \<and> f a = None))"
  by (cases x) auto

lemma bindE:
  assumes "Option.bind x f = Some y"
  obtains a where "x = Some a" and "f a = Some y"
  using assms by (auto simp: bind_Some_conv)

section \<open>Lists\<close>

lemma take_append_drop_mid:
  "i \<le> length xs \<Longrightarrow> take (i + length ys) (take i xs @ ys @ zs) = take i xs @ ys"
  by (simp add: min_absorb2)

lemma map_the_Some [simp]: "map the (map Some xs) = xs"
  by (induction xs) auto

lemma map_Some_the: "None \<notin> set xs \<Longrightarrow> map Some (map the xs) = xs"
  by (induction xs) auto

lemma dropWhile_idem [simp]: "dropWhile P (dropWhile P xs) = dropWhile P xs"
  by (induction xs) auto

lemma dropWhile_cases: "dropWhile P xs = [] \<or> \<not> P (hd (dropWhile P xs))"
  by (induction xs) auto

lemma dropWhile_fixed: "xs = [] \<or> \<not> P (hd xs) \<Longrightarrow> dropWhile P xs = xs"
  by (cases xs) auto

section \<open>Memory blocks\<close>

text \<open>
  A block is the list of its cells; a cell is \<^const>\<open>None\<close> until something has been
  stored in it, so that contents \<open>Malloc\<close> leaves undefined are never mistaken for
  data. A cell holds a byte in most blocks; in the blocks that hold pointers it holds a
  fragment of one (theory Fifo).
\<close>

type_synonym 'b block = "'b option list"

abbreviation MAX_MALLOC_MEM_SIZE :: u32 where
  "MAX_MALLOC_MEM_SIZE \<equiv> 0xFFFFFFFF - 64"

definition MallocEx :: "u32 \<Rightarrow> 'b block option" where
  "MallocEx n = (if MAX_MALLOC_MEM_SIZE < n then None else Some (replicate (unat n) None))"

definition ReAlloc :: "'b block \<Rightarrow> u32 \<Rightarrow> 'b block option" where
  "ReAlloc m n =
     (if MAX_MALLOC_MEM_SIZE < n then None
      else Some (take (unat n) m @ replicate (unat n - length m) None))"

text \<open>\<open>Copy\<close> writes \<open>d\<close> at offset \<open>off\<close> of a block, or reads \<open>n\<close> cells from it.\<close>

definition mem_write :: "'b block \<Rightarrow> nat \<Rightarrow> 'b block \<Rightarrow> 'b block option" where
  "mem_write m off d =
     (if d = [] then Some m
      else if off + length d \<le> length m
      then Some (take off m @ d @ drop (off + length d) m) else None)"

definition mem_read :: "'b block \<Rightarrow> nat \<Rightarrow> nat \<Rightarrow> 'b block option" where
  "mem_read m off n =
     (if n = 0 then Some []
      else if off + n \<le> length m then Some (take n (drop off m)) else None)"

text \<open>Reading initialised memory, given by its bytes.\<close>

definition mem_bytes :: "'b list \<Rightarrow> nat \<Rightarrow> nat \<Rightarrow> 'b list option" where
  "mem_bytes m off n = (if off + n \<le> length m then Some (take n (drop off m)) else None)"

lemma mem_bytes_ok [mem_simps]: "off + n \<le> length m \<Longrightarrow> mem_bytes m off n = Some (take n (drop off m))"
  by (simp add: mem_bytes_def)

text \<open>The value of cells that must all be initialised.\<close>

fun cells_value :: "'b block \<Rightarrow> 'b list option" where
  "cells_value [] = Some []"
| "cells_value (None # cs) = None"
| "cells_value (Some c # cs) = map_option ((#) c) (cells_value cs)"

lemma cells_value_map_Some [simp, mem_simps]: "cells_value (map Some xs) = Some xs"
  by (induction xs) auto

lemma cells_value_SomeD: "cells_value cs = Some xs \<Longrightarrow> cs = map Some xs"
  by (induction cs arbitrary: xs rule: cells_value.induct) auto

lemma MallocEx_ok [mem_simps]:
  "n \<le> MAX_MALLOC_MEM_SIZE \<Longrightarrow> MallocEx n = Some (replicate (unat n) None)"
  by (simp add: MallocEx_def)

lemma ReAlloc_length: "ReAlloc m n = Some m' \<Longrightarrow> length m' = unat n"
  by (auto simp: ReAlloc_def split: if_splits)

lemma ReAlloc_grow [mem_simps]:
  "n \<le> MAX_MALLOC_MEM_SIZE \<Longrightarrow> length m \<le> unat n \<Longrightarrow>
   ReAlloc m n = Some (m @ replicate (unat n - length m) None)"
  by (simp add: ReAlloc_def)

lemma mem_write_ok [mem_simps]:
  "off + length d \<le> length m \<Longrightarrow>
   mem_write m off d = Some (take off m @ d @ drop (off + length d) m)"
  by (auto simp: mem_write_def)

lemma mem_write_length: "mem_write m off d = Some m' \<Longrightarrow> length m' = length m"
  by (auto simp: mem_write_def split: if_splits)

lemma mem_write_None_iff:
  "mem_write m off d = None \<longleftrightarrow> d \<noteq> [] \<and> length m < off + length d"
  by (auto simp: mem_write_def)

lemma mem_read_ok [mem_simps]:
  "off + n \<le> length m \<Longrightarrow> mem_read m off n = Some (take n (drop off m))"
  by (auto simp: mem_read_def)

lemma mem_read_None_iff: "mem_read m off n = None \<longleftrightarrow> n \<noteq> 0 \<and> length m < off + n"
  by (auto simp: mem_read_def)

lemma mem_read_length: "mem_read m off n = Some d \<Longrightarrow> length d = n"
  by (auto simp: mem_read_def split: if_splits)

lemma mem_read_write_same:
  "off + length d \<le> length m \<Longrightarrow> mem_write m off d = Some m' \<Longrightarrow>
   mem_read m' off (length d) = Some d"
  by (auto simp: mem_write_def mem_read_def split: if_splits)

section \<open>C strings\<close>

text \<open>
  A \<open>char *\<close> is modelled by the bytes before its terminating zero, so a C string
  never holds a zero byte itself. \<open>c_string\<close> is the string that starts at the first
  of the given bytes.
\<close>

type_synonym cstr = "u8 list"

definition c_string :: "u8 list \<Rightarrow> cstr" where
  "c_string bs = takeWhile (\<lambda>c. c \<noteq> 0) bs"

definition is_cstr :: "u8 list \<Rightarrow> bool" where
  "is_cstr s \<longleftrightarrow> 0 \<notin> set s"

lemma is_cstr_c_string [simp]: "is_cstr (c_string bs)"
  by (auto simp: is_cstr_def c_string_def dest: set_takeWhileD)

lemma c_string_id [simp]: "is_cstr s \<Longrightarrow> c_string s = s"
  by (auto simp: is_cstr_def c_string_def takeWhile_eq_all_conv)

lemma c_string_append_zero: "is_cstr s \<Longrightarrow> c_string (s @ 0 # r) = s"
  by (induction s) (auto simp: is_cstr_def c_string_def)

lemma is_cstr_Nil [simp]: "is_cstr []"
  by (simp add: is_cstr_def)

lemma is_cstr_Cons [simp]: "is_cstr (c # s) \<longleftrightarrow> c \<noteq> 0 \<and> is_cstr s"
  by (auto simp: is_cstr_def)

lemma is_cstr_append [simp]: "is_cstr (s @ t) \<longleftrightarrow> is_cstr s \<and> is_cstr t"
  by (auto simp: is_cstr_def)

lemma is_cstr_take: "is_cstr s \<Longrightarrow> is_cstr (take n s)"
  by (auto simp: is_cstr_def dest: in_set_takeD)

lemma is_cstr_drop: "is_cstr s \<Longrightarrow> is_cstr (drop n s)"
  by (auto simp: is_cstr_def dest: in_set_dropD)

end
