(* ===== verification/Endian.thy ===== *)
theory Endian
  imports Prelude
begin

text \<open>
  Byte order: \<open>Swap16\<close>, \<open>Swap32\<close>, \<open>Swap64\<close> and \<open>Endian16\<close>,
  \<open>Endian32\<close>, \<open>Endian64\<close> of src/src/Mayaqua/Memory.c, with the host's byte
  order as an explicit parameter, and the network representation of integers as byte
  lists. The main result is that the bytes an integer has in memory after
  \<open>EndianN\<close> are the same on both kinds of host.
\<close>

unbundle bit_operations_syntax

section \<open>Integers as the bytes of memory\<close>

definition be16 :: "u16 \<Rightarrow> u8 list" where
  "be16 v = [ucast (drop_bit 8 v), ucast v]"

definition be32 :: "u32 \<Rightarrow> u8 list" where
  "be32 v = [ucast (drop_bit 24 v), ucast (drop_bit 16 v), ucast (drop_bit 8 v), ucast v]"

definition be64 :: "u64 \<Rightarrow> u8 list" where
  "be64 v = be32 (ucast (drop_bit 32 v)) @ be32 (ucast v)"

fun of_be16 :: "u8 list \<Rightarrow> u16" where
  "of_be16 [a, b] = push_bit 8 (ucast a) OR ucast b"
| "of_be16 _ = 0"

fun of_be32 :: "u8 list \<Rightarrow> u32" where
  "of_be32 [a, b, c, d] =
     push_bit 24 (ucast a) OR push_bit 16 (ucast b) OR push_bit 8 (ucast c) OR ucast d"
| "of_be32 _ = 0"

definition of_be64 :: "u8 list \<Rightarrow> u64" where
  "of_be64 bs = push_bit 32 (ucast (of_be32 (take 4 bs))) OR ucast (of_be32 (drop 4 bs))"

text \<open>The bytes of a variable in the memory of a host; \<open>le\<close> is true on a little-endian one.\<close>

definition mem16 :: "bool \<Rightarrow> u16 \<Rightarrow> u8 list" where
  "mem16 le v = (if le then rev (be16 v) else be16 v)"

definition mem32 :: "bool \<Rightarrow> u32 \<Rightarrow> u8 list" where
  "mem32 le v = (if le then rev (be32 v) else be32 v)"

definition mem64 :: "bool \<Rightarrow> u64 \<Rightarrow> u8 list" where
  "mem64 le v = (if le then rev (be64 v) else be64 v)"

definition of_mem16 :: "bool \<Rightarrow> u8 list \<Rightarrow> u16" where
  "of_mem16 le bs = of_be16 (if le then rev bs else bs)"

definition of_mem32 :: "bool \<Rightarrow> u8 list \<Rightarrow> u32" where
  "of_mem32 le bs = of_be32 (if le then rev bs else bs)"

definition of_mem64 :: "bool \<Rightarrow> u8 list \<Rightarrow> u64" where
  "of_mem64 le bs = of_be64 (if le then rev bs else bs)"

section \<open>Byte swapping\<close>

text \<open>Each swap fills the bytes of its result from those of its argument in reverse.\<close>

definition Swap16 :: "bool \<Rightarrow> u16 \<Rightarrow> u16" where
  "Swap16 le v = (let m = mem16 le v in of_mem16 le [m ! 1, m ! 0])"

definition Swap32 :: "bool \<Rightarrow> u32 \<Rightarrow> u32" where
  "Swap32 le v = (let m = mem32 le v in of_mem32 le [m ! 3, m ! 2, m ! 1, m ! 0])"

definition Swap64 :: "bool \<Rightarrow> u64 \<Rightarrow> u64" where
  "Swap64 le v =
     (let m = mem64 le v in of_mem64 le [m ! 7, m ! 6, m ! 5, m ! 4, m ! 3, m ! 2, m ! 1, m ! 0])"

text \<open>The code looks at the first byte of the integer 1 to learn the order of the host.\<close>

definition Endian16 :: "bool \<Rightarrow> u16 \<Rightarrow> u16" where
  "Endian16 le src = (if hd (mem32 le 1) \<noteq> 0 then Swap16 le src else src)"

definition Endian32 :: "bool \<Rightarrow> u32 \<Rightarrow> u32" where
  "Endian32 le src = (if hd (mem32 le 1) \<noteq> 0 then Swap32 le src else src)"

definition Endian64 :: "bool \<Rightarrow> u64 \<Rightarrow> u64" where
  "Endian64 le src = (if hd (mem32 le 1) \<noteq> 0 then Swap64 le src else src)"

text \<open>The little-endian variants look at the first byte of \<open>0x01000000\<close>.\<close>

definition LittleEndian16 :: "bool \<Rightarrow> u16 \<Rightarrow> u16" where
  "LittleEndian16 le src = (if hd (mem32 le 0x01000000) \<noteq> 0 then Swap16 le src else src)"

definition LittleEndian32 :: "bool \<Rightarrow> u32 \<Rightarrow> u32" where
  "LittleEndian32 le src = (if hd (mem32 le 0x01000000) \<noteq> 0 then Swap32 le src else src)"

definition LittleEndian64 :: "bool \<Rightarrow> u64 \<Rightarrow> u64" where
  "LittleEndian64 le src = (if hd (mem32 le 0x01000000) \<noteq> 0 then Swap64 le src else src)"

section \<open>Lengths and inverses\<close>

lemma length_be16 [simp]: "length (be16 v) = 2"
  by (simp add: be16_def)

lemma length_be32 [simp]: "length (be32 v) = 4"
  by (simp add: be32_def)

lemma length_be64 [simp]: "length (be64 v) = 8"
  by (simp add: be64_def)

lemma length_mem [simp]: "length (mem16 le a) = 2" "length (mem32 le b) = 4" "length (mem64 le c) = 8"
  by (simp_all add: mem16_def mem32_def mem64_def)

lemma of_be16_be16 [simp]: "of_be16 (be16 v) = v"
  by (rule bit_word_eqI) (auto simp: be16_def bit_simps)

lemma of_be32_be32 [simp]: "of_be32 (be32 v) = v"
proof (rule bit_word_eqI)
  fix n
  assume "n < LENGTH(32)"
  consider "n < 8" | "8 \<le> n" "n < 16" | "16 \<le> n" "n < 24" | "24 \<le> n"
    by linarith
  then show "bit (of_be32 (be32 v)) n = bit v n"
    using \<open>n < LENGTH(32)\<close> by cases (auto simp: be32_def bit_simps)
qed

lemma of_be64_be64 [simp]: "of_be64 (be64 v) = v"
  by (rule bit_word_eqI) (auto simp: be64_def of_be64_def bit_simps)

lemma be16_of_be16: "length bs = 2 \<Longrightarrow> be16 (of_be16 bs) = bs"
  by (cases bs rule: of_be16.cases)
    (auto simp: be16_def bit_simps bit_byte_beyond intro!: bit_word_eqI)

lemma be32_of_be32: "length bs = 4 \<Longrightarrow> be32 (of_be32 bs) = bs"
  by (cases bs rule: of_be32.cases)
    (auto simp: be32_def bit_simps bit_byte_beyond intro!: bit_word_eqI)

lemma be64_of_be64:
  assumes "length bs = 8"
  shows "be64 (of_be64 bs) = bs"
proof -
  have hi: "ucast (drop_bit 32 (of_be64 bs)) = of_be32 (take 4 bs)"
    by (rule bit_word_eqI) (auto simp: of_be64_def bit_simps dest: bit_imp_le_length)
  have lo: "ucast (of_be64 bs) = of_be32 (drop 4 bs)"
    by (rule bit_word_eqI) (auto simp: of_be64_def bit_simps dest: bit_imp_le_length)
  show ?thesis
    using assms by (simp add: be64_def hi lo be32_of_be32)
qed

lemma of_mem_mem [simp]:
  "of_mem16 le (mem16 le a) = a" "of_mem32 le (mem32 le b) = b" "of_mem64 le (mem64 le c) = c"
  by (simp_all add: of_mem16_def mem16_def of_mem32_def mem32_def of_mem64_def mem64_def)

lemma mem_of_mem:
  "length bs = 2 \<Longrightarrow> mem16 le (of_mem16 le bs) = bs"
  "length bs = 4 \<Longrightarrow> mem32 le (of_mem32 le bs) = bs"
  "length bs = 8 \<Longrightarrow> mem64 le (of_mem64 le bs) = bs"
  by (simp_all add: of_mem16_def mem16_def of_mem32_def mem32_def of_mem64_def mem64_def
      be16_of_be16 be32_of_be32 be64_of_be64)

lemma rev_pick2: "length m = 2 \<Longrightarrow> [m ! 1, m ! 0] = rev m"
  by (auto simp: numeral_2_eq_2 length_Suc_conv)

lemma rev_pick4: "length m = 4 \<Longrightarrow> [m ! 3, m ! 2, m ! 1, m ! 0] = rev m"
  by (auto simp: eval_nat_numeral length_Suc_conv)

lemma rev_pick8:
  "length m = 8 \<Longrightarrow> [m ! 7, m ! 6, m ! 5, m ! 4, m ! 3, m ! 2, m ! 1, m ! 0] = rev m"
  by (auto simp: eval_nat_numeral length_Suc_conv)

lemma mem_Swap:
  "mem16 le (Swap16 le a) = rev (mem16 le a)"
  "mem32 le (Swap32 le b) = rev (mem32 le b)"
  "mem64 le (Swap64 le c) = rev (mem64 le c)"
  by (simp_all add: Swap16_def Swap32_def Swap64_def Let_def rev_pick2 rev_pick4 rev_pick8 mem_of_mem
      del: One_nat_def)

lemma host_test: "(hd (mem32 le 1) \<noteq> 0) = le" "(hd (mem32 le 0x01000000) \<noteq> 0) = (\<not> le)"
  by (simp_all add: mem32_def be32_def)

lemma mem_Endian [simp]:
  "mem16 le (Endian16 le a) = be16 a"
  "mem32 le (Endian32 le b) = be32 b"
  "mem64 le (Endian64 le c) = be64 c"
  by (auto simp: Endian16_def Endian32_def Endian64_def host_test mem_Swap)
    (simp_all add: mem16_def mem32_def mem64_def)

lemma Endian_eq_of_mem:
  "Endian16 le a = of_mem16 le (be16 a)"
  "Endian32 le b = of_mem32 le (be32 b)"
  "Endian64 le c = of_mem64 le (be64 c)"
  by (metis mem_Endian of_mem_mem)+

lemma Endian_involution [simp]:
  "Endian16 le (Endian16 le a) = a"
  "Endian32 le (Endian32 le b) = b"
  "Endian64 le (Endian64 le c) = c"
  by (auto simp: Endian_eq_of_mem of_mem16_def of_mem32_def of_mem64_def be16_of_be16 be32_of_be32
      be64_of_be64)

lemma Endian_of_mem:
  "length bs = 2 \<Longrightarrow> Endian16 le (of_mem16 le bs) = of_be16 bs"
  "length bs = 4 \<Longrightarrow> Endian32 le (of_mem32 le bs) = of_be32 bs"
  "length bs = 8 \<Longrightarrow> Endian64 le (of_mem64 le bs) = of_be64 bs"
  by (auto simp: Endian_eq_of_mem of_mem16_def of_mem32_def of_mem64_def be16_of_be16 be32_of_be32
      be64_of_be64)

end
