(* ===== verification/Buf.thy ===== *)
theory Buf
  imports Endian
begin

text \<open>
  The growable byte buffer \<open>BUF\<close> of src/src/Mayaqua/Memory.c: an allocated block,
  the number of bytes in use and a cursor, all counted in \<open>UINT\<close>s that wrap around.
  Every operation that reads or writes at the cursor is here, down to the string and
  integer encodings the PACK format is made of. The abstract view of a well-formed buffer
  is its contents and the part of them that is still unread; the lemmas say what each
  operation does to that view, and under which bounds no access leaves the block.
\<close>

section \<open>State\<close>

definition INIT_BUF_SIZE :: u32 where
  "INIT_BUF_SIZE = 10240"

record BUF =
  Buf :: "u8 block"
  Size :: u32
  SizeReserved :: u32
  Current :: u32

text \<open>The byte order of the machine. No lemma depends on which it is.\<close>

definition host_le :: bool where
  "host_le = True"

section \<open>Operations\<close>

definition NewBuf :: "BUF option" where
  "NewBuf =
     do {
       m \<leftarrow> MallocEx INIT_BUF_SIZE;
       Some \<lparr>Buf = m, Size = 0, SizeReserved = INIT_BUF_SIZE, Current = 0\<rparr>
     }"

definition ClearBufEx :: "BUF \<Rightarrow> bool \<Rightarrow> BUF option" where
  "ClearBufEx b init_buffer =
     (let b1 = b\<lparr>Size := 0, Current := 0\<rparr>
      in if init_buffer \<and> SizeReserved b1 \<noteq> INIT_BUF_SIZE
         then do {
           m \<leftarrow> MallocEx INIT_BUF_SIZE;
           Some (b1\<lparr>Buf := m, SizeReserved := INIT_BUF_SIZE\<rparr>)
         }
         else Some b1)"

definition ClearBuf :: "BUF \<Rightarrow> BUF option" where
  "ClearBuf b = ClearBufEx b False"

text \<open>
  The doubling loop of \<open>AdjustBufSize\<close>: it aborts the process past
  \<open>0x7FFFFFFF\<close>, and would not return from a reserved size of 0.
\<close>

partial_function (option) adjust_loop :: "u32 \<Rightarrow> u32 \<Rightarrow> u32 option" where
  "adjust_loop reserved new_size =
     (if reserved < new_size
      then (if 0x7FFFFFFF < reserved then None else adjust_loop (reserved * 2) new_size)
      else Some reserved)"

definition AdjustBufSize :: "BUF \<Rightarrow> u32 \<Rightarrow> BUF option" where
  "AdjustBufSize b new_size =
     (if new_size \<le> SizeReserved b then Some b
      else do {
        r \<leftarrow> adjust_loop (SizeReserved b) new_size;
        m \<leftarrow> ReAlloc (Buf b) r;
        Some (b\<lparr>Buf := m, SizeReserved := r\<rparr>)
      })"

text \<open>\<open>WriteBuf\<close> copies \<open>sz\<close> cells from the block \<open>p\<close>.\<close>

definition WriteBuf :: "BUF \<Rightarrow> u8 block \<Rightarrow> u32 \<Rightarrow> BUF option" where
  "WriteBuf b p sz =
     (if sz = 0 then Some b
      else let new_size = Current b + sz
      in do {
        b1 \<leftarrow> (if Size b < new_size then AdjustBufSize b new_size else Some b);
        d \<leftarrow> mem_read p 0 (unat sz);
        m \<leftarrow> mem_write (Buf b1) (unat (Current b1)) d;
        Some (b1\<lparr>Buf := m, Current := Current b1 + sz, Size := new_size\<rparr>)
      })"

text \<open>
  \<open>ReadBuf\<close> returns the number of bytes read and, when a destination is given
  (\<open>want\<close>), what is then in its \<open>sz\<close> bytes.
\<close>

definition ReadBuf :: "BUF \<Rightarrow> bool \<Rightarrow> u32 \<Rightarrow> (u32 \<times> u8 block \<times> BUF) option" where
  "ReadBuf b want sz =
     (if sz = 0 then Some (0, [], b)
      else let over = (Size b \<le> Current b + sz);
               size_read = (if over then Size b - Current b else sz)
      in do {
        z \<leftarrow> (if want \<and> over
             then (if sz < size_read then None
                   else Some (replicate (unat (sz - size_read)) (Some 0)))
             else Some []);
        d \<leftarrow> (if want then mem_read (Buf b) (unat (Current b)) (unat size_read) else Some []);
        Some (size_read, d @ z, b\<lparr>Current := Current b + size_read\<rparr>)
      })"

definition LESS :: "u32 \<Rightarrow> u32 \<Rightarrow> u32" where
  "LESS a max_value = (if a \<le> max_value then a else max_value)"

definition MORE :: "u32 \<Rightarrow> u32 \<Rightarrow> u32" where
  "MORE a min_value = (if a \<ge> min_value then a else min_value)"

definition MAKESURE :: "u32 \<Rightarrow> u32 \<Rightarrow> u32 \<Rightarrow> u32" where
  "MAKESURE a b c = (if b \<le> c then MORE (LESS a c) b else MORE (LESS a b) c)"

definition SeekBuf :: "BUF \<Rightarrow> u32 \<Rightarrow> int \<Rightarrow> BUF" where
  "SeekBuf b offset mode =
     (let new_pos =
            (if mode = 0 then offset
             else if mode > 0 then Current b + offset
             else if Current b \<ge> offset then Current b - offset else 0)
      in b\<lparr>Current := MAKESURE new_pos 0 (Size b)\<rparr>)"

definition SeekBufToBegin :: "BUF \<Rightarrow> BUF" where
  "SeekBufToBegin b = SeekBuf b 0 0"

definition SeekBufToEnd :: "BUF \<Rightarrow> BUF" where
  "SeekBufToEnd b = SeekBuf b (Size b) 0"

definition MemToBuf :: "u8 block \<Rightarrow> u32 \<Rightarrow> BUF option" where
  "MemToBuf data sz =
     do {
       b \<leftarrow> NewBuf;
       b1 \<leftarrow> WriteBuf b data sz;
       Some (SeekBuf b1 0 0)
     }"

definition NewBufFromMemory :: "u8 block \<Rightarrow> u32 \<Rightarrow> BUF option" where
  "NewBufFromMemory buf sz =
     do {
       b \<leftarrow> NewBuf;
       b1 \<leftarrow> WriteBuf b buf sz;
       Some (SeekBufToBegin b1)
     }"

definition WriteBufInt64 :: "BUF \<Rightarrow> u64 \<Rightarrow> BUF option" where
  "WriteBufInt64 b v = WriteBuf b (map Some (mem64 host_le (Endian64 host_le v))) 8"

definition WriteBufInt :: "BUF \<Rightarrow> u32 \<Rightarrow> BUF option" where
  "WriteBufInt b v = WriteBuf b (map Some (mem32 host_le (Endian32 host_le v))) 4"

definition WriteBufShort :: "BUF \<Rightarrow> u16 \<Rightarrow> BUF option" where
  "WriteBufShort b v = WriteBuf b (map Some (mem16 host_le (Endian16 host_le v))) 2"

definition WriteBufChar :: "BUF \<Rightarrow> u8 \<Rightarrow> BUF option" where
  "WriteBufChar b uc = WriteBuf b [Some uc] 1"

definition ReadBufChar :: "BUF \<Rightarrow> (u8 \<times> BUF) option" where
  "ReadBufChar b =
     do {
       (n, d, b1) \<leftarrow> ReadBuf b True 1;
       if n \<noteq> 1 then Some (0, b1)
       else do { bs \<leftarrow> cells_value d; Some (hd bs, b1) }
     }"

definition ReadBufInt64 :: "BUF \<Rightarrow> (u64 \<times> BUF) option" where
  "ReadBufInt64 b =
     do {
       (n, d, b1) \<leftarrow> ReadBuf b True 8;
       if n \<noteq> 8 then Some (0, b1)
       else do { bs \<leftarrow> cells_value d; Some (Endian64 host_le (of_mem64 host_le bs), b1) }
     }"

definition ReadBufInt :: "BUF \<Rightarrow> (u32 \<times> BUF) option" where
  "ReadBufInt b =
     do {
       (n, d, b1) \<leftarrow> ReadBuf b True 4;
       if n \<noteq> 4 then Some (0, b1)
       else do { bs \<leftarrow> cells_value d; Some (Endian32 host_le (of_mem32 host_le bs), b1) }
     }"

definition ReadBufShort :: "BUF \<Rightarrow> (u16 \<times> BUF) option" where
  "ReadBufShort b =
     do {
       (n, d, b1) \<leftarrow> ReadBuf b True 2;
       if n \<noteq> 2 then Some (0, b1)
       else do { bs \<leftarrow> cells_value d; Some (Endian16 host_le (of_mem16 host_le bs), b1) }
     }"

text \<open>Strings carry their length plus one, then their bytes without the terminator.\<close>

definition WriteBufStr :: "BUF \<Rightarrow> cstr \<Rightarrow> BUF option" where
  "WriteBufStr b str =
     (let len = of_nat (length str) :: u32
      in do {
        b1 \<leftarrow> WriteBufInt b (len + 1);
        WriteBuf b1 (map Some (str @ [0])) len
      })"

definition AddBufStr :: "BUF \<Rightarrow> cstr \<Rightarrow> BUF option" where
  "AddBufStr b str = WriteBuf b (map Some (str @ [0])) (of_nat (length str))"

definition WriteBufLine :: "BUF \<Rightarrow> cstr \<Rightarrow> BUF option" where
  "WriteBufLine b str =
     do {
       b1 \<leftarrow> WriteBuf b (map Some (str @ [0])) (of_nat (length str));
       WriteBuf b1 (map Some [13, 10, 0]) 2
     }"

text \<open>
  \<open>ReadBufStr\<close> fails with \<^term>\<open>None\<close> in the first component; otherwise it gives the bytes
  it put in \<open>str\<close> before the terminating zero.
\<close>

definition ReadBufStr :: "BUF \<Rightarrow> u32 \<Rightarrow> (u8 list option \<times> BUF) option" where
  "ReadBufStr b sz =
     (if sz = 0 then Some (None, b)
      else do {
        (len0, b1) \<leftarrow> ReadBufInt b;
        if len0 = 0 then Some (None, b1)
        else let len = len0 - 1;
                 size1 = (if len \<le> sz - 1 then len + 1 else sz);
                 read_size = min len (size1 - 1)
        in do {
          (n, d, b2) \<leftarrow> ReadBuf b1 True read_size;
          if n \<noteq> read_size then Some (None, b2)
          else do {
            b3 \<leftarrow> (if read_size < len
                  then do { (_, _, b3) \<leftarrow> ReadBuf b2 False (len - read_size); Some b3 }
                  else Some b2);
            bs \<leftarrow> cells_value d;
            Some (Some bs, b3)
          }
        }
      })"

definition WriteBufBuf :: "BUF \<Rightarrow> BUF \<Rightarrow> BUF option" where
  "WriteBufBuf b bb = WriteBuf b (Buf bb) (Size bb)"

definition WriteBufBufWithOffset :: "BUF \<Rightarrow> BUF \<Rightarrow> BUF option" where
  "WriteBufBufWithOffset b bb =
     WriteBuf b (drop (unat (Current bb)) (Buf bb)) (Size bb - Current bb)"

definition BufSkipUtf8Bom :: "BUF \<Rightarrow> (bool \<times> BUF) option" where
  "BufSkipUtf8Bom b =
     (let b1 = SeekBufToBegin b
      in if Size b1 \<ge> 3
         then do {
           d \<leftarrow> mem_read (Buf b1) 0 3;
           bs \<leftarrow> cells_value d;
           if bs ! 0 = 0xEF \<and> bs ! 1 = 0xBB \<and> bs ! 2 = 0xBF
           then Some (True, SeekBuf b1 3 1) else Some (False, b1)
         }
         else Some (False, b1))"

definition ReadBufFromBuf :: "BUF \<Rightarrow> u32 \<Rightarrow> (BUF option \<times> BUF) option" where
  "ReadBufFromBuf b sz =
     do {
       (n, d, b1) \<leftarrow> ReadBuf b True sz;
       if n \<noteq> sz then Some (None, b1)
       else do {
         r \<leftarrow> NewBuf;
         r1 \<leftarrow> WriteBuf r d sz;
         Some (Some (SeekBuf r1 0 0), b1)
       }
     }"

definition ReadRemainBuf :: "BUF \<Rightarrow> (BUF option \<times> BUF) option" where
  "ReadRemainBuf b =
     (if Size b < Current b then Some (None, b)
      else ReadBufFromBuf b (Size b - Current b))"

definition ReadBufRemainSize :: "BUF \<Rightarrow> u32" where
  "ReadBufRemainSize b = (if Size b < Current b then 0 else Size b - Current b)"

definition CloneBuf :: "BUF \<Rightarrow> BUF option" where
  "CloneBuf b = MemToBuf (Buf b) (Size b)"

definition CompareBuf :: "BUF \<Rightarrow> BUF \<Rightarrow> bool option" where
  "CompareBuf b1 b2 =
     (if Size b1 \<noteq> Size b2 then Some False
      else do {
        d1 \<leftarrow> mem_read (Buf b1) 0 (unat (Size b1));
        d2 \<leftarrow> mem_read (Buf b2) 0 (unat (Size b1));
        x1 \<leftarrow> cells_value d1;
        x2 \<leftarrow> cells_value d2;
        Some (x1 = x2)
      })"

section \<open>Well-formed buffers and their abstract view\<close>

text \<open>
  The reserved size of a buffer is always \<open>10240 * 2 ^ k\<close>; the doubling loop stops at
  the first of these past \<open>0x7FFFFFFF\<close>, which bounds what a buffer can hold.
\<close>

abbreviation BUF_MAX :: nat where
  "BUF_MAX \<equiv> 2684354560"

definition buf_wf :: "BUF \<Rightarrow> bool" where
  "buf_wf b \<longleftrightarrow>
     (\<exists>k \<le> 18. unat (SizeReserved b) = 10240 * 2 ^ k) \<and>
     length (Buf b) = unat (SizeReserved b) \<and>
     unat (Size b) \<le> unat (SizeReserved b) \<and> unat (Current b) \<le> unat (Size b) \<and>
     None \<notin> set (take (unat (Size b)) (Buf b))"

definition contents :: "BUF \<Rightarrow> u8 list" where
  "contents b = map the (take (unat (Size b)) (Buf b))"

definition unread :: "BUF \<Rightarrow> u8 list" where
  "unread b = drop (unat (Current b)) (contents b)"

text \<open>A buffer being written at its end, and one being read.\<close>

definition writing :: "BUF \<Rightarrow> u8 list \<Rightarrow> bool" where
  "writing b bs \<longleftrightarrow> buf_wf b \<and> Current b = Size b \<and> contents b = bs"

definition reading :: "BUF \<Rightarrow> u8 list \<Rightarrow> bool" where
  "reading b bs \<longleftrightarrow> buf_wf b \<and> unread b = bs"

lemma pow_le_18: "k \<le> 18 \<Longrightarrow> (2 :: nat) ^ k \<le> 262144"
  using power_increasing [of k 18 "2 :: nat"] by simp

lemma buf_wf_bounds:
  assumes "buf_wf b"
  shows "unat (SizeReserved b) \<le> BUF_MAX" and "unat (Size b) \<le> BUF_MAX"
    and "unat (Current b) \<le> BUF_MAX" and "unat (Current b) \<le> unat (Size b)"
    and "unat (Size b) \<le> length (Buf b)"
proof -
  from assms obtain k where "k \<le> 18" and k: "unat (SizeReserved b) = 10240 * 2 ^ k"
    by (auto simp: buf_wf_def)
  then show r: "unat (SizeReserved b) \<le> BUF_MAX"
    using pow_le_18 [of k] by simp
  from assms r show "unat (Size b) \<le> BUF_MAX" and "unat (Current b) \<le> BUF_MAX"
    and "unat (Current b) \<le> unat (Size b)" and "unat (Size b) \<le> length (Buf b)"
    by (auto simp: buf_wf_def)
qed

lemma length_contents [buf_simps]: "buf_wf b \<Longrightarrow> length (contents b) = unat (Size b)"
  using buf_wf_bounds(5) [of b] by (simp add: contents_def)

lemma length_unread [buf_simps]:
  "buf_wf b \<Longrightarrow> length (unread b) = unat (Size b) - unat (Current b)"
  by (simp add: unread_def length_contents)

lemma buf_wf_cells: "buf_wf b \<Longrightarrow> take (unat (Size b)) (Buf b) = map Some (contents b)"
  unfolding contents_def buf_wf_def by (metis map_Some_the)

lemma reading_length_max: "reading b bs \<Longrightarrow> length bs \<le> BUF_MAX"
  using buf_wf_bounds(2) [of b] by (auto simp: reading_def length_unread)

lemma writing_length: "writing b bs \<Longrightarrow> unat (Size b) = length bs"
  by (auto simp: writing_def length_contents)

section \<open>Growing\<close>

lemma adjust_loop_ok:
  assumes "k \<le> 18" and "unat r = 10240 * 2 ^ k" and "unat n \<le> BUF_MAX"
  shows "\<exists>r' k'. adjust_loop r n = Some r' \<and> k' \<le> 18 \<and> unat r' = 10240 * 2 ^ k'
      \<and> unat n \<le> unat r' \<and> unat r \<le> unat r'"
  using assms
proof (induction "18 - k" arbitrary: k r)
  case 0
  then have "unat r = BUF_MAX" by simp
  with 0 show ?case
    by (intro exI [of _ r] exI [of _ k]) (simp add: adjust_loop.simps unat_order)
next
  case (Suc d)
  show ?case
  proof (cases "r < n")
    case True
    from Suc.hyps(2) have k: "Suc k \<le> 18" by linarith
    then have "unat r \<le> 1342177280"
      using power_increasing [of k 17 "2 :: nat"] Suc.prems(2) by simp
    moreover from this have "unat (r * 2) = 10240 * 2 ^ Suc k"
      using Suc.prems(2) by (simp add: nowrap)
    moreover have "d = 18 - Suc k" using Suc.hyps(2) by linarith
    ultimately obtain r' k' where IH: "adjust_loop (r * 2) n = Some r'" "k' \<le> 18"
      "unat r' = 10240 * 2 ^ k'" "unat n \<le> unat r'" "unat (r * 2) \<le> unat r'"
      using Suc.hyps(1) [OF _ k _ Suc.prems(3), of "r * 2"] by blast
    have "adjust_loop r n = adjust_loop (r * 2) n"
      using True \<open>unat r \<le> 1342177280\<close> by (simp add: adjust_loop.simps [of r] unat_order)
    then have "adjust_loop r n = Some r'" using IH(1) by simp
    moreover have "unat r \<le> unat (r * 2)"
      using \<open>unat (r * 2) = 10240 * 2 ^ Suc k\<close> Suc.prems(2) by simp
    then have "unat r \<le> unat r'" using IH(5) by linarith
    ultimately show ?thesis using IH(2,3,4) by blast
  next
    case False
    with Suc.prems show ?thesis
      by (intro exI [of _ r] exI [of _ k]) (simp add: adjust_loop.simps unat_order)
  qed
qed

lemma adjust_loop_too_large:
  assumes "k \<le> 18" and "unat r = 10240 * 2 ^ k" and "BUF_MAX < unat n"
  shows "adjust_loop r n = None"
  using assms
proof (induction "18 - k" arbitrary: k r)
  case 0
  then have "unat r = BUF_MAX" by simp
  with 0 show ?case by (simp add: adjust_loop.simps unat_order)
next
  case (Suc d)
  from Suc.hyps(2) have k: "Suc k \<le> 18" by linarith
  then have r: "unat r \<le> 1342177280"
    using power_increasing [of k 17 "2 :: nat"] Suc.prems(2) by simp
  then have "unat (r * 2) = 10240 * 2 ^ Suc k"
    using Suc.prems(2) by (simp add: nowrap)
  moreover have "d = 18 - Suc k" using Suc.hyps(2) by linarith
  ultimately have "adjust_loop (r * 2) n = None"
    using Suc.hyps(1) [OF _ k _ Suc.prems(3), of "r * 2"] by blast
  then show ?case
    using r Suc.prems(3) by (simp add: adjust_loop.simps [of r] unat_order)
qed

lemma AdjustBufSize_ok:
  assumes wf: "buf_wf b" and n: "unat n \<le> BUF_MAX"
  shows "\<exists>b'. AdjustBufSize b n = Some b' \<and> buf_wf b' \<and> Size b' = Size b \<and> Current b' = Current b
      \<and> contents b' = contents b \<and> unat n \<le> length (Buf b')"
proof (cases "n \<le> SizeReserved b")
  case True
  with wf show ?thesis
    by (auto simp: AdjustBufSize_def buf_wf_def unat_order)
next
  case False
  from wf obtain k where "k \<le> 18" "unat (SizeReserved b) = 10240 * 2 ^ k"
    by (auto simp: buf_wf_def)
  with n obtain r k' where r: "adjust_loop (SizeReserved b) n = Some r" "k' \<le> 18"
    "unat r = 10240 * 2 ^ k'" "unat n \<le> unat r" "unat (SizeReserved b) \<le> unat r"
    using adjust_loop_ok by blast
  have len: "length (Buf b) = unat (SizeReserved b)" "unat (Size b) \<le> unat (SizeReserved b)"
    using wf by (auto simp: buf_wf_def)
  have "unat r \<le> 4294967231" using r(2,3) pow_le_18 [of k'] by simp
  then have m: "ReAlloc (Buf b) r = Some (Buf b @ replicate (unat r - length (Buf b)) None)"
    using len r(5) by (intro ReAlloc_grow) (simp_all add: unat_order)
  show ?thesis
    using False r wf len by (auto simp: AdjustBufSize_def m buf_wf_def contents_def)
qed

lemma AdjustBufSize_too_large:
  assumes "buf_wf b" and "BUF_MAX < unat n"
  shows "AdjustBufSize b n = None"
proof -
  from assms(1) obtain k where "k \<le> 18" "unat (SizeReserved b) = 10240 * 2 ^ k"
    by (auto simp: buf_wf_def)
  then have "adjust_loop (SizeReserved b) n = None"
    using assms(2) by (rule adjust_loop_too_large)
  moreover have "\<not> n \<le> SizeReserved b"
    using buf_wf_bounds(1) [OF assms(1)] assms(2) by (simp add: unat_order)
  ultimately show ?thesis by (simp add: AdjustBufSize_def)
qed

section \<open>Writing\<close>

lemma NewBuf_writing: "\<exists>b. NewBuf = Some b \<and> writing b []"
  by (auto simp: NewBuf_def INIT_BUF_SIZE_def MallocEx_def writing_def buf_wf_def contents_def
      intro: exI [of _ 0])

text \<open>
  What \<open>WriteBuf\<close> does to a well-formed buffer: the data replaces everything from the
  cursor on, whatever was there before.
\<close>

lemma WriteBuf_spec:
  assumes wf: "buf_wf b" and p: "unat sz \<le> length p" "None \<notin> set (take (unat sz) p)"
    and sz: "sz \<noteq> 0" and max: "unat (Current b) + unat sz \<le> BUF_MAX"
  shows "\<exists>b'. WriteBuf b p sz = Some b' \<and> buf_wf b' \<and> Current b' = Size b'
      \<and> contents b' = take (unat (Current b)) (contents b) @ map the (take (unat sz) p)"
proof -
  let ?new = "Current b + sz"
  have new: "unat ?new = unat (Current b) + unat sz"
    using max by (simp add: nowrap)
  have "\<exists>b1. (if Size b < ?new then AdjustBufSize b ?new else Some b) = Some b1 \<and> buf_wf b1
      \<and> Size b1 = Size b \<and> Current b1 = Current b \<and> contents b1 = contents b
      \<and> unat ?new \<le> length (Buf b1)"
    using AdjustBufSize_ok [OF wf, of ?new] wf max new
    by (auto simp: buf_wf_def unat_order)
  then obtain b1 where b1: "(if Size b < ?new then AdjustBufSize b ?new else Some b) = Some b1"
    "buf_wf b1" "Size b1 = Size b" "Current b1 = Current b" "contents b1 = contents b"
    "unat ?new \<le> length (Buf b1)"
    by blast
  let ?d = "take (unat sz) p" and ?c = "unat (Current b)"
  define m where "m = take ?c (Buf b1) @ ?d @ drop (?c + length ?d) (Buf b1)"
  let ?b' = "b1\<lparr>Buf := m, Current := ?new, Size := ?new\<rparr>"
  have cur: "?c \<le> unat (Size b)" using buf_wf_bounds(4) [OF wf] .
  have w: "WriteBuf b p sz = Some ?b'"
    using sz p b1 new by (simp add: WriteBuf_def Let_def mem_simps m_def)
  have front: "take ?c (Buf b1) = map Some (take ?c (contents b))"
    using buf_wf_cells [OF b1(2)] b1(3,5) cur by (metis min_absorb1 take_map take_take)
  have cells: "take (unat ?new) m = map Some (take ?c (contents b)) @ ?d"
    using p(1) b1(6) new by (simp add: front [symmetric] min_absorb2 m_def)
  have len: "length m = length (Buf b1)"
    using p(1) b1(6) new by (simp add: m_def)
  have "None \<notin> set (take (unat ?new) m)"
    unfolding cells using p(2) by auto
  then have "buf_wf ?b'"
    using b1(2,6) len by (simp add: buf_wf_def)
  moreover have "contents ?b' = take ?c (contents b) @ map the ?d"
    using cells by (simp add: contents_def)
  ultimately show ?thesis using w by auto
qed

lemma WriteBuf_append:
  assumes "writing b bs" and "length bs + length d \<le> BUF_MAX"
  shows "\<exists>b'. WriteBuf b (map Some d @ r) (of_nat (length d)) = Some b' \<and> writing b' (bs @ d)"
proof (cases "d = []")
  case True
  with assms show ?thesis by (simp add: WriteBuf_def)
next
  case False
  have n: "unat (of_nat (length d) :: u32) = length d"
    using assms(2) by (simp add: nowrap)
  with False have nz: "(of_nat (length d) :: u32) \<noteq> 0"
    by (metis length_0_conv unat_0)
  have c: "unat (Current b) = length bs"
    using assms(1) writing_length [OF assms(1)] by (simp add: writing_def)
  show ?thesis
    using WriteBuf_spec [of b "of_nat (length d)" "map Some d @ r", OF _ _ _ nz] assms n c
    by (auto simp: writing_def)
qed

lemma WriteBuf_append_exact:
  assumes "writing b bs" and "length bs + length d \<le> BUF_MAX" and "unat n = length d"
  shows "\<exists>b'. WriteBuf b (map Some d) n = Some b' \<and> writing b' (bs @ d)"
proof -
  have "n = of_nat (length d)" using assms(3) by (metis of_nat_unat32)
  then show ?thesis using WriteBuf_append [OF assms(1,2), of "[]"] by simp
qed

lemma WriteBufInt_append:
  "writing b bs \<Longrightarrow> length bs + 4 \<le> BUF_MAX \<Longrightarrow>
   \<exists>b'. WriteBufInt b v = Some b' \<and> writing b' (bs @ be32 v)"
  unfolding WriteBufInt_def mem_Endian by (rule WriteBuf_append_exact) auto

lemma WriteBufInt64_append:
  "writing b bs \<Longrightarrow> length bs + 8 \<le> BUF_MAX \<Longrightarrow>
   \<exists>b'. WriteBufInt64 b v = Some b' \<and> writing b' (bs @ be64 v)"
  unfolding WriteBufInt64_def mem_Endian by (rule WriteBuf_append_exact) auto

lemma WriteBufShort_append:
  "writing b bs \<Longrightarrow> length bs + 2 \<le> BUF_MAX \<Longrightarrow>
   \<exists>b'. WriteBufShort b v = Some b' \<and> writing b' (bs @ be16 v)"
  unfolding WriteBufShort_def mem_Endian by (rule WriteBuf_append_exact) auto

lemma WriteBufChar_append:
  "writing b bs \<Longrightarrow> length bs + 1 \<le> BUF_MAX \<Longrightarrow>
   \<exists>b'. WriteBufChar b v = Some b' \<and> writing b' (bs @ [v])"
  unfolding WriteBufChar_def using WriteBuf_append_exact [of b bs "[v]" 1] by simp

lemma WriteBufStr_append:
  assumes "writing b bs" and "length bs + 4 + length str \<le> BUF_MAX"
  shows "\<exists>b'. WriteBufStr b str = Some b'
      \<and> writing b' (bs @ be32 (of_nat (length str) + 1) @ str)"
proof -
  obtain b1 where b1: "WriteBufInt b (of_nat (length str) + 1) = Some b1"
    "writing b1 (bs @ be32 (of_nat (length str) + 1))"
    using WriteBufInt_append [OF assms(1)] assms(2) by force
  then show ?thesis
    using WriteBuf_append [OF b1(2), of str "[Some 0]"] assms(2) by (simp add: WriteBufStr_def)
qed

section \<open>Reading\<close>

text \<open>
  Up to this size a read cannot wrap around, whatever the cursor of a well-formed
  buffer is.
\<close>

abbreviation READ_SAFE :: nat where
  "READ_SAFE \<equiv> 1610612735"

lemma ReadBuf_spec:
  assumes "reading b bs" and sz: "unat sz \<le> READ_SAFE"
  shows "\<exists>b'. ReadBuf b w sz = Some (of_nat (min (unat sz) (length bs)),
        if w then map Some (take (unat sz) bs) @ replicate (unat sz - length bs) (Some 0) else [], b')
      \<and> reading b' (drop (unat sz) bs) \<and> contents b' = contents b"
proof (cases "sz = 0")
  case True
  with assms show ?thesis by (auto simp: ReadBuf_def)
next
  case False
  from assms have wf: "buf_wf b" and bs: "bs = unread b" by (auto simp: reading_def)
  note bounds = buf_wf_bounds [OF wf]
  let ?c = "unat (Current b)" and ?s = "unat (Size b)" and ?n = "min (unat sz) (length bs)"
  have len: "length bs = ?s - ?c" by (simp add: bs length_unread wf)
  define n where "n = (if Size b \<le> Current b + sz then Size b - Current b else sz)"
  have sum: "unat (Current b + sz) = ?c + unat sz"
    using bounds(3) sz by (simp add: nowrap)
  have sr: "unat n = ?n"
    using bounds(4) by (auto simp: n_def len unat_order sum nowrap)
  have sr': "n = of_nat ?n" by (simp only: sr [symmetric] of_nat_unat32)
  have over: "(Size b \<le> Current b + sz) = (length bs \<le> unat sz)"
    using bounds(4) by (auto simp: len unat_order sum)
  have pad: "\<not> sz < n" "unat (sz - n) = unat sz - length bs"
    using sr by (auto simp: unat_order nowrap)
  let ?b' = "b\<lparr>Current := Current b + n\<rparr>"
  have cur: "unat (Current b + n) = ?c + ?n"
    using sr bounds(2,4) len by (subst unat_add32) auto
  have cells: "take ?n (drop ?c (Buf b)) = map Some (take (unat sz) bs)"
  proof -
    have "take ?n (drop ?c (Buf b)) = take ?n (drop ?c (take ?s (Buf b)))"
      using len by (simp add: drop_take take_take min_def)
    also have "\<dots> = map Some (take ?n (unread b))"
      by (simp add: buf_wf_cells [OF wf] unread_def take_map drop_map)
    finally show ?thesis by (simp add: bs [symmetric] min_def)
  qed
  have read: "mem_read (Buf b) ?c ?n = Some (take ?n (drop ?c (Buf b)))"
    using bounds(4,5) len by (intro mem_read_ok) auto
  have "ReadBuf b w sz = Some (n, if w then map Some (take (unat sz) bs) @
      replicate (unat sz - length bs) (Some 0) else [], ?b')"
    unfolding ReadBuf_def Let_def n_def [symmetric]
    using False pad over read sr cells by (auto simp: min_def split: if_splits)
  moreover have same: "contents ?b' = contents b" by (simp add: contents_def)
  moreover have "reading ?b' (drop (unat sz) bs)"
  proof -
    have "?c + ?n \<le> ?s" using bounds(4) len by auto
    then have "buf_wf ?b'" using wf cur by (simp add: buf_wf_def)
    moreover have "unread ?b' = drop ?n bs"
      using cur same by (simp add: unread_def bs add.commute)
    ultimately show ?thesis by (simp add: reading_def min_def)
  qed
  ultimately show ?thesis unfolding sr' by blast
qed

lemma ReadBuf_exact:
  assumes "reading b (d @ r)" and "unat sz = length d" and "length d \<le> READ_SAFE"
  shows "\<exists>b'. ReadBuf b True sz = Some (sz, map Some d, b') \<and> reading b' r"
proof -
  have sz: "sz = of_nat (length d)" using assms(2) by (metis of_nat_unat32)
  show ?thesis
    using ReadBuf_spec [OF assms(1), of sz True] assms(2,3) by (auto simp: sz)
qed

lemma ReadBufInt_reading:
  assumes "reading b (be32 v @ r)"
  shows "\<exists>b'. ReadBufInt b = Some (v, b') \<and> reading b' r"
  using ReadBuf_exact [OF assms, of 4] by (auto simp: ReadBufInt_def Endian_of_mem)

lemma ReadBufInt64_reading:
  assumes "reading b (be64 v @ r)"
  shows "\<exists>b'. ReadBufInt64 b = Some (v, b') \<and> reading b' r"
  using ReadBuf_exact [OF assms, of 8] by (auto simp: ReadBufInt64_def Endian_of_mem)

lemma ReadBufShort_reading:
  assumes "reading b (be16 v @ r)"
  shows "\<exists>b'. ReadBufShort b = Some (v, b') \<and> reading b' r"
  using ReadBuf_exact [OF assms, of 2] by (auto simp: ReadBufShort_def Endian_of_mem)

lemma ReadBufChar_reading:
  assumes "reading b (v # r)"
  shows "\<exists>b'. ReadBufChar b = Some (v, b') \<and> reading b' r"
  using ReadBuf_exact [of b "[v]" r 1] assms
  by (auto simp: ReadBufChar_def)

lemma ReadBufStr_reading:
  assumes rd: "reading b (be32 (of_nat (length str) + 1) @ str @ r)"
    and fit: "length str < unat sz" and safe: "length str \<le> READ_SAFE"
  shows "\<exists>b'. ReadBufStr b sz = Some (Some str, b') \<and> reading b' r"
proof -
  let ?l = "of_nat (length str) :: u32"
  have l: "unat ?l = length str" and l1: "unat (?l + 1) = length str + 1"
    using safe by (simp_all add: nowrap)
  obtain b1 where b1: "ReadBufInt b = Some (?l + 1, b1)" "reading b1 (str @ r)"
    using ReadBufInt_reading [OF rd] by blast
  obtain b2 where b2: "ReadBuf b1 True ?l = Some (?l, map Some str, b2)" "reading b2 r"
    using ReadBuf_exact [OF b1(2) l safe] by blast
  have "?l + 1 \<noteq> 0" using l1 by (metis One_nat_def add_is_0 nat.simps(3) unat_0)
  moreover have "sz \<noteq> 0" using fit by auto
  moreover have "?l \<le> sz - 1"
    using fit l by (simp add: unat_order nowrap)
  ultimately show ?thesis
    using b1(1) b2 by (simp add: ReadBufStr_def Let_def)
qed

section \<open>Seeking\<close>

lemma MAKESURE_zero: "MAKESURE a 0 c = min a c"
  by (simp add: MAKESURE_def MORE_def LESS_def min_def)

lemma SeekBuf_wf: "buf_wf b \<Longrightarrow> buf_wf (SeekBuf b offset mode)"
  by (simp add: SeekBuf_def MAKESURE_zero buf_wf_def Let_def min_def unat_order)

lemma SeekBuf_contents [simp]: "contents (SeekBuf b offset mode) = contents b"
  by (simp add: SeekBuf_def contents_def Let_def)

lemma SeekBufToBegin_reading: "writing b bs \<Longrightarrow> reading (SeekBufToBegin b) bs"
  by (simp add: SeekBufToBegin_def writing_def reading_def SeekBuf_wf unread_def)
    (simp add: SeekBuf_def MAKESURE_zero)

lemma SeekBufToEnd_writing: "buf_wf b \<Longrightarrow> writing (SeekBufToEnd b) (contents b)"
  by (simp add: SeekBufToEnd_def writing_def SeekBuf_wf)
    (simp add: SeekBuf_def MAKESURE_zero)

lemma MemToBuf_reading:
  assumes "length d \<le> BUF_MAX" and "unat n = length d"
  shows "\<exists>b. MemToBuf (map Some d) n = Some b \<and> reading b d"
proof -
  obtain b where b: "NewBuf = Some b" "writing b []" using NewBuf_writing by blast
  obtain b1 where "WriteBuf b (map Some d) n = Some b1" "writing b1 d"
    using WriteBuf_append_exact [OF b(2), of d n] assms by auto
  then show ?thesis
    using SeekBufToBegin_reading [of b1 d] unfolding MemToBuf_def b(1) SeekBufToBegin_def by simp
qed

section \<open>Reading arbitrary input\<close>

text \<open>
  On any well-formed buffer the reads of bounded size stay inside the block and leave a
  well-formed buffer with the same contents; \<open>buf_next b b'\<close> is that frame condition.
\<close>

definition buf_next :: "BUF \<Rightarrow> BUF \<Rightarrow> bool" where
  "buf_next b b' \<longleftrightarrow> buf_wf b' \<and> contents b' = contents b"

lemma buf_next_trans: "buf_next b c \<Longrightarrow> buf_next c d \<Longrightarrow> buf_next b d"
  by (simp add: buf_next_def)

lemma buf_next_refl: "buf_wf b \<Longrightarrow> buf_next b b"
  by (simp add: buf_next_def)

lemma buf_next_wf: "buf_next b c \<Longrightarrow> buf_wf c"
  by (simp add: buf_next_def)

lemma ReadBuf_total:
  assumes "buf_wf b" and "unat sz \<le> READ_SAFE"
  shows "\<exists>n d b'. ReadBuf b True sz = Some (n, map Some d, b') \<and> length d = unat sz \<and> buf_next b b'"
proof -
  have "reading b (unread b)" using assms(1) by (simp add: reading_def)
  from ReadBuf_spec [OF this assms(2), of True] obtain b' where
    "ReadBuf b True sz = Some (of_nat (min (unat sz) (length (unread b))),
       map Some (take (unat sz) (unread b) @ replicate (unat sz - length (unread b)) 0), b')"
    "reading b' (drop (unat sz) (unread b))" "contents b' = contents b"
    by auto
  then show ?thesis
    by (intro exI conjI) (assumption, auto simp: buf_next_def reading_def)
qed

lemma ReadBuf_skip_total:
  assumes wf: "buf_wf b"
  shows "\<exists>n b'. ReadBuf b False sz = Some (n, [], b') \<and> buf_next b b'"
proof -
  let ?n = "if Size b \<le> Current b + sz then Size b - Current b else sz"
  have "unat (Current b + ?n) \<le> unat (Size b)"
    by (auto simp: unat_order)
  then have "buf_next b (b\<lparr>Current := Current b + ?n\<rparr>)"
    using wf by (simp add: buf_next_def buf_wf_def contents_def)
  then show ?thesis
    using wf by (auto simp: ReadBuf_def Let_def buf_next_refl)
qed

lemma ReadBufInt_total:
  assumes "buf_wf b"
  shows "\<exists>v b'. ReadBufInt b = Some (v, b') \<and> buf_next b b'"
  using ReadBuf_total [OF assms, of 4] by (auto simp: ReadBufInt_def)

lemma ReadBufInt64_total:
  assumes "buf_wf b"
  shows "\<exists>v b'. ReadBufInt64 b = Some (v, b') \<and> buf_next b b'"
  using ReadBuf_total [OF assms, of 8] by (auto simp: ReadBufInt64_def)

lemma ReadBufStr_total:
  assumes wf: "buf_wf b" and sz: "unat sz \<le> READ_SAFE"
  shows "\<exists>s b'. ReadBufStr b sz = Some (s, b') \<and> buf_next b b' \<and> (\<forall>t. s = Some t \<longrightarrow> length t < unat sz)"
proof (cases "sz = 0")
  case True
  with wf show ?thesis by (simp add: ReadBufStr_def buf_next_refl)
next
  case False
  then have pos: "0 < unat sz" by (simp add: unat_gt_0)
  then have sz1: "unat (sz - 1) < unat sz" by (simp add: nowrap)
  obtain len0 b1 where b1: "ReadBufInt b = Some (len0, b1)" "buf_next b b1"
    using ReadBufInt_total [OF wf] by blast
  show ?thesis
  proof (cases "len0 = 0")
    case True
    with b1 False show ?thesis by (simp add: ReadBufStr_def)
  next
    case nz: False
    define len where "len = len0 - 1"
    define rs where "rs = min len ((if len \<le> sz - 1 then len + 1 else sz) - 1)"
    have rs: "unat rs < unat sz"
      using sz1 by (auto simp: rs_def min_def unat_order)
    then have safe: "unat rs \<le> READ_SAFE" using sz by linarith
    obtain n d b2 where b2: "ReadBuf b1 True rs = Some (n, map Some d, b2)" "length d = unat rs"
      "buf_next b1 b2"
      using ReadBuf_total [OF buf_next_wf [OF b1(2)] safe] by blast
    obtain m b3 where b3: "ReadBuf b2 False (len - rs) = Some (m, [], b3)" "buf_next b2 b3"
      using ReadBuf_skip_total [OF buf_next_wf [OF b2(3)]] by blast
    show ?thesis
      using False nz b1 b2 b3 rs
      by (auto simp: ReadBufStr_def Let_def len_def [symmetric] rs_def [symmetric]
          intro: buf_next_trans)
  qed
qed

section \<open>The interface of a wire format\<close>

text \<open>
  A value that is written with \<open>wr\<close> and read back with \<open>rd\<close>, its bytes
  \<open>enc\<close>, the values for which this is promised, and the normal form \<open>nf\<close> of a
  value that reading gives. The clients of the interface are
  the formats made of other formats: sequences, the values, the elements and the PACK.
\<close>

fun write_list :: "(BUF \<Rightarrow> 'a \<Rightarrow> BUF option) \<Rightarrow> BUF \<Rightarrow> 'a list \<Rightarrow> BUF option" where
  "write_list wr b [] = Some b"
| "write_list wr b (v # vs) = do { b1 \<leftarrow> wr b v; write_list wr b1 vs }"

fun read_list :: "(BUF \<Rightarrow> ('a \<times> BUF) option) \<Rightarrow> nat \<Rightarrow> BUF \<Rightarrow> ('a list \<times> BUF) option" where
  "read_list rd 0 b = Some ([], b)"
| "read_list rd (Suc n) b =
     do { (v, b1) \<leftarrow> rd b; (vs, b2) \<leftarrow> read_list rd n b1; Some (v # vs, b2) }"

locale wire_format =
  fixes wr :: "BUF \<Rightarrow> 'a \<Rightarrow> BUF option"
    and rd :: "BUF \<Rightarrow> ('a \<times> BUF) option"
    and enc :: "'a \<Rightarrow> u8 list"
    and ok :: "'a \<Rightarrow> bool"
    and nf :: "'a \<Rightarrow> 'a"
  assumes wr_enc: "ok v \<Longrightarrow> writing b bs \<Longrightarrow> length bs + length (enc v) \<le> BUF_MAX \<Longrightarrow>
      \<exists>b'. wr b v = Some b' \<and> writing b' (bs @ enc v)"
    and rd_enc: "ok v \<Longrightarrow> reading b (enc v @ r) \<Longrightarrow> \<exists>b'. rd b = Some (nf v, b') \<and> reading b' r"
begin

lemma write_list_enc:
  "list_all ok vs \<Longrightarrow> writing b bs \<Longrightarrow> length bs + length (concat (map enc vs)) \<le> BUF_MAX \<Longrightarrow>
   \<exists>b'. write_list wr b vs = Some b' \<and> writing b' (bs @ concat (map enc vs))"
proof (induction vs arbitrary: b bs)
  case Nil
  then show ?case by simp
next
  case (Cons v vs)
  then obtain b1 where b1: "wr b v = Some b1" "writing b1 (bs @ enc v)"
    using wr_enc [of v b bs] by auto
  with Cons.IH [of b1 "bs @ enc v"] Cons.prems show ?case by simp
qed

lemma read_list_enc:
  "list_all ok vs \<Longrightarrow> reading b (concat (map enc vs) @ r) \<Longrightarrow>
   \<exists>b'. read_list rd (length vs) b = Some (map nf vs, b') \<and> reading b' r"
proof (induction vs arbitrary: b)
  case Nil
  then show ?case by simp
next
  case (Cons v vs)
  then obtain b1 where b1: "rd b = Some (nf v, b1)" "reading b1 (concat (map enc vs) @ r)"
    using rd_enc [of v b "concat (map enc vs) @ r"] by auto
  with Cons.IH [of b1] Cons.prems show ?case by auto
qed

lemma write_then_read:
  assumes "ok v" and "length (enc v) \<le> BUF_MAX"
  shows "\<exists>b b1 b2. NewBuf = Some b \<and> wr b v = Some b1 \<and> contents b1 = enc v
      \<and> rd (SeekBufToBegin b1) = Some (nf v, b2) \<and> unread b2 = []"
proof -
  obtain b where b: "NewBuf = Some b" "writing b []" using NewBuf_writing by blast
  obtain b1 where b1: "wr b v = Some b1" "writing b1 (enc v)"
    using wr_enc [OF assms(1) b(2)] assms(2) by auto
  obtain b2 where "rd (SeekBufToBegin b1) = Some (nf v, b2)" "reading b2 []"
    using rd_enc [OF assms(1), of _ "[]"] SeekBufToBegin_reading [OF b1(2)] by auto
  with b b1 show ?thesis by (auto simp: writing_def reading_def)
qed

lemma enc_prefix_free:
  assumes "ok v" and "ok w" and eq: "enc v @ r = enc w @ s" and "length (enc v @ r) \<le> BUF_MAX"
  shows "nf v = nf w \<and> r = s"
proof -
  obtain b where b: "reading b (enc v @ r)"
    using MemToBuf_reading [of "enc v @ r" "of_nat (length (enc v @ r))"] assms(4)
    by (auto simp: nowrap)
  with rd_enc [OF assms(1) b] rd_enc [OF assms(2), of b s] show ?thesis
    by (auto simp: eq reading_def)
qed

end

text \<open>A format that gives back exactly what was written.\<close>

locale wire_codec = wire_format wr rd enc ok "\<lambda>v. v"
  for wr :: "BUF \<Rightarrow> 'a \<Rightarrow> BUF option"
    and rd :: "BUF \<Rightarrow> ('a \<times> BUF) option"
    and enc :: "'a \<Rightarrow> u8 list"
    and ok :: "'a \<Rightarrow> bool"
begin

lemma read_list_back:
  "list_all ok vs \<Longrightarrow> reading b (concat (map enc vs) @ r) \<Longrightarrow>
   \<exists>b'. read_list rd (length vs) b = Some (vs, b') \<and> reading b' r"
  using read_list_enc [of vs b r] by simp

end

interpretation int_codec: wire_codec WriteBufInt ReadBufInt be32 "\<lambda>_. True"
  by unfold_locales (use WriteBufInt_append ReadBufInt_reading in auto)

interpretation int64_codec: wire_codec WriteBufInt64 ReadBufInt64 be64 "\<lambda>_. True"
  by unfold_locales (use WriteBufInt64_append ReadBufInt64_reading in auto)

interpretation short_codec: wire_codec WriteBufShort ReadBufShort be16 "\<lambda>_. True"
  by unfold_locales (use WriteBufShort_append ReadBufShort_reading in auto)

interpretation char_codec: wire_codec WriteBufChar ReadBufChar "\<lambda>c. [c]" "\<lambda>_. True"
  by unfold_locales (use WriteBufChar_append ReadBufChar_reading in auto)

end
