(* ===== verification/Compare.thy ===== *)
theory Compare
  imports Prelude
begin

text \<open>
  The interface of the comparison functions (\<open>COMPARE\<close> of src/src/Mayaqua/Memory.h)
  that lists are sorted, searched and inserted into with. A comparison returns a negative
  number, 0 or a positive number; what sorting and binary search rely on is that swapping
  the arguments negates the result and that "not greater" is transitive. The functions
  compare keys inside the elements, so 0 does not mean that two elements are the same.
\<close>

locale comparator =
  fixes cmp :: "'a \<Rightarrow> 'a \<Rightarrow> int"
  assumes cmp_swap: "cmp y x = - cmp x y"
    and cmp_trans: "cmp x y \<le> 0 \<Longrightarrow> cmp y z \<le> 0 \<Longrightarrow> cmp x z \<le> 0"
begin

lemma cmp_refl [simp]: "cmp x x = 0"
  using cmp_swap [of x x] by simp

lemma cmp_eq_sym: "(cmp x y = 0) = (cmp y x = 0)"
  by (subst cmp_swap) simp

lemma cmp_neg: "(cmp x y < 0) = (0 < cmp y x)"
  by (subst cmp_swap) simp

lemma cmp_le_neg: "(cmp x y \<le> 0) = (0 \<le> cmp y x)"
  by (subst cmp_swap) simp

lemma cmp_total: "cmp x y \<le> 0 \<or> cmp y x \<le> 0"
  using cmp_swap [of x y] by linarith

lemma cmp_less_le_trans: "cmp x y < 0 \<Longrightarrow> cmp y z \<le> 0 \<Longrightarrow> cmp x z < 0"
  using cmp_trans [of y z x] cmp_swap [of x y] cmp_swap [of x z] by fastforce

lemma cmp_le_less_trans: "cmp x y \<le> 0 \<Longrightarrow> cmp y z < 0 \<Longrightarrow> cmp x z < 0"
  using cmp_trans [of z x y] cmp_swap [of x z] cmp_swap [of y z] by fastforce

lemma cmp_eq_trans: "cmp x y = 0 \<Longrightarrow> cmp y z = 0 \<Longrightarrow> cmp x z = 0"
  using cmp_trans [of x y z] cmp_trans [of z y x] cmp_swap [of x y] cmp_swap [of y z] cmp_swap [of x z]
  by simp

lemma cmp_eq_less: "cmp x y = 0 \<Longrightarrow> (cmp x z < 0) = (cmp y z < 0)"
  using cmp_le_less_trans [of x y z] cmp_le_less_trans [of y x z] cmp_eq_sym [of x y] by auto

lemma cmp_eq_zero: "cmp x y = 0 \<Longrightarrow> (cmp x z = 0) = (cmp y z = 0)"
  by (meson cmp_eq_sym cmp_eq_trans)

end

text \<open>Comparing through a key is a comparison again.\<close>

lemma comparator_on_key:
  assumes "comparator cmp"
  shows "comparator (\<lambda>x y. cmp (key x) (key y))"
proof -
  note c = assms [unfolded comparator_def]
  show ?thesis using c by (unfold_locales) blast+
qed

text \<open>
  \<open>COMPARE_RET\<close> of src/src/Mayaqua/MayaType.h, the comparison of two integers, and the
  comparison of one key after another, as the hand-written comparison functions do it.
\<close>

definition COMPARE_RET :: "'n::linorder \<Rightarrow> 'n \<Rightarrow> int" where
  "COMPARE_RET a b = (if a = b then 0 else if a > b then 1 else -1)"

definition cmp_then :: "int \<Rightarrow> int \<Rightarrow> int" where
  "cmp_then c d = (if c \<noteq> 0 then c else d)"

interpretation int_compare: comparator "COMPARE_RET :: 'n::linorder \<Rightarrow> 'n \<Rightarrow> int"
  by unfold_locales (auto simp: COMPARE_RET_def split: if_splits)

lemma comparator_then:
  assumes c: "comparator c" and d: "comparator d"
  shows "comparator (\<lambda>x y. cmp_then (c x y) (d x y))"
proof
  fix x y z
  show "cmp_then (c y x) (d y x) = - cmp_then (c x y) (d x y)"
    using comparator.cmp_swap [OF c, of y x] comparator.cmp_swap [OF d, of y x]
    by (simp add: cmp_then_def)
  assume xy: "cmp_then (c x y) (d x y) \<le> 0" and yz: "cmp_then (c y z) (d y z) \<le> 0"
  then have le: "c x y \<le> 0" "c y z \<le> 0" by (auto simp: cmp_then_def split: if_splits)
  show "cmp_then (c x z) (d x z) \<le> 0"
  proof (cases "c x y = 0 \<and> c y z = 0")
    case True
    then have "c x z = 0" using comparator.cmp_eq_trans [OF c] by blast
    with True xy yz show ?thesis
      using comparator.cmp_trans [OF d, of x y z] by (simp add: cmp_then_def)
  next
    case False
    with le have "c x z < 0"
      using comparator.cmp_less_le_trans [OF c, of x y z] comparator.cmp_le_less_trans [OF c, of x y z]
      by auto
    then show ?thesis by (simp add: cmp_then_def)
  qed
qed

end
