(* ===== verification/CStr.thy ===== *)
theory CStr
  imports Compare "HOL-Library.List_Lexorder"
begin

text \<open>
  The string routines of src/src/Mayaqua/Str.c that the rest of the model calls: length,
  bounded copy and concatenation, case-insensitive comparison, trimming, searching, the
  safety test of names and hexadecimal numbers. A \<open>char\<close> is signed, as on the
  platforms the program is built for, so comparisons go through \<^const>\<open>sint\<close>. The
  \<open>comparator\<close> interface says what the sorted containers rely on in a comparison
  function; the string comparison is its first instance.
\<close>

definition ascii :: "string \<Rightarrow> cstr" where
  "ascii s = map of_char s"

definition char_at :: "cstr \<Rightarrow> u8" where
  "char_at s = (case s of [] \<Rightarrow> 0 | c # _ \<Rightarrow> c)"

section \<open>Length, copy, concatenation\<close>

definition StrLen :: "cstr \<Rightarrow> u32" where
  "StrLen s = of_nat (length s)"

text \<open>
  \<open>StrCpy\<close> and \<open>StrCat\<close> give the destination string they leave and the length they
  return. A size of 0 means no limit.
\<close>

definition StrCpy :: "u32 \<Rightarrow> cstr \<Rightarrow> cstr \<times> u32" where
  "StrCpy sz src =
     (if sz = 1 then ([], 0)
      else let sz1 = (if sz = 0 then 0x7FFFFFFF else sz); len = StrLen src
      in if len \<le> sz1 - 1 \<or> sz1 = 0x7FFFFFFF then (src, len)
         else (take (unat (sz1 - 1)) src, sz1 - 1))"

definition StrCat :: "cstr \<Rightarrow> u32 \<Rightarrow> cstr \<Rightarrow> cstr \<times> u32" where
  "StrCat dst sz src =
     (let sz1 = (if sz = 0 then 0x7FFFFFFF else sz);
          len1 = StrLen dst; len2 = StrLen src; len_test = len1 + len2 + 1
      in if sz1 < len_test
         then if len2 \<le> len_test - sz1 then (dst, 0)
              else let len2' = len2 - (len_test - sz1)
                in (dst @ take (unat len2') src, len1 + len2')
         else (dst @ src, len1 + len2))"

definition CopyStr :: "cstr \<Rightarrow> cstr" where
  "CopyStr s = fst (StrCpy (StrLen s + 1) s)"

fun StrCheckLen_from :: "u32 \<Rightarrow> cstr \<Rightarrow> u32 \<Rightarrow> bool" where
  "StrCheckLen_from cnt [] len = True"
| "StrCheckLen_from cnt (c # s) len =
     (if c = 0 then True
      else if len < cnt + 1 then False else StrCheckLen_from (cnt + 1) s len)"

definition StrCheckLen :: "cstr \<Rightarrow> u32 \<Rightarrow> bool" where
  "StrCheckLen s len = StrCheckLen_from 0 s len"

definition StrCheckSize :: "cstr \<Rightarrow> u32 \<Rightarrow> bool" where
  "StrCheckSize s sz = (if sz = 0 then False else StrCheckLen s (sz - 1))"

section \<open>Case\<close>

definition ToUpper :: "u8 \<Rightarrow> u8" where
  "ToUpper c = (if 97 \<le> sint c \<and> sint c \<le> 122 then c + (90 - 122) else c)"

definition ToLower :: "u8 \<Rightarrow> u8" where
  "ToLower c = (if 65 \<le> sint c \<and> sint c \<le> 90 then c + (122 - 90) else c)"

definition StrUpper :: "cstr \<Rightarrow> cstr" where
  "StrUpper s = map ToUpper s"

definition StrLower :: "cstr \<Rightarrow> cstr" where
  "StrLower s = map ToLower s"

function StrCmpi :: "cstr \<Rightarrow> cstr \<Rightarrow> int" where
  "StrCmpi s1 s2 =
     (let a1 = char_at s1; a2 = char_at s2; c1 = ToUpper a1; c2 = ToUpper a2
      in if sint c1 > sint c2 then 1
         else if sint c1 < sint c2 then -1
         else if a1 = 0 \<or> a2 = 0 then 0
         else StrCmpi (tl s1) (tl s2))"
  by pat_completeness auto
termination
  by (relation "measure (\<lambda>(s1, s2). length s1)") (auto simp: char_at_def split: list.splits)

declare StrCmpi.simps [simp del]

section \<open>Trimming\<close>

text \<open>The loops serve \<open>char\<close> and \<open>wchar_t\<close> strings alike, so they are written over words of any length.\<close>

definition is_blank :: "'a::len word \<Rightarrow> bool" where
  "is_blank c \<longleftrightarrow> c = 32 \<or> c = 9"

text \<open>The copying loops: \<open>buf\<close> is what is kept, \<open>tmp\<close> the blanks not yet decided on.\<close>

fun trim_right_loop :: "'a::len word list \<Rightarrow> 'a word list \<Rightarrow> 'a word list \<Rightarrow> 'a word list" where
  "trim_right_loop [] buf tmp = buf"
| "trim_right_loop (c # s) buf tmp =
     (if c \<noteq> 32 \<and> c \<noteq> 9 then trim_right_loop s (buf @ tmp @ [c]) []
      else trim_right_loop s buf (tmp @ [c]))"

definition TrimRight :: "cstr \<Rightarrow> cstr" where
  "TrimRight s =
     (if s = [] then s
      else if last s \<noteq> 32 \<and> last s \<noteq> 9 then s
      else fst (StrCpy 0 (trim_right_loop s [] [])))"

fun trim_left_loop :: "'a::len word list \<Rightarrow> bool \<Rightarrow> 'a word list \<Rightarrow> 'a word list" where
  "trim_left_loop [] flag buf = buf"
| "trim_left_loop (c # s) flag buf =
     (let flag = (if c \<noteq> 32 \<and> c \<noteq> 9 then True else flag)
      in trim_left_loop s flag (if flag then buf @ [c] else buf))"

definition TrimLeft :: "cstr \<Rightarrow> cstr" where
  "TrimLeft s =
     (if s = [] then s
      else if hd s \<noteq> 32 \<and> hd s \<noteq> 9 then s
      else fst (StrCpy 0 (trim_left_loop s False [])))"

definition Trim :: "cstr \<Rightarrow> cstr" where
  "Trim s = TrimRight (TrimLeft s)"

definition TrimCrlf :: "cstr \<Rightarrow> cstr" where
  "TrimCrlf s =
     (let len = length s
      in if len = 0 then s
         else if s ! (len - 1) = 10
         then if len \<ge> 2 \<and> s ! (len - 2) = 13 then take (len - 2) s else take (len - 1) s
         else if s ! (len - 1) = 13 then take (len - 1) s else s)"

section \<open>Searching\<close>

fun IsCharInStr :: "cstr \<Rightarrow> u8 \<Rightarrow> bool" where
  "IsCharInStr [] c = False"
| "IsCharInStr (d # s) c = (if d = c then True else IsCharInStr s c)"

text \<open>\<open>search_loop\<close> compares at \<open>i\<close> for \<open>n\<close> more positions; \<open>i\<close> and the result are \<open>UINT\<close>s.\<close>

fun search_loop :: "nat \<Rightarrow> u32 \<Rightarrow> cstr \<Rightarrow> cstr \<Rightarrow> u32" where
  "search_loop 0 i str key = INFINITE"
| "search_loop (Suc n) i str key =
     (if take (length key) (drop (unat i) str) = key then i
      else search_loop n (i + 1) str key)"

definition SearchStrEx :: "cstr \<Rightarrow> cstr \<Rightarrow> u32 \<Rightarrow> bool \<Rightarrow> u32" where
  "SearchStrEx str key start case_sensitive =
     (let len_string = StrLen str; len_keyword = StrLen key
      in if len_string \<le> start then INFINITE
         else if len_keyword = 0 then INFINITE
         else if len_string - start < len_keyword then INFINITE
         else let s = (if case_sensitive then str else StrUpper (fst (StrCpy (len_string + 1) str)));
                  k = (if case_sensitive then key else StrUpper (fst (StrCpy (len_keyword + 1) key)))
           in search_loop (unat (len_string - len_keyword + 1 - start)) start s k)"

definition InStrEx :: "cstr \<Rightarrow> cstr \<Rightarrow> bool \<Rightarrow> bool" where
  "InStrEx str key case_sensitive = (SearchStrEx str key 0 case_sensitive \<noteq> INFINITE)"

definition EndWith :: "cstr \<Rightarrow> cstr \<Rightarrow> bool" where
  "EndWith str key =
     (let str_len = StrLen str; key_len = StrLen key
      in if str_len < key_len then False
         else StrCmpi (drop (unat (str_len - key_len)) str) key = 0)"

definition StartWith :: "cstr \<Rightarrow> cstr \<Rightarrow> bool" where
  "StartWith str key =
     (let str_len = StrLen str; key_len = StrLen key
      in if str_len < key_len then False
         else if str_len = 0 \<or> key_len = 0 then False
         else StrCmpi (take (unat key_len) (CopyStr str)) key = 0)"

definition IsEmptyStr :: "cstr \<Rightarrow> bool" where
  "IsEmptyStr str = (StrLen (Trim (CopyStr str)) = 0)"

text \<open>The strings between separators, empty ones included; the loop has what it read in \<open>b\<close>.\<close>

fun null_token_loop :: "cstr \<Rightarrow> cstr \<Rightarrow> cstr \<Rightarrow> cstr list" where
  "null_token_loop split_chars b [] = [b]"
| "null_token_loop split_chars b (c # cs) =
     (if IsCharInStr split_chars c then b # null_token_loop split_chars [] cs
      else null_token_loop split_chars (b @ [c]) cs)"

definition ParseTokenWithNullStr :: "cstr \<Rightarrow> cstr \<Rightarrow> cstr list" where
  "ParseTokenWithNullStr str split_chars = null_token_loop split_chars [] str"

section \<open>Names\<close>

definition safe_chars :: cstr where
  "safe_chars = ascii ''ABCDEFGHIJKLMNOPQRSTUVWXYZabcdefghijklmnopqrstuvwxyz0123456789 ()-_#%&.''"

definition IsSafeChar :: "u8 \<Rightarrow> bool" where
  "IsSafeChar c = IsCharInStr safe_chars c"

definition IsSafeStr :: "cstr \<Rightarrow> bool" where
  "IsSafeStr s =
     (if \<not> list_all IsSafeChar s then False
      else if char_at s = 32 then False
      else if s \<noteq> [] \<and> last s = 32 then False
      else True)"

section \<open>Hexadecimal\<close>

definition FourBitToHex :: "u32 \<Rightarrow> u8" where
  "FourBitToHex v =
     (let v = v mod 16 in if v \<le> 9 then 48 + ucast v else 97 + ucast (v - 10))"

definition HexTo4Bit :: "u8 \<Rightarrow> u32" where
  "HexTo4Bit c =
     (if 48 \<le> sint c \<and> sint c \<le> 57 then scast c - 48
      else if 97 \<le> sint c \<and> sint c \<le> 102 then scast c - 97 + 10
      else if 65 \<le> sint c \<and> sint c \<le> 70 then scast c - 65 + 10
      else 0)"

definition is_hex :: "u8 \<Rightarrow> bool" where
  "is_hex c \<longleftrightarrow> (sint c \<ge> 48 \<and> sint c \<le> 57) \<or> (sint c \<ge> 97 \<and> sint c \<le> 102)
     \<or> (sint c \<ge> 65 \<and> sint c \<le> 70)"

fun hex_loop :: "cstr \<Rightarrow> u32 \<Rightarrow> u32" where
  "hex_loop [] ret = ret"
| "hex_loop (c # s) ret = (if is_hex c then hex_loop s (ret * 16 + HexTo4Bit c) else ret)"

definition HexToInt :: "cstr \<Rightarrow> u32" where
  "HexToInt str =
     (let s = (if char_at str = 48 \<and> (char_at (tl str) = 120 \<or> char_at (tl str) = 88)
               then drop 2 str else str)
      in hex_loop s 0)"

text \<open>The digits from the last one up, as the first loop of \<open>ToHex\<close> stores them.\<close>

function hex_digits_rev :: "u32 \<Rightarrow> cstr" where
  "hex_digits_rev v =
     (let a = v mod 16; v' = v div 16
      in if v' = 0 then [FourBitToHex a] else FourBitToHex a # hex_digits_rev v')"
  by pat_completeness auto
termination
proof (relation "measure unat")
  fix v a v' :: u32
  assume "a = v mod 16" "v' = v div 16" "v' \<noteq> 0"
  moreover from this have "0 < unat v" by (auto simp: unat_gt_0)
  ultimately show "(v', v) \<in> measure unat"
    by (simp add: unat_div div_less_dividend)
qed simp

declare hex_digits_rev.simps [simp del]

definition ToHex :: "u32 \<Rightarrow> cstr" where
  "ToHex v = rev (hex_digits_rev v)"

section \<open>Characters\<close>

lemma sint_inj: "sint a = sint b \<Longrightarrow> a = b" for a b :: u8
  by (rule signed_word_eqI)

lemma sint_eq_zero: "(sint (c :: u8) = 0) = (c = 0)"
  by (metis signed_0 sint_inj)

lemma sint_upper: "97 \<le> sint (c :: u8) \<Longrightarrow> sint c \<le> 122 \<Longrightarrow> sint (c + (90 - 122)) = sint c - 32"
  by (simp add: sint_word_ariths signed_take_bit_int_eq_self)

lemma sint_ToUpper: "sint (ToUpper c) = (if 97 \<le> sint c \<and> sint c \<le> 122 then sint c - 32 else sint c)"
  using sint_upper [of c] by (simp add: ToUpper_def)

lemma ToUpper_ToUpper [simp]: "ToUpper (ToUpper c) = ToUpper c"
  by (rule sint_inj) (simp add: sint_ToUpper)

lemma ToUpper_zero [simp]: "(ToUpper c = 0) = (c = 0)"
  unfolding sint_eq_zero [symmetric] sint_ToUpper by auto

lemma StrUpper_length [simp]: "length (StrUpper s) = length s"
  by (simp add: StrUpper_def)

section \<open>Comparison\<close>

lemma char_at_Cons [simp]: "char_at (c # s) = c" "char_at [] = 0"
  by (simp_all add: char_at_def)

text \<open>
  The comparison is the lexicographic one on the upper-cased characters, the terminating
  zero included; characters from 128 on are negative and come before it.
\<close>

definition upper_key :: "cstr \<Rightarrow> int list" where
  "upper_key s = map (\<lambda>c. sint (ToUpper c)) (c_string s) @ [0]"

lemma upper_key_step:
  "upper_key s = sint (ToUpper (char_at s)) # (if char_at s = 0 then [] else upper_key (tl s))"
  by (cases s) (auto simp: upper_key_def c_string_def sint_ToUpper)

lemma StrCmpi_key: "StrCmpi s1 s2 = COMPARE_RET (upper_key s1) (upper_key s2)"
proof (induction s1 s2 rule: StrCmpi.induct)
  case (1 s1 s2)
  have z: "sint (ToUpper (char_at s1)) = sint (ToUpper (char_at s2)) \<Longrightarrow>
      (char_at s1 = 0) = (char_at s2 = 0)"
    using sint_inj [of "ToUpper (char_at s1)" "ToUpper (char_at s2)"]
      ToUpper_zero [of "char_at s1"] ToUpper_zero [of "char_at s2"] by metis
  show ?case
    unfolding StrCmpi.simps [of s1 s2] upper_key_step [of s1] upper_key_step [of s2]
    using 1 z by (auto simp: Let_def COMPARE_RET_def)
qed

interpretation str_compare: comparator StrCmpi
  unfolding StrCmpi_key [abs_def]
  by (rule comparator_on_key) (rule int_compare.comparator_axioms)

lemma map_sint_inj: "(map (\<lambda>c. sint (f c :: u8)) xs = map (\<lambda>c. sint (f c)) ys) = (map f xs = map f ys)"
proof -
  have "inj (sint :: u8 \<Rightarrow> int)" by (rule injI) (rule sint_inj)
  then show ?thesis
    using inj_map_eq_map [of sint "map f xs" "map f ys"] by (simp add: comp_def)
qed

lemma StrCmpi_eq_iff:
  "is_cstr s1 \<Longrightarrow> is_cstr s2 \<Longrightarrow> (StrCmpi s1 s2 = 0) = (StrUpper s1 = StrUpper s2)"
  by (simp add: StrCmpi_key COMPARE_RET_def upper_key_def map_sint_inj StrUpper_def)

section \<open>Copying and trimming\<close>

lemma StrCpy_unlimited [simp]: "fst (StrCpy 0 s) = s"
  by (simp add: StrCpy_def Let_def)

lemma StrCpy_result:
  assumes "sz \<noteq> 0" and "unat sz < 0x7FFFFFFF" and "length s < two32"
  shows "StrCpy sz s = (take (unat sz - 1) s, of_nat (min (length s) (unat sz - 1)))"
proof -
  have "0 < unat sz" using assms(1) by (simp add: unat_gt_0)
  then have sz1: "unat (sz - 1) = unat sz - 1" by (simp add: nowrap)
  moreover have "sz \<noteq> 0x7FFFFFFF" using assms(2) by auto
  moreover have "(sz = 1) = (unat sz = 1)" by (metis of_nat_1 of_nat_unat32 unat_1)
  moreover have "sz - 1 = of_nat (unat sz - 1)" using sz1 by (metis of_nat_unat32)
  ultimately show ?thesis
    using assms by (auto simp: StrCpy_def Let_def StrLen_def unat_order nowrap min_def)
qed

lemma StrCat_result:
  assumes "unat sz < 0x7FFFFFFF" and "sz \<noteq> 0" and "length dst < unat sz" and "length src < 0x7FFFFFFF"
  shows "fst (StrCat dst sz src) = take (unat sz - 1) (dst @ src)"
proof -
  have n: "unat (of_nat (length dst) + of_nat (length src) + 1 :: u32) = length dst + length src + 1"
    using assms by (simp add: nowrap)
  show ?thesis
  proof (cases "length dst + length src + 1 \<le> unat sz")
    case True
    then show ?thesis
      using assms n by (simp add: StrCat_def Let_def StrLen_def unat_order)
  next
    case False
    let ?l = "of_nat (length dst) + of_nat (length src) + 1 - sz :: u32"
    have l: "unat ?l = length dst + length src + 1 - unat sz"
      using False n by (simp add: nowrap)
    moreover have "unat (of_nat (length src) - ?l) = unat sz - 1 - length dst"
      if "unat ?l \<le> length src"
      using that l False assms by (simp add: nowrap)
    ultimately show ?thesis
      using False assms n by (auto simp: StrCat_def Let_def StrLen_def unat_order nowrap)
  qed
qed

definition rtrim :: "'a::len word list \<Rightarrow> 'a word list" where
  "rtrim s = rev (dropWhile is_blank (rev s))"

lemma rtrim_blank: "list_all is_blank s \<Longrightarrow> rtrim s = []"
  by (simp add: rtrim_def list_all_iff)

lemma rtrim_keep: "\<not> is_blank c \<Longrightarrow> rtrim (xs @ c # s) = xs @ c # rtrim s"
  by (simp add: rtrim_def dropWhile_append)

lemma rtrim_id: "s = [] \<or> \<not> is_blank (last s) \<Longrightarrow> rtrim s = s"
  by (cases s rule: rev_cases) (auto simp: rtrim_def)

lemma trim_right_loop_rtrim:
  "list_all is_blank tmp \<Longrightarrow> trim_right_loop s buf tmp = buf @ rtrim (tmp @ s)"
proof (induction s buf tmp rule: trim_right_loop.induct)
  case (1 buf tmp)
  then show ?case by (simp add: rtrim_blank)
next
  case (2 c s buf tmp)
  then show ?case
    by (cases "is_blank c") (auto simp: is_blank_def rtrim_keep)
qed

lemma TrimRight_rtrim: "TrimRight s = rtrim s"
  using rtrim_id [of s] by (auto simp: TrimRight_def trim_right_loop_rtrim is_blank_def)

lemma trim_left_loop_all: "trim_left_loop s True buf = buf @ s"
  by (induction s arbitrary: buf) (auto simp: Let_def)

lemma trim_left_loop_drop: "trim_left_loop s False buf = buf @ dropWhile is_blank s"
  by (induction s) (auto simp: Let_def trim_left_loop_all is_blank_def)

lemma TrimLeft_drop: "TrimLeft s = dropWhile is_blank s"
  by (cases s) (auto simp: TrimLeft_def trim_left_loop_drop trim_left_loop_all is_blank_def)

definition trimmed :: "'a::len word list \<Rightarrow> bool" where
  "trimmed s \<longleftrightarrow> s = [] \<or> \<not> is_blank (hd s) \<and> \<not> is_blank (last s)"

lemma Trim_strip: "Trim s = rtrim (dropWhile is_blank s)"
  by (simp add: Trim_def TrimRight_rtrim TrimLeft_drop)

lemma rtrim_nonblank_head:
  "s \<noteq> [] \<Longrightarrow> \<not> is_blank (hd s) \<Longrightarrow> rtrim s \<noteq> [] \<and> hd (rtrim s) = hd s"
  by (cases s) (auto simp: rtrim_keep [of _ "[]", simplified])

lemma rtrim_last: "rtrim s = [] \<or> \<not> is_blank (last (rtrim s))"
  using dropWhile_cases [of is_blank "rev s"] by (auto simp: rtrim_def last_rev)

lemma trimmed_strip: "trimmed (rtrim (dropWhile is_blank s))"
  using dropWhile_cases [of is_blank s] rtrim_nonblank_head [of "dropWhile is_blank s"]
    rtrim_last [of "dropWhile is_blank s"] rtrim_blank [of "[]"]
  unfolding trimmed_def by (metis list.pred_inject(1))

lemma strip_id: "trimmed s \<Longrightarrow> rtrim (dropWhile is_blank s) = s"
  by (auto simp: trimmed_def dropWhile_fixed rtrim_id)

lemma trimmed_Trim: "trimmed (Trim s)"
  by (simp add: Trim_strip trimmed_strip)

lemma Trim_id [simp]: "trimmed s \<Longrightarrow> Trim s = s"
  by (simp add: Trim_strip strip_id)

lemma set_strip: "set (rtrim (dropWhile is_blank s)) \<subseteq> set s"
  by (auto simp: rtrim_def dest!: set_dropWhileD)

lemma length_strip: "length (rtrim (dropWhile is_blank s)) \<le> length s"
  using length_dropWhile_le [of is_blank s] length_dropWhile_le [of is_blank "rev (dropWhile is_blank s)"]
  by (simp add: rtrim_def)

lemma set_Trim: "set (Trim s) \<subseteq> set s"
  unfolding Trim_strip by (rule set_strip)

lemma length_Trim: "length (Trim s) \<le> length s"
  unfolding Trim_strip by (rule length_strip)

section \<open>Hexadecimal numbers\<close>

lemma hex_digit_all:
  "list_all (\<lambda>v. is_hex (FourBitToHex v) \<and> HexTo4Bit (FourBitToHex v) = v) (map of_nat [0..<16])"
  by code_simp

lemma hex_digit:
  assumes "unat v < 16"
  shows "is_hex (FourBitToHex v)" and "HexTo4Bit (FourBitToHex v) = v"
proof -
  have "v \<in> set (map of_nat [0..<16])"
    using assms by (auto simp: image_iff intro!: bexI [of _ "unat v"])
  with hex_digit_all show "is_hex (FourBitToHex v)" and "HexTo4Bit (FourBitToHex v) = v"
    by (auto simp: list_all_iff)
qed

lemma unat_mod16: "unat (v mod 16 :: u32) < 16"
  by (simp add: unat_mod)

lemma hex_digits_hex: "list_all is_hex (hex_digits_rev v)"
proof (induction v rule: hex_digits_rev.induct)
  case (1 v)
  then show ?case
    by (subst hex_digits_rev.simps) (simp add: Let_def hex_digit unat_mod16)
qed

lemma hex_loop_snoc:
  "list_all is_hex s \<Longrightarrow> is_hex c \<Longrightarrow> hex_loop (s @ [c]) r = hex_loop s r * 16 + HexTo4Bit c"
  by (induction s r rule: hex_loop.induct) auto

lemma hex_loop_digits: "hex_loop (rev (hex_digits_rev v)) 0 = v"
proof (induction v rule: hex_digits_rev.induct)
  case (1 v)
  have "v div 16 * 16 + v mod 16 = v" by (rule div_mult_mod_eq)
  then show ?case
    using 1 by (subst hex_digits_rev.simps)
      (auto simp: Let_def hex_digit unat_mod16 hex_loop_snoc hex_digits_hex)
qed

lemma is_hex_not_x: "\<not> is_hex 120" "\<not> is_hex 88" "\<not> is_hex 0"
  by (simp_all add: is_hex_def)

lemma HexToInt_ToHex_digits: "HexToInt (ToHex v) = v"
proof -
  have "list_all is_hex (ToHex v)" by (simp add: ToHex_def hex_digits_hex list_all_iff [symmetric])
  then have "list_all is_hex (tl (ToHex v))" by (cases "ToHex v") auto
  then have "char_at (tl (ToHex v)) \<notin> {120, 88}"
    using is_hex_not_x by (cases "tl (ToHex v)") auto
  then show ?thesis
    by (simp add: HexToInt_def Let_def) (simp add: ToHex_def hex_loop_digits)
qed

end
