(* ===== verification/PtrList.thy ===== *)
theory PtrList
  imports CStr "HOL-Library.Multiset"
begin

text \<open>
  The growable pointer arrays of src/src/Mayaqua/Memory.c: the list \<open>LIST\<close> with its
  optional comparison function and its \<open>sorted\<close> flag, and the stack \<open>SK\<close>. The
  detailed model keeps the allocated array, whose byte size is computed in 64 bits and
  passed on in 32; the abstract one is a list of items and the flag, and each operation
  refines its abstract counterpart. The clients (theories Pack and Layer3) are written over
  the abstract operations.
\<close>

section \<open>Sorting and searching\<close>

text \<open>
  \<open>qsort\<close> and \<open>bsearch\<close> of the C library. The sort is the stable one of glibc;
  \<open>bsearch\<close> compares the key with the middle element, key first.
\<close>

fun insort_cmp :: "('x \<Rightarrow> 'x \<Rightarrow> int) \<Rightarrow> 'x \<Rightarrow> 'x list \<Rightarrow> 'x list" where
  "insort_cmp cmp x [] = [x]"
| "insort_cmp cmp x (y # ys) = (if cmp x y \<le> 0 then x # y # ys else y # insort_cmp cmp x ys)"

definition qsort :: "('x \<Rightarrow> 'x \<Rightarrow> int) \<Rightarrow> 'x list \<Rightarrow> 'x list" where
  "qsort cmp xs = foldr (insort_cmp cmp) xs []"

function bsearch_loop :: "('x \<Rightarrow> 'x \<Rightarrow> int) \<Rightarrow> 'x \<Rightarrow> 'x list \<Rightarrow> nat \<Rightarrow> nat \<Rightarrow> 'x option" where
  "bsearch_loop cmp key xs l u =
     (if l < u
      then let idx = (l + u) div 2; c = cmp key (xs ! idx)
        in if c < 0 then bsearch_loop cmp key xs l idx
           else if c > 0 then bsearch_loop cmp key xs (idx + 1) u
           else Some (xs ! idx)
      else None)"
  by pat_completeness auto
termination
  by (relation "measure (\<lambda>(cmp, key, xs, l, u). u - l)") auto

declare bsearch_loop.simps [simp del]

definition bsearch :: "('x \<Rightarrow> 'x \<Rightarrow> int) \<Rightarrow> 'x \<Rightarrow> 'x list \<Rightarrow> 'x option" where
  "bsearch cmp key xs = bsearch_loop cmp key xs 0 (length xs)"

text \<open>The loop of \<open>Insert\<close>, on C \<open>int\<close>s: the position a new element goes to.\<close>

function insert_loop :: "('x \<Rightarrow> 'x \<Rightarrow> int) \<Rightarrow> 'x list \<Rightarrow> 'x \<Rightarrow> int \<Rightarrow> int \<Rightarrow> int" where
  "insert_loop cmp xs p low high =
     (if low \<le> high
      then let middle = (low + high) div 2; ret = cmp (xs ! nat middle) p
        in if ret = 0 then middle
           else if ret > 0 then insert_loop cmp xs p low (middle - 1)
           else insert_loop cmp xs p (middle + 1) high
      else low)"
  by pat_completeness auto
termination
  by (relation "measure (\<lambda>(cmp, xs, p, low, high). nat (high - low + 1))") auto

declare insert_loop.simps [simp del]

definition sorted_cmp :: "('x \<Rightarrow> 'x \<Rightarrow> int) \<Rightarrow> 'x list \<Rightarrow> bool" where
  "sorted_cmp cmp xs = sorted_wrt (\<lambda>x y. cmp x y \<le> 0) xs"

lemma mset_insort_cmp [simp]: "mset (insort_cmp cmp x xs) = add_mset x (mset xs)"
  by (induction xs) auto

lemma mset_qsort [simp]: "mset (qsort cmp xs) = mset xs"
  by (induction xs) (auto simp: qsort_def)

lemma set_qsort [simp]: "set (qsort cmp xs) = set xs"
  by (metis mset_qsort set_mset_mset)

lemma length_qsort [simp]: "length (qsort cmp xs) = length xs"
  by (metis mset_qsort size_mset)

lemma qsort_Nil [simp]: "qsort cmp [] = []"
  by (simp add: qsort_def)

lemma bsearch_loop_found:
  "bsearch_loop cmp key xs l u = Some x \<Longrightarrow> u \<le> length xs \<Longrightarrow> x \<in> set xs \<and> cmp key x = 0"
proof (induction cmp key xs l u rule: bsearch_loop.induct)
  case (1 cmp key xs l u)
  have "(l + u) div 2 < length xs" if "l < u" using that 1(4) by simp
  then show ?case
    using 1 by (subst (asm) (3) bsearch_loop.simps) (fastforce simp: Let_def split: if_splits)
qed

lemma bsearch_found: "bsearch cmp key xs = Some x \<Longrightarrow> x \<in> set xs \<and> cmp key x = 0"
  unfolding bsearch_def by (rule bsearch_loop_found) auto

context comparator
begin

lemma sorted_insort: "sorted_cmp cmp xs \<Longrightarrow> sorted_cmp cmp (insort_cmp cmp x xs)"
proof (induction xs)
  case Nil
  then show ?case by (simp add: sorted_cmp_def)
next
  case (Cons y ys)
  have set: "set (insort_cmp cmp x ys) = insert x (set ys)"
    by (metis mset_insort_cmp set_mset_add_mset_insert set_mset_mset)
  show ?case
    using Cons set cmp_total [of x y] cmp_trans [of x y] by (auto simp: sorted_cmp_def)
qed

lemma sorted_qsort: "sorted_cmp cmp (qsort cmp xs)"
  by (induction xs) (auto simp: qsort_def sorted_cmp_def [of _ "[]"] intro: sorted_insort)

lemma bsearch_loop_none:
  assumes "sorted_cmp cmp xs" and "bsearch_loop cmp key xs l u = None" and "u \<le> length xs"
    and "\<forall>i < l. 0 < cmp key (xs ! i)" and "\<forall>i. u \<le> i \<and> i < length xs \<longrightarrow> cmp key (xs ! i) < 0"
  shows "\<forall>i < length xs. cmp key (xs ! i) \<noteq> 0"
  using assms
proof (induction "u - l" arbitrary: l u rule: less_induct)
  case less
  show ?case
  proof (cases "l < u")
    case False
    then show ?thesis
      using less.prems(4,5) by (metis less_irrefl linorder_le_less_linear less_le_trans)
  next
    case True
    let ?m = "(l + u) div 2"
    have m: "?m < length xs" "l \<le> ?m" "?m < u" using True less.prems(3) by auto
    consider "cmp key (xs ! ?m) < 0" "bsearch_loop cmp key xs l ?m = None"
      | "cmp key (xs ! ?m) > 0" "bsearch_loop cmp key xs (?m + 1) u = None"
      using less.prems(2) True
      by (subst (asm) bsearch_loop.simps) (auto simp: Let_def split: if_splits)
    then show ?thesis
    proof cases
      case 1
      have "cmp key (xs ! i) < 0" if "?m \<le> i" "i < length xs" for i
      proof (cases "?m = i")
        case False
        then have "cmp (xs ! ?m) (xs ! i) \<le> 0"
          using that less.prems(1) by (auto simp: sorted_cmp_def sorted_wrt_iff_nth_less)
        with 1 show ?thesis by (rule_tac cmp_less_le_trans)
      qed (use 1 in auto)
      then show ?thesis
        using less.hyps [of ?m l] less.prems m 1 by auto
    next
      case 2
      have "0 < cmp key (xs ! i)" if "i < ?m + 1" for i
      proof (cases "?m = i")
        case False
        then have "cmp (xs ! i) (xs ! ?m) \<le> 0"
          using that m less.prems(1) by (auto simp: sorted_cmp_def sorted_wrt_iff_nth_less)
        moreover have "cmp (xs ! ?m) key < 0" using 2 by (simp add: cmp_neg)
        ultimately have "cmp (xs ! i) key < 0" by (rule cmp_le_less_trans)
        then show ?thesis by (simp add: cmp_neg)
      qed (use 2 in auto)
      then show ?thesis
        using less.hyps [of u "?m + 1"] less.prems m 2 by auto
    qed
  qed
qed

lemma bsearch_none:
  assumes "sorted_cmp cmp xs" and "bsearch cmp key xs = None"
  shows "\<forall>x \<in> set xs. cmp key x \<noteq> 0"
  using bsearch_loop_none [OF assms(1), of key 0 "length xs"] assms(2)
  by (auto simp: bsearch_def in_set_conv_nth)

lemma bsearch_iff:
  "sorted_cmp cmp xs \<Longrightarrow> (bsearch cmp key xs \<noteq> None) = (\<exists>x \<in> set xs. cmp key x = 0)"
  using bsearch_none [of xs key] bsearch_found [of cmp key xs] by blast

lemma insert_loop_pos:
  assumes "sorted_cmp cmp xs" and "0 \<le> low" and "low \<le> high + 1" and "high < int (length xs)"
    and "\<forall>i < nat low. cmp (xs ! i) p \<le> 0"
    and "\<forall>i. nat (high + 1) \<le> i \<and> i < length xs \<longrightarrow> cmp p (xs ! i) \<le> 0"
  shows "\<exists>k. insert_loop cmp xs p low high = int k \<and> k \<le> length xs
      \<and> (\<forall>i < k. cmp (xs ! i) p \<le> 0) \<and> (\<forall>i. k \<le> i \<and> i < length xs \<longrightarrow> cmp p (xs ! i) \<le> 0)"
  using assms
proof (induction "nat (high - low + 1)" arbitrary: low high rule: less_induct)
  case less
  have step: "cmp (xs ! i) (xs ! j) \<le> 0" if "i \<le> j" "j < length xs" for i j
    using that less.prems(1) by (cases "i = j") (auto simp: sorted_cmp_def sorted_wrt_iff_nth_less)
  show ?case
  proof (cases "low \<le> high")
    case False
    then have "low = high + 1" using less.prems by simp
    with less.prems show ?thesis
      by (intro exI [of _ "nat low"]) (auto simp: insert_loop.simps)
  next
    case True
    define m where "m = (low + high) div 2"
    have m: "low \<le> m" "m \<le> high" "nat m < length xs" using True less.prems by (auto simp: m_def)
    have lo: "cmp (xs ! i) p \<le> 0" if "cmp (xs ! nat m) p \<le> 0" "i \<le> nat m" for i
      using step [of i "nat m"] m that cmp_trans by blast
    have hi: "cmp p (xs ! i) \<le> 0" if "cmp p (xs ! nat m) \<le> 0" "nat m \<le> i" "i < length xs" for i
      using step [of "nat m" i] that cmp_trans by blast
    consider (eq) "cmp (xs ! nat m) p = 0" | (gt) "cmp (xs ! nat m) p > 0" | (lt) "cmp (xs ! nat m) p < 0"
      by linarith
    then show ?thesis
    proof cases
      case eq
      then have "cmp p (xs ! nat m) = 0" by (simp add: cmp_eq_sym)
      with eq True m less.prems lo hi show ?thesis
        by (intro exI [of _ "nat m"]) (auto simp: insert_loop.simps m_def [symmetric] Let_def)
    next
      case gt
      then have "cmp p (xs ! nat m) \<le> 0" by (simp add: cmp_le_neg)
      then have "\<exists>k. insert_loop cmp xs p low (m - 1) = int k \<and> k \<le> length xs
          \<and> (\<forall>i < k. cmp (xs ! i) p \<le> 0) \<and> (\<forall>i. k \<le> i \<and> i < length xs \<longrightarrow> cmp p (xs ! i) \<le> 0)"
        using less.hyps [of "m - 1" low] less.prems m hi by auto
      then show ?thesis
        using gt True by (simp add: insert_loop.simps [of cmp xs p low high] m_def [symmetric] Let_def)
    next
      case lt
      then have "\<forall>i < nat (m + 1). cmp (xs ! i) p \<le> 0"
        using lo m(1) less.prems(2) by auto
      then have "\<exists>k. insert_loop cmp xs p (m + 1) high = int k \<and> k \<le> length xs
          \<and> (\<forall>i < k. cmp (xs ! i) p \<le> 0) \<and> (\<forall>i. k \<le> i \<and> i < length xs \<longrightarrow> cmp p (xs ! i) \<le> 0)"
        using less.hyps [of high "m + 1"] less.prems m by auto
      then show ?thesis
        using lt True by (simp add: insert_loop.simps [of cmp xs p low high] m_def [symmetric] Let_def)
    qed
  qed
qed

lemma insert_loop_sorted:
  assumes s: "sorted_cmp cmp xs"
  shows "\<exists>k. insert_loop cmp xs p 0 (int (length xs) - 1) = int k \<and> k \<le> length xs
      \<and> sorted_cmp cmp (take k xs @ p # drop k xs)"
proof -
  obtain k where k: "insert_loop cmp xs p 0 (int (length xs) - 1) = int k" "k \<le> length xs"
    "\<forall>i < k. cmp (xs ! i) p \<le> 0" "\<forall>i. k \<le> i \<and> i < length xs \<longrightarrow> cmp p (xs ! i) \<le> 0"
    using insert_loop_pos [OF s, of 0 "int (length xs) - 1" p] by auto
  have "\<forall>x \<in> set (take k xs). cmp x p \<le> 0"
    using k(3) by (auto simp: in_set_conv_nth)
  moreover have "\<forall>x \<in> set (drop k xs). cmp p x \<le> 0"
    using k(2,4) by (auto simp: in_set_conv_nth)
  moreover have "sorted_cmp cmp (take k xs)" "sorted_cmp cmp (drop k xs)"
    "\<forall>x \<in> set (take k xs). \<forall>y \<in> set (drop k xs). cmp x y \<le> 0"
    using s sorted_wrt_append [of "\<lambda>x y. cmp x y \<le> 0" "take k xs" "drop k xs"]
    by (simp_all add: sorted_cmp_def)
  ultimately have "sorted_cmp cmp (take k xs @ p # drop k xs)"
    unfolding sorted_cmp_def by (simp add: sorted_wrt_append)
  with k show ?thesis by blast
qed

end

section \<open>Arrays of pointers\<close>

abbreviation INIT_NUM_RESERVED :: u32 where
  "INIT_NUM_RESERVED \<equiv> 32"

text \<open>
  \<open>sizeof(void *) * n\<close> is a 64-bit number; passing it to \<open>Malloc\<close> or
  \<open>ReAlloc\<close> keeps its low 32 bits.
\<close>

definition ptr_bytes :: "u32 \<Rightarrow> u32" where
  "ptr_bytes n = of_nat (8 * unat n)"

definition MallocPtrs :: "u32 \<Rightarrow> 'x block option" where
  "MallocPtrs n =
     (if MAX_MALLOC_MEM_SIZE < ptr_bytes n then None
      else Some (replicate (unat (ptr_bytes n) div 8) None))"

definition ReAllocPtrs :: "'x block \<Rightarrow> u32 \<Rightarrow> 'x block option" where
  "ReAllocPtrs m n =
     (if MAX_MALLOC_MEM_SIZE < ptr_bytes n then None
      else let k = unat (ptr_bytes n) div 8 in Some (take k m @ replicate (k - length m) None))"

definition cell_get :: "'x block \<Rightarrow> nat \<Rightarrow> 'x option option" where
  "cell_get m i = (if i < length m then Some (m ! i) else None)"

definition cell_set :: "'x block \<Rightarrow> nat \<Rightarrow> 'x option \<Rightarrow> 'x block option" where
  "cell_set m i c = (if i < length m then Some (m[i := c]) else None)"

lemma ptr_bytes_small: "unat n \<le> 536870911 \<Longrightarrow> unat (ptr_bytes n) = 8 * unat n"
  unfolding ptr_bytes_def by (rule unat_of_nat32) simp

lemma MallocPtrs_ok: "unat n \<le> 536870900 \<Longrightarrow> MallocPtrs n = Some (replicate (unat n) None)"
  by (simp add: MallocPtrs_def ptr_bytes_small unat_order)

lemma ReAllocPtrs_ok:
  "unat n \<le> 536870900 \<Longrightarrow>
   ReAllocPtrs m n = Some (take (unat n) m @ replicate (unat n - length m) None)"
  by (simp add: ReAllocPtrs_def ptr_bytes_small unat_order Let_def)

section \<open>Lists\<close>

text \<open>
  A comparison function is known by its name, as a function pointer is; \<open>call\<close> says
  what a name computes. A cell holds a pointer that is not null.
\<close>

record ('x, 'c) LIST =
  LIST_p :: "'x block"
  LIST_num_item :: u32
  LIST_num_reserved :: u32
  LIST_cmp :: "'c option"
  LIST_sorted :: bool

definition NewListEx2 :: "'c option \<Rightarrow> bool \<Rightarrow> bool \<Rightarrow> ('x, 'c) LIST option" where
  "NewListEx2 cmp fast fast_malloc =
     do {
       m \<leftarrow> MallocPtrs INIT_NUM_RESERVED;
       Some \<lparr>LIST_p = m, LIST_num_item = 0, LIST_num_reserved = INIT_NUM_RESERVED,
             LIST_cmp = cmp, LIST_sorted = True\<rparr>
     }"

definition NewListEx :: "'c option \<Rightarrow> bool \<Rightarrow> ('x, 'c) LIST option" where
  "NewListEx cmp fast = NewListEx2 cmp fast False"

definition NewList :: "'c option \<Rightarrow> ('x, 'c) LIST option" where
  "NewList cmp = NewListEx cmp False"

definition NewListFast :: "'c option \<Rightarrow> ('x, 'c) LIST option" where
  "NewListFast cmp = NewListEx cmp True"

definition LIST_NUM :: "('x, 'c) LIST \<Rightarrow> u32" where
  "LIST_NUM o1 = LIST_num_item o1"

text \<open>The items of the list, each of them stored before.\<close>

definition list_items :: "('x, 'c) LIST \<Rightarrow> 'x list option" where
  "list_items o1 =
     do { cs \<leftarrow> mem_read (LIST_p o1) 0 (unat (LIST_num_item o1)); cells_value cs }"

text \<open>\<open>Add\<close> and \<open>Insert\<close> enlarge the array after counting the new item.\<close>

definition list_grow :: "('x, 'c) LIST \<Rightarrow> ('x, 'c) LIST option" where
  "list_grow o1 =
     (if LIST_num_item o1 > LIST_num_reserved o1
      then do {
        m \<leftarrow> ReAllocPtrs (LIST_p o1) (LIST_num_reserved o1 * 2);
        Some (o1\<lparr>LIST_num_reserved := LIST_num_reserved o1 * 2, LIST_p := m\<rparr>)
      }
      else Some o1)"

definition Add :: "('x, 'c) LIST \<Rightarrow> 'x option \<Rightarrow> ('x, 'c) LIST option" where
  "Add o1 p =
     (if p = None then Some o1
      else let i = LIST_num_item o1; o1 = o1\<lparr>LIST_num_item := LIST_num_item o1 + 1\<rparr>
      in do {
        o1 \<leftarrow> list_grow o1;
        m \<leftarrow> cell_set (LIST_p o1) (unat i) p;
        Some (o1\<lparr>LIST_p := m, LIST_sorted := False\<rparr>)
      })"

definition NewListSingle :: "'x option \<Rightarrow> ('x, 'c) LIST option" where
  "NewListSingle p = do { o1 \<leftarrow> NewListFast None; Add o1 p }"

definition SetCmp :: "('x, 'c) LIST \<Rightarrow> 'c option \<Rightarrow> ('x, 'c) LIST" where
  "SetCmp o1 cmp =
     (if cmp = None then o1
      else if LIST_cmp o1 \<noteq> cmp then o1\<lparr>LIST_cmp := cmp, LIST_sorted := False\<rparr> else o1)"

definition SetSortFlag :: "('x, 'c) LIST \<Rightarrow> bool \<Rightarrow> ('x, 'c) LIST" where
  "SetSortFlag o1 srt = o1\<lparr>LIST_sorted := srt\<rparr>"

definition ToArrayEx :: "('x, 'c) LIST \<Rightarrow> bool \<Rightarrow> 'x block option" where
  "ToArrayEx o1 fast =
     do {
       p \<leftarrow> MallocPtrs (LIST_NUM o1);
       d \<leftarrow> mem_read (LIST_p o1) 0 (unat (LIST_num_item o1));
       mem_write p 0 d
     }"

definition ToArray :: "('x, 'c) LIST \<Rightarrow> 'x block option" where
  "ToArray o1 = ToArrayEx o1 False"

definition CloneList :: "('x, 'c) LIST \<Rightarrow> ('x, 'c) LIST option" where
  "CloneList o1 =
     do {
       n \<leftarrow> NewList (LIST_cmp o1);
       p \<leftarrow> ToArray o1;
       Some (n\<lparr>LIST_p := p, LIST_num_item := LIST_NUM o1, LIST_num_reserved := LIST_NUM o1,
               LIST_sorted := LIST_sorted o1\<rparr>)
     }"

definition Sort :: "('c \<Rightarrow> 'x \<Rightarrow> 'x \<Rightarrow> int) \<Rightarrow> ('x, 'c) LIST \<Rightarrow> ('x, 'c) LIST option" where
  "Sort call o1 =
     (case LIST_cmp o1 of
        None \<Rightarrow> Some o1
      | Some c \<Rightarrow> do {
          xs \<leftarrow> list_items o1;
          m \<leftarrow> mem_write (LIST_p o1) 0 (map Some (qsort (call c) xs));
          Some (o1\<lparr>LIST_p := m, LIST_sorted := True\<rparr>)
        })"

definition SortEx :: "('c \<Rightarrow> 'x \<Rightarrow> 'x \<Rightarrow> int) \<Rightarrow> ('x, 'c) LIST \<Rightarrow> 'c \<Rightarrow> ('x, 'c) LIST option" where
  "SortEx call o1 c =
     do {
       xs \<leftarrow> list_items o1;
       m \<leftarrow> mem_write (LIST_p o1) 0 (map Some (qsort (call c) xs));
       Some (o1\<lparr>LIST_p := m, LIST_sorted := False\<rparr>)
     }"

definition Search :: "('c \<Rightarrow> 'x \<Rightarrow> 'x \<Rightarrow> int) \<Rightarrow> ('x, 'c) LIST \<Rightarrow> 'x option
    \<Rightarrow> ('x option \<times> ('x, 'c) LIST) option" where
  "Search call o1 target =
     (case (target, LIST_cmp o1) of
        (Some t, Some c) \<Rightarrow> do {
          o1 \<leftarrow> (if \<not> LIST_sorted o1 then Sort call o1 else Some o1);
          xs \<leftarrow> list_items o1;
          Some (bsearch (call c) t xs, o1)
        }
      | _ \<Rightarrow> Some (None, o1))"

definition IsInList :: "('x, 'c) LIST \<Rightarrow> 'x option \<Rightarrow> bool option" where
  "IsInList o1 p =
     (case p of None \<Rightarrow> Some False
      | Some x \<Rightarrow> do { xs \<leftarrow> list_items o1; Some (list_ex (\<lambda>q. x = q) xs) })"

definition AddDistinct :: "('x, 'c) LIST \<Rightarrow> 'x option \<Rightarrow> ('x, 'c) LIST option" where
  "AddDistinct o1 p =
     (if p = None then Some o1
      else do { b \<leftarrow> IsInList o1 p; if b then Some o1 else Add o1 p })"

text \<open>The shifting loops of \<open>Insert\<close> and \<open>Delete\<close>, with the iterations that remain.\<close>

fun shift_up :: "'x block \<Rightarrow> nat \<Rightarrow> nat \<Rightarrow> 'x block option" where
  "shift_up m pos 0 = Some m"
| "shift_up m pos (Suc n) =
     do { c \<leftarrow> cell_get m (pos + n); m \<leftarrow> cell_set m (pos + n + 1) c; shift_up m pos n }"

fun shift_down :: "'x block \<Rightarrow> nat \<Rightarrow> nat \<Rightarrow> 'x block option" where
  "shift_down m i 0 = Some m"
| "shift_down m i (Suc n) =
     do { c \<leftarrow> cell_get m (i + 1); m \<leftarrow> cell_set m i c; shift_down m (i + 1) n }"

definition Insert :: "('c \<Rightarrow> 'x \<Rightarrow> 'x \<Rightarrow> int) \<Rightarrow> ('x, 'c) LIST \<Rightarrow> 'x option
    \<Rightarrow> ('x, 'c) LIST option" where
  "Insert call o1 p =
     (case (p, LIST_cmp o1) of
        (None, _) \<Rightarrow> Some o1
      | (Some x, None) \<Rightarrow> Add o1 p
      | (Some x, Some c) \<Rightarrow> do {
          o1 \<leftarrow> (if \<not> LIST_sorted o1 then Sort call o1 else Some o1);
          xs \<leftarrow> list_items o1;
          let pos = nat (insert_loop (call c) xs x 0 (sint (LIST_NUM o1 - 1)));
          let o1 = o1\<lparr>LIST_num_item := LIST_num_item o1 + 1\<rparr>;
          o1 \<leftarrow> list_grow o1;
          m \<leftarrow> (if LIST_NUM o1 \<ge> 2
               then shift_up (LIST_p o1) pos (unat (LIST_NUM o1) - 1 - pos) else Some (LIST_p o1));
          m \<leftarrow> cell_set m pos p;
          Some (o1\<lparr>LIST_p := m\<rparr>)
        })"

definition InsertDistinct :: "('c \<Rightarrow> 'x \<Rightarrow> 'x \<Rightarrow> int) \<Rightarrow> ('x, 'c) LIST \<Rightarrow> 'x option
    \<Rightarrow> ('x, 'c) LIST option" where
  "InsertDistinct call o1 p =
     (if p = None then Some o1
      else do { b \<leftarrow> IsInList o1 p; if b then Some o1 else Insert call o1 p })"

fun find_index :: "('x \<Rightarrow> bool) \<Rightarrow> 'x list \<Rightarrow> nat" where
  "find_index P [] = 0"
| "find_index P (x # xs) = (if P x then 0 else Suc (find_index P xs))"

definition ReplaceListPointer :: "('x, 'c) LIST \<Rightarrow> 'x option \<Rightarrow> 'x option
    \<Rightarrow> (bool \<times> ('x, 'c) LIST) option" where
  "ReplaceListPointer o1 oldptr newptr =
     (case (oldptr, newptr) of
        (Some old, Some new) \<Rightarrow> do {
          xs \<leftarrow> list_items o1;
          let i = find_index (\<lambda>p. p = old) xs;
          if i < length xs
          then do { m \<leftarrow> cell_set (LIST_p o1) i newptr; Some (True, o1\<lparr>LIST_p := m\<rparr>) }
          else Some (False, o1)
        }
      | _ \<Rightarrow> Some (False, o1))"

definition Delete :: "('x, 'c) LIST \<Rightarrow> 'x option \<Rightarrow> (bool \<times> ('x, 'c) LIST) option" where
  "Delete o1 p =
     (case p of
        None \<Rightarrow> Some (False, o1)
      | Some x \<Rightarrow> do {
          xs \<leftarrow> list_items o1;
          let n = find_index (\<lambda>q. q = x) xs;
          if n = unat (LIST_num_item o1) then Some (False, o1)
          else do {
            m \<leftarrow> shift_down (LIST_p o1) n (unat (LIST_num_item o1 - 1) - n);
            let o1 = o1\<lparr>LIST_p := m, LIST_num_item := LIST_num_item o1 - 1\<rparr>;
            if LIST_num_item o1 * 2 \<le> LIST_num_reserved o1
              \<and> LIST_num_reserved o1 > INIT_NUM_RESERVED * 2
            then do {
              m \<leftarrow> ReAllocPtrs (LIST_p o1) (LIST_num_reserved o1 div 2);
              Some (True, o1\<lparr>LIST_num_reserved := LIST_num_reserved o1 div 2, LIST_p := m\<rparr>)
            }
            else Some (True, o1)
          }
        })"

definition DeleteAll :: "('x, 'c) LIST \<Rightarrow> ('x, 'c) LIST option" where
  "DeleteAll o1 =
     do {
       m \<leftarrow> ReAllocPtrs (LIST_p o1) INIT_NUM_RESERVED;
       Some (o1\<lparr>LIST_num_item := 0, LIST_num_reserved := INIT_NUM_RESERVED, LIST_p := m\<rparr>)
     }"

section \<open>The abstract list\<close>

record 'x LST =
  items :: "'x list"
  is_sorted :: bool

definition lst_new :: "'x LST" where
  "lst_new = \<lparr>items = [], is_sorted = True\<rparr>"

definition lst_add :: "'x LST \<Rightarrow> 'x \<Rightarrow> 'x LST" where
  "lst_add l x = l\<lparr>items := items l @ [x], is_sorted := False\<rparr>"

definition lst_sort :: "('x \<Rightarrow> 'x \<Rightarrow> int) option \<Rightarrow> 'x LST \<Rightarrow> 'x LST" where
  "lst_sort cmp l =
     (case cmp of None \<Rightarrow> l | Some c \<Rightarrow> l\<lparr>items := qsort c (items l), is_sorted := True\<rparr>)"

definition lst_ensure :: "('x \<Rightarrow> 'x \<Rightarrow> int) option \<Rightarrow> 'x LST \<Rightarrow> 'x LST" where
  "lst_ensure cmp l = (if \<not> is_sorted l then lst_sort cmp l else l)"

definition lst_search :: "('x \<Rightarrow> 'x \<Rightarrow> int) option \<Rightarrow> 'x LST \<Rightarrow> 'x \<Rightarrow> 'x option \<times> 'x LST" where
  "lst_search cmp l t =
     (case cmp of
        None \<Rightarrow> (None, l)
      | Some c \<Rightarrow> let l = lst_ensure cmp l in (bsearch c t (items l), l))"

definition lst_insert :: "('x \<Rightarrow> 'x \<Rightarrow> int) option \<Rightarrow> 'x LST \<Rightarrow> 'x \<Rightarrow> 'x LST" where
  "lst_insert cmp l x =
     (case cmp of
        None \<Rightarrow> lst_add l x
      | Some c \<Rightarrow>
          let l = lst_ensure cmp l;
              pos = nat (insert_loop c (items l) x 0 (int (length (items l)) - 1))
          in l\<lparr>items := take pos (items l) @ x # drop pos (items l)\<rparr>)"

definition lst_delete :: "'x LST \<Rightarrow> 'x \<Rightarrow> bool \<times> 'x LST" where
  "lst_delete l x = (x \<in> set (items l), l\<lparr>items := remove1 x (items l)\<rparr>)"

text \<open>A flag that is set means the items are sorted.\<close>

definition lst_ok :: "('x \<Rightarrow> 'x \<Rightarrow> int) \<Rightarrow> 'x LST \<Rightarrow> bool" where
  "lst_ok c l \<longleftrightarrow> (is_sorted l \<longrightarrow> sorted_cmp c (items l))"

context comparator
begin

lemma lst_new_ok: "lst_ok cmp lst_new"
  by (simp add: lst_ok_def lst_new_def sorted_cmp_def)

lemma lst_add_ok: "lst_ok cmp (lst_add l x)"
  by (simp add: lst_ok_def lst_add_def)

lemma lst_ensure_sorted:
  "lst_ok cmp l \<Longrightarrow> sorted_cmp cmp (items (lst_ensure (Some cmp) l)) \<and> is_sorted (lst_ensure (Some cmp) l)
    \<and> mset (items (lst_ensure (Some cmp) l)) = mset (items l)"
  by (auto simp: lst_ok_def lst_ensure_def lst_sort_def sorted_qsort)

lemma lst_ensure_set: "lst_ok cmp l \<Longrightarrow> set (items (lst_ensure (Some cmp) l)) = set (items l)"
  using lst_ensure_sorted by (metis set_mset_mset)

lemma lst_search_spec:
  assumes "lst_ok cmp l" and "lst_search (Some cmp) l t = (r, l')"
  shows "lst_ok cmp l' \<and> mset (items l') = mset (items l)
      \<and> (case r of None \<Rightarrow> \<forall>x \<in> set (items l). cmp t x \<noteq> 0
          | Some x \<Rightarrow> x \<in> set (items l) \<and> cmp t x = 0)"
  using assms lst_ensure_sorted [OF assms(1)] lst_ensure_set [OF assms(1)]
    bsearch_found [of cmp t "items (lst_ensure (Some cmp) l)"]
    bsearch_none [of "items (lst_ensure (Some cmp) l)" t]
  by (auto simp: lst_search_def Let_def lst_ok_def split: option.splits)

lemma lst_insert_spec:
  assumes "lst_ok cmp l"
  shows "lst_ok cmp (lst_insert (Some cmp) l x) \<and> is_sorted (lst_insert (Some cmp) l x)
      \<and> mset (items (lst_insert (Some cmp) l x)) = add_mset x (mset (items l))"
proof -
  let ?xs = "items (lst_ensure (Some cmp) l)"
  obtain k where k: "insert_loop cmp ?xs x 0 (int (length ?xs) - 1) = int k"
    "sorted_cmp cmp (take k ?xs @ x # drop k ?xs)"
    using insert_loop_sorted [of ?xs x] lst_ensure_sorted [OF assms] by blast
  have "mset (take k ?xs) + mset (drop k ?xs) = mset ?xs"
    by (metis append_take_drop_id mset_append)
  with k lst_ensure_sorted [OF assms] show ?thesis
    by (simp add: lst_insert_def Let_def lst_ok_def)
qed

lemma sorted_remove1: "sorted_cmp cmp xs \<Longrightarrow> sorted_cmp cmp (remove1 x xs)"
  unfolding sorted_cmp_def by (induction xs) (auto dest: set_remove1_subset [THEN subsetD])

lemma lst_delete_ok: "lst_ok cmp l \<Longrightarrow> lst_ok cmp (snd (lst_delete l x))"
  by (auto simp: lst_ok_def lst_delete_def sorted_remove1)

text \<open>Inserting and then searching finds an element with the key that was inserted.\<close>

lemma insert_then_search:
  assumes "lst_ok cmp l"
  shows "\<exists>y. fst (lst_search (Some cmp) (lst_insert (Some cmp) l x) x) = Some y \<and> cmp x y = 0"
proof -
  let ?l = "lst_insert (Some cmp) l x"
  have ok: "lst_ok cmp ?l" and set: "x \<in> set (items ?l)"
    using lst_insert_spec [OF assms, of x] by (simp, metis set_mset_mset union_single_eq_member)
  obtain r l' where r: "lst_search (Some cmp) ?l x = (r, l')" by fastforce
  with lst_search_spec [OF ok r] set show ?thesis by (auto split: option.splits)
qed

end

section \<open>Lists refine abstract lists\<close>

abbreviation LIST_MAX :: nat where
  "LIST_MAX \<equiv> 268435450"

definition list_rep :: "('x, 'c) LIST \<Rightarrow> 'x LST \<Rightarrow> bool" where
  "list_rep o1 l \<longleftrightarrow>
     length (LIST_p o1) = unat (LIST_num_reserved o1) \<and> 0 < unat (LIST_num_reserved o1) \<and>
     unat (LIST_num_reserved o1) \<le> 536870900 \<and>
     unat (LIST_num_item o1) = length (items l) \<and> length (items l) \<le> length (LIST_p o1) \<and>
     take (length (items l)) (LIST_p o1) = map Some (items l) \<and> LIST_sorted o1 = is_sorted l"

lemma list_items_rep: "list_rep o1 l \<Longrightarrow> list_items o1 = Some (items l)"
  by (auto simp: list_rep_def list_items_def mem_read_ok)

lemma NewList_rep: "\<exists>o1. NewListEx2 c fast fast_malloc = Some o1 \<and> list_rep o1 lst_new \<and> LIST_cmp o1 = c"
  by (simp add: NewListEx2_def MallocPtrs_ok list_rep_def lst_new_def)

lemma list_grow_rep:
  assumes rep: "list_rep o1 l" and room: "length (items l) < LIST_MAX"
  shows "\<exists>o2. list_grow (o1\<lparr>LIST_num_item := LIST_num_item o1 + 1\<rparr>) = Some o2
      \<and> unat (LIST_num_item o2) = Suc (length (items l)) \<and> LIST_cmp o2 = LIST_cmp o1
      \<and> LIST_sorted o2 = LIST_sorted o1 \<and> length (items l) < length (LIST_p o2)
      \<and> length (LIST_p o2) = unat (LIST_num_reserved o2) \<and> unat (LIST_num_reserved o2) \<le> 536870900
      \<and> take (length (items l)) (LIST_p o2) = map Some (items l)"
proof -
  note r = rep [unfolded list_rep_def]
  have n: "unat (LIST_num_item o1 + 1) = Suc (length (items l))"
    using r room by (simp add: nowrap)
  show ?thesis
  proof (cases "LIST_num_item o1 + 1 > LIST_num_reserved o1")
    case False
    with r n show ?thesis by (simp add: list_grow_def unat_order)
  next
    case True
    then have full: "length (LIST_p o1) = length (items l)" "unat (LIST_num_reserved o1) = length (items l)"
      using r n by (simp_all add: unat_order)
    then have u: "unat (LIST_num_reserved o1 * 2) = 2 * length (items l)"
      using room by (simp add: nowrap)
    then have m: "ReAllocPtrs (LIST_p o1) (LIST_num_reserved o1 * 2)
        = Some (map Some (items l) @ replicate (length (items l)) None)"
      using full room r by (subst ReAllocPtrs_ok) auto
    have "0 < length (items l)" using r full by simp
    with True n u m room r show ?thesis
      by (simp add: list_grow_def)
  qed
qed

lemma list_update_last: "n < length m \<Longrightarrow> take (Suc n) (m[n := c]) = take n m @ [c]"
  by (simp add: take_Suc_conv_app_nth)

lemma Add_rep:
  assumes rep: "list_rep o1 l" and room: "length (items l) < LIST_MAX"
  shows "\<exists>o2. Add o1 (Some x) = Some o2 \<and> list_rep o2 (lst_add l x) \<and> LIST_cmp o2 = LIST_cmp o1"
proof -
  obtain o2 where o2: "list_grow (o1\<lparr>LIST_num_item := LIST_num_item o1 + 1\<rparr>) = Some o2"
    "unat (LIST_num_item o2) = Suc (length (items l))" "LIST_cmp o2 = LIST_cmp o1"
    "length (items l) < length (LIST_p o2)" "length (LIST_p o2) = unat (LIST_num_reserved o2)"
    "unat (LIST_num_reserved o2) \<le> 536870900"
    "take (length (items l)) (LIST_p o2) = map Some (items l)"
    using list_grow_rep [OF rep room] by blast
  moreover have "unat (LIST_num_item o1) = length (items l)" using rep by (simp add: list_rep_def)
  ultimately show ?thesis
    by (simp add: Add_def Let_def cell_set_def list_rep_def lst_add_def list_update_last)
qed

lemma mem_write_prefix:
  "length d = n \<Longrightarrow> n \<le> length m \<Longrightarrow> mem_write m 0 d = Some (d @ drop n m)"
  by (simp add: mem_write_ok)

lemma Sort_rep:
  assumes rep: "list_rep o1 l"
  shows "\<exists>o2. Sort call o1 = Some o2 \<and> list_rep o2 (lst_sort (map_option call (LIST_cmp o1)) l)
      \<and> LIST_cmp o2 = LIST_cmp o1 \<and> LIST_num_item o2 = LIST_num_item o1"
proof (cases "LIST_cmp o1")
  case None
  with rep show ?thesis by (simp add: Sort_def lst_sort_def)
next
  case (Some c)
  with rep show ?thesis
    by (simp add: Sort_def lst_sort_def list_items_rep [OF rep] list_rep_def
        mem_write_prefix [of _ "length (items l)"])
qed

lemma list_ensure_rep:
  assumes rep: "list_rep o1 l"
  shows "\<exists>o2. (if \<not> LIST_sorted o1 then Sort call o1 else Some o1) = Some o2
      \<and> list_rep o2 (lst_ensure (map_option call (LIST_cmp o1)) l) \<and> LIST_cmp o2 = LIST_cmp o1"
  using Sort_rep [OF rep, of call] rep by (auto simp: lst_ensure_def list_rep_def)

lemma Search_rep:
  assumes rep: "list_rep o1 l" and r: "lst_search (map_option call (LIST_cmp o1)) l t = (r, l')"
  shows "\<exists>o2. Search call o1 (Some t) = Some (r, o2) \<and> list_rep o2 l' \<and> LIST_cmp o2 = LIST_cmp o1"
proof (cases "LIST_cmp o1")
  case None
  with rep r show ?thesis by (simp add: Search_def lst_search_def)
next
  case (Some c)
  then show ?thesis
    using list_ensure_rep [OF rep, of call] r
    by (auto simp: Search_def lst_search_def Let_def list_items_rep split del: if_split)
qed

lemma shift_up_ok:
  "pos + n < length m \<Longrightarrow>
   shift_up m pos n = Some (take (Suc pos) m @ take n (drop pos m) @ drop (Suc (pos + n)) m)"
proof (induction n arbitrary: m)
  case 0
  then show ?case by simp
next
  case (Suc n)
  let ?m = "m[Suc (pos + n) := m ! (pos + n)]"
  have "shift_up m pos (Suc n) = shift_up ?m pos n"
    using Suc.prems by (simp add: cell_get_def cell_set_def)
  also have "\<dots> = Some (take (Suc pos) ?m @ take n (drop pos ?m) @ drop (Suc (pos + n)) ?m)"
    using Suc.IH [of ?m] Suc.prems by simp
  also have "take n (drop pos ?m) @ drop (Suc (pos + n)) ?m
      = take (Suc n) (drop pos m) @ drop (Suc (pos + Suc n)) m"
  proof -
    have "drop (Suc (pos + n)) ?m = m ! (pos + n) # drop (Suc (Suc (pos + n))) m"
      using Suc.prems by (simp add: drop_update_swap Cons_nth_drop_Suc [symmetric])
    moreover have "take n (drop pos ?m) = take n (drop pos m)"
      using Suc.prems by (simp add: drop_update_swap)
    ultimately show ?thesis
      using Suc.prems by (simp add: take_Suc_conv_app_nth)
  qed
  also have "take (Suc pos) ?m = take (Suc pos) m"
    using Suc.prems by simp
  finally show ?case .
qed

lemma shift_down_ok:
  "i + n < length m \<Longrightarrow>
   shift_down m i n = Some (take i m @ take n (drop (Suc i) m) @ drop (i + n) m)"
proof (induction n arbitrary: m i)
  case 0
  then show ?case by simp
next
  case (Suc n)
  let ?m = "m[i := m ! Suc i]"
  have "shift_down m i (Suc n) = shift_down ?m (Suc i) n"
    using Suc.prems by (simp add: cell_get_def cell_set_def)
  moreover have "shift_down ?m (Suc i) n
      = Some (take (Suc i) ?m @ take n (drop (Suc (Suc i)) ?m) @ drop (Suc (i + n)) ?m)"
    using Suc.IH [of "Suc i" ?m] Suc.prems by simp
  moreover have "take (Suc i) ?m = take i m @ [m ! Suc i]"
    using Suc.prems by (simp add: list_update_last)
  moreover have "drop (Suc i) m = m ! Suc i # drop (Suc (Suc i)) m"
    using Suc.prems by (simp add: Cons_nth_drop_Suc)
  ultimately show ?case by simp
qed

lemma insert_loop_range:
  "0 \<le> low \<Longrightarrow> low \<le> high + 1 \<Longrightarrow> high < n \<Longrightarrow>
   0 \<le> insert_loop cmp xs p low high \<and> insert_loop cmp xs p low high \<le> n"
proof (induction "nat (high - low + 1)" arbitrary: low high rule: less_induct)
  case less
  show ?case
  proof (cases "low \<le> high")
    case True
    define m where "m = (low + high) div 2"
    have m: "low \<le> m" "m \<le> high" using True by (auto simp: m_def)
    have "0 \<le> insert_loop cmp xs p low (m - 1) \<and> insert_loop cmp xs p low (m - 1) \<le> n"
      by (rule less.hyps) (use less.prems m in auto)
    moreover have "0 \<le> insert_loop cmp xs p (m + 1) high \<and> insert_loop cmp xs p (m + 1) high \<le> n"
      by (rule less.hyps) (use less.prems m in auto)
    moreover have "insert_loop cmp xs p low high
        \<in> {m, insert_loop cmp xs p low (m - 1), insert_loop cmp xs p (m + 1) high}"
      unfolding insert_loop.simps [of cmp xs p low high] Let_def m_def [symmetric]
      using True by (cases "cmp (xs ! nat m) p = 0"; cases "cmp (xs ! nat m) p > 0") (simp_all only: if_True if_False insert_iff simp_thms)
    ultimately show ?thesis using less.prems m by auto
  qed (use less.prems in \<open>simp add: insert_loop.simps [of cmp xs p low high]\<close>)
qed

lemma sint_small32: "unat n < 0x80000000 \<Longrightarrow> sint (n :: u32) = int (unat n)"
proof -
  assume "unat n < 0x80000000"
  then have "uint n < 0x80000000" using uint_nat [of n] by linarith
  then have "sint n = uint n"
    by (simp add: sint_uint signed_take_bit_int_eq_self order_trans [OF _ uint_ge_0])
  then show ?thesis by (simp only: uint_nat)
qed

lemma sint_pred: "unat n < 0x80000000 \<Longrightarrow> sint (n - 1 :: u32) = int (unat n) - 1"
proof (cases "n = 0")
  case False
  assume "unat n < 0x80000000"
  moreover from False have "0 < unat n" by (simp add: unat_gt_0)
  ultimately show ?thesis using sint_small32 [of "n - 1"] by (simp add: nowrap of_nat_diff)
qed simp

lemma Insert_rep:
  assumes rep: "list_rep o1 l" and room: "length (items l) < LIST_MAX"
  shows "\<exists>o2. Insert call o1 (Some x) = Some o2
      \<and> list_rep o2 (lst_insert (map_option call (LIST_cmp o1)) l x) \<and> LIST_cmp o2 = LIST_cmp o1"
proof (cases "LIST_cmp o1")
  case None
  then show ?thesis using Add_rep [OF rep room, of x] by (simp add: Insert_def lst_insert_def)
next
  case (Some c)
  define l' where "l' = lst_ensure (Some (call c)) l"
  obtain o' where o': "(if \<not> LIST_sorted o1 then Sort call o1 else Some o1) = Some o'"
    "list_rep o' l'" "LIST_cmp o' = Some c"
    using list_ensure_rep [OF rep, of call] Some by (auto simp: l'_def)
  have len: "length (items l') = length (items l)"
    by (simp add: l'_def lst_ensure_def lst_sort_def)
  let ?n = "length (items l')"
  define pos where "pos = nat (insert_loop (call c) (items l') x 0 (int ?n - 1))"
  have pos: "pos \<le> ?n"
    using insert_loop_range [of 0 "int ?n - 1" "int ?n" "call c" "items l'" x]
    by (simp add: pos_def nat_le_iff)
  have num: "unat (LIST_num_item o') = ?n" using o'(2) by (simp add: list_rep_def)
  then have hi: "sint (LIST_num_item o' - 1) = int ?n - 1"
    using sint_pred [of "LIST_num_item o'"] room len by simp
  obtain o2 where o2: "list_grow (o'\<lparr>LIST_num_item := LIST_num_item o' + 1\<rparr>) = Some o2"
    "unat (LIST_num_item o2) = Suc ?n" "LIST_cmp o2 = LIST_cmp o'"
    "LIST_sorted o2 = LIST_sorted o'" "?n < length (LIST_p o2)"
    "length (LIST_p o2) = unat (LIST_num_reserved o2)" "unat (LIST_num_reserved o2) \<le> 536870900"
    "take ?n (LIST_p o2) = map Some (items l')"
    using list_grow_rep [OF o'(2)] room len by auto
  let ?m = "LIST_p o2"
  define m where "m = take (Suc pos) ?m @ take (?n - pos) (drop pos ?m) @ drop (Suc ?n) ?m"
  have up: "shift_up ?m pos (?n - pos) = Some m"
    using shift_up_ok [of pos "?n - pos" ?m] pos o2(5) by (simp add: m_def)
  then have sh: "(if LIST_NUM o2 \<ge> 2 then shift_up ?m pos (unat (LIST_NUM o2) - 1 - pos) else Some ?m) = Some m"
    using o2(2) pos by (auto simp: LIST_NUM_def unat_order)
  have lm: "pos < length m" "length m = length ?m"
    using pos o2(5) by (auto simp: m_def)
  have split: "take pos ?m = map Some (take pos (items l'))"
    "take (?n - pos) (drop pos ?m) = map Some (drop pos (items l'))"
    using o2(8) pos by (metis min.absorb1 take_map take_take, metis drop_map drop_take)
  have "m[pos := Some x] = take pos ?m @ Some x # take (?n - pos) (drop pos ?m) @ drop (Suc ?n) ?m"
    using pos o2(5) by (simp add: m_def list_update_append take_Suc_conv_app_nth)
  then have fin: "take (Suc ?n) (m[pos := Some x]) = map Some (take pos (items l') @ x # drop pos (items l'))"
    unfolding split using pos by (simp add: Suc_diff_le)
  have "Insert call o1 (Some x) = Some (o2\<lparr>LIST_p := m[pos := Some x]\<rparr>)"
    using Some o' o2(1) hi sh lm
    by (simp add: Insert_def Let_def list_items_rep LIST_NUM_def pos_def [symmetric] cell_set_def
        split del: if_split cong del: if_weak_cong)
  moreover have "list_rep (o2\<lparr>LIST_p := m[pos := Some x]\<rparr>) (lst_insert (Some (call c)) l x)"
    using o2 lm fin o'(2) pos
    by (simp add: list_rep_def lst_insert_def Let_def l'_def [symmetric] pos_def [symmetric])
  ultimately show ?thesis using Some o' o2 by simp
qed

lemma find_index_found:
  "x \<in> set xs \<Longrightarrow> find_index (\<lambda>q. q = x) xs < length xs
    \<and> remove1 x xs = take (find_index (\<lambda>q. q = x) xs) xs @ drop (Suc (find_index (\<lambda>q. q = x) xs)) xs"
  by (induction xs) auto

lemma find_index_absent: "x \<notin> set xs \<Longrightarrow> find_index (\<lambda>q. q = x) xs = length xs"
  by (induction xs) auto

lemma Delete_rep:
  assumes rep: "list_rep o1 l"
  shows "\<exists>o2. Delete o1 (Some x) = Some (fst (lst_delete l x), o2)
      \<and> list_rep o2 (snd (lst_delete l x)) \<and> LIST_cmp o2 = LIST_cmp o1"
proof (cases "x \<in> set (items l)")
  case False
  with rep show ?thesis
    by (auto simp: Delete_def list_items_rep find_index_absent list_rep_def lst_delete_def remove1_idem)
next
  case True
  note r = rep [unfolded list_rep_def]
  define n where "n = find_index (\<lambda>q. q = x) (items l)"
  have n: "n < length (items l)" "remove1 x (items l) = take n (items l) @ drop (Suc n) (items l)"
    using find_index_found [OF True] by (auto simp: n_def)
  let ?k = "length (items l) - 1"
  define m where "m = take n (LIST_p o1) @ take (?k - n) (drop (Suc n) (LIST_p o1)) @ drop ?k (LIST_p o1)"
  have u: "unat (LIST_num_item o1 - 1) = ?k" using r n by (simp add: nowrap)
  have down: "shift_down (LIST_p o1) n (?k - n) = Some m"
  proof -
    have e: "n + (?k - n) = ?k" "n + (?k - n) < length (LIST_p o1)" using r n by auto
    show ?thesis using shift_down_ok [OF e(2)] unfolding e(1) m_def .
  qed
  have lm: "length m = length (LIST_p o1)" using n r by (auto simp: m_def)
  have pre: "take n (LIST_p o1) = map Some (take n (items l))"
    "take (?k - n) (drop (Suc n) (LIST_p o1)) = map Some (drop (Suc n) (items l))"
  proof -
    show "take n (LIST_p o1) = map Some (take n (items l))"
      using r n by (metis less_imp_le min.absorb1 take_map take_take)
    have "drop (Suc n) (take (length (items l)) (LIST_p o1)) = map Some (drop (Suc n) (items l))"
      using r by (simp add: drop_map)
    then show "take (?k - n) (drop (Suc n) (LIST_p o1)) = map Some (drop (Suc n) (items l))"
      by (simp add: drop_take)
  qed
  have fin: "take ?k m = map Some (remove1 x (items l))"
    unfolding m_def n(2) pre using n by simp
  have res: "\<exists>o2. (if LIST_num_item o' * 2 \<le> LIST_num_reserved o' \<and> LIST_num_reserved o' > INIT_NUM_RESERVED * 2
       then do { m \<leftarrow> ReAllocPtrs (LIST_p o') (LIST_num_reserved o' div 2);
              Some (True, o'\<lparr>LIST_num_reserved := LIST_num_reserved o' div 2, LIST_p := m\<rparr>) }
       else Some (True, o')) = Some (True, o2)
      \<and> list_rep o2 (l\<lparr>items := remove1 x (items l)\<rparr>) \<and> LIST_cmp o2 = LIST_cmp o1"
    if o': "o' = o1\<lparr>LIST_p := m, LIST_num_item := LIST_num_item o1 - 1\<rparr>" for o'
  proof (cases "LIST_num_item o' * 2 \<le> LIST_num_reserved o' \<and> LIST_num_reserved o' > INIT_NUM_RESERVED * 2")
    case False
    with o' show ?thesis
      using r u lm fin n by (auto simp: list_rep_def length_remove1)
  next
    case small: True
    have h: "unat (LIST_num_reserved o1 div 2) = unat (LIST_num_reserved o1) div 2"
      by (simp add: unat_div)
    have "?k * unat (2 :: u32) < two32" using r by (auto simp: diff_mult_distrib)
    then have "unat ((LIST_num_item o1 - 1) * 2) = 2 * ?k"
      using unat_mult32 [of "LIST_num_item o1 - 1" 2] unfolding u by simp
    with small o' have le: "?k \<le> unat (LIST_num_reserved o1) div 2" "64 < unat (LIST_num_reserved o1)"
      by (auto simp: unat_order)
    have "ReAllocPtrs m (LIST_num_reserved o1 div 2) = Some (take (unat (LIST_num_reserved o1) div 2) m)"
      using r h lm by (subst ReAllocPtrs_ok) auto
    with small o' show ?thesis
      using r u h lm fin n le True by (simp add: list_rep_def length_remove1 min_def)
  qed
  have "n \<noteq> unat (LIST_num_item o1)" using r n by simp
  then show ?thesis
    using res [OF refl] True down u
    by (simp add: Delete_def Let_def list_items_rep [OF rep] n_def [symmetric] lst_delete_def
        split del: if_split cong del: if_weak_cong)
qed

lemma DeleteAll_rep:
  assumes "list_rep o1 l"
  shows "\<exists>o2. DeleteAll o1 = Some o2 \<and> list_rep o2 (l\<lparr>items := []\<rparr>) \<and> LIST_cmp o2 = LIST_cmp o1"
  using assms by (auto simp: DeleteAll_def ReAllocPtrs_ok list_rep_def)

lemma IsInList_rep: "list_rep o1 l \<Longrightarrow> IsInList o1 (Some x) = Some (x \<in> set (items l))"
  by (auto simp: IsInList_def list_items_rep list_ex_iff)

text \<open>
  A clone reserves exactly the room its items take. The clone of an empty list has no room
  at all, and doubling does not give it any: the first \<open>Add\<close> writes outside the array.
\<close>

lemma CloneList_rep:
  fixes o1 :: "('a, 'c) LIST"
  assumes rep: "list_rep o1 l" and ne: "items l \<noteq> []"
  shows "\<exists>o2. CloneList o1 = Some o2 \<and> list_rep o2 l \<and> LIST_cmp o2 = LIST_cmp o1"
proof -
  note r = rep [unfolded list_rep_def]
  have "(MallocPtrs (LIST_num_item o1) :: 'a block option) = Some (replicate (length (items l)) None)"
    using r by (subst MallocPtrs_ok) auto
  then have "ToArray o1 = Some (map Some (items l))"
    using r by (simp add: ToArray_def ToArrayEx_def LIST_NUM_def mem_read_ok mem_write_ok)
  then show ?thesis
    using r ne NewList_rep [of "LIST_cmp o1" False False, where ?'a = 'a]
    by (auto simp: CloneList_def NewList_def NewListEx_def LIST_NUM_def list_rep_def)
qed

lemma CloneList_empty_Add:
  fixes o1 :: "('a, 'c) LIST"
  assumes rep: "list_rep o1 l" and e: "items l = []"
  shows "\<exists>o2. CloneList o1 = Some o2 \<and> Add o2 (Some x) = None"
proof -
  have n: "LIST_num_item o1 = 0" using rep e by (simp add: list_rep_def unat_eq_zero)
  obtain o3 :: "('a, 'c) LIST" where o3: "NewListEx2 (LIST_cmp o1) False False = Some o3"
    using NewList_rep by blast
  have "ToArray o1 = Some []"
    using n by (simp add: ToArray_def ToArrayEx_def LIST_NUM_def MallocPtrs_def ptr_bytes_def
        mem_read_def mem_write_def)
  then show ?thesis
    using o3 n by (simp add: CloneList_def NewList_def NewListEx_def LIST_NUM_def Add_def Let_def
        list_grow_def ReAllocPtrs_def ptr_bytes_def cell_set_def)
qed

end
