(* ===== verification/Utf8.thy ===== *)
theory Utf8
  imports CStr Endian
begin

text \<open>
  Wide strings and their UTF-8 form: \<open>UniToUtf8\<close>, \<open>Utf8ToUni\<close> and the functions
  they use, and the wide counterparts of the bounded copy and of trimming, from
  src/src/Mayaqua/Internat.c. A \<open>wchar_t\<close> has four bytes, as on Unix; the code looks
  at the two low ones only. A \<open>wchar_t *\<close> is modelled by the characters before its
  terminating zero.
\<close>

type_synonym wstr = "u32 list"

abbreviation SIZEOF_WCHAR :: u32 where
  "SIZEOF_WCHAR \<equiv> 4"

definition w_string :: "u32 list \<Rightarrow> wstr" where
  "w_string cs = takeWhile (\<lambda>c. c \<noteq> 0) cs"

definition is_wstr :: "u32 list \<Rightarrow> bool" where
  "is_wstr s \<longleftrightarrow> 0 \<notin> set s"

section \<open>Length, copy, trimming\<close>

definition UniStrLen :: "wstr \<Rightarrow> u32" where
  "UniStrLen s = of_nat (length s)"

definition UniStrSize :: "wstr \<Rightarrow> u32" where
  "UniStrSize s = (UniStrLen s + 1) * SIZEOF_WCHAR"

text \<open>
  The string the destination holds afterwards and the returned length; with a size below
  that of a character the destination is left as it was, \<^const>\<open>None\<close>.
\<close>

definition UniStrCpy :: "u32 \<Rightarrow> wstr \<Rightarrow> wstr option \<times> u32" where
  "UniStrCpy sz src =
     (if sz \<noteq> 0 \<and> sz < SIZEOF_WCHAR then (None, 0)
      else if sz = SIZEOF_WCHAR then (Some [], 0)
      else let sz1 = (if sz = 0 then 0x3fffffff else sz); len = UniStrLen src
        in if len \<le> sz1 div SIZEOF_WCHAR - 1 then (Some src, len)
           else let len1 = sz1 div SIZEOF_WCHAR - 1 in (Some (take (unat len1) src), len1))"

fun UniCheckStrLen_from :: "u32 \<Rightarrow> wstr \<Rightarrow> u32 \<Rightarrow> bool" where
  "UniCheckStrLen_from cnt [] len = True"
| "UniCheckStrLen_from cnt (c # s) len =
     (if c = 0 then True
      else if cnt + 1 > len then False else UniCheckStrLen_from (cnt + 1) s len)"

definition UniCheckStrLen :: "wstr \<Rightarrow> u32 \<Rightarrow> bool" where
  "UniCheckStrLen str len = UniCheckStrLen_from 0 str len"

definition UniCheckStrSize :: "wstr \<Rightarrow> u32 \<Rightarrow> bool" where
  "UniCheckStrSize str sz = (if sz \<le> 1 then False else UniCheckStrLen str (sz div SIZEOF_WCHAR - 1))"

text \<open>Copying back over the string leaves it shortened to what an unlimited copy takes.\<close>

definition uni_copy_back :: "wstr \<Rightarrow> wstr \<Rightarrow> wstr" where
  "uni_copy_back str buf = (case fst (UniStrCpy 0 buf) of None \<Rightarrow> str | Some s \<Rightarrow> s)"

definition UniTrimRight :: "wstr \<Rightarrow> wstr" where
  "UniTrimRight s =
     (if s = [] then s
      else if last s \<noteq> 32 \<and> last s \<noteq> 9 then s
      else uni_copy_back s (trim_right_loop s [] []))"

definition UniTrimLeft :: "wstr \<Rightarrow> wstr" where
  "UniTrimLeft s =
     (if s = [] then s
      else if hd s \<noteq> 32 \<and> hd s \<noteq> 9 then s
      else uni_copy_back s (trim_left_loop s False []))"

definition UniTrim :: "wstr \<Rightarrow> wstr" where
  "UniTrim s = UniTrimRight (UniTrimLeft s)"

section \<open>Encoding\<close>

text \<open>The two low bytes of a character in memory, the higher one first.\<close>

definition uni_c1 :: "bool \<Rightarrow> u32 \<Rightarrow> u8" where
  "uni_c1 le c = (if \<not> le then mem32 le c ! 2 else mem32 le c ! 1)"

definition uni_c2 :: "bool \<Rightarrow> u32 \<Rightarrow> u8" where
  "uni_c2 le c = (if \<not> le then mem32 le c ! 3 else mem32 le c ! 0)"

definition GetUniType :: "bool \<Rightarrow> u32 \<Rightarrow> u32" where
  "GetUniType le c =
     (let c1 = uni_c1 le c; c2 = uni_c2 le c
      in if c1 = 0 then (if c2 \<le> 0x7f then 1 else 2)
         else if c1 AND 0xf8 = 0 then 2 else 3)"

definition uni_bytes :: "bool \<Rightarrow> u32 \<Rightarrow> u8 list" where
  "uni_bytes le c =
     (let c1 = uni_c1 le c; c2 = uni_c2 le c; type = GetUniType le c
      in if type = 1 then [c2]
         else if type = 2
         then [0xc0 OR ((push_bit 2 (c1 AND 0x07) AND 0x1c) OR (drop_bit 6 (c2 AND 0xc0) AND 0x03)),
               0x80 OR (c2 AND 0x3f)]
         else if type = 3
         then [0xe0 OR (drop_bit 4 (c1 AND 0xf0) AND 0x0f),
               0x80 OR (push_bit 2 (c1 AND 0x0f) AND 0x3c) OR (drop_bit 6 (c2 AND 0xc0) AND 0x03),
               0x80 OR (c2 AND 0x3f)]
         else [])"

text \<open>Each byte is stored only while there is room.\<close>

definition put_byte :: "u32 \<Rightarrow> u8 \<Rightarrow> u8 list \<Rightarrow> u8 list" where
  "put_byte sz b out = (if length out < unat sz then out @ [b] else out)"

text \<open>
  The bytes before the terminating zero; a terminator follows them in memory when they are
  fewer than the size. The returned length is theirs.
\<close>

definition UniToUtf8 :: "bool \<Rightarrow> u32 \<Rightarrow> wstr \<Rightarrow> u8 list" where
  "UniToUtf8 le sz s =
     (let sz1 = (if sz = 0 then 0x3fffffff else sz)
      in fold (\<lambda>c out. fold (put_byte sz1) (uni_bytes le c) out) s [])"

definition CalcUniToUtf8 :: "bool \<Rightarrow> wstr \<Rightarrow> u32" where
  "CalcUniToUtf8 le s = fold (\<lambda>c sz. sz + GetUniType le c) s 0"

section \<open>Decoding\<close>

definition byte_at :: "u8 list \<Rightarrow> u32 \<Rightarrow> u8 option" where
  "byte_at u i = (if unat i < length u then Some (u ! unat i) else None)"

definition GetUtf8Type :: "u8 list \<Rightarrow> u32 \<Rightarrow> u32 \<Rightarrow> u32 option" where
  "GetUtf8Type s sz offset =
     (if offset + 1 > sz then Some 0
      else do {
        b \<leftarrow> byte_at s offset;
        if b AND 0x80 = 0 then Some 1
        else if b AND 0x20 = 0 then (if offset + 2 > sz then Some 0 else Some 2)
        else (if offset + 3 > sz then Some 0 else Some 3)
      })"

partial_function (option) Utf8Len_loop :: "u8 list \<Rightarrow> u32 \<Rightarrow> u32 \<Rightarrow> u32 \<Rightarrow> u32 option" where
  "Utf8Len_loop u sz i num =
     do {
       type \<leftarrow> GetUtf8Type u sz i;
       if type = 0 then Some num else Utf8Len_loop u sz (i + type) (num + 1)
     }"

definition Utf8Len :: "u8 list \<Rightarrow> u32 \<Rightarrow> u32 option" where
  "Utf8Len u sz = (let sz1 = (if sz = 0 then StrLen (c_string u) else sz) in Utf8Len_loop u sz1 0 0)"

definition CalcUtf8ToUni :: "u8 list \<Rightarrow> u32 \<Rightarrow> u32 option" where
  "CalcUtf8ToUni u u_size =
     (let u_size = (if u_size = 0 then StrLen (c_string u) else u_size)
      in do { n \<leftarrow> Utf8Len u u_size; Some ((n + 1) * SIZEOF_WCHAR) })"

definition utf8_char :: "u8 list \<Rightarrow> u32 \<Rightarrow> u32 \<Rightarrow> u32 option" where
  "utf8_char u type i =
     do {
       (c1, c2) \<leftarrow>
         (if type = 1 then do { b0 \<leftarrow> byte_at u i; Some (0, b0) }
          else if type = 2
          then do {
            b0 \<leftarrow> byte_at u i; b1 \<leftarrow> byte_at u (i + 1);
            Some (drop_bit 2 (b0 AND 0x1c) AND 0x07,
                  (push_bit 6 (b0 AND 0x03) AND 0xc0) OR (b1 AND 0x3f))
          }
          else do {
            b0 \<leftarrow> byte_at u i; b1 \<leftarrow> byte_at u (i + 1); b2 \<leftarrow> byte_at u (i + 2);
            Some ((push_bit 4 (b0 AND 0x0f) AND 0xf0) OR (drop_bit 2 (b1 AND 0x3c) AND 0x0f),
                  (push_bit 6 (b1 AND 0x03) AND 0xc0) OR (b2 AND 0x3f))
          });
       Some (of_be32 [0, 0, c1, c2])
     }"

text \<open>
  The characters stored, and whether a terminator followed them. A store at or beyond
  \<open>sz / 4\<close> characters leaves the destination.
\<close>

partial_function (option) Utf8ToUni_loop ::
  "u32 \<Rightarrow> u8 list \<Rightarrow> u32 \<Rightarrow> u32 \<Rightarrow> u32 list \<Rightarrow> u32 list option" where
  "Utf8ToUni_loop sz u u_size i out =
     do {
       type \<leftarrow> GetUtf8Type u u_size i;
       if type = 0 then Some out
       else do {
         c \<leftarrow> utf8_char u type i;
         if of_nat (length out) < sz div SIZEOF_WCHAR - 1
         then (if of_nat (length out) < sz div SIZEOF_WCHAR
               then Utf8ToUni_loop sz u u_size (i + type) (out @ [c]) else None)
         else Some out
       }
     }"

definition Utf8ToUni :: "u32 \<Rightarrow> u8 list \<Rightarrow> u32 \<Rightarrow> (u32 list \<times> bool) option" where
  "Utf8ToUni sz u u_size =
     (let sz = (if sz = 0 then 0x3fffffff else sz);
          u_size = (if u_size = 0 then StrLen (c_string u) else u_size)
      in do {
        out \<leftarrow> Utf8ToUni_loop sz u u_size 0 [];
        Some (out, of_nat (length out) < sz div SIZEOF_WCHAR)
      })"

section \<open>Bytes of a character\<close>

lemma uni_c1_eq: "uni_c1 le c = ucast (drop_bit 8 c)"
  by (simp add: uni_c1_def mem32_def be32_def)

lemma uni_c2_eq: "uni_c2 le c = ucast c"
  by (simp add: uni_c2_def mem32_def be32_def)

definition bmp :: "u32 \<Rightarrow> bool" where
  "bmp c \<longleftrightarrow> drop_bit 16 c = 0"

lemma GetUniType_cases:
  "GetUniType le c = 1 \<or> GetUniType le c = 2 \<or> GetUniType le c = 3"
  by (simp add: GetUniType_def Let_def)

lemma length_uni_bytes: "of_nat (length (uni_bytes le c)) = GetUniType le c"
  using GetUniType_cases [of le c] by (auto simp: uni_bytes_def Let_def)

lemma length_uni_bytes_le: "length (uni_bytes le c) \<le> 3"
  by (simp add: uni_bytes_def Let_def)

lemma uni_bytes_host: "uni_bytes le c = uni_bytes le' c"
  by (simp add: uni_bytes_def GetUniType_def uni_c1_eq uni_c2_eq)

definition utf8_of :: "wstr \<Rightarrow> u8 list" where
  "utf8_of s = concat (map (uni_bytes True) s)"

lemma utf8_of_simps [simp]:
  "utf8_of [] = []" "utf8_of (c # s) = uni_bytes True c @ utf8_of s"
  by (simp_all add: utf8_of_def)

lemma fold_GetUniType:
  "fold (\<lambda>c sz. sz + GetUniType le c) s n = n + of_nat (length (utf8_of s))"
  by (induction s arbitrary: n)
    (auto simp: length_uni_bytes [of le, symmetric] uni_bytes_host [of le _ True])

lemma CalcUniToUtf8_length: "CalcUniToUtf8 le s = of_nat (length (utf8_of s))"
  by (simp add: CalcUniToUtf8_def fold_GetUniType)

lemma fold_put_byte:
  "length out + length bs \<le> unat sz \<Longrightarrow> fold (put_byte sz) bs out = out @ bs"
  by (induction bs arbitrary: out) (auto simp: put_byte_def)

lemma fold_uni_bytes:
  "length out + length (utf8_of s) \<le> unat sz \<Longrightarrow>
   fold (\<lambda>c out. fold (put_byte sz) (uni_bytes le c) out) s out = out @ utf8_of s"
  by (induction s arbitrary: out) (auto simp: fold_put_byte uni_bytes_host [of le _ True])

lemma UniToUtf8_exact:
  "sz \<noteq> 0 \<Longrightarrow> length (utf8_of s) \<le> unat sz \<Longrightarrow> UniToUtf8 le sz s = utf8_of s"
  by (simp add: UniToUtf8_def Let_def fold_uni_bytes)

section \<open>Decoding as a function on lists\<close>

text \<open>
  \<open>utype\<close> and \<open>uchar\<close> look at the bytes that are left; \<open>decode\<close> stops
  at the end or at a sequence that is cut off.
\<close>

fun utype :: "u8 list \<Rightarrow> nat" where
  "utype [] = 0"
| "utype (b # r) =
     (if b AND 0x80 = 0 then 1
      else if b AND 0x20 = 0 then (if length r < 1 then 0 else 2)
      else if length r < 2 then 0 else 3)"

definition uchar :: "u8 list \<Rightarrow> u32" where
  "uchar r =
     (if utype r = 1 then of_be32 [0, 0, 0, r ! 0]
      else if utype r = 2
      then of_be32 [0, 0, drop_bit 2 (r ! 0 AND 0x1c) AND 0x07,
                    (push_bit 6 (r ! 0 AND 0x03) AND 0xc0) OR (r ! 1 AND 0x3f)]
      else of_be32 [0, 0, (push_bit 4 (r ! 0 AND 0x0f) AND 0xf0) OR (drop_bit 2 (r ! 1 AND 0x3c) AND 0x0f),
                    (push_bit 6 (r ! 1 AND 0x03) AND 0xc0) OR (r ! 2 AND 0x3f)])"

function decode :: "u8 list \<Rightarrow> u32 list" where
  "decode r = (if utype r = 0 then [] else uchar r # decode (drop (utype r) r))"
  by pat_completeness auto
termination
proof (relation "measure length")
  fix r
  assume "utype r \<noteq> 0"
  then show "(drop (utype r) r, r) \<in> measure length" by (cases r) auto
qed simp

declare decode.simps [simp del]

lemma utype_le: "utype r \<le> length r"
  by (cases r) (auto simp: Suc_le_eq)

lemma utype_range: "utype r \<in> {0, 1, 2, 3}"
  by (cases r) auto

lemma length_decode: "length (decode r) \<le> length r"
proof (induction r rule: decode.induct)
  case (1 r)
  show ?case
  proof (cases "utype r = 0")
    case False
    with 1 utype_le [of r] show ?thesis
      by (subst decode.simps) (auto simp: Suc_le_eq less_le_trans)
  qed (simp add: decode.simps)
qed

text \<open>What is left at an offset, and the agreement of the code with the list functions.\<close>

definition left_at :: "u8 list \<Rightarrow> u32 \<Rightarrow> u32 \<Rightarrow> u8 list" where
  "left_at u sz i = drop (unat i) (take (unat sz) u)"

definition utf8_safe :: "u8 list \<Rightarrow> u32 \<Rightarrow> u32 \<Rightarrow> bool" where
  "utf8_safe u sz i \<longleftrightarrow> unat i \<le> unat sz \<and> unat sz \<le> length u \<and> unat sz < 0xFFFFFFF0"

lemma left_at_length: "utf8_safe u sz i \<Longrightarrow> length (left_at u sz i) = unat sz - unat i"
  by (simp add: left_at_def utf8_safe_def)

lemma left_at_nth:
  "utf8_safe u sz i \<Longrightarrow> k < length (left_at u sz i) \<Longrightarrow> left_at u sz i ! k = u ! (unat i + k)"
  by (simp add: left_at_def utf8_safe_def)

lemma byte_at_left:
  assumes s: "utf8_safe u sz i" and k: "k < length (left_at u sz i)" and j: "unat j = unat i + k"
  shows "byte_at u j = Some (left_at u sz i ! k)"
  using assms left_at_length [OF s] left_at_nth [OF s k] by (auto simp: byte_at_def utf8_safe_def)

lemma GetUtf8Type_left:
  assumes s: "utf8_safe u sz i"
  shows "GetUtf8Type u sz i = Some (of_nat (utype (left_at u sz i)))"
proof -
  have b: "unat i < 0xFFFFFFF0" using s by (simp add: utf8_safe_def)
  then have u: "unat (i + 1) = unat i + 1" "unat (i + 2) = unat i + 2" "unat (i + 3) = unat i + 3"
    by (simp_all add: nowrap)
  note l = left_at_length [OF s]
  show ?thesis
  proof (cases "left_at u sz i")
    case Nil
    then show ?thesis using l u s by (simp add: GetUtf8Type_def unat_order utf8_safe_def)
  next
    case (Cons b r)
    then have "byte_at u i = Some b" using byte_at_left [OF s, of 0 i] by simp
    moreover have "unat sz = unat i + length r + 1"
      using l Cons s [unfolded utf8_safe_def] by simp
    ultimately show ?thesis
      unfolding Cons using u s by (auto simp: GetUtf8Type_def unat_order utf8_safe_def)
  qed
qed

lemma utf8_char_left:
  assumes s: "utf8_safe u sz i" and t: "utype (left_at u sz i) \<noteq> 0"
  shows "utf8_char u (of_nat (utype (left_at u sz i))) i = Some (uchar (left_at u sz i))"
proof -
  let ?r = "left_at u sz i"
  have b: "unat i < 0xFFFFFFF0" using s by (simp add: utf8_safe_def)
  then have u: "unat (i + 1) = unat i + 1" "unat (i + 2) = unat i + 2"
    by (simp_all add: nowrap)
  have l: "utype ?r \<le> length ?r" by (rule utype_le)
  have "?r \<noteq> []" using t by (cases ?r) auto
  then have b0: "byte_at u i = Some (?r ! 0)" using byte_at_left [OF s, of 0 i] by simp
  consider "utype ?r = 1" | "utype ?r = 2" | "utype ?r = 3" using t utype_range [of ?r] by auto
  then show ?thesis
    using l b0 byte_at_left [OF s, of 1 "i + 1"] byte_at_left [OF s, of 2 "i + 2"] u
    by cases (simp_all add: utf8_char_def uchar_def)
qed

lemma left_at_step:
  assumes s: "utf8_safe u sz i" and t: "n \<le> length (left_at u sz i)" "n \<le> 3"
  shows "utf8_safe u sz (i + of_nat n)" and "left_at u sz (i + of_nat n) = drop n (left_at u sz i)"
proof -
  have n: "unat i + n \<le> unat sz" using t(1) left_at_length [OF s] s [unfolded utf8_safe_def] by linarith
  have "unat (i + of_nat n) = unat i + n"
    using s t by (simp add: utf8_safe_def nowrap)
  then show "utf8_safe u sz (i + of_nat n)" "left_at u sz (i + of_nat n) = drop n (left_at u sz i)"
    using s n by (simp_all add: utf8_safe_def left_at_def add.commute)
qed

lemma utype_le3: "utype r \<le> 3"
  using utype_range [of r] by auto

lemma of_nat_utype_zero: "(of_nat (utype r) = (0 :: u32)) = (utype r = 0)"
  using utype_range [of r] by auto

lemma Utf8Len_loop_decode:
  "utf8_safe u sz i \<Longrightarrow>
   Utf8Len_loop u sz i num = Some (num + of_nat (length (decode (left_at u sz i))))"
proof (induction "left_at u sz i" arbitrary: i num rule: decode.induct)
  case 1
  let ?r = "left_at u sz i"
  show ?case
  proof (cases "utype ?r = 0")
    case True
    with 1 show ?thesis
      by (simp add: Utf8Len_loop.simps [of u sz i num] GetUtf8Type_left decode.simps [of ?r])
  next
    case False
    note st = left_at_step [OF 1(2) utype_le utype_le3]
    show ?thesis
      using 1(1) [OF False st(2) [symmetric] st(1), of "num + 1"] False 1(2)
      by (simp add: Utf8Len_loop.simps [of u sz i num] GetUtf8Type_left of_nat_utype_zero st
          decode.simps [of ?r])
  qed
qed

lemma Utf8ToUni_loop_decode:
  "utf8_safe u usz i \<Longrightarrow> length out + length (decode (left_at u usz i)) + 1 = unat (sz div 4) \<Longrightarrow>
   Utf8ToUni_loop sz u usz i out = Some (out @ decode (left_at u usz i))"
proof (induction "left_at u usz i" arbitrary: i out rule: decode.induct)
  case 1
  let ?r = "left_at u usz i"
  show ?case
  proof (cases "utype ?r = 0")
    case True
    with 1 show ?thesis
      by (simp add: Utf8ToUni_loop.simps [of sz u usz i out] GetUtf8Type_left decode.simps [of ?r])
  next
    case False
    note st = left_at_step [OF 1(2) utype_le utype_le3]
    have d: "decode ?r = uchar ?r # decode (drop (utype ?r) ?r)"
      using False by (simp add: decode.simps [of ?r])
    then have len: "length out + 1 < unat (sz div 4)" using 1(3) by simp
    have m: "unat (sz div 4 - 1) = unat (sz div 4) - 1" using len by (simp add: nowrap)
    have lo: "unat (of_nat (length out) :: u32) = length out"
      using len unat_lt32 [of "sz div 4"] by (intro unat_of_nat32) linarith
    have "of_nat (length out) < sz div 4 - 1" "of_nat (length out) < sz div 4"
      using len unfolding unat_order m lo by linarith+
    moreover have "Utf8ToUni_loop sz u usz (i + of_nat (utype ?r)) (out @ [uchar ?r])
        = Some ((out @ [uchar ?r]) @ decode (left_at u usz (i + of_nat (utype ?r))))"
      using 1(1) [OF False st(2) [symmetric] st(1), of "out @ [uchar ?r]"] 1(3) d st(2) by simp
    ultimately show ?thesis
      using False 1(2)
      by (simp add: Utf8ToUni_loop.simps [of sz u usz i out] GetUtf8Type_left utf8_char_left
          of_nat_utype_zero st d)
  qed
qed

section \<open>Round trip\<close>

lemma byte_cases:
  assumes "n < LENGTH(8)"
  obtains "n = 0" | "n = 1" | "n = 2" | "n = 3" | "n = 4" | "n = 5" | "n = 6" | "n = (7 :: nat)"
  using assms by (auto simp: less_Suc_eq numeral_eq_Suc)

lemma high_bits: "(b AND 0x80 = 0) = (\<not> bit b 7)" "(b AND 0x20 = 0) = (\<not> bit b 5)" for b :: u8
  using and_exp_eq_0_iff_not_bit [of b 7] and_exp_eq_0_iff_not_bit [of b 5] by simp_all

lemma low_byte_all: "list_all (\<lambda>x. (x \<le> 0x7f) = (\<not> bit (x :: u8) 7)) (map of_nat [0..<256])"
  by code_simp

lemma low_byte: "(x \<le> 0x7f) = (\<not> bit (x :: u8) 7)"
proof -
  have "unat x < 2 ^ LENGTH(8)" by (rule unsigned_less)
  then have "x \<in> set (map of_nat [0..<256])"
    by (auto simp: image_iff intro!: bexI [of _ "unat x"])
  with low_byte_all show ?thesis unfolding list_all_iff by blast
qed

lemma utype_uni_bytes: "utype (uni_bytes le c @ r) = length (uni_bytes le c)"
  by (auto simp: uni_bytes_def Let_def GetUniType_def low_byte high_bits bit_simps)

lemma two_byte_c1: "c1 AND 0xf8 = 0 \<Longrightarrow>
    drop_bit 2 ((0xc0 OR ((push_bit 2 (c1 AND 0x07) AND 0x1c) OR x AND 0x03)) AND 0x1c) AND 0x07 = (c1 :: u8)"
proof (rule bit_word_eqI)
  fix n
  assume z: "c1 AND 0xf8 = 0" and n: "n < LENGTH(8)"
  have "bit (c1 AND 0xf8) n = False" using z by simp
  then show "bit (drop_bit 2 ((0xc0 OR ((push_bit 2 (c1 AND 0x07) AND 0x1c) OR x AND 0x03)) AND 0x1c) AND 0x07) n
      = bit c1 n"
    using n by (rule_tac byte_cases [OF n]) (auto simp: bit_simps)
qed

lemma two_byte_c2:
  "(push_bit 6 ((0xc0 OR ((x AND 0x1c) OR (drop_bit 6 (c2 AND 0xc0) AND 0x03))) AND 0x03) AND 0xc0)
    OR ((0x80 OR (c2 AND 0x3f)) AND 0x3f) = (c2 :: u8)"
proof (rule bit_word_eqI)
  fix n
  assume n: "n < LENGTH(8)"
  show "bit ((push_bit 6 ((0xc0 OR ((x AND 0x1c) OR (drop_bit 6 (c2 AND 0xc0) AND 0x03))) AND 0x03) AND 0xc0)
    OR ((0x80 OR (c2 AND 0x3f)) AND 0x3f)) n = bit c2 n"
    by (rule byte_cases [OF n]) (auto simp: bit_simps)
qed

lemma three_byte_c1:
  "(push_bit 4 ((0xe0 OR (drop_bit 4 (c1 AND 0xf0) AND 0x0f)) AND 0x0f) AND 0xf0)
    OR (drop_bit 2 ((0x80 OR (push_bit 2 (c1 AND 0x0f) AND 0x3c) OR (x AND 0x03)) AND 0x3c) AND 0x0f)
    = (c1 :: u8)"
proof (rule bit_word_eqI)
  fix n
  assume n: "n < LENGTH(8)"
  show "bit ((push_bit 4 ((0xe0 OR (drop_bit 4 (c1 AND 0xf0) AND 0x0f)) AND 0x0f) AND 0xf0)
    OR (drop_bit 2 ((0x80 OR (push_bit 2 (c1 AND 0x0f) AND 0x3c) OR (x AND 0x03)) AND 0x3c) AND 0x0f)) n
    = bit c1 n"
    by (rule byte_cases [OF n]) (auto simp: bit_simps)
qed

lemma three_byte_c2:
  "(push_bit 6 ((0x80 OR (x AND 0x3c) OR (drop_bit 6 (c2 AND 0xc0) AND 0x03)) AND 0x03) AND 0xc0)
    OR ((0x80 OR (c2 AND 0x3f)) AND 0x3f) = (c2 :: u8)"
proof (rule bit_word_eqI)
  fix n
  assume n: "n < LENGTH(8)"
  show "bit ((push_bit 6 ((0x80 OR (x AND 0x3c) OR (drop_bit 6 (c2 AND 0xc0) AND 0x03)) AND 0x03) AND 0xc0)
    OR ((0x80 OR (c2 AND 0x3f)) AND 0x3f)) n = bit c2 n"
    by (rule byte_cases [OF n]) (auto simp: bit_simps)
qed

lemma uni_bytes_2:
  assumes "GetUniType le c = 2" and "uni_c1 le c AND 0xf8 = 0"
  shows "\<exists>b0 b1. uni_bytes le c = [b0, b1] \<and> drop_bit 2 (b0 AND 0x1c) AND 0x07 = uni_c1 le c
      \<and> (push_bit 6 (b0 AND 0x03) AND 0xc0) OR (b1 AND 0x3f) = uni_c2 le c"
proof -
  have "uni_bytes le c
      = [0xc0 OR ((push_bit 2 (uni_c1 le c AND 0x07) AND 0x1c) OR (drop_bit 6 (uni_c2 le c AND 0xc0) AND 0x03)),
         0x80 OR (uni_c2 le c AND 0x3f)]"
    unfolding uni_bytes_def Let_def assms(1) by simp
  then show ?thesis using two_byte_c1 [OF assms(2)] two_byte_c2 by blast
qed

lemma uni_bytes_3:
  assumes "GetUniType le c = 3"
  shows "\<exists>b0 b1 b2. uni_bytes le c = [b0, b1, b2]
      \<and> (push_bit 4 (b0 AND 0x0f) AND 0xf0) OR (drop_bit 2 (b1 AND 0x3c) AND 0x0f) = uni_c1 le c
      \<and> (push_bit 6 (b1 AND 0x03) AND 0xc0) OR (b2 AND 0x3f) = uni_c2 le c"
proof -
  have "uni_bytes le c
      = [0xe0 OR (drop_bit 4 (uni_c1 le c AND 0xf0) AND 0x0f),
         0x80 OR (push_bit 2 (uni_c1 le c AND 0x0f) AND 0x3c) OR (drop_bit 6 (uni_c2 le c AND 0xc0) AND 0x03),
         0x80 OR (uni_c2 le c AND 0x3f)]"
    unfolding uni_bytes_def Let_def assms(1) by simp
  then show ?thesis using three_byte_c1 three_byte_c2 by blast
qed

lemma uchar_c1_c2: "uchar (uni_bytes le c @ r) = of_be32 [0, 0, uni_c1 le c, uni_c2 le c]"
proof -
  note t = utype_uni_bytes [of le c r]
  consider "GetUniType le c = 1" "uni_c1 le c = 0"
    | "GetUniType le c = 2" "uni_c1 le c AND 0xf8 = 0" | "GetUniType le c = 3"
    by (cases "uni_c1 le c = 0"; cases "uni_c1 le c AND 0xf8 = 0"; cases "uni_c2 le c \<le> 0x7f")
      (auto simp: GetUniType_def Let_def)
  then show ?thesis
  proof cases
    case 1
    then have "uni_bytes le c = [uni_c2 le c]" by (simp add: uni_bytes_def Let_def)
    with t 1 show ?thesis by (simp add: uchar_def del: of_be32.simps utype.simps)
  next
    case 2
    then obtain b0 b1 where "uni_bytes le c = [b0, b1]"
      and c1: "drop_bit 2 (b0 AND 0x1c) AND 0x07 = uni_c1 le c"
      and "(push_bit 6 (b0 AND 0x03) AND 0xc0) OR (b1 AND 0x3f) = uni_c2 le c"
      using uni_bytes_2 by blast
    moreover have "uni_c1 le c AND 0x07 = uni_c1 le c"
      by (simp flip: c1)
    ultimately show ?thesis using t unfolding uchar_def by (simp del: of_be32.simps utype.simps)
  next
    case 3
    then obtain b0 b1 b2 where "uni_bytes le c = [b0, b1, b2]"
      "(push_bit 4 (b0 AND 0x0f) AND 0xf0) OR (drop_bit 2 (b1 AND 0x3c) AND 0x0f) = uni_c1 le c"
      "(push_bit 6 (b1 AND 0x03) AND 0xc0) OR (b2 AND 0x3f) = uni_c2 le c"
      using uni_bytes_3 by blast
    with t show ?thesis unfolding uchar_def by (simp del: of_be32.simps utype.simps)
  qed
qed

lemma bmp_char:
  assumes "bmp c"
  shows "of_be32 [0, 0, uni_c1 le c, uni_c2 le c] = c"
proof -
  have "drop_bit (8 + 16) c = drop_bit 8 (drop_bit 16 c)" by (rule drop_bit_drop_bit [symmetric])
  then have "drop_bit 24 c = 0" using assms unfolding bmp_def by (simp only: drop_bit_of_0) simp
  then have "be32 c = [0, 0, uni_c1 le c, uni_c2 le c]"
    using assms by (simp add: be32_def uni_c1_eq uni_c2_eq bmp_def)
  then show ?thesis by (metis of_be32_be32)
qed

lemma decode_uni_bytes:
  "bmp c \<Longrightarrow> decode (uni_bytes le c @ r) = c # decode r"
proof -
  assume "bmp c"
  moreover have "0 < length (uni_bytes le c)"
    by (simp add: uni_bytes_def Let_def GetUniType_def)
  ultimately show ?thesis
    by (subst decode.simps) (simp add: utype_uni_bytes uchar_c1_c2 bmp_char del: of_be32.simps)
qed

lemma decode_utf8_of: "list_all bmp s \<Longrightarrow> decode (utf8_of s @ r) = s @ decode r"
  by (induction s) (auto simp: decode_uni_bytes)

lemma decode_zero: "decode [0] = [0]"
  by (simp add: decode.simps [of "[0]"] decode.simps [of "[]"] uchar_def)

text \<open>
  Encoding a string with its terminator and decoding the bytes into a buffer of the
  calculated size gives the string back.
\<close>

lemma Utf8_decode:
  assumes u: "unat sz \<le> length u" and nz: "sz \<noteq> 0" and max: "unat sz \<le> 0x3ffffff0"
    and d: "d = decode (take (unat sz) u)"
  shows "CalcUtf8ToUni u sz = Some ((of_nat (length d) + 1) * 4)"
    and "Utf8ToUni ((of_nat (length d) + 1) * 4) u sz = Some (d, True)"
    and "(of_nat (length d) + 1) * 4 \<noteq> (0 :: u32)"
proof -
  have safe: "utf8_safe u sz 0" using u max by (simp add: utf8_safe_def)
  have l: "left_at u sz 0 = take (unat sz) u" using u by (simp add: left_at_def)
  show "CalcUtf8ToUni u sz = Some ((of_nat (length d) + 1) * 4)"
    using Utf8Len_loop_decode [OF safe, of 0] nz l by (simp add: CalcUtf8ToUni_def Utf8Len_def d)
  let ?n = "of_nat (length d) + 1 :: u32"
  have d0: "length d \<le> 0x3ffffff0" using length_decode [of "take (unat sz) u"] u max d by simp
  then have n: "unat ?n = length d + 1" by (simp add: nowrap)
  then have n4: "unat (?n * 4) = 4 * (length d + 1)" using d0 by (simp add: nowrap)
  then have q: "unat (?n * 4 div 4) = length d + 1" by (simp add: unat_div)
  show nz4: "?n * 4 \<noteq> 0" using n4 by auto
  have "(of_nat (length d) :: u32) < ?n * 4 div 4"
    unfolding unat_order q using d0 by (simp add: nowrap)
  moreover have "Utf8ToUni_loop (?n * 4) u sz 0 [] = Some d"
    using Utf8ToUni_loop_decode [OF safe, of "[]" "?n * 4"] l q d by simp
  ultimately show "Utf8ToUni (?n * 4) u sz = Some (d, True)"
    using nz nz4 by (simp add: Utf8ToUni_def Let_def)
qed

text \<open>A size of 0 makes the functions look for the terminator themselves.\<close>

lemma Utf8_decode_empty: "CalcUtf8ToUni (0 # u) 0 = Some 4" "Utf8ToUni 4 (0 # u) 0 = Some ([], True)"
  by (simp_all add: CalcUtf8ToUni_def Utf8Len_def Utf8ToUni_def StrLen_def c_string_def
      Utf8Len_loop.simps [of _ 0 0 0] Utf8ToUni_loop.simps [of _ _ 0 0] GetUtf8Type_def)

section \<open>Wide strings\<close>

lemma UniStrCpy_unlimited [simp]:
  "length s < 0xfffffff \<Longrightarrow> uni_copy_back t s = s"
  by (simp add: uni_copy_back_def UniStrCpy_def Let_def UniStrLen_def unat_order nowrap)

lemma UniTrimRight_rtrim: "length s < 0xfffffff \<Longrightarrow> UniTrimRight s = rtrim s"
  using rtrim_id [of s] length_dropWhile_le [of is_blank "rev s"]
  by (auto simp: UniTrimRight_def trim_right_loop_rtrim is_blank_def rtrim_def)

lemma UniTrimLeft_drop: "length s < 0xfffffff \<Longrightarrow> UniTrimLeft s = dropWhile is_blank s"
  using length_dropWhile_le [of is_blank s]
  by (cases s) (auto simp: UniTrimLeft_def trim_left_loop_drop trim_left_loop_all is_blank_def)

lemma UniTrim_strip: "length s < 0xfffffff \<Longrightarrow> UniTrim s = rtrim (dropWhile is_blank s)"
  using length_dropWhile_le [of is_blank s] by (simp add: UniTrim_def UniTrimRight_rtrim UniTrimLeft_drop)

lemma w_string_append_zero: "is_wstr s \<Longrightarrow> w_string (s @ 0 # r) = s"
  by (induction s) (auto simp: is_wstr_def w_string_def)

lemma is_wstr_w_string [simp]: "is_wstr (w_string cs)"
  by (auto simp: is_wstr_def w_string_def dest: set_takeWhileD)

end
