(* ===== verification/Pack.thy ===== *)
theory Pack
  imports Buf PtrList Utf8
begin

text \<open>
  The PACK format of src/src/Mayaqua/Pack.c, in which all messages of the management and the
  session protocol are exchanged: values, elements (a name, a type and values) and packs, how
  they are built, searched and changed, and how they are written to a buffer and read from
  one. The main results are that reading what was written gives the pack back, that reading
  returns on whatever bytes a peer sent without leaving a buffer, and that every pack in use
  has one element per name.
\<close>

section \<open>Data\<close>

definition MAX_VALUE_SIZE :: u32 where
  "MAX_VALUE_SIZE = 384 * 1024 * 1024"

definition MAX_VALUE_NUM :: u32 where
  "MAX_VALUE_NUM = 262144"

definition MAX_ELEMENT_NAME_LEN :: u32 where
  "MAX_ELEMENT_NAME_LEN = 63"

definition MAX_ELEMENT_NUM :: u32 where
  "MAX_ELEMENT_NUM = 262144"

abbreviation VALUE_INT :: u32 where "VALUE_INT \<equiv> 0"
abbreviation VALUE_DATA :: u32 where "VALUE_DATA \<equiv> 1"
abbreviation VALUE_STR :: u32 where "VALUE_STR \<equiv> 2"
abbreviation VALUE_UNISTR :: u32 where "VALUE_UNISTR \<equiv> 3"
abbreviation VALUE_INT64 :: u32 where "VALUE_INT64 \<equiv> 4"

text \<open>A \<open>VALUE\<close> is allocated without being cleared: a member nobody has set is \<^const>\<open>None\<close>.\<close>

record VALUE =
  V_Size :: u32
  IntValue :: "u32 option"
  Data :: "u8 block option"
  Str :: "cstr option"
  UniStr :: "wstr option"
  Int64Value :: "u64 option"

definition new_value :: VALUE where
  "new_value = \<lparr>V_Size = 0, IntValue = None, Data = None, Str = None, UniStr = None, Int64Value = None\<rparr>"

record ELEMENT =
  E_name :: cstr
  num_value :: u32
  E_type :: u32
  E_values :: "VALUE option list"
  JsonHint_IsArray :: bool
  JsonHint_IsBool :: bool
  JsonHint_IsDateTime :: bool
  JsonHint_IsIP :: bool
  JsonHint_GroupName :: cstr

record PACK =
  elements :: "ELEMENT LST"
  json_subitem_names :: "cstr LST option"
  CurrentJsonHint_GroupName :: cstr

section \<open>Values and elements\<close>

definition NewIntValue :: "u32 \<Rightarrow> VALUE" where
  "NewIntValue i = new_value\<lparr>IntValue := Some i, V_Size := 4\<rparr>"

definition NewInt64Value :: "u64 \<Rightarrow> VALUE" where
  "NewInt64Value i = new_value\<lparr>Int64Value := Some i, V_Size := 8\<rparr>"

definition NewDataValue :: "u8 block option \<Rightarrow> u32 \<Rightarrow> VALUE option option" where
  "NewDataValue data sz =
     (case data of
        None \<Rightarrow> Some None
      | Some d \<Rightarrow> do {
          m \<leftarrow> MallocEx sz;
          c \<leftarrow> mem_read d 0 (unat sz);
          m \<leftarrow> mem_write m 0 c;
          Some (Some (new_value\<lparr>V_Size := sz, Data := Some m\<rparr>))
        })"

definition NewStrValue :: "cstr option \<Rightarrow> VALUE option" where
  "NewStrValue str =
     (case str of
        None \<Rightarrow> None
      | Some s \<Rightarrow>
          let sz = StrLen s + 1
          in Some (new_value\<lparr>V_Size := sz, Str := Some (Trim (fst (StrCpy sz s)))\<rparr>))"

definition NewUniStrValue :: "wstr option \<Rightarrow> VALUE option" where
  "NewUniStrValue str =
     (case str of
        None \<Rightarrow> None
      | Some s \<Rightarrow>
          let sz = UniStrSize s
          in Some (new_value\<lparr>V_Size := sz, UniStr := map_option UniTrim (fst (UniStrCpy sz s))\<rparr>))"

definition NewElement :: "cstr \<Rightarrow> u32 \<Rightarrow> u32 \<Rightarrow> VALUE option list \<Rightarrow> ELEMENT option" where
  "NewElement name ty num values1 =
     (if num = 0 then None
      else Some \<lparr>E_name = fst (StrCpy (MAX_ELEMENT_NAME_LEN + 1) name), num_value = num, E_type = ty,
                 E_values = take (unat num) values1,
                 JsonHint_IsArray = False, JsonHint_IsBool = False, JsonHint_IsDateTime = False,
                 JsonHint_IsIP = False, JsonHint_GroupName = []\<rparr>)"

text \<open>
  The accessors give \<^const>\<open>None\<close> where they read a member that was never set; the inner
  option of the pointer-valued ones is the null pointer.
\<close>

definition element_value :: "ELEMENT option \<Rightarrow> u32 \<Rightarrow> VALUE option" where
  "element_value e index =
     (case e of
        None \<Rightarrow> None
      | Some e \<Rightarrow> if index \<ge> num_value e then None else E_values e ! unat index)"

definition GetIntValue :: "ELEMENT option \<Rightarrow> u32 \<Rightarrow> u32 option" where
  "GetIntValue e index =
     (case element_value e index of None \<Rightarrow> Some 0 | Some v \<Rightarrow> IntValue v)"

definition GetInt64Value :: "ELEMENT option \<Rightarrow> u32 \<Rightarrow> u64 option" where
  "GetInt64Value e index =
     (case element_value e index of None \<Rightarrow> Some 0 | Some v \<Rightarrow> Int64Value v)"

definition GetStrValue :: "ELEMENT option \<Rightarrow> u32 \<Rightarrow> cstr option option" where
  "GetStrValue e index =
     (case element_value e index of None \<Rightarrow> Some None | Some v \<Rightarrow> map_option Some (Str v))"

definition GetUniStrValue :: "ELEMENT option \<Rightarrow> u32 \<Rightarrow> wstr option option" where
  "GetUniStrValue e index =
     (case element_value e index of None \<Rightarrow> Some None | Some v \<Rightarrow> map_option Some (UniStr v))"

definition GetDataValue :: "ELEMENT option \<Rightarrow> u32 \<Rightarrow> u8 block option option" where
  "GetDataValue e index =
     (case element_value e index of None \<Rightarrow> Some None | Some v \<Rightarrow> map_option Some (Data v))"

definition GetDataValueSize :: "ELEMENT option \<Rightarrow> u32 \<Rightarrow> u32" where
  "GetDataValueSize e index =
     (case element_value e index of None \<Rightarrow> 0 | Some v \<Rightarrow> V_Size v)"

section \<open>Packs\<close>

definition ComparePackName :: "ELEMENT \<Rightarrow> ELEMENT \<Rightarrow> int" where
  "ComparePackName o1 o2 = StrCmpi (E_name o1) (E_name o2)"

definition NewPack :: PACK where
  "NewPack = \<lparr>elements = lst_new, json_subitem_names = None, CurrentJsonHint_GroupName = []\<rparr>"

text \<open>The element on the stack that a search is made with; only its name is set.\<close>

definition search_key :: "cstr \<Rightarrow> ELEMENT" where
  "search_key name =
     \<lparr>E_name = fst (StrCpy (MAX_ELEMENT_NAME_LEN + 1) name), num_value = 0, E_type = 0, E_values = [],
      JsonHint_IsArray = False, JsonHint_IsBool = False, JsonHint_IsDateTime = False,
      JsonHint_IsIP = False, JsonHint_GroupName = []\<rparr>"

definition GetElement :: "PACK \<Rightarrow> cstr \<Rightarrow> u32 \<Rightarrow> ELEMENT option \<times> PACK" where
  "GetElement p name ty =
     (let (e, l) = lst_search (Some ComparePackName) (elements p) (search_key name);
          p = p\<lparr>elements := l\<rparr>
      in case e of
           None \<Rightarrow> (None, p)
         | Some e \<Rightarrow> if ty \<noteq> INFINITE \<and> E_type e \<noteq> ty then (None, p) else (Some e, p))"

definition IsElement :: "PACK \<Rightarrow> cstr \<Rightarrow> bool \<times> PACK" where
  "IsElement p name =
     (let (e, l) = lst_search (Some ComparePackName) (elements p) (search_key name);
          p = p\<lparr>elements := l\<rparr>
      in (e \<noteq> None, p))"

definition DelElement :: "PACK \<Rightarrow> cstr \<Rightarrow> PACK" where
  "DelElement p name =
     (let (e, p) = GetElement p name INFINITE
      in case e of None \<Rightarrow> p | Some e \<Rightarrow> p\<lparr>elements := snd (lst_delete (elements p) e)\<rparr>)"

definition AddElement :: "PACK \<Rightarrow> ELEMENT option \<Rightarrow> bool \<times> PACK" where
  "AddElement p e =
     (case e of
        None \<Rightarrow> (False, p)
      | Some e \<Rightarrow>
          if of_nat (length (items (elements p))) \<ge> MAX_ELEMENT_NUM then (False, p)
          else let (x, p) = GetElement p (E_name e) INFINITE
            in if x \<noteq> None then (False, p)
               else if num_value e = 0 then (False, p)
               else let e = e\<lparr>JsonHint_GroupName :=
                          fst (StrCpy (MAX_ELEMENT_NAME_LEN + 1) (CurrentJsonHint_GroupName p))\<rparr>
                 in (True, p\<lparr>elements := lst_add (elements p) e\<rparr>))"

definition GetPackElementNames :: "PACK \<Rightarrow> cstr list" where
  "GetPackElementNames p = map (\<lambda>e. CopyStr (E_name e)) (items (elements p))"

section \<open>Writing\<close>

text \<open>A null pointer is written as nothing, and so is a value of a type that is not known.\<close>

definition WriteValue :: "BUF \<Rightarrow> VALUE option \<Rightarrow> u32 \<Rightarrow> BUF option" where
  "WriteValue b v ty =
     (case v of
        None \<Rightarrow> Some b
      | Some v \<Rightarrow>
          if ty = VALUE_INT then do { i \<leftarrow> IntValue v; WriteBufInt b i }
          else if ty = VALUE_INT64 then do { i \<leftarrow> Int64Value v; WriteBufInt64 b i }
          else if ty = VALUE_DATA then do {
            b \<leftarrow> WriteBufInt b (V_Size v);
            d \<leftarrow> Data v;
            WriteBuf b d (V_Size v)
          }
          else if ty = VALUE_STR then do {
            s \<leftarrow> Str v;
            let len = StrLen s;
            b \<leftarrow> WriteBufInt b len;
            WriteBuf b (map Some (s @ [0])) len
          }
          else if ty = VALUE_UNISTR then do {
            s \<leftarrow> UniStr v;
            let u_size = CalcUniToUtf8 host_le s + 1;
            let u = UniToUtf8 host_le u_size s;
            b \<leftarrow> WriteBufInt b u_size;
            WriteBuf b (map Some u @ replicate (unat u_size - length u) (Some 0)) u_size
          }
          else Some b)"

fun write_values :: "BUF \<Rightarrow> VALUE option list \<Rightarrow> u32 \<Rightarrow> BUF option" where
  "write_values b [] ty = Some b"
| "write_values b (v # vs) ty = do { b \<leftarrow> WriteValue b v ty; write_values b vs ty }"

definition WriteElement :: "BUF \<Rightarrow> ELEMENT option \<Rightarrow> BUF option" where
  "WriteElement b e =
     (case e of
        None \<Rightarrow> Some b
      | Some e \<Rightarrow> do {
          b \<leftarrow> WriteBufStr b (E_name e);
          b \<leftarrow> WriteBufInt b (E_type e);
          b \<leftarrow> WriteBufInt b (num_value e);
          write_values b (take (unat (num_value e)) (E_values e)) (E_type e)
        })"

fun write_elements :: "BUF \<Rightarrow> ELEMENT list \<Rightarrow> BUF option" where
  "write_elements b [] = Some b"
| "write_elements b (e # es) = do { b \<leftarrow> WriteElement b (Some e); write_elements b es }"

definition WritePack :: "BUF \<Rightarrow> PACK \<Rightarrow> BUF option" where
  "WritePack b p =
     do {
       b \<leftarrow> WriteBufInt b (of_nat (length (items (elements p))));
       write_elements b (items (elements p))
     }"

definition PackToBuf :: "PACK \<Rightarrow> BUF option" where
  "PackToBuf p = do { b \<leftarrow> NewBuf; WritePack b p }"

section \<open>Reading\<close>

text \<open>The first component of the results is the value or element, or a null pointer.\<close>

definition ReadValue :: "BUF \<Rightarrow> u32 \<Rightarrow> (VALUE option \<times> BUF) option" where
  "ReadValue b ty =
     (if ty = VALUE_INT then do { (i, b) \<leftarrow> ReadBufInt b; Some (Some (NewIntValue i), b) }
      else if ty = VALUE_INT64 then do { (i, b) \<leftarrow> ReadBufInt64 b; Some (Some (NewInt64Value i), b) }
      else if ty = VALUE_DATA then do {
        (sz, b) \<leftarrow> ReadBufInt b;
        if sz > MAX_VALUE_SIZE then Some (None, b)
        else do {
          data \<leftarrow> MallocEx sz;
          (n, d, b) \<leftarrow> ReadBuf b True sz;
          if n \<noteq> sz then Some (None, b)
          else do {
            data \<leftarrow> mem_write data 0 d;
            v \<leftarrow> NewDataValue (Some data) sz;
            Some (v, b)
          }
        }
      }
      else if ty = VALUE_STR then do {
        (len, b) \<leftarrow> ReadBufInt b;
        if len > MAX_VALUE_SIZE - 1 then Some (None, b)
        else do {
          str \<leftarrow> MallocEx (len + 1);
          (n, d, b) \<leftarrow> ReadBuf b True len;
          if n \<noteq> len then Some (None, b)
          else do {
            str \<leftarrow> mem_write str 0 d;
            str \<leftarrow> mem_write str (unat len) [Some 0];
            bs \<leftarrow> cells_value str;
            Some (NewStrValue (Some (c_string bs)), b)
          }
        }
      }
      else if ty = VALUE_UNISTR then do {
        (u_size, b) \<leftarrow> ReadBufInt b;
        if u_size > MAX_VALUE_SIZE then Some (None, b)
        else do {
          u \<leftarrow> (MallocEx (u_size + 1) :: u8 block option);
          let u = map (\<lambda>c. Some 0) u;
          (n, d, b) \<leftarrow> ReadBuf b True u_size;
          if n \<noteq> u_size then Some (None, b)
          else do {
            u \<leftarrow> mem_write u 0 d;
            us \<leftarrow> cells_value u;
            unistr_size \<leftarrow> CalcUtf8ToUni us u_size;
            if unistr_size = 0 then Some (None, b)
            else do {
              (cs, terminated) \<leftarrow> Utf8ToUni unistr_size us u_size;
              if terminated then Some (NewUniStrValue (Some (w_string cs)), b) else None
            }
          }
        }
      }
      else Some (None, b))"

definition ReadElement :: "BUF \<Rightarrow> (ELEMENT option \<times> BUF) option" where
  "ReadElement b =
     do {
       (name, b) \<leftarrow> ReadBufStr b (MAX_ELEMENT_NAME_LEN + 1);
       case name of
         None \<Rightarrow> Some (None, b)
       | Some name \<Rightarrow> do {
           (ty, b) \<leftarrow> ReadBufInt b;
           (num, b) \<leftarrow> ReadBufInt b;
           if num > MAX_VALUE_NUM then Some (None, b)
           else do {
             (vs, b) \<leftarrow> read_list (\<lambda>b. ReadValue b ty) (unat num) b;
             Some (NewElement (c_string name) ty num vs, b)
           }
         }
     }"

fun read_elements :: "nat \<Rightarrow> BUF \<Rightarrow> PACK \<Rightarrow> (bool \<times> BUF \<times> PACK) option" where
  "read_elements 0 b p = Some (True, b, p)"
| "read_elements (Suc n) b p =
     do {
       (e, b) \<leftarrow> ReadElement b;
       let (ok, p) = AddElement p e;
       if ok then read_elements n b p else Some (False, b, p)
     }"

definition ReadPack :: "BUF \<Rightarrow> PACK \<Rightarrow> (bool \<times> BUF \<times> PACK) option" where
  "ReadPack b p =
     do {
       (num, b) \<leftarrow> ReadBufInt b;
       if num > MAX_ELEMENT_NUM then Some (False, b, p)
       else read_elements (unat num) b p
     }"

definition BufToPack :: "BUF \<Rightarrow> (PACK option \<times> BUF) option" where
  "BufToPack b =
     do {
       (ok, b, p) \<leftarrow> ReadPack b NewPack;
       Some (if ok then Some p else None, b)
     }"

section \<open>The bytes of a value\<close>

text \<open>
  \<open>value_ok\<close> is what the constructors of values guarantee within the size limits of
  the format; \<open>enc_value\<close> the bytes of a value and \<open>reread_value\<close> what reading
  them gives: the same contents, with the size recomputed for the strings.
\<close>

abbreviation MAXV :: nat where
  "MAXV \<equiv> 402653184"

lemma MAX_VALUE_SIZE_unat [simp]: "unat MAX_VALUE_SIZE = MAXV"
  by (simp add: MAX_VALUE_SIZE_def)

definition value_ok :: "u32 \<Rightarrow> VALUE option \<Rightarrow> bool" where
  "value_ok ty v =
     (case v of
        None \<Rightarrow> False
      | Some v \<Rightarrow>
          if ty = VALUE_INT then IntValue v \<noteq> None
          else if ty = VALUE_INT64 then Int64Value v \<noteq> None
          else if ty = VALUE_DATA then
            (case Data v of
               None \<Rightarrow> False
             | Some d \<Rightarrow> None \<notin> set d \<and> length d = unat (V_Size v) \<and> length d \<le> MAXV)
          else if ty = VALUE_STR then
            (case Str v of
               None \<Rightarrow> False
             | Some s \<Rightarrow> is_cstr s \<and> trimmed s \<and> length s < MAXV)
          else if ty = VALUE_UNISTR then
            (case UniStr v of
               None \<Rightarrow> False
             | Some s \<Rightarrow> is_wstr s \<and> list_all bmp s \<and> trimmed s \<and> length (utf8_of s) < MAXV)
          else False)"

definition enc_value :: "u32 \<Rightarrow> VALUE option \<Rightarrow> u8 list" where
  "enc_value ty v =
     (case v of
        None \<Rightarrow> []
      | Some v \<Rightarrow>
          if ty = VALUE_INT then be32 (the (IntValue v))
          else if ty = VALUE_INT64 then be64 (the (Int64Value v))
          else if ty = VALUE_DATA then be32 (V_Size v) @ map the (the (Data v))
          else if ty = VALUE_STR then (let s = the (Str v) in be32 (of_nat (length s)) @ s)
          else (let u = utf8_of (the (UniStr v)) @ [0] in be32 (of_nat (length u)) @ u))"

definition reread_value :: "u32 \<Rightarrow> VALUE option \<Rightarrow> VALUE option" where
  "reread_value ty v =
     (case v of
        None \<Rightarrow> None
      | Some v \<Rightarrow>
          if ty = VALUE_INT then Some (NewIntValue (the (IntValue v)))
          else if ty = VALUE_INT64 then Some (NewInt64Value (the (Int64Value v)))
          else if ty = VALUE_DATA then Some (new_value\<lparr>V_Size := V_Size v, Data := Data v\<rparr>)
          else if ty = VALUE_STR then NewStrValue (Str v)
          else NewUniStrValue (UniStr v))"

lemma value_okE:
  assumes "value_ok ty v"
  obtains (Int) w i where "v = Some w" "ty = VALUE_INT" "IntValue w = Some i"
  | (Int64) w i where "v = Some w" "ty = VALUE_INT64" "Int64Value w = Some i"
  | (Data) w d where "v = Some w" "ty = VALUE_DATA" "Data w = Some (map Some d)"
      "unat (V_Size w) = length d" "length d \<le> MAXV"
  | (Str) w s where "v = Some w" "ty = VALUE_STR" "Str w = Some s" "is_cstr s" "trimmed s"
      "length s < MAXV"
  | (UniStr) w s where "v = Some w" "ty = VALUE_UNISTR" "UniStr w = Some s" "is_wstr s"
      "list_all bmp s" "trimmed s" "length (utf8_of s) < MAXV"
proof -
  obtain w where w: "v = Some w" using assms by (cases v) (auto simp: value_ok_def)
  consider "ty = VALUE_DATA" | "ty \<noteq> VALUE_DATA" by blast
  then show thesis
  proof cases
    case 1
    then obtain c where c: "Data w = Some c" "None \<notin> set c" "length c = unat (V_Size w)" "length c \<le> MAXV"
      using assms w by (auto simp: value_ok_def split: option.splits)
    then show thesis
      using Data [OF w 1, of "map the c"] map_Some_the [OF c(2)] by simp
  next
    case 2
    then show thesis
      using assms w Int Int64 Str UniStr by (auto simp: value_ok_def split: option.splits if_splits)
  qed
qed

lemma NewDataValue_ok:
  "unat sz \<le> MAXV \<Longrightarrow> length d = unat sz \<Longrightarrow>
   NewDataValue (Some d) sz = Some (Some (new_value\<lparr>V_Size := sz, Data := Some d\<rparr>))"
  by (simp add: NewDataValue_def MallocEx_ok unat_order mem_read_ok mem_write_ok)

lemma WriteValue_enc:
  assumes ok: "value_ok ty v" and w: "writing b bs"
    and room: "length bs + length (enc_value ty v) \<le> BUF_MAX"
  shows "\<exists>b'. WriteValue b v ty = Some b' \<and> writing b' (bs @ enc_value ty v)"
  using ok
proof (cases rule: value_okE)
  case (Int w i)
  with WriteBufInt_append [OF w, of i] room show ?thesis
    by (simp add: WriteValue_def enc_value_def)
next
  case (Int64 w i)
  with WriteBufInt64_append [OF assms(2), of i] room show ?thesis
    by (simp add: WriteValue_def enc_value_def)
next
  case (Data w d)
  then have "length bs + 4 + length d \<le> BUF_MAX" using room by (simp add: enc_value_def)
  then obtain b1 where b1: "WriteBufInt b (V_Size w) = Some b1" "writing b1 (bs @ be32 (V_Size w))"
    using WriteBufInt_append [OF assms(2), of "V_Size w"] by auto
  with WriteBuf_append_exact [OF b1(2), of d "V_Size w"] Data room show ?thesis
    by (simp add: WriteValue_def enc_value_def)
next
  case (Str w s)
  then have "length bs + 4 + length s \<le> BUF_MAX" using room by (simp add: enc_value_def Let_def)
  then obtain b1 where b1: "WriteBufInt b (StrLen s) = Some b1" "writing b1 (bs @ be32 (StrLen s))"
    using WriteBufInt_append [OF assms(2), of "StrLen s"] by auto
  with WriteBuf_append [OF b1(2), of s "[Some 0]"] Str room show ?thesis
    by (simp add: WriteValue_def enc_value_def Let_def StrLen_def)
next
  case (UniStr w s)
  let ?u = "utf8_of s" let ?n = "CalcUniToUtf8 host_le s + 1"
  have n: "unat ?n = length ?u + 1"
    using UniStr by (simp add: CalcUniToUtf8_length nowrap)
  then have u: "UniToUtf8 host_le ?n s = ?u"
    by (intro UniToUtf8_exact) auto
  have n': "?n = of_nat (length (?u @ [0]))" by (simp add: CalcUniToUtf8_length)
  have "length bs + 4 + length (?u @ [0]) \<le> BUF_MAX"
    using room UniStr by (simp add: enc_value_def Let_def)
  then obtain b1 where b1: "WriteBufInt b ?n = Some b1" "writing b1 (bs @ be32 ?n)"
    using WriteBufInt_append [OF assms(2), of ?n] by auto
  have "\<exists>b'. WriteBuf b1 (map Some (?u @ [0])) ?n = Some b' \<and> writing b' ((bs @ be32 ?n) @ ?u @ [0])"
    by (rule WriteBuf_append_exact [OF b1(2)]) (use n room UniStr in \<open>simp_all add: enc_value_def Let_def\<close>)
  moreover have "enc_value ty v = be32 (of_nat (length (?u @ [0]))) @ ?u @ [0]"
    using UniStr by (simp add: enc_value_def Let_def)
  ultimately show ?thesis
    using UniStr b1(1) u n unfolding n' [symmetric] by (auto simp: WriteValue_def Let_def)
qed

lemma str_buffer:
  fixes len :: u32
  assumes "length d = unat len" and "unat len < MAXV"
  shows "\<exists>m. mem_write (replicate (unat (len + 1)) None) 0 (map Some d) = Some m
      \<and> mem_write m (unat len) [Some 0] = Some (map Some (d @ [0 :: u8]))"
proof -
  have "unat (len + 1) = Suc (unat len)" using assms(2) by (simp add: nowrap)
  then show ?thesis using assms(1) by (simp add: mem_write_ok)
qed

lemma uni_buffer:
  fixes n :: u32
  assumes "length d = unat n" and "unat n \<le> MAXV"
  shows "mem_write (replicate (unat (n + 1)) (Some 0)) 0 (map Some d) = Some (map Some (d @ [0 :: u8]))"
proof -
  have "unat (n + 1) = Suc (unat n)" using assms(2) by (simp add: nowrap)
  then show ?thesis using assms(1) by (simp add: mem_write_ok drop_replicate del: replicate_Suc) simp
qed

lemma ReadValue_enc:
  assumes ok: "value_ok ty v" and rd: "reading b (enc_value ty v @ r)"
  shows "\<exists>b'. ReadValue b ty = Some (reread_value ty v, b') \<and> reading b' r"
  using ok
proof (cases rule: value_okE)
  case (Int w i)
  with ReadBufInt_reading [of b i r] rd show ?thesis
    by (auto simp: ReadValue_def enc_value_def reread_value_def)
next
  case (Int64 w i)
  with ReadBufInt64_reading [of b i r] rd show ?thesis
    by (auto simp: ReadValue_def enc_value_def reread_value_def)
next
  case (Data w d)
  let ?n = "V_Size w"
  from Data rd have "reading b (be32 ?n @ d @ r)" by (simp add: enc_value_def)
  then obtain b1 where b1: "ReadBufInt b = Some (?n, b1)" "reading b1 (d @ r)"
    using ReadBufInt_reading by blast
  obtain b2 where b2: "ReadBuf b1 True ?n = Some (?n, map Some d, b2)" "reading b2 r"
    using ReadBuf_exact [OF b1(2), of ?n] Data by auto
  have "\<not> ?n > MAX_VALUE_SIZE" and "(MallocEx ?n :: u8 block option) = Some (replicate (length d) None)"
    using Data by (simp_all add: unat_order MallocEx_ok)
  then show ?thesis
    using Data b1(1) b2 NewDataValue_ok [of ?n "map Some d"]
    by (simp add: ReadValue_def reread_value_def mem_write_ok)
next
  case (Str w s)
  let ?n = "of_nat (length s) :: u32"
  have n: "unat ?n = length s" using Str by (simp add: nowrap)
  from Str rd have "reading b (be32 ?n @ s @ r)" by (simp add: enc_value_def Let_def)
  then obtain b1 where b1: "ReadBufInt b = Some (?n, b1)" "reading b1 (s @ r)"
    using ReadBufInt_reading by blast
  obtain b2 where b2: "ReadBuf b1 True ?n = Some (?n, map Some s, b2)" "reading b2 r"
    using ReadBuf_exact [OF b1(2), of ?n] Str n by auto
  obtain m where m: "mem_write (replicate (unat (?n + 1)) None) 0 (map Some s) = Some m"
    "mem_write m (unat ?n) [Some 0] = Some (map Some (s @ [0]))"
    using str_buffer [of s ?n] Str n by auto
  have "unat (MAX_VALUE_SIZE - 1) = MAXV - 1" by (simp add: nowrap)
  then have "\<not> ?n > MAX_VALUE_SIZE - 1"
    unfolding unat_order n using Str by simp
  moreover have "unat (?n + 1) = length s + 1" using Str n by (simp add: nowrap)
  then have "?n + 1 \<le> MAX_MALLOC_MEM_SIZE" using Str by (simp add: unat_order)
  moreover have "cells_value (map Some (s @ [0])) = Some (s @ [0])"
    by (rule cells_value_map_Some)
  ultimately show ?thesis
    using Str b1(1) b2 m c_string_append_zero [of s "[]"]
    by (simp add: ReadValue_def reread_value_def MallocEx_ok)
next
  case (UniStr w s)
  let ?u = "utf8_of s @ [0]"
  let ?n = "of_nat (length ?u) :: u32"
  have n: "unat ?n = length ?u" "length ?u \<le> MAXV" using UniStr by (simp_all add: nowrap del: of_nat_add of_nat_Suc)
  from UniStr rd have "reading b (be32 ?n @ ?u @ r)" by (simp add: enc_value_def Let_def)
  then obtain b1 where b1: "ReadBufInt b = Some (?n, b1)" "reading b1 (?u @ r)"
    using ReadBufInt_reading by blast
  obtain b2 where b2: "ReadBuf b1 True ?n = Some (?n, map Some ?u, b2)" "reading b2 r"
    using ReadBuf_exact [OF b1(2), of ?n] n by auto
  have nz: "?n \<noteq> 0" using n(1) by auto
  have d: "s @ [0] = decode (take (unat ?n) (?u @ [0]))"
    unfolding n(1) using decode_utf8_of [OF UniStr(5), of "[0]"] decode_zero by simp
  have p: "unat ?n \<le> length (?u @ [0])" "unat ?n \<le> 0x3ffffff0" using n by simp_all
  define z where "z = (of_nat (length (s @ [0])) + 1) * (4 :: u32)"
  note dec = Utf8_decode [OF p(1) nz p(2) d, folded z_def]
  have "\<not> ?n > MAX_VALUE_SIZE" unfolding unat_order n(1) using n(2) by simp
  moreover have "unat (?n + 1) = length ?u + 1" using n by (simp add: nowrap)
  then have "?n + 1 \<le> MAX_MALLOC_MEM_SIZE" unfolding unat_order using n(2) by simp
  moreover have "mem_write (replicate (unat (?n + 1)) (Some 0)) 0 (map Some ?u) = Some (map Some (?u @ [0]))"
    using uni_buffer [of ?u ?n] n by simp
  moreover have "cells_value (map Some (?u @ [0])) = Some (?u @ [0])"
    by (rule cells_value_map_Some)
  moreover have "w_string (s @ [0]) = s" using UniStr w_string_append_zero [of s "[]"] by simp
  ultimately show ?thesis
    using UniStr b1(1) b2 dec n
    by (simp add: ReadValue_def reread_value_def MallocEx_ok del: of_nat_add of_nat_Suc map_append length_append)
qed

section \<open>Elements and packs as formats\<close>

interpretation value_format: wire_format "\<lambda>b v. WriteValue b v ty" "\<lambda>b. ReadValue b ty" "enc_value ty"
  "value_ok ty" "reread_value ty" for ty
  by unfold_locales (use WriteValue_enc ReadValue_enc in auto)

lemma write_values_list: "write_values b vs ty = write_list (\<lambda>b v. WriteValue b v ty) b vs"
  by (induction vs arbitrary: b) auto

lemma write_elements_list: "write_elements b es = write_list (\<lambda>b e. WriteElement b (Some e)) b es"
  by (induction es arbitrary: b) auto

text \<open>
  An element that can be exchanged: a proper name and between one and \<open>MAX_VALUE_NUM\<close>
  values of its type. The hints for the JSON form are not sent.
\<close>

definition element_ok :: "ELEMENT \<Rightarrow> bool" where
  "element_ok e \<longleftrightarrow>
     is_cstr (E_name e) \<and> length (E_name e) \<le> 63 \<and> unat (num_value e) = length (E_values e) \<and>
     0 < length (E_values e) \<and> length (E_values e) \<le> 262144 \<and> list_all (value_ok (E_type e)) (E_values e)"

definition enc_element :: "ELEMENT \<Rightarrow> u8 list" where
  "enc_element e =
     be32 (of_nat (length (E_name e)) + 1) @ E_name e @ be32 (E_type e) @ be32 (num_value e) @
     concat (map (enc_value (E_type e)) (E_values e))"

definition reread_element :: "ELEMENT \<Rightarrow> ELEMENT" where
  "reread_element e =
     \<lparr>E_name = E_name e, num_value = num_value e, E_type = E_type e,
      E_values = map (reread_value (E_type e)) (E_values e),
      JsonHint_IsArray = False, JsonHint_IsBool = False, JsonHint_IsDateTime = False,
      JsonHint_IsIP = False, JsonHint_GroupName = []\<rparr>"

lemma MAX_VALUE_NUM_unat [simp]: "unat MAX_VALUE_NUM = 262144"
  by (simp add: MAX_VALUE_NUM_def)

lemma MAX_ELEMENT_NUM_unat [simp]: "unat MAX_ELEMENT_NUM = 262144"
  by (simp add: MAX_ELEMENT_NUM_def)

lemma name_size [simp]: "MAX_ELEMENT_NAME_LEN + 1 = 64"
  by (simp add: MAX_ELEMENT_NAME_LEN_def)

lemma StrCpy_name: "length s \<le> 63 \<Longrightarrow> fst (StrCpy 64 s) = s"
  using StrCpy_result [of 64 s] by simp

lemma length_StrCpy_name: "length s < two32 \<Longrightarrow> length (fst (StrCpy 64 s)) \<le> 63"
  using StrCpy_result [of 64 s] by simp

lemma NewElement_ok:
  assumes "length name \<le> 63" and "unat n = length vs" and "vs \<noteq> []"
  shows "NewElement name ty n vs = Some \<lparr>E_name = name, num_value = n, E_type = ty, E_values = vs,
      JsonHint_IsArray = False, JsonHint_IsBool = False, JsonHint_IsDateTime = False,
      JsonHint_IsIP = False, JsonHint_GroupName = []\<rparr>"
proof -
  have "n \<noteq> 0" using assms(2,3) by auto
  with assms show ?thesis by (simp add: NewElement_def StrCpy_name)
qed

lemma WriteElement_enc:
  assumes ok: "element_ok e" and w: "writing b bs"
    and room: "length bs + length (enc_element e) \<le> BUF_MAX"
  shows "\<exists>b'. WriteElement b (Some e) = Some b' \<and> writing b' (bs @ enc_element e)"
proof -
  let ?name = "be32 (of_nat (length (E_name e)) + 1) @ E_name e"
  let ?vs = "concat (map (enc_value (E_type e)) (E_values e))"
  have len: "length bs + 12 + length (E_name e) + length ?vs \<le> BUF_MAX"
    using room by (simp add: enc_element_def)
  obtain b1 where b1: "WriteBufStr b (E_name e) = Some b1" "writing b1 (bs @ ?name)"
    using WriteBufStr_append [OF w, of "E_name e"] len by auto
  obtain b2 where b2: "WriteBufInt b1 (E_type e) = Some b2" "writing b2 ((bs @ ?name) @ be32 (E_type e))"
    using WriteBufInt_append [OF b1(2), of "E_type e"] len by auto
  obtain b3 where b3: "WriteBufInt b2 (num_value e) = Some b3"
    "writing b3 (((bs @ ?name) @ be32 (E_type e)) @ be32 (num_value e))"
    using WriteBufInt_append [OF b2(2), of "num_value e"] len by auto
  obtain b4 where "write_list (\<lambda>b v. WriteValue b v (E_type e)) b3 (E_values e) = Some b4"
    "writing b4 ((((bs @ ?name) @ be32 (E_type e)) @ be32 (num_value e)) @ ?vs)"
    using value_format.write_list_enc [OF _ b3(2), of "E_type e" "E_values e"] ok len
    by (auto simp: element_ok_def)
  then show ?thesis
    using b1(1) b2(1) b3(1) ok
    by (simp add: WriteElement_def write_values_list element_ok_def enc_element_def)
qed

lemma ReadElement_enc:
  assumes ok: "element_ok e" and rd: "reading b (enc_element e @ r)"
  shows "\<exists>b'. ReadElement b = Some (Some (reread_element e), b') \<and> reading b' r"
proof -
  let ?vs = "concat (map (enc_value (E_type e)) (E_values e))"
  note e = ok [unfolded element_ok_def]
  obtain b1 where b1: "ReadBufStr b 64 = Some (Some (E_name e), b1)"
    "reading b1 (be32 (E_type e) @ be32 (num_value e) @ ?vs @ r)"
    using ReadBufStr_reading [of b "E_name e" _ 64] rd e by (fastforce simp: enc_element_def)
  obtain b2 where b2: "ReadBufInt b1 = Some (E_type e, b2)" "reading b2 (be32 (num_value e) @ ?vs @ r)"
    using ReadBufInt_reading [OF b1(2)] by blast
  obtain b3 where b3: "ReadBufInt b2 = Some (num_value e, b3)" "reading b3 (?vs @ r)"
    using ReadBufInt_reading [OF b2(2)] by blast
  obtain b4 where b4: "read_list (\<lambda>b. ReadValue b (E_type e)) (length (E_values e)) b3
      = Some (map (reread_value (E_type e)) (E_values e), b4)" "reading b4 r"
    using value_format.read_list_enc [OF _ b3(2)] e by blast
  have "\<not> num_value e > MAX_VALUE_NUM" using e by (simp add: unat_order)
  moreover have "NewElement (E_name e) (E_type e) (num_value e) (map (reread_value (E_type e)) (E_values e))
      = Some (reread_element e)"
    using e by (subst NewElement_ok) (auto simp: reread_element_def)
  ultimately show ?thesis
    using b1(1) b2(1) b3(1) b4 e by (simp add: ReadElement_def)
qed

interpretation element_format: wire_format WriteElement ReadElement
  "\<lambda>e. case e of None \<Rightarrow> [] | Some e \<Rightarrow> enc_element e"
  "\<lambda>e. case e of None \<Rightarrow> False | Some e \<Rightarrow> element_ok e" "map_option reread_element"
  by unfold_locales (use WriteElement_enc ReadElement_enc in \<open>auto split: option.splits\<close>)

lemma write_elements_enc:
  assumes ok: "list_all element_ok es" and w: "writing b bs"
    and room: "length bs + length (concat (map enc_element es)) \<le> BUF_MAX"
  shows "\<exists>b'. write_elements b es = Some b' \<and> writing b' (bs @ concat (map enc_element es))"
proof -
  have l: "write_list WriteElement b (map Some es) = write_elements b es" for b
    by (induction es arbitrary: b) auto
  have m: "map ((\<lambda>e. case e of None \<Rightarrow> [] | Some e \<Rightarrow> enc_element e) \<circ> Some) es = map enc_element es"
    by (simp add: comp_def)
  show ?thesis
    using element_format.write_list_enc [of "map Some es" b bs] assms
    by (simp add: l m list.pred_map comp_def)
qed

section \<open>A pack as a map from names\<close>

interpretation pack_compare: comparator ComparePackName
  unfolding ComparePackName_def [abs_def]
  by (rule comparator_on_key) (rule str_compare.comparator_axioms)

text \<open>
  The invariant of every pack: names are proper and differ in more than case, and the
  \<open>sorted\<close> flag of the list tells the truth. The abstract view maps the upper-cased
  name to the element.
\<close>

definition name_ok :: "cstr \<Rightarrow> bool" where
  "name_ok s \<longleftrightarrow> is_cstr s \<and> length s \<le> 63"

definition pack_wf :: "PACK \<Rightarrow> bool" where
  "pack_wf p \<longleftrightarrow>
     lst_ok ComparePackName (elements p) \<and>
     distinct (map (\<lambda>e. StrUpper (E_name e)) (items (elements p))) \<and>
     list_all (\<lambda>e. name_ok (E_name e) \<and> num_value e \<noteq> 0) (items (elements p)) \<and>
     length (items (elements p)) \<le> 262144 \<and> is_cstr (CurrentJsonHint_GroupName p)"

definition elem_map :: "ELEMENT list \<Rightarrow> cstr \<rightharpoonup> ELEMENT" where
  "elem_map es = map_of (map (\<lambda>e. (StrUpper (E_name e), e)) es)"

definition pack_map :: "PACK \<Rightarrow> cstr \<rightharpoonup> ELEMENT" where
  "pack_map p = elem_map (items (elements p))"

lemma elem_map_perm:
  assumes "mset es = mset fs" and "distinct (map (\<lambda>e. StrUpper (E_name e)) es)"
  shows "elem_map es = elem_map fs"
proof -
  let ?k = "\<lambda>e. (StrUpper (E_name e), e)"
  have "distinct (map (\<lambda>e. StrUpper (E_name e)) fs)"
    using assms by (metis mset_eq_imp_distinct_iff mset_map)
  moreover have "set (map ?k es) = set (map ?k fs)"
    using mset_eq_setD [OF assms(1)] by simp
  ultimately show ?thesis
    unfolding elem_map_def using assms(2) by (subst map_of_inject_set) (auto simp: comp_def)
qed

lemma elem_map_SomeD: "elem_map es k = Some e \<Longrightarrow> e \<in> set es \<and> StrUpper (E_name e) = k"
  by (auto simp: elem_map_def dest!: map_of_SomeD)

lemma elem_map_SomeI:
  "distinct (map (\<lambda>e. StrUpper (E_name e)) es) \<Longrightarrow> e \<in> set es \<Longrightarrow> elem_map es (StrUpper (E_name e)) = Some e"
  unfolding elem_map_def by (rule map_of_is_SomeI) (auto simp: comp_def)

lemma elem_map_None: "elem_map es k = None \<longleftrightarrow> (\<forall>e \<in> set es. StrUpper (E_name e) \<noteq> k)"
  by (auto simp: elem_map_def map_of_eq_None_iff image_iff)

lemma pack_wf_perm:
  "pack_wf p \<Longrightarrow> lst_ok ComparePackName l \<Longrightarrow> mset (items l) = mset (items (elements p)) \<Longrightarrow>
   pack_wf (p\<lparr>elements := l\<rparr>) \<and> pack_map (p\<lparr>elements := l\<rparr>) = pack_map p"
proof (intro conjI)
  assume wf: "pack_wf p" and ok: "lst_ok ComparePackName l" and m: "mset (items l) = mset (items (elements p))"
  let ?k = "\<lambda>e. StrUpper (E_name e)"
  have d: "distinct (map ?k (items l))"
    using wf m unfolding pack_wf_def by (metis mset_eq_imp_distinct_iff mset_map)
  have "set (items l) = set (items (elements p))" "length (items l) = length (items (elements p))"
    using m mset_eq_setD mset_eq_length by auto
  with wf ok d show "pack_wf (p\<lparr>elements := l\<rparr>)" by (simp add: pack_wf_def list_all_iff)
  show "pack_map (p\<lparr>elements := l\<rparr>) = pack_map p"
    using elem_map_perm [OF m d] by (simp add: pack_map_def)
qed

lemma search_key_name: "length name \<le> 63 \<Longrightarrow> E_name (search_key name) = name"
  by (simp add: search_key_def StrCpy_name)

lemma pack_search:
  assumes wf: "pack_wf p" and name: "name_ok name"
    and r: "lst_search (Some ComparePackName) (elements p) (search_key name) = (e, l)"
  shows "e = pack_map p (StrUpper name)" and "pack_wf (p\<lparr>elements := l\<rparr>)"
    and "pack_map (p\<lparr>elements := l\<rparr>) = pack_map p" and "mset (items l) = mset (items (elements p))"
proof -
  have ok: "lst_ok ComparePackName (elements p)" using wf by (simp add: pack_wf_def)
  note sp = pack_compare.lst_search_spec [OF ok r]
  have cmp: "(ComparePackName (search_key name) x = 0) = (StrUpper (E_name x) = StrUpper name)"
    if "x \<in> set (items (elements p))" for x
    using that wf name
    by (auto simp: ComparePackName_def search_key_name name_ok_def StrCmpi_eq_iff pack_wf_def list_all_iff)
  show "mset (items l) = mset (items (elements p))" using sp by blast
  then show "pack_wf (p\<lparr>elements := l\<rparr>)" "pack_map (p\<lparr>elements := l\<rparr>) = pack_map p"
    using pack_wf_perm [OF wf] sp by auto
  show "e = pack_map p (StrUpper name)"
  proof (cases e)
    case None
    then have "pack_map p (StrUpper name) = None"
      using sp cmp by (auto simp: pack_map_def elem_map_None)
    with None show ?thesis by simp
  next
    case (Some x)
    then have x: "x \<in> set (items (elements p))" "StrUpper (E_name x) = StrUpper name"
      using sp cmp by auto
    moreover have "distinct (map (\<lambda>e. StrUpper (E_name e)) (items (elements p)))"
      using wf by (simp add: pack_wf_def)
    ultimately show ?thesis
      using Some elem_map_SomeI by (metis pack_map_def)
  qed
qed

text \<open>The operations refine those of a finite map.\<close>

lemma GetElement_spec:
  assumes wf: "pack_wf p" and name: "name_ok name" and r: "GetElement p name ty = (e, p')"
  shows "e = (case pack_map p (StrUpper name) of
                None \<Rightarrow> None
              | Some x \<Rightarrow> if ty \<noteq> INFINITE \<and> E_type x \<noteq> ty then None else Some x)"
    and "pack_wf p'" and "pack_map p' = pack_map p"
    and "mset (items (elements p')) = mset (items (elements p))"
    and "CurrentJsonHint_GroupName p' = CurrentJsonHint_GroupName p"
proof -
  obtain x l where s: "lst_search (Some ComparePackName) (elements p) (search_key name) = (x, l)"
    by fastforce
  note ps = pack_search [OF wf name s]
  have p': "p' = p\<lparr>elements := l\<rparr>"
    and e: "e = (case x of None \<Rightarrow> None
        | Some x \<Rightarrow> if ty \<noteq> INFINITE \<and> E_type x \<noteq> ty then None else Some x)"
    using r s by (auto simp: GetElement_def Let_def split: option.splits if_splits)
  show "e = (case pack_map p (StrUpper name) of
                None \<Rightarrow> None
              | Some x \<Rightarrow> if ty \<noteq> INFINITE \<and> E_type x \<noteq> ty then None else Some x)"
    using e ps(1) by simp
  show "pack_wf p'" "pack_map p' = pack_map p" "mset (items (elements p')) = mset (items (elements p))"
    "CurrentJsonHint_GroupName p' = CurrentJsonHint_GroupName p"
    using ps p' by auto
qed

lemma IsElement_spec:
  assumes wf: "pack_wf p" and name: "name_ok name" and r: "IsElement p name = (e, p')"
  shows "e = (StrUpper name \<in> dom (pack_map p)) \<and> pack_wf p' \<and> pack_map p' = pack_map p"
proof -
  obtain x l where s: "lst_search (Some ComparePackName) (elements p) (search_key name) = (x, l)"
    by fastforce
  with pack_search [OF wf name s] r show ?thesis by (auto simp: IsElement_def)
qed

lemma set_remove1_distinct:
  "distinct (map f xs) \<Longrightarrow> set (remove1 x xs) = set xs - {x}"
  by (simp add: distinct_map)

lemma DelElement_spec:
  assumes wf: "pack_wf p" and name: "name_ok name"
  shows "pack_wf (DelElement p name) \<and> pack_map (DelElement p name) = (pack_map p)(StrUpper name := None)"
proof -
  obtain e p' where g: "GetElement p name INFINITE = (e, p')" by fastforce
  note sp = GetElement_spec [OF wf name g]
  have e: "e = pack_map p (StrUpper name)" using sp(1) by (simp split: option.splits)
  show ?thesis
  proof (cases e)
    case None
    with g e sp show ?thesis by (auto simp: DelElement_def)
  next
    case (Some x)
    let ?es = "items (elements p')"
    let ?p = "p'\<lparr>elements := snd (lst_delete (elements p') x)\<rparr>"
    have d: "distinct (map (\<lambda>e. StrUpper (E_name e)) ?es)"
      using sp(2) by (simp add: pack_wf_def)
    have x: "x \<in> set ?es" "StrUpper (E_name x) = StrUpper name"
    proof -
      have "elem_map ?es (StrUpper name) = Some x" using Some e sp(3) by (simp add: pack_map_def)
      then show "x \<in> set ?es" "StrUpper (E_name x) = StrUpper name" using elem_map_SomeD by blast+
    qed
    have set: "set (remove1 x ?es) = set ?es - {x}" using set_remove1_distinct [OF d] .
    have d': "distinct (map (\<lambda>e. StrUpper (E_name e)) (remove1 x ?es))"
      using d by (auto simp: distinct_map intro: inj_on_subset dest: notin_set_remove1)
    have "length (remove1 x ?es) \<le> 262144"
      using sp(2) by (auto simp: pack_wf_def length_remove1)
    then have wf': "pack_wf ?p"
      using sp(2) d' set pack_compare.lst_delete_ok [of "elements p'" x]
      by (simp add: pack_wf_def list_all_iff) (simp add: lst_delete_def)
    have "elem_map (remove1 x ?es) k = ((elem_map ?es)(StrUpper name := None)) k" for k
    proof (cases "elem_map (remove1 x ?es) k")
      case None
      then have "\<forall>e \<in> set ?es - {x}. StrUpper (E_name e) \<noteq> k" using set by (simp add: elem_map_None)
      then have "k \<noteq> StrUpper name \<Longrightarrow> elem_map ?es k = None"
        using x by (auto simp: elem_map_None)
      with None show ?thesis by simp
    next
      case (Some y)
      then have y: "y \<in> set ?es - {x}" "StrUpper (E_name y) = k" using set elem_map_SomeD by auto
      then have "k \<noteq> StrUpper name" using x d by (auto simp: distinct_map inj_on_def)
      with Some y elem_map_SomeI [OF d, of y] show ?thesis by simp
    qed
    then have "pack_map ?p = (pack_map p)(StrUpper name := None)"
      using sp(3) by (simp add: pack_map_def lst_delete_def fun_eq_iff)
    with g Some wf' show ?thesis by (simp add: DelElement_def)
  qed
qed

lemma elem_map_snoc:
  "elem_map es (StrUpper (E_name e)) = None \<Longrightarrow>
   elem_map (es @ [e]) = (elem_map es)(StrUpper (E_name e) \<mapsto> e)"
  by (auto simp: elem_map_def fun_eq_iff map_add_def split: option.splits)

lemma unat_of_count: "n \<le> 262144 \<Longrightarrow> (of_nat n \<ge> MAX_ELEMENT_NUM) = (n = 262144)"
  by (auto simp: unat_order nowrap)

lemma AddElement_spec:
  assumes wf: "pack_wf p" and name: "name_ok (E_name e)" and r: "AddElement p (Some e) = (ok, p')"
  shows "ok = (length (items (elements p)) < 262144 \<and> pack_map p (StrUpper (E_name e)) = None
            \<and> num_value e \<noteq> 0)"
    and "pack_wf p'"
    and "CurrentJsonHint_GroupName p' = CurrentJsonHint_GroupName p"
    and "pack_map p' =
      (if ok then (pack_map p)(StrUpper (E_name e) \<mapsto>
         e\<lparr>JsonHint_GroupName := fst (StrCpy 64 (CurrentJsonHint_GroupName p))\<rparr>) else pack_map p)"
    and "mset (items (elements p')) =
      (if ok then add_mset (e\<lparr>JsonHint_GroupName := fst (StrCpy 64 (CurrentJsonHint_GroupName p))\<rparr>)
         (mset (items (elements p))) else mset (items (elements p)))"
proof -
  obtain x q where g: "GetElement p (E_name e) INFINITE = (x, q)" by fastforce
  note sp = GetElement_spec [OF wf name g]
  have x: "x = pack_map p (StrUpper (E_name e))" using sp(1) by (simp split: option.splits)
  have len: "length (items (elements p)) \<le> 262144" using wf by (simp add: pack_wf_def)
  have len': "length (items (elements q)) = length (items (elements p))"
    using sp(4) mset_eq_length by blast
  show ok: "ok = (length (items (elements p)) < 262144 \<and> pack_map p (StrUpper (E_name e)) = None
            \<and> num_value e \<noteq> 0)"
    using r g x len by (auto simp: AddElement_def Let_def unat_of_count split: if_splits)
  let ?e = "e\<lparr>JsonHint_GroupName := fst (StrCpy 64 (CurrentJsonHint_GroupName p))\<rparr>"
  have p': "p' = (if ok then q\<lparr>elements := lst_add (elements q) ?e\<rparr>
      else if length (items (elements p)) = 262144 then p else q)"
    using r g ok x len sp(5) by (auto simp: AddElement_def Let_def unat_of_count split: if_splits)
  show "CurrentJsonHint_GroupName p' = CurrentJsonHint_GroupName p" using p' sp(5) by simp
  have new: "elem_map (items (elements q)) (StrUpper (E_name ?e)) = None" if ok
    using that ok sp(3) by (simp add: pack_map_def)
  show "pack_map p' = (if ok then (pack_map p)(StrUpper (E_name e) \<mapsto> ?e) else pack_map p)"
    using p' sp(3) elem_map_snoc [OF new] by (simp add: pack_map_def lst_add_def)
  show "mset (items (elements p')) =
      (if ok then add_mset ?e (mset (items (elements p))) else mset (items (elements p)))"
    using p' sp(4) by (simp add: lst_add_def)
  show "pack_wf p'"
  proof (cases ok)
    case False
    with p' wf sp(2) show ?thesis by auto
  next
    case True
    then have "\<forall>e' \<in> set (items (elements q)). StrUpper (E_name e') \<noteq> StrUpper (E_name e)"
      using new by (simp add: elem_map_None)
    with True p' sp(2) ok name len' pack_compare.lst_add_ok [of "elements q" ?e] show ?thesis
      by (auto simp: pack_wf_def) (auto simp: lst_add_def)
  qed
qed

lemma NewPack_wf: "pack_wf NewPack" "pack_map NewPack = Map.empty"
  using pack_compare.lst_new_ok
  by (simp_all add: pack_wf_def NewPack_def pack_map_def elem_map_def) (simp_all add: lst_new_def)

section \<open>Reading a whole pack\<close>

lemma read_elements_enc:
  assumes "pack_wf p" and "list_all element_ok es" and "distinct (map (\<lambda>e. StrUpper (E_name e)) es)"
    and "\<forall>e \<in> set es. pack_map p (StrUpper (E_name e)) = None"
    and "length (items (elements p)) + length es \<le> 262144" and "CurrentJsonHint_GroupName p = []"
    and "reading b (concat (map enc_element es) @ r)"
  shows "\<exists>b' p'. read_elements (length es) b p = Some (True, b', p') \<and> reading b' r \<and> pack_wf p'
      \<and> mset (items (elements p')) = mset (items (elements p)) + mset (map reread_element es)"
  using assms
proof (induction es arbitrary: b p)
  case Nil
  then show ?case by auto
next
  case (Cons e es)
  have e: "element_ok e" and n: "name_ok (E_name (reread_element e))"
    using Cons.prems(2) by (auto simp: element_ok_def name_ok_def reread_element_def)
  obtain b1 where b1: "ReadElement b = Some (Some (reread_element e), b1)"
    "reading b1 (concat (map enc_element es) @ r)"
    using ReadElement_enc [OF e, of b "concat (map enc_element es) @ r"] Cons.prems(7) by auto
  obtain ok p1 where a: "AddElement p (Some (reread_element e)) = (ok, p1)" by fastforce
  note sp = AddElement_spec [OF Cons.prems(1) n a]
  have nz: "num_value e \<noteq> 0" using e by (auto simp: element_ok_def)
  have ok: ok
    unfolding sp(1) using Cons.prems(4,5) nz by (auto simp: reread_element_def)
  have "reread_element e\<lparr>JsonHint_GroupName := fst (StrCpy 64 [])\<rparr> = reread_element e"
    using StrCpy_name [of "[]"] by (simp add: reread_element_def)
  then have m: "mset (items (elements p1)) = add_mset (reread_element e) (mset (items (elements p)))"
    and mp: "pack_map p1 = (pack_map p)(StrUpper (E_name e) \<mapsto> reread_element e)"
    using sp(4,5) ok Cons.prems(6) by (auto simp: reread_element_def)
  have "length (items (elements p1)) = Suc (length (items (elements p)))"
    using m by (metis size_add_mset size_mset)
  moreover have "\<forall>e' \<in> set es. pack_map p1 (StrUpper (E_name e')) = None"
    using mp Cons.prems(3,4) by (auto simp: image_iff)
  ultimately obtain b' p' where "read_elements (length es) b1 p1 = Some (True, b', p')" "reading b' r"
    "pack_wf p'" "mset (items (elements p')) = mset (items (elements p1)) + mset (map reread_element es)"
    using Cons.IH [OF sp(2), of b1] Cons.prems b1(2) sp(3) by auto
  with b1(1) a ok m show ?case by auto
qed

text \<open>What can be sent: a well-formed pack of elements that can be, of bounded total size.\<close>

definition pack_ok :: "PACK \<Rightarrow> bool" where
  "pack_ok p \<longleftrightarrow> pack_wf p \<and> list_all element_ok (items (elements p))"

definition enc_pack :: "PACK \<Rightarrow> u8 list" where
  "enc_pack p =
     be32 (of_nat (length (items (elements p)))) @ concat (map enc_element (items (elements p)))"

lemma WritePack_enc:
  assumes ok: "pack_ok p" and w: "writing b bs" and room: "length bs + length (enc_pack p) \<le> BUF_MAX"
  shows "\<exists>b'. WritePack b p = Some b' \<and> writing b' (bs @ enc_pack p)"
proof -
  let ?n = "of_nat (length (items (elements p)))"
  obtain b1 where b1: "WriteBufInt b ?n = Some b1" "writing b1 (bs @ be32 ?n)"
    using WriteBufInt_append [OF w, of ?n] room by (auto simp: enc_pack_def)
  show ?thesis
    using write_elements_enc [OF _ b1(2), of "items (elements p)"] b1(1) ok room
    by (auto simp: WritePack_def pack_ok_def enc_pack_def)
qed

lemma ReadPack_enc:
  assumes ok: "pack_ok p" and rd: "reading b (enc_pack p @ r)"
  shows "\<exists>b' p'. ReadPack b NewPack = Some (True, b', p') \<and> reading b' r \<and> pack_wf p'
      \<and> mset (items (elements p')) = image_mset reread_element (mset (items (elements p)))"
proof -
  let ?es = "items (elements p)"
  have len: "length ?es \<le> 262144" using ok by (simp add: pack_ok_def pack_wf_def)
  then have n: "unat (of_nat (length ?es) :: u32) = length ?es" by (simp add: nowrap)
  obtain b1 where b1: "ReadBufInt b = Some (of_nat (length ?es), b1)"
    "reading b1 (concat (map enc_element ?es) @ r)"
    using ReadBufInt_reading [of b "of_nat (length ?es)"] rd by (auto simp: enc_pack_def)
  have "\<not> of_nat (length ?es) > MAX_ELEMENT_NUM" unfolding unat_order n using len by simp
  moreover have "\<exists>b' p'. read_elements (length ?es) b1 NewPack = Some (True, b', p') \<and> reading b' r
      \<and> pack_wf p' \<and> mset (items (elements p'))
        = mset (items (elements NewPack)) + mset (map reread_element ?es)"
    by (rule read_elements_enc [OF NewPack_wf(1)])
      (use ok len b1(2) NewPack_wf(2) in \<open>auto simp: pack_ok_def pack_wf_def NewPack_def lst_new_def\<close>)
  ultimately show ?thesis
    using b1(1) n by (auto simp: ReadPack_def NewPack_def lst_new_def)
qed

section \<open>Reading arbitrary bytes\<close>

text \<open>
  On any well-formed buffer, whatever a peer has put into it, reading returns, no access
  leaves a block, and what is read satisfies the invariants.
\<close>

lemma read_list_total:
  assumes "\<And>b. buf_wf b \<Longrightarrow> \<exists>v b'. rd b = Some (v, b') \<and> buf_next b b'" and "buf_wf b"
  shows "\<exists>vs b'. read_list rd n b = Some (vs, b') \<and> length vs = n \<and> buf_next b b'"
  using assms(2)
proof (induction n arbitrary: b)
  case 0
  then show ?case by (simp add: buf_next_refl)
next
  case (Suc n)
  obtain v b1 where b1: "rd b = Some (v, b1)" "buf_next b b1"
    using assms(1) [OF Suc.prems] by blast
  obtain vs b2 where "read_list rd n b1 = Some (vs, b2)" "length vs = n" "buf_next b1 b2"
    using Suc.IH [OF buf_next_wf [OF b1(2)]] by blast
  with b1 show ?case by (auto intro: buf_next_trans)
qed

lemma sized_read_total:
  assumes "buf_wf b" and "unat n \<le> MAXV"
  shows "\<exists>k d b'. ReadBuf b True n = Some (k, map Some d, b') \<and> length d = unat n \<and> buf_next b b'"
  using ReadBuf_total [OF assms(1), of n] assms(2) by auto

lemma ReadValue_total:
  assumes wf: "buf_wf b"
  shows "\<exists>v b'. ReadValue b ty = Some (v, b') \<and> buf_next b b'"
proof -
  obtain n b1 where b1: "ReadBufInt b = Some (n, b1)" "buf_next b b1"
    using ReadBufInt_total [OF wf] by blast
  obtain m b0 where b0: "ReadBufInt64 b = Some (m, b0)" "buf_next b b0"
    using ReadBufInt64_total [OF wf] by blast
  have large: ?thesis if "n > MAX_VALUE_SIZE" "ty = VALUE_DATA \<or> ty = VALUE_UNISTR"
    using that b1 by (auto simp: ReadValue_def)
  have data: "\<exists>v b'. ReadValue b VALUE_DATA = Some (v, b') \<and> buf_next b b'" if n: "\<not> n > MAX_VALUE_SIZE"
  proof -
    have u: "unat n \<le> MAXV" using n by (simp add: unat_order)
    then have ma: "(MallocEx n :: u8 block option) = Some (replicate (unat n) None)"
      by (simp add: MallocEx_ok unat_order)
    obtain k d b2 where b2: "ReadBuf b1 True n = Some (k, map Some d, b2)" "length d = unat n" "buf_next b1 b2"
      using sized_read_total [OF buf_next_wf [OF b1(2)] u] by blast
    have "mem_write (replicate (unat n) None) 0 (map Some d) = Some (map Some d)"
      using b2(2) by (simp add: mem_write_ok)
    with ma b2 n b1 NewDataValue_ok [OF u, of "map Some d"] show ?thesis
      by (auto simp: ReadValue_def intro: buf_next_trans)
  qed
  have str: "\<exists>v b'. ReadValue b VALUE_STR = Some (v, b') \<and> buf_next b b'"
  proof (cases "n > MAX_VALUE_SIZE - 1")
    case True
    with b1 show ?thesis by (simp add: ReadValue_def)
  next
    case False
    have "unat (MAX_VALUE_SIZE - 1) = MAXV - 1" by (simp add: nowrap)
    with False have u: "unat n < MAXV" unfolding unat_order by linarith
    then have "unat (n + 1) = unat n + 1" by (simp add: nowrap)
    then have "n + 1 \<le> MAX_MALLOC_MEM_SIZE" using u by (simp add: unat_order)
    then have ma: "(MallocEx (n + 1) :: u8 block option) = Some (replicate (unat (n + 1)) None)"
      by (rule MallocEx_ok)
    obtain k d b2 where b2: "ReadBuf b1 True n = Some (k, map Some d, b2)" "length d = unat n" "buf_next b1 b2"
      using sized_read_total [OF buf_next_wf [OF b1(2)]] u by (metis less_imp_le)
    obtain mm where "mem_write (replicate (unat (n + 1)) None) 0 (map Some d) = Some mm"
      "mem_write mm (unat n) [Some 0] = Some (map Some (d @ [0]))"
      using str_buffer [OF b2(2) u] by blast
    moreover have "cells_value (map Some (d @ [0])) = Some (d @ [0])" by (rule cells_value_map_Some)
    ultimately show ?thesis
      using False b1 ma b2 by (auto simp: ReadValue_def intro: buf_next_trans)
  qed
  have uni: "\<exists>v b'. ReadValue b VALUE_UNISTR = Some (v, b') \<and> buf_next b b'" if n: "\<not> n > MAX_VALUE_SIZE"
  proof -
    have u: "unat n \<le> MAXV" using n by (simp add: unat_order)
    then have n1: "unat (n + 1) = unat n + 1" by (simp add: nowrap)
    then have "n + 1 \<le> MAX_MALLOC_MEM_SIZE" using u by (simp add: unat_order)
    then have ma: "(MallocEx (n + 1) :: u8 block option) = Some (replicate (unat (n + 1)) None)"
      by (rule MallocEx_ok)
    obtain k d b2 where b2: "ReadBuf b1 True n = Some (k, map Some d, b2)" "length d = unat n" "buf_next b1 b2"
      using sized_read_total [OF buf_next_wf [OF b1(2)] u] by blast
    have w: "mem_write (replicate (unat (n + 1)) (Some 0)) 0 (map Some d) = Some (map Some (d @ [0]))"
      by (rule uni_buffer [OF b2(2) u])
    have c: "cells_value (map Some (d @ [0])) = Some (d @ [0])" by (rule cells_value_map_Some)
    have "\<exists>z cs. CalcUtf8ToUni (d @ [0]) n = Some z \<and> z \<noteq> 0 \<and> Utf8ToUni z (d @ [0]) n = Some (cs, True)"
    proof (cases "n = 0")
      case True
      with b2(2) Utf8_decode_empty [of "[]"] show ?thesis by simp
    next
      case False
      have p: "unat n \<le> length (d @ [0])" "unat n \<le> 0x3ffffff0" using u b2(2) by simp_all
      show ?thesis using Utf8_decode [OF p(1) False p(2) refl] by blast
    qed
    then obtain z cs where "CalcUtf8ToUni (d @ [0]) n = Some z" "z \<noteq> 0"
      "Utf8ToUni z (d @ [0]) n = Some (cs, True)" by blast
    with n b1 ma b2 w c show ?thesis
      by (auto simp: ReadValue_def intro: buf_next_trans simp del: map_append)
  qed
  show ?thesis
    using b0 b1 large data str uni
    by (cases "ty \<in> {VALUE_INT, VALUE_INT64, VALUE_DATA, VALUE_STR, VALUE_UNISTR}")
      (auto simp: ReadValue_def buf_next_refl wf)
qed

lemma ReadElement_total:
  assumes wf: "buf_wf b"
  shows "\<exists>e b'. ReadElement b = Some (e, b') \<and> buf_next b b'
      \<and> (\<forall>x. e = Some x \<longrightarrow> name_ok (E_name x) \<and> num_value x \<noteq> 0)"
proof -
  obtain s b1 where b1: "ReadBufStr b 64 = Some (s, b1)" "buf_next b b1" "\<forall>t. s = Some t \<longrightarrow> length t < 64"
    using ReadBufStr_total [OF wf, of 64] by auto
  show ?thesis
  proof (cases s)
    case None
    with b1 show ?thesis by (simp add: ReadElement_def)
  next
    case (Some name)
    obtain ty b2 where b2: "ReadBufInt b1 = Some (ty, b2)" "buf_next b1 b2"
      using ReadBufInt_total [OF buf_next_wf [OF b1(2)]] by blast
    obtain n b3 where b3: "ReadBufInt b2 = Some (n, b3)" "buf_next b2 b3"
      using ReadBufInt_total [OF buf_next_wf [OF b2(2)]] by blast
    obtain vs b4 where b4: "read_list (\<lambda>b. ReadValue b ty) (unat n) b3 = Some (vs, b4)" "buf_next b3 b4"
      using read_list_total [of "\<lambda>b. ReadValue b ty" b3 "unat n", OF _ buf_next_wf [OF b3(2)]]
        ReadValue_total by blast
    have len: "length (c_string name) \<le> 63"
      using b1(3) Some length_takeWhile_le [of "\<lambda>c. c \<noteq> 0" name] by (fastforce simp: c_string_def)
    have nm: "name_ok (E_name x)" "num_value x \<noteq> 0" if "NewElement (c_string name) ty n vs = Some x" for x
      using that len by (auto simp: NewElement_def name_ok_def StrCpy_name split: if_splits)
    have "buf_next b b3" "buf_next b b4"
      using b1(2) b2(2) b3(2) b4(2) buf_next_trans by blast+
    with Some b1(1) b2(1) b3(1) b4(1) nm show ?thesis
      by (cases "n > MAX_VALUE_NUM") (auto simp: ReadElement_def)
  qed
qed

lemma read_elements_total:
  assumes "buf_wf b" and "pack_wf p"
  shows "\<exists>ok b' p'. read_elements n b p = Some (ok, b', p') \<and> buf_next b b' \<and> pack_wf p'"
  using assms
proof (induction n arbitrary: b p)
  case 0
  then show ?case by (intro exI [of _ True]) (simp add: buf_next_refl)
next
  case (Suc n)
  obtain e b1 where b1: "ReadElement b = Some (e, b1)" "buf_next b b1"
    "\<forall>x. e = Some x \<longrightarrow> name_ok (E_name x) \<and> num_value x \<noteq> 0"
    using ReadElement_total [OF Suc.prems(1)] by blast
  obtain ok p1 where a: "AddElement p e = (ok, p1)" by fastforce
  have wf1: "pack_wf p1"
  proof (cases e)
    case None
    with a Suc.prems(2) show ?thesis by (simp add: AddElement_def)
  next
    case (Some x)
    with AddElement_spec(2) [OF Suc.prems(2), of x ok p1] a b1(3) show ?thesis by blast
  qed
  obtain ok' b2 p2 where "read_elements n b1 p1 = Some (ok', b2, p2)" "buf_next b1 b2" "pack_wf p2"
    using Suc.IH [OF buf_next_wf [OF b1(2)] wf1] by blast
  with a b1 wf1 show ?case
    by (cases ok) (auto intro: buf_next_trans)
qed

lemma ReadPack_total:
  assumes "buf_wf b" and "pack_wf p"
  shows "\<exists>ok b' p'. ReadPack b p = Some (ok, b', p') \<and> buf_next b b' \<and> pack_wf p'"
proof -
  obtain n b1 where b1: "ReadBufInt b = Some (n, b1)" "buf_next b b1"
    using ReadBufInt_total [OF assms(1)] by blast
  obtain ok b2 p2 where "read_elements (unat n) b1 p = Some (ok, b2, p2)" "buf_next b1 b2" "pack_wf p2"
    using read_elements_total [OF buf_next_wf [OF b1(2)] assms(2)] by blast
  with b1 assms(2) show ?thesis
    by (cases "n > MAX_ELEMENT_NUM") (auto simp: ReadPack_def intro: buf_next_trans)
qed

end
