(* ===== verification/Containers.thy ===== *)
theory Containers
  imports PtrList
begin

text \<open>
  What src/src/Mayaqua/Memory.c builds on pointer arrays: the stack \<open>SK\<close>, the lists of
  integers and of strings, and the random permutation of a list. An integer list holds
  pointers to private copies that are never changed, so an item is modelled by the integer;
  a string list by its strings.
\<close>

section \<open>Stacks\<close>

record 'x SK =
  SK_num_item :: u32
  SK_num_reserved :: u32
  SK_p :: "'x block"
  SK_no_compact :: bool

definition NewSkEx :: "bool \<Rightarrow> 'x SK option" where
  "NewSkEx no_compact =
     do {
       m \<leftarrow> MallocPtrs INIT_NUM_RESERVED;
       Some \<lparr>SK_num_item = 0, SK_num_reserved = INIT_NUM_RESERVED, SK_p = m, SK_no_compact = no_compact\<rparr>
     }"

definition NewSk :: "'x SK option" where
  "NewSk = NewSkEx False"

definition Push :: "'x SK \<Rightarrow> 'x option \<Rightarrow> 'x SK option" where
  "Push s p =
     (if p = None then Some s
      else let i = SK_num_item s; s = s\<lparr>SK_num_item := SK_num_item s + 1\<rparr>
      in do {
        s \<leftarrow> (if SK_num_item s > SK_num_reserved s
             then do {
               m \<leftarrow> ReAllocPtrs (SK_p s) (SK_num_reserved s * 2);
               Some (s\<lparr>SK_num_reserved := SK_num_reserved s * 2, SK_p := m\<rparr>)
             }
             else Some s);
        m \<leftarrow> cell_set (SK_p s) (unat i) p;
        Some (s\<lparr>SK_p := m\<rparr>)
      })"

text \<open>The result is the popped cell, or a null pointer from an empty stack.\<close>

definition Pop :: "'x SK \<Rightarrow> ('x option \<times> 'x SK) option" where
  "Pop s =
     (if SK_num_item s = 0 then Some (None, s)
      else do {
        ret \<leftarrow> cell_get (SK_p s) (unat (SK_num_item s - 1));
        let s = s\<lparr>SK_num_item := SK_num_item s - 1\<rparr>;
        if \<not> SK_no_compact s \<and> SK_num_item s * 2 \<le> SK_num_reserved s
          \<and> SK_num_reserved s \<ge> INIT_NUM_RESERVED * 2
        then do {
          m \<leftarrow> ReAllocPtrs (SK_p s) (SK_num_reserved s div 2);
          Some (ret, s\<lparr>SK_num_reserved := SK_num_reserved s div 2, SK_p := m\<rparr>)
        }
        else Some (ret, s)
      })"

text \<open>The list a stack represents, top first.\<close>

definition sk_rep :: "'x SK \<Rightarrow> 'x list \<Rightarrow> bool" where
  "sk_rep s xs \<longleftrightarrow>
     length (SK_p s) = unat (SK_num_reserved s) \<and> 0 < unat (SK_num_reserved s) \<and>
     unat (SK_num_reserved s) \<le> 536870900 \<and>
     unat (SK_num_item s) = length xs \<and> length xs \<le> length (SK_p s) \<and>
     take (length xs) (SK_p s) = map Some (rev xs)"

lemma NewSk_rep: "\<exists>s. NewSkEx nc = Some s \<and> sk_rep s []"
  by (simp add: NewSkEx_def MallocPtrs_ok sk_rep_def)

lemma Push_rep:
  assumes rep: "sk_rep s xs" and room: "length xs < LIST_MAX"
  shows "\<exists>s'. Push s (Some x) = Some s' \<and> sk_rep s' (x # xs)"
proof -
  note r = rep [unfolded sk_rep_def]
  have n: "unat (SK_num_item s + 1) = Suc (length xs)"
    using r room by (simp add: nowrap)
  show ?thesis
  proof (cases "SK_num_item s + 1 > SK_num_reserved s")
    case False
    with r n show ?thesis
      by (simp add: Push_def Let_def unat_order cell_set_def sk_rep_def list_update_last)
  next
    case True
    then have full: "length (SK_p s) = length xs" "unat (SK_num_reserved s) = length xs"
      using r n by (simp_all add: unat_order)
    then have u: "unat (SK_num_reserved s * 2) = 2 * length xs"
      using room by (simp add: nowrap)
    then have "ReAllocPtrs (SK_p s) (SK_num_reserved s * 2)
        = Some (map Some (rev xs) @ replicate (length xs) None)"
      using full room r by (subst ReAllocPtrs_ok) auto
    moreover have "0 < length xs" using r full by simp
    ultimately show ?thesis
      using True n u room r full
      by (simp add: Push_def Let_def cell_set_def sk_rep_def list_update_append list_update_last
          Suc_le_eq)
  qed
qed

lemma Pop_rep:
  assumes rep: "sk_rep s (x # xs)"
  shows "\<exists>s'. Pop s = Some (Some x, s') \<and> sk_rep s' xs"
proof -
  note r = rep [unfolded sk_rep_def]
  have ne: "SK_num_item s \<noteq> 0" using r by auto
  have u: "unat (SK_num_item s - 1) = length xs" using r by (simp add: nowrap)
  have "take (Suc (length xs)) (SK_p s) = map Some (rev xs) @ [Some x]" using r by simp
  then have top: "SK_p s ! length xs = Some x" and pre: "take (length xs) (SK_p s) = map Some (rev xs)"
    using r by (simp_all add: take_Suc_conv_app_nth)
  have m: "ReAllocPtrs (SK_p s) (SK_num_reserved s div 2) = Some (take (unat (SK_num_reserved s) div 2) (SK_p s))"
    using r by (subst ReAllocPtrs_ok) (auto simp: unat_div)
  have "unat ((SK_num_item s - 1) * 2) = 2 * length xs"
    using unat_mult32 [of "SK_num_item s - 1" 2] r unfolding u by auto
  then show ?thesis
    using ne u top pre m r
    by (auto simp: Pop_def Let_def cell_get_def sk_rep_def unat_order unat_div min_def)
qed

section \<open>Lists of integers\<close>

definition CompareInt :: "u32 \<Rightarrow> u32 \<Rightarrow> int" where
  "CompareInt v1 v2 = COMPARE_RET v1 v2"

definition CompareInt64 :: "u64 \<Rightarrow> u64 \<Rightarrow> int" where
  "CompareInt64 v1 v2 = COMPARE_RET v1 v2"

text \<open>\<open>NewIntList\<close> makes a list with or without the comparison function.\<close>

record 'n INTLIST =
  il_list :: "'n LST"
  il_cmp :: bool

definition NewIntList :: "bool \<Rightarrow> u32 INTLIST" where
  "NewIntList srt = \<lparr>il_list = lst_new, il_cmp = srt\<rparr>"

definition NewInt64List :: "bool \<Rightarrow> u64 INTLIST" where
  "NewInt64List srt = \<lparr>il_list = lst_new, il_cmp = srt\<rparr>"

definition IsIntInList :: "u32 INTLIST \<Rightarrow> u32 \<Rightarrow> bool" where
  "IsIntInList l i = list_ex (\<lambda>p. p = i) (items (il_list l))"

definition IsInt64InList :: "u64 INTLIST \<Rightarrow> u64 \<Rightarrow> bool" where
  "IsInt64InList l i = list_ex (\<lambda>p. p = i) (items (il_list l))"

definition DelAllInt :: "'n INTLIST \<Rightarrow> 'n INTLIST" where
  "DelAllInt l = l\<lparr>il_list := (il_list l)\<lparr>items := []\<rparr>\<rparr>"

text \<open>\<open>DelInt\<close> collects what it has to delete first, then deletes it item by item.\<close>

definition DelInt :: "u32 INTLIST \<Rightarrow> u32 \<Rightarrow> u32 INTLIST" where
  "DelInt l i =
     (let o2 = filter (\<lambda>p. p = i) (items (il_list l))
      in l\<lparr>il_list := fold (\<lambda>p o1. snd (lst_delete o1 p)) o2 (il_list l)\<rparr>)"

definition DelInt64 :: "u64 INTLIST \<Rightarrow> u64 \<Rightarrow> u64 INTLIST" where
  "DelInt64 l i =
     (let o2 = filter (\<lambda>p. p = i) (items (il_list l))
      in l\<lparr>il_list := fold (\<lambda>p o1. snd (lst_delete o1 p)) o2 (il_list l)\<rparr>)"

definition AddInt :: "u32 INTLIST \<Rightarrow> u32 \<Rightarrow> u32 INTLIST" where
  "AddInt l i = l\<lparr>il_list := lst_add (il_list l) i\<rparr>"

definition AddInt64 :: "u64 INTLIST \<Rightarrow> u64 \<Rightarrow> u64 INTLIST" where
  "AddInt64 l i = l\<lparr>il_list := lst_add (il_list l) i\<rparr>"

definition InsertInt :: "u32 INTLIST \<Rightarrow> u32 \<Rightarrow> u32 INTLIST" where
  "InsertInt l i =
     l\<lparr>il_list := lst_insert (if il_cmp l then Some CompareInt else None) (il_list l) i\<rparr>"

definition InsertInt64 :: "u64 INTLIST \<Rightarrow> u64 \<Rightarrow> u64 INTLIST" where
  "InsertInt64 l i =
     l\<lparr>il_list := lst_insert (if il_cmp l then Some CompareInt64 else None) (il_list l) i\<rparr>"

definition AddIntDistinct :: "u32 INTLIST \<Rightarrow> u32 \<Rightarrow> u32 INTLIST" where
  "AddIntDistinct l i = (if \<not> IsIntInList l i then AddInt l i else l)"

definition AddInt64Distinct :: "u64 INTLIST \<Rightarrow> u64 \<Rightarrow> u64 INTLIST" where
  "AddInt64Distinct l i = (if \<not> IsInt64InList l i then AddInt64 l i else l)"

definition InsertIntDistinct :: "u32 INTLIST \<Rightarrow> u32 \<Rightarrow> u32 INTLIST" where
  "InsertIntDistinct l i = (if \<not> IsIntInList l i then InsertInt l i else l)"

definition InsertInt64Distinct :: "u64 INTLIST \<Rightarrow> u64 \<Rightarrow> u64 INTLIST" where
  "InsertInt64Distinct l i = (if \<not> IsInt64InList l i then InsertInt64 l i else l)"

section \<open>Lists of strings\<close>

definition CompareStr :: "cstr \<Rightarrow> cstr \<Rightarrow> int" where
  "CompareStr s1 s2 = StrCmpi s1 s2"

definition NewStrList :: "cstr LST" where
  "NewStrList = lst_new"

definition IsInListStr :: "cstr LST \<Rightarrow> cstr \<Rightarrow> bool" where
  "IsInListStr l str = list_ex (\<lambda>s. StrCmpi s str = 0) (items l)"

definition AddStrToStrList :: "cstr LST \<Rightarrow> cstr option \<Rightarrow> cstr LST" where
  "AddStrToStrList l str = (let s = (case str of None \<Rightarrow> [] | Some s \<Rightarrow> s) in lst_add l (CopyStr s))"

definition AddStrToStrListDistinct :: "cstr LST \<Rightarrow> cstr \<Rightarrow> bool \<times> cstr LST" where
  "AddStrToStrListDistinct l str =
     (if \<not> IsInListStr l str then (True, lst_add l (CopyStr str)) else (False, l))"

definition InsertStr :: "cstr LST \<Rightarrow> cstr \<Rightarrow> bool \<times> cstr LST" where
  "InsertStr l str =
     (let (r, l) = lst_search (Some CompareStr) l str
      in if r = None then (True, lst_insert (Some CompareStr) l str) else (False, l))"

section \<open>Random order\<close>

text \<open>\<open>rnd\<close> gives the successive values of \<open>Rand32\<close>.\<close>

function randomize_loop :: "(nat \<Rightarrow> u32) \<Rightarrow> nat \<Rightarrow> 'x list \<Rightarrow> 'x list \<Rightarrow> 'x list" where
  "randomize_loop rnd k xs o2 =
     (if xs = [] then o2
      else let p = xs ! (unat (rnd k) mod length xs)
        in randomize_loop rnd (Suc k) (remove1 p xs) (o2 @ [p]))"
  by pat_completeness auto
termination
proof (relation "measure (\<lambda>(rnd, k, xs, o2). length xs)")
  fix rnd :: "nat \<Rightarrow> u32" and k :: nat and xs o2 :: "'x list" and p
  assume "xs \<noteq> []" and p: "p = xs ! (unat (rnd k) mod length xs)"
  then have "p \<in> set xs" by simp
  then show "((rnd, Suc k, remove1 p xs, o2 @ [p]), rnd, k, xs, o2) \<in> measure (\<lambda>(rnd, k, xs, o2). length xs)"
    using length_pos_if_in_set [of p xs] by (simp add: length_remove1)
qed simp

declare randomize_loop.simps [simp del]

definition RandomizeList :: "(nat \<Rightarrow> u32) \<Rightarrow> 'x LST \<Rightarrow> 'x LST" where
  "RandomizeList rnd l =
     (let o2 = randomize_loop rnd 0 (items l) [];
          l = l\<lparr>items := []\<rparr>
      in fold (\<lambda>p o1. lst_add o1 p) o2 l)"

section \<open>What the integer and string lists promise\<close>

interpretation int_cmp: comparator CompareInt
  unfolding CompareInt_def [abs_def] by (rule int_compare.comparator_axioms)

interpretation int64_cmp: comparator CompareInt64
  unfolding CompareInt64_def [abs_def] by (rule int_compare.comparator_axioms)

interpretation str_cmp: comparator CompareStr
  unfolding CompareStr_def [abs_def] by (rule str_compare.comparator_axioms)

lemma fold_delete:
  "fold (\<lambda>p o1. snd (lst_delete o1 p)) ds l = l\<lparr>items := fold remove1 ds (items l)\<rparr>"
  by (induction ds arbitrary: l) (auto simp: lst_delete_def)

lemma remove1_count: "(remove1 i ^^ count_list xs i) xs = filter (\<lambda>p. p \<noteq> i) xs"
proof (induction xs)
  case (Cons x xs)
  have "(remove1 i ^^ n) (x # ys) = x # (remove1 i ^^ n) ys" if "x \<noteq> i" for n ys
    using that by (induction n arbitrary: ys) (auto simp del: funpow.simps simp: funpow_Suc_right)
  with Cons show ?case by (cases "x = i") (simp_all del: funpow.simps add: funpow_Suc_right)
qed simp

lemma filter_eq_replicate: "filter (\<lambda>p. p = i) xs = replicate (count_list xs i) i"
  by (induction xs) auto

lemma DelInt_items: "items (il_list (DelInt l i)) = filter (\<lambda>p. p \<noteq> i) (items (il_list l))"
  by (simp add: DelInt_def Let_def fold_delete filter_eq_replicate remove1_count)

definition intlist_ok :: "u32 INTLIST \<Rightarrow> bool" where
  "intlist_ok l \<longleftrightarrow> il_cmp l \<and> lst_ok CompareInt (il_list l) \<and> distinct (items (il_list l))"

lemma intlist_new_ok: "intlist_ok (NewIntList True)"
  by (simp add: intlist_ok_def NewIntList_def int_cmp.lst_new_ok) (simp add: lst_new_def)

lemma InsertIntDistinct_ok:
  assumes "intlist_ok l"
  shows "intlist_ok (InsertIntDistinct l i)"
    and "set (items (il_list (InsertIntDistinct l i))) = insert i (set (items (il_list l)))"
proof -
  have ok: "lst_ok CompareInt (il_list l)" using assms by (simp add: intlist_ok_def)
  note sp = int_cmp.lst_insert_spec [OF ok, of i]
  have "set (items (lst_insert (Some CompareInt) (il_list l) i)) = insert i (set (items (il_list l)))"
    using sp by (metis set_mset_add_mset_insert set_mset_mset)
  moreover have "distinct (items (lst_insert (Some CompareInt) (il_list l) i))"
    if "i \<notin> set (items (il_list l))"
  proof -
    have "distinct (i # items (il_list l))" using that assms by (simp add: intlist_ok_def)
    then show ?thesis using sp by (metis mset.simps(2) mset_eq_imp_distinct_iff)
  qed
  ultimately show "intlist_ok (InsertIntDistinct l i)"
    and "set (items (il_list (InsertIntDistinct l i))) = insert i (set (items (il_list l)))"
    using assms sp
    by (auto simp: InsertIntDistinct_def InsertInt_def IsIntInList_def intlist_ok_def list_ex_iff)
qed

lemma randomize_loop_mset: "mset (randomize_loop rnd k xs o2) = mset xs + mset o2"
proof (induction rnd k xs o2 rule: randomize_loop.induct)
  case (1 rnd k xs o2)
  show ?case
  proof (cases "xs = []")
    case False
    then have "xs ! (unat (rnd k) mod length xs) \<in> set xs" by simp
    with 1 [OF False refl] False show ?thesis
      by (subst randomize_loop.simps) (simp add: Let_def)
  qed (simp add: randomize_loop.simps)
qed

lemma fold_add: "items (fold (\<lambda>p o1. lst_add o1 p) ps l) = items l @ ps"
  by (induction ps arbitrary: l) (auto simp: lst_add_def)

lemma RandomizeList_mset: "mset (items (RandomizeList rnd l)) = mset (items l)"
  by (simp add: RandomizeList_def Let_def fold_add randomize_loop_mset)

text \<open>A string list that is filled by \<open>InsertStr\<close> never holds two strings that differ in case only.\<close>

lemma InsertStr_spec:
  assumes ok: "lst_ok CompareStr l" and r: "InsertStr l str = (b, l')"
  shows "lst_ok CompareStr l' \<and> b = (\<forall>s \<in> set (items l). StrCmpi str s \<noteq> 0)
      \<and> mset (items l') = (if b then add_mset str (mset (items l)) else mset (items l))"
proof -
  obtain x l1 where s: "lst_search (Some CompareStr) l str = (x, l1)" by fastforce
  note sp = str_cmp.lst_search_spec [OF ok s]
  show ?thesis
    using s r sp str_cmp.lst_insert_spec [of l1 str]
    by (auto simp: InsertStr_def CompareStr_def split: option.splits if_splits)
qed

end
