(* ===== verification/PackApi.thy ===== *)
theory PackApi
  imports Pack Containers
begin

text \<open>
  The functions of src/src/Mayaqua/Pack.c through which the program fills and reads packs: one
  value per name, arrays of values, the composite encoding of IP addresses, and the hints for
  the JSON form. The IP functions used are those of src/src/Mayaqua/Network.c. Every reader
  returns the pack as well, because a search may sort it; \<^const>\<open>None\<close> as the whole
  result is an access outside an array or to a member that was never set.
\<close>

section \<open>Reading\<close>

definition PackGetIntEx :: "PACK \<Rightarrow> cstr \<Rightarrow> u32 \<Rightarrow> (u32 \<times> PACK) option" where
  "PackGetIntEx p name index =
     (let (e, p) = GetElement p name VALUE_INT
      in if e = None then Some (0, p) else do { i \<leftarrow> GetIntValue e index; Some (i, p) })"

definition PackGetInt :: "PACK \<Rightarrow> cstr \<Rightarrow> (u32 \<times> PACK) option" where
  "PackGetInt p name = PackGetIntEx p name 0"

definition PackGetNum :: "PACK \<Rightarrow> cstr \<Rightarrow> (u32 \<times> PACK) option" where
  "PackGetNum p name = do { (i, p) \<leftarrow> PackGetInt p name; Some (min i 65536, p) }"

definition PackGetBoolEx :: "PACK \<Rightarrow> cstr \<Rightarrow> u32 \<Rightarrow> (bool \<times> PACK) option" where
  "PackGetBoolEx p name index = do { (i, p) \<leftarrow> PackGetIntEx p name index; Some (i \<noteq> 0, p) }"

definition PackGetBool :: "PACK \<Rightarrow> cstr \<Rightarrow> (bool \<times> PACK) option" where
  "PackGetBool p name = do { (i, p) \<leftarrow> PackGetInt p name; Some (i \<noteq> 0, p) }"

definition PackGetInt64Ex :: "PACK \<Rightarrow> cstr \<Rightarrow> u32 \<Rightarrow> (u64 \<times> PACK) option" where
  "PackGetInt64Ex p name index =
     (let (e, p) = GetElement p name VALUE_INT64
      in if e = None then Some (0, p) else do { i \<leftarrow> GetInt64Value e index; Some (i, p) })"

definition PackGetInt64 :: "PACK \<Rightarrow> cstr \<Rightarrow> (u64 \<times> PACK) option" where
  "PackGetInt64 p name = PackGetInt64Ex p name 0"

definition PackGetIndexCount :: "PACK \<Rightarrow> cstr \<Rightarrow> u32 \<times> PACK" where
  "PackGetIndexCount p name =
     (let (e, p) = GetElement p name INFINITE
      in case e of None \<Rightarrow> (0, p) | Some e \<Rightarrow> (num_value e, p))"

definition PackIsValueExists :: "PACK \<Rightarrow> cstr \<Rightarrow> bool \<times> PACK" where
  "PackIsValueExists p name = IsElement p name"

definition PackGetDataSizeEx :: "PACK \<Rightarrow> cstr \<Rightarrow> u32 \<Rightarrow> u32 \<times> PACK" where
  "PackGetDataSizeEx p name index =
     (let (e, p) = GetElement p name VALUE_DATA
      in if e = None then (0, p) else (GetDataValueSize e index, p))"

definition PackGetDataSize :: "PACK \<Rightarrow> cstr \<Rightarrow> u32 \<times> PACK" where
  "PackGetDataSize p name = PackGetDataSizeEx p name 0"

text \<open>The cells that are copied to the destination; a null source is only copied with size 0.\<close>

definition copy_data :: "ELEMENT option \<Rightarrow> u32 \<Rightarrow> u8 block option" where
  "copy_data e index =
     do {
       d \<leftarrow> GetDataValue e index;
       mem_read (case d of None \<Rightarrow> [] | Some m \<Rightarrow> m) 0 (unat (GetDataValueSize e index))
     }"

definition PackGetDataEx :: "PACK \<Rightarrow> cstr \<Rightarrow> u32 \<Rightarrow> (u8 block option \<times> PACK) option" where
  "PackGetDataEx p name index =
     (let (e, p) = GetElement p name VALUE_DATA
      in if e = None then Some (None, p)
         else do { d \<leftarrow> copy_data e index; Some (Some d, p) })"

definition PackGetData :: "PACK \<Rightarrow> cstr \<Rightarrow> (u8 block option \<times> PACK) option" where
  "PackGetData p name = PackGetDataEx p name 0"

definition PackGetDataEx2 :: "PACK \<Rightarrow> cstr \<Rightarrow> u32 \<Rightarrow> u32 \<Rightarrow> (u8 block option \<times> PACK) option" where
  "PackGetDataEx2 p name sz index =
     (let (e, p) = GetElement p name VALUE_DATA
      in if e = None then Some (None, p)
         else if GetDataValueSize e index \<noteq> sz then Some (None, p)
         else do { d \<leftarrow> copy_data e index; Some (Some d, p) })"

definition PackGetData2 :: "PACK \<Rightarrow> cstr \<Rightarrow> u32 \<Rightarrow> (u8 block option \<times> PACK) option" where
  "PackGetData2 p name sz = PackGetDataEx2 p name sz 0"

definition PackGetBufEx :: "PACK \<Rightarrow> cstr \<Rightarrow> u32 \<Rightarrow> (BUF option \<times> PACK) option" where
  "PackGetBufEx p name index =
     (let (sz, p) = PackGetDataSizeEx p name index
      in do {
        tmp \<leftarrow> MallocEx sz;
        (d, p) \<leftarrow> PackGetDataEx p name index;
        case d of
          None \<Rightarrow> Some (None, p)
        | Some d \<Rightarrow> do {
            tmp \<leftarrow> mem_write tmp 0 d;
            b \<leftarrow> NewBuf;
            b \<leftarrow> WriteBuf b tmp sz;
            Some (Some (SeekBuf b 0 0), p)
          }
      })"

definition PackGetBuf :: "PACK \<Rightarrow> cstr \<Rightarrow> (BUF option \<times> PACK) option" where
  "PackGetBuf p name = PackGetBufEx p name 0"

text \<open>
  The strings come with what the destination holds afterwards, \<^const>\<open>None\<close> when it was not
  touched. A wide destination that is too small for any character keeps its first, cleared.
\<close>

definition PackGetStrEx :: "PACK \<Rightarrow> cstr \<Rightarrow> u32 \<Rightarrow> u32 \<Rightarrow> (bool \<times> cstr option \<times> PACK) option" where
  "PackGetStrEx p name sz index =
     (if sz = 0 then Some (False, None, p)
      else let (e, p) = GetElement p name VALUE_STR
        in if e = None then Some (False, Some [], p)
           else do {
             s \<leftarrow> GetStrValue e index;
             Some (True, Some (case s of None \<Rightarrow> [] | Some s \<Rightarrow> fst (StrCpy sz s)), p)
           })"

definition PackGetStr :: "PACK \<Rightarrow> cstr \<Rightarrow> u32 \<Rightarrow> (bool \<times> cstr option \<times> PACK) option" where
  "PackGetStr p name sz = PackGetStrEx p name sz 0"

definition PackCmpStr :: "PACK \<Rightarrow> cstr \<Rightarrow> cstr \<Rightarrow> (bool \<times> PACK) option" where
  "PackCmpStr p name str =
     do {
       (ok, tmp, p) \<leftarrow> PackGetStr p name 512;
       if \<not> ok then Some (False, p) else Some (StrCmpi (the tmp) str = 0, p)
     }"

definition PackGetUniStrEx :: "PACK \<Rightarrow> cstr \<Rightarrow> u32 \<Rightarrow> u32 \<Rightarrow> (bool \<times> wstr option \<times> PACK) option" where
  "PackGetUniStrEx p name sz index =
     (if sz = 0 then Some (False, None, p)
      else let (e, p) = GetElement p name VALUE_UNISTR
        in if e = None then Some (False, Some [], p)
           else do {
             s \<leftarrow> GetUniStrValue e index;
             Some (True, Some (case s of None \<Rightarrow> []
                               | Some s \<Rightarrow> (case fst (UniStrCpy sz s) of None \<Rightarrow> [] | Some t \<Rightarrow> t)), p)
           })"

definition PackGetUniStr :: "PACK \<Rightarrow> cstr \<Rightarrow> u32 \<Rightarrow> (bool \<times> wstr option \<times> PACK) option" where
  "PackGetUniStr p name sz = PackGetUniStrEx p name sz 0"

section \<open>Adding one value\<close>

text \<open>
  The functions that add return the element, and their callers set hints in it; here they tell
  whether there is one, and \<open>with_element\<close> changes the element of a name.
\<close>

definition with_element :: "cstr \<Rightarrow> (ELEMENT \<Rightarrow> ELEMENT) \<Rightarrow> PACK \<Rightarrow> PACK" where
  "with_element name f p =
     p\<lparr>elements := (elements p)\<lparr>items :=
        map (\<lambda>x. if ComparePackName (search_key name) x = 0 then f x else x) (items (elements p))\<rparr>\<rparr>"

definition PackAddInt :: "PACK \<Rightarrow> cstr \<Rightarrow> u32 \<Rightarrow> bool \<times> PACK" where
  "PackAddInt p name i = AddElement p (NewElement name VALUE_INT 1 [Some (NewIntValue i)])"

definition PackAddNum :: "PACK \<Rightarrow> cstr \<Rightarrow> u32 \<Rightarrow> bool \<times> PACK" where
  "PackAddNum p name num = PackAddInt p name num"

definition PackAddBool :: "PACK \<Rightarrow> cstr \<Rightarrow> bool \<Rightarrow> bool \<times> PACK" where
  "PackAddBool p name b =
     (let (ok, p) = PackAddInt p name (if b then 1 else 0)
      in if ok then (ok, with_element name (\<lambda>e. e\<lparr>JsonHint_IsBool := True\<rparr>) p) else (ok, p))"

definition PackAddInt64 :: "PACK \<Rightarrow> cstr \<Rightarrow> u64 \<Rightarrow> bool \<times> PACK" where
  "PackAddInt64 p name i = AddElement p (NewElement name VALUE_INT64 1 [Some (NewInt64Value i)])"

definition PackAddTime64 :: "PACK \<Rightarrow> cstr \<Rightarrow> u64 \<Rightarrow> bool \<times> PACK" where
  "PackAddTime64 p name i =
     (let (ok, p) = PackAddInt64 p name i
      in if ok then (ok, with_element name (\<lambda>e. e\<lparr>JsonHint_IsDateTime := True\<rparr>) p) else (ok, p))"

definition PackAddStr :: "PACK \<Rightarrow> cstr \<Rightarrow> cstr option \<Rightarrow> bool \<times> PACK" where
  "PackAddStr p name str =
     (if str = None then (False, p)
      else AddElement p (NewElement name VALUE_STR 1 [NewStrValue str]))"

definition PackAddUniStr :: "PACK \<Rightarrow> cstr \<Rightarrow> wstr option \<Rightarrow> bool \<times> PACK" where
  "PackAddUniStr p name unistr =
     (if unistr = None then (False, p)
      else AddElement p (NewElement name VALUE_UNISTR 1 [NewUniStrValue unistr]))"

definition PackAddData :: "PACK \<Rightarrow> cstr \<Rightarrow> u8 block option \<Rightarrow> u32 \<Rightarrow> (bool \<times> PACK) option" where
  "PackAddData p name data sz =
     (if data = None then Some (False, p)
      else do {
        v \<leftarrow> NewDataValue data sz;
        Some (AddElement p (NewElement name VALUE_DATA 1 [v]))
      })"

definition PackAddBuf :: "PACK \<Rightarrow> cstr \<Rightarrow> BUF option \<Rightarrow> (bool \<times> PACK) option" where
  "PackAddBuf p name b =
     (case b of None \<Rightarrow> Some (False, p) | Some b \<Rightarrow> PackAddData p name (Some (Buf b)) (Size b))"

section \<open>Adding to an array\<close>

text \<open>
  The functions whose names end in \<open>Ex\<close> share their body but for the value and the type:
  an element of that name and type gets the value at \<open>index\<close> if it has \<open>total\<close>
  values at least, and otherwise a new element of \<open>total\<close> values is made. The index is
  not checked against the number of values.
\<close>

definition pack_add_ex :: "PACK \<Rightarrow> cstr \<Rightarrow> u32 \<Rightarrow> VALUE option \<Rightarrow> u32 \<Rightarrow> u32 \<Rightarrow> (bool \<times> PACK) option" where
  "pack_add_ex p name ty v index tot =
     (let (e, p) = GetElement p name ty
      in case e of
           Some e \<Rightarrow>
             if num_value e \<ge> tot
             then (if unat index < length (E_values e)
                   then Some (True, with_element name
                     (\<lambda>x. x\<lparr>E_values := (E_values x)[unat index := v], JsonHint_IsArray := True\<rparr>) p)
                   else None)
             else Some (True, with_element name (\<lambda>x. x\<lparr>JsonHint_IsArray := True\<rparr>) p)
         | None \<Rightarrow> do {
             vs \<leftarrow> MallocPtrs tot;
             vs \<leftarrow> cell_set vs (unat index) v;
             let e = \<lparr>E_name = fst (StrCpy (MAX_ELEMENT_NAME_LEN + 1) name), num_value = tot,
                      E_type = ty, E_values = vs, JsonHint_IsArray = False, JsonHint_IsBool = False,
                      JsonHint_IsDateTime = False, JsonHint_IsIP = False, JsonHint_GroupName = []\<rparr>;
             let (ok, p) = AddElement p (Some e);
             if ok then Some (True, with_element name (\<lambda>x. x\<lparr>JsonHint_IsArray := True\<rparr>) p)
             else Some (False, p)
           })"

definition PackAddIntEx :: "PACK \<Rightarrow> cstr \<Rightarrow> u32 \<Rightarrow> u32 \<Rightarrow> u32 \<Rightarrow> (bool \<times> PACK) option" where
  "PackAddIntEx p name i index tot =
     (if tot = 0 then Some (False, p)
      else pack_add_ex p name VALUE_INT (Some (NewIntValue i)) index tot)"

definition PackAddInt64Ex :: "PACK \<Rightarrow> cstr \<Rightarrow> u64 \<Rightarrow> u32 \<Rightarrow> u32 \<Rightarrow> (bool \<times> PACK) option" where
  "PackAddInt64Ex p name i index tot =
     (if tot = 0 then Some (False, p)
      else pack_add_ex p name VALUE_INT64 (Some (NewInt64Value i)) index tot)"

definition PackAddStrEx :: "PACK \<Rightarrow> cstr \<Rightarrow> cstr option \<Rightarrow> u32 \<Rightarrow> u32 \<Rightarrow> (bool \<times> PACK) option" where
  "PackAddStrEx p name str index tot =
     (if str = None \<or> tot = 0 then Some (False, p)
      else pack_add_ex p name VALUE_STR (NewStrValue str) index tot)"

definition PackAddUniStrEx :: "PACK \<Rightarrow> cstr \<Rightarrow> wstr option \<Rightarrow> u32 \<Rightarrow> u32 \<Rightarrow> (bool \<times> PACK) option" where
  "PackAddUniStrEx p name unistr index tot =
     (if unistr = None \<or> tot = 0 then Some (False, p)
      else pack_add_ex p name VALUE_UNISTR (NewUniStrValue unistr) index tot)"

definition PackAddDataEx ::
  "PACK \<Rightarrow> cstr \<Rightarrow> u8 block option \<Rightarrow> u32 \<Rightarrow> u32 \<Rightarrow> u32 \<Rightarrow> (bool \<times> PACK) option" where
  "PackAddDataEx p name data sz index tot =
     (if data = None \<or> tot = 0 then Some (False, p)
      else do {
        v \<leftarrow> NewDataValue data sz;
        pack_add_ex p name VALUE_DATA v index tot
      })"

definition PackAddBufEx :: "PACK \<Rightarrow> cstr \<Rightarrow> BUF option \<Rightarrow> u32 \<Rightarrow> u32 \<Rightarrow> (bool \<times> PACK) option" where
  "PackAddBufEx p name b index tot =
     (case b of
        None \<Rightarrow> Some (False, p)
      | Some b \<Rightarrow> if tot = 0 then Some (False, p)
                 else PackAddDataEx p name (Some (Buf b)) (Size b) index tot)"

definition PackAddBoolEx :: "PACK \<Rightarrow> cstr \<Rightarrow> bool \<Rightarrow> u32 \<Rightarrow> u32 \<Rightarrow> (bool \<times> PACK) option" where
  "PackAddBoolEx p name b index tot =
     do {
       (ok, p) \<leftarrow> PackAddIntEx p name (if b then 1 else 0) index tot;
       Some (if ok then (ok, with_element name (\<lambda>e. e\<lparr>JsonHint_IsBool := True\<rparr>) p) else (ok, p))
     }"

definition PackAddTime64Ex :: "PACK \<Rightarrow> cstr \<Rightarrow> u64 \<Rightarrow> u32 \<Rightarrow> u32 \<Rightarrow> (bool \<times> PACK) option" where
  "PackAddTime64Ex p name i index tot =
     do {
       (ok, p) \<leftarrow> PackAddInt64Ex p name i index tot;
       Some (if ok then (ok, with_element name (\<lambda>e. e\<lparr>JsonHint_IsDateTime := True\<rparr>) p) else (ok, p))
     }"

text \<open>The name of the group the next elements belong to in the JSON form.\<close>

definition PackSetCurrentJsonGroupName :: "PACK \<Rightarrow> cstr option \<Rightarrow> PACK" where
  "PackSetCurrentJsonGroupName p name =
     (case name of
        None \<Rightarrow> p\<lparr>CurrentJsonHint_GroupName := []\<rparr>
      | Some g \<Rightarrow>
          let p = p\<lparr>CurrentJsonHint_GroupName := fst (StrCpy (MAX_ELEMENT_NAME_LEN + 1) g)\<rparr>;
              l = (case json_subitem_names p of None \<Rightarrow> NewStrList | Some l \<Rightarrow> l)
          in p\<lparr>json_subitem_names := Some (snd (AddStrToStrListDistinct l g))\<rparr>)"

section \<open>IP addresses\<close>

record IP =
  addr :: "u8 list"
  ipv6_scope_id :: u32
  ipv6_addr :: "u8 list"

definition ZeroIP :: IP where
  "ZeroIP = \<lparr>addr = replicate 4 0, ipv6_scope_id = 0, ipv6_addr = replicate 16 0\<rparr>"

definition IsIP6 :: "IP \<Rightarrow> bool" where
  "IsIP6 ip \<longleftrightarrow> addr ip ! 0 = 223 \<and> addr ip ! 1 = 255 \<and> addr ip ! 2 = 255 \<and> addr ip ! 3 = 254"

definition IsIP4 :: "IP \<Rightarrow> bool" where
  "IsIP4 ip \<longleftrightarrow> \<not> IsIP6 ip"

definition SetIP6 :: "u8 list \<Rightarrow> IP" where
  "SetIP6 v = ZeroIP\<lparr>addr := [223, 255, 255, 254], ipv6_addr := v\<rparr>"

definition UINTToIP :: "bool \<Rightarrow> u32 \<Rightarrow> IP" where
  "UINTToIP le v = ZeroIP\<lparr>addr := mem32 le v\<rparr>"

definition IPToUINT :: "bool \<Rightarrow> IP \<Rightarrow> u32" where
  "IPToUINT le ip = of_mem32 le (addr ip)"

text \<open>\<open>Format\<close> with the one conversion \<open>%s\<close>, into a buffer of \<open>MAX_PATH\<close> characters.\<close>

definition ip_member :: "cstr \<Rightarrow> string \<Rightarrow> cstr" where
  "ip_member name suffix = take 259 (name @ ascii suffix)"

definition ip_hints :: "cstr \<Rightarrow> bool \<Rightarrow> bool \<times> PACK \<Rightarrow> PACK" where
  "ip_hints name is_single r =
     (let (ok, p) = r
      in if ok then with_element name (\<lambda>e. e\<lparr>JsonHint_IsArray := (if is_single then False else JsonHint_IsArray e),
                                           JsonHint_IsIP := True\<rparr>) p
         else p)"

definition PackAddIpEx2 :: "PACK \<Rightarrow> cstr \<Rightarrow> IP \<Rightarrow> u32 \<Rightarrow> u32 \<Rightarrow> bool \<Rightarrow> PACK option" where
  "PackAddIpEx2 p name ip index tot is_single =
     (let is_single = (if tot \<ge> 2 then False else is_single);
          b = IsIP6 ip;
          n1 = ip_member name ''@ipv6_bool'';
          n2 = ip_member name ''@ipv6_array'';
          n3 = ip_member name ''@ipv6_scope_id''
      in do {
        r \<leftarrow> PackAddBoolEx p n1 b index tot;
        let p = ip_hints n1 is_single r;
        r \<leftarrow> PackAddDataEx p n2
              (Some (map Some (if b then ipv6_addr ip else replicate 16 0))) 16 index tot;
        let p = ip_hints n2 is_single r;
        r \<leftarrow> PackAddIntEx p n3 (if b then ipv6_scope_id ip else 0) index tot;
        let p = ip_hints n3 is_single r;
        let i = IPToUINT host_le ip;
        let i = (if \<not> host_le then Swap32 host_le i else i);
        r \<leftarrow> PackAddIntEx p name i index tot;
        Some (ip_hints name is_single r)
      })"

definition PackAddIpEx :: "PACK \<Rightarrow> cstr \<Rightarrow> IP \<Rightarrow> u32 \<Rightarrow> u32 \<Rightarrow> PACK option" where
  "PackAddIpEx p name ip index tot = PackAddIpEx2 p name ip index tot False"

definition PackAddIp :: "PACK \<Rightarrow> cstr \<Rightarrow> IP \<Rightarrow> PACK option" where
  "PackAddIp p name ip = PackAddIpEx2 p name ip 0 1 True"

definition PackAddIp32Ex2 :: "PACK \<Rightarrow> cstr \<Rightarrow> u32 \<Rightarrow> u32 \<Rightarrow> u32 \<Rightarrow> bool \<Rightarrow> PACK option" where
  "PackAddIp32Ex2 p name ip32 index tot is_single =
     PackAddIpEx2 p name (UINTToIP host_le ip32) index tot is_single"

definition PackAddIp32 :: "PACK \<Rightarrow> cstr \<Rightarrow> u32 \<Rightarrow> PACK option" where
  "PackAddIp32 p name ip32 = PackAddIp32Ex2 p name ip32 0 1 True"

definition PackGetIpEx :: "PACK \<Rightarrow> cstr \<Rightarrow> u32 \<Rightarrow> (bool \<times> IP \<times> PACK) option" where
  "PackGetIpEx p name index =
     do {
       (b, p) \<leftarrow> PackGetBoolEx p (ip_member name ''@ipv6_bool'') index;
       if b
       then do {
         (d, p) \<leftarrow> PackGetDataEx2 p (ip_member name ''@ipv6_array'') 16 index;
         data \<leftarrow> (case d of None \<Rightarrow> Some (replicate 16 0) | Some d \<Rightarrow> cells_value d);
         (scope_id, p) \<leftarrow> PackGetIntEx p (ip_member name ''@ipv6_scope_id'') index;
         Some (True, (SetIP6 data)\<lparr>ipv6_scope_id := scope_id\<rparr>, p)
       }
       else let (e, p) = GetElement p name VALUE_INT
         in if e = None then Some (False, ZeroIP, p)
            else do {
              (i, p) \<leftarrow> PackGetIntEx p name index;
              let i = (if \<not> host_le then Swap32 host_le i else i);
              Some (True, UINTToIP host_le i, p)
            }
     }"

definition PackGetIp :: "PACK \<Rightarrow> cstr \<Rightarrow> (bool \<times> IP \<times> PACK) option" where
  "PackGetIp p name = PackGetIpEx p name 0"

definition PackGetIp32Ex :: "PACK \<Rightarrow> cstr \<Rightarrow> u32 \<Rightarrow> (u32 \<times> PACK) option" where
  "PackGetIp32Ex p name index =
     do {
       (ok, ip, p) \<leftarrow> PackGetIpEx p name index;
       Some (if ok then IPToUINT host_le ip else 0, p)
     }"

definition PackGetIp32 :: "PACK \<Rightarrow> cstr \<Rightarrow> (u32 \<times> PACK) option" where
  "PackGetIp32 p name = PackGetIp32Ex p name 0"

definition PackAddIp6AddrEx :: "PACK \<Rightarrow> cstr \<Rightarrow> u8 list \<Rightarrow> u32 \<Rightarrow> u32 \<Rightarrow> (bool \<times> PACK) option" where
  "PackAddIp6AddrEx p name a index tot = PackAddDataEx p name (Some (map Some a)) 16 index tot"

definition PackGetIp6AddrEx :: "PACK \<Rightarrow> cstr \<Rightarrow> u32 \<Rightarrow> (u8 block option \<times> PACK) option" where
  "PackGetIp6AddrEx p name index = PackGetDataEx2 p name 16 index"

section \<open>What is added is what is read\<close>

text \<open>
  \<open>pack_upd p p' key e\<close>: the pack \<open>p'\<close> differs from \<open>p\<close> at one name
  only, where it holds \<open>e\<close>.
\<close>

definition pack_upd :: "PACK \<Rightarrow> PACK \<Rightarrow> cstr \<Rightarrow> ELEMENT \<Rightarrow> bool" where
  "pack_upd p p' key e \<longleftrightarrow> pack_wf p' \<and> pack_map p' = (pack_map p)(key \<mapsto> e)"

definition holds :: "PACK \<Rightarrow> cstr \<Rightarrow> u32 \<Rightarrow> VALUE option list \<Rightarrow> bool" where
  "holds p key ty vs \<longleftrightarrow>
     (\<exists>e. pack_map p key = Some e \<and> E_type e = ty \<and> E_values e = vs \<and> unat (num_value e) = length vs)"

lemma sorted_cmp_map_name:
  "(\<And>x. E_name (f x) = E_name x) \<Longrightarrow> sorted_cmp ComparePackName (map f xs) = sorted_cmp ComparePackName xs"
  by (simp add: sorted_cmp_def sorted_wrt_map ComparePackName_def)

lemma with_element_spec:
  assumes wf: "pack_wf p" and name: "name_ok name"
    and f: "\<And>x. E_name (f x) = E_name x" "\<And>x. num_value (f x) = num_value x"
  shows "pack_wf (with_element name f p)"
    and "pack_map (with_element name f p)
      = (pack_map p)(StrUpper name := map_option f (pack_map p (StrUpper name)))"
    and "length (items (elements (with_element name f p))) = length (items (elements p))"
proof -
  let ?g = "\<lambda>x. if ComparePackName (search_key name) x = 0 then f x else x"
  let ?es = "items (elements p)"
  have g: "E_name (?g x) = E_name x" "num_value (?g x) = num_value x" for x
    using f by auto
  have d: "distinct (map (\<lambda>e. StrUpper (E_name e)) ?es)" using wf by (simp add: pack_wf_def)
  have d': "distinct (map (\<lambda>e. StrUpper (E_name e)) (map ?g ?es))"
    using d g by (simp add: comp_def if_distrib [of E_name] f)
  have cmp: "(ComparePackName (search_key name) x = 0) = (StrUpper (E_name x) = StrUpper name)"
    if "x \<in> set ?es" for x
    using that wf name
    by (auto simp: ComparePackName_def search_key_name name_ok_def StrCmpi_eq_iff pack_wf_def list_all_iff)
  show "length (items (elements (with_element name f p))) = length ?es"
    by (simp add: with_element_def)
  show "pack_wf (with_element name f p)"
    using wf d' sorted_cmp_map_name [of ?g] f
    by (auto simp: pack_wf_def with_element_def lst_ok_def list_all_iff)
  have "elem_map (map ?g ?es) k = ((elem_map ?es)(StrUpper name := map_option f (elem_map ?es (StrUpper name)))) k"
    for k
  proof (cases "elem_map ?es k")
    case None
    then have "elem_map (map ?g ?es) k = None"
      by (auto simp: elem_map_None f)
    with None show ?thesis by auto
  next
    case (Some x)
    then have x: "x \<in> set ?es" "StrUpper (E_name x) = k" using elem_map_SomeD by auto
    then have "elem_map (map ?g ?es) k = Some (?g x)"
      using elem_map_SomeI [OF d', of "?g x"] g by auto
    with Some x cmp [OF x(1)] show ?thesis by auto
  qed
  then show "pack_map (with_element name f p)
      = (pack_map p)(StrUpper name := map_option f (pack_map p (StrUpper name)))"
    by (auto simp: pack_map_def with_element_def)
qed

lemma hint_holds:
  assumes wf: "pack_wf p" and name: "name_ok name"
    and f: "\<And>x. E_name (f x) = E_name x" "\<And>x. num_value (f x) = num_value x"
      "\<And>x. E_type (f x) = E_type x" "\<And>x. E_values (f x) = E_values x"
  shows "pack_wf (with_element name f p) \<and> dom (pack_map (with_element name f p)) = dom (pack_map p)
      \<and> length (items (elements (with_element name f p))) = length (items (elements p))
      \<and> (\<forall>k ty vs. holds (with_element name f p) k ty vs = holds p k ty vs)"
  using with_element_spec [OF wf name f(1,2)] f(3,4)
  by (auto simp: holds_def f(2) split: if_splits)

text \<open>A first value under a new name.\<close>

lemma AddElement_new:
  assumes wf: "pack_wf p" and name: "name_ok name" and new: "StrUpper name \<notin> dom (pack_map p)"
    and room: "length (items (elements p)) < 262144" and n: "unat n = length vs" "vs \<noteq> []"
  shows "\<exists>p'. AddElement p (Some \<lparr>E_name = name, num_value = n, E_type = ty, E_values = vs,
      JsonHint_IsArray = False, JsonHint_IsBool = False, JsonHint_IsDateTime = False,
      JsonHint_IsIP = False, JsonHint_GroupName = []\<rparr>) = (True, p') \<and> pack_wf p'
      \<and> length (items (elements p')) = Suc (length (items (elements p)))
      \<and> holds p' (StrUpper name) ty vs \<and> dom (pack_map p') = insert (StrUpper name) (dom (pack_map p))
      \<and> (\<forall>k ty' ws. k \<noteq> StrUpper name \<longrightarrow> holds p' k ty' ws = holds p k ty' ws)"
proof -
  let ?e = "\<lparr>E_name = name, num_value = n, E_type = ty, E_values = vs,
      JsonHint_IsArray = False, JsonHint_IsBool = False, JsonHint_IsDateTime = False,
      JsonHint_IsIP = False, JsonHint_GroupName = []\<rparr>"
  obtain ok p' where a: "AddElement p (Some ?e) = (ok, p')" by fastforce
  have nm: "name_ok (E_name ?e)" using name by simp
  note sp = AddElement_spec [OF wf nm a]
  have "n \<noteq> 0" using n by auto
  then have ok: ok using sp(1) new room by (auto simp: domIff)
  have "length (items (elements p')) = Suc (length (items (elements p)))"
    using sp(5) ok by (metis size_add_mset size_mset)
  with a ok sp n show ?thesis by (auto simp: holds_def)
qed

lemma pack_add_ex_new:
  assumes wf: "pack_wf p" and name: "name_ok name" and new: "StrUpper name \<notin> dom (pack_map p)"
    and room: "length (items (elements p)) < 262144"
  shows "\<exists>p'. pack_add_ex p name ty v 0 1 = Some (True, p') \<and> pack_wf p'
      \<and> length (items (elements p')) = Suc (length (items (elements p)))
      \<and> holds p' (StrUpper name) ty [v] \<and> dom (pack_map p') = insert (StrUpper name) (dom (pack_map p))
      \<and> (\<forall>k ty' ws. k \<noteq> StrUpper name \<longrightarrow> holds p' k ty' ws = holds p k ty' ws)"
proof -
  obtain x q where g: "GetElement p name ty = (x, q)" by fastforce
  note sp = GetElement_spec [OF wf name g]
  have x: "x = None" using sp(1) new by (auto simp: domIff split: option.splits)
  have len: "length (items (elements q)) = length (items (elements p))"
    using sp(4) mset_eq_length by blast
  have hq: "holds q k ty' ws = holds p k ty' ws" for k ty' ws
    using sp(3) by (simp add: holds_def)
  have nm: "fst (StrCpy (MAX_ELEMENT_NAME_LEN + 1) name) = name"
    using name by (simp add: name_ok_def StrCpy_name)
  have m: "MallocPtrs 1 = Some [None :: VALUE option]" by (simp add: MallocPtrs_ok)
  obtain p1 where p1: "AddElement q (Some \<lparr>E_name = name, num_value = 1, E_type = ty, E_values = [v],
      JsonHint_IsArray = False, JsonHint_IsBool = False, JsonHint_IsDateTime = False,
      JsonHint_IsIP = False, JsonHint_GroupName = []\<rparr>) = (True, p1)" "pack_wf p1"
      "length (items (elements p1)) = Suc (length (items (elements q)))"
      "holds p1 (StrUpper name) ty [v]" "dom (pack_map p1) = insert (StrUpper name) (dom (pack_map q))"
      "\<forall>k ty' ws. k \<noteq> StrUpper name \<longrightarrow> holds p1 k ty' ws = holds q k ty' ws"
    using AddElement_new [OF sp(2) name, of 1 "[v]" ty] new room sp(3) len by auto
  have "pack_add_ex p name ty v 0 1 = Some (True, with_element name (\<lambda>x. x\<lparr>JsonHint_IsArray := True\<rparr>) p1)"
    using g x nm m p1(1) by (simp add: pack_add_ex_def Let_def cell_set_def)
  moreover note hint_holds [OF p1(2) name, of "\<lambda>x. x\<lparr>JsonHint_IsArray := True\<rparr>"]
  ultimately show ?thesis
    using p1 len hq sp(3) by simp
qed

lemma GetElement_holds:
  assumes wf: "pack_wf p" and name: "name_ok name" and h: "holds p (StrUpper name) ty vs"
  shows "\<exists>e p'. GetElement p name ty = (Some e, p') \<and> pack_wf p' \<and> pack_map p' = pack_map p
      \<and> E_values e = vs \<and> unat (num_value e) = length vs"
proof -
  obtain x q where g: "GetElement p name ty = (x, q)" by fastforce
  note sp = GetElement_spec [OF wf name g]
  from h sp g show ?thesis by (auto simp: holds_def)
qed

lemma element_value_holds:
  "unat (num_value e) = length (E_values e) \<Longrightarrow> unat i < length (E_values e) \<Longrightarrow>
   element_value (Some e) i = E_values e ! unat i"
  by (simp add: element_value_def unat_order)

lemma PackGetIntEx_holds:
  assumes "pack_wf p" and "name_ok name" and "holds p (StrUpper name) VALUE_INT [Some (NewIntValue i)]"
  shows "\<exists>p'. PackGetIntEx p name 0 = Some (i, p') \<and> pack_wf p' \<and> pack_map p' = pack_map p"
  using GetElement_holds [OF assms]
  by (auto simp: PackGetIntEx_def GetIntValue_def element_value_holds NewIntValue_def)

lemma PackGetDataEx2_holds:
  assumes "pack_wf p" and "name_ok name"
    and "holds p (StrUpper name) VALUE_DATA [Some (new_value\<lparr>V_Size := n, Data := Some d\<rparr>)]"
    and "length d = unat n"
  shows "\<exists>p'. PackGetDataEx2 p name n 0 = Some (Some d, p') \<and> pack_wf p' \<and> pack_map p' = pack_map p"
  using GetElement_holds [OF assms(1-3)] assms(4)
  by (auto simp: PackGetDataEx2_def GetDataValueSize_def GetDataValue_def copy_data_def
      element_value_holds mem_read_ok)

section \<open>IP addresses come back\<close>

text \<open>
  The four elements an address is stored in. \<open>ip_ok\<close> excludes what no function of the
  program makes: an IPv4 address with something in the IPv6 members.
\<close>

definition ip_ok :: "IP \<Rightarrow> bool" where
  "ip_ok ip \<longleftrightarrow> length (addr ip) = 4 \<and> length (ipv6_addr ip) = 16
     \<and> (\<not> IsIP6 ip \<longrightarrow> ipv6_addr ip = replicate 16 0 \<and> ipv6_scope_id ip = 0)"

definition ip_names :: "cstr \<Rightarrow> cstr list" where
  "ip_names name = [name @ ascii ''@ipv6_bool'', name @ ascii ''@ipv6_array'',
     name @ ascii ''@ipv6_scope_id'', name]"

lemma ascii_simps:
  "length (ascii s) = length s" "is_cstr (ascii ''@ipv6_bool'')" "is_cstr (ascii ''@ipv6_array'')"
  "is_cstr (ascii ''@ipv6_scope_id'')"
  by (simp_all add: ascii_def is_cstr_def)

lemma upper_suffixes:
  "distinct (map StrUpper [ascii ''@ipv6_bool'', ascii ''@ipv6_array'', ascii ''@ipv6_scope_id'', []])"
  by code_simp

lemma ip_names_ok:
  assumes "is_cstr name" and "length name \<le> 49"
  shows "list_all name_ok (ip_names name)" and "distinct (map StrUpper (ip_names name))"
    and "ip_member name ''@ipv6_bool'' = ip_names name ! 0"
    and "ip_member name ''@ipv6_array'' = ip_names name ! 1"
    and "ip_member name ''@ipv6_scope_id'' = ip_names name ! 2" and "name = ip_names name ! 3"
proof -
  show "list_all name_ok (ip_names name)"
    using assms by (simp add: ip_names_def name_ok_def ascii_simps)
  define l where
    "l = map StrUpper [ascii ''@ipv6_bool'', ascii ''@ipv6_array'', ascii ''@ipv6_scope_id'', []]"
  have "map StrUpper (ip_names name) = map ((@) (StrUpper name)) l"
    by (simp add: l_def ip_names_def StrUpper_def)
  moreover have "distinct (map ((@) (StrUpper name)) l)"
    using upper_suffixes [folded l_def] by (simp add: distinct_map inj_on_def)
  ultimately show "distinct (map StrUpper (ip_names name))" by simp
  show "ip_member name ''@ipv6_bool'' = ip_names name ! 0"
    "ip_member name ''@ipv6_array'' = ip_names name ! 1"
    "ip_member name ''@ipv6_scope_id'' = ip_names name ! 2" "name = ip_names name ! 3"
    using assms by (simp_all add: ip_member_def ip_names_def ascii_simps)
qed

text \<open>One member is added and its hints are set.\<close>

definition member_step :: "PACK \<Rightarrow> PACK \<Rightarrow> cstr \<Rightarrow> u32 \<Rightarrow> VALUE option \<Rightarrow> bool" where
  "member_step p p' name ty v \<longleftrightarrow>
     pack_wf p' \<and> length (items (elements p')) = Suc (length (items (elements p))) \<and>
     holds p' (StrUpper name) ty [v] \<and> dom (pack_map p') = insert (StrUpper name) (dom (pack_map p)) \<and>
     (\<forall>k ty' ws. k \<noteq> StrUpper name \<longrightarrow> holds p' k ty' ws = holds p k ty' ws)"

lemma ip_hints_step:
  assumes "name_ok name" and "member_step p q name ty v"
  shows "member_step p (ip_hints name single (True, q)) name ty v"
  using hint_holds [of q name "\<lambda>e. e\<lparr>JsonHint_IsArray := (if single then False else JsonHint_IsArray e),
      JsonHint_IsIP := True\<rparr>"] assms
  by (simp add: ip_hints_def member_step_def)

lemma add_member:
  assumes "pack_wf p" and "name_ok name" and "StrUpper name \<notin> dom (pack_map p)"
    and "length (items (elements p)) < 262144"
  shows "\<exists>q. pack_add_ex p name ty v 0 1 = Some (True, q) \<and> member_step p q name ty v"
  using pack_add_ex_new [OF assms, of ty v] by (auto simp: member_step_def)

lemma PackAddBoolEx_member:
  assumes "pack_wf p" and "name_ok name" and "StrUpper name \<notin> dom (pack_map p)"
    and "length (items (elements p)) < 262144"
  shows "\<exists>q. PackAddBoolEx p name b 0 1 = Some (True, q)
      \<and> member_step p q name VALUE_INT (Some (NewIntValue (if b then 1 else 0)))"
proof -
  obtain q where q: "pack_add_ex p name VALUE_INT (Some (NewIntValue (if b then 1 else 0))) 0 1 = Some (True, q)"
    "member_step p q name VALUE_INT (Some (NewIntValue (if b then 1 else 0)))"
    using add_member [OF assms] by blast
  then show ?thesis
    using hint_holds [of q name "\<lambda>e. e\<lparr>JsonHint_IsBool := True\<rparr>"] assms(2)
    by (simp add: PackAddBoolEx_def PackAddIntEx_def member_step_def)
qed

lemma one_element: "(2 \<le> (1 :: u32)) = False"
  by (simp add: unat_order)

lemma if_not_swap: "(if \<not> c then a else b) = (if c then b else a)"
  by simp

lemma PackAddIp_members:
  assumes wf: "pack_wf p" and name: "is_cstr name" "length name \<le> 49"
    and new: "\<forall>n \<in> set (ip_names name). StrUpper n \<notin> dom (pack_map p)"
    and room: "length (items (elements p)) + 4 \<le> 262144" and ip: "ip_ok ip"
  shows "\<exists>p'. PackAddIp p name ip = Some p' \<and> pack_wf p'
      \<and> holds p' (StrUpper (ip_names name ! 0)) VALUE_INT [Some (NewIntValue (if IsIP6 ip then 1 else 0))]
      \<and> holds p' (StrUpper (ip_names name ! 1)) VALUE_DATA
          [Some (new_value\<lparr>V_Size := 16, Data := Some (map Some (ipv6_addr ip))\<rparr>)]
      \<and> holds p' (StrUpper (ip_names name ! 2)) VALUE_INT [Some (NewIntValue (ipv6_scope_id ip))]
      \<and> holds p' (StrUpper name) VALUE_INT
          [Some (NewIntValue (if host_le then IPToUINT host_le ip else Swap32 host_le (IPToUINT host_le ip)))]"
proof -
  note nm = ip_names_ok [OF name]
  let ?n = "\<lambda>i. ip_names name ! i"
  have ok: "name_ok (?n 0)" "name_ok (?n 1)" "name_ok (?n 2)" "name_ok name"
    using nm(1) by (simp_all add: ip_names_def)
  have ne: "StrUpper (?n 0) \<noteq> StrUpper (?n 1)" "StrUpper (?n 0) \<noteq> StrUpper (?n 2)"
    "StrUpper (?n 0) \<noteq> StrUpper name" "StrUpper (?n 1) \<noteq> StrUpper (?n 2)"
    "StrUpper (?n 1) \<noteq> StrUpper name" "StrUpper (?n 2) \<noteq> StrUpper name"
    using nm(2) by (simp_all add: ip_names_def)
  have fresh: "StrUpper (?n 0) \<notin> dom (pack_map p)" "StrUpper (?n 1) \<notin> dom (pack_map p)"
    "StrUpper (?n 2) \<notin> dom (pack_map p)" "StrUpper name \<notin> dom (pack_map p)"
    using new by (simp_all add: ip_names_def)
  have data: "(if IsIP6 ip then ipv6_addr ip else replicate 16 0) = ipv6_addr ip"
    "(if IsIP6 ip then ipv6_scope_id ip else 0) = ipv6_scope_id ip"
    using ip by (auto simp: ip_ok_def)
  let ?h = "\<lambda>n q. ip_hints n True (True, q)"
  obtain q1 where q1: "PackAddBoolEx p (?n 0) (IsIP6 ip) 0 1 = Some (True, q1)"
    "member_step p q1 (?n 0) VALUE_INT (Some (NewIntValue (if IsIP6 ip then 1 else 0)))"
    using PackAddBoolEx_member [OF wf ok(1) fresh(1)] room by auto
  note h1 = ip_hints_step [OF ok(1) q1(2), of True]
  have w1: "pack_wf (?h (?n 0) q1)" "StrUpper (?n 1) \<notin> dom (pack_map (?h (?n 0) q1))"
    "length (items (elements (?h (?n 0) q1))) < 262144"
    using h1 fresh ne room by (auto simp: member_step_def)
  have nd: "NewDataValue (Some (map Some (ipv6_addr ip))) 16
      = Some (Some (new_value\<lparr>V_Size := 16, Data := Some (map Some (ipv6_addr ip))\<rparr>))"
    using ip by (intro NewDataValue_ok) (simp_all add: ip_ok_def)
  obtain q2 where q2: "PackAddDataEx (?h (?n 0) q1) (?n 1) (Some (map Some (ipv6_addr ip))) 16 0 1 = Some (True, q2)"
    "member_step (?h (?n 0) q1) q2 (?n 1) VALUE_DATA (Some (new_value\<lparr>V_Size := 16, Data := Some (map Some (ipv6_addr ip))\<rparr>))"
    using add_member [OF w1(1) ok(2) w1(2,3)] nd by (fastforce simp: PackAddDataEx_def)
  note h2 = ip_hints_step [OF ok(2) q2(2), of True]
  have w2: "pack_wf (?h (?n 1) q2)" "StrUpper (?n 2) \<notin> dom (pack_map (?h (?n 1) q2))"
    "length (items (elements (?h (?n 1) q2))) < 262144"
    using h1 h2 fresh ne room by (auto simp: member_step_def)
  obtain q3 where q3: "PackAddIntEx (?h (?n 1) q2) (?n 2) (ipv6_scope_id ip) 0 1 = Some (True, q3)"
    "member_step (?h (?n 1) q2) q3 (?n 2) VALUE_INT (Some (NewIntValue (ipv6_scope_id ip)))"
    using add_member [OF w2(1) ok(3) w2(2,3)] by (fastforce simp: PackAddIntEx_def)
  note h3 = ip_hints_step [OF ok(3) q3(2), of True]
  have w3: "pack_wf (?h (?n 2) q3)" "StrUpper name \<notin> dom (pack_map (?h (?n 2) q3))"
    "length (items (elements (?h (?n 2) q3))) < 262144"
    using h1 h2 h3 fresh ne room by (auto simp: member_step_def)
  let ?i = "if host_le then IPToUINT host_le ip else Swap32 host_le (IPToUINT host_le ip)"
  obtain q4 where q4: "PackAddIntEx (?h (?n 2) q3) name ?i 0 1 = Some (True, q4)"
    "member_step (?h (?n 2) q3) q4 name VALUE_INT (Some (NewIntValue ?i))"
    using add_member [OF w3(1) ok(4) w3(2,3)] by (fastforce simp: PackAddIntEx_def)
  note h4 = ip_hints_step [OF ok(4) q4(2), of True]
  have "PackAddIp p name ip = Some (?h name q4)"
    using q1(1) q2(1) q3(1) q4(1)
    by (simp add: PackAddIp_def PackAddIpEx2_def Let_def nm(3-5) data one_element if_not_swap
        split del: if_split)
  moreover have "pack_wf (?h name q4)" using h4 by (simp add: member_step_def)
  ultimately show ?thesis
    using h1 h2 h3 h4 ne by (auto simp: member_step_def)
qed

lemma IP_swap:
  "length (addr ip) = 4 \<Longrightarrow>
   UINTToIP le (if \<not> le then Swap32 le (if le then IPToUINT le ip else Swap32 le (IPToUINT le ip))
     else (if le then IPToUINT le ip else Swap32 le (IPToUINT le ip)))
   = ZeroIP\<lparr>addr := addr ip\<rparr>"
proof -
  assume l: "length (addr ip) = 4"
  have "mem32 le (Swap32 le (Swap32 le (IPToUINT le ip))) = mem32 le (IPToUINT le ip)"
    by (simp add: mem_Swap)
  with l show ?thesis by (cases le) (simp_all add: UINTToIP_def IPToUINT_def mem_of_mem)
qed

lemma PackGetIp_members:
  assumes wf: "pack_wf p" and name: "is_cstr name" "length name \<le> 49" and ip: "ip_ok ip"
    and h0: "holds p (StrUpper (ip_names name ! 0)) VALUE_INT [Some (NewIntValue (if IsIP6 ip then 1 else 0))]"
    and h1: "holds p (StrUpper (ip_names name ! 1)) VALUE_DATA
          [Some (new_value\<lparr>V_Size := 16, Data := Some (map Some (ipv6_addr ip))\<rparr>)]"
    and h2: "holds p (StrUpper (ip_names name ! 2)) VALUE_INT [Some (NewIntValue (ipv6_scope_id ip))]"
    and h3: "holds p (StrUpper name) VALUE_INT
          [Some (NewIntValue (if host_le then IPToUINT host_le ip else Swap32 host_le (IPToUINT host_le ip)))]"
  shows "\<exists>p'. PackGetIp p name = Some (True, ip, p') \<and> pack_wf p' \<and> pack_map p' = pack_map p"
proof -
  note nm = ip_names_ok [OF name]
  have ok: "name_ok (ip_names name ! 0)" "name_ok (ip_names name ! 1)" "name_ok (ip_names name ! 2)" "name_ok name"
    using nm(1) by (simp_all add: ip_names_def)
  obtain p1 where p1: "PackGetIntEx p (ip_names name ! 0) 0 = Some (if IsIP6 ip then 1 else 0, p1)"
    "pack_wf p1" "pack_map p1 = pack_map p"
    using PackGetIntEx_holds [OF wf ok(1) h0] by blast
  have hp1: "holds p1 k ty vs = holds p k ty vs" for k ty vs
    using p1(3) by (simp add: holds_def)
  show ?thesis
  proof (cases "IsIP6 ip")
    case True
    obtain p2 where p2: "PackGetDataEx2 p1 (ip_names name ! 1) 16 0 = Some (Some (map Some (ipv6_addr ip)), p2)"
      "pack_wf p2" "pack_map p2 = pack_map p1"
      using PackGetDataEx2_holds [OF p1(2) ok(2)] h1 hp1 ip by (fastforce simp: ip_ok_def)
    have hp2: "holds p2 k ty vs = holds p k ty vs" for k ty vs
      using p2(3) hp1 by (simp add: holds_def)
    obtain p3 where p3: "PackGetIntEx p2 (ip_names name ! 2) 0 = Some (ipv6_scope_id ip, p3)"
      "pack_wf p3" "pack_map p3 = pack_map p2"
      using PackGetIntEx_holds [OF p2(2) ok(3)] h2 hp2 by blast
    have "addr ip = [223, 255, 255, 254]"
      using True ip by (auto simp: IsIP6_def ip_ok_def eval_nat_numeral length_Suc_conv)
    then have "(SetIP6 (ipv6_addr ip))\<lparr>ipv6_scope_id := ipv6_scope_id ip\<rparr> = ip"
      by (simp add: SetIP6_def ZeroIP_def)
    with p1 p2 p3 True show ?thesis
      by (simp add: PackGetIp_def PackGetIpEx_def PackGetBoolEx_def nm(3-5))
  next
    case False
    obtain e p2 where p2: "GetElement p1 name VALUE_INT = (Some e, p2)" "pack_wf p2" "pack_map p2 = pack_map p1"
      using GetElement_holds [OF p1(2) ok(4)] h3 hp1 by blast
    have hp2: "holds p2 k ty vs = holds p k ty vs" for k ty vs
      using p2(3) hp1 by (simp add: holds_def)
    let ?i = "if host_le then IPToUINT host_le ip else Swap32 host_le (IPToUINT host_le ip)"
    obtain p3 where p3: "PackGetIntEx p2 name 0 = Some (?i, p3)" "pack_wf p3" "pack_map p3 = pack_map p2"
      using PackGetIntEx_holds [OF p2(2) ok(4)] h3 hp2 by blast
    have "ZeroIP\<lparr>addr := addr ip\<rparr> = ip"
      using ip False by (simp add: ip_ok_def ZeroIP_def)
    then have "UINTToIP host_le (if \<not> host_le then Swap32 host_le ?i else ?i) = ip"
      using IP_swap [of ip host_le] ip by (simp add: ip_ok_def split del: if_split)
    with p1 p2 p3 False show ?thesis
      by (simp add: PackGetIp_def PackGetIpEx_def PackGetBoolEx_def nm(3-5) Let_def split del: if_split)
  qed
qed

text \<open>The single-valued functions.\<close>

lemma PackAddInt_holds:
  assumes "pack_wf p" and "name_ok name" and "StrUpper name \<notin> dom (pack_map p)"
    and "length (items (elements p)) < 262144"
  shows "\<exists>q. PackAddInt p name i = (True, q) \<and> member_step p q name VALUE_INT (Some (NewIntValue i))"
  using AddElement_new [OF assms, of 1 "[Some (NewIntValue i)]" VALUE_INT] assms(2)
  by (auto simp: PackAddInt_def NewElement_ok name_ok_def member_step_def)

lemma PackAddStr_holds:
  assumes "pack_wf p" and "name_ok name" and "StrUpper name \<notin> dom (pack_map p)"
    and "length (items (elements p)) < 262144"
  shows "\<exists>q. PackAddStr p name (Some s) = (True, q) \<and> member_step p q name VALUE_STR (NewStrValue (Some s))"
  using AddElement_new [OF assms, of 1 "[NewStrValue (Some s)]" VALUE_STR] assms(2)
  by (auto simp: PackAddStr_def NewElement_ok name_ok_def member_step_def)

lemma PackGetStr_holds:
  assumes wf: "pack_wf p" and name: "name_ok name"
    and h: "holds p (StrUpper name) VALUE_STR [NewStrValue (Some s)]"
    and s: "length s < 0x7FFFFFFE" and sz: "sz \<noteq> 0" "unat sz < 0x7FFFFFFF"
  shows "\<exists>p'. PackGetStr p name sz = Some (True, Some (take (unat sz - 1) (Trim s)), p')
      \<and> pack_wf p' \<and> pack_map p' = pack_map p"
proof -
  obtain e p' where g: "GetElement p name VALUE_STR = (Some e, p')" "pack_wf p'" "pack_map p' = pack_map p"
    "E_values e = [NewStrValue (Some s)]" "unat (num_value e) = length [NewStrValue (Some s)]"
    using GetElement_holds [OF wf name h] by blast
  have n: "unat (StrLen s + 1) = length s + 1" using s by (simp add: StrLen_def nowrap)
  then have "StrLen s + 1 \<noteq> 0" by auto
  then have "fst (StrCpy (StrLen s + 1) s) = s"
    using StrCpy_result [of "StrLen s + 1" s] n s by simp
  moreover have "fst (StrCpy sz (Trim s)) = take (unat sz - 1) (Trim s)"
    using StrCpy_result [OF sz, of "Trim s"] length_Trim [of s] s by simp
  ultimately show ?thesis
    using g sz(1)
    by (simp add: PackGetStr_def PackGetStrEx_def GetStrValue_def element_value_holds NewStrValue_def Let_def)
qed

end
