(* ===== verification/PackTransfer.thy ===== *)
theory PackTransfer
  imports PackApi
begin

text \<open>
  A pack travels between the two ends of a connection as the contents of a buffer: what one end
  puts in with the accessors is what the other end gets out. This theory puts together the codec
  of \<open>Pack\<close>, the accessors of \<open>PackApi\<close> and the buffers.
\<close>

lemma elem_map_map:
  assumes "\<And>e. E_name (f e) = E_name e"
  shows "elem_map (map f es) k = map_option f (elem_map es k)"
  by (induction es) (auto simp: elem_map_def assms)

lemma reread_name [simp]: "E_name (reread_element e) = E_name e"
  by (simp add: reread_element_def)

text \<open>Writing a pack and reading the bytes back.\<close>

lemma pack_transfer:
  assumes ok: "pack_ok p" and room: "length (enc_pack p) \<le> BUF_MAX"
  shows "\<exists>b b' q. PackToBuf p = Some b \<and> contents b = enc_pack p
      \<and> BufToPack (SeekBufToBegin b) = Some (Some q, b') \<and> pack_wf q
      \<and> mset (items (elements q)) = image_mset reread_element (mset (items (elements p)))
      \<and> (\<forall>k. pack_map q k = map_option reread_element (pack_map p k))"
proof -
  obtain b0 where b0: "NewBuf = Some b0" "writing b0 []" using NewBuf_writing by auto
  obtain b where b: "WritePack b0 p = Some b" "writing b (enc_pack p)"
    using WritePack_enc [OF ok b0(2)] room by auto
  have "reading (SeekBufToBegin b) (enc_pack p @ [])" using SeekBufToBegin_reading [OF b(2)] by simp
  then obtain b' q where q: "ReadPack (SeekBufToBegin b) NewPack = Some (True, b', q)" "pack_wf q"
    "mset (items (elements q)) = image_mset reread_element (mset (items (elements p)))"
    using ReadPack_enc [OF ok] by blast
  have "mset (items (elements q)) = mset (map reread_element (items (elements p)))" using q(3) by simp
  moreover have "distinct (map (\<lambda>e. StrUpper (E_name e)) (items (elements q)))"
    using q(2) by (simp add: pack_wf_def)
  ultimately have "pack_map q = elem_map (map reread_element (items (elements p)))"
    unfolding pack_map_def by (rule elem_map_perm)
  then have "pack_map q k = map_option reread_element (pack_map p k)" for k
    by (simp add: elem_map_map pack_map_def)
  moreover have "PackToBuf p = Some b" unfolding PackToBuf_def b0(1) by (simp add: b(1))
  moreover have "contents b = enc_pack p" using b(2) by (simp add: writing_def)
  moreover have "BufToPack (SeekBufToBegin b) = Some (Some q, b')" using q(1) by (simp add: BufToPack_def)
  ultimately show ?thesis using q(2,3) by blast
qed

text \<open>One more element in a pack that can be transferred.\<close>

lemma pack_ok_add:
  assumes ok: "pack_ok p" and wf: "pack_wf q" and e: "element_ok e"
    and m: "mset (items (elements q)) = add_mset e (mset (items (elements p)))"
  shows "pack_ok q" and "length (enc_pack q) = length (enc_pack p) + length (enc_element e)"
proof -
  have "set (items (elements q)) = insert e (set (items (elements p)))"
    using m by (metis set_mset_add_mset_insert set_mset_mset)
  then show "pack_ok q" using ok wf e by (auto simp: pack_ok_def list_all_iff)
  have len: "length (enc_pack x) = 4 + sum_mset (image_mset (\<lambda>e. length (enc_element e)) (mset (items (elements x))))" for x
    by (simp add: enc_pack_def length_concat comp_def sum_mset_sum_list flip: mset_map)
  show "length (enc_pack q) = length (enc_pack p) + length (enc_element e)"
    unfolding len m by simp
qed

text \<open>An integer that is added to a pack arrives.\<close>

lemma transfer_int:
  assumes ok: "pack_ok p" and name: "name_ok name" and new: "StrUpper name \<notin> dom (pack_map p)"
    and count: "length (items (elements p)) < 262144"
    and room: "length (enc_pack p) + length name + 16 \<le> BUF_MAX"
  shows "\<exists>p' b b' q q'. PackAddInt p name i = (True, p') \<and> PackToBuf p' = Some b
      \<and> BufToPack (SeekBufToBegin b) = Some (Some q, b') \<and> PackGetInt q name = Some (i, q')
      \<and> (\<forall>k. k \<noteq> StrUpper name \<longrightarrow> pack_map q k = map_option reread_element (pack_map p k))"
proof -
  let ?e = "\<lparr>E_name = name, num_value = 1, E_type = VALUE_INT, E_values = [Some (NewIntValue i)],
      JsonHint_IsArray = False, JsonHint_IsBool = False, JsonHint_IsDateTime = False,
      JsonHint_IsIP = False, JsonHint_GroupName = []\<rparr>"
  have nm: "length name \<le> 63" using name by (simp add: name_ok_def)
  have wf: "pack_wf p" using ok by (simp add: pack_ok_def)
  obtain p' where a: "AddElement p (Some ?e) = (True, p')"
    using AddElement_spec(1) [OF wf, of ?e] name new count
    by (cases "AddElement p (Some ?e)") (auto simp: domIff)
  have nm': "name_ok (E_name ?e)" using name by simp
  note s = AddElement_spec [OF wf nm' a]
  let ?e' = "?e\<lparr>JsonHint_GroupName := fst (StrCpy 64 (CurrentJsonHint_GroupName p))\<rparr>"
  have add: "PackAddInt p name i = (True, p')"
    using a NewElement_ok [OF nm, of 1 "[Some (NewIntValue i)]" VALUE_INT] by (simp add: PackAddInt_def)
  have e: "element_ok ?e'" "length (enc_element ?e') = length name + 16"
    using name by (simp_all add: element_ok_def name_ok_def value_ok_def NewIntValue_def enc_element_def enc_value_def)
  have m: "mset (items (elements p')) = add_mset ?e' (mset (items (elements p)))" using s(5) by simp
  have ok': "pack_ok p'" "length (enc_pack p') = length (enc_pack p) + (length name + 16)"
    using pack_ok_add [OF ok s(2) e(1) m] e(2) by simp_all
  have "length (enc_pack p') \<le> BUF_MAX" using ok'(2) room by simp
  from pack_transfer [OF ok'(1) this] obtain b b' q where q: "PackToBuf p' = Some b"
    "BufToPack (SeekBufToBegin b) = Some (Some q, b')" "pack_wf q"
    "\<forall>k. pack_map q k = map_option reread_element (pack_map p' k)" by blast
  have map: "pack_map p' = (pack_map p)(StrUpper name \<mapsto> ?e')" using s(4) by simp
  have "holds q (StrUpper name) VALUE_INT [Some (NewIntValue i)]"
    using q(4) map by (simp add: holds_def reread_element_def reread_value_def NewIntValue_def)
  then obtain q' where "PackGetInt q name = Some (i, q')"
    using PackGetIntEx_holds [OF q(3) name] by (auto simp: PackGetInt_def)
  then show ?thesis using add q map by auto
qed

end
