(* ===== verification/Dhcp.thy ===== *)
theory Dhcp
  imports PackApi
begin

text \<open>
  DHCP options and classless routes, from src/src/Mayaqua/TcpIp.c: the list of options of a
  message written to a buffer and read back, the routes of RFC 3442 inside an option, and the
  option list that the DHCP server fills and the client reads. The addresses are those of
  theory PackApi; the subnet mask functions are from src/src/Mayaqua/Network.c. A call that
  ends the program, and an access outside a block, give \<^const>\<open>None\<close>.
\<close>

section \<open>Options\<close>

record DHCP_OPTION =
  Opt_Id :: u32
  Opt_Size :: u32
  Opt_Data :: "u8 list"

abbreviation DHCP_ID_MESSAGE_TYPE :: u32 where "DHCP_ID_MESSAGE_TYPE \<equiv> 0x35"
abbreviation DHCP_ID_REQUEST_IP_ADDRESS :: u32 where "DHCP_ID_REQUEST_IP_ADDRESS \<equiv> 0x32"
abbreviation DHCP_ID_HOST_NAME :: u32 where "DHCP_ID_HOST_NAME \<equiv> 0x0c"
abbreviation DHCP_ID_SERVER_ADDRESS :: u32 where "DHCP_ID_SERVER_ADDRESS \<equiv> 0x36"
abbreviation DHCP_ID_LEASE_TIME :: u32 where "DHCP_ID_LEASE_TIME \<equiv> 0x33"
abbreviation DHCP_ID_DOMAIN_NAME :: u32 where "DHCP_ID_DOMAIN_NAME \<equiv> 0x0f"
abbreviation DHCP_ID_SUBNET_MASK :: u32 where "DHCP_ID_SUBNET_MASK \<equiv> 0x01"
abbreviation DHCP_ID_GATEWAY_ADDR :: u32 where "DHCP_ID_GATEWAY_ADDR \<equiv> 0x03"
abbreviation DHCP_ID_DNS_ADDR :: u32 where "DHCP_ID_DNS_ADDR \<equiv> 0x06"
abbreviation DHCP_ID_WINS_ADDR :: u32 where "DHCP_ID_WINS_ADDR \<equiv> 0x2C"
abbreviation DHCP_ID_CLASSLESS_ROUTE :: u32 where "DHCP_ID_CLASSLESS_ROUTE \<equiv> 0x79"
abbreviation DHCP_ID_MS_CLASSLESS_ROUTE :: u32 where "DHCP_ID_MS_CLASSLESS_ROUTE \<equiv> 0xF9"
abbreviation DHCP_ID_PRIVATE :: u8 where "DHCP_ID_PRIVATE \<equiv> 0xFA"

abbreviation DHCP_DISCOVER :: u32 where "DHCP_DISCOVER \<equiv> 1"
abbreviation DHCP_REQUEST :: u32 where "DHCP_REQUEST \<equiv> 3"
abbreviation DHCP_OFFER :: u32 where "DHCP_OFFER \<equiv> 2"
abbreviation DHCP_ACK :: u32 where "DHCP_ACK \<equiv> 5"

text \<open>The data of every caller is not null.\<close>

definition NewDhcpOption :: "u32 \<Rightarrow> u8 list \<Rightarrow> u32 \<Rightarrow> DHCP_OPTION option" where
  "NewDhcpOption i data sz =
     do {
       d \<leftarrow> mem_bytes data 0 (unat sz);
       Some \<lparr>Opt_Id = i, Opt_Size = sz, Opt_Data = d\<rparr>
     }"

text \<open>One piece of an option: its identifier, its size as a byte, and the bytes from a position.\<close>

definition write_piece :: "BUF \<Rightarrow> u8 \<Rightarrow> u8 \<Rightarrow> u8 list \<Rightarrow> BUF option" where
  "write_piece b i sz data =
     do {
       b \<leftarrow> WriteBuf b [Some i] 1;
       b \<leftarrow> WriteBuf b [Some sz] 1;
       WriteBuf b (map Some data) (ucast sz)
     }"

definition piece_size :: "u32 \<Rightarrow> u8" where
  "piece_size n = (if n \<le> 255 then ucast n else 0xFF)"

lemma piece_size_bound: "n \<noteq> 0 \<Longrightarrow> 0 < unat (piece_size n) \<and> unat (piece_size n) \<le> unat n"
proof -
  assume "n \<noteq> 0"
  then have n: "0 < unat n" by (simp add: unat_gt_0)
  show ?thesis
  proof (cases "n \<le> 255")
    case True
    then have "unat n < 256" by (simp add: unat_order)
    then have "unat (ucast n :: u8) = unat n"
      by (simp add: unsigned_ucast_eq take_bit_nat_eq_self)
    with True n show ?thesis by (simp add: piece_size_def)
  next
    case False
    then show ?thesis by (simp add: piece_size_def unat_order)
  qed
qed

lemma unat_ucast_8_32 [simp]: "unat (ucast (x :: u8) :: u32) = unat x"
  by (simp add: unsigned_ucast_eq take_bit_nat_eq_self order.strict_trans [OF unsigned_less])

function write_pieces :: "BUF \<Rightarrow> u8 list \<Rightarrow> u32 \<Rightarrow> u32 \<Rightarrow> BUF option" where
  "write_pieces b data current_size current_pos =
     (if current_size = 0 then Some b
      else let sz = piece_size current_size
        in do {
          b \<leftarrow> write_piece b DHCP_ID_PRIVATE sz (drop (unat current_pos) data);
          write_pieces b data (current_size - ucast sz) (current_pos + ucast sz)
        })"
  by pat_completeness auto

termination
proof (relation "measure (\<lambda>(b, d, n, p). unat n)")
  fix b data n p sz
  assume n: "n \<noteq> 0" and sz: "sz = piece_size n"
  show "((b, data, n - ucast sz, p + ucast sz), b', data, n, p') \<in> measure (\<lambda>(b, d, n, p). unat n)" for b b' p p'
    using piece_size_bound [OF n] sz by (simp add: nowrap)
qed auto

declare write_pieces.simps [simp del]

definition write_option :: "BUF \<Rightarrow> DHCP_OPTION \<Rightarrow> BUF option" where
  "write_option b d =
     (let sz = piece_size (Opt_Size d)
      in do {
        b \<leftarrow> write_piece b (ucast (Opt_Id d)) sz (Opt_Data d);
        write_pieces b (Opt_Data d) (Opt_Size d - ucast sz) (ucast sz)
      })"

definition BuildDhcpOptionsBuf :: "DHCP_OPTION list \<Rightarrow> BUF option" where
  "BuildDhcpOptionsBuf os =
     do {
       b \<leftarrow> NewBuf;
       b \<leftarrow> write_list write_option b os;
       WriteBuf b [Some 0xff] 1
     }"

text \<open>A read of one byte, which is missing at the end of the buffer.\<close>

definition read_byte :: "BUF \<Rightarrow> (u8 option \<times> BUF) option" where
  "read_byte b =
     do {
       (n, d, b) \<leftarrow> ReadBuf b True 1;
       c \<leftarrow> cells_value d;
       Some (if n = 1 then Some (hd c) else None, b)
     }"

text \<open>
  The loop of \<open>ParseDhcpOptions\<close>; \<open>last_opt\<close> is always the last option of
  the list, and null only while the list is empty.
\<close>

partial_function (option) dhcp_options_loop :: "BUF \<Rightarrow> DHCP_OPTION list \<Rightarrow> DHCP_OPTION list option" where
  "dhcp_options_loop b os =
     do {
       (c, b) \<leftarrow> read_byte b;
       case c of
         None \<Rightarrow> Some os
       | Some c \<Rightarrow>
           if c = 0xff then Some os
           else do {
             (sz, b) \<leftarrow> read_byte b;
             case sz of
               None \<Rightarrow> Some os
             | Some sz \<Rightarrow> do {
                 (n, d, b) \<leftarrow> ReadBuf b True (ucast sz);
                 d \<leftarrow> cells_value d;
                 if c = DHCP_ID_PRIVATE \<and> os \<noteq> []
                 then let o1 = last os
                   in if MAX_MALLOC_MEM_SIZE < Opt_Size o1 + ucast sz then None
                   else dhcp_options_loop b
                     (butlast os @ [o1\<lparr>Opt_Size := Opt_Size o1 + ucast sz, Opt_Data := Opt_Data o1 @ d\<rparr>])
                 else dhcp_options_loop b (os @ [\<lparr>Opt_Id = ucast c, Opt_Size = ucast sz, Opt_Data = d\<rparr>])
               }
           }
     }"

definition ParseDhcpOptions :: "u8 list \<Rightarrow> u32 \<Rightarrow> DHCP_OPTION list option" where
  "ParseDhcpOptions data sz =
     do {
       b \<leftarrow> NewBuf;
       b \<leftarrow> WriteBuf b (map Some data) sz;
       dhcp_options_loop (SeekBuf b 0 0) []
     }"

definition GetDhcpOption :: "DHCP_OPTION list \<Rightarrow> u32 \<Rightarrow> DHCP_OPTION option" where
  "GetDhcpOption os i = fold (\<lambda>opt ret. if Opt_Id opt = i then Some opt else ret) os None"

section \<open>Subnet masks\<close>

definition subnet_masks :: "u32 list" where
  "subnet_masks =
     [0x00000000, 0x80000000, 0xC0000000, 0xE0000000, 0xF0000000, 0xF8000000, 0xFC000000,
      0xFE000000, 0xFF000000, 0xFF800000, 0xFFC00000, 0xFFE00000, 0xFFF00000, 0xFFF80000,
      0xFFFC0000, 0xFFFE0000, 0xFFFF0000, 0xFFFF8000, 0xFFFFC000, 0xFFFFE000, 0xFFFFF000,
      0xFFFFF800, 0xFFFFFC00, 0xFFFFFE00, 0xFFFFFF00, 0xFFFFFF80, 0xFFFFFFC0, 0xFFFFFFE0,
      0xFFFFFFF0, 0xFFFFFFF8, 0xFFFFFFFC, 0xFFFFFFFE, 0xFFFFFFFF]"

definition IntToSubnetMask32 :: "bool \<Rightarrow> u32 \<Rightarrow> u32" where
  "IntToSubnetMask32 le i =
     (let ret = (if i \<le> 32 then subnet_masks ! unat i else 0xFFFFFFFF)
      in if le then Swap32 le ret else ret)"

definition IntToSubnetMask4 :: "bool \<Rightarrow> u32 \<Rightarrow> IP" where
  "IntToSubnetMask4 le i = UINTToIP le (IntToSubnetMask32 le i)"

text \<open>\<open>CmpIpAddr\<close> compares the first twenty bytes: both addresses without the scope.\<close>

definition same_ip :: "IP \<Rightarrow> IP \<Rightarrow> bool" where
  "same_ip a b \<longleftrightarrow> addr a = addr b \<and> ipv6_addr a = ipv6_addr b"

definition SubnetMaskToInt4 :: "bool \<Rightarrow> IP \<Rightarrow> u32" where
  "SubnetMaskToInt4 le a =
     (if \<not> IsIP4 a then 0
      else case find (\<lambda>i. same_ip a (IntToSubnetMask4 le (of_nat i))) [0..<33] of
          None \<Rightarrow> 0
        | Some i \<Rightarrow> of_nat i)"

definition IPAnd4 :: "bool \<Rightarrow> IP \<Rightarrow> IP \<Rightarrow> IP" where
  "IPAnd4 le a b =
     (if \<not> IsIP4 a \<or> \<not> IsIP4 b then ZeroIP
      else UINTToIP le (IPToUINT le a AND IPToUINT le b))"

definition IsInSameNetwork4 :: "bool \<Rightarrow> IP \<Rightarrow> IP \<Rightarrow> IP \<Rightarrow> bool" where
  "IsInSameNetwork4 le a1 a2 subnet =
     (if \<not> IsIP4 a1 \<or> \<not> IsIP4 a2 \<or> \<not> IsIP4 subnet then False
      else same_ip (IPAnd4 le a1 subnet) (IPAnd4 le a2 subnet))"

section \<open>Classless routes\<close>

record DHCP_CLASSLESS_ROUTE =
  Route_Exists :: bool
  Route_Network :: IP
  Route_SubnetMask :: IP
  Route_Gateway :: IP
  Route_SubnetMaskLen :: u32

abbreviation MAX_DHCP_CLASSLESS_ROUTE_ENTRIES :: nat where
  "MAX_DHCP_CLASSLESS_ROUTE_ENTRIES \<equiv> 64"

record DHCP_CLASSLESS_ROUTE_TABLE =
  NumExistingRoutes :: u32
  Entries :: "DHCP_CLASSLESS_ROUTE list"

definition no_route :: DHCP_CLASSLESS_ROUTE where
  "no_route = \<lparr>Route_Exists = False, Route_Network = ZeroIP, Route_SubnetMask = ZeroIP,
     Route_Gateway = ZeroIP, Route_SubnetMaskLen = 0\<rparr>"

definition no_routes :: DHCP_CLASSLESS_ROUTE_TABLE where
  "no_routes = \<lparr>NumExistingRoutes = 0,
     Entries = replicate MAX_DHCP_CLASSLESS_ROUTE_ENTRIES no_route\<rparr>"

definition write_route :: "BUF \<Rightarrow> DHCP_CLASSLESS_ROUTE \<Rightarrow> BUF option" where
  "write_route b r =
     (if Route_Exists r \<and> Route_SubnetMaskLen r \<le> 32
      then let data_len = (Route_SubnetMaskLen r + 7) div 8
        in do {
          b \<leftarrow> WriteBuf b [Some (ucast (Route_SubnetMaskLen r))] 1;
          tmp \<leftarrow> mem_bytes (addr (Route_Network r)) 0 (unat data_len);
          b \<leftarrow> WriteBuf b (map Some tmp) data_len;
          WriteBuf b (map Some (mem32 host_le (IPToUINT host_le (Route_Gateway r)))) 4
        }
      else Some b)"

text \<open>The inner \<^const>\<open>None\<close> is the null pointer.\<close>

definition DhcpBuildClasslessRouteData :: "DHCP_CLASSLESS_ROUTE_TABLE \<Rightarrow> BUF option option" where
  "DhcpBuildClasslessRouteData t =
     (if NumExistingRoutes t = 0 then Some None
      else do {
        b \<leftarrow> NewBuf;
        b \<leftarrow> write_list write_route b (take MAX_DHCP_CLASSLESS_ROUTE_ENTRIES (Entries t));
        Some (Some (SeekBufToBegin b))
      })"

text \<open>
  One round of the loop of \<open>DhcpParseClasslessRouteData\<close>: the route it reads, if the
  data is valid, and the entry it makes.
\<close>

definition read_route :: "BUF \<Rightarrow> (DHCP_CLASSLESS_ROUTE option \<times> BUF) option" where
  "read_route b =
     do {
       (c, b) \<leftarrow> ReadBufChar b;
       let len = (ucast c :: u32);
       let data_len = (len + 7) div 8;
       if len > 32 \<or> data_len > 4 then Some (None, b)
       else do {
         (n, tmp, b) \<leftarrow> ReadBuf b True data_len;
         if n \<noteq> data_len then Some (None, b)
         else do {
           tmp \<leftarrow> cells_value tmp;
           (n, ip32, b) \<leftarrow> ReadBuf b True 4;
           if n \<noteq> 4 then Some (None, b)
           else do {
             ip32 \<leftarrow> cells_value ip32;
             Some (Some \<lparr>Route_Exists = True,
               Route_Network = ZeroIP\<lparr>addr := tmp @ replicate (4 - length tmp) 0\<rparr>,
               Route_SubnetMask = IntToSubnetMask4 host_le len,
               Route_Gateway = UINTToIP host_le (of_mem32 host_le ip32),
               Route_SubnetMaskLen = len\<rparr>, b)
           }
         }
       }
     }"

partial_function (option) classless_loop ::
    "BUF \<Rightarrow> DHCP_CLASSLESS_ROUTE_TABLE \<Rightarrow> DHCP_CLASSLESS_ROUTE_TABLE option" where
  "classless_loop b t =
     (if Current b < Size b
      then do {
        (r, b) \<leftarrow> read_route b;
        case r of
          None \<Rightarrow> Some t
        | Some r \<Rightarrow>
            if r \<in> set (Entries t) then classless_loop b t
            else if NumExistingRoutes t \<ge> 64 then Some t
            else classless_loop b (t\<lparr>Entries := (Entries t)[unat (NumExistingRoutes t) := r],
                NumExistingRoutes := NumExistingRoutes t + 1\<rparr>)
      }
      else Some t)"

definition DhcpParseClasslessRouteData ::
    "DHCP_CLASSLESS_ROUTE_TABLE \<Rightarrow> u8 list \<Rightarrow> u32 \<Rightarrow> DHCP_CLASSLESS_ROUTE_TABLE option" where
  "DhcpParseClasslessRouteData t data sz =
     (if sz = 0 then Some t
      else do {
        b \<leftarrow> MemToBuf (map Some data) sz;
        classless_loop b t
      })"

fun best_classless_loop ::
    "IP \<Rightarrow> DHCP_CLASSLESS_ROUTE list \<Rightarrow> u32 \<Rightarrow> DHCP_CLASSLESS_ROUTE option \<Rightarrow> DHCP_CLASSLESS_ROUTE option" where
  "best_classless_loop ip [] max_mask ret = ret"
| "best_classless_loop ip (e # es) max_mask ret =
     (if Route_Exists e \<and> IsInSameNetwork4 host_le ip (Route_Network e) (Route_SubnetMask e)
        \<and> max_mask \<le> Route_SubnetMaskLen e
      then best_classless_loop ip es (Route_SubnetMaskLen e) (Some e)
      else best_classless_loop ip es max_mask ret)"

definition GetBestClasslessRoute :: "DHCP_CLASSLESS_ROUTE_TABLE \<Rightarrow> IP \<Rightarrow> DHCP_CLASSLESS_ROUTE option" where
  "GetBestClasslessRoute t ip =
     (if NumExistingRoutes t = 0 then None
      else best_classless_loop ip (take MAX_DHCP_CLASSLESS_ROUTE_ENTRIES (Entries t)) 0 None)"

section \<open>The option list of a message\<close>

record DHCP_OPTION_LIST =
  Opcode :: u32
  RequestedIp :: u32
  Hostname :: cstr
  ClientAddress :: u32
  ServerAddress :: u32
  LeaseTime :: u32
  DomainName :: cstr
  DhcpSubnetMask :: u32
  Gateway :: u32
  DnsServer :: u32
  DnsServer2 :: u32
  WinsServer :: u32
  WinsServer2 :: u32
  ClasslessRoute :: DHCP_CLASSLESS_ROUTE_TABLE

definition no_options :: DHCP_OPTION_LIST where
  "no_options = \<lparr>Opcode = 0, RequestedIp = 0, Hostname = [], ClientAddress = 0, ServerAddress = 0,
     LeaseTime = 0, DomainName = [], DhcpSubnetMask = 0, Gateway = 0, DnsServer = 0, DnsServer2 = 0,
     WinsServer = 0, WinsServer2 = 0, ClasslessRoute = no_routes\<rparr>"

definition uint_option :: "u32 \<Rightarrow> u32 \<Rightarrow> DHCP_OPTION option" where
  "uint_option i v = NewDhcpOption i (mem32 host_le v) 4"

text \<open>\<open>Add\<close> of a new option to the list.\<close>

definition add_option :: "DHCP_OPTION option \<Rightarrow> DHCP_OPTION list \<Rightarrow> DHCP_OPTION list option" where
  "add_option opt os = map_option (\<lambda>x. os @ [x]) opt"

definition BuildDhcpOption :: "DHCP_OPTION_LIST \<Rightarrow> DHCP_OPTION list option" where
  "BuildDhcpOption opt =
     do {
       os \<leftarrow> add_option (NewDhcpOption DHCP_ID_MESSAGE_TYPE [ucast (Opcode opt)] 1) [];
       os \<leftarrow> add_option (uint_option DHCP_ID_SERVER_ADDRESS (ServerAddress opt)) os;
       os \<leftarrow> (if LeaseTime opt \<noteq> 0 then add_option (uint_option DHCP_ID_LEASE_TIME (LeaseTime opt)) os
         else Some os);
       os \<leftarrow> (if StrLen (DomainName opt) \<noteq> 0 \<and> DnsServer opt \<noteq> 0
         then add_option (NewDhcpOption DHCP_ID_DOMAIN_NAME (DomainName opt) (StrLen (DomainName opt))) os
         else Some os);
       os \<leftarrow> (if DhcpSubnetMask opt \<noteq> 0
         then add_option (uint_option DHCP_ID_SUBNET_MASK (DhcpSubnetMask opt)) os else Some os);
       os \<leftarrow> (if Gateway opt \<noteq> 0 then add_option (uint_option DHCP_ID_GATEWAY_ADDR (Gateway opt)) os
         else Some os);
       let dns = (if DnsServer opt \<noteq> 0 then mem32 host_le (DnsServer opt) else []) @
                 (if DnsServer2 opt \<noteq> 0 then mem32 host_le (DnsServer2 opt) else []);
       os \<leftarrow> (if length dns \<ge> 1 then add_option (NewDhcpOption DHCP_ID_DNS_ADDR dns (of_nat (length dns))) os
         else Some os);
       if NumExistingRoutes (ClasslessRoute opt) \<ge> 1
       then do {
         b \<leftarrow> DhcpBuildClasslessRouteData (ClasslessRoute opt);
         case b of
           None \<Rightarrow> Some os
         | Some b \<Rightarrow> do {
             d \<leftarrow> cells_value (take (unat (Size b)) (Buf b));
             os \<leftarrow> add_option (NewDhcpOption DHCP_ID_CLASSLESS_ROUTE d (Size b)) os;
             add_option (NewDhcpOption DHCP_ID_MS_CLASSLESS_ROUTE d (Size b)) os
           }
       }
       else Some os
     }"

text \<open>
  The option with an identifier, if it has a size that \<open>ok\<close> accepts, handled by
  \<open>f\<close>; the four bytes at an offset of its data.
\<close>

definition with_option ::
    "DHCP_OPTION list \<Rightarrow> u32 \<Rightarrow> (u32 \<Rightarrow> bool) \<Rightarrow> (DHCP_OPTION \<Rightarrow> 'a \<Rightarrow> 'a option) \<Rightarrow> 'a \<Rightarrow> 'a option" where
  "with_option os i ok f ret =
     (case GetDhcpOption os i of
        None \<Rightarrow> Some ret
      | Some a \<Rightarrow> if ok (Opt_Size a) then f a ret else Some ret)"

definition option_uint :: "DHCP_OPTION \<Rightarrow> nat \<Rightarrow> u32 option" where
  "option_uint a off = map_option (of_mem32 host_le) (mem_bytes (Opt_Data a) off 4)"

definition option_str :: "DHCP_OPTION \<Rightarrow> cstr option" where
  "option_str a = map_option c_string (mem_bytes (Opt_Data a) 0 (unat (min (Opt_Size a) 255)))"

definition ParseDhcpOptionList :: "u8 list \<Rightarrow> u32 \<Rightarrow> DHCP_OPTION_LIST option" where
  "ParseDhcpOptionList data sz =
     do {
       os \<leftarrow> ParseDhcpOptions data sz;
       ret \<leftarrow> with_option os DHCP_ID_MESSAGE_TYPE (\<lambda>n. n = 1)
         (\<lambda>a ret. map_option (\<lambda>c. ret\<lparr>Opcode := ucast (hd c)\<rparr>) (mem_bytes (Opt_Data a) 0 1)) no_options;
       if Opcode ret = DHCP_DISCOVER \<or> Opcode ret = DHCP_REQUEST
       then do {
         ret \<leftarrow> with_option os DHCP_ID_REQUEST_IP_ADDRESS (\<lambda>n. n = 4)
           (\<lambda>a ret. map_option (\<lambda>v. ret\<lparr>RequestedIp := v\<rparr>) (option_uint a 0)) ret;
         with_option os DHCP_ID_HOST_NAME (\<lambda>n. n > 1)
           (\<lambda>a ret. map_option (\<lambda>s. ret\<lparr>Hostname := s\<rparr>) (option_str a)) ret
       }
       else if Opcode ret = DHCP_OFFER \<or> Opcode ret = DHCP_ACK
       then do {
         ret \<leftarrow> with_option os DHCP_ID_SUBNET_MASK (\<lambda>n. n \<ge> 4)
           (\<lambda>a ret. map_option (\<lambda>v. ret\<lparr>DhcpSubnetMask := v\<rparr>) (option_uint a 0)) ret;
         ret \<leftarrow> with_option os DHCP_ID_LEASE_TIME (\<lambda>n. n = 4)
           (\<lambda>a ret. map_option (\<lambda>d. ret\<lparr>LeaseTime := of_be32 d\<rparr>) (mem_bytes (Opt_Data a) 0 4)) ret;
         ret \<leftarrow> with_option os DHCP_ID_SERVER_ADDRESS (\<lambda>n. n \<ge> 4)
           (\<lambda>a ret. map_option (\<lambda>v. ret\<lparr>ServerAddress := v\<rparr>) (option_uint a 0)) ret;
         ret \<leftarrow> with_option os DHCP_ID_DOMAIN_NAME (\<lambda>n. n \<ge> 1)
           (\<lambda>a ret. map_option (\<lambda>s. ret\<lparr>DomainName := s\<rparr>) (option_str a)) ret;
         ret \<leftarrow> with_option os DHCP_ID_GATEWAY_ADDR (\<lambda>n. n \<ge> 4)
           (\<lambda>a ret. map_option (\<lambda>v. ret\<lparr>Gateway := v\<rparr>) (option_uint a 0)) ret;
         ret \<leftarrow> with_option os DHCP_ID_DNS_ADDR (\<lambda>n. n \<ge> 4)
           (\<lambda>a ret. map_option (\<lambda>v. ret\<lparr>DnsServer := v\<rparr>) (option_uint a 0)) ret;
         ret \<leftarrow> with_option os DHCP_ID_DNS_ADDR (\<lambda>n. n \<ge> 8)
           (\<lambda>a ret. map_option (\<lambda>v. ret\<lparr>DnsServer2 := v\<rparr>) (option_uint a 4)) ret;
         ret \<leftarrow> with_option os DHCP_ID_WINS_ADDR (\<lambda>n. n \<ge> 4)
           (\<lambda>a ret. map_option (\<lambda>v. ret\<lparr>WinsServer := v\<rparr>) (option_uint a 0)) ret;
         ret \<leftarrow> with_option os DHCP_ID_WINS_ADDR (\<lambda>n. n \<ge> 8)
           (\<lambda>a ret. map_option (\<lambda>v. ret\<lparr>WinsServer2 := v\<rparr>) (option_uint a 4)) ret;
         ret \<leftarrow> with_option os DHCP_ID_CLASSLESS_ROUTE (\<lambda>n. True)
           (\<lambda>a ret. map_option (\<lambda>t. ret\<lparr>ClasslessRoute := t\<rparr>)
              (DhcpParseClasslessRouteData (ClasslessRoute ret) (Opt_Data a) (Opt_Size a))) ret;
         with_option os DHCP_ID_MS_CLASSLESS_ROUTE (\<lambda>n. True)
           (\<lambda>a ret. map_option (\<lambda>t. ret\<lparr>ClasslessRoute := t\<rparr>)
              (DhcpParseClasslessRouteData (ClasslessRoute ret) (Opt_Data a) (Opt_Size a))) ret
       }
       else Some ret
     }"

section \<open>What the parser of options computes\<close>

text \<open>
  The options in a sequence of bytes: the reference for \<^const>\<open>ParseDhcpOptions\<close>. Data
  that is cut off by the end is filled with zeros; a piece with the private identifier is
  appended to the option before it.
\<close>

definition option_data :: "u8 \<Rightarrow> u8 list \<Rightarrow> u8 list" where
  "option_data sz bs = take (unat sz) bs @ replicate (unat sz - length bs) 0"

definition next_options :: "u8 \<Rightarrow> u8 \<Rightarrow> u8 list \<Rightarrow> DHCP_OPTION list \<Rightarrow> DHCP_OPTION list" where
  "next_options c sz d os =
     (if c = DHCP_ID_PRIVATE \<and> os \<noteq> []
      then butlast os @ [(last os)\<lparr>Opt_Size := Opt_Size (last os) + ucast sz,
        Opt_Data := Opt_Data (last os) @ d\<rparr>]
      else os @ [\<lparr>Opt_Id = ucast c, Opt_Size = ucast sz, Opt_Data = d\<rparr>])"

function dhcp_decode :: "u8 list \<Rightarrow> DHCP_OPTION list \<Rightarrow> DHCP_OPTION list" where
  "dhcp_decode [] os = os"
| "dhcp_decode [c] os = os"
| "dhcp_decode (c # sz # bs) os =
     (if c = 0xff then os
      else dhcp_decode (drop (unat sz) bs) (next_options c sz (option_data sz bs) os))"
  by pat_completeness auto
termination by (relation "measure (\<lambda>(bs, os). length bs)") auto

lemma read_byte_Cons: "reading b (c # r) \<Longrightarrow> \<exists>b'. read_byte b = Some (Some c, b') \<and> reading b' r"
  using ReadBuf_exact [of b "[c]" r 1] by (auto simp: read_byte_def)

lemma read_byte_Nil: "reading b [] \<Longrightarrow> \<exists>b'. read_byte b = Some (None, b')"
  using ReadBuf_spec [of b "[]" 1 True] by (auto simp: read_byte_def)

lemma ReadBuf_option:
  assumes "reading b r"
  shows "\<exists>n b'. ReadBuf b True (ucast (sz :: u8)) = Some (n, map Some (option_data sz r), b') \<and>
    reading b' (drop (unat sz) r)"
proof -
  have "unat sz \<le> READ_SAFE" by (rule order.trans [OF order.strict_implies_order [OF unsigned_less]]) simp
  then show ?thesis using ReadBuf_spec [OF assms, of "ucast sz" True]
    by (auto simp: option_data_def)
qed

definition decode_room :: "u8 list \<Rightarrow> DHCP_OPTION list \<Rightarrow> bool" where
  "decode_room bs os \<longleftrightarrow> os \<noteq> [] \<and> bs \<noteq> [] \<longrightarrow> unat (Opt_Size (last os)) + length bs \<le> BUF_MAX"

lemma unat_byte: "unat (x :: u8) < 256"
  using unsigned_less [of x] by simp

lemma decode_room_next:
  assumes "decode_room (c # sz # bs) os" and "length bs \<le> BUF_MAX"
  shows "decode_room (drop (unat sz) bs) (next_options c sz d os)"
  using assms unat_byte [of sz] by (auto simp: decode_room_def next_options_def nowrap)

lemma options_loop_eq:
  assumes "reading b bs" and "decode_room bs os"
  shows "dhcp_options_loop b os = Some (dhcp_decode bs os)"
  using assms
proof (induction bs os arbitrary: b rule: dhcp_decode.induct)
  case (1 os)
  then show ?case using read_byte_Nil [of b] by (auto simp: dhcp_options_loop.simps [of b])
next
  case (2 c os)
  then obtain b1 where b1: "read_byte b = Some (Some c, b1)" "reading b1 []"
    using read_byte_Cons [of b c "[]"] by auto
  moreover obtain b2 where "read_byte b1 = Some (None, b2)" using read_byte_Nil [OF b1(2)] by blast
  ultimately show ?case by (simp add: dhcp_options_loop.simps [of b])
next
  case (3 c sz bs os)
  obtain b1 where b1: "read_byte b = Some (Some c, b1)" "reading b1 (sz # bs)"
    using read_byte_Cons [OF 3(2)] by auto
  obtain b2 where b2: "read_byte b1 = Some (Some sz, b2)" "reading b2 bs"
    using read_byte_Cons [OF b1(2)] by auto
  obtain n b3 where b3: "ReadBuf b2 True (ucast sz) = Some (n, map Some (option_data sz bs), b3)"
    "reading b3 (drop (unat sz) bs)" using ReadBuf_option [OF b2(2)] by blast
  have len: "length bs \<le> BUF_MAX" using reading_length_max [OF b2(2)] .
  have fits: "\<not> MAX_MALLOC_MEM_SIZE < Opt_Size (last os) + ucast sz" if "os \<noteq> []"
    using that 3(3) unat_byte [of sz] by (simp add: decode_room_def unat_order nowrap)
  show ?case
  proof (cases "c = 0xff")
    case True
    with b1 show ?thesis by (simp add: dhcp_options_loop.simps [of b])
  next
    case False
    have "dhcp_options_loop b os = dhcp_options_loop b3 (next_options c sz (option_data sz bs) os)"
      using False b1(1) b2(1) b3(1) fits
      by (subst dhcp_options_loop.simps) (simp add: next_options_def Let_def)
    with 3(1) [OF False b3(2)] decode_room_next [OF 3(3) len] False show ?thesis by simp
  qed
qed

lemma mem_read_take: "n \<le> length d \<Longrightarrow> mem_read (map Some (take n d)) 0 n = mem_read (map Some d) 0 n"
  by (simp add: mem_read_def take_map)

lemma ParseDhcpOptions_eq:
  assumes "unat sz \<le> length data" and "unat sz \<le> BUF_MAX"
  shows "ParseDhcpOptions data sz = Some (dhcp_decode (take (unat sz) data) [])"
proof -
  have eq: "ParseDhcpOptions data sz = do { b \<leftarrow> MemToBuf (map Some data) sz; dhcp_options_loop b [] }"
    by (simp add: ParseDhcpOptions_def MemToBuf_def)
  have "MemToBuf (map Some data) sz = MemToBuf (map Some (take (unat sz) data)) sz"
    unfolding MemToBuf_def WriteBuf_def mem_read_take [OF assms(1)] ..
  then obtain b where "MemToBuf (map Some data) sz = Some b" "reading b (take (unat sz) data)"
    using MemToBuf_reading [of "take (unat sz) data" sz] assms by auto
  then show ?thesis by (simp add: eq options_loop_eq decode_room_def)
qed

text \<open>Every option that is read has as much data as its size says.\<close>

definition option_ok :: "DHCP_OPTION \<Rightarrow> bool" where
  "option_ok a \<longleftrightarrow> unat (Opt_Size a) = length (Opt_Data a)"

lemma option_ok_simps [simp]:
  "option_ok \<lparr>Opt_Id = i, Opt_Size = n, Opt_Data = d\<rparr> = (unat n = length d)"
  "option_ok (a\<lparr>Opt_Size := n, Opt_Data := d\<rparr>) = (unat n = length d)"
  by (simp_all add: option_ok_def)

lemma length_option_data [simp]: "length (option_data sz bs) = unat sz"
  by (simp add: option_data_def)

lemma dhcp_decode_ok:
  "list_all option_ok os \<Longrightarrow> decode_room bs os \<Longrightarrow> length bs \<le> BUF_MAX \<Longrightarrow>
   list_all option_ok (dhcp_decode bs os)"
proof (induction bs os rule: dhcp_decode.induct)
  case (3 c sz bs os)
  have "unat (Opt_Size (last os)) = length (Opt_Data (last os))" if "os \<noteq> []"
    using that 3(2) by (simp add: list_all_iff option_ok_def)
  moreover have "list_all option_ok (butlast os)" using 3(2) by (auto simp: list_all_iff dest: in_set_butlastD)
  ultimately have "list_all option_ok (next_options c sz (option_data sz bs) os)"
    using 3(2,3) unat_byte [of sz]
    by (auto simp: next_options_def decode_room_def nowrap)
  with 3 decode_room_next [OF 3(3)] show ?case by auto
qed simp_all

section \<open>Options written and read back\<close>

text \<open>The bytes of an option: pieces of at most 255 bytes, all but the first private.\<close>

function enc_pieces :: "u8 \<Rightarrow> u8 list \<Rightarrow> u8 list" where
  "enc_pieces c d =
     c # of_nat (min 255 (length d)) # take 255 d @
     (if length d \<le> 255 then [] else enc_pieces DHCP_ID_PRIVATE (drop 255 d))"
  by pat_completeness auto
termination by (relation "measure (\<lambda>(c, d). length d)") auto

declare enc_pieces.simps [simp del]

definition enc_dhcp :: "DHCP_OPTION \<Rightarrow> u8 list" where
  "enc_dhcp a = enc_pieces (ucast (Opt_Id a)) (Opt_Data a)"

lemma unat_piece: "n \<le> 255 \<Longrightarrow> unat (of_nat n :: u8) = n"
  by (simp add: unat_of_nat take_bit_nat_eq_self)

lemma ucast_of_nat_32: "n < two32 \<Longrightarrow> (ucast (of_nat n :: u32) :: u8) = of_nat n"
  by (metis of_nat_unat unat_of_nat32)

lemma ucast_of_nat_8: "n \<le> 255 \<Longrightarrow> (ucast (of_nat n :: u8) :: u32) = of_nat n"
  by (metis of_nat_unat unat_piece)

lemma piece_size_length: "length d < two32 \<Longrightarrow> piece_size (of_nat (length d)) = of_nat (min 255 (length d))"
  by (auto simp: piece_size_def unat_order nowrap min_def ucast_of_nat_32)

lemma write_piece_append:
  assumes "writing b bs" and "length bs + 2 + unat sz \<le> BUF_MAX" and "unat sz \<le> length d"
  shows "\<exists>b'. write_piece b c sz d = Some b' \<and> writing b' (bs @ c # sz # take (unat sz) d)"
proof -
  obtain b1 where b1: "WriteBuf b [Some c] 1 = Some b1" "writing b1 (bs @ [c])"
    using WriteBuf_append_exact [OF assms(1), of "[c]" 1] assms(2) by auto
  obtain b2 where b2: "WriteBuf b1 [Some sz] 1 = Some b2" "writing b2 (bs @ [c, sz])"
    using WriteBuf_append_exact [OF b1(2), of "[sz]" 1] assms(2) by auto
  have "map Some d = map Some (take (unat sz) d) @ drop (unat sz) (map Some d)"
    by (metis append_take_drop_id take_map)
  then obtain b3 where "WriteBuf b2 (map Some d) (ucast sz) = Some b3"
    "writing b3 (bs @ [c, sz] @ take (unat sz) d)"
    using WriteBuf_append [OF b2(2), of "take (unat sz) d" "drop (unat sz) (map Some d)"] assms(2,3)
    by (auto simp: min_absorb2)
  then show ?thesis using b1(1) b2(1) by (simp add: write_piece_def)
qed

lemma write_pieces_append:
  assumes "writing b bs" and "length bs + length (enc_pieces DHCP_ID_PRIVATE (drop p d)) \<le> BUF_MAX"
    and "p < length d" and "length d < two32"
  shows "\<exists>b'. write_pieces b d (of_nat (length d - p)) (of_nat p) = Some b' \<and>
    writing b' (bs @ enc_pieces DHCP_ID_PRIVATE (drop p d))"
  using assms
proof (induction "length d - p" arbitrary: b bs p rule: less_induct)
  case less
  define e where "e = drop p d"
  define n where "n = min 255 (length e)"
  have e: "0 < length e" "length e = length d - p" "length e < two32" using less(4,5) by (auto simp: e_def)
  have n: "0 < n" "n \<le> 255" "n \<le> length e" using e by (auto simp: n_def)
  have un: "unat (of_nat n :: u8) = n" using n by (simp add: unat_piece)
  have enc: "enc_pieces DHCP_ID_PRIVATE e = DHCP_ID_PRIVATE # of_nat n # take n e @
      (if length e \<le> 255 then [] else enc_pieces DHCP_ID_PRIVATE (drop 255 e))"
    by (subst enc_pieces.simps) (simp add: n_def min_def)
  obtain b1 where b1: "write_piece b DHCP_ID_PRIVATE (of_nat n) e = Some b1"
    "writing b1 (bs @ DHCP_ID_PRIVATE # of_nat n # take n e)"
    using write_piece_append [OF less(2), of "of_nat n" e DHCP_ID_PRIVATE] less(3) n(3) un
    by (auto simp: enc min_absorb2 simp flip: e_def)
  have step: "write_pieces b d (of_nat (length d - p)) (of_nat p) =
      write_pieces b1 d (of_nat (length d - p - n)) (of_nat (p + n))"
  proof -
    have "(of_nat (length e) :: u32) \<noteq> 0"
      using e by (metis less_numeral_extra(3) unat_0 unat_of_nat32)
    moreover have "(of_nat (length e) :: u32) - of_nat n = of_nat (length e - n)" using n(3) by simp
    moreover have "unat (of_nat p :: u32) = p" using less(4,5) by (simp add: nowrap)
    ultimately show ?thesis
      using b1(1) n(2)
      unfolding e(2) [symmetric] of_nat_add
      by (subst write_pieces.simps)
        (simp add: piece_size_length [OF e(3)] ucast_of_nat_8 e_def [symmetric] n_def [symmetric] Let_def)
  qed
  show ?case
  proof (cases "length e \<le> 255")
    case True
    then have "length d - p - n = 0" using e(2) by (simp add: n_def)
    then show ?thesis using step b1(2) True by (simp add: enc write_pieces.simps [of b1] flip: e_def)
  next
    case False
    then have n255: "n = 255" by (simp add: n_def)
    have dd: "drop 255 e = drop (p + 255) d" by (simp add: e_def add.commute)
    have "length d - (p + 255) < length d - p" "p + 255 < length d" using False e(2) by auto
    from less(1) [OF this(1) b1(2) _ this(2) less(5)] less(3) False
    show ?thesis using step by (simp add: enc n255 dd diff_diff_left flip: e_def)
  qed
qed

lemma write_option_append:
  assumes "writing b bs" and "option_ok a" and "length bs + length (enc_dhcp a) \<le> BUF_MAX"
  shows "\<exists>b'. write_option b a = Some b' \<and> writing b' (bs @ enc_dhcp a)"
proof -
  let ?d = "Opt_Data a" and ?n = "min 255 (length (Opt_Data a))"
  have size: "Opt_Size a = of_nat (length ?d)" and len: "length ?d < two32"
    using assms(2) unat_lt32 [of "Opt_Size a"] by (simp_all add: option_ok_def) (metis of_nat_unat32)
  have un: "unat (of_nat ?n :: u8) = ?n" by (rule unat_piece) simp
  have enc: "enc_dhcp a = ucast (Opt_Id a) # of_nat ?n # take ?n ?d @
      (if length ?d \<le> 255 then [] else enc_pieces DHCP_ID_PRIVATE (drop 255 ?d))"
    unfolding enc_dhcp_def by (subst enc_pieces.simps) (simp add: min_def)
  obtain b1 where b1: "write_piece b (ucast (Opt_Id a)) (of_nat ?n) ?d = Some b1"
    "writing b1 (bs @ ucast (Opt_Id a) # of_nat ?n # take ?n ?d)"
    using write_piece_append [OF assms(1), of "of_nat ?n" ?d] assms(3) un by (auto simp: enc)
  have wo: "write_option b a = write_pieces b1 ?d (of_nat (length ?d - ?n)) (of_nat ?n)"
    using b1(1) by (simp add: write_option_def size piece_size_length [OF len] ucast_of_nat_8 Let_def)
  show ?thesis
  proof (cases "length ?d \<le> 255")
    case True
    then show ?thesis using b1(2) by (simp add: wo enc write_pieces.simps [of b1])
  next
    case False
    then show ?thesis
      using write_pieces_append [OF b1(2), of 255 ?d] assms(3) len by (auto simp: wo enc)
  qed
qed

lemma write_options_append:
  "writing b bs \<Longrightarrow> list_all option_ok os \<Longrightarrow> length bs + length (concat (map enc_dhcp os)) \<le> BUF_MAX \<Longrightarrow>
   \<exists>b'. write_list write_option b os = Some b' \<and> writing b' (bs @ concat (map enc_dhcp os))"
proof (induction os arbitrary: b bs)
  case (Cons a os)
  obtain b1 where b1: "write_option b a = Some b1" "writing b1 (bs @ enc_dhcp a)"
    using write_option_append [OF Cons(2), of a] Cons(3,4) by auto
  with Cons(1) [OF b1(2)] Cons(3,4) show ?case by auto
qed simp

lemma BuildDhcpOptionsBuf_writing:
  assumes "list_all option_ok os" and "length (concat (map enc_dhcp os)) < BUF_MAX"
  shows "\<exists>b. BuildDhcpOptionsBuf os = Some b \<and> writing b (concat (map enc_dhcp os) @ [0xff])"
proof -
  obtain b where b: "NewBuf = Some b" "writing b []" using NewBuf_writing by blast
  obtain b1 where b1: "write_list write_option b os = Some b1" "writing b1 (concat (map enc_dhcp os))"
    using write_options_append [OF b(2) assms(1)] assms(2) by auto
  obtain b2 where "WriteBuf b1 [Some 0xff] 1 = Some b2" "writing b2 (concat (map enc_dhcp os) @ [0xff])"
    using WriteBuf_append_exact [OF b1(2), of "[0xff]" 1] assms(2) by auto
  then show ?thesis by (simp add: BuildDhcpOptionsBuf_def b(1) b1(1))
qed

text \<open>Reading the pieces of one option puts it at the end of the list.\<close>

lemma option_data_append: "unat sz = length d \<Longrightarrow> option_data sz (d @ r) = d"
  by (simp add: option_data_def)

lemma dhcp_decode_piece:
  assumes "c \<noteq> 0xff" and "n = min 255 (length d)"
  shows "dhcp_decode (c # of_nat n # take 255 d @ r) os =
    dhcp_decode r (next_options c (of_nat n) (take 255 d) os)"
proof -
  have un: "unat (of_nat n :: u8) = length (take 255 d)" using assms(2) by (simp add: unat_piece)
  then show ?thesis using assms(1) by (simp add: option_data_append)
qed

lemma decode_private_pieces:
  "dhcp_decode (enc_pieces DHCP_ID_PRIVATE d @ r) (os @ [a]) =
   dhcp_decode r (os @ [a\<lparr>Opt_Size := Opt_Size a + of_nat (length d), Opt_Data := Opt_Data a @ d\<rparr>])"
proof (induction "length d" arbitrary: d a rule: less_induct)
  case less
  define n where "n = min 255 (length d)"
  define a1 where "a1 = a\<lparr>Opt_Size := Opt_Size a + of_nat n, Opt_Data := Opt_Data a @ take 255 d\<rparr>"
  define rest where "rest = (if length d \<le> 255 then [] else enc_pieces DHCP_ID_PRIVATE (drop 255 d)) @ r"
  have n: "n \<le> 255" by (simp add: n_def)
  have "enc_pieces DHCP_ID_PRIVATE d @ r = DHCP_ID_PRIVATE # of_nat n # take 255 d @ rest"
    by (subst enc_pieces.simps) (simp add: n_def rest_def)
  then have "dhcp_decode (enc_pieces DHCP_ID_PRIVATE d @ r) (os @ [a]) = dhcp_decode rest (os @ [a1])"
    using dhcp_decode_piece [of DHCP_ID_PRIVATE n d rest "os @ [a]"]
    by (simp add: n_def [symmetric] next_options_def ucast_of_nat_8 [OF n] a1_def)
  also have "\<dots> = dhcp_decode r (os @ [a\<lparr>Opt_Size := Opt_Size a + of_nat (length d), Opt_Data := Opt_Data a @ d\<rparr>])"
  proof (cases "length d \<le> 255")
    case True
    then show ?thesis by (simp add: rest_def a1_def n_def min_absorb2)
  next
    case False
    have "(of_nat 255 :: u32) + of_nat (length d - 255) = of_nat (length d)"
      using False unfolding of_nat_add [symmetric] by simp
    then show ?thesis using less [of "drop 255 d" a1] False
      by (simp add: rest_def a1_def n_def add.assoc)
  qed
  finally show ?case .
qed

definition option_id_ok :: "DHCP_OPTION \<Rightarrow> bool" where
  "option_id_ok a \<longleftrightarrow> Opt_Id a < 0xff \<and> Opt_Id a \<noteq> 0xfa"

lemma decode_option:
  assumes "option_ok a" and "option_id_ok a"
  shows "dhcp_decode (enc_dhcp a @ r) os = dhcp_decode r (os @ [a])"
proof -
  define d where "d = Opt_Data a"
  define n where "n = min 255 (length d)"
  define c where "c = (ucast (Opt_Id a) :: u8)"
  define a1 where "a1 = a\<lparr>Opt_Size := of_nat n, Opt_Data := take 255 d\<rparr>"
  define rest where "rest = (if length d \<le> 255 then [] else enc_pieces DHCP_ID_PRIVATE (drop 255 d)) @ r"
  have n: "n \<le> 255" by (simp add: n_def)
  have lim: "unat (Opt_Id a) < 255" using assms(2) by (simp add: option_id_ok_def unat_order)
  have cid: "ucast c = Opt_Id a"
    unfolding c_def word_unat_eq_iff using lim by (simp add: unsigned_ucast_eq unsigned_take_bit_eq take_bit_nat_eq_self)
  have size: "Opt_Size a = of_nat (length d)"
    using assms(1) by (simp add: option_ok_def d_def) (metis of_nat_unat32)
  have c: "c \<noteq> 0xff" "c \<noteq> DHCP_ID_PRIVATE"
    using assms(2) cid by (auto simp: option_id_ok_def)
  have same: "a\<lparr>Opt_Size := of_nat (length (Opt_Data a))\<rparr> = a" using size by (cases a) (simp add: d_def)
  have eq: "\<lparr>Opt_Id = Opt_Id a, Opt_Size = k, Opt_Data = x\<rparr> = a\<lparr>Opt_Size := k, Opt_Data := x\<rparr>" for k x
    by (cases a) simp
  have "enc_dhcp a @ r = c # of_nat n # take 255 d @ rest"
    unfolding enc_dhcp_def by (subst enc_pieces.simps) (simp add: n_def rest_def d_def c_def)
  then have "dhcp_decode (enc_dhcp a @ r) os = dhcp_decode rest (os @ [a1])"
    using dhcp_decode_piece [OF c(1), of n d rest os] c(2)
    by (simp add: n_def [symmetric] next_options_def ucast_of_nat_8 [OF n] a1_def cid eq)
  also have "\<dots> = dhcp_decode r (os @ [a])"
  proof (cases "length d \<le> 255")
    case True
    then have "a1 = a" using size by (simp add: a1_def n_def min_absorb2 d_def)
    then show ?thesis using True by (simp add: rest_def)
  next
    case False
    have "(of_nat 255 :: u32) + of_nat (length d - 255) = of_nat (length d)"
      using False unfolding of_nat_add [symmetric] by simp
    then show ?thesis using False size decode_private_pieces [of "drop 255 d" r os a1]
      by (simp add: rest_def a1_def n_def d_def same)
  qed
  finally show ?thesis .
qed

lemma decode_options:
  "list_all option_ok os \<Longrightarrow> list_all option_id_ok os \<Longrightarrow>
   dhcp_decode (concat (map enc_dhcp os) @ 0xff # r) acc = acc @ os"
proof (induction os arbitrary: acc)
  case Nil
  then show ?case by (cases r) simp_all
next
  case (Cons a os)
  then show ?case by (simp add: decode_option)
qed

text \<open>A buffer as the block of memory that another function gets.\<close>

lemma ParseDhcpOptions_buf:
  assumes "list_all option_ok os" and "list_all option_id_ok os"
    and "length (concat (map enc_dhcp os)) < BUF_MAX"
  shows "\<exists>b. BuildDhcpOptionsBuf os = Some b \<and> contents b = concat (map enc_dhcp os) @ [0xff] \<and>
    ParseDhcpOptions (contents b) (Size b) = Some os"
proof -
  obtain b where b: "BuildDhcpOptionsBuf os = Some b" "writing b (concat (map enc_dhcp os) @ [0xff])"
    using BuildDhcpOptionsBuf_writing [OF assms(1,3)] by blast
  have c: "contents b = concat (map enc_dhcp os) @ [0xff]" using b(2) by (simp add: writing_def)
  have "unat (Size b) = length (contents b)" using writing_length [OF b(2)] by (simp add: c)
  then have "ParseDhcpOptions (contents b) (Size b) = Some (dhcp_decode (contents b) [])"
    using ParseDhcpOptions_eq [of "Size b" "contents b"] assms(3) by (simp add: c)
  then show ?thesis using b(1) c decode_options [OF assms(1,2), of "[]" "[]"] by simp
qed

section \<open>Classless routes written and read back\<close>

definition net_octets :: "DHCP_CLASSLESS_ROUTE \<Rightarrow> nat" where
  "net_octets r = (unat (Route_SubnetMaskLen r) + 7) div 8"

text \<open>A route as the parser makes it: the network has no bits beyond its significant octets.\<close>

definition route_ok :: "DHCP_CLASSLESS_ROUTE \<Rightarrow> bool" where
  "route_ok r \<longleftrightarrow> Route_Exists r \<and> Route_SubnetMaskLen r \<le> 32 \<and>
     length (addr (Route_Network r)) = 4 \<and>
     Route_Network r = ZeroIP\<lparr>addr := take (net_octets r) (addr (Route_Network r)) @ replicate (4 - net_octets r) 0\<rparr> \<and>
     Route_SubnetMask r = IntToSubnetMask4 host_le (Route_SubnetMaskLen r) \<and>
     length (addr (Route_Gateway r)) = 4 \<and> Route_Gateway r = ZeroIP\<lparr>addr := addr (Route_Gateway r)\<rparr>"

definition enc_route :: "DHCP_CLASSLESS_ROUTE \<Rightarrow> u8 list" where
  "enc_route r = ucast (Route_SubnetMaskLen r) # take (net_octets r) (addr (Route_Network r)) @ addr (Route_Gateway r)"

lemma data_len_unat:
  assumes "Route_SubnetMaskLen r \<le> 32"
  shows "unat ((Route_SubnetMaskLen r + 7) div 8) = net_octets r" and "net_octets r \<le> 4"
proof -
  have l: "unat (Route_SubnetMaskLen r) \<le> 32" using assms by (simp add: unat_order)
  then show "unat ((Route_SubnetMaskLen r + 7) div 8) = net_octets r"
    by (simp add: net_octets_def unat_div_distrib nowrap)
  show "net_octets r \<le> 4" using l by (simp add: net_octets_def)
qed

lemma enc_route_length: "route_ok r \<Longrightarrow> length (enc_route r) \<le> 9 \<and> enc_route r \<noteq> []"
  using data_len_unat(2) [of r] by (auto simp: route_ok_def enc_route_def)

lemma write_route_append:
  assumes "writing b bs" and "route_ok r" and "length bs + length (enc_route r) \<le> BUF_MAX"
  shows "\<exists>b'. write_route b r = Some b' \<and> writing b' (bs @ enc_route r)"
proof -
  let ?k = "net_octets r" and ?n = "Route_Network r" and ?g = "Route_Gateway r"
  have len: "Route_SubnetMaskLen r \<le> 32" "Route_Exists r" and l4: "length (addr ?n) = 4" "length (addr ?g) = 4"
    using assms(2) by (simp_all add: route_ok_def)
  note k = data_len_unat [OF len(1)]
  obtain b1 where b1: "WriteBuf b [Some (ucast (Route_SubnetMaskLen r))] 1 = Some b1"
    "writing b1 (bs @ [ucast (Route_SubnetMaskLen r)])"
    using WriteBuf_append_exact [OF assms(1), of "[ucast (Route_SubnetMaskLen r)]" 1] assms(3)
    by (auto simp: enc_route_def)
  obtain b2 where b2: "WriteBuf b1 (map Some (take ?k (addr ?n))) ((Route_SubnetMaskLen r + 7) div 8) = Some b2"
    "writing b2 (bs @ ucast (Route_SubnetMaskLen r) # take ?k (addr ?n))"
    using WriteBuf_append_exact [OF b1(2), of "take ?k (addr ?n)"] assms(3) k l4 by (auto simp: enc_route_def)
  obtain b3 where b3: "WriteBuf b2 (map Some (addr ?g)) 4 = Some b3" "writing b3 (bs @ enc_route r)"
    using WriteBuf_append_exact [OF b2(2), of "addr ?g" 4] assms(3) k l4 by (auto simp: enc_route_def)
  have "mem32 host_le (IPToUINT host_le ?g) = addr ?g"
    using l4(2) by (simp add: IPToUINT_def mem_of_mem)
  with b1(1) b2(1) b3 len k l4 show ?thesis
    by (simp add: write_route_def mem_bytes_def Let_def)
qed

lemma mask_len_byte: "len \<le> 32 \<Longrightarrow> (ucast (ucast len :: u8) :: u32) = len"
  unfolding word_unat_eq_iff
  by (simp add: unsigned_ucast_eq unsigned_take_bit_eq take_bit_nat_eq_self unat_order)

lemma read_route_reading:
  assumes "reading b (enc_route r @ s)" and "route_ok r"
  shows "\<exists>b'. read_route b = Some (Some r, b') \<and> reading b' s"
proof -
  let ?k = "net_octets r" and ?n = "Route_Network r" and ?g = "Route_Gateway r" and ?l = "Route_SubnetMaskLen r"
  have len: "?l \<le> 32" and l4: "length (addr ?n) = 4" "length (addr ?g) = 4"
    using assms(2) by (simp_all add: route_ok_def)
  note k = data_len_unat [OF len]
  obtain b1 where b1: "ReadBufChar b = Some (ucast ?l, b1)" "reading b1 (take ?k (addr ?n) @ addr ?g @ s)"
    using ReadBufChar_reading [of b] assms(1) by (auto simp: enc_route_def)
  obtain b2 where b2: "ReadBuf b1 True ((?l + 7) div 8) = Some ((?l + 7) div 8, map Some (take ?k (addr ?n)), b2)"
    "reading b2 (addr ?g @ s)"
    using ReadBuf_exact [OF b1(2)] k l4 by auto
  obtain b3 where b3: "ReadBuf b2 True 4 = Some (4, map Some (addr ?g), b3)" "reading b3 s"
    using ReadBuf_exact [OF b2(2), of 4] l4 by auto
  have lim: "\<not> 4 < (?l + 7) div 8" using k by (simp add: unat_order)
  have "r = \<lparr>Route_Exists = True,
      Route_Network = ZeroIP\<lparr>addr := take ?k (addr ?n) @ replicate (4 - length (take ?k (addr ?n))) 0\<rparr>,
      Route_SubnetMask = IntToSubnetMask4 host_le ?l,
      Route_Gateway = UINTToIP host_le (of_mem32 host_le (addr ?g)), Route_SubnetMaskLen = ?l\<rparr>"
    by (rule DHCP_CLASSLESS_ROUTE.equality)
      (use assms(2) k(2) l4 in \<open>simp_all add: route_ok_def UINTToIP_def mem_of_mem min_absorb2\<close>)
  then show ?thesis using b1(1) b2(1) b3 len lim
    by (simp add: read_route_def Let_def mask_len_byte)
qed

text \<open>A table as the parser fills it: the routes in front, empty entries behind.\<close>

definition route_table :: "DHCP_CLASSLESS_ROUTE list \<Rightarrow> DHCP_CLASSLESS_ROUTE_TABLE" where
  "route_table rs = \<lparr>NumExistingRoutes = of_nat (length rs), Entries = rs @ replicate (64 - length rs) no_route\<rparr>"

definition add_new :: "DHCP_CLASSLESS_ROUTE list \<Rightarrow> DHCP_CLASSLESS_ROUTE list \<Rightarrow> DHCP_CLASSLESS_ROUTE list" where
  "add_new rs qs = fold (\<lambda>r qs. if r \<in> set qs then qs else qs @ [r]) rs qs"

lemma no_routes_table: "no_routes = route_table []"
  by (simp add: no_routes_def route_table_def)

lemma add_new_known: "set rs \<subseteq> set qs \<Longrightarrow> add_new rs qs = qs"
  unfolding add_new_def by (induction rs) auto

lemma add_new_fresh: "distinct rs \<Longrightarrow> set rs \<inter> set qs = {} \<Longrightarrow> add_new rs qs = qs @ rs"
  unfolding add_new_def by (induction rs arbitrary: qs) auto

lemma not_no_route: "route_ok r \<Longrightarrow> r \<noteq> no_route"
  by (auto simp: route_ok_def no_route_def)

lemma Current_less:
  assumes "reading b bs"
  shows "(Current b < Size b) = (bs \<noteq> [])"
proof -
  have "length bs = unat (Size b) - unat (Current b)" using assms by (auto simp: reading_def length_unread)
  then show ?thesis unfolding unat_order by (cases bs) auto
qed

lemma add_new_Cons: "add_new (r # rs) qs = add_new rs (if r \<in> set qs then qs else qs @ [r])"
  by (simp add: add_new_def)

lemma add_new_grows: "length qs \<le> length (add_new rs qs)"
proof (induction rs arbitrary: qs)
  case (Cons r rs)
  from Cons [of qs] Cons [of "qs @ [r]"] show ?case by (simp add: add_new_Cons)
qed (simp add: add_new_def)

lemma table_in: "route_ok r \<Longrightarrow> (r \<in> set (Entries (route_table qs))) = (r \<in> set qs)"
  by (auto simp: route_table_def dest: not_no_route)

lemma table_store:
  assumes "length qs < 64"
  shows "(route_table qs)\<lparr>Entries := (Entries (route_table qs))[unat (NumExistingRoutes (route_table qs)) := r],
    NumExistingRoutes := NumExistingRoutes (route_table qs) + 1\<rparr> = route_table (qs @ [r])"
proof -
  have "64 - length qs = Suc (63 - length qs)" using assms by simp
  then have "replicate (64 - length qs) no_route = no_route # replicate (63 - length qs) no_route" by simp
  then show ?thesis using assms by (simp add: route_table_def nowrap list_update_append)
qed

lemma classless_loop_eq:
  "list_all route_ok rs \<Longrightarrow> reading b (concat (map enc_route rs)) \<Longrightarrow> length (add_new rs qs) \<le> 64 \<Longrightarrow>
   classless_loop b (route_table qs) = Some (route_table (add_new rs qs))"
proof (induction rs arbitrary: b qs)
  case Nil
  then show ?case using Current_less [of b "[]"] by (simp add: classless_loop.simps [of b] add_new_def)
next
  case (Cons r rs)
  then have ok: "route_ok r" by simp
  obtain b1 where b1: "read_route b = Some (Some r, b1)" "reading b1 (concat (map enc_route rs))"
    using read_route_reading [of b r "concat (map enc_route rs)"] Cons(2,3) by auto
  have more: "Current b < Size b" using Current_less [OF Cons(3)] enc_route_length [OF ok] by simp
  show ?case
  proof (cases "r \<in> set qs")
    case True
    then have "add_new (r # rs) qs = add_new rs qs" by (simp add: add_new_def)
    then show ?thesis using Cons True more b1
      by (subst classless_loop.simps) (simp add: table_in [OF ok])
  next
    case False
    then have new: "add_new (r # rs) qs = add_new rs (qs @ [r])" by (simp add: add_new_def)
    with Cons(4) add_new_grows [of "qs @ [r]" rs] have l: "length qs < 64" by simp
    then have "\<not> 64 \<le> NumExistingRoutes (route_table qs)" by (simp add: route_table_def unat_order nowrap)
    then show ?thesis using Cons(1) [OF _ b1(2), of "qs @ [r]"] Cons(2,4) False more b1(1) new
      by (subst classless_loop.simps) (simp add: table_in [OF ok] table_store [OF l])
  qed
qed

lemma DhcpParse_routes:
  assumes "list_all route_ok rs" and "rs \<noteq> []" and "length rs \<le> 64" and "length (add_new rs qs) \<le> 64"
    and "d = concat (map enc_route rs)" and "unat n = length d"
  shows "DhcpParseClasslessRouteData (route_table qs) d n = Some (route_table (add_new rs qs))"
proof -
  have "length (concat (map enc_route rs)) \<le> 9 * length rs"
    using assms(1) by (induction rs) (auto dest: enc_route_length)
  then have small: "length d \<le> BUF_MAX" using assms(3,5) by simp
  have "d \<noteq> []" using assms(1,2,5) by (cases rs) (auto dest: enc_route_length)
  then have "n \<noteq> 0" using assms(6) by (metis length_0_conv unat_0)
  moreover obtain b where "MemToBuf (map Some d) n = Some b" "reading b d"
    using MemToBuf_reading [OF small assms(6)] by blast
  ultimately show ?thesis
    using classless_loop_eq [OF assms(1) _ assms(4)] assms(5) by (simp add: DhcpParseClasslessRouteData_def)
qed

lemma write_routes_append:
  "writing b bs \<Longrightarrow> list_all route_ok rs \<Longrightarrow> length bs + length (concat (map enc_route rs)) \<le> BUF_MAX \<Longrightarrow>
   \<exists>b'. write_list write_route b (rs @ replicate n no_route) = Some b' \<and> writing b' (bs @ concat (map enc_route rs))"
proof (induction rs arbitrary: b bs)
  case Nil
  have "write_list write_route b (replicate n no_route) = Some b"
    by (induction n) (simp_all add: write_route_def no_route_def)
  then show ?case using Nil by simp
next
  case (Cons r rs)
  obtain b1 where b1: "write_route b r = Some b1" "writing b1 (bs @ enc_route r)"
    using write_route_append [OF Cons(2), of r] Cons(3,4) by auto
  with Cons(1) [OF b1(2)] Cons(3,4) show ?case by auto
qed

lemma DhcpBuild_routes:
  assumes "list_all route_ok rs" and "rs \<noteq> []" and "length rs \<le> 64"
  shows "\<exists>b. DhcpBuildClasslessRouteData (route_table rs) = Some (Some b) \<and> reading b (concat (map enc_route rs)) \<and>
    contents b = concat (map enc_route rs)"
proof -
  have small: "length (concat (map enc_route rs)) \<le> 9 * length rs"
    using assms(1) by (induction rs) (auto dest: enc_route_length)
  obtain b where b: "NewBuf = Some b" "writing b []" using NewBuf_writing by blast
  obtain b1 where b1: "write_list write_route b (rs @ replicate (64 - length rs) no_route) = Some b1"
    "writing b1 (concat (map enc_route rs))"
    using write_routes_append [OF b(2) assms(1)] small assms(3) by auto
  have "NumExistingRoutes (route_table rs) \<noteq> 0"
    using assms(2,3) by (simp add: route_table_def word_unat_eq_iff nowrap)
  then have "DhcpBuildClasslessRouteData (route_table rs) = Some (Some (SeekBufToBegin b1))"
    using assms(3) by (simp add: DhcpBuildClasslessRouteData_def route_table_def b(1) b1(1))
  then show ?thesis using SeekBufToBegin_reading [OF b1(2)] b1(2)
    by (simp add: writing_def SeekBufToBegin_def)
qed

section \<open>A reply of the server, as the client reads it\<close>

definition or_else :: "'a option \<Rightarrow> 'a option \<Rightarrow> 'a option" where
  "or_else a b = (if a = None then b else a)"

lemma or_else_simps [simp]: "or_else None b = b" "or_else a None = a" "or_else (Some x) b = Some x"
  by (simp_all add: or_else_def)

lemma GetDhcpOption_append: "GetDhcpOption (xs @ ys) i = or_else (GetDhcpOption ys i) (GetDhcpOption xs i)"
proof -
  have "fold (\<lambda>opt ret. if Opt_Id opt = i then Some opt else ret) ys r =
      or_else (fold (\<lambda>opt ret. if Opt_Id opt = i then Some opt else ret) ys None) r" for r
    by (induction ys rule: rev_induct) auto
  then show ?thesis unfolding GetDhcpOption_def fold_append o_apply by blast
qed

lemma GetDhcpOption_simps [simp]:
  "GetDhcpOption [] i = None" "GetDhcpOption [a] i = (if Opt_Id a = i then Some a else None)"
  by (simp_all add: GetDhcpOption_def)

lemma GetDhcpOption_Cons:
  "GetDhcpOption (a # xs) i = or_else (GetDhcpOption xs i) (if Opt_Id a = i then Some a else None)"
  using GetDhcpOption_append [of "[a]" xs i] by simp

lemma GetDhcpOption_if: "GetDhcpOption (if c then xs else ys) i = (if c then GetDhcpOption xs i else GetDhcpOption ys i)"
  by simp

definition opt_uint :: "u32 \<Rightarrow> u32 \<Rightarrow> DHCP_OPTION" where
  "opt_uint i v = \<lparr>Opt_Id = i, Opt_Size = 4, Opt_Data = mem32 host_le v\<rparr>"

definition opt_bytes :: "u32 \<Rightarrow> u8 list \<Rightarrow> DHCP_OPTION" where
  "opt_bytes i d = \<lparr>Opt_Id = i, Opt_Size = of_nat (length d), Opt_Data = d\<rparr>"

lemma uint_option_eq: "uint_option i v = Some (opt_uint i v)"
  by (simp add: uint_option_def NewDhcpOption_def mem_bytes_def opt_uint_def)

lemma bytes_option_eq: "unat n = length d \<Longrightarrow> NewDhcpOption i d n = Some (opt_bytes i d)"
  by (simp add: NewDhcpOption_def mem_bytes_def opt_bytes_def) (metis of_nat_unat32)

lemma opt_fields [simp]:
  "Opt_Id (opt_uint i v) = i" "Opt_Size (opt_uint i v) = 4" "Opt_Data (opt_uint i v) = mem32 host_le v"
  "Opt_Id (opt_bytes i d) = i" "Opt_Size (opt_bytes i d) = of_nat (length d)" "Opt_Data (opt_bytes i d) = d"
  by (simp_all add: opt_uint_def opt_bytes_def)

definition dns_bytes :: "DHCP_OPTION_LIST \<Rightarrow> u8 list" where
  "dns_bytes opt = mem32 host_le (DnsServer opt) @ (if DnsServer2 opt \<noteq> 0 then mem32 host_le (DnsServer2 opt) else [])"

definition reply_options :: "DHCP_OPTION_LIST \<Rightarrow> DHCP_CLASSLESS_ROUTE list \<Rightarrow> DHCP_OPTION list" where
  "reply_options opt rs =
     [opt_bytes DHCP_ID_MESSAGE_TYPE [ucast (Opcode opt)], opt_uint DHCP_ID_SERVER_ADDRESS (ServerAddress opt)] @
     (if LeaseTime opt \<noteq> 0 then [opt_uint DHCP_ID_LEASE_TIME (LeaseTime opt)] else []) @
     (if DomainName opt \<noteq> [] then [opt_bytes DHCP_ID_DOMAIN_NAME (DomainName opt)] else []) @
     (if DhcpSubnetMask opt \<noteq> 0 then [opt_uint DHCP_ID_SUBNET_MASK (DhcpSubnetMask opt)] else []) @
     (if Gateway opt \<noteq> 0 then [opt_uint DHCP_ID_GATEWAY_ADDR (Gateway opt)] else []) @
     [opt_bytes DHCP_ID_DNS_ADDR (dns_bytes opt)] @
     (if rs \<noteq> [] then [opt_bytes DHCP_ID_CLASSLESS_ROUTE (concat (map enc_route rs)),
        opt_bytes DHCP_ID_MS_CLASSLESS_ROUTE (concat (map enc_route rs))] else [])"

text \<open>An offer or an acknowledgement with a name server.\<close>

definition reply_ok :: "DHCP_OPTION_LIST \<Rightarrow> DHCP_CLASSLESS_ROUTE list \<Rightarrow> bool" where
  "reply_ok opt rs \<longleftrightarrow> (Opcode opt = DHCP_OFFER \<or> Opcode opt = DHCP_ACK) \<and> DnsServer opt \<noteq> 0 \<and>
     is_cstr (DomainName opt) \<and> length (DomainName opt) \<le> 255 \<and>
     ClasslessRoute opt = route_table rs \<and> list_all route_ok rs \<and> distinct rs \<and> length rs \<le> 64"

lemma routes_length: "list_all route_ok rs \<Longrightarrow> length (concat (map enc_route rs)) \<le> 9 * length rs"
  by (induction rs) (auto dest: enc_route_length)

lemma add_Some: "add_option (Some x) os = Some (os @ [x])"
  by (simp add: add_option_def)

lemma maybe_add: "(if c then Some (os @ [x]) else Some os) = Some (os @ (if c then [x] else []))"
  by simp

lemma BuildDhcpOption_eq:
  assumes "reply_ok opt rs"
  shows "BuildDhcpOption opt = Some (reply_options opt rs)"
proof -
  note r = assms [unfolded reply_ok_def]
  have name: "(StrLen (DomainName opt) \<noteq> 0) = (DomainName opt \<noteq> [])" "unat (StrLen (DomainName opt)) = length (DomainName opt)"
    using r by (auto simp: StrLen_def nowrap word_unat_eq_iff)
  have dns: "unat (of_nat (length (dns_bytes opt)) :: u32) = length (dns_bytes opt)"
    "(if DnsServer opt \<noteq> 0 then mem32 host_le (DnsServer opt) else []) @
       (if DnsServer2 opt \<noteq> 0 then mem32 host_le (DnsServer2 opt) else []) = dns_bytes opt" "1 \<le> length (dns_bytes opt)"
    using r by (simp_all add: dns_bytes_def nowrap)
  have num: "(1 \<le> NumExistingRoutes (ClasslessRoute opt)) = (rs \<noteq> [])"
    using r by (cases rs) (auto simp: route_table_def unat_order nowrap)
  have routes: "\<exists>b. DhcpBuildClasslessRouteData (ClasslessRoute opt) = Some (Some b) \<and>
      cells_value (take (unat (Size b)) (Buf b)) = Some (concat (map enc_route rs)) \<and>
      unat (Size b) = length (concat (map enc_route rs))" if ne: "rs \<noteq> []"
  proof -
    obtain b where b: "DhcpBuildClasslessRouteData (ClasslessRoute opt) = Some (Some b)"
      "reading b (concat (map enc_route rs))" "contents b = concat (map enc_route rs)"
      using DhcpBuild_routes [OF _ ne] r by metis
    have wf: "buf_wf b" using b(2) by (simp add: reading_def)
    show ?thesis using b(1,3) buf_wf_cells [OF wf] length_contents [OF wf] by simp
  qed
  have head: "NewDhcpOption DHCP_ID_MESSAGE_TYPE [ucast (Opcode opt)] 1 = Some (opt_bytes DHCP_ID_MESSAGE_TYPE [ucast (Opcode opt)])"
    by (rule bytes_option_eq) simp
  have dom: "NewDhcpOption DHCP_ID_DOMAIN_NAME (DomainName opt) (StrLen (DomainName opt)) =
      Some (opt_bytes DHCP_ID_DOMAIN_NAME (DomainName opt))"
    by (rule bytes_option_eq) (rule name(2))
  have dnso: "NewDhcpOption DHCP_ID_DNS_ADDR (dns_bytes opt) (of_nat (length (dns_bytes opt))) =
      Some (opt_bytes DHCP_ID_DNS_ADDR (dns_bytes opt))"
    by (rule bytes_option_eq) (rule dns(1))
  have "BuildDhcpOption opt =
      (let os = reply_options opt []
       in if 1 \<le> NumExistingRoutes (ClasslessRoute opt)
       then do {
         b \<leftarrow> DhcpBuildClasslessRouteData (ClasslessRoute opt);
         case b of
           None \<Rightarrow> Some os
         | Some b \<Rightarrow> do {
             d \<leftarrow> cells_value (take (unat (Size b)) (Buf b));
             os \<leftarrow> add_option (NewDhcpOption DHCP_ID_CLASSLESS_ROUTE d (Size b)) os;
             add_option (NewDhcpOption DHCP_ID_MS_CLASSLESS_ROUTE d (Size b)) os
           }
       }
       else Some os)"
    using r unfolding BuildDhcpOption_def Let_def dns(2) head dom dnso uint_option_eq name(1) add_Some maybe_add
    by (simp add: dns(3) reply_options_def del: One_nat_def split del: if_split cong: if_cong option.case_cong)
  then show ?thesis using num routes
    by (cases "rs = []") (auto simp: Let_def add_Some bytes_option_eq reply_options_def)
qed

lemma reply_lookup:
  "GetDhcpOption (reply_options opt rs) DHCP_ID_MESSAGE_TYPE = Some (opt_bytes DHCP_ID_MESSAGE_TYPE [ucast (Opcode opt)])"
  "GetDhcpOption (reply_options opt rs) DHCP_ID_SERVER_ADDRESS = Some (opt_uint DHCP_ID_SERVER_ADDRESS (ServerAddress opt))"
  "GetDhcpOption (reply_options opt rs) DHCP_ID_LEASE_TIME =
     (if LeaseTime opt = 0 then None else Some (opt_uint DHCP_ID_LEASE_TIME (LeaseTime opt)))"
  "GetDhcpOption (reply_options opt rs) DHCP_ID_DOMAIN_NAME =
     (if DomainName opt = [] then None else Some (opt_bytes DHCP_ID_DOMAIN_NAME (DomainName opt)))"
  "GetDhcpOption (reply_options opt rs) DHCP_ID_SUBNET_MASK =
     (if DhcpSubnetMask opt = 0 then None else Some (opt_uint DHCP_ID_SUBNET_MASK (DhcpSubnetMask opt)))"
  "GetDhcpOption (reply_options opt rs) DHCP_ID_GATEWAY_ADDR =
     (if Gateway opt = 0 then None else Some (opt_uint DHCP_ID_GATEWAY_ADDR (Gateway opt)))"
  "GetDhcpOption (reply_options opt rs) DHCP_ID_DNS_ADDR = Some (opt_bytes DHCP_ID_DNS_ADDR (dns_bytes opt))"
  "GetDhcpOption (reply_options opt rs) DHCP_ID_WINS_ADDR = None"
  "GetDhcpOption (reply_options opt rs) DHCP_ID_CLASSLESS_ROUTE =
     (if rs = [] then None else Some (opt_bytes DHCP_ID_CLASSLESS_ROUTE (concat (map enc_route rs))))"
  "GetDhcpOption (reply_options opt rs) DHCP_ID_MS_CLASSLESS_ROUTE =
     (if rs = [] then None else Some (opt_bytes DHCP_ID_MS_CLASSLESS_ROUTE (concat (map enc_route rs))))"
  by (simp_all add: reply_options_def GetDhcpOption_append GetDhcpOption_Cons GetDhcpOption_if cong: if_cong)

lemma enc_pieces_length: "length (enc_pieces c d) \<le> 3 * length d + 2"
proof (induction c d rule: enc_pieces.induct)
  case (1 c d)
  show ?case
  proof (cases "length d \<le> 255")
    case True
    then show ?thesis by (subst enc_pieces.simps) simp
  next
    case False
    then show ?thesis using 1 by (subst enc_pieces.simps) simp
  qed
qed

lemma enc_dhcp_length: "length (enc_dhcp a) \<le> 3 * length (Opt_Data a) + 2"
  unfolding enc_dhcp_def by (rule enc_pieces_length)

lemma options_length: "length (concat (map enc_dhcp os)) \<le> 3 * sum_list (map (\<lambda>a. length (Opt_Data a)) os) + 2 * length os"
proof (induction os)
  case (Cons a os)
  then show ?case using enc_dhcp_length [of a] by simp
qed simp

lemma reply_options_ok:
  assumes "reply_ok opt rs"
  shows "list_all option_ok (reply_options opt rs)" and "list_all option_id_ok (reply_options opt rs)"
    and "length (concat (map enc_dhcp (reply_options opt rs))) < BUF_MAX"
proof -
  note r = assms [unfolded reply_ok_def]
  have rl: "length (concat (map enc_route rs)) \<le> 9 * 64"
    using r routes_length [of rs] by (meson le_trans mult_le_mono2)
  have dl: "length (dns_bytes opt) \<le> 8" by (simp add: dns_bytes_def)
  have u: "option_ok (opt_uint i v)" for i v by (simp add: option_ok_def)
  have b: "option_ok (opt_bytes i d)" if "length d \<le> 1000" for i d
    using that by (simp add: option_ok_def nowrap)
  show "list_all option_ok (reply_options opt rs)"
    using r rl dl by (auto simp: reply_options_def intro!: u b)
  show "list_all option_id_ok (reply_options opt rs)"
    by (auto simp: reply_options_def option_id_ok_def)
  have "sum_list (map (\<lambda>a. length (Opt_Data a)) (reply_options opt rs)) \<le> 3000"
    using r rl dl by (auto simp: reply_options_def)
  moreover have "length (reply_options opt rs) \<le> 10" by (simp add: reply_options_def)
  ultimately show "length (concat (map enc_dhcp (reply_options opt rs))) < BUF_MAX"
    using options_length [of "reply_options opt rs"] by linarith
qed

text \<open>What the client has after reading the reply.\<close>

definition received_reply :: "DHCP_OPTION_LIST \<Rightarrow> DHCP_OPTION_LIST" where
  "received_reply opt = no_options\<lparr>Opcode := Opcode opt, ServerAddress := ServerAddress opt,
     LeaseTime := Endian32 host_le (LeaseTime opt), DomainName := DomainName opt,
     DhcpSubnetMask := DhcpSubnetMask opt, Gateway := Gateway opt, DnsServer := DnsServer opt,
     DnsServer2 := DnsServer2 opt, ClasslessRoute := ClasslessRoute opt\<rparr>"

lemma option_uint_uint [simp]: "option_uint (opt_uint i v) 0 = Some v"
  by (simp add: option_uint_def mem_bytes_def of_mem_mem)

lemma option_str_bytes:
  assumes "is_cstr d" and "length d \<le> 255"
  shows "option_str (opt_bytes i d) = Some d"
proof -
  have "unat (min (of_nat (length d) :: u32) 255) = length d"
    using assms(2) by (simp add: min_def unat_order nowrap)
  then show ?thesis using assms(1) by (simp add: option_str_def mem_bytes_def)
qed

lemma parse_reply_options:
  assumes "reply_ok opt rs" and "ParseDhcpOptions d n = Some (reply_options opt rs)"
  shows "ParseDhcpOptionList d n = Some (received_reply opt)"
proof -
  note r = assms(1) [unfolded reply_ok_def]
  have op: "ucast (ucast (Opcode opt) :: u8) = Opcode opt" using r by auto
  have lease: "of_be32 (mem32 host_le v) = Endian32 host_le v" for v
    using Endian_of_mem [of "mem32 host_le v" host_le] by (simp add: of_mem_mem)
  have dns: "option_uint (opt_bytes i (dns_bytes opt)) 0 = Some (DnsServer opt)"
    "DnsServer2 opt \<noteq> 0 \<Longrightarrow> option_uint (opt_bytes i (dns_bytes opt)) 4 = Some (DnsServer2 opt)"
    "length (dns_bytes opt) = (if DnsServer2 opt \<noteq> 0 then 8 else 4)" for i
    by (simp_all add: option_uint_def mem_bytes_def dns_bytes_def of_mem_mem)
  have zero_lease: "Endian32 host_le 0 = 0" by (simp add: lease [symmetric] mem32_def be32_def)
  have name: "option_str (opt_bytes i (DomainName opt)) = Some (DomainName opt)"
    "(1 :: u32) \<le> of_nat (length (DomainName opt)) \<longleftrightarrow> DomainName opt \<noteq> []" for i
    using r by (auto simp: option_str_bytes unat_order nowrap Suc_le_eq)
  have len: "unat (of_nat (length (concat (map enc_route rs))) :: u32) = length (concat (map enc_route rs))"
  proof (rule unat_of_nat32)
    show "length (concat (map enc_route rs)) < two32" using r routes_length [of rs] by linarith
  qed
  have routes: "DhcpParseClasslessRouteData no_routes (concat (map enc_route rs)) (of_nat (length (concat (map enc_route rs)))) =
      Some (route_table rs)"
    "DhcpParseClasslessRouteData (route_table rs) (concat (map enc_route rs)) (of_nat (length (concat (map enc_route rs)))) =
      Some (route_table rs)" if "rs \<noteq> []"
    using DhcpParse_routes [OF _ that _ _ refl len, of "[]"] DhcpParse_routes [OF _ that _ _ refl len, of rs] r
    by (simp_all add: no_routes_table add_new_fresh add_new_known)
  let ?os = "reply_options opt rs"
  have steps:
    "with_option ?os DHCP_ID_MESSAGE_TYPE (\<lambda>n. n = 1)
       (\<lambda>a ret. map_option (\<lambda>c. ret\<lparr>Opcode := ucast (hd c)\<rparr>) (mem_bytes (Opt_Data a) 0 1)) ret =
     Some (ret\<lparr>Opcode := Opcode opt\<rparr>)"
    "DhcpSubnetMask ret = 0 \<Longrightarrow> with_option ?os DHCP_ID_SUBNET_MASK (\<lambda>n. n \<ge> 4)
       (\<lambda>a ret. map_option (\<lambda>v. ret\<lparr>DhcpSubnetMask := v\<rparr>) (option_uint a 0)) ret =
     Some (ret\<lparr>DhcpSubnetMask := DhcpSubnetMask opt\<rparr>)"
    "LeaseTime ret = 0 \<Longrightarrow> with_option ?os DHCP_ID_LEASE_TIME (\<lambda>n. n = 4)
       (\<lambda>a ret. map_option (\<lambda>d. ret\<lparr>LeaseTime := of_be32 d\<rparr>) (mem_bytes (Opt_Data a) 0 4)) ret =
     Some (ret\<lparr>LeaseTime := Endian32 host_le (LeaseTime opt)\<rparr>)"
    "with_option ?os DHCP_ID_SERVER_ADDRESS (\<lambda>n. n \<ge> 4)
       (\<lambda>a ret. map_option (\<lambda>v. ret\<lparr>ServerAddress := v\<rparr>) (option_uint a 0)) ret =
     Some (ret\<lparr>ServerAddress := ServerAddress opt\<rparr>)"
    "DomainName ret = [] \<Longrightarrow> with_option ?os DHCP_ID_DOMAIN_NAME (\<lambda>n. n \<ge> 1)
       (\<lambda>a ret. map_option (\<lambda>s. ret\<lparr>DomainName := s\<rparr>) (option_str a)) ret =
     Some (ret\<lparr>DomainName := DomainName opt\<rparr>)"
    "Gateway ret = 0 \<Longrightarrow> with_option ?os DHCP_ID_GATEWAY_ADDR (\<lambda>n. n \<ge> 4)
       (\<lambda>a ret. map_option (\<lambda>v. ret\<lparr>Gateway := v\<rparr>) (option_uint a 0)) ret =
     Some (ret\<lparr>Gateway := Gateway opt\<rparr>)"
    "with_option ?os DHCP_ID_DNS_ADDR (\<lambda>n. n \<ge> 4)
       (\<lambda>a ret. map_option (\<lambda>v. ret\<lparr>DnsServer := v\<rparr>) (option_uint a 0)) ret =
     Some (ret\<lparr>DnsServer := DnsServer opt\<rparr>)"
    "DnsServer2 ret = 0 \<Longrightarrow> with_option ?os DHCP_ID_DNS_ADDR (\<lambda>n. n \<ge> 8)
       (\<lambda>a ret. map_option (\<lambda>v. ret\<lparr>DnsServer2 := v\<rparr>) (option_uint a 4)) ret =
     Some (ret\<lparr>DnsServer2 := DnsServer2 opt\<rparr>)"
    "with_option ?os DHCP_ID_WINS_ADDR ok f ret = Some ret"
    "ClasslessRoute ret = no_routes \<Longrightarrow> with_option ?os DHCP_ID_CLASSLESS_ROUTE (\<lambda>n. True)
       (\<lambda>a ret. map_option (\<lambda>t. ret\<lparr>ClasslessRoute := t\<rparr>)
          (DhcpParseClasslessRouteData (ClasslessRoute ret) (Opt_Data a) (Opt_Size a))) ret =
     Some (ret\<lparr>ClasslessRoute := route_table rs\<rparr>)"
    "ClasslessRoute ret = route_table rs \<Longrightarrow> with_option ?os DHCP_ID_MS_CLASSLESS_ROUTE (\<lambda>n. True)
       (\<lambda>a ret. map_option (\<lambda>t. ret\<lparr>ClasslessRoute := t\<rparr>)
          (DhcpParseClasslessRouteData (ClasslessRoute ret) (Opt_Data a) (Opt_Size a))) ret =
     Some (ret\<lparr>ClasslessRoute := route_table rs\<rparr>)" for ret :: DHCP_OPTION_LIST and ok f
    using r op routes dns lease name
    by (cases ret; auto simp: with_option_def reply_lookup mem_bytes_def zero_lease no_routes_table)+
  show ?thesis using r
    by (auto simp: ParseDhcpOptionList_def assms(2) steps received_reply_def no_options_def simp del: One_nat_def)
qed

section \<open>Reading any bytes\<close>

definition table_sane :: "DHCP_CLASSLESS_ROUTE_TABLE \<Rightarrow> bool" where
  "table_sane t \<longleftrightarrow> length (Entries t) = 64 \<and> NumExistingRoutes t \<le> 64"

lemma read_route_total:
  assumes "reading b (c # s)"
  shows "\<exists>r b' s'. read_route b = Some (r, b') \<and> reading b' s' \<and> length s' \<le> length s"
proof -
  let ?l = "ucast c :: u32"
  obtain b1 where b1: "ReadBufChar b = Some (c, b1)" "reading b1 s" using ReadBufChar_reading [OF assms] by blast
  show ?thesis
  proof (cases "?l > 32 \<or> (?l + 7) div 8 > 4")
    case True
    then show ?thesis using b1 by (auto simp: read_route_def Let_def)
  next
    case False
    then have "unat ((?l + 7) div 8) \<le> 4" by (simp add: unat_order)
    then obtain n b2 where b2: "ReadBuf b1 True ((?l + 7) div 8) = Some (n,
        map Some (take (unat ((?l + 7) div 8)) s @ replicate (unat ((?l + 7) div 8) - length s) 0), b2)"
      "reading b2 (drop (unat ((?l + 7) div 8)) s)"
      using ReadBuf_spec [OF b1(2), of "(?l + 7) div 8" True] by auto
    let ?s = "drop (unat ((?l + 7) div 8)) s"
    obtain m b3 where b3: "ReadBuf b2 True 4 = Some (m, map Some (take 4 ?s @ replicate (4 - length ?s) 0), b3)"
      "reading b3 (drop 4 ?s)"
      using ReadBuf_spec [OF b2(2), of 4 True] by auto
    then show ?thesis using False b1(1) b2
      by (auto simp: read_route_def Let_def cells_value_map_Some simp del: map_append)
  qed
qed

lemma classless_loop_total:
  "reading b s \<Longrightarrow> table_sane t \<Longrightarrow> \<exists>t'. classless_loop b t = Some t' \<and> table_sane t'"
proof (induction "length s" arbitrary: b s t rule: less_induct)
  case less
  show ?case
  proof (cases s)
    case Nil
    then show ?thesis using less(3) Current_less [OF less(2)] by (auto simp: classless_loop.simps [of b])
  next
    case (Cons c s1)
    then obtain r b1 s2 where b1: "read_route b = Some (r, b1)" "reading b1 s2" "length s2 < length s"
      using read_route_total [of b c s1] less(2) by (auto simp: less_Suc_eq_le)
    have more: "Current b < Size b" using Current_less [OF less(2)] Cons by simp
    note again = less(1) [OF b1(3,2)]
    have "table_sane (t\<lparr>Entries := (Entries t)[unat (NumExistingRoutes t) := x], NumExistingRoutes := NumExistingRoutes t + 1\<rparr>)"
      if "\<not> 64 \<le> NumExistingRoutes t" for x
      using that less(3) by (simp add: table_sane_def unat_order nowrap)
    then show ?thesis using less(3) again b1(1) more
      by (subst classless_loop.simps) (auto split: option.split)
  qed
qed

lemma DhcpParseClasslessRouteData_total:
  assumes "table_sane t" and "unat n = length d" and "length d \<le> BUF_MAX"
  shows "\<exists>t'. DhcpParseClasslessRouteData t d n = Some t' \<and> table_sane t'"
proof -
  obtain b where "MemToBuf (map Some d) n = Some b" "reading b d" using MemToBuf_reading [OF assms(3,2)] by blast
  then show ?thesis using classless_loop_total assms(1) by (simp add: DhcpParseClasslessRouteData_def)
qed

definition total_data :: "DHCP_OPTION list \<Rightarrow> nat" where
  "total_data os = sum_list (map (\<lambda>a. length (Opt_Data a)) os)"

lemma total_data_next: "total_data (next_options c sz d os) = total_data os + length d"
proof (cases os rule: rev_cases)
  case Nil
  then show ?thesis by (simp add: total_data_def next_options_def)
next
  case (snoc ys y)
  then show ?thesis by (simp add: total_data_def next_options_def)
qed

lemma decode_total_data: "total_data os + length bs \<le> n \<Longrightarrow> total_data (dhcp_decode bs os) \<le> n + 255"
proof (induction bs os rule: dhcp_decode.induct)
  case (3 c sz bs os)
  show ?case
  proof (cases "c = 0xff")
    case True
    then show ?thesis using 3(2) by simp
  next
    case False
    show ?thesis
    proof (cases "unat sz \<le> length bs")
      case True
      then show ?thesis using 3 False by (simp add: total_data_next)
    next
      case False
      then show ?thesis using 3(2) \<open>c \<noteq> 0xff\<close> unat_byte [of sz] by (simp add: total_data_next)
    qed
  qed
qed simp_all

lemma GetDhcpOption_in: "GetDhcpOption os i = Some a \<Longrightarrow> a \<in> set os"
  by (induction os) (auto simp: GetDhcpOption_Cons or_else_def split: if_splits)

lemma member_total_data: "a \<in> set os \<Longrightarrow> length (Opt_Data a) \<le> total_data os"
  by (induction os) (auto simp: total_data_def)

text \<open>A step that succeeds and keeps the table of routes sane.\<close>

definition sane_step :: "(DHCP_OPTION_LIST \<Rightarrow> DHCP_OPTION_LIST option) \<Rightarrow> bool" where
  "sane_step f \<longleftrightarrow> (\<forall>r. table_sane (ClasslessRoute r) \<longrightarrow> (\<exists>r'. f r = Some r' \<and> table_sane (ClasslessRoute r')))"

lemma sane_bind: "sane_step f \<Longrightarrow> sane_step g \<Longrightarrow> sane_step (\<lambda>r. Option.bind (f r) g)"
  by (fastforce simp: sane_step_def)

lemma sane_if: "sane_step f \<Longrightarrow> sane_step g \<Longrightarrow> sane_step (\<lambda>r. if c r then f r else g r)"
  by (simp add: sane_step_def)

lemma sane_Some: "sane_step Some"
  by (simp add: sane_step_def)

lemma sane_apply:
  "sane_step f \<Longrightarrow> sane_step g \<Longrightarrow> table_sane (ClasslessRoute r) \<Longrightarrow>
   \<exists>s. Option.bind (f r) g = Some s \<and> table_sane (ClasslessRoute s)"
  by (fastforce simp: sane_step_def)

lemma sane_field:
  assumes "\<And>a. GetDhcpOption os i = Some a \<Longrightarrow> ok (Opt_Size a) \<Longrightarrow> \<exists>v. g a = Some v"
    and "\<And>v r. ClasslessRoute (upd v r) = ClasslessRoute r"
  shows "sane_step (with_option os i ok (\<lambda>a ret. map_option (\<lambda>v. upd v ret) (g a)))"
  using assms by (fastforce simp: sane_step_def with_option_def split: option.splits)

lemma ParseDhcpOptionList_total:
  assumes "unat sz \<le> length data" and "unat sz + 255 \<le> BUF_MAX"
  shows "\<exists>r. ParseDhcpOptionList data sz = Some r \<and> table_sane (ClasslessRoute r)"
proof -
  define os where "os = dhcp_decode (take (unat sz) data) []"
  have os: "ParseDhcpOptions data sz = Some os"
    using ParseDhcpOptions_eq [OF assms(1)] assms(2) by (simp add: os_def)
  have "list_all option_ok os"
    unfolding os_def using assms by (intro dhcp_decode_ok) (auto simp: decode_room_def)
  moreover have "total_data os \<le> BUF_MAX"
    using decode_total_data [of "[]" "take (unat sz) data" "unat sz"] assms by (simp add: os_def total_data_def)
  ultimately have opt: "unat (Opt_Size a) = length (Opt_Data a)" "length (Opt_Data a) \<le> BUF_MAX"
    if "GetDhcpOption os i = Some a" for i a
    using GetDhcpOption_in [OF that] member_total_data [of a os] by (auto simp: list_all_iff option_ok_def)
  let ?P = "\<lambda>r. table_sane (ClasslessRoute r)"
  have bytes: "\<exists>d. mem_bytes (Opt_Data a) k n = Some d" if "GetDhcpOption os i = Some a" "k + n \<le> unat (Opt_Size a)" for a i k n
    using opt(1) [OF that(1)] that(2) by (simp add: mem_bytes_def)
  have uint: "\<exists>v. option_uint a k = Some v" if "GetDhcpOption os i = Some a" "k + 4 \<le> unat (Opt_Size a)" for a i k
    using bytes [OF that] by (auto simp: option_uint_def)
  have str: "\<exists>v. option_str a = Some v" if "GetDhcpOption os i = Some a" for a i
    using bytes [OF that, of 0 "unat (min (Opt_Size a) 255)"] by (auto simp: option_str_def min_def unat_order)
  have routes: "\<exists>t. DhcpParseClasslessRouteData (ClasslessRoute r) (Opt_Data a) (Opt_Size a) = Some t \<and> table_sane t"
    if "GetDhcpOption os i = Some a" "?P r" for a i and r :: DHCP_OPTION_LIST
    using DhcpParseClasslessRouteData_total [OF that(2) opt [OF that(1)]] .
  have sane: "sane_step (with_option os i (\<lambda>n. True) (\<lambda>a ret. map_option (\<lambda>t. ret\<lparr>ClasslessRoute := t\<rparr>)
      (DhcpParseClasslessRouteData (ClasslessRoute ret) (Opt_Data a) (Opt_Size a))))" for i
    using routes by (fastforce simp: sane_step_def with_option_def split: option.splits)
  have start: "?P no_options" by (simp add: no_options_def no_routes_def table_sane_def)
  have opcode: "sane_step (with_option os DHCP_ID_MESSAGE_TYPE (\<lambda>n. n = 1)
      (\<lambda>a ret. map_option (\<lambda>c. ret\<lparr>Opcode := ucast (hd c)\<rparr>) (mem_bytes (Opt_Data a) 0 1)))"
    by (rule sane_field) (auto intro: bytes simp: unat_order)
  show ?thesis
    unfolding ParseDhcpOptionList_def os Option.bind.simps
    by (rule sane_apply [OF opcode _ start])
      (intro sane_if sane_bind sane_Some sane sane_field; auto intro!: uint bytes str simp: unat_order)
qed

section \<open>Choosing a classless route\<close>

definition classless_matches :: "IP \<Rightarrow> DHCP_CLASSLESS_ROUTE \<Rightarrow> bool" where
  "classless_matches ip e \<longleftrightarrow>
     Route_Exists e \<and> IsInSameNetwork4 host_le ip (Route_Network e) (Route_SubnetMask e)"

lemma best_classless_loop_spec:
  assumes "\<And>r. ret = Some r \<Longrightarrow> Route_SubnetMaskLen r = m" and "ret = None \<Longrightarrow> m = 0"
  shows "case best_classless_loop ip es m ret of
      None \<Rightarrow> ret = None \<and> (\<forall>e \<in> set es. \<not> classless_matches ip e)
    | Some r \<Rightarrow> (ret = Some r \<or> r \<in> set es \<and> classless_matches ip r) \<and> m \<le> Route_SubnetMaskLen r \<and>
        (\<forall>e \<in> set es. classless_matches ip e \<longrightarrow> Route_SubnetMaskLen e \<le> Route_SubnetMaskLen r)"
  using assms
proof (induction es arbitrary: m ret)
  case Nil
  then show ?case by (auto split: option.split)
next
  case (Cons e es)
  show ?case
  proof (cases "classless_matches ip e \<and> m \<le> Route_SubnetMaskLen e")
    case True
    have "case best_classless_loop ip es (Route_SubnetMaskLen e) (Some e) of
        None \<Rightarrow> False
      | Some r \<Rightarrow> (e = r \<or> r \<in> set es \<and> classless_matches ip r) \<and> Route_SubnetMaskLen e \<le> Route_SubnetMaskLen r \<and>
          (\<forall>x \<in> set es. classless_matches ip x \<longrightarrow> Route_SubnetMaskLen x \<le> Route_SubnetMaskLen r)"
      using Cons(1) [of "Some e" "Route_SubnetMaskLen e"] by (auto split: option.splits)
    with True show ?thesis by (auto simp: classless_matches_def split: option.splits intro: order.trans)
  next
    case False
    then have "best_classless_loop ip (e # es) m ret = best_classless_loop ip es m ret"
      by (auto simp: classless_matches_def)
    moreover have "case best_classless_loop ip es m ret of
        None \<Rightarrow> ret = None \<and> (\<forall>e \<in> set es. \<not> classless_matches ip e)
      | Some r \<Rightarrow> (ret = Some r \<or> r \<in> set es \<and> classless_matches ip r) \<and> m \<le> Route_SubnetMaskLen r \<and>
          (\<forall>e \<in> set es. classless_matches ip e \<longrightarrow> Route_SubnetMaskLen e \<le> Route_SubnetMaskLen r)"
      by (rule Cons(1)) (use Cons(2,3) in auto)
    ultimately show ?thesis using False Cons(3) by (auto split: option.splits intro: order.trans)
  qed
qed

text \<open>The masks by their length.\<close>

lemma subnet_masks_distinct: "distinct subnet_masks" "length subnet_masks = 33"
  by (simp_all add: subnet_masks_def)

lemma subnet_masks_octet: "list_all (\<lambda>c. be32 c ! 0 \<noteq> 223) subnet_masks"
  by (simp add: subnet_masks_def be32_def)

lemma mask_addr: "i < 33 \<Longrightarrow> IntToSubnetMask4 le (of_nat i) = ZeroIP\<lparr>addr := be32 (subnet_masks ! i)\<rparr>"
  by (simp add: IntToSubnetMask4_def IntToSubnetMask32_def UINTToIP_def Let_def mem_Swap)
    (simp add: mem32_def unat_order nowrap)

lemma same_mask:
  assumes "i < 33" and "j < 33"
  shows "same_ip (IntToSubnetMask4 le (of_nat i)) (IntToSubnetMask4 le (of_nat j)) = (i = j)"
proof -
  have "be32 (subnet_masks ! i) = be32 (subnet_masks ! j) \<longleftrightarrow> subnet_masks ! i = subnet_masks ! j"
    by (metis of_be32_be32)
  then show ?thesis using assms subnet_masks_distinct
    by (simp add: same_ip_def mask_addr nth_eq_iff_index_eq)
qed

lemma mask_IP4: "i < 33 \<Longrightarrow> IsIP4 (IntToSubnetMask4 le (of_nat i))"
  using subnet_masks_octet subnet_masks_distinct(2)
  by (simp add: IsIP4_def IsIP6_def mask_addr list_all_length)

lemma SubnetMaskToInt4_back:
  assumes "i \<le> 32"
  shows "SubnetMaskToInt4 host_le (IntToSubnetMask4 host_le i) = i"
proof -
  let ?n = "unat i" and ?m = "IntToSubnetMask4 host_le i"
  have n: "?n < 33" "i = of_nat ?n" using assms by (simp_all add: unat_order)
  have "find (\<lambda>j. same_ip ?m (IntToSubnetMask4 host_le (of_nat j))) [0..<33] = find (\<lambda>j. ?n = j) [0..<33]"
    by (rule find_cong) (use same_mask [OF n(1)] n(2) in auto)
  also have "\<dots> = Some ?n"
    using n(1) by (simp add: find_Some_iff) (rule exI [of _ ?n], simp)
  finally have "find (\<lambda>j. same_ip ?m (IntToSubnetMask4 host_le (of_nat j))) [0..<33] = Some ?n" .
  moreover have "IsIP4 ?m" using mask_IP4 [OF n(1), of host_le] n(2) by simp
  ultimately show ?thesis by (simp add: SubnetMaskToInt4_def)
qed

end
