(* ===== verification/Checksum.thy ===== *)
theory Checksum
  imports Endian
begin

text \<open>
  The Internet checksum of src/src/Mayaqua/TcpIp.c: \<open>IpChecksum\<close>, its use with the UDP
  and TCP pseudo header and its check in an IPv4 header. The 16-bit words are read as they
  are in the memory of the host; \<open>le\<close> is its byte order. The sum is a C \<open>int\<close>;
  it stays far below its limit for the sizes of packets, and is an integer here.
\<close>

fun checksum_sum :: "bool \<Rightarrow> u8 list \<Rightarrow> int" where
  "checksum_sum le [] = 0"
| "checksum_sum le [a] = uint (of_mem16 le [a, 0])"
| "checksum_sum le (a # b # r) = uint (of_mem16 le [a, b]) + checksum_sum le r"

definition checksum_fold :: "int \<Rightarrow> int" where
  "checksum_fold s =
     (let s' = s div 65536 + s mod 65536 in s' + s' div 65536)"

definition IpChecksum :: "bool \<Rightarrow> u8 list \<Rightarrow> u16" where
  "IpChecksum le buf = NOT (word_of_int (checksum_fold (checksum_sum le buf)))"

text \<open>Addresses are kept in memory order, so their bytes are those of the packet.\<close>

definition CalcChecksumForIPv4 :: "bool \<Rightarrow> u32 \<Rightarrow> u32 \<Rightarrow> u8 \<Rightarrow> u8 list \<Rightarrow> u32 \<Rightarrow> u16" where
  "CalcChecksumForIPv4 le src_ip dst_ip protocol data real_size =
     (let real_size = (if real_size = 0 then of_nat (length data) else real_size);
          real_size = (if real_size = 0xFFFFFFFF then 0 else real_size)
      in IpChecksum le (mem32 le src_ip @ mem32 le dst_ip @ [0, protocol] @
           mem16 le (Endian16 le (ucast real_size)) @ data))"

text \<open>A header is its bytes; the checksum is the two at offset 10.\<close>

definition IpCheckChecksum :: "bool \<Rightarrow> u8 list \<Rightarrow> bool" where
  "IpCheckChecksum le ip =
     (let header_size = unat (hd ip AND 0x0f) * 4;
          checksum_original = of_mem16 le (take 2 (drop 10 ip));
          zeroed = take 10 ip @ [0, 0] @ drop 12 ip;
          checksum_calc = IpChecksum le (take header_size zeroed)
      in checksum_original = checksum_calc)"

section \<open>The receiver's test\<close>

lemma uint_u16: "0 \<le> uint (x :: u16) \<and> uint x < 65536"
  using uint_lt2p [of x] by simp

lemma uint_NOT16: "uint (NOT w) = 65535 - uint (w :: u16)"
proof -
  have "NOT w = - 1 - w" by (simp add: not_eq_complement)
  moreover have "uint (- 1 :: u16) = 65535" by (simp add: unsigned_minus_1_eq_mask mask_eq_exp_minus_1)
  ultimately show ?thesis using uint_u16 [of w] by (simp add: uint_sub_if')
qed

lemma mem16_pair:
  obtains a b where "mem16 le w = [a, b]"
proof -
  have "length (mem16 le w) = Suc (Suc 0)" using length_mem(1) [of le w] by simp
  then show thesis using that by (auto simp: length_Suc_conv simp del: length_mem)
qed

lemma checksum_sum_bounds: "0 \<le> checksum_sum le buf \<and> checksum_sum le buf \<le> 65535 * int (length buf)"
proof (induction le buf rule: checksum_sum.induct)
  case (2 le a)
  then show ?case using uint_u16 [of "of_mem16 le [a, 0]"] by simp
next
  case (3 le a b r)
  then show ?case using uint_u16 [of "of_mem16 le [a, b]"] by simp
qed simp

lemma checksum_sum_append:
  "even (length xs) \<Longrightarrow> checksum_sum le (xs @ ys) = checksum_sum le xs + checksum_sum le ys"
proof (induction le xs rule: checksum_sum.induct)
  case (3 le a b r)
  then show ?case by simp
qed auto

text \<open>Folding twice computes the sum modulo 65535, with 65535 for the multiples that are not 0.\<close>

definition ones_sum :: "int \<Rightarrow> int" where
  "ones_sum s = (if s = 0 then 0 else if s mod 65535 = 0 then 65535 else s mod 65535)"

lemma checksum_fold_mod:
  assumes "0 \<le> s" and "s < 0x80000000"
  shows "checksum_fold s mod 65536 = ones_sum s"
proof -
  define h l where "h = s div 65536" and "l = s mod 65536"
  have s: "s = 65536 * h + l" and hl: "0 \<le> h" "h < 32768" "0 \<le> l" "l < 65536"
    using assms by (auto simp: h_def l_def)
  have f: "checksum_fold s = h + l + (h + l) div 65536"
    by (simp add: checksum_fold_def Let_def h_def l_def)
  have "s = (h + l) + h * 65535" unfolding s by simp
  then have m: "s mod 65535 = (h + l) mod 65535" by (metis mod_mult_self1)
  consider "h + l < 65535" | "h + l = 65535" | "65536 \<le> h + l" by linarith
  then show ?thesis
  proof cases
    case 1
    then have "checksum_fold s mod 65536 = h + l" "s mod 65535 = h + l" using f hl m by auto
    then show ?thesis using s hl by (auto simp: ones_sum_def)
  next
    case 2
    then have "checksum_fold s mod 65536 = 65535" "s mod 65535 = 0" using f m by auto
    moreover have "s \<noteq> 0" using 2 s hl by auto
    ultimately show ?thesis by (simp add: ones_sum_def)
  next
    case 3
    define d where "d = h + l - 65536"
    have d: "h + l = d + 65536" "0 \<le> d" "d < 65534" using 3 hl by (auto simp: d_def)
    have "(d + 65536) div 65536 = 1" using d by simp
    moreover have "(d + 65536) mod 65535 = d + 1"
      using mod_add_self2 [of "d + 1" 65535] d by (simp add: add.commute)
    ultimately have "checksum_fold s = d + 65536 + 1" "s mod 65535 = d + 1" using f m d(1) by auto
    moreover have "(d + 65536 + 1) mod 65536 = d + 1"
      using mod_add_self2 [of "d + 1" 65536] d by (simp add: add.commute)
    ultimately have "checksum_fold s mod 65536 = d + 1" "s mod 65535 = d + 1" by simp_all
    moreover have "s \<noteq> 0" using 3 s hl by auto
    ultimately show ?thesis using d by (auto simp: ones_sum_def)
  qed
qed

lemma uint_IpChecksum:
  assumes "length buf < 32768"
  shows "uint (IpChecksum le buf) = 65535 - ones_sum (checksum_sum le buf)"
proof -
  have "0 \<le> checksum_sum le buf" "checksum_sum le buf < 0x80000000"
    using checksum_sum_bounds [of le buf] assms by auto
  then have f: "checksum_fold (checksum_sum le buf) mod 65536 = ones_sum (checksum_sum le buf)"
    by (rule checksum_fold_mod)
  then show ?thesis by (simp add: IpChecksum_def uint_NOT16 uint_word_of_int)
qed

text \<open>A block whose two checksum bytes are those computed with zeros in their place sums to zero.\<close>

lemma checksum_verifies:
  assumes "even (length a)" and "length a + length b + 2 < 32768"
  shows "IpChecksum le (a @ mem16 le (IpChecksum le (a @ [0, 0] @ b)) @ b) = 0"
proof -
  let ?C = "IpChecksum le (a @ [0, 0] @ b)"
  define S where "S = checksum_sum le a + checksum_sum le b"
  have z: "checksum_sum le (a @ [0, 0] @ b) = S"
    using assms(1) by (simp add: checksum_sum_append S_def of_mem16_def)
  have C: "uint ?C = 65535 - ones_sum S" using uint_IpChecksum [of "a @ [0, 0] @ b" le] assms(2) z by simp
  obtain x y where xy: "mem16 le ?C = [x, y]" by (rule mem16_pair)
  then have "of_mem16 le [x, y] = ?C" by (metis of_mem_mem(1))
  then have t: "checksum_sum le (a @ mem16 le ?C @ b) = S + uint ?C"
    using assms(1) xy by (simp add: checksum_sum_append S_def)
  have S: "0 \<le> S" using checksum_sum_bounds [of le a] checksum_sum_bounds [of le b] by (simp add: S_def)
  have "ones_sum (S + (65535 - ones_sum S)) = 65535"
  proof (cases "S = 0 \<or> S mod 65535 = 0")
    case True
    then show ?thesis by (auto simp: ones_sum_def)
  next
    case False
    have "S + (65535 - S mod 65535) = 65535 * (S div 65535 + 1)"
      using minus_mod_eq_mult_div [of S 65535] by simp
    then have "(S + (65535 - S mod 65535)) mod 65535 = 0" by (metis mod_mult_self1_is_0)
    moreover have "0 < S + (65535 - S mod 65535)" using S by (smt (verit) pos_mod_bound)
    ultimately show ?thesis using False by (simp add: ones_sum_def)
  qed
  then have "uint (IpChecksum le (a @ mem16 le ?C @ b)) = 0"
    using uint_IpChecksum [of "a @ mem16 le ?C @ b" le] assms(2) C t by simp
  then show ?thesis by (metis unsigned_eq_0_iff)
qed

text \<open>A change of one word is seen, except between the two representations of zero.\<close>

lemma ones_sum_diff:
  assumes "0 \<le> S" "0 \<le> x" "x < 65536" "0 \<le> y" "y < 65536" "x \<noteq> y" "{x, y} \<noteq> {0, 65535}"
  shows "ones_sum (S + x) \<noteq> ones_sum (S + y)"
proof -
  have "(S + x) mod 65535 \<noteq> (S + y) mod 65535"
  proof
    assume "(S + x) mod 65535 = (S + y) mod 65535"
    then have "(x - y) mod 65535 = 0" by (metis add_diff_cancel_left mod_0_imp_dvd mod_eq_dvd_iff dvd_imp_mod_0)
    then obtain k where k: "x - y = 65535 * k" by (auto elim: dvdE)
    have "x - y < 65536" "- 65536 < x - y" "x - y \<noteq> 0" using assms by auto
    then have "k = 1 \<or> k = -1" unfolding k by linarith
    then have "x = 65535 \<and> y = 0 \<or> x = 0 \<and> y = 65535" using k assms(2-5) by auto
    then show False using assms(7) by auto
  qed
  then show ?thesis by (auto simp: ones_sum_def split: if_splits)
qed

lemma checksum_detects:
  assumes "even (length a)" and "length a + length b + 2 < 32768"
    and "x \<noteq> y" and "{x, y} \<noteq> {0, 0xFFFF}"
  shows "IpChecksum le (a @ mem16 le x @ b) \<noteq> IpChecksum le (a @ mem16 le y @ b)"
proof -
  define S where "S = checksum_sum le a + checksum_sum le b"
  have w: "checksum_sum le (a @ mem16 le w @ b) = S + uint w" for w
  proof -
    obtain u v where "mem16 le w = [u, v]" by (rule mem16_pair)
    moreover from this have "of_mem16 le [u, v] = w" by (metis of_mem_mem(1))
    ultimately show ?thesis using assms(1) by (simp add: checksum_sum_append S_def)
  qed
  have c: "uint (IpChecksum le (a @ mem16 le w @ b)) = 65535 - ones_sum (S + uint w)" for w
    using uint_IpChecksum [of "a @ mem16 le w @ b" le] assms(2) w by simp
  have "0 \<le> S" using checksum_sum_bounds [of le a] checksum_sum_bounds [of le b] by (simp add: S_def)
  moreover have "{uint x, uint y} \<noteq> {0, 65535}"
    using assms(4) by (auto simp: doubleton_eq_iff word_uint_eq_iff)
  moreover have "uint x \<noteq> uint y" using assms(3) by (metis word_uint_eqI)
  ultimately have "ones_sum (S + uint x) \<noteq> ones_sum (S + uint y)"
    using uint_u16 [of x] uint_u16 [of y] by (intro ones_sum_diff) auto
  then show ?thesis using c by (metis diff_left_imp_eq)
qed

text \<open>A header of 20 bytes that carries the checksum of itself with a zero checksum passes the test.\<close>

lemma header_checks:
  assumes "length a = 10" and "length b = 8" and "unat (hd a AND 0x0f) = 5"
  shows "IpCheckChecksum le (a @ mem16 le (IpChecksum le (a @ [0, 0] @ b)) @ b @ rest)"
proof -
  have "hd (a @ r) = hd a" for r using assms(1) by (cases a) auto
  then show ?thesis using assms by (simp add: IpCheckChecksum_def Let_def)
qed

end
