(* ===== verification/Packet.thy ===== *)
theory Packet
  imports Dhcp Checksum
begin

text \<open>
  The packet parser of src/src/Mayaqua/TcpIp.c, \<open>ParsePacket\<close> and the functions it calls
  down to the DNS query and the DHCP message type. A packet is the bytes of its frame, and a
  pointer into the frame is an offset; \<open>None\<close> in a pointer field is the null pointer. A
  read outside the frame gives \<^const>\<open>None\<close> as the result of the parser. The sizes only
  shrink under a check that they are large enough, so they are natural numbers here; the sizes
  the code stores in its structures are words. The HTTP log of a packet is
  left out, so \<open>ParsePacketEx4\<close> is the function for \<open>no_http = true\<close>; the fields from \<open>AccessChecked\<close> to \<open>DelayedForwardTick\<close> belong to the virtual hub.
\<close>

section \<open>Constants (src/src/Mayaqua/TcpIp.h, Network.h)\<close>

abbreviation MAC_PROTO_ARPV4 :: u16 where "MAC_PROTO_ARPV4 \<equiv> 0x0806"
abbreviation MAC_PROTO_IPV4 :: u16 where "MAC_PROTO_IPV4 \<equiv> 0x0800"
abbreviation MAC_PROTO_IPV6 :: u16 where "MAC_PROTO_IPV6 \<equiv> 0x86dd"
abbreviation MAC_PROTO_TAGVLAN :: u32 where "MAC_PROTO_TAGVLAN \<equiv> 0x8100"
abbreviation LLC_DSAP_BPDU :: u8 where "LLC_DSAP_BPDU \<equiv> 0x42"
abbreviation LLC_SSAP_BPDU :: u8 where "LLC_SSAP_BPDU \<equiv> 0x42"
abbreviation L3_UNKNOWN :: u32 where "L3_UNKNOWN \<equiv> 0"
abbreviation L3_ARPV4 :: u32 where "L3_ARPV4 \<equiv> 1"
abbreviation L3_IPV4 :: u32 where "L3_IPV4 \<equiv> 2"
abbreviation L3_TAGVLAN :: u32 where "L3_TAGVLAN \<equiv> 3"
abbreviation L3_BPDU :: u32 where "L3_BPDU \<equiv> 4"
abbreviation L3_IPV6 :: u32 where "L3_IPV6 \<equiv> 5"
abbreviation L4_UNKNOWN :: u32 where "L4_UNKNOWN \<equiv> 0"
abbreviation L4_UDP :: u32 where "L4_UDP \<equiv> 1"
abbreviation L4_TCP :: u32 where "L4_TCP \<equiv> 2"
abbreviation L4_ICMPV4 :: u32 where "L4_ICMPV4 \<equiv> 3"
abbreviation L4_ICMPV6 :: u32 where "L4_ICMPV6 \<equiv> 4"
abbreviation L4_FRAGMENT :: u32 where "L4_FRAGMENT \<equiv> 5"
abbreviation L7_DHCPV4 :: u32 where "L7_DHCPV4 \<equiv> 1"
abbreviation L7_IKECONN :: u32 where "L7_IKECONN \<equiv> 2"
abbreviation L7_OPENVPNCONN :: u32 where "L7_OPENVPNCONN \<equiv> 3"
abbreviation L7_DNS :: u32 where "L7_DNS \<equiv> 4"
abbreviation IP_PROTO_ICMPV4 :: u8 where "IP_PROTO_ICMPV4 \<equiv> 0x01"
abbreviation IP_PROTO_TCP :: u8 where "IP_PROTO_TCP \<equiv> 0x06"
abbreviation IP_PROTO_UDP :: u8 where "IP_PROTO_UDP \<equiv> 0x11"
abbreviation IP_PROTO_ICMPV6 :: u8 where "IP_PROTO_ICMPV6 \<equiv> 0x3a"
abbreviation IPV6_HEADER_HOP :: u8 where "IPV6_HEADER_HOP \<equiv> 0"
abbreviation IPV6_HEADER_ENDPOINT :: u8 where "IPV6_HEADER_ENDPOINT \<equiv> 60"
abbreviation IPV6_HEADER_ROUTING :: u8 where "IPV6_HEADER_ROUTING \<equiv> 43"
abbreviation IPV6_HEADER_FRAGMENT :: u8 where "IPV6_HEADER_FRAGMENT \<equiv> 44"
abbreviation IPV6_HEADER_NONE :: u8 where "IPV6_HEADER_NONE \<equiv> 59"

section \<open>Packets\<close>

record IPV6_HEADER_PACKET_INFO =
  IPv6Header_at :: "nat option"
  HopHeader_at :: "nat option"
  HopHeaderSize :: u32
  EndPointHeader_at :: "nat option"
  EndPointHeaderSize :: u32
  RoutingHeader_at :: "nat option"
  RoutingHeaderSize :: u32
  FragmentHeader_at :: "nat option"
  V6Payload_at :: "nat option"
  V6PayloadSize :: u32
  V6Protocol :: u8
  IsFragment :: bool
  TotalHeaderSize :: u32

record ICMPV6_OPTION_LIST =
  SourceLinkLayer_at :: "nat option"
  TargetLinkLayer_at :: "nat option"
  Prefix_at :: "nat option"
  Mtu_at :: "nat option"

record ICMPV6_HEADER_INFO =
  Icmp6Type :: u8
  Icmp6Code :: u8
  Icmp6DataSize :: u16
  Icmp6Data_at :: "nat option"
  EchoIdentifier :: u16
  EchoSeqNo :: u16
  EchoData_at :: "nat option"
  EchoDataSize :: u32
  Icmp6Header_at :: "nat option"
  OptionList :: ICMPV6_OPTION_LIST

record PKT =
  PacketData :: "u8 list"
  MacAddressSrc_at :: nat
  MacAddressDest_at :: nat
  BroadcastPacket :: bool
  InvalidSourcePacket :: bool
  AccessChecked :: bool
  VlanTypeID :: u32
  VlanId :: u32
  Delay :: u32
  Jitter :: u32
  Loss :: u32
  DelayedForwardTick :: u64
  TypeL3 :: u32
  IPv6HeaderPacketInfo :: IPV6_HEADER_PACKET_INFO
  ICMPv6HeaderPacketInfo :: ICMPV6_HEADER_INFO
  DhcpOpCode :: u32
  L3_at :: "nat option"
  TypeL4 :: u32
  IPv4PayloadSize :: u32
  IPv4PayloadData_at :: "nat option"
  L4_at :: "nat option"
  TypeL7 :: u32
  L7_at :: "nat option"
  Payload_at :: "nat option"
  PayloadSize :: u32
  DnsQueryHost :: cstr

definition no_v6 :: IPV6_HEADER_PACKET_INFO where
  "no_v6 = \<lparr>IPv6Header_at = None, HopHeader_at = None, HopHeaderSize = 0, EndPointHeader_at = None,
     EndPointHeaderSize = 0, RoutingHeader_at = None, RoutingHeaderSize = 0, FragmentHeader_at = None,
     V6Payload_at = None, V6PayloadSize = 0, V6Protocol = 0, IsFragment = False, TotalHeaderSize = 0\<rparr>"

definition no_icmp6_options :: ICMPV6_OPTION_LIST where
  "no_icmp6_options = \<lparr>SourceLinkLayer_at = None, TargetLinkLayer_at = None, Prefix_at = None, Mtu_at = None\<rparr>"

definition no_icmp6 :: ICMPV6_HEADER_INFO where
  "no_icmp6 = \<lparr>Icmp6Type = 0, Icmp6Code = 0, Icmp6DataSize = 0, Icmp6Data_at = None, EchoIdentifier = 0,
     EchoSeqNo = 0, EchoData_at = None, EchoDataSize = 0, Icmp6Header_at = None, OptionList = no_icmp6_options\<rparr>"

text \<open>\<open>ZeroMallocFast(sizeof(PKT))\<close>.\<close>

definition no_packet :: PKT where
  "no_packet = \<lparr>PacketData = [], MacAddressSrc_at = 0, MacAddressDest_at = 0, BroadcastPacket = False,
     InvalidSourcePacket = False, AccessChecked = False, VlanTypeID = 0, VlanId = 0, Delay = 0, Jitter = 0, Loss = 0,
     DelayedForwardTick = 0, TypeL3 = L3_UNKNOWN, IPv6HeaderPacketInfo = no_v6,
     ICMPv6HeaderPacketInfo = no_icmp6, DhcpOpCode = 0, L3_at = None, TypeL4 = L4_UNKNOWN,
     IPv4PayloadSize = 0, IPv4PayloadData_at = None, L4_at = None, TypeL7 = 0, L7_at = None,
     Payload_at = None, PayloadSize = 0, DnsQueryHost = []\<rparr>"

text \<open>One byte of memory, and a 16-bit field in network order (\<open>Endian16\<close> of the field).\<close>

definition mem8 :: "u8 list \<Rightarrow> nat \<Rightarrow> u8 option" where
  "mem8 m i = (if i < length m then Some (m ! i) else None)"

definition net16 :: "u8 list \<Rightarrow> nat \<Rightarrow> u16 option" where
  "net16 m i = map_option of_be16 (mem_bytes m i 2)"

section \<open>DNS and DHCP\<close>

definition GetNextByte :: "BUF \<Rightarrow> (u8 \<times> BUF) option" where
  "GetNextByte b =
     do {
       (c, b) \<leftarrow> read_byte b;
       Some (case c of None \<Rightarrow> 0 | Some c \<Rightarrow> c, b)
     }"

text \<open>The labels of a query: whether they are complete, the name, the buffer behind them.\<close>

partial_function (option) dns_labels :: "BUF \<Rightarrow> cstr \<Rightarrow> u32 \<Rightarrow> (bool \<times> cstr \<times> BUF) option" where
  "dns_labels b name name_size =
     do {
       (next_len, b) \<leftarrow> GetNextByte b;
       if next_len = 0 then Some (True, name, b)
       else do {
         (n, tmp, b) \<leftarrow> ReadBuf b True (ucast next_len);
         if n \<noteq> ucast next_len then Some (False, name, b)
         else do {
           tmp \<leftarrow> cells_value tmp;
           let name = (if StrLen name \<noteq> 0 then fst (StrCat name name_size (ascii ''.'')) else name);
           dns_labels b (fst (StrCat name name_size (c_string tmp))) name_size
         }
       }
     }"

definition read_net16 :: "BUF \<Rightarrow> (u16 option \<times> BUF) option" where
  "read_net16 b =
     do {
       (n, d, b) \<leftarrow> ReadBuf b True 2;
       d \<leftarrow> cells_value d;
       Some (if n = 2 then Some (of_be16 d) else None, b)
     }"

definition ParseDnsQuery :: "u32 \<Rightarrow> u8 list \<Rightarrow> (bool \<times> cstr) option" where
  "ParseDnsQuery name_size data =
     (if data = [] then Some (False, [])
      else do {
        b \<leftarrow> NewBuf;
        b \<leftarrow> WriteBuf b (map Some data) (of_nat (length data));
        (ok, name, b) \<leftarrow> dns_labels (SeekBuf b 0 0) [] name_size;
        (v, b) \<leftarrow> read_net16 b;
        let ok = (ok \<and> (v = Some 0x01 \<or> v = Some 0x0c));
        (v, b) \<leftarrow> read_net16 b;
        let ok = (ok \<and> v = Some 0x01);
        Some (ok \<and> StrLen name \<noteq> 0, name)
      })"

text \<open>The flags are tested with the decimal number 78, as the code does it.\<close>

definition ParseDNS :: "u8 list \<Rightarrow> PKT \<Rightarrow> nat \<Rightarrow> nat \<Rightarrow> PKT option" where
  "ParseDNS m p off sz =
     (if sz < 12 then Some p
      else do {
        flag1 \<leftarrow> mem8 m (off + 2);
        num_query \<leftarrow> net16 m (off + 4);
        if flag1 AND 78 \<noteq> 0 \<or> flag1 AND 0x80 \<noteq> 0 then Some p
        else if num_query \<noteq> 1 then Some p
        else do {
          query \<leftarrow> mem_bytes m (off + 12) (sz - 12);
          (ok, hostname) \<leftarrow> ParseDnsQuery 512 query;
          if \<not> ok then Some p
          else Some (p\<lparr>DnsQueryHost := fst (StrCpy 64 hostname), TypeL7 := L7_DNS\<rparr>)
        }
      })"

definition ParseDHCPv4 :: "PKT \<Rightarrow> nat \<Rightarrow> nat \<Rightarrow> PKT" where
  "ParseDHCPv4 p off sz = (if sz < 44 then p else p\<lparr>L7_at := Some off, TypeL7 := L7_DHCPV4\<rparr>)"

section \<open>Layer 4\<close>

definition ParseICMPv4 :: "PKT \<Rightarrow> nat \<Rightarrow> nat \<Rightarrow> bool \<times> PKT" where
  "ParseICMPv4 p off sz = (if sz < 4 then (False, p) else (True, p\<lparr>L4_at := Some off, TypeL4 := L4_ICMPV4\<rparr>))"

definition ParseTCP :: "u8 list \<Rightarrow> PKT \<Rightarrow> nat \<Rightarrow> nat \<Rightarrow> (bool \<times> PKT) option" where
  "ParseTCP m p off sz =
     (if sz < 20 then Some (False, p)
      else do {
        c \<leftarrow> mem8 m (off + 12);
        let header_size = unat (drop_bit 4 c AND 0x0f) * 4;
        if header_size < 20 \<or> sz < header_size
        then Some (True, p\<lparr>L4_at := None, TypeL4 := L4_UNKNOWN\<rparr>)
        else Some (True, p\<lparr>L4_at := Some off, TypeL4 := L4_TCP, Payload_at := Some (off + header_size),
               PayloadSize := of_nat (sz - header_size)\<rparr>)
      })"

definition IsZero :: "u8 list \<Rightarrow> bool" where
  "IsZero d = list_all (\<lambda>c. c = 0) d"

definition ParseUDP :: "u8 list \<Rightarrow> PKT \<Rightarrow> nat \<Rightarrow> nat \<Rightarrow> (bool \<times> PKT) option" where
  "ParseUDP m p off sz =
     (if sz < 8 then Some (False, p)
      else do {
        src_port \<leftarrow> net16 m off;
        dst_port \<leftarrow> net16 m (off + 2);
        let buf = off + 8;
        let n = sz - 8;
        let p = p\<lparr>L4_at := Some off, TypeL4 := L4_UDP, Payload_at := Some buf, PayloadSize := of_nat n\<rparr>;
        if (src_port = 67 \<and> dst_port = 68 \<or> src_port = 68 \<and> dst_port = 67) \<and> TypeL3 p = L3_IPV4
        then Some (True, ParseDHCPv4 p buf n)
        else if dst_port = 53
        then do { p \<leftarrow> ParseDNS m p buf n; Some (True, p) }
        else do {
          ike \<leftarrow> (if (src_port = 500 \<or> dst_port = 500 \<or> src_port = 4500 \<or> dst_port = 4500) \<and> n \<ge> 28
            then do {
              initiator \<leftarrow> mem_bytes m buf 8;
              responder \<leftarrow> mem_bytes m (buf + 8) 8;
              exchange \<leftarrow> mem8 m (buf + 18);
              Some (\<not> IsZero initiator \<and> IsZero responder \<and> (exchange = 2 \<or> exchange = 4))
            }
            else Some False);
          if ike then Some (True, p\<lparr>TypeL7 := L7_IKECONN, L7_at := Some buf\<rparr>)
          else if n = 14
          then do {
            d \<leftarrow> mem_bytes m buf 14;
            if hd d = 0x38 \<and> IsZero (take 5 (drop 9 d)) \<and> \<not> IsZero (take 8 (drop 1 d))
            then Some (True, p\<lparr>TypeL7 := L7_OPENVPNCONN\<rparr>)
            else Some (True, p)
          }
          else Some (True, p)
        }
      })"

section \<open>IPv6\<close>

text \<open>
  The chain of extension headers. The type of the next header is read only when more than eight
  bytes are left, as the code does it; otherwise the one read last is taken again.
\<close>

function v6_ext_loop ::
    "u8 list \<Rightarrow> IPV6_HEADER_PACKET_INFO \<Rightarrow> u8 \<Rightarrow> u8 \<Rightarrow> nat \<Rightarrow> nat \<Rightarrow> (bool \<times> IPV6_HEADER_PACKET_INFO) option" where
  "v6_ext_loop m info next_header next_header_2 off sz =
     do {
       next_header_2 \<leftarrow> (if sz > 8 then mem8 m off else Some next_header_2);
       if next_header = IPV6_HEADER_HOP \<or> next_header = IPV6_HEADER_ENDPOINT \<or> next_header = IPV6_HEADER_ROUTING
       then
         if sz < 8 then Some (False, info)
         else do {
           c \<leftarrow> mem8 m (off + 1);
           let header_size = (unat c + 1) * 8;
           if sz < header_size then Some (False, info)
           else
             let info =
               (if next_header = IPV6_HEADER_HOP
                then info\<lparr>HopHeader_at := Some off, HopHeaderSize := of_nat header_size\<rparr>
                else if next_header = IPV6_HEADER_ENDPOINT
                then info\<lparr>EndPointHeader_at := Some off, EndPointHeaderSize := of_nat header_size\<rparr>
                else info\<lparr>RoutingHeader_at := Some off, RoutingHeaderSize := of_nat header_size\<rparr>)
             in v6_ext_loop m info next_header_2 next_header_2 (off + header_size) (sz - header_size)
         }
       else if next_header = IPV6_HEADER_FRAGMENT
       then
         if sz < 8 then Some (False, info)
         else do {
           a \<leftarrow> mem8 m (off + 2);
           b \<leftarrow> mem8 m (off + 3);
           let info = info\<lparr>FragmentHeader_at := Some off,
             IsFragment := (IsFragment info \<or>
               (push_bit 5 (ucast a) AND 0x1fe0) OR (drop_bit 3 (ucast b) AND 0x1f) \<noteq> (0 :: u32))\<rparr>;
           v6_ext_loop m info next_header_2 next_header_2 (off + 8) (sz - 8)
         }
       else Some (True,
         (if next_header \<noteq> IPV6_HEADER_NONE
          then info\<lparr>V6Payload_at := Some off, V6PayloadSize := of_nat sz, V6Protocol := next_header\<rparr>
          else info\<lparr>V6Payload_at := None, V6PayloadSize := 0, V6Protocol := next_header\<rparr>))
     }"
  by pat_completeness auto
termination by (relation "measure (\<lambda>(m, i, n, n2, off, sz). sz)") auto

declare v6_ext_loop.simps [simp del]

definition ParseIPv6ExtHeader ::
    "u8 list \<Rightarrow> IPV6_HEADER_PACKET_INFO \<Rightarrow> u8 \<Rightarrow> nat \<Rightarrow> nat \<Rightarrow> (bool \<times> IPV6_HEADER_PACKET_INFO) option" where
  "ParseIPv6ExtHeader m info next_header off sz =
     v6_ext_loop m (info\<lparr>IsFragment := False\<rparr>) next_header IPV6_HEADER_NONE off sz"

definition ParsePacketIPv6Header :: "u8 list \<Rightarrow> nat \<Rightarrow> nat \<Rightarrow> (bool \<times> IPV6_HEADER_PACKET_INFO) option" where
  "ParsePacketIPv6Header m off sz =
     (if sz < 40 then Some (False, no_v6)
      else do {
        let info = no_v6\<lparr>IPv6Header_at := Some off\<rparr>;
        v \<leftarrow> mem8 m off;
        if drop_bit 4 v AND 0x0f \<noteq> 6 then Some (False, info)
        else do {
          nh \<leftarrow> mem8 m (off + 6);
          (ok, info) \<leftarrow> ParseIPv6ExtHeader m info nh (off + 40) (sz - 40);
          if \<not> ok then Some (False, info)
          else Some (True,
            (case V6Payload_at info of
               None \<Rightarrow> info
             | Some pl \<Rightarrow> info\<lparr>TotalHeaderSize := of_nat (pl - off)\<rparr>))
        }
      })"

function ParseICMPv6Options ::
    "u8 list \<Rightarrow> ICMPV6_OPTION_LIST \<Rightarrow> nat \<Rightarrow> nat \<Rightarrow> (bool \<times> ICMPV6_OPTION_LIST) option" where
  "ParseICMPv6Options m opts off sz =
     (if sz < 2 then Some (True, opts)
      else do {
        ty \<leftarrow> mem8 m off;
        len \<leftarrow> mem8 m (off + 1);
        let total = unat len * 8;
        if total = 0 \<or> sz < total then Some (True, opts)
        else if ty = 1 \<or> ty = 2
        then
          if total \<ge> 8
          then ParseICMPv6Options m
            (if ty = 1 then opts\<lparr>SourceLinkLayer_at := Some off\<rparr> else opts\<lparr>TargetLinkLayer_at := Some off\<rparr>)
            (off + total) (sz - total)
          else Some (False, opts)
        else if ty = 3
        then ParseICMPv6Options m (if total \<ge> 32 then opts\<lparr>Prefix_at := Some off\<rparr> else opts) (off + total) (sz - total)
        else if ty = 5
        then ParseICMPv6Options m (if total \<ge> 8 then opts\<lparr>Mtu_at := Some off\<rparr> else opts) (off + total) (sz - total)
        else ParseICMPv6Options m opts (off + total) (sz - total)
      })"
  by pat_completeness auto
termination by (relation "measure (\<lambda>(m, opts, off, sz). sz)") auto

declare ParseICMPv6Options.simps [simp del]

text \<open>A router or neighbour message: a header of \<open>n\<close> bytes, then options.\<close>

definition icmp6_headed ::
    "u8 list \<Rightarrow> ICMPV6_HEADER_INFO \<Rightarrow> nat \<Rightarrow> nat \<Rightarrow> (bool \<times> ICMPV6_HEADER_INFO) option" where
  "icmp6_headed m info off n =
     (if unat (Icmp6DataSize info) < n then Some (False, info)
      else do {
        (ok, opts) \<leftarrow> ParseICMPv6Options m no_icmp6_options (off + n) (unat (Icmp6DataSize info) - n);
        Some (ok, info\<lparr>Icmp6Header_at := Some off, OptionList := opts\<rparr>)
      })"

definition ParseICMPv6 :: "u8 list \<Rightarrow> PKT \<Rightarrow> nat \<Rightarrow> nat \<Rightarrow> (bool \<times> PKT) option" where
  "ParseICMPv6 m p off sz =
     (if sz < 4 then Some (False, p)
      else do {
        ty \<leftarrow> mem8 m off;
        code \<leftarrow> mem8 m (off + 1);
        let p = p\<lparr>L4_at := Some off\<rparr>;
        let data = off + 4;
        let info = no_icmp6\<lparr>Icmp6Type := ty, Icmp6Code := code, Icmp6Data_at := Some data,
          Icmp6DataSize := of_nat (sz - 4)\<rparr>;
        (ok, info) \<leftarrow>
          (if ty = 128 \<or> ty = 129
           then
             if unat (Icmp6DataSize info) < 4 then Some (False, info)
             else do {
               i \<leftarrow> net16 m data;
               s \<leftarrow> net16 m (data + 2);
               Some (True, info\<lparr>EchoIdentifier := i, EchoSeqNo := s, EchoData_at := Some (data + 4),
                 EchoDataSize := ucast (Icmp6DataSize info) - 4\<rparr>)
             }
           else if ty = 133 then icmp6_headed m info data 4
           else if ty = 134 then icmp6_headed m info data 12
           else if ty = 135 \<or> ty = 136 then icmp6_headed m info data 20
           else Some (True, info));
        if ok then Some (True, p\<lparr>TypeL4 := L4_ICMPV6, ICMPv6HeaderPacketInfo := info\<rparr>) else Some (False, p)
      })"

definition ParsePacketIPv6 :: "u8 list \<Rightarrow> PKT \<Rightarrow> nat \<Rightarrow> nat \<Rightarrow> (bool \<times> PKT) option" where
  "ParsePacketIPv6 m p off sz =
     do {
       (ok, info) \<leftarrow> ParsePacketIPv6Header m off sz;
       let p = p\<lparr>IPv6HeaderPacketInfo := info\<rparr>;
       if \<not> ok then Some (False, p)
       else
         let p = p\<lparr>TypeL3 := L3_IPV6, L3_at := IPv6Header_at info\<rparr>
         in case V6Payload_at info of
              None \<Rightarrow> Some (True, p)
            | Some pl \<Rightarrow>
                if IsFragment info then Some (True, p\<lparr>TypeL4 := L4_FRAGMENT\<rparr>)
                else if V6Protocol info = IP_PROTO_ICMPV6
                then do { (ok, p) \<leftarrow> ParseICMPv6 m p pl (unat (V6PayloadSize info)); Some (True, p) }
                else if V6Protocol info = IP_PROTO_TCP then ParseTCP m p pl (unat (V6PayloadSize info))
                else if V6Protocol info = IP_PROTO_UDP then ParseUDP m p pl (unat (V6PayloadSize info))
                else Some (True, p)
     }"

section \<open>IPv4, ARP and layer 2\<close>

definition ParsePacketIPv4 :: "u8 list \<Rightarrow> PKT \<Rightarrow> nat \<Rightarrow> nat \<Rightarrow> (bool \<times> PKT) option" where
  "ParsePacketIPv4 m p off sz =
     (if sz < 20 then Some (False, p)
      else do {
        v \<leftarrow> mem8 m off;
        let header_size = unat (v AND 0x0f) * 4;
        if header_size < 20 \<or> sz < header_size
        then Some (True, p\<lparr>L3_at := None, TypeL3 := L3_UNKNOWN\<rparr>)
        else do {
          total \<leftarrow> net16 m (off + 2);
          let buf = off + header_size;
          let n = sz - header_size;
          let payload = min (of_nat n) (ucast total - of_nat header_size :: u32);
          let p = p\<lparr>L3_at := Some off, TypeL3 := L3_IPV4,
            IPv4PayloadSize := (if unat total < header_size then 0 else payload),
            IPv4PayloadData_at := Some buf\<rparr>;
          f0 \<leftarrow> mem8 m (off + 6);
          f1 \<leftarrow> mem8 m (off + 7);
          if unat (f0 AND 0x1f) * 256 + unat f1 \<noteq> 0 then Some (True, p\<lparr>TypeL4 := L4_FRAGMENT\<rparr>)
          else do {
            proto \<leftarrow> mem8 m (off + 9);
            if proto = IP_PROTO_ICMPV4 then Some (ParseICMPv4 p buf n)
            else if proto = IP_PROTO_UDP then ParseUDP m p buf n
            else if proto = IP_PROTO_TCP then ParseTCP m p buf n
            else Some (True, p)
          }
        }
      })"

definition ParsePacketARPv4 :: "PKT \<Rightarrow> nat \<Rightarrow> nat \<Rightarrow> bool \<times> PKT" where
  "ParsePacketARPv4 p off sz = (if sz < 28 then (False, p) else (True, p\<lparr>L3_at := Some off, TypeL3 := L3_ARPV4\<rparr>))"

definition ParsePacketBPDU :: "PKT \<Rightarrow> nat \<Rightarrow> nat \<Rightarrow> bool \<times> PKT" where
  "ParsePacketBPDU p off sz = (if sz < 35 then (True, p) else (True, p\<lparr>L3_at := Some off, TypeL3 := L3_BPDU\<rparr>))"

definition ParsePacketTAGVLAN :: "u8 list \<Rightarrow> PKT \<Rightarrow> nat \<Rightarrow> nat \<Rightarrow> (bool \<times> PKT) option" where
  "ParsePacketTAGVLAN m p off sz =
     (if sz < 2 then Some (False, p)
      else do {
        v \<leftarrow> net16 m off;
        Some (True, p\<lparr>L3_at := Some off, TypeL3 := L3_TAGVLAN, VlanId := ucast (v AND 0xFFF)\<rparr>)
      })"

definition ParsePacketL2Ex :: "u8 list \<Rightarrow> PKT \<Rightarrow> nat \<Rightarrow> bool \<Rightarrow> (bool \<times> PKT) option" where
  "ParsePacketL2Ex m p sz no_l3 =
     (if sz < 14 then Some (False, p)
      else do {
        dest \<leftarrow> mem_bytes m 0 6;
        src \<leftarrow> mem_bytes m 6 6;
        type_id_16 \<leftarrow> net16 m 12;
        let off = 14;
        let n = sz - 14;
        let b1 = list_all (\<lambda>c. c = 0xff) src;
        let b2 = list_all (\<lambda>c. c = 0x00) src;
        let p = p\<lparr>BroadcastPacket := (list_all (\<lambda>c. c = 0xff) dest \<or> hd dest AND 0x01 \<noteq> 0),
          InvalidSourcePacket := (b1 \<or> b2 \<or> src = dest)\<rparr>;
        if type_id_16 > 1500
        then
          if type_id_16 = MAC_PROTO_ARPV4
          then (if no_l3 then Some (True, p) else Some (ParsePacketARPv4 p off n))
          else if type_id_16 = MAC_PROTO_IPV4
          then (if no_l3 then Some (True, p) else ParsePacketIPv4 m p off n)
          else if type_id_16 = MAC_PROTO_IPV6
          then (if no_l3 then Some (True, p) else ParsePacketIPv6 m p off n)
          else if ucast type_id_16 = VlanTypeID p then ParsePacketTAGVLAN m p off n
          else Some (True, p)
        else if n < unat type_id_16 \<or> n < 3 then Some (True, p)
        else do {
          dsap \<leftarrow> mem8 m off;
          ssap \<leftarrow> mem8 m (off + 1);
          if dsap = LLC_DSAP_BPDU \<and> ssap = LLC_SSAP_BPDU then Some (ParsePacketBPDU p (off + 3) (n - 3))
          else Some (True, p)
        }
      })"

section \<open>DHCP messages\<close>

record DHCPV4_DATA =
  Dhcp_Data :: "u8 list"
  Dhcp_SrcIP :: IP
  Dhcp_SrcPort :: u16
  Dhcp_DestIP :: IP
  Dhcp_DestPort :: u16
  Dhcp_OpCode :: u32
  Dhcp_OptionData :: "u8 list"
  Dhcp_OptionList :: "DHCP_OPTION list"
  ParsedOptionList :: DHCP_OPTION_LIST

definition DHCP_MAGIC_COOKIE :: u32 where
  "DHCP_MAGIC_COOKIE = 0x63825363"

text \<open>The options begin behind the first magic cookie that at least one byte follows.\<close>

fun find_cookie :: "u8 list \<Rightarrow> u8 list option" where
  "find_cookie [] = None"
| "find_cookie (c # cs) =
     (if length (c # cs) \<ge> 5
      then if take 4 (c # cs) = mem32 host_le (Endian32 host_le DHCP_MAGIC_COOKIE) then Some (drop 4 (c # cs))
        else find_cookie cs
      else None)"

definition ParseDHCPv4Data :: "PKT \<Rightarrow> DHCPV4_DATA option option" where
  "ParseDHCPv4Data p =
     (if TypeL3 p \<noteq> L3_IPV4 \<or> TypeL4 p \<noteq> L4_UDP \<or> TypeL7 p \<noteq> L7_DHCPV4 then Some None
      else do {
        l7 \<leftarrow> L7_at p;
        l4 \<leftarrow> L4_at p;
        l3 \<leftarrow> L3_at p;
        let data = drop l7 (PacketData p);
        if length data < 44 then Some None
        else case find_cookie data of
            None \<Rightarrow> Some None
          | Some opts \<Rightarrow> do {
              os \<leftarrow> ParseDhcpOptions opts (of_nat (length opts));
              src \<leftarrow> mem_bytes (PacketData p) (l3 + 12) 4;
              dst \<leftarrow> mem_bytes (PacketData p) (l3 + 16) 4;
              sport \<leftarrow> net16 (PacketData p) l4;
              dport \<leftarrow> net16 (PacketData p) (l4 + 2);
              case GetDhcpOption os DHCP_ID_MESSAGE_TYPE of
                None \<Rightarrow> Some None
              | Some a \<Rightarrow>
                  if Opt_Size a \<noteq> 1 then Some None
                  else do {
                    c \<leftarrow> mem8 (Opt_Data a) 0;
                    l \<leftarrow> ParseDhcpOptionList opts (of_nat (length opts));
                    server \<leftarrow> mem_bytes data 20 4;
                    your \<leftarrow> mem_bytes data 16 4;
                    let l = (if ServerAddress l = 0 then l\<lparr>ServerAddress := of_mem32 host_le server\<rparr> else l);
                    Some (Some \<lparr>Dhcp_Data = data, Dhcp_SrcIP = ZeroIP\<lparr>addr := src\<rparr>, Dhcp_SrcPort = sport,
                      Dhcp_DestIP = ZeroIP\<lparr>addr := dst\<rparr>, Dhcp_DestPort = dport, Dhcp_OpCode = ucast c,
                      Dhcp_OptionData = opts, Dhcp_OptionList = os,
                      ParsedOptionList = l\<lparr>ClientAddress := of_mem32 host_le your\<rparr>\<rparr>)
                  }
            }
      })"

section \<open>Correction of checksums\<close>

text \<open>A 16-bit field in the byte order of the host, read and written.\<close>

definition host16 :: "bool \<Rightarrow> u8 list \<Rightarrow> nat \<Rightarrow> u16 option" where
  "host16 le m i = map_option (of_mem16 le) (mem_bytes m i 2)"

definition put16 :: "bool \<Rightarrow> u8 list \<Rightarrow> nat \<Rightarrow> u16 \<Rightarrow> u8 list option" where
  "put16 le m i v = (if i + 2 \<le> length m then Some (take i m @ mem16 le v @ drop (i + 2) m) else None)"

definition CalcChecksumForIPv6 :: "bool \<Rightarrow> u8 list \<Rightarrow> u8 list \<Rightarrow> u8 \<Rightarrow> u8 list \<Rightarrow> u32 \<Rightarrow> u16" where
  "CalcChecksumForIPv6 le src_ip dest_ip protocol data real_size =
     (let real_size = (if real_size = 0 then of_nat (length data) else real_size);
          real_size = (if real_size = INFINITE then 0 else real_size)
      in IpChecksum le (src_ip @ dest_ip @ mem32 le (Endian32 le real_size) @ [0, 0, 0, protocol] @ data))"

text \<open>
  The checksum of a TCP segment or UDP datagram at \<open>l4\<close>, whose field is at \<open>field\<close>:
  \<open>calc\<close> is the checksum with the pseudo header of the packet. Hardware that leaves the
  sum to the network card puts the checksum of the pseudo header alone there, or its complement.
\<close>

definition offloaded :: "(u8 list \<Rightarrow> u32 \<Rightarrow> u16) \<Rightarrow> u16 \<Rightarrow> u32 \<Rightarrow> bool" where
  "offloaded calc v real_size \<longleftrightarrow> v = calc [] real_size \<or> v = NOT (calc [] real_size)"

definition recalculate ::
    "bool \<Rightarrow> (u8 list \<Rightarrow> u32 \<Rightarrow> u16) \<Rightarrow> u8 list \<Rightarrow> nat \<Rightarrow> nat \<Rightarrow> nat \<Rightarrow> u8 list option" where
  "recalculate le calc m l4 field n =
     do {
       m \<leftarrow> put16 le m field 0;
       d \<leftarrow> mem_bytes m l4 n;
       put16 le m field (calc d 0)
     }"

definition correct_tcp ::
    "bool \<Rightarrow> (u8 list \<Rightarrow> u32 \<Rightarrow> u16) \<Rightarrow> u8 list \<Rightarrow> nat option \<Rightarrow> u32 \<Rightarrow> u8 list option" where
  "correct_tcp le calc m l4 payload_size =
     (case l4 of
        None \<Rightarrow> Some m
      | Some tcp \<Rightarrow> do {
          v \<leftarrow> host16 le m (tcp + 16);
          if v = 0 \<or> offloaded calc v payload_size
          then recalculate le calc m tcp (tcp + 16) (unat payload_size)
          else Some m
        })"

definition correct_udp ::
    "bool \<Rightarrow> (u8 list \<Rightarrow> u32 \<Rightarrow> u16) \<Rightarrow> u8 list \<Rightarrow> nat option \<Rightarrow> u32 \<Rightarrow> bool \<Rightarrow> u8 list option" where
  "correct_udp le calc m l4 payload_size whole =
     (case l4 of
        None \<Rightarrow> Some m
      | Some udp \<Rightarrow> do {
          v \<leftarrow> host16 le m (udp + 6);
          udp_len \<leftarrow> net16 m (udp + 4);
          if v \<noteq> 0 \<and> offloaded calc v (ucast udp_len)
          then
            if whole \<and> payload_size \<ge> ucast udp_len
            then recalculate le calc m udp (udp + 6) (unat udp_len)
            else put16 le m (udp + 6) 0
          else Some m
        })"

definition CorrectChecksum :: "bool \<Rightarrow> PKT \<Rightarrow> PKT option" where
  "CorrectChecksum le p =
     (let m = PacketData p
      in case L3_at p of
        None \<Rightarrow> Some p
      | Some l3 \<Rightarrow>
          if TypeL3 p = L3_IPV4
          then do {
            c \<leftarrow> host16 le m (l3 + 10);
            h \<leftarrow> mem8 m l3;
            d \<leftarrow> mem_bytes m l3 (unat (h AND 0x0f) * 4);
            m \<leftarrow> (if c = 0 then put16 le m (l3 + 10) (IpChecksum le d) else Some m);
            src \<leftarrow> mem_bytes m (l3 + 12) 4;
            dst \<leftarrow> mem_bytes m (l3 + 16) 4;
            f0 \<leftarrow> mem8 m (l3 + 6);
            f1 \<leftarrow> mem8 m (l3 + 7);
            let first = (unat (f0 AND 0x1f) * 256 + unat f1 = 0);
            let more = (drop_bit 5 f0 AND 0x01 \<noteq> 0);
            let calc = (\<lambda>proto d n. CalcChecksumForIPv4 le (of_mem32 le src) (of_mem32 le dst) proto d n);
            m \<leftarrow> (if TypeL4 p = L4_TCP \<and> first \<and> \<not> more
              then correct_tcp le (calc IP_PROTO_TCP) m (L4_at p) (IPv4PayloadSize p) else Some m);
            m \<leftarrow> (if TypeL4 p = L4_UDP \<and> (first \<or> \<not> more)
              then correct_udp le (calc IP_PROTO_UDP) m (L4_at p) (IPv4PayloadSize p) (\<not> more) else Some m);
            Some (p\<lparr>PacketData := m\<rparr>)
          }
          else if TypeL3 p = L3_IPV6 \<and> \<not> IsFragment (IPv6HeaderPacketInfo p)
          then do {
            let info = IPv6HeaderPacketInfo p;
            src \<leftarrow> mem_bytes m (l3 + 8) 16;
            dst \<leftarrow> mem_bytes m (l3 + 24) 16;
            more \<leftarrow> (case FragmentHeader_at info of
                None \<Rightarrow> Some False
              | Some fh \<Rightarrow> map_option (\<lambda>c. (c AND 0x0f) AND 0x01 \<noteq> 0) (mem8 m (fh + 3)));
            let calc = (\<lambda>proto d n. CalcChecksumForIPv6 le src dst proto d n);
            m \<leftarrow> (if TypeL4 p = L4_TCP \<and> \<not> more
              then correct_tcp le (calc IP_PROTO_TCP) m (L4_at p) (V6PayloadSize info) else Some m);
            m \<leftarrow> (if TypeL4 p = L4_UDP
              then correct_udp le (calc IP_PROTO_UDP) m (L4_at p) (V6PayloadSize info) (\<not> more) else Some m);
            Some (p\<lparr>PacketData := m\<rparr>)
          }
          else Some p)"

section \<open>The parser\<close>

text \<open>
  Bytes behind the end that an IP header announces are cut off: with the protocol at 12, or
  behind a VLAN tag.
\<close>

definition cut_at :: "nat \<Rightarrow> u16 option \<Rightarrow> nat \<Rightarrow> nat option" where
  "cut_at sz tot header =
     map_option (\<lambda>t. if t \<ge> 1 \<and> sz > unat t + header then unat t + header else sz) tot"

definition frame_size :: "u8 list \<Rightarrow> nat \<Rightarrow> u32 \<Rightarrow> nat option" where
  "frame_size m sz vlan_type_id =
     (if sz < 24 then Some sz
      else do {
        proto \<leftarrow> net16 m 12;
        if proto = MAC_PROTO_IPV4 then cut_at sz (net16 m 16) 14
        else if proto = MAC_PROTO_IPV6 then cut_at sz (net16 m 18) (14 + 40)
        else if proto = ucast vlan_type_id
        then do {
          proto \<leftarrow> net16 m 16;
          if proto = MAC_PROTO_IPV4 then cut_at sz (net16 m 20) (14 + 4)
          else if proto = MAC_PROTO_IPV6 then cut_at sz (net16 m 22) (14 + 40 + 4)
          else Some sz
        }
        else Some sz
      })"

text \<open>The inner \<^const>\<open>None\<close> is the null pointer: a frame that is not parsed.\<close>

definition ParsePacketEx4 ::
    "bool \<Rightarrow> u8 list \<Rightarrow> u32 \<Rightarrow> bool \<Rightarrow> u32 \<Rightarrow> bool \<Rightarrow> bool \<Rightarrow> PKT option option" where
  "ParsePacketEx4 le m sz no_l3 vlan_type_id bridge_id_as_mac_address correct_checksum =
     (if sz = 0 then Some None
      else do {
        let vlan_type_id = (if vlan_type_id = 0 then MAC_PROTO_TAGVLAN else vlan_type_id);
        n \<leftarrow> frame_size m (unat sz) vlan_type_id;
        (ok, p) \<leftarrow> ParsePacketL2Ex m (no_packet\<lparr>VlanTypeID := vlan_type_id\<rparr>) n no_l3;
        if \<not> ok then Some None
        else do {
          let p = p\<lparr>PacketData := take n m,
            MacAddressSrc_at := (case L3_at p of
               Some l3 \<Rightarrow> if bridge_id_as_mac_address \<and> TypeL3 p = L3_BPDU then l3 + 19 else 6
             | None \<Rightarrow> 6),
            MacAddressDest_at := 0\<rparr>;
          d \<leftarrow> ParseDHCPv4Data p;
          let p = (case d of None \<Rightarrow> p | Some d \<Rightarrow> p\<lparr>DhcpOpCode := Dhcp_OpCode d\<rparr>);
          p \<leftarrow> (if correct_checksum then CorrectChecksum le p else Some p);
          Some (Some p)
        }
      })"

definition ParsePacketEx3 :: "bool \<Rightarrow> u8 list \<Rightarrow> u32 \<Rightarrow> bool \<Rightarrow> u32 \<Rightarrow> bool \<Rightarrow> PKT option option" where
  "ParsePacketEx3 le m sz no_l3 vlan_type_id bridge_id_as_mac_address =
     ParsePacketEx4 le m sz no_l3 vlan_type_id bridge_id_as_mac_address False"

definition ParsePacketEx2 :: "bool \<Rightarrow> u8 list \<Rightarrow> u32 \<Rightarrow> bool \<Rightarrow> u32 \<Rightarrow> PKT option option" where
  "ParsePacketEx2 le m sz no_l3 vlan_type_id = ParsePacketEx3 le m sz no_l3 vlan_type_id True"

definition ParsePacketEx :: "bool \<Rightarrow> u8 list \<Rightarrow> u32 \<Rightarrow> bool \<Rightarrow> PKT option option" where
  "ParsePacketEx le m sz no_l3 = ParsePacketEx2 le m sz no_l3 0"

definition ParsePacket :: "bool \<Rightarrow> u8 list \<Rightarrow> u32 \<Rightarrow> PKT option option" where
  "ParsePacket le m sz = ParsePacketEx le m sz False"

section \<open>The parser stays in the frame\<close>

lemma mem8_ok [mem_simps]: "i < length m \<Longrightarrow> mem8 m i = Some (m ! i)"
  by (simp add: mem8_def)

lemma net16_ok [mem_simps]: "i + 2 \<le> length m \<Longrightarrow> net16 m i = Some (of_be16 (take 2 (drop i m)))"
  by (simp add: net16_def mem_bytes_def)

lemma GetNextByte_reading:
  assumes "reading b bs"
  shows "\<exists>c b'. GetNextByte b = Some (c, b') \<and>
    (bs = [] \<and> c = 0 \<or> (\<exists>r. bs = c # r \<and> reading b' r)) \<and> reading b' (tl bs)"
proof (cases bs)
  case Nil
  obtain n d b' where "ReadBuf b True 1 = Some (n, d, b')" "d = [Some 0]" "n = 0" "reading b' []"
    using ReadBuf_spec [OF assms, of 1 True] Nil by auto
  then show ?thesis using Nil by (simp add: GetNextByte_def read_byte_def)
next
  case (Cons c r)
  then show ?thesis using read_byte_Cons [of b c r] assms by (auto simp: GetNextByte_def)
qed

lemma dns_labels_total:
  "reading b bs \<Longrightarrow> \<exists>ok name' b' bs'. dns_labels b name sz = Some (ok, name', b') \<and> reading b' bs'"
proof (induction "length bs" arbitrary: b bs name rule: less_induct)
  case less
  obtain c b1 where b1: "GetNextByte b = Some (c, b1)" "bs = [] \<and> c = 0 \<or> (\<exists>r. bs = c # r \<and> reading b1 r)"
    "reading b1 (tl bs)" using GetNextByte_reading [OF less(2)] by blast
  show ?case
  proof (cases "c = 0")
    case True
    then show ?thesis using b1 by (auto simp: dns_labels.simps [of b])
  next
    case False
    then have len: "length (tl bs) < length bs" using b1(2) by auto
    obtain n d b2 where b2: "ReadBuf b1 True (ucast c) = Some (n, map Some d, b2)"
      "reading b2 (drop (unat c) (tl bs))" using ReadBuf_option [OF b1(3)] by blast
    note again = less(1) [OF _ b2(2)]
    show ?thesis
    proof (cases "n = ucast c")
      case True
      show ?thesis using again len b1(1) b2 False True
        by (subst dns_labels.simps) (simp add: Let_def)
    next
      case False
      then show ?thesis using b1(1) b2 \<open>c \<noteq> 0\<close> by (subst dns_labels.simps) auto
    qed
  qed
qed

lemma read_net16_total:
  assumes "reading b bs"
  shows "\<exists>v b' bs'. read_net16 b = Some (v, b') \<and> reading b' bs'"
  using ReadBuf_spec [OF assms, of 2 True]
  by (auto simp: read_net16_def simp flip: map_replicate map_append)

lemma ParseDnsQuery_total:
  assumes "length d \<le> BUF_MAX"
  shows "\<exists>ok name. ParseDnsQuery sz d = Some (ok, name)"
proof (cases "d = []")
  case True
  then have "ParseDnsQuery sz d = Some (False, [])" by (simp add: ParseDnsQuery_def)
  then show ?thesis by blast
next
  case False
  have n: "unat (of_nat (length d) :: u32) = length d" using assms by (simp add: nowrap)
  obtain b where b: "MemToBuf (map Some d) (of_nat (length d)) = Some b" "reading b d"
    using MemToBuf_reading [OF assms n] by blast
  obtain ok name b1 bs1 where b1: "dns_labels b [] sz = Some (ok, name, b1)" "reading b1 bs1"
    using dns_labels_total [OF b(2)] by blast
  obtain v b2 bs2 where b2: "read_net16 b1 = Some (v, b2)" "reading b2 bs2" using read_net16_total [OF b1(2)] by blast
  obtain w b3 where b3: "read_net16 b2 = Some (w, b3)" using read_net16_total [OF b2(2)] by blast
  have "ParseDnsQuery sz d = do {
        b \<leftarrow> MemToBuf (map Some d) (of_nat (length d));
        (ok, name, b) \<leftarrow> dns_labels b [] sz;
        (v, b) \<leftarrow> read_net16 b;
        (w, b) \<leftarrow> read_net16 b;
        Some (ok \<and> (v = Some 0x01 \<or> v = Some 0x0c) \<and> w = Some 0x01 \<and> StrLen name \<noteq> 0, name)
      }"
    using False by (simp add: ParseDnsQuery_def MemToBuf_def Let_def conj_assoc)
  then show ?thesis using b(1) b1(1) b2(1) b3 by simp
qed

text \<open>
  The fields of layer 3, which the parsers of layer 4 leave alone, and what these find: the
  header at \<open>off\<close> inside of the frame of \<open>e\<close> bytes, and so the payload.
\<close>

definition l3_part :: "PKT \<Rightarrow> u32 \<times> nat option \<times> u32 \<times> nat option \<times> IPV6_HEADER_PACKET_INFO \<times> bool" where
  "l3_part p = (TypeL3 p, L3_at p, IPv4PayloadSize p, IPv4PayloadData_at p, IPv6HeaderPacketInfo p, BroadcastPacket p)"

definition l4_header :: "u32 \<Rightarrow> nat" where
  "l4_header ty = (if ty = L4_TCP then 20 else if ty = L4_UDP then 8 else 4)"

text \<open>The pointers into a message of ICMPv6: the options by their sizes, the header by its type.\<close>

definition icmp6_options_ok :: "nat \<Rightarrow> ICMPV6_OPTION_LIST \<Rightarrow> bool" where
  "icmp6_options_ok e opts \<longleftrightarrow>
     (\<forall>q. SourceLinkLayer_at opts = Some q \<longrightarrow> q + 8 \<le> e) \<and> (\<forall>q. TargetLinkLayer_at opts = Some q \<longrightarrow> q + 8 \<le> e) \<and>
     (\<forall>q. Prefix_at opts = Some q \<longrightarrow> q + 32 \<le> e) \<and> (\<forall>q. Mtu_at opts = Some q \<longrightarrow> q + 8 \<le> e)"

definition icmp6_header :: "u8 \<Rightarrow> nat" where
  "icmp6_header ty = (if ty = 133 then 4 else if ty = 134 then 12 else 20)"

definition icmp6_ok :: "nat \<Rightarrow> ICMPV6_HEADER_INFO \<Rightarrow> bool" where
  "icmp6_ok e info \<longleftrightarrow>
     (\<forall>q. Icmp6Data_at info = Some q \<longrightarrow> q + unat (Icmp6DataSize info) \<le> e) \<and>
     (\<forall>q. EchoData_at info = Some q \<longrightarrow> q + unat (EchoDataSize info) \<le> e) \<and>
     (\<forall>q. Icmp6Header_at info = Some q \<longrightarrow> q + icmp6_header (Icmp6Type info) \<le> e) \<and>
     icmp6_options_ok e (OptionList info)"

definition l4_ok :: "nat \<Rightarrow> nat \<Rightarrow> PKT \<Rightarrow> bool" where
  "l4_ok off e p \<longleftrightarrow>
     (TypeL4 p \<in> {L4_TCP, L4_UDP, L4_ICMPV4, L4_ICMPV6} \<longrightarrow> L4_at p = Some off \<and> off + l4_header (TypeL4 p) \<le> e) \<and>
     (TypeL7 p = L7_DHCPV4 \<longrightarrow>
       TypeL3 p = L3_IPV4 \<and> TypeL4 p = L4_UDP \<and> L7_at p = Some (off + 8) \<and> off + 52 \<le> e) \<and>
     (TypeL7 p = L7_IKECONN \<longrightarrow> TypeL4 p = L4_UDP \<and> L7_at p = Some (off + 8) \<and> off + 8 + 28 \<le> e) \<and>
     (TypeL4 p = L4_ICMPV6 \<longrightarrow> icmp6_ok e (ICMPv6HeaderPacketInfo p)) \<and>
     (\<forall>q. Payload_at p = Some q \<longrightarrow> q + unat (PayloadSize p) \<le> e)"

lemma icmp6_ok_mono: "icmp6_ok e info \<Longrightarrow> e \<le> e' \<Longrightarrow> icmp6_ok e' info"
  unfolding icmp6_ok_def icmp6_options_ok_def by (meson order_trans)

lemma l4_ok_mono: "l4_ok off e p \<Longrightarrow> e \<le> e' \<Longrightarrow> l4_ok off e' p"
  unfolding l4_ok_def by (intro conjI impI allI) (use icmp6_ok_mono order_trans in blast)+

definition fresh_l4 :: "PKT \<Rightarrow> bool" where
  "fresh_l4 p \<longleftrightarrow> TypeL4 p = L4_UNKNOWN \<and> TypeL7 p = 0 \<and> Payload_at p = None \<and> L4_at p = None"

definition l4_result :: "nat \<Rightarrow> nat \<Rightarrow> PKT \<Rightarrow> (bool \<times> PKT) option \<Rightarrow> bool" where
  "l4_result off e p r \<longleftrightarrow> (\<exists>ok p'. r = Some (ok, p') \<and> l3_part p' = l3_part p \<and> l4_ok off e p')"

lemma l4_resultI [intro?]:
  "r = Some (ok, p') \<Longrightarrow> l3_part p' = l3_part p \<Longrightarrow> l4_ok off e p' \<Longrightarrow> l4_result off e p r"
  by (auto simp: l4_result_def)

lemma fresh_l4_ok: "fresh_l4 p \<Longrightarrow> l4_ok off e p"
  by (simp add: fresh_l4_def l4_ok_def)

lemmas l4_defs = l4_ok_def l4_header_def l3_part_def fresh_l4_def

lemma unat_of_nat_le: "unat (of_nat n :: 'a::len word) \<le> n"
  by (simp add: unat_of_nat)

lemma ParseTCP_spec:
  assumes "off + sz \<le> length m" and "fresh_l4 p"
  shows "l4_result off (off + sz) p (ParseTCP m p off sz)"
proof (cases "sz < 20")
  case True
  then show ?thesis using fresh_l4_ok [OF assms(2)] by (auto simp: ParseTCP_def l4_result_def)
next
  case False
  define h where "h = unat (drop_bit 4 (m ! (off + 12)) AND 0x0f) * 4"
  have "ParseTCP m p off sz = (if h < 20 \<or> sz < h then Some (True, p\<lparr>L4_at := None, TypeL4 := L4_UNKNOWN\<rparr>)
      else Some (True, p\<lparr>L4_at := Some off, TypeL4 := L4_TCP, Payload_at := Some (off + h), PayloadSize := of_nat (sz - h)\<rparr>))"
    using False assms(1) by (simp add: ParseTCP_def mem_simps h_def)
  then show ?thesis using False assms(2) unat_of_nat_le [of "sz - h", where 'a=32]
    by (auto simp: l4_result_def l4_defs)
qed

lemma ParseICMPv4_spec:
  assumes "fresh_l4 p"
  shows "l4_result off (off + sz) p (Some (ParseICMPv4 p off sz))"
  using assms by (auto simp: l4_result_def l4_defs ParseICMPv4_def)

lemma ParseDNS_spec:
  assumes "off + sz \<le> length m" and "sz \<le> BUF_MAX"
  shows "ParseDNS m p off sz = Some p \<or> (\<exists>h. ParseDNS m p off sz = Some (p\<lparr>DnsQueryHost := h, TypeL7 := L7_DNS\<rparr>))"
proof (cases "sz < 12")
  case True
  then show ?thesis by (simp add: ParseDNS_def)
next
  case False
  obtain ok name where q: "ParseDnsQuery 512 (take (sz - 12) (drop (off + 12) m)) = Some (ok, name)"
  proof -
    have "length (take (sz - 12) (drop (off + 12) m)) \<le> BUF_MAX" using assms(2) by simp
    then show ?thesis using that ParseDnsQuery_total by blast
  qed
  show ?thesis using False assms q by (auto simp: ParseDNS_def mem_simps)
qed

lemma ParseUDP_spec:
  assumes "off + sz \<le> length m" and "sz \<le> BUF_MAX" and "fresh_l4 p"
  shows "l4_result off (off + sz) p (ParseUDP m p off sz)"
proof (cases "sz < 8")
  case True
  then show ?thesis using fresh_l4_ok [OF assms(3)] by (auto simp: ParseUDP_def l4_result_def)
next
  case False
  define p1 where "p1 = p\<lparr>L4_at := Some off, TypeL4 := L4_UDP, Payload_at := Some (off + 8), PayloadSize := of_nat (sz - 8)\<rparr>"
  have p1: "l3_part p1 = l3_part p" "TypeL7 p1 = 0" "TypeL3 p1 = TypeL3 p" "TypeL4 p1 = L4_UDP" "L4_at p1 = Some off"
    "Payload_at p1 = Some (off + 8)" "PayloadSize p1 = of_nat (sz - 8)"
    using assms(3) by (simp_all add: p1_def l4_defs)
  have pay: "off + 8 + unat (of_nat (sz - 8) :: u32) \<le> off + sz"
    using False unat_of_nat_le [of "sz - 8", where 'a=32] by linarith
  have keep: "l4_result off (off + sz) p (Some (True, q))"
    if "l3_part q = l3_part p1" "TypeL4 q = L4_UDP" "L4_at q = Some off" "Payload_at q = Some (off + 8)"
      "PayloadSize q = of_nat (sz - 8)" "TypeL7 q = L7_DHCPV4 \<Longrightarrow> TypeL3 p = L3_IPV4 \<and> L7_at q = Some (off + 8) \<and> 52 \<le> sz"
      "TypeL7 q = L7_IKECONN \<Longrightarrow> L7_at q = Some (off + 8) \<and> 36 \<le> sz"
    for q
    using that p1 pay False by (auto simp: l4_result_def l4_defs)
  have dhcp: "l4_result off (off + sz) p (Some (True, ParseDHCPv4 p1 (off + 8) (sz - 8)))" if "TypeL3 p = L3_IPV4"
    by (rule keep) (use that p1 in \<open>auto simp: ParseDHCPv4_def l3_part_def\<close>)
  have dns: "l4_result off (off + sz) p (do { p \<leftarrow> ParseDNS m p1 (off + 8) (sz - 8); Some (True, p) })"
  proof -
    have "off + 8 + (sz - 8) \<le> length m" "sz - 8 \<le> BUF_MAX" using assms(1,2) False by linarith+
    from ParseDNS_spec [OF this, of p1] show ?thesis using p1 by (auto intro!: keep simp: l3_part_def)
  qed
  define tail where "tail = (\<lambda>ike. if ike then Some (True, p1\<lparr>TypeL7 := L7_IKECONN, L7_at := Some (off + 8)\<rparr>)
          else if sz - 8 = 14
          then do {
            d \<leftarrow> mem_bytes m (off + 8) 14;
            if hd d = 0x38 \<and> IsZero (take 5 (drop 9 d)) \<and> \<not> IsZero (take 8 (drop 1 d))
            then Some (True, p1\<lparr>TypeL7 := L7_OPENVPNCONN\<rparr>)
            else Some (True, p1)
          }
          else Some (True, p1))"
  have tail: "l4_result off (off + sz) p (tail ike)" if long: "ike \<Longrightarrow> 36 \<le> sz" for ike
  proof (cases "ike \<or> sz - 8 \<noteq> 14")
    case True
    then show ?thesis using p1 long by (auto simp: tail_def intro!: keep simp: l3_part_def)
  next
    case F: False
    then have "mem_bytes m (off + 8) 14 = Some (take 14 (drop (off + 8) m))"
      using assms(1) by (intro mem_bytes_ok) linarith
    then show ?thesis using F p1 unfolding tail_def by (auto intro!: keep simp: l3_part_def)
  qed
  define sp dp where "sp = of_be16 (take 2 (drop off m))" and "dp = of_be16 (take 2 (drop (off + 2) m))"
  have ports: "net16 m off = Some sp" "net16 m (off + 2) = Some dp"
    using False assms(1) by (simp_all add: mem_simps sp_def dp_def)
  have rest: "\<exists>ike. (if (sp = 500 \<or> dp = 500 \<or> sp = 4500 \<or> dp = 4500) \<and> sz - 8 \<ge> 28
            then do {
              initiator \<leftarrow> mem_bytes m (off + 8) 8;
              responder \<leftarrow> mem_bytes m (off + 8 + 8) 8;
              exchange \<leftarrow> mem8 m (off + 8 + 18);
              Some (\<not> IsZero initiator \<and> IsZero responder \<and> (exchange = 2 \<or> exchange = 4))
            }
            else Some False) = Some ike"
    using assms(1) by (auto simp: mem_simps)
  then obtain ike where ike: "(if (sp = 500 \<or> dp = 500 \<or> sp = 4500 \<or> dp = 4500) \<and> sz - 8 \<ge> 28
            then do {
              initiator \<leftarrow> mem_bytes m (off + 8) 8;
              responder \<leftarrow> mem_bytes m (off + 8 + 8) 8;
              exchange \<leftarrow> mem8 m (off + 8 + 18);
              Some (\<not> IsZero initiator \<and> IsZero responder \<and> (exchange = 2 \<or> exchange = 4))
            }
            else Some False) = Some ike" by blast
  then have long: "ike \<Longrightarrow> 36 \<le> sz" by (auto split: if_splits)
  have eq: "ParseUDP m p off sz =
      (if (sp = 67 \<and> dp = 68 \<or> sp = 68 \<and> dp = 67) \<and> TypeL3 p = L3_IPV4
       then Some (True, ParseDHCPv4 p1 (off + 8) (sz - 8))
       else if dp = 53 then do { p \<leftarrow> ParseDNS m p1 (off + 8) (sz - 8); Some (True, p) }
       else tail ike)"
    unfolding ParseUDP_def Let_def ports Option.bind_lunit p1_def [symmetric] p1(3) ike tail_def [symmetric]
    using False by simp
  show ?thesis unfolding eq using dhcp dns tail [OF long] by simp
qed

text \<open>IPv6: the payload and the fragment header found are in the frame.\<close>

definition v6_ok :: "nat \<Rightarrow> IPV6_HEADER_PACKET_INFO \<Rightarrow> bool" where
  "v6_ok e info \<longleftrightarrow>
     (\<forall>d. V6Payload_at info = Some d \<longrightarrow> d + unat (V6PayloadSize info) \<le> e) \<and>
     (\<forall>f. FragmentHeader_at info = Some f \<longrightarrow> f + 8 \<le> e) \<and>
     (\<forall>h. HopHeader_at info = Some h \<longrightarrow> h + unat (HopHeaderSize info) \<le> e) \<and>
     (\<forall>h. EndPointHeader_at info = Some h \<longrightarrow> h + unat (EndPointHeaderSize info) \<le> e) \<and>
     (\<forall>h. RoutingHeader_at info = Some h \<longrightarrow> h + unat (RoutingHeaderSize info) \<le> e)"

definition v6_result :: "nat \<Rightarrow> IPV6_HEADER_PACKET_INFO \<Rightarrow> (bool \<times> IPV6_HEADER_PACKET_INFO) option \<Rightarrow> bool" where
  "v6_result e info r \<longleftrightarrow>
     (\<exists>ok info'. r = Some (ok, info') \<and> v6_ok e info' \<and> IPv6Header_at info' = IPv6Header_at info)"

lemma v6_result_Some: "v6_ok e i \<Longrightarrow> IPv6Header_at i = IPv6Header_at info \<Longrightarrow> v6_result e info (Some (ok, i))"
  by (auto simp: v6_result_def)

lemma v6_ext_loop_spec:
  "off + sz \<le> length m \<Longrightarrow> V6Payload_at info = None \<Longrightarrow> v6_ok (off + sz) info \<Longrightarrow>
   v6_result (off + sz) info (v6_ext_loop m info nh nh2 off sz)"
proof (induction sz arbitrary: info nh nh2 off rule: less_induct)
  case (less sz)
  obtain nh2' where nh2': "(if sz > 8 then mem8 m off else Some nh2) = Some nh2'"
    using less.prems(1) by (cases "sz > 8") (simp_all add: mem_simps)
  note unf = v6_ext_loop.simps [of m info nh nh2 off sz] nh2' Option.bind_lunit
  consider "nh = IPV6_HEADER_HOP \<or> nh = IPV6_HEADER_ENDPOINT \<or> nh = IPV6_HEADER_ROUTING"
    | "nh = IPV6_HEADER_FRAGMENT"
    | "\<not> (nh = IPV6_HEADER_HOP \<or> nh = IPV6_HEADER_ENDPOINT \<or> nh = IPV6_HEADER_ROUTING)" "nh \<noteq> IPV6_HEADER_FRAGMENT"
    by blast
  then show ?case
  proof cases
    case 1
    define h where "h = (unat (m ! (off + 1)) + 1) * 8"
    show ?thesis
    proof (cases "sz < 8 \<or> sz < h")
      case True
      then show ?thesis using less.prems 1 unfolding unf
        by (auto simp: mem_simps h_def intro!: v6_result_Some)
    next
      case False
      define info2 where "info2 = (if nh = IPV6_HEADER_HOP
                then info\<lparr>HopHeader_at := Some off, HopHeaderSize := of_nat h\<rparr>
                else if nh = IPV6_HEADER_ENDPOINT
                then info\<lparr>EndPointHeader_at := Some off, EndPointHeaderSize := of_nat h\<rparr>
                else info\<lparr>RoutingHeader_at := Some off, RoutingHeaderSize := of_nat h\<rparr>)"
      have c: "mem8 m (off + 1) = Some (m ! (off + 1))" using less.prems(1) False by (intro mem8_ok) linarith
      have "v6_ext_loop m info nh nh2 off sz = v6_ext_loop m info2 nh2' nh2' (off + h) (sz - h)"
        unfolding unf c Let_def h_def [symmetric] info2_def [symmetric] using 1 False by simp
      moreover have "v6_result (off + h + (sz - h)) info2 (v6_ext_loop m info2 nh2' nh2' (off + h) (sz - h))"
        using less.prems False unat_of_nat_le [of h, where 'a=32] by (intro less.IH) (auto simp: info2_def h_def v6_ok_def)
      ultimately show ?thesis using False by (auto simp: v6_result_def info2_def)
    qed
  next
    case 2
    show ?thesis
    proof (cases "sz < 8")
      case True
      then show ?thesis using less.prems 2 unfolding unf by (auto intro!: v6_result_Some)
    next
      case False
      define info2 where "info2 = info\<lparr>FragmentHeader_at := Some off,
             IsFragment := (IsFragment info \<or>
               (push_bit 5 (ucast (m ! (off + 2))) AND 0x1fe0) OR (drop_bit 3 (ucast (m ! (off + 3))) AND 0x1f) \<noteq> (0 :: u32))\<rparr>"
      have c: "mem8 m (off + 2) = Some (m ! (off + 2))" "mem8 m (off + 3) = Some (m ! (off + 3))"
        using less.prems(1) False by (intro mem8_ok; linarith)+
      have "v6_ext_loop m info nh nh2 off sz = v6_ext_loop m info2 nh2' nh2' (off + 8) (sz - 8)"
        unfolding unf c Let_def Option.bind_lunit info2_def [symmetric] using 2 False by simp
      moreover have "v6_result (off + 8 + (sz - 8)) info2 (v6_ext_loop m info2 nh2' nh2' (off + 8) (sz - 8))"
        using less.prems False by (intro less.IH) (auto simp: info2_def v6_ok_def)
      ultimately show ?thesis using False by (auto simp: v6_result_def info2_def)
    qed
  next
    case 3
    then show ?thesis using less.prems unat_of_nat_le [of sz, where 'a=32] unfolding unf
      by (auto intro!: v6_result_Some simp: v6_ok_def)
  qed
qed

lemma ParsePacketIPv6Header_spec:
  assumes "off + sz \<le> length m"
  shows "\<exists>ok info. ParsePacketIPv6Header m off sz = Some (ok, info) \<and> v6_ok (off + sz) info \<and>
    (ok \<longrightarrow> IPv6Header_at info = Some off \<and> 40 \<le> sz)"
proof (cases "sz < 40 \<or> drop_bit 4 (m ! off) AND 0x0f \<noteq> 6")
  case True
  then show ?thesis using assms by (cases "sz < 40") (auto simp: ParsePacketIPv6Header_def mem_simps v6_ok_def no_v6_def)
next
  case False
  define info where "info = no_v6\<lparr>IPv6Header_at := Some off\<rparr>"
  have "v6_result (off + 40 + (sz - 40)) (info\<lparr>IsFragment := False\<rparr>)
      (v6_ext_loop m (info\<lparr>IsFragment := False\<rparr>) (m ! (off + 6)) IPV6_HEADER_NONE (off + 40) (sz - 40))"
    using assms False by (intro v6_ext_loop_spec) (auto simp: info_def no_v6_def v6_ok_def)
  then obtain ok i where i: "ParseIPv6ExtHeader m info (m ! (off + 6)) (off + 40) (sz - 40) = Some (ok, i)"
    "v6_ok (off + sz) i" "IPv6Header_at i = Some off"
    using False by (auto simp: v6_result_def ParseIPv6ExtHeader_def info_def)
  have "ParsePacketIPv6Header m off sz = Some (ok, if ok then (case V6Payload_at i of None \<Rightarrow> i
      | Some pl \<Rightarrow> i\<lparr>TotalHeaderSize := of_nat (pl - off)\<rparr>) else i)"
    using False assms i(1) unfolding ParsePacketIPv6Header_def info_def by (auto simp: mem_simps)
  then show ?thesis using i False by (auto simp: v6_ok_def split: option.splits)
qed

lemma ParseICMPv6Options_total:
  "off + sz \<le> length m \<Longrightarrow> icmp6_options_ok (off + sz) opts \<Longrightarrow>
    \<exists>ok opts'. ParseICMPv6Options m opts off sz = Some (ok, opts') \<and> icmp6_options_ok (off + sz) opts'"
proof (induction sz arbitrary: off opts rule: less_induct)
  case (less sz)
  show ?case
  proof (cases "sz < 2")
    case True
    then have "ParseICMPv6Options m opts off sz = Some (True, opts)" by (simp add: ParseICMPv6Options.simps)
    then show ?thesis using less.prems(2) by blast
  next
    case False
    define t where "t = unat (m ! (off + 1)) * 8"
    have c: "mem8 m off = Some (m ! off)" "mem8 m (off + 1) = Some (m ! (off + 1))"
      using less.prems False by (intro mem8_ok; linarith)+
    have again: "\<exists>ok o3. ParseICMPv6Options m o2 (off + t) (sz - t) = Some (ok, o3) \<and> icmp6_options_ok (off + sz) o3"
      if "t \<noteq> 0" "\<not> sz < t" "icmp6_options_ok (off + sz) o2" for o2
    proof -
      have "off + t + (sz - t) = off + sz" using that by simp
      then show ?thesis using less.prems(1) that less.IH [of "sz - t" "off + t" o2] False by simp
    qed
    have pick: "icmp6_options_ok (off + sz) (opts\<lparr>SourceLinkLayer_at := Some off\<rparr>)"
      "icmp6_options_ok (off + sz) (opts\<lparr>TargetLinkLayer_at := Some off\<rparr>)"
      "icmp6_options_ok (off + sz) (opts\<lparr>Mtu_at := Some off\<rparr>)"
      "32 \<le> t \<Longrightarrow> icmp6_options_ok (off + sz) (opts\<lparr>Prefix_at := Some off\<rparr>)" if "8 \<le> t" "\<not> sz < t"
      using less.prems(2) that by (simp_all add: icmp6_options_ok_def)
    show ?thesis
      unfolding ParseICMPv6Options.simps [of m opts off sz] c Option.bind_lunit Let_def t_def [symmetric]
      using False again pick less.prems(2) by auto
  qed
qed

lemma unat_ucast_16_32: "unat (ucast (x :: u16) :: u32) = unat x"
  by (simp add: unsigned_ucast_eq take_bit_nat_eq_self order.strict_trans [OF unsigned_less])

lemma ParseICMPv6_spec:
  assumes "off + sz \<le> length m" and "fresh_l4 p"
  shows "l4_result off (off + sz) p (ParseICMPv6 m p off sz)"
proof (cases "sz < 4")
  case True
  then show ?thesis using fresh_l4_ok [OF assms(2)] by (auto simp: ParseICMPv6_def l4_result_def)
next
  case False
  define info where "info = no_icmp6\<lparr>Icmp6Type := m ! off, Icmp6Code := m ! (off + 1), Icmp6Data_at := Some (off + 4),
          Icmp6DataSize := of_nat (sz - 4)\<rparr>"
  have n: "unat (Icmp6DataSize info) \<le> sz - 4" by (simp add: info_def unat_of_nat_le)
  have c: "mem8 m off = Some (m ! off)" "mem8 m (off + 1) = Some (m ! (off + 1))"
    using assms(1) False by (intro mem8_ok; linarith)+
  have ty: "Icmp6Type info = m ! off" "Icmp6DataSize info = of_nat (sz - 4)" by (simp_all add: info_def)
  have info: "icmp6_ok (off + sz) info"
    using False n by (simp add: info_def icmp6_ok_def no_icmp6_def icmp6_options_ok_def no_icmp6_options_def)
  have hd: "\<exists>ok i. icmp6_headed m info (off + 4) k = Some (ok, i) \<and> (ok \<longrightarrow> icmp6_ok (off + sz) i)"
    if "icmp6_header (m ! off) = k" for k
  proof (cases "unat (Icmp6DataSize info) < k")
    case True
    then show ?thesis by (auto simp: icmp6_headed_def)
  next
    case F: False
    define w where "w = unat (Icmp6DataSize info) - k"
    have w: "off + 4 + k + w \<le> off + sz" using assms(1) False F n unfolding w_def by linarith
    moreover have "icmp6_options_ok (off + 4 + k + w) no_icmp6_options"
      by (simp add: icmp6_options_ok_def no_icmp6_options_def)
    ultimately obtain ok opts where r: "ParseICMPv6Options m no_icmp6_options (off + 4 + k) w = Some (ok, opts)"
      "icmp6_options_ok (off + 4 + k + w) opts"
      using ParseICMPv6Options_total [of "off + 4 + k" w m no_icmp6_options] assms(1) by auto
    have "icmp6_options_ok (off + sz) opts" using r(2) w unfolding icmp6_options_ok_def by (meson order_trans)
    moreover have "off + 4 + k \<le> off + sz" using w by linarith
    ultimately have "icmp6_ok (off + sz) (info\<lparr>Icmp6Header_at := Some (off + 4), OptionList := opts\<rparr>)"
      using info that ty(1) by (simp add: icmp6_ok_def)
    then show ?thesis using F r(1) by (simp add: icmp6_headed_def w_def)
  qed
  define res where "res = (if m ! off = 128 \<or> m ! off = 129
           then
             if unat (Icmp6DataSize info) < 4 then Some (False, info)
             else do {
               i \<leftarrow> net16 m (off + 4);
               s \<leftarrow> net16 m (off + 4 + 2);
               Some (True, info\<lparr>EchoIdentifier := i, EchoSeqNo := s, EchoData_at := Some (off + 4 + 4),
                 EchoDataSize := ucast (Icmp6DataSize info) - 4\<rparr>)
             }
           else if m ! off = 133 then icmp6_headed m info (off + 4) 4
           else if m ! off = 134 then icmp6_headed m info (off + 4) 12
           else if m ! off = 135 \<or> m ! off = 136 then icmp6_headed m info (off + 4) 20
           else Some (True, info))"
  have "\<exists>ok i. res = Some (ok, i) \<and> (ok \<longrightarrow> icmp6_ok (off + sz) i)"
  proof (cases "(m ! off = 128 \<or> m ! off = 129) \<and> \<not> unat (Icmp6DataSize info) < 4")
    case True
    have "net16 m (off + 4) = Some (of_be16 (take 2 (drop (off + 4) m)))"
      "net16 m (off + 4 + 2) = Some (of_be16 (take 2 (drop (off + 4 + 2) m)))"
      using True assms(1) False n by (intro net16_ok; linarith)+
    moreover have "unat (ucast (Icmp6DataSize info) - 4 :: u32) = unat (Icmp6DataSize info) - 4"
      using True by (subst unat_sub) (simp_all add: word_le_nat_alt unat_ucast_16_32)
    then have "off + 4 + 4 + unat (ucast (Icmp6DataSize info) - 4 :: u32) \<le> off + sz" using True n False by linarith
    ultimately show ?thesis using True info by (auto simp: res_def icmp6_ok_def)
  next
    case F: False
    then show ?thesis using hd info by (auto simp: res_def icmp6_header_def)
  qed
  then obtain ok i where i: "res = Some (ok, i)" "ok \<Longrightarrow> icmp6_ok (off + sz) i" by blast
  have "ParseICMPv6 m p off sz = (if ok then Some (True, p\<lparr>L4_at := Some off, TypeL4 := L4_ICMPV6, ICMPv6HeaderPacketInfo := i\<rparr>)
      else Some (False, p\<lparr>L4_at := Some off\<rparr>))"
    unfolding ParseICMPv6_def c Option.bind_lunit Let_def info_def [symmetric] res_def [symmetric] i(1) using False by simp
  then show ?thesis using False assms(2) i(2) by (cases ok) (auto simp: l4_result_def l4_defs)
qed

section \<open>What a parsed packet promises\<close>

text \<open>
  The headers that the type fields announce are in the frame of \<open>n\<close> bytes and where the
  offsets say, and so are the payloads; the offset of the payload of an IPv4 packet is the end of
  its header, whose length the first byte of the header gives.
\<close>

definition v4_parsed :: "u8 list \<Rightarrow> nat \<Rightarrow> PKT \<Rightarrow> bool" where
  "v4_parsed m n p \<longleftrightarrow>
     L3_at p = Some 14 \<and> n \<le> length m \<and> unat (m ! 14 AND 0x0f) \<ge> 5 \<and>
     (let d = 14 + unat (m ! 14 AND 0x0f) * 4
      in IPv4PayloadData_at p = Some d \<and> d + unat (IPv4PayloadSize p) \<le> n \<and> d \<le> n \<and> l4_ok d n p)"

definition v6_parsed :: "nat \<Rightarrow> PKT \<Rightarrow> bool" where
  "v6_parsed n p \<longleftrightarrow>
     L3_at p = Some 14 \<and> 54 \<le> n \<and> v6_ok n (IPv6HeaderPacketInfo p) \<and>
     (case V6Payload_at (IPv6HeaderPacketInfo p) of None \<Rightarrow> fresh_l4 p | Some d \<Rightarrow> l4_ok d n p)"

definition parsed :: "u8 list \<Rightarrow> nat \<Rightarrow> PKT \<Rightarrow> bool" where
  "parsed m n p \<longleftrightarrow>
     (TypeL3 p = L3_UNKNOWN \<longrightarrow> L3_at p = None) \<and>
     (TypeL3 p = L3_ARPV4 \<longrightarrow> L3_at p = Some 14 \<and> 42 \<le> n) \<and>
     (TypeL3 p = L3_TAGVLAN \<longrightarrow> L3_at p = Some 14 \<and> 16 \<le> n) \<and>
     (TypeL3 p = L3_BPDU \<longrightarrow> L3_at p = Some 17 \<and> 52 \<le> n) \<and>
     (TypeL3 p = L3_IPV4 \<longrightarrow> v4_parsed m n p) \<and>
     (TypeL3 p = L3_IPV6 \<longrightarrow> v6_parsed n p) \<and>
     (TypeL3 p \<noteq> L3_IPV4 \<and> TypeL3 p \<noteq> L3_IPV6 \<longrightarrow> fresh_l4 p)"

definition fresh :: "PKT \<Rightarrow> bool" where
  "fresh p \<longleftrightarrow> fresh_l4 p \<and> TypeL3 p = L3_UNKNOWN \<and> L3_at p = None"

definition l3_result :: "u8 list \<Rightarrow> nat \<Rightarrow> (bool \<times> PKT) option \<Rightarrow> bool" where
  "l3_result m n r \<longleftrightarrow> (\<exists>ok p. r = Some (ok, p) \<and> (ok \<longrightarrow> parsed m n p))"

lemma l3_result_Some: "(ok \<Longrightarrow> parsed m n p) \<Longrightarrow> l3_result m n (Some (ok, p))"
  by (auto simp: l3_result_def)

lemma fresh_parsed: "fresh p \<Longrightarrow> parsed m n p"
  by (simp add: fresh_def parsed_def)

lemma l4_result_l3:
  assumes "l4_result off e p r" and "\<And>ok p'. l3_part p' = l3_part p \<Longrightarrow> l4_ok off e p' \<Longrightarrow> parsed m n p'"
  shows "l3_result m n r"
  using assms by (auto simp: l4_result_def l3_result_def)

text \<open>With a good header the packet is an IPv4 packet, and one of ICMP is not refused.\<close>

definition v4_good :: "u8 list \<Rightarrow> nat \<Rightarrow> PKT \<Rightarrow> PKT \<Rightarrow> bool" where
  "v4_good m n p q \<longleftrightarrow> parsed m n q \<and> TypeL3 q = L3_IPV4 \<and> BroadcastPacket q = BroadcastPacket p"

definition v4_result :: "u8 list \<Rightarrow> nat \<Rightarrow> PKT \<Rightarrow> (bool \<times> PKT) option \<Rightarrow> bool" where
  "v4_result m n p r \<longleftrightarrow>
     (\<exists>ok q. r = Some (ok, q) \<and> (ok \<longrightarrow> v4_good m n p q) \<and>
       (m ! 23 = IP_PROTO_ICMPV4 \<and> 18 + unat (m ! 14 AND 0x0f) * 4 \<le> n \<longrightarrow> ok))"

lemma v4_result_Some: "v4_good m n p q \<Longrightarrow> v4_result m n p (Some (True, q))"
  by (auto simp: v4_result_def)

lemma l4_result_v4:
  assumes "l4_result off e p r" and "\<And>ok q. l3_part q = l3_part p \<Longrightarrow> l4_ok off e q \<Longrightarrow> v4_good m n p0 q"
    and "m ! 23 \<noteq> IP_PROTO_ICMPV4"
  shows "v4_result m n p0 r"
  using assms by (auto simp: l4_result_def v4_result_def)

lemma and_0f_bound: "unat ((c :: u8) AND 0x0f) \<le> 15"
proof -
  have "c AND 0x0f \<le> 0x0f" by (rule word_and_le1)
  then show ?thesis by (simp add: word_le_nat_alt)
qed

lemma ParsePacketIPv4_good:
  assumes "n \<le> length m" and "n \<le> BUF_MAX" and "fresh p"
    and good: "5 \<le> unat (m ! 14 AND 0x0f)" "14 + unat (m ! 14 AND 0x0f) * 4 \<le> n"
  shows "v4_result m n p (ParsePacketIPv4 m p 14 (n - 14))"
proof -
  define h where "h = unat (m ! 14 AND 0x0f) * 4"
  have ok: "20 \<le> h" "14 + h \<le> n" "\<not> n - 14 < h" "\<not> n - 14 < 20" using good by (simp_all add: h_def)
  have v: "mem8 m 14 = Some (m ! 14)" using ok assms(1) by (intro mem8_ok) linarith
  define total where "total = of_be16 (take 2 (drop (14 + 2) m))"
  have t: "net16 m (14 + 2) = Some total" using ok assms(1) unfolding total_def by (intro net16_ok) linarith
  define size where "size = (if unat total < h then 0
    else min (of_nat (n - 14 - h)) (ucast total - of_nat h :: u32))"
  define p1 where "p1 = p\<lparr>L3_at := Some 14, TypeL3 := L3_IPV4, IPv4PayloadSize := size,
          IPv4PayloadData_at := Some (14 + h)\<rparr>"
  have size: "unat size \<le> n - 14 - h"
  proof -
    have "size \<le> of_nat (n - 14 - h)" by (simp add: size_def)
    then show ?thesis using unat_of_nat_le [of "n - 14 - h", where 'a=32] by (simp add: word_le_nat_alt)
  qed
  have p1: "v4_good m n p p'" if "l3_part p' = l3_part p1" "l4_ok (14 + h) n p'" for p'
    using that size ok assms(1)
    by (auto simp: v4_good_def parsed_def v4_parsed_def l3_part_def p1_def h_def Let_def)
  have fresh1: "fresh_l4 p1" using assms(3) by (simp add: fresh_def fresh_l4_def p1_def)
  have e: "14 + h + (n - 14 - h) = n" using ok by linarith
  have bytes: "mem8 m (14 + 6) = Some (m ! 20)" "mem8 m (14 + 7) = Some (m ! 21)" "mem8 m (14 + 9) = Some (m ! 23)"
    using ok assms(1) by (simp_all add: mem_simps)
  have frag: "v4_good m n p (p1\<lparr>TypeL4 := L4_FRAGMENT\<rparr>)"
    using fresh1 by (intro p1) (auto simp: l4_defs)
  have plain: "v4_good m n p p1" using fresh1 by (intro p1 fresh_l4_ok) simp_all
  have sub: "14 + h + (n - 14 - h) \<le> length m" "n - 14 - h \<le> BUF_MAX" using e assms(1,2) by linarith+
  have icmp: "v4_result m n p (Some (ParseICMPv4 p1 (14 + h) (n - 14 - h)))"
  proof -
    obtain ok q where q: "ParseICMPv4 p1 (14 + h) (n - 14 - h) = (ok, q)" by fastforce
    then have "v4_good m n p q"
      using ParseICMPv4_spec [OF fresh1, of "14 + h" "n - 14 - h"] p1 [of q] unfolding e by (simp add: l4_result_def)
    moreover have "18 + h \<le> n \<Longrightarrow> ok" using q by (auto simp: ParseICMPv4_def split: if_splits)
    ultimately show ?thesis using q by (simp add: v4_result_def h_def)
  qed
  have udp: "v4_result m n p (ParseUDP m p1 (14 + h) (n - 14 - h))" if "m ! 23 \<noteq> IP_PROTO_ICMPV4"
    using ParseUDP_spec [OF sub fresh1] unfolding e by (rule l4_result_v4 [OF _ _ that]) (rule p1)
  have tcp: "v4_result m n p (ParseTCP m p1 (14 + h) (n - 14 - h))" if "m ! 23 \<noteq> IP_PROTO_ICMPV4"
    using ParseTCP_spec [OF sub(1) fresh1] unfolding e by (rule l4_result_v4 [OF _ _ that]) (rule p1)
  have "ParsePacketIPv4 m p 14 (n - 14) =
      (if unat (m ! 20 AND 0x1f) * 256 + unat (m ! 21) \<noteq> 0 then Some (True, p1\<lparr>TypeL4 := L4_FRAGMENT\<rparr>)
       else if m ! 23 = IP_PROTO_ICMPV4 then Some (ParseICMPv4 p1 (14 + h) (n - 14 - h))
       else if m ! 23 = IP_PROTO_UDP then ParseUDP m p1 (14 + h) (n - 14 - h)
       else if m ! 23 = IP_PROTO_TCP then ParseTCP m p1 (14 + h) (n - 14 - h)
       else Some (True, p1))"
    unfolding ParsePacketIPv4_def v t bytes Option.bind_lunit Let_def h_def [symmetric] size_def [symmetric]
      p1_def [symmetric] using ok by simp
  then show ?thesis using icmp udp tcp frag plain by (auto intro: v4_result_Some)
qed

lemma ParsePacketIPv4_spec:
  assumes "n \<le> length m" and "14 \<le> n" and "n \<le> BUF_MAX" and "fresh p"
  shows "l3_result m n (ParsePacketIPv4 m p 14 (n - 14))"
proof (cases "n - 14 < 20")
  case True
  then show ?thesis by (auto simp: ParsePacketIPv4_def intro!: l3_result_Some)
next
  case False
  define h where "h = unat (m ! 14 AND 0x0f) * 4"
  have v: "mem8 m 14 = Some (m ! 14)" using False assms(1) by (intro mem8_ok) linarith
  show ?thesis
  proof (cases "h < 20 \<or> n - 14 < h")
    case True
    then have "ParsePacketIPv4 m p 14 (n - 14) = Some (True, p\<lparr>L3_at := None, TypeL3 := L3_UNKNOWN\<rparr>)"
      unfolding ParsePacketIPv4_def v Option.bind_lunit Let_def h_def [symmetric] using False by simp
    then show ?thesis using assms(4) by (auto intro!: l3_result_Some fresh_parsed simp: fresh_def fresh_l4_def)
  next
    case False
    then have "v4_result m n p (ParsePacketIPv4 m p 14 (n - 14))"
      using assms by (intro ParsePacketIPv4_good) (auto simp: h_def)
    then show ?thesis by (auto simp: v4_result_def v4_good_def l3_result_def)
  qed
qed

lemma ParsePacketIPv6_spec:
  assumes "n \<le> length m" and "14 \<le> n" and "n \<le> BUF_MAX" and "fresh p"
  shows "l3_result m n (ParsePacketIPv6 m p 14 (n - 14))"
proof -
  have e: "14 + (n - 14) = n" using assms(2) by simp
  obtain ok info where i: "ParsePacketIPv6Header m 14 (n - 14) = Some (ok, info)" "v6_ok n info"
    "ok \<longrightarrow> IPv6Header_at info = Some 14 \<and> 40 \<le> n - 14"
    using ParsePacketIPv6Header_spec [of 14 "n - 14" m] assms(1) unfolding e by blast
  define p1 where "p1 = p\<lparr>IPv6HeaderPacketInfo := info, TypeL3 := L3_IPV6, L3_at := IPv6Header_at info\<rparr>"
  have fresh1: "fresh_l4 p1" using assms(4) by (simp add: fresh_def fresh_l4_def p1_def)
  show ?thesis
  proof (cases "ok \<and> V6Payload_at info \<noteq> None")
    case False
    have "parsed m n p1" if ok
      using that False i fresh1 by (auto simp: parsed_def v6_parsed_def p1_def)
    then show ?thesis using False i(1) fresh1 unfolding ParsePacketIPv6_def
      by (cases ok) (auto intro!: l3_result_Some simp: p1_def)
  next
    case True
    then obtain d where d: "V6Payload_at info = Some d" by blast
    define sz where "sz = unat (V6PayloadSize info)"
    have e: "d + sz \<le> n" using i(2) d by (simp add: v6_ok_def sz_def)
    have wider: "l4_ok d n p'" if "l4_ok d (d + sz) p'" for p' by (rule l4_ok_mono [OF that e])
    have p1: "parsed m n p'" if "l3_part p' = l3_part p1" "l4_ok d (d + sz) p'" for p'
      using that True i(2,3) d wider [OF that(2)] by (auto simp: parsed_def v6_parsed_def l3_part_def p1_def)
    have sub: "d + sz \<le> length m" "sz \<le> BUF_MAX" using e assms(1,3) by linarith+
    have frag: "parsed m n (p1\<lparr>TypeL4 := L4_FRAGMENT\<rparr>)"
      using fresh1 by (intro p1) (auto simp: l4_defs)
    have plain: "parsed m n p1" using fresh1 by (intro p1 fresh_l4_ok) simp_all
    have icmp: "l3_result m n (do { (ok, p) \<leftarrow> ParseICMPv6 m p1 d sz; Some (True, p) })"
      using ParseICMPv6_spec [OF sub(1) fresh1] by (auto simp: l4_result_def intro!: l3_result_Some p1)
    have udp: "l3_result m n (ParseUDP m p1 d sz)"
      using ParseUDP_spec [OF sub fresh1] by (rule l4_result_l3) (rule p1)
    have tcp: "l3_result m n (ParseTCP m p1 d sz)"
      using ParseTCP_spec [OF sub(1) fresh1] by (rule l4_result_l3) (rule p1)
    have "ParsePacketIPv6 m p 14 (n - 14) =
        (if IsFragment info then Some (True, p1\<lparr>TypeL4 := L4_FRAGMENT\<rparr>)
         else if V6Protocol info = IP_PROTO_ICMPV6
         then do { (ok, p) \<leftarrow> ParseICMPv6 m p1 d sz; Some (True, p) }
         else if V6Protocol info = IP_PROTO_TCP then ParseTCP m p1 d sz
         else if V6Protocol info = IP_PROTO_UDP then ParseUDP m p1 d sz
         else Some (True, p1))"
      unfolding ParsePacketIPv6_def i(1) using True by (simp add: d sz_def p1_def)
    then show ?thesis using icmp udp tcp frag plain by (auto intro: l3_result_Some)
  qed
qed

lemma ParsePacketL2Ex_spec:
  assumes "n \<le> length m" and "n \<le> BUF_MAX" and "fresh p"
  shows "l3_result m n (ParsePacketL2Ex m p n no_l3)"
proof (cases "n < 14")
  case True
  then show ?thesis by (auto simp: ParsePacketL2Ex_def intro!: l3_result_Some)
next
  case False
  define dest src where "dest = take 6 (drop 0 m)" and "src = take 6 (drop 6 m)"
  define ty where "ty = of_be16 (take 2 (drop 12 m))"
  have c: "mem_bytes m 0 6 = Some dest" "mem_bytes m 6 6 = Some src" "net16 m 12 = Some ty"
    using False assms(1) by (simp_all add: mem_simps dest_def src_def ty_def)
  define p1 where "p1 = p\<lparr>BroadcastPacket := (list_all (\<lambda>c. c = 0xff) dest \<or> hd dest AND 0x01 \<noteq> 0),
          InvalidSourcePacket := (list_all (\<lambda>c. c = 0xff) src \<or> list_all (\<lambda>c. c = 0x00) src \<or> src = dest)\<rparr>"
  have fresh1: "fresh p1" using assms(3) by (simp add: fresh_def fresh_l4_def p1_def)
  then have f1: "fresh_l4 p1" by (simp add: fresh_def)
  have plain: "l3_result m n (Some (True, p1))" using fresh1 by (intro l3_result_Some fresh_parsed)
  have v4: "l3_result m n (ParsePacketIPv4 m p1 14 (n - 14))"
    using assms False fresh1 by (intro ParsePacketIPv4_spec) simp_all
  have v6: "l3_result m n (ParsePacketIPv6 m p1 14 (n - 14))"
    using assms False fresh1 by (intro ParsePacketIPv6_spec) simp_all
  have arp: "l3_result m n (Some (ParsePacketARPv4 p1 14 (n - 14)))"
    using fresh1 by (auto simp: ParsePacketARPv4_def parsed_def fresh_def fresh_l4_def intro!: l3_result_Some)
  have vlan: "l3_result m n (ParsePacketTAGVLAN m p1 14 (n - 14))"
    using fresh1 assms(1) False
    by (auto simp: ParsePacketTAGVLAN_def mem_simps parsed_def fresh_def fresh_l4_def intro!: l3_result_Some)
  have bpdu: "l3_result m n (Some (ParsePacketBPDU p1 17 (n - 17)))"
    using fresh1 by (auto simp: ParsePacketBPDU_def parsed_def fresh_def fresh_l4_def intro!: l3_result_Some)
  have llc: "l3_result m n (do {
          dsap \<leftarrow> mem8 m 14;
          ssap \<leftarrow> mem8 m (14 + 1);
          if dsap = LLC_DSAP_BPDU \<and> ssap = LLC_SSAP_BPDU then Some (ParsePacketBPDU p1 (14 + 3) (n - 14 - 3))
          else Some (True, p1)
        })" if "\<not> n - 14 < 3"
    using plain bpdu that assms(1) by (simp add: mem_simps)
  show ?thesis
    unfolding ParsePacketL2Ex_def c Option.bind_lunit Let_def p1_def [symmetric]
    using False plain v4 v6 arp vlan llc by auto
qed

text \<open>The correction of the checksums changes no length, and nothing in front of \<open>lo\<close>.\<close>

definition edits :: "nat \<Rightarrow> u8 list \<Rightarrow> u8 list option \<Rightarrow> bool" where
  "edits lo m r \<longleftrightarrow> (\<exists>m'. r = Some m' \<and> length m' = length m \<and> take lo m' = take lo m)"

lemma edits_Some [simp]: "edits lo m (Some m)"
  by (simp add: edits_def)

lemma edits_bind:
  assumes "edits lo m r" and "\<And>m'. length m' = length m \<Longrightarrow> take lo m' = take lo m \<Longrightarrow> edits lo m' (f m')"
  shows "edits lo m (r \<bind> f)"
  using assms by (auto simp: edits_def)

lemma put16_edits: "i + 2 \<le> length m \<Longrightarrow> lo \<le> i \<Longrightarrow> edits lo m (put16 le m i v)"
  by (simp add: put16_def edits_def min_def)

lemma host16_ok [mem_simps]: "i + 2 \<le> length m \<Longrightarrow> host16 le m i = Some (of_mem16 le (take 2 (drop i m)))"
  by (simp add: host16_def mem_bytes_def)

lemma recalculate_edits:
  assumes "field + 2 \<le> length m" and "lo \<le> field" and "l4 + n \<le> length m"
  shows "edits lo m (recalculate le calc m l4 field n)"
  unfolding recalculate_def using assms
  by (intro edits_bind [OF put16_edits]) (auto simp: mem_simps intro!: put16_edits)

lemma correct_tcp_edits:
  assumes "l4 = Some t" and "t + 20 \<le> length m" and "t + unat psz \<le> length m" and "lo \<le> t"
  shows "edits lo m (correct_tcp le calc m l4 psz)"
  using assms by (auto simp: correct_tcp_def mem_simps intro!: recalculate_edits)

lemma correct_udp_edits:
  assumes "l4 = Some t" and "t + 8 \<le> length m" and "t + unat psz \<le> length m" and "lo \<le> t"
  shows "edits lo m (correct_udp le calc m l4 psz whole)"
proof -
  define len where "len = of_be16 (take 2 (drop (t + 4) m))"
  have c: "host16 le m (t + 6) = Some (of_mem16 le (take 2 (drop (t + 6) m)))" "net16 m (t + 4) = Some len"
    using assms(2) by (simp_all add: mem_simps len_def)
  have "edits lo m (recalculate le calc m t (t + 6) (unat len))" if "psz \<ge> ucast len"
  proof (rule recalculate_edits)
    have "unat (ucast len :: u32) = unat len"
      by (simp add: unsigned_ucast_eq take_bit_nat_eq_self order.strict_trans [OF unsigned_less])
    then have "unat len \<le> unat psz" using that by (simp add: word_le_nat_alt)
    then show "t + unat len \<le> length m" using assms(3) by linarith
  qed (use assms in simp_all)
  moreover have "edits lo m (put16 le m (t + 6) 0)" using assms by (intro put16_edits) simp_all
  ultimately show ?thesis using assms(1) c by (simp add: correct_udp_def)
qed

text \<open>An IPv4 header with a zero checksum gets the right one; one with a checksum is left as it is.\<close>

definition header_fixed :: "bool \<Rightarrow> u8 list \<Rightarrow> u8 list option" where
  "header_fixed le m =
     (if of_mem16 le (take 2 (drop 24 m)) = 0
      then put16 le m 24 (IpChecksum le (take (unat (m ! 14 AND 0x0f) * 4) (drop 14 m))) else Some m)"

lemma CorrectChecksum_v4:
  assumes "parsed (PacketData p) (length (PacketData p)) p" and "TypeL3 p = L3_IPV4"
  shows "\<exists>m1 m2. header_fixed le (PacketData p) = Some m1 \<and>
    CorrectChecksum le p = Some (p\<lparr>PacketData := m2\<rparr>) \<and> length m2 = length (PacketData p) \<and>
    take (14 + unat (PacketData p ! 14 AND 0x0f) * 4) m2 = take (14 + unat (PacketData p ! 14 AND 0x0f) * 4) m1"
proof -
  define m where "m = PacketData p"
  define d where "d = 14 + unat (m ! 14 AND 0x0f) * 4"
  have v4: "L3_at p = Some 14" "34 \<le> d" "d \<le> length m" "d + unat (IPv4PayloadSize p) \<le> length m" "l4_ok d (length m) p"
    using assms by (auto simp: parsed_def v4_parsed_def m_def d_def Let_def)
  have "edits 14 m (header_fixed le m)"
    using v4(2,3) by (auto simp: header_fixed_def intro!: put16_edits)
  then obtain m1 where m1: "header_fixed le m = Some m1" "length m1 = length m"
    by (auto simp: edits_def)
  define calc where "calc = (\<lambda>proto d n. CalcChecksumForIPv4 le (of_mem32 le (take 4 (drop 26 m1)))
    (of_mem32 le (take 4 (drop 30 m1))) proto d n)"
  define f where "f = unat (m1 ! 20 AND 0x1f) * 256 + unat (m1 ! 21)"
  define more where "more \<longleftrightarrow> drop_bit 5 (m1 ! 20) AND 0x01 \<noteq> 0"
  define rest where "rest = do {
            m \<leftarrow> (if TypeL4 p = L4_TCP \<and> f = 0 \<and> \<not> more
              then correct_tcp le (calc IP_PROTO_TCP) m1 (L4_at p) (IPv4PayloadSize p) else Some m1);
            if TypeL4 p = L4_UDP \<and> (f = 0 \<or> \<not> more)
              then correct_udp le (calc IP_PROTO_UDP) m (L4_at p) (IPv4PayloadSize p) (\<not> more) else Some m
          }"
  have l4: "TypeL4 p = L4_TCP \<Longrightarrow> L4_at p = Some d \<and> d + 20 \<le> length m"
    "TypeL4 p = L4_UDP \<Longrightarrow> L4_at p = Some d \<and> d + 8 \<le> length m"
    using v4(5) by (simp_all add: l4_ok_def l4_header_def)
  have "edits d m1 rest"
    unfolding rest_def using l4 v4(4) m1(2)
    by (intro edits_bind) (auto intro!: correct_tcp_edits [of _ d] correct_udp_edits [of _ d])
  then obtain m2 where m2: "rest = Some m2" "length m2 = length m" "take d m2 = take d m1"
    using m1(2) by (auto simp: edits_def)
  have c: "host16 le m (14 + 10) = Some (of_mem16 le (take 2 (drop 24 m)))" "mem8 m 14 = Some (m ! 14)"
    "mem_bytes m 14 (unat (m ! 14 AND 0x0f) * 4) = Some (take (unat (m ! 14 AND 0x0f) * 4) (drop 14 m))"
    "mem_bytes m1 (14 + 12) 4 = Some (take 4 (drop 26 m1))" "mem_bytes m1 (14 + 16) 4 = Some (take 4 (drop 30 m1))"
    "mem8 m1 (14 + 6) = Some (m1 ! 20)" "mem8 m1 (14 + 7) = Some (m1 ! 21)"
    using v4(2,3) m1(2) by (simp_all add: mem_simps d_def)
  have h: "(if of_mem16 le (take 2 (drop 24 m)) = 0
      then put16 le m (14 + 10) (IpChecksum le (take (unat (m ! 14 AND 0x0f) * 4) (drop 14 m))) else Some m) = Some m1"
    using m1(1) unfolding header_fixed_def by (simp cong: if_cong)
  have "CorrectChecksum le p = do { m \<leftarrow> rest; Some (p\<lparr>PacketData := m\<rparr>) }"
    unfolding CorrectChecksum_def Let_def m_def [symmetric] v4(1) option.case c Option.bind_lunit h
      f_def [symmetric] more_def [symmetric] calc_def [symmetric] rest_def
    using assms(2) by simp
  then show ?thesis using m1 m2 by (auto simp: m_def [symmetric] d_def)
qed

lemma CorrectChecksum_v6:
  assumes "parsed (PacketData p) (length (PacketData p)) p" and "TypeL3 p = L3_IPV6"
  shows "\<exists>m2. CorrectChecksum le p = Some (p\<lparr>PacketData := m2\<rparr>) \<and> length m2 = length (PacketData p)"
proof -
  define m where "m = PacketData p"
  define info where "info = IPv6HeaderPacketInfo p"
  have v6: "L3_at p = Some 14" "54 \<le> length m" "v6_ok (length m) info"
    "case V6Payload_at info of None \<Rightarrow> fresh_l4 p | Some d \<Rightarrow> l4_ok d (length m) p"
    using assms by (simp_all add: parsed_def v6_parsed_def m_def info_def cong: option.case_cong)
  show ?thesis
  proof (cases "IsFragment info")
    case True
    then have "CorrectChecksum le p = Some (p\<lparr>PacketData := m\<rparr>)"
      using v6(1) assms(2) by (simp add: CorrectChecksum_def info_def m_def)
    then show ?thesis by (intro exI [of _ m]) (simp add: m_def)
  next
    case False
    obtain more where more: "(case FragmentHeader_at info of None \<Rightarrow> Some False
        | Some fh \<Rightarrow> map_option (\<lambda>c. (c AND 0x0f) AND 0x01 \<noteq> 0) (mem8 m (fh + 3))) = Some more"
      using v6(3) by (cases "FragmentHeader_at info") (auto simp: v6_ok_def mem_simps)
    define calc where "calc = (\<lambda>proto d n. CalcChecksumForIPv6 le (take 16 (drop 22 m)) (take 16 (drop 38 m)) proto d n)"
    define rest where "rest = do {
            m \<leftarrow> (if TypeL4 p = L4_TCP \<and> \<not> more
              then correct_tcp le (calc IP_PROTO_TCP) m (L4_at p) (V6PayloadSize info) else Some m);
            if TypeL4 p = L4_UDP
              then correct_udp le (calc IP_PROTO_UDP) m (L4_at p) (V6PayloadSize info) (\<not> more) else Some m
          }"
    have l4: "\<exists>d. L4_at p = Some d \<and> d + l4_header (TypeL4 p) \<le> length m \<and> d + unat (V6PayloadSize info) \<le> length m"
      if "TypeL4 p \<in> {L4_TCP, L4_UDP}"
      using that v6(3,4) by (cases "V6Payload_at info") (auto simp: l4_ok_def v6_ok_def fresh_l4_def)
    have "edits 0 m rest"
      unfolding rest_def using l4
      by (intro edits_bind) (auto simp: l4_header_def intro!: correct_tcp_edits [OF refl] correct_udp_edits [OF refl])
    then obtain m2 where m2: "rest = Some m2" "length m2 = length m" by (auto simp: edits_def)
    have c: "mem_bytes m (14 + 8) 16 = Some (take 16 (drop 22 m))" "mem_bytes m (14 + 24) 16 = Some (take 16 (drop 38 m))"
      using v6(2) by (simp_all add: mem_simps)
    have "CorrectChecksum le p = do { m \<leftarrow> rest; Some (p\<lparr>PacketData := m\<rparr>) }"
      unfolding CorrectChecksum_def Let_def m_def [symmetric] info_def [symmetric] v6(1) option.case c Option.bind_lunit
        more calc_def [symmetric] rest_def
      using assms(2) False by simp
    then show ?thesis using m2 by (auto simp: m_def)
  qed
qed

lemma parsed_data:
  assumes "parsed m n p" and "length m2 = length m" and "TypeL3 p = L3_IPV4 \<Longrightarrow> m2 ! 14 = m ! 14"
  shows "parsed m2 n (p\<lparr>PacketData := m2\<rparr>)"
  using assms by (auto simp: parsed_def v4_parsed_def v6_parsed_def Let_def l4_ok_def fresh_l4_def split: option.splits)

lemma header_fixed_length:
  assumes "header_fixed le m = Some m1"
  shows "length m1 = length m" and "take 24 m1 = take 24 m"
  using assms by (auto simp: header_fixed_def put16_def split: if_splits)

lemma CorrectChecksum_spec:
  assumes "parsed (PacketData p) (length (PacketData p)) p"
  shows "\<exists>m2. CorrectChecksum le p = Some (p\<lparr>PacketData := m2\<rparr>) \<and> length m2 = length (PacketData p) \<and>
    parsed m2 (length m2) (p\<lparr>PacketData := m2\<rparr>)"
proof -
  let ?m = "PacketData p"
  consider "TypeL3 p = L3_IPV4" | "TypeL3 p = L3_IPV6" | "TypeL3 p \<noteq> L3_IPV4" "TypeL3 p \<noteq> L3_IPV6" by blast
  then show ?thesis
  proof cases
    case 1
    let ?d = "14 + unat (?m ! 14 AND 0x0f) * 4"
    obtain m1 m2 where m: "header_fixed le ?m = Some m1" "CorrectChecksum le p = Some (p\<lparr>PacketData := m2\<rparr>)"
      "length m2 = length ?m" "take ?d m2 = take ?d m1"
      using CorrectChecksum_v4 [OF assms 1] by blast
    have d: "34 \<le> ?d" using assms 1 by (auto simp: parsed_def v4_parsed_def)
    then have "take ?d m2 ! 14 = m2 ! 14" "take ?d m1 ! 14 = m1 ! 14" "take 24 m1 ! 14 = m1 ! 14" "take 24 ?m ! 14 = ?m ! 14"
      by simp_all
    then have "m2 ! 14 = ?m ! 14" using m(4) header_fixed_length [OF m(1)] by simp
    then show ?thesis using m parsed_data [OF assms, of m2] by auto
  next
    case 2
    then obtain m2 where "CorrectChecksum le p = Some (p\<lparr>PacketData := m2\<rparr>)" "length m2 = length ?m"
      using CorrectChecksum_v6 [OF assms] by blast
    then show ?thesis using 2 parsed_data [OF assms, of m2] by auto
  next
    case 3
    then have "CorrectChecksum le p = Some (p\<lparr>PacketData := ?m\<rparr>)"
      by (cases "L3_at p") (simp_all add: CorrectChecksum_def Let_def)
    then show ?thesis using parsed_data [OF assms, of ?m] by (intro exI [of _ ?m]) simp
  qed
qed

text \<open>The header of an IPv4 packet whose checksum field was zero passes the receiver's test afterwards.\<close>

lemma CorrectChecksum_header:
  assumes "parsed (PacketData p) (length (PacketData p)) p" and "TypeL3 p = L3_IPV4"
    and "of_mem16 le (take 2 (drop 24 (PacketData p))) = 0"
  shows "\<exists>m2. CorrectChecksum le p = Some (p\<lparr>PacketData := m2\<rparr>) \<and> IpCheckChecksum le (drop 14 m2)"
proof -
  define m where "m = PacketData p"
  define h where "h = unat (m ! 14 AND 0x0f) * 4"
  define c where "c = IpChecksum le (take h (drop 14 m))"
  have h: "20 \<le> h" "14 + h \<le> length m"
    using assms(1,2) by (auto simp: parsed_def v4_parsed_def m_def h_def Let_def)
  obtain m1 m2 where s: "header_fixed le m = Some m1" "CorrectChecksum le p = Some (p\<lparr>PacketData := m2\<rparr>)"
      "length m2 = length m" "take (14 + h) m2 = take (14 + h) m1"
    using CorrectChecksum_v4 [OF assms(1,2), of le] unfolding m_def h_def by blast
  have m1: "m1 = take 24 m @ mem16 le c @ drop 26 m"
    using s(1) assms(3) h unfolding header_fixed_def m_def [symmetric] h_def [symmetric] c_def [symmetric]
    by (simp add: put16_def)
  have z: "take 2 (drop 24 m) = [0, 0]"
  proof -
    have "length (take 2 (drop 24 m)) = 2" using h by simp
    then have "mem16 le (of_mem16 le (take 2 (drop 24 m))) = take 2 (drop 24 m)" by (rule mem_of_mem(1))
    moreover have "mem16 le 0 = [0, 0]" by (cases le) (simp_all add: mem16_def be16_def)
    ultimately show ?thesis using assms(3) by (simp add: m_def)
  qed
  have head: "hd (drop 14 m2) = m ! 14"
  proof -
    have "hd (drop 14 m2) = take (14 + h) m2 ! 14" using h s(3) by (simp add: hd_drop_conv_nth)
    also have "\<dots> = m ! 14" using h unfolding s(4) m1 by (simp add: nth_append)
    finally show ?thesis .
  qed
  have low: "take h (drop 14 m2) = take 10 (drop 14 m) @ mem16 le c @ take (h - 12) (drop 26 m)"
  proof -
    have "take h (drop 14 m2) = drop 14 (take (14 + h) m2)" by (simp add: drop_take)
    then show ?thesis using h by (simp add: s(4) m1 drop_take min_def)
  qed
  have field: "take 2 (drop 10 (drop 14 m2)) = mem16 le c"
  proof -
    have "take 2 (drop 10 (drop 14 m2)) = take 2 (drop 10 (take h (drop 14 m2)))" using h by (simp add: drop_take min_def)
    then show ?thesis using h by (simp add: low)
  qed
  have zeroed: "take h (take 10 (drop 14 m2) @ [0, 0] @ drop 12 (drop 14 m2)) = take h (drop 14 m)"
  proof -
    have "take 10 (drop 14 m2) = take 10 (take h (drop 14 m2))" using h by (simp add: min_def)
    also have "\<dots> = take 10 (drop 14 m)" using h by (simp add: low)
    finally have a: "take 10 (drop 14 m2) = take 10 (drop 14 m)" .
    have "take (h - 12) (drop 12 (drop 14 m2)) = drop 12 (take h (drop 14 m2))" by (simp add: drop_take)
    also have "\<dots> = take (h - 12) (drop 26 m)" using h by (simp add: low)
    finally have b: "take (h - 12) (drop 12 (drop 14 m2)) = take (h - 12) (drop 26 m)" .
    have "drop 14 m = take 10 (drop 14 m) @ take 2 (drop 24 m) @ drop 26 m"
      using append_take_drop_id [of 10 "drop 14 m"] append_take_drop_id [of 2 "drop 24 m"] by simp
    then have "take h (drop 14 m) = take h (take 10 (drop 14 m) @ [0, 0] @ drop 26 m)" unfolding z by simp
    also have "\<dots> = take 10 (drop 14 m) @ [0, 0] @ take (h - 12) (drop 26 m)"
    proof -
      have "h - 10 = Suc (Suc (h - 12))" using h by linarith
      then show ?thesis using h by simp
    qed
    also have "\<dots> = take h (take 10 (drop 14 m2) @ [0, 0] @ drop 12 (drop 14 m2))"
    proof -
      have "h - 10 = Suc (Suc (h - 12))" using h by linarith
      then show ?thesis using h s(3) a b by simp
    qed
    finally show ?thesis ..
  qed
  have "IpCheckChecksum le (drop 14 m2)"
    unfolding IpCheckChecksum_def head h_def [symmetric] Let_def field zeroed c_def by simp
  then show ?thesis using s(2) by blast
qed

section \<open>The whole parser\<close>

lemma find_cookie_length: "find_cookie d = Some opts \<Longrightarrow> length opts \<le> length d"
  by (induction d) (auto split: if_splits)

lemma ParseDHCPv4Data_total:
  assumes "parsed (PacketData p) (length (PacketData p)) p" and "length (PacketData p) + 255 \<le> BUF_MAX"
  shows "\<exists>r. ParseDHCPv4Data p = Some r"
proof (cases "TypeL3 p = L3_IPV4 \<and> TypeL4 p = L4_UDP \<and> TypeL7 p = L7_DHCPV4")
  case False
  then show ?thesis by (auto simp: ParseDHCPv4Data_def)
next
  case True
  define m where "m = PacketData p"
  obtain off where at: "L3_at p = Some 14" "L4_at p = Some off" "L7_at p = Some (off + 8)" "34 \<le> off" "off + 52 \<le> length m"
    using assms(1) True by (auto simp: parsed_def v4_parsed_def l4_ok_def m_def Let_def)
  define data where "data = drop (off + 8) m"
  show ?thesis
  proof (cases "find_cookie data")
    case None
    then show ?thesis
      unfolding ParseDHCPv4Data_def at Option.bind_lunit Let_def m_def [symmetric] data_def [symmetric] by simp
  next
    case (Some opts)
    have len: "length opts + 255 \<le> BUF_MAX" "length data \<ge> 44" "length opts \<le> BUF_MAX"
      using find_cookie_length [OF Some] assms(2) at by (simp_all add: data_def m_def)
    have n: "unat (of_nat (length opts) :: u32) = length opts" using len(3) by (simp add: nowrap)
    define os where "os = dhcp_decode opts []"
    have os: "ParseDhcpOptions opts (of_nat (length opts)) = Some os"
      using ParseDhcpOptions_eq [of "of_nat (length opts)" opts] len n by (simp add: os_def)
    have "list_all option_ok os"
      unfolding os_def using len by (intro dhcp_decode_ok) (auto simp: decode_room_def)
    then have one: "mem8 (Opt_Data a) 0 = Some (Opt_Data a ! 0)"
      if "GetDhcpOption os DHCP_ID_MESSAGE_TYPE = Some a" "Opt_Size a = 1" for a
      using GetDhcpOption_in [OF that(1)] that(2) by (auto simp: list_all_iff option_ok_def mem8_def)
    obtain l where l: "ParseDhcpOptionList opts (of_nat (length opts)) = Some l"
      using ParseDhcpOptionList_total [of "of_nat (length opts)" opts] len n by auto
    have c: "mem_bytes m (14 + 12) 4 = Some (take 4 (drop 26 m))" "mem_bytes m (14 + 16) 4 = Some (take 4 (drop 30 m))"
      "net16 m off = Some (of_be16 (take 2 (drop off m)))" "net16 m (off + 2) = Some (of_be16 (take 2 (drop (off + 2) m)))"
      "mem_bytes data 20 4 = Some (take 4 (drop 20 data))" "mem_bytes data 16 4 = Some (take 4 (drop 16 data))"
      using at len(2) by (simp_all add: mem_simps)
    show ?thesis
      unfolding ParseDHCPv4Data_def at Option.bind_lunit Let_def m_def [symmetric] data_def [symmetric] Some option.case
        os c l using True len(2) one by (auto split: option.splits)
  qed
qed

lemma frame_size_spec:
  assumes "n \<le> length m"
  shows "\<exists>k. frame_size m n v = Some k \<and> k \<le> n"
proof (cases "n < 24")
  case True
  then show ?thesis by (simp add: frame_size_def)
next
  case False
  have c: "net16 m i = Some (of_be16 (take 2 (drop i m)))" if "i \<le> 22" for i
    using that False assms by (intro net16_ok) linarith
  have cut: "\<exists>k. cut_at n (Some t) h = Some k \<and> k \<le> n" for t h
    by (simp add: cut_at_def)
  show ?thesis using False cut by (simp add: frame_size_def c)
qed

lemma parsed_take:
  assumes "parsed m n p" and "n \<le> length m"
  shows "parsed (take n m) n p"
proof -
  have "v4_parsed (take n m) n p" if "v4_parsed m n p"
  proof -
    have "14 < n" using that by (auto simp: v4_parsed_def Let_def)
    then have "take n m ! 14 = m ! 14" by simp
    then show ?thesis using that assms(2) by (simp add: v4_parsed_def)
  qed
  then show ?thesis using assms(1) by (simp add: parsed_def)
qed

lemma parsed_fields:
  "parsed m n (p\<lparr>PacketData := d, MacAddressSrc_at := a, MacAddressDest_at := b\<rparr>) = parsed m n p"
  "parsed m n (p\<lparr>DhcpOpCode := c\<rparr>) = parsed m n p"
proof -
  have l4: "l4_ok k n (p\<lparr>PacketData := d, MacAddressSrc_at := a, MacAddressDest_at := b\<rparr>) = l4_ok k n p"
    "l4_ok k n (p\<lparr>DhcpOpCode := c\<rparr>) = l4_ok k n p"
    "fresh_l4 (p\<lparr>PacketData := d, MacAddressSrc_at := a, MacAddressDest_at := b\<rparr>) = fresh_l4 p"
    "fresh_l4 (p\<lparr>DhcpOpCode := c\<rparr>) = fresh_l4 p" for k
    by (simp_all add: l4_ok_def fresh_l4_def)
  show "parsed m n (p\<lparr>PacketData := d, MacAddressSrc_at := a, MacAddressDest_at := b\<rparr>) = parsed m n p"
    "parsed m n (p\<lparr>DhcpOpCode := c\<rparr>) = parsed m n p"
    by (simp_all add: parsed_def v4_parsed_def v6_parsed_def l4 cong: option.case_cong)
qed

lemma ParsePacketL2Ex_short: "ParsePacketL2Ex m p n no_l3 = Some (True, q) \<Longrightarrow> 14 \<le> n"
  by (auto simp: ParsePacketL2Ex_def split: if_splits)

text \<open>
  Whatever the bytes are, the parser reads none outside of the frame, and the packet it gives is
  as \<open>parsed\<close> says.
\<close>

lemma ParsePacketEx4_spec:
  assumes "unat sz \<le> length m" and "unat sz + 255 \<le> BUF_MAX"
  shows "\<exists>r. ParsePacketEx4 le m sz no_l3 vlan bridge fix = Some r \<and>
    (\<forall>p. r = Some p \<longrightarrow> length (PacketData p) \<le> unat sz \<and> 14 \<le> length (PacketData p) \<and>
      parsed (PacketData p) (length (PacketData p)) p \<and>
      MacAddressDest_at p = 0 \<and> (TypeL3 p \<noteq> L3_BPDU \<longrightarrow> MacAddressSrc_at p = 6))"
proof (cases "sz = 0")
  case True
  then show ?thesis by (simp add: ParsePacketEx4_def)
next
  case False
  define v where "v = (if vlan = 0 then MAC_PROTO_TAGVLAN else vlan)"
  obtain n where n: "frame_size m (unat sz) v = Some n" "n \<le> unat sz" using frame_size_spec [OF assms(1)] by blast
  have "fresh (no_packet\<lparr>VlanTypeID := v\<rparr>)" by (simp add: fresh_def fresh_l4_def no_packet_def)
  then have "l3_result m n (ParsePacketL2Ex m (no_packet\<lparr>VlanTypeID := v\<rparr>) n no_l3)"
    using n assms by (intro ParsePacketL2Ex_spec) simp_all
  then obtain ok p where p: "ParsePacketL2Ex m (no_packet\<lparr>VlanTypeID := v\<rparr>) n no_l3 = Some (ok, p)"
    "ok \<Longrightarrow> parsed m n p" by (auto simp: l3_result_def)
  show ?thesis
  proof (cases ok)
    case False
    then show ?thesis using \<open>sz \<noteq> 0\<close> n p(1) by (simp add: ParsePacketEx4_def Let_def v_def)
  next
    case True
    define src where "src = (case L3_at p of
               Some l3 \<Rightarrow> if bridge \<and> TypeL3 p = L3_BPDU then l3 + 19 else 6
             | None \<Rightarrow> 6)"
    define p1 where "p1 = p\<lparr>PacketData := take n m, MacAddressSrc_at := src, MacAddressDest_at := 0\<rparr>"
    have len: "length (PacketData p1) = n" using n assms(1) by (simp add: p1_def)
    have p1: "parsed (PacketData p1) (length (PacketData p1)) p1"
      using parsed_take [OF p(2) [OF True]] n(2) assms(1) len by (simp add: p1_def parsed_fields)
    obtain d where d: "ParseDHCPv4Data p1 = Some d"
      using ParseDHCPv4Data_total [OF p1] len n(2) assms(2) by auto
    define p2 where "p2 = (case d of None \<Rightarrow> p1 | Some d \<Rightarrow> p1\<lparr>DhcpOpCode := Dhcp_OpCode d\<rparr>)"
    have p2: "parsed (PacketData p2) (length (PacketData p2)) p2" "PacketData p2 = PacketData p1"
      using p1 by (simp_all add: p2_def parsed_fields split: option.split)
    have mac: "MacAddressDest_at p2 = 0" "TypeL3 p2 \<noteq> L3_BPDU \<Longrightarrow> MacAddressSrc_at p2 = 6"
      by (auto simp: p2_def p1_def src_def split: option.splits)
    obtain p3 where p3: "(if fix then CorrectChecksum le p2 else Some p2) = Some p3"
      "parsed (PacketData p3) (length (PacketData p3)) p3" "length (PacketData p3) = n"
      "MacAddressDest_at p3 = 0" "TypeL3 p3 \<noteq> L3_BPDU \<Longrightarrow> MacAddressSrc_at p3 = 6"
      using CorrectChecksum_spec [OF p2(1), of le] p2 len mac by (cases "fix") auto
    have "ParsePacketEx4 le m sz no_l3 vlan bridge fix = Some (Some p3)"
      unfolding ParsePacketEx4_def Let_def v_def [symmetric] n(1) Option.bind_lunit p(1) prod.case
        src_def [symmetric] p1_def [symmetric] d p2_def [symmetric] p3(1)
      using \<open>sz \<noteq> 0\<close> True by simp
    then show ?thesis using p3 n(2) ParsePacketL2Ex_short [of m _ n no_l3 p] p(1) True by auto
  qed
qed

section \<open>Frames of a known kind\<close>

text \<open>An Ethernet frame that carries an IPv4 packet as long as its header says.\<close>

definition v4_frame :: "u8 list \<Rightarrow> bool" where
  "v4_frame m \<longleftrightarrow>
     34 \<le> length m \<and> take 2 (drop 12 m) = [8, 0] \<and> 5 \<le> unat (m ! 14 AND 0x0f) \<and>
     14 + unat (m ! 14 AND 0x0f) * 4 \<le> length m \<and> unat (of_be16 (take 2 (drop 16 m))) + 14 = length m"

lemma ParsePacket_v4:
  assumes "v4_frame m" and "length m + 255 \<le> BUF_MAX"
  shows "\<exists>r. ParsePacket le m (of_nat (length m)) = Some r \<and>
    (\<forall>p. r = Some p \<longrightarrow> PacketData p = m \<and> TypeL3 p = L3_IPV4 \<and> parsed m (length m) p \<and>
      MacAddressSrc_at p = 6 \<and> MacAddressDest_at p = 0 \<and>
      BroadcastPacket p = (list_all (\<lambda>c. c = 0xff) (take 6 m) \<or> hd m AND 0x01 \<noteq> 0)) \<and>
    (m ! 23 = IP_PROTO_ICMPV4 \<and> 18 + unat (m ! 14 AND 0x0f) * 4 \<le> length m \<longrightarrow> r \<noteq> None)"
proof -
  note v4 = assms(1) [unfolded v4_frame_def]
  define sz :: u32 where "sz = of_nat (length m)"
  have len: "length m \<le> BUF_MAX" using assms(2) by simp
  have n: "unat sz = length m" unfolding sz_def using len by (simp add: nowrap)
  have "sz \<noteq> 0" using n v4 by auto
  have ty: "net16 m 12 = Some MAC_PROTO_IPV4" "net16 m 16 = Some (of_be16 (take 2 (drop 16 m)))"
    using v4 by (simp_all add: mem_simps)
  have size: "frame_size m (length m) MAC_PROTO_TAGVLAN = Some (length m)"
    using v4 by (simp add: frame_size_def ty cut_at_def)
  define p0 where "p0 = no_packet\<lparr>VlanTypeID := MAC_PROTO_TAGVLAN\<rparr>"
  define p1 where "p1 = p0\<lparr>BroadcastPacket := (list_all (\<lambda>c. c = 0xff) (take 6 m) \<or> hd (take 6 m) AND 0x01 \<noteq> 0),
          InvalidSourcePacket := (list_all (\<lambda>c. c = 0xff) (take 6 (drop 6 m)) \<or>
            list_all (\<lambda>c. c = 0x00) (take 6 (drop 6 m)) \<or> take 6 (drop 6 m) = take 6 m)\<rparr>"
  have hd: "hd (take 6 m) = hd m" using v4 by (cases m) simp_all
  have "fresh p1" by (simp add: fresh_def fresh_l4_def p1_def p0_def no_packet_def)
  then have "v4_result m (length m) p1 (ParsePacketIPv4 m p1 14 (length m - 14))"
    using v4 len by (intro ParsePacketIPv4_good) simp_all
  moreover have "ParsePacketL2Ex m p0 (length m) False = ParsePacketIPv4 m p1 14 (length m - 14)"
    using v4 ty(1) unfolding ParsePacketL2Ex_def by (simp add: mem_simps p1_def Let_def)
  ultimately obtain ok p where p: "ParsePacketL2Ex m p0 (length m) False = Some (ok, p)"
    "ok \<Longrightarrow> v4_good m (length m) p1 p"
    "m ! 23 = IP_PROTO_ICMPV4 \<and> 18 + unat (m ! 14 AND 0x0f) * 4 \<le> length m \<longrightarrow> ok" by (auto simp: v4_result_def)
  show ?thesis
  proof (cases ok)
    case False
    then have "ParsePacket le m sz = Some None"
      using \<open>sz \<noteq> 0\<close> p(1) size n
      by (simp add: ParsePacket_def ParsePacketEx_def ParsePacketEx2_def ParsePacketEx3_def ParsePacketEx4_def Let_def p0_def)
    then show ?thesis using False p(3) by (simp add: sz_def)
  next
    case True
    have l3: "L3_at p = Some 14" "TypeL3 p = L3_IPV4" "parsed m (length m) p" "BroadcastPacket p = BroadcastPacket p1"
      using p(2) [OF True] by (auto simp: v4_good_def parsed_def v4_parsed_def)
    define p2 where "p2 = p\<lparr>PacketData := m, MacAddressSrc_at := 6, MacAddressDest_at := 0\<rparr>"
    have p2: "parsed (PacketData p2) (length (PacketData p2)) p2"
      using l3 by (simp add: p2_def parsed_fields)
    obtain d where d: "ParseDHCPv4Data p2 = Some d"
      using ParseDHCPv4Data_total [OF p2] assms(2) by (auto simp: p2_def)
    have "ParsePacket le m sz = Some (Some (case d of None \<Rightarrow> p2 | Some d \<Rightarrow> p2\<lparr>DhcpOpCode := Dhcp_OpCode d\<rparr>))"
      using \<open>sz \<noteq> 0\<close> True p(1) size n d l3
      by (simp add: ParsePacket_def ParsePacketEx_def ParsePacketEx2_def ParsePacketEx3_def ParsePacketEx4_def Let_def
        p0_def p2_def cong: option.case_cong)
    then show ?thesis using l3 hd by (auto simp: sz_def p2_def p1_def parsed_fields split: option.splits)
  qed
qed

text \<open>An Ethernet frame that carries an ARP packet.\<close>

definition arp_frame :: "u8 list \<Rightarrow> bool" where
  "arp_frame m \<longleftrightarrow> 42 \<le> length m \<and> take 2 (drop 12 m) = [8, 6]"

lemma ParsePacket_arp:
  assumes "arp_frame m" and "length m + 255 \<le> BUF_MAX"
  shows "\<exists>p. ParsePacket le m (of_nat (length m)) = Some (Some p) \<and> PacketData p = m \<and> TypeL3 p = L3_ARPV4 \<and>
    L3_at p = Some 14 \<and> MacAddressSrc_at p = 6 \<and> MacAddressDest_at p = 0 \<and>
    BroadcastPacket p = (list_all (\<lambda>c. c = 0xff) (take 6 m) \<or> hd m AND 0x01 \<noteq> 0)"
proof -
  note arp = assms(1) [unfolded arp_frame_def]
  define sz :: u32 where "sz = of_nat (length m)"
  have len: "length m \<le> BUF_MAX" using assms(2) by simp
  have n: "unat sz = length m" unfolding sz_def using len by (simp add: nowrap)
  have "sz \<noteq> 0" using n arp by auto
  have ty: "net16 m 12 = Some MAC_PROTO_ARPV4"
    using arp by (simp add: mem_simps)
  have size: "frame_size m (length m) MAC_PROTO_TAGVLAN = Some (length m)"
    using arp by (simp add: frame_size_def ty)
  have hd: "hd (take 6 m) = hd m" using arp by (cases m) simp_all
  have body: "\<not> length m - 14 < 28" using arp by linarith
  show ?thesis
    using \<open>sz \<noteq> 0\<close> size n arp ty hd body unfolding sz_def [symmetric]
    by (simp add: ParsePacket_def ParsePacketEx_def ParsePacketEx2_def ParsePacketEx3_def ParsePacketEx4_def Let_def
        ParsePacketL2Ex_def mem_simps ParsePacketARPv4_def ParseDHCPv4Data_def)
qed

end
