(* ===== verification/Fifo.thy ===== *)
theory Fifo
  imports Buf
begin

text \<open>
  The byte queue \<open>FIFO\<close> of src/src/Mayaqua/Memory.c and the pointer queue
  \<open>QUEUE\<close> built on it. A FIFO is a block with a read position and a size; it is
  moved to the front of a fresh block by \<open>ShrinkFifoMemory\<close> when that pays off and
  grows by factors of three. The abstract view is the list of the cells that are still to
  be read; the invariant also bounds the read position by the size of the contents, which
  is what makes the space of a FIFO depend on what it holds and not on its history. The
  cells are of any type: bytes in the FIFOs of the sessions, fragments of pointers in a
  queue.
\<close>

section \<open>FIFO\<close>

abbreviation FIFO_INIT_MEM_SIZE :: u32 where
  "FIFO_INIT_MEM_SIZE \<equiv> 4096"

abbreviation FIFO_REALLOC_MEM_SIZE :: u32 where
  "FIFO_REALLOC_MEM_SIZE \<equiv> 655360"

record 'b FIFO =
  FIFO_p :: "'b block"
  FIFO_pos :: u32
  FIFO_size :: u32
  FIFO_memsize :: u32
  FIFO_fixed :: bool
  total_read_size :: u64
  total_write_size :: u64

text \<open>\<open>NewFifoEx2\<close> ignores its argument \<open>fixed\<close>, as the code does.\<close>

definition NewFifoEx2 :: "bool \<Rightarrow> bool \<Rightarrow> 'b FIFO option" where
  "NewFifoEx2 fast fixd =
     do {
       m \<leftarrow> MallocEx FIFO_INIT_MEM_SIZE;
       Some \<lparr>FIFO_p = m, FIFO_pos = 0, FIFO_size = 0, FIFO_memsize = FIFO_INIT_MEM_SIZE,
             FIFO_fixed = False, total_read_size = 0, total_write_size = 0\<rparr>
     }"

definition NewFifoEx :: "bool \<Rightarrow> 'b FIFO option" where
  "NewFifoEx fast = NewFifoEx2 fast False"

definition NewFifo :: "'b FIFO option" where
  "NewFifo = NewFifoEx False"

definition NewFifoFast :: "'b FIFO option" where
  "NewFifoFast = NewFifoEx True"

text \<open>The global \<open>fifo_current_realloc_mem_size\<close> is an argument of the operations.\<close>

definition InitFifo :: u32 where
  "InitFifo = FIFO_REALLOC_MEM_SIZE"

definition SetFifoCurrentReallocMemSize :: "u32 \<Rightarrow> u32" where
  "SetFifoCurrentReallocMemSize sz = (if sz = 0 then FIFO_REALLOC_MEM_SIZE else sz)"

definition PeekFifo :: "'b FIFO \<Rightarrow> bool \<Rightarrow> u32 \<Rightarrow> (u32 \<times> 'b block) option" where
  "PeekFifo f want sz =
     (if sz = 0 then Some (0, [])
      else let read_size = min sz (FIFO_size f)
      in if read_size = 0 then Some (0, [])
         else do {
           d \<leftarrow> (if want then mem_read (FIFO_p f) (unat (FIFO_pos f)) (unat read_size) else Some []);
           Some (read_size, d)
         })"

definition ShrinkFifoMemory :: "u32 \<Rightarrow> 'b FIFO \<Rightarrow> 'b FIFO option" where
  "ShrinkFifoMemory realloc_size f =
     (if FIFO_fixed f then Some f
      else if FIFO_pos f \<ge> FIFO_INIT_MEM_SIZE \<and> FIFO_memsize f \<ge> realloc_size
        \<and> FIFO_memsize f div 2 > FIFO_size f
      then let new_size = max (FIFO_memsize f div 2) FIFO_INIT_MEM_SIZE
        in do {
          new_p \<leftarrow> MallocEx new_size;
          d \<leftarrow> mem_read (FIFO_p f) (unat (FIFO_pos f)) (unat (FIFO_size f));
          new_p \<leftarrow> mem_write new_p 0 d;
          Some (f\<lparr>FIFO_memsize := new_size, FIFO_p := new_p, FIFO_pos := 0\<rparr>)
        }
      else Some f)"

definition ReadFifo :: "u32 \<Rightarrow> 'b FIFO \<Rightarrow> bool \<Rightarrow> u32 \<Rightarrow> (u32 \<times> 'b block \<times> 'b FIFO) option" where
  "ReadFifo realloc_size f want sz =
     (if sz = 0 then Some (0, [], f)
      else let read_size = min sz (FIFO_size f)
      in if read_size = 0 then Some (0, [], f)
         else do {
           d \<leftarrow> (if want then mem_read (FIFO_p f) (unat (FIFO_pos f)) (unat read_size) else Some []);
           let f = f\<lparr>FIFO_pos := FIFO_pos f + read_size, FIFO_size := FIFO_size f - read_size\<rparr>;
           let f = f\<lparr>total_read_size := total_read_size f + ucast read_size\<rparr>;
           let f = (if \<not> FIFO_fixed f \<and> FIFO_size f = 0 then f\<lparr>FIFO_pos := 0\<rparr> else f);
           f \<leftarrow> ShrinkFifoMemory realloc_size f;
           Some (read_size, d, f)
         })"

text \<open>The growing loop of \<open>WriteFifo\<close>; it gives the new size and whether it ran.\<close>

partial_function (option) fifo_grow :: "u32 \<Rightarrow> u32 \<Rightarrow> bool \<Rightarrow> (u32 \<times> bool) option" where
  "fifo_grow need_size memsize realloc_flag =
     (if need_size > memsize
      then fifo_grow need_size (max memsize FIFO_INIT_MEM_SIZE * 3) True
      else Some (memsize, realloc_flag))"

text \<open>
  The data is a block to copy \<open>sz\<close> cells from, or no block at all: then the room is
  reserved and its cells keep whatever they held.
\<close>

definition WriteFifo :: "'b FIFO \<Rightarrow> 'b block option \<Rightarrow> u32 \<Rightarrow> 'b FIFO option" where
  "WriteFifo f p sz =
     (if sz = 0 then Some f
      else let i = FIFO_size f;
               f = f\<lparr>FIFO_size := FIFO_size f + sz\<rparr>;
               need_size = FIFO_pos f + FIFO_size f
      in do {
        (memsize, realloc_flag) \<leftarrow> fifo_grow need_size (FIFO_memsize f) False;
        m \<leftarrow> (if realloc_flag then ReAlloc (FIFO_p f) memsize else Some (FIFO_p f));
        m \<leftarrow> (case p of None \<Rightarrow> Some m
              | Some src \<Rightarrow> do {
                  d \<leftarrow> mem_read src 0 (unat sz);
                  mem_write m (unat (FIFO_pos f + i)) d
                });
        Some (f\<lparr>FIFO_memsize := memsize, FIFO_p := m,
                total_write_size := total_write_size f + ucast sz\<rparr>)
      })"

definition PadFifoFront :: "'b FIFO \<Rightarrow> u32 \<Rightarrow> 'b FIFO option" where
  "PadFifoFront f sz =
     (if sz = 0 then Some f
      else let memsize = FIFO_memsize f + sz
      in do {
        m \<leftarrow> ReAlloc (FIFO_p f) memsize;
        Some (f\<lparr>FIFO_memsize := memsize, FIFO_p := m\<rparr>)
      })"

text \<open>The offset the data is copied to may be negative here: the code does not move \<open>pos\<close>.\<close>

definition WriteFifoFront :: "'b FIFO \<Rightarrow> 'b block \<Rightarrow> u32 \<Rightarrow> 'b FIFO option" where
  "WriteFifoFront f p sz =
     (if sz = 0 then Some f
      else do {
        f \<leftarrow> (if FIFO_pos f < sz then PadFifoFront f (sz - FIFO_pos f) else Some f);
        d \<leftarrow> mem_read p 0 (unat sz);
        m \<leftarrow> mem_write (FIFO_p f) (unat (FIFO_pos f - sz)) d;
        Some (f\<lparr>FIFO_p := m, FIFO_pos := FIFO_pos f - sz, FIFO_size := FIFO_size f + sz\<rparr>)
      })"

definition ClearFifo :: "'b FIFO \<Rightarrow> 'b FIFO option" where
  "ClearFifo f =
     do {
       m \<leftarrow> ReAlloc (FIFO_p f) FIFO_INIT_MEM_SIZE;
       Some (f\<lparr>FIFO_size := 0, FIFO_pos := 0, FIFO_memsize := FIFO_INIT_MEM_SIZE, FIFO_p := m\<rparr>)
     }"

definition FifoPtr :: "'b FIFO \<Rightarrow> 'b block" where
  "FifoPtr f = drop (unat (FIFO_pos f)) (FIFO_p f)"

definition FifoSize :: "'b FIFO \<Rightarrow> u32" where
  "FifoSize f = FIFO_size f"

definition ReadFifoAll :: "u32 \<Rightarrow> u8 FIFO \<Rightarrow> (BUF \<times> u8 FIFO) option" where
  "ReadFifoAll realloc_size f =
     (let sz = FifoSize f
      in do {
        tmp \<leftarrow> MallocEx sz;
        (n, d, f) \<leftarrow> ReadFifo realloc_size f True sz;
        tmp \<leftarrow> mem_write tmp 0 d;
        buf \<leftarrow> MemToBuf tmp sz;
        Some (buf, f)
      })"

section \<open>The invariant of a FIFO\<close>

text \<open>
  \<open>FIFO_MAX\<close> is the largest demand the growing loop serves without its multiplication
  wrapping around or the allocation being refused.
\<close>

abbreviation FIFO_MAX :: nat where
  "FIFO_MAX \<equiv> 1431655744"

definition fifo_wf :: "u32 \<Rightarrow> 'b FIFO \<Rightarrow> bool" where
  "fifo_wf r f \<longleftrightarrow>
     \<not> FIFO_fixed f \<and> length (FIFO_p f) = unat (FIFO_memsize f) \<and>
     4096 \<le> unat (FIFO_memsize f) \<and> FIFO_memsize f \<le> MAX_MALLOC_MEM_SIZE \<and>
     unat (FIFO_pos f) + unat (FIFO_size f) \<le> unat (FIFO_memsize f) \<and>
     unat (FIFO_pos f) \<le> Max {4096, unat r, unat (FIFO_size f) + 1}"

definition fifo_cells :: "'b FIFO \<Rightarrow> 'b block" where
  "fifo_cells f = take (unat (FIFO_size f)) (drop (unat (FIFO_pos f)) (FIFO_p f))"

text \<open>The room a FIFO needs for a write, in terms of its contents only.\<close>

definition fifo_room :: "u32 \<Rightarrow> nat \<Rightarrow> nat \<Rightarrow> bool" where
  "fifo_room r held n \<longleftrightarrow> Max {4096, unat r, held + 1} + held + n \<le> FIFO_MAX"

lemma fifo_cells_length [fifo_simps]: "fifo_wf r f \<Longrightarrow> length (fifo_cells f) = unat (FIFO_size f)"
  by (auto simp: fifo_cells_def fifo_wf_def)

lemma NewFifo_ok: "\<exists>f. NewFifoEx2 fast fixd = Some f \<and> fifo_wf r f \<and> fifo_cells f = []"
  by (simp add: NewFifoEx2_def MallocEx_ok fifo_wf_def fifo_cells_def)

lemma ClearFifo_ok:
  assumes "fifo_wf r f"
  shows "\<exists>f'. ClearFifo f = Some f' \<and> fifo_wf r f' \<and> fifo_cells f' = []"
  using assms by (auto simp: ClearFifo_def ReAlloc_def fifo_wf_def fifo_cells_def)

lemma PeekFifo_spec:
  assumes "fifo_wf r f"
  shows "PeekFifo f True sz =
      Some (min sz (FIFO_size f), take (unat sz) (fifo_cells f))"
proof -
  let ?n = "min sz (FIFO_size f)"
  have n: "unat ?n = min (unat sz) (unat (FIFO_size f))"
    by (simp add: min_def unat_order)
  have "unat (FIFO_pos f) + unat ?n \<le> length (FIFO_p f)"
    using assms n by (auto simp: fifo_wf_def)
  from mem_read_ok [OF this]
  have "mem_read (FIFO_p f) (unat (FIFO_pos f)) (unat ?n) = Some (take (unat sz) (fifo_cells f))"
    by (simp add: n fifo_cells_def)
  moreover have "?n = 0 \<Longrightarrow> take (unat sz) (fifo_cells f) = []"
    using n by (auto simp: fifo_cells_def min_def split: if_splits)
  ultimately show ?thesis
    by (auto simp: PeekFifo_def Let_def)
qed

section \<open>Reading\<close>

text \<open>Compaction keeps the contents; it moves them to the front of a block that still holds them.\<close>

lemma ShrinkFifoMemory_spec:
  assumes "\<not> FIFO_fixed f" and "length (FIFO_p f) = unat (FIFO_memsize f)"
    and "4096 \<le> unat (FIFO_memsize f)" and "FIFO_memsize f \<le> MAX_MALLOC_MEM_SIZE"
    and fits: "unat (FIFO_pos f) + unat (FIFO_size f) \<le> unat (FIFO_memsize f)"
  shows "\<exists>f'. ShrinkFifoMemory r f = Some f' \<and> fifo_wf r f' \<and> fifo_cells f' = fifo_cells f
      \<and> FIFO_size f' = FIFO_size f \<and> total_read_size f' = total_read_size f
      \<and> total_write_size f' = total_write_size f"
proof (cases "FIFO_pos f \<ge> FIFO_INIT_MEM_SIZE \<and> FIFO_memsize f \<ge> r
    \<and> FIFO_memsize f div 2 > FIFO_size f")
  case True
  let ?n = "max (FIFO_memsize f div 2) FIFO_INIT_MEM_SIZE"
  have n: "unat ?n = max (unat (FIFO_memsize f) div 2) 4096"
    by (simp add: max_def unat_order unat_div)
  have "unat ?n \<le> unat (FIFO_memsize f)" using n assms(3) by simp
  then have ok: "?n \<le> MAX_MALLOC_MEM_SIZE" using assms(4) by (simp add: unat_order)
  have sz: "unat (FIFO_size f) \<le> unat ?n"
    using True n by (simp add: unat_order unat_div le_max_iff_disj)
  have len: "length (fifo_cells f) = unat (FIFO_size f)"
    using assms by (simp add: fifo_cells_def)
  have r: "mem_read (FIFO_p f) (unat (FIFO_pos f)) (unat (FIFO_size f)) = Some (fifo_cells f)"
    using assms by (simp add: mem_read_ok fifo_cells_def)
  have w: "mem_write (replicate (unat ?n) None) 0 (fifo_cells f)
      = Some (fifo_cells f @ replicate (unat ?n - unat (FIFO_size f)) None)"
    using sz len by (simp add: mem_write_ok)
  define f' where "f' = f\<lparr>FIFO_memsize := ?n,
      FIFO_p := fifo_cells f @ replicate (unat ?n - unat (FIFO_size f)) None, FIFO_pos := 0\<rparr>"
  have "ShrinkFifoMemory r f = Some f'"
    using True assms(1) ok r w by (simp add: ShrinkFifoMemory_def Let_def MallocEx_ok f'_def)
  moreover have "fifo_cells f' = take (unat (FIFO_size f)) (fifo_cells f @
      replicate (unat ?n - unat (FIFO_size f)) None)"
    unfolding fifo_cells_def [of f'] by (simp add: f'_def)
  moreover have "fifo_wf r f'"
    using assms(1) ok sz len n by (simp add: fifo_wf_def f'_def)
  ultimately show ?thesis
    using len by (simp add: f'_def)
next
  case False
  have "unat (FIFO_pos f) \<le> Max {4096, unat r, unat (FIFO_size f) + 1}"
  proof (rule ccontr)
    assume "\<not> ?thesis"
    then have big: "4096 < unat (FIFO_pos f)" "unat r < unat (FIFO_pos f)"
      "unat (FIFO_size f) + 1 < unat (FIFO_pos f)" by auto
    then have "unat (FIFO_size f) < unat (FIFO_memsize f) div 2" using fits by linarith
    moreover have "r \<le> FIFO_memsize f" "4096 \<le> FIFO_pos f"
      using big fits by (simp_all add: unat_order)
    ultimately show False using False by (simp add: unat_order unat_div)
  qed
  with assms False show ?thesis
    by (auto simp: ShrinkFifoMemory_def fifo_wf_def)
qed

lemma ReadFifo_spec:
  assumes wf: "fifo_wf r f"
  shows "\<exists>f'. ReadFifo r f True sz = Some (min sz (FIFO_size f), take (unat sz) (fifo_cells f), f')
      \<and> fifo_wf r f' \<and> fifo_cells f' = drop (unat sz) (fifo_cells f)"
proof (cases "min sz (FIFO_size f) = 0")
  case True
  then have "unat sz = 0 \<or> fifo_cells f = []"
    by (auto simp: min_def fifo_cells_def split: if_splits)
  then show ?thesis
    using wf True by (auto simp: ReadFifo_def Let_def)
next
  case False
  then have nz: "sz \<noteq> 0" by (auto simp: min_def)
  let ?n = "min sz (FIFO_size f)"
  have n: "unat ?n = min (unat sz) (unat (FIFO_size f))"
    by (simp add: min_def unat_order)
  have rd: "mem_read (FIFO_p f) (unat (FIFO_pos f)) (unat ?n) = Some (take (unat sz) (fifo_cells f))"
    using PeekFifo_spec [OF wf, of sz] nz False
    by (auto simp: PeekFifo_def Let_def bind_Some_conv split: if_splits)
  define f1 where "f1 = f\<lparr>FIFO_pos := FIFO_pos f + ?n, FIFO_size := FIFO_size f - ?n,
      total_read_size := total_read_size f + ucast ?n\<rparr>"
  define f2 where "f2 = (if \<not> FIFO_fixed f1 \<and> FIFO_size f1 = 0 then f1\<lparr>FIFO_pos := 0\<rparr> else f1)"
  have le: "unat (FIFO_pos f) + unat (FIFO_size f) < two32"
    using wf by (simp add: fifo_wf_def unat_order)
  then have p1: "unat (FIFO_pos f1) = unat (FIFO_pos f) + unat ?n"
    "unat (FIFO_size f1) = unat (FIFO_size f) - unat ?n"
    using n by (simp_all add: f1_def nowrap)
  have "drop (unat sz) (fifo_cells f) = take (unat (FIFO_size f1)) (drop (unat (FIFO_pos f1)) (FIFO_p f))"
    using p1 n by (simp add: fifo_cells_def drop_take min_def add.commute)
  then have c1: "fifo_cells f1 = drop (unat sz) (fifo_cells f)"
    by (simp add: fifo_cells_def [of f1]) (simp add: f1_def)
  have c2: "fifo_cells f2 = fifo_cells f1"
    by (simp add: f2_def fifo_cells_def)
  have "unat (FIFO_pos f2) + unat (FIFO_size f2) \<le> unat (FIFO_memsize f2)"
    using p1 n wf by (auto simp: f2_def fifo_wf_def) (simp_all add: f1_def)
  then obtain f' where f': "ShrinkFifoMemory r f2 = Some f'" "fifo_wf r f'" "fifo_cells f' = fifo_cells f2"
    using ShrinkFifoMemory_spec [of f2 r] wf by (auto simp: f2_def f1_def fifo_wf_def split: if_splits)
  have "ReadFifo r f True sz = Some (?n, take (unat sz) (fifo_cells f), f')"
    using nz False rd f'(1) by (simp add: ReadFifo_def Let_def f2_def f1_def split del: if_split cong del: if_weak_cong)
  with f' c1 c2 show ?thesis by auto
qed

section \<open>Writing\<close>

lemma fifo_grow_ok:
  assumes "unat need \<le> FIFO_MAX" and "4096 \<le> unat m" and "m \<le> MAX_MALLOC_MEM_SIZE"
  shows "\<exists>m' fl. fifo_grow need m flag = Some (m', fl) \<and> unat need \<le> unat m' \<and> unat m \<le> unat m'
      \<and> m' \<le> MAX_MALLOC_MEM_SIZE \<and> (flag \<longrightarrow> fl) \<and> (\<not> fl \<longrightarrow> m' = m)"
  using assms
proof (induction "FIFO_MAX - unat m" arbitrary: m flag rule: less_induct)
  case less
  show ?case
  proof (cases "need > m")
    case False
    then show ?thesis
      using less.prems by (intro exI [of _ m] exI [of _ flag]) (auto simp: fifo_grow.simps unat_order)
  next
    case True
    then have m: "unat m < unat need" by (simp add: unat_order)
    define m3 where "m3 = max m FIFO_INIT_MEM_SIZE * 3"
    have u: "unat m3 = unat m * 3"
      using m less.prems by (simp add: m3_def max_def unat_order nowrap)
    have "m3 \<le> MAX_MALLOC_MEM_SIZE" "4096 \<le> unat m3"
      using m less.prems unfolding unat_order u by simp_all
    moreover have "FIFO_MAX - unat m3 < FIFO_MAX - unat m"
      unfolding u using m less.prems by linarith
    ultimately obtain m' fl where *: "fifo_grow need m3 True = Some (m', fl)"
      "unat need \<le> unat m'" "unat m3 \<le> unat m'" "m' \<le> MAX_MALLOC_MEM_SIZE" "fl"
      using less.hyps [of m3 True] less.prems(1) by blast
    then show ?thesis
      using True u by (intro exI [of _ m'] exI [of _ fl])
        (simp add: fifo_grow.simps [of need m] m3_def [symmetric])
  qed
qed

lemma WriteFifo_spec:
  assumes wf: "fifo_wf r f" and room: "fifo_room r (length (fifo_cells f)) (unat sz)"
    and src: "unat sz \<le> length src"
  shows "\<exists>f'. WriteFifo f (Some src) sz = Some f' \<and> fifo_wf r f'
      \<and> fifo_cells f' = fifo_cells f @ take (unat sz) src"
proof (cases "sz = 0")
  case True
  with wf show ?thesis by (simp add: WriteFifo_def)
next
  case False
  note len = fifo_cells_length [OF wf]
  have max: "unat (FIFO_pos f) + unat (FIFO_size f) + unat sz \<le> FIFO_MAX"
    using wf room unfolding fifo_wf_def fifo_room_def len by linarith
  let ?sz = "FIFO_size f + sz" let ?need = "FIFO_pos f + ?sz" let ?i = "FIFO_pos f + FIFO_size f"
  have u: "unat ?sz = unat (FIFO_size f) + unat sz"
    "unat ?need = unat (FIFO_pos f) + unat (FIFO_size f) + unat sz"
    "unat ?i = unat (FIFO_pos f) + unat (FIFO_size f)"
    using max by (simp_all add: nowrap)
  obtain m' fl where g: "fifo_grow ?need (FIFO_memsize f) False = Some (m', fl)"
    "unat ?need \<le> unat m'" "unat (FIFO_memsize f) \<le> unat m'" "m' \<le> MAX_MALLOC_MEM_SIZE"
    "\<not> fl \<longrightarrow> m' = FIFO_memsize f"
    using fifo_grow_ok [of ?need "FIFO_memsize f" False] wf u max by (auto simp: fifo_wf_def)
  obtain m where m: "(if fl then ReAlloc (FIFO_p f) m' else Some (FIFO_p f)) = Some m"
    "length m = unat m'" "take (unat ?i) m = take (unat ?i) (FIFO_p f)"
    using g wf u by (auto simp: ReAlloc_grow fifo_wf_def unat_order)
  define p where "p = take (unat ?i) m @ take (unat sz) src @ drop (unat ?i + unat sz) m"
  have w: "mem_write m (unat ?i) (take (unat sz) src) = Some p"
    using m(2) g(2) u src unfolding p_def by (subst mem_write_ok) auto
  let ?f = "f\<lparr>FIFO_size := ?sz, FIFO_memsize := m', FIFO_p := p,
      total_write_size := total_write_size f + ucast sz\<rparr>"
  have "WriteFifo f (Some src) sz = Some ?f"
    using False g(1) m(1) w src by (simp add: WriteFifo_def Let_def mem_read_ok split del: if_split cong del: if_weak_cong)
  moreover have "fifo_cells ?f = fifo_cells f @ take (unat sz) src"
  proof -
    have c: "drop (unat (FIFO_pos f)) (take (unat ?i) m) = fifo_cells f"
      by (simp only: m(3)) (simp add: u fifo_cells_def drop_take)
    have l: "length (take (unat ?i) m) = unat ?i"
      using m(2) g(2) u by simp
    have z: "unat (FIFO_pos f) - unat ?i = 0"
      using u(3) by simp
    have "drop (unat (FIFO_pos f)) p = fifo_cells f @ take (unat sz) src @ drop (unat ?i + unat sz) m"
      using z by (simp only: p_def drop_append l c z drop_0 diff_0_eq_0)
    moreover have "fifo_cells ?f = take (unat ?sz) (drop (unat (FIFO_pos f)) p)"
      unfolding fifo_cells_def by simp
    ultimately show ?thesis
      using u src len by simp
  qed
  moreover have "fifo_wf r ?f"
    using wf g u src m(2) unfolding fifo_wf_def p_def by auto
  ultimately show ?thesis by blast
qed

lemma ReadFifoAll_spec:
  assumes wf: "fifo_wf r f" and c: "fifo_cells f = map Some bs" and max: "length bs \<le> BUF_MAX"
  shows "\<exists>b f'. ReadFifoAll r f = Some (b, f') \<and> reading b bs \<and> fifo_wf r f' \<and> fifo_cells f' = []"
proof -
  have len: "unat (FIFO_size f) = length bs"
    using fifo_cells_length [OF wf] c by simp
  then have ok: "FIFO_size f \<le> MAX_MALLOC_MEM_SIZE"
    using max by (simp add: unat_order)
  obtain f' where f': "ReadFifo r f True (FIFO_size f) = Some (FIFO_size f, map Some bs, f')"
    "fifo_wf r f'" "fifo_cells f' = []"
    using ReadFifo_spec [OF wf, of "FIFO_size f"] c len by auto
  have "mem_write (replicate (unat (FIFO_size f)) None) 0 (map Some bs) = Some (map Some bs)"
    using len by (simp add: mem_write_ok)
  moreover obtain b where "MemToBuf (map Some bs) (FIFO_size f) = Some b" "reading b bs"
    using MemToBuf_reading [of bs "FIFO_size f"] len max by auto
  ultimately show ?thesis
    using f' ok by (simp add: ReadFifoAll_def Let_def FifoSize_def MallocEx_ok)
qed

text \<open>
  \<open>WriteFifoFront\<close> on a FIFO whose read position is too small pads the end of the block
  and then copies before its beginning.
\<close>

lemma WriteFifoFront_out_of_bounds:
  assumes "fifo_wf r f" and "FIFO_pos f < sz" and "unat sz \<le> length p"
    and "unat (FIFO_memsize f) + unat sz \<le> 0x7FFFFFFF"
  shows "WriteFifoFront f p sz = None"
proof -
  let ?pad = "sz - FIFO_pos f"
  have lt: "unat (FIFO_pos f) < unat sz" using assms(2) by (simp add: unat_order)
  then have pad: "unat ?pad = unat sz - unat (FIFO_pos f)" by (simp add: nowrap)
  have off: "unat (FIFO_pos f - sz) = two32 + unat (FIFO_pos f) - unat sz"
    using lt by (simp add: unat_sub_if')
  have mem: "unat (FIFO_memsize f + ?pad) = unat (FIFO_memsize f) + unat ?pad"
    using assms(4) pad by (simp add: nowrap)
  have nz: "sz \<noteq> 0" "?pad \<noteq> 0" using lt pad by auto
  have ok: "FIFO_memsize f + ?pad \<le> MAX_MALLOC_MEM_SIZE"
    unfolding unat_order mem using pad assms(4) by simp
  have "ReAlloc (FIFO_p f) (FIFO_memsize f + ?pad) = Some (FIFO_p f @ replicate (unat ?pad) None)"
    using ReAlloc_grow [OF ok, of "FIFO_p f"] mem assms(1) by (simp add: fifo_wf_def)
  then obtain f' where "PadFifoFront f ?pad = Some f'"
    "length (FIFO_p f') = unat (FIFO_memsize f) + unat ?pad" "FIFO_pos f' = FIFO_pos f"
    using nz assms(1) by (simp add: PadFifoFront_def Let_def fifo_wf_def)
  moreover have "mem_write m (unat (FIFO_pos f - sz)) (take (unat sz) p) = None"
    if "length m = unat (FIFO_memsize f) + unat ?pad" for m :: "'a block"
    unfolding mem_write_None_iff using that off pad lt assms(3,4) by auto
  ultimately show ?thesis
    using assms(2,3) nz by (auto simp: WriteFifoFront_def mem_read_ok)
qed

section \<open>The interface of a queue\<close>

text \<open>
  What the packet paths rely on when they pass blocks through a queue: the operations
  succeed while the queue holds fewer than \<open>cap\<close> items, and items come out in the order
  they went in. The clients' fact is about whole histories: whatever sequence of operations
  a program runs, the answers are those of a list.
\<close>

datatype 'x queue_op = Ins 'x | Next | Peek

fun list_ops :: "'x list \<Rightarrow> 'x queue_op list \<Rightarrow> 'x option list \<times> 'x list" where
  "list_ops xs [] = ([], xs)"
| "list_ops xs (Ins x # os) = list_ops (xs @ [x]) os"
| "list_ops xs (Next # os) =
     (let (r, ys) = list_ops (tl xs) os in ((if xs = [] then None else Some (hd xs)) # r, ys))"
| "list_ops xs (Peek # os) =
     (let (r, ys) = list_ops xs os in ((if xs = [] then None else Some (hd xs)) # r, ys))"

fun ops_fit :: "nat \<Rightarrow> nat \<Rightarrow> 'x queue_op list \<Rightarrow> bool" where
  "ops_fit cap n [] = True"
| "ops_fit cap n (Ins x # os) = (n < cap \<and> ops_fit cap (n + 1) os)"
| "ops_fit cap n (Next # os) = ops_fit cap (n - 1) os"
| "ops_fit cap n (Peek # os) = ops_fit cap n os"

fun run_ops :: "('q \<Rightarrow> 'x \<Rightarrow> 'q option) \<Rightarrow> ('q \<Rightarrow> ('x option \<times> 'q) option) \<Rightarrow> ('q \<Rightarrow> 'x option option)
    \<Rightarrow> 'q \<Rightarrow> 'x queue_op list \<Rightarrow> ('x option list \<times> 'q) option" where
  "run_ops ins nxt pk q [] = Some ([], q)"
| "run_ops ins nxt pk q (Ins x # os) = do { q \<leftarrow> ins q x; run_ops ins nxt pk q os }"
| "run_ops ins nxt pk q (Next # os) =
     do { (a, q) \<leftarrow> nxt q; (r, q) \<leftarrow> run_ops ins nxt pk q os; Some (a # r, q) }"
| "run_ops ins nxt pk q (Peek # os) =
     do { a \<leftarrow> pk q; (r, q) \<leftarrow> run_ops ins nxt pk q os; Some (a # r, q) }"

locale queue_adt =
  fixes ins :: "'q \<Rightarrow> 'x \<Rightarrow> 'q option"
    and nxt :: "'q \<Rightarrow> ('x option \<times> 'q) option"
    and pk :: "'q \<Rightarrow> 'x option option"
    and rel :: "'q \<Rightarrow> 'x list \<Rightarrow> bool"
    and cap :: nat
  assumes ins_rel: "rel q xs \<Longrightarrow> length xs < cap \<Longrightarrow> \<exists>q'. ins q x = Some q' \<and> rel q' (xs @ [x])"
    and nxt_empty: "rel q [] \<Longrightarrow> nxt q = Some (None, q)"
    and nxt_Cons: "rel q (x # xs) \<Longrightarrow> \<exists>q'. nxt q = Some (Some x, q') \<and> rel q' xs"
    and pk_empty: "rel q [] \<Longrightarrow> pk q = Some None"
    and pk_Cons: "rel q (x # xs) \<Longrightarrow> pk q = Some (Some x)"
begin

lemma run_list_ops:
  "rel q xs \<Longrightarrow> ops_fit cap (length xs) os \<Longrightarrow>
   \<exists>q'. run_ops ins nxt pk q os = Some (fst (list_ops xs os), q') \<and> rel q' (snd (list_ops xs os))"
proof (induction os arbitrary: q xs)
  case Nil
  then show ?case by simp
next
  case (Cons a os)
  show ?case
  proof (cases a)
    case (Ins x)
    with Cons.prems obtain q1 where "ins q x = Some q1" "rel q1 (xs @ [x])"
      using ins_rel by fastforce
    with Cons.IH [of q1 "xs @ [x]"] Cons.prems Ins show ?thesis by simp
  next
    case Next
    show ?thesis
    proof (cases xs)
      case Nil
      with Cons.IH [of q "[]"] Cons.prems Next show ?thesis
        by (auto simp: nxt_empty split: prod.splits)
    next
      case (Cons y ys)
      with Cons.prems obtain q1 where "nxt q = Some (Some y, q1)" "rel q1 ys"
        using nxt_Cons by blast
      with Cons.IH [of q1 ys] Cons.prems Next Cons show ?thesis
        by (auto split: prod.splits)
    qed
  next
    case Peek
    with Cons.IH [of q xs] Cons.prems show ?thesis
      by (cases xs) (auto simp: pk_empty pk_Cons split: prod.splits)
  qed
qed

end

section \<open>Pointer queues\<close>

text \<open>
  A queue stores pointers in a FIFO as the \<open>sizeof(void *)\<close> = 8 bytes they have in
  memory: the cells are fragments of pointers, and eight consecutive fragments of one pointer
  are that pointer again. \<^const>\<open>None\<close> is the null pointer.
\<close>

type_synonym 'x fragment = "'x option \<times> nat"

definition ptr_cells :: "'x option \<Rightarrow> 'x fragment block" where
  "ptr_cells p = map (\<lambda>i. Some (p, i)) [0..<8]"

definition of_ptr_cells :: "'x fragment block \<Rightarrow> 'x option option" where
  "of_ptr_cells cs =
     (case cells_value cs of
        Some ((p, i) # fs) \<Rightarrow>
          (if map snd ((p, i) # fs) = [0..<8] \<and> list_all (\<lambda>f. fst f = p) fs then Some p else None)
      | _ \<Rightarrow> None)"

record 'x QUEUE =
  QUEUE_num_item :: u32
  QUEUE_fifo :: "'x fragment FIFO"

definition NewQueue :: "'x QUEUE option" where
  "NewQueue = do { f \<leftarrow> NewFifo; Some \<lparr>QUEUE_num_item = 0, QUEUE_fifo = f\<rparr> }"

definition NewQueueFast :: "'x QUEUE option" where
  "NewQueueFast = do { f \<leftarrow> NewFifoFast; Some \<lparr>QUEUE_num_item = 0, QUEUE_fifo = f\<rparr> }"

definition InsertQueue :: "'x QUEUE \<Rightarrow> 'x option \<Rightarrow> 'x QUEUE option" where
  "InsertQueue q p =
     (if p = None then Some q
      else do {
        f \<leftarrow> WriteFifo (QUEUE_fifo q) (Some (ptr_cells p)) 8;
        Some (q\<lparr>QUEUE_fifo := f, QUEUE_num_item := QUEUE_num_item q + 1\<rparr>)
      })"

text \<open>The variable the bytes are copied over is null before; what was not read stays.\<close>

definition GetNext :: "u32 \<Rightarrow> 'x QUEUE \<Rightarrow> ('x option \<times> 'x QUEUE) option" where
  "GetNext realloc_size q =
     (if QUEUE_num_item q = 0 then Some (None, q)
      else do {
        (n, d, f) \<leftarrow> ReadFifo realloc_size (QUEUE_fifo q) True 8;
        p \<leftarrow> of_ptr_cells (d @ drop (length d) (ptr_cells None));
        Some (p, q\<lparr>QUEUE_fifo := f, QUEUE_num_item := QUEUE_num_item q - 1\<rparr>)
      })"

definition PeekQueue :: "'x QUEUE \<Rightarrow> 'x option option" where
  "PeekQueue q =
     (if QUEUE_num_item q = 0 then Some None
      else do {
        (n, d) \<leftarrow> PeekFifo (QUEUE_fifo q) True 8;
        of_ptr_cells (d @ drop (length d) (ptr_cells None))
      })"

definition GetQueueNum :: "'x QUEUE \<Rightarrow> u32" where
  "GetQueueNum q = QUEUE_num_item q"

text \<open>A queue represents a list of items; the number of items it can take by its FIFO's limits.\<close>

abbreviation QUEUE_MAX :: nat where
  "QUEUE_MAX \<equiv> 89478000"

definition queue_rel :: "u32 \<Rightarrow> 'x QUEUE \<Rightarrow> 'x list \<Rightarrow> bool" where
  "queue_rel r q xs \<longleftrightarrow>
     fifo_wf r (QUEUE_fifo q) \<and> fifo_cells (QUEUE_fifo q) = concat (map (\<lambda>x. ptr_cells (Some x)) xs) \<and>
     unat (QUEUE_num_item q) = length xs"

lemma ptr_cells_length [simp]: "length (ptr_cells p) = 8"
  by (simp add: ptr_cells_def)

lemma of_ptr_cells_ptr_cells [simp]: "of_ptr_cells (ptr_cells p) = Some p"
  by (simp add: of_ptr_cells_def ptr_cells_def upt_rec)

lemma concat_ptr_cells_length [simp]:
  "length (concat (map (\<lambda>x. ptr_cells (Some x)) xs)) = 8 * length xs"
  by (induction xs) auto

lemma NewQueue_rel: "\<exists>q :: 'x QUEUE. NewQueue = Some q \<and> queue_rel r q []"
  using NewFifo_ok [of False False r, where ?'a = "'x fragment"]
  by (auto simp: NewQueue_def NewFifo_def NewFifoEx_def queue_rel_def)

lemma InsertQueue_rel:
  assumes q: "queue_rel r q xs" and room: "length xs < QUEUE_MAX" and r: "r \<le> FIFO_REALLOC_MEM_SIZE"
  shows "\<exists>q'. InsertQueue q (Some x) = Some q' \<and> queue_rel r q' (xs @ [x])"
proof -
  have "fifo_room r (length (fifo_cells (QUEUE_fifo q))) (unat (8 :: u32))"
    using q room r by (simp add: queue_rel_def fifo_room_def unat_order)
  with q obtain f where "WriteFifo (QUEUE_fifo q) (Some (ptr_cells (Some x))) 8 = Some f"
    "fifo_wf r f" "fifo_cells f = fifo_cells (QUEUE_fifo q) @ ptr_cells (Some x)"
    using WriteFifo_spec [of r "QUEUE_fifo q" 8 "ptr_cells (Some x)"] by (auto simp: queue_rel_def)
  with q room show ?thesis
    by (simp add: InsertQueue_def queue_rel_def nowrap)
qed

lemma num_item_Nil: "queue_rel r q [] \<Longrightarrow> QUEUE_num_item q = 0"
  by (simp add: queue_rel_def unat_eq_zero)

lemma num_item_Cons: "queue_rel r q (x # xs) \<Longrightarrow> QUEUE_num_item q \<noteq> 0"
  by (auto simp: queue_rel_def)

lemma GetNext_rel:
  assumes q: "queue_rel r q (x # xs)"
  shows "\<exists>q'. GetNext r q = Some (Some x, q') \<and> queue_rel r q' xs"
proof -
  have wf: "fifo_wf r (QUEUE_fifo q)" using q by (simp add: queue_rel_def)
  obtain f n where "ReadFifo r (QUEUE_fifo q) True 8 = Some (n, ptr_cells (Some x), f)" "fifo_wf r f"
    "fifo_cells f = concat (map (\<lambda>x. ptr_cells (Some x)) xs)"
    using ReadFifo_spec [OF wf, of 8] q by (auto simp: queue_rel_def)
  moreover have "unat (QUEUE_num_item q - 1) = length xs"
    using q by (simp add: queue_rel_def nowrap)
  ultimately show ?thesis
    using num_item_Cons [OF q] by (simp add: GetNext_def queue_rel_def)
qed

lemma PeekQueue_rel:
  assumes q: "queue_rel r q (x # xs)"
  shows "PeekQueue q = Some (Some x)"
  using PeekFifo_spec [of r "QUEUE_fifo q" 8] q num_item_Cons [OF q]
  by (simp add: PeekQueue_def queue_rel_def)

interpretation pointer_queue: queue_adt "\<lambda>q x. InsertQueue q (Some x)"
  "GetNext FIFO_REALLOC_MEM_SIZE" PeekQueue "queue_rel FIFO_REALLOC_MEM_SIZE" QUEUE_MAX
  by unfold_locales
    (auto simp: PeekQueue_rel intro: InsertQueue_rel GetNext_rel,
      auto simp: GetNext_def PeekQueue_def dest: num_item_Nil)

end
