(* ===== verification/Keyed.thy ===== *)
theory Keyed
  imports PtrList
begin

text \<open>
  Tables: lists that are only inserted into after a search that found nothing, so that no two
  items have the same key. The interface says that a comparison function orders its items by a
  key; the lemmas say what the list operations do to the finite map from keys to items. The
  ARP tables, the routing table, the interface list and the switch list are such tables.
\<close>

fun replace_first :: "'x \<Rightarrow> 'x \<Rightarrow> 'x list \<Rightarrow> 'x list" where
  "replace_first x y [] = []"
| "replace_first x y (z # zs) = (if z = x then y # zs else z # replace_first x y zs)"

definition delete_each :: "'x list \<Rightarrow> 'x LST \<Rightarrow> 'x LST" where
  "delete_each xs l = fold (\<lambda>x l. snd (lst_delete l x)) xs l"

lemma delete_each_items:
  "items (delete_each xs l) = fold remove1 xs (items l)" "is_sorted (delete_each xs l) = is_sorted l"
proof -
  have "items (delete_each xs l) = fold remove1 xs (items l) \<and> is_sorted (delete_each xs l) = is_sorted l"
    by (induction xs arbitrary: l) (simp_all add: delete_each_def lst_delete_def)
  then show "items (delete_each xs l) = fold remove1 xs (items l)"
    "is_sorted (delete_each xs l) = is_sorted l" by auto
qed

lemma fold_remove1_skip:
  "y \<notin> set zs \<Longrightarrow> fold remove1 zs (y # ys) = y # fold remove1 zs ys"
  by (induction zs arbitrary: ys) auto

lemma fold_remove1_filter: "fold remove1 (filter P xs) xs = filter (\<lambda>x. \<not> P x) xs"
  by (induction xs) (auto simp: fold_remove1_skip)

text \<open>Collecting the items with a property and deleting each of them leaves the others.\<close>

lemma delete_each_filter:
  "delete_each (filter P (items l)) l = l\<lparr>items := filter (\<lambda>x. \<not> P x) (items l)\<rparr>"
  by (intro LST.equality) (simp_all add: delete_each_items fold_remove1_filter)

lemma find_unique:
  "distinct (map f xs) \<Longrightarrow> x \<in> set xs \<Longrightarrow> find (\<lambda>y. f y = f x) xs = Some x"
  by (induction xs) (auto simp: rev_image_eqI)

lemma find_none_iff: "(find (\<lambda>y. f y = k) xs = None) = (k \<notin> f ` set xs)"
  by (auto simp: find_None_iff)

locale keyed_table =
  fixes cmp :: "'x \<Rightarrow> 'x \<Rightarrow> int" and key :: "'x \<Rightarrow> 'k::linorder"
  assumes cmp_key: "cmp x y = COMPARE_RET (key x) (key y)"
begin

lemma comparator_cmp: "comparator cmp"
  unfolding cmp_key [abs_def] by (rule comparator_on_key) (rule int_compare.comparator_axioms)

lemma cmp_zero: "(cmp x y = 0) = (key x = key y)"
  by (simp add: cmp_key COMPARE_RET_def)

lemma cmp_le: "(cmp x y \<le> 0) = (key x \<le> key y)"
  by (auto simp: cmp_key COMPARE_RET_def)

lemma sorted_cmp_keys: "sorted_cmp cmp xs = sorted (map key xs)"
  by (simp add: sorted_cmp_def cmp_le sorted_map)

definition tbl_ok :: "'x LST \<Rightarrow> bool" where
  "tbl_ok l \<longleftrightarrow> lst_ok cmp l \<and> distinct (map key (items l))"

definition view :: "'x LST \<Rightarrow> 'k \<Rightarrow> 'x option" where
  "view l k = find (\<lambda>x. key x = k) (items l)"

lemma lst_ok_keys: "lst_ok cmp l = (is_sorted l \<longrightarrow> sorted (map key (items l)))"
  by (simp add: lst_ok_def sorted_cmp_keys)

lemma tbl_new: "tbl_ok lst_new" "view lst_new k = None"
  by (simp_all add: tbl_ok_def view_def lst_ok_def lst_new_def sorted_cmp_def)

lemma view_Some: "tbl_ok l \<Longrightarrow> (view l k = Some x) = (x \<in> set (items l) \<and> key x = k)"
  using find_unique [of key "items l" x]
  by (auto simp: tbl_ok_def view_def find_Some_iff in_set_conv_nth)

lemma view_None: "(view l k = None) = (k \<notin> key ` set (items l))"
  by (auto simp: view_def find_None_iff)

lemma ran_view: "tbl_ok l \<Longrightarrow> ran (view l) = set (items l)"
  by (auto simp: ran_def view_Some)

lemma view_cong:
  assumes "tbl_ok l" and "tbl_ok l'" and "set (items l) = set (items l')"
  shows "view l = view l'"
proof
  fix k
  show "view l k = view l' k"
  proof (cases "view l k")
    case None
    then show ?thesis using assms(3) by (metis view_None)
  next
    case (Some x)
    then have "view l' k = Some x" using assms by (metis view_Some)
    then show ?thesis using Some by simp
  qed
qed

lemma tbl_mset: "tbl_ok l \<Longrightarrow> lst_ok cmp l' \<Longrightarrow> mset (items l') = mset (items l) \<Longrightarrow>
    tbl_ok l' \<and> view l' = view l"
proof -
  assume a: "tbl_ok l" "lst_ok cmp l'" "mset (items l') = mset (items l)"
  then have "mset (map key (items l')) = mset (map key (items l))" by simp
  then have "tbl_ok l'" using a by (metis mset_eq_imp_distinct_iff tbl_ok_def)
  moreover have "set (items l) = set (items l')" using a(3) by (metis set_mset_mset)
  ultimately show ?thesis using view_cong a(1) by metis
qed

lemma tbl_search:
  assumes "tbl_ok l" and "lst_search (Some cmp) l t = (r, l')"
  shows "r = view l (key t) \<and> tbl_ok l' \<and> view l' = view l \<and> mset (items l') = mset (items l)"
proof -
  note s = comparator.lst_search_spec [OF comparator_cmp _ assms(2)]
  have ok: "lst_ok cmp l" using assms(1) by (simp add: tbl_ok_def)
  have "r = view l (key t)"
  proof (cases r)
    case None
    then have "key t \<notin> key ` set (items l)" using s [OF ok] by (auto simp: cmp_zero)
    then show ?thesis using None by (metis view_None)
  next
    case (Some x)
    then have "x \<in> set (items l)" "key x = key t" using s [OF ok] by (auto simp: cmp_zero)
    then show ?thesis using Some assms(1) by (metis view_Some)
  qed
  then show ?thesis using s [OF ok] tbl_mset [OF assms(1)] by blast
qed

lemma tbl_insert:
  assumes "tbl_ok l" and "view l (key x) = None"
  shows "tbl_ok (lst_insert (Some cmp) l x) \<and> view (lst_insert (Some cmp) l x) = (view l)(key x \<mapsto> x)
      \<and> mset (items (lst_insert (Some cmp) l x)) = add_mset x (mset (items l))"
proof -
  let ?l = "lst_insert (Some cmp) l x"
  have ok: "lst_ok cmp l" using assms(1) by (simp add: tbl_ok_def)
  note i = comparator.lst_insert_spec [OF comparator_cmp ok, of x]
  have "mset (map key (items ?l)) = mset (key x # map key (items l))" using i by simp
  moreover have "distinct (key x # map key (items l))"
    using assms by (auto simp: tbl_ok_def view_None)
  ultimately have t: "tbl_ok ?l" using i by (metis mset_eq_imp_distinct_iff tbl_ok_def)
  have set: "set (items ?l) = insert x (set (items l))"
    using i by (metis set_mset_add_mset_insert set_mset_mset)
  have "view ?l k = ((view l)(key x \<mapsto> x)) k" for k
  proof (cases "k = key x")
    case True
    then show ?thesis using t set by (simp add: view_Some)
  next
    case False
    show ?thesis
    proof (cases "view l k")
      case None
      then have "view ?l k = None" using False set by (auto simp: view_None)
      then show ?thesis using False None by simp
    next
      case (Some y)
      then have "view ?l k = Some y" using assms(1) t set by (simp add: view_Some)
      then show ?thesis using False Some by simp
    qed
  qed
  then show ?thesis using t i by blast
qed

lemma tbl_filter:
  assumes "tbl_ok l"
  shows "tbl_ok (l\<lparr>items := filter P (items l)\<rparr>) \<and>
    view (l\<lparr>items := filter P (items l)\<rparr>) k = (case view l k of Some x \<Rightarrow> if P x then Some x else None | None \<Rightarrow> None)"
proof -
  let ?l = "l\<lparr>items := filter P (items l)\<rparr>"
  have t: "tbl_ok ?l"
    using assms by (auto simp: tbl_ok_def lst_ok_keys distinct_map_filter sorted_filter)
  show ?thesis
  proof (cases "view l k")
    case None
    then have "view ?l k = None" by (auto simp: view_None)
    then show ?thesis using t None by simp
  next
    case (Some x)
    show ?thesis
    proof (cases "P x")
      case True
      then have "view ?l k = Some x" using Some assms t by (simp add: view_Some)
      then show ?thesis using t Some True by simp
    next
      case False
      have "view ?l k = None"
      proof (rule ccontr)
        assume "view ?l k \<noteq> None"
        then obtain y where "view ?l k = Some y" by auto
        then have y: "y \<in> set (items l)" "P y" "key y = k" using t by (auto simp: view_Some)
        then have "view l k = Some y" using assms by (simp add: view_Some)
        with Some y(2) False show False by simp
      qed
      then show ?thesis using t Some False by simp
    qed
  qed
qed

lemma tbl_delete:
  assumes "tbl_ok l"
  shows "tbl_ok (snd (lst_delete l x))
    \<and> (view l (key x) = Some x \<longrightarrow> view (snd (lst_delete l x)) = (view l)(key x := None))"
proof -
  have d: "distinct (items l)" using assms by (simp add: tbl_ok_def distinct_map)
  then have e: "snd (lst_delete l x) = l\<lparr>items := filter (\<lambda>y. y \<noteq> x) (items l)\<rparr>"
    by (simp add: lst_delete_def distinct_remove1_removeAll removeAll_filter_not_eq eq_commute)
  have "view (snd (lst_delete l x)) k = ((view l)(key x := None)) k" if "view l (key x) = Some x" for k
    unfolding e using tbl_filter [OF assms, of "\<lambda>y. y \<noteq> x" k] that
    by (auto split: option.splits) (metis assms view_Some)+
  then show ?thesis using tbl_filter [OF assms, of "\<lambda>y. y \<noteq> x"] unfolding e by blast
qed

lemma replace_first_split:
  assumes "x \<in> set xs" and "distinct xs"
  shows "\<exists>a b. xs = a @ x # b \<and> replace_first x y xs = a @ y # b"
  using assms
proof (induction xs)
  case (Cons z zs)
  show ?case
  proof (cases "z = x")
    case True
    then show ?thesis by (intro exI [of _ "[]"] exI [of _ zs]) simp
  next
    case False
    with Cons obtain a b where "zs = a @ x # b" "replace_first x y zs = a @ y # b" by auto
    with False show ?thesis by (intro exI [of _ "z # a"] exI [of _ b]) simp
  qed
qed simp

lemma tbl_replace:
  assumes "tbl_ok l" and "view l (key x) = Some x" and "key y = key x"
  shows "tbl_ok (l\<lparr>items := replace_first x y (items l)\<rparr>)
    \<and> view (l\<lparr>items := replace_first x y (items l)\<rparr>) = (view l)(key x \<mapsto> y)"
proof -
  let ?l = "l\<lparr>items := replace_first x y (items l)\<rparr>"
  have "x \<in> set (items l)" "distinct (items l)"
    using assms by (simp_all add: view_Some, simp add: tbl_ok_def distinct_map)
  then obtain a b where ab: "items l = a @ x # b" "items ?l = a @ y # b"
    using replace_first_split by fastforce
  then have keys: "map key (items ?l) = map key (items l)" using assms(3) by simp
  then have t: "tbl_ok ?l" using assms(1) by (simp add: tbl_ok_def lst_ok_keys)
  have "view ?l k = ((view l)(key x \<mapsto> y)) k" for k
  proof -
    have "\<forall>z \<in> set a. key z \<noteq> key x"
      using assms(1) ab(1) by (auto simp: tbl_ok_def rev_image_eqI)
    then have "find (\<lambda>z. key z = k) (a @ y # b)
        = (if k = key x then Some y else find (\<lambda>z. key z = k) (a @ x # b))"
      using assms(3) by (induction a) auto
    then show ?thesis using ab by (simp add: view_def)
  qed
  then show ?thesis using t by blast
qed

end

end
