(* ===== verification/Layer3If.thy ===== *)
theory Layer3If
  imports Packet Fifo Containers Keyed
begin

text \<open>
  One interface of the virtual layer-3 switch of src/src/Cedar/Layer3.c: its ARP table, its
  ARP queries, the packets that wait for an answer, and the queue of frames it sends.
  A \<open>UINT\<close> address holds the four bytes of the address in the order of the packet, so
  its number depends on the byte order \<open>le\<close> of the host. \<open>Tick64\<close> is the argument
  \<open>now\<close>: one tick is read by a call. Lists are the abstract lists that the pointer
  arrays of \<open>PtrList\<close> refine, queues are lists, and a freed object is one that is in none
  of them any more.
\<close>

section \<open>Constants (src/src/Cedar/Cedar.h)\<close>

abbreviation ARP_ENTRY_EXPIRES :: u64 where "ARP_ENTRY_EXPIRES \<equiv> 30000"
abbreviation ARP_ENTRY_POLLING_TIME :: u64 where "ARP_ENTRY_POLLING_TIME \<equiv> 1000"
abbreviation ARP_REQUEST_TIMEOUT :: u64 where "ARP_REQUEST_TIMEOUT \<equiv> 1000"
abbreviation ARP_REQUEST_GIVEUP :: u64 where "ARP_REQUEST_GIVEUP \<equiv> 5000"
abbreviation IP_WAIT_FOR_ARP_TIMEOUT :: u64 where "IP_WAIT_FOR_ARP_TIMEOUT \<equiv> 5000"
abbreviation BEACON_SEND_INTERVAL :: u64 where "BEACON_SEND_INTERVAL \<equiv> 5000"
abbreviation ARP_HARDWARE_TYPE_ETHERNET :: u16 where "ARP_HARDWARE_TYPE_ETHERNET \<equiv> 1"
abbreviation ARP_OPERATION_REQUEST :: u16 where "ARP_OPERATION_REQUEST \<equiv> 1"
abbreviation ARP_OPERATION_RESPONSE :: u16 where "ARP_OPERATION_RESPONSE \<equiv> 2"

section \<open>Frames\<close>

text \<open>
  Of a parsed packet the addresses and the layer-3 header are read through the pointers the
  parser left, which are offsets here; behind a null pointer there is nothing.
\<close>

definition MacAddressSrc :: "PKT \<Rightarrow> u8 list" where
  "MacAddressSrc p = take 6 (drop (MacAddressSrc_at p) (PacketData p))"

definition MacAddressDest :: "PKT \<Rightarrow> u8 list" where
  "MacAddressDest p = take 6 (drop (MacAddressDest_at p) (PacketData p))"

definition MacHeader_Protocol :: "bool \<Rightarrow> PKT \<Rightarrow> u16" where
  "MacHeader_Protocol le p = of_mem16 le (take 2 (drop 12 (PacketData p)))"

definition PointerL3 :: "PKT \<Rightarrow> u8 list" where
  "PointerL3 p = (case L3_at p of None \<Rightarrow> [] | Some l3 \<Rightarrow> drop l3 (PacketData p))"

definition IPv4_SrcIP :: "bool \<Rightarrow> PKT \<Rightarrow> u32" where
  "IPv4_SrcIP le p = of_mem32 le (take 4 (drop 12 (PointerL3 p)))"

definition IPv4_DstIP :: "bool \<Rightarrow> PKT \<Rightarrow> u32" where
  "IPv4_DstIP le p = of_mem32 le (take 4 (drop 16 (PointerL3 p)))"

text \<open>The packed structures of src/src/Mayaqua/TcpIp.h and their bytes in memory.\<close>

record ARPV4_HEADER =
  HardwareType :: u16
  ProtocolType :: u16
  HardwareSize :: u8
  ProtocolSize :: u8
  Operation :: u16
  SrcAddress :: "u8 list"
  ARP_SrcIP :: u32
  TargetAddress :: "u8 list"
  TargetIP :: u32

definition arp_bytes :: "bool \<Rightarrow> ARPV4_HEADER \<Rightarrow> u8 list" where
  "arp_bytes le a =
     mem16 le (HardwareType a) @ mem16 le (ProtocolType a) @ [HardwareSize a, ProtocolSize a] @
     mem16 le (Operation a) @ SrcAddress a @ mem32 le (ARP_SrcIP a) @ TargetAddress a @
     mem32 le (TargetIP a)"

definition arp_header :: "bool \<Rightarrow> u8 list \<Rightarrow> ARPV4_HEADER" where
  "arp_header le bs =
     \<lparr>HardwareType = of_mem16 le (take 2 bs), ProtocolType = of_mem16 le (take 2 (drop 2 bs)),
      HardwareSize = bs ! 4, ProtocolSize = bs ! 5, Operation = of_mem16 le (take 2 (drop 6 bs)),
      SrcAddress = take 6 (drop 8 bs), ARP_SrcIP = of_mem32 le (take 4 (drop 14 bs)),
      TargetAddress = take 6 (drop 18 bs), TargetIP = of_mem32 le (take 4 (drop 24 bs))\<rparr>"

record IPV4_HEADER =
  VersionAndHeaderLength :: u8
  TypeOfService :: u8
  TotalLength :: u16
  Identification :: u16
  FlagsAndFlagmentOffset :: "u8 list"
  TimeToLive :: u8
  IP_Protocol :: u8
  IP_Checksum :: u16
  IP_SrcIP :: u32
  IP_DstIP :: u32

definition ip_bytes :: "bool \<Rightarrow> IPV4_HEADER \<Rightarrow> u8 list" where
  "ip_bytes le h =
     [VersionAndHeaderLength h, TypeOfService h] @ mem16 le (TotalLength h) @
     mem16 le (Identification h) @ FlagsAndFlagmentOffset h @ [TimeToLive h, IP_Protocol h] @
     mem16 le (IP_Checksum h) @ mem32 le (IP_SrcIP h) @ mem32 le (IP_DstIP h)"

definition IPV4_SET_VERSION :: "u8 \<Rightarrow> u8 \<Rightarrow> u8" where
  "IPV4_SET_VERSION b v = b OR push_bit 4 (v AND 0x0f)"

definition IPV4_SET_HEADER_LEN :: "u8 \<Rightarrow> u8 \<Rightarrow> u8" where
  "IPV4_SET_HEADER_LEN b v = b OR (v AND 0x0f)"

record UDP_HEADER =
  SrcPort :: u16
  DstPort :: u16
  PacketLength :: u16
  UDP_Checksum :: u16

definition udp_bytes :: "bool \<Rightarrow> UDP_HEADER \<Rightarrow> u8 list" where
  "udp_bytes le u =
     mem16 le (SrcPort u) @ mem16 le (DstPort u) @ mem16 le (PacketLength u) @ mem16 le (UDP_Checksum u)"

section \<open>The state of an interface\<close>

record L3ARPENTRY =
  ARPENTRY_IpAddress :: u32
  ARPENTRY_MacAddress :: "u8 list"
  ARPENTRY_Expire :: u64

record L3ARPWAIT =
  ARPWAIT_IpAddress :: u32
  LastSentTime :: u64
  ARPWAIT_Expire :: u64

record L3PACKET =
  Packet :: PKT
  PACKET_Expire :: u64
  NextHopIp :: u32

record L3IF =
  HubName :: cstr
  IpAddress :: u32
  SubnetMask :: u32
  ArpTable :: "L3ARPENTRY LST"
  ArpWaitTable :: "L3ARPWAIT LST"
  IpPacketQueue :: "L3PACKET list"
  IpWaitList :: "L3PACKET LST"
  SendQueue :: "u8 list list"
  MacAddress :: "u8 list"
  LastDeleteOldArpTable :: u64
  LastBeaconSent :: u64

definition CmpL3ArpEntry :: "L3ARPENTRY \<Rightarrow> L3ARPENTRY \<Rightarrow> int" where
  "CmpL3ArpEntry e1 e2 =
     (if ARPENTRY_IpAddress e1 > ARPENTRY_IpAddress e2 then 1
      else if ARPENTRY_IpAddress e1 < ARPENTRY_IpAddress e2 then -1 else 0)"

definition CmpL3ArpWaitTable :: "L3ARPWAIT \<Rightarrow> L3ARPWAIT \<Rightarrow> int" where
  "CmpL3ArpWaitTable w1 w2 =
     (if ARPWAIT_IpAddress w1 > ARPWAIT_IpAddress w2 then 1
      else if ARPWAIT_IpAddress w1 < ARPWAIT_IpAddress w2 then -1 else 0)"

interpretation arp_table: keyed_table CmpL3ArpEntry ARPENTRY_IpAddress
  by unfold_locales (simp add: CmpL3ArpEntry_def COMPARE_RET_def)

interpretation wait_table: keyed_table CmpL3ArpWaitTable ARPWAIT_IpAddress
  by unfold_locales (simp add: CmpL3ArpWaitTable_def COMPARE_RET_def)

text \<open>The records the code zeroes and gives an address, to search with.\<close>

definition arp_key :: "u32 \<Rightarrow> L3ARPENTRY" where
  "arp_key ip = \<lparr>ARPENTRY_IpAddress = ip, ARPENTRY_MacAddress = replicate 6 0, ARPENTRY_Expire = 0\<rparr>"

definition wait_key :: "u32 \<Rightarrow> L3ARPWAIT" where
  "wait_key ip = \<lparr>ARPWAIT_IpAddress = ip, LastSentTime = 0, ARPWAIT_Expire = 0\<rparr>"

text \<open>
  The address of an interface is the MAC address the generator \<open>gen\<close> made, with the
  second byte fixed and the next four from the SHA-1 hash \<open>sha1\<close> of its names and address.
\<close>

definition L3GenerateMacAddress ::
    "(u8 list \<Rightarrow> u8 list) \<Rightarrow> u8 list \<Rightarrow> bool \<Rightarrow> cstr \<Rightarrow> L3IF \<Rightarrow> L3IF" where
  "L3GenerateMacAddress sha1 gen le switch_name f =
     (let hash = sha1 (switch_name @ HubName f @ mem32 le (IpAddress f));
          mac = take 2 gen @ take 4 hash
      in f\<lparr>MacAddress := mac[1 := 0xA3]\<rparr>)"

definition L3InitInterface ::
    "(u8 list \<Rightarrow> u8 list) \<Rightarrow> u8 list \<Rightarrow> bool \<Rightarrow> cstr \<Rightarrow> L3IF \<Rightarrow> L3IF" where
  "L3InitInterface sha1 gen le switch_name f =
     (L3GenerateMacAddress sha1 gen le switch_name f)
       \<lparr>ArpTable := lst_new, ArpWaitTable := lst_new, IpPacketQueue := [], IpWaitList := lst_new,
        SendQueue := []\<rparr>"

section \<open>Sending frames\<close>

definition broadcast :: "u8 list" where
  "broadcast = [0xff, 0xff, 0xff, 0xff, 0xff, 0xff]"

definition L3SendL2Now :: "bool \<Rightarrow> L3IF \<Rightarrow> u8 list \<Rightarrow> u8 list \<Rightarrow> u16 \<Rightarrow> u8 list \<Rightarrow> L3IF" where
  "L3SendL2Now le f dest_mac src_mac protocol data =
     (let buf = dest_mac @ src_mac @ mem16 le (Endian16 le protocol) @ data
      in f\<lparr>SendQueue := SendQueue f @ [buf]\<rparr>)"

definition L3SendArpRequestNow :: "bool \<Rightarrow> L3IF \<Rightarrow> u32 \<Rightarrow> L3IF" where
  "L3SendArpRequestNow le f dest_ip =
     (let arp = \<lparr>HardwareType = Endian16 le ARP_HARDWARE_TYPE_ETHERNET,
                 ProtocolType = Endian16 le MAC_PROTO_IPV4, HardwareSize = 6, ProtocolSize = 4,
                 Operation = Endian16 le ARP_OPERATION_REQUEST, SrcAddress = MacAddress f,
                 ARP_SrcIP = IpAddress f, TargetAddress = replicate 6 0, TargetIP = dest_ip\<rparr>
      in L3SendL2Now le f broadcast (MacAddress f) MAC_PROTO_ARPV4 (arp_bytes le arp))"

definition L3SendArpResponseNow :: "bool \<Rightarrow> L3IF \<Rightarrow> u8 list \<Rightarrow> u32 \<Rightarrow> u32 \<Rightarrow> L3IF" where
  "L3SendArpResponseNow le f dest_mac dest_ip src_ip =
     (let arp = \<lparr>HardwareType = Endian16 le ARP_HARDWARE_TYPE_ETHERNET,
                 ProtocolType = Endian16 le MAC_PROTO_IPV4, HardwareSize = 6, ProtocolSize = 4,
                 Operation = Endian16 le ARP_OPERATION_RESPONSE, SrcAddress = MacAddress f,
                 ARP_SrcIP = src_ip, TargetAddress = dest_mac, TargetIP = dest_ip\<rparr>
      in L3SendL2Now le f dest_mac (MacAddress f) MAC_PROTO_ARPV4 (arp_bytes le arp))"

definition L3SendIpNow :: "bool \<Rightarrow> L3IF \<Rightarrow> L3ARPENTRY option \<Rightarrow> L3PACKET \<Rightarrow> L3IF" where
  "L3SendIpNow le f a p =
     L3SendL2Now le f (case a of Some a \<Rightarrow> ARPENTRY_MacAddress a | None \<Rightarrow> broadcast) (MacAddress f)
       (Endian16 le (MacHeader_Protocol le (Packet p))) (PointerL3 (Packet p))"

section \<open>The ARP table and the waiting packets\<close>

text \<open>Search may sort the list it searches, so it returns the interface as well.\<close>

definition L3SearchArpTable :: "L3IF \<Rightarrow> u32 \<Rightarrow> L3ARPENTRY option \<times> L3IF" where
  "L3SearchArpTable f ip =
     (if ip = 0 \<or> ip = 0xffffffff then (None, f)
      else let (e, l) = lst_search (Some CmpL3ArpEntry) (ArpTable f) (arp_key ip)
        in (e, f\<lparr>ArpTable := l\<rparr>))"

definition send_waiting_step :: "bool \<Rightarrow> L3ARPENTRY \<Rightarrow> L3PACKET \<Rightarrow> L3IF \<Rightarrow> L3IF" where
  "send_waiting_step le a p f =
     (let f = L3SendIpNow le f (Some a) p
      in f\<lparr>IpWaitList := snd (lst_delete (IpWaitList f) p)\<rparr>)"

definition L3SendWaitingIp :: "bool \<Rightarrow> L3IF \<Rightarrow> u8 list \<Rightarrow> u32 \<Rightarrow> L3ARPENTRY \<Rightarrow> L3IF" where
  "L3SendWaitingIp le f mac ip a =
     (let o1 = filter (\<lambda>p. NextHopIp p = ip) (items (IpWaitList f))
      in fold (send_waiting_step le a) o1 f)"

definition L3InsertArpTable :: "bool \<Rightarrow> u64 \<Rightarrow> L3IF \<Rightarrow> u32 \<Rightarrow> u8 list \<Rightarrow> L3IF" where
  "L3InsertArpTable le now f ip mac =
     (if ip = 0 \<or> ip = 0xffffffff then f
      else
        let (found, l) = lst_search (Some CmpL3ArpEntry) (ArpTable f) (arp_key ip);
            (a, l) = (case found of
                Some a \<Rightarrow> (a, l)
              | None \<Rightarrow>
                  let a = (arp_key ip)\<lparr>ARPENTRY_MacAddress := mac\<rparr>
                  in (a, lst_insert (Some CmpL3ArpEntry) l a));
            a' = a\<lparr>ARPENTRY_Expire := now + ARP_ENTRY_EXPIRES\<rparr>;
            l = l\<lparr>items := replace_first a a' (items l)\<rparr>
        in L3SendWaitingIp le (f\<lparr>ArpTable := l\<rparr>) mac ip a')"

text \<open>
  The search of \<open>L3KnownArp\<close> is made in the list of packets, which was created without a
  comparison function: \<open>Search\<close> returns a null pointer before it reads the key, for which
  any packet stands here.
\<close>

definition L3KnownArp :: "bool \<Rightarrow> u64 \<Rightarrow> L3IF \<Rightarrow> u32 \<Rightarrow> u8 list \<Rightarrow> L3IF" where
  "L3KnownArp le now f ip mac =
     (if ip = 0 \<or> ip = 0xffffffff then f
      else if \<not> (IpAddress f AND SubnetMask f = ip AND SubnetMask f) then f
      else
        let t = \<lparr>Packet = no_packet, PACKET_Expire = 0, NextHopIp = 0\<rparr>;
            (w, l) = lst_search None (IpWaitList f) t;
            f = (case w of
                None \<Rightarrow> f\<lparr>IpWaitList := l\<rparr>
              | Some w \<Rightarrow> f\<lparr>IpWaitList := snd (lst_delete l w)\<rparr>)
        in L3InsertArpTable le now f ip mac)"

definition L3SendArp :: "u64 \<Rightarrow> L3IF \<Rightarrow> u32 \<Rightarrow> L3IF" where
  "L3SendArp now f ip =
     (if ip = 0 \<or> ip = 0xffffffff then f
      else
        let (w, l) = lst_search (Some CmpL3ArpWaitTable) (ArpWaitTable f) (wait_key ip)
        in case w of
            Some w \<Rightarrow> f\<lparr>ArpWaitTable := l\<rparr>
          | None \<Rightarrow>
              let w = (wait_key ip)\<lparr>ARPWAIT_Expire := now + ARP_REQUEST_GIVEUP\<rparr>
              in f\<lparr>ArpWaitTable := lst_insert (Some CmpL3ArpWaitTable) l w\<rparr>)"

section \<open>Receiving ARP packets\<close>

definition L3RecvArpRequest :: "bool \<Rightarrow> u64 \<Rightarrow> L3IF \<Rightarrow> PKT \<Rightarrow> L3IF" where
  "L3RecvArpRequest le now f p =
     (let a = arp_header le (PointerL3 p);
          f = L3KnownArp le now f (ARP_SrcIP a) (SrcAddress a)
      in if TargetIP a = IpAddress f
         then L3SendArpResponseNow le f (SrcAddress a) (ARP_SrcIP a) (IpAddress f)
         else f)"

definition L3RecvArpResponse :: "bool \<Rightarrow> u64 \<Rightarrow> L3IF \<Rightarrow> PKT \<Rightarrow> L3IF" where
  "L3RecvArpResponse le now f p =
     (let a = arp_header le (PointerL3 p)
      in L3KnownArp le now f (ARP_SrcIP a) (SrcAddress a))"

definition L3RecvArp :: "bool \<Rightarrow> u64 \<Rightarrow> L3IF \<Rightarrow> PKT \<Rightarrow> L3IF" where
  "L3RecvArp le now f p =
     (let a = arp_header le (PointerL3 p)
      in if Endian16 le (HardwareType a) \<noteq> ARP_HARDWARE_TYPE_ETHERNET
            \<or> Endian16 le (ProtocolType a) \<noteq> MAC_PROTO_IPV4
            \<or> HardwareSize a \<noteq> 6 \<or> ProtocolSize a \<noteq> 4 then f
         else if SrcAddress a \<noteq> MacAddressSrc p then f
         else if Endian16 le (Operation a) = ARP_OPERATION_REQUEST then L3RecvArpRequest le now f p
         else if Endian16 le (Operation a) = ARP_OPERATION_RESPONSE then L3RecvArpResponse le now f p
         else f)"

section \<open>Sending IP packets\<close>

definition is_broadcast :: "L3IF \<Rightarrow> u32 \<Rightarrow> bool" where
  "is_broadcast f hop \<longleftrightarrow>
     hop = 0xffffffff \<or>
     (hop AND SubnetMask f = IpAddress f AND SubnetMask f \<and>
      hop AND NOT (SubnetMask f) = NOT (SubnetMask f))"

text \<open>A packet for the address of the interface itself leaves without a search; \<open>for_me\<close>
  is never set, so it is sent to the broadcast address.\<close>

definition L3SendIp :: "bool \<Rightarrow> u64 \<Rightarrow> L3IF \<Rightarrow> L3PACKET \<Rightarrow> L3IF" where
  "L3SendIp le now f p =
     (if TypeL3 (Packet p) \<noteq> L3_IPV4 then f
      else if is_broadcast f (NextHopIp p) \<or> IPv4_DstIP le (Packet p) = IpAddress f
      then L3SendIpNow le f None p
      else
        let (a, f) = L3SearchArpTable f (NextHopIp p)
        in case a of
            None \<Rightarrow>
              let p = p\<lparr>PACKET_Expire := now + IP_WAIT_FOR_ARP_TIMEOUT\<rparr>;
                  f = f\<lparr>IpWaitList := lst_insert None (IpWaitList f) p\<rparr>
              in L3SendArp now f (NextHopIp p)
          | Some a \<Rightarrow> L3SendIpNow le f (Some a) p)"

section \<open>Polling\<close>

text \<open>
  The loop over the ARP queries: the ones that are given up are collected, a request is sent
  for the others when a second has passed since the last one.
\<close>

fun arp_wait_loop :: "bool \<Rightarrow> u64 \<Rightarrow> L3IF \<Rightarrow> L3ARPWAIT list \<Rightarrow> L3IF \<times> L3ARPWAIT list \<times> L3ARPWAIT list" where
  "arp_wait_loop le now f [] = (f, [], [])"
| "arp_wait_loop le now f (w # ws) =
     (if ARPWAIT_Expire w \<le> now
      then let (f, ws', o1) = arp_wait_loop le now f ws in (f, w # ws', w # o1)
      else if LastSentTime w + ARP_REQUEST_TIMEOUT \<le> now
      then let w = w\<lparr>LastSentTime := now\<rparr>;
               f = L3SendArpRequestNow le f (ARPWAIT_IpAddress w);
               (f, ws', o1) = arp_wait_loop le now f ws
           in (f, w # ws', o1)
      else let (f, ws', o1) = arp_wait_loop le now f ws in (f, w # ws', o1))"

definition L3PollingArpWaitTable :: "bool \<Rightarrow> u64 \<Rightarrow> L3IF \<Rightarrow> L3IF" where
  "L3PollingArpWaitTable le now f =
     (let (f, ws, o1) = arp_wait_loop le now f (items (ArpWaitTable f));
          l = (ArpWaitTable f)\<lparr>items := ws\<rparr>
      in f\<lparr>ArpWaitTable := delete_each o1 l\<rparr>)"

definition L3DeleteOldArpTable :: "u64 \<Rightarrow> L3IF \<Rightarrow> L3IF" where
  "L3DeleteOldArpTable now f =
     (if LastDeleteOldArpTable f + ARP_ENTRY_POLLING_TIME > now then f
      else
        let f = f\<lparr>LastDeleteOldArpTable := now\<rparr>;
            o1 = filter (\<lambda>a. ARPENTRY_Expire a \<le> now) (items (ArpTable f))
        in f\<lparr>ArpTable := delete_each o1 (ArpTable f)\<rparr>)"

definition L3DeleteOldIpWaitList :: "u64 \<Rightarrow> L3IF \<Rightarrow> L3IF" where
  "L3DeleteOldIpWaitList now f =
     (let o1 = filter (\<lambda>p. PACKET_Expire p \<le> now) (items (IpWaitList f))
      in f\<lparr>IpWaitList := delete_each o1 (IpWaitList f)\<rparr>)"

definition beacon_str :: "u8 list" where
  "beacon_str = ascii ''PacketiX VPN Virtual Layer-3 Switch Beacon'' @ [0]"

definition beacon_packet :: "bool \<Rightarrow> L3IF \<Rightarrow> u8 list" where
  "beacon_packet le f =
     (let dest_ip = (IpAddress f AND SubnetMask f) OR NOT (SubnetMask f);
          udp_buf_size = 20 + 8 + of_nat (length beacon_str) :: u16;
          udp = \<lparr>SrcPort = Endian16 le 7, DstPort = Endian16 le 7,
                 PacketLength = Endian16 le (8 + of_nat (length beacon_str)), UDP_Checksum = 0\<rparr>;
          udp = udp\<lparr>UDP_Checksum := CalcChecksumForIPv4 le (IpAddress f) dest_ip 0x11
                   (udp_bytes le udp @ beacon_str) 0\<rparr>;
          ip = \<lparr>VersionAndHeaderLength = IPV4_SET_HEADER_LEN (IPV4_SET_VERSION 0 4) 5, TypeOfService = 0,
                TotalLength = Endian16 le udp_buf_size, Identification = 0,
                FlagsAndFlagmentOffset = [0, 0], TimeToLive = 128, IP_Protocol = 0x11, IP_Checksum = 0,
                IP_SrcIP = IpAddress f, IP_DstIP = dest_ip\<rparr>;
          ip = ip\<lparr>IP_Checksum := IpChecksum le (ip_bytes le ip)\<rparr>
      in ip_bytes le ip @ udp_bytes le udp @ beacon_str)"

definition L3PollingBeacon :: "bool \<Rightarrow> u64 \<Rightarrow> L3IF \<Rightarrow> L3IF" where
  "L3PollingBeacon le now f =
     (if LastBeaconSent f = 0 \<or> LastBeaconSent f + BEACON_SEND_INTERVAL \<le> now
      then
        let dest_ip = (IpAddress f AND SubnetMask f) OR NOT (SubnetMask f);
            f = L3SendL2Now le f broadcast (MacAddress f) MAC_PROTO_IPV4 (beacon_packet le f);
            arp = \<lparr>HardwareType = Endian16 le ARP_HARDWARE_TYPE_ETHERNET,
                   ProtocolType = Endian16 le MAC_PROTO_IPV4, HardwareSize = 6, ProtocolSize = 4,
                   Operation = Endian16 le ARP_OPERATION_RESPONSE, SrcAddress = MacAddress f,
                   ARP_SrcIP = IpAddress f, TargetAddress = replicate 6 0xff, TargetIP = dest_ip\<rparr>;
            f = L3SendL2Now le f broadcast (MacAddress f) MAC_PROTO_ARPV4 (arp_bytes le arp)
        in f\<lparr>LastBeaconSent := now\<rparr>
      else f)"

text \<open>What the operations of an interface leave alone.\<close>

named_theorems if_frame

lemma SendL2_frame [if_frame]:
  "IpPacketQueue (L3SendL2Now le f d s pr data) = IpPacketQueue f"
  "IpWaitList (L3SendL2Now le f d s pr data) = IpWaitList f"
  "ArpTable (L3SendL2Now le f d s pr data) = ArpTable f"
  "ArpWaitTable (L3SendL2Now le f d s pr data) = ArpWaitTable f"
  "IpAddress (L3SendL2Now le f d s pr data) = IpAddress f"
  "SubnetMask (L3SendL2Now le f d s pr data) = SubnetMask f"
  "MacAddress (L3SendL2Now le f d s pr data) = MacAddress f"
  "HubName (L3SendL2Now le f d s pr data) = HubName f"
  by (simp_all add: L3SendL2Now_def Let_def)

lemma SendIpNow_frame [if_frame]:
  "IpPacketQueue (L3SendIpNow le f a p) = IpPacketQueue f"
  "IpWaitList (L3SendIpNow le f a p) = IpWaitList f"
  "ArpTable (L3SendIpNow le f a p) = ArpTable f"
  "ArpWaitTable (L3SendIpNow le f a p) = ArpWaitTable f"
  "IpAddress (L3SendIpNow le f a p) = IpAddress f"
  "SubnetMask (L3SendIpNow le f a p) = SubnetMask f"
  "MacAddress (L3SendIpNow le f a p) = MacAddress f"
  "HubName (L3SendIpNow le f a p) = HubName f"
  by (simp_all add: L3SendIpNow_def if_frame)

lemma SendArpRequest_frame [if_frame]:
  "IpPacketQueue (L3SendArpRequestNow le f ip) = IpPacketQueue f"
  "IpWaitList (L3SendArpRequestNow le f ip) = IpWaitList f"
  "ArpTable (L3SendArpRequestNow le f ip) = ArpTable f"
  "ArpWaitTable (L3SendArpRequestNow le f ip) = ArpWaitTable f"
  "IpAddress (L3SendArpRequestNow le f ip) = IpAddress f"
  "SubnetMask (L3SendArpRequestNow le f ip) = SubnetMask f"
  "MacAddress (L3SendArpRequestNow le f ip) = MacAddress f"
  by (simp_all add: L3SendArpRequestNow_def Let_def if_frame)

lemma SendArp_frame [if_frame]:
  "IpPacketQueue (L3SendArp now f ip) = IpPacketQueue f"
  "SendQueue (L3SendArp now f ip) = SendQueue f"
  "IpWaitList (L3SendArp now f ip) = IpWaitList f"
  "ArpTable (L3SendArp now f ip) = ArpTable f"
  "MacAddress (L3SendArp now f ip) = MacAddress f"
  by (simp_all add: L3SendArp_def Let_def split: prod.splits option.splits)

lemma SearchArp_frame [if_frame]:
  "IpPacketQueue (snd (L3SearchArpTable f ip)) = IpPacketQueue f"
  "SendQueue (snd (L3SearchArpTable f ip)) = SendQueue f"
  "IpWaitList (snd (L3SearchArpTable f ip)) = IpWaitList f"
  "ArpWaitTable (snd (L3SearchArpTable f ip)) = ArpWaitTable f"
  "IpAddress (snd (L3SearchArpTable f ip)) = IpAddress f"
  "SubnetMask (snd (L3SearchArpTable f ip)) = SubnetMask f"
  "MacAddress (snd (L3SearchArpTable f ip)) = MacAddress f"
  by (simp_all add: L3SearchArpTable_def Let_def split: prod.splits)

lemma SendIp_queue [if_frame]: "IpPacketQueue (L3SendIp le now f p) = IpPacketQueue f"
proof (cases "L3SearchArpTable f (NextHopIp p)")
  case (Pair a g)
  then have "IpPacketQueue g = IpPacketQueue f" using SearchArp_frame(1) [of f "NextHopIp p"] by simp
  with Pair show ?thesis by (simp add: L3SendIp_def Let_def if_frame split: option.splits)
qed

text \<open>The loop over the packets from other interfaces; sending one adds none to the queue.\<close>

function L3PollingIpQueue :: "bool \<Rightarrow> u64 \<Rightarrow> L3IF \<Rightarrow> L3IF" where
  "L3PollingIpQueue le now f =
     (case IpPacketQueue f of
        [] \<Rightarrow> f
      | p # ps \<Rightarrow> L3PollingIpQueue le now (L3SendIp le now (f\<lparr>IpPacketQueue := ps\<rparr>) p))"
  by pat_completeness auto
termination
  by (relation "measure (\<lambda>(le, now, f). length (IpPacketQueue f))") (auto simp: if_frame)

declare L3PollingIpQueue.simps [simp del]

definition L3Polling :: "bool \<Rightarrow> u64 \<Rightarrow> L3IF \<Rightarrow> L3IF" where
  "L3Polling le now f =
     (let f = L3PollingBeacon le now f;
          f = L3PollingIpQueue le now f;
          f = L3DeleteOldArpTable now f;
          f = L3PollingArpWaitTable le now f
      in L3DeleteOldIpWaitList now f)"

text \<open>A packet from another interface; waking the session that will poll is left out.\<close>

definition L3StoreIpPacketToIf :: "L3IF \<Rightarrow> L3PACKET \<Rightarrow> L3IF" where
  "L3StoreIpPacketToIf dst_if p = dst_if\<lparr>IpPacketQueue := IpPacketQueue dst_if @ [p]\<rparr>"

text \<open>
  The frame a session takes from the interface: 0 or a size, the frame, and the new state.
  The loop may poll again, so that it returns is proved.
\<close>

partial_function (option) L3GetNextPacket :: "bool \<Rightarrow> u64 \<Rightarrow> L3IF \<Rightarrow> (nat \<times> u8 list option \<times> L3IF) option" where
  "L3GetNextPacket le now f =
     (let (p, f) = (case SendQueue f of
            [] \<Rightarrow> (None, f)
          | p # ps \<Rightarrow> (Some p, f\<lparr>SendQueue := ps\<rparr>));
          ret = (case p of None \<Rightarrow> 0 | Some p \<Rightarrow> length p)
      in if ret = 0
         then let f = L3Polling le now f
              in if SendQueue f \<noteq> [] then L3GetNextPacket le now f else Some (ret, p, f)
         else Some (ret, p, f))"

end
