(* ===== verification/Layer3Arp.thy ===== *)
theory Layer3Arp
  imports Layer3If
begin

text \<open>
  What the operations of a layer-3 interface do: the ARP table as a finite map, the packets that
  leave when an address becomes known, the expiry of entries, queries and packets, and the
  invariant of an interface that lives through any sequence of its operations.
\<close>

section \<open>Views\<close>

definition arp_view :: "L3IF \<Rightarrow> u32 \<Rightarrow> L3ARPENTRY option" where
  "arp_view f ip = find (\<lambda>e. ARPENTRY_IpAddress e = ip) (items (ArpTable f))"

definition wait_view :: "L3IF \<Rightarrow> u32 \<Rightarrow> L3ARPWAIT option" where
  "wait_view f ip = find (\<lambda>w. ARPWAIT_IpAddress w = ip) (items (ArpWaitTable f))"

definition tables_ok :: "L3IF \<Rightarrow> bool" where
  "tables_ok f \<longleftrightarrow>
     (is_sorted (ArpTable f) \<longrightarrow> sorted (map ARPENTRY_IpAddress (items (ArpTable f)))) \<and>
     distinct (map ARPENTRY_IpAddress (items (ArpTable f))) \<and>
     (is_sorted (ArpWaitTable f) \<longrightarrow> sorted (map ARPWAIT_IpAddress (items (ArpWaitTable f)))) \<and>
     distinct (map ARPWAIT_IpAddress (items (ArpWaitTable f)))"

lemma tables_ok_iff:
  "tables_ok f = (arp_table.tbl_ok (ArpTable f) \<and> wait_table.tbl_ok (ArpWaitTable f))"
  by (auto simp: tables_ok_def arp_table.tbl_ok_def wait_table.tbl_ok_def arp_table.lst_ok_keys
      wait_table.lst_ok_keys)

lemma arp_view_eq: "arp_view f = arp_table.view (ArpTable f)"
  by (rule ext) (simp add: arp_view_def arp_table.view_def)

lemma wait_view_eq: "wait_view f = wait_table.view (ArpWaitTable f)"
  by (rule ext) (simp add: wait_view_def wait_table.view_def)

text \<open>What the parser promises of the packets the switch handles: a whole MAC header.\<close>

definition packet_ok :: "PKT \<Rightarrow> bool" where
  "packet_ok p \<longleftrightarrow> 14 \<le> length (PacketData p) \<and> L3_at p = Some 14 \<and> MacAddressSrc_at p = 6"

lemma packet_okD:
  assumes "packet_ok p"
  shows "14 \<le> length (PacketData p)" and "length (MacAddressSrc p) = 6" and "PointerL3 p = drop 14 (PacketData p)"
  using assms by (auto simp: packet_ok_def MacAddressSrc_def PointerL3_def)

text \<open>The frame a waiting packet leaves in: the packet behind new MAC addresses.\<close>

definition ip_frame :: "u8 list \<Rightarrow> u8 list \<Rightarrow> L3PACKET \<Rightarrow> u8 list" where
  "ip_frame dest src p = dest @ src @ drop 12 (PacketData (Packet p))"

lemma SendIpNow_eq:
  assumes "packet_ok (Packet p)"
  shows "L3SendIpNow le f a p = f\<lparr>SendQueue := SendQueue f @
    [ip_frame (case a of Some a \<Rightarrow> ARPENTRY_MacAddress a | None \<Rightarrow> broadcast) (MacAddress f) p]\<rparr>"
proof -
  let ?d = "PacketData (Packet p)"
  have "drop 2 (drop 12 ?d) = drop 14 ?d" by simp
  then have "drop 12 ?d = take 2 (drop 12 ?d) @ drop 14 ?d" by (metis append_take_drop_id)
  moreover have "mem16 le (of_mem16 le (take 2 (drop 12 ?d))) = take 2 (drop 12 ?d)"
    using packet_okD(1) [OF assms] by (simp add: mem_of_mem)
  ultimately show ?thesis
    by (simp add: L3SendIpNow_def L3SendL2Now_def Let_def MacHeader_Protocol_def packet_okD [OF assms] ip_frame_def)
qed

section \<open>Learning an address\<close>

lemma send_waiting_fold:
  assumes "\<forall>p \<in> set ps. packet_ok (Packet p)"
  shows "fold (send_waiting_step le a) ps f =
    f\<lparr>IpWaitList := delete_each ps (IpWaitList f),
      SendQueue := SendQueue f @ map (ip_frame (ARPENTRY_MacAddress a) (MacAddress f)) ps\<rparr>"
  using assms
proof (induction ps arbitrary: f)
  case Nil
  then show ?case by (simp add: delete_each_def)
next
  case (Cons p ps)
  then show ?case
    by (simp add: send_waiting_step_def SendIpNow_eq Let_def delete_each_def)
qed

definition packets_ok :: "L3IF \<Rightarrow> bool" where
  "packets_ok f \<longleftrightarrow> (\<forall>p \<in> set (items (IpWaitList f)) \<union> set (IpPacketQueue f). packet_ok (Packet p))"

lemma SendWaitingIp_eq:
  assumes "packets_ok f"
  shows "L3SendWaitingIp le f mac ip a =
    f\<lparr>IpWaitList := (IpWaitList f)\<lparr>items := filter (\<lambda>p. NextHopIp p \<noteq> ip) (items (IpWaitList f))\<rparr>,
      SendQueue := SendQueue f @ map (ip_frame (ARPENTRY_MacAddress a) (MacAddress f))
        (filter (\<lambda>p. NextHopIp p = ip) (items (IpWaitList f)))\<rparr>"
proof -
  let ?o = "filter (\<lambda>p. NextHopIp p = ip) (items (IpWaitList f))"
  have "\<forall>p \<in> set ?o. packet_ok (Packet p)"
    using assms by (auto simp: packets_ok_def)
  from send_waiting_fold [OF this] show ?thesis
    by (simp add: L3SendWaitingIp_def Let_def delete_each_filter)
qed

text \<open>The entry of an address that was just heard of.\<close>

definition learned :: "u64 \<Rightarrow> L3IF \<Rightarrow> u32 \<Rightarrow> u8 list \<Rightarrow> L3ARPENTRY" where
  "learned now f ip mac =
     (case arp_view f ip of
        Some a \<Rightarrow> a\<lparr>ARPENTRY_Expire := now + ARP_ENTRY_EXPIRES\<rparr>
      | None \<Rightarrow> \<lparr>ARPENTRY_IpAddress = ip, ARPENTRY_MacAddress = mac, ARPENTRY_Expire = now + ARP_ENTRY_EXPIRES\<rparr>)"

lemma InsertArpTable_spec:
  assumes t: "tables_ok f" and pk: "packets_ok f" and ip: "ip \<noteq> 0" "ip \<noteq> 0xffffffff"
    and f': "f' = L3InsertArpTable le now f ip mac"
  shows "\<exists>l. arp_table.tbl_ok l \<and> arp_table.view l = (arp_view f)(ip \<mapsto> learned now f ip mac) \<and>
    f' = f\<lparr>ArpTable := l,
           IpWaitList := (IpWaitList f)\<lparr>items := filter (\<lambda>p. NextHopIp p \<noteq> ip) (items (IpWaitList f))\<rparr>,
           SendQueue := SendQueue f @
             map (ip_frame (ARPENTRY_MacAddress (learned now f ip mac)) (MacAddress f))
               (filter (\<lambda>p. NextHopIp p = ip) (items (IpWaitList f)))\<rparr>"
proof -
  have ok: "arp_table.tbl_ok (ArpTable f)" using t by (simp add: tables_ok_iff)
  obtain found l where s: "lst_search (Some CmpL3ArpEntry) (ArpTable f) (arp_key ip) = (found, l)"
    by fastforce
  from arp_table.tbl_search [OF ok s]
  have s': "found = arp_view f ip" "arp_table.tbl_ok l" "arp_table.view l = arp_view f"
    by (simp_all add: arp_view_eq arp_key_def)
  define a l1 where "a = (case found of Some a \<Rightarrow> a | None \<Rightarrow> (arp_key ip)\<lparr>ARPENTRY_MacAddress := mac\<rparr>)"
    and "l1 = (case found of Some a \<Rightarrow> l | None \<Rightarrow> lst_insert (Some CmpL3ArpEntry) l a)"
  have key: "ARPENTRY_IpAddress a = ip"
    using s' ok by (auto simp: a_def arp_key_def arp_table.view_Some arp_view_eq split: option.splits)
  have l1: "arp_table.tbl_ok l1 \<and> arp_table.view l1 = (arp_view f)(ip \<mapsto> a)"
  proof (cases found)
    case None
    then have "arp_table.view l (ARPENTRY_IpAddress a) = None" using s' key by simp
    from arp_table.tbl_insert [OF s'(2) this] show ?thesis using None key s' by (simp add: l1_def)
  next
    case (Some b)
    then show ?thesis using s' by (auto simp: l1_def a_def)
  qed
  have e: "learned now f ip mac = a\<lparr>ARPENTRY_Expire := now + ARP_ENTRY_EXPIRES\<rparr>"
    using s'(1) by (auto simp: learned_def a_def arp_key_def split: option.splits)
  define l2 where "l2 = l1\<lparr>items := replace_first a (learned now f ip mac) (items l1)\<rparr>"
  have l2: "arp_table.tbl_ok l2 \<and> arp_table.view l2 = (arp_view f)(ip \<mapsto> learned now f ip mac)"
    using arp_table.tbl_replace [of l1 a "learned now f ip mac"] l1 key e by (simp add: l2_def)
  have "f' = L3SendWaitingIp le (f\<lparr>ArpTable := l2\<rparr>) mac ip (learned now f ip mac)"
    unfolding f' L3InsertArpTable_def
    using ip s e by (cases found) (simp_all add: Let_def l2_def l1_def a_def)
  moreover have "packets_ok (f\<lparr>ArpTable := l2\<rparr>)" using pk by (simp add: packets_ok_def)
  ultimately show ?thesis using l2 by (intro exI [of _ l2]) (simp add: SendWaitingIp_eq)
qed

lemma KnownArp_eq:
  "L3KnownArp le now f ip mac =
    (if ip = 0 \<or> ip = 0xffffffff \<or> IpAddress f AND SubnetMask f \<noteq> ip AND SubnetMask f then f
     else L3InsertArpTable le now f ip mac)"
  by (simp add: L3KnownArp_def lst_search_def)

lemma send_waiting_frame:
  "HubName (fold (send_waiting_step le a) ps f) = HubName f"
  "IpAddress (fold (send_waiting_step le a) ps f) = IpAddress f"
  "SubnetMask (fold (send_waiting_step le a) ps f) = SubnetMask f"
  "MacAddress (fold (send_waiting_step le a) ps f) = MacAddress f"
  "IpPacketQueue (fold (send_waiting_step le a) ps f) = IpPacketQueue f"
  "ArpWaitTable (fold (send_waiting_step le a) ps f) = ArpWaitTable f"
  by (induction ps arbitrary: f) (simp_all add: send_waiting_step_def Let_def if_frame)

text \<open>Nothing is ever taken from the table of pending queries when an address becomes known.\<close>

lemma KnownArp_frame:
  "HubName (L3KnownArp le now f ip mac) = HubName f"
  "IpAddress (L3KnownArp le now f ip mac) = IpAddress f"
  "SubnetMask (L3KnownArp le now f ip mac) = SubnetMask f"
  "MacAddress (L3KnownArp le now f ip mac) = MacAddress f"
  "IpPacketQueue (L3KnownArp le now f ip mac) = IpPacketQueue f"
  by (simp_all add: KnownArp_eq L3InsertArpTable_def L3SendWaitingIp_def Let_def send_waiting_frame split: prod.splits)

lemma KnownArp_keeps_queries: "ArpWaitTable (L3KnownArp le now f ip mac) = ArpWaitTable f"
  by (simp add: KnownArp_eq L3InsertArpTable_def L3SendWaitingIp_def Let_def send_waiting_frame split: prod.splits)

section \<open>Sending a packet\<close>

lemma SearchArpTable_spec:
  assumes "tables_ok f" and "L3SearchArpTable f ip = (a, g)"
  shows "a = (if ip = 0 \<or> ip = 0xffffffff then None else arp_view f ip) \<and>
    (\<exists>l. g = f\<lparr>ArpTable := l\<rparr> \<and> arp_table.tbl_ok l \<and> arp_table.view l = arp_view f
      \<and> mset (items l) = mset (items (ArpTable f)))"
proof (cases "ip = 0 \<or> ip = 0xffffffff")
  case True
  then show ?thesis
    using assms by (auto simp: L3SearchArpTable_def arp_view_eq tables_ok_iff intro!: exI [of _ "ArpTable f"])
next
  case False
  obtain e l where s: "lst_search (Some CmpL3ArpEntry) (ArpTable f) (arp_key ip) = (e, l)" by fastforce
  have "arp_table.tbl_ok (ArpTable f)" using assms(1) by (simp add: tables_ok_iff)
  from arp_table.tbl_search [OF this s] show ?thesis
    using assms(2) False s by (auto simp: L3SearchArpTable_def arp_view_eq arp_key_def)
qed

lemma SendArp_spec:
  assumes "wait_table.tbl_ok (ArpWaitTable f)"
  shows "\<exists>l. L3SendArp now f ip = f\<lparr>ArpWaitTable := l\<rparr> \<and> wait_table.tbl_ok l \<and>
    wait_table.view l =
      (if ip = 0 \<or> ip = 0xffffffff \<or> wait_view f ip \<noteq> None then wait_view f
       else (wait_view f)(ip \<mapsto>
         \<lparr>ARPWAIT_IpAddress = ip, LastSentTime = 0, ARPWAIT_Expire = now + ARP_REQUEST_GIVEUP\<rparr>))"
proof (cases "ip = 0 \<or> ip = 0xffffffff")
  case True
  then show ?thesis
    using assms by (auto simp: L3SendArp_def wait_view_eq intro!: exI [of _ "ArpWaitTable f"])
next
  case False
  obtain w l where s: "lst_search (Some CmpL3ArpWaitTable) (ArpWaitTable f) (wait_key ip) = (w, l)"
    by fastforce
  from wait_table.tbl_search [OF assms s]
  have s': "w = wait_view f ip" "wait_table.tbl_ok l" "wait_table.view l = wait_view f"
    by (simp_all add: wait_view_eq wait_key_def)
  show ?thesis
  proof (cases w)
    case None
    let ?w = "\<lparr>ARPWAIT_IpAddress = ip, LastSentTime = 0, ARPWAIT_Expire = now + ARP_REQUEST_GIVEUP\<rparr>"
    have "wait_table.view l (ARPWAIT_IpAddress ?w) = None" using None s' by simp
    from wait_table.tbl_insert [OF s'(2) this] show ?thesis
      using False None s s' by (auto simp: L3SendArp_def wait_key_def)
  next
    case (Some x)
    then show ?thesis using False s s' by (auto simp: L3SendArp_def)
  qed
qed

lemma SendIp_direct:
  assumes "TypeL3 (Packet p) = L3_IPV4" and "packet_ok (Packet p)"
    and "is_broadcast f (NextHopIp p) \<or> IPv4_DstIP le (Packet p) = IpAddress f"
  shows "L3SendIp le now f p = f\<lparr>SendQueue := SendQueue f @ [ip_frame broadcast (MacAddress f) p]\<rparr>"
  using assms by (simp add: L3SendIp_def SendIpNow_eq)

lemma SendIp_known:
  assumes "TypeL3 (Packet p) = L3_IPV4" and "packet_ok (Packet p)"
    and "\<not> is_broadcast f (NextHopIp p)" and "IPv4_DstIP le (Packet p) \<noteq> IpAddress f"
    and "tables_ok f" and "NextHopIp p \<noteq> 0" and "arp_view f (NextHopIp p) = Some a"
  shows "\<exists>l. arp_table.tbl_ok l \<and> arp_table.view l = arp_view f \<and> L3SendIp le now f p =
    f\<lparr>ArpTable := l, SendQueue := SendQueue f @ [ip_frame (ARPENTRY_MacAddress a) (MacAddress f) p]\<rparr>"
proof -
  obtain b g where s: "L3SearchArpTable f (NextHopIp p) = (b, g)" by fastforce
  have "NextHopIp p \<noteq> 0xffffffff" using assms(3) by (auto simp: is_broadcast_def)
  with SearchArpTable_spec [OF assms(5) s] assms show ?thesis
    using s by (auto simp: L3SendIp_def SendIpNow_eq)
qed

lemma SendIp_unknown:
  assumes "TypeL3 (Packet p) = L3_IPV4"
    and "\<not> is_broadcast f (NextHopIp p)" and "IPv4_DstIP le (Packet p) \<noteq> IpAddress f"
    and "tables_ok f" and "NextHopIp p = 0 \<or> arp_view f (NextHopIp p) = None"
  shows "\<exists>l l2. arp_table.tbl_ok l \<and> arp_table.view l = arp_view f \<and> wait_table.tbl_ok l2 \<and>
    wait_table.view l2 =
      (if NextHopIp p = 0 \<or> wait_view f (NextHopIp p) \<noteq> None then wait_view f
       else (wait_view f)(NextHopIp p \<mapsto> \<lparr>ARPWAIT_IpAddress = NextHopIp p, LastSentTime = 0,
          ARPWAIT_Expire = now + ARP_REQUEST_GIVEUP\<rparr>)) \<and>
    L3SendIp le now f p = f\<lparr>ArpTable := l, ArpWaitTable := l2, IpWaitList :=
      lst_add (IpWaitList f) (p\<lparr>PACKET_Expire := now + IP_WAIT_FOR_ARP_TIMEOUT\<rparr>)\<rparr>"
proof -
  obtain b g where s: "L3SearchArpTable f (NextHopIp p) = (b, g)" by fastforce
  have hop: "NextHopIp p \<noteq> 0xffffffff" using assms(2) by (auto simp: is_broadcast_def)
  from SearchArpTable_spec [OF assms(4) s] obtain l where l: "b = None" "g = f\<lparr>ArpTable := l\<rparr>"
    "arp_table.tbl_ok l" "arp_table.view l = arp_view f" using assms(5) hop by auto
  define h where "h = g\<lparr>IpWaitList := lst_insert None (IpWaitList g) (p\<lparr>PACKET_Expire := now + IP_WAIT_FOR_ARP_TIMEOUT\<rparr>)\<rparr>"
  have w: "wait_table.tbl_ok (ArpWaitTable h)" "wait_view h = wait_view f"
    using assms(4) l by (simp_all add: h_def tables_ok_iff wait_view_eq)
  from SendArp_spec [OF w(1), of now "NextHopIp p"] obtain l2 where l2:
    "L3SendArp now h (NextHopIp p) = h\<lparr>ArpWaitTable := l2\<rparr>" "wait_table.tbl_ok l2"
    "wait_table.view l2 = (if NextHopIp p = 0 \<or> wait_view f (NextHopIp p) \<noteq> None then wait_view f
       else (wait_view f)(NextHopIp p \<mapsto> \<lparr>ARPWAIT_IpAddress = NextHopIp p, LastSentTime = 0,
          ARPWAIT_Expire = now + ARP_REQUEST_GIVEUP\<rparr>))"
    using hop w(2) by auto
  have "L3SendIp le now f p = L3SendArp now h (NextHopIp p)"
    using assms(1-3) s l(1) by (simp add: L3SendIp_def h_def Let_def)
  then show ?thesis using l l2 by (intro exI [of _ l] exI [of _ l2]) (simp add: h_def lst_insert_def)
qed

section \<open>Expiry\<close>

definition arp_request_frame :: "bool \<Rightarrow> u8 list \<Rightarrow> u32 \<Rightarrow> u32 \<Rightarrow> u8 list" where
  "arp_request_frame le mac src ip =
     broadcast @ mac @ be16 MAC_PROTO_ARPV4 @ be16 1 @ be16 MAC_PROTO_IPV4 @ [6, 4] @ be16 1 @ mac @
     mem32 le src @ replicate 6 0 @ mem32 le ip"

lemma SendArpRequestNow_eq:
  "L3SendArpRequestNow le f ip =
    f\<lparr>SendQueue := SendQueue f @ [arp_request_frame le (MacAddress f) (IpAddress f) ip]\<rparr>"
  by (simp add: L3SendArpRequestNow_def L3SendL2Now_def Let_def arp_bytes_def arp_request_frame_def)

definition query_due :: "u64 \<Rightarrow> L3ARPWAIT \<Rightarrow> bool" where
  "query_due now w \<longleftrightarrow> now < ARPWAIT_Expire w \<and> LastSentTime w + ARP_REQUEST_TIMEOUT \<le> now"

definition query_sent :: "u64 \<Rightarrow> L3ARPWAIT \<Rightarrow> L3ARPWAIT" where
  "query_sent now w = (if query_due now w then w\<lparr>LastSentTime := now\<rparr> else w)"

lemma query_sent_simps [simp]:
  "ARPWAIT_IpAddress (query_sent now w) = ARPWAIT_IpAddress w"
  "ARPWAIT_Expire (query_sent now w) = ARPWAIT_Expire w"
  by (simp_all add: query_sent_def)

lemma arp_wait_loop_eq:
  "arp_wait_loop le now f ws =
    (f\<lparr>SendQueue := SendQueue f @ map (\<lambda>w. arp_request_frame le (MacAddress f) (IpAddress f) (ARPWAIT_IpAddress w))
         (filter (query_due now) ws)\<rparr>,
     map (query_sent now) ws, filter (\<lambda>w. ARPWAIT_Expire w \<le> now) ws)"
  by (induction ws arbitrary: f)
    (auto simp: Let_def SendArpRequestNow_eq query_sent_def query_due_def not_le)

lemma query_sent_expired:
  "filter (\<lambda>w. ARPWAIT_Expire w \<le> now) (map (query_sent now) ws) = filter (\<lambda>w. ARPWAIT_Expire w \<le> now) ws"
  by (induction ws) (auto simp: query_sent_def query_due_def)

lemma PollingArpWaitTable_eq:
  "L3PollingArpWaitTable le now f =
    f\<lparr>SendQueue := SendQueue f @ map (\<lambda>w. arp_request_frame le (MacAddress f) (IpAddress f) (ARPWAIT_IpAddress w))
         (filter (query_due now) (items (ArpWaitTable f))),
      ArpWaitTable := (ArpWaitTable f)\<lparr>items :=
         map (query_sent now) (filter (\<lambda>w. now < ARPWAIT_Expire w) (items (ArpWaitTable f)))\<rparr>\<rparr>"
proof -
  let ?ws = "items (ArpWaitTable f)"
  define l where "l = (ArpWaitTable f)\<lparr>items := map (query_sent now) ?ws\<rparr>"
  have "filter (\<lambda>w. ARPWAIT_Expire w \<le> now) ?ws = filter (\<lambda>w. ARPWAIT_Expire w \<le> now) (items l)"
    by (simp add: l_def query_sent_expired)
  then show ?thesis
    by (simp add: L3PollingArpWaitTable_def arp_wait_loop_eq Let_def l_def [symmetric] delete_each_filter)
      (simp add: l_def filter_map comp_def not_le)
qed

lemma DeleteOldArpTable_eq:
  "L3DeleteOldArpTable now f =
    (if LastDeleteOldArpTable f + ARP_ENTRY_POLLING_TIME > now then f
     else f\<lparr>LastDeleteOldArpTable := now, ArpTable := (ArpTable f)\<lparr>items :=
       filter (\<lambda>a. now < ARPENTRY_Expire a) (items (ArpTable f))\<rparr>\<rparr>)"
  by (simp add: L3DeleteOldArpTable_def Let_def delete_each_filter not_le)

lemma DeleteOldIpWaitList_eq:
  "L3DeleteOldIpWaitList now f =
    f\<lparr>IpWaitList := (IpWaitList f)\<lparr>items := filter (\<lambda>p. now < PACKET_Expire p) (items (IpWaitList f))\<rparr>\<rparr>"
  by (simp add: L3DeleteOldIpWaitList_def Let_def delete_each_filter not_le)

definition beacon_arp :: "bool \<Rightarrow> L3IF \<Rightarrow> u8 list" where
  "beacon_arp le f =
     be16 1 @ be16 MAC_PROTO_IPV4 @ [6, 4] @ be16 2 @ MacAddress f @ mem32 le (IpAddress f) @
     replicate 6 0xff @ mem32 le ((IpAddress f AND SubnetMask f) OR NOT (SubnetMask f))"

lemma PollingBeacon_eq:
  "L3PollingBeacon le now f =
    (if LastBeaconSent f = 0 \<or> LastBeaconSent f + BEACON_SEND_INTERVAL \<le> now
     then f\<lparr>SendQueue := SendQueue f @
         [broadcast @ MacAddress f @ be16 MAC_PROTO_IPV4 @ beacon_packet le f,
          broadcast @ MacAddress f @ be16 MAC_PROTO_ARPV4 @ beacon_arp le f],
       LastBeaconSent := now\<rparr>
     else f)"
  by (simp add: L3PollingBeacon_def L3SendL2Now_def Let_def arp_bytes_def beacon_arp_def)

section \<open>The invariant of an interface\<close>

definition frames_ok :: "L3IF \<Rightarrow> bool" where
  "frames_ok f \<longleftrightarrow> length (MacAddress f) = 6 \<and> (\<forall>d \<in> set (SendQueue f). 14 \<le> length d)"

definition arp_ok :: "L3IF \<Rightarrow> bool" where
  "arp_ok f \<longleftrightarrow> (\<forall>ip e. arp_view f ip = Some e \<longrightarrow>
     ip \<noteq> 0 \<and> ip \<noteq> 0xffffffff \<and> ip AND SubnetMask f = IpAddress f AND SubnetMask f \<and>
     length (ARPENTRY_MacAddress e) = 6)"

definition nothing_stuck :: "L3IF \<Rightarrow> bool" where
  "nothing_stuck f \<longleftrightarrow> (\<forall>p \<in> set (items (IpWaitList f)). arp_view f (NextHopIp p) = None)"

definition if_inv :: "L3IF \<Rightarrow> bool" where
  "if_inv f \<longleftrightarrow> tables_ok f \<and> packets_ok f \<and> frames_ok f \<and> arp_ok f \<and> nothing_stuck f"

lemma if_invI:
  assumes "if_inv f" and "arp_table.tbl_ok (ArpTable g)" and "wait_table.tbl_ok (ArpWaitTable g)"
    and "MacAddress g = MacAddress f" and "IpAddress g = IpAddress f" and "SubnetMask g = SubnetMask f"
    and "\<forall>d \<in> set (SendQueue g). d \<in> set (SendQueue f) \<or> 14 \<le> length d"
    and "\<forall>p \<in> set (items (IpWaitList g)) \<union> set (IpPacketQueue g). packet_ok (Packet p)"
    and "\<And>ip e. arp_view g ip = Some e \<Longrightarrow> arp_view f ip = Some e \<or>
      ip \<noteq> 0 \<and> ip \<noteq> 0xffffffff \<and> ip AND SubnetMask f = IpAddress f AND SubnetMask f \<and>
      length (ARPENTRY_MacAddress e) = 6"
    and "\<And>p. p \<in> set (items (IpWaitList g)) \<Longrightarrow> arp_view g (NextHopIp p) = None"
  shows "if_inv g"
  using assms unfolding if_inv_def tables_ok_iff packets_ok_def frames_ok_def arp_ok_def nothing_stuck_def
  by (metis (no_types, lifting))

lemma length_ip_frame:
  "length dest = 6 \<Longrightarrow> length src = 6 \<Longrightarrow> packet_ok (Packet p) \<Longrightarrow>
   14 \<le> length (ip_frame dest src p)"
  using packet_okD(1) [of "Packet p"] by (simp add: ip_frame_def)

lemma length_broadcast [simp]: "length broadcast = 6"
  by (simp add: broadcast_def)

lemma if_inv_mac: "if_inv f \<Longrightarrow> length (MacAddress f) = 6"
  by (simp add: if_inv_def frames_ok_def)

lemma if_inv_arp_mac: "if_inv f \<Longrightarrow> arp_view f ip = Some e \<Longrightarrow> length (ARPENTRY_MacAddress e) = 6"
  by (simp add: if_inv_def arp_ok_def)

lemma if_inv_packets:
  "if_inv f \<Longrightarrow> p \<in> set (items (IpWaitList f)) \<Longrightarrow> packet_ok (Packet p)"
  "if_inv f \<Longrightarrow> p \<in> set (IpPacketQueue f) \<Longrightarrow> packet_ok (Packet p)"
  by (auto simp: if_inv_def packets_ok_def)

lemma if_inv_stuck: "if_inv f \<Longrightarrow> p \<in> set (items (IpWaitList f)) \<Longrightarrow> arp_view f (NextHopIp p) = None"
  by (simp add: if_inv_def nothing_stuck_def)

lemma if_inv_tables: "if_inv f \<Longrightarrow> tables_ok f" "if_inv f \<Longrightarrow> packets_ok f"
    "if_inv f \<Longrightarrow> arp_table.tbl_ok (ArpTable f)" "if_inv f \<Longrightarrow> wait_table.tbl_ok (ArpWaitTable f)"
  by (simp_all add: if_inv_def tables_ok_iff)

lemma KnownArp_inv:
  assumes inv: "if_inv f" and mac: "length mac = 6"
  shows "if_inv (L3KnownArp le now f ip mac)"
proof (cases "ip = 0 \<or> ip = 0xffffffff \<or> IpAddress f AND SubnetMask f \<noteq> ip AND SubnetMask f")
  case True
  then show ?thesis using inv by (simp add: KnownArp_eq)
next
  case False
  let ?e = "learned now f ip mac"
  have e: "length (ARPENTRY_MacAddress ?e) = 6"
    using mac if_inv_arp_mac [OF inv, of ip] by (auto simp: learned_def split: option.splits)
  obtain l where l: "arp_table.tbl_ok l" "arp_table.view l = (arp_view f)(ip \<mapsto> ?e)"
    and eq: "L3KnownArp le now f ip mac = f\<lparr>ArpTable := l,
           IpWaitList := (IpWaitList f)\<lparr>items := filter (\<lambda>p. NextHopIp p \<noteq> ip) (items (IpWaitList f))\<rparr>,
           SendQueue := SendQueue f @ map (ip_frame (ARPENTRY_MacAddress ?e) (MacAddress f))
               (filter (\<lambda>p. NextHopIp p = ip) (items (IpWaitList f)))\<rparr>"
    using InsertArpTable_spec [OF if_inv_tables(1,2) [OF inv], of ip _ le now mac] False
    by (auto simp: KnownArp_eq)
  show ?thesis
  proof (rule if_invI [OF inv])
    show "arp_table.tbl_ok (ArpTable (L3KnownArp le now f ip mac))"
      "wait_table.tbl_ok (ArpWaitTable (L3KnownArp le now f ip mac))"
      using l if_inv_tables(4) [OF inv] by (simp_all add: eq)
    show "\<forall>d \<in> set (SendQueue (L3KnownArp le now f ip mac)). d \<in> set (SendQueue f) \<or> 14 \<le> length d"
      using if_inv_packets(1) [OF inv] if_inv_mac [OF inv] e by (auto simp: eq intro: length_ip_frame)
    show "\<forall>p \<in> set (items (IpWaitList (L3KnownArp le now f ip mac))) \<union>
        set (IpPacketQueue (L3KnownArp le now f ip mac)). packet_ok (Packet p)"
      using if_inv_packets [OF inv] by (auto simp: eq)
    show "arp_view f i = Some a \<or> i \<noteq> 0 \<and> i \<noteq> 0xffffffff \<and>
        i AND SubnetMask f = IpAddress f AND SubnetMask f \<and> length (ARPENTRY_MacAddress a) = 6"
      if "arp_view (L3KnownArp le now f ip mac) i = Some a" for i a
      using that l e False by (auto simp: eq arp_view_eq split: if_splits)
    show "arp_view (L3KnownArp le now f ip mac) (NextHopIp p) = None"
      if "p \<in> set (items (IpWaitList (L3KnownArp le now f ip mac)))" for p
      using that l if_inv_stuck [OF inv] by (auto simp: eq arp_view_eq)
  qed (simp_all add: eq)
qed

lemma set_frames_inv: "if_inv f \<Longrightarrow> \<forall>d \<in> set q. 14 \<le> length d \<Longrightarrow> if_inv (f\<lparr>SendQueue := q\<rparr>)"
  by (simp add: if_inv_def tables_ok_def packets_ok_def frames_ok_def arp_ok_def nothing_stuck_def arp_view_def)

lemma add_frame_inv:
  assumes "if_inv f" and "14 \<le> length d"
  shows "if_inv (f\<lparr>SendQueue := SendQueue f @ [d]\<rparr>)"
  using assms by (intro set_frames_inv) (auto simp: if_inv_def frames_ok_def)

lemma RecvArp_inv:
  assumes inv: "if_inv f" and len: "packet_ok p"
  shows "if_inv (L3RecvArp le now f p)"
proof -
  let ?a = "arp_header le (PointerL3 p)"
  have known: "if_inv (L3KnownArp le now f ip (SrcAddress ?a))" if "SrcAddress ?a = MacAddressSrc p" for ip
    using KnownArp_inv [OF inv] that len by (simp add: packet_okD)
  have "if_inv (L3SendArpResponseNow le g (SrcAddress ?a) ip s)"
    if "SrcAddress ?a = MacAddressSrc p" "if_inv g" for g ip s
    using that len add_frame_inv [OF that(2)] if_inv_mac [OF that(2)]
    by (simp add: L3SendArpResponseNow_def L3SendL2Now_def Let_def packet_okD)
  with known inv show ?thesis
    by (simp add: L3RecvArp_def L3RecvArpRequest_def L3RecvArpResponse_def Let_def)
qed

lemma RecvArp_frame:
  "HubName (L3RecvArp le now f p) = HubName f"
  "IpPacketQueue (L3RecvArp le now f p) = IpPacketQueue f"
  "IpAddress (L3RecvArp le now f p) = IpAddress f"
  "SubnetMask (L3RecvArp le now f p) = SubnetMask f"
  by (simp_all add: L3RecvArp_def L3RecvArpRequest_def L3RecvArpResponse_def L3SendArpResponseNow_def Let_def
      KnownArp_frame if_frame)

lemma SendIp_inv:
  assumes inv: "if_inv f" and len: "packet_ok (Packet p)"
  shows "if_inv (L3SendIp le now f p)"
proof -
  note t = if_inv_tables(1) [OF inv]
  consider (other) "TypeL3 (Packet p) \<noteq> L3_IPV4"
    | (direct) "TypeL3 (Packet p) = L3_IPV4"
        "is_broadcast f (NextHopIp p) \<or> IPv4_DstIP le (Packet p) = IpAddress f"
    | (known) a where "TypeL3 (Packet p) = L3_IPV4" "\<not> is_broadcast f (NextHopIp p)"
        "IPv4_DstIP le (Packet p) \<noteq> IpAddress f" "NextHopIp p \<noteq> 0" "arp_view f (NextHopIp p) = Some a"
    | (unknown) "TypeL3 (Packet p) = L3_IPV4" "\<not> is_broadcast f (NextHopIp p)"
        "IPv4_DstIP le (Packet p) \<noteq> IpAddress f" "NextHopIp p = 0 \<or> arp_view f (NextHopIp p) = None"
    by blast
  then show ?thesis
  proof cases
    case other
    then show ?thesis using inv by (simp add: L3SendIp_def)
  next
    case direct
    then show ?thesis
      using add_frame_inv [OF inv] if_inv_mac [OF inv] len by (simp add: SendIp_direct length_ip_frame)
  next
    case known
    from SendIp_known [OF known(1) len known(2,3) t known(4,5), where now = now] obtain l where
      l: "arp_table.tbl_ok l" "arp_table.view l = arp_view f" and
      eq: "L3SendIp le now f p = f\<lparr>ArpTable := l, SendQueue := SendQueue f @ [ip_frame (ARPENTRY_MacAddress a) (MacAddress f) p]\<rparr>"
      by blast
    show ?thesis
      using l if_inv_tables [OF inv] if_inv_packets [OF inv] if_inv_mac [OF inv] if_inv_stuck [OF inv]
        if_inv_arp_mac [OF inv known(5)] len
      by (intro if_invI [OF inv]) (auto simp: eq arp_view_eq intro: length_ip_frame)
  next
    case unknown
    from SendIp_unknown [OF unknown(1-3) t unknown(4), of now] obtain l l2 where
      l: "arp_table.tbl_ok l" "arp_table.view l = arp_view f" "wait_table.tbl_ok l2" and
      eq: "L3SendIp le now f p = f\<lparr>ArpTable := l, ArpWaitTable := l2, IpWaitList :=
        lst_add (IpWaitList f) (p\<lparr>PACKET_Expire := now + IP_WAIT_FOR_ARP_TIMEOUT\<rparr>)\<rparr>"
      by blast
    have "arp_view f 0 = None" using inv by (auto simp: if_inv_def arp_ok_def intro: ccontr)
    then have "arp_view f (NextHopIp p) = None" using unknown(4) by metis
    then show ?thesis
      using l if_inv_packets [OF inv] if_inv_stuck [OF inv] len
      by (intro if_invI [OF inv]) (auto simp: eq arp_view_eq lst_add_def)
  qed
qed

lemma PollingIpQueue_inv: "if_inv f \<Longrightarrow> if_inv (L3PollingIpQueue le now f)"
proof (induction le now f rule: L3PollingIpQueue.induct)
  case (1 le now f)
  show ?case
  proof (cases "IpPacketQueue f")
    case Nil
    then show ?thesis using 1 by (simp add: L3PollingIpQueue.simps)
  next
    case (Cons p ps)
    then have "if_inv (f\<lparr>IpPacketQueue := ps\<rparr>)"
      using 1(2) by (auto simp: if_inv_def tables_ok_def packets_ok_def frames_ok_def arp_ok_def
          nothing_stuck_def arp_view_def)
    moreover have "packet_ok (Packet p)" using if_inv_packets(2) [OF 1(2)] Cons by simp
    ultimately have "if_inv (L3SendIp le now (f\<lparr>IpPacketQueue := ps\<rparr>) p)" by (rule SendIp_inv)
    then show ?thesis using 1(1) Cons by (simp add: L3PollingIpQueue.simps [of le now f])
  qed
qed

lemma PollingBeacon_inv: "if_inv f \<Longrightarrow> if_inv (L3PollingBeacon le now f)"
  by (auto simp: PollingBeacon_eq if_inv_def tables_ok_def packets_ok_def frames_ok_def arp_ok_def
      nothing_stuck_def arp_view_def)

lemma DeleteOldArpTable_inv:
  assumes inv: "if_inv f"
  shows "if_inv (L3DeleteOldArpTable now f)"
proof (cases "LastDeleteOldArpTable f + ARP_ENTRY_POLLING_TIME > now")
  case True
  then show ?thesis using inv by (simp add: DeleteOldArpTable_eq)
next
  case False
  define l where "l = (ArpTable f)\<lparr>items := filter (\<lambda>a. now < ARPENTRY_Expire a) (items (ArpTable f))\<rparr>"
  have l: "arp_table.tbl_ok l" "arp_table.view l k = (case arp_view f k of
      Some x \<Rightarrow> if now < ARPENTRY_Expire x then Some x else None | None \<Rightarrow> None)" for k
    using arp_table.tbl_filter [OF if_inv_tables(3) [OF inv]] by (simp_all add: l_def arp_view_eq)
  have eq: "L3DeleteOldArpTable now f = f\<lparr>LastDeleteOldArpTable := now, ArpTable := l\<rparr>"
    using False by (simp add: DeleteOldArpTable_eq l_def)
  show ?thesis
    using l if_inv_tables [OF inv] if_inv_packets [OF inv] if_inv_stuck [OF inv]
    by (intro if_invI [OF inv]) (auto simp: eq arp_view_eq split: option.splits if_splits)
qed

lemma length_arp_request_frame: "length mac = 6 \<Longrightarrow> 14 \<le> length (arp_request_frame le mac src ip)"
  by (simp add: arp_request_frame_def)

lemma PollingArpWaitTable_inv:
  assumes inv: "if_inv f"
  shows "if_inv (L3PollingArpWaitTable le now f)"
proof -
  let ?l = "(ArpWaitTable f)\<lparr>items := filter (\<lambda>w. now < ARPWAIT_Expire w) (items (ArpWaitTable f))\<rparr>"
  have "wait_table.tbl_ok ?l"
    using wait_table.tbl_filter [OF if_inv_tables(4) [OF inv]] by blast
  then have "wait_table.tbl_ok (ArpWaitTable (L3PollingArpWaitTable le now f))"
    by (simp add: PollingArpWaitTable_eq wait_table.tbl_ok_def wait_table.lst_ok_keys comp_def)
  then show ?thesis
    using if_inv_tables [OF inv] if_inv_packets [OF inv] if_inv_stuck [OF inv] if_inv_mac [OF inv]
    by (intro if_invI [OF inv])
      (auto simp: PollingArpWaitTable_eq arp_view_eq intro: length_arp_request_frame)
qed

lemma DeleteOldIpWaitList_inv: "if_inv f \<Longrightarrow> if_inv (L3DeleteOldIpWaitList now f)"
  by (auto simp: DeleteOldIpWaitList_eq if_inv_def tables_ok_def packets_ok_def frames_ok_def arp_ok_def
      nothing_stuck_def arp_view_def)

lemma Polling_inv: "if_inv f \<Longrightarrow> if_inv (L3Polling le now f)"
  by (simp add: L3Polling_def Let_def PollingBeacon_inv PollingIpQueue_inv DeleteOldArpTable_inv
      PollingArpWaitTable_inv DeleteOldIpWaitList_inv)

text \<open>What is left after polling.\<close>

lemma PollingIpQueue_empty: "IpPacketQueue (L3PollingIpQueue le now f) = []"
proof (induction le now f rule: L3PollingIpQueue.induct)
  case (1 le now f)
  then show ?case by (cases "IpPacketQueue f") (simp_all add: L3PollingIpQueue.simps [of le now f])
qed

lemma Polling_leaves:
  "IpPacketQueue (L3Polling le now f) = []"
  "\<forall>w \<in> set (items (ArpWaitTable (L3Polling le now f))). now < ARPWAIT_Expire w"
  "\<forall>p \<in> set (items (IpWaitList (L3Polling le now f))). now < PACKET_Expire p"
  by (auto simp: L3Polling_def Let_def DeleteOldIpWaitList_eq PollingArpWaitTable_eq
      DeleteOldArpTable_eq PollingIpQueue_empty)

section \<open>Taking frames\<close>

definition take_frame :: "L3IF \<Rightarrow> nat \<times> u8 list option \<times> L3IF" where
  "take_frame f =
     (case SendQueue f of
        [] \<Rightarrow> (0, None, f)
      | d # ds \<Rightarrow> (length d, Some d, f\<lparr>SendQueue := ds\<rparr>))"

lemma GetNextPacket_ready:
  "SendQueue f = d # ds \<Longrightarrow> d \<noteq> [] \<Longrightarrow> L3GetNextPacket le now f = Some (take_frame f)"
  by (subst L3GetNextPacket.simps) (simp add: take_frame_def)

lemma GetNextPacket_eq:
  assumes "if_inv f"
  shows "L3GetNextPacket le now f =
    Some (take_frame (if SendQueue f = [] then L3Polling le now f else f))"
proof (cases "SendQueue f")
  case (Cons d ds)
  then have "14 \<le> length d" using assms by (simp add: if_inv_def frames_ok_def)
  then have "d \<noteq> []" by auto
  then show ?thesis using Cons GetNextPacket_ready by simp
next
  case Nil
  let ?g = "L3Polling le now f"
  show ?thesis
  proof (cases "SendQueue ?g")
    case Nil
    then show ?thesis using \<open>SendQueue f = []\<close>
      by (subst L3GetNextPacket.simps) (simp add: take_frame_def)
  next
    case (Cons d ds)
    have "if_inv ?g" using assms by (rule Polling_inv)
    then have "14 \<le> length d" using Cons by (simp add: if_inv_def frames_ok_def)
    then have "d \<noteq> []" by auto
    then have "L3GetNextPacket le now ?g = Some (take_frame ?g)" using Cons GetNextPacket_ready by simp
    then show ?thesis using \<open>SendQueue f = []\<close> Cons
      by (subst L3GetNextPacket.simps) simp
  qed
qed

lemma take_frame_inv: "if_inv f \<Longrightarrow> take_frame f = (n, d, g) \<Longrightarrow> if_inv g"
proof -
  assume inv: "if_inv f" and t: "take_frame f = (n, d, g)"
  have "if_inv (f\<lparr>SendQueue := tl (SendQueue f)\<rparr>)"
  proof (rule set_frames_inv [OF inv])
    show "\<forall>d \<in> set (tl (SendQueue f)). 14 \<le> length d"
      using inv by (cases "SendQueue f") (auto simp: if_inv_def frames_ok_def)
  qed
  then show "if_inv g" using inv t by (cases "SendQueue f") (auto simp: take_frame_def)
qed

section \<open>The life of an interface\<close>

text \<open>
  The operations of the switch on an interface: an ARP packet arrives, the sender of an IP packet
  is learned from it, a packet from another interface is stored, a session takes a frame.
\<close>

inductive if_step :: "bool \<Rightarrow> L3IF \<Rightarrow> L3IF \<Rightarrow> bool" for le where
  arp_arrives: "packet_ok p \<Longrightarrow> if_step le f (L3RecvArp le now f p)"
| sender_heard: "packet_ok p \<Longrightarrow>
    if_step le f (L3KnownArp le now f (IPv4_SrcIP le p) (MacAddressSrc p))"
| packet_stored: "packet_ok (Packet p) \<Longrightarrow> if_step le f (L3StoreIpPacketToIf f p)"
| frame_taken: "L3GetNextPacket le now f = Some (n, d, g) \<Longrightarrow> if_step le f g"

inductive if_reach :: "bool \<Rightarrow> L3IF \<Rightarrow> L3IF \<Rightarrow> bool" for le f0 where
  if_start: "if_reach le f0 f0"
| if_next: "if_reach le f0 f \<Longrightarrow> if_step le f g \<Longrightarrow> if_reach le f0 g"

inductive_cases if_stepE: "if_step le f g"

lemma step_inv: "if_step le f g \<Longrightarrow> if_inv f \<Longrightarrow> if_inv g"
proof (erule if_stepE, goal_cases)
  case (1 p now)
  then show ?case by (simp add: RecvArp_inv)
next
  case (2 p now)
  then show ?case by (simp add: KnownArp_inv packet_okD)
next
  case (3 p)
  then show ?case
    by (auto simp: L3StoreIpPacketToIf_def if_inv_def tables_ok_def packets_ok_def frames_ok_def arp_ok_def
      nothing_stuck_def arp_view_def)
next
  case (4 now n d)
  then have "take_frame (if SendQueue f = [] then L3Polling le now f else f) = (n, d, g)"
    by (simp add: GetNextPacket_eq)
  moreover have "if_inv (if SendQueue f = [] then L3Polling le now f else f)"
    using 4 by (simp add: Polling_inv)
  ultimately show ?case by (metis take_frame_inv)
qed

lemma reach_inv: "if_reach le f0 f \<Longrightarrow> if_inv f0 \<Longrightarrow> if_inv f"
  by (induction rule: if_reach.induct) (auto intro: step_inv)

lemma InitInterface_inv:
  assumes "length gen = 6" and "\<And>x. 4 \<le> length (sha1 x)"
  shows "if_inv (L3InitInterface sha1 gen le name f)"
  using assms
  by (simp add: L3InitInterface_def L3GenerateMacAddress_def Let_def if_inv_def tables_ok_def packets_ok_def
      frames_ok_def arp_ok_def nothing_stuck_def arp_view_def lst_new_def)

section \<open>Resolution\<close>

text \<open>A packet for an unknown neighbour leaves when the neighbour answers, after those before it.\<close>

lemma resolution_delivers:
  assumes inv: "if_inv f" and ip: "TypeL3 (Packet p) = L3_IPV4"
    and len: "packet_ok (Packet p)"
    and dst: "\<not> is_broadcast f (NextHopIp p)" "IPv4_DstIP le (Packet p) \<noteq> IpAddress f"
    and hop: "NextHopIp p \<noteq> 0" "NextHopIp p AND SubnetMask f = IpAddress f AND SubnetMask f"
    and unknown: "arp_view f (NextHopIp p) = None"
  shows "SendQueue (L3KnownArp le later (L3SendIp le now f p) (NextHopIp p) mac) =
    SendQueue f @ map (ip_frame mac (MacAddress f))
      (filter (\<lambda>q. NextHopIp q = NextHopIp p) (items (IpWaitList f)) @ [p])"
proof -
  let ?ip = "NextHopIp p" and ?p = "p\<lparr>PACKET_Expire := now + IP_WAIT_FOR_ARP_TIMEOUT\<rparr>"
  define g where "g = L3SendIp le now f p"
  obtain l l2 where v: "arp_table.view l = arp_view f" and g: "g = f\<lparr>ArpTable := l, ArpWaitTable := l2,
      IpWaitList := lst_add (IpWaitList f) ?p\<rparr>"
    using SendIp_unknown [OF ip dst if_inv_tables(1) [OF inv], of now] unknown unfolding g_def by blast
  have ginv: "if_inv g" unfolding g_def by (rule SendIp_inv [OF inv len])
  have bc: "?ip \<noteq> 0xffffffff" using dst(1) by (auto simp: is_broadcast_def)
  have view: "arp_view g ?ip = None" using v g unknown by (simp add: arp_view_eq)
  have same: "SubnetMask g = SubnetMask f" "IpAddress g = IpAddress f" "MacAddress g = MacAddress f"
    "SendQueue g = SendQueue f" "items (IpWaitList g) = items (IpWaitList f) @ [?p]"
    by (simp_all add: g lst_add_def)
  have "SendQueue (L3KnownArp le later g ?ip mac) = SendQueue g @
      map (ip_frame (ARPENTRY_MacAddress (learned later g ?ip mac)) (MacAddress g))
        (filter (\<lambda>q. NextHopIp q = ?ip) (items (IpWaitList g)))"
    using InsertArpTable_spec [OF if_inv_tables(1,2) [OF ginv] hop(1) bc refl, where le = le and now = later and mac = mac] hop bc same
    by (auto simp: KnownArp_eq)
  then show ?thesis
    using view by (simp add: g_def [symmetric] same learned_def ip_frame_def)
qed

section \<open>The beacon\<close>

lemma ip_bytes_checksum:
  "ip_bytes le (h\<lparr>IP_Checksum := c\<rparr>) =
    ([VersionAndHeaderLength h, TypeOfService h] @ mem16 le (TotalLength h) @ mem16 le (Identification h) @
     FlagsAndFlagmentOffset h @ [TimeToLive h, IP_Protocol h]) @ mem16 le c @
    mem32 le (IP_SrcIP h) @ mem32 le (IP_DstIP h)"
  by (simp add: ip_bytes_def)

lemma udp_bytes_checksum:
  "udp_bytes le (u\<lparr>UDP_Checksum := c\<rparr>) =
    (mem16 le (SrcPort u) @ mem16 le (DstPort u) @ mem16 le (PacketLength u)) @ mem16 le c"
  by (simp add: udp_bytes_def)

lemma mem16_zero [simp]: "mem16 le 0 = [0, 0]"
  by (simp add: mem16_def be16_def)

lemma ip_header_checks:
  assumes "length (FlagsAndFlagmentOffset h) = 2" and "unat (VersionAndHeaderLength h AND 0x0f) = 5"
    and "IP_Checksum h = 0"
  shows "IpCheckChecksum le (ip_bytes le (h\<lparr>IP_Checksum := IpChecksum le (ip_bytes le h)\<rparr>) @ rest)"
proof -
  let ?a = "[VersionAndHeaderLength h, TypeOfService h] @ mem16 le (TotalLength h) @
    mem16 le (Identification h) @ FlagsAndFlagmentOffset h @ [TimeToLive h, IP_Protocol h]"
  let ?b = "mem32 le (IP_SrcIP h) @ mem32 le (IP_DstIP h)"
  have "h = h\<lparr>IP_Checksum := 0\<rparr>" using assms(3) by simp
  then have z: "ip_bytes le h = ?a @ [0, 0] @ ?b" using ip_bytes_checksum [where le = le and h = h and c = 0] by simp
  have "IpCheckChecksum le (?a @ mem16 le (IpChecksum le (?a @ [0, 0] @ ?b)) @ ?b @ rest)"
    by (rule header_checks) (use assms in auto)
  then show ?thesis unfolding ip_bytes_checksum z by simp
qed

lemma udp_verifies:
  assumes "UDP_Checksum u = 0" and "length str < 30000" and "length str \<noteq> 0"
  shows "CalcChecksumForIPv4 le src dst pr (udp_bytes le (u\<lparr>UDP_Checksum :=
      CalcChecksumForIPv4 le src dst pr (udp_bytes le u @ str) 0\<rparr>) @ str) 0 = 0"
proof -
  let ?u = "mem16 le (SrcPort u) @ mem16 le (DstPort u) @ mem16 le (PacketLength u)"
  let ?p = "mem32 le src @ mem32 le dst @ [0, pr] @ mem16 le (Endian16 le (ucast (of_nat (8 + length str) :: u32)))"
  have "u = u\<lparr>UDP_Checksum := 0\<rparr>" using assms(1) by simp
  then have z: "udp_bytes le u = ?u @ [0, 0]" using udp_bytes_checksum [where le = le and u = u and c = 0] by simp
  have inf: "(of_nat (8 + length str) :: u32) \<noteq> 0xffffffff"
  proof
    assume "(of_nat (8 + length str) :: u32) = 0xffffffff"
    then have "unat (of_nat (8 + length str) :: u32) = 0xffffffff" by simp
    moreover have "unat (of_nat (8 + length str) :: u32) = 8 + length str"
      using assms(2) by (intro unat_of_nat32) simp
    ultimately show False using assms(2) by simp
  qed
  have c: "CalcChecksumForIPv4 le src dst pr (?u @ mem16 le w @ str) 0 = IpChecksum le ((?p @ ?u) @ mem16 le w @ str)" for w
    using inf by (simp add: CalcChecksumForIPv4_def Let_def)
  have "IpChecksum le ((?p @ ?u) @ mem16 le (IpChecksum le ((?p @ ?u) @ [0, 0] @ str)) @ str) = 0"
    using assms(2) by (intro checksum_verifies) simp_all
  then show ?thesis
    using c [of 0] c [of "IpChecksum le ((?p @ ?u) @ [0, 0] @ str)"]
    unfolding udp_bytes_checksum z by simp
qed

lemma beacon_verifies:
  "IpCheckChecksum le (beacon_packet le f)"
  "CalcChecksumForIPv4 le (IpAddress f) ((IpAddress f AND SubnetMask f) OR NOT (SubnetMask f)) 0x11
     (drop 20 (beacon_packet le f)) 0 = 0"
proof -
  show "IpCheckChecksum le (beacon_packet le f)"
    unfolding beacon_packet_def Let_def
    by (rule ip_header_checks) (simp_all add: IPV4_SET_VERSION_def IPV4_SET_HEADER_LEN_def)
  have d: "drop 20 (ip_bytes le (h\<lparr>IP_Checksum := c\<rparr>) @ r) = r"
    if "length (FlagsAndFlagmentOffset h) = 2" for h c r
    unfolding ip_bytes_checksum using that by simp
  have s: "length beacon_str < 30000" "length beacon_str \<noteq> 0" unfolding beacon_str_def ascii_def by simp_all
  show "CalcChecksumForIPv4 le (IpAddress f) ((IpAddress f AND SubnetMask f) OR NOT (SubnetMask f)) 0x11
     (drop 20 (beacon_packet le f)) 0 = 0"
    unfolding beacon_packet_def Let_def
    by (subst d, simp, rule udp_verifies) (simp_all add: s [simplified])
qed

end
