(* ===== verification/Layer3Switch.thy ===== *)
theory Layer3Switch
  imports Layer3Arp
begin

text \<open>
  The switch of src/src/Cedar/Layer3.c: its interfaces and routes, the choice of the interface and
  next hop of a packet, and the list of switches. Reference counts, locks and the threads are left
  out; of the thread that \<open>L3SwStart\<close> waits for, the flag it sets first is kept. The limits
  of the server (\<open>GetServerCapsInt\<close>) are arguments.
\<close>

record L3TABLE =
  TABLE_NetworkAddress :: u32
  TABLE_SubnetMask :: u32
  TABLE_GatewayAddress :: u32
  TABLE_Metric :: u32

record L3SW =
  SW_Name :: cstr
  SW_Active :: bool
  SW_Halt :: bool
  IfList :: "L3IF LST"
  TableList :: "L3TABLE LST"

abbreviation sizeof_HubName :: u32 where "sizeof_HubName \<equiv> 256"

definition CmpL3If :: "L3IF \<Rightarrow> L3IF \<Rightarrow> int" where
  "CmpL3If f1 f2 = StrCmpi (HubName f1) (HubName f2)"

definition CmpL3Sw :: "L3SW \<Rightarrow> L3SW \<Rightarrow> int" where
  "CmpL3Sw s1 s2 = StrCmpi (SW_Name s1) (SW_Name s2)"

definition CmpL3Table :: "L3TABLE \<Rightarrow> L3TABLE \<Rightarrow> int" where
  "CmpL3Table t1 t2 =
     (if TABLE_NetworkAddress t1 > TABLE_NetworkAddress t2 then 1
      else if TABLE_NetworkAddress t1 < TABLE_NetworkAddress t2 then -1
      else if TABLE_SubnetMask t1 > TABLE_SubnetMask t2 then 1
      else if TABLE_SubnetMask t1 < TABLE_SubnetMask t2 then -1
      else if TABLE_GatewayAddress t1 > TABLE_GatewayAddress t2 then 1
      else if TABLE_GatewayAddress t1 < TABLE_GatewayAddress t2 then -1
      else if TABLE_Metric t1 > TABLE_Metric t2 then 1
      else if TABLE_Metric t1 < TABLE_Metric t2 then -1
      else 0)"

text \<open>The orders the comparisons stand for: names without their case, routes field by field.\<close>

definition if_key :: "L3IF \<Rightarrow> int list" where
  "if_key f = upper_key (HubName f)"

definition sw_key :: "L3SW \<Rightarrow> int list" where
  "sw_key s = upper_key (SW_Name s)"

definition route_key :: "L3TABLE \<Rightarrow> u32 list" where
  "route_key t = [TABLE_NetworkAddress t, TABLE_SubnetMask t, TABLE_GatewayAddress t, TABLE_Metric t]"

interpretation if_list: keyed_table CmpL3If if_key
  by unfold_locales (simp add: CmpL3If_def if_key_def StrCmpi_key)

interpretation sw_list: keyed_table CmpL3Sw sw_key
  by unfold_locales (simp add: CmpL3Sw_def sw_key_def StrCmpi_key)

interpretation route_list: keyed_table CmpL3Table route_key
  by unfold_locales (auto simp: CmpL3Table_def route_key_def COMPARE_RET_def)

lemma route_key_inj: "(route_key t = route_key u) = (t = u)"
  by (auto simp: route_key_def intro: L3TABLE.equality)

section \<open>Configuration\<close>

definition NewL3Sw :: "cstr \<Rightarrow> L3SW" where
  "NewL3Sw name =
     \<lparr>SW_Name = fst (StrCpy sizeof_HubName name), SW_Active = False, SW_Halt = False,
      IfList = lst_new, TableList = lst_new\<rparr>"

text \<open>
  \<open>ZeroMalloc\<close>: the tables of an interface are null pointers until \<open>L3InitInterface\<close>
  creates them; no operation uses them before, and they are empty here.
\<close>

definition if_zero :: L3IF where
  "if_zero =
     \<lparr>HubName = [], IpAddress = 0, SubnetMask = 0, ArpTable = lst_new, ArpWaitTable = lst_new,
      IpPacketQueue = [], IpWaitList = lst_new, SendQueue = [], MacAddress = replicate 6 0,
      LastDeleteOldArpTable = 0, LastBeaconSent = 0\<rparr>"

definition L3SearchIf :: "L3SW \<Rightarrow> cstr \<Rightarrow> L3IF option \<times> L3SW" where
  "L3SearchIf s hubname =
     (let t = if_zero\<lparr>HubName := fst (StrCpy sizeof_HubName hubname)\<rparr>;
          (f, l) = lst_search (Some CmpL3If) (IfList s) t
      in (f, s\<lparr>IfList := l\<rparr>))"

text \<open>The limit on interfaces is compared with the number of routes, as the code does it.\<close>

definition L3AddIf :: "u32 \<Rightarrow> L3SW \<Rightarrow> cstr \<Rightarrow> u32 \<Rightarrow> u32 \<Rightarrow> bool \<times> L3SW" where
  "L3AddIf i_max_l3_if s hubname ip subnet =
     (if \<not> IsSafeStr hubname \<or> ip = 0 \<or> ip = 0xffffffff then (False, s)
      else if of_nat (length (items (TableList s))) \<ge> i_max_l3_if then (False, s)
      else if SW_Active s then (False, s)
      else
        let (found, s) = L3SearchIf s hubname
        in case found of
            Some f \<Rightarrow> (False, s)
          | None \<Rightarrow>
              let f = if_zero\<lparr>HubName := fst (StrCpy sizeof_HubName hubname), IpAddress := ip,
                         SubnetMask := subnet\<rparr>
              in (True, s\<lparr>IfList := lst_insert (Some CmpL3If) (IfList s) f\<rparr>))"

definition L3DelIf :: "L3SW \<Rightarrow> cstr \<Rightarrow> bool \<times> L3SW" where
  "L3DelIf s hubname =
     (if SW_Active s then (False, s)
      else
        let (found, s) = L3SearchIf s hubname
        in case found of
            None \<Rightarrow> (False, s)
          | Some f \<Rightarrow> (True, s\<lparr>IfList := snd (lst_delete (IfList s) f)\<rparr>))"

definition L3AddTable :: "u32 \<Rightarrow> L3SW \<Rightarrow> L3TABLE \<Rightarrow> bool \<times> L3SW" where
  "L3AddTable i_max_l3_table s tbl =
     (if TABLE_Metric tbl = 0 \<or> TABLE_GatewayAddress tbl = 0 \<or> TABLE_GatewayAddress tbl = 0xffffffff
      then (False, s)
      else if of_nat (length (items (TableList s))) \<ge> i_max_l3_table then (False, s)
      else if SW_Active s then (False, s)
      else
        let (found, l) = lst_search (Some CmpL3Table) (TableList s) tbl
        in if found = None
           then (True, s\<lparr>TableList := lst_insert (Some CmpL3Table) l tbl\<rparr>)
           else (False, s\<lparr>TableList := l\<rparr>))"

definition L3DelTable :: "L3SW \<Rightarrow> L3TABLE \<Rightarrow> bool \<times> L3SW" where
  "L3DelTable s tbl =
     (if SW_Active s then (False, s)
      else
        let (found, l) = lst_search (Some CmpL3Table) (TableList s) tbl
        in case found of
            None \<Rightarrow> (False, s\<lparr>TableList := l\<rparr>)
          | Some t \<Rightarrow> (True, s\<lparr>TableList := snd (lst_delete l t)\<rparr>))"

definition L3SwStart :: "L3SW \<Rightarrow> L3SW" where
  "L3SwStart s =
     (if \<not> SW_Active s \<and> length (items (IfList s)) \<ge> 1
      then s\<lparr>SW_Halt := False, SW_Active := True\<rparr> else s)"

definition L3SwStop :: "L3SW \<Rightarrow> L3SW" where
  "L3SwStop s = (if \<not> SW_Active s then s else s\<lparr>SW_Halt := True, SW_Active := False\<rparr>)"

text \<open>The list of switches of a server.\<close>

definition L3GetSw :: "L3SW LST \<Rightarrow> cstr \<Rightarrow> L3SW option \<times> L3SW LST" where
  "L3GetSw l name = lst_search (Some CmpL3Sw) l (NewL3Sw name)"

definition L3AddSw :: "L3SW LST \<Rightarrow> cstr \<Rightarrow> L3SW option \<times> L3SW LST" where
  "L3AddSw l name =
     (let (found, l) = L3GetSw l name
      in case found of
          None \<Rightarrow> let s = NewL3Sw name in (Some s, lst_insert (Some CmpL3Sw) l s)
        | Some s \<Rightarrow> (None, l))"

definition L3DelSw :: "L3SW LST \<Rightarrow> cstr \<Rightarrow> bool \<times> L3SW LST" where
  "L3DelSw l name =
     (let (found, l) = L3GetSw l name
      in case found of
          None \<Rightarrow> (False, l)
        | Some s \<Rightarrow>
            let l = l\<lparr>items := replace_first s (L3SwStop s) (items l)\<rparr>
            in (True, snd (lst_delete l (L3SwStop s))))"

section \<open>Routing\<close>

fun best_route_loop :: "u32 \<Rightarrow> L3TABLE list \<Rightarrow> u32 \<Rightarrow> u32 \<Rightarrow> L3TABLE option \<Rightarrow> L3TABLE option" where
  "best_route_loop ip [] max_mask min_metric ret = ret"
| "best_route_loop ip (t # ts) max_mask min_metric ret =
     (if TABLE_NetworkAddress t AND TABLE_SubnetMask t = ip AND TABLE_SubnetMask t
      then
        if TABLE_SubnetMask t \<ge> max_mask
        then
          if min_metric \<ge> TABLE_Metric t
          then best_route_loop ip ts (TABLE_SubnetMask t) (TABLE_Metric t) (Some t)
          else best_route_loop ip ts (TABLE_SubnetMask t) min_metric ret
        else best_route_loop ip ts max_mask min_metric ret
      else best_route_loop ip ts max_mask min_metric ret)"

definition L3GetBestRoute :: "L3SW \<Rightarrow> u32 \<Rightarrow> L3TABLE option" where
  "L3GetBestRoute s ip =
     (if ip = 0 then None else best_route_loop ip (items (TableList s)) 0 0xffffffff None)"

text \<open>The interface whose network holds an address: the first in the list.\<close>

definition in_network :: "u32 \<Rightarrow> L3IF \<Rightarrow> bool" where
  "in_network ip f \<longleftrightarrow> IpAddress f AND SubnetMask f = ip AND SubnetMask f"

definition L3GetNextIf :: "L3SW \<Rightarrow> u32 \<Rightarrow> (L3IF \<times> u32) option" where
  "L3GetNextIf s ip =
     (if ip = 0 \<or> ip = 0xffffffff then None
      else case find (in_network ip) (items (IfList s)) of
          Some f \<Rightarrow> Some (f, ip)
        | None \<Rightarrow>
            (case L3GetBestRoute s ip of
               None \<Rightarrow> None
             | Some t \<Rightarrow>
                 (case find (in_network (TABLE_GatewayAddress t)) (items (IfList s)) of
                    None \<Rightarrow> None
                  | Some f \<Rightarrow> Some (f, TABLE_GatewayAddress t))))"

section \<open>The chosen route\<close>

definition route_matches :: "u32 \<Rightarrow> L3TABLE \<Rightarrow> bool" where
  "route_matches ip t \<longleftrightarrow> TABLE_NetworkAddress t AND TABLE_SubnetMask t = ip AND TABLE_SubnetMask t"

lemma u32_max: "x \<le> (0xffffffff :: u32)"
proof -
  have "(0xffffffff :: u32) = - 1" by simp
  then show ?thesis by (simp only: word_order.extremum)
qed

lemma best_route_loop_member:
  "best_route_loop ip ts m k r = Some t \<Longrightarrow> r = Some t \<or> t \<in> set ts \<and> route_matches ip t"
  by (induction ip ts m k r rule: best_route_loop.induct)
    (auto simp: route_matches_def split: if_splits)

lemma best_route_loop_keeps: "best_route_loop ip ts m k (Some u) \<noteq> None"
proof -
  have "r \<noteq> None \<Longrightarrow> best_route_loop ip ts m k r \<noteq> None" for r
    by (induction ip ts m k r rule: best_route_loop.induct) auto
  then show ?thesis by blast
qed

lemma best_route_loop_none:
  "best_route_loop ip ts 0 0xffffffff None = None \<longleftrightarrow> (\<forall>t \<in> set ts. \<not> route_matches ip t)"
proof (induction ts)
  case (Cons t ts)
  have "(0 :: u32) \<le> TABLE_SubnetMask t" "TABLE_Metric t \<le> (0xffffffff :: u32)"
    by (simp_all only: u32_max word_coorder.extremum)
  then show ?case
    using Cons best_route_loop_keeps [of ip ts "TABLE_SubnetMask t" "TABLE_Metric t" t]
    by (auto simp: route_matches_def)
qed simp

text \<open>With one metric for all routes the longest mask wins, the last one among equals.\<close>

lemma best_route_loop_longest:
  assumes "\<forall>t \<in> set ts. TABLE_Metric t = k" and "k \<le> k0"
    and "r = None \<and> m = 0 \<or> (\<exists>u. r = Some u \<and> TABLE_SubnetMask u = m)"
    and "best_route_loop ip ts m k0 r = Some t"
  shows "m \<le> TABLE_SubnetMask t \<and>
    (\<forall>u \<in> set ts. route_matches ip u \<longrightarrow> TABLE_SubnetMask u \<le> TABLE_SubnetMask t)"
  using assms
proof (induction ts arbitrary: m k0 r)
  case Nil
  then show ?case by auto
next
  case (Cons a ts)
  have all: "\<forall>t \<in> set ts. TABLE_Metric t = k" and k: "TABLE_Metric a = k"
    using Cons.prems(1) by simp_all
  show ?case
  proof (cases "route_matches ip a \<and> m \<le> TABLE_SubnetMask a")
    case True
    then have "best_route_loop ip ts (TABLE_SubnetMask a) k (Some a) = Some t"
      using Cons.prems(2,4) k by (simp add: route_matches_def)
    from Cons.IH [OF all order_refl _ this] True show ?thesis by (auto intro: order_trans)
  next
    case False
    then have "best_route_loop ip ts m k0 r = Some t"
      using Cons.prems(4) by (auto simp: route_matches_def split: if_splits)
    from Cons.IH [OF all Cons.prems(2,3) this] False show ?thesis
      by (auto simp: not_le intro: order_trans less_imp_le)
  qed
qed

lemma BestRoute_longest:
  assumes "\<forall>t \<in> set (items (TableList s)). TABLE_Metric t = k" and "L3GetBestRoute s ip = Some t"
    and "u \<in> set (items (TableList s))" and "route_matches ip u"
  shows "TABLE_SubnetMask u \<le> TABLE_SubnetMask t"
proof -
  have "best_route_loop ip (items (TableList s)) 0 0xffffffff None = Some t"
    using assms(2) by (auto simp: L3GetBestRoute_def split: if_splits)
  from best_route_loop_longest [OF assms(1) u32_max _ this] assms(3,4) show ?thesis by simp
qed

lemma BestRoute_sound:
  "L3GetBestRoute s ip = Some t \<Longrightarrow> t \<in> set (items (TableList s)) \<and> route_matches ip t"
  using best_route_loop_member [of ip "items (TableList s)" 0 "0xffffffff" None t]
  by (auto simp: L3GetBestRoute_def split: if_splits)

lemma BestRoute_complete:
  "ip \<noteq> 0 \<Longrightarrow> L3GetBestRoute s ip = None \<longleftrightarrow> (\<forall>t \<in> set (items (TableList s)). \<not> route_matches ip t)"
  by (simp add: L3GetBestRoute_def best_route_loop_none)

lemma GetNextIf_sound:
  assumes "L3GetNextIf s ip = Some (f, hop)"
  shows "f \<in> set (items (IfList s)) \<and> in_network hop f \<and>
    (hop = ip \<or>
     (\<forall>g \<in> set (items (IfList s)). \<not> in_network ip g) \<and>
     (\<exists>t \<in> set (items (TableList s)). route_matches ip t \<and> hop = TABLE_GatewayAddress t))"
proof (cases "find (in_network ip) (items (IfList s))")
  case (Some g)
  then have "g \<in> set (items (IfList s)) \<and> in_network ip g" by (auto simp: find_Some_iff)
  then show ?thesis using assms Some by (auto simp: L3GetNextIf_def split: if_splits)
next
  case None
  then obtain t where t: "L3GetBestRoute s ip = Some t" "hop = TABLE_GatewayAddress t"
    "find (in_network hop) (items (IfList s)) = Some f"
    using assms by (auto simp: L3GetNextIf_def split: if_splits option.splits)
  then have "f \<in> set (items (IfList s)) \<and> in_network hop f" by (auto simp: find_Some_iff)
  moreover have "\<forall>g \<in> set (items (IfList s)). \<not> in_network ip g"
    using None by (simp add: find_None_iff)
  ultimately show ?thesis using BestRoute_sound [OF t(1)] t(2) by blast
qed

lemma GetNextIf_connected:
  assumes "ip \<noteq> 0" and "ip \<noteq> 0xffffffff" and "g \<in> set (items (IfList s))" and "in_network ip g"
  shows "\<exists>f. L3GetNextIf s ip = Some (f, ip) \<and> in_network ip f"
proof (cases "find (in_network ip) (items (IfList s))")
  case None
  then show ?thesis using assms by (auto simp: find_None_iff)
next
  case (Some f)
  then have "in_network ip f" by (auto simp: find_Some_iff)
  then show ?thesis using assms Some by (simp add: L3GetNextIf_def)
qed

section \<open>Masks\<close>

text \<open>
  Masks are compared as numbers of the host. For the masks of prefixes this is the comparison
  of the lengths of the prefixes in both byte orders.
\<close>

definition prefix_mask :: "bool \<Rightarrow> nat \<Rightarrow> u32" where
  "prefix_mask le n = of_mem32 le (be32 (of_nat (2 ^ 32 - 2 ^ (32 - n))))"

lemma prefix_masks_sorted: "sorted (map (prefix_mask True) [0..<33])" "sorted (map (prefix_mask False) [0..<33])"
  by (simp_all add: prefix_mask_def of_mem32_def be32_def upt_rec)

lemma prefix_mask_mono:
  assumes "m \<le> n" and "n \<le> 32"
  shows "prefix_mask le m \<le> prefix_mask le n"
proof -
  have "sorted (map (prefix_mask le) [0..<33])" using prefix_masks_sorted by (cases le) auto
  then have "map (prefix_mask le) [0..<33] ! m \<le> map (prefix_mask le) [0..<33] ! n"
    using assms by (intro sorted_nth_mono) auto
  then show ?thesis using assms by (simp del: upt_Suc)
qed

section \<open>The invariant of a switch\<close>

definition sw_ok :: "u32 \<Rightarrow> L3SW \<Rightarrow> bool" where
  "sw_ok i_max_l3_table s \<longleftrightarrow>
     (is_sorted (IfList s) \<longrightarrow> sorted (map if_key (items (IfList s)))) \<and>
     distinct (map if_key (items (IfList s))) \<and>
     (is_sorted (TableList s) \<longrightarrow> sorted (map route_key (items (TableList s)))) \<and>
     distinct (items (TableList s)) \<and>
     length (items (TableList s)) \<le> unat i_max_l3_table \<and>
     (\<forall>f \<in> set (items (IfList s)). IpAddress f \<noteq> 0 \<and> IpAddress f \<noteq> 0xffffffff) \<and>
     (\<forall>t \<in> set (items (TableList s)). TABLE_Metric t \<noteq> 0 \<and> TABLE_GatewayAddress t \<noteq> 0
        \<and> TABLE_GatewayAddress t \<noteq> 0xffffffff)"

lemma route_tbl_ok: "route_list.tbl_ok l =
    ((is_sorted l \<longrightarrow> sorted (map route_key (items l))) \<and> distinct (items l))"
  by (auto simp: route_list.tbl_ok_def route_list.lst_ok_keys distinct_map inj_on_def route_key_inj)

lemma sw_ok_tables:
  assumes "sw_ok m s"
  shows "if_list.tbl_ok (IfList s)" "route_list.tbl_ok (TableList s)"
  using assms unfolding route_tbl_ok by (auto simp: sw_ok_def if_list.tbl_ok_def if_list.lst_ok_keys)

lemma sw_okI:
  assumes "sw_ok m s" and "if_list.tbl_ok (IfList s')" and "route_list.tbl_ok (TableList s')"
    and "\<forall>f \<in> set (items (IfList s')). f \<in> set (items (IfList s)) \<or> IpAddress f \<noteq> 0 \<and> IpAddress f \<noteq> 0xffffffff"
    and "\<forall>t \<in> set (items (TableList s')). t \<in> set (items (TableList s)) \<or>
      TABLE_Metric t \<noteq> 0 \<and> TABLE_GatewayAddress t \<noteq> 0 \<and> TABLE_GatewayAddress t \<noteq> 0xffffffff"
    and "length (items (TableList s')) \<le> unat m"
  shows "sw_ok m s'"
proof -
  have "\<forall>f \<in> set (items (IfList s')). IpAddress f \<noteq> 0 \<and> IpAddress f \<noteq> 0xffffffff"
    using assms(1,4) unfolding sw_ok_def by blast
  moreover have "\<forall>t \<in> set (items (TableList s')).
      TABLE_Metric t \<noteq> 0 \<and> TABLE_GatewayAddress t \<noteq> 0 \<and> TABLE_GatewayAddress t \<noteq> 0xffffffff"
    using assms(1,5) unfolding sw_ok_def by blast
  ultimately show ?thesis
    using assms(2,3,6) unfolding route_tbl_ok
    by (simp add: sw_ok_def if_list.tbl_ok_def if_list.lst_ok_keys)
qed

text \<open>The interface of a name, whatever its case.\<close>

definition if_of :: "L3SW \<Rightarrow> cstr \<Rightarrow> L3IF option" where
  "if_of s name = find (\<lambda>f. if_key f = upper_key (fst (StrCpy sizeof_HubName name))) (items (IfList s))"

lemma SearchIf_spec:
  assumes "if_list.tbl_ok (IfList s)" and "L3SearchIf s name = (r, s')"
  shows "r = if_of s name \<and> (\<exists>l. s' = s\<lparr>IfList := l\<rparr> \<and> if_list.tbl_ok l \<and>
    if_list.view l = if_list.view (IfList s) \<and> mset (items l) = mset (items (IfList s)))"
proof -
  obtain f l where s: "lst_search (Some CmpL3If) (IfList s)
      (if_zero\<lparr>HubName := fst (StrCpy sizeof_HubName name)\<rparr>) = (f, l)" by fastforce
  from if_list.tbl_search [OF assms(1) s] show ?thesis
    using assms(2) s by (auto simp: L3SearchIf_def if_of_def if_list.view_def if_key_def)
qed

text \<open>When an interface is accepted, and what the list holds then.\<close>

definition if_accepted :: "u32 \<Rightarrow> L3SW \<Rightarrow> cstr \<Rightarrow> u32 \<Rightarrow> bool" where
  "if_accepted m s name ip \<longleftrightarrow>
     IsSafeStr name \<and> ip \<noteq> 0 \<and> ip \<noteq> 0xffffffff \<and> of_nat (length (items (TableList s))) < m \<and>
     \<not> SW_Active s \<and> if_of s name = None"

definition new_if :: "cstr \<Rightarrow> u32 \<Rightarrow> u32 \<Rightarrow> L3IF" where
  "new_if name ip subnet =
     if_zero\<lparr>HubName := fst (StrCpy sizeof_HubName name), IpAddress := ip, SubnetMask := subnet\<rparr>"

lemma AddIf_spec:
  assumes t: "if_list.tbl_ok (IfList s)" and a: "L3AddIf m s name ip subnet = (r, s')"
  shows "r = if_accepted m s name ip \<and> (\<exists>l. s' = s\<lparr>IfList := l\<rparr> \<and> if_list.tbl_ok l \<and>
    mset (items l) = (if r then {#new_if name ip subnet#} else {#}) + mset (items (IfList s)))"
proof -
  obtain f s1 where s: "L3SearchIf s name = (f, s1)" by fastforce
  from SearchIf_spec [OF t s] obtain l where l: "f = if_of s name" "s1 = s\<lparr>IfList := l\<rparr>"
    "if_list.tbl_ok l" "if_list.view l = if_list.view (IfList s)" "mset (items l) = mset (items (IfList s))"
    by blast
  have key: "if_key (new_if name ip subnet) = upper_key (fst (StrCpy sizeof_HubName name))"
    by (simp add: new_if_def if_key_def)
  show ?thesis
  proof (cases "if_accepted m s name ip")
    case True
    then have "if_list.view l (if_key (new_if name ip subnet)) = None"
      using l(4) key by (simp add: if_accepted_def if_of_def if_list.view_def)
    note i = if_list.tbl_insert [OF l(3) this]
    have "(r, s') = (True, s\<lparr>IfList := lst_insert (Some CmpL3If) l (new_if name ip subnet)\<rparr>)"
      using True a s l(1,2) by (simp add: L3AddIf_def if_accepted_def new_if_def linorder_not_le [symmetric])
    then show ?thesis using i l(5) True by auto
  next
    case False
    have "r = False \<and> (s' = s \<or> s' = s1)"
      using False a s l(1) by (auto simp: L3AddIf_def if_accepted_def not_le split: if_splits option.splits)
    then have "\<exists>k. s' = s\<lparr>IfList := k\<rparr> \<and> if_list.tbl_ok k \<and> mset (items k) = mset (items (IfList s))"
      using l t by (auto intro: exI [of _ "IfList s"])
    then show ?thesis using False \<open>r = False \<and> _\<close> by auto
  qed
qed

lemma DelIf_spec:
  assumes t: "if_list.tbl_ok (IfList s)" and a: "L3DelIf s name = (r, s')"
  shows "r = (\<not> SW_Active s \<and> if_of s name \<noteq> None) \<and> (\<exists>l. s' = s\<lparr>IfList := l\<rparr> \<and> if_list.tbl_ok l \<and>
    mset (items l) = mset (items (IfList s)) - (if r then {#the (if_of s name)#} else {#}))"
proof -
  obtain f s1 where s: "L3SearchIf s name = (f, s1)" by fastforce
  from SearchIf_spec [OF t s] obtain l where l: "f = if_of s name" "s1 = s\<lparr>IfList := l\<rparr>"
    "if_list.tbl_ok l" "mset (items l) = mset (items (IfList s))"
    by blast
  consider (active) "SW_Active s" | (absent) "\<not> SW_Active s" "f = None" | (found) x where "\<not> SW_Active s" "f = Some x"
    by (cases f) auto
  then show ?thesis
  proof cases
    case active
    then show ?thesis using a t by (auto simp: L3DelIf_def intro: exI [of _ "IfList s"])
  next
    case absent
    then show ?thesis using a s l by (auto simp: L3DelIf_def)
  next
    case found
    then have "(r, s') = (True, s\<lparr>IfList := snd (lst_delete l x)\<rparr>)" "if_of s name = Some x"
      using a s l by (simp_all add: L3DelIf_def)
    moreover have "mset (items (snd (lst_delete l x))) = mset (items (IfList s)) - {#x#}"
      using l(4) by (simp add: lst_delete_def mset_remove1)
    ultimately show ?thesis using found if_list.tbl_delete [OF l(3)] by auto
  qed
qed

lemma AddTable_spec:
  assumes t: "route_list.tbl_ok (TableList s)" and a: "L3AddTable m s tbl = (r, s')"
  shows "r = (TABLE_Metric tbl \<noteq> 0 \<and> TABLE_GatewayAddress tbl \<noteq> 0 \<and> TABLE_GatewayAddress tbl \<noteq> 0xffffffff \<and>
      of_nat (length (items (TableList s))) < m \<and> \<not> SW_Active s \<and> tbl \<notin> set (items (TableList s))) \<and>
    (\<exists>l. s' = s\<lparr>TableList := l\<rparr> \<and> route_list.tbl_ok l \<and>
      mset (items l) = (if r then {#tbl#} else {#}) + mset (items (TableList s)))"
proof -
  obtain f l where s: "lst_search (Some CmpL3Table) (TableList s) tbl = (f, l)" by fastforce
  from route_list.tbl_search [OF t s] have l: "f = route_list.view (TableList s) (route_key tbl)"
    "route_list.tbl_ok l" "route_list.view l = route_list.view (TableList s)"
    "mset (items l) = mset (items (TableList s))" by simp_all
  have f: "f = None \<longleftrightarrow> tbl \<notin> set (items (TableList s))"
    using l(1) by (auto simp: route_list.view_None route_key_inj)
  show ?thesis
  proof (cases "TABLE_Metric tbl \<noteq> 0 \<and> TABLE_GatewayAddress tbl \<noteq> 0 \<and> TABLE_GatewayAddress tbl \<noteq> 0xffffffff \<and>
      of_nat (length (items (TableList s))) < m \<and> \<not> SW_Active s \<and> f = None")
    case True
    then have "route_list.view l (route_key tbl) = None" using l by simp
    note i = route_list.tbl_insert [OF l(2) this]
    have "(r, s') = (True, s\<lparr>TableList := lst_insert (Some CmpL3Table) l tbl\<rparr>)"
      using True a s by (simp add: L3AddTable_def linorder_not_le [symmetric])
    then show ?thesis using i l(4) True f by auto
  next
    case False
    have "r = False \<and> (s' = s \<or> s' = s\<lparr>TableList := l\<rparr>)"
      using False a s by (auto simp: L3AddTable_def not_le split: if_splits)
    then have "\<exists>k. s' = s\<lparr>TableList := k\<rparr> \<and> route_list.tbl_ok k \<and> mset (items k) = mset (items (TableList s))"
      using l t by (auto intro: exI [of _ "TableList s"])
    then show ?thesis using False f \<open>r = False \<and> _\<close> by auto
  qed
qed

lemma DelTable_spec:
  assumes t: "route_list.tbl_ok (TableList s)" and a: "L3DelTable s tbl = (r, s')"
  shows "r = (\<not> SW_Active s \<and> tbl \<in> set (items (TableList s))) \<and>
    (\<exists>l. s' = s\<lparr>TableList := l\<rparr> \<and> route_list.tbl_ok l \<and>
      mset (items l) = mset (items (TableList s)) - (if r then {#tbl#} else {#}))"
proof -
  obtain f l where s: "lst_search (Some CmpL3Table) (TableList s) tbl = (f, l)" by fastforce
  from route_list.tbl_search [OF t s] have l: "f = route_list.view (TableList s) (route_key tbl)"
    "route_list.tbl_ok l" "mset (items l) = mset (items (TableList s))" by simp_all
  have f: "f = (if tbl \<in> set (items (TableList s)) then Some tbl else None)"
    using l(1) route_list.view_Some [OF t] by (auto simp: route_list.view_None route_key_inj)
  consider (active) "SW_Active s" | (absent) "\<not> SW_Active s" "tbl \<notin> set (items (TableList s))"
    | (found) "\<not> SW_Active s" "tbl \<in> set (items (TableList s))"
    by blast
  then show ?thesis
  proof cases
    case active
    then show ?thesis using a t by (auto simp: L3DelTable_def intro: exI [of _ "TableList s"])
  next
    case absent
    then have "f = None" using f by simp
    then have "(r, s') = (False, s\<lparr>TableList := l\<rparr>)" using a s absent(1) by (simp add: L3DelTable_def)
    then show ?thesis using absent l(2,3) by auto
  next
    case found
    then have "f = Some tbl" using f by simp
    then have "(r, s') = (True, s\<lparr>TableList := snd (lst_delete l tbl)\<rparr>)"
      using a s found(1) by (simp add: L3DelTable_def)
    moreover have "mset (items (snd (lst_delete l tbl))) = mset (items (TableList s)) - {#tbl#}"
      using l(3) by (simp add: lst_delete_def mset_remove1)
    ultimately show ?thesis using found route_list.tbl_delete [OF l(2)] by auto
  qed
qed

section \<open>Scripts of configuration commands\<close>

datatype sw_op =
    AddIfOp cstr u32 u32
  | DelIfOp cstr
  | AddTableOp L3TABLE
  | DelTableOp L3TABLE
  | StartOp
  | StopOp

fun sw_apply :: "u32 \<Rightarrow> u32 \<Rightarrow> sw_op \<Rightarrow> L3SW \<Rightarrow> L3SW" where
  "sw_apply max_if max_table (AddIfOp name ip subnet) s = snd (L3AddIf max_if s name ip subnet)"
| "sw_apply max_if max_table (DelIfOp name) s = snd (L3DelIf s name)"
| "sw_apply max_if max_table (AddTableOp t) s = snd (L3AddTable max_table s t)"
| "sw_apply max_if max_table (DelTableOp t) s = snd (L3DelTable s t)"
| "sw_apply max_if max_table StartOp s = L3SwStart s"
| "sw_apply max_if max_table StopOp s = L3SwStop s"

lemma new_if_addr: "IpAddress (new_if name ip subnet) = ip"
  by (simp add: new_if_def)

lemma AddIf_ok:
  assumes ok: "sw_ok m s"
  shows "sw_ok m (snd (L3AddIf k s name ip subnet))"
proof -
  obtain r s' where a: "L3AddIf k s name ip subnet = (r, s')" by fastforce
  from AddIf_spec [OF sw_ok_tables(1) [OF ok] a] obtain l where
    l: "r = if_accepted k s name ip" "s' = s\<lparr>IfList := l\<rparr>" "if_list.tbl_ok l"
    "mset (items l) = (if r then {#new_if name ip subnet#} else {#}) + mset (items (IfList s))" by blast
  have "set_mset (mset (items l)) \<subseteq> (if r then {new_if name ip subnet} else {}) \<union> set (items (IfList s))"
    unfolding l(4) by auto
  then have "\<forall>f \<in> set (items l). r \<and> f = new_if name ip subnet \<or> f \<in> set (items (IfList s))"
    by (auto split: if_splits)
  moreover have "length (items (TableList s)) \<le> unat m" using ok by (simp add: sw_ok_def)
  ultimately show ?thesis
    using sw_ok_tables [OF ok] l(1-3) a new_if_addr [of name ip subnet]
    by (intro sw_okI [OF ok]) (fastforce simp: if_accepted_def)+
qed

lemma DelIf_ok:
  assumes ok: "sw_ok m s"
  shows "sw_ok m (snd (L3DelIf s name))"
proof -
  obtain r s' where a: "L3DelIf s name = (r, s')" by fastforce
  from DelIf_spec [OF sw_ok_tables(1) [OF ok] a] obtain l where
    l: "s' = s\<lparr>IfList := l\<rparr>" "if_list.tbl_ok l"
    "mset (items l) = mset (items (IfList s)) - (if r then {#the (if_of s name)#} else {#})" by blast
  have "mset (items l) \<subseteq># mset (items (IfList s))" unfolding l(3) by simp
  then have "set (items l) \<subseteq> set (items (IfList s))" by (metis set_mset_mono set_mset_mset)
  then show ?thesis
    using sw_ok_tables [OF ok] ok l a by (intro sw_okI [OF ok]) (auto simp: sw_ok_def)
qed

lemma AddTable_ok:
  assumes ok: "sw_ok m s"
  shows "sw_ok m (snd (L3AddTable m s t))"
proof -
  obtain r s' where a: "L3AddTable m s t = (r, s')" by fastforce
  from AddTable_spec [OF sw_ok_tables(2) [OF ok] a] obtain l where
    r: "r = (TABLE_Metric t \<noteq> 0 \<and> TABLE_GatewayAddress t \<noteq> 0 \<and> TABLE_GatewayAddress t \<noteq> 0xffffffff \<and>
      of_nat (length (items (TableList s))) < m \<and> \<not> SW_Active s \<and> t \<notin> set (items (TableList s)))"
    and l: "s' = s\<lparr>TableList := l\<rparr>" "route_list.tbl_ok l"
    "mset (items l) = (if r then {#t#} else {#}) + mset (items (TableList s))" by blast
  have set: "set_mset (mset (items l)) \<subseteq> (if r then {t} else {}) \<union> set (items (TableList s))"
    unfolding l(3) by auto
  have "size (mset (items l)) = (if r then 1 else 0) + length (items (TableList s))"
    unfolding l(3) by simp
  moreover have "length (items (TableList s)) \<le> unat m" using ok by (simp add: sw_ok_def)
  moreover from this have "unat (of_nat (length (items (TableList s))) :: u32) = length (items (TableList s))"
    using unat_lt32 [of m] by (intro unat_of_nat32) linarith
  ultimately have "length (items l) \<le> unat m"
    using r by (auto simp: unat_order split: if_splits)
  moreover have "\<forall>x \<in> set (items l). r \<and> x = t \<or> x \<in> set (items (TableList s))"
    using set by (auto split: if_splits)
  ultimately show ?thesis
    using sw_ok_tables [OF ok] l(1,2) a r by (intro sw_okI [OF ok]) fastforce+
qed

lemma DelTable_ok:
  assumes ok: "sw_ok m s"
  shows "sw_ok m (snd (L3DelTable s t))"
proof -
  obtain r s' where a: "L3DelTable s t = (r, s')" by fastforce
  from DelTable_spec [OF sw_ok_tables(2) [OF ok] a] obtain l where
    l: "s' = s\<lparr>TableList := l\<rparr>" "route_list.tbl_ok l"
    "mset (items l) = mset (items (TableList s)) - (if r then {#t#} else {#})" by blast
  have "mset (items l) \<subseteq># mset (items (TableList s))" unfolding l(3) by simp
  then have "set (items l) \<subseteq> set (items (TableList s))" "length (items l) \<le> length (items (TableList s))"
    by (metis set_mset_mono set_mset_mset, metis size_mset size_mset_mono)
  then show ?thesis
    using sw_ok_tables [OF ok] ok l a by (intro sw_okI [OF ok]) (auto simp: sw_ok_def)
qed

lemma sw_apply_ok: "sw_ok m s \<Longrightarrow> sw_ok m (sw_apply k m op s)"
proof (cases op)
  case StartOp
  moreover assume "sw_ok m s"
  ultimately show ?thesis by (simp add: L3SwStart_def sw_ok_def)
next
  case StopOp
  moreover assume "sw_ok m s"
  ultimately show ?thesis by (simp add: L3SwStop_def sw_ok_def)
qed (auto simp: AddIf_ok DelIf_ok AddTable_ok DelTable_ok)

lemma NewL3Sw_ok: "sw_ok m (NewL3Sw name)"
  by (simp add: sw_ok_def NewL3Sw_def lst_new_def)

text \<open>While a switch is active its configuration does not change.\<close>

lemma active_frozen:
  "SW_Active s \<Longrightarrow> op \<noteq> StopOp \<Longrightarrow> sw_apply k m op s = s"
  by (cases op) (auto simp: L3AddIf_def L3DelIf_def L3AddTable_def L3DelTable_def L3SwStart_def Let_def)

section \<open>The list of switches\<close>

definition sw_of :: "L3SW LST \<Rightarrow> cstr \<Rightarrow> L3SW option" where
  "sw_of l name = find (\<lambda>s. sw_key s = sw_key (NewL3Sw name)) (items l)"

definition sws_ok :: "L3SW LST \<Rightarrow> bool" where
  "sws_ok l \<longleftrightarrow> (is_sorted l \<longrightarrow> sorted (map sw_key (items l))) \<and> distinct (map sw_key (items l))"

lemma sws_ok_iff: "sws_ok l = sw_list.tbl_ok l"
  by (simp add: sws_ok_def sw_list.tbl_ok_def sw_list.lst_ok_keys)

lemma sw_of_view: "sw_of l name = sw_list.view l (sw_key (NewL3Sw name))"
  by (simp add: sw_of_def sw_list.view_def)

lemma AddSw_spec:
  assumes "sws_ok l" and "L3AddSw l name = (r, l')"
  shows "sws_ok l' \<and> (case sw_of l name of
      None \<Rightarrow> r = Some (NewL3Sw name) \<and> sw_of l' name = r \<and> mset (items l') = add_mset (NewL3Sw name) (mset (items l))
    | Some s \<Rightarrow> r = None \<and> mset (items l') = mset (items l))"
proof -
  obtain f l1 where s: "lst_search (Some CmpL3Sw) l (NewL3Sw name) = (f, l1)" by fastforce
  from sw_list.tbl_search [OF _ s] assms(1) have f: "f = sw_of l name" "sw_list.tbl_ok l1"
    "sw_list.view l1 = sw_list.view l" "mset (items l1) = mset (items l)"
    by (simp_all add: sws_ok_iff sw_of_view)
  show ?thesis
  proof (cases f)
    case None
    then have "sw_list.view l1 (sw_key (NewL3Sw name)) = None" using f by (simp add: sw_of_view)
    from sw_list.tbl_insert [OF f(2) this] show ?thesis
      using None assms(2) s f by (auto simp: L3AddSw_def L3GetSw_def sws_ok_iff sw_of_view Let_def)
  next
    case (Some x)
    then have "r = None" "l' = l1" "sw_of l name = Some x"
      using assms(2) s f(1) by (simp_all add: L3AddSw_def L3GetSw_def)
    then show ?thesis using f by (simp add: sws_ok_iff)
  qed
qed

lemma DelSw_spec:
  assumes "sws_ok l" and "L3DelSw l name = (r, l')"
  shows "sws_ok l' \<and> r = (sw_of l name \<noteq> None) \<and> sw_of l' name = None"
proof -
  obtain f l1 where s: "lst_search (Some CmpL3Sw) l (NewL3Sw name) = (f, l1)" by fastforce
  from sw_list.tbl_search [OF _ s] assms(1) have f: "f = sw_of l name" "sw_list.tbl_ok l1"
    "sw_list.view l1 = sw_list.view l"
    by (simp_all add: sws_ok_iff sw_of_view)
  show ?thesis
  proof (cases f)
    case None
    then have "r = False" "l' = l1" using assms(2) s by (simp_all add: L3DelSw_def L3GetSw_def)
    then show ?thesis using f None by (simp add: sws_ok_iff sw_of_view)
  next
    case (Some x)
    then have v: "sw_list.view l1 (sw_key (NewL3Sw name)) = Some x" using f by (simp add: sw_of_view)
    then have k: "sw_key x = sw_key (NewL3Sw name)" using f(2) by (simp add: sw_list.view_Some)
    have k2: "sw_key (L3SwStop x) = sw_key x" by (simp add: L3SwStop_def sw_key_def)
    define l2 where "l2 = l1\<lparr>items := replace_first x (L3SwStop x) (items l1)\<rparr>"
    have l2: "sw_list.tbl_ok l2" "sw_list.view l2 (sw_key x) = Some (L3SwStop x)"
      using sw_list.tbl_replace [OF f(2) _ k2] v k by (simp_all add: l2_def)
    have "r = True" "l' = snd (lst_delete l2 (L3SwStop x))"
      using assms(2) s Some by (simp_all add: L3DelSw_def L3GetSw_def l2_def)
    moreover have "sw_list.tbl_ok (snd (lst_delete l2 (L3SwStop x)))"
      "sw_list.view (snd (lst_delete l2 (L3SwStop x))) (sw_key (L3SwStop x)) = None"
      using sw_list.tbl_delete [OF l2(1), of "L3SwStop x"] l2(2) k2 by simp_all
    moreover have "sw_of l name = Some x" using f(1) Some by simp
    ultimately show ?thesis using k k2 by (simp add: sws_ok_iff sw_of_view)
  qed
qed

end
