(* ===== verification/Layer3Recv.thy ===== *)
theory Layer3Recv
  imports Layer3Switch
begin

text \<open>
  Receiving on the virtual layer-3 switch of src/src/Cedar/Layer3.c: \<open>L3PutPacket\<close>,
  \<open>L3RecvL2\<close> and \<open>L3RecvIp\<close>, with the ICMP errors and the echo replies the switch
  makes. The state is the whole switch, since a packet that arrives at one interface is stored
  at another one; a pointer to an interface is its hub name, which the list of interfaces holds
  once. A packet is its bytes, so a write to a header is a write to \<open>PacketData\<close>. \<open>now\<close> is
  the clock. The cancel objects that wake the sessions are left out.
\<close>

section \<open>Interfaces in a switch\<close>

definition if_get :: "L3SW \<Rightarrow> cstr \<Rightarrow> L3IF option" where
  "if_get s name = find (\<lambda>f. HubName f = name) (items (IfList s))"

definition if_set :: "L3SW \<Rightarrow> L3IF \<Rightarrow> L3SW" where
  "if_set s f = s\<lparr>IfList := (IfList s)
     \<lparr>items := map (\<lambda>g. if HubName g = HubName f then f else g) (items (IfList s))\<rparr>\<rparr>"

section \<open>Fields of a header in memory\<close>

definition host32 :: "bool \<Rightarrow> u8 list \<Rightarrow> nat \<Rightarrow> u32 option" where
  "host32 le m i = map_option (of_mem32 le) (mem_bytes m i 4)"

definition put8 :: "u8 list \<Rightarrow> nat \<Rightarrow> u8 \<Rightarrow> u8 list option" where
  "put8 m i v = (if i < length m then Some (m[i := v]) else None)"

definition put32 :: "bool \<Rightarrow> u8 list \<Rightarrow> nat \<Rightarrow> u32 \<Rightarrow> u8 list option" where
  "put32 le m i v = (if i + 4 \<le> length m then Some (take i m @ mem32 le v @ drop (i + 4) m) else None)"

section \<open>ICMP errors\<close>

abbreviation ICMP_TYPE_ECHO_RESPONSE :: u8 where "ICMP_TYPE_ECHO_RESPONSE \<equiv> 0"
abbreviation ICMP_TYPE_ECHO_REQUEST :: u8 where "ICMP_TYPE_ECHO_REQUEST \<equiv> 8"

text \<open>
  The frame that reports an error of type \<open>ty\<close> about the IP packet at \<open>l3\<close>, from the
  address of the interface to \<open>src_ip\<close>. It quotes the header and eight bytes, but never
  more than the size of the whole frame less the header, as the code does it.
\<close>

definition icmp_error :: "bool \<Rightarrow> L3IF \<Rightarrow> u8 \<Rightarrow> u8 list \<Rightarrow> nat \<Rightarrow> nat \<Rightarrow> u32 \<Rightarrow> u8 list option" where
  "icmp_error le f ty m l3 header_size src_ip =
     do {
       let icmp_packet_total_size = 14 + 20 + 4 + 4 + header_size + 8;
       let data_size = min (length m - header_size) (header_size + 8);
       data \<leftarrow> mem_bytes m l3 data_size;
       let ip = \<lparr>VersionAndHeaderLength = IPV4_SET_HEADER_LEN (IPV4_SET_VERSION 0 4) 5, TypeOfService = 0,
                 TotalLength = Endian16 le (of_nat (icmp_packet_total_size - 14)), Identification = 0,
                 FlagsAndFlagmentOffset = [0, 0], TimeToLive = 0xff, IP_Protocol = IP_PROTO_ICMPV4,
                 IP_Checksum = 0, IP_SrcIP = IpAddress f, IP_DstIP = src_ip\<rparr>;
       let ip = ip\<lparr>IP_Checksum := IpChecksum le (ip_bytes le ip)\<rparr>;
       let checksum = IpChecksum le ([ty, 0, 0, 0] @ [0, 0, 0, 0] @ data);
       Some (replicate 12 0 @ [0x08, 0x00] @ ip_bytes le ip @ [ty, 0] @ mem16 le checksum @ [0, 0, 0, 0] @
         data @ replicate (header_size + 8 - data_size) 0)
     }"

section \<open>IP packets\<close>

text \<open>The packet whose header is complete gets its checksum and goes to the queue of an interface.\<close>

definition store_packet :: "bool \<Rightarrow> u64 \<Rightarrow> L3SW \<Rightarrow> PKT \<Rightarrow> u8 list \<Rightarrow> nat \<Rightarrow> nat \<Rightarrow> L3IF \<Rightarrow> u32 \<Rightarrow> L3SW option" where
  "store_packet le now s p m l3 header_size dst next_hop =
     do {
       m \<leftarrow> put16 le m (l3 + 10) 0;
       ip \<leftarrow> mem_bytes m l3 header_size;
       m \<leftarrow> put16 le m (l3 + 10) (IpChecksum le ip);
       let packet = \<lparr>Packet = p\<lparr>PacketData := m\<rparr>, PACKET_Expire = now + IP_WAIT_FOR_ARP_TIMEOUT,
                     NextHopIp = next_hop\<rparr>;
       Some (if_set s (L3StoreIpPacketToIf dst packet))
     }"

text \<open>A packet to an address of the switch: an echo request is turned round, others are dropped.\<close>

definition echo_reply :: "bool \<Rightarrow> u64 \<Rightarrow> L3SW \<Rightarrow> PKT \<Rightarrow> u8 list \<Rightarrow> nat \<Rightarrow> nat \<Rightarrow> L3SW option" where
  "echo_reply le now s p m l3 header_size =
     (if TypeL4 p \<noteq> L4_ICMPV4 then Some s
      else do {
        icmp \<leftarrow> L4_at p;
        ty \<leftarrow> mem8 m icmp;
        if ty \<noteq> ICMP_TYPE_ECHO_REQUEST then Some s
        else do {
          src_ip \<leftarrow> host32 le m (l3 + 16);
          dst_ip \<leftarrow> host32 le m (l3 + 12);
          m \<leftarrow> put32 le m (l3 + 16) dst_ip;
          m \<leftarrow> put32 le m (l3 + 12) src_ip;
          m \<leftarrow> put8 m (l3 + 8) 0xff;
          m \<leftarrow> put8 m (l3 + 6) 0;
          m \<leftarrow> put8 m (l3 + 7) 0;
          m \<leftarrow> put16 le m (icmp + 2) 0;
          m \<leftarrow> put8 m icmp ICMP_TYPE_ECHO_RESPONSE;
          d \<leftarrow> mem_bytes m icmp (length m - 14 - header_size);
          m \<leftarrow> put16 le m (icmp + 2) (IpChecksum le d);
          case L3GetNextIf s dst_ip of
            None \<Rightarrow> Some s
          | Some (dst, next_hop) \<Rightarrow> store_packet le now s p m l3 header_size dst next_hop
        }
      })"

text \<open>
  An IP packet that arrives at the interface \<open>name\<close>; \<open>self\<close> marks one the switch has made
  itself. The recursion is on the ICMP errors, so that it ends is proved.
\<close>

partial_function (option) L3RecvIp ::
    "bool \<Rightarrow> u64 \<Rightarrow> L3SW \<Rightarrow> cstr \<Rightarrow> PKT \<Rightarrow> bool \<Rightarrow> L3SW option" where
  "L3RecvIp le now s name p self =
     (case if_get s name of
        None \<Rightarrow> Some s
      | Some f \<Rightarrow> do {
          l3 \<leftarrow> L3_at p;
          let m = PacketData p;
          v \<leftarrow> mem8 m l3;
          let header_size = unat (v AND 0x0f) * 4;
          ip \<leftarrow> mem_bytes m l3 header_size;
          if \<not> IpCheckChecksum le ip then Some s
          else do {
            src_ip \<leftarrow> host32 le m (l3 + 12);
            let f = L3KnownArp le now f src_ip (MacAddressSrc p);
            let s = if_set s f;
            if BroadcastPacket p then Some s
            else do {
              ttl \<leftarrow> mem8 m (l3 + 8);
              let new_ttl = (if ttl \<ge> 1 then ttl - 1 else 0);
              dst_ip \<leftarrow> host32 le m (l3 + 16);
              if new_ttl = 0 \<and> dst_ip \<noteq> IpAddress f
              then do {
                buf \<leftarrow> icmp_error le f 11 m l3 header_size src_ip;
                pkt \<leftarrow> ParsePacket le buf (of_nat (length buf));
                case pkt of None \<Rightarrow> Some s | Some pkt \<Rightarrow> L3RecvIp le now s name pkt True
              }
              else do {
                m \<leftarrow> put8 m (l3 + 8) new_ttl;
                case L3GetNextIf s dst_ip of
                  None \<Rightarrow>
                    if self then Some s
                    else do {
                      buf \<leftarrow> icmp_error le f 3 m l3 header_size src_ip;
                      pkt \<leftarrow> ParsePacket le buf (of_nat (length buf));
                      case pkt of None \<Rightarrow> Some s | Some pkt \<Rightarrow> L3RecvIp le now s name pkt True
                    }
                | Some (dst, next_hop) \<Rightarrow>
                    if dst_ip = IpAddress dst then echo_reply le now s p m l3 header_size
                    else store_packet le now s p m l3 header_size dst next_hop
              }
            }
          }
        })"

section \<open>Frames\<close>

definition L3RecvL2 :: "bool \<Rightarrow> u64 \<Rightarrow> L3SW \<Rightarrow> cstr \<Rightarrow> PKT \<Rightarrow> L3SW option" where
  "L3RecvL2 le now s name p =
     (case if_get s name of
        None \<Rightarrow> Some s
      | Some f \<Rightarrow>
          if MacAddressSrc p = MacAddress f \<or> \<not> BroadcastPacket p \<and> MacAddressDest p \<noteq> MacAddress f then Some s
          else if TypeL3 p = L3_ARPV4 then Some (if_set s (L3RecvArp le now f p))
          else if TypeL3 p = L3_IPV4 then L3RecvIp le now s name p False
          else Some s)"

definition L3PutPacket :: "bool \<Rightarrow> u64 \<Rightarrow> L3SW \<Rightarrow> cstr \<Rightarrow> u8 list option \<Rightarrow> u32 \<Rightarrow> L3SW option" where
  "L3PutPacket le now s name data sz =
     (case data of
        None \<Rightarrow> Some s
      | Some data \<Rightarrow> do {
          p \<leftarrow> ParsePacket le data sz;
          case p of
            None \<Rightarrow> Some s
          | Some p \<Rightarrow> L3RecvL2 le now s name p
        })"

section \<open>The state between packets\<close>

text \<open>The packets between two interfaces are IP packets whose headers pass the receiver's test.\<close>

definition queue_ok :: "bool \<Rightarrow> L3IF \<Rightarrow> bool" where
  "queue_ok le f \<longleftrightarrow> (\<forall>pk \<in> set (IpPacketQueue f).
     TypeL3 (Packet pk) = L3_IPV4 \<and> IpCheckChecksum le (drop 14 (PacketData (Packet pk))))"

definition sw_live :: "bool \<Rightarrow> L3SW \<Rightarrow> bool" where
  "sw_live le s \<longleftrightarrow> distinct (map HubName (items (IfList s))) \<and>
     (\<forall>f \<in> set (items (IfList s)). if_inv f \<and> queue_ok le f)"

lemma if_get_SomeD: "if_get s name = Some f \<Longrightarrow> f \<in> set (items (IfList s)) \<and> HubName f = name"
  by (auto simp: if_get_def find_Some_iff)

lemma if_get_mem:
  assumes "sw_live le s" and "f \<in> set (items (IfList s))"
  shows "if_get s (HubName f) = Some f"
proof (cases "if_get s (HubName f)")
  case None
  then show ?thesis using assms(2) by (auto simp: if_get_def find_None_iff)
next
  case (Some g)
  then have "g \<in> set (items (IfList s))" "HubName g = HubName f" by (auto dest: if_get_SomeD)
  then show ?thesis using assms Some by (auto simp: sw_live_def distinct_map inj_on_def)
qed

lemma if_set_live:
  assumes "sw_live le s" and "if_inv f" and "queue_ok le f"
  shows "sw_live le (if_set s f)"
proof -
  have "map HubName (items (IfList (if_set s f))) = map HubName (items (IfList s))"
    by (simp add: if_set_def)
  moreover have "\<forall>g \<in> set (items (IfList (if_set s f))). if_inv g \<and> queue_ok le g"
    using assms by (auto simp: sw_live_def if_set_def)
  ultimately show ?thesis using assms(1) unfolding sw_live_def by presburger
qed

lemma find_map_same:
  assumes "\<And>x. P (g x) = P x"
  shows "find P (map g xs) = map_option g (find P xs)"
  by (induction xs) (simp_all add: assms)

lemma if_get_set:
  assumes "if_get s (HubName f) \<noteq> None"
  shows "if_get (if_set s f) name = (if name = HubName f then Some f else if_get s name)"
proof -
  have "if_get (if_set s f) name = map_option (\<lambda>g. if HubName g = HubName f then f else g) (if_get s name)"
    unfolding if_get_def if_set_def by (simp add: find_map_same)
  then show ?thesis using assms by (auto dest: if_get_SomeD split: option.splits simp: map_option_case)
qed

lemma GetNextIf_if_get:
  assumes "sw_live le s" and "L3GetNextIf s ip = Some (d, hop)"
  shows "if_get s (HubName d) = Some d"
  using GetNextIf_sound [OF assms(2)] if_get_mem [OF assms(1)] by blast

lemma if_get_inv: "sw_live le s \<Longrightarrow> if_get s name = Some f \<Longrightarrow> if_inv f \<and> queue_ok le f"
  by (auto simp: sw_live_def dest: if_get_SomeD)

section \<open>What a step does\<close>

lemma host32_ok [mem_simps]: "i + 4 \<le> length m \<Longrightarrow> host32 le m i = Some (of_mem32 le (take 4 (drop i m)))"
  by (simp add: host32_def mem_bytes_def)

lemma put8_ok [mem_simps]: "i < length m \<Longrightarrow> put8 m i v = Some (m[i := v])"
  by (simp add: put8_def)

lemma put16_ok [mem_simps]: "i + 2 \<le> length m \<Longrightarrow> put16 le m i v = Some (take i m @ mem16 le v @ drop (i + 2) m)"
  by (simp add: put16_def)

lemma put32_ok [mem_simps]: "i + 4 \<le> length m \<Longrightarrow> put32 le m i v = Some (take i m @ mem32 le v @ drop (i + 4) m)"
  by (simp add: put32_def)

text \<open>An IP packet as the parser hands it over, and its header.\<close>

definition ip_packet :: "PKT \<Rightarrow> bool" where
  "ip_packet p \<longleftrightarrow> TypeL3 p = L3_IPV4 \<and> parsed (PacketData p) (length (PacketData p)) p \<and> MacAddressSrc_at p = 6"

definition hdr_size :: "u8 list \<Rightarrow> nat" where
  "hdr_size m = unat (m ! 14 AND 0x0f) * 4"

definition hdr :: "u8 list \<Rightarrow> u8 list" where
  "hdr m = take (hdr_size m) (drop 14 m)"

definition src_ip :: "bool \<Rightarrow> u8 list \<Rightarrow> u32" where
  "src_ip le m = of_mem32 le (take 4 (drop 26 m))"

definition dst_ip :: "bool \<Rightarrow> u8 list \<Rightarrow> u32" where
  "dst_ip le m = of_mem32 le (take 4 (drop 30 m))"

definition less_ttl :: "u8 \<Rightarrow> u8" where
  "less_ttl ttl = (if ttl \<ge> 1 then ttl - 1 else 0)"

lemma ip_packetD:
  assumes "ip_packet p"
  shows "L3_at p = Some 14" and "20 \<le> hdr_size (PacketData p)" and "14 + hdr_size (PacketData p) \<le> length (PacketData p)"
    and "hdr_size (PacketData p) \<le> 60" and "packet_ok p"
    and "TypeL4 p = L4_ICMPV4 \<Longrightarrow> L4_at p = Some (14 + hdr_size (PacketData p)) \<and>
      14 + hdr_size (PacketData p) + 4 \<le> length (PacketData p)"
proof -
  show a: "L3_at p = Some 14" "20 \<le> hdr_size (PacketData p)" "14 + hdr_size (PacketData p) \<le> length (PacketData p)"
    using assms by (auto simp: ip_packet_def parsed_def v4_parsed_def Let_def hdr_size_def)
  show "hdr_size (PacketData p) \<le> 60" using and_0f_bound [of "PacketData p ! 14"] by (simp add: hdr_size_def)
  show "packet_ok p" using a assms by (simp add: packet_ok_def ip_packet_def)
  show "L4_at p = Some (14 + hdr_size (PacketData p)) \<and> 14 + hdr_size (PacketData p) + 4 \<le> length (PacketData p)"
    if "TypeL4 p = L4_ICMPV4"
    using that assms by (auto simp: ip_packet_def parsed_def v4_parsed_def Let_def hdr_size_def l4_ok_def l4_header_def)
qed

text \<open>The report of an error: a frame is made, parsed, and handled as one of the switch itself.\<close>

definition report :: "bool \<Rightarrow> u64 \<Rightarrow> L3SW \<Rightarrow> cstr \<Rightarrow> L3IF \<Rightarrow> u8 \<Rightarrow> u8 list \<Rightarrow> L3SW option" where
  "report le now s name f ty m =
     do {
       buf \<leftarrow> icmp_error le f ty m 14 (hdr_size m) (src_ip le m);
       pkt \<leftarrow> ParsePacket le buf (of_nat (length buf));
       case pkt of None \<Rightarrow> Some s | Some pkt \<Rightarrow> L3RecvIp le now s name pkt True
     }"

definition sender_known :: "bool \<Rightarrow> u64 \<Rightarrow> L3SW \<Rightarrow> L3IF \<Rightarrow> PKT \<Rightarrow> L3SW" where
  "sender_known le now s f p = if_set s (L3KnownArp le now f (src_ip le (PacketData p)) (MacAddressSrc p))"

lemma RecvIp_eq:
  fixes le :: bool and now :: u64
  assumes p: "ip_packet p" and f: "if_get s name = Some f"
  defines "m \<equiv> PacketData p" and "s1 \<equiv> sender_known le now s f p"
    and "f1 \<equiv> L3KnownArp le now f (src_ip le (PacketData p)) (MacAddressSrc p)"
  defines "ttl \<equiv> less_ttl (m ! 22)"
  shows "L3RecvIp le now s name p self =
    (if \<not> IpCheckChecksum le (hdr m) then Some s
     else if BroadcastPacket p then Some s1
     else if ttl = 0 \<and> dst_ip le m \<noteq> IpAddress f then report le now s1 name f1 11 m
     else case L3GetNextIf s1 (dst_ip le m) of
         None \<Rightarrow> if self then Some s1 else report le now s1 name f1 3 (m[22 := ttl])
       | Some (d, hop) \<Rightarrow>
           if dst_ip le m = IpAddress d then echo_reply le now s1 p (m[22 := ttl]) 14 (hdr_size m)
           else store_packet le now s1 p (m[22 := ttl]) 14 (hdr_size m) d hop)"
proof -
  note d = ip_packetD [OF p, folded m_def]
  have c: "mem8 m 14 = Some (m ! 14)" "mem_bytes m 14 (unat (m ! 14 AND 0x0f) * 4) = Some (hdr m)"
    "host32 le m (14 + 12) = Some (src_ip le m)" "mem8 m (14 + 8) = Some (m ! 22)"
    "host32 le m (14 + 16) = Some (dst_ip le m)" "put8 m (14 + 8) v = Some (m[22 := v])" for v
    using d(2,3) by (simp_all add: mem_simps hdr_def hdr_size_def src_ip_def dst_ip_def)
  have same: "hdr_size (m[22 := ttl]) = hdr_size m" "src_ip le (m[22 := ttl]) = src_ip le m"
    by (simp_all add: hdr_size_def src_ip_def)
  have ip: "IpAddress f1 = IpAddress f" by (simp add: f1_def KnownArp_frame)
  show ?thesis
    unfolding L3RecvIp.simps [of le now s name p self] f option.case d(1) Option.bind_lunit Let_def
      m_def [symmetric] c
    unfolding f1_def [unfolded m_def [symmetric], symmetric] report_def same hdr_size_def [symmetric]
      s1_def [unfolded sender_known_def m_def [symmetric] f1_def [unfolded m_def [symmetric], symmetric], symmetric]
      less_ttl_def [symmetric] ttl_def [symmetric] ip
    by simp
qed

section \<open>The frames and packets the switch makes\<close>

definition icmp_ip :: "bool \<Rightarrow> L3IF \<Rightarrow> nat \<Rightarrow> u32 \<Rightarrow> IPV4_HEADER" where
  "icmp_ip le f h src =
     \<lparr>VersionAndHeaderLength = IPV4_SET_HEADER_LEN (IPV4_SET_VERSION 0 4) 5, TypeOfService = 0,
      TotalLength = Endian16 le (of_nat (36 + h)), Identification = 0,
      FlagsAndFlagmentOffset = [0, 0], TimeToLive = 0xff, IP_Protocol = IP_PROTO_ICMPV4,
      IP_Checksum = 0, IP_SrcIP = IpAddress f, IP_DstIP = src\<rparr>"

definition error_frame :: "u8 list \<Rightarrow> L3IF \<Rightarrow> u32 \<Rightarrow> bool \<Rightarrow> u8 \<Rightarrow> bool" where
  "error_frame buf f src le ty \<longleftrightarrow>
     v4_frame buf \<and> length buf \<le> 110 \<and> buf ! 22 = 0xff \<and> IpCheckChecksum le (hdr buf) \<and>
     src_ip le buf = IpAddress f \<and> dst_ip le buf = src \<and> buf ! 23 = IP_PROTO_ICMPV4 \<and> buf ! 34 = ty \<and>
     hdr_size buf = 20 \<and> 50 \<le> length buf \<and> take 12 buf = replicate 12 0"

lemma icmp_error_spec:
  assumes "20 \<le> h" and "h \<le> 60" and "14 + h \<le> length m"
  shows "\<exists>buf. icmp_error le f ty m 14 h src = Some buf \<and> error_frame buf f src le ty"
proof -
  define n where "n = min (length m - h) (h + 8)"
  define data where "data = take n (drop 14 m)"
  have n: "14 + n \<le> length m" "n \<le> h + 8" using assms by (auto simp: n_def)
  then have data: "mem_bytes m 14 n = Some data" "length data = n" by (simp_all add: mem_simps data_def)
  define c where "c = IpChecksum le ([ty, 0, 0, 0] @ [0, 0, 0, 0] @ data)"
  define i where "i = IpChecksum le (ip_bytes le (icmp_ip le f h src))"
  define ip where "ip = ip_bytes le ((icmp_ip le f h src)\<lparr>IP_Checksum := i\<rparr>)"
  define buf where "buf = replicate 12 0 @ [0x08, 0x00] @ ip @ [ty, 0] @ mem16 le c @ [0, 0, 0, 0] @ data @
    replicate (h + 8 - n) 0"
  have eq: "icmp_error le f ty m 14 h src = Some buf"
    unfolding icmp_error_def Let_def n_def [symmetric] data(1) Option.bind_lunit buf_def c_def ip_def i_def icmp_ip_def
    by (simp add: add.commute)
  have ip_eq: "ip = [0x45, 0] @ be16 (of_nat (36 + h)) @ [0, 0, 0, 0, 0xff, 1] @ mem16 le i @ mem32 le (IpAddress f) @ mem32 le src"
    unfolding ip_def icmp_ip_def ip_bytes_def by (simp add: IPV4_SET_VERSION_def IPV4_SET_HEADER_LEN_def)
  have len: "length ip = 20" "length buf = 50 + h" using data(2) n(2) by (simp_all add: ip_eq buf_def)
  have tot: "unat (of_nat (36 + h) :: u16) = 36 + h"
    using assms(2) by (simp add: unat_of_nat del: of_nat_add)
  have byte14: "buf ! 14 = 0x45" by (simp add: buf_def ip_eq nth_append)
  have body: "drop 14 buf = ip @ [ty, 0] @ mem16 le c @ [0, 0, 0, 0] @ data @ replicate (h + 8 - n) 0"
    by (simp add: buf_def)
  have hd: "hdr buf = ip" unfolding hdr_def hdr_size_def byte14 body using len(1) by simp
  have fields: "take 2 (drop 16 buf) = be16 (of_nat (36 + h))" "take 4 (drop 26 buf) = mem32 le (IpAddress f)"
    "take 4 (drop 30 buf) = mem32 le src" "take 2 (drop 12 buf) = [8, 0]" "buf ! 22 = 0xff" "buf ! 23 = 1" "buf ! 34 = ty"
    unfolding buf_def ip_eq by (simp_all add: nth_append)
  have "IpCheckChecksum le ip"
  proof -
    have "IpCheckChecksum le (ip_bytes le ((icmp_ip le f h src)\<lparr>IP_Checksum := i\<rparr>) @ [])"
      unfolding i_def
      by (rule ip_header_checks) (simp_all add: icmp_ip_def IPV4_SET_VERSION_def IPV4_SET_HEADER_LEN_def)
    then show ?thesis by (simp add: ip_def)
  qed
  moreover have "v4_frame buf" using assms len tot by (simp add: v4_frame_def fields byte14)
  ultimately have "error_frame buf f src le ty"
    using len(2) assms(2) by (simp add: error_frame_def hd fields src_ip_def dst_ip_def hdr_size_def byte14)
      (simp add: buf_def)
  then show ?thesis using eq by blast
qed

text \<open>The header of a stored packet: the checksum made new.\<close>

definition with_checksum :: "bool \<Rightarrow> u8 list \<Rightarrow> u8 list" where
  "with_checksum le m =
     (let z = take 24 m @ [0, 0] @ drop 26 m
      in take 24 m @ mem16 le (IpChecksum le (hdr z)) @ drop 26 m)"

definition stored :: "u64 \<Rightarrow> PKT \<Rightarrow> u8 list \<Rightarrow> u32 \<Rightarrow> L3PACKET" where
  "stored now p m hop = \<lparr>Packet = p\<lparr>PacketData := m\<rparr>, PACKET_Expire = now + IP_WAIT_FOR_ARP_TIMEOUT, NextHopIp = hop\<rparr>"

lemma stored_simps [simp]:
  "Packet (stored now p m hop) = p\<lparr>PacketData := m\<rparr>"
  "PACKET_Expire (stored now p m hop) = now + IP_WAIT_FOR_ARP_TIMEOUT"
  "NextHopIp (stored now p m hop) = hop"
  by (simp_all add: stored_def)

lemma nth14_zeroed: "26 \<le> length m \<Longrightarrow> (take 24 m @ w) ! 14 = m ! 14"
  by (simp add: nth_append)

lemma store_packet_eq:
  assumes "14 + hdr_size m \<le> length m" and "20 \<le> hdr_size m"
  shows "store_packet le now s p m 14 (hdr_size m) d hop =
    Some (if_set s (L3StoreIpPacketToIf d (stored now p (with_checksum le m) hop)))"
proof -
  define z where "z = take 24 m @ [0, 0] @ drop 26 m"
  have len: "length z = length m" using assms by (simp add: z_def)
  have parts: "take 24 z = take 24 m" "drop 26 z = drop 26 m" using assms by (simp_all add: z_def)
  have hs: "hdr_size z = hdr_size m" unfolding hdr_size_def z_def using assms by (simp add: nth14_zeroed)
  have a: "put16 le m (14 + 10) 0 = Some z"
  proof -
    have "mem16 le 0 = [0, 0]" by (rule mem16_zero)
    then show ?thesis using assms by (simp add: put16_def z_def)
  qed
  have b: "mem_bytes z 14 (hdr_size m) = Some (hdr z)" using assms len by (simp add: mem_bytes_def hdr_def hs)
  have c: "put16 le z (14 + 10) v = Some (take 24 m @ mem16 le v @ drop 26 m)" for v
    using assms len parts by (simp add: put16_def)
  show ?thesis
    unfolding store_packet_def a Option.bind_lunit b c Let_def stored_def with_checksum_def z_def [symmetric] by simp
qed

lemma with_checksum_checks:
  assumes "14 + hdr_size m \<le> length m" and "20 \<le> hdr_size m"
  shows "IpCheckChecksum le (hdr (with_checksum le m))" and "length (with_checksum le m) = length m"
    and "hdr_size (with_checksum le m) = hdr_size m"
    and "take 24 (with_checksum le m) = take 24 m" and "drop 26 (with_checksum le m) = drop 26 m"
proof -
  define z where "z = take 24 m @ [0, 0] @ drop 26 m"
  define c where "c = IpChecksum le (hdr z)"
  define w where "w = take 24 m @ mem16 le c @ drop 26 m"
  have w: "with_checksum le m = w" by (simp add: with_checksum_def w_def c_def z_def Let_def)
  have h: "hdr_size z = hdr_size m" "hdr_size w = hdr_size m"
    unfolding hdr_size_def z_def w_def using assms by (simp_all add: nth14_zeroed)
  show "length (with_checksum le m) = length m" "hdr_size (with_checksum le m) = hdr_size m"
    "take 24 (with_checksum le m) = take 24 m" "drop 26 (with_checksum le m) = drop 26 m"
    unfolding w using assms h(2) by (simp_all add: w_def)
  have hz: "hdr z = take 10 (drop 14 m) @ [0, 0] @ take (hdr_size m - 12) (drop 26 m)"
  proof -
    have "hdr_size m - 10 = Suc (Suc (hdr_size m - 12))" using assms by linarith
    then show ?thesis using assms unfolding hdr_def h(1) unfolding z_def by (simp add: drop_take)
  qed
  have hw: "hdr w = take 10 (drop 14 m) @ mem16 le c @ take (hdr_size m - 12) (drop 26 m)"
    using assms unfolding hdr_def h(2) unfolding w_def by (simp add: drop_take)
  have "hd (hdr w) = m ! 14" using assms by (simp add: hw hd_append hd_drop_conv_nth)
  then have "unat (hd (hdr w) AND 0x0f) * 4 = hdr_size m" by (simp add: hdr_size_def)
  moreover have "take 2 (drop 10 (hdr w)) = mem16 le c" "take 10 (hdr w) = take 10 (drop 14 m)"
    "drop 12 (hdr w) = take (hdr_size m - 12) (drop 26 m)"
    using assms by (simp_all add: hw)
  moreover have "take (hdr_size m) (hdr z) = hdr z" by (simp add: hdr_def h)
  ultimately have "IpCheckChecksum le (hdr w)"
    unfolding IpCheckChecksum_def Let_def by (simp add: c_def hz [symmetric] del: append_Cons)
  then show "IpCheckChecksum le (hdr (with_checksum le m))" by (simp add: w)
qed

text \<open>An echo request turned round: a specification of the packet that goes back.\<close>

definition icmp_body :: "u8 list \<Rightarrow> u8 list" where
  "icmp_body m = drop (14 + hdr_size m) m"

definition echoed :: "bool \<Rightarrow> u8 list \<Rightarrow> u8 list" where
  "echoed le m =
     (let h = hdr_size m; code = m ! (15 + h); rest = drop (18 + h) m
      in take 20 m @ [0, 0, 0xff, m ! 23] @ take 2 (drop 24 m) @ take 4 (drop 30 m) @ take 4 (drop 26 m) @
         take (h - 20) (drop 34 m) @ [ICMP_TYPE_ECHO_RESPONSE, code] @
         mem16 le (IpChecksum le ([ICMP_TYPE_ECHO_RESPONSE, code] @ [0, 0] @ rest)) @ rest)"

lemma put_split:
  "length a = i \<Longrightarrow> put8 (a @ x # r) i v8 = Some (a @ v8 # r)"
  "length a = i \<Longrightarrow> length x2 = 2 \<Longrightarrow> put16 le (a @ x2 @ r) i v16 = Some (a @ mem16 le v16 @ r)"
  "length a = i \<Longrightarrow> length x4 = 4 \<Longrightarrow> put32 le (a @ x4 @ r) i v32 = Some (a @ mem32 le v32 @ r)"
  by (auto simp: put8_def put16_def put32_def list_update_append)

lemma take_drop_Cons: "i < length m \<Longrightarrow> drop i m = m ! i # drop (Suc i) m"
  by (simp add: Cons_nth_drop_Suc)

lemma drop_split: "drop i m = take n (drop i m) @ drop (i + n) m"
  by (metis add.commute append_take_drop_id drop_drop)

lemma packet_parts:
  assumes "14 + h + 4 \<le> length m" and "20 \<le> h"
  shows "m = take 20 m @ m ! 20 # m ! 21 # m ! 22 # m ! 23 # take 2 (drop 24 m) @ take 4 (drop 26 m) @
    take 4 (drop 30 m) @ take (h - 20) (drop 34 m) @ m ! (14 + h) # m ! (15 + h) # take 2 (drop (16 + h) m) @ drop (18 + h) m"
proof -
  have e: "34 + (h - 20) = 14 + h" using assms(2) by simp
  have "drop (14 + h) m = m ! (14 + h) # m ! (15 + h) # take 2 (drop (16 + h) m) @ drop (18 + h) m"
    using take_drop_Cons [of "14 + h" m] take_drop_Cons [of "15 + h" m] drop_split [of "16 + h" m 2] assms
    by (simp add: add.commute)
  moreover have "drop 34 m = take (h - 20) (drop 34 m) @ drop (14 + h) m" using drop_split [of 34 m "h - 20"] e by simp
  moreover have "drop 24 m = take 2 (drop 24 m) @ take 4 (drop 26 m) @ take 4 (drop 30 m) @ drop 34 m"
    using drop_split [of 24 m 2] drop_split [of 26 m 4] drop_split [of 30 m 4] by simp
  moreover have "drop 20 m = m ! 20 # m ! 21 # m ! 22 # m ! 23 # drop 24 m"
    using take_drop_Cons [of 20 m] take_drop_Cons [of 21 m] take_drop_Cons [of 22 m] take_drop_Cons [of 23 m] assms by simp
  moreover have "m = take 20 m @ drop 20 m" by simp
  ultimately show ?thesis by metis
qed

lemma echo_reply_eq:
  assumes "TypeL4 p = L4_ICMPV4 \<Longrightarrow> L4_at p = Some (14 + hdr_size m) \<and> 14 + hdr_size m + 4 \<le> length m"
    and "20 \<le> hdr_size m"
  shows "echo_reply le now s p m 14 (hdr_size m) =
    (if TypeL4 p \<noteq> L4_ICMPV4 \<or> m ! (14 + hdr_size m) \<noteq> ICMP_TYPE_ECHO_REQUEST then Some s
     else case L3GetNextIf s (src_ip le m) of
         None \<Rightarrow> Some s
       | Some (d, hop) \<Rightarrow> store_packet le now s p (echoed le m) 14 (hdr_size m) d hop)"
proof (cases "TypeL4 p = L4_ICMPV4")
  case False
  then show ?thesis by (simp add: echo_reply_def)
next
  case True
  define h where "h = hdr_size m"
  have l4: "L4_at p = Some (14 + h)" and len: "14 + h + 4 \<le> length m" and h: "20 \<le> h"
    using assms True by (simp_all add: h_def)
  define A S D Op R where "A = take 20 m" and "S = take 4 (drop 26 m)" and "D = take 4 (drop 30 m)"
    and "Op = take (h - 20) (drop 34 m)" and "R = drop (18 + h) m"
  define C K where "C = take 2 (drop 24 m)" and "K = take 2 (drop (16 + h) m)"
  define f0 f1 t pr ty code where "f0 = m ! 20" and "f1 = m ! 21" and "t = m ! 22" and "pr = m ! 23"
    and "ty = m ! (14 + h)" and "code = m ! (15 + h)"
  have n: "length A = 20" "length S = 4" "length D = 4" "length Op = h - 20" "length C = 2" "length K = 2"
    using len h by (simp_all add: A_def S_def D_def Op_def C_def K_def)
  have m: "m = A @ f0 # f1 # t # pr # C @ S @ D @ Op @ ty # code # K @ R"
    unfolding A_def S_def D_def Op_def R_def C_def K_def f0_def f1_def t_def pr_def ty_def code_def
    using packet_parts [OF len h] .
  have wS: "mem32 le (of_mem32 le S) = S" "mem32 le (of_mem32 le D) = D" using n by (simp_all add: mem_of_mem)
  have c: "mem8 m (14 + h) = Some ty" "host32 le m (14 + 16) = Some (of_mem32 le D)" "host32 le m (14 + 12) = Some (of_mem32 le S)"
    using len h by (simp_all add: mem_simps ty_def D_def S_def)
  define ck where "ck = IpChecksum le (0 # code # 0 # 0 # R)"
  have p1: "put32 le m (14 + 16) (of_mem32 le S) = Some (A @ f0 # f1 # t # pr # C @ S @ S @ Op @ ty # code # K @ R)"
    using put_split(3) [of "A @ f0 # f1 # t # pr # C @ S" 30 D le "Op @ ty # code # K @ R"] n wS
    by (simp add: m [symmetric])
  have p2: "put32 le (A @ f0 # f1 # t # pr # C @ S @ S @ Op @ ty # code # K @ R) (14 + 12) (of_mem32 le D) =
      Some (A @ f0 # f1 # t # pr # C @ D @ S @ Op @ ty # code # K @ R)"
    using put_split(3) [of "A @ f0 # f1 # t # pr # C" 26 S le "S @ Op @ ty # code # K @ R"] n wS by simp
  have p3: "put8 (A @ f0 # f1 # t # pr # C @ D @ S @ Op @ ty # code # K @ R) (14 + 8) 0xff =
      Some (A @ f0 # f1 # 0xff # pr # C @ D @ S @ Op @ ty # code # K @ R)"
    using put_split(1) [of "A @ [f0, f1]" 22 t] n by simp
  have p4: "put8 (A @ f0 # f1 # 0xff # pr # C @ D @ S @ Op @ ty # code # K @ R) (14 + 6) 0 =
      Some (A @ 0 # f1 # 0xff # pr # C @ D @ S @ Op @ ty # code # K @ R)"
    using put_split(1) [of "A" 20 f0] n by simp
  define H where "H = A @ 0 # 0 # 0xff # pr # C @ D @ S @ Op"
  have l: "length H = 14 + h" using n h by (simp add: H_def)
  have p5: "put8 (A @ 0 # f1 # 0xff # pr # C @ D @ S @ Op @ ty # code # K @ R) (14 + 7) 0 =
      Some (H @ ty # code # K @ R)"
    using put_split(1) [of "A @ [0]" 21 f1] n by (simp add: H_def)
  have p6: "put16 le (H @ ty # code # K @ R) (14 + h + 2) 0 = Some (H @ ty # code # 0 # 0 # R)"
    using put_split(2) [of "H @ [ty, code]" "14 + h + 2" K le R 0] n(6) l by simp
  have p7: "put8 (H @ ty # code # 0 # 0 # R) (14 + h) ICMP_TYPE_ECHO_RESPONSE = Some (H @ 0 # code # 0 # 0 # R)"
    using put_split(1) [of H "14 + h" ty "code # 0 # 0 # R" 0] l by simp
  have p8: "mem_bytes (H @ 0 # code # 0 # 0 # R) (14 + h) (length (H @ 0 # code # 0 # 0 # R) - 14 - h) = Some (0 # code # 0 # 0 # R)"
    using l by (simp add: mem_bytes_def)
  have p9: "put16 le (H @ 0 # code # 0 # 0 # R) (14 + h + 2) ck = Some (H @ 0 # code # mem16 le ck @ R)"
    using put_split(2) [of "H @ [0, code]" "14 + h + 2" "[0, 0]" le R ck] l by simp
  have e: "H @ 0 # code # mem16 le ck @ R = echoed le m"
    unfolding echoed_def Let_def h_def [symmetric] ck_def
    by (simp add: H_def A_def pr_def C_def D_def S_def Op_def R_def code_def)
  have "echo_reply le now s p m 14 h =
      (if ty \<noteq> ICMP_TYPE_ECHO_REQUEST then Some s
       else case L3GetNextIf s (of_mem32 le S) of
         None \<Rightarrow> Some s
       | Some (d, hop) \<Rightarrow> store_packet le now s p (echoed le m) 14 h d hop)"
    unfolding echo_reply_def l4 Option.bind_lunit c p1 p2 p3 p4 p5 p6 p7 p8 ck_def [symmetric] p9 e
    using True by simp
  then show ?thesis using True unfolding h_def [symmetric] ty_def S_def src_ip_def by simp
qed

section \<open>Every packet is handled, and the state stays sane\<close>

lemma IpCheckChecksum_hdr:
  assumes "14 + hdr_size m \<le> length m" and "20 \<le> hdr_size m"
  shows "IpCheckChecksum le (drop 14 m) = IpCheckChecksum le (hdr m)"
proof -
  have "hd (drop 14 m) = m ! 14" using assms by (simp add: hd_drop_conv_nth)
  moreover have "hd (hdr m) = m ! 14"
    using assms by (simp add: hdr_def hd_take hd_drop_conv_nth)
  moreover have "take 2 (drop 10 (drop 14 m)) = take 2 (drop 10 (hdr m))"
    using assms by (simp add: hdr_def drop_take)
  moreover have "take (hdr_size m) (take 10 (drop 14 m) @ [0, 0] @ drop 12 (drop 14 m)) =
      take (hdr_size m) (take 10 (hdr m) @ [0, 0] @ drop 12 (hdr m))"
  proof -
    have "hdr_size m - 10 = Suc (Suc (hdr_size m - 12))" using assms by linarith
    then show ?thesis using assms by (simp add: hdr_def drop_take)
  qed
  ultimately show ?thesis by (simp add: IpCheckChecksum_def Let_def hdr_size_def)
qed

lemma store_live:
  assumes live: "sw_live le s" and d: "if_get s (HubName d) = Some d" and p: "packet_ok p" "TypeL3 p = L3_IPV4"
    and m: "14 + hdr_size m \<le> length m" "20 \<le> hdr_size m"
  shows "\<exists>s'. store_packet le now s p m 14 (hdr_size m) d hop = Some s' \<and> sw_live le s'"
proof -
  let ?w = "with_checksum le m"
  define pk where "pk = stored now p ?w hop"
  note w = with_checksum_checks [OF m, of le]
  have "IpCheckChecksum le (drop 14 ?w)" using IpCheckChecksum_hdr [of ?w le] w(1-3) m by simp
  then have pk: "packet_ok (Packet pk)" "TypeL3 (Packet pk) = L3_IPV4" "IpCheckChecksum le (drop 14 (PacketData (Packet pk)))"
    using p w(2) m by (simp_all add: pk_def stored_def packet_ok_def)
  have "if_inv d" "queue_ok le d" using if_get_inv [OF live d] by auto
  then have "if_inv (L3StoreIpPacketToIf d pk)" "queue_ok le (L3StoreIpPacketToIf d pk)"
    using pk step_inv [OF packet_stored [of pk le d]] by (auto simp: L3StoreIpPacketToIf_def queue_ok_def)
  then show ?thesis using if_set_live [OF live] store_packet_eq [OF m, of le now s p d hop] by (simp add: pk_def)
qed

lemma known_live:
  assumes live: "sw_live le s" and f: "if_get s name = Some f" and p: "packet_ok p"
  shows "sw_live le (sender_known le now s f p)"
proof -
  have "if_inv f" "queue_ok le f" using if_get_inv [OF live f] by auto
  then have "if_inv (L3KnownArp le now f ip (MacAddressSrc p))" "queue_ok le (L3KnownArp le now f ip (MacAddressSrc p))" for ip
    using p by (simp_all add: KnownArp_inv packet_okD queue_ok_def KnownArp_frame)
  then show ?thesis using if_set_live [OF live] by (simp add: sender_known_def)
qed

lemma hdr_size_ttl [simp]: "hdr_size (m[22 := v]) = hdr_size m"
  by (simp add: hdr_size_def)

lemma echoed_size:
  assumes "14 + hdr_size m + 4 \<le> length m" and "20 \<le> hdr_size m"
  shows "length (echoed le m) = length m" and "hdr_size (echoed le m) = hdr_size m"
proof -
  show "length (echoed le m) = length m" using assms by (simp add: echoed_def Let_def)
  have "echoed le m ! 14 = m ! 14" using assms by (simp add: echoed_def Let_def nth_append)
  then show "hdr_size (echoed le m) = hdr_size m" by (simp add: hdr_size_def)
qed

lemma echo_live:
  assumes live: "sw_live le s" and p: "packet_ok p" "TypeL3 p = L3_IPV4"
    and l4: "TypeL4 p = L4_ICMPV4 \<Longrightarrow> L4_at p = Some (14 + hdr_size m) \<and> 14 + hdr_size m + 4 \<le> length m"
    and m: "14 + hdr_size m \<le> length m" "20 \<le> hdr_size m"
  shows "\<exists>s'. echo_reply le now s p m 14 (hdr_size m) = Some s' \<and> sw_live le s'"
proof (cases "TypeL4 p = L4_ICMPV4 \<and> m ! (14 + hdr_size m) = ICMP_TYPE_ECHO_REQUEST")
  case False
  then show ?thesis using echo_reply_eq [OF l4 m(2), of le now s] live by auto
next
  case True
  then have len: "14 + hdr_size m + 4 \<le> length m" using l4 by blast
  have eq: "echo_reply le now s p m 14 (hdr_size m) = (case L3GetNextIf s (src_ip le m) of
         None \<Rightarrow> Some s
       | Some (d, hop) \<Rightarrow> store_packet le now s p (echoed le m) 14 (hdr_size m) d hop)"
    using echo_reply_eq [OF l4 m(2), of le now s] True by simp
  show ?thesis
  proof (cases "L3GetNextIf s (src_ip le m)")
    case None
    then show ?thesis using eq live by simp
  next
    case (Some a)
    then obtain d hop where a: "L3GetNextIf s (src_ip le m) = Some (d, hop)" by (cases a) simp
    note e = echoed_size [OF len m(2), of le]
    have "\<exists>s'. store_packet le now s p (echoed le m) 14 (hdr_size (echoed le m)) d hop = Some s' \<and> sw_live le s'"
      using GetNextIf_if_get [OF live a] e m by (intro store_live [OF live _ p]) simp_all
    then show ?thesis using eq a e(2) by simp
  qed
qed

text \<open>Everything but the errors, for a packet of any origin.\<close>

definition handled :: "bool \<Rightarrow> L3SW option \<Rightarrow> bool" where
  "handled le r \<longleftrightarrow> (\<exists>s. r = Some s \<and> sw_live le s)"

lemma RecvIp_handled:
  assumes live: "sw_live le s" and p: "ip_packet p"
    and error: "\<And>f f1 s1 ty m. if_get s name = Some f \<Longrightarrow> f1 = L3KnownArp le now f (src_ip le (PacketData p)) (MacAddressSrc p) \<Longrightarrow>
      sw_live le s1 \<Longrightarrow> length m = length (PacketData p) \<Longrightarrow> hdr_size m = hdr_size (PacketData p) \<Longrightarrow>
      less_ttl (PacketData p ! 22) = 0 \<or> \<not> self \<Longrightarrow> handled le (report le now s1 name f1 ty m)"
  shows "handled le (L3RecvIp le now s name p self)"
proof (cases "if_get s name")
  case None
  then have "L3RecvIp le now s name p self = Some s" by (subst L3RecvIp.simps) simp
  then show ?thesis using live by (simp add: handled_def)
next
  case (Some f)
  let ?m = "PacketData p"
  let ?s1 = "sender_known le now s f p"
  let ?m2 = "?m[22 := less_ttl (?m ! 22)]"
  note d = ip_packetD [OF p]
  have v4: "TypeL3 p = L3_IPV4" using p by (simp add: ip_packet_def)
  have live1: "sw_live le ?s1" using known_live [OF live Some d(5)] .
  have err: "handled le (report le now ?s1 name (L3KnownArp le now f (src_ip le ?m) (MacAddressSrc p)) ty m)"
    if "length m = length ?m" "hdr_size m = hdr_size ?m" "less_ttl (?m ! 22) = 0 \<or> \<not> self" for ty m
    using error [OF Some refl live1 that] .
  have store: "handled le (store_packet le now ?s1 p ?m2 14 (hdr_size ?m) g hop)"
    if "L3GetNextIf ?s1 (dst_ip le ?m) = Some (g, hop)" for g hop
    using store_live [OF live1 GetNextIf_if_get [OF live1 that] d(5) v4, of ?m2] d(2,3) by (simp add: handled_def)
  have echo: "handled le (echo_reply le now ?s1 p ?m2 14 (hdr_size ?m))"
    using echo_live [OF live1 d(5) v4, of ?m2] d(2,3,6) by (simp add: handled_def)
  have ok: "handled le (Some s)" "handled le (Some ?s1)" using live live1 by (simp_all add: handled_def)
  show ?thesis
    unfolding RecvIp_eq [OF p Some]
    using ok err [of ?m] err [of ?m2] store echo by (auto split: option.split)
qed

text \<open>A packet that the switch has made itself causes no other one.\<close>

lemma RecvIp_self:
  assumes "sw_live le s" and "ip_packet p" and "less_ttl (PacketData p ! 22) \<noteq> 0"
  shows "handled le (L3RecvIp le now s name p True)"
  using assms by (intro RecvIp_handled) simp_all

lemma report_handled:
  assumes live: "sw_live le s" and m: "20 \<le> hdr_size m" "hdr_size m \<le> 60" "14 + hdr_size m \<le> length m"
  shows "handled le (report le now s name f ty m)"
proof -
  obtain buf where buf: "icmp_error le f ty m 14 (hdr_size m) (src_ip le m) = Some buf"
    "error_frame buf f (src_ip le m) le ty" using icmp_error_spec [OF m] by blast
  have v4: "v4_frame buf" "length buf + 255 \<le> BUF_MAX" "buf ! 22 = 0xff"
    using buf(2) by (auto simp: error_frame_def)
  obtain r where r: "ParsePacket le buf (of_nat (length buf)) = Some r"
    "\<forall>p. r = Some p \<longrightarrow> PacketData p = buf \<and> ip_packet p"
    using ParsePacket_v4 [OF v4(1,2), of le] unfolding ip_packet_def by (metis (no_types, lifting))
  have "handled le (L3RecvIp le now s name p True)" if "r = Some p" for p
    using r(2) that v4(3) by (intro RecvIp_self [OF live]) (auto simp: less_ttl_def)
  then show ?thesis using live buf(1) r(1) by (cases r) (simp_all add: report_def handled_def)
qed

lemma RecvIp_total:
  assumes "sw_live le s" and "ip_packet p"
  shows "handled le (L3RecvIp le now s name p self)"
  using ip_packetD [OF assms(2)] by (intro RecvIp_handled [OF assms] report_handled) simp_all

lemma RecvL2_total:
  assumes live: "sw_live le s" and "parsed (PacketData p) (length (PacketData p)) p" and "14 \<le> length (PacketData p)"
    and "TypeL3 p \<noteq> L3_BPDU \<longrightarrow> MacAddressSrc_at p = 6"
  shows "handled le (L3RecvL2 le now s name p)"
proof (cases "if_get s name")
  case None
  then show ?thesis using live by (simp add: L3RecvL2_def handled_def)
next
  case (Some f)
  note f = if_get_inv [OF live Some]
  have "handled le (Some (if_set s (L3RecvArp le now f p)))" if "TypeL3 p = L3_ARPV4"
  proof -
    have "packet_ok p" using that assms by (simp add: packet_ok_def parsed_def)
    then have "if_inv (L3RecvArp le now f p)" using f by (simp add: RecvArp_inv)
    moreover have "queue_ok le (L3RecvArp le now f p)" using f by (simp add: queue_ok_def RecvArp_frame)
    ultimately show ?thesis using if_set_live [OF live] by (simp add: handled_def)
  qed
  moreover have "handled le (L3RecvIp le now s name p False)" if "TypeL3 p = L3_IPV4"
    using that assms by (intro RecvIp_total) (simp_all add: ip_packet_def)
  ultimately show ?thesis using Some live by (simp add: L3RecvL2_def handled_def)
qed

text \<open>Whatever bytes arrive, the switch handles them and its state stays sane.\<close>

lemma PutPacket_total:
  assumes "sw_live le s" and "unat sz \<le> length data" and "unat sz + 255 \<le> BUF_MAX"
  shows "handled le (L3PutPacket le now s name (Some data) sz)"
proof -
  obtain r where r: "ParsePacket le data sz = Some r"
    "\<forall>p. r = Some p \<longrightarrow> length (PacketData p) \<le> unat sz \<and> 14 \<le> length (PacketData p) \<and>
      parsed (PacketData p) (length (PacketData p)) p \<and>
      MacAddressDest_at p = 0 \<and> (TypeL3 p \<noteq> L3_BPDU \<longrightarrow> MacAddressSrc_at p = 6)"
    using ParsePacketEx4_spec [OF assms(2,3)]
    unfolding ParsePacket_def ParsePacketEx_def ParsePacketEx2_def ParsePacketEx3_def by blast
  show ?thesis
  proof (cases r)
    case None
    then show ?thesis using r(1) assms(1) by (simp add: L3PutPacket_def handled_def)
  next
    case (Some p)
    then have "handled le (L3RecvL2 le now s name p)" using r(2) assms(1) by (intro RecvL2_total) simp_all
    then show ?thesis using r(1) Some by (simp add: L3PutPacket_def)
  qed
qed

section \<open>Forwarding\<close>

text \<open>Learning the sender moves no queue and no route.\<close>

lemma find_map_same_on:
  "\<forall>x \<in> set xs. P (g x) = P x \<Longrightarrow> find P (map g xs) = map_option g (find P xs)"
  by (induction xs) simp_all

lemma GetNextIf_known:
  assumes live: "sw_live le s" and f: "if_get s name = Some f"
    and f1: "HubName f1 = HubName f" "IpAddress f1 = IpAddress f" "SubnetMask f1 = SubnetMask f"
  shows "L3GetNextIf (if_set s f1) ip = map_option (\<lambda>(d, hop). (if HubName d = name then f1 else d, hop)) (L3GetNextIf s ip)"
proof -
  let ?g = "\<lambda>d. if HubName d = HubName f1 then f1 else d"
  have name: "HubName f1 = name" using if_get_SomeD [OF f] f1 by simp
  have same: "in_network i (?g x) = in_network i x" if x: "x \<in> set (items (IfList s))" for i x
  proof -
    have "x = f" if "HubName x = HubName f1" using if_get_mem [OF live x] that f name by simp
    then show ?thesis using f1 by (auto simp: in_network_def)
  qed
  then have "find (in_network i) (map ?g (items (IfList s))) = map_option ?g (find (in_network i) (items (IfList s)))" for i
    by (intro find_map_same_on) blast
  moreover have "L3GetBestRoute (if_set s f1) ip = L3GetBestRoute s ip" by (simp add: L3GetBestRoute_def if_set_def)
  ultimately show ?thesis
    by (auto simp: L3GetNextIf_def if_set_def name split: option.splits)
qed

lemma sender_known_get:
  assumes "if_get s name = Some f"
  shows "if_get (sender_known le now s f p) n =
    (if n = name then Some (L3KnownArp le now f (src_ip le (PacketData p)) (MacAddressSrc p)) else if_get s n)"
  using if_get_set [of s "L3KnownArp le now f (src_ip le (PacketData p)) (MacAddressSrc p)" n] if_get_SomeD [OF assms] assms
  by (simp add: sender_known_def KnownArp_frame)

text \<open>One packet more is in the queue of one interface, the others are as they were.\<close>

definition queued :: "L3SW \<Rightarrow> cstr \<Rightarrow> L3PACKET \<Rightarrow> L3SW \<Rightarrow> bool" where
  "queued s name pk s' \<longleftrightarrow>
     (\<forall>n. map_option IpPacketQueue (if_get s' n) =
       map_option (\<lambda>d. if n = name then IpPacketQueue d @ [pk] else IpPacketQueue d) (if_get s n))"

lemma store_queued:
  assumes "if_get s1 (HubName d) = Some d"
    and "\<And>n. map_option IpPacketQueue (if_get s1 n) = map_option IpPacketQueue (if_get s n)"
  shows "queued s (HubName d) pk (if_set s1 (L3StoreIpPacketToIf d pk))"
  unfolding queued_def
proof
  fix n
  have get: "if_get (if_set s1 (L3StoreIpPacketToIf d pk)) n =
      (if n = HubName d then Some (L3StoreIpPacketToIf d pk) else if_get s1 n)"
    using if_get_set [of s1 "L3StoreIpPacketToIf d pk" n] assms(1) by (simp add: L3StoreIpPacketToIf_def)
  show "map_option IpPacketQueue (if_get (if_set s1 (L3StoreIpPacketToIf d pk)) n) =
      map_option (\<lambda>d'. if n = HubName d then IpPacketQueue d' @ [pk] else IpPacketQueue d') (if_get s n)"
  proof (cases "n = HubName d")
    case True
    then have "map_option IpPacketQueue (if_get s n) = Some (IpPacketQueue d)" using assms(2) [of n] assms(1) by simp
    then show ?thesis using True get by (auto simp: L3StoreIpPacketToIf_def)
  next
    case False
    then show ?thesis using get assms(2) [of n] by simp
  qed
qed

lemma sender_known_queues:
  assumes "if_get s name = Some f"
  shows "map_option IpPacketQueue (if_get (sender_known le now s f p) n) = map_option IpPacketQueue (if_get s n)"
  using assms by (simp add: sender_known_get [OF assms] KnownArp_frame)

lemma sender_known_next:
  assumes live: "sw_live le s" and f: "if_get s name = Some f" and r: "L3GetNextIf s ip = Some (d, hop)"
  shows "\<exists>d1. L3GetNextIf (sender_known le now s f p) ip = Some (d1, hop) \<and> HubName d1 = HubName d \<and>
    IpAddress d1 = IpAddress d"
proof -
  let ?f1 = "L3KnownArp le now f (src_ip le (PacketData p)) (MacAddressSrc p)"
  have "if_get s (HubName d) = Some d" using GetNextIf_if_get [OF live r] .
  then have "HubName d = name \<Longrightarrow> d = f" using f by simp
  then show ?thesis
    using GetNextIf_known [OF live f, of ?f1 ip] r if_get_SomeD [OF f]
    by (auto simp: sender_known_def KnownArp_frame)
qed

definition forwarded :: "bool \<Rightarrow> u8 list \<Rightarrow> u8 list \<Rightarrow> bool" where
  "forwarded le m m' \<longleftrightarrow>
     length m' = length m \<and> take 22 m' = take 22 m \<and> m' ! 22 = m ! 22 - 1 \<and> m' ! 23 = m ! 23 \<and>
     drop 26 m' = drop 26 m \<and> IpCheckChecksum le (drop 14 m')"

lemma RecvIp_forward:
  assumes live: "sw_live le s" and p: "ip_packet p" and f: "if_get s name = Some f"
    and good: "IpCheckChecksum le (drop 14 (PacketData p))" "\<not> BroadcastPacket p" "2 \<le> unat (PacketData p ! 22)"
    and r: "L3GetNextIf s (dst_ip le (PacketData p)) = Some (d, hop)" "dst_ip le (PacketData p) \<noteq> IpAddress d"
  shows "\<exists>s' pk. L3RecvIp le now s name p self = Some s' \<and> queued s (HubName d) pk s' \<and> NextHopIp pk = hop \<and>
    PACKET_Expire pk = now + IP_WAIT_FOR_ARP_TIMEOUT \<and> forwarded le (PacketData p) (PacketData (Packet pk))"
proof -
  let ?m = "PacketData p"
  let ?s1 = "sender_known le now s f p"
  define m2 where "m2 = ?m[22 := ?m ! 22 - 1]"
  note h = ip_packetD [OF p]
  have ttl: "less_ttl (?m ! 22) = ?m ! 22 - 1" "?m ! 22 - 1 \<noteq> 0"
    using good(3) by (auto simp: less_ttl_def word_le_nat_alt)
  obtain d1 where d1: "L3GetNextIf ?s1 (dst_ip le ?m) = Some (d1, hop)" "HubName d1 = HubName d" "IpAddress d1 = IpAddress d"
    using sender_known_next [OF live f r(1)] by blast
  have m2: "14 + hdr_size m2 \<le> length m2" "20 \<le> hdr_size m2" "hdr_size ?m = hdr_size m2"
    using h(2,3) by (simp_all add: m2_def)
  note w = with_checksum_checks [OF m2(1,2), of le]
  have "L3RecvIp le now s name p self = store_packet le now ?s1 p m2 14 (hdr_size m2) d1 hop"
    unfolding RecvIp_eq [OF p f] using good(1,2) IpCheckChecksum_hdr [OF h(3,2)] ttl d1(1,3) r(2) m2(3)
    by (simp add: m2_def)
  then have eq: "L3RecvIp le now s name p self = Some (if_set ?s1 (L3StoreIpPacketToIf d1 (stored now p (with_checksum le m2) hop)))"
    using store_packet_eq [OF m2(1,2), of le now ?s1 p d1 hop] by simp
  have get: "if_get ?s1 (HubName d1) = Some d1"
    using GetNextIf_if_get [OF known_live [OF live f h(5)] d1(1)] .
  have q: "queued s (HubName d) (stored now p (with_checksum le m2) hop)
      (if_set ?s1 (L3StoreIpPacketToIf d1 (stored now p (with_checksum le m2) hop)))"
    using store_queued [OF get sender_known_queues [OF f]] by (simp add: d1(2))
  have "forwarded le ?m (with_checksum le m2)"
  proof -
    have t: "take 24 (with_checksum le m2) = take 24 m2" "drop 26 (with_checksum le m2) = drop 26 ?m"
      using w(4,5) by (simp_all add: m2_def)
    have "take 22 (with_checksum le m2) = take 22 (take 24 (with_checksum le m2))" by simp
    also have "\<dots> = take 22 ?m" unfolding t by (simp add: m2_def)
    finally have a: "take 22 (with_checksum le m2) = take 22 ?m" .
    have "with_checksum le m2 ! i = take 24 (with_checksum le m2) ! i" if "i < 24" for i using that by simp
    then have b: "with_checksum le m2 ! 22 = ?m ! 22 - 1" "with_checksum le m2 ! 23 = ?m ! 23"
      using h(2,3) unfolding t by (simp_all add: m2_def)
    have "IpCheckChecksum le (drop 14 (with_checksum le m2))"
      using IpCheckChecksum_hdr [of "with_checksum le m2" le] w(1-3) m2 by simp
    then show ?thesis using a b t(2) w(2) by (simp add: forwarded_def m2_def)
  qed
  note result = this
  show ?thesis by (intro exI conjI, rule eq, rule q) (simp_all add: result)
qed

section \<open>Echo replies\<close>

text \<open>The reply to an echo request: the addresses swapped, a new time to live, checksums that verify.\<close>

definition answers :: "bool \<Rightarrow> u8 list \<Rightarrow> u8 list \<Rightarrow> bool" where
  "answers le m m' \<longleftrightarrow>
     length m' = length m \<and> hdr_size m' = hdr_size m \<and> src_ip le m' = dst_ip le m \<and> dst_ip le m' = src_ip le m \<and>
     m' ! 22 = 0xff \<and> IpCheckChecksum le (drop 14 m') \<and> m' ! (14 + hdr_size m) = ICMP_TYPE_ECHO_RESPONSE \<and>
     drop (18 + hdr_size m) m' = drop (18 + hdr_size m) m \<and>
     (length m < 32768 \<longrightarrow> IpChecksum le (icmp_body m') = 0)"

lemma echoed_answers:
  assumes len: "14 + hdr_size m + 4 \<le> length m" and h: "20 \<le> hdr_size m"
  shows "answers le m (with_checksum le (echoed le m))"
proof -
  define e w where "e = echoed le m" and "w = with_checksum le e"
  define k where "k = hdr_size m"
  note sz = echoed_size [OF len h, of le, folded e_def]
  have e: "14 + hdr_size e \<le> length e" "20 \<le> hdr_size e" using sz len h by simp_all
  note wc = with_checksum_checks [OF e, of le, folded w_def]
  have wl: "length w = length m" "hdr_size w = k" using wc sz by (simp_all add: k_def)
  have e26: "drop 26 e = take 4 (drop 30 m) @ take 4 (drop 26 m) @ take (k - 20) (drop 34 m) @ [ICMP_TYPE_ECHO_RESPONSE, m ! (15 + k)] @
         mem16 le (IpChecksum le ([ICMP_TYPE_ECHO_RESPONSE, m ! (15 + k)] @ [0, 0] @ drop (18 + k) m)) @ drop (18 + k) m"
    using len h by (simp add: e_def echoed_def Let_def k_def)
  have w26: "drop 26 w = drop 26 e" using wc(5) .
  have addr: "take 4 (drop 26 w) = take 4 (drop 30 m)" "take 4 (drop 30 w) = take 4 (drop 26 m)"
  proof -
    show "take 4 (drop 26 w) = take 4 (drop 30 m)" unfolding w26 e26 using len h by simp
    have "drop 30 w = drop 4 (drop 26 w)" by simp
    then show "take 4 (drop 30 w) = take 4 (drop 26 m)" unfolding w26 e26 using len h by simp
  qed
  have body: "drop (14 + k) w = [ICMP_TYPE_ECHO_RESPONSE, m ! (15 + k)] @
         mem16 le (IpChecksum le ([ICMP_TYPE_ECHO_RESPONSE, m ! (15 + k)] @ [0, 0] @ drop (18 + k) m)) @ drop (18 + k) m"
  proof -
    have "26 + (k - 12) = 14 + k" using h by (simp add: k_def)
    then have "drop (14 + k) w = drop (k - 12) (drop 26 w)" by (metis drop_drop add.commute)
    also have "\<dots> = drop (k - 20) (drop 8 (drop 26 w))" using h by (simp add: k_def)
    also have "drop 8 (drop 26 w) = take (k - 20) (drop 34 m) @ [ICMP_TYPE_ECHO_RESPONSE, m ! (15 + k)] @
         mem16 le (IpChecksum le ([ICMP_TYPE_ECHO_RESPONSE, m ! (15 + k)] @ [0, 0] @ drop (18 + k) m)) @ drop (18 + k) m"
      unfolding w26 e26 using len h by simp
    finally show ?thesis using len h by (simp add: k_def)
  qed
  have "w ! 22 = 0xff"
  proof -
    have "w ! 22 = take 24 w ! 22" by simp
    also have "\<dots> = e ! 22" unfolding wc(4) by simp
    also have "\<dots> = 0xff" using len h by (simp add: e_def echoed_def Let_def nth_append)
    finally show ?thesis .
  qed
  moreover have "IpCheckChecksum le (drop 14 w)"
    using IpCheckChecksum_hdr [of w le] wc(1-3) e by simp
  moreover have "w ! (14 + k) = ICMP_TYPE_ECHO_RESPONSE"
  proof -
    have "w ! (14 + k) = hd (drop (14 + k) w)" using wl len by (simp add: hd_drop_conv_nth k_def)
    then show ?thesis unfolding body by simp
  qed
  moreover have "drop (18 + k) w = drop (18 + k) m"
  proof -
    have "drop (18 + k) w = drop 4 (drop (14 + k) w)" by (simp add: add.commute)
    then show ?thesis unfolding body by simp
  qed
  moreover have "IpChecksum le (icmp_body w) = 0" if "length m < 32768"
    unfolding icmp_body_def wl(2) body using that by (intro checksum_verifies) simp_all
  ultimately show ?thesis
    using wl addr by (simp add: answers_def src_ip_def dst_ip_def w_def [symmetric] e_def [symmetric] k_def [symmetric])
qed

lemma RecvIp_echo:
  assumes live: "sw_live le s" and p: "ip_packet p" and f: "if_get s name = Some f"
    and good: "IpCheckChecksum le (drop 14 (PacketData p))" "\<not> BroadcastPacket p" "2 \<le> unat (PacketData p ! 22)"
    and r: "L3GetNextIf s (dst_ip le (PacketData p)) = Some (d, hop)" "dst_ip le (PacketData p) = IpAddress d"
    and icmp: "TypeL4 p = L4_ICMPV4" "PacketData p ! (14 + hdr_size (PacketData p)) = ICMP_TYPE_ECHO_REQUEST"
    and home: "L3GetNextIf s (src_ip le (PacketData p)) = Some (b, bhop)"
  shows "\<exists>s' pk. L3RecvIp le now s name p self = Some s' \<and> queued s (HubName b) pk s' \<and> NextHopIp pk = bhop \<and>
    answers le (PacketData p) (PacketData (Packet pk))"
proof -
  let ?m = "PacketData p"
  let ?s1 = "sender_known le now s f p"
  define m2 where "m2 = ?m[22 := ?m ! 22 - 1]"
  note h = ip_packetD [OF p]
  have ttl: "less_ttl (?m ! 22) = ?m ! 22 - 1" "?m ! 22 - 1 \<noteq> 0"
    using good(3) by (auto simp: less_ttl_def word_le_nat_alt)
  obtain d1 where d1: "L3GetNextIf ?s1 (dst_ip le ?m) = Some (d1, hop)" "IpAddress d1 = IpAddress d"
    using sender_known_next [OF live f r(1)] by blast
  obtain b1 where b1: "L3GetNextIf ?s1 (src_ip le ?m) = Some (b1, bhop)" "HubName b1 = HubName b"
    using sender_known_next [OF live f home] by blast
  have sz: "hdr_size m2 = hdr_size ?m" "length m2 = length ?m" "src_ip le m2 = src_ip le ?m" "dst_ip le m2 = dst_ip le ?m"
    "drop (18 + hdr_size ?m) m2 = drop (18 + hdr_size ?m) ?m" "m2 ! (14 + hdr_size ?m) = ?m ! (14 + hdr_size ?m)"
    using h(2) by (simp_all add: m2_def src_ip_def dst_ip_def)
  have len: "14 + hdr_size m2 + 4 \<le> length m2" "20 \<le> hdr_size m2" using h(2,6) icmp(1) sz by simp_all
  note e = echoed_size [OF len, of le]
  have "L3RecvIp le now s name p self = echo_reply le now ?s1 p m2 14 (hdr_size m2)"
    unfolding RecvIp_eq [OF p f] using good(1,2) IpCheckChecksum_hdr [OF h(3,2)] ttl d1 r(2) sz(1)
    by (simp add: m2_def)
  also have "\<dots> = store_packet le now ?s1 p (echoed le m2) 14 (hdr_size m2) b1 bhop"
    using echo_reply_eq [of p m2 le now ?s1] h(6) len icmp sz b1(1) by simp
  also have "\<dots> = Some (if_set ?s1 (L3StoreIpPacketToIf b1 (stored now p (with_checksum le (echoed le m2)) bhop)))"
    using store_packet_eq [of "echoed le m2" le now ?s1 p b1 bhop] e len by simp
  finally have eq: "L3RecvIp le now s name p self = \<dots>" .
  have get: "if_get ?s1 (HubName b1) = Some b1"
    using GetNextIf_if_get [OF known_live [OF live f h(5)] b1(1)] .
  have q: "queued s (HubName b) (stored now p (with_checksum le (echoed le m2)) bhop)
      (if_set ?s1 (L3StoreIpPacketToIf b1 (stored now p (with_checksum le (echoed le m2)) bhop)))"
    using store_queued [OF get sender_known_queues [OF f]] by (simp add: b1(2))
  have "answers le ?m (with_checksum le (echoed le m2))"
    using echoed_answers [OF len, of le] sz by (simp add: answers_def)
  note result = this
  show ?thesis by (intro exI conjI, rule eq, rule q) (simp_all add: result)
qed

section \<open>Reports of errors\<close>

text \<open>A report goes, as a packet of its own, to the next hop towards the sender.\<close>

definition reports :: "bool \<Rightarrow> L3IF \<Rightarrow> u32 \<Rightarrow> u8 \<Rightarrow> u8 list \<Rightarrow> bool" where
  "reports le f src ty m \<longleftrightarrow>
     hdr_size m = 20 \<and> IpCheckChecksum le (drop 14 m) \<and> src_ip le m = IpAddress f \<and> dst_ip le m = src \<and>
     m ! 23 = IP_PROTO_ICMPV4 \<and> m ! 34 = ty"

lemma forwarded_reports:
  assumes "error_frame buf f src le ty" and "forwarded le buf m"
  shows "reports le f src ty m"
proof -
  have b: "hdr_size buf = 20" "src_ip le buf = IpAddress f" "dst_ip le buf = src" "buf ! 23 = 1" "buf ! 34 = ty" "50 \<le> length buf"
    using assms(1) by (simp_all add: error_frame_def)
  have m: "take 22 m = take 22 buf" "drop 26 m = drop 26 buf" "m ! 23 = buf ! 23" "length m = length buf" "IpCheckChecksum le (drop 14 m)"
    using assms(2) by (simp_all add: forwarded_def)
  have "m ! 14 = take 22 m ! 14" by simp
  also have "\<dots> = buf ! 14" unfolding m(1) by simp
  finally have "hdr_size m = hdr_size buf" by (simp add: hdr_size_def)
  moreover have "m ! 34 = buf ! 34"
  proof -
    have "m ! 34 = drop 26 m ! 8" "buf ! 34 = drop 26 buf ! 8" using m(4) b(6) by simp_all
    then show ?thesis unfolding m(2) by simp
  qed
  moreover have "drop 30 m = drop 30 buf" using arg_cong [OF m(2), of "drop 4"] by simp
  ultimately show ?thesis using b(1-5) m(2,3,5) by (simp add: reports_def src_ip_def dst_ip_def)
qed

lemma report_sent:
  assumes live: "sw_live le s" and f: "if_get s name = Some f"
    and m: "20 \<le> hdr_size m" "hdr_size m \<le> 60" "14 + hdr_size m \<le> length m"
    and r: "L3GetNextIf s (src_ip le m) = Some (b, hop)" "src_ip le m \<noteq> IpAddress b"
  shows "\<exists>s' pk. report le now s name f ty m = Some s' \<and> queued s (HubName b) pk s' \<and> NextHopIp pk = hop \<and>
    reports le f (src_ip le m) ty (PacketData (Packet pk))"
proof -
  obtain buf where buf: "icmp_error le f ty m 14 (hdr_size m) (src_ip le m) = Some buf"
    "error_frame buf f (src_ip le m) le ty" using icmp_error_spec [OF m] by blast
  note e = buf(2) [unfolded error_frame_def]
  have z: "take 6 buf = replicate 6 0" "hd buf = 0"
  proof -
    have "take 6 buf = take 6 (take 12 buf)" by simp
    then show t: "take 6 buf = replicate 6 0" using e by simp
    have "hd buf = hd (take 6 buf)" by (simp add: hd_take)
    then show "hd buf = 0" unfolding t by simp
  qed
  then have quiet: "\<not> (list_all (\<lambda>c. c = 0xff) (take 6 buf) \<or> hd buf AND 0x01 \<noteq> 0)" by (simp add: list_all_iff)
  have "unat (buf ! 14 AND 0x0f) * 4 = 20" "length buf + 255 \<le> BUF_MAX" using e by (simp_all add: hdr_size_def)
  then obtain p where p: "ParsePacket le buf (of_nat (length buf)) = Some (Some p)" "PacketData p = buf" "ip_packet p"
    "\<not> BroadcastPacket p"
    using ParsePacket_v4 [of buf le] e quiet by (auto simp: ip_packet_def)
  have "14 + hdr_size buf \<le> length buf" "20 \<le> hdr_size buf" using e by simp_all
  then have "IpCheckChecksum le (drop 14 buf)" using IpCheckChecksum_hdr [of buf le] e by simp
  then obtain s' pk where s': "L3RecvIp le now s name p True = Some s'" "queued s (HubName b) pk s'" "NextHopIp pk = hop"
    "forwarded le buf (PacketData (Packet pk))"
    using RecvIp_forward [OF live p(3) f, where d = b and hop = hop and now = now and self = True] p(2,4) e r by auto
  have "report le now s name f ty m = Some s'" using buf(1) p(1) s'(1) by (simp add: report_def)
  then show ?thesis using s'(2,3) forwarded_reports [OF buf(2) s'(4)] by blast
qed

lemma report_from:
  assumes live: "sw_live le s" and f: "if_get s name = Some f" and p: "ip_packet p"
    and r: "L3GetNextIf s (src_ip le (PacketData p)) = Some (b, hop)" "src_ip le (PacketData p) \<noteq> IpAddress b"
    and m: "length m = length (PacketData p)" "hdr_size m = hdr_size (PacketData p)" "src_ip le m = src_ip le (PacketData p)"
  shows "\<exists>s' pk. report le now (sender_known le now s f p) name (L3KnownArp le now f (src_ip le (PacketData p)) (MacAddressSrc p)) ty m = Some s' \<and>
    queued s (HubName b) pk s' \<and> NextHopIp pk = hop \<and>
    reports le f (src_ip le (PacketData p)) ty (PacketData (Packet pk))"
proof -
  let ?s1 = "sender_known le now s f p" and ?f1 = "L3KnownArp le now f (src_ip le (PacketData p)) (MacAddressSrc p)"
  note h = ip_packetD [OF p]
  obtain b1 where b1: "L3GetNextIf ?s1 (src_ip le m) = Some (b1, hop)" "HubName b1 = HubName b" "IpAddress b1 = IpAddress b"
    using sender_known_next [OF live f r(1)] m(3) by auto
  have "if_get ?s1 name = Some ?f1" by (simp add: sender_known_get [OF f])
  from report_sent [OF known_live [OF live f h(5)] this, where m = m and b = b1 and hop = hop and now = now and ty = ty] b1 h m r(2)
  obtain s' pk where s': "report le now ?s1 name ?f1 ty m = Some s'" "queued ?s1 (HubName b) pk s'" "NextHopIp pk = hop"
    "reports le ?f1 (src_ip le m) ty (PacketData (Packet pk))" by auto
  have "queued s (HubName b) pk s'"
  proof -
    have "map_option (\<lambda>d. if n = HubName b then IpPacketQueue d @ [pk] else IpPacketQueue d) (if_get ?s1 n) =
        map_option (\<lambda>d. if n = HubName b then IpPacketQueue d @ [pk] else IpPacketQueue d) (if_get s n)" for n
      using sender_known_queues [OF f, of le now p n]
      by (cases "if_get ?s1 n"; cases "if_get s n") auto
    then show ?thesis using s'(2) by (simp add: queued_def)
  qed
  then show ?thesis using s' m(3) by (auto simp: reports_def KnownArp_frame)
qed

lemma RecvIp_expired:
  assumes live: "sw_live le s" and p: "ip_packet p" and f: "if_get s name = Some f"
    and good: "IpCheckChecksum le (drop 14 (PacketData p))" "\<not> BroadcastPacket p" "unat (PacketData p ! 22) \<le> 1"
    and dst: "dst_ip le (PacketData p) \<noteq> IpAddress f"
    and r: "L3GetNextIf s (src_ip le (PacketData p)) = Some (b, hop)" "src_ip le (PacketData p) \<noteq> IpAddress b"
  shows "\<exists>s' pk. L3RecvIp le now s name p self = Some s' \<and> queued s (HubName b) pk s' \<and> NextHopIp pk = hop \<and>
    reports le f (src_ip le (PacketData p)) 11 (PacketData (Packet pk))"
proof -
  note h = ip_packetD [OF p]
  have "PacketData p ! 22 = 0 \<or> PacketData p ! 22 = 1"
    using good(3) by (auto simp: word_unat_eq_iff)
  then have ttl: "less_ttl (PacketData p ! 22) = 0" by (auto simp: less_ttl_def)
  show ?thesis
    using report_from [OF live f p r refl refl refl, of now 11] good(1,2) IpCheckChecksum_hdr [OF h(3,2)] ttl dst
    by (simp add: RecvIp_eq [OF p f])
qed

lemma RecvIp_no_route:
  assumes live: "sw_live le s" and p: "ip_packet p" and f: "if_get s name = Some f"
    and good: "IpCheckChecksum le (drop 14 (PacketData p))" "\<not> BroadcastPacket p" "2 \<le> unat (PacketData p ! 22)"
    and dst: "L3GetNextIf s (dst_ip le (PacketData p)) = None"
    and r: "L3GetNextIf s (src_ip le (PacketData p)) = Some (b, hop)" "src_ip le (PacketData p) \<noteq> IpAddress b"
  shows "\<exists>s' pk. L3RecvIp le now s name p False = Some s' \<and> queued s (HubName b) pk s' \<and> NextHopIp pk = hop \<and>
    reports le f (src_ip le (PacketData p)) 3 (PacketData (Packet pk))"
proof -
  note h = ip_packetD [OF p]
  let ?m2 = "(PacketData p)[22 := PacketData p ! 22 - 1]"
  have ttl: "less_ttl (PacketData p ! 22) = PacketData p ! 22 - 1" "PacketData p ! 22 - 1 \<noteq> 0"
    using good(3) by (auto simp: less_ttl_def word_le_nat_alt)
  have "L3GetNextIf (sender_known le now s f p) (dst_ip le (PacketData p)) = None"
    using GetNextIf_known [OF live f] dst by (simp add: sender_known_def KnownArp_frame)
  moreover have "src_ip le ?m2 = src_ip le (PacketData p)" by (simp add: src_ip_def)
  ultimately show ?thesis
    using report_from [OF live f p r, of ?m2 now 3] good(1,2) IpCheckChecksum_hdr [OF h(3,2)] ttl
    by (simp add: RecvIp_eq [OF p f])
qed

section \<open>ARP requests\<close>

text \<open>The frame of a request for \<open>target\<close>, sent by \<open>mac\<close> for \<open>ip\<close>, and the frame of the answer.\<close>

definition arp_request :: "bool \<Rightarrow> u8 list \<Rightarrow> u8 list \<Rightarrow> u32 \<Rightarrow> u8 list \<Rightarrow> u32 \<Rightarrow> u8 list" where
  "arp_request le dest mac ip unknown target =
     dest @ mac @ be16 MAC_PROTO_ARPV4 @ be16 1 @ be16 MAC_PROTO_IPV4 @ [6, 4] @ be16 1 @ mac @ mem32 le ip @
     unknown @ mem32 le target"

definition arp_answer :: "bool \<Rightarrow> u8 list \<Rightarrow> u32 \<Rightarrow> u8 list \<Rightarrow> u32 \<Rightarrow> u8 list" where
  "arp_answer le mac ip dest dest_ip =
     dest @ mac @ be16 MAC_PROTO_ARPV4 @ be16 1 @ be16 MAC_PROTO_IPV4 @ [6, 4] @ be16 2 @ mac @ mem32 le ip @
     dest @ mem32 le dest_ip"

lemma be16_consts: "be16 MAC_PROTO_ARPV4 = [8, 6]" "be16 MAC_PROTO_IPV4 = [8, 0]" "be16 1 = [0, 1]"
  by code_simp+

lemma PutPacket_arp:
  assumes live: "sw_live le s" and f: "if_get s name = Some f"
    and len: "length dest = 6" "length mac = 6" "length unknown = 6" "length pad + 300 \<le> BUF_MAX"
    and dest: "dest = MacAddress f \<or> dest = broadcast" and mac: "mac \<noteq> MacAddress f"
  shows "\<exists>s' f'. L3PutPacket le now s name
      (Some (arp_request le dest mac ip unknown (IpAddress f) @ pad))
      (of_nat (length (arp_request le dest mac ip unknown (IpAddress f) @ pad))) = Some s' \<and>
    if_get s' name = Some f' \<and>
    SendQueue f' = SendQueue (L3KnownArp le now f ip mac) @ [arp_answer le (MacAddress f) (IpAddress f) mac ip]"
proof -
  define m where "m = arp_request le dest mac ip unknown (IpAddress f) @ pad"
  have fin: "if_inv f" "HubName f = name" using if_get_inv [OF live f] if_get_SomeD [OF f] by auto
  have m_eq: "m = dest @ mac @ [8, 6, 0, 1, 8, 0, 6, 4, 0, 1] @ mac @ mem32 le ip @ unknown @ mem32 le (IpAddress f) @ pad"
    by (simp add: m_def arp_request_def be16_consts)
  have a: "arp_frame m" using len by (simp add: arp_frame_def m_eq)
  have "length m + 255 \<le> BUF_MAX" using len by (simp add: m_eq)
  then obtain p where p: "ParsePacket le m (of_nat (length m)) = Some (Some p)" "PacketData p = m" "TypeL3 p = L3_ARPV4"
    "L3_at p = Some 14" "MacAddressSrc_at p = 6" "MacAddressDest_at p = 0"
    "BroadcastPacket p = (list_all (\<lambda>c. c = 0xff) (take 6 m) \<or> hd m AND 0x01 \<noteq> 0)"
    using ParsePacket_arp [OF a] by blast
  have addr: "MacAddressSrc p = mac" "MacAddressDest p = dest" "take 6 m = dest"
    using len p by (simp_all add: MacAddressSrc_def MacAddressDest_def m_eq)
  have bc: "BroadcastPacket p" if "dest = broadcast" using that p(7) addr(3) by (simp add: broadcast_def)
  have body: "PointerL3 p = [0, 1, 8, 0, 6, 4, 0, 1] @ mac @ mem32 le ip @ unknown @ mem32 le (IpAddress f) @ pad"
    using len p by (simp add: PointerL3_def m_eq)
  have fields: "HardwareType (arp_header le (PointerL3 p)) = of_mem16 le (be16 1)"
    "ProtocolType (arp_header le (PointerL3 p)) = of_mem16 le (be16 MAC_PROTO_IPV4)"
    "HardwareSize (arp_header le (PointerL3 p)) = 6" "ProtocolSize (arp_header le (PointerL3 p)) = 4"
    "Operation (arp_header le (PointerL3 p)) = of_mem16 le (be16 1)" "SrcAddress (arp_header le (PointerL3 p)) = mac"
    "ARP_SrcIP (arp_header le (PointerL3 p)) = ip" "TargetIP (arp_header le (PointerL3 p)) = IpAddress f"
    using len unfolding body arp_header_def be16_consts by simp_all
  define g where "g = L3KnownArp le now f ip mac"
  have g: "IpAddress g = IpAddress f" "MacAddress g = MacAddress f" "HubName g = name" using fin by (simp_all add: g_def KnownArp_frame)
  have arp: "L3RecvArp le now f p = g\<lparr>SendQueue := SendQueue g @ [arp_answer le (MacAddress f) (IpAddress f) mac ip]\<rparr>"
    unfolding L3RecvArp_def Let_def fields addr L3RecvArpRequest_def
    by (simp add: g_def [symmetric] g L3SendArpResponseNow_def L3SendL2Now_def Let_def arp_bytes_def arp_answer_def
        Endian_of_mem)
  have "L3RecvL2 le now s name p = Some (if_set s (L3RecvArp le now f p))"
    using dest mac bc addr f p(3) by (auto simp: L3RecvL2_def)
  moreover have "if_get (if_set s (L3RecvArp le now f p)) name = Some (L3RecvArp le now f p)"
    using if_get_set [of s "L3RecvArp le now f p" name] f fin(2) by (simp add: RecvArp_frame)
  ultimately show ?thesis using p(1) arp unfolding m_def [symmetric] g_def [symmetric] by (simp add: L3PutPacket_def)
qed

end
