(* ===== verification/NetProps.thy ===== *)
theory NetProps
  imports Layer3Recv
begin

text \<open>
  The properties of the DHCP options, of the packet parser and of the reception side of a
  layer-3 switch, with an example for each at which its hypotheses hold.
\<close>

section \<open>DHCP\<close>

definition demo_options :: "DHCP_OPTION list" where
  "demo_options = [opt_bytes DHCP_ID_MESSAGE_TYPE [5], opt_bytes DHCP_ID_DOMAIN_NAME (replicate 300 0x61)]"

text \<open>C16: a list of DHCP options is read back from the bytes that \<^const>\<open>BuildDhcpOptionsBuf\<close> makes of it, in
  order and with all of their data, those longer than 255 bytes included, which are sent in
  pieces.\<close>

theorem dhcp_options_roundtrip:
  assumes "list_all option_ok os" and "list_all option_id_ok os"
    and "length (concat (map enc_dhcp os)) < BUF_MAX"
  shows "\<exists>b. BuildDhcpOptionsBuf os = Some b \<and> contents b = concat (map enc_dhcp os) @ [0xff] \<and>
    ParseDhcpOptions (contents b) (Size b) = Some os"
  by (rule ParseDhcpOptions_buf [OF assms])

theorem dhcp_options_roundtrip_witness:
  "\<exists>b. BuildDhcpOptionsBuf demo_options = Some b \<and> ParseDhcpOptions (contents b) (Size b) = Some demo_options"
proof -
  have ok: "list_all option_ok demo_options" "list_all option_id_ok demo_options"
    by (simp_all add: demo_options_def option_ok_def option_id_ok_def)
  have "length (concat (map enc_dhcp demo_options)) \<le>
      3 * sum_list (map (\<lambda>a. length (Opt_Data a)) demo_options) + 2 * length demo_options"
    by (rule options_length)
  then have "length (concat (map enc_dhcp demo_options)) < BUF_MAX" by (simp add: demo_options_def)
  from dhcp_options_roundtrip [OF ok this] show ?thesis by blast
qed

definition demo_reply :: DHCP_OPTION_LIST where
  "demo_reply = no_options\<lparr>Opcode := DHCP_OFFER, ServerAddress := 0x0101a8c0, LeaseTime := 3600,
     DomainName := ascii ''vpn'', DhcpSubnetMask := 0x00ffffff, Gateway := 0x0101a8c0, DnsServer := 0x08080808\<rparr>"

lemma demo_reply_ok: "reply_ok demo_reply []"
  by (simp add: demo_reply_def reply_ok_def no_options_def no_routes_table ascii_def)

text \<open>C17: the options that the DHCP server makes of an offer or an acknowledgement arrive at a client: parsing
  the buffer gives the addresses, the mask, the domain name, the name servers and the classless
  routes that were put in; the lease time arrives with its bytes swapped once, which the caller
  undoes. The reply must name a first name server (without one \<open>BuildDhcpOption\<close> leaves out the domain
  name too, and a second name server arrives as the first), its domain name has at most 255
  characters, and its routes are at most 64 different well-formed ones.\<close>

theorem dhcp_reply_roundtrip:
  assumes "reply_ok opt rs"
  shows "\<exists>os b. BuildDhcpOption opt = Some os \<and> BuildDhcpOptionsBuf os = Some b \<and>
    ParseDhcpOptionList (contents b) (Size b) = Some (received_reply opt)"
  using BuildDhcpOption_eq [OF assms] ParseDhcpOptions_buf [OF reply_options_ok [OF assms]] parse_reply_options [OF assms]
  by blast

theorem dhcp_reply_roundtrip_witness:
  "\<exists>os b. BuildDhcpOption demo_reply = Some os \<and> BuildDhcpOptionsBuf os = Some b \<and>
    ParseDhcpOptionList (contents b) (Size b) = Some (received_reply demo_reply)"
  by (rule dhcp_reply_roundtrip [OF demo_reply_ok])

text \<open>C18: whatever bytes come as DHCP options, reading them stays inside of them and returns, and the table
  of classless routes it fills never counts more than its 64 entries.\<close>

theorem dhcp_reader_safe:
  assumes "unat sz \<le> length data" and "unat sz + 255 \<le> BUF_MAX"
  shows "\<exists>r. ParseDhcpOptionList data sz = Some r \<and> length (Entries (ClasslessRoute r)) = 64 \<and>
    NumExistingRoutes (ClasslessRoute r) \<le> 64"
  using ParseDhcpOptionList_total [OF assms] by (simp add: table_sane_def)

theorem dhcp_reader_safe_witness:
  "\<exists>r. ParseDhcpOptionList [0x35, 200, 5, 0x79, 3, 33] 6 = Some r \<and> NumExistingRoutes (ClasslessRoute r) \<le> 64"
  using dhcp_reader_safe [of 6 "[0x35, 200, 5, 0x79, 3, 33]"] by auto

definition demo_classless :: DHCP_CLASSLESS_ROUTE where
  "demo_classless = \<lparr>Route_Exists = True, Route_Network = ZeroIP\<lparr>addr := [10, 0, 0, 0]\<rparr>,
     Route_SubnetMask = IntToSubnetMask4 host_le 8, Route_Gateway = ZeroIP\<lparr>addr := [192, 168, 1, 1]\<rparr>, Route_SubnetMaskLen = 8\<rparr>"

lemma demo_classless_ok: "route_ok demo_classless"
  by (simp add: demo_classless_def route_ok_def net_octets_def ZeroIP_def numeral_3_eq_3)

text \<open>The classless routes of a DHCP message are read back from the bytes that were made of them; routes
  that the table has already are not entered again.\<close>

theorem classless_routes_roundtrip:
  assumes "list_all route_ok rs" and "rs \<noteq> []" and "length rs \<le> 64" and "length (add_new rs qs) \<le> 64"
  shows "\<exists>b. DhcpBuildClasslessRouteData (route_table rs) = Some (Some b) \<and>
    DhcpParseClasslessRouteData (route_table qs) (contents b) (Size b) = Some (route_table (add_new rs qs))"
proof -
  obtain b where b: "DhcpBuildClasslessRouteData (route_table rs) = Some (Some b)" "reading b (concat (map enc_route rs))"
    "contents b = concat (map enc_route rs)" using DhcpBuild_routes [OF assms(1-3)] by blast
  have "unat (Size b) = length (contents b)" using b(2) by (simp add: reading_def length_contents)
  then show ?thesis using DhcpParse_routes [OF assms b(3)] b(1) by simp
qed

theorem classless_routes_roundtrip_witness:
  "\<exists>b. DhcpBuildClasslessRouteData (route_table [demo_classless]) = Some (Some b) \<and>
    DhcpParseClasslessRouteData (route_table []) (contents b) (Size b) = Some (route_table [demo_classless])"
  using classless_routes_roundtrip [of "[demo_classless]" "[]"] demo_classless_ok by (simp add: add_new_def)

text \<open>The classless route chosen for an address matches it and has the longest mask of all that match;
  none is chosen only when none matches.\<close>

theorem best_classless_longest:
  assumes "length (Entries t) = 64" and "NumExistingRoutes t \<noteq> 0"
  shows "case GetBestClasslessRoute t ip of
      None \<Rightarrow> \<forall>e \<in> set (Entries t). \<not> classless_matches ip e
    | Some r \<Rightarrow> r \<in> set (Entries t) \<and> classless_matches ip r \<and>
        (\<forall>e \<in> set (Entries t). classless_matches ip e \<longrightarrow> Route_SubnetMaskLen e \<le> Route_SubnetMaskLen r)"
  using best_classless_loop_spec [of None 0, where ip = ip and es = "Entries t"] assms
  by (auto simp: GetBestClasslessRoute_def split: option.splits)

theorem best_classless_longest_witness:
  "case GetBestClasslessRoute (route_table [demo_classless]) (UINTToIP host_le 0x0a000001) of
     None \<Rightarrow> \<not> classless_matches (UINTToIP host_le 0x0a000001) demo_classless
   | Some r \<Rightarrow> classless_matches (UINTToIP host_le 0x0a000001) r"
proof -
  have "length (Entries (route_table [demo_classless])) = 64" "NumExistingRoutes (route_table [demo_classless]) \<noteq> 0"
    "demo_classless \<in> set (Entries (route_table [demo_classless]))"
    by (simp_all add: route_table_def)
  with best_classless_longest [of "route_table [demo_classless]" "UINTToIP host_le 0x0a000001"]
  show ?thesis by (auto split: option.splits)
qed

section \<open>The packet parser\<close>

text \<open>C12: whatever the bytes of a frame, \<^const>\<open>ParsePacketEx4\<close>, with the argument \<open>no_http\<close> set, returns and
  reads nothing outside of the frame; a packet that it gives is no longer than the frame, and what its
  pointers lead to lies inside of it with all of its bytes, by the types that the packet announces: the
  headers of layer 3, the fixed header of TCP, UDP and ICMP, the DHCP header up to its server name,
  the 28 bytes of an IKE header, the extension headers of IPv6 with their lengths, the header, the
  data and the options of an ICMPv6 message, and the payloads; also after the correction of
  checksums. With \<open>no_http\<close> off the code goes on, for some TCP ports, to look for an HTTP request or a
  TLS server name in the payload (\<open>ParseHttpAccessLog\<close>, \<open>ParseHttpsAccessLog\<close>), which only sets
  \<open>HttpLog\<close>; this is not modelled and nothing is said of it.\<close>

theorem parser_stays_in_frame:
  assumes "unat sz \<le> length m" and "unat sz + 255 \<le> BUF_MAX"
  shows "\<exists>r. ParsePacketEx4 le m sz no_l3 vlan bridge fix_sums = Some r \<and>
    (\<forall>p. r = Some p \<longrightarrow> length (PacketData p) \<le> unat sz \<and> parsed (PacketData p) (length (PacketData p)) p)"
  using ParsePacketEx4_spec [OF assms, of le no_l3 vlan bridge fix_sums] by blast

definition short_tcp :: "u8 list" where
  "short_tcp = replicate 12 7 @ [8, 0, 0x4f, 0, 0, 200] @ replicate 60 6"

theorem parser_stays_in_frame_witness: "\<exists>r. ParsePacketEx4 True short_tcp 78 False 0 True True = Some r"
  using parser_stays_in_frame [of 78 short_tcp True False 0 True True] by (auto simp: short_tcp_def)

text \<open>When the checksum of an IPv4 header is zero, as network cards with checksum offloading leave it, the
  correction puts one there with which the header passes the test of a receiver.\<close>

theorem checksum_corrected:
  assumes "parsed (PacketData p) (length (PacketData p)) p" and "TypeL3 p = L3_IPV4"
    and "of_mem16 le (take 2 (drop 24 (PacketData p))) = 0"
  shows "\<exists>m. CorrectChecksum le p = Some (p\<lparr>PacketData := m\<rparr>) \<and> IpCheckChecksum le (drop 14 m)"
  by (rule CorrectChecksum_header [OF assms])

text \<open>An IPv4 packet of 20 bytes and a payload, as the parser hands it over.\<close>

definition demo_ip :: "u8 \<Rightarrow> u8 \<Rightarrow> u8 list \<Rightarrow> u8 list \<Rightarrow> u8 list \<Rightarrow> u8 list" where
  "demo_ip ttl proto src dst payload =
     [0, 0xa3, 1, 2, 3, 4] @ [2, 0, 0, 0, 0, 1] @ [8, 0, 0x45, 0, 0, 20 + of_nat (length payload), 0, 0, 0, 0, ttl, proto, 0, 0] @
     src @ dst @ payload"

definition demo_pkt :: "u32 \<Rightarrow> u8 list \<Rightarrow> PKT" where
  "demo_pkt l4 m = no_packet\<lparr>PacketData := m, MacAddressSrc_at := 6, TypeL3 := L3_IPV4, L3_at := Some 14,
     IPv4PayloadSize := 8, IPv4PayloadData_at := Some 34, TypeL4 := l4, L4_at := Some 34\<rparr>"

lemma demo_pkt_parsed:
  assumes "m ! 14 = 0x45" and "length m = 42" and "l4 = L4_ICMPV4 \<or> l4 = L4_UDP"
  shows "parsed (PacketData (demo_pkt l4 m)) (length (PacketData (demo_pkt l4 m))) (demo_pkt l4 m)"
  using assms by (auto simp: parsed_def v4_parsed_def demo_pkt_def no_packet_def l4_ok_def l4_header_def Let_def)

theorem checksum_corrected_witness:
  "\<exists>m. CorrectChecksum True (demo_pkt L4_ICMPV4 (demo_ip 64 1 [192, 168, 1, 2] [192, 168, 2, 2] (replicate 8 0))) =
      Some ((demo_pkt L4_ICMPV4 (demo_ip 64 1 [192, 168, 1, 2] [192, 168, 2, 2] (replicate 8 0)))\<lparr>PacketData := m\<rparr>) \<and>
    IpCheckChecksum True (drop 14 m)"
proof (rule checksum_corrected)
  show "parsed (PacketData (demo_pkt L4_ICMPV4 (demo_ip 64 1 [192, 168, 1, 2] [192, 168, 2, 2] (replicate 8 0))))
      (length (PacketData (demo_pkt L4_ICMPV4 (demo_ip 64 1 [192, 168, 1, 2] [192, 168, 2, 2] (replicate 8 0)))))
      (demo_pkt L4_ICMPV4 (demo_ip 64 1 [192, 168, 1, 2] [192, 168, 2, 2] (replicate 8 0)))"
    by (rule demo_pkt_parsed) (simp_all add: demo_ip_def)
qed (simp_all add: demo_pkt_def demo_ip_def of_mem16_def)

section \<open>Reception on a layer-3 switch\<close>

text \<open>Two interfaces, 192.168.1.1/24 and 192.168.2.1/24, on a little-endian host.\<close>

definition recv_if :: "cstr \<Rightarrow> u32 \<Rightarrow> L3IF" where
  "recv_if name ip = L3InitInterface (\<lambda>x. [1, 2, 3, 4]) [0, 0xac, 0, 0, 0, 0] True (ascii ''SW'') (new_if name ip 0x00ffffff)"

definition recv_sw :: L3SW where
  "recv_sw = (NewL3Sw (ascii ''SW''))
     \<lparr>IfList := \<lparr>items = [recv_if (ascii ''A'') 0x0101a8c0, recv_if (ascii ''B'') 0x0102a8c0], is_sorted = True\<rparr>\<rparr>"

lemma recv_if_fields:
  "IpAddress (recv_if name ip) = ip" "SubnetMask (recv_if name ip) = 0x00ffffff" "IpPacketQueue (recv_if name ip) = []"
  "HubName (recv_if name ip) = fst (StrCpy 256 name)" "MacAddress (recv_if name ip) = [0, 0xa3, 1, 2, 3, 4]"
  "SendQueue (recv_if name ip) = []"
  by (simp_all add: recv_if_def L3InitInterface_def L3GenerateMacAddress_def new_if_def if_zero_def Let_def)

lemma hub_names: "fst (StrCpy 256 (ascii ''A'')) = [65]" "fst (StrCpy 256 (ascii ''B'')) = [66]"
  by (simp_all add: ascii_def StrCpy_def StrLen_def)

lemma recv_sw_items: "items (IfList recv_sw) = [recv_if (ascii ''A'') 0x0101a8c0, recv_if (ascii ''B'') 0x0102a8c0]"
  by (simp add: recv_sw_def)

lemma recv_sw_live: "sw_live True recv_sw"
proof -
  have "if_inv (recv_if name ip)" for name ip
    unfolding recv_if_def by (rule InitInterface_inv) simp_all
  then show ?thesis by (simp add: sw_live_def recv_sw_items recv_if_fields hub_names queue_ok_def)
qed

lemma recv_sw_get: "if_get recv_sw [65] = Some (recv_if (ascii ''A'') 0x0101a8c0)"
  by (simp add: if_get_def recv_sw_items recv_if_fields hub_names)

lemma recv_sw_next:
  "L3GetNextIf recv_sw 0x0202a8c0 = Some (recv_if (ascii ''B'') 0x0102a8c0, 0x0202a8c0)"
  "L3GetNextIf recv_sw 0x0201a8c0 = Some (recv_if (ascii ''A'') 0x0101a8c0, 0x0201a8c0)"
  "L3GetNextIf recv_sw 0x0101a8c0 = Some (recv_if (ascii ''A'') 0x0101a8c0, 0x0101a8c0)"
  "L3GetNextIf recv_sw 0x0203a8c0 = None"
  by (simp_all add: L3GetNextIf_def L3GetBestRoute_def recv_sw_items in_network_def recv_if_fields)
    (simp add: recv_sw_def NewL3Sw_def lst_new_def)

text \<open>C10: whatever bytes arrive at an interface, the switch handles them (the reports of errors it sends
  to itself included) and its state stays sane: the invariant of every interface holds, and
  the packets between interfaces are IP packets whose headers pass the test of a receiver.\<close>

theorem switch_handles_frames:
  assumes "sw_live le s" and "unat sz \<le> length data" and "unat sz + 255 \<le> BUF_MAX"
  shows "\<exists>s'. L3PutPacket le now s name (Some data) sz = Some s' \<and> sw_live le s'"
  using PutPacket_total [OF assms, of now name] by (simp add: handled_def)

theorem switch_handles_frames_witness:
  "\<exists>s'. L3PutPacket True 0 recv_sw [65] (Some short_tcp) 78 = Some s' \<and> sw_live True s'"
  by (rule switch_handles_frames [OF recv_sw_live]) (simp_all add: short_tcp_def)

text \<open>C11: a unicast IP packet with a right header checksum and a time to live of at least two that is not for
  the switch itself goes to the queue of the interface that \<^const>\<open>L3GetNextIf\<close> chooses, with the
  next hop chosen and nothing else changed in it but the time to live, less by one, and the
  checksum, right again; no other queue changes.\<close>

theorem packet_forwarded:
  assumes "sw_live le s" and "ip_packet p" and "if_get s name = Some f"
    and "IpCheckChecksum le (drop 14 (PacketData p))" and "\<not> BroadcastPacket p" and "2 \<le> unat (PacketData p ! 22)"
    and "L3GetNextIf s (dst_ip le (PacketData p)) = Some (d, hop)" and "dst_ip le (PacketData p) \<noteq> IpAddress d"
  shows "\<exists>s' pk. L3RecvIp le now s name p self = Some s' \<and> queued s (HubName d) pk s' \<and> NextHopIp pk = hop \<and>
    PACKET_Expire pk = now + IP_WAIT_FOR_ARP_TIMEOUT \<and> forwarded le (PacketData p) (PacketData (Packet pk))"
  by (rule RecvIp_forward [OF assms])

definition demo_frame :: "u8 \<Rightarrow> u8 list \<Rightarrow> u8 list" where
  "demo_frame ttl dst = with_checksum True (demo_ip ttl 1 [192, 168, 1, 2] dst (8 # replicate 7 0))"

lemma demo_frame_facts:
  assumes "length dst = 4"
  shows "length (demo_frame ttl dst) = 42" and "demo_frame ttl dst ! 14 = 0x45" and "demo_frame ttl dst ! 22 = ttl"
    and "IpCheckChecksum True (drop 14 (demo_frame ttl dst))" and "ip_packet (demo_pkt L4_ICMPV4 (demo_frame ttl dst))"
    and "src_ip True (demo_frame ttl dst) = 0x0201a8c0" and "dst_ip True (demo_frame ttl dst) = of_mem32 True dst"
    and "hdr_size (demo_frame ttl dst) = 20" and "demo_frame ttl dst ! 34 = 8"
proof -
  define raw where "raw = demo_ip ttl 1 [192, 168, 1, 2] dst (8 # replicate 7 0)"
  have raw: "length raw = 42" "raw ! 14 = 0x45" "raw ! 22 = ttl" "take 4 (drop 26 raw) = [192, 168, 1, 2]"
    "take 4 (drop 30 raw) = dst" "drop 34 raw = 8 # replicate 7 0"
    using assms by (simp_all add: raw_def demo_ip_def)
  have h: "hdr_size raw = 20" by (simp add: hdr_size_def raw)
  have ok: "14 + hdr_size raw \<le> length raw" "20 \<le> hdr_size raw" by (simp_all add: h raw)
  note w = with_checksum_checks [OF ok, of True]
  let ?f = "demo_frame ttl dst"
  have f: "?f = with_checksum True raw" by (simp add: demo_frame_def raw_def)
  show len: "length ?f = 42" using w(2) raw by (simp add: f)
  have low: "?f ! i = raw ! i" if "i < 24" for i
  proof -
    have "?f ! i = take 24 ?f ! i" using that by simp
    also have "\<dots> = take 24 raw ! i" unfolding f w(4) ..
    finally show ?thesis using that by simp
  qed
  show b: "?f ! 14 = 0x45" "?f ! 22 = ttl" by (simp_all add: low raw)
  show hs: "hdr_size ?f = 20" by (simp add: hdr_size_def b)
  have high: "drop 26 ?f = drop 26 raw" unfolding f by (rule w(5))
  have "take 4 (drop 26 ?f) = [192, 168, 1, 2]" unfolding high by (rule raw)
  then show "src_ip True ?f = 0x0201a8c0" by (simp add: src_ip_def of_mem32_def)
  have "drop 30 ?f = drop 30 raw" using arg_cong [OF high, of "drop 4"] by simp
  then show "dst_ip True ?f = of_mem32 True dst" by (simp add: dst_ip_def raw)
  have "raw ! 34 = drop 34 raw ! 0" using raw(1) by simp
  then have r34: "raw ! 34 = 8" unfolding raw(6) by simp
  have "?f ! 34 = drop 26 ?f ! 8" using len by simp
  also have "\<dots> = raw ! 34" unfolding high using raw(1) by simp
  finally show "?f ! 34 = 8" unfolding r34 .
  show "IpCheckChecksum True (drop 14 ?f)"
    using IpCheckChecksum_hdr [of ?f True] w(1) hs len f by simp
  show "ip_packet (demo_pkt L4_ICMPV4 ?f)"
    using demo_pkt_parsed [OF b(1) len, of L4_ICMPV4] by (simp add: ip_packet_def demo_pkt_def)
qed

lemma demo_pkt_fields [simp]:
  "PacketData (demo_pkt l4 m) = m" "BroadcastPacket (demo_pkt l4 m) = False" "TypeL4 (demo_pkt l4 m) = l4"
  by (simp_all add: demo_pkt_def no_packet_def)

lemma demo_dsts: "of_mem32 True [192, 168, 2, 2] = 0x0202a8c0" "of_mem32 True [192, 168, 1, 1] = 0x0101a8c0"
  "of_mem32 True [192, 168, 3, 2] = 0x0203a8c0"
  by (simp_all add: of_mem32_def)

theorem packet_forwarded_witness:
  "\<exists>s' pk. L3RecvIp True 0 recv_sw [65] (demo_pkt L4_ICMPV4 (demo_frame 64 [192, 168, 2, 2])) False = Some s' \<and>
    queued recv_sw [66] pk s' \<and> forwarded True (demo_frame 64 [192, 168, 2, 2]) (PacketData (Packet pk))"
  using packet_forwarded [OF recv_sw_live, of "demo_pkt L4_ICMPV4 (demo_frame 64 [192, 168, 2, 2])" "[65]" _
      "recv_if (ascii ''B'') 0x0102a8c0" "0x0202a8c0" 0 False]
  by (auto simp: demo_frame_facts demo_dsts recv_sw_get recv_sw_next recv_if_fields hub_names)

text \<open>C13: an ICMP echo request in a unicast frame to an address of the switch, with a right header checksum, a
  time to live of at least 2 and a sender that some interface leads to, is answered: a packet with
  source and destination swapped, a new time to live, the same payload, and checksums that verify goes
  to the interface towards the sender.\<close>

theorem echo_answered:
  assumes "sw_live le s" and "ip_packet p" and "if_get s name = Some f"
    and "IpCheckChecksum le (drop 14 (PacketData p))" and "\<not> BroadcastPacket p" and "2 \<le> unat (PacketData p ! 22)"
    and "L3GetNextIf s (dst_ip le (PacketData p)) = Some (d, hop)" and "dst_ip le (PacketData p) = IpAddress d"
    and "TypeL4 p = L4_ICMPV4" and "PacketData p ! (14 + hdr_size (PacketData p)) = ICMP_TYPE_ECHO_REQUEST"
    and "L3GetNextIf s (src_ip le (PacketData p)) = Some (b, bhop)"
  shows "\<exists>s' pk. L3RecvIp le now s name p self = Some s' \<and> queued s (HubName b) pk s' \<and> NextHopIp pk = bhop \<and>
    answers le (PacketData p) (PacketData (Packet pk))"
  by (rule RecvIp_echo [OF assms])

theorem echo_answered_witness:
  "\<exists>s' pk. L3RecvIp True 0 recv_sw [65] (demo_pkt L4_ICMPV4 (demo_frame 64 [192, 168, 1, 1])) False = Some s' \<and>
    queued recv_sw [65] pk s' \<and> answers True (demo_frame 64 [192, 168, 1, 1]) (PacketData (Packet pk))"
  using echo_answered [OF recv_sw_live, of "demo_pkt L4_ICMPV4 (demo_frame 64 [192, 168, 1, 1])" "[65]" _
      "recv_if (ascii ''A'') 0x0101a8c0" "0x0101a8c0" "recv_if (ascii ''A'') 0x0101a8c0" "0x0201a8c0" 0 False]
  by (auto simp: demo_frame_facts demo_dsts recv_sw_get recv_sw_next recv_if_fields hub_names)

text \<open>C14: a unicast packet whose time to live runs out at the switch, or that no route fits, is not
  forwarded; an ICMP message of type 11 or 3 from the address of the interface, with a right
  header checksum, goes to the interface towards its sender instead.\<close>

theorem errors_reported:
  assumes "sw_live le s" and "ip_packet p" and "if_get s name = Some f"
    and "IpCheckChecksum le (drop 14 (PacketData p))" and "\<not> BroadcastPacket p"
    and "unat (PacketData p ! 22) \<le> 1 \<and> dst_ip le (PacketData p) \<noteq> IpAddress f \<and> ty = 11 \<or>
      2 \<le> unat (PacketData p ! 22) \<and> L3GetNextIf s (dst_ip le (PacketData p)) = None \<and> ty = 3"
    and "L3GetNextIf s (src_ip le (PacketData p)) = Some (b, hop)" and "src_ip le (PacketData p) \<noteq> IpAddress b"
  shows "\<exists>s' pk. L3RecvIp le now s name p False = Some s' \<and> queued s (HubName b) pk s' \<and> NextHopIp pk = hop \<and>
    reports le f (src_ip le (PacketData p)) ty (PacketData (Packet pk))"
  using RecvIp_expired [OF assms(1-5) _ _ assms(7,8)] RecvIp_no_route [OF assms(1-5) _ _ assms(7,8)] assms(6) by blast

theorem errors_reported_witness:
  "\<exists>s' pk. L3RecvIp True 0 recv_sw [65] (demo_pkt L4_ICMPV4 (demo_frame 1 [192, 168, 2, 2])) False = Some s' \<and>
    queued recv_sw [65] pk s' \<and> reports True (recv_if (ascii ''A'') 0x0101a8c0) 0x0201a8c0 11 (PacketData (Packet pk))"
  using errors_reported [OF recv_sw_live, of "demo_pkt L4_ICMPV4 (demo_frame 1 [192, 168, 2, 2])" "[65]"
      "recv_if (ascii ''A'') 0x0101a8c0" 11 "recv_if (ascii ''A'') 0x0101a8c0" "0x0201a8c0" 0]
  by (auto simp: demo_frame_facts demo_dsts recv_sw_get recv_sw_next recv_if_fields hub_names)

text \<open>C15: an ARP request for the address of an interface, sent to its MAC address or to the broadcast
  address, is answered: the frame that comes last in the send queue of the interface tells the
  asker the MAC address of the interface. The frames before it are those that were queued or waited
  for the asker's address.\<close>

theorem arp_request_answered:
  assumes "sw_live le s" and "if_get s name = Some f"
    and "length dest = 6" and "length mac = 6" and "length unknown = 6" and "length pad + 300 \<le> BUF_MAX"
    and "dest = MacAddress f \<or> dest = broadcast" and "mac \<noteq> MacAddress f"
  shows "\<exists>s' f'. L3PutPacket le now s name
      (Some (arp_request le dest mac ip unknown (IpAddress f) @ pad))
      (of_nat (length (arp_request le dest mac ip unknown (IpAddress f) @ pad))) = Some s' \<and>
    if_get s' name = Some f' \<and>
    SendQueue f' = SendQueue (L3KnownArp le now f ip mac) @ [arp_answer le (MacAddress f) (IpAddress f) mac ip]"
  by (rule PutPacket_arp [OF assms])

theorem arp_request_answered_witness:
  "\<exists>s' f'. L3PutPacket True 0 recv_sw [65]
      (Some (arp_request True broadcast [2, 0, 0, 0, 0, 1] 0x0201a8c0 (replicate 6 0) 0x0101a8c0))
      (of_nat (length (arp_request True broadcast [2, 0, 0, 0, 0, 1] 0x0201a8c0 (replicate 6 0) 0x0101a8c0))) = Some s' \<and>
    if_get s' [65] = Some f' \<and>
    last (SendQueue f') = arp_answer True [0, 0xa3, 1, 2, 3, 4] 0x0101a8c0 [2, 0, 0, 0, 0, 1] 0x0201a8c0"
  using arp_request_answered [OF recv_sw_live recv_sw_get, of broadcast "[2, 0, 0, 0, 0, 1]" "replicate 6 0" "[]" 0 "0x0201a8c0"]
  by (auto simp: recv_if_fields)

end
