(* ===== verification/HashList.thy ===== *)
theory HashList
  imports Keyed
begin

text \<open>
  Hash lists (\<open>HASH_LIST\<close> of src/src/Mayaqua/Memory.c): an array of sorted lists, a list
  for each remainder of the hash of its items. \<open>GetHashProc\<close> and \<open>CompareProc\<close> are
  arguments; locking is left out. The interface asks that items with the same key have the same
  hash; the lemmas say that a hash list is a finite map from keys to items.
\<close>

section \<open>Operations\<close>

record 'x HASH_LIST =
  HASH_Entries :: "'x LST option list"
  HASH_NumItems :: u32
  HASH_AllList :: "'x LST option"

definition NewHashList :: "u32 \<Rightarrow> bool \<Rightarrow> 'x HASH_LIST" where
  "NewHashList bits make_list =
     (let bits = (if bits = 0 then 16 else bits);
          bits = min bits 31
      in \<lparr>HASH_Entries = replicate (2 ^ unat bits) None, HASH_NumItems = 0,
          HASH_AllList = (if make_list then Some lst_new else None)\<rparr>)"

definition CalcHashForHashList :: "('x \<Rightarrow> u32) \<Rightarrow> 'x HASH_LIST \<Rightarrow> 'x \<Rightarrow> nat" where
  "CalcHashForHashList get_hash h p = unat (get_hash p) mod length (HASH_Entries h)"

definition AddHash :: "('x \<Rightarrow> u32) \<Rightarrow> ('x \<Rightarrow> 'x \<Rightarrow> int) \<Rightarrow> 'x HASH_LIST \<Rightarrow> 'x \<Rightarrow> 'x HASH_LIST" where
  "AddHash get_hash cmp h p =
     (let r = CalcHashForHashList get_hash h p;
          o1 = (case HASH_Entries h ! r of None \<Rightarrow> lst_new | Some o1 \<Rightarrow> o1)
      in h\<lparr>HASH_Entries := (HASH_Entries h)[r := Some (lst_insert (Some cmp) o1 p)],
           HASH_AllList := map_option (\<lambda>l. lst_add l p) (HASH_AllList h),
           HASH_NumItems := HASH_NumItems h + 1\<rparr>)"

text \<open>A search may sort the list it searches.\<close>

definition SearchHash ::
    "('x \<Rightarrow> u32) \<Rightarrow> ('x \<Rightarrow> 'x \<Rightarrow> int) \<Rightarrow> 'x HASH_LIST \<Rightarrow> 'x \<Rightarrow> 'x option \<times> 'x HASH_LIST" where
  "SearchHash get_hash cmp h t =
     (let r = CalcHashForHashList get_hash h t
      in case HASH_Entries h ! r of
           None \<Rightarrow> (None, h)
         | Some o1 \<Rightarrow>
             let (x, o1) = lst_search (Some cmp) o1 t
             in (x, h\<lparr>HASH_Entries := (HASH_Entries h)[r := Some o1]\<rparr>))"

definition DeleteHash :: "('x \<Rightarrow> u32) \<Rightarrow> 'x HASH_LIST \<Rightarrow> 'x \<Rightarrow> bool \<times> 'x HASH_LIST" where
  "DeleteHash get_hash h p =
     (let r = CalcHashForHashList get_hash h p;
          (ret, h) = (case HASH_Entries h ! r of
              None \<Rightarrow> (False, h)
            | Some o1 \<Rightarrow>
                let (ret, o1) = lst_delete o1 p;
                    h = (if ret then h\<lparr>HASH_NumItems := HASH_NumItems h - 1\<rparr> else h)
                in (ret, h\<lparr>HASH_Entries := (HASH_Entries h)[r := (if items o1 = [] then None else Some o1)]\<rparr>))
      in (ret, if ret then h\<lparr>HASH_AllList := map_option (\<lambda>l. snd (lst_delete l p)) (HASH_AllList h)\<rparr> else h))"

definition bucket_items :: "'x LST option \<Rightarrow> 'x list" where
  "bucket_items b = (case b of None \<Rightarrow> [] | Some o1 \<Rightarrow> items o1)"

definition HashListToArray :: "'x HASH_LIST \<Rightarrow> 'x list" where
  "HashListToArray h =
     (case HASH_AllList h of
        Some l \<Rightarrow> items l
      | None \<Rightarrow> concat (map bucket_items (HASH_Entries h)))"

text \<open>A field of an item that is not part of its key is changed through the pointer to it.\<close>

definition hash_update :: "('x \<Rightarrow> u32) \<Rightarrow> 'x HASH_LIST \<Rightarrow> 'x \<Rightarrow> 'x \<Rightarrow> 'x HASH_LIST" where
  "hash_update get_hash h x y =
     (let r = CalcHashForHashList get_hash h x;
          change = (\<lambda>l. l\<lparr>items := replace_first x y (items l)\<rparr>)
      in h\<lparr>HASH_Entries := (HASH_Entries h)[r := map_option change (HASH_Entries h ! r)],
           HASH_AllList := map_option change (HASH_AllList h)\<rparr>)"

definition delete_each_hash :: "('x \<Rightarrow> u32) \<Rightarrow> 'x list \<Rightarrow> 'x HASH_LIST \<Rightarrow> 'x HASH_LIST" where
  "delete_each_hash get_hash xs h = fold (\<lambda>x h. snd (DeleteHash get_hash h x)) xs h"

section \<open>A hash list is a map\<close>

lemma option_eqI: "(\<And>y. (a = Some y) = (b = Some y)) \<Longrightarrow> a = b"
  by (cases a; cases b) force+

locale hash_table = keyed_table cmp key
  for cmp :: "'x \<Rightarrow> 'x \<Rightarrow> int" and key :: "'x \<Rightarrow> 'k::linorder" +
  fixes get_hash :: "'x \<Rightarrow> u32"
  assumes hash_key: "key x = key y \<Longrightarrow> get_hash x = get_hash y"
begin

definition bucket_ok :: "nat \<Rightarrow> nat \<Rightarrow> 'x LST option \<Rightarrow> bool" where
  "bucket_ok n r b \<longleftrightarrow> (case b of None \<Rightarrow> True | Some l \<Rightarrow>
     tbl_ok l \<and> (\<forall>x \<in> set (items l). unat (get_hash x) mod n = r))"

definition hash_ok :: "'x HASH_LIST \<Rightarrow> bool" where
  "hash_ok h \<longleftrightarrow> HASH_Entries h \<noteq> [] \<and> HASH_AllList h = None \<and>
     HASH_NumItems h = of_nat (length (HashListToArray h)) \<and>
     (\<forall>r < length (HASH_Entries h). bucket_ok (length (HASH_Entries h)) r (HASH_Entries h ! r))"

definition hview :: "'x HASH_LIST \<Rightarrow> 'k \<Rightarrow> 'x option" where
  "hview h k = find (\<lambda>x. key x = k) (HashListToArray h)"

lemma in_array:
  "hash_ok h \<Longrightarrow> (x \<in> set (HashListToArray h)) =
     (x \<in> set (bucket_items (HASH_Entries h ! CalcHashForHashList get_hash h x)))"
proof -
  assume ok: "hash_ok h"
  then have a: "x \<in> set (HashListToArray h) \<longleftrightarrow> (\<exists>r < length (HASH_Entries h). x \<in> set (bucket_items (HASH_Entries h ! r)))"
    by (auto simp: HashListToArray_def hash_ok_def in_set_conv_nth) (metis nth_mem in_set_conv_nth)+
  have r: "r = CalcHashForHashList get_hash h x"
    if "r < length (HASH_Entries h)" "x \<in> set (bucket_items (HASH_Entries h ! r))" for r
    using ok that by (cases "HASH_Entries h ! r")
      (auto simp: hash_ok_def bucket_ok_def bucket_items_def CalcHashForHashList_def split: option.splits)
  have "CalcHashForHashList get_hash h x < length (HASH_Entries h)"
    using ok by (simp add: CalcHashForHashList_def hash_ok_def)
  then show ?thesis using a r by blast
qed

lemma hash_index: "hash_ok h \<Longrightarrow> CalcHashForHashList get_hash h x < length (HASH_Entries h)"
  by (simp add: CalcHashForHashList_def hash_ok_def)

lemma buckets_distinct_keys:
  "\<forall>r < length bs. bucket_ok n (i + r) (bs ! r) \<Longrightarrow> distinct (map key (concat (map bucket_items bs)))"
proof (induction bs arbitrary: i)
  case (Cons c cs)
  have c: "bucket_ok n i c" and cs: "bucket_ok n (Suc i + r) (cs ! r)" if "r < length cs" for r
    using Cons.prems [rule_format, of 0] Cons.prems [rule_format, of "Suc r"] that by auto
  have c: "bucket_ok n i c" using Cons.prems [rule_format, of 0] by simp
  have "unat (get_hash y) mod n \<noteq> i" if y: "y \<in> set (concat (map bucket_items cs))" for y
  proof -
    obtain r where "r < length cs" "y \<in> set (bucket_items (cs ! r))" using y
      by (auto simp: in_set_conv_nth [where xs = cs])
    with cs [of r] have "unat (get_hash y) mod n = Suc i + r"
      by (auto simp: bucket_ok_def bucket_items_def split: option.splits)
    then show ?thesis by simp
  qed
  moreover have "unat (get_hash x) mod n = i" if "x \<in> set (bucket_items c)" for x
    using c that by (auto simp: bucket_ok_def bucket_items_def split: option.splits)
  ultimately have "key x \<noteq> key y" if "x \<in> set (bucket_items c)" "y \<in> set (concat (map bucket_items cs))" for x y
    using that hash_key [of x y] by metis
  moreover have "distinct (map key (bucket_items c))"
    using c by (auto simp: bucket_ok_def bucket_items_def tbl_ok_def split: option.splits)
  ultimately show ?case using Cons.IH [of "Suc i"] cs by fastforce
qed simp

lemma array_distinct_keys: "hash_ok h \<Longrightarrow> distinct (map key (HashListToArray h))"
  using buckets_distinct_keys [of "HASH_Entries h" "length (HASH_Entries h)" 0]
  by (simp add: hash_ok_def HashListToArray_def)

lemma hview_Some: "hash_ok h \<Longrightarrow> (hview h k = Some x) = (x \<in> set (HashListToArray h) \<and> key x = k)"
proof
  assume "hview h k = Some x"
  then show "x \<in> set (HashListToArray h) \<and> key x = k" by (auto simp: hview_def find_Some_iff)
next
  assume ok: "hash_ok h" and x: "x \<in> set (HashListToArray h) \<and> key x = k"
  then obtain y where y: "hview h k = Some y"
    by (cases "hview h k") (auto simp: hview_def find_None_iff)
  then have "y \<in> set (HashListToArray h)" "key y = k" by (auto simp: hview_def find_Some_iff)
  then show "hview h k = Some x" using array_distinct_keys [OF ok] x y by (auto simp: distinct_map inj_on_def)
qed

lemma hview_None: "(hview h k = None) = (k \<notin> key ` set (HashListToArray h))"
  by (auto simp: hview_def find_None_iff)

text \<open>Changing one bucket of the array.\<close>

lemma mset_buckets:
  "r < length bs \<Longrightarrow> mset (concat (map bucket_items (bs[r := b]))) + mset (bucket_items (bs ! r)) =
     mset (concat (map bucket_items bs)) + mset (bucket_items b)"
proof (induction bs arbitrary: r)
  case (Cons c cs)
  then show ?case by (cases r) (simp_all add: add.commute add.left_commute)
qed simp

lemma bucket_subset:
  "r < length bs \<Longrightarrow> mset (bucket_items (bs ! r)) \<subseteq># mset (concat (map bucket_items bs))"
  by (induction bs arbitrary: r)
    (auto simp: nth_Cons' subset_mset.add_increasing2 subset_mset.add_increasing)

lemma set_bucket:
  assumes ok: "hash_ok h" and r: "r < length (HASH_Entries h)" and b: "bucket_ok (length (HASH_Entries h)) r b"
    and m: "mset (bucket_items b) = f (mset (bucket_items (HASH_Entries h ! r)))"
    and f: "\<And>K. f (mset (bucket_items (HASH_Entries h ! r)) + K) = f (mset (bucket_items (HASH_Entries h ! r))) + K"
    and n: "n = of_nat (size (f (mset (HashListToArray h))))"
  shows "hash_ok (h\<lparr>HASH_Entries := (HASH_Entries h)[r := b], HASH_NumItems := n\<rparr>)"
    and "mset (HashListToArray (h\<lparr>HASH_Entries := (HASH_Entries h)[r := b], HASH_NumItems := n\<rparr>)) =
      f (mset (HashListToArray h))"
proof -
  let ?h = "h\<lparr>HASH_Entries := (HASH_Entries h)[r := b], HASH_NumItems := n\<rparr>"
  let ?M = "mset (bucket_items (HASH_Entries h ! r))" and ?N = "mset (HashListToArray h)"
  have arr: "HashListToArray h = concat (map bucket_items (HASH_Entries h))"
    using ok by (simp add: HashListToArray_def hash_ok_def)
  have arr': "HashListToArray ?h = concat (map bucket_items ((HASH_Entries h)[r := b]))"
    using ok by (simp add: HashListToArray_def hash_ok_def)
  obtain K where K: "?N = ?M + K"
    using bucket_subset [OF r] unfolding arr by (auto simp: mset_subset_eq_exists_conv)
  have "mset (HashListToArray ?h) + ?M = ?N + f ?M"
    unfolding arr arr' using mset_buckets [OF r, of b] by (simp add: m)
  then have "mset (HashListToArray ?h) = K + f ?M" unfolding K by simp
  then show ms: "mset (HashListToArray ?h) = f ?N" unfolding K f by simp
  show "hash_ok ?h"
    using ok b n r arg_cong [OF ms, of size] by (auto simp: hash_ok_def nth_list_update)
qed

lemma hview_cong:
  assumes "hash_ok h" and "hash_ok h'" and "set (HashListToArray h') = set (HashListToArray h)"
  shows "hview h' = hview h"
proof
  fix k
  show "hview h' k = hview h k"
    by (rule option_eqI) (simp add: hview_Some assms)
qed

lemma hview_bucket:
  assumes "hash_ok h" and "HASH_Entries h ! CalcHashForHashList get_hash h x = b"
  shows "hview h (key x) = (case b of None \<Rightarrow> None | Some l \<Rightarrow> view l (key x))"
proof -
  have in_bucket: "y \<in> set (HashListToArray h) \<longleftrightarrow> y \<in> set (bucket_items b)" if "key y = key x" for y
    using in_array [OF assms(1), of y] hash_key [OF that] assms(2) by (simp add: CalcHashForHashList_def)
  have "tbl_ok l" if "b = Some l" for l
    using assms hash_index [OF assms(1), of x] that by (force simp: hash_ok_def bucket_ok_def)
  then have v: "(case b of None \<Rightarrow> None | Some l \<Rightarrow> view l (key x)) = Some y \<longleftrightarrow> y \<in> set (bucket_items b) \<and> key y = key x" for y
    by (cases b) (auto simp: view_Some bucket_items_def)
  have e: "hview h (key x) = Some y \<longleftrightarrow> (case b of None \<Rightarrow> None | Some l \<Rightarrow> view l (key x)) = Some y" for y
    unfolding v hview_Some [OF assms(1)] using in_bucket by blast
  show ?thesis by (rule option_eqI) (rule e)
qed

lemma NewHashList_ok: "hash_ok (NewHashList bits False)" and NewHashList_view: "hview (NewHashList bits False) k = None"
proof -
  have "HashListToArray (NewHashList bits False :: 'x HASH_LIST) = []"
    by (simp add: HashListToArray_def NewHashList_def Let_def bucket_items_def)
  then show "hash_ok (NewHashList bits False)" "hview (NewHashList bits False) k = None"
    by (simp_all add: hash_ok_def NewHashList_def Let_def bucket_ok_def hview_def)
qed

lemma SearchHash_spec:
  assumes "hash_ok h" and "SearchHash get_hash cmp h t = (x, h')"
  shows "x = hview h (key t) \<and> hash_ok h' \<and> mset (HashListToArray h') = mset (HashListToArray h) \<and> hview h' = hview h"
proof -
  let ?r = "CalcHashForHashList get_hash h t"
  note r = hash_index [OF assms(1), of t]
  have "x = hview h (key t) \<and> hash_ok h' \<and> mset (HashListToArray h') = mset (HashListToArray h)"
  proof (cases "HASH_Entries h ! ?r")
    case None
    then show ?thesis using assms hview_bucket [OF assms(1) None] by (simp add: SearchHash_def Let_def)
  next
    case (Some l)
    obtain o1 where s: "lst_search (Some cmp) l t = (x, o1)" and
      h': "h' = h\<lparr>HASH_Entries := (HASH_Entries h)[?r := Some o1], HASH_NumItems := HASH_NumItems h\<rparr>"
      using assms(2) Some by (auto simp: SearchHash_def Let_def split: prod.splits)
    have b: "bucket_ok (length (HASH_Entries h)) ?r (Some l)" using assms(1) r Some by (force simp: hash_ok_def)
    then have l: "tbl_ok l" by (simp add: bucket_ok_def)
    note t = tbl_search [OF l s]
    have "set (items o1) = set (items l)" using t by (metis set_mset_mset)
    then have "bucket_ok (length (HASH_Entries h)) ?r (Some o1)" using b t by (simp add: bucket_ok_def)
    note u = set_bucket [OF assms(1) r this, of "\<lambda>M. M", where n = "HASH_NumItems h"]
    have "hash_ok h' \<and> mset (HashListToArray h') = mset (HashListToArray h)"
      unfolding h' using u t Some assms(1) by (auto simp: bucket_items_def hash_ok_def)
    then show ?thesis using t hview_bucket [OF assms(1) Some] by simp
  qed
  then show ?thesis using hview_cong [OF assms(1)] by (metis set_mset_mset)
qed

lemma AddHash_spec:
  assumes "hash_ok h" and "hview h (key x) = None"
  shows "hash_ok (AddHash get_hash cmp h x) \<and>
    mset (HashListToArray (AddHash get_hash cmp h x)) = add_mset x (mset (HashListToArray h)) \<and>
    hview (AddHash get_hash cmp h x) = (hview h)(key x \<mapsto> x)"
proof -
  let ?r = "CalcHashForHashList get_hash h x" and ?h = "AddHash get_hash cmp h x"
  note r = hash_index [OF assms(1), of x]
  define l where "l = (case HASH_Entries h ! ?r of None \<Rightarrow> lst_new | Some l \<Rightarrow> l)"
  have b: "bucket_ok (length (HASH_Entries h)) ?r (Some l)"
    using assms(1) r by (auto simp: hash_ok_def bucket_ok_def l_def tbl_new lst_new_def [THEN arg_cong, of items] split: option.splits)
  then have l: "tbl_ok l" by (simp add: bucket_ok_def)
  have fresh: "view l (key x) = None"
    using hview_bucket [OF assms(1) refl, of x] assms(2) by (auto simp: l_def tbl_new split: option.splits)
  note i = tbl_insert [OF l fresh]
  have "set (items (lst_insert (Some cmp) l x)) = insert x (set (items l))" using i by (metis set_mset_add_mset_insert set_mset_mset)
  then have b': "bucket_ok (length (HASH_Entries h)) ?r (Some (lst_insert (Some cmp) l x))"
    using b i by (auto simp: bucket_ok_def CalcHashForHashList_def)
  have old: "mset (bucket_items (HASH_Entries h ! ?r)) = mset (items l)"
    by (auto simp: l_def bucket_items_def lst_new_def split: option.splits)
  have h: "?h = h\<lparr>HASH_Entries := (HASH_Entries h)[?r := Some (lst_insert (Some cmp) l x)], HASH_NumItems := HASH_NumItems h + 1\<rparr>"
    using assms(1) by (simp add: AddHash_def Let_def l_def hash_ok_def)
  have ok: "hash_ok ?h" and ms: "mset (HashListToArray ?h) = add_mset x (mset (HashListToArray h))"
    unfolding h using set_bucket [OF assms(1) r b', of "add_mset x" "HASH_NumItems h + 1"] old i assms(1)
    by (auto simp: bucket_items_def hash_ok_def)
  have st: "set (HashListToArray ?h) = insert x (set (HashListToArray h))"
    using ms by (metis set_mset_add_mset_insert set_mset_mset)
  have "hview ?h k = ((hview h)(key x \<mapsto> x)) k" for k
    using hview_Some [OF ok, of k] hview_Some [OF assms(1), of k] st assms(2)
    by (metis (no_types, lifting) fun_upd_apply insert_iff option.exhaust)
  then show ?thesis using ok ms by blast
qed

lemma DeleteHash_spec:
  assumes "hash_ok h" and "x \<in> set (HashListToArray h)"
  shows "fst (DeleteHash get_hash h x) \<and> hash_ok (snd (DeleteHash get_hash h x)) \<and>
    mset (HashListToArray (snd (DeleteHash get_hash h x))) = mset (HashListToArray h) - {#x#} \<and>
    hview (snd (DeleteHash get_hash h x)) = (hview h)(key x := None)"
proof -
  let ?r = "CalcHashForHashList get_hash h x" and ?h = "snd (DeleteHash get_hash h x)"
  note r = hash_index [OF assms(1), of x]
  obtain l where l: "HASH_Entries h ! ?r = Some l" "x \<in> set (items l)"
    using in_array [OF assms(1), of x] assms(2) by (cases "HASH_Entries h ! ?r") (auto simp: bucket_items_def)
  define b where "b = (let o1 = snd (lst_delete l x) in if items o1 = [] then None else Some o1)"
  have b0: "bucket_ok (length (HASH_Entries h)) ?r (Some l)" using assms(1) r l(1) by (force simp: hash_ok_def)
  then have "tbl_ok (snd (lst_delete l x))" using tbl_delete [of l x] by (simp add: bucket_ok_def)
  then have b: "bucket_ok (length (HASH_Entries h)) ?r b"
    using b0 by (auto simp: bucket_ok_def b_def Let_def lst_delete_def dest: notin_set_remove1 [rotated] set_remove1_subset [THEN subsetD])
  have m: "mset (bucket_items b) = mset (bucket_items (HASH_Entries h ! ?r)) - {#x#}"
    by (simp add: b_def Let_def bucket_items_def l(1) lst_delete_def flip: mset_remove1)
  have h: "DeleteHash get_hash h x = (True, h\<lparr>HASH_Entries := (HASH_Entries h)[?r := b], HASH_NumItems := HASH_NumItems h - 1\<rparr>)"
    using assms(1) l by (simp add: DeleteHash_def Let_def lst_delete_def b_def hash_ok_def)
  have "0 < length (HashListToArray h)" using assms(2) by (cases "HashListToArray h") auto
  then obtain n where "length (HashListToArray h) = Suc n" by (cases "length (HashListToArray h)") auto
  then have n: "HASH_NumItems h - 1 = of_nat (size (mset (HashListToArray h) - {#x#}))"
    using assms by (simp add: hash_ok_def size_Diff_singleton)
  have x: "x \<in># mset (bucket_items (HASH_Entries h ! ?r))" using l by (simp add: bucket_items_def)
  have f: "mset (bucket_items (HASH_Entries h ! ?r)) + K - {#x#} = mset (bucket_items (HASH_Entries h ! ?r)) - {#x#} + K" for K
    using multi_member_split [OF x] by auto
  have ok: "hash_ok ?h" and ms: "mset (HashListToArray ?h) = mset (HashListToArray h) - {#x#}"
    unfolding h using set_bucket [OF assms(1) r b m f n] by simp_all
  have "distinct (HashListToArray h)" using array_distinct_keys [OF assms(1)] by (simp add: distinct_map)
  then have st: "set (HashListToArray ?h) = set (HashListToArray h) - {x}"
    using ms by (metis set_mset_mset mset_remove1 set_remove1_eq)
  have same: "y = x" if "y \<in> set (HashListToArray h)" "key y = key x" for y
    using array_distinct_keys [OF assms(1)] that assms(2) by (simp add: distinct_map inj_on_def)
  have "hview ?h k = ((hview h)(key x := None)) k" for k
  proof (rule option_eqI)
    fix y
    show "(hview ?h k = Some y) = (((hview h)(key x := None)) k = Some y)"
      unfolding hview_Some [OF ok] st using same [of y] by (auto simp: hview_Some [OF assms(1)])
  qed
  then show ?thesis using ok ms h by auto
qed

lemma hash_update_spec:
  assumes "hash_ok h" and "hview h (key x) = Some x" and "key y = key x"
  shows "hash_ok (hash_update get_hash h x y) \<and>
    mset (HashListToArray (hash_update get_hash h x y)) = add_mset y (mset (HashListToArray h) - {#x#}) \<and>
    hview (hash_update get_hash h x y) = (hview h)(key x \<mapsto> y)"
proof -
  let ?r = "CalcHashForHashList get_hash h x" and ?h = "hash_update get_hash h x y"
  note r = hash_index [OF assms(1), of x]
  have x: "x \<in> set (HashListToArray h)" using assms(1,2) by (simp add: hview_Some)
  obtain l where l: "HASH_Entries h ! ?r = Some l" "x \<in> set (items l)"
    using in_array [OF assms(1), of x] x by (cases "HASH_Entries h ! ?r") (auto simp: bucket_items_def)
  define o1 where "o1 = l\<lparr>items := replace_first x y (items l)\<rparr>"
  have b0: "bucket_ok (length (HASH_Entries h)) ?r (Some l)" using assms(1) r l(1) by (force simp: hash_ok_def)
  then have t: "tbl_ok l" by (simp add: bucket_ok_def)
  then have d: "distinct (items l)" by (simp add: tbl_ok_def distinct_map)
  obtain c e where ce: "items l = c @ x # e" "items o1 = c @ y # e"
    using replace_first_split [OF l(2) d, of y] by (fastforce simp: o1_def)
  have "tbl_ok o1" using tbl_replace [OF t _ assms(3)] l(2) t by (simp add: o1_def view_Some)
  then have b: "bucket_ok (length (HASH_Entries h)) ?r (Some o1)"
    using b0 hash_key [OF assms(3)] ce by (auto simp: bucket_ok_def)
  have m: "mset (bucket_items (Some o1)) = add_mset y (mset (bucket_items (HASH_Entries h ! ?r)) - {#x#})"
    by (simp add: bucket_items_def l(1) ce)
  have h: "?h = h\<lparr>HASH_Entries := (HASH_Entries h)[?r := Some o1], HASH_NumItems := HASH_NumItems h\<rparr>"
    using assms(1) l by (simp add: hash_update_def Let_def o1_def hash_ok_def)
  have xm: "x \<in># mset (bucket_items (HASH_Entries h ! ?r))" using l by (simp add: bucket_items_def)
  have f: "add_mset y (mset (bucket_items (HASH_Entries h ! ?r)) + K - {#x#}) =
      add_mset y (mset (bucket_items (HASH_Entries h ! ?r)) - {#x#}) + K" for K
    using multi_member_split [OF xm] by auto
  have "size (add_mset y (mset (HashListToArray h) - {#x#})) = length (HashListToArray h)"
    using multi_member_split [of x "mset (HashListToArray h)"] x by (metis mset_remove1 size_add_mset size_mset set_mset_mset add_mset_remove_trivial)
  then have n: "HASH_NumItems h = of_nat (size (add_mset y (mset (HashListToArray h) - {#x#})))"
    using assms(1) by (simp add: hash_ok_def)
  have ok: "hash_ok ?h" and ms: "mset (HashListToArray ?h) = add_mset y (mset (HashListToArray h) - {#x#})"
    unfolding h using set_bucket [OF assms(1) r b m f n] by simp_all
  have dh: "distinct (HashListToArray h)" using array_distinct_keys [OF assms(1)] by (simp add: distinct_map)
  have st: "set (HashListToArray ?h) = insert y (set (HashListToArray h) - {x})"
    using ms dh by (metis set_mset_add_mset_insert set_mset_mset mset_remove1 set_remove1_eq)
  have same: "z = x" if "z \<in> set (HashListToArray h)" "key z = key x" for z
    using array_distinct_keys [OF assms(1)] that x by (simp add: distinct_map inj_on_def)
  have "hview ?h k = ((hview h)(key x \<mapsto> y)) k" for k
  proof (rule option_eqI)
    fix z
    show "(hview ?h k = Some z) = (((hview h)(key x \<mapsto> y)) k = Some z)"
      unfolding hview_Some [OF ok] st using same [of z] assms(3) by (auto simp: hview_Some [OF assms(1)])
  qed
  then show ?thesis using ok ms by auto
qed

text \<open>Collecting the items with a property and deleting each of them leaves the others.\<close>

lemma delete_each_hash_spec:
  assumes "hash_ok h" and "set xs \<subseteq> set (HashListToArray h)" and "distinct xs"
  shows "hash_ok (delete_each_hash get_hash xs h) \<and>
    set (HashListToArray (delete_each_hash get_hash xs h)) = set (HashListToArray h) - set xs"
  using assms
proof (induction xs arbitrary: h)
  case (Cons x xs)
  let ?h = "snd (DeleteHash get_hash h x)"
  note d = DeleteHash_spec [OF Cons.prems(1), of x]
  have "distinct (HashListToArray h)" using array_distinct_keys [OF Cons.prems(1)] by (simp add: distinct_map)
  then have st: "set (HashListToArray ?h) = set (HashListToArray h) - {x}"
    using d Cons.prems(2) by (metis list.set_intros(1) mset_remove1 set_mset_mset set_remove1_eq subsetD)
  have "hash_ok ?h" using d Cons.prems(2) by simp
  moreover have "set xs \<subseteq> set (HashListToArray ?h)" using Cons.prems st by auto
  ultimately show ?case using Cons.IH [of ?h] Cons.prems(3) st by (auto simp: delete_each_hash_def)
qed (simp add: delete_each_hash_def)

lemma delete_each_hash_filter:
  assumes "hash_ok h"
  shows "hash_ok (delete_each_hash get_hash (filter P (HashListToArray h)) h) \<and>
    set (HashListToArray (delete_each_hash get_hash (filter P (HashListToArray h)) h)) =
      {x \<in> set (HashListToArray h). \<not> P x} \<and>
    hview (delete_each_hash get_hash (filter P (HashListToArray h)) h) k =
      (case hview h k of None \<Rightarrow> None | Some x \<Rightarrow> if P x then None else Some x)"
proof -
  let ?h = "delete_each_hash get_hash (filter P (HashListToArray h)) h"
  have "distinct (HashListToArray h)" using array_distinct_keys [OF assms] by (simp add: distinct_map)
  then have e: "hash_ok ?h" and st: "set (HashListToArray ?h) = {x \<in> set (HashListToArray h). \<not> P x}"
    using delete_each_hash_spec [OF assms, of "filter P (HashListToArray h)"] by auto
  have v: "(hview ?h k = Some x) = ((case hview h k of None \<Rightarrow> None | Some x \<Rightarrow> if P x then None else Some x) = Some x)" for x
  proof (cases "hview h k")
    case None
    then have "k \<notin> key ` set (HashListToArray h)" by (simp add: hview_None)
    then show ?thesis using None st by (auto simp: hview_Some [OF e])
  next
    case (Some y)
    then have y: "y \<in> set (HashListToArray h)" "key y = k" by (simp_all add: hview_Some [OF assms])
    have same: "z = y" if "z \<in> set (HashListToArray h)" "key z = k" for z
      using array_distinct_keys [OF assms] that y by (simp add: distinct_map inj_on_def)
    have "(hview ?h k = Some x) = (x = y \<and> \<not> P y)"
      unfolding hview_Some [OF e] st using same y by blast
    then show ?thesis unfolding Some by auto
  qed
  show ?thesis using e st option_eqI [OF v] by blast
qed

end

end
