(* ===== verification/HubTypes.thy ===== *)
theory HubTypes
  imports HashList Layer3If
begin

text \<open>
  The state of a virtual hub (src/src/Cedar/Hub.h, with POLICY of Account.h and ACCESS of
  src/src/Mayaqua/Network.h): options, policies, access list entries, sessions with their packet
  adapters, the table of MAC addresses, the table of IP addresses and the lists of broadcast
  counters. A session is named by a number; the tables hold this number where the code has a
  pointer. A session and its packet adapter (\<open>SESSION\<close>, \<open>HUB_PA\<close>) are one record, which is there as
  long as the session has its adapter; the list of sessions has the numbers only.
\<close>

section \<open>Constants\<close>

abbreviation MAX_ACCESSLISTS :: nat where "MAX_ACCESSLISTS \<equiv> 4096 * 8"
abbreviation HUB_ACCESSLIST_DELAY_MAX :: u32 where "HUB_ACCESSLIST_DELAY_MAX \<equiv> 10000"
abbreviation HUB_ACCESSLIST_JITTER_MAX :: u32 where "HUB_ACCESSLIST_JITTER_MAX \<equiv> 100"
abbreviation HUB_ACCESSLIST_LOSS_MAX :: u32 where "HUB_ACCESSLIST_LOSS_MAX \<equiv> 100"
abbreviation MAC_MIN_LIMIT_COUNT :: u32 where "MAC_MIN_LIMIT_COUNT \<equiv> 3"
abbreviation IP_MIN_LIMIT_COUNT :: u32 where "IP_MIN_LIMIT_COUNT \<equiv> 4"
abbreviation IP_MIN_LIMIT_COUNT_V6 :: u32 where "IP_MIN_LIMIT_COUNT_V6 \<equiv> 5"
abbreviation IP_LIMIT_WHEN_NO_ROUTING_V6 :: u32 where "IP_LIMIT_WHEN_NO_ROUTING_V6 \<equiv> 15"
abbreviation MAC_TABLE_EXCLUSIVE_TIME :: u64 where "MAC_TABLE_EXCLUSIVE_TIME \<equiv> 13 * 1000"
abbreviation IP_TABLE_EXCLUSIVE_TIME :: u64 where "IP_TABLE_EXCLUSIVE_TIME \<equiv> 13 * 1000"
abbreviation OLD_MAC_ADDRESS_ENTRY_FLUSH_INTERVAL :: u64 where "OLD_MAC_ADDRESS_ENTRY_FLUSH_INTERVAL \<equiv> 1000"
abbreviation LIMITER_SAMPLING_SPAN :: u64 where "LIMITER_SAMPLING_SPAN \<equiv> 1000"
abbreviation SE_HUB_MAC_ADDR_SIGN :: u8 where "SE_HUB_MAC_ADDR_SIGN \<equiv> 0xAE"

text \<open>The limits that a build of the server can set with \<open>VPN_GP\<close>; the defaults.\<close>

record PARAMS =
  MAX_MAC_TABLES :: u32
  MAX_IP_TABLES :: u32
  MAX_STORED_QUEUE_NUM :: u32
  MAC_TABLE_EXPIRE_TIME :: u64
  IP_TABLE_EXPIRE_TIME :: u64
  IP_TABLE_EXPIRE_TIME_DHCP :: u64
  STORM_CHECK_SPAN :: u64
  STORM_DISCARD_VALUE_START :: u32
  STORM_DISCARD_VALUE_END :: u32

definition default_params :: PARAMS where
  "default_params = \<lparr>MAX_MAC_TABLES = 65536, MAX_IP_TABLES = 65536, MAX_STORED_QUEUE_NUM = 1024,
     MAC_TABLE_EXPIRE_TIME = 600 * 1000, IP_TABLE_EXPIRE_TIME = 60 * 1000,
     IP_TABLE_EXPIRE_TIME_DHCP = 5 * 60 * 1000, STORM_CHECK_SPAN = 500, STORM_DISCARD_VALUE_START = 3,
     STORM_DISCARD_VALUE_END = 1024\<rparr>"

section \<open>Policies and options\<close>

text \<open>The members of a policy that the hub applies to packets.\<close>

record POLICY =
  P_DHCPFilter :: bool
  P_DHCPNoServer :: bool
  P_DHCPForce :: bool
  P_NoBridge :: bool
  P_NoRouting :: bool
  P_CheckMac :: bool
  P_CheckIP :: bool
  P_ArpDhcpOnly :: bool
  P_PrivacyFilter :: bool
  P_NoServer :: bool
  P_NoBroadcastLimiter :: bool
  P_MaxMac :: u32
  P_MaxIP :: u32
  P_MaxUpload :: u32
  P_MaxDownload :: u32
  P_RSandRAFilter :: bool
  P_RAFilter :: bool
  P_DHCPv6Filter :: bool
  P_DHCPv6NoServer :: bool
  P_NoRoutingV6 :: bool
  P_CheckIPv6 :: bool
  P_NoServerV6 :: bool
  P_MaxIPv6 :: u32
  P_FilterIPv4 :: bool
  P_FilterIPv6 :: bool
  P_FilterNonIP :: bool
  P_NoIPv6DefaultRouterInRA :: bool
  P_NoIPv6DefaultRouterInRAWhenIPv6 :: bool

definition no_policy :: POLICY where
  "no_policy = \<lparr>P_DHCPFilter = False, P_DHCPNoServer = False, P_DHCPForce = False, P_NoBridge = False,
     P_NoRouting = False, P_CheckMac = False, P_CheckIP = False, P_ArpDhcpOnly = False,
     P_PrivacyFilter = False, P_NoServer = False, P_NoBroadcastLimiter = False, P_MaxMac = 0, P_MaxIP = 0,
     P_MaxUpload = 0, P_MaxDownload = 0, P_RSandRAFilter = False, P_RAFilter = False,
     P_DHCPv6Filter = False, P_DHCPv6NoServer = False, P_NoRoutingV6 = False, P_CheckIPv6 = False,
     P_NoServerV6 = False, P_MaxIPv6 = 0, P_FilterIPv4 = False, P_FilterIPv6 = False,
     P_FilterNonIP = False, P_NoIPv6DefaultRouterInRA = False, P_NoIPv6DefaultRouterInRAWhenIPv6 = False\<rparr>"

record HUB_OPTION =
  O_NoIpTable :: bool
  O_ManageOnlyPrivateIP :: bool
  O_ManageOnlyLocalUnicastIPv6 :: bool
  O_DisableIPParsing :: bool
  O_BroadcastStormDetectionThreshold :: u32
  O_FilterPPPoE :: bool
  O_FilterOSPF :: bool
  O_FilterIPv4 :: bool
  O_FilterIPv6 :: bool
  O_FilterNonIP :: bool
  O_FilterBPDU :: bool
  O_NoIPv6DefaultRouterInRAWhenIPv6 :: bool
  O_NoIPv4PacketLog :: bool
  O_NoIPv6PacketLog :: bool
  O_NoLookBPDUBridgeId :: bool
  O_NoManageVlanId :: bool
  O_VlanTypeId :: u32
  O_FixForDLinkBPDU :: bool
  O_AdjustTcpMssValue :: u32
  O_DisableAdjustTcpMss :: bool
  O_ApplyIPv4AccessListOnArpPacket :: bool
  O_DisableCheckMacOnLocalBridge :: bool
  O_DisableCorrectIpOffloadChecksum :: bool
  O_BroadcastLimiterStrictMode :: bool
  O_MaxLoggedPacketsPerMinute :: u32
  O_DropBroadcastsInPrivacyFilterMode :: bool
  O_DropArpInPrivacyFilterMode :: bool
  O_FloodingSendQueueBufferQuota :: u32
  O_DetectDormantSessionInterval :: u32

definition no_hub_options :: HUB_OPTION where
  "no_hub_options = \<lparr>O_NoIpTable = False, O_ManageOnlyPrivateIP = False, O_ManageOnlyLocalUnicastIPv6 = False,
     O_DisableIPParsing = False, O_BroadcastStormDetectionThreshold = 0, O_FilterPPPoE = False,
     O_FilterOSPF = False, O_FilterIPv4 = False, O_FilterIPv6 = False, O_FilterNonIP = False,
     O_FilterBPDU = False, O_NoIPv6DefaultRouterInRAWhenIPv6 = False, O_NoIPv4PacketLog = False,
     O_NoIPv6PacketLog = False, O_NoLookBPDUBridgeId = False, O_NoManageVlanId = False,
     O_VlanTypeId = MAC_PROTO_TAGVLAN, O_FixForDLinkBPDU = False, O_AdjustTcpMssValue = 0,
     O_DisableAdjustTcpMss = False, O_ApplyIPv4AccessListOnArpPacket = False,
     O_DisableCheckMacOnLocalBridge = False, O_DisableCorrectIpOffloadChecksum = False,
     O_BroadcastLimiterStrictMode = False, O_MaxLoggedPacketsPerMinute = 0,
     O_DropBroadcastsInPrivacyFilterMode = False, O_DropArpInPrivacyFilterMode = False,
     O_FloodingSendQueueBufferQuota = 0, O_DetectDormantSessionInterval = 0\<rparr>"

section \<open>Access list entries\<close>

text \<open>The note is left out. IPv6 addresses are their 16 bytes.\<close>

record ACCESS =
  A_Id :: u32
  A_Active :: bool
  A_Priority :: u32
  A_Discard :: bool
  A_SrcIpAddress :: u32
  A_SrcSubnetMask :: u32
  A_DestIpAddress :: u32
  A_DestSubnetMask :: u32
  A_Protocol :: u32
  A_SrcPortStart :: u32
  A_SrcPortEnd :: u32
  A_DestPortStart :: u32
  A_DestPortEnd :: u32
  A_SrcUsernameHash :: u64
  A_IsSrcUsernameIncludeOrExclude :: bool
  A_SrcUsername :: cstr
  A_IsDestUsernameIncludeOrExclude :: bool
  A_DestUsernameHash :: u64
  A_DestUsername :: cstr
  A_CheckSrcMac :: bool
  A_SrcMacAddress :: "u8 list"
  A_SrcMacMask :: "u8 list"
  A_CheckDstMac :: bool
  A_DstMacAddress :: "u8 list"
  A_DstMacMask :: "u8 list"
  A_CheckTcpState :: bool
  A_Established :: bool
  A_Delay :: u32
  A_Jitter :: u32
  A_Loss :: u32
  A_RedirectUrl :: cstr
  A_IsIPv6 :: bool
  A_SrcIpAddress6 :: "u8 list"
  A_SrcSubnetMask6 :: "u8 list"
  A_DestIpAddress6 :: "u8 list"
  A_DestSubnetMask6 :: "u8 list"
  A_UniqueId :: u32

section \<open>Sessions and tables\<close>

record TRAFFIC_LIMITER =
  LastTime :: u64
  Lim_Value :: u64

record STORM =
  ST_MacAddress :: "u8 list"
  ST_SrcIp :: IP
  ST_DestIp :: IP
  ST_CheckStartTick :: u64
  ST_CurrentBroadcastNum :: u32
  ST_DiscardValue :: u32
  ST_StrictMode :: bool

record BLOCK =
  B_Buf :: "u8 list"
  B_IsFlooding :: bool

record SESSION =
  S_Key :: nat
  S_Policy :: POLICY
  S_NormalClient :: bool
  S_BridgeMode :: bool
  S_SecureNATMode :: bool
  S_LinkModeServer :: bool
  S_LinkModeClient :: bool
  S_L3SwitchMode :: bool
  S_IsMonitorMode :: bool
  S_IsOpenVPNL3Session :: bool
  S_IPv6Session :: bool
  S_IsTcpConnection :: bool
  S_VLanId :: u32
  S_EnableLightRecvFilter :: bool
  S_LightRecvFilterMac :: u32
  S_LightRecvFilterIPv4_1 :: u32
  S_LightRecvFilterIPv4_2 :: u32
  S_LastCommTimeForDormant :: u64
  S_LastDLinkSTPPacketSendTick :: u64
  S_LastDLinkSTPPacketDataHash :: "u8 list"
  S_DelayedPacketList :: "PKT list"
  S_MaxLoggedPacketsPerMinuteStartTick :: u64
  S_CurrentNumPackets :: u32
  S_AdjustMss :: u32
  S_IsUsingUdpAcceleration :: bool
  S_UdpAccelMss :: u32
  S_IsRUDPSession :: bool
  S_RUdpMss :: u32
  S_FirstTimeHttpRedirect :: bool
  S_FirstTimeHttpAccessCheckIp :: u32
  S_FirstTimeHttpRedirectUrl :: cstr
  PA_PacketQueue :: "BLOCK list"
  PA_MonitorPort :: bool
  PA_UploadLimiter :: TRAFFIC_LIMITER
  PA_DownloadLimiter :: TRAFFIC_LIMITER
  PA_StormList :: "STORM LST"
  PA_UsernameHash :: u64
  PA_GroupnameHash :: u64

record MAC_TABLE_ENTRY =
  M_MacAddress :: "u8 list"
  M_VlanId :: u32
  M_Session :: nat
  M_CreatedTime :: u64
  M_UpdatedTime :: u64

record IP_TABLE_ENTRY =
  I_Ip :: IP
  I_Session :: nat
  I_DhcpAllocated :: bool
  I_CreatedTime :: u64
  I_UpdatedTime :: u64
  I_MacAddress :: "u8 list"

text \<open>What the hub writes into its packet log (Logging.h); the level is an index of the kind of packet.\<close>

record HUB_LOG =
  SavePacketLog :: bool
  PacketLogConfig :: "u32 list"

text \<open>
  \<open>H_SessionList\<close> is the list \<open>SessionList\<close> of the hub: pointers to sessions, with or without
  a packet adapter. \<open>H_PaSessions\<close> are the sessions that have one, from \<open>HubPaInit\<close> to
  \<open>HubPaFree\<close>, in the list or not; a session of the list that is not among them has the null
  pointer for its \<open>PacketAdapter->Param\<close>.
  \<open>CurrentTcpQueueSize\<close> belongs to \<open>CEDAR\<close>, which all hubs of a server share.\<close>

record HUB =
  H_Option :: HUB_OPTION
  H_LogSetting :: HUB_LOG
  H_HubMacAddr :: "u8 list"
  H_AccessList :: "ACCESS LST"
  H_SessionList :: "nat list"
  H_PaSessions :: "SESSION list"
  H_MonitorList :: "nat list"
  H_MacHashTable :: "MAC_TABLE_ENTRY HASH_LIST"
  H_IpTable :: "IP_TABLE_ENTRY LST"
  H_LastFlushTick :: u64
  H_CurrentTcpQueueSize :: u32

end
