(* ===== verification/HubAcl.thy ===== *)
theory HubAcl
  imports HubTypes
begin

text \<open>
  The access list of a virtual hub (src/src/Cedar/Hub.c): entries, the list in order of
  priority, when an entry masks a packet, and the two passes over the list: for a packet that
  comes in from a session, before its destination is known, and for a packet that leaves to a
  session. What the code reads in a header it reads through a pointer of the parsed packet;
  \<open>PointerL3\<close> and \<open>PointerL4\<close> are the bytes from there on. The user lists in external files
  (\<open>include:\<close>, \<open>exclude:\<close>) and the hash function are arguments.
\<close>

section \<open>Fields of a packet\<close>

definition byte_of :: "u8 list \<Rightarrow> nat \<Rightarrow> u8" where
  "byte_of m i = (if i < length m then m ! i else 0)"

definition net16_of :: "u8 list \<Rightarrow> nat \<Rightarrow> u16" where
  "net16_of m i = of_be16 (take 2 (drop i m))"

definition host32_of :: "u8 list \<Rightarrow> nat \<Rightarrow> u32" where
  "host32_of m i = of_mem32 host_le (take 4 (drop i m))"

definition PointerL4 :: "PKT \<Rightarrow> u8 list" where
  "PointerL4 p = (case L4_at p of None \<Rightarrow> [] | Some l4 \<Rightarrow> drop l4 (PacketData p))"

definition PointerL7 :: "PKT \<Rightarrow> u8 list" where
  "PointerL7 p = (case L7_at p of None \<Rightarrow> [] | Some l7 \<Rightarrow> drop l7 (PacketData p))"

definition mac_protocol :: "PKT \<Rightarrow> u16" where
  "mac_protocol p = net16_of (PacketData p) 12"

definition SrcIP :: "PKT \<Rightarrow> u32" where "SrcIP p = host32_of (PointerL3 p) 12"
definition DstIP :: "PKT \<Rightarrow> u32" where "DstIP p = host32_of (PointerL3 p) 16"
definition ip_protocol :: "PKT \<Rightarrow> u8" where "ip_protocol p = byte_of (PointerL3 p) 9"
definition SrcAddress6 :: "PKT \<Rightarrow> u8 list" where "SrcAddress6 p = take 16 (drop 8 (PointerL3 p))"
definition DestAddress6 :: "PKT \<Rightarrow> u8 list" where "DestAddress6 p = take 16 (drop 24 (PointerL3 p))"
definition arp_operation :: "PKT \<Rightarrow> u16" where "arp_operation p = net16_of (PointerL3 p) 6"
definition ArpSrcIP :: "PKT \<Rightarrow> u32" where "ArpSrcIP p = host32_of (PointerL3 p) 14"
definition ArpTargetIP :: "PKT \<Rightarrow> u32" where "ArpTargetIP p = host32_of (PointerL3 p) 24"
definition SrcPort :: "PKT \<Rightarrow> u16" where "SrcPort p = net16_of (PointerL4 p) 0"
definition DstPort :: "PKT \<Rightarrow> u16" where "DstPort p = net16_of (PointerL4 p) 2"
definition TcpFlag :: "PKT \<Rightarrow> u8" where "TcpFlag p = byte_of (PointerL4 p) 13"

abbreviation TCP_FIN :: u8 where "TCP_FIN \<equiv> 1"
abbreviation TCP_SYN :: u8 where "TCP_SYN \<equiv> 2"
abbreviation TCP_RST :: u8 where "TCP_RST \<equiv> 4"
abbreviation TCP_PSH :: u8 where "TCP_PSH \<equiv> 8"
abbreviation TCP_ACK :: u8 where "TCP_ACK \<equiv> 16"
abbreviation TCP_URG :: u8 where "TCP_URG \<equiv> 32"

definition flag :: "PKT \<Rightarrow> u8 \<Rightarrow> bool" where
  "flag p f \<longleftrightarrow> TcpFlag p AND f \<noteq> 0"

text \<open>An ARP packet about Ethernet and IPv4 addresses.\<close>

definition arp_ipv4 :: "PKT \<Rightarrow> bool" where
  "arp_ipv4 p \<longleftrightarrow> TypeL3 p = L3_ARPV4 \<and> byte_of (PointerL3 p) 4 = 6 \<and>
     net16_of (PointerL3 p) 0 = ARP_HARDWARE_TYPE_ETHERNET \<and> byte_of (PointerL3 p) 5 = 4 \<and>
     net16_of (PointerL3 p) 2 = MAC_PROTO_IPV4"

section \<open>The addresses of the hub itself\<close>

definition IsHubMacAddress :: "u8 list \<Rightarrow> bool" where
  "IsHubMacAddress mac \<longleftrightarrow> byte_of mac 0 = 0x00 \<and> byte_of mac 1 = SE_HUB_MAC_ADDR_SIGN"

definition IsHubIpAddress :: "IP \<Rightarrow> bool" where
  "IsHubIpAddress ip \<longleftrightarrow> addr ip ! 0 = 172 \<and> addr ip ! 1 = 31 \<and>
     1 \<le> addr ip ! 2 \<and> addr ip ! 2 \<le> 254 \<and> 1 \<le> addr ip ! 3 \<and> addr ip ! 3 \<le> 254"

definition IsHubIpAddress32 :: "u32 \<Rightarrow> bool" where
  "IsHubIpAddress32 ip32 = IsHubIpAddress (UINTToIP host_le ip32)"

definition IsHubIpAddress64 :: "u8 list \<Rightarrow> bool" where
  "IsHubIpAddress64 v \<longleftrightarrow> byte_of v 0 = 0xfe \<and> byte_of v 1 = 0x80 \<and> list_all (\<lambda>i. byte_of v i = 0) [2..<8] \<and>
     byte_of v 8 = 0x02 \<and> byte_of v 9 = 0xae \<and> byte_of v 11 = 0xff \<and> byte_of v 12 = 0xfe"

text \<open>An address of IPv4 that a packet can have as its source and that is not the hub's.\<close>

definition usable_ip :: "PKT \<Rightarrow> u32 \<Rightarrow> bool" where
  "usable_ip p ip \<longleftrightarrow> ip \<noteq> 0 \<and> ip \<noteq> 0xffffffff \<and> \<not> (IsHubIpAddress32 ip \<and> IsHubMacAddress (MacAddressSrc p))"

section \<open>When an entry masks a packet\<close>

definition mac_match :: "u8 list \<Rightarrow> u8 list \<Rightarrow> u8 list \<Rightarrow> bool" where
  "mac_match mac msk m = list_all (\<lambda>i. mac ! i AND msk ! i = msk ! i AND byte_of m i) [0..<6]"

definition user_match ::
    "(cstr \<Rightarrow> u64 \<Rightarrow> bool) \<Rightarrow> bool \<Rightarrow> u64 \<Rightarrow> bool \<Rightarrow> cstr \<Rightarrow> u64 \<Rightarrow> u64 \<Rightarrow> bool" where
  "user_match listed normal hash include_or_exclude name user grp \<longleftrightarrow>
     (if hash = 0 then True
      else if \<not> include_or_exclude then hash = user \<or> hash = grp
      else if \<not> normal then False
      else listed name user)"

definition ip4_match :: "PKT \<Rightarrow> u32 \<Rightarrow> u32 \<Rightarrow> u32 \<Rightarrow> u32 \<Rightarrow> bool" where
  "ip4_match p ip msk packet_ip arp_ip \<longleftrightarrow>
     (if ip = 0 \<and> msk = 0 then True
      else if TypeL3 p = L3_IPV4 then packet_ip AND msk = ip AND msk
      else if TypeL3 p = L3_ARPV4 then arp_ipv4 p \<and> usable_ip p arp_ip \<and> arp_ip AND msk = ip AND msk
      else False)"

text \<open>\<open>IPAnd6\<close> of the address bytes, and the comparison of the results.\<close>

definition ip6_match :: "PKT \<Rightarrow> u8 list \<Rightarrow> u8 list \<Rightarrow> u8 list \<Rightarrow> bool" where
  "ip6_match p ip msk packet_ip \<longleftrightarrow>
     (if IsZero ip \<and> IsZero msk then True
      else if TypeL3 p \<noteq> L3_IPV6 then False
      else list_all (\<lambda>i. byte_of ip i AND byte_of msk i = byte_of packet_ip i AND byte_of msk i) [0..<16])"

definition right_version :: "ACCESS \<Rightarrow> PKT \<Rightarrow> bool" where
  "right_version a p \<longleftrightarrow> (if A_IsIPv6 a then TypeL3 p = L3_IPV6 else TypeL3 p = L3_IPV4)"

definition protocol_match :: "ACCESS \<Rightarrow> PKT \<Rightarrow> bool" where
  "protocol_match a p \<longleftrightarrow>
     (if A_Protocol a = 0 then True
      else if \<not> right_version a p then False
      else if \<not> A_IsIPv6 a then ucast (ip_protocol p) = A_Protocol a
      else ucast (V6Protocol (IPv6HeaderPacketInfo p)) = A_Protocol a)"

definition port_in :: "u32 \<Rightarrow> u32 \<Rightarrow> u16 \<Rightarrow> bool" where
  "port_in lo hi port \<longleftrightarrow>
     (if lo \<noteq> 0 \<or> hi \<noteq> 0 then lo \<le> ucast port \<and> ucast port \<le> hi else True)"

definition ports_match :: "ACCESS \<Rightarrow> PKT \<Rightarrow> bool" where
  "ports_match a p \<longleftrightarrow>
     (if A_SrcPortStart a = 0 \<and> A_DestPortStart a = 0 \<and> A_SrcPortEnd a = 0 \<and> A_DestPortEnd a = 0 then True
      else if \<not> right_version a p then False
      else if TypeL4 p = L4_TCP \<or> TypeL4 p = L4_UDP
      then port_in (A_SrcPortStart a) (A_SrcPortEnd a) (SrcPort p) \<and>
        port_in (A_DestPortStart a) (A_DestPortEnd a) (DstPort p)
      else False)"

definition tcp_state_match :: "ACCESS \<Rightarrow> PKT \<Rightarrow> bool" where
  "tcp_state_match a p \<longleftrightarrow>
     (if \<not> A_CheckTcpState a then True
      else if \<not> right_version a p then False
      else if TypeL4 p = L4_TCP then A_Established a = (\<not> (flag p TCP_SYN \<and> \<not> flag p TCP_ACK))
      else False)"

text \<open>
  \<open>dest_username\<close> and \<open>dest_groupname\<close> are hashes; the destination session is only known
  for a packet that leaves. Every test that fails returns.
\<close>

definition IsPacketMaskedByAccessList ::
    "(cstr \<Rightarrow> u64 \<Rightarrow> bool) \<Rightarrow> HUB_OPTION \<Rightarrow> SESSION \<Rightarrow> PKT \<Rightarrow> ACCESS \<Rightarrow> u64 \<Rightarrow> u64 \<Rightarrow> SESSION option \<Rightarrow> bool" where
  "IsPacketMaskedByAccessList listed opt s p a dest_username dest_groupname dest_session \<longleftrightarrow>
     (if \<not> A_Active a then False
      else if A_CheckSrcMac a \<and> \<not> mac_match (A_SrcMacAddress a) (A_SrcMacMask a) (MacAddressSrc p) then False
      else if A_CheckDstMac a \<and> \<not> mac_match (A_DstMacAddress a) (A_DstMacMask a) (MacAddressDest p) then False
      else if \<not> user_match listed (S_NormalClient s) (A_SrcUsernameHash a) (A_IsSrcUsernameIncludeOrExclude a)
        (A_SrcUsername a) (PA_UsernameHash s) (PA_GroupnameHash s) then False
      else if \<not> user_match listed (case dest_session of None \<Rightarrow> True | Some d \<Rightarrow> S_NormalClient d)
        (A_DestUsernameHash a) (A_IsDestUsernameIncludeOrExclude a) (A_DestUsername a) dest_username dest_groupname
        then False
      else if \<not> A_IsIPv6 a \<and> \<not> ip4_match p (A_SrcIpAddress a) (A_SrcSubnetMask a) (SrcIP p) (ArpSrcIP p) then False
      else if \<not> A_IsIPv6 a \<and> \<not> ip4_match p (A_DestIpAddress a) (A_DestSubnetMask a) (DstIP p) (ArpTargetIP p) then False
      else if A_IsIPv6 a \<and> \<not> ip6_match p (A_SrcIpAddress6 a) (A_SrcSubnetMask6 a) (SrcAddress6 p) then False
      else if A_IsIPv6 a \<and> \<not> ip6_match p (A_DestIpAddress6 a) (A_DestSubnetMask6 a) (DestAddress6 p) then False
      else if TypeL3 p = L3_ARPV4 \<and> \<not> O_ApplyIPv4AccessListOnArpPacket opt then False
      else if \<not> protocol_match a p then False
      else if \<not> ports_match a p then False
      else tcp_state_match a p)"

section \<open>The two passes over the list\<close>

text \<open>
  A packet that comes in is checked against the entries before the first one that names a
  destination user. The first entry that masks it decides, marks it as checked and sets its
  delay, jitter and loss.
\<close>

fun stored_scan ::
    "(cstr \<Rightarrow> u64 \<Rightarrow> bool) \<Rightarrow> HUB_OPTION \<Rightarrow> SESSION \<Rightarrow> PKT \<Rightarrow> ACCESS list \<Rightarrow> ACCESS option" where
  "stored_scan listed opt s p [] = None"
| "stored_scan listed opt s p (a # as) =
     (if A_DestUsernameHash a \<noteq> 0 then None
      else if IsPacketMaskedByAccessList listed opt s p a 0 0 None then Some a
      else stored_scan listed opt s p as)"

text \<open>A TCP segment with data that belongs to an open connection.\<close>

definition tcp_data :: "PKT \<Rightarrow> bool" where
  "tcp_data p \<longleftrightarrow> flag p TCP_ACK \<and> \<not> flag p TCP_SYN \<and> \<not> flag p TCP_RST \<and> \<not> flag p TCP_URG \<and> PayloadSize p \<noteq> 0"

definition over_tcp :: "PKT \<Rightarrow> bool" where
  "over_tcp p \<longleftrightarrow> (TypeL3 p = L3_IPV4 \<or> TypeL3 p = L3_IPV6) \<and> TypeL4 p = L4_TCP \<and> L4_at p \<noteq> None"

text \<open>\<open>SearchBin\<close> of a needle in the payload.\<close>

fun contains_bin :: "u8 list \<Rightarrow> u8 list \<Rightarrow> bool" where
  "contains_bin needle [] = (needle = [])"
| "contains_bin needle (c # cs) = (take (length needle) (c # cs) = needle \<or> contains_bin needle cs)"

definition tcp_payload :: "PKT \<Rightarrow> u8 list" where
  "tcp_payload p = (case Payload_at p of None \<Rightarrow> [] | Some i \<Rightarrow> take (unat (PayloadSize p)) (drop i (PacketData p)))"

definition IsTcpPacketNcsiHttpAccess :: "PKT \<Rightarrow> bool" where
  "IsTcpPacketNcsiHttpAccess p \<longleftrightarrow> TypeL4 p = L4_TCP \<and> PayloadSize p \<noteq> 0 \<and> Payload_at p \<noteq> None \<and>
     list_ex (\<lambda>w. contains_bin (ascii w) (tcp_payload p)) [''NCSI'', ''.jpeg'', ''.jpg'', ''.gif'', ''.css'']"

text \<open>
  The first request of a client to a web server, if the hub wants to show it a page. The
  destination is read from the header as if it were one of IPv4, as the code does it.
\<close>

definition first_http :: "SESSION \<Rightarrow> PKT \<Rightarrow> bool \<times> SESSION" where
  "first_http s p =
     (if S_FirstTimeHttpRedirect s \<and> S_FirstTimeHttpAccessCheckIp s \<noteq> 0 \<and> over_tcp p \<and> DstPort p = 80
      then if DstIP p = S_FirstTimeHttpAccessCheckIp s then (False, s\<lparr>S_FirstTimeHttpRedirect := False\<rparr>)
           else (tcp_data p \<and> \<not> IsTcpPacketNcsiHttpAccess p \<and> S_FirstTimeHttpRedirectUrl s \<noteq> [], s)
      else (False, s))"

text \<open>
  The result says whether the packet passes, which URL its sender is sent to instead, and how the
  session and the packet change. \<open>ForceRedirectToUrl\<close> answers only normal clients.
\<close>

record STORED =
  Pass :: bool
  Redirect :: "cstr option"
  Stored_session :: SESSION
  Stored_packet :: PKT

definition filtered_by_option :: "HUB_OPTION \<Rightarrow> PKT \<Rightarrow> bool" where
  "filtered_by_option opt p \<longleftrightarrow>
     O_FilterPPPoE opt \<and> (mac_protocol p = 0x8863 \<or> mac_protocol p = 0x8864) \<or>
     O_FilterOSPF opt \<and> TypeL3 p = L3_IPV4 \<and> ip_protocol p = 89 \<or>
     O_FilterIPv4 opt \<and> (mac_protocol p = 0x0800 \<or> mac_protocol p = 0x0806) \<or>
     O_FilterIPv6 opt \<and> mac_protocol p = 0x86dd \<or>
     O_FilterNonIP opt \<and> \<not> (mac_protocol p = 0x86dd \<or> mac_protocol p = 0x0800 \<or> mac_protocol p = 0x0806) \<or>
     O_FilterBPDU opt \<and> TypeL3 p = L3_BPDU"

definition ApplyAccessListToStoredPacket ::
    "(cstr \<Rightarrow> u64 \<Rightarrow> bool) \<Rightarrow> HUB \<Rightarrow> SESSION \<Rightarrow> PKT \<Rightarrow> STORED" where
  "ApplyAccessListToStoredPacket listed hub s p =
     (if filtered_by_option (H_Option hub) p
      then \<lparr>Pass = False, Redirect = None, Stored_session = s, Stored_packet = p\<rparr>
      else
        let (pass, url, p) =
              (case stored_scan listed (H_Option hub) s p (items (H_AccessList hub)) of
                 None \<Rightarrow> (True, None, p)
               | Some a \<Rightarrow> (\<not> A_Discard a,
                   if A_RedirectUrl a \<noteq> [] \<and> over_tcp p \<and> tcp_data p then Some (A_RedirectUrl a) else None,
                   p\<lparr>AccessChecked := True, Delay := A_Delay a, Jitter := A_Jitter a, Loss := A_Loss a\<rparr>));
            (first, s) = (if pass then first_http s p else (False, s));
            url = (if first then Some (S_FirstTimeHttpRedirectUrl s) else url)
        in \<lparr>Pass = pass \<and> url = None, Redirect = (if S_NormalClient s then url else None),
            Stored_session = s, Stored_packet = p\<rparr>)"

text \<open>
  A packet that leaves is checked from the first entry on that names a destination user, unless
  it has been decided when it came in.
\<close>

fun forward_scan ::
    "(cstr \<Rightarrow> u64 \<Rightarrow> bool) \<Rightarrow> HUB_OPTION \<Rightarrow> SESSION \<Rightarrow> SESSION \<Rightarrow> PKT \<Rightarrow> bool \<Rightarrow> ACCESS list \<Rightarrow> ACCESS option" where
  "forward_scan listed opt src dest p skip [] = None"
| "forward_scan listed opt src dest p skip (a # as) =
     (let skip = (if A_DestUsernameHash a \<noteq> 0 then False else skip)
      in if \<not> skip \<and> IsPacketMaskedByAccessList listed opt src p a (PA_UsernameHash dest) (PA_GroupnameHash dest) (Some dest)
         then Some a
         else forward_scan listed opt src dest p skip as)"

definition ApplyAccessListToForwardPacket ::
    "(cstr \<Rightarrow> u64 \<Rightarrow> bool) \<Rightarrow> HUB \<Rightarrow> SESSION \<Rightarrow> SESSION \<Rightarrow> PKT \<Rightarrow> bool" where
  "ApplyAccessListToForwardPacket listed hub src dest p \<longleftrightarrow>
     (if AccessChecked p then True
      else case forward_scan listed (H_Option hub) src dest p True (items (H_AccessList hub)) of
             None \<Rightarrow> True
           | Some a \<Rightarrow> \<not> A_Discard a)"

section \<open>Changing the list\<close>

text \<open>
  Entries are compared by priority, then by their kind, then by all of their memory from
  \<open>Active\<close> to \<open>UniqueId\<close>, whose order (\<open>memory\<close>) depends on the layout of the structure.
\<close>

definition CmpAccessList :: "(ACCESS \<Rightarrow> u8 list) \<Rightarrow> ACCESS \<Rightarrow> ACCESS \<Rightarrow> int" where
  "CmpAccessList memory a1 a2 =
     (if A_Priority a1 > A_Priority a2 then 1
      else if A_Priority a1 < A_Priority a2 then -1
      else if A_Discard a1 > A_Discard a2 then 1
      else if A_Discard a1 < A_Discard a2 then -1
      else COMPARE_RET (memory a1) (memory a2))"

definition InitAccessList :: "ACCESS LST" where
  "InitAccessList = lst_new"

text \<open>
  The user name of \<open>user@domain\<close> or \<open>domain\\user\<close> (src/src/Mayaqua/Network.c); the
  buffers have \<open>MAX_SIZE\<close> = 512 bytes.
\<close>

definition ParseNtUsername :: "cstr \<Rightarrow> u32 \<Rightarrow> u32 \<Rightarrow> bool \<Rightarrow> cstr \<times> cstr" where
  "ParseNtUsername src_username username_size domain_size do_not_parse_atmark =
     (let name = fst (StrCpy 512 src_username);
          (name, domain) = (if do_not_parse_atmark then (name, [])
             else let t = ParseTokenWithNullStr name (ascii ''@'')
                  in (if length t \<ge> 1 then fst (StrCpy 512 (t ! 0)) else name,
                      if length t \<ge> 2 then fst (StrCpy 512 (t ! 1)) else []));
          t = ParseTokenWithNullStr name [92];
          (name, domain) = (if length t \<ge> 2
             then (fst (StrCpy 512 (t ! 1)), if IsEmptyStr domain then fst (StrCpy 512 (t ! 0)) else domain)
             else (name, domain))
      in (fst (StrCpy username_size name), fst (StrCpy domain_size domain)))"

definition MakeSimpleUsernameRemoveNtDomain :: "u32 \<Rightarrow> cstr \<Rightarrow> cstr" where
  "MakeSimpleUsernameRemoveNtDomain dst_size src = fst (StrCpy dst_size (fst (ParseNtUsername src 512 512 False)))"

definition ACCESS_LIST_INCLUDED_PREFIX :: cstr where "ACCESS_LIST_INCLUDED_PREFIX = ascii ''include:''"
definition ACCESS_LIST_EXCLUDED_PREFIX :: cstr where "ACCESS_LIST_EXCLUDED_PREFIX = ascii ''exclude:''"

definition in_file :: "cstr \<Rightarrow> bool" where
  "in_file name \<longleftrightarrow> StartWith name ACCESS_LIST_INCLUDED_PREFIX \<or> StartWith name ACCESS_LIST_EXCLUDED_PREFIX"

text \<open>\<open>sha1\<close> is the hash function, \<open>rnd\<close> the random number of \<open>Rand64\<close>.\<close>

definition UsernameToInt64 :: "(u8 list \<Rightarrow> u8 list) \<Rightarrow> u64 \<Rightarrow> cstr \<Rightarrow> u64" where
  "UsernameToInt64 sha1 rnd name =
     (if IsEmptyStr name then 0
      else if in_file name then rnd
      else let tmp = StrUpper (Trim (MakeSimpleUsernameRemoveNtDomain 256 name))
           in if StrLen tmp = 0 then 0 else of_mem64 host_le (take 8 (sha1 tmp)))"

definition correct_name :: "cstr \<Rightarrow> cstr \<times> bool" where
  "correct_name name =
     (if IsEmptyStr name then (name, False)
      else if \<not> in_file name then (MakeSimpleUsernameRemoveNtDomain 256 name, False)
      else (name, True))"

text \<open>The corrections of a new entry.\<close>

definition correct_access :: "(u8 list \<Rightarrow> u8 list) \<Rightarrow> u64 \<Rightarrow> u64 \<Rightarrow> ACCESS \<Rightarrow> ACCESS" where
  "correct_access sha1 rnd1 rnd2 a =
     (let (src, src_file) = correct_name (A_SrcUsername a);
          (dest, dest_file) = correct_name (A_DestUsername a)
      in a\<lparr>A_SrcUsername := src, A_IsSrcUsernameIncludeOrExclude := src_file,
           A_DestUsername := dest, A_IsDestUsernameIncludeOrExclude := dest_file,
           A_SrcUsernameHash := UsernameToInt64 sha1 rnd1 src,
           A_DestUsernameHash := UsernameToInt64 sha1 rnd2 dest,
           A_SrcPortEnd := (if A_SrcPortStart a \<noteq> 0 then max (A_SrcPortEnd a) (A_SrcPortStart a) else A_SrcPortEnd a),
           A_DestPortEnd := (if A_DestPortStart a \<noteq> 0 then max (A_DestPortEnd a) (A_DestPortStart a) else A_DestPortEnd a),
           A_Delay := MAKESURE (A_Delay a) 0 HUB_ACCESSLIST_DELAY_MAX,
           A_Jitter := MAKESURE (A_Jitter a) 0 HUB_ACCESSLIST_JITTER_MAX,
           A_Loss := MAKESURE (A_Loss a) 0 HUB_ACCESSLIST_LOSS_MAX\<rparr>)"

fun reassign_ids :: "u32 \<Rightarrow> ACCESS list \<Rightarrow> ACCESS list" where
  "reassign_ids i [] = []"
| "reassign_ids i (a # as) = a\<lparr>A_Id := i + 1\<rparr> # reassign_ids (i + 1) as"

definition AddAccessListEx ::
    "(ACCESS \<Rightarrow> u8 list) \<Rightarrow> (u8 list \<Rightarrow> u8 list) \<Rightarrow> u64 \<Rightarrow> u64 \<Rightarrow> ACCESS LST \<Rightarrow> ACCESS \<Rightarrow> bool \<Rightarrow> bool \<Rightarrow> ACCESS LST" where
  "AddAccessListEx memory sha1 rnd1 rnd2 l a no_sort no_reassign_id =
     (if length (items l) \<ge> MAX_ACCESSLISTS then l
      else
        let access = correct_access sha1 rnd1 rnd2 a;
            l = (if \<not> no_sort then lst_insert (Some (CmpAccessList memory)) l access else lst_add l access)
        in if \<not> no_reassign_id then l\<lparr>items := reassign_ids 0 (items l)\<rparr> else l)"

definition AddAccessList ::
    "(ACCESS \<Rightarrow> u8 list) \<Rightarrow> (u8 list \<Rightarrow> u8 list) \<Rightarrow> u64 \<Rightarrow> u64 \<Rightarrow> ACCESS LST \<Rightarrow> ACCESS \<Rightarrow> ACCESS LST" where
  "AddAccessList memory sha1 rnd1 rnd2 l a = AddAccessListEx memory sha1 rnd1 rnd2 l a False False"

section \<open>What the two passes decide\<close>

text \<open>One pass over the whole list with the destination known.\<close>

definition masks :: "(cstr \<Rightarrow> u64 \<Rightarrow> bool) \<Rightarrow> HUB_OPTION \<Rightarrow> SESSION \<Rightarrow> SESSION \<Rightarrow> PKT \<Rightarrow> ACCESS \<Rightarrow> bool" where
  "masks listed opt src dest p a =
     IsPacketMaskedByAccessList listed opt src p a (PA_UsernameHash dest) (PA_GroupnameHash dest) (Some dest)"

definition first_match :: "(cstr \<Rightarrow> u64 \<Rightarrow> bool) \<Rightarrow> HUB_OPTION \<Rightarrow> SESSION \<Rightarrow> SESSION \<Rightarrow> PKT \<Rightarrow> ACCESS list \<Rightarrow> ACCESS option" where
  "first_match listed opt src dest p as = find (masks listed opt src dest p) as"

definition allows :: "ACCESS option \<Rightarrow> bool" where
  "allows r = (case r of None \<Rightarrow> True | Some a \<Rightarrow> \<not> A_Discard a)"

lemma user_match_zero: "user_match listed normal 0 b name user grp"
  by (simp add: user_match_def)

lemma masked_any_dest:
  "A_DestUsernameHash a = 0 \<Longrightarrow>
    IsPacketMaskedByAccessList listed opt src p a 0 0 None = masks listed opt src dest p a"
  by (simp only: masks_def IsPacketMaskedByAccessList_def user_match_zero not_True_eq_False if_False)

lemma stored_scan_Some:
  "stored_scan listed opt s p as = Some a \<Longrightarrow> first_match listed opt s dest p as = Some a"
  by (induction as) (auto simp: first_match_def masked_any_dest [where dest = dest] split: if_splits)

lemma forward_scan_from: "forward_scan listed opt src dest p False as = first_match listed opt src dest p as"
  by (induction as) (auto simp: first_match_def masks_def)

lemma stored_scan_None:
  "stored_scan listed opt s p as = None \<Longrightarrow>
    forward_scan listed opt s dest p True as = first_match listed opt s dest p as"
proof (induction as)
  case (Cons a as)
  show ?case
  proof (cases "A_DestUsernameHash a = 0")
    case True
    then have "\<not> masks listed opt s dest p a" using Cons.prems masked_any_dest [OF True] by (auto split: if_splits)
    then show ?thesis using Cons True by (auto simp: first_match_def split: if_splits)
  next
    case False
    then show ?thesis using forward_scan_from [of listed opt s dest p as] by (simp add: first_match_def masks_def)
  qed
qed (simp add: first_match_def)

text \<open>What an entry tests does not include the marks that the first pass leaves on a packet.\<close>

lemmas header_field_defs = SrcIP_def DstIP_def
  ip_protocol_def SrcAddress6_def DestAddress6_def ArpSrcIP_def ArpTargetIP_def SrcPort_def DstPort_def
  TcpFlag_def flag_def arp_ipv4_def usable_ip_def

definition marked :: "PKT \<Rightarrow> ACCESS \<Rightarrow> PKT" where
  "marked p a = p\<lparr>AccessChecked := True, Delay := A_Delay a, Jitter := A_Jitter a, Loss := A_Loss a\<rparr>"

lemma marked_fields [simp]:
  "TypeL3 (marked p a) = TypeL3 p" "TypeL4 (marked p a) = TypeL4 p" "PacketData (marked p a) = PacketData p"
  "IPv6HeaderPacketInfo (marked p a) = IPv6HeaderPacketInfo p" "AccessChecked (marked p a)"
  "MacAddressSrc (marked p a) = MacAddressSrc p" "MacAddressDest (marked p a) = MacAddressDest p"
  "PointerL3 (marked p a) = PointerL3 p" "PointerL4 (marked p a) = PointerL4 p"
  by (simp_all add: marked_def MacAddressSrc_def MacAddressDest_def PointerL3_def PointerL4_def cong: option.case_cong)

lemma marked_matches [simp]:
  "ip4_match (marked p a) = ip4_match p" "ip6_match (marked p a) = ip6_match p"
  "protocol_match b (marked p a) = protocol_match b p" "ports_match b (marked p a) = ports_match b p"
  "tcp_state_match b (marked p a) = tcp_state_match b p"
  "SrcIP (marked p a) = SrcIP p" "DstIP (marked p a) = DstIP p" "ArpSrcIP (marked p a) = ArpSrcIP p"
  "ArpTargetIP (marked p a) = ArpTargetIP p" "SrcAddress6 (marked p a) = SrcAddress6 p"
  "DestAddress6 (marked p a) = DestAddress6 p"
  by (auto simp: fun_eq_iff ip4_match_def ip6_match_def right_version_def protocol_match_def
      ports_match_def tcp_state_match_def header_field_defs)

lemma masked_marked [simp]:
  "IsPacketMaskedByAccessList listed opt s (marked p b) a u g dest = IsPacketMaskedByAccessList listed opt s p a u g dest"
  by (simp only: IsPacketMaskedByAccessList_def marked_fields marked_matches)

text \<open>
  A packet that no filter of the hub stops and that no entry redirects reaches a destination
  exactly if the first entry of the whole list that masks it allows it.
\<close>

definition plain :: "HUB \<Rightarrow> SESSION \<Rightarrow> PKT \<Rightarrow> bool" where
  "plain hub s p \<longleftrightarrow> \<not> filtered_by_option (H_Option hub) p \<and> \<not> AccessChecked p \<and>
     \<not> S_FirstTimeHttpRedirect s \<and> list_all (\<lambda>a. A_RedirectUrl a = []) (items (H_AccessList hub))"

lemma stored_scan_mem: "stored_scan listed opt s p as = Some a \<Longrightarrow> a \<in> set as"
  by (induction as) (auto split: if_splits)

lemma two_passes:
  assumes "plain hub s p"
  shows "let r = ApplyAccessListToStoredPacket listed hub s p
    in Stored_session r = s \<and>
      (Pass r \<and> ApplyAccessListToForwardPacket listed hub s dest (Stored_packet r)) =
        allows (first_match listed (H_Option hub) s dest p (items (H_AccessList hub)))"
proof (cases "stored_scan listed (H_Option hub) s p (items (H_AccessList hub))")
  case None
  have "ApplyAccessListToStoredPacket listed hub s p =
      \<lparr>Pass = True, Redirect = None, Stored_session = s, Stored_packet = p\<rparr>"
    using assms None by (simp add: ApplyAccessListToStoredPacket_def plain_def first_http_def)
  then show ?thesis
    using stored_scan_None [OF None, of dest] assms
    by (simp add: ApplyAccessListToForwardPacket_def allows_def plain_def)
next
  case (Some a)
  have "a \<in> set (items (H_AccessList hub))" by (rule stored_scan_mem [OF Some])
  then have "A_RedirectUrl a = []" using assms by (simp add: plain_def list_all_iff)
  then have "ApplyAccessListToStoredPacket listed hub s p =
      \<lparr>Pass = \<not> A_Discard a, Redirect = None, Stored_session = s,
       Stored_packet = p\<lparr>AccessChecked := True, Delay := A_Delay a, Jitter := A_Jitter a, Loss := A_Loss a\<rparr>\<rparr>"
    using assms Some by (simp add: ApplyAccessListToStoredPacket_def plain_def first_http_def)
  then show ?thesis
    using stored_scan_Some [OF Some, of dest] by (simp add: ApplyAccessListToForwardPacket_def allows_def)
qed

section \<open>The order of the list\<close>

lemma comparator_CmpAccessList: "comparator (CmpAccessList memory)"
proof -
  have "CmpAccessList memory = (\<lambda>a1 a2. cmp_then (COMPARE_RET (A_Priority a1) (A_Priority a2))
      (cmp_then (COMPARE_RET (A_Discard a1) (A_Discard a2)) (COMPARE_RET (memory a1) (memory a2))))"
    by (intro ext) (auto simp: CmpAccessList_def cmp_then_def COMPARE_RET_def)
  moreover have k: "comparator (\<lambda>a1 a2. COMPARE_RET (key a1) (key a2))" for key :: "ACCESS \<Rightarrow> 'k::linorder"
    by (rule comparator_on_key) (rule int_compare.comparator_axioms)
  ultimately show ?thesis using comparator_then [OF k comparator_then [OF k k]] by simp
qed

text \<open>The rank of an entry: its priority; among equals, those that pass come before those that discard.\<close>

datatype RANK = Rank u32 bool

instantiation RANK :: linorder
begin

fun less_eq_RANK :: "RANK \<Rightarrow> RANK \<Rightarrow> bool" where
  "less_eq_RANK (Rank p d) (Rank q e) = (p < q \<or> p = q \<and> d \<le> e)"

definition less_RANK :: "RANK \<Rightarrow> RANK \<Rightarrow> bool" where
  "less_RANK x y = (x \<le> y \<and> \<not> y \<le> x)"

instance
proof
  fix x y z :: RANK
  show "(x < y) = (x \<le> y \<and> \<not> y \<le> x)" by (rule less_RANK_def)
  show "x \<le> x" by (cases x) simp
  show "x \<le> y \<Longrightarrow> y \<le> z \<Longrightarrow> x \<le> z" by (cases x; cases y; cases z) auto
  show "x \<le> y \<Longrightarrow> y \<le> x \<Longrightarrow> x = y" by (cases x; cases y) auto
  show "x \<le> y \<or> y \<le> x" by (cases x; cases y) auto
qed

end

definition rank :: "ACCESS \<Rightarrow> RANK" where
  "rank a = Rank (A_Priority a) (A_Discard a)"

definition acl_sorted :: "ACCESS list \<Rightarrow> bool" where
  "acl_sorted as = sorted (map rank as)"

lemma cmp_rank: "CmpAccessList memory a b \<le> 0 \<Longrightarrow> rank a \<le> rank b"
  by (auto simp: CmpAccessList_def rank_def split: if_splits)

lemma sorted_cmp_rank: "sorted_cmp (CmpAccessList memory) as \<Longrightarrow> acl_sorted as"
  unfolding acl_sorted_def sorted_map sorted_cmp_def by (rule sorted_wrt_mono_rel) (auto intro: cmp_rank)

text \<open>
  In a sorted list the first match has the smallest rank of all matches: a packet is discarded
  exactly if some matching entry discards it whose priority comes before that of every matching
  entry that lets it pass.
\<close>

lemma first_match_rank:
  assumes "acl_sorted as" and "first_match listed opt src dest p as = Some a"
  shows "a \<in> set as \<and> masks listed opt src dest p a \<and> (\<forall>b \<in> set as. masks listed opt src dest p b \<longrightarrow> rank a \<le> rank b)"
  using assms by (induction as) (auto simp: first_match_def acl_sorted_def split: if_splits)

definition refuses :: "(ACCESS \<Rightarrow> bool) \<Rightarrow> ACCESS list \<Rightarrow> bool" where
  "refuses m as \<longleftrightarrow> (\<exists>a \<in> set as. m a \<and> A_Discard a \<and>
     (\<forall>b \<in> set as. m b \<and> \<not> A_Discard b \<longrightarrow> A_Priority a < A_Priority b))"

lemma first_match_refuses:
  assumes "acl_sorted as"
  shows "allows (first_match listed opt src dest p as) = (\<not> refuses (masks listed opt src dest p) as)"
proof (cases "first_match listed opt src dest p as")
  case None
  then have "\<not> masks listed opt src dest p b" if "b \<in> set as" for b
    using that by (simp add: first_match_def find_None_iff)
  then show ?thesis using None by (auto simp: allows_def refuses_def)
next
  case (Some a)
  note a = first_match_rank [OF assms Some]
  show ?thesis
  proof (cases "A_Discard a")
    case True
    have "A_Priority a < A_Priority b" if "b \<in> set as" "masks listed opt src dest p b" "\<not> A_Discard b" for b
      using a that True by (force simp: rank_def)
    then show ?thesis using Some True a by (auto simp: allows_def refuses_def)
  next
    case False
    have "A_Priority a \<le> A_Priority b" if "b \<in> set as" "masks listed opt src dest p b" for b
      using a that by (force simp: rank_def)
    then show ?thesis using Some False a by (auto simp: allows_def refuses_def not_less)
  qed
qed

text \<open>Adding an entry keeps the order, if the identifier is not part of what is compared.\<close>

lemma reassign_ids_nth: "i < length as \<Longrightarrow> reassign_ids n as ! i = (as ! i)\<lparr>A_Id := n + of_nat i + 1\<rparr>"
proof (induction as arbitrary: i n)
  case (Cons a as)
  then show ?case by (cases i) simp_all
qed simp

lemma reassign_ids_map: "(\<And>a i. f (a\<lparr>A_Id := i\<rparr>) = f a) \<Longrightarrow> map f (reassign_ids n as) = map f as"
  by (induction as arbitrary: n) auto

lemma length_reassign [simp]: "length (reassign_ids n as) = length as"
  by (induction as arbitrary: n) auto

definition acl_ok :: "(ACCESS \<Rightarrow> u8 list) \<Rightarrow> ACCESS LST \<Rightarrow> bool" where
  "acl_ok memory l \<longleftrightarrow> is_sorted l \<and> sorted_cmp (CmpAccessList memory) (items l) \<and> length (items l) \<le> MAX_ACCESSLISTS"

lemma AddAccessList_ok:
  assumes mem: "\<And>a i. memory (a\<lparr>A_Id := i\<rparr>) = memory a" and ok: "acl_ok memory l"
    and l'_def: "l' = AddAccessList memory sha1 rnd1 rnd2 l a"
  shows "acl_ok memory l' \<and>
    (length (items l) < MAX_ACCESSLISTS \<longrightarrow>
      mset (map (A_Id_update (\<lambda>_. 0)) (items l')) =
        mset (map (A_Id_update (\<lambda>_. 0)) (correct_access sha1 rnd1 rnd2 a # items l)) \<and>
      map A_Id (items l') = map (\<lambda>i. of_nat i + 1) [0..<length (items l')])"
proof (cases "length (items l) < MAX_ACCESSLISTS")
  case False
  then show ?thesis using ok by (simp add: l'_def AddAccessList_def AddAccessListEx_def)
next
  case True
  let ?c = "correct_access sha1 rnd1 rnd2 a"
  define l1 where "l1 = lst_insert (Some (CmpAccessList memory)) l ?c"
  have l': "l' = l1\<lparr>items := reassign_ids 0 (items l1)\<rparr>"
    using True by (simp add: l'_def AddAccessList_def AddAccessListEx_def l1_def Let_def)
  have i: "sorted_cmp (CmpAccessList memory) (items l1) \<and> is_sorted l1 \<and> mset (items l1) = add_mset ?c (mset (items l))"
    using comparator.lst_insert_spec [OF comparator_CmpAccessList, of memory l ?c] ok
    by (simp add: l1_def acl_ok_def lst_ok_def)
  have same: "CmpAccessList memory (x\<lparr>A_Id := i\<rparr>) (y\<lparr>A_Id := j\<rparr>) = CmpAccessList memory x y" for x y i j
    using mem by (simp add: CmpAccessList_def)
  have "sorted_cmp (CmpAccessList memory) (reassign_ids 0 (items l1))"
    using i by (auto simp: sorted_cmp_def sorted_wrt_iff_nth_less reassign_ids_nth same)
  moreover have "length (items l1) = Suc (length (items l))" using i by (metis mset_eq_length length_Cons mset.simps(2))
  moreover have "map (A_Id_update (\<lambda>_. 0)) (reassign_ids 0 (items l1)) = map (A_Id_update (\<lambda>_. 0)) (items l1)"
    by (rule reassign_ids_map) simp
  moreover have "map A_Id (reassign_ids 0 (items l1)) = map (\<lambda>i. of_nat i + 1) [0..<length (items l1)]"
    by (rule nth_equalityI) (simp_all add: reassign_ids_nth)
  ultimately show ?thesis using i True by (simp add: l' acl_ok_def)
qed

end
