(* ===== verification/HubTables.thy ===== *)
theory HubTables
  imports HubAcl "HOL-Library.Product_Lexorder"
begin

text \<open>
  What a virtual hub remembers (src/src/Cedar/Hub.c, with address tests of
  src/src/Mayaqua/Network.c and the packet log level of Logging.c): the table of MAC addresses, a
  hash list; the table of IP addresses, a sorted list; the counters of broadcasts of each endpoint;
  the traffic limiters. The tables are instances of the interfaces of hash lists and of sorted
  tables; the limiters are functions on their counters, with what they let through.
\<close>

section \<open>Comparison functions and hashes\<close>

text \<open>The first twenty bytes: both addresses without the scope.\<close>

definition addr_bytes :: "IP \<Rightarrow> u8 list" where
  "addr_bytes ip = addr ip @ ipv6_addr ip"

definition CmpIpAddr :: "IP \<Rightarrow> IP \<Rightarrow> int" where
  "CmpIpAddr ip1 ip2 = COMPARE_RET (addr_bytes ip1) (addr_bytes ip2)"

definition CompareIpTable :: "IP_TABLE_ENTRY \<Rightarrow> IP_TABLE_ENTRY \<Rightarrow> int" where
  "CompareIpTable e1 e2 = CmpIpAddr (I_Ip e1) (I_Ip e2)"

definition GetHashOfMacTable :: "MAC_TABLE_ENTRY \<Rightarrow> u32" where
  "GetHashOfMacTable e =
     ucast (M_MacAddress e ! 0) + ucast (M_MacAddress e ! 1) + ucast (M_MacAddress e ! 2) +
     ucast (M_MacAddress e ! 3) + ucast (M_MacAddress e ! 4) + ucast (M_MacAddress e ! 5) + M_VlanId e"

definition CompareMacTable :: "MAC_TABLE_ENTRY \<Rightarrow> MAC_TABLE_ENTRY \<Rightarrow> int" where
  "CompareMacTable e1 e2 =
     (let r = COMPARE_RET (M_MacAddress e1) (M_MacAddress e2)
      in if r \<noteq> 0 then r
         else if M_VlanId e1 > M_VlanId e2 then 1
         else if M_VlanId e1 < M_VlanId e2 then -1
         else 0)"

definition CompareStormList :: "STORM \<Rightarrow> STORM \<Rightarrow> int" where
  "CompareStormList s1 s2 =
     (let r1 = CmpIpAddr (ST_DestIp s1) (ST_DestIp s2);
          r2 = CmpIpAddr (ST_SrcIp s1) (ST_SrcIp s2);
          mac = COMPARE_RET (ST_MacAddress s1) (ST_MacAddress s2)
      in if \<not> ST_StrictMode s1 \<and> \<not> ST_StrictMode s2
         then if r1 \<noteq> 0 then r1 else if r2 \<noteq> 0 then r2 else mac
         else if r1 = 0 \<or> r2 = 0 then mac
         else if r1 \<noteq> 0 then r1 else r2)"

definition mac_key :: "MAC_TABLE_ENTRY \<Rightarrow> u8 list \<times> u32" where
  "mac_key e = (M_MacAddress e, M_VlanId e)"

definition ip_key :: "IP_TABLE_ENTRY \<Rightarrow> u8 list" where
  "ip_key e = addr_bytes (I_Ip e)"

lemma CompareMacTable_key: "CompareMacTable x y = COMPARE_RET (mac_key x) (mac_key y)"
  by (auto simp: CompareMacTable_def mac_key_def COMPARE_RET_def)

interpretation mac_tbl: hash_table CompareMacTable mac_key GetHashOfMacTable
  by unfold_locales (auto simp: CompareMacTable_key GetHashOfMacTable_def mac_key_def)

interpretation ip_tbl: keyed_table CompareIpTable ip_key
  by unfold_locales (simp add: CompareIpTable_def CmpIpAddr_def ip_key_def)

section \<open>Expiry\<close>

definition mac_expired :: "PARAMS \<Rightarrow> u64 \<Rightarrow> MAC_TABLE_ENTRY \<Rightarrow> bool" where
  "mac_expired g now e \<longleftrightarrow> M_UpdatedTime e + MAC_TABLE_EXPIRE_TIME g \<le> now"

definition DeleteExpiredMacTableEntry ::
    "PARAMS \<Rightarrow> u64 \<Rightarrow> MAC_TABLE_ENTRY HASH_LIST \<Rightarrow> MAC_TABLE_ENTRY HASH_LIST" where
  "DeleteExpiredMacTableEntry g now h =
     delete_each_hash GetHashOfMacTable (filter (mac_expired g now) (HashListToArray h)) h"

definition ip_expired :: "PARAMS \<Rightarrow> u64 \<Rightarrow> IP_TABLE_ENTRY \<Rightarrow> bool" where
  "ip_expired g now e \<longleftrightarrow>
     I_UpdatedTime e + (if I_DhcpAllocated e then IP_TABLE_EXPIRE_TIME_DHCP g else IP_TABLE_EXPIRE_TIME g) \<le> now"

definition DeleteExpiredIpTableEntry :: "PARAMS \<Rightarrow> u64 \<Rightarrow> IP_TABLE_ENTRY LST \<Rightarrow> IP_TABLE_ENTRY LST" where
  "DeleteExpiredIpTableEntry g now l = delete_each (filter (ip_expired g now) (items l)) l"

fun oldest :: "IP_TABLE_ENTRY list \<Rightarrow> u64 \<Rightarrow> IP_TABLE_ENTRY option \<Rightarrow> IP_TABLE_ENTRY option" where
  "oldest [] oldest_time old = old"
| "oldest (e # es) oldest_time old =
     (if I_UpdatedTime e \<le> oldest_time then oldest es (I_UpdatedTime e) (Some e) else oldest es oldest_time old)"

definition DeleteOldIpTableEntry :: "IP_TABLE_ENTRY LST \<Rightarrow> IP_TABLE_ENTRY LST" where
  "DeleteOldIpTableEntry l =
     (case oldest (items l) 0xffffffffffffffff None of
        None \<Rightarrow> l
      | Some old \<Rightarrow> snd (lst_delete l old))"

lemma DeleteExpiredMac_spec:
  assumes "mac_tbl.hash_ok h"
  shows "mac_tbl.hash_ok (DeleteExpiredMacTableEntry g now h) \<and>
    set (HashListToArray (DeleteExpiredMacTableEntry g now h)) =
      {e \<in> set (HashListToArray h). \<not> mac_expired g now e} \<and>
    mac_tbl.hview (DeleteExpiredMacTableEntry g now h) k =
      (case mac_tbl.hview h k of None \<Rightarrow> None | Some e \<Rightarrow> if mac_expired g now e then None else Some e)"
  unfolding DeleteExpiredMacTableEntry_def by (rule mac_tbl.delete_each_hash_filter [OF assms])

lemma DeleteExpiredIp_items:
  "items (DeleteExpiredIpTableEntry g now l) = filter (\<lambda>e. \<not> ip_expired g now e) (items l)"
  by (simp add: DeleteExpiredIpTableEntry_def delete_each_filter)

lemma DeleteExpiredIp_spec:
  assumes "ip_tbl.tbl_ok l"
  shows "ip_tbl.tbl_ok (DeleteExpiredIpTableEntry g now l) \<and>
    ip_tbl.view (DeleteExpiredIpTableEntry g now l) k =
      (case ip_tbl.view l k of None \<Rightarrow> None | Some e \<Rightarrow> if ip_expired g now e then None else Some e)"
  using ip_tbl.tbl_filter [OF assms, of "\<lambda>e. \<not> ip_expired g now e" k]
  unfolding DeleteExpiredIpTableEntry_def delete_each_filter by (auto split: option.splits)

lemma oldest_Some:
  assumes "oldest es t old = Some e" and "\<And>e. old = Some e \<Longrightarrow> I_UpdatedTime e = t"
  shows "(e \<in> set es \<or> old = Some e) \<and> (\<forall>e' \<in> set es. I_UpdatedTime e \<le> I_UpdatedTime e') \<and> I_UpdatedTime e \<le> t"
  using assms
proof (induction es arbitrary: t old)
  case (Cons c cs)
  show ?case
  proof (cases "I_UpdatedTime c \<le> t")
    case True
    then have "oldest cs (I_UpdatedTime c) (Some c) = Some e" using Cons.prems(1) by simp
    note i = Cons.IH [OF this]
    have "(e \<in> set cs \<or> Some c = Some e) \<and> (\<forall>e' \<in> set cs. I_UpdatedTime e \<le> I_UpdatedTime e') \<and> I_UpdatedTime e \<le> I_UpdatedTime c"
      by (rule i) simp
    moreover from this have "I_UpdatedTime e \<le> t" using True by (meson order_trans)
    ultimately show ?thesis by auto
  next
    case False
    then have "oldest cs t old = Some e" using Cons.prems(1) by simp
    note i = Cons.IH [OF this Cons.prems(2)]
    moreover have "I_UpdatedTime e \<le> I_UpdatedTime c"
      using i False by (meson linear order_trans)
    ultimately show ?thesis by auto
  qed
qed simp

lemma oldest_exists: "old \<noteq> None \<Longrightarrow> oldest es t old \<noteq> None"
  by (induction es arbitrary: t old) auto

text \<open>One entry that was used least recently goes, and there is one unless the table is empty.\<close>

lemma DeleteOldIp_spec:
  assumes "ip_tbl.tbl_ok l" and "items l \<noteq> []"
  shows "\<exists>e. e \<in> set (items l) \<and> (\<forall>e' \<in> set (items l). I_UpdatedTime e \<le> I_UpdatedTime e') \<and>
    ip_tbl.tbl_ok (DeleteOldIpTableEntry l) \<and>
    ip_tbl.view (DeleteOldIpTableEntry l) = (ip_tbl.view l)(ip_key e := None) \<and>
    mset (items (DeleteOldIpTableEntry l)) = mset (items l) - {#e#}"
proof -
  let ?max = "0xffffffffffffffff :: u64"
  have "oldest (items l) ?max None \<noteq> None"
  proof (cases "items l")
    case (Cons c cs)
    have "unat (I_UpdatedTime c) < 2 ^ 64" using unsigned_less [of "I_UpdatedTime c"] by simp
    then have "I_UpdatedTime c \<le> ?max" by (simp add: word_le_nat_alt)
    then show ?thesis using Cons oldest_exists [of "Some c" cs "I_UpdatedTime c"] by simp
  qed (use assms in simp)
  then obtain e where e: "oldest (items l) ?max None = Some e" by auto
  note o = oldest_Some [OF e]
  have m: "e \<in> set (items l)" using o by simp
  have "ip_tbl.view l (ip_key e) = Some e" using m by (simp add: ip_tbl.view_Some [OF assms(1)])
  then show ?thesis using o m ip_tbl.tbl_delete [OF assms(1), of e]
    by (intro exI [of _ e]) (simp add: DeleteOldIpTableEntry_def e lst_delete_def)
qed

section \<open>Kinds of addresses\<close>

abbreviation IPV6_ADDR_UNICAST :: u32 where "IPV6_ADDR_UNICAST \<equiv> 1"
abbreviation IPV6_ADDR_LOCAL_UNICAST :: u32 where "IPV6_ADDR_LOCAL_UNICAST \<equiv> 2"
abbreviation IPV6_ADDR_GLOBAL_UNICAST :: u32 where "IPV6_ADDR_GLOBAL_UNICAST \<equiv> 4"
abbreviation IPV6_ADDR_MULTICAST :: u32 where "IPV6_ADDR_MULTICAST \<equiv> 8"
abbreviation IPV6_ADDR_ALL_NODE_MULTICAST :: u32 where "IPV6_ADDR_ALL_NODE_MULTICAST \<equiv> 16"
abbreviation IPV6_ADDR_ALL_ROUTER_MULTICAST :: u32 where "IPV6_ADDR_ALL_ROUTER_MULTICAST \<equiv> 32"
abbreviation IPV6_ADDR_SOLICIATION_MULTICAST :: u32 where "IPV6_ADDR_SOLICIATION_MULTICAST \<equiv> 64"
abbreviation IPV6_ADDR_ZERO :: u32 where "IPV6_ADDR_ZERO \<equiv> 128"
abbreviation IPV6_ADDR_LOOPBACK :: u32 where "IPV6_ADDR_LOOPBACK \<equiv> 256"

definition GetLoopbackAddress6 :: "u8 list" where
  "GetLoopbackAddress6 = (replicate 16 0)[15 := 0x01]"

definition GetAllNodeMulticaseAddress6 :: "u8 list" where
  "GetAllNodeMulticaseAddress6 = (replicate 16 0)[0 := 0xff, 1 := 0x02, 15 := 0x01]"

definition GetAllRouterMulticastAddress6 :: "u8 list" where
  "GetAllRouterMulticastAddress6 = (replicate 16 0)[0 := 0xff, 1 := 0x02, 15 := 0x02]"

definition IPv6AddrToIP :: "u8 list \<Rightarrow> IP" where
  "IPv6AddrToIP a = SetIP6 a"

definition GetIPAddrType6 :: "IP \<Rightarrow> u32" where
  "GetIPAddrType6 ip =
     (let v = ipv6_addr ip
      in if \<not> IsIP6 ip then 0
         else if v ! 0 = 0xff
         then IPV6_ADDR_MULTICAST OR
           (if v = GetAllNodeMulticaseAddress6 then IPV6_ADDR_ALL_NODE_MULTICAST
            else if v = GetAllRouterMulticastAddress6 then IPV6_ADDR_ALL_ROUTER_MULTICAST
            else if v ! 1 = 0x02 \<and> list_all (\<lambda>i. v ! i = 0) [2..<11] \<and> v ! 11 = 0x01 \<and> v ! 12 = 0xff
            then IPV6_ADDR_SOLICIATION_MULTICAST
            else 0)
         else IPV6_ADDR_UNICAST OR
           (if v ! 0 = 0xfe \<and> v ! 1 AND 0xc0 = 0x80 then IPV6_ADDR_LOCAL_UNICAST
            else IPV6_ADDR_GLOBAL_UNICAST OR
              (if IsZero v then IPV6_ADDR_ZERO
               else if v = GetLoopbackAddress6 then IPV6_ADDR_LOOPBACK
               else 0)))"

definition GetIPv6AddrType :: "u8 list \<Rightarrow> u32" where
  "GetIPv6AddrType a = GetIPAddrType6 (IPv6AddrToIP a)"

text \<open>The file of further private networks, if there is one: their masks and addresses.\<close>

definition IsOnPrivateIPFile :: "(u32 \<times> u32) list \<Rightarrow> u32 \<Rightarrow> bool" where
  "IsOnPrivateIPFile private_list ip = list_ex (\<lambda>(msk, ip2). ip AND msk = ip2) private_list"

definition IsIPPrivate :: "(u32 \<times> u32) list option \<Rightarrow> IP \<Rightarrow> bool" where
  "IsIPPrivate private_list ip =
     (let a = addr ip
      in if a ! 0 = 10 then True
         else if a ! 0 = 172 \<and> a ! 1 \<ge> 16 \<and> a ! 1 \<le> 31 then True
         else if a ! 0 = 192 \<and> a ! 1 = 168 then True
         else if a ! 0 = 169 \<and> a ! 1 = 254 then True
         else if a ! 0 = 100 \<and> a ! 1 \<ge> 64 \<and> a ! 1 \<le> 127 then True
         else case private_list of
             None \<Rightarrow> False
           | Some l \<Rightarrow> IsIP4 ip \<and> IsOnPrivateIPFile l (IPToUINT host_le ip))"

definition IsIPManagementTargetForHUB :: "(u32 \<times> u32) list option \<Rightarrow> HUB_OPTION \<Rightarrow> IP \<Rightarrow> bool" where
  "IsIPManagementTargetForHUB private_list opt ip =
     (if IsIP4 ip
      then if O_ManageOnlyPrivateIP opt \<and> \<not> IsIPPrivate private_list ip then False else True
      else if O_ManageOnlyLocalUnicastIPv6 opt \<and> GetIPAddrType6 ip AND IPV6_ADDR_LOCAL_UNICAST = 0 then False
      else True)"

definition IsValidUnicastMacAddress :: "u8 list \<Rightarrow> bool" where
  "IsValidUnicastMacAddress mac =
     (if byte_of mac 0 AND 0x01 \<noteq> 0 then False else if IsZero (take 6 mac) then False else True)"

section \<open>Traffic limiters\<close>

definition IsMostHighestPriorityPacket :: "PKT \<Rightarrow> bool" where
  "IsMostHighestPriorityPacket p \<longleftrightarrow>
     TypeL3 p = L3_ARPV4 \<or>
     TypeL3 p = L3_IPV4 \<and>
       (TypeL4 p = L4_ICMPV4 \<or>
        TypeL4 p = L4_TCP \<and> (flag p TCP_SYN \<or> flag p TCP_FIN \<or> flag p TCP_RST) \<or>
        TypeL4 p = L4_UDP \<and> TypeL7 p = L7_DHCPV4)"

definition PacketSize :: "PKT \<Rightarrow> u32" where
  "PacketSize p = of_nat (length (PacketData p))"

definition IntoTrafficLimiter :: "u64 \<Rightarrow> TRAFFIC_LIMITER \<Rightarrow> PKT \<Rightarrow> TRAFFIC_LIMITER" where
  "IntoTrafficLimiter now tr p =
     (let tr = (if LastTime tr = 0 \<or> LastTime tr > now \<or> LastTime tr + LIMITER_SAMPLING_SPAN < now
                then tr\<lparr>Lim_Value := 0, LastTime := now\<rparr> else tr)
      in tr\<lparr>Lim_Value := Lim_Value tr + ucast (PacketSize p) * 8\<rparr>)"

text \<open>The rate that a limiter has measured, in bits for each second.\<close>

definition measured :: "TRAFFIC_LIMITER \<Rightarrow> u64" where
  "measured tr = Lim_Value tr * 1000 div LIMITER_SAMPLING_SPAN"

definition StorePacketFilterByTrafficLimiter :: "u64 \<Rightarrow> SESSION \<Rightarrow> PKT \<Rightarrow> bool \<times> SESSION" where
  "StorePacketFilterByTrafficLimiter now s p =
     (if P_MaxUpload (S_Policy s) = 0 then (True, s)
      else if IsMostHighestPriorityPacket p then (True, s)
      else
        let tr = IntoTrafficLimiter now (PA_UploadLimiter s) p;
            s = s\<lparr>PA_UploadLimiter := tr\<rparr>
        in (\<not> measured tr > ucast (P_MaxUpload (S_Policy s)), s))"

definition CheckMaxLoggedPacketsPerMinute :: "SESSION \<Rightarrow> u32 \<Rightarrow> u64 \<Rightarrow> bool \<times> SESSION" where
  "CheckMaxLoggedPacketsPerMinute s max_packets now =
     (if max_packets = 0 then (True, s)
      else if P_NoBroadcastLimiter (S_Policy s) \<or> S_SecureNATMode s \<or> S_BridgeMode s \<or> S_LinkModeServer s \<or>
        S_LinkModeClient s \<or> S_L3SwitchMode s then (True, s)
      else
        let s = (if S_MaxLoggedPacketsPerMinuteStartTick s = 0 \<or>
                   S_MaxLoggedPacketsPerMinuteStartTick s + 60 * 1000 \<le> now
                 then s\<lparr>S_MaxLoggedPacketsPerMinuteStartTick := now, S_CurrentNumPackets := 0\<rparr> else s);
            s = s\<lparr>S_CurrentNumPackets := S_CurrentNumPackets s + 1\<rparr>
        in (\<not> S_CurrentNumPackets s > max_packets, s))"

section \<open>Broadcast storms\<close>

text \<open>The counter of a new endpoint, and the pattern of a search for it.\<close>

definition new_storm :: "u8 list \<Rightarrow> IP \<Rightarrow> IP \<Rightarrow> bool \<Rightarrow> STORM" where
  "new_storm mac src_ip dest_ip strict =
     \<lparr>ST_MacAddress = mac, ST_SrcIp = src_ip, ST_DestIp = dest_ip, ST_CheckStartTick = 0,
      ST_CurrentBroadcastNum = 0, ST_DiscardValue = 0, ST_StrictMode = strict\<rparr>"

definition AddStormList :: "STORM LST \<Rightarrow> u8 list \<Rightarrow> IP \<Rightarrow> IP \<Rightarrow> bool \<Rightarrow> STORM \<times> STORM LST" where
  "AddStormList l mac src_ip dest_ip strict =
     (let s = new_storm mac src_ip dest_ip strict in (s, lst_insert (Some CompareStormList) l s))"

definition SearchStormList :: "STORM LST \<Rightarrow> u8 list \<Rightarrow> IP \<Rightarrow> IP \<Rightarrow> bool \<Rightarrow> STORM option \<times> STORM LST" where
  "SearchStormList l mac src_ip dest_ip strict =
     lst_search (Some CompareStormList) l (new_storm mac src_ip dest_ip strict)"

text \<open>
  A broadcast is counted. At most every \<open>STORM_CHECK_SPAN\<close> the rate is measured: too high a
  rate doubles the discard value, another one at least halves it.
\<close>

definition storm_count :: "PARAMS \<Rightarrow> u64 \<Rightarrow> u32 \<Rightarrow> STORM \<Rightarrow> bool \<times> STORM" where
  "storm_count g now limit_start_count s =
     (let s = s\<lparr>ST_CurrentBroadcastNum := ST_CurrentBroadcastNum s + 1\<rparr>;
          start = ST_CheckStartTick s; d = ST_DiscardValue s
      in if start + STORM_CHECK_SPAN g < now \<or> start = 0 \<or> start > now
         then
           let diff_time = (if start < now then now - start else 0);
               num = (ucast (ucast (ST_CurrentBroadcastNum s) * 1000 div STORM_CHECK_SPAN g) :: u32);
               s = s\<lparr>ST_CheckStartTick := now, ST_CurrentBroadcastNum := 0\<rparr>
           in if num \<ge> limit_start_count
              then (False, if d < STORM_DISCARD_VALUE_END g then s\<lparr>ST_DiscardValue := max d 1 * 2\<rparr> else s)
              else (True,
                if d \<ge> 1
                then s\<lparr>ST_DiscardValue := ucast (ucast d div max 2 (diff_time div STORM_CHECK_SPAN g))\<rparr>
                else s)
         else (True, s))"

definition storm_passes :: "PARAMS \<Rightarrow> u32 \<Rightarrow> STORM \<Rightarrow> bool" where
  "storm_passes g rnd s =
     (if ST_DiscardValue s \<ge> STORM_DISCARD_VALUE_START g
      then if ST_DiscardValue s \<ge> 128 then False else rnd mod ST_DiscardValue s = 0
      else True)"

definition storm_ips :: "PKT \<Rightarrow> IP \<times> IP" where
  "storm_ips p =
     (if TypeL3 p = L3_IPV4 then (UINTToIP host_le (SrcIP p), UINTToIP host_le (DstIP p))
      else if TypeL3 p = L3_ARPV4 then (UINTToIP host_le (ArpSrcIP p), ZeroIP)
      else if TypeL3 p = L3_IPV6 then (IPv6AddrToIP (SrcAddress6 p), IPv6AddrToIP (DestAddress6 p))
      else (ZeroIP, ZeroIP))"

definition CheckBroadcastStorm ::
    "PARAMS \<Rightarrow> u64 \<Rightarrow> u32 \<Rightarrow> HUB_OPTION \<Rightarrow> SESSION \<Rightarrow> PKT \<Rightarrow> bool \<times> SESSION" where
  "CheckBroadcastStorm g now rnd opt s p =
     (if P_NoBroadcastLimiter (S_Policy s) then (True, s)
      else
        let strict = O_BroadcastLimiterStrictMode opt;
            (src_ip, dest_ip) = storm_ips p;
            limit_start_count = (if O_BroadcastStormDetectionThreshold opt \<noteq> 0
                                 then O_BroadcastStormDetectionThreshold opt else 32);
            (found, l) = SearchStormList (PA_StormList s) (MacAddressSrc p) src_ip dest_ip strict;
            (e, l) = (case found of
                        None \<Rightarrow> AddStormList l (MacAddressSrc p) src_ip dest_ip strict
                      | Some e \<Rightarrow> (e, l));
            (ret, e') = storm_count g now limit_start_count e
        in (ret \<and> storm_passes g rnd e', s\<lparr>PA_StormList := l\<lparr>items := replace_first e e' (items l)\<rparr>\<rparr>))"

section \<open>Every endpoint has its own counter\<close>

text \<open>Without the strict mode the counters are a table; the comparison is only used on such entries.\<close>

definition storm_key :: "STORM \<Rightarrow> u8 list \<times> u8 list \<times> u8 list" where
  "storm_key s = (addr_bytes (ST_DestIp s), addr_bytes (ST_SrcIp s), ST_MacAddress s)"

definition storm_cmp :: "STORM \<Rightarrow> STORM \<Rightarrow> int" where
  "storm_cmp s1 s2 = COMPARE_RET (storm_key s1) (storm_key s2)"

interpretation storm_tbl: keyed_table storm_cmp storm_key
  by unfold_locales (simp add: storm_cmp_def)

lemma CompareStormList_normal:
  "\<not> ST_StrictMode x \<Longrightarrow> \<not> ST_StrictMode y \<Longrightarrow> CompareStormList x y = storm_cmp x y"
  by (auto simp: CompareStormList_def storm_cmp_def storm_key_def CmpIpAddr_def COMPARE_RET_def Let_def)

definition agree :: "('x \<Rightarrow> 'x \<Rightarrow> int) \<Rightarrow> ('x \<Rightarrow> 'x \<Rightarrow> int) \<Rightarrow> 'x set \<Rightarrow> bool" where
  "agree c c' S \<longleftrightarrow> (\<forall>x \<in> S. \<forall>y \<in> S. c x y = c' x y)"

lemma agree_insort: "agree c c' (insert x (set ys)) \<Longrightarrow> insort_cmp c x ys = insort_cmp c' x ys"
  by (induction ys) (auto simp: agree_def)

lemma agree_qsort: "agree c c' (set xs) \<Longrightarrow> qsort c xs = qsort c' xs"
proof (induction xs)
  case (Cons x xs)
  have "qsort c xs = qsort c' xs" using Cons by (auto simp: agree_def)
  moreover have "agree c c' (insert x (set (qsort c' xs)))" using Cons.prems by simp
  ultimately show ?case using agree_insort by (fastforce simp: qsort_def)
qed (simp add: qsort_def)

lemma agree_bsearch_loop:
  "agree c c' (insert key (set xs)) \<Longrightarrow> u \<le> length xs \<Longrightarrow> bsearch_loop c key xs l u = bsearch_loop c' key xs l u"
proof (induction c key xs l u rule: bsearch_loop.induct)
  case (1 c key xs l u)
  show ?case
  proof (cases "l < u")
    case True
    then have "c key (xs ! ((l + u) div 2)) = c' key (xs ! ((l + u) div 2))"
      using 1(3,4) by (auto simp: agree_def)
    then show ?thesis
      using 1 True by (subst (1 2) bsearch_loop.simps) (simp add: Let_def)
  qed (simp add: bsearch_loop.simps)
qed

lemma agree_insert_loop:
  "agree c c' (insert p (set xs)) \<Longrightarrow> 0 \<le> low \<Longrightarrow> high < int (length xs) \<Longrightarrow>
    insert_loop c xs p low high = insert_loop c' xs p low high"
proof (induction c xs p low high rule: insert_loop.induct)
  case (1 c xs p low high)
  show ?case
  proof (cases "low \<le> high")
    case True
    then have "nat ((low + high) div 2) < length xs" using 1(4,5) by auto
    then have "c (xs ! nat ((low + high) div 2)) p = c' (xs ! nat ((low + high) div 2)) p"
      using 1(3) by (auto simp: agree_def)
    then show ?thesis
      using 1 True by (subst (1 2) insert_loop.simps) (simp add: Let_def)
  qed (simp add: insert_loop.simps)
qed

lemma agree_ensure:
  "agree c c' (set (items l)) \<Longrightarrow> lst_ensure (Some c) l = lst_ensure (Some c') l"
  by (simp add: lst_ensure_def lst_sort_def agree_qsort)

lemma set_lst_ensure [simp]: "set (items (lst_ensure (Some c) l)) = set (items l)"
  by (simp add: lst_ensure_def lst_sort_def)

lemma agree_sub: "agree c c' S \<Longrightarrow> T \<subseteq> S \<Longrightarrow> agree c c' T"
  by (auto simp: agree_def)

lemma agree_search:
  "agree c c' (insert t (set (items l))) \<Longrightarrow> lst_search (Some c) l t = lst_search (Some c') l t"
  using agree_ensure [of c c' l] agree_bsearch_loop [of c c' t "items (lst_ensure (Some c') l)"]
  by (auto simp: lst_search_def Let_def bsearch_def dest: agree_sub)

lemma agree_insert:
  "agree c c' (insert x (set (items l))) \<Longrightarrow> lst_insert (Some c) l x = lst_insert (Some c') l x"
  using agree_ensure [of c c' l] agree_insert_loop [of c c' x "items (lst_ensure (Some c') l)" 0]
  by (auto simp: lst_insert_def Let_def dest: agree_sub)

definition storms_ok :: "STORM LST \<Rightarrow> bool" where
  "storms_ok l \<longleftrightarrow> storm_tbl.tbl_ok l \<and> (\<forall>e \<in> set (items l). \<not> ST_StrictMode e)"

lemma storms_agree:
  "storms_ok l \<Longrightarrow> \<not> ST_StrictMode t \<Longrightarrow> agree CompareStormList storm_cmp (insert t (set (items l)))"
  by (auto simp: agree_def storms_ok_def CompareStormList_normal)

lemma storm_count_same [simp]:
  "storm_key (snd (storm_count g now limit s)) = storm_key s"
  "ST_StrictMode (snd (storm_count g now limit s)) = ST_StrictMode s"
  by (simp_all add: storm_count_def storm_key_def Let_def)

text \<open>The counter of the endpoint of a packet, a new one if it has none yet, is counted up; no other changes.\<close>

definition storm_of :: "STORM LST \<Rightarrow> PKT \<Rightarrow> STORM" where
  "storm_of l p =
     (let t = new_storm (MacAddressSrc p) (fst (storm_ips p)) (snd (storm_ips p)) False
      in case storm_tbl.view l (storm_key t) of None \<Rightarrow> t | Some e \<Rightarrow> e)"

lemma CheckBroadcastStorm_spec:
  assumes "storms_ok (PA_StormList s)" and "\<not> O_BroadcastLimiterStrictMode opt" and "\<not> P_NoBroadcastLimiter (S_Policy s)"
    and "r = storm_count g now (if O_BroadcastStormDetectionThreshold opt \<noteq> 0
      then O_BroadcastStormDetectionThreshold opt else 32) (storm_of (PA_StormList s) p)"
  shows "fst (CheckBroadcastStorm g now rnd opt s p) = (fst r \<and> storm_passes g rnd (snd r)) \<and>
    (\<exists>l. snd (CheckBroadcastStorm g now rnd opt s p) = s\<lparr>PA_StormList := l\<rparr> \<and> storms_ok l \<and>
      storm_tbl.view l = (storm_tbl.view (PA_StormList s))(storm_key (storm_of (PA_StormList s) p) \<mapsto> snd r))"
proof -
  define l where "l = PA_StormList s"
  obtain src dst where ips: "storm_ips p = (src, dst)" by fastforce
  define t where "t = new_storm (MacAddressSrc p) src dst False"
  have tn: "\<not> ST_StrictMode t" by (simp add: t_def new_storm_def)
  have ok: "storms_ok l" using assms(1) by (simp add: l_def)
  obtain found l1 where f: "lst_search (Some CompareStormList) l t = (found, l1)" by fastforce
  then have f': "lst_search (Some storm_cmp) l t = (found, l1)"
    using agree_search [OF storms_agree [OF ok tn]] by simp
  have l: "storm_tbl.tbl_ok l" using ok by (simp add: storms_ok_def)
  note sr = storm_tbl.tbl_search [OF l f']
  have set1: "set (items l1) = set (items l)" using sr by (metis set_mset_mset)
  have ok1: "storms_ok l1" using ok sr set1 by (simp add: storms_ok_def)
  define e where "e = storm_of l p"
  define l2 where "l2 = (case found of None \<Rightarrow> lst_insert (Some CompareStormList) l1 t | Some e \<Rightarrow> l1)"
  have e: "storm_key e = storm_key t" "\<not> ST_StrictMode e" "storms_ok l2"
    "storm_tbl.view l2 = (storm_tbl.view l)(storm_key e \<mapsto> e)"
  proof -
    have "storm_key e = storm_key t \<and> \<not> ST_StrictMode e \<and> storms_ok l2 \<and>
      storm_tbl.view l2 = (storm_tbl.view l)(storm_key e \<mapsto> e)"
    proof (cases found)
      case None
      then have e: "e = t" and v: "storm_tbl.view l1 (storm_key t) = None"
        using sr by (simp_all add: e_def storm_of_def ips Let_def flip: t_def)
      have "lst_insert (Some CompareStormList) l1 t = lst_insert (Some storm_cmp) l1 t"
        by (rule agree_insert [OF storms_agree [OF ok1 tn]])
      then have l2: "l2 = lst_insert (Some storm_cmp) l1 t" using None by (simp add: l2_def)
      note i = storm_tbl.tbl_insert [OF _ v]
      have "set (items l2) = insert t (set (items l1))"
        using i ok1 unfolding l2 storms_ok_def by (metis set_mset_add_mset_insert set_mset_mset)
      then show ?thesis using i ok1 tn sr e unfolding l2 storms_ok_def by auto
    next
      case (Some x)
      then have v: "storm_tbl.view l (storm_key t) = Some x" using sr by simp
      have "e = x" using v by (simp add: e_def storm_of_def ips Let_def flip: t_def)
      then have x: "e = x" "storm_key x = storm_key t" "x \<in> set (items l)"
        using l v by (simp_all add: storm_tbl.view_Some)
      then show ?thesis using ok ok1 sr v Some by (auto simp: storms_ok_def l2_def)
    qed
    then show "storm_key e = storm_key t" "\<not> ST_StrictMode e" "storms_ok l2"
      "storm_tbl.view l2 = (storm_tbl.view l)(storm_key e \<mapsto> e)" by auto
  qed
  define l3 where "l3 = l2\<lparr>items := replace_first e (snd r) (items l2)\<rparr>"
  have r: "r = storm_count g now (if O_BroadcastStormDetectionThreshold opt \<noteq> 0
      then O_BroadcastStormDetectionThreshold opt else 32) e" using assms(4) by (simp add: e_def l_def)
  have k: "storm_key (snd r) = storm_key e" "\<not> ST_StrictMode (snd r)" using e(2) by (simp_all add: r)
  have "storm_tbl.tbl_ok l2" "storm_tbl.view l2 (storm_key e) = Some e" using e by (simp_all add: storms_ok_def)
  note u = storm_tbl.tbl_replace [OF this k(1)]
  have "set (items l3) \<subseteq> insert (snd r) (set (items l2))"
  proof -
    have "set (replace_first x y zs) \<subseteq> insert y (set zs)" for x y :: STORM and zs by (induction zs) auto
    then show ?thesis by (simp add: l3_def)
  qed
  then have "storms_ok l3" using u e(3) k by (auto simp: storms_ok_def l3_def)
  moreover have "storm_tbl.view l3 = (storm_tbl.view l)(storm_key e \<mapsto> snd r)" using u e(4) by (simp add: l3_def)
  moreover have "CheckBroadcastStorm g now rnd opt s p =
      (fst r \<and> storm_passes g rnd (snd r), s\<lparr>PA_StormList := l3\<rparr>)"
  proof -
    have "e = (case found of None \<Rightarrow> t | Some e \<Rightarrow> e)" using sr by (simp add: e_def storm_of_def ips Let_def flip: t_def)
    then have c: "(case found of None \<Rightarrow> AddStormList l1 (MacAddressSrc p) src dst False | Some e \<Rightarrow> (e, l1)) = (e, l2)"
      by (cases found) (simp_all add: AddStormList_def l2_def t_def Let_def)
    have se: "SearchStormList (PA_StormList s) (MacAddressSrc p) src dst False = (found, l1)"
      using f by (simp add: SearchStormList_def t_def l_def)
    obtain ret e' where re: "r = (ret, e')" by fastforce
    show ?thesis
      using assms(2,3) r unfolding re
      by (simp add: CheckBroadcastStorm_def ips se c Let_def l3_def re flip: r)
  qed
  ultimately show ?thesis by (auto simp: e_def l_def)
qed

lemma unat_ucast_32_64 [simp]: "unat (ucast (x :: u32) :: u64) = unat x"
  by (simp add: unsigned_ucast_eq take_bit_nat_eq_self order.strict_trans [OF unsigned_less])

section \<open>What the limiter lets through\<close>

text \<open>The packets that pass among those sent at given times, and their bits.\<close>

fun upload :: "SESSION \<Rightarrow> (u64 \<times> PKT) list \<Rightarrow> PKT list" where
  "upload s [] = []"
| "upload s ((now, p) # ps) =
     (let (ok, s) = StorePacketFilterByTrafficLimiter now s p in if ok then p # upload s ps else upload s ps)"

definition total_bits :: "PKT list \<Rightarrow> nat" where
  "total_bits ps = sum_list (map (\<lambda>p. 8 * unat (PacketSize p)) ps)"

definition in_window :: "u64 \<Rightarrow> u64 \<Rightarrow> bool" where
  "in_window start now \<longleftrightarrow> start \<noteq> 0 \<and> start \<le> now \<and> unat now \<le> unat start + unat LIMITER_SAMPLING_SPAN"

lemma upload_window:
  assumes "P_MaxUpload (S_Policy s) \<noteq> 0" and "LastTime (PA_UploadLimiter s) = start"
    and "\<forall>(now, p) \<in> set ps. in_window start now \<and> \<not> IsMostHighestPriorityPacket p"
    and "unat start + 1000 < 2 ^ 64"
    and "unat (Lim_Value (PA_UploadLimiter s)) + total_bits (map snd ps) < 2 ^ 50"
  shows "upload s ps = [] \<or>
    unat (Lim_Value (PA_UploadLimiter s)) + total_bits (upload s ps) \<le> unat (P_MaxUpload (S_Policy s))"
  using assms
proof (induction ps arbitrary: s)
  case (Cons np ps)
  obtain now p where np: "np = (now, p)" by (cases np)
  let ?tr = "PA_UploadLimiter s"
  let ?bits = "8 * unat (PacketSize p)"
  define tr where "tr = ?tr\<lparr>Lim_Value := Lim_Value ?tr + ucast (PacketSize p) * 8\<rparr>"
  define s' where "s' = s\<lparr>PA_UploadLimiter := tr\<rparr>"
  have w: "in_window start now" "\<not> IsMostHighestPriorityPacket p" using Cons.prems(3) np by auto
  then have "unat (start + 1000) = unat start + 1000" using Cons.prems(4) by (simp add: unat_word_ariths)
  then have "IntoTrafficLimiter now ?tr p = tr"
    using w(1) Cons.prems(2) by (auto simp: IntoTrafficLimiter_def in_window_def tr_def Let_def word_less_nat_alt word_le_nat_alt)
  then have f: "StorePacketFilterByTrafficLimiter now s p =
      (\<not> measured tr > ucast (P_MaxUpload (S_Policy s)), s')"
    using w(2) Cons.prems(1) by (simp add: StorePacketFilterByTrafficLimiter_def s'_def)
  have tb: "total_bits (map snd (np # ps)) = ?bits + total_bits (map snd ps)" by (simp add: total_bits_def np)
  have v: "unat (Lim_Value tr) = unat (Lim_Value ?tr) + ?bits"
    using Cons.prems(5) unfolding tb by (simp add: tr_def unat_word_ariths)
  have m: "measured tr = Lim_Value tr"
    using Cons.prems(5) v unfolding tb measured_def
    by (intro word_unat_eq_iff [THEN iffD2]) (simp add: unat_div unat_word_ariths)
  have IH: "upload s' ps = [] \<or> unat (Lim_Value tr) + total_bits (upload s' ps) \<le> unat (P_MaxUpload (S_Policy s))"
    using Cons.IH [of s'] Cons.prems v unfolding tb by (simp add: s'_def tr_def)
  show ?case
  proof (cases "measured tr > ucast (P_MaxUpload (S_Policy s))")
    case True
    then show ?thesis using IH v by (auto simp: np f)
  next
    case False
    then have "unat (Lim_Value tr) \<le> unat (P_MaxUpload (S_Policy s))"
      by (simp add: m not_less word_le_nat_alt)
    then show ?thesis using IH v False by (auto simp: np f total_bits_def)
  qed
qed simp

end
