(* ===== verification/Frames.thy ===== *)
theory Frames
  imports Packet
begin

text \<open>
  Changes of a frame on its way through a virtual hub (src/src/Mayaqua/TcpIp.c and
  src/src/Cedar/Hub.c): VLAN tags put in and taken out, the maximum segment size of a TCP
  connection lowered, the default router taken out of an IPv6 router advertisement. A changed
  TCP segment gets a new checksum. \<open>None\<close> is an access outside of the frame; the lemmas say
  that the checks of the code exclude it.
\<close>

section \<open>VLAN tags\<close>

definition VLanInsertTag :: "u8 list \<Rightarrow> u32 \<Rightarrow> u32 \<Rightarrow> u8 list" where
  "VLanInsertTag packet_data vlan_id vlan_tpid =
     (if length packet_data < 14 \<or> vlan_id = 0 then packet_data
      else
        let vlan_tpid = (if vlan_tpid = 0 then MAC_PROTO_TAGVLAN else vlan_tpid)
        in take 12 packet_data @ be16 (ucast vlan_tpid) @ be16 (ucast vlan_id AND 0xFFF) @ drop 12 packet_data)"

definition VLanRemoveTag :: "u8 list \<Rightarrow> u32 \<Rightarrow> u32 \<Rightarrow> bool \<times> u8 list" where
  "VLanRemoveTag packet_data vlan_id vlan_tpid =
     (if length packet_data < 14 then (False, packet_data)
      else
        let vlan_tpid = (if vlan_tpid = 0 then MAC_PROTO_TAGVLAN else vlan_tpid)
        in if take 2 (drop 12 packet_data) = be16 (ucast vlan_tpid) \<and> length packet_data \<ge> 18
           then
             let vlan = of_be16 (take 2 (drop 14 packet_data)) AND 0xFFF
             in if vlan_id = 0 \<or> ucast vlan = vlan_id
                then (True, take 12 packet_data @ drop 16 packet_data)
                else (False, packet_data)
           else (False, packet_data))"

lemma low_bits: "ucast (ucast v AND 0xFFF :: u16) = v AND (0xFFF :: u32)"
proof -
  have e: "(0xFFF :: u32) = mask 12" "(0xFFF :: u16) = mask 12" by (simp_all add: mask_eq_exp_minus_1)
  show ?thesis unfolding e by (intro bit_word_eqI) (auto simp: bit_simps)
qed

text \<open>What one session tags the other sees untagged, if the identifier fits into the tag.\<close>

lemma vlan_roundtrip:
  assumes "14 \<le> length d" and "vlan_id \<noteq> 0" and "vlan_id AND 0xFFF = vlan_id"
  shows "VLanRemoveTag (VLanInsertTag d vlan_id tpid) vlan_id tpid = (True, d)"
proof -
  have v: "ucast ((ucast vlan_id AND 0xFFF) AND 0xFFF :: u16) = vlan_id"
    using assms(3) by (simp add: and.assoc low_bits)
  have "length (VLanInsertTag d vlan_id tpid) = length d + 4"
    using assms(1,2) by (simp add: VLanInsertTag_def Let_def)
  then show ?thesis using assms(1,2) v
    by (simp add: VLanRemoveTag_def VLanInsertTag_def Let_def min_def)
qed

text \<open>A frame for another VLAN is refused and left as it is.\<close>

lemma vlan_other:
  assumes "14 \<le> length d" and "vlan_id \<noteq> 0" and "other \<noteq> 0" and "vlan_id AND 0xFFF \<noteq> other"
  shows "VLanRemoveTag (VLanInsertTag d vlan_id tpid) other tpid =
    (False, VLanInsertTag d vlan_id tpid)"
proof -
  have "ucast ((ucast vlan_id AND 0xFFF) AND 0xFFF :: u16) = vlan_id AND (0xFFF :: u32)"
    by (simp add: and.assoc low_bits)
  then show ?thesis using assms
    by (simp add: VLanRemoveTag_def VLanInsertTag_def Let_def min_def)
qed

section \<open>The maximum segment size\<close>

text \<open>
  Where the TCP segment of an IP packet is: whether it is one of IPv6, its place and its size.
  No result inside means that the packet is not changed.
\<close>

definition tcp_in_ipv4 :: "u8 list \<Rightarrow> nat \<Rightarrow> nat \<Rightarrow> (bool \<times> nat \<times> nat) option option" where
  "tcp_in_ipv4 m src src_size =
     (if src_size < 20 then Some None
      else do {
        proto \<leftarrow> mem8 m (src + 9);
        f0 \<leftarrow> mem8 m (src + 6);
        f1 \<leftarrow> mem8 m (src + 7);
        h \<leftarrow> mem8 m src;
        tot \<leftarrow> net16 m (src + 2);
        let ip_header_size = unat (h AND 0x0f) * 4;
        let ip_total_length = unat tot;
        Some
          (if proto \<noteq> IP_PROTO_TCP then None
           else if unat (f0 AND 0x1f) * 256 + unat f1 \<noteq> 0 then None
           else if (drop_bit 5 f0 AND 0x07) AND 0x01 \<noteq> 0 then None
           else if ip_header_size < 20 then None
           else if src_size < ip_header_size then None
           else if ip_total_length < ip_header_size then None
           else if src_size < ip_total_length then None
           else if ip_total_length - ip_header_size < 20 then None
           else Some (False, src + ip_header_size, ip_total_length - ip_header_size))
      })"

definition tcp_in_ipv6 :: "u8 list \<Rightarrow> nat \<Rightarrow> nat \<Rightarrow> (bool \<times> nat \<times> nat) option option" where
  "tcp_in_ipv6 m src src_size =
     do {
       (ok, v6) \<leftarrow> ParsePacketIPv6Header m src src_size;
       more \<leftarrow> (case FragmentHeader_at v6 of
           None \<Rightarrow> Some False
         | Some fh \<Rightarrow> map_option (\<lambda>c. (c AND 0x0f) AND 0x01 \<noteq> 0) (mem8 m (fh + 3)));
       Some
         (if \<not> ok then None
          else if V6Protocol v6 \<noteq> IP_PROTO_TCP then None
          else if IsFragment v6 then None
          else if more then None
          else case V6Payload_at v6 of
              None \<Rightarrow> None
            | Some tcp \<Rightarrow> Some (True, tcp, unat (V6PayloadSize v6)))
     }"

text \<open>The new value of the option, and the checksum with it.\<close>

definition set_mss :: "bool \<Rightarrow> bool \<Rightarrow> u8 list \<Rightarrow> nat \<Rightarrow> nat \<Rightarrow> nat \<Rightarrow> u32 \<Rightarrow> u8 list option" where
  "set_mss le v6 m src tcp tcp_size mss =
     do {
       m \<leftarrow> put16 False m (tcp + 22) (ucast mss);
       calc \<leftarrow> (if v6
         then do {
           s \<leftarrow> mem_bytes m (src + 8) 16;
           d \<leftarrow> mem_bytes m (src + 24) 16;
           Some (\<lambda>b n. CalcChecksumForIPv6 le s d IP_PROTO_TCP b n)
         }
         else do {
           s \<leftarrow> mem_bytes m (src + 12) 4;
           d \<leftarrow> mem_bytes m (src + 16) 4;
           Some (\<lambda>b n. CalcChecksumForIPv4 le (of_mem32 le s) (of_mem32 le d) IP_PROTO_TCP b n)
         });
       recalculate le calc m tcp (tcp + 16) tcp_size
     }"

definition AdjustTcpMssL3 :: "bool \<Rightarrow> u8 list \<Rightarrow> nat \<Rightarrow> nat \<Rightarrow> u32 \<Rightarrow> (bool \<times> u8 list) option" where
  "AdjustTcpMssL3 le m src src_size mss =
     (if src_size = 0 \<or> mss = 0 then Some (False, m)
      else do {
        v \<leftarrow> mem8 m src;
        let ip_ver = drop_bit 4 v AND 0x0f;
        r \<leftarrow> (if ip_ver = 4 then tcp_in_ipv4 m src src_size
              else if ip_ver = 6 then tcp_in_ipv6 m src src_size
              else Some None);
        case r of
          None \<Rightarrow> Some (False, m)
        | Some (v6, tcp, tcp_size) \<Rightarrow>
            if tcp_size < 20 then Some (False, m)
            else do {
              hs \<leftarrow> mem8 m (tcp + 12);
              fl \<leftarrow> mem8 m (tcp + 13);
              let tcp_header_size = unat (drop_bit 4 hs AND 0x0f) * 4;
              if tcp_header_size < 20 then Some (False, m)
              else if tcp_size < tcp_header_size then Some (False, m)
              else if fl AND 2 = 0 \<or> fl AND 4 \<noteq> 0 \<or> fl AND 8 \<noteq> 0 \<or> fl AND 32 \<noteq> 0 then Some (False, m)
              else if tcp_header_size - 20 < 4 then Some (False, m)
              else do {
                o0 \<leftarrow> mem8 m (tcp + 20);
                o1 \<leftarrow> mem8 m (tcp + 21);
                current_mss \<leftarrow> net16 m (tcp + 22);
                let mss = (if v6 \<and> mss \<ge> 20 then mss - 20 else mss);
                let mss = max mss 64;
                if \<not> (o0 = 0x02 \<and> o1 = 0x04) then Some (False, m)
                else if ucast current_mss \<le> mss then Some (False, m)
                else map_option (\<lambda>m. (True, m)) (set_mss le v6 m src tcp tcp_size mss)
              }
            }
      })"

definition AdjustTcpMssL2 :: "bool \<Rightarrow> u8 list \<Rightarrow> u32 \<Rightarrow> u16 \<Rightarrow> (bool \<times> u8 list) option" where
  "AdjustTcpMssL2 le m mss tag_vlan_tpid =
     (if length m = 0 \<or> mss = 0 then Some (False, m)
      else
        let tag_vlan_tpid = (if tag_vlan_tpid = 0 then ucast MAC_PROTO_TAGVLAN else tag_vlan_tpid)
        in if length m < 14 then Some (False, m)
           else do {
             proto \<leftarrow> net16 m 12;
             if proto = MAC_PROTO_IPV4 \<or> proto = MAC_PROTO_IPV6 then AdjustTcpMssL3 le m 14 (length m - 14) mss
             else if proto = tag_vlan_tpid \<and> length m - 14 \<ge> 4
             then do {
               proto \<leftarrow> net16 m 16;
               if (proto = MAC_PROTO_IPV4 \<or> proto = MAC_PROTO_IPV6) \<and> mss \<ge> 5
               then AdjustTcpMssL3 le m 18 (length m - 18) (mss - 4)
               else Some (False, m)
             }
             else Some (False, m)
           })"

text \<open>The checks keep every access inside: the frame keeps its length and the bytes in front of the packet.\<close>

definition adjusted :: "nat \<Rightarrow> u8 list \<Rightarrow> (bool \<times> u8 list) option \<Rightarrow> bool" where
  "adjusted lo m r \<longleftrightarrow> (\<exists>ok m'. r = Some (ok, m') \<and> length m' = length m \<and> take lo m' = take lo m \<and> (\<not> ok \<longrightarrow> m' = m))"

lemma adjusted_same [simp]: "adjusted lo m (Some (False, m))"
  by (auto simp: adjusted_def intro: exI [of _ False])

lemma adjusted_mono: "adjusted lo m r \<Longrightarrow> lo' \<le> lo \<Longrightarrow> adjusted lo' m r"
proof -
  assume a: "adjusted lo m r" "lo' \<le> lo"
  then obtain ok m' where r: "r = Some (ok, m')" "length m' = length m" "take lo m' = take lo m" "\<not> ok \<longrightarrow> m' = m"
    by (auto simp: adjusted_def)
  have "take lo' (take lo m') = take lo' (take lo m)" using r(3) by simp
  then have "take lo' m' = take lo' m" using a(2) by (simp add: min_def)
  then show ?thesis using r by (simp add: adjusted_def)
qed

lemma edits_adjusted: "edits lo m r \<Longrightarrow> adjusted lo m (map_option (\<lambda>m'. (True, m')) r)"
  by (auto simp: edits_def adjusted_def)

definition segment_ok :: "nat \<Rightarrow> nat \<Rightarrow> (bool \<times> nat \<times> nat) option option \<Rightarrow> bool" where
  "segment_ok src e r \<longleftrightarrow> (\<exists>t. r = Some t \<and> (\<forall>v6 tcp sz. t = Some (v6, tcp, sz) \<longrightarrow>
     src + 20 \<le> tcp \<and> tcp + sz \<le> e \<and> (v6 \<longrightarrow> src + 40 \<le> e)))"

lemma tcp_in_ipv4_ok: "src + sz \<le> length m \<Longrightarrow> segment_ok src (src + sz) (tcp_in_ipv4 m src sz)"
  by (auto simp: tcp_in_ipv4_def segment_ok_def mem_simps Let_def)

lemma v6_ext_loop_from:
  "v6_ext_loop m info nh nh2 off sz = Some (ok, i) \<Longrightarrow> V6Payload_at info = None \<Longrightarrow> V6Payload_at i = Some d \<Longrightarrow> off \<le> d"
proof (induction sz arbitrary: info nh nh2 off rule: less_induct)
  case (less sz)
  have IH: "off \<le> d" if "v6_ext_loop m info' nh' nh2' (off + k) sz' = Some (ok, i)"
    "V6Payload_at info' = None" "sz' < sz" for info' nh' nh2' k sz'
    using less.IH [OF that(3,1,2) less.prems(3)] by simp
  from less.prems show ?case
    by (subst (asm) v6_ext_loop.simps) (auto simp: bind_Some_conv Let_def split: if_splits dest!: IH)
qed

lemma tcp_in_ipv6_ok:
  assumes "src + sz \<le> length m"
  shows "segment_ok src (src + sz) (tcp_in_ipv6 m src sz)"
proof -
  obtain ok v6 where v6: "ParsePacketIPv6Header m src sz = Some (ok, v6)" "v6_ok (src + sz) v6"
    "ok \<Longrightarrow> 40 \<le> sz"
    using ParsePacketIPv6Header_spec [OF assms] by blast
  have "src + 40 \<le> d" if "ok" "V6Payload_at v6 = Some d" for d
    using that v6(1)
    by (auto simp: ParsePacketIPv6Header_def ParseIPv6ExtHeader_def bind_Some_conv Let_def no_v6_def
        split: if_splits option.splits dest!: v6_ext_loop_from)
  moreover have "\<exists>b. (case FragmentHeader_at v6 of None \<Rightarrow> Some False
      | Some fh \<Rightarrow> map_option (\<lambda>c. (c AND 0x0f) AND 0x01 \<noteq> 0) (mem8 m (fh + 3))) = Some b"
    using v6(2) assms by (auto simp: v6_ok_def mem_simps split: option.split)
  ultimately show ?thesis using v6
    by (auto simp: tcp_in_ipv6_def segment_ok_def v6_ok_def split: option.splits)
qed

lemma set_mss_edits:
  assumes "src + 20 \<le> tcp" and "24 \<le> n" and "tcp + n \<le> length m" and "v6 \<longrightarrow> src + 40 \<le> length m"
  shows "edits src m (set_mss le v6 m src tcp n mss)"
proof -
  have "edits src m (recalculate le calc m' tcp (tcp + 16) n)" if "length m' = length m" "take src m' = take src m" for calc m'
    using recalculate_edits [of "tcp + 16" m' src tcp n le calc] assms that by (simp add: edits_def)
  then show ?thesis unfolding set_mss_def using assms
    by (intro edits_bind [OF put16_edits]) (auto simp: mem_simps edits_def)
qed

lemma AdjustTcpMssL3_spec:
  assumes "src + sz \<le> length m"
  shows "adjusted src m (AdjustTcpMssL3 le m src sz mss)"
proof (cases "sz = 0 \<or> mss = 0")
  case False
  define r where "r = (if drop_bit 4 (m ! src) AND 0x0f = 4 then tcp_in_ipv4 m src sz
              else if drop_bit 4 (m ! src) AND 0x0f = 6 then tcp_in_ipv6 m src sz
              else Some None)"
  have "segment_ok src (src + sz) r"
    using tcp_in_ipv4_ok [OF assms] tcp_in_ipv6_ok [OF assms] by (simp add: r_def segment_ok_def)
  then obtain t where t: "r = Some t"
    "\<And>v6 tcp n. t = Some (v6, tcp, n) \<Longrightarrow> src + 20 \<le> tcp \<and> tcp + n \<le> src + sz \<and> (v6 \<longrightarrow> src + 40 \<le> src + sz)"
    by (auto simp: segment_ok_def)
  have v: "mem8 m src = Some (m ! src)" using assms False by (intro mem8_ok) linarith
  show ?thesis
  proof (cases t)
    case None
    then show ?thesis using False v t(1) by (simp add: AdjustTcpMssL3_def r_def Let_def)
  next
    case (Some x)
    obtain v6 tcp n where x: "t = Some (v6, tcp, n)" using Some by (cases x) auto
    have b: "src + 20 \<le> tcp" "tcp + n \<le> length m" "v6 \<longrightarrow> src + 40 \<le> length m" using t(2) [OF x] assms by auto
    show ?thesis
    proof (cases "n < 20")
      case True
      then show ?thesis using False v t(1) x by (simp add: AdjustTcpMssL3_def r_def Let_def)
    next
      case big: False
      define hs where "hs = unat (drop_bit 4 (m ! (tcp + 12)) AND 0x0f) * 4"
      have fl: "mem8 m (tcp + 12) = Some (m ! (tcp + 12))" "mem8 m (tcp + 13) = Some (m ! (tcp + 13))"
        using b big by (intro mem8_ok; linarith)+
      note unf = AdjustTcpMssL3_def v r_def [symmetric] t(1) x fl Option.bind_lunit Let_def option.case prod.case
        hs_def [symmetric]
      show ?thesis
      proof (cases "hs < 24 \<or> n < hs")
        case True
        then show ?thesis using False big unfolding unf by auto
      next
        case opt: False
        have o: "mem8 m (tcp + 20) = Some (m ! (tcp + 20))" "mem8 m (tcp + 21) = Some (m ! (tcp + 21))"
          "net16 m (tcp + 22) = Some (of_be16 (take 2 (drop (tcp + 22) m)))"
          using b opt by (auto simp: mem_simps)
        have p: "edits src m (set_mss le c m src tcp n k)" if "c = v6" for c k
          using b opt that by (intro set_mss_edits) auto
        show ?thesis
          using False big opt unfolding unf o by (auto intro!: edits_adjusted p)
      qed
    qed
  qed
qed (simp add: AdjustTcpMssL3_def)

lemma AdjustTcpMssL2_spec: "adjusted 14 m (AdjustTcpMssL2 le m mss tpid)"
proof (cases "length m < 14")
  case False
  have p: "net16 m 12 = Some (of_be16 (take 2 (drop 12 m)))" using False by (simp add: mem_simps)
  have "adjusted 14 m (AdjustTcpMssL3 le m 14 (length m - 14) mss)" using False by (intro AdjustTcpMssL3_spec) simp
  moreover have "adjusted 14 m (AdjustTcpMssL3 le m 18 (length m - 18) (mss - 4))" if "length m - 14 \<ge> 4"
    by (rule adjusted_mono [OF AdjustTcpMssL3_spec]) (use that in simp_all)
  moreover have "net16 m 16 = Some (of_be16 (take 2 (drop 16 m)))" if "length m - 14 \<ge> 4"
    using that by (simp add: mem_simps)
  ultimately show ?thesis unfolding AdjustTcpMssL2_def p Option.bind_lunit by (auto simp: Let_def)
qed (auto simp: AdjustTcpMssL2_def Let_def)

text \<open>The new checksum verifies.\<close>

lemma recalculate_verifies:
  assumes "recalculate le calc m tcp (tcp + 16) n = Some m'" and "tcp + n \<le> length m" and "18 \<le> n"
    and "\<And>b. length b = n \<Longrightarrow> calc b 0 = IpChecksum le (pre @ b)" and "even (length pre)" and "length pre + n < 32768"
  shows "calc (take n (drop tcp m')) 0 = 0 \<and> take (tcp + 16) m' = take (tcp + 16) m \<and> drop (tcp + 18) m' = drop (tcp + 18) m"
proof -
  define a b where "a = take 16 (drop tcp m)" and "b = take (n - 18) (drop (tcp + 18) m)"
  define m1 where "m1 = take (tcp + 16) m @ mem16 le 0 @ drop (tcp + 18) m"
  have z: "mem16 le 0 = [0, 0]" by (cases le) (simp_all add: mem16_def be16_def)
  have len: "length a = 16" "length b = n - 18" "length m1 = length m" using assms(2,3) by (simp_all add: a_def b_def m1_def)
  have seg: "take n (drop tcp (take (tcp + 16) m @ w @ drop (tcp + 18) m)) = a @ w @ b" if "length w = 2" for w
    using assms(2,3) that by (simp add: a_def b_def min_def drop_take)
  have m1: "put16 le m (tcp + 16) 0 = Some m1" using assms(2,3) by (simp add: put16_def m1_def add.commute)
  have d: "mem_bytes m1 tcp n = Some (a @ [0, 0] @ b)"
    using assms(2) len seg [of "mem16 le 0"] by (simp add: mem_bytes_def m1_def z)
  have c: "calc (a @ [0, 0] @ b) 0 = IpChecksum le ((pre @ a) @ [0, 0] @ b)" using assms(3,4) len by simp
  have m': "m' = take (tcp + 16) m @ mem16 le (IpChecksum le ((pre @ a) @ [0, 0] @ b)) @ drop (tcp + 18) m"
  proof -
    have p: "put16 le m1 (tcp + 16) v = Some (take (tcp + 16) m1 @ mem16 le v @ drop (tcp + 16 + 2) m1)" for v
      using assms(2,3) len by (simp add: put16_def)
    have "m' = take (tcp + 16) m1 @ mem16 le (IpChecksum le ((pre @ a) @ [0, 0] @ b)) @ drop (tcp + 16 + 2) m1"
      using assms(1) unfolding recalculate_def m1 Option.bind_lunit d c p by simp
    then show ?thesis using assms(2,3) by (simp add: m1_def add.commute)
  qed
  have "take n (drop tcp m') = a @ mem16 le (IpChecksum le ((pre @ a) @ [0, 0] @ b)) @ b"
    unfolding m' by (rule seg) simp
  moreover have "IpChecksum le ((pre @ a) @ mem16 le (IpChecksum le ((pre @ a) @ [0, 0] @ b)) @ b) = 0"
    using assms(3,5,6) len by (intro checksum_verifies) auto
  ultimately have "calc (take n (drop tcp m')) 0 = 0" using assms(3,4) len by simp
  then show ?thesis using assms(2,3) by (simp add: m')
qed

definition tcp_checksum :: "bool \<Rightarrow> bool \<Rightarrow> u8 list \<Rightarrow> nat \<Rightarrow> nat \<Rightarrow> nat \<Rightarrow> u16" where
  "tcp_checksum le v6 m src tcp n =
     (if v6
      then CalcChecksumForIPv6 le (take 16 (drop (src + 8) m)) (take 16 (drop (src + 24) m)) IP_PROTO_TCP
        (take n (drop tcp m)) 0
      else CalcChecksumForIPv4 le (of_mem32 le (take 4 (drop (src + 12) m))) (of_mem32 le (take 4 (drop (src + 16) m)))
        IP_PROTO_TCP (take n (drop tcp m)) 0)"

lemma set_mss_result:
  assumes "set_mss le v6 m src tcp n k = Some m'" and "src + (if v6 then 40 else 20) \<le> tcp" and "24 \<le> n"
    and "tcp + n \<le> length m" and "n < 32000"
  shows "tcp_checksum le v6 m' src tcp n = 0 \<and> of_be16 (take 2 (drop (tcp + 22) m')) = ucast k"
proof -
  define m1 where "m1 = take (tcp + 22) m @ be16 (ucast k) @ drop (tcp + 24) m"
  define calc where "calc = (if v6
    then CalcChecksumForIPv6 le (take 16 (drop (src + 8) m1)) (take 16 (drop (src + 24) m1)) IP_PROTO_TCP
    else CalcChecksumForIPv4 le (of_mem32 le (take 4 (drop (src + 12) m1))) (of_mem32 le (take 4 (drop (src + 16) m1))) IP_PROTO_TCP)"
  have l1: "length m1 = length m" using assms(3,4) by (simp add: m1_def)
  have r: "recalculate le calc m1 tcp (tcp + 16) n = Some m'"
  proof -
    have "put16 False m (tcp + 22) (ucast k) = Some m1" using assms(3,4) by (simp add: put16_def m1_def mem16_def add.commute)
    moreover have "mem_bytes m1 i l = Some (take l (drop i m1))" if "i + l \<le> tcp" for i l
      using that assms(3,4) l1 by (intro mem_bytes_ok) linarith
    ultimately show ?thesis using assms(1,2) by (auto simp: set_mss_def calc_def split: if_splits)
  qed
  have n: "(of_nat n :: u32) \<noteq> 0" "(of_nat n :: u32) \<noteq> 0xFFFFFFFF"
  proof -
    have u: "unat (of_nat n :: u32) = n" using assms(5) by (simp add: nowrap)
    show "(of_nat n :: u32) \<noteq> 0" using u assms(3) by (metis unat_0 le_zero_eq zero_neq_numeral)
    show "(of_nat n :: u32) \<noteq> 0xFFFFFFFF"
    proof
      assume "(of_nat n :: u32) = 0xFFFFFFFF"
      then have "unat (of_nat n :: u32) = 4294967295" by simp
      then show False using u assms(5) by simp
    qed
  qed
  define pre where "pre = (if v6
    then take 16 (drop (src + 8) m1) @ take 16 (drop (src + 24) m1) @ mem32 le (Endian32 le (of_nat n)) @ [0, 0, 0, IP_PROTO_TCP]
    else mem32 le (of_mem32 le (take 4 (drop (src + 12) m1))) @ mem32 le (of_mem32 le (take 4 (drop (src + 16) m1))) @
      [0, IP_PROTO_TCP] @ mem16 le (Endian16 le (ucast (of_nat n :: u32))))"
  have pl: "length pre = (if v6 then 40 else 12)" using assms(2,3,4) l1 by (auto simp: pre_def min_def)
  have "calc b 0 = IpChecksum le (pre @ b)" if "length b = n" for b
    using that n by (simp add: calc_def CalcChecksumForIPv6_def CalcChecksumForIPv4_def pre_def Let_def)
  note v = recalculate_verifies [OF r _ _ this]
  have v: "calc (take n (drop tcp m')) 0 = 0" "take (tcp + 16) m' = take (tcp + 16) m1" "drop (tcp + 18) m' = drop (tcp + 18) m1"
    using v pl assms(3-5) l1 by (auto split: if_splits)
  have before: "take l (drop i m') = take l (drop i m1)" if "i + l \<le> tcp" for i l
  proof -
    have "take l (drop i m') = drop i (take (i + l) (take (tcp + 16) m'))" using that by (simp add: drop_take min_def)
    then show ?thesis unfolding v(2) using that by (simp add: drop_take min_def)
  qed
  have "drop (tcp + 22) m' = drop 4 (drop (tcp + 18) m')" by (simp add: add.commute)
  also have "\<dots> = be16 (ucast k) @ drop (tcp + 24) m" unfolding v(3) using assms(3,4) by (simp add: m1_def)
  finally have "take 2 (drop (tcp + 22) m') = be16 (ucast k)" by simp
  then show ?thesis using v(1) before assms(2)
    by (auto simp: tcp_checksum_def calc_def split: if_splits)
qed

section \<open>Router advertisements\<close>

definition is_ra :: "PKT \<Rightarrow> bool" where
  "is_ra p \<longleftrightarrow> TypeL3 p = L3_IPV6 \<and> TypeL4 p = L4_ICMPV6 \<and> Icmp6Type (ICMPv6HeaderPacketInfo p) = 134"

text \<open>The life time of the default router, 0 if there is no header of an advertisement.\<close>

definition ra_lifetime :: "PKT \<Rightarrow> u16" where
  "ra_lifetime p =
     (case Icmp6Header_at (ICMPv6HeaderPacketInfo p) of
        None \<Rightarrow> 0
      | Some h \<Rightarrow> (case host16 host_le (PacketData p) (h + 2) of None \<Rightarrow> 0 | Some v \<Rightarrow> v))"

definition DeleteIPv6DefaultRouterInRA :: "PKT \<Rightarrow> PKT option" where
  "DeleteIPv6DefaultRouterInRA p =
     (if is_ra p \<and> ra_lifetime p \<noteq> 0
      then do {
        l3 \<leftarrow> L3_at p;
        l4 \<leftarrow> L4_at p;
        h \<leftarrow> Icmp6Header_at (ICMPv6HeaderPacketInfo p);
        m \<leftarrow> put16 host_le (PacketData p) (h + 2) 0;
        s \<leftarrow> mem_bytes m (l3 + 8) 16;
        d \<leftarrow> mem_bytes m (l3 + 24) 16;
        m \<leftarrow> recalculate host_le (\<lambda>b n. CalcChecksumForIPv6 host_le s d IP_PROTO_ICMPV6 b n) m l4 (l4 + 2)
          (unat (V6PayloadSize (IPv6HeaderPacketInfo p)));
        Some (p\<lparr>PacketData := m\<rparr>)
      }
      else Some p)"

end
