(* ===== verification/HubStore.thy ===== *)
theory HubStore
  imports HubTables Frames
begin

text \<open>
  The path of a packet through a virtual hub (src/src/Cedar/Hub.c): \<open>HubPaPutPacket\<close> takes
  a frame from a session, \<open>StorePacket\<close> filters it, learns the addresses of its sender, looks
  its destination up and hands it to the packet adapters of the sessions that get it
  (\<open>StorePacketToHubPa\<close>), which \<open>HubPaGetNextPacket\<close> serves from their queues. Sessions
  are named by numbers, also where the code has pointers to them; the state is the hub with its
  sessions. \<open>None\<close> is a call that the code does not survive: an edit outside of a frame, a
  division by zero, a session that is gone. The fields of a packet's headers are read from the
  bytes behind the parser's pointers and are 0 beyond the end of the packet; that a header is
  there when the parser announces it is shown for the parser.
\<close>

section \<open>The world around the hub\<close>

text \<open>
  The clocks and random numbers of a call, the limits the server was built with, the hash
  function, the user lists in files, the file of private networks, the addresses of the host, and
  the page that a redirected client gets. All calls of a clock in the course of one call of
  \<open>StorePacket\<close> give the same time.
\<close>

record ENV =
  Now :: u64
  Now_highres :: u64
  Params :: PARAMS
  Rand_loss :: u32
  Rand_storm :: u32
  Rand1 :: bool
  Rand32 :: u32
  Rand16 :: u16
  md5 :: "u8 list \<Rightarrow> u8 list"
  listed :: "cstr \<Rightarrow> u64 \<Rightarrow> bool"
  private_list :: "(u32 \<times> u32) list option"
  on_localhost :: "u8 list \<Rightarrow> bool"
  redirect_page :: "cstr \<Rightarrow> u8 list option"
  has_http_log :: "PKT \<Rightarrow> bool"

section \<open>Sessions\<close>

definition session :: "HUB \<Rightarrow> nat \<Rightarrow> SESSION option" where
  "session hub k = find (\<lambda>s. S_Key s = k) (H_PaSessions hub)"

definition with_session :: "nat \<Rightarrow> (SESSION \<Rightarrow> SESSION) \<Rightarrow> HUB \<Rightarrow> HUB" where
  "with_session k f hub = hub\<lparr>H_PaSessions := map (\<lambda>s. if S_Key s = k then f s else s) (H_PaSessions hub)\<rparr>"

definition put_session :: "SESSION \<Rightarrow> HUB \<Rightarrow> HUB" where
  "put_session s hub = with_session (S_Key s) (\<lambda>_. s) hub"

text \<open>
  A session enters the list of the hub before it has a packet adapter and leaves it before its
  adapter is freed. \<open>StopAllSession\<close> empties the list when the hub stops; the sessions are told to
  end, which they do on their own threads.
\<close>

definition AddSession :: "HUB \<Rightarrow> nat \<Rightarrow> HUB" where
  "AddSession hub k = hub\<lparr>H_SessionList := H_SessionList hub @ [k]\<rparr>"

definition DelSession :: "HUB \<Rightarrow> nat \<Rightarrow> HUB" where
  "DelSession hub k = hub\<lparr>H_SessionList := remove1 k (H_SessionList hub)\<rparr>"

definition StopAllSession :: "HUB \<Rightarrow> HUB" where
  "StopAllSession hub = hub\<lparr>H_SessionList := []\<rparr>"

definition CedarAddCurrentTcpQueueSize :: "HUB \<Rightarrow> u32 \<Rightarrow> HUB" where
  "CedarAddCurrentTcpQueueSize hub diff = hub\<lparr>H_CurrentTcpQueueSize := H_CurrentTcpQueueSize hub + diff\<rparr>"

definition CedarGetCurrentTcpQueueSize :: "HUB \<Rightarrow> u32" where
  "CedarGetCurrentTcpQueueSize hub = H_CurrentTcpQueueSize hub"

text \<open>
  The packet adapter of a session: a fresh one, and what goes with it. The two random numbers are
  only used for names that stand for a file. The adapter is there first (\<open>attach_adapter\<close>); the entry
  in the list of monitors, under the lock of that list, comes after it.
\<close>

definition new_adapter ::
    "(u8 list \<Rightarrow> u8 list) \<Rightarrow> u64 \<Rightarrow> u64 \<Rightarrow> cstr \<Rightarrow> cstr \<Rightarrow> bool \<Rightarrow> SESSION \<Rightarrow> SESSION" where
  "new_adapter sha1 rnd1 rnd2 username groupname monitor_port s =
     (let no_limit = \<lparr>LastTime = 0, Lim_Value = 0\<rparr>
      in s\<lparr>PA_PacketQueue := [], PA_MonitorPort := monitor_port,
          PA_UploadLimiter := no_limit, PA_DownloadLimiter := no_limit, PA_StormList := lst_new,
          PA_UsernameHash := UsernameToInt64 sha1 rnd1 username,
          PA_GroupnameHash := UsernameToInt64 sha1 rnd2 groupname\<rparr>)"

definition attach_adapter :: "HUB \<Rightarrow> SESSION \<Rightarrow> HUB" where
  "attach_adapter hub s = hub\<lparr>H_PaSessions := H_PaSessions hub @ [s]\<rparr>"

definition join_monitors :: "HUB \<Rightarrow> SESSION \<Rightarrow> HUB" where
  "join_monitors hub s =
     (if PA_MonitorPort s then hub\<lparr>H_MonitorList := H_MonitorList hub @ [S_Key s]\<rparr> else hub)"

definition HubPaInit ::
    "(u8 list \<Rightarrow> u8 list) \<Rightarrow> u64 \<Rightarrow> u64 \<Rightarrow> HUB \<Rightarrow> SESSION \<Rightarrow> cstr \<Rightarrow> cstr \<Rightarrow> bool \<Rightarrow> HUB" where
  "HubPaInit sha1 rnd1 rnd2 hub s username groupname monitor_port =
     (let s = new_adapter sha1 rnd1 rnd2 username groupname monitor_port s
      in join_monitors (attach_adapter hub s) s)"

fun release_queue :: "BLOCK list \<Rightarrow> HUB \<Rightarrow> HUB" where
  "release_queue [] hub = hub"
| "release_queue (b # bs) hub =
     release_queue bs
       (if B_IsFlooding b then CedarAddCurrentTcpQueueSize hub (- of_nat (length (B_Buf b))) else hub)"

text \<open>
  The end of an adapter: its session leaves the list of monitors, then the tables of addresses
  lose its entries, under one lock, and the queue and the adapter are freed. The blocks of its
  storm counters are freed with it.
\<close>

definition leave_monitors :: "HUB \<Rightarrow> SESSION \<Rightarrow> HUB" where
  "leave_monitors hub s =
     (if PA_MonitorPort s then hub\<lparr>H_MonitorList := remove1 (S_Key s) (H_MonitorList hub)\<rparr> else hub)"

definition erase_entries :: "HUB \<Rightarrow> SESSION \<Rightarrow> HUB" where
  "erase_entries hub s =
     (let h = H_MacHashTable hub;
          l = H_IpTable hub
      in hub\<lparr>H_MacHashTable := delete_each_hash GetHashOfMacTable
                (filter (\<lambda>e. M_Session e = S_Key s) (HashListToArray h)) h,
              H_IpTable := delete_each (filter (\<lambda>e. I_Session e = S_Key s) (items l)) l\<rparr>)"

definition release_adapter :: "HUB \<Rightarrow> SESSION \<Rightarrow> HUB" where
  "release_adapter hub s =
     (let hub = release_queue (PA_PacketQueue s) hub
      in hub\<lparr>H_PaSessions := filter (\<lambda>x. S_Key x \<noteq> S_Key s) (H_PaSessions hub)\<rparr>)"

definition HubPaFree :: "HUB \<Rightarrow> SESSION \<Rightarrow> HUB" where
  "HubPaFree hub s = release_adapter (erase_entries (leave_monitors hub s) s) s"

text \<open>A fresh hub; \<open>n\<close> is what the rest of the server has in its queues.\<close>

definition NewHub :: "HUB_OPTION \<Rightarrow> HUB_LOG \<Rightarrow> u8 list \<Rightarrow> u32 \<Rightarrow> HUB" where
  "NewHub option log_setting mac n =
     (let opt = (if O_VlanTypeId option = 0 then option\<lparr>O_VlanTypeId := MAC_PROTO_TAGVLAN\<rparr> else option)
      in \<lparr>H_Option = opt\<lparr>O_DropBroadcastsInPrivacyFilterMode := True, O_DropArpInPrivacyFilterMode := True\<rparr>,
          H_LogSetting = log_setting, H_HubMacAddr = mac, H_AccessList = InitAccessList, H_SessionList = [], H_PaSessions = [],
          H_MonitorList = [], H_MacHashTable = NewHashList 8 False, H_IpTable = lst_new,
          H_LastFlushTick = 0, H_CurrentTcpQueueSize = n\<rparr>)"

section \<open>Kinds of packets\<close>

definition dhcp4 :: "PKT \<Rightarrow> bool" where
  "dhcp4 p \<longleftrightarrow> TypeL3 p = L3_IPV4 \<and> TypeL4 p = L4_UDP \<and> TypeL7 p = L7_DHCPV4"

definition dhcp6 :: "PKT \<Rightarrow> bool" where
  "dhcp6 p \<longleftrightarrow> TypeL3 p = L3_IPV6 \<and> TypeL4 p = L4_UDP \<and> (DstPort p = 546 \<or> DstPort p = 547)"

definition rs_or_ra :: "PKT \<Rightarrow> bool" where
  "rs_or_ra p \<longleftrightarrow> TypeL3 p = L3_IPV6 \<and> TypeL4 p = L4_ICMPV6 \<and>
     (Icmp6Type (ICMPv6HeaderPacketInfo p) = 133 \<or> Icmp6Type (ICMPv6HeaderPacketInfo p) = 134)"

definition icmp6 :: "PKT \<Rightarrow> bool" where
  "icmp6 p \<longleftrightarrow> TypeL3 p = L3_IPV6 \<and> TypeL4 p = L4_ICMPV6"

text \<open>Broadcasts that the policy \<open>ArpDhcpOnly\<close> lets through.\<close>

definition arp_or_dhcp :: "PKT \<Rightarrow> bool" where
  "arp_or_dhcp p \<longleftrightarrow> TypeL3 p = L3_ARPV4 \<or> dhcp4 p \<or> dhcp6 p \<or> icmp6 p"

definition DLinkStp :: "u8 list \<Rightarrow> bool" where
  "DLinkStp mac \<longleftrightarrow> take 6 mac = [0x00, 0x80, 0xc8, 0x00, 0x00, 0x00]"

definition DLinkStp2 :: "u8 list \<Rightarrow> bool" where
  "DLinkStp2 mac \<longleftrightarrow> take 6 mac = [0x00, 0x0d, 0x88, 0x00, 0x00, 0x00]"

definition dhcp_opcode :: "PKT \<Rightarrow> u8" where "dhcp_opcode p = byte_of (PointerL7 p) 0"
definition dhcp_your_ip :: "PKT \<Rightarrow> u32" where "dhcp_your_ip p = host32_of (PointerL7 p) 16"
definition dhcp_client_mac :: "PKT \<Rightarrow> u8 list" where "dhcp_client_mac p = take 6 (drop 28 (PointerL7 p))"

section \<open>The packet log\<close>

text \<open>
  Which kinds of entries a packet makes (indices of \<open>PacketLogConfig\<close>); the level is the
  highest one configured for them. What is written is left out.
\<close>

definition log_kinds :: "bool \<Rightarrow> PKT \<Rightarrow> nat list" where
  "log_kinds http_log p =
     (let tcp = (if flag p TCP_SYN \<or> flag p TCP_RST \<or> flag p TCP_FIN then [1, 0] else [1])
      in [7] @
         (if TypeL3 p = L3_ARPV4 then [6]
          else if TypeL3 p = L3_IPV4 then
            [5] @
            (if TypeL4 p = L4_ICMPV4 then [4]
             else if TypeL4 p = L4_TCP then tcp
             else if TypeL4 p = L4_UDP then
               [3] @ (if TypeL7 p = L7_DHCPV4 then [2]
                      else if TypeL7 p = L7_IKECONN \<or> TypeL7 p = L7_OPENVPNCONN \<or> TypeL7 p = L7_DNS then [0]
                      else [])
             else [])
          else if TypeL3 p = L3_IPV6 then
            [5] @
            (if TypeL4 p = L4_ICMPV6 then [4]
             else if TypeL4 p = L4_TCP then tcp
             else if TypeL4 p = L4_UDP then
               [3] @ (if TypeL7 p = L7_IKECONN \<or> TypeL7 p = L7_OPENVPNCONN \<or> TypeL7 p = L7_DNS then [0] else [])
             else [])
          else []) @
         (if http_log then [0] else []))"

definition CalcPacketLoggingLevelEx :: "HUB_LOG \<Rightarrow> bool \<Rightarrow> PKT \<Rightarrow> u32" where
  "CalcPacketLoggingLevelEx g http_log p = fold (\<lambda>i ret. max ret (PacketLogConfig g ! i)) (log_kinds http_log p) 0"

text \<open>Whether the packet may go on: it may not once its session has made too many entries.\<close>

definition PacketLog :: "ENV \<Rightarrow> HUB \<Rightarrow> SESSION \<Rightarrow> PKT \<Rightarrow> bool \<times> SESSION" where
  "PacketLog env hub src_session p =
     (let opt = H_Option hub
      in if \<not> SavePacketLog (H_LogSetting hub) then (True, src_session)
         else if H_HubMacAddr hub = MacAddressSrc p \<or> H_HubMacAddr hub = MacAddressDest p then (True, src_session)
         else if CalcPacketLoggingLevelEx (H_LogSetting hub) (has_http_log env p) p = 0 then (True, src_session)
         else if O_NoIPv4PacketLog opt \<and> (TypeL3 p = L3_IPV4 \<or> TypeL3 p = L3_ARPV4) then (True, src_session)
         else if O_NoIPv6PacketLog opt \<and> TypeL3 p = L3_IPV6 then (True, src_session)
         else if O_MaxLoggedPacketsPerMinute opt \<noteq> 0
         then CheckMaxLoggedPacketsPerMinute src_session (O_MaxLoggedPacketsPerMinute opt) (Now env)
         else (True, src_session))"

section \<open>Into the queue of a session\<close>

definition target_mss :: "SESSION \<Rightarrow> u32 \<Rightarrow> u32" where
  "target_mss s mss =
     (let mss = min mss (if S_AdjustMss s = 0 then INFINITE else S_AdjustMss s)
      in if S_IsUsingUdpAcceleration s \<and> S_UdpAccelMss s \<noteq> 0 then min mss (S_UdpAccelMss s)
         else if S_IsRUDPSession s \<and> S_RUdpMss s \<noteq> 0 then min mss (S_RUdpMss s)
         else mss)"

definition adjust_mss :: "HUB \<Rightarrow> u8 list \<Rightarrow> u32 \<Rightarrow> u8 list option" where
  "adjust_mss hub data mss =
     (if O_DisableAdjustTcpMss (H_Option hub) \<or> mss = INFINITE then Some data
      else map_option snd (AdjustTcpMssL2 host_le data mss (ucast (O_VlanTypeId (H_Option hub)))))"

text \<open>The bandwidth that a session may receive.\<close>

definition download_limited :: "ENV \<Rightarrow> SESSION \<Rightarrow> PKT option \<Rightarrow> bool \<times> SESSION" where
  "download_limited env dest packet =
     (case packet of
        None \<Rightarrow> (False, dest)
      | Some p \<Rightarrow>
          if P_MaxDownload (S_Policy dest) \<noteq> 0 \<and> \<not> IsMostHighestPriorityPacket p
          then let tr = IntoTrafficLimiter (Now env) (PA_DownloadLimiter dest) p
               in (measured tr > ucast (P_MaxDownload (S_Policy dest)), dest\<lparr>PA_DownloadLimiter := tr\<rparr>)
          else (False, dest))"

definition note_dlink :: "ENV \<Rightarrow> HUB \<Rightarrow> PKT option \<Rightarrow> SESSION \<Rightarrow> SESSION" where
  "note_dlink env hub packet dest =
     (case packet of
        None \<Rightarrow> dest
      | Some p \<Rightarrow>
          if O_FixForDLinkBPDU (H_Option hub) \<and> (DLinkStp (MacAddressSrc p) \<or> DLinkStp2 (MacAddressSrc p)) \<and>
            P_CheckMac (S_Policy dest)
          then dest\<lparr>S_LastDLinkSTPPacketDataHash := md5 env (PacketData p), S_LastDLinkSTPPacketSendTick := Now env\<rparr>
          else dest)"

definition enqueue :: "ENV \<Rightarrow> HUB \<Rightarrow> SESSION \<Rightarrow> u8 list \<Rightarrow> bool \<Rightarrow> HUB" where
  "enqueue env hub dest data is_flooding =
     (if length (PA_PacketQueue dest) < unat (MAX_STORED_QUEUE_NUM (Params env))
      then
        let b = \<lparr>B_Buf = data, B_IsFlooding = is_flooding\<rparr>;
            hub = put_session (dest\<lparr>PA_PacketQueue := PA_PacketQueue dest @ [b]\<rparr>) hub
        in if is_flooding then CedarAddCurrentTcpQueueSize hub (of_nat (length data)) else hub
      else put_session dest hub)"

text \<open>
  \<open>src\<close> is \<^const>\<open>None\<close> for a packet of the hub itself, \<open>packet\<close> for an answer that
  was never parsed. Signalling the thread of the session is left out.
\<close>

definition StorePacketToHubPa ::
    "ENV \<Rightarrow> HUB \<Rightarrow> nat \<Rightarrow> nat option \<Rightarrow> u8 list \<Rightarrow> PKT option \<Rightarrow> bool \<Rightarrow> bool \<Rightarrow> HUB option" where
  "StorePacketToHubPa env hub d src data packet is_flooding no_check_acl =
     do {
       dest \<leftarrow> session hub d;
       if length data < 14 then Some hub
       else do {
         allowed \<leftarrow>
           (case (src, packet) of
              (Some k, Some p) \<Rightarrow> do {
                s \<leftarrow> session hub k;
                Some (no_check_acl \<or> ApplyAccessListToForwardPacket (listed env) hub s dest p)
              }
            | (Some k, None) \<Rightarrow> Some no_check_acl
            | (None, _) \<Rightarrow> Some True);
         if \<not> allowed then Some hub
         else do {
           let (limited, dest) = (if src \<noteq> None then download_limited env dest packet else (False, dest));
           if limited then Some (put_session dest hub)
           else do {
             let dest = (if src \<noteq> None then note_dlink env hub packet dest else dest);
             let (ok, data) =
               (if S_VLanId dest \<noteq> 0
                then VLanRemoveTag data (S_VLanId dest) (if src \<noteq> None then O_VlanTypeId (H_Option hub) else 0)
                else (True, data));
             if \<not> ok then Some (put_session dest hub)
             else do {
               data \<leftarrow> (if src \<noteq> None then adjust_mss hub data (target_mss dest INFINITE) else Some data);
               Some (enqueue env hub dest data (is_flooding \<and> src \<noteq> None))
             }
           }
         }
       }
     }"

definition HubPaGetNextPacket :: "HUB \<Rightarrow> nat \<Rightarrow> (u8 list option \<times> HUB) option" where
  "HubPaGetNextPacket hub k =
     do {
       s \<leftarrow> session hub k;
       case PA_PacketQueue s of
         [] \<Rightarrow> Some (None, hub)
       | b # bs \<Rightarrow>
           let hub = (if B_IsFlooding b then CedarAddCurrentTcpQueueSize hub (- of_nat (length (B_Buf b))) else hub)
           in Some (Some (B_Buf b), put_session (s\<lparr>PA_PacketQueue := bs\<rparr>) hub)
     }"

section \<open>Filtering what a session sends\<close>

definition policy_refuses :: "POLICY \<Rightarrow> PKT \<Rightarrow> bool" where
  "policy_refuses pol p \<longleftrightarrow>
     P_NoServer pol \<and> TypeL3 p = L3_IPV4 \<and> TypeL4 p = L4_TCP \<and> flag p TCP_SYN \<and> flag p TCP_ACK \<or>
     P_NoServerV6 pol \<and> TypeL3 p = L3_IPV6 \<and> TypeL4 p = L4_TCP \<and> flag p TCP_SYN \<and> flag p TCP_ACK \<or>
     P_ArpDhcpOnly pol \<and> BroadcastPacket p \<and> \<not> arp_or_dhcp p \<or>
     P_FilterIPv4 pol \<and> (mac_protocol p = 0x0800 \<or> mac_protocol p = 0x0806) \<or>
     P_FilterIPv6 pol \<and> mac_protocol p = 0x86dd \<or>
     P_FilterNonIP pol \<and> \<not> (mac_protocol p = 0x86dd \<or> mac_protocol p = 0x0800 \<or> mac_protocol p = 0x0806) \<or>
     P_DHCPFilter pol \<and> dhcp4 p \<or>
     P_DHCPv6Filter pol \<and> dhcp6 p \<or>
     P_DHCPNoServer pol \<and> dhcp4 p \<and> dhcp_opcode p = 2 \<or>
     P_DHCPv6NoServer pol \<and> TypeL3 p = L3_IPV6 \<and> TypeL4 p = L4_UDP \<and> (DstPort p = 546 \<or> SrcPort p = 547) \<or>
     P_RSandRAFilter pol \<and> rs_or_ra p \<or>
     P_RAFilter pol \<and> is_ra p"

text \<open>The addresses that a client with a filter on what it receives is known by.\<close>

definition note_ip4 :: "u32 \<Rightarrow> SESSION \<Rightarrow> SESSION" where
  "note_ip4 ip s =
     (if S_EnableLightRecvFilter s
      then if S_LightRecvFilterIPv4_1 s = 0 then s\<lparr>S_LightRecvFilterIPv4_1 := ip\<rparr>
           else s\<lparr>S_LightRecvFilterIPv4_2 := ip\<rparr>
      else s)"

definition add_ip_entry :: "ENV \<Rightarrow> IP_TABLE_ENTRY LST \<Rightarrow> IP_TABLE_ENTRY \<Rightarrow> IP_TABLE_ENTRY LST" where
  "add_ip_entry env l e =
     (let l = DeleteExpiredIpTableEntry (Params env) (Now env) l;
          l = (if length (items l) \<ge> unat (MAX_IP_TABLES (Params env)) then DeleteOldIpTableEntry l else l)
      in lst_insert (Some CompareIpTable) l e)"

definition ip_entry :: "ENV \<Rightarrow> IP \<Rightarrow> nat \<Rightarrow> bool \<Rightarrow> u8 list \<Rightarrow> IP_TABLE_ENTRY" where
  "ip_entry env ip k dhcp mac =
     \<lparr>I_Ip = ip, I_Session = k, I_DhcpAllocated = dhcp, I_CreatedTime = Now env, I_UpdatedTime = Now env,
      I_MacAddress = mac\<rparr>"

definition search_ip :: "HUB \<Rightarrow> IP \<Rightarrow> IP_TABLE_ENTRY option \<times> HUB" where
  "search_ip hub ip =
     (let t = \<lparr>I_Ip = ip, I_Session = 0, I_DhcpAllocated = False, I_CreatedTime = 0, I_UpdatedTime = 0, I_MacAddress = []\<rparr>;
          (e, l) = lst_search (Some CompareIpTable) (H_IpTable hub) t
      in (e, hub\<lparr>H_IpTable := l\<rparr>))"

definition search_mac :: "HUB \<Rightarrow> u8 list \<Rightarrow> u32 \<Rightarrow> MAC_TABLE_ENTRY option \<times> HUB" where
  "search_mac hub mac vlan =
     (let t = \<lparr>M_MacAddress = mac, M_VlanId = vlan, M_Session = 0, M_CreatedTime = 0, M_UpdatedTime = 0\<rparr>;
          (e, h) = SearchHash GetHashOfMacTable CompareMacTable (H_MacHashTable hub) t
      in (e, hub\<lparr>H_MacHashTable := h\<rparr>))"

definition update_ip :: "HUB \<Rightarrow> IP_TABLE_ENTRY \<Rightarrow> IP_TABLE_ENTRY \<Rightarrow> HUB" where
  "update_ip hub e e' = hub\<lparr>H_IpTable := (H_IpTable hub)\<lparr>items := replace_first e e' (items (H_IpTable hub))\<rparr>\<rparr>"

definition update_mac :: "HUB \<Rightarrow> MAC_TABLE_ENTRY \<Rightarrow> MAC_TABLE_ENTRY \<Rightarrow> HUB" where
  "update_mac hub e e' = hub\<lparr>H_MacHashTable := hash_update GetHashOfMacTable (H_MacHashTable hub) e e'\<rparr>"

text \<open>
  The answer of a DHCP server tells which address its client has: the table gets an entry for the
  session of the client. The entry holds the destination address of the frame.
\<close>

definition register_dhcp :: "ENV \<Rightarrow> HUB \<Rightarrow> PKT \<Rightarrow> HUB" where
  "register_dhcp env hub p =
     (if dhcp4 p \<and> \<not> O_NoIpTable (H_Option hub) \<and> dhcp_opcode p = 2 \<and> DhcpOpCode p = DHCP_ACK \<and>
        byte_of (PointerL7 p) 1 = 1 \<and> byte_of (PointerL7 p) 2 = 6 \<and>
        dhcp_your_ip p \<noteq> 0 \<and> dhcp_your_ip p \<noteq> 0xffffffff
      then
        let (found, hub) = search_mac hub (dhcp_client_mac p) 0
        in case found of
             None \<Rightarrow> hub
           | Some m \<Rightarrow>
               let ip = UINTToIP host_le (dhcp_your_ip p);
                   hub = with_session (M_Session m) (note_ip4 (dhcp_your_ip p)) hub;
                   (old, hub) = search_ip hub ip;
                   e = ip_entry env ip (M_Session m) True (MacAddressDest p)
               in (case old of
                     None \<Rightarrow> hub\<lparr>H_IpTable := add_ip_entry env (H_IpTable hub) e\<rparr>
                   | Some x \<Rightarrow> update_ip hub x e)
      else hub)"

definition StorePacketFilterByPolicy :: "ENV \<Rightarrow> HUB \<Rightarrow> SESSION \<Rightarrow> PKT \<Rightarrow> bool \<times> HUB" where
  "StorePacketFilterByPolicy env hub s p =
     (if policy_refuses (S_Policy s) p then (False, hub) else (True, register_dhcp env hub p))"

text \<open>The answer that a redirected client gets, as if from the server it has called.\<close>

definition redirect_reply :: "ENV \<Rightarrow> PKT \<Rightarrow> cstr \<Rightarrow> u8 list option" where
  "redirect_reply env p url =
     (case redirect_page env url of
        None \<Rightarrow> None
      | Some payload \<Rightarrow>
          let m = PointerL4 p;
              v4 = (TypeL3 p = L3_IPV4);
              src = (if v4 then take 4 (drop 16 (PointerL3 p)) else DestAddress6 p);
              dst = (if v4 then take 4 (drop 12 (PointerL3 p)) else SrcAddress6 p);
              seq = of_be32 (take 4 (drop 4 m)) + PayloadSize p;
              tcp = (\<lambda>sum. take 2 (drop 2 m) @ take 2 m @ take 4 (drop 8 m) @ be32 seq @ [0x50, TCP_ACK OR TCP_PSH] @
                be16 0xFFFF @ mem16 host_le sum @ [0, 0] @ payload);
              sum = (if v4 then CalcChecksumForIPv4 host_le (of_mem32 host_le src) (of_mem32 host_le dst) IP_PROTO_TCP (tcp 0) 0
                     else CalcChecksumForIPv6 host_le src dst IP_PROTO_TCP (tcp 0) 0);
              tcp_size = of_nat (length (tcp 0)) :: u16;
              ip4 = (\<lambda>sum. [0x45, 0] @ be16 (20 + tcp_size) @ be16 (Rand16 env) @ [0x40, 0, 128, IP_PROTO_TCP] @
                mem16 host_le sum @ src @ dst);
              ip = (if v4 then ip4 (IpChecksum host_le (ip4 0))
                    else [0x60, 0, 0, 0] @ be16 tcp_size @ [IP_PROTO_TCP, 64] @ src @ dst)
          in Some (take 6 (drop 6 (PacketData p)) @ take 6 (PacketData p) @ take 2 (drop 12 (PacketData p)) @ ip @ tcp sum))"

definition ForceRedirectToUrl :: "ENV \<Rightarrow> HUB \<Rightarrow> nat \<Rightarrow> PKT \<Rightarrow> cstr \<Rightarrow> HUB option" where
  "ForceRedirectToUrl env hub k p url =
     (if (TypeL3 p \<noteq> L3_IPV4 \<and> TypeL3 p \<noteq> L3_IPV6) \<or> TypeL4 p \<noteq> L4_TCP then Some hub
      else case redirect_reply env p url of
          None \<Rightarrow> Some hub
        | Some data \<Rightarrow> StorePacketToHubPa env hub k None data None False False)"

text \<open>Whether the packet passes the filters, with what they change in the hub and mark on the packet.\<close>

definition StorePacketFilter :: "ENV \<Rightarrow> HUB \<Rightarrow> nat \<Rightarrow> PKT \<Rightarrow> (bool \<times> HUB \<times> PKT) option" where
  "StorePacketFilter env hub k p =
     do {
       s \<leftarrow> session hub k;
       let (ok, s) = StorePacketFilterByTrafficLimiter (Now env) s p;
       let hub = put_session s hub;
       if \<not> ok then Some (False, hub, p)
       else do {
         let (ok, hub) = StorePacketFilterByPolicy env hub s p;
         if \<not> ok then Some (False, hub, p)
         else do {
           s \<leftarrow> session hub k;
           let r = ApplyAccessListToStoredPacket (listed env) hub s p;
           let hub = put_session (Stored_session r) hub;
           hub \<leftarrow> (case Redirect r of
               None \<Rightarrow> Some hub
             | Some url \<Rightarrow> ForceRedirectToUrl env hub k p url);
           Some (Pass r, hub, Stored_packet r)
         }
       }
     }"

section \<open>Loss and delay\<close>

text \<open>
  Whether a packet goes on at once; if not it is lost or waits in its session. The code computes
  with floating point numbers, which are exact here; a delay that would be negative has no defined
  conversion to an unsigned number.
\<close>

definition impair :: "ENV \<Rightarrow> HUB \<Rightarrow> nat option \<Rightarrow> PKT \<Rightarrow> (bool \<times> HUB) option" where
  "impair env hub s p =
     (if Loss p \<ge> 1 \<and> (Loss p \<ge> 100 \<or> Rand_loss env mod 100 < Loss p) then Some (False, hub)
      else if Delay p \<ge> 1
      then do {
        let delay = uint (Delay p);
        jitter \<leftarrow>
          (if Jitter p = 0 then Some 0
           else let n = uint (Jitter p) * delay div 100
             in if n = 0 then None else Some (uint (Rand32 env) mod n));
        let delay = (if Rand1 env then delay + jitter else delay - jitter);
        if delay < 0 then None
        else if delay \<ge> 1
        then do {
          k \<leftarrow> s;
          let p = p\<lparr>Loss := 0, Jitter := 0, Delay := 0,
            DelayedForwardTick := Now_highres env + word_of_int delay\<rparr>;
          Some (False, with_session k (\<lambda>s. s\<lparr>S_DelayedPacketList := S_DelayedPacketList s @ [p]\<rparr>) hub)
        }
        else Some (True, hub)
      }
      else Some (True, hub))"

section \<open>Learning the addresses of the sender\<close>

definition vlan_of :: "HUB \<Rightarrow> PKT \<Rightarrow> u32" where
  "vlan_of hub p = (if O_NoManageVlanId (H_Option hub) then 0 else VlanId p)"

text \<open>\<open>MIN\<close> over the limits that apply, at least the given minimum.\<close>

definition limited_count :: "(bool \<times> u32) list \<Rightarrow> u32 \<Rightarrow> u32" where
  "limited_count limits least = max (fold (\<lambda>(applies, n) c. if applies then min c n else c) limits 0xffffffff) least"

definition mac_limit :: "POLICY \<Rightarrow> u32" where
  "mac_limit pol = limited_count [(P_NoBridge pol, MAC_MIN_LIMIT_COUNT), (P_MaxMac pol \<noteq> 0, P_MaxMac pol)] MAC_MIN_LIMIT_COUNT"

definition learn_mac :: "ENV \<Rightarrow> HUB \<Rightarrow> SESSION \<Rightarrow> PKT \<Rightarrow> bool \<times> HUB" where
  "learn_mac env hub s p =
     (let now = Now env; pol = S_Policy s; opt = H_Option hub;
          e' = \<lparr>M_MacAddress = MacAddressSrc p, M_VlanId = vlan_of hub p, M_Session = S_Key s,
                M_CreatedTime = now, M_UpdatedTime = now\<rparr>;
          (found, hub) = search_mac hub (MacAddressSrc p) (vlan_of hub p)
      in case found of
           None \<Rightarrow>
             let hub = (if H_LastFlushTick hub = 0 \<or> H_LastFlushTick hub + OLD_MAC_ADDRESS_ENTRY_FLUSH_INTERVAL < now
                        then hub\<lparr>H_LastFlushTick := now,
                               H_MacHashTable := DeleteExpiredMacTableEntry (Params env) now (H_MacHashTable hub)\<rparr>
                        else hub);
                 num_mac_for_me = length (filter (\<lambda>e. M_Session e = S_Key s) (HashListToArray (H_MacHashTable hub)))
             in if (P_MaxMac pol \<noteq> 0 \<or> P_NoBridge pol) \<and> \<not> S_IsOpenVPNL3Session s \<and>
                  num_mac_for_me \<ge> unat (mac_limit pol) then (False, hub)
                else if HASH_NumItems (H_MacHashTable hub) \<ge> MAX_MAC_TABLES (Params env) then (False, hub)
                else (True, hub\<lparr>H_MacHashTable := AddHash GetHashOfMacTable CompareMacTable (H_MacHashTable hub) e'\<rparr>)
         | Some e \<Rightarrow>
             if M_Session e = S_Key s then (True, update_mac hub e (e\<lparr>M_UpdatedTime := now\<rparr>))
             else
               let check_mac = (P_CheckMac pol \<or> S_BridgeMode s \<and> \<not> O_DisableCheckMacOnLocalBridge opt);
                   take_over = update_mac hub e (e\<lparr>M_Session := S_Key s, M_CreatedTime := now, M_UpdatedTime := now\<rparr>)
               in if check_mac \<and> MacAddressSrc p \<noteq> H_HubMacAddr hub \<and> M_UpdatedTime e + MAC_TABLE_EXCLUSIVE_TIME \<ge> now
                  then
                    if O_FixForDLinkBPDU opt \<and> DLinkStp (MacAddressSrc p) \<or> DLinkStp2 (MacAddressSrc p)
                    then
                      if S_LastDLinkSTPPacketSendTick s \<noteq> 0 \<and> now - S_LastDLinkSTPPacketSendTick s < 750 \<and>
                        md5 env (PacketData p) = S_LastDLinkSTPPacketDataHash s
                      then (False, hub)
                      else (True, take_over)
                    else (False, hub)
                  else (True, take_over))"

definition my_ips :: "(IP \<Rightarrow> bool) \<Rightarrow> SESSION \<Rightarrow> IP_TABLE_ENTRY LST \<Rightarrow> nat" where
  "my_ips kind s l = length (filter (\<lambda>e. I_Session e = S_Key s \<and> kind (I_Ip e)) (items l))"

definition ip6_limit :: "POLICY \<Rightarrow> u32" where
  "ip6_limit pol = limited_count [(P_NoRoutingV6 pol, IP_LIMIT_WHEN_NO_ROUTING_V6), (P_MaxIPv6 pol \<noteq> 0, P_MaxIPv6 pol)]
     IP_MIN_LIMIT_COUNT_V6"

definition learn_ip6 :: "ENV \<Rightarrow> HUB \<Rightarrow> SESSION \<Rightarrow> PKT \<Rightarrow> bool \<times> HUB" where
  "learn_ip6 env hub s p =
     (let pol = S_Policy s; now = Now env;
          ip = IPv6AddrToIP (SrcAddress6 p);
          ip_type = GetIPv6AddrType (SrcAddress6 p);
          dhcp_or_ra = (if TypeL4 p = L4_ICMPV6
            then Icmp6Type (ICMPv6HeaderPacketInfo p) = 133 \<or> Icmp6Type (ICMPv6HeaderPacketInfo p) = 134
            else TypeL4 p = L4_UDP \<and> (DstPort p = 546 \<or> DstPort p = 547))
      in if TypeL3 p \<noteq> L3_IPV6 then (True, hub)
         else if ip_type AND IPV6_ADDR_UNICAST = 0 then (True, hub)
         else if ip_type AND IPV6_ADDR_LOOPBACK \<noteq> 0 \<or> ip_type AND IPV6_ADDR_ZERO \<noteq> 0 then (True, hub)
         else if IsHubMacAddress (MacAddressSrc p) \<and> IsHubIpAddress64 (SrcAddress6 p) then (True, hub)
         else
           let (found, hub) = search_ip hub ip
           in case found of
                None \<Rightarrow>
                  if (P_NoRoutingV6 pol \<or> P_MaxIPv6 pol \<noteq> 0) \<and>
                    my_ips IsIP6 s (H_IpTable hub) \<ge> unat (if dhcp_or_ra then 0xffffffff else ip6_limit pol)
                  then (False, hub)
                  else if IsIPManagementTargetForHUB (private_list env) (H_Option hub) ip
                  then (True, hub\<lparr>H_IpTable := add_ip_entry env (H_IpTable hub) (ip_entry env ip (S_Key s) False (MacAddressSrc p))\<rparr>)
                  else (True, hub)
              | Some e \<Rightarrow>
                  if I_Session e = S_Key s
                  then (True, update_ip hub e (e\<lparr>I_UpdatedTime := now, I_MacAddress := MacAddressSrc p\<rparr>))
                  else if P_CheckIPv6 pol \<and> I_UpdatedTime e + IP_TABLE_EXCLUSIVE_TIME \<ge> now then (False, hub)
                  else (True, hub))"

definition ip4_limit :: "POLICY \<Rightarrow> u32" where
  "ip4_limit pol = limited_count [(P_NoRouting pol, IP_MIN_LIMIT_COUNT), (P_MaxIP pol \<noteq> 0, P_MaxIP pol)] IP_MIN_LIMIT_COUNT"

definition learn_ip4 :: "ENV \<Rightarrow> HUB \<Rightarrow> SESSION \<Rightarrow> PKT \<Rightarrow> bool \<times> HUB" where
  "learn_ip4 env hub s p =
     (let pol = S_Policy s; now = Now env;
          uint_ip = (if TypeL3 p = L3_IPV4 then SrcIP p else ArpSrcIP p);
          ip = UINTToIP host_le uint_ip
      in if \<not> ((TypeL3 p = L3_IPV4 \<or> arp_ipv4 p) \<and> TypeL7 p \<noteq> L7_DHCPV4) then (True, hub)
         else if \<not> usable_ip p uint_ip then (True, hub)
         else
           let (found, hub) = search_ip hub ip
           in case found of
                None \<Rightarrow>
                  if P_DHCPForce pol then (False, hub)
                  else if (P_NoRouting pol \<or> P_MaxIP pol \<noteq> 0) \<and> my_ips IsIP4 s (H_IpTable hub) \<ge> unat (ip4_limit pol)
                  then (False, hub)
                  else if IsIPManagementTargetForHUB (private_list env) (H_Option hub) ip
                  then (True, with_session (S_Key s) (note_ip4 uint_ip)
                    (hub\<lparr>H_IpTable := add_ip_entry env (H_IpTable hub) (ip_entry env ip (S_Key s) False (MacAddressSrc p))\<rparr>))
                  else (True, hub)
              | Some e \<Rightarrow>
                  if I_Session e = S_Key s
                  then (True, update_ip hub e (e\<lparr>I_UpdatedTime := now, I_MacAddress := MacAddressSrc p\<rparr>))
                  else if (P_CheckIP pol \<or> P_DHCPForce pol) \<and> I_UpdatedTime e + IP_TABLE_EXCLUSIVE_TIME \<ge> now
                  then (False, hub)
                  else if P_DHCPForce pol \<and> \<not> I_DhcpAllocated e then (False, hub)
                  else (True, update_ip hub e
                    (e\<lparr>I_Session := S_Key s, I_UpdatedTime := now, I_MacAddress := MacAddressSrc p\<rparr>)))"

section \<open>Where a packet goes\<close>

datatype ROUTE = Own | Flood | Unicast nat

definition find_destination :: "HUB \<Rightarrow> nat option \<Rightarrow> PKT \<Rightarrow> ROUTE \<times> HUB" where
  "find_destination hub s p =
     (if BroadcastPacket p then (Flood, hub)
      else
        let (found, hub) = search_mac hub (MacAddressDest p) (vlan_of hub p)
        in case found of
             None \<Rightarrow> (Flood, hub)
           | Some e \<Rightarrow> (if Some (M_Session e) \<noteq> s then Unicast (M_Session e) else Own, hub))"

text \<open>What the policy of a destination keeps away from it.\<close>

definition dest_refuses :: "POLICY \<Rightarrow> PKT \<Rightarrow> bool" where
  "dest_refuses pol p \<longleftrightarrow>
     P_RSandRAFilter pol \<and> rs_or_ra p \<or>
     P_DHCPFilter pol \<and> dhcp4 p \<or>
     P_DHCPv6Filter pol \<and> dhcp6 p \<or>
     P_ArpDhcpOnly pol \<and> BroadcastPacket p \<and> \<not> arp_or_dhcp p \<or>
     P_FilterIPv4 pol \<and> (TypeL3 p = L3_IPV4 \<or> TypeL3 p = L3_ARPV4) \<or>
     P_FilterIPv6 pol \<and> TypeL3 p = L3_IPV6 \<or>
     P_FilterNonIP pol \<and> TypeL3 p \<noteq> L3_IPV4 \<and> TypeL3 p \<noteq> L3_ARPV4 \<and> TypeL3 p \<noteq> L3_IPV6"

text \<open>What is kept apart between two sessions with the privacy filter, and the packets of the hub itself.\<close>

definition private_between :: "HUB_OPTION \<Rightarrow> SESSION \<Rightarrow> SESSION \<Rightarrow> PKT \<Rightarrow> bool" where
  "private_between opt s dest p \<longleftrightarrow>
     (O_DropBroadcastsInPrivacyFilterMode opt \<or> \<not> BroadcastPacket p) \<and>
     P_PrivacyFilter (S_Policy s) \<and> P_PrivacyFilter (S_Policy dest) \<and>
     (O_DropArpInPrivacyFilterMode opt \<or> TypeL3 p \<noteq> L3_ARPV4)"

definition hub_mac :: "HUB \<Rightarrow> PKT \<Rightarrow> bool" where
  "hub_mac hub p \<longleftrightarrow> MacAddressSrc p = H_HubMacAddr hub \<or> MacAddressDest p = H_HubMacAddr hub"

definition no_default_router :: "HUB_OPTION \<Rightarrow> SESSION \<Rightarrow> bool" where
  "no_default_router opt dest \<longleftrightarrow>
     P_NoIPv6DefaultRouterInRA (S_Policy dest) \<or>
     P_NoIPv6DefaultRouterInRAWhenIPv6 (S_Policy dest) \<and> S_IPv6Session dest \<or>
     O_NoIPv6DefaultRouterInRAWhenIPv6 opt \<and> S_IPv6Session dest"

text \<open>The session of the sender, if the packet has one, and what applies to it.\<close>

definition sender :: "HUB \<Rightarrow> nat option \<Rightarrow> SESSION option option" where
  "sender hub s = (case s of None \<Rightarrow> Some None | Some k \<Rightarrow> map_option Some (session hub k))"

definition log_packet :: "ENV \<Rightarrow> HUB \<Rightarrow> SESSION option \<Rightarrow> PKT \<Rightarrow> bool \<times> HUB" where
  "log_packet env hub src p =
     (case src of
        None \<Rightarrow> (True, hub)
      | Some s \<Rightarrow> let (ok, s) = PacketLog env hub s p in (ok, put_session s hub))"

definition store_unicast :: "ENV \<Rightarrow> HUB \<Rightarrow> nat option \<Rightarrow> nat \<Rightarrow> PKT \<Rightarrow> HUB option" where
  "store_unicast env hub s d p =
     do {
       src \<leftarrow> sender hub s;
       dest \<leftarrow> session hub d;
       p \<leftarrow> (if no_default_router (H_Option hub) dest then DeleteIPv6DefaultRouterInRA p else Some p);
       if dest_refuses (S_Policy dest) p then Some hub
       else if (\<exists>s \<in> set_option src. private_between (H_Option hub) s dest p \<or> hub_mac hub p) then Some hub
       else do {
         let (ok, hub) = log_packet env hub src p;
         if \<not> ok then Some hub
         else StorePacketToHubPa env hub d s (PacketData p) (Some p) False False
       }
     }"

section \<open>Flooding\<close>

text \<open>A client that only wants what is for it: other unicasts and ARP requests for other addresses.\<close>

definition light_filtered :: "SESSION \<Rightarrow> PKT \<Rightarrow> bool" where
  "light_filtered dest p \<longleftrightarrow>
     S_EnableLightRecvFilter dest \<and>
     (\<not> BroadcastPacket p \<and> S_LightRecvFilterMac dest \<noteq> 0 \<and>
        S_LightRecvFilterMac dest \<noteq> of_be32 (take 4 (drop 2 (MacAddressDest p))) \<or>
      BroadcastPacket p \<and> arp_ipv4 p \<and> arp_operation p = 1 \<and>
        \<not> (S_LightRecvFilterIPv4_1 dest \<noteq> 0 \<and> S_LightRecvFilterIPv4_1 dest = ArpTargetIP p \<or>
           S_LightRecvFilterIPv4_2 dest \<noteq> 0 \<and> S_LightRecvFilterIPv4_2 dest = ArpTargetIP p))"

definition dormant_interval :: "HUB_OPTION \<Rightarrow> u64" where
  "dormant_interval opt = ucast (O_DetectDormantSessionInterval opt) * 1000"

definition dormant :: "ENV \<Rightarrow> HUB_OPTION \<Rightarrow> SESSION \<Rightarrow> bool" where
  "dormant env opt dest \<longleftrightarrow>
     S_NormalClient dest \<and> dormant_interval opt \<noteq> 0 \<and>
     (S_LastCommTimeForDormant dest = 0 \<or> S_LastCommTimeForDormant dest + dormant_interval opt < Now env)"

definition over_quota :: "HUB \<Rightarrow> SESSION \<Rightarrow> bool" where
  "over_quota hub dest \<longleftrightarrow>
     O_FloodingSendQueueBufferQuota (H_Option hub) \<noteq> 0 \<and>
     CedarGetCurrentTcpQueueSize hub \<ge> O_FloodingSendQueueBufferQuota (H_Option hub) \<and>
     (S_IsTcpConnection dest \<or> S_LinkModeServer dest)"

definition flood_refuses :: "ENV \<Rightarrow> HUB \<Rightarrow> SESSION \<Rightarrow> PKT \<Rightarrow> bool" where
  "flood_refuses env hub dest p \<longleftrightarrow>
     P_DHCPNoServer (S_Policy dest) \<and> dhcp4 p \<and>
       (DhcpOpCode p = DHCP_DISCOVER \<or> DhcpOpCode p = DHCP_REQUEST \<or> DhcpOpCode p = 7 \<or> DhcpOpCode p = 8) \<or>
     light_filtered dest p \<or>
     S_IsMonitorMode dest \<or>
     dormant env (H_Option hub) dest \<or>
     over_quota hub dest \<or>
     S_VLanId dest \<noteq> 0 \<and> TypeL3 p = L3_TAGVLAN \<and> VlanId p \<noteq> S_VLanId dest \<or>
     dest_refuses (S_Policy dest) p"

text \<open>The copy of a frame for a session, without the default router if it must not get it.\<close>

definition flood_data :: "HUB \<Rightarrow> SESSION \<Rightarrow> PKT \<Rightarrow> u8 list option" where
  "flood_data hub dest p =
     (if no_default_router (H_Option hub) dest \<and> is_ra p \<and> ra_lifetime p \<noteq> 0
      then do {
        pkt2 \<leftarrow> ParsePacket host_le (PacketData p) (PacketSize p);
        case pkt2 of
          None \<Rightarrow> Some (PacketData p)
        | Some pkt2 \<Rightarrow> do {
            q \<leftarrow> DeleteIPv6DefaultRouterInRA pkt2;
            Some (PacketData q @ drop (length (PacketData q)) (PacketData p))
          }
      }
      else Some (PacketData p))"

definition flood_one :: "ENV \<Rightarrow> nat option \<Rightarrow> PKT \<Rightarrow> nat \<Rightarrow> HUB \<Rightarrow> HUB option" where
  "flood_one env s p d hub =
     (if Some d = s then Some hub
      else do {
        src \<leftarrow> sender hub s;
        case session hub d of
          None \<Rightarrow> Some hub
        | Some dest \<Rightarrow>
            if flood_refuses env hub dest p then Some hub
            else if (\<exists>s \<in> set_option src. private_between (H_Option hub) s dest p \<or> hub_mac hub p) then Some hub
            else if (\<exists>s \<in> set_option src. \<not> ApplyAccessListToForwardPacket (listed env) hub s dest p) then Some hub
            else do {
              data \<leftarrow> flood_data hub dest p;
              StorePacketToHubPa env hub d s data (Some p) True True
            }
      })"

fun flood_loop :: "ENV \<Rightarrow> nat option \<Rightarrow> PKT \<Rightarrow> nat list \<Rightarrow> HUB \<Rightarrow> HUB option" where
  "flood_loop env s p [] hub = Some hub"
| "flood_loop env s p (d # ds) hub = do { hub \<leftarrow> flood_one env s p d hub; flood_loop env s p ds hub }"

definition store_flood :: "ENV \<Rightarrow> HUB \<Rightarrow> nat option \<Rightarrow> PKT \<Rightarrow> HUB option" where
  "store_flood env hub s p =
     do {
       src \<leftarrow> sender hub s;
       let (ok, hub) = log_packet env hub src p;
       if \<not> ok then Some hub else flood_loop env s p (H_SessionList hub) hub
     }"

fun monitor_loop :: "ENV \<Rightarrow> nat option \<Rightarrow> PKT \<Rightarrow> nat list \<Rightarrow> HUB \<Rightarrow> HUB option" where
  "monitor_loop env s p [] hub = Some hub"
| "monitor_loop env s p (d # ds) hub =
     do {
       hub \<leftarrow> StorePacketToHubPa env hub d s (PacketData p) (Some p) False False;
       monitor_loop env s p ds hub
     }"

section \<open>The whole path\<close>

definition note_sender :: "ENV \<Rightarrow> HUB_OPTION \<Rightarrow> PKT \<Rightarrow> SESSION \<Rightarrow> SESSION" where
  "note_sender env opt p s =
     (let s = (if dormant_interval opt \<noteq> 0 \<and> S_NormalClient s \<and> \<not> IsHubMacAddress (MacAddressSrc p)
               then s\<lparr>S_LastCommTimeForDormant := Now env\<rparr> else s)
      in if S_EnableLightRecvFilter s \<and> IsValidUnicastMacAddress (MacAddressSrc p)
         then s\<lparr>S_LightRecvFilterMac := of_be32 (take 4 (drop 2 (MacAddressSrc p)))\<rparr> else s)"

text \<open>The steps on behalf of the sender; a step that refuses the packet ends them.\<close>

definition then_step :: "bool \<times> HUB \<Rightarrow> (HUB \<Rightarrow> (bool \<times> HUB) option) \<Rightarrow> (bool \<times> HUB) option" where
  "then_step r f = (if fst r then f (snd r) else Some r)"

definition learn_ips :: "ENV \<Rightarrow> HUB \<Rightarrow> nat option \<Rightarrow> PKT \<Rightarrow> (bool \<times> HUB) option" where
  "learn_ips env hub s p =
     (case s of
        None \<Rightarrow> Some (True, hub)
      | Some k \<Rightarrow>
          if O_NoIpTable (H_Option hub) then Some (True, hub)
          else do {
            src \<leftarrow> session hub k;
            then_step (learn_ip6 env hub src p) (\<lambda>hub. do {
              src \<leftarrow> session hub k;
              Some (learn_ip4 env hub src p)
            })
          })"

definition check_storm :: "ENV \<Rightarrow> HUB \<Rightarrow> nat option \<Rightarrow> ROUTE \<Rightarrow> PKT \<Rightarrow> (bool \<times> HUB) option" where
  "check_storm env hub s route p =
     (case s of
        None \<Rightarrow> Some (True, hub)
      | Some k \<Rightarrow>
          if route \<noteq> Flood then Some (True, hub)
          else do {
            src \<leftarrow> session hub k;
            let (ok, src) = CheckBroadcastStorm (Params env) (Now env) (Rand_storm env) (H_Option hub) src p;
            Some (ok, put_session src hub)
          })"

definition forward_packet :: "ENV \<Rightarrow> HUB \<Rightarrow> nat option \<Rightarrow> PKT \<Rightarrow> HUB option" where
  "forward_packet env hub s p =
     (if MacAddressSrc p = H_HubMacAddr hub \<and> s \<noteq> None then Some hub
      else do {
        (ok, hub) \<leftarrow>
          (case s of
             None \<Rightarrow> Some (True, hub)
           | Some k \<Rightarrow> do { src \<leftarrow> session hub k; Some (learn_mac env hub src p) });
        if \<not> ok then Some hub
        else do {
          let (route, hub) = find_destination hub s p;
          if route = Own then Some hub
          else do {
            (ok, hub) \<leftarrow> learn_ips env hub s p;
            if \<not> ok then Some hub
            else do {
              (ok, hub) \<leftarrow> check_storm env hub s route p;
              if \<not> ok then Some hub
              else do {
                hub \<leftarrow> monitor_loop env s p (H_MonitorList hub) hub;
                case route of
                  Unicast d \<Rightarrow> store_unicast env hub s d p
                | _ \<Rightarrow> store_flood env hub s p
              }
            }
          }
        }
      })"

definition StorePacket :: "ENV \<Rightarrow> HUB \<Rightarrow> nat option \<Rightarrow> PKT \<Rightarrow> HUB option" where
  "StorePacket env hub s p =
     do {
       src \<leftarrow> sender hub s;
       if (\<exists>s \<in> set_option src. PA_MonitorPort s) then Some hub
       else do {
         (ok, hub, p) \<leftarrow>
           (case s of
              None \<Rightarrow> Some (True, hub, p)
            | Some k \<Rightarrow>
                let hub = with_session k (note_sender env (H_Option hub) p) hub
                in if DelayedForwardTick p = 0 then StorePacketFilter env hub k p else Some (True, hub, p));
         if \<not> ok then Some hub
         else do {
           (now, hub) \<leftarrow> impair env hub s p;
           if now then forward_packet env hub s p else Some hub
         }
       }
     }"

section \<open>The packet adapter\<close>

fun store_delayed :: "(nat \<Rightarrow> ENV) \<Rightarrow> nat \<Rightarrow> PKT list \<Rightarrow> HUB \<Rightarrow> HUB option" where
  "store_delayed envs k [] hub = Some hub"
| "store_delayed envs k (p # ps) hub =
     do {
       hub \<leftarrow> StorePacket (envs 0) hub (Some k) p;
       store_delayed (\<lambda>i. envs (Suc i)) k ps hub
     }"

text \<open>
  A frame, or \<^const>\<open>None\<close> when the session has none: then its delayed packets whose time
  has come go on. Each packet sees the world at its time. \<open>RemoveDefGwOnDhcpForLocalhost\<close>
  is left out (it is off unless the hub is set so); \<open>DisableHttpParsing\<close> only concerns the log.
\<close>

definition HubPaPutPacket :: "(nat \<Rightarrow> ENV) \<Rightarrow> HUB \<Rightarrow> nat \<Rightarrow> u8 list option \<Rightarrow> HUB option" where
  "HubPaPutPacket envs hub k data =
     do {
       s \<leftarrow> session hub k;
       let opt = H_Option hub;
       case data of
         None \<Rightarrow>
           let due = filter (\<lambda>p. DelayedForwardTick p \<le> Now_highres (envs 0)) (S_DelayedPacketList s);
               hub = put_session (s\<lparr>S_DelayedPacketList := fold remove1 due (S_DelayedPacketList s)\<rparr>) hub
           in store_delayed envs k due hub
       | Some data \<Rightarrow> do {
           data \<leftarrow> adjust_mss hub data
             (target_mss s (if O_AdjustTcpMssValue opt = 0 then INFINITE else O_AdjustTcpMssValue opt));
           let data = (if S_VLanId s \<noteq> 0 then VLanInsertTag data (S_VLanId s) (O_VlanTypeId opt) else data);
           packet \<leftarrow> ParsePacketEx4 host_le data (of_nat (length data)) (O_DisableIPParsing opt) (O_VlanTypeId opt)
             (\<not> O_NoLookBPDUBridgeId opt) (\<not> O_DisableCorrectIpOffloadChecksum opt);
           case packet of
             None \<Rightarrow> Some hub
           | Some p \<Rightarrow>
               if InvalidSourcePacket p then Some hub
               else if dhcp4 p \<and> L7_at p \<noteq> None \<and> dhcp_opcode p = 1 \<and> on_localhost (envs 0) (dhcp_client_mac p)
               then Some hub
               else StorePacket (envs 0) hub (Some k) p
         }
     }"

end
