(* ===== verification/HubInv.thy ===== *)
theory HubInv
  imports HubStore
begin

text \<open>
  What every step of a packet through the hub keeps. The hub's tables are well formed and
  only name sessions that the hub has; a step changes neither settings nor policies nor the access
  list, it only appends to queues, and only to those of given sessions; the bytes of flooded
  packets that wait are counted.
\<close>

section \<open>Sessions by their number\<close>

lemma find_map_key:
  assumes "\<And>s. S_Key s = k \<Longrightarrow> S_Key (f s) = k"
  shows "find (\<lambda>s. S_Key s = j) (map (\<lambda>s. if S_Key s = k then f s else s) ss) =
    (if j = k then map_option f (find (\<lambda>s. S_Key s = k) ss) else find (\<lambda>s. S_Key s = j) ss)"
  using assms by (induction ss) auto

lemma session_with:
  "(\<And>s. S_Key s = k \<Longrightarrow> S_Key (f s) = k) \<Longrightarrow>
    session (with_session k f hub) j = (if j = k then map_option f (session hub k) else session hub j)"
  unfolding session_def with_session_def by (simp add: find_map_key)

lemma session_put:
  "session (put_session s hub) j = (if j = S_Key s then map_option (\<lambda>_. s) (session hub j) else session hub j)"
  unfolding put_session_def by (subst session_with) auto

lemma session_key: "session hub k = Some s \<Longrightarrow> S_Key s = k \<and> s \<in> set (H_PaSessions hub)"
  by (auto simp: session_def find_Some_iff)

lemma session_tables [simp]:
  "session (hub\<lparr>H_IpTable := l\<rparr>) = session hub" "session (hub\<lparr>H_MacHashTable := h\<rparr>) = session hub"
  "session (hub\<lparr>H_LastFlushTick := t\<rparr>) = session hub" "session (hub\<lparr>H_CurrentTcpQueueSize := n\<rparr>) = session hub"
  "session (hub\<lparr>H_MonitorList := m\<rparr>) = session hub"
  by (simp_all add: fun_eq_iff session_def)

definition keys :: "HUB \<Rightarrow> nat list" where
  "keys hub = map S_Key (H_PaSessions hub)"

lemma session_exists: "(session hub k \<noteq> None) = (k \<in> set (keys hub))"
  by (auto simp: session_def keys_def find_None_iff)

definition queue :: "HUB \<Rightarrow> nat \<Rightarrow> BLOCK list" where
  "queue hub k = (case session hub k of None \<Rightarrow> [] | Some s \<Rightarrow> PA_PacketQueue s)"

text \<open>What is fixed of a session while it is connected.\<close>

definition profile :: "SESSION \<Rightarrow> SESSION" where
  "profile s = s\<lparr>S_LightRecvFilterMac := 0, S_LightRecvFilterIPv4_1 := 0, S_LightRecvFilterIPv4_2 := 0,
     S_LastCommTimeForDormant := 0, S_LastDLinkSTPPacketSendTick := 0, S_LastDLinkSTPPacketDataHash := [],
     S_DelayedPacketList := [], S_MaxLoggedPacketsPerMinuteStartTick := 0, S_CurrentNumPackets := 0,
     S_FirstTimeHttpRedirect := False, PA_PacketQueue := [], PA_UploadLimiter := \<lparr>LastTime = 0, Lim_Value = 0\<rparr>,
     PA_DownloadLimiter := \<lparr>LastTime = 0, Lim_Value = 0\<rparr>, PA_StormList := lst_new\<rparr>"

lemma profile_fields:
  assumes "profile s = profile t"
  shows "S_Key s = S_Key t" "S_Policy s = S_Policy t" "PA_MonitorPort s = PA_MonitorPort t"
    "S_NormalClient s = S_NormalClient t" "PA_UsernameHash s = PA_UsernameHash t"
    "PA_GroupnameHash s = PA_GroupnameHash t" "S_VLanId s = S_VLanId t"
    "S_EnableLightRecvFilter s = S_EnableLightRecvFilter t"
  using arg_cong [OF assms, of S_Key] arg_cong [OF assms, of S_Policy] arg_cong [OF assms, of PA_MonitorPort]
    arg_cong [OF assms, of S_NormalClient] arg_cong [OF assms, of PA_UsernameHash]
    arg_cong [OF assms, of PA_GroupnameHash] arg_cong [OF assms, of S_VLanId]
    arg_cong [OF assms, of S_EnableLightRecvFilter]
  by (simp_all add: profile_def)

section \<open>Steps\<close>

definition flooded :: "BLOCK list \<Rightarrow> u32" where
  "flooded bs = sum_list (map (\<lambda>b. if B_IsFlooding b then of_nat (length (B_Buf b)) else 0) bs)"

fun total_flooded :: "SESSION list \<Rightarrow> u32" where
  "total_flooded [] = 0"
| "total_flooded (s # ss) = flooded (PA_PacketQueue s) + total_flooded ss"

definition balance :: "HUB \<Rightarrow> u32" where
  "balance hub = H_CurrentTcpQueueSize hub - total_flooded (H_PaSessions hub)"

definition hub_tables_ok :: "HUB \<Rightarrow> bool" where
  "hub_tables_ok hub \<longleftrightarrow> mac_tbl.hash_ok (H_MacHashTable hub) \<and> ip_tbl.tbl_ok (H_IpTable hub) \<and>
     (\<forall>e \<in> set (HashListToArray (H_MacHashTable hub)). M_Session e \<in> set (keys hub)) \<and>
     (\<forall>e \<in> set (items (H_IpTable hub)). I_Session e \<in> set (keys hub))"

definition hub_ok :: "HUB \<Rightarrow> bool" where
  "hub_ok hub \<longleftrightarrow> hub_tables_ok hub \<and> distinct (keys hub) \<and> set (H_MonitorList hub) \<subseteq> set (keys hub) \<and>
     distinct (H_SessionList hub)"

definition same_setting :: "HUB \<Rightarrow> HUB \<Rightarrow> bool" where
  "same_setting hub hub' \<longleftrightarrow>
     H_Option hub' = H_Option hub \<and> H_LogSetting hub' = H_LogSetting hub \<and> H_HubMacAddr hub' = H_HubMacAddr hub \<and>
     H_AccessList hub' = H_AccessList hub \<and> H_MonitorList hub' = H_MonitorList hub \<and> H_SessionList hub' = H_SessionList hub \<and> keys hub' = keys hub \<and>
     (\<forall>k. map_option profile (session hub' k) = map_option profile (session hub k))"

definition appended :: "nat set \<Rightarrow> HUB \<Rightarrow> HUB \<Rightarrow> bool" where
  "appended D hub hub' \<longleftrightarrow> (\<forall>k. \<exists>bs. queue hub' k = queue hub k @ bs \<and> (k \<notin> D \<longrightarrow> bs = []))"

text \<open>The tables and queues stay within their limits.\<close>

definition within :: "PARAMS \<Rightarrow> HUB \<Rightarrow> bool" where
  "within g hub \<longleftrightarrow> 0 < MAX_IP_TABLES g \<and>
     length (HashListToArray (H_MacHashTable hub)) \<le> unat (MAX_MAC_TABLES g) \<and>
     length (items (H_IpTable hub)) \<le> unat (MAX_IP_TABLES g) \<and>
     (\<forall>k. length (queue hub k) \<le> unat (MAX_STORED_QUEUE_NUM g))"

definition step :: "PARAMS \<Rightarrow> nat set \<Rightarrow> HUB \<Rightarrow> HUB \<Rightarrow> bool" where
  "step g D hub hub' \<longleftrightarrow> (hub_ok hub \<longrightarrow>
     hub_ok hub' \<and> same_setting hub hub' \<and> appended D hub hub' \<and> balance hub' = balance hub \<and>
     (within g hub \<longrightarrow> within g hub'))"

lemma step_refl [simp]: "step g D hub hub"
  by (simp add: step_def same_setting_def appended_def)

lemma appended_trans: "appended D hub1 hub2 \<Longrightarrow> appended D hub2 hub3 \<Longrightarrow> appended D hub1 hub3"
  unfolding appended_def by (metis append.assoc append_Nil2)

lemma step_trans: "step g D hub1 hub2 \<Longrightarrow> step g D hub2 hub3 \<Longrightarrow> step g D hub1 hub3"
  by (auto simp: step_def same_setting_def dest: appended_trans)

lemma step_mono: "step g D hub hub' \<Longrightarrow> D \<subseteq> D' \<Longrightarrow> step g D' hub hub'"
  unfolding step_def appended_def by (meson subsetD)

text \<open>Changing a table.\<close>

lemma queue_tables [simp]:
  "queue (hub\<lparr>H_IpTable := l\<rparr>) = queue hub" "queue (hub\<lparr>H_MacHashTable := h\<rparr>) = queue hub"
  "queue (hub\<lparr>H_LastFlushTick := t\<rparr>) = queue hub"
  by (simp_all add: fun_eq_iff queue_def)

lemma keys_tables [simp]:
  "keys (hub\<lparr>H_IpTable := l\<rparr>) = keys hub" "keys (hub\<lparr>H_MacHashTable := h\<rparr>) = keys hub"
  "keys (hub\<lparr>H_LastFlushTick := t\<rparr>) = keys hub"
  by (simp_all add: keys_def)

lemma step_flush: "step g {} hub (hub\<lparr>H_LastFlushTick := t\<rparr>)"
  by (simp add: step_def hub_ok_def hub_tables_ok_def same_setting_def appended_def balance_def within_def)

lemma step_macs:
  assumes "hub_ok hub \<Longrightarrow> mac_tbl.hash_ok h \<and> (\<forall>e \<in> set (HashListToArray h). M_Session e \<in> set (keys hub))"
    and "hub_ok hub \<Longrightarrow> within g hub \<Longrightarrow> length (HashListToArray h) \<le> unat (MAX_MAC_TABLES g)"
  shows "step g {} hub (hub\<lparr>H_MacHashTable := h\<rparr>)"
  using assms by (simp add: step_def hub_ok_def hub_tables_ok_def same_setting_def appended_def balance_def within_def)

lemma step_ips:
  assumes "hub_ok hub \<Longrightarrow> ip_tbl.tbl_ok l \<and> (\<forall>e \<in> set (items l). I_Session e \<in> set (keys hub))"
    and "hub_ok hub \<Longrightarrow> within g hub \<Longrightarrow> length (items l) \<le> unat (MAX_IP_TABLES g)"
  shows "step g {} hub (hub\<lparr>H_IpTable := l\<rparr>)"
  using assms by (simp add: step_def hub_ok_def hub_tables_ok_def same_setting_def appended_def balance_def within_def)

text \<open>Changing what is not fixed of a session.\<close>

lemma keys_with: "(\<And>s. S_Key s = k \<Longrightarrow> S_Key (f s) = k) \<Longrightarrow> keys (with_session k f hub) = keys hub"
  by (auto simp: keys_def with_session_def)

lemma total_flooded_same:
  "(\<And>s. PA_PacketQueue (f s) = PA_PacketQueue s) \<Longrightarrow> total_flooded (map f ss) = total_flooded ss"
  by (induction ss) auto

lemma total_flooded_one:
  assumes "distinct (map S_Key ss)" and "find (\<lambda>s. S_Key s = k) ss = Some s0"
  shows "total_flooded (map (\<lambda>s. if S_Key s = k then f s else s) ss) =
    total_flooded ss - flooded (PA_PacketQueue s0) + flooded (PA_PacketQueue (f s0))"
  using assms
proof (induction ss)
  case (Cons s ss)
  show ?case
  proof (cases "S_Key s = k")
    case True
    then have "k \<notin> S_Key ` set ss" using Cons.prems(1) by auto
    then have "map (\<lambda>s. if S_Key s = k then f s else s) ss = ss" by (intro map_idI) auto
    then show ?thesis using True Cons.prems(2) by simp
  next
    case False
    then show ?thesis using Cons by simp
  qed
qed simp

lemma step_with:
  assumes "\<And>s. S_Key s = k \<Longrightarrow> profile (f s) = profile s"
    and "\<And>s. S_Key s = k \<Longrightarrow> PA_PacketQueue (f s) = PA_PacketQueue s"
  shows "step g {} hub (with_session k f hub)"
proof -
  have key: "S_Key s = k \<Longrightarrow> S_Key (f s) = k" for s using profile_fields(1) [OF assms(1)] by simp
  have ses: "session (with_session k f hub) j = (if j = k then map_option f (session hub k) else session hub j)" for j
    by (rule session_with [OF key])
  have p: "map_option profile (session (with_session k f hub) j) = map_option profile (session hub j)" for j
    unfolding ses using assms(1) session_key by (cases "session hub k") force+
  have q: "queue (with_session k f hub) j = queue hub j" for j
    unfolding queue_def ses using assms(2) session_key by (cases "session hub k") force+
  have b: "balance (with_session k f hub) = balance hub"
    using assms(2) by (simp add: balance_def with_session_def total_flooded_same)
  show ?thesis using p q b keys_with [OF key]
    by (simp add: step_def hub_ok_def hub_tables_ok_def same_setting_def appended_def within_def with_session_def)
qed

lemma step_put:
  assumes "session hub (S_Key s) = Some s0" and "profile s = profile s0" and "PA_PacketQueue s = PA_PacketQueue s0"
  shows "step g {} hub (put_session s hub)"
proof -
  have key: "keys (put_session s hub) = keys hub" unfolding put_session_def by (rule keys_with) simp
  have p: "map_option profile (session (put_session s hub) j) = map_option profile (session hub j)"
    and q: "queue (put_session s hub) j = queue hub j" for j
    using assms by (auto simp: session_put queue_def)
  have b: "balance (put_session s hub) = balance hub" if "distinct (keys hub)"
    using total_flooded_one [of "H_PaSessions hub" "S_Key s" s0 "\<lambda>_. s"] assms(1,3) that
    by (simp add: balance_def put_session_def with_session_def session_def keys_def)
  show ?thesis using p q b key
    by (simp add: step_def hub_ok_def hub_tables_ok_def same_setting_def appended_def within_def put_session_def with_session_def)
qed

lemma flooded_append [simp]: "flooded (a @ b) = flooded a + flooded b"
  by (simp add: flooded_def)

lemma step_enqueue:
  assumes "session hub (S_Key s) = Some s0" and "profile s = profile s0" and "PA_PacketQueue s = PA_PacketQueue s0"
  shows "step (Params env) {S_Key s} hub (enqueue env hub s data is_flooding)"
proof (cases "length (PA_PacketQueue s) < unat (MAX_STORED_QUEUE_NUM (Params env))")
  case False
  then show ?thesis using step_mono [OF step_put [OF assms]] by (simp add: enqueue_def)
next
  case True
  define b where "b = \<lparr>B_Buf = data, B_IsFlooding = is_flooding\<rparr>"
  have queue_s: "queue hub (S_Key s) = PA_PacketQueue s" using assms(1,3) by (simp add: queue_def)
  define s' where "s' = s\<lparr>PA_PacketQueue := PA_PacketQueue s @ [b]\<rparr>"
  have s': "PA_PacketQueue s' = PA_PacketQueue s0 @ [b]" "S_Key s' = S_Key s" "profile s' = profile s"
    using assms(3) by (simp_all add: s'_def profile_def)
  define hub' where "hub' = put_session s' hub"
  have e: "enqueue env hub s data is_flooding =
      (if is_flooding then CedarAddCurrentTcpQueueSize hub' (of_nat (length data)) else hub')"
    using True by (simp add: enqueue_def b_def s'_def hub'_def)
  have key: "keys hub' = keys hub" unfolding hub'_def put_session_def by (rule keys_with) simp
  have p: "map_option profile (session hub' j) = map_option profile (session hub j)"
    and q: "queue hub' j = (if j = S_Key s then queue hub j @ [b] else queue hub j)" for j
    using assms s' by (auto simp: hub'_def session_put queue_def)
  have "flooded [b] = (if is_flooding then of_nat (length data) else 0)" by (simp add: flooded_def b_def)
  then have bal: "balance hub' + (if is_flooding then of_nat (length data) else 0) = balance hub" if "distinct (keys hub)"
    using total_flooded_one [of "H_PaSessions hub" "S_Key s" s0 "\<lambda>_. s'"] assms(1,3) that
    by (simp add: balance_def hub'_def put_session_def with_session_def session_def keys_def s' algebra_simps)
  have fields: "H_Option hub' = H_Option hub" "H_LogSetting hub' = H_LogSetting hub" "H_HubMacAddr hub' = H_HubMacAddr hub"
    "H_AccessList hub' = H_AccessList hub" "H_MonitorList hub' = H_MonitorList hub" "H_SessionList hub' = H_SessionList hub"
    "H_MacHashTable hub' = H_MacHashTable hub" "H_IpTable hub' = H_IpTable hub"
    by (simp_all add: hub'_def put_session_def with_session_def)
  have cedar: "session (CedarAddCurrentTcpQueueSize h n) = session h" "keys (CedarAddCurrentTcpQueueSize h n) = keys h"
    "balance (CedarAddCurrentTcpQueueSize h n) = balance h + n" for h n
    by (simp_all add: CedarAddCurrentTcpQueueSize_def keys_def balance_def)
  have "queue (CedarAddCurrentTcpQueueSize h n) = queue h" for h n by (simp add: fun_eq_iff queue_def cedar)
  then show ?thesis unfolding e using p q bal key fields cedar True
    by (auto simp: step_def hub_ok_def hub_tables_ok_def same_setting_def appended_def within_def
        CedarAddCurrentTcpQueueSize_def queue_s)
qed

section \<open>The tables\<close>

definition macs :: "HUB \<Rightarrow> u8 list \<times> u32 \<Rightarrow> MAC_TABLE_ENTRY option" where
  "macs hub = mac_tbl.hview (H_MacHashTable hub)"

definition ips :: "HUB \<Rightarrow> u8 list \<Rightarrow> IP_TABLE_ENTRY option" where
  "ips hub = ip_tbl.view (H_IpTable hub)"

lemma macs_cong [simp]:
  "macs (hub\<lparr>H_IpTable := l\<rparr>) = macs hub" "macs (hub\<lparr>H_LastFlushTick := t\<rparr>) = macs hub"
  "macs (with_session k f hub) = macs hub" "macs (put_session s hub) = macs hub"
  by (simp_all add: macs_def with_session_def put_session_def)

lemma macs_Some: "hub_ok hub \<Longrightarrow> (macs hub k = Some e) = (e \<in> set (HashListToArray (H_MacHashTable hub)) \<and> mac_key e = k)"
  by (simp add: macs_def hub_ok_def hub_tables_ok_def mac_tbl.hview_Some)

lemma ips_Some: "hub_ok hub \<Longrightarrow> (ips hub k = Some e) = (e \<in> set (items (H_IpTable hub)) \<and> ip_key e = k)"
  by (simp add: ips_def hub_ok_def hub_tables_ok_def ip_tbl.view_Some)

lemma macs_session: "hub_ok hub \<Longrightarrow> macs hub k = Some e \<Longrightarrow> M_Session e \<in> set (keys hub)"
  using macs_Some by (auto simp: hub_ok_def hub_tables_ok_def)

lemma search_mac_spec:
  assumes "search_mac hub mac vlan = (e, hub')"
  shows "step g {} hub hub' \<and> session hub' = session hub \<and>
    (hub_ok hub \<longrightarrow> e = macs hub (mac, vlan) \<and> macs hub' = macs hub)"
proof -
  define t where "t = \<lparr>M_MacAddress = mac, M_VlanId = vlan, M_Session = 0, M_CreatedTime = 0, M_UpdatedTime = 0\<rparr>"
  obtain h where h: "SearchHash GetHashOfMacTable CompareMacTable (H_MacHashTable hub) t = (e, h)" "hub' = hub\<lparr>H_MacHashTable := h\<rparr>"
    using assms by (auto simp: search_mac_def t_def Let_def split: prod.splits)
  have s: "e = macs hub (mac, vlan) \<and> mac_tbl.hash_ok h \<and>
      mset (HashListToArray h) = mset (HashListToArray (H_MacHashTable hub)) \<and> macs hub' = macs hub" if "hub_ok hub"
    using mac_tbl.SearchHash_spec [OF _ h(1)] that h(2) by (simp add: hub_ok_def hub_tables_ok_def macs_def mac_key_def t_def)
  have "set (HashListToArray h) = set (HashListToArray (H_MacHashTable hub))"
    "length (HashListToArray h) = length (HashListToArray (H_MacHashTable hub))" if "hub_ok hub"
    using s [OF that] by (metis set_mset_mset, metis size_mset)
  then have "step g {} hub hub'" unfolding h(2) using s
    by (intro step_macs) (auto simp: hub_ok_def hub_tables_ok_def within_def)
  then show ?thesis using s h(2) by simp
qed

lemma search_ip_spec:
  assumes "search_ip hub ip = (e, hub')"
  shows "step g {} hub hub' \<and> session hub' = session hub \<and> macs hub' = macs hub \<and>
    (hub_ok hub \<longrightarrow> e = ips hub (addr_bytes ip) \<and> ips hub' = ips hub)"
proof -
  define t where "t = \<lparr>I_Ip = ip, I_Session = 0, I_DhcpAllocated = False, I_CreatedTime = 0, I_UpdatedTime = 0, I_MacAddress = []\<rparr>"
  obtain l where l: "lst_search (Some CompareIpTable) (H_IpTable hub) t = (e, l)" "hub' = hub\<lparr>H_IpTable := l\<rparr>"
    using assms by (auto simp: search_ip_def t_def Let_def split: prod.splits)
  have s: "e = ips hub (addr_bytes ip) \<and> ip_tbl.tbl_ok l \<and> mset (items l) = mset (items (H_IpTable hub)) \<and> ips hub' = ips hub"
    if "hub_ok hub"
    using ip_tbl.tbl_search [OF _ l(1)] that l(2) by (simp add: hub_ok_def hub_tables_ok_def ips_def ip_key_def t_def)
  have "set (items l) = set (items (H_IpTable hub))" "length (items l) = length (items (H_IpTable hub))" if "hub_ok hub"
    using s [OF that] by (metis set_mset_mset, metis size_mset)
  then have "step g {} hub hub'" unfolding l(2) using s
    by (intro step_ips) (auto simp: hub_ok_def hub_tables_ok_def within_def)
  then show ?thesis using s l(2) by simp
qed

lemma update_mac_spec:
  assumes "hub_ok hub \<Longrightarrow> macs hub (mac_key e) = Some e" and "mac_key e' = mac_key e" and "M_Session e' \<in> set (keys hub)"
  shows "step g {} hub (update_mac hub e e') \<and> session (update_mac hub e e') = session hub \<and>
    (hub_ok hub \<longrightarrow> macs (update_mac hub e e') = (macs hub)(mac_key e \<mapsto> e'))"
proof -
  let ?h = "hash_update GetHashOfMacTable (H_MacHashTable hub) e e'"
  have u: "mac_tbl.hash_ok ?h \<and>
      mset (HashListToArray ?h) = add_mset e' (mset (HashListToArray (H_MacHashTable hub)) - {#e#}) \<and>
      mac_tbl.hview ?h = (macs hub)(mac_key e \<mapsto> e') \<and> e \<in># mset (HashListToArray (H_MacHashTable hub))" if "hub_ok hub"
    using mac_tbl.hash_update_spec [of "H_MacHashTable hub" e e'] assms that
    by (auto simp: hub_ok_def hub_tables_ok_def macs_def mac_tbl.hview_Some)
  have st: "set (HashListToArray ?h) \<subseteq> insert e' (set (HashListToArray (H_MacHashTable hub)))"
    "length (HashListToArray ?h) = length (HashListToArray (H_MacHashTable hub))" if "hub_ok hub"
  proof -
    note m = u [OF that]
    then have "set_mset (mset (HashListToArray ?h)) \<subseteq> insert e' (set (HashListToArray (H_MacHashTable hub)))"
      by (auto dest: in_diffD)
    then show "set (HashListToArray ?h) \<subseteq> insert e' (set (HashListToArray (H_MacHashTable hub)))" by simp
    have "size (mset (HashListToArray ?h)) = size (mset (HashListToArray (H_MacHashTable hub)))"
      using m by (metis insert_DiffM size_add_mset)
    then show "length (HashListToArray ?h) = length (HashListToArray (H_MacHashTable hub))" by simp
  qed
  have "step g {} hub (hub\<lparr>H_MacHashTable := ?h\<rparr>)"
  proof (rule step_macs)
    assume ok: "hub_ok hub"
    show "mac_tbl.hash_ok ?h \<and> (\<forall>e \<in> set (HashListToArray ?h). M_Session e \<in> set (keys hub))"
      using u [OF ok] st [OF ok] assms(3) ok unfolding hub_ok_def hub_tables_ok_def by blast
    show "within g hub \<Longrightarrow> length (HashListToArray ?h) \<le> unat (MAX_MAC_TABLES g)"
      using st [OF ok] by (simp add: within_def)
  qed
  then show ?thesis using u by (simp add: update_mac_def macs_def)
qed

lemma update_ip_spec:
  assumes "hub_ok hub \<Longrightarrow> ips hub (ip_key e) = Some e" and "ip_key e' = ip_key e" and "I_Session e' \<in> set (keys hub)"
  shows "step g {} hub (update_ip hub e e') \<and> session (update_ip hub e e') = session hub \<and>
    macs (update_ip hub e e') = macs hub \<and>
    (hub_ok hub \<longrightarrow> ips (update_ip hub e e') = (ips hub)(ip_key e \<mapsto> e'))"
proof -
  let ?l = "(H_IpTable hub)\<lparr>items := replace_first e e' (items (H_IpTable hub))\<rparr>"
  have u: "ip_tbl.tbl_ok ?l \<and> ip_tbl.view ?l = (ips hub)(ip_key e \<mapsto> e')" if "hub_ok hub"
    using ip_tbl.tbl_replace [of "H_IpTable hub" e e'] assms that by (simp add: hub_ok_def hub_tables_ok_def ips_def)
  have st: "set (items ?l) \<subseteq> insert e' (set (items (H_IpTable hub)))" "length (items ?l) = length (items (H_IpTable hub))"
  proof -
    have "set (replace_first x y zs) \<subseteq> insert y (set zs)" "length (replace_first x y zs) = length zs"
      for x y :: IP_TABLE_ENTRY and zs by (induction zs) auto
    then show "set (items ?l) \<subseteq> insert e' (set (items (H_IpTable hub)))" "length (items ?l) = length (items (H_IpTable hub))"
      by simp_all
  qed
  have "step g {} hub (hub\<lparr>H_IpTable := ?l\<rparr>)"
  proof (rule step_ips)
    assume ok: "hub_ok hub"
    show "ip_tbl.tbl_ok ?l \<and> (\<forall>e \<in> set (items ?l). I_Session e \<in> set (keys hub))"
      using u [OF ok] st assms(3) ok unfolding hub_ok_def hub_tables_ok_def by blast
    show "within g hub \<Longrightarrow> length (items ?l) \<le> unat (MAX_IP_TABLES g)"
      using st by (simp add: within_def)
  qed
  then show ?thesis using u by (simp add: update_ip_def ips_def)
qed

text \<open>Making room for a new address and adding it.\<close>

lemma add_ip_entry_spec:
  assumes "ip_tbl.tbl_ok l" and "ip_tbl.view l (ip_key e) = None"
  shows "ip_tbl.tbl_ok (add_ip_entry env l e) \<and>
    set (items (add_ip_entry env l e)) \<subseteq> insert e (set (items l)) \<and>
    ip_tbl.view (add_ip_entry env l e) (ip_key e) = Some e \<and>
    (0 < MAX_IP_TABLES (Params env) \<longrightarrow> length (items l) \<le> unat (MAX_IP_TABLES (Params env)) \<longrightarrow>
      length (items (add_ip_entry env l e)) \<le> unat (MAX_IP_TABLES (Params env)))"
proof -
  let ?max = "unat (MAX_IP_TABLES (Params env))"
  define l1 where "l1 = DeleteExpiredIpTableEntry (Params env) (Now env) l"
  define l2 where "l2 = (if length (items l1) \<ge> ?max then DeleteOldIpTableEntry l1 else l1)"
  have a: "add_ip_entry env l e = lst_insert (Some CompareIpTable) l2 e"
    by (simp add: add_ip_entry_def l1_def l2_def Let_def)
  have l1: "ip_tbl.tbl_ok l1" "ip_tbl.view l1 (ip_key e) = None" "set (items l1) \<subseteq> set (items l)"
    "length (items l1) \<le> length (items l)"
    using DeleteExpiredIp_spec [OF assms(1), of "Params env" "Now env" "ip_key e"] assms(2)
    by (auto simp: l1_def DeleteExpiredIp_items)
  have l2: "ip_tbl.tbl_ok l2 \<and> ip_tbl.view l2 (ip_key e) = None \<and> set (items l2) \<subseteq> set (items l1) \<and>
    (0 < ?max \<longrightarrow> length (items l) \<le> ?max \<longrightarrow> length (items l2) < ?max)"
  proof (cases "length (items l1) \<ge> ?max")
    case False
    then show ?thesis using l1 by (simp add: l2_def)
  next
    case full: True
    show ?thesis
    proof (cases "items l1 = []")
      case True
      then show ?thesis using l1 full by (simp add: l2_def DeleteOldIpTableEntry_def)
    next
      case False
      obtain x where x: "x \<in> set (items l1)" "ip_tbl.tbl_ok l2" "ip_tbl.view l2 = (ip_tbl.view l1)(ip_key x := None)"
        "mset (items l2) = mset (items l1) - {#x#}"
        using DeleteOldIp_spec [OF l1(1) False] full by (auto simp: l2_def)
      have "set (items l2) \<subseteq> set (items l1)" using x(4) by (metis in_diffD set_mset_mset subsetI)
      moreover have "size (mset (items l2)) < size (mset (items l1))" unfolding x(4) using x(1) by (intro size_Diff1_less) simp
      then have "length (items l2) < length (items l1)" by (simp only: size_mset)
      ultimately show ?thesis using x l1(2,4) by auto
    qed
  qed
  note i = ip_tbl.tbl_insert [of l2 e]
  have "length (items (lst_insert (Some CompareIpTable) l2 e)) = Suc (length (items l2))"
    using i l2 by (metis size_add_mset size_mset)
  moreover have "set (items (lst_insert (Some CompareIpTable) l2 e)) = insert e (set (items l2))"
    using i l2 by (metis set_mset_add_mset_insert set_mset_mset)
  ultimately show ?thesis unfolding a using i l2 l1 by (auto simp: word_less_nat_alt)
qed

lemma step_add_ip:
  assumes "hub_ok hub \<Longrightarrow> ips hub (ip_key e) = None" and "I_Session e \<in> set (keys hub)"
  shows "step (Params env) {} hub (hub\<lparr>H_IpTable := add_ip_entry env (H_IpTable hub) e\<rparr>)"
proof (rule step_ips)
  assume ok: "hub_ok hub"
  note a = add_ip_entry_spec [of "H_IpTable hub" e env]
  have t: "ip_tbl.tbl_ok (H_IpTable hub)" "ip_tbl.view (H_IpTable hub) (ip_key e) = None"
    using ok assms(1) by (simp_all add: hub_ok_def hub_tables_ok_def ips_def)
  show "ip_tbl.tbl_ok (add_ip_entry env (H_IpTable hub) e) \<and>
      (\<forall>e \<in> set (items (add_ip_entry env (H_IpTable hub) e)). I_Session e \<in> set (keys hub))"
    using a [OF t] assms(2) ok unfolding hub_ok_def hub_tables_ok_def by blast
  show "within (Params env) hub \<Longrightarrow> length (items (add_ip_entry env (H_IpTable hub) e)) \<le> unat (MAX_IP_TABLES (Params env))"
    using a [OF t] by (simp add: within_def)
qed

section \<open>Learning\<close>

definition mac_entry :: "ENV \<Rightarrow> HUB \<Rightarrow> SESSION \<Rightarrow> PKT \<Rightarrow> MAC_TABLE_ENTRY" where
  "mac_entry env hub s p = \<lparr>M_MacAddress = MacAddressSrc p, M_VlanId = vlan_of hub p, M_Session = S_Key s,
     M_CreatedTime = Now env, M_UpdatedTime = Now env\<rparr>"

definition src_key :: "HUB \<Rightarrow> PKT \<Rightarrow> u8 list \<times> u32" where
  "src_key hub p = (MacAddressSrc p, vlan_of hub p)"

definition dest_key :: "HUB \<Rightarrow> PKT \<Rightarrow> u8 list \<times> u32" where
  "dest_key hub p = (MacAddressDest p, vlan_of hub p)"

text \<open>Entries that a flush may drop aside, only the entry of the sender's address changes.\<close>

definition other_macs_kept :: "ENV \<Rightarrow> HUB \<Rightarrow> HUB \<Rightarrow> u8 list \<times> u32 \<Rightarrow> bool" where
  "other_macs_kept env hub hub' key \<longleftrightarrow> (\<forall>k. k \<noteq> key \<longrightarrow>
     macs hub' k = macs hub k \<or>
     (\<exists>e. macs hub k = Some e \<and> mac_expired (Params env) (Now env) e \<and> macs hub' k = None))"

lemma other_refl [simp]: "macs hub' = macs hub \<Longrightarrow> other_macs_kept env hub hub' key"
  by (simp add: other_macs_kept_def)

text \<open>Dropping the expired entries.\<close>

definition flush_macs :: "ENV \<Rightarrow> HUB \<Rightarrow> HUB" where
  "flush_macs env hub =
     (if H_LastFlushTick hub = 0 \<or> H_LastFlushTick hub + OLD_MAC_ADDRESS_ENTRY_FLUSH_INTERVAL < Now env
      then hub\<lparr>H_LastFlushTick := Now env,
             H_MacHashTable := DeleteExpiredMacTableEntry (Params env) (Now env) (H_MacHashTable hub)\<rparr>
      else hub)"

lemma flush_spec:
  "step g {} hub (flush_macs env hub) \<and> session (flush_macs env hub) = session hub \<and>
    (hub_ok hub \<longrightarrow> other_macs_kept env hub (flush_macs env hub) key \<and>
      (macs hub key = None \<longrightarrow> macs (flush_macs env hub) key = None))"
proof (cases "H_LastFlushTick hub = 0 \<or> H_LastFlushTick hub + OLD_MAC_ADDRESS_ENTRY_FLUSH_INTERVAL < Now env")
  case True
  let ?hub = "hub\<lparr>H_LastFlushTick := Now env\<rparr>"
  let ?h = "DeleteExpiredMacTableEntry (Params env) (Now env) (H_MacHashTable ?hub)"
  have f: "flush_macs env hub = ?hub\<lparr>H_MacHashTable := ?h\<rparr>" using True by (simp add: flush_macs_def)
  have d: "mac_tbl.hash_ok ?h \<and> set (HashListToArray ?h) \<subseteq> set (HashListToArray (H_MacHashTable hub)) \<and>
      mac_tbl.hview ?h k = (case macs hub k of None \<Rightarrow> None | Some e \<Rightarrow>
        if mac_expired (Params env) (Now env) e then None else Some e)" if "hub_ok hub" for k
    using DeleteExpiredMac_spec [of "H_MacHashTable hub" "Params env" "Now env" k] that
    by (auto simp: hub_ok_def hub_tables_ok_def macs_def)
  have len: "length (HashListToArray ?h) \<le> length (HashListToArray (H_MacHashTable hub))" if "hub_ok hub"
  proof -
    have "distinct (HashListToArray ?h)" "distinct (HashListToArray (H_MacHashTable hub))"
      using d [OF that] that mac_tbl.array_distinct_keys by (auto simp: hub_ok_def hub_tables_ok_def distinct_map)
    then show ?thesis using d [OF that] by (metis card_mono distinct_card finite_set)
  qed
  have ok: "hub_ok ?hub = hub_ok hub" by (simp add: hub_ok_def hub_tables_ok_def)
  have "step g {} ?hub (?hub\<lparr>H_MacHashTable := ?h\<rparr>)"
  proof (rule step_macs)
    assume "hub_ok ?hub"
    then have h: "hub_ok hub" by (simp add: ok)
    show "mac_tbl.hash_ok ?h \<and> (\<forall>e \<in> set (HashListToArray ?h). M_Session e \<in> set (keys ?hub))"
      using d [OF h] h by (auto simp: hub_ok_def hub_tables_ok_def)
    show "within g ?hub \<Longrightarrow> length (HashListToArray ?h) \<le> unat (MAX_MAC_TABLES g)"
      using len [OF h] by (simp add: within_def)
  qed
  then have "step g {} hub (flush_macs env hub)" unfolding f using step_trans step_flush by blast
  moreover have "macs (flush_macs env hub) k = (case macs hub k of None \<Rightarrow> None | Some e \<Rightarrow>
        if mac_expired (Params env) (Now env) e then None else Some e)" if "hub_ok hub" for k
    using d [OF that] by (simp add: f macs_def)
  ultimately show ?thesis by (auto simp: f other_macs_kept_def split: option.splits)
qed (simp add: flush_macs_def)

lemma add_mac_spec:
  assumes "hub_ok hub \<Longrightarrow> macs hub (mac_key e) = None" and "M_Session e \<in> set (keys hub)"
    and "HASH_NumItems (H_MacHashTable hub) < MAX_MAC_TABLES g"
  shows "step g {} hub (hub\<lparr>H_MacHashTable := AddHash GetHashOfMacTable CompareMacTable (H_MacHashTable hub) e\<rparr>) \<and>
    (hub_ok hub \<longrightarrow>
      macs (hub\<lparr>H_MacHashTable := AddHash GetHashOfMacTable CompareMacTable (H_MacHashTable hub) e\<rparr>) =
        (macs hub)(mac_key e \<mapsto> e))"
proof -
  let ?h = "AddHash GetHashOfMacTable CompareMacTable (H_MacHashTable hub) e"
  have a: "mac_tbl.hash_ok ?h \<and> mset (HashListToArray ?h) = add_mset e (mset (HashListToArray (H_MacHashTable hub))) \<and>
      mac_tbl.hview ?h = (macs hub)(mac_key e \<mapsto> e)" if "hub_ok hub"
    using mac_tbl.AddHash_spec [of "H_MacHashTable hub" e] assms(1) that by (simp add: hub_ok_def hub_tables_ok_def macs_def)
  have "step g {} hub (hub\<lparr>H_MacHashTable := ?h\<rparr>)"
  proof (rule step_macs)
    assume ok: "hub_ok hub"
    have "set (HashListToArray ?h) = insert e (set (HashListToArray (H_MacHashTable hub)))"
      using a [OF ok] by (metis set_mset_add_mset_insert set_mset_mset)
    then show "mac_tbl.hash_ok ?h \<and> (\<forall>e \<in> set (HashListToArray ?h). M_Session e \<in> set (keys hub))"
      using a [OF ok] assms(2) ok by (auto simp: hub_ok_def hub_tables_ok_def)
    assume w: "within g hub"
    have l: "length (HashListToArray ?h) = Suc (length (HashListToArray (H_MacHashTable hub)))"
      using a [OF ok] by (metis size_add_mset size_mset)
    have "length (HashListToArray (H_MacHashTable hub)) < unat (MAX_MAC_TABLES g)"
    proof -
      let ?n = "length (HashListToArray (H_MacHashTable hub))"
      have n: "HASH_NumItems (H_MacHashTable hub) = of_nat ?n"
        using ok by (simp add: hub_ok_def hub_tables_ok_def mac_tbl.hash_ok_def)
      have "?n \<le> unat (MAX_MAC_TABLES g)" using w by (simp add: within_def)
      then have "?n < two32" by (rule order.strict_trans1) simp
      then have "unat (of_nat ?n :: u32) = ?n" by (simp add: nowrap)
      then show ?thesis using assms(3) unfolding n by (simp add: word_less_nat_alt)
    qed
    then show "length (HashListToArray ?h) \<le> unat (MAX_MAC_TABLES g)" using l by simp
  qed
  then show ?thesis using a by (simp add: macs_def)
qed

text \<open>
  Learning the address of a sender: when the packet goes on, the address belongs to the session
  from now on; when it does not, the entry is as it was.
\<close>

lemma learn_mac_spec:
  assumes "learn_mac env hub s p = (ok, hub')" and "S_Key s \<in> set (keys hub)"
  shows "step (Params env) {} hub hub' \<and> session hub' = session hub \<and>
    (hub_ok hub \<longrightarrow>
      other_macs_kept env hub hub' (src_key hub p) \<and>
      (if ok then \<exists>e. macs hub' (src_key hub p) = Some e \<and> M_Session e = S_Key s \<and> M_UpdatedTime e = Now env
       else macs hub' (src_key hub p) = macs hub (src_key hub p)))"
proof -
  let ?key = "src_key hub p"
  obtain found hub1 where f: "search_mac hub (MacAddressSrc p) (vlan_of hub p) = (found, hub1)" by fastforce
  note s1 = search_mac_spec [OF f, of "Params env"]
  have k1: "keys hub1 = keys hub" "vlan_of hub1 p = vlan_of hub p"
    using f by (auto simp: search_mac_def vlan_of_def keys_def Let_def split: prod.splits)
  have ok1: "hub_ok hub1" and m1: "macs hub1 = macs hub" "found = macs hub ?key" if "hub_ok hub"
    using s1 that by (auto simp: step_def src_key_def)
  show ?thesis
  proof (cases found)
    case None
    define hub2 where "hub2 = flush_macs env hub1"
    note fl = flush_spec [of "Params env" hub1 env ?key, folded hub2_def]
    have s2: "step (Params env) {} hub hub2" using s1 fl step_trans by blast
    have ses2: "session hub2 = session hub" using s1 fl by simp
    have m2: "other_macs_kept env hub hub2 ?key \<and> macs hub2 ?key = None \<and> macs hub ?key = None" if "hub_ok hub"
      using fl m1 [OF that] ok1 [OF that] None by (auto simp: other_macs_kept_def)
    have k2: "keys hub2 = keys hub" by (simp add: hub2_def flush_macs_def k1)
    define hub3 where "hub3 = hub2\<lparr>H_MacHashTable := AddHash GetHashOfMacTable CompareMacTable (H_MacHashTable hub2) (mac_entry env hub s p)\<rparr>"
    have key: "mac_key (mac_entry env hub s p) = ?key" by (simp add: mac_key_def mac_entry_def src_key_def)
    have "(ok, hub') = (False, hub2) \<or> \<not> HASH_NumItems (H_MacHashTable hub2) \<ge> MAX_MAC_TABLES (Params env) \<and> (ok, hub') = (True, hub3)"
      using assms(1) unfolding learn_mac_def Let_def f prod.case None option.case
      by (simp only: flush_macs_def [symmetric] hub2_def [symmetric] mac_entry_def [symmetric] hub3_def [symmetric] split: if_splits) auto
    then show ?thesis
    proof
      assume "(ok, hub') = (False, hub2)"
      then show ?thesis using s2 ses2 m2 by simp
    next
      assume a: "\<not> HASH_NumItems (H_MacHashTable hub2) \<ge> MAX_MAC_TABLES (Params env) \<and> (ok, hub') = (True, hub3)"
      have ok2: "hub_ok hub2" if "hub_ok hub" using s2 that by (simp add: step_def)
      have "M_Session (mac_entry env hub s p) \<in> set (keys hub2)" using assms(2) by (simp add: k2 mac_entry_def)
      note ad = add_mac_spec [where g = "Params env" and hub = hub2 and e = "mac_entry env hub s p", OF _ this, unfolded key, folded hub3_def]
      have n: "HASH_NumItems (H_MacHashTable hub2) < MAX_MAC_TABLES (Params env)" using a by (simp add: not_le)
      show ?thesis
      proof (cases "hub_ok hub")
        case False
        then show ?thesis using a ses2 by (simp add: step_def hub3_def)
      next
        case True
        have "step (Params env) {} hub2 hub3 \<and> macs hub3 = (macs hub2)(?key \<mapsto> mac_entry env hub s p)"
          using ad m2 [OF True] n ok2 [OF True] by blast
        then show ?thesis using a s2 ses2 step_trans m2 [OF True]
          by (auto simp: hub3_def other_macs_kept_def mac_entry_def)
      qed
    qed
  next
    case (Some e)
    have e: "mac_key e = ?key" if "hub_ok hub"
    using m1(2) [OF that] Some macs_Some [OF that, of ?key e] by simp
    have up: "step (Params env) {} hub (update_mac hub1 e e') \<and> session (update_mac hub1 e e') = session hub \<and>
        (hub_ok hub \<longrightarrow> macs (update_mac hub1 e e') = (macs hub)(?key \<mapsto> e'))"
      if "mac_key e' = mac_key e" "M_Session e' = S_Key s" for e'
    proof -
      have "hub_ok hub \<longrightarrow> macs hub1 (mac_key e) = Some e" using e m1 Some by simp
      show ?thesis
      proof (cases "hub_ok hub")
        case False
        then show ?thesis using s1 by (simp add: step_def update_mac_def)
      next
        case True
        have "macs hub1 (mac_key e) = Some e" using e m1 Some True by simp
        then show ?thesis
          using update_mac_spec [of hub1 e e' "Params env"] that assms(2) k1 s1 step_trans m1 [OF True] e [OF True] ok1 [OF True]
          by auto
      qed
    qed
    have "(ok, hub') = (False, hub1) \<or>
      (\<exists>e'. (ok, hub') = (True, update_mac hub1 e e') \<and> mac_key e' = mac_key e \<and> M_Session e' = S_Key s \<and> M_UpdatedTime e' = Now env)"
      using assms(1) unfolding learn_mac_def Let_def f prod.case Some option.case
      by (auto simp: mac_key_def split: if_splits)
    then show ?thesis
    proof
      assume "(ok, hub') = (False, hub1)"
      then show ?thesis using s1 m1 by simp
    next
      assume "\<exists>e'. (ok, hub') = (True, update_mac hub1 e e') \<and> mac_key e' = mac_key e \<and> M_Session e' = S_Key s \<and> M_UpdatedTime e' = Now env"
      then obtain e' where e': "(ok, hub') = (True, update_mac hub1 e e')" "mac_key e' = mac_key e" "M_Session e' = S_Key s"
        "M_UpdatedTime e' = Now env" by blast
      then show ?thesis using up [OF e'(2,3)] by (auto simp: other_macs_kept_def)
    qed
  qed
qed

text \<open>The table of IP addresses.\<close>

definition moves :: "ENV \<Rightarrow> nat set \<Rightarrow> HUB \<Rightarrow> HUB \<Rightarrow> bool" where
  "moves env D hub hub' \<longleftrightarrow> step (Params env) D hub hub' \<and> (hub_ok hub \<longrightarrow> macs hub' = macs hub)"

abbreviation silent :: "ENV \<Rightarrow> HUB \<Rightarrow> HUB \<Rightarrow> bool" where
  "silent env \<equiv> moves env {}"

lemma moves_refl [simp]: "moves env D hub hub"
  by (simp add: moves_def)

lemma moves_trans: "moves env D hub1 hub2 \<Longrightarrow> moves env D hub2 hub3 \<Longrightarrow> moves env D hub1 hub3"
proof -
  assume a: "moves env D hub1 hub2" "moves env D hub2 hub3"
  then have "hub_ok hub1 \<Longrightarrow> hub_ok hub2" by (simp add: moves_def step_def)
  moreover have "step (Params env) D hub1 hub3" using a step_trans by (auto simp: moves_def)
  ultimately show ?thesis using a by (simp add: moves_def)
qed

lemma moves_mono: "moves env D hub hub' \<Longrightarrow> D \<subseteq> D' \<Longrightarrow> moves env D' hub hub'"
  using step_mono by (auto simp: moves_def)

lemma moves_ok: "moves env D hub hub' \<Longrightarrow> hub_ok hub \<Longrightarrow> hub_ok hub' \<and> same_setting hub hub' \<and> macs hub' = macs hub"
  by (simp add: moves_def step_def)

lemmas silent_trans = moves_trans [where D = "{}"]

lemma silent_with:
  assumes "\<And>s. S_Key s = k \<Longrightarrow> profile (f s) = profile s"
    and "\<And>s. S_Key s = k \<Longrightarrow> PA_PacketQueue (f s) = PA_PacketQueue s"
  shows "silent env hub (with_session k f hub)"
  using step_with [OF assms] by (simp add: moves_def)

lemma silent_put:
  assumes "session hub (S_Key s) = Some s0" and "profile s = profile s0" and "PA_PacketQueue s = PA_PacketQueue s0"
  shows "silent env hub (put_session s hub)"
  using step_put [OF assms] by (simp add: moves_def)

lemma note_ip4_silent: "silent env hub (with_session k (note_ip4 ip) hub)"
  by (rule silent_with) (simp_all add: note_ip4_def profile_def)

lemma keys_search_ip: "search_ip hub ip = (e, hub') \<Longrightarrow> keys hub' = keys hub"
  by (auto simp: search_ip_def Let_def split: prod.splits)

lemma keys_search_mac: "search_mac hub mac vlan = (e, hub') \<Longrightarrow> keys hub' = keys hub"
  by (auto simp: search_mac_def Let_def split: prod.splits)

lemma search_ip_silent: "search_ip hub ip = (e, hub') \<Longrightarrow> silent env hub hub'"
  using search_ip_spec by (simp add: moves_def)

lemma search_mac_silent: "search_mac hub mac vlan = (e, hub') \<Longrightarrow> silent env hub hub'"
  using search_mac_spec by (simp add: moves_def)

lemma add_ip_silent:
  assumes "search_ip hub ip = (None, hub1)" and "I_Ip e = ip" and "I_Session e \<in> set (keys hub)"
  shows "silent env hub (hub1\<lparr>H_IpTable := add_ip_entry env (H_IpTable hub1) e\<rparr>)"
proof (cases "hub_ok hub")
  case True
  note s = search_ip_spec [OF assms(1), of "Params env"]
  have "ips hub1 (ip_key e) = None" using s True assms(2) by (simp add: ip_key_def)
  moreover have "I_Session e \<in> set (keys hub1)" using keys_search_ip [OF assms(1)] assms(3) by simp
  ultimately have "step (Params env) {} hub1 (hub1\<lparr>H_IpTable := add_ip_entry env (H_IpTable hub1) e\<rparr>)"
    by (intro step_add_ip)
  then show ?thesis using s step_trans by (auto simp: moves_def)
qed (simp add: moves_def step_def)

lemma update_ip_silent:
  assumes "search_ip hub ip = (Some e, hub1)" and "addr_bytes (I_Ip e') = addr_bytes ip \<or> I_Ip e' = I_Ip e"
    and "I_Session e' \<in> set (keys hub)"
  shows "silent env hub (update_ip hub1 e e')"
proof (cases "hub_ok hub")
  case True
  note s = search_ip_spec [OF assms(1), of "Params env"]
  have e: "ips hub (addr_bytes ip) = Some e" using s True by simp
  then have k: "ip_key e = addr_bytes ip" using ips_Some [OF True] by simp
  then have "ips hub1 (ip_key e) = Some e" using s True e by simp
  moreover have "ip_key e' = ip_key e" using assms(2) k by (auto simp: ip_key_def)
  moreover have "I_Session e' \<in> set (keys hub1)" using keys_search_ip [OF assms(1)] assms(3) by simp
  ultimately have "step (Params env) {} hub1 (update_ip hub1 e e') \<and> macs (update_ip hub1 e e') = macs hub1"
    using update_ip_spec by blast
  then show ?thesis using s step_trans by (auto simp: moves_def)
qed (simp add: moves_def step_def)

lemma learn_ip6_silent:
  assumes "learn_ip6 env hub s p = (ok, hub')" and "S_Key s \<in> set (keys hub)"
  shows "silent env hub hub'"
proof -
  let ?ip = "IPv6AddrToIP (SrcAddress6 p)"
  obtain found hub1 where f: "search_ip hub ?ip = (found, hub1)" by fastforce
  have "hub' = hub \<or> hub' = hub1 \<or>
    found = None \<and> hub' = hub1\<lparr>H_IpTable := add_ip_entry env (H_IpTable hub1) (ip_entry env ?ip (S_Key s) False (MacAddressSrc p))\<rparr> \<or>
    (\<exists>e. found = Some e \<and> I_Session e = S_Key s \<and>
      hub' = update_ip hub1 e (e\<lparr>I_UpdatedTime := Now env, I_MacAddress := MacAddressSrc p\<rparr>))"
    using assms(1) unfolding learn_ip6_def Let_def f prod.case
    by (auto split: if_splits option.splits)
  moreover have "silent env hub hub1" by (rule search_ip_silent [OF f])
  moreover have "silent env hub (hub1\<lparr>H_IpTable := add_ip_entry env (H_IpTable hub1) (ip_entry env ?ip (S_Key s) False (MacAddressSrc p))\<rparr>)"
    if "found = None"
    by (rule add_ip_silent [of _ ?ip]) (use f that assms(2) in \<open>simp_all add: ip_entry_def\<close>)
  moreover have "silent env hub (update_ip hub1 e (e\<lparr>I_UpdatedTime := Now env, I_MacAddress := MacAddressSrc p\<rparr>))"
    if "found = Some e" "I_Session e = S_Key s" for e
    by (rule update_ip_silent [of _ ?ip]) (use f that assms(2) in simp_all)
  ultimately show ?thesis by auto
qed

lemma learn_ip4_silent:
  assumes "learn_ip4 env hub s p = (ok, hub')" and "S_Key s \<in> set (keys hub)"
  shows "silent env hub hub'"
proof -
  define ip where "ip = (if TypeL3 p = L3_IPV4 then SrcIP p else ArpSrcIP p)"
  obtain found hub1 where f: "search_ip hub (UINTToIP host_le ip) = (found, hub1)" by fastforce
  let ?e = "ip_entry env (UINTToIP host_le ip) (S_Key s) False (MacAddressSrc p)"
  have "hub' = hub \<or> hub' = hub1 \<or>
    found = None \<and> hub' = with_session (S_Key s) (note_ip4 ip) (hub1\<lparr>H_IpTable := add_ip_entry env (H_IpTable hub1) ?e\<rparr>) \<or>
    (\<exists>e. found = Some e \<and> I_Session e = S_Key s \<and>
      hub' = update_ip hub1 e (e\<lparr>I_UpdatedTime := Now env, I_MacAddress := MacAddressSrc p\<rparr>)) \<or>
    (\<exists>e. found = Some e \<and>
      hub' = update_ip hub1 e (e\<lparr>I_Session := S_Key s, I_UpdatedTime := Now env, I_MacAddress := MacAddressSrc p\<rparr>))"
    using assms(1) unfolding learn_ip4_def Let_def ip_def [symmetric] f prod.case
    by (auto split: if_splits option.splits)
  moreover have "silent env hub hub1" by (rule search_ip_silent [OF f])
  moreover have "silent env hub (hub1\<lparr>H_IpTable := add_ip_entry env (H_IpTable hub1) ?e\<rparr>)" if "found = None"
    by (rule add_ip_silent [of _ "UINTToIP host_le ip"]) (use f that assms(2) in \<open>simp_all add: ip_entry_def\<close>)
  then have "silent env hub (with_session (S_Key s) (note_ip4 ip) (hub1\<lparr>H_IpTable := add_ip_entry env (H_IpTable hub1) ?e\<rparr>))"
    if "found = None"
    using that silent_trans note_ip4_silent by blast
  moreover have "silent env hub (update_ip hub1 e e')"
    if "found = Some e" "I_Session e' = S_Key s" "I_Ip e' = I_Ip e" for e e'
    by (rule update_ip_silent [of _ "UINTToIP host_le ip"]) (use f that assms(2) in simp_all)
  ultimately show ?thesis by auto
qed

lemma register_dhcp_silent: "silent env hub (register_dhcp env hub p)"
proof (cases "hub_ok hub")
  case ok: True
  let ?ip = "UINTToIP host_le (dhcp_your_ip p)"
  obtain found hub1 where f: "search_mac hub (dhcp_client_mac p) 0 = (found, hub1)" by fastforce
  have s1: "silent env hub hub1" by (rule search_mac_silent [OF f])
  show ?thesis
  proof (cases found)
    case None
    then show ?thesis using s1 f by (simp add: register_dhcp_def)
  next
    case (Some m)
    define hub2 where "hub2 = with_session (M_Session m) (note_ip4 (dhcp_your_ip p)) hub1"
    obtain old hub3 where o: "search_ip hub2 ?ip = (old, hub3)" by fastforce
    let ?e = "ip_entry env ?ip (M_Session m) True (MacAddressDest p)"
    have s2: "silent env hub hub2" unfolding hub2_def using s1 silent_trans note_ip4_silent by blast
    have "macs hub (dhcp_client_mac p, 0) = Some m" using search_mac_spec [OF f] ok Some by auto
    then have "M_Session m \<in> set (keys hub)" by (rule macs_session [OF ok])
    then have k: "M_Session m \<in> set (keys hub2)" using s2 ok by (simp add: moves_def step_def same_setting_def)
    have "silent env hub2 (case old of None \<Rightarrow> hub3\<lparr>H_IpTable := add_ip_entry env (H_IpTable hub3) ?e\<rparr>
        | Some x \<Rightarrow> update_ip hub3 x ?e)"
    proof (cases old)
      case None
      then show ?thesis using add_ip_silent [of hub2 ?ip hub3 ?e env] o k by (simp add: ip_entry_def)
    next
      case (Some x)
      then show ?thesis using update_ip_silent [of hub2 ?ip x hub3 ?e env] o k by (simp add: ip_entry_def)
    qed
    then have "silent env hub (case old of None \<Rightarrow> hub3\<lparr>H_IpTable := add_ip_entry env (H_IpTable hub3) ?e\<rparr>
        | Some x \<Rightarrow> update_ip hub3 x ?e)" using s2 silent_trans by blast
    then show ?thesis using f Some o by (simp add: register_dhcp_def hub2_def Let_def)
  qed
qed (simp add: moves_def step_def)

section \<open>Handing packets over\<close>

lemma PacketLog_profile:
  "PacketLog env hub s p = (ok, s') \<Longrightarrow> profile s' = profile s \<and> PA_PacketQueue s' = PA_PacketQueue s \<and> S_Key s' = S_Key s"
  by (auto simp: PacketLog_def CheckMaxLoggedPacketsPerMinute_def Let_def profile_def split: if_splits)

lemma log_packet_silent:
  assumes "log_packet env hub src p = (ok, hub')" and "src = None \<or> (\<exists>k. src = session hub k)"
  shows "silent env hub hub'"
proof (cases src)
  case None
  then show ?thesis using assms by (simp add: log_packet_def)
next
  case (Some s)
  then obtain s' where s': "PacketLog env hub s p = (ok, s')" "hub' = put_session s' hub"
    using assms(1) by (auto simp: log_packet_def Let_def split: prod.splits)
  have "session hub (S_Key s) = Some s" using assms(2) Some session_key by force
  then show ?thesis unfolding s'(2) using PacketLog_profile [OF s'(1)] by (intro silent_put [of _ _ s]) auto
qed

lemma macs_enqueue [simp]: "macs (enqueue env hub s data fl) = macs hub"
  by (simp add: enqueue_def Let_def CedarAddCurrentTcpQueueSize_def macs_def put_session_def with_session_def)

lemma store_queue_moves:
  assumes "StorePacketToHubPa env hub d src data packet is_flooding no_check_acl = Some hub'"
  shows "moves env {d} hub hub'"
proof -
  obtain dest where dest: "session hub d = Some dest"
    using assms by (auto simp: StorePacketToHubPa_def bind_Some_conv)
  then have key: "S_Key dest = d" by (simp add: session_key)
  have dl: "profile x = profile dest \<and> PA_PacketQueue x = PA_PacketQueue dest \<and> S_Key x = d"
    if "(l, x) = (if src \<noteq> None then download_limited env dest packet else (False, dest))" for l x
    using that key by (auto simp: download_limited_def profile_def Let_def split: if_splits option.splits)
  have nd: "profile (note_dlink env hub packet x) = profile x \<and> PA_PacketQueue (note_dlink env hub packet x) = PA_PacketQueue x \<and>
      S_Key (note_dlink env hub packet x) = S_Key x" for x
    by (simp add: note_dlink_def profile_def split: option.split)
  have put: "moves env {d} hub (put_session x hub)"
    if "profile x = profile dest \<and> PA_PacketQueue x = PA_PacketQueue dest \<and> S_Key x = d" for x
    using step_mono [OF step_put [of hub x dest]] that dest by (auto simp: moves_def)
  have enq: "moves env {d} hub (enqueue env hub x data' fl)"
    if "profile x = profile dest \<and> PA_PacketQueue x = PA_PacketQueue dest \<and> S_Key x = d" for x data' fl
    using step_enqueue [of hub x dest env data' fl] that dest by (auto simp: moves_def)
  show ?thesis
  proof (cases "length data < 14")
    case True
    then show ?thesis using assms dest by (simp add: StorePacketToHubPa_def)
  next
    case False
    obtain l x where lx: "(l, x) = (if src \<noteq> None then download_limited env dest packet else (False, dest))"
      by (metis surj_pair)
    note dx = dl [OF lx]
    define y where "y = (if src \<noteq> None then note_dlink env hub packet x else x)"
    have dy: "profile y = profile dest \<and> PA_PacketQueue y = PA_PacketQueue dest \<and> S_Key y = d" using dx nd by (simp add: y_def)
    have "hub' = hub \<or> hub' = put_session x hub \<or> hub' = put_session y hub \<or> (\<exists>data' fl. hub' = enqueue env hub y data' fl)"
      using assms False
      unfolding StorePacketToHubPa_def dest Option.bind_lunit lx [symmetric] prod.case Let_def y_def [symmetric]
      by (auto simp: bind_Some_conv split: if_splits prod.splits)
    then show ?thesis using put dx dy enq by auto
  qed
qed

end
