(* ===== verification/HubFlow.thy ===== *)
theory HubFlow
  imports HubInv
begin

text \<open>
  Where a packet can get on its way through the hub: the sessions whose queues may grow when a
  packet is stored, in terms of the hub's state before it comes in. A destination is left out if
  the access list refuses the packet for it, if the privacy filter keeps it apart from the sender,
  if it is the sender itself, or if the destination address belongs to another session.
\<close>

section \<open>What only depends on the setting\<close>

lemma masked_profile:
  assumes "profile s = profile s'" and "profile d = profile d'"
  shows "IsPacketMaskedByAccessList lst opt s p a u g (Some d) = IsPacketMaskedByAccessList lst opt s' p a u g (Some d')"
    "IsPacketMaskedByAccessList lst opt s p a u g None = IsPacketMaskedByAccessList lst opt s' p a u g None"
  by (simp_all only: IsPacketMaskedByAccessList_def profile_fields [OF assms(1)] profile_fields [OF assms(2)] option.case)

lemma forward_scan_profile:
  assumes "profile s = profile s'" and "profile d = profile d'"
  shows "forward_scan lst opt s d p skip as = forward_scan lst opt s' d' p skip as"
  by (induction as arbitrary: skip) (simp_all add: masked_profile [OF assms] profile_fields [OF assms(2)])

lemma forward_profile:
  assumes "profile s = profile s'" and "profile d = profile d'" and "H_Option hub = H_Option hub'"
    and "H_AccessList hub = H_AccessList hub'"
  shows "ApplyAccessListToForwardPacket lst hub s d p = ApplyAccessListToForwardPacket lst hub' s' d' p"
  by (simp add: ApplyAccessListToForwardPacket_def forward_scan_profile [OF assms(1,2)] assms(3,4))

lemma first_match_profile:
  assumes "profile s = profile s'" and "profile d = profile d'"
  shows "first_match lst opt s d p as = first_match lst opt s' d' p as"
proof -
  have "masks lst opt s d p = masks lst opt s' d' p"
    by (simp add: fun_eq_iff masks_def masked_profile [OF assms] profile_fields [OF assms(2)])
  then show ?thesis by (simp add: first_match_def)
qed

definition the_sender :: "HUB \<Rightarrow> nat option \<Rightarrow> SESSION option" where
  "the_sender hub s = (case s of None \<Rightarrow> None | Some k \<Rightarrow> session hub k)"

lemma sender_Some: "sender hub s = Some src \<Longrightarrow> src = the_sender hub s"
  by (auto simp: sender_def the_sender_def split: option.splits)

text \<open>Whether the access list lets a packet that leaves pass; router advertisements are changed before.\<close>

definition lets :: "ENV \<Rightarrow> HUB \<Rightarrow> nat option \<Rightarrow> nat \<Rightarrow> PKT \<Rightarrow> bool" where
  "lets env hub s d p \<longleftrightarrow> is_ra p \<or> (\<forall>src dest. the_sender hub s = Some src \<longrightarrow> session hub d = Some dest \<longrightarrow>
     ApplyAccessListToForwardPacket (listed env) hub src dest p)"

definition private_pair :: "HUB \<Rightarrow> nat option \<Rightarrow> nat \<Rightarrow> PKT \<Rightarrow> bool" where
  "private_pair hub s d p \<longleftrightarrow> (\<exists>src dest. the_sender hub s = Some src \<and> session hub d = Some dest \<and>
     private_between (H_Option hub) src dest p)"

lemma same_sessions:
  assumes "same_setting hub hub'"
  shows "map_option profile (the_sender hub' s) = map_option profile (the_sender hub s)"
    "map_option profile (session hub' d) = map_option profile (session hub d)"
  using assms by (auto simp: same_setting_def the_sender_def split: option.split)

lemma same_cases:
  assumes "same_setting hub hub'" and "the_sender hub' s = Some src'" and "session hub' d = Some dest'"
  shows "\<exists>src dest. the_sender hub s = Some src \<and> session hub d = Some dest \<and> profile src' = profile src \<and> profile dest' = profile dest"
proof -
  have "map_option profile (the_sender hub s) = Some (profile src')" "map_option profile (session hub d) = Some (profile dest')"
    using same_sessions(1) [OF assms(1), of s] same_sessions(2) [OF assms(1), of d] assms(2,3) by simp_all
  then show ?thesis by auto
qed

lemma same_sym: "same_setting hub hub' \<Longrightarrow> same_setting hub' hub"
  by (simp add: same_setting_def)

lemma same_trans: "same_setting hub1 hub2 \<Longrightarrow> same_setting hub2 hub3 \<Longrightarrow> same_setting hub1 hub3"
  by (simp add: same_setting_def)

lemma lets_imp: "same_setting hub hub' \<Longrightarrow> lets env hub s d p \<Longrightarrow> lets env hub' s d p"
proof -
  assume a: "same_setting hub hub'" "lets env hub s d p"
  have "ApplyAccessListToForwardPacket (listed env) hub' src' dest' p"
    if "\<not> is_ra p" "the_sender hub' s = Some src'" "session hub' d = Some dest'" for src' dest'
  proof -
    note same = same_cases [OF a(1) that(2,3)]
    obtain src dest where sd: "the_sender hub s = Some src" "session hub d = Some dest" "profile src' = profile src"
      "profile dest' = profile dest" using same by blast
    then have "ApplyAccessListToForwardPacket (listed env) hub src dest p" using a(2) that(1) by (simp add: lets_def)
    then show ?thesis using forward_profile [OF sd(3,4), of hub' hub] a(1) by (simp add: same_setting_def)
  qed
  then show ?thesis unfolding lets_def by blast
qed

lemma lets_same: "same_setting hub hub' \<Longrightarrow> lets env hub' s d p = lets env hub s d p"
  using lets_imp same_sym by blast

lemma private_imp: "same_setting hub hub' \<Longrightarrow> private_pair hub' s d p \<Longrightarrow> private_pair hub s d p"
proof -
  assume a: "same_setting hub hub'" "private_pair hub' s d p"
  then obtain src' dest' where p: "the_sender hub' s = Some src'" "session hub' d = Some dest'"
    "private_between (H_Option hub') src' dest' p" by (auto simp: private_pair_def)
  obtain src dest where sd: "the_sender hub s = Some src" "session hub d = Some dest" "profile src' = profile src"
    "profile dest' = profile dest" using same_cases [OF a(1) p(1,2)] by blast
  have "private_between (H_Option hub) src dest p"
    using p(3) a(1) by (simp add: private_between_def same_setting_def profile_fields [OF sd(3)] profile_fields [OF sd(4)])
  then show ?thesis using sd by (auto simp: private_pair_def)
qed

lemma private_same: "same_setting hub hub' \<Longrightarrow> private_pair hub' s d p = private_pair hub s d p"
  using private_imp same_sym by blast

section \<open>The steps before a packet is handed over\<close>

lemma the_sender_key: "s = Some k \<Longrightarrow> the_sender hub s = session hub k"
  by (simp add: the_sender_def)

lemma learn_ips_silent:
  assumes "learn_ips env hub s p = Some (ok, hub')"
  shows "silent env hub hub'"
proof (cases s)
  case (Some k)
  show ?thesis
  proof (cases "O_NoIpTable (H_Option hub)")
    case False
    obtain src where src: "session hub k = Some src" using assms Some False by (auto simp: learn_ips_def bind_Some_conv)
    obtain ok1 hub1 where l6: "learn_ip6 env hub src p = (ok1, hub1)" by fastforce
    have "S_Key src \<in> set (keys hub)" using session_key [OF src] by (auto simp: keys_def)
    then have s1: "silent env hub hub1" by (rule learn_ip6_silent [OF l6])
    show ?thesis
    proof (cases ok1)
      case False
      then show ?thesis using assms Some src l6 s1 \<open>\<not> O_NoIpTable (H_Option hub)\<close> by (simp add: learn_ips_def then_step_def)
    next
      case True
      then obtain src1 where src1: "session hub1 k = Some src1" "learn_ip4 env hub1 src1 p = (ok, hub')"
        using assms Some src l6 \<open>\<not> O_NoIpTable (H_Option hub)\<close> by (auto simp: learn_ips_def then_step_def bind_Some_conv)
      have "S_Key src1 \<in> set (keys hub1)" using session_key [OF src1(1)] by (auto simp: keys_def)
      then have "silent env hub1 hub'" by (rule learn_ip4_silent [OF src1(2)])
      then show ?thesis using s1 silent_trans by blast
    qed
  qed (use assms Some in \<open>simp add: learn_ips_def\<close>)
qed (use assms in \<open>simp add: learn_ips_def\<close>)

lemma CheckBroadcastStorm_profile:
  "CheckBroadcastStorm g now rnd opt s p = (ok, s') \<Longrightarrow>
    profile s' = profile s \<and> PA_PacketQueue s' = PA_PacketQueue s \<and> S_Key s' = S_Key s"
  by (auto simp: CheckBroadcastStorm_def Let_def profile_def split: if_splits prod.splits)

lemma check_storm_silent:
  assumes "check_storm env hub s route p = Some (ok, hub')"
  shows "silent env hub hub'"
proof (cases "s = None \<or> route \<noteq> Flood")
  case True
  then show ?thesis using assms by (auto simp: check_storm_def split: option.splits)
next
  case False
  then obtain k where k: "s = Some k" "route = Flood" by auto
  obtain src where src: "session hub k = Some src" using assms k by (auto simp: check_storm_def bind_Some_conv)
  obtain ok1 src1 where c: "CheckBroadcastStorm (Params env) (Now env) (Rand_storm env) (H_Option hub) src p = (ok1, src1)"
    by fastforce
  have "hub' = put_session src1 hub" using assms k src c by (simp add: check_storm_def)
  then show ?thesis using CheckBroadcastStorm_profile [OF c] src session_key [OF src]
    by (auto intro!: silent_put [of hub src1 src])
qed

lemma find_destination_spec:
  assumes "find_destination hub s p = (route, hub')"
  shows "silent env hub hub' \<and> session hub' = session hub \<and>
    (hub_ok hub \<longrightarrow> route = (if BroadcastPacket p then Flood
      else case macs hub (dest_key hub p) of
          None \<Rightarrow> Flood
        | Some e \<Rightarrow> if Some (M_Session e) \<noteq> s then Unicast (M_Session e) else Own)) \<and>
    (\<forall>d. route = Unicast d \<longrightarrow> Some d \<noteq> s)"
proof (cases "BroadcastPacket p")
  case False
  obtain found hub1 where f: "search_mac hub (MacAddressDest p) (vlan_of hub p) = (found, hub1)" by fastforce
  have "hub' = hub1" "route = (case found of None \<Rightarrow> Flood | Some e \<Rightarrow> if Some (M_Session e) \<noteq> s then Unicast (M_Session e) else Own)"
    using assms False f by (auto simp: find_destination_def split: option.splits)
  then show ?thesis using search_mac_spec [OF f] search_mac_silent [OF f, of env] False
    by (auto simp: dest_key_def split: option.splits)
qed (use assms in \<open>simp add: find_destination_def\<close>)

section \<open>Handing over\<close>

lemma store_queue_lets:
  assumes "StorePacketToHubPa env hub d s data (Some p) fl False = Some hub'"
  shows "moves env (if lets env hub s d p then {d} else {}) hub hub'"
proof (cases "lets env hub s d p")
  case True
  then show ?thesis using store_queue_moves [OF assms] by simp
next
  case False
  then obtain src dest where sd: "the_sender hub s = Some src" "session hub d = Some dest"
    "\<not> ApplyAccessListToForwardPacket (listed env) hub src dest p" by (auto simp: lets_def)
  then obtain k where k: "s = Some k" "session hub k = Some src" by (auto simp: the_sender_def split: option.splits)
  have "hub' = hub" using assms sd k unfolding StorePacketToHubPa_def
    by (simp add: split: if_splits)
  then show ?thesis by simp
qed

lemma monitor_loop_moves:
  "monitor_loop env s p ds hub = Some hub' \<Longrightarrow> moves env {d \<in> set ds. lets env hub s d p} hub hub'"
proof (induction ds arbitrary: hub)
  case (Cons d ds)
  then obtain hub1 where h: "StorePacketToHubPa env hub d s (PacketData p) (Some p) False False = Some hub1"
    "monitor_loop env s p ds hub1 = Some hub'" by (auto simp: bind_Some_conv)
  show ?case
  proof (cases "hub_ok hub")
    case True
    let ?D = "{x \<in> set (d # ds). lets env hub s x p}"
    have "moves env ?D hub hub1" by (rule moves_mono [OF store_queue_lets [OF h(1)]]) auto
    moreover have "same_setting hub hub1" using moves_ok [OF \<open>moves env ?D hub hub1\<close> True] by simp
    then have "{d \<in> set ds. lets env hub1 s d p} \<subseteq> ?D" by (auto simp: lets_same)
    then have "moves env ?D hub1 hub'" using moves_mono Cons.IH [OF h(2)] by blast
    ultimately show ?thesis by (rule moves_trans)
  qed (simp add: moves_def step_def)
qed simp

lemma log_packet_sender:
  assumes "sender hub s = Some src" and "log_packet env hub src p = (ok, hub')"
  shows "silent env hub hub'"
proof (rule log_packet_silent [OF assms(2)])
  show "src = None \<or> (\<exists>k. src = session hub k)"
    using assms(1) by (cases s) (auto simp: sender_def intro: exI [of _ "the s"])
qed

lemma DeleteRA_fields:
  assumes "DeleteIPv6DefaultRouterInRA p = Some q"
  shows "TypeL3 q = TypeL3 p" "BroadcastPacket q = BroadcastPacket p" "is_ra q = is_ra p" "\<not> is_ra p \<Longrightarrow> q = p"
  using assms by (auto simp: DeleteIPv6DefaultRouterInRA_def is_ra_def bind_Some_conv Let_def split: if_splits)

lemma store_unicast_moves:
  assumes "store_unicast env hub s d p = Some hub'"
  shows "moves env (if lets env hub s d p \<and> \<not> private_pair hub s d p then {d} else {}) hub hub'"
proof (cases "hub_ok hub")
  case True
  obtain src dest where sd: "sender hub s = Some src" "session hub d = Some dest"
    using assms by (auto simp: store_unicast_def bind_Some_conv)
  obtain q where q: "(if no_default_router (H_Option hub) dest then DeleteIPv6DefaultRouterInRA p else Some p) = Some q"
    using assms sd by (auto simp: store_unicast_def bind_Some_conv)
  have qf: "TypeL3 q = TypeL3 p" "BroadcastPacket q = BroadcastPacket p" "is_ra q = is_ra p" "\<not> is_ra p \<Longrightarrow> q = p"
    using q DeleteRA_fields [of p q] by (auto split: if_splits)
  have lq: "lets env hub s d q = lets env hub s d p" using qf by (cases "is_ra p") (auto simp: lets_def)
  obtain ok hub1 where lg: "log_packet env hub src q = (ok, hub1)" by fastforce
  note l1 = log_packet_sender [OF sd(1) lg]
  have same: "same_setting hub hub1" using moves_ok [OF l1 True] by simp
  have pb: "private_between (H_Option hub) x dest q = private_between (H_Option hub) x dest p" for x
    by (simp add: private_between_def qf)
  have "hub' = hub \<or> hub' = hub1 \<or> (\<not> private_pair hub s d p \<and>
      StorePacketToHubPa env hub1 d s (PacketData q) (Some q) False False = Some hub')"
    using assms unfolding store_unicast_def sd(1,2) Option.bind_lunit q Let_def lg prod.case
    by (auto simp: pb private_pair_def sender_Some [OF sd(1), symmetric] sd(2) split: if_splits)
  then consider "hub' = hub" | "hub' = hub1" | "\<not> private_pair hub s d p"
    "StorePacketToHubPa env hub1 d s (PacketData q) (Some q) False False = Some hub'" by blast
  then show ?thesis
  proof cases
    case 1
    then show ?thesis by simp
  next
    case 2
    then show ?thesis using moves_mono [OF l1] by simp
  next
    case 3
    have "moves env (if lets env hub1 s d q then {d} else {}) hub1 hub'" by (rule store_queue_lets [OF 3(2)])
    then have "moves env (if lets env hub s d p \<and> \<not> private_pair hub s d p then {d} else {}) hub1 hub'"
      using 3(1) lets_same [OF same] lq by simp
    then show ?thesis using moves_trans moves_mono [OF l1] by blast
  qed
qed (simp add: moves_def step_def)

text \<open>The set of sessions that a flooded packet may reach.\<close>

definition flood_set :: "ENV \<Rightarrow> HUB \<Rightarrow> nat option \<Rightarrow> PKT \<Rightarrow> nat set" where
  "flood_set env hub s p = {d. Some d \<noteq> s \<and> lets env hub s d p \<and> \<not> private_pair hub s d p}"

lemma flood_set_same: "same_setting hub hub' \<Longrightarrow> flood_set env hub' s p = flood_set env hub s p"
  using lets_same private_same by (simp add: flood_set_def)

lemma flood_one_moves:
  assumes "flood_one env s p d hub = Some hub'"
  shows "moves env (flood_set env hub s p) hub hub'"
proof (cases "Some d = s")
  case True
  then show ?thesis using assms by (simp add: flood_one_def)
next
  case no_echo: False
  show ?thesis
  proof (cases "session hub d")
    case None
    then show ?thesis using assms no_echo by (auto simp: flood_one_def bind_Some_conv)
  next
    case (Some dest)
    note False = no_echo
    obtain src where sd: "sender hub s = Some src" "session hub d = Some dest"
      using assms False Some by (auto simp: flood_one_def bind_Some_conv)
    have "hub' = hub \<or> (d \<in> flood_set env hub s p \<and>
        (\<exists>data. StorePacketToHubPa env hub d s data (Some p) True True = Some hub'))"
      using assms False sd sender_Some [OF sd(1)] unfolding flood_one_def
      by (auto simp: flood_set_def lets_def private_pair_def bind_Some_conv split: if_splits)
    then show ?thesis using store_queue_moves moves_mono by (metis empty_subsetI insert_subset moves_refl)
  qed
qed

lemma flood_loop_moves:
  "flood_loop env s p ds hub = Some hub' \<Longrightarrow> moves env (flood_set env hub s p) hub hub'"
proof (induction ds arbitrary: hub)
  case (Cons d ds)
  then obtain hub1 where h: "flood_one env s p d hub = Some hub1" "flood_loop env s p ds hub1 = Some hub'"
    by (auto simp: bind_Some_conv)
  show ?case
  proof (cases "hub_ok hub")
    case True
    have m: "moves env (flood_set env hub s p) hub hub1" by (rule flood_one_moves [OF h(1)])
    moreover have "moves env (flood_set env hub s p) hub1 hub'"
      using Cons.IH [OF h(2)] flood_set_same moves_ok [OF m True] by metis
    ultimately show ?thesis by (rule moves_trans)
  qed (simp add: moves_def step_def)
qed simp

lemma store_flood_moves:
  assumes "store_flood env hub s p = Some hub'"
  shows "moves env (flood_set env hub s p) hub hub'"
proof (cases "hub_ok hub")
  case True
  obtain src where src: "sender hub s = Some src" using assms by (auto simp: store_flood_def bind_Some_conv)
  obtain ok hub1 where lg: "log_packet env hub src p = (ok, hub1)" by fastforce
  note l1 = log_packet_sender [OF src lg]
  have same: "same_setting hub hub1" using moves_ok [OF l1 True] by simp
  have "hub' = hub1 \<or> flood_loop env s p (H_SessionList hub1) hub1 = Some hub'"
    using assms src lg by (auto simp: store_flood_def split: if_splits)
  then have "moves env (flood_set env hub s p) hub1 hub'"
    using flood_loop_moves flood_set_same [OF same] by (metis moves_refl)
  then show ?thesis using moves_trans moves_mono [OF l1] by blast
qed (simp add: moves_def step_def)

section \<open>The whole way\<close>

text \<open>The address is known to be at another session.\<close>

definition elsewhere :: "ENV \<Rightarrow> HUB \<Rightarrow> nat \<Rightarrow> PKT \<Rightarrow> bool" where
  "elsewhere env hub d p \<longleftrightarrow> \<not> BroadcastPacket p \<and> dest_key hub p \<noteq> src_key hub p \<and>
     (\<exists>e. macs hub (dest_key hub p) = Some e \<and> \<not> mac_expired (Params env) (Now env) e \<and> M_Session e \<noteq> d)"

definition reach :: "ENV \<Rightarrow> HUB \<Rightarrow> nat option \<Rightarrow> PKT \<Rightarrow> nat set" where
  "reach env hub s p = {d. lets env hub s d p \<and>
     (d \<in> set (H_MonitorList hub) \<or> Some d \<noteq> s \<and> \<not> private_pair hub s d p \<and> \<not> elsewhere env hub d p)}"

text \<open>What the table of addresses may have learnt.\<close>

definition learnt :: "ENV \<Rightarrow> HUB \<Rightarrow> HUB \<Rightarrow> nat option \<Rightarrow> PKT \<Rightarrow> bool" where
  "learnt env hub hub' s p \<longleftrightarrow>
     (case s of
        None \<Rightarrow> macs hub' = macs hub
      | Some k \<Rightarrow> other_macs_kept env hub hub' (src_key hub p) \<and>
          (macs hub' (src_key hub p) = macs hub (src_key hub p) \<or>
           (\<exists>e. macs hub' (src_key hub p) = Some e \<and> M_Session e = k \<and> M_UpdatedTime e = Now env)))"

lemma learnt_same [simp]: "macs hub' = macs hub \<Longrightarrow> learnt env hub hub' s p"
  by (simp add: learnt_def split: option.split)

lemma learnt_cong: "macs hub1 = macs hub2 \<Longrightarrow> learnt env hub hub1 s p = learnt env hub hub2 s p"
  by (cases s) (simp_all add: learnt_def other_macs_kept_def)

lemma same_keys:
  assumes "same_setting hub hub'"
  shows "dest_key hub' p = dest_key hub p" "src_key hub' p = src_key hub p"
  using assms by (simp_all add: same_setting_def dest_key_def src_key_def vlan_of_def)

definition learning :: "ENV \<Rightarrow> HUB \<Rightarrow> nat option \<Rightarrow> PKT \<Rightarrow> (bool \<times> HUB) option" where
  "learning env hub s p = (case s of
     None \<Rightarrow> Some (True, hub)
   | Some k \<Rightarrow> do { src \<leftarrow> session hub k; Some (learn_mac env hub src p) })"

lemma learning_spec:
  assumes "learning env hub s p = Some (ok, hub')" and "hub_ok hub"
  shows "step (Params env) {} hub hub' \<and> same_setting hub hub' \<and> hub_ok hub' \<and> learnt env hub hub' s p"
proof (cases s)
  case None
  then show ?thesis using assms by (simp add: learning_def same_setting_def)
next
  case (Some k)
  then obtain src where src: "session hub k = Some src" "learn_mac env hub src p = (ok, hub')"
    using assms by (auto simp: learning_def bind_Some_conv)
  have "S_Key src = k" "S_Key src \<in> set (keys hub)" using session_key [OF src(1)] by (auto simp: keys_def)
  with learn_mac_spec [OF src(2)] assms(2) show ?thesis
    by (auto simp: step_def learnt_def Some split: if_splits)
qed

text \<open>After learning, a known owner of the destination address is still known.\<close>

lemma elsewhere_kept:
  assumes "learnt env hub hub' s p" and "elsewhere env hub d p" and "same_setting hub hub'"
  shows "\<exists>e. macs hub' (dest_key hub' p) = Some e \<and> M_Session e \<noteq> d"
proof -
  obtain e where e: "dest_key hub p \<noteq> src_key hub p" "macs hub (dest_key hub p) = Some e"
    "\<not> mac_expired (Params env) (Now env) e" "M_Session e \<noteq> d" using assms(2) by (auto simp: elsewhere_def)
  have "macs hub' = macs hub \<or> other_macs_kept env hub hub' (src_key hub p)"
    using assms(1) by (auto simp: learnt_def split: option.splits)
  then have "macs hub' (dest_key hub p) = Some e"
  proof
    assume "other_macs_kept env hub hub' (src_key hub p)"
    from this [unfolded other_macs_kept_def, rule_format, OF e(1)] e(2,3) show ?thesis by auto
  qed (use e in simp)
  then show ?thesis using e same_keys [OF assms(3)] by auto
qed

definition monitored :: "ENV \<Rightarrow> HUB \<Rightarrow> nat option \<Rightarrow> PKT \<Rightarrow> nat set" where
  "monitored env hub s p = {d \<in> set (H_MonitorList hub). lets env hub s d p}"

definition delivered :: "ENV \<Rightarrow> HUB \<Rightarrow> nat option \<Rightarrow> PKT \<Rightarrow> ROUTE \<Rightarrow> nat set" where
  "delivered env hub s p route = monitored env hub s p \<union> {d \<in> flood_set env hub s p. \<forall>e. route = Unicast e \<longrightarrow> d = e}"

lemma delivered_same: "same_setting hub hub' \<Longrightarrow> delivered env hub' s p = delivered env hub s p"
proof -
  assume a: "same_setting hub hub'"
  then have "H_MonitorList hub' = H_MonitorList hub" by (simp add: same_setting_def)
  then show ?thesis by (simp add: fun_eq_iff delivered_def monitored_def lets_same [OF a] flood_set_same [OF a])
qed

lemma deliver_moves:
  assumes "monitor_loop env s p (H_MonitorList hub) hub = Some hub1"
    and "(case route of Unicast d \<Rightarrow> store_unicast env hub1 s d p | _ \<Rightarrow> store_flood env hub1 s p) = Some hub'"
    and "\<And>d. route = Unicast d \<Longrightarrow> Some d \<noteq> s"
  shows "moves env (delivered env hub s p route) hub hub'"
proof (cases "hub_ok hub")
  case True
  have m: "moves env (monitored env hub s p) hub hub1"
    unfolding monitored_def by (rule monitor_loop_moves [OF assms(1)])
  have same: "same_setting hub hub1" using moves_ok [OF m True] by simp
  have "moves env (delivered env hub1 s p route) hub1 hub'"
  proof (cases "\<exists>d. route = Unicast d")
    case True
    then obtain d where d: "route = Unicast d" by blast
    have "store_unicast env hub1 s d p = Some hub'" using assms(2) d by simp
    then have "moves env (if lets env hub1 s d p \<and> \<not> private_pair hub1 s d p then {d} else {}) hub1 hub'"
      by (rule store_unicast_moves)
    moreover have "(if lets env hub1 s d p \<and> \<not> private_pair hub1 s d p then {d} else {}) \<subseteq> delivered env hub1 s p route"
      using assms(3) [OF d] d by (auto simp: delivered_def flood_set_def)
    ultimately show ?thesis by (rule moves_mono)
  next
    case False
    then have "store_flood env hub1 s p = Some hub'" using assms(2) by (cases route) auto
    from store_flood_moves [OF this] show ?thesis using False by (auto simp: delivered_def intro: moves_mono)
  qed
  then have "moves env (delivered env hub s p route) hub1 hub'" by (simp add: delivered_same [OF same])
  moreover have "moves env (delivered env hub s p route) hub hub1"
    using m by (rule moves_mono) (simp add: delivered_def)
  ultimately show ?thesis using moves_trans by blast
qed (simp add: moves_def step_def)

lemma forward_step:
  assumes f: "forward_packet env hub s p = Some hub'" and ok: "hub_ok hub"
  shows "step (Params env) (reach env hub s p) hub hub' \<and> learnt env hub hub' s p"
proof (cases "MacAddressSrc p = H_HubMacAddr hub \<and> s \<noteq> None")
  case True
  then show ?thesis using f by (simp add: forward_packet_def)
next
  case False
  have "learning env hub s p \<noteq> None"
  proof
    assume "learning env hub s p = None"
    then have "forward_packet env hub s p = None"
      unfolding forward_packet_def learning_def [symmetric] using False by simp
    then show False using f by simp
  qed
  then obtain ok1 hub1 where l: "learning env hub s p = Some (ok1, hub1)" by auto
  note l1 = learning_spec [OF l ok]
  have quiet: "step (Params env) (reach env hub s p) hub h \<and> learnt env hub h s p" if "silent env hub1 h" for h
  proof -
    have "step (Params env) {} hub h" using l1 that step_trans by (auto simp: moves_def)
    moreover have "macs h = macs hub1" using that l1 by (simp add: moves_def)
    ultimately show ?thesis using l1 step_mono learnt_cong by blast
  qed
  obtain route hub2 where r: "find_destination hub1 s p = (route, hub2)" by fastforce
  note r1 = find_destination_spec [OF r]
  have s2: "silent env hub1 hub2" using r1 by blast
  have rest: "hub' = hub1 \<or> hub' = hub2 \<or> route \<noteq> Own \<and>
      (\<exists>ok3 hub3. learn_ips env hub2 s p = Some (ok3, hub3) \<and> (hub' = hub3 \<or>
        (\<exists>ok4 hub4. check_storm env hub3 s route p = Some (ok4, hub4) \<and> (hub' = hub4 \<or>
          (\<exists>hub5. monitor_loop env s p (H_MonitorList hub4) hub4 = Some hub5 \<and>
            (case route of Unicast d \<Rightarrow> store_unicast env hub5 s d p | _ \<Rightarrow> store_flood env hub5 s p) = Some hub')))))"
    using f False unfolding forward_packet_def learning_def [symmetric] l Option.bind_lunit prod.case r Let_def
    by (auto simp: bind_Some_conv split: if_splits)
  show ?thesis
  proof (cases "hub' = hub1 \<or> hub' = hub2")
    case True
    then show ?thesis using quiet s2 by auto
  next
    case False
    then obtain ok3 hub3 where h3: "route \<noteq> Own" "learn_ips env hub2 s p = Some (ok3, hub3)" "hub' = hub3 \<or>
        (\<exists>ok4 hub4. check_storm env hub3 s route p = Some (ok4, hub4) \<and> (hub' = hub4 \<or>
          (\<exists>hub5. monitor_loop env s p (H_MonitorList hub4) hub4 = Some hub5 \<and>
            (case route of Unicast d \<Rightarrow> store_unicast env hub5 s d p | _ \<Rightarrow> store_flood env hub5 s p) = Some hub')))"
      using rest by blast
    have s3: "silent env hub1 hub3" using silent_trans [OF s2 learn_ips_silent [OF h3(2)]] .
    show ?thesis
    proof (cases "hub' = hub3")
      case True
      then show ?thesis using quiet s3 by auto
    next
      case False
      then obtain ok4 hub4 where h4: "check_storm env hub3 s route p = Some (ok4, hub4)" "hub' = hub4 \<or>
          (\<exists>hub5. monitor_loop env s p (H_MonitorList hub4) hub4 = Some hub5 \<and>
            (case route of Unicast d \<Rightarrow> store_unicast env hub5 s d p | _ \<Rightarrow> store_flood env hub5 s p) = Some hub')"
        using h3(3) by blast
      have s4: "silent env hub1 hub4" using silent_trans [OF s3 check_storm_silent [OF h4(1)]] .
      show ?thesis
      proof (cases "hub' = hub4")
        case True
        then show ?thesis using quiet s4 by auto
      next
        case False
        then obtain hub5 where h5: "monitor_loop env s p (H_MonitorList hub4) hub4 = Some hub5"
          "(case route of Unicast d \<Rightarrow> store_unicast env hub5 s d p | _ \<Rightarrow> store_flood env hub5 s p) = Some hub'"
          using h4(2) by blast
        have d: "moves env (delivered env hub4 s p route) hub4 hub'"
          by (rule deliver_moves [OF h5]) (use r1 in blast)
        have ok1: "hub_ok hub1" using l1 by simp
        have ok4: "hub_ok hub4" and m4: "macs hub4 = macs hub1" using moves_ok [OF s4 ok1] by simp_all
        have way: "route = (if BroadcastPacket p then Flood
            else case macs hub1 (dest_key hub1 p) of
                None \<Rightarrow> Flood
              | Some e \<Rightarrow> if Some (M_Session e) \<noteq> s then Unicast (M_Session e) else Own)"
          using r1 ok1 by blast
        have same: "same_setting hub hub4" using moves_ok [OF s4 ok1] l1 same_trans by blast
        have "delivered env hub s p route \<subseteq> reach env hub s p"
        proof
          fix d assume d: "d \<in> delivered env hub s p route"
          show "d \<in> reach env hub s p"
          proof (cases "d \<in> set (H_MonitorList hub) \<and> lets env hub s d p")
            case True
            then show ?thesis by (simp add: reach_def)
          next
            case False
            then have d: "d \<in> flood_set env hub s p" "\<forall>e. route = Unicast e \<longrightarrow> d = e"
              using d by (auto simp: delivered_def monitored_def)
            have "\<not> elsewhere env hub d p"
            proof
              assume e: "elsewhere env hub d p"
              then obtain x where x: "macs hub1 (dest_key hub1 p) = Some x" "M_Session x \<noteq> d"
                using elsewhere_kept l1 by blast
              have "\<not> BroadcastPacket p" using e by (simp add: elsewhere_def)
              then have "route = (if Some (M_Session x) \<noteq> s then Unicast (M_Session x) else Own)"
                using way x(1) by simp
              then show False using h3(1) d(2) x(2) by (auto split: if_splits)
            qed
            then show ?thesis using d(1) by (simp add: reach_def flood_set_def)
          qed
        qed
        then have d': "step (Params env) (reach env hub s p) hub4 hub'"
          using d delivered_same [OF same] step_mono by (auto simp: moves_def)
        have m': "macs hub' = macs hub1" using d ok4 m4 by (simp add: moves_def)
        have "step (Params env) (reach env hub s p) hub hub4" using quiet [OF s4] by blast
        then have "step (Params env) (reach env hub s p) hub hub'" using d' step_trans by blast
        moreover have "learnt env hub hub' s p" using l1 learnt_cong [OF m'] by simp
        ultimately show ?thesis by blast
      qed
    qed
  qed
qed

end
