(* ===== verification/HubPath.thy ===== *)
theory HubPath
  imports HubFlow
begin

text \<open>
  A packet from its session to the queues: the filters in front of the hub, the access list,
  loss and delay, and what \<open>StorePacket\<close> and \<open>HubPaPutPacket\<close> do as a whole. Then
  sessions that come and go: a new session does not disturb the hub, and when one is freed nothing
  in the hub refers to it any more.
\<close>

section \<open>The filters\<close>

lemma TrafficLimiter_profile:
  "StorePacketFilterByTrafficLimiter now s p = (ok, s') \<Longrightarrow>
    profile s' = profile s \<and> PA_PacketQueue s' = PA_PacketQueue s \<and> S_Key s' = S_Key s \<and>
    S_FirstTimeHttpRedirect s' = S_FirstTimeHttpRedirect s"
  by (auto simp: StorePacketFilterByTrafficLimiter_def Let_def profile_def split: if_splits)

lemma redirect_off: "profile (s\<lparr>S_FirstTimeHttpRedirect := False\<rparr>) = profile s"
  by (simp add: profile_def)

lemma first_http_profile:
  "first_http s p = (b, s') \<Longrightarrow> profile s' = profile s \<and> PA_PacketQueue s' = PA_PacketQueue s \<and> S_Key s' = S_Key s"
  unfolding first_http_def by (auto simp: redirect_off split: if_splits)

lemma Stored_profile:
  assumes "r = ApplyAccessListToStoredPacket lst hub s p"
  shows "profile (Stored_session r) = profile s \<and> PA_PacketQueue (Stored_session r) = PA_PacketQueue s \<and>
    S_Key (Stored_session r) = S_Key s"
proof (cases "filtered_by_option (H_Option hub) p")
  case True
  then show ?thesis by (simp add: assms ApplyAccessListToStoredPacket_def)
next
  case False
  have "Stored_session r = s \<or> (\<exists>b q. first_http s q = (b, Stored_session r))"
    using False unfolding assms ApplyAccessListToStoredPacket_def Let_def
    by (auto split: option.splits prod.splits if_splits)
  then show ?thesis using first_http_profile by auto
qed

lemma stored_scan_profile:
  assumes "profile s = profile s'"
  shows "stored_scan lst opt s p as = stored_scan lst opt s' p as"
  by (induction as) (simp_all add: masked_profile [OF assms refl])

text \<open>The decision of the first pass over the access list.\<close>

definition decided :: "ENV \<Rightarrow> HUB \<Rightarrow> SESSION \<Rightarrow> PKT \<Rightarrow> PKT \<Rightarrow> bool" where
  "decided env hub s p p' \<longleftrightarrow>
     \<not> policy_refuses (S_Policy s) p \<and> \<not> filtered_by_option (H_Option hub) p \<and>
     (case stored_scan (listed env) (H_Option hub) s p (items (H_AccessList hub)) of
        None \<Rightarrow> p' = p
      | Some a \<Rightarrow> \<not> A_Discard a \<and> p' = marked p a)"

lemma Stored_passes:
  assumes "Pass (ApplyAccessListToStoredPacket lst hub s p)"
  shows "\<not> filtered_by_option (H_Option hub) p \<and>
    (case stored_scan lst (H_Option hub) s p (items (H_AccessList hub)) of
        None \<Rightarrow> Stored_packet (ApplyAccessListToStoredPacket lst hub s p) = p
      | Some a \<Rightarrow> \<not> A_Discard a \<and> Stored_packet (ApplyAccessListToStoredPacket lst hub s p) = marked p a)"
  using assms by (auto simp: ApplyAccessListToStoredPacket_def marked_def Let_def split: option.splits prod.splits if_splits)

text \<open>No page of the hub's own can be sent to the client.\<close>

definition no_redirect :: "HUB \<Rightarrow> SESSION \<Rightarrow> bool" where
  "no_redirect hub s \<longleftrightarrow> \<not> S_FirstTimeHttpRedirect s \<and> list_all (\<lambda>a. A_RedirectUrl a = []) (items (H_AccessList hub))"

lemma no_redirect_None:
  assumes "no_redirect hub s"
  shows "Redirect (ApplyAccessListToStoredPacket lst hub s p) = None"
proof (cases "stored_scan lst (H_Option hub) s p (items (H_AccessList hub))")
  case None
  then show ?thesis using assms by (simp add: ApplyAccessListToStoredPacket_def no_redirect_def first_http_def)
next
  case (Some a)
  have "A_RedirectUrl a = []" using assms stored_scan_mem [OF Some] by (simp add: no_redirect_def list_all_iff)
  then show ?thesis using assms Some by (simp add: ApplyAccessListToStoredPacket_def no_redirect_def first_http_def)
qed

definition answered :: "HUB \<Rightarrow> nat \<Rightarrow> nat set" where
  "answered hub k = {d. d = k \<and> (\<forall>s. session hub k = Some s \<longrightarrow> \<not> no_redirect hub s)}"

lemma ForceRedirect_moves:
  assumes "ForceRedirectToUrl env hub k p url = Some hub'"
  shows "moves env {k} hub hub'"
  using assms store_queue_moves by (auto simp: ForceRedirectToUrl_def split: if_splits option.splits)

lemma policy_silent:
  "StorePacketFilterByPolicy env hub s p = (ok, hub') \<Longrightarrow> silent env hub hub' \<and> (ok \<longrightarrow> \<not> policy_refuses (S_Policy s) p)"
  using register_dhcp_silent by (auto simp: StorePacketFilterByPolicy_def split: if_splits)

lemma register_dhcp_redirect:
  "map_option S_FirstTimeHttpRedirect (session (register_dhcp env hub p) k) = map_option S_FirstTimeHttpRedirect (session hub k)"
proof -
  have nt: "map_option S_FirstTimeHttpRedirect (session (with_session j (note_ip4 ip) h) k) =
      map_option S_FirstTimeHttpRedirect (session h k)" for j ip h
    by (subst session_with) (auto simp: note_ip4_def option.map_comp comp_def)
  have same: "session (snd (search_mac h m v)) = session h" "session (snd (search_ip h ip)) = session h" for h m v ip
    using search_mac_spec [OF prod.collapse [symmetric]] search_ip_spec [OF prod.collapse [symmetric]] by blast+
  have ip: "session (update_ip h x e) = session h" for h x e by (simp add: update_ip_def)
  show ?thesis unfolding register_dhcp_def Let_def
    by (simp add: split_beta nt same ip split: option.split)
qed

lemma StorePacketFilter_spec:
  assumes f: "StorePacketFilter env hub k p = Some (ok, hub', p')" and hub: "hub_ok hub"
  shows "moves env (answered hub k) hub hub' \<and>
    (ok \<longrightarrow> (\<exists>s. session hub k = Some s \<and> decided env hub s p p'))"
proof -
  obtain s where s: "session hub k = Some s" using f by (auto simp: StorePacketFilter_def bind_Some_conv)
  obtain ok1 s1 where l: "StorePacketFilterByTrafficLimiter (Now env) s p = (ok1, s1)" by fastforce
  note l1 = TrafficLimiter_profile [OF l]
  define hub1 where "hub1 = put_session s1 hub"
  have m1: "silent env hub hub1" unfolding hub1_def using l1 s session_key [OF s] by (intro silent_put [of _ _ s]) auto
  have s1: "session hub1 k = Some s1" using s l1 session_key [OF s] by (simp add: hub1_def session_put)
  obtain ok2 hub2 where po: "StorePacketFilterByPolicy env hub1 s1 p = (ok2, hub2)" by fastforce
  have m2: "silent env hub hub2" using m1 policy_silent [OF po] silent_trans by blast
  note f' = f [unfolded StorePacketFilter_def s Option.bind_lunit l prod.case hub1_def [symmetric] Let_def po]
  show ?thesis
  proof (cases "ok1 \<and> ok2")
    case False
    then have "\<not> ok \<and> (hub' = hub1 \<or> hub' = hub2)" using f' by (auto split: if_splits)
    then show ?thesis using m1 m2 moves_mono by blast
  next
    case True
    note True1 = eqTrueI [OF conjunct1 [OF True]] and True2 = eqTrueI [OF conjunct2 [OF True]]
    obtain s2 where s2: "session hub2 k = Some s2" using f' True by (auto simp: bind_Some_conv)
    define r where "r = ApplyAccessListToStoredPacket (listed env) hub2 s2 p"
    define hub3 where "hub3 = put_session (Stored_session r) hub2"
    note r1 = Stored_profile [OF r_def]
    have m3: "silent env hub hub3"
      using m2 silent_put [of hub2 "Stored_session r" s2 env] r1 s2 session_key [OF s2] silent_trans
      by (auto simp: hub3_def)
    have h': "(case Redirect r of None \<Rightarrow> Some hub3 | Some url \<Rightarrow> ForceRedirectToUrl env hub3 k p url) = Some hub'"
      "ok = Pass r" "p' = Stored_packet r"
      using f' [unfolded True1 True2 s2 not_True_eq_False if_False Option.bind_lunit, folded r_def hub3_def]
      by (auto simp: bind_Some_conv)
    have same: "same_setting hub hub2" using moves_ok [OF m2 hub] by simp
    have pr: "profile s2 = profile s" using same_sessions(2) [OF same, of k] s s2 by simp
    have opt: "H_Option hub2 = H_Option hub" "H_AccessList hub2 = H_AccessList hub" using same by (simp_all add: same_setting_def)
    have "map_option S_FirstTimeHttpRedirect (session hub2 k) = map_option S_FirstTimeHttpRedirect (session hub1 k)"
      using po True by (auto simp: StorePacketFilterByPolicy_def register_dhcp_redirect split: if_splits)
    then have http: "S_FirstTimeHttpRedirect s2 = S_FirstTimeHttpRedirect s" using s1 s2 l1 by simp
    have "moves env (answered hub k) hub hub'"
    proof (cases "no_redirect hub s")
      case True
      then have "no_redirect hub2 s2" using http opt by (simp add: no_redirect_def)
      then have "hub' = hub3" using h'(1) no_redirect_None by (simp add: r_def)
      then show ?thesis using m3 moves_mono by blast
    next
      case False
      then have "answered hub k = {k}" using s by (auto simp: answered_def)
      moreover have "moves env {k} hub3 hub'" using h'(1) ForceRedirect_moves by (auto split: option.splits)
      moreover have "moves env {k} hub hub3" using m3 moves_mono by blast
      ultimately show ?thesis using moves_trans by metis
    qed
    moreover have "decided env hub s p p'" if ok
    proof -
      have "Pass (ApplyAccessListToStoredPacket (listed env) hub2 s2 p)" using that h' by (simp add: r_def)
      note st = Stored_passes [OF this, folded r_def, unfolded opt stored_scan_profile [OF pr]]
      have "S_Policy s1 = S_Policy s" using profile_fields(2) l1 by blast
      then have "\<not> policy_refuses (S_Policy s) p" using policy_silent [OF po] True by simp
      then show ?thesis using st h'(3) by (simp add: decided_def)
    qed
    ultimately show ?thesis using s by blast
  qed
qed

section \<open>Loss and delay\<close>

lemma impair_silent:
  assumes "impair env hub s p = Some (now, hub')"
  shows "silent env hub hub' \<and> (now \<longrightarrow> hub' = hub)"
proof -
  have "now \<and> hub' = hub \<or> \<not> now \<and> (hub' = hub \<or>
      (\<exists>k q. hub' = with_session k (\<lambda>s. s\<lparr>S_DelayedPacketList := S_DelayedPacketList s @ [q]\<rparr>) hub))"
    using assms unfolding impair_def Let_def by (auto simp: bind_Some_conv split: if_splits)
  moreover have "silent env hub (with_session k (\<lambda>s. s\<lparr>S_DelayedPacketList := S_DelayedPacketList s @ [q]\<rparr>) hub)" for k q
    by (rule silent_with) (simp_all add: profile_def)
  ultimately show ?thesis by auto
qed

section \<open>Storing a packet\<close>

definition passes :: "ENV \<Rightarrow> HUB \<Rightarrow> nat option \<Rightarrow> PKT \<Rightarrow> PKT \<Rightarrow> bool" where
  "passes env hub s p p' \<longleftrightarrow>
     (case s of
        None \<Rightarrow> p' = p
      | Some k \<Rightarrow> if DelayedForwardTick p = 0 then \<exists>src. session hub k = Some src \<and> decided env hub src p p' else p' = p)"

text \<open>The sessions whose queues may grow.\<close>

definition reached :: "ENV \<Rightarrow> HUB \<Rightarrow> nat option \<Rightarrow> PKT \<Rightarrow> nat set" where
  "reached env hub s p = {d. \<exists>p'. passes env hub s p p' \<and> d \<in> reach env hub s p'} \<union>
     (case s of None \<Rightarrow> {} | Some k \<Rightarrow> answered hub k)"

lemma note_sender_silent: "silent env hub (with_session k (note_sender env opt p) hub)"
  by (rule silent_with) (simp_all add: note_sender_def profile_def Let_def)

lemma note_sender_session:
  "session (with_session k (note_sender env opt p) hub) k = map_option (note_sender env opt p) (session hub k)"
  by (subst session_with) (simp_all add: note_sender_def Let_def)

lemma note_sender_fields:
  "profile (note_sender env opt p s) = profile s" "S_FirstTimeHttpRedirect (note_sender env opt p s) = S_FirstTimeHttpRedirect s"
  by (simp_all add: note_sender_def profile_def Let_def)

lemma decided_marked: "decided env hub s p p' \<Longrightarrow> p' = p \<or> (\<exists>a. p' = marked p a)"
  by (auto simp: decided_def split: option.splits)

lemma learnt_marked: "p' = p \<or> (\<exists>a. p' = marked p a) \<Longrightarrow> learnt env hub hub' s p' = learnt env hub hub' s p"
proof -
  assume "p' = p \<or> (\<exists>a. p' = marked p a)"
  moreover have "VlanId (marked p a) = VlanId p" for a by (simp add: marked_def)
  ultimately have "src_key hub p' = src_key hub p" by (auto simp: src_key_def vlan_of_def)
  then show ?thesis by (cases s) (simp_all add: learnt_def)
qed

lemma reach_same:
  assumes "same_setting hub hub'" and "macs hub' = macs hub"
  shows "reach env hub' s p = reach env hub s p"
  using assms(1) by (simp add: reach_def lets_same [OF assms(1)] private_same [OF assms(1)] elsewhere_def assms(2)
      same_keys [OF assms(1)] same_setting_def)

lemma learnt_from: "macs hub1 = macs hub \<Longrightarrow> same_setting hub hub1 \<Longrightarrow> learnt env hub1 hub' s p = learnt env hub hub' s p"
  using same_keys(2) [of hub hub1 p] by (cases s) (simp_all add: learnt_def other_macs_kept_def)

text \<open>Either the filters, loss or delay keep the packet, or it goes the rest of its way.\<close>

definition front_set :: "HUB \<Rightarrow> nat option \<Rightarrow> nat set" where
  "front_set hub s = (case s of None \<Rightarrow> {} | Some k \<Rightarrow> answered hub k)"

lemma StorePacket_cases:
  assumes st: "StorePacket env hub s p = Some hub'" and hub: "hub_ok hub"
  shows "moves env (front_set hub s) hub hub' \<or>
    (\<exists>hub1 p1. moves env (front_set hub s) hub hub1 \<and> passes env hub s p p1 \<and> forward_packet env hub1 s p1 = Some hub')"
proof -
  obtain src where src: "sender hub s = Some src" using st by (auto simp: StorePacket_def bind_Some_conv)
  show ?thesis
  proof (cases "\<exists>x \<in> set_option src. PA_MonitorPort x")
    case True
    then have "hub' = hub" using st src by (simp add: StorePacket_def)
    then show ?thesis by simp
  next
    case nomon: False
    define front where "front = (case s of
        None \<Rightarrow> Some (True, hub, p)
      | Some k \<Rightarrow> let hub = with_session k (note_sender env (H_Option hub) p) hub
          in if DelayedForwardTick p = 0 then StorePacketFilter env hub k p else Some (True, hub, p))"
    note st' = st [unfolded StorePacket_def src Option.bind_lunit front_def [symmetric]]
    obtain ok1 hub1 p1 where fr: "front = Some (ok1, hub1, p1)" using st' nomon by (auto simp: bind_Some_conv)
    have f: "moves env (front_set hub s) hub hub1 \<and> (ok1 \<longrightarrow> passes env hub s p p1)"
    proof (cases s)
      case None
      then show ?thesis using fr by (simp add: front_def passes_def)
    next
      case (Some k)
      let ?h = "with_session k (note_sender env (H_Option hub) p) hub"
      have m: "silent env hub ?h" by (rule note_sender_silent)
      have same: "same_setting hub ?h" and ok: "hub_ok ?h" using moves_ok [OF m hub] by simp_all
      show ?thesis
      proof (cases "DelayedForwardTick p = 0")
        case False
        then show ?thesis using fr Some moves_mono [OF m] by (auto simp: front_def passes_def Let_def)
      next
        case True
        have "StorePacketFilter env ?h k p = Some (ok1, hub1, p1)" using fr Some True by (simp add: front_def Let_def)
        note fi = StorePacketFilter_spec [OF this ok]
        have opt: "H_Option ?h = H_Option hub" "H_AccessList ?h = H_AccessList hub" using same by (simp_all add: same_setting_def)
        have "answered ?h k = answered hub k"
          by (auto simp: answered_def no_redirect_def note_sender_session note_sender_fields opt)
        then have "moves env (answered hub k) hub hub1" using fi moves_mono [OF m] moves_trans by (metis empty_subsetI)
        moreover have "\<exists>x. session hub k = Some x \<and> decided env hub x p p1" if ok1
        proof -
          have "\<exists>y. session ?h k = Some y \<and> decided env ?h y p p1" using fi that by blast
          then obtain y where y: "session ?h k = Some y" "decided env ?h y p p1" by blast
          then obtain x where x: "session hub k = Some x" "y = note_sender env (H_Option hub) p x"
            by (auto simp: note_sender_session)
          have pr: "profile y = profile x" using x note_sender_fields by simp
          have "decided env hub x p p1"
            using y(2) unfolding decided_def opt profile_fields(2) [OF pr] stored_scan_profile [OF pr] .
          then show ?thesis using x by blast
        qed
        ultimately show ?thesis using Some True by (simp add: passes_def front_set_def)
      qed
    qed
    have "hub' = hub1 \<or> ok1 \<and> (\<exists>now hub2. impair env hub1 s p1 = Some (now, hub2) \<and>
        (hub' = hub2 \<or> now \<and> forward_packet env hub2 s p1 = Some hub'))"
      using st' nomon fr by (auto simp: bind_Some_conv split: if_splits)
    then consider "hub' = hub1" | now hub2 where "ok1" "impair env hub1 s p1 = Some (now, hub2)"
      "hub' = hub2 \<or> now \<and> forward_packet env hub2 s p1 = Some hub'" by blast
    then show ?thesis
    proof cases
      case 1
      then show ?thesis using f by blast
    next
      case (2 now hub2)
      note im = impair_silent [OF 2(2)]
      have m2: "moves env (front_set hub s) hub hub2" using f im moves_trans moves_mono by (metis empty_subsetI)
      then show ?thesis using 2(1,3) f by blast
    qed
  qed
qed

lemma passes_marked: "passes env hub s p p' \<Longrightarrow> p' = p \<or> (\<exists>a. p' = marked p a)"
  by (auto simp: passes_def dest: decided_marked split: option.splits if_splits)

lemma StorePacket_spec:
  assumes st: "StorePacket env hub s p = Some hub'" and hub: "hub_ok hub"
  shows "step (Params env) (reached env hub s p) hub hub' \<and> learnt env hub hub' s p"
  using StorePacket_cases [OF st hub]
proof
  assume "moves env (front_set hub s) hub hub'"
  then show ?thesis using hub step_mono by (auto simp: moves_def reached_def front_set_def)
next
  assume "\<exists>hub1 p1. moves env (front_set hub s) hub hub1 \<and> passes env hub s p p1 \<and> forward_packet env hub1 s p1 = Some hub'"
  then obtain hub1 p1 where h: "moves env (front_set hub s) hub hub1" "passes env hub s p p1"
    "forward_packet env hub1 s p1 = Some hub'" by blast
  have h1: "hub_ok hub1" "same_setting hub hub1" "macs hub1 = macs hub" using moves_ok [OF h(1) hub] by simp_all
  note fs = forward_step [OF h(3) h1(1), unfolded reach_same [OF h1(2,3)] learnt_from [OF h1(3,2)]
      learnt_marked [OF passes_marked [OF h(2)]]]
  have "reach env hub s p1 \<subseteq> reached env hub s p" using h(2) by (auto simp: reached_def)
  then have "step (Params env) (reached env hub s p) hub1 hub'" using fs step_mono by blast
  moreover have "step (Params env) (reached env hub s p) hub hub1"
    using h(1) step_mono by (auto simp: moves_def reached_def front_set_def)
  ultimately show ?thesis using fs step_trans by blast
qed

section \<open>Who does not get a packet\<close>

lemma not_reached:
  assumes "StorePacket env hub s p = Some hub'" and "hub_ok hub" and "d \<notin> reached env hub s p"
  shows "queue hub' d = queue hub d"
proof -
  have "appended (reached env hub s p) hub hub'" using StorePacket_spec [OF assms(1,2)] assms(2) by (simp add: step_def)
  then show ?thesis using assms(3) by (auto simp: appended_def dest: spec [of _ d])
qed

text \<open>The first entry of the whole list that masks a packet refuses it for the destination.\<close>

lemma refused_not_reached:
  assumes "session hub k = Some src" and "session hub d = Some dest" and "d \<noteq> k"
    and "DelayedForwardTick p = 0" and "\<not> AccessChecked p" and "\<not> is_ra p"
    and no: "\<not> allows (first_match (listed env) (H_Option hub) src dest p (items (H_AccessList hub)))"
  shows "d \<notin> reached env hub (Some k) p"
proof
  assume "d \<in> reached env hub (Some k) p"
  then obtain p' where p': "passes env hub (Some k) p p'" "d \<in> reach env hub (Some k) p'"
    using assms(3) by (auto simp: reached_def answered_def)
  have dec: "decided env hub src p p'" using p'(1) assms(1,4) by (simp add: passes_def)
  have l: "lets env hub (Some k) d p'" using p'(2) by (simp add: reach_def)
  show False
  proof (cases "stored_scan (listed env) (H_Option hub) src p (items (H_AccessList hub))")
    case None
    then have "p' = p" using dec by (simp add: decided_def)
    then have "ApplyAccessListToForwardPacket (listed env) hub src dest p"
      using l assms(1,2,6) by (simp add: lets_def the_sender_def)
    then show False using no assms(5) stored_scan_None [OF None, of dest]
      by (simp add: ApplyAccessListToForwardPacket_def allows_def split: option.splits)
  next
    case (Some a)
    then have "\<not> A_Discard a" using dec by (simp add: decided_def)
    then show False using no stored_scan_Some [OF Some, of dest] by (simp add: allows_def)
  qed
qed

lemma private_marked: "p' = p \<or> (\<exists>a. p' = marked p a) \<Longrightarrow> private_pair hub s d p' = private_pair hub s d p"
proof -
  assume "p' = p \<or> (\<exists>a. p' = marked p a)"
  moreover have "BroadcastPacket (marked p a) = BroadcastPacket p" for a by (simp add: marked_def)
  ultimately show ?thesis by (auto simp: private_pair_def private_between_def)
qed

lemma elsewhere_marked: "p' = p \<or> (\<exists>a. p' = marked p a) \<Longrightarrow> elsewhere env hub d p' = elsewhere env hub d p"
proof -
  assume "p' = p \<or> (\<exists>a. p' = marked p a)"
  moreover have "BroadcastPacket (marked p a) = BroadcastPacket p" "VlanId (marked p a) = VlanId p" for a
    by (simp_all add: marked_def)
  ultimately show ?thesis by (auto simp: elsewhere_def dest_key_def src_key_def vlan_of_def)
qed

lemma kept_apart_not_reached:
  assumes "private_pair hub s d p \<or> elsewhere env hub d p" and "Some d \<noteq> s" and "d \<notin> set (H_MonitorList hub)"
  shows "d \<notin> reached env hub s p"
proof
  assume "d \<in> reached env hub s p"
  then obtain p' where p': "passes env hub s p p'" "d \<in> reach env hub s p'"
    using assms(2) by (auto simp: reached_def answered_def split: option.splits)
  then show False using assms private_marked [OF passes_marked [OF p'(1)], of hub s d]
      elsewhere_marked [OF passes_marked [OF p'(1)], of env hub d] by (auto simp: reach_def)
qed

text \<open>A sender without a page of the hub's own to get never gets anything back.\<close>

lemma sender_not_reached:
  assumes "session hub k = Some src" and "no_redirect hub src" and "k \<notin> set (H_MonitorList hub)"
  shows "k \<notin> reached env hub (Some k) p"
  using assms by (auto simp: reached_def reach_def answered_def)

section \<open>Addresses that belong to another session\<close>

definition protected :: "ENV \<Rightarrow> HUB \<Rightarrow> SESSION \<Rightarrow> PKT \<Rightarrow> bool" where
  "protected env hub s p \<longleftrightarrow>
     (P_CheckMac (S_Policy s) \<or> S_BridgeMode s \<and> \<not> O_DisableCheckMacOnLocalBridge (H_Option hub)) \<and>
     MacAddressSrc p \<noteq> H_HubMacAddr hub \<and> \<not> DLinkStp2 (MacAddressSrc p) \<and>
     \<not> (O_FixForDLinkBPDU (H_Option hub) \<and> DLinkStp (MacAddressSrc p)) \<and>
     (\<exists>e. macs hub (src_key hub p) = Some e \<and> M_Session e \<noteq> S_Key s \<and>
       M_UpdatedTime e + MAC_TABLE_EXCLUSIVE_TIME \<ge> Now env)"

lemma learn_mac_protected:
  assumes "hub_ok hub" and "protected env hub s p" and "learn_mac env hub s p = (ok, hub')"
  shows "\<not> ok \<and> silent env hub hub'"
proof -
  obtain found hub1 where f: "search_mac hub (MacAddressSrc p) (vlan_of hub p) = (found, hub1)" by fastforce
  obtain e where e: "macs hub (src_key hub p) = Some e" "M_Session e \<noteq> S_Key s"
    "M_UpdatedTime e + MAC_TABLE_EXCLUSIVE_TIME \<ge> Now env" using assms(2) by (auto simp: protected_def)
  have "found = Some e" using search_mac_spec [OF f] assms(1) e(1) by (simp add: src_key_def)
  moreover have "H_HubMacAddr hub1 = H_HubMacAddr hub"
    using f by (auto simp: search_mac_def Let_def split: prod.splits)
  ultimately have "(ok, hub') = (False, hub1)"
    using assms(2,3) f e(2,3) by (auto simp: learn_mac_def Let_def protected_def split: if_splits)
  then show ?thesis using search_mac_silent [OF f] by simp
qed

lemma forward_protected:
  assumes ok: "hub_ok hub" and s: "session hub k = Some s" and pr: "protected env hub s p"
    and fw: "forward_packet env hub (Some k) p = Some hub'"
  shows "silent env hub hub'"
proof (cases "MacAddressSrc p = H_HubMacAddr hub")
  case True
  then show ?thesis using fw by (simp add: forward_packet_def)
next
  case False
  obtain ok1 hub1 where l: "learn_mac env hub s p = (ok1, hub1)" by fastforce
  note l1 = learn_mac_protected [OF ok pr l]
  have "hub' = hub1" using fw False s l l1 by (simp add: forward_packet_def)
  then show ?thesis using l1 by simp
qed

lemma protected_same:
  assumes same: "same_setting hub hub1" and m: "macs hub1 = macs hub" and s: "session hub k = Some s"
    and mark: "p1 = p \<or> (\<exists>a. p1 = marked p a)" and pr: "protected env hub s p"
  shows "\<exists>s1. session hub1 k = Some s1 \<and> protected env hub1 s1 p1"
proof -
  have "map_option profile (session hub1 k) = Some (profile s)" using same s by (simp add: same_setting_def)
  then obtain s1 where s1: "session hub1 k = Some s1" "profile s1 = profile s" by auto
  have bm: "S_BridgeMode s1 = S_BridgeMode s" using arg_cong [OF s1(2), of S_BridgeMode] by (simp add: profile_def)
  have "VlanId (marked p a) = VlanId p" for a by (simp add: marked_def)
  then have "src_key hub1 p1 = src_key hub p" "MacAddressSrc p1 = MacAddressSrc p"
    using same mark by (auto simp: src_key_def vlan_of_def same_setting_def)
  moreover have "H_Option hub1 = H_Option hub" "H_HubMacAddr hub1 = H_HubMacAddr hub" using same by (simp_all add: same_setting_def)
  ultimately have "protected env hub1 s1 p1"
    using pr by (simp add: protected_def m bm profile_fields(1,2) [OF s1(2)])
  then show ?thesis using s1(1) by blast
qed

lemma protected_stays:
  assumes ok: "hub_ok hub" and s: "session hub k = Some s" and pr: "protected env hub s p"
    and st: "StorePacket env hub (Some k) p = Some hub'"
  shows "moves env (answered hub k) hub hub'"
  using StorePacket_cases [OF st ok]
proof
  assume "\<exists>hub1 p1. moves env (front_set hub (Some k)) hub hub1 \<and> passes env hub (Some k) p p1 \<and>
    forward_packet env hub1 (Some k) p1 = Some hub'"
  then obtain hub1 p1 where h: "moves env (front_set hub (Some k)) hub hub1" "passes env hub (Some k) p p1"
    "forward_packet env hub1 (Some k) p1 = Some hub'" by blast
  have h1: "hub_ok hub1" "same_setting hub hub1" "macs hub1 = macs hub" using moves_ok [OF h(1) ok] by simp_all
  obtain s1 where "session hub1 k = Some s1" "protected env hub1 s1 p1"
    using protected_same [OF h1(2,3) s passes_marked [OF h(2)] pr] by blast
  then have "silent env hub1 hub'" using forward_protected [OF h1(1) _ _ h(3)] by blast
  then show ?thesis using h(1) moves_trans moves_mono by (metis empty_subsetI front_set_def option.case(2))
qed (simp add: front_set_def)

end
