(* ===== verification/HubLife.thy ===== *)
theory HubLife
  imports HubPath
begin

text \<open>
  The life of a hub: sessions that come and go, frames that they hand in and fetch. Every
  state that a hub reaches keeps the invariants, and nothing of a session stays behind.
\<close>

section \<open>Sessions that come and go\<close>

text \<open>
  The life of a session for the hub: \<open>NewServerSessionEx\<close> enters it in the list, \<open>SessionMain\<close>
  calls \<open>HubPaInit\<close>, and, when its loop ends, \<open>DelSession\<close> and \<open>HubPaFree\<close>
  (src/src/Cedar/Session.c). Here all of one side happens with nothing in between; the interleaving
  with other sessions is that of \<open>hub_event\<close> below.
\<close>

definition session_starts ::
    "(u8 list \<Rightarrow> u8 list) \<Rightarrow> u64 \<Rightarrow> u64 \<Rightarrow> HUB \<Rightarrow> SESSION \<Rightarrow> cstr \<Rightarrow> cstr \<Rightarrow> bool \<Rightarrow> HUB" where
  "session_starts sha1 rnd1 rnd2 hub s username groupname monitor_port =
     HubPaInit sha1 rnd1 rnd2 (AddSession hub (S_Key s)) s username groupname monitor_port"

definition session_ends :: "HUB \<Rightarrow> nat \<Rightarrow> HUB option" where
  "session_ends hub k = map_option (HubPaFree (DelSession hub k)) (session hub k)"

text \<open>The list of monitors holds exactly the sessions that are one.\<close>

definition monitors_ok :: "HUB \<Rightarrow> bool" where
  "monitors_ok hub \<longleftrightarrow> distinct (H_MonitorList hub) \<and>
     (\<forall>k. k \<in> set (H_MonitorList hub) \<longleftrightarrow> (\<exists>s. session hub k = Some s \<and> PA_MonitorPort s))"

lemma monitors_same:
  assumes "same_setting hub hub'" and "monitors_ok hub"
  shows "monitors_ok hub'"
proof -
  have "(\<exists>s. session hub' k = Some s \<and> PA_MonitorPort s) = (\<exists>s. session hub k = Some s \<and> PA_MonitorPort s)" for k
  proof -
    have p: "map_option profile (session hub' k) = map_option profile (session hub k)"
      using assms(1) by (simp add: same_setting_def)
    show ?thesis
    proof (cases "session hub k")
      case None
      then show ?thesis using p by simp
    next
      case (Some s)
      then obtain s' where s': "session hub' k = Some s'" "profile s' = profile s" using p by auto
      then show ?thesis using Some profile_fields(3) [OF s'(2)] by simp
    qed
  qed
  then show ?thesis using assms by (simp add: monitors_ok_def same_setting_def)
qed

lemma session_attach:
  "S_Key s \<notin> set (keys hub) \<Longrightarrow> session (attach_adapter hub s) j = (if j = S_Key s then Some s else session hub j)"
proof -
  assume a: "S_Key s \<notin> set (keys hub)"
  have "find P (xs @ [x]) = (case find P xs of Some y \<Rightarrow> Some y | None \<Rightarrow> if P x then Some x else None)"
    for P and x :: SESSION and xs by (induction xs) auto
  moreover have "session hub (S_Key s) = None" using a session_exists by blast
  ultimately show ?thesis by (auto simp: session_def attach_adapter_def split: option.split)
qed

lemma find_others:
  "find (\<lambda>s. S_Key s = j) (filter (\<lambda>s. S_Key s \<noteq> k) xs) = (if j = k then None else find (\<lambda>s. S_Key s = j) xs)"
  for xs :: "SESSION list"
  by (induction xs) auto

text \<open>The lists themselves; nothing else of the hub changes.\<close>

lemma session_lists [simp]:
  "session (AddSession hub k) = session hub" "session (DelSession hub k) = session hub"
  "session (StopAllSession hub) = session hub" "session (join_monitors hub s) = session hub"
  "session (leave_monitors hub s) = session hub" "session (erase_entries hub s) = session hub"
  by (simp_all add: fun_eq_iff session_def AddSession_def DelSession_def StopAllSession_def join_monitors_def
      leave_monitors_def erase_entries_def Let_def)

lemma total_flooded_append [simp]: "total_flooded (xs @ ys) = total_flooded xs + total_flooded ys"
  by (induction xs) simp_all

lemma total_flooded_del:
  assumes "distinct (map S_Key ss)" and "find (\<lambda>s. S_Key s = k) ss = Some s"
  shows "total_flooded (filter (\<lambda>s. S_Key s \<noteq> k) ss) = total_flooded ss - flooded (PA_PacketQueue s)"
  using assms
proof (induction ss)
  case (Cons x xs)
  show ?case
  proof (cases "S_Key x = k")
    case True
    then have "\<forall>y \<in> set xs. S_Key y \<noteq> k" using Cons.prems(1) by (auto simp: image_iff)
    then show ?thesis using True Cons.prems(2) by simp
  next
    case False
    then show ?thesis using Cons by simp
  qed
qed simp

lemma release_queue_size: "release_queue bs hub = hub\<lparr>H_CurrentTcpQueueSize := H_CurrentTcpQueueSize hub - flooded bs\<rparr>"
  by (induction bs arbitrary: hub) (simp_all add: flooded_def CedarAddCurrentTcpQueueSize_def)

text \<open>Each step on its own: a fresh adapter has an empty queue, and is one more that is known.\<close>

lemma new_adapter_fields [simp]:
  "S_Key (new_adapter sha1 rnd1 rnd2 u g m s) = S_Key s" "PA_PacketQueue (new_adapter sha1 rnd1 rnd2 u g m s) = []"
  "PA_MonitorPort (new_adapter sha1 rnd1 rnd2 u g m s) = m"
  by (simp_all add: new_adapter_def Let_def)

lemma list_fields:
  "keys (AddSession hub k) = keys hub" "keys (DelSession hub k) = keys hub" "keys (StopAllSession hub) = keys hub"
  "keys (join_monitors hub s) = keys hub" "keys (leave_monitors hub s) = keys hub"
  "keys (attach_adapter hub s) = keys hub @ [S_Key s]"
  by (simp_all add: keys_def AddSession_def DelSession_def StopAllSession_def join_monitors_def leave_monitors_def
      attach_adapter_def)

lemmas list_defs = AddSession_def DelSession_def StopAllSession_def join_monitors_def leave_monitors_def attach_adapter_def

text \<open>What the lists do not touch.\<close>

definition lists_only :: "HUB \<Rightarrow> HUB \<Rightarrow> bool" where
  "lists_only hub hub' \<longleftrightarrow> H_MacHashTable hub' = H_MacHashTable hub \<and> H_IpTable hub' = H_IpTable hub \<and>
     H_AccessList hub' = H_AccessList hub \<and> balance hub' = balance hub \<and> queue hub' = queue hub"

lemma lists_only_trans: "lists_only hub hub1 \<Longrightarrow> lists_only hub1 hub2 \<Longrightarrow> lists_only hub hub2"
  by (simp add: lists_only_def)

lemma lists_only_within: "lists_only hub hub' \<Longrightarrow> within g hub \<Longrightarrow> within g hub'"
  by (simp add: lists_only_def within_def)

lemma lists_only_steps:
  "lists_only hub (AddSession hub k)" "lists_only hub (DelSession hub k)" "lists_only hub (StopAllSession hub)"
  "lists_only hub (join_monitors hub s)" "lists_only hub (leave_monitors hub s)"
  by (simp_all add: lists_only_def balance_def queue_def fun_eq_iff) (simp_all add: list_defs)

lemma lists_only_attach:
  assumes "S_Key s \<notin> set (keys hub)" and "PA_PacketQueue s = []"
  shows "lists_only hub (attach_adapter hub s)"
proof -
  have "queue (attach_adapter hub s) j = queue hub j" for j
    using assms session_exists [of hub "S_Key s"] by (simp add: queue_def session_attach)
  then show ?thesis
    using assms(2) by (simp add: lists_only_def fun_eq_iff balance_def attach_adapter_def flooded_def)
qed

lemma lists_ok:
  assumes ok: "hub_ok hub"
  shows "k \<notin> set (H_SessionList hub) \<Longrightarrow> hub_ok (AddSession hub k)" and "hub_ok (DelSession hub k)"
    and "hub_ok (StopAllSession hub)" and "S_Key s \<in> set (keys hub) \<Longrightarrow> hub_ok (join_monitors hub s)"
    and "hub_ok (leave_monitors hub s)" and "S_Key s \<notin> set (keys hub) \<Longrightarrow> hub_ok (attach_adapter hub s)"
  using ok set_remove1_subset [of "S_Key s" "H_MonitorList hub"]
  by (auto simp: hub_ok_def hub_tables_ok_def list_fields) (auto simp: list_defs split: if_splits)

lemma session_starts_ok:
  assumes ok: "hub_ok hub" "monitors_ok hub" and new: "S_Key s \<notin> set (keys hub)" "S_Key s \<notin> set (H_SessionList hub)"
    and h: "hub' = session_starts sha1 rnd1 rnd2 hub s username groupname mon"
  shows "hub_ok hub' \<and> monitors_ok hub' \<and> (within g hub \<longrightarrow> within g hub') \<and> balance hub' = balance hub \<and>
    keys hub' = keys hub @ [S_Key s] \<and> H_SessionList hub' = H_SessionList hub @ [S_Key s] \<and>
    macs hub' = macs hub \<and> H_AccessList hub' = H_AccessList hub \<and> (\<forall>k. queue hub' k = queue hub k)"
proof -
  define t where "t = new_adapter sha1 rnd1 rnd2 username groupname mon s"
  define hub1 where "hub1 = AddSession hub (S_Key s)"
  define hub2 where "hub2 = attach_adapter hub1 t"
  have t: "S_Key t = S_Key s" "PA_PacketQueue t = []" "PA_MonitorPort t = mon" by (simp_all add: t_def)
  have h': "hub' = join_monitors hub2 t"
    by (simp add: h session_starts_def HubPaInit_def Let_def hub2_def hub1_def t_def)
  have k1: "S_Key t \<notin> set (keys hub1)" using new by (simp add: hub1_def list_fields t)
  have "lists_only hub hub2" unfolding hub2_def hub1_def
    using lists_only_trans [OF lists_only_steps(1) lists_only_attach [OF k1 t(2), unfolded hub1_def]] .
  then have lo: "lists_only hub hub'" unfolding h' using lists_only_trans lists_only_steps(4) by blast
  have h1: "hub_ok hub1" unfolding hub1_def by (rule lists_ok(1) [OF ok(1) new(2)])
  have h2: "hub_ok hub2" unfolding hub2_def by (rule lists_ok(6) [OF h1 k1])
  have keys: "keys hub' = keys hub @ [S_Key s]" by (simp add: h' hub2_def hub1_def list_fields t)
  have ses: "session hub' j = (if j = S_Key s then Some t else session hub j)" for j
    using session_attach [OF k1, of j] by (simp add: h' hub2_def hub1_def t)
  have none: "session hub (S_Key s) = None" using new(1) session_exists by blast
  have lists: "H_SessionList hub' = H_SessionList hub @ [S_Key s]"
    "H_MonitorList hub' = (if mon then H_MonitorList hub @ [S_Key s] else H_MonitorList hub)"
    by (simp_all add: h' hub2_def hub1_def list_defs t)
  have "S_Key t \<in> set (keys hub2)" by (simp add: hub2_def list_fields)
  then have "hub_ok hub'" unfolding h' by (rule lists_ok(4) [OF h2])
  moreover have "monitors_ok hub'" using ok(2) none by (auto simp: monitors_ok_def lists ses t)
  ultimately show ?thesis using lo lists_only_within [OF lo] keys lists(1) by (simp add: lists_only_def macs_def)
qed

text \<open>
  The last step of a session that is in none of the lists: nothing in the hub names it any more, the
  tables keep the entries of the others, and what its queue had counted is given back.
\<close>

lemma HubPaFree_tables:
  assumes ok: "hub_ok hub" and s: "session hub k = Some s" and out: "k \<notin> set (H_MonitorList hub)"
    and h: "hub' = release_adapter (erase_entries hub s) s"
  shows "hub_ok hub' \<and> (within g hub \<longrightarrow> within g hub') \<and> balance hub' = balance hub \<and>
    keys hub' = filter (\<lambda>j. j \<noteq> k) (keys hub) \<and> H_AccessList hub' = H_AccessList hub \<and>
    (\<forall>a. macs hub' a = (case macs hub a of None \<Rightarrow> None | Some e \<Rightarrow> if M_Session e = k then None else Some e)) \<and>
    (\<forall>a. ips hub' a = (case ips hub a of None \<Rightarrow> None | Some e \<Rightarrow> if I_Session e = k then None else Some e)) \<and>
    (\<forall>j. session hub' j = (if j = k then None else session hub j)) \<and>
    H_SessionList hub' = H_SessionList hub \<and> H_MonitorList hub' = H_MonitorList hub"
proof -
  have key: "S_Key s = k" using session_key [OF s] by simp
  let ?h = "delete_each_hash GetHashOfMacTable (filter (\<lambda>e. M_Session e = k) (HashListToArray (H_MacHashTable hub))) (H_MacHashTable hub)"
  let ?l = "delete_each (filter (\<lambda>e. I_Session e = k) (items (H_IpTable hub))) (H_IpTable hub)"
  have fields: "H_MacHashTable hub' = ?h" "H_IpTable hub' = ?l" "H_AccessList hub' = H_AccessList hub"
    "H_MonitorList hub' = H_MonitorList hub" "H_SessionList hub' = H_SessionList hub"
    "H_CurrentTcpQueueSize hub' = H_CurrentTcpQueueSize hub - flooded (PA_PacketQueue s)"
    "H_PaSessions hub' = filter (\<lambda>s. S_Key s \<noteq> k) (H_PaSessions hub)"
    by (simp_all add: h release_adapter_def erase_entries_def Let_def release_queue_size key)
  have keys: "keys hub' = filter (\<lambda>j. j \<noteq> k) (keys hub)" by (simp add: keys_def fields filter_map comp_def)
  have ses: "session hub' j = (if j = k then None else session hub j)" for j
    by (simp add: session_def fields find_others)
  have tables: "mac_tbl.hash_ok (H_MacHashTable hub)" "ip_tbl.tbl_ok (H_IpTable hub)" "distinct (keys hub)"
    using ok by (simp_all add: hub_ok_def hub_tables_ok_def)
  note m = mac_tbl.delete_each_hash_filter [OF tables(1), of "\<lambda>e. M_Session e = k"]
  note l = ip_tbl.tbl_filter [OF tables(2), of "\<lambda>e. I_Session e \<noteq> k"]
  have l': "?l = (H_IpTable hub)\<lparr>items := filter (\<lambda>e. I_Session e \<noteq> k) (items (H_IpTable hub))\<rparr>"
    by (rule delete_each_filter)
  have q: "length (queue hub' j) \<le> length (queue hub j)" for j by (simp add: queue_def ses)
  have len: "length (HashListToArray ?h) \<le> length (HashListToArray (H_MacHashTable hub))"
  proof -
    have "distinct (HashListToArray ?h)" "distinct (HashListToArray (H_MacHashTable hub))"
      using m tables(1) mac_tbl.array_distinct_keys by (auto simp: distinct_map)
    then show ?thesis using m by (metis (no_types, lifting) card_mono distinct_card finite_set mem_Collect_eq subsetI)
  qed
  have ses_list: "find (\<lambda>s. S_Key s = k) (H_PaSessions hub) = Some s" using s by (simp add: session_def)
  have "balance hub' = balance hub"
    using total_flooded_del [OF _ ses_list] tables(3) by (simp add: balance_def fields keys_def)
  moreover have "hub_ok hub'"
    using ok m l out by (auto simp: hub_ok_def hub_tables_ok_def fields keys l')
  moreover have "within g hub \<longrightarrow> within g hub'"
    using order_trans [OF len] order_trans [OF q] order_trans [OF length_filter_le [of "\<lambda>e. I_Session e \<noteq> k" "items (H_IpTable hub)"]]
    by (simp add: within_def fields(1,2) l')
  moreover have "macs hub' a = (case macs hub a of None \<Rightarrow> None | Some e \<Rightarrow> if M_Session e = k then None else Some e)" for a
    using m by (simp add: macs_def fields)
  moreover have "ips hub' a = (case ips hub a of None \<Rightarrow> None | Some e \<Rightarrow> if I_Session e = k then None else Some e)" for a
    using l by (auto simp: ips_def fields(2) l' split: option.split)
  ultimately show ?thesis using keys ses fields(3-5) by blast
qed

lemma session_ends_ok:
  assumes ok: "hub_ok hub" "monitors_ok hub" and h: "session_ends hub k = Some hub'"
  shows "hub_ok hub' \<and> monitors_ok hub' \<and> (within g hub \<longrightarrow> within g hub') \<and> balance hub' = balance hub \<and>
    keys hub' = filter (\<lambda>j. j \<noteq> k) (keys hub) \<and> H_AccessList hub' = H_AccessList hub \<and> k \<notin> set (H_SessionList hub') \<and>
    (\<forall>a. macs hub' a = (case macs hub a of None \<Rightarrow> None | Some e \<Rightarrow> if M_Session e = k then None else Some e)) \<and>
    (\<forall>a. ips hub' a = (case ips hub a of None \<Rightarrow> None | Some e \<Rightarrow> if I_Session e = k then None else Some e)) \<and>
    (\<forall>j. queue hub' j = (if j = k then [] else queue hub j))"
proof -
  obtain s where s: "session hub k = Some s" "hub' = HubPaFree (DelSession hub k) s" using h by (auto simp: session_ends_def)
  have key: "S_Key s = k" using session_key [OF s(1)] by simp
  define hub1 where "hub1 = leave_monitors (DelSession hub k) s"
  have h': "hub' = release_adapter (erase_entries hub1 s) s" by (simp add: s(2) HubPaFree_def hub1_def)
  have lo: "lists_only hub hub1" unfolding hub1_def using lists_only_trans [OF lists_only_steps(2,5)] .
  have h1: "hub_ok hub1" unfolding hub1_def by (intro lists_ok(5) lists_ok(2) ok(1))
  have keys: "keys hub1 = keys hub" by (simp add: hub1_def list_fields)
  have ses: "session hub1 = session hub" by (simp add: hub1_def)
  have "distinct (H_SessionList hub)" using ok(1) by (simp add: hub_ok_def)
  then have lists: "k \<notin> set (H_SessionList hub1)"
    "H_MonitorList hub1 = (if PA_MonitorPort s then remove1 k (H_MonitorList hub) else H_MonitorList hub)"
    by (simp_all add: hub1_def list_defs key)
  have mon: "set (H_MonitorList hub1) = set (H_MonitorList hub) - {k}" "distinct (H_MonitorList hub1)"
    using ok(2) s(1) by (auto simp: lists(2) monitors_ok_def)
  have "session hub1 k = Some s" "k \<notin> set (H_MonitorList hub1)" using s(1) mon by (simp_all add: ses)
  note e = HubPaFree_tables [OF h1 this h', of g]
  have ses': "session hub' j = (if j = k then None else session hub j)" for j using e by (simp add: ses)
  have q: "queue hub' j = (if j = k then [] else queue hub j)" for j by (simp add: queue_def ses')
  have "monitors_ok hub'" using ok(2) mon e by (auto simp: monitors_ok_def ses)
  then show ?thesis
    using e lo lists(1) q keys lists_only_within [OF lo, of g] by (simp add: lists_only_def macs_def ips_def)
qed

section \<open>Frames that are handed in and fetched\<close>

lemma GetNext_ok:
  assumes ok: "hub_ok hub" and h: "HubPaGetNextPacket hub k = Some (r, hub')"
  shows "hub_ok hub' \<and> same_setting hub hub' \<and> macs hub' = macs hub \<and> balance hub' = balance hub \<and>
    (within g hub \<longrightarrow> within g hub') \<and>
    queue hub k = (case r of None \<Rightarrow> [] | Some data \<Rightarrow> \<lparr>B_Buf = data, B_IsFlooding = B_IsFlooding (hd (queue hub k))\<rparr> # queue hub' k) \<and>
    (\<forall>j. j \<noteq> k \<longrightarrow> queue hub' j = queue hub j)"
proof -
  obtain s where s: "session hub k = Some s" using h by (auto simp: HubPaGetNextPacket_def bind_Some_conv)
  have key: "S_Key s = k" using session_key [OF s] by simp
  have qs: "queue hub k = PA_PacketQueue s" using s by (simp add: queue_def)
  show ?thesis
  proof (cases "PA_PacketQueue s")
    case Nil
    then have "r = None" "hub' = hub" using h s by (simp_all add: HubPaGetNextPacket_def)
    then show ?thesis using ok qs Nil by (simp add: same_setting_def)
  next
    case (Cons b bs)
    define s' where "s' = s\<lparr>PA_PacketQueue := bs\<rparr>"
    define hub1 where "hub1 = (if B_IsFlooding b then CedarAddCurrentTcpQueueSize hub (- of_nat (length (B_Buf b))) else hub)"
    have h': "hub' = put_session s' hub1" "r = Some (B_Buf b)"
      using h s Cons by (simp_all add: HubPaGetNextPacket_def hub1_def s'_def Let_def)
    have s': "S_Key s' = k" "profile s' = profile s" "PA_PacketQueue s' = bs" by (simp_all add: s'_def key profile_def)
    have ses1: "session hub1 = session hub" by (simp add: hub1_def CedarAddCurrentTcpQueueSize_def)
    have ses: "session hub' j = (if j = k then Some s' else session hub j)" for j
      using s by (simp add: h' session_put s' ses1)
    have keys: "keys hub' = keys hub"
    proof -
      have "keys hub' = keys hub1" unfolding h'(1) put_session_def by (rule keys_with) simp
      then show ?thesis by (simp add: hub1_def keys_def CedarAddCurrentTcpQueueSize_def)
    qed
    have fields: "H_MacHashTable hub' = H_MacHashTable hub" "H_IpTable hub' = H_IpTable hub" "H_AccessList hub' = H_AccessList hub"
      "H_MonitorList hub' = H_MonitorList hub" "H_SessionList hub' = H_SessionList hub" "H_Option hub' = H_Option hub" "H_LogSetting hub' = H_LogSetting hub"
      "H_HubMacAddr hub' = H_HubMacAddr hub"
      by (simp_all add: h' put_session_def with_session_def hub1_def CedarAddCurrentTcpQueueSize_def)
    have q: "queue hub' j = (if j = k then bs else queue hub j)" for j by (simp add: queue_def ses s')
    have same: "same_setting hub hub'" using s s' by (auto simp: same_setting_def fields keys ses)
    have fl: "flooded (b # bs) = (if B_IsFlooding b then of_nat (length (B_Buf b)) else 0) + flooded bs"
      by (simp add: flooded_def)
    have "find (\<lambda>s. S_Key s = k) (H_PaSessions hub) = Some s" "distinct (map S_Key (H_PaSessions hub))"
      using s ok by (simp_all add: session_def hub_ok_def keys_def)
    note tf = total_flooded_one [OF this(2) this(1), of "\<lambda>_. s'", unfolded Cons fl s'(3)]
    have bal: "balance hub' = balance hub"
      using tf by (simp add: balance_def h' put_session_def with_session_def s' hub1_def CedarAddCurrentTcpQueueSize_def)
    have "B_IsFlooding (hd (queue hub k)) = B_IsFlooding b" by (simp add: qs Cons)
    then have "queue hub k = \<lparr>B_Buf = B_Buf b, B_IsFlooding = B_IsFlooding (hd (queue hub k))\<rparr> # queue hub' k"
      using q by (simp add: qs Cons)
    moreover have "within g hub \<longrightarrow> within g hub'"
    proof
      assume w: "within g hub"
      then have "length (queue hub k) \<le> unat (MAX_STORED_QUEUE_NUM g)" by (simp add: within_def)
      then show "within g hub'" using w q by (simp add: within_def fields qs Cons)
    qed
    moreover have "hub_ok hub'" using ok by (simp add: hub_ok_def hub_tables_ok_def fields keys)
    ultimately show ?thesis using q same bal by (simp add: h'(2) macs_def fields)
  qed
qed

lemma store_delayed_step:
  "store_delayed envs k ps hub = Some hub' \<Longrightarrow> (\<And>i. Params (envs i) = g) \<Longrightarrow> step g UNIV hub hub'"
proof (induction ps arbitrary: envs hub)
  case (Cons p ps)
  then obtain hub1 where h: "StorePacket (envs 0) hub (Some k) p = Some hub1"
    "store_delayed (\<lambda>i. envs (Suc i)) k ps hub1 = Some hub'" by (auto simp: bind_Some_conv)
  have "step g UNIV hub hub1"
  proof (cases "hub_ok hub")
    case True
    then show ?thesis using StorePacket_spec [OF h(1)] Cons.prems(2) [of 0] step_mono by auto
  qed (simp add: step_def)
  moreover have "step g UNIV hub1 hub'" using Cons.IH [OF h(2)] Cons.prems(2) by simp
  ultimately show ?case by (rule step_trans)
qed simp

lemma StorePacket_step:
  assumes "StorePacket env hub s p = Some hub'" and "Params env = g"
  shows "step g UNIV hub hub'"
proof (cases "hub_ok hub")
  case True
  then show ?thesis using StorePacket_spec [OF assms(1) True] assms(2) step_mono by auto
qed (simp add: step_def)

lemma PutPacket_step:
  assumes h: "HubPaPutPacket envs hub k data = Some hub'" and g: "\<And>i. Params (envs i) = g"
  shows "step g UNIV hub hub'"
proof -
  obtain s where s: "session hub k = Some s" using h by (auto simp: HubPaPutPacket_def bind_Some_conv)
  show ?thesis
  proof (cases data)
    case None
    define due where "due = filter (\<lambda>p. DelayedForwardTick p \<le> Now_highres (envs 0)) (S_DelayedPacketList s)"
    define s1 where "s1 = s\<lparr>S_DelayedPacketList := fold remove1 due (S_DelayedPacketList s)\<rparr>"
    have h1: "store_delayed envs k due (put_session s1 hub) = Some hub'"
      using h s None by (simp add: HubPaPutPacket_def Let_def due_def s1_def)
    have "step g {} hub (put_session s1 hub)"
      by (rule step_put [of _ _ s]) (use s session_key [OF s] in \<open>simp_all add: s1_def profile_def\<close>)
    then have "step g UNIV hub (put_session s1 hub)" by (rule step_mono) simp
    moreover have "step g UNIV (put_session s1 hub) hub'" by (rule store_delayed_step [OF h1 g])
    ultimately show ?thesis by (rule step_trans)
  next
    case (Some bytes)
    obtain packet where "(case packet of
          None \<Rightarrow> Some hub
        | Some p \<Rightarrow>
            if InvalidSourcePacket p then Some hub
            else if dhcp4 p \<and> L7_at p \<noteq> None \<and> dhcp_opcode p = 1 \<and> on_localhost (envs 0) (dhcp_client_mac p)
            then Some hub
            else StorePacket (envs 0) hub (Some k) p) = Some hub'"
      using h unfolding HubPaPutPacket_def s Option.bind_lunit Let_def Some option.case bind_Some_conv by blast
    then have "hub' = hub \<or> (\<exists>p. StorePacket (envs 0) hub (Some k) p = Some hub')"
      by (cases packet) (auto split: if_splits)
    then show ?thesis using StorePacket_step g by auto
  qed
qed

section \<open>Every state of a hub\<close>

text \<open>
  Where the thread of a session is: not in this hub; behind \<open>AddSession\<close>; in \<open>HubPaInit\<close>, with an
  adapter; in the loop of \<open>SessionMain\<close>; behind \<open>DelSession\<close>; in \<open>HubPaFree\<close>, behind the lock of
  the list of monitors.
\<close>

datatype PLACE = Outside | Added | Attached | Running | Deleted | Unmonitored

text \<open>
  What can happen to a hub, in any order and with any number of sessions at any place: the steps of
  the sessions' threads, each what the code does under one lock, a session that ends before it has an
  adapter, the end of all sessions, a packet of the hub itself, and a new entry of the access
  list. The last step of \<open>HubPaFree\<close> takes two things together: under the lock of the
  address tables the entries go, then the queue is freed. Nothing can come between them, since no
  list and no table leads to the adapter any more then. How entries compare, the hash functions
  and the random numbers are those of the call.
\<close>

inductive hub_event :: "PARAMS \<Rightarrow> (ACCESS \<Rightarrow> u8 list) \<Rightarrow> HUB \<times> (nat \<Rightarrow> PLACE) \<Rightarrow> HUB \<times> (nat \<Rightarrow> PLACE) \<Rightarrow> bool"
  for g memory where
  adds: "at k = Outside \<Longrightarrow> hub_event g memory (hub, at) (AddSession hub k, at(k := Added))"
| quits: "at k = Added \<Longrightarrow> hub_event g memory (hub, at) (DelSession hub k, at(k := Outside))"
| attaches: "at (S_Key s) = Added \<Longrightarrow> t = new_adapter sha1 rnd1 rnd2 username groupname mon s \<Longrightarrow>
    hub_event g memory (hub, at) (attach_adapter hub t, at(S_Key s := Attached))"
| monitors: "at k = Attached \<Longrightarrow> session hub k = Some s \<Longrightarrow>
    hub_event g memory (hub, at) (join_monitors hub s, at(k := Running))"
| puts: "at k = Running \<Longrightarrow> (\<And>i. Params (envs i) = g) \<Longrightarrow> HubPaPutPacket envs hub k data = Some hub' \<Longrightarrow>
    hub_event g memory (hub, at) (hub', at)"
| gets: "at k = Running \<Longrightarrow> HubPaGetNextPacket hub k = Some (r, hub') \<Longrightarrow> hub_event g memory (hub, at) (hub', at)"
| deletes: "at k = Running \<Longrightarrow> hub_event g memory (hub, at) (DelSession hub k, at(k := Deleted))"
| leaves: "at k = Deleted \<Longrightarrow> session hub k = Some s \<Longrightarrow>
    hub_event g memory (hub, at) (leave_monitors hub s, at(k := Unmonitored))"
| frees: "at k = Unmonitored \<Longrightarrow> session hub k = Some s \<Longrightarrow>
    hub_event g memory (hub, at) (release_adapter (erase_entries hub s) s, at(k := Outside))"
| stops: "hub_event g memory (hub, at) (StopAllSession hub, at)"
| own: "Params env = g \<Longrightarrow> StorePacket env hub None p = Some hub' \<Longrightarrow> hub_event g memory (hub, at) (hub', at)"
| access: "hub_event g memory (hub, at)
    (hub\<lparr>H_AccessList := AddAccessList memory sha1 rnd1 rnd2 (H_AccessList hub) a\<rparr>, at)"

text \<open>\<open>n\<close> is what the rest of the server has in its queues.\<close>

inductive hub_reachable :: "PARAMS \<Rightarrow> (ACCESS \<Rightarrow> u8 list) \<Rightarrow> u32 \<Rightarrow> HUB \<times> (nat \<Rightarrow> PLACE) \<Rightarrow> bool" for g memory n where
  fresh: "hub_reachable g memory n (NewHub opt log_setting mac n, \<lambda>_. Outside)"
| event: "hub_reachable g memory n x \<Longrightarrow> hub_event g memory x y \<Longrightarrow> hub_reachable g memory n y"

text \<open>
  What the places say of the lists: a session has an adapter from \<open>HubPaInit\<close> to \<open>HubPaFree\<close>; one
  that is in the list of sessions has not left it; the list of monitors holds exactly the
  sessions that are one and are between the two locks of that list.
\<close>

definition place_ok :: "HUB \<Rightarrow> nat \<Rightarrow> PLACE \<Rightarrow> bool" where
  "place_ok hub k c \<longleftrightarrow>
     (session hub k \<noteq> None \<longleftrightarrow> c \<in> {Attached, Running, Deleted, Unmonitored}) \<and>
     (k \<in> set (H_SessionList hub) \<longrightarrow> c \<in> {Added, Attached, Running}) \<and>
     (k \<in> set (H_MonitorList hub) \<longleftrightarrow>
       (\<exists>s. session hub k = Some s \<and> PA_MonitorPort s) \<and> c \<in> {Running, Deleted})"

definition places_ok :: "HUB \<Rightarrow> (nat \<Rightarrow> PLACE) \<Rightarrow> bool" where
  "places_ok hub at \<longleftrightarrow> distinct (H_MonitorList hub) \<and> (\<forall>k. place_ok hub k (at k))"

lemma places_step:
  assumes "places_ok hub at" and "distinct (H_MonitorList hub) \<Longrightarrow> distinct (H_MonitorList hub')"
    and "\<And>j. j \<noteq> k \<Longrightarrow> session hub' j = session hub j \<and> (j \<in> set (H_SessionList hub') \<longleftrightarrow> j \<in> set (H_SessionList hub)) \<and>
      (j \<in> set (H_MonitorList hub') \<longleftrightarrow> j \<in> set (H_MonitorList hub))"
    and "place_ok hub k (at k) \<Longrightarrow> place_ok hub' k c"
  shows "places_ok hub' (at(k := c))"
proof -
  have "place_ok hub' j (at j)" if "j \<noteq> k" for j
    using assms(1) assms(3) [OF that] by (simp add: places_ok_def place_ok_def)
  then show ?thesis using assms(1,2,4) by (simp add: places_ok_def)
qed

definition hub_inv :: "PARAMS \<Rightarrow> (ACCESS \<Rightarrow> u8 list) \<Rightarrow> u32 \<Rightarrow> HUB \<times> (nat \<Rightarrow> PLACE) \<Rightarrow> bool" where
  "hub_inv g memory n x \<longleftrightarrow> (case x of (hub, at) \<Rightarrow>
     hub_ok hub \<and> places_ok hub at \<and> within g hub \<and> acl_ok memory (H_AccessList hub) \<and> balance hub = n)"

lemma lst_new_empty: "items lst_new = []" "is_sorted lst_new"
  by (simp_all add: lst_new_def)

lemma NewHub_inv:
  assumes "0 < MAX_IP_TABLES g"
  shows "hub_inv g memory n (NewHub opt log_setting mac n, \<lambda>_. Outside)" and "monitors_ok (NewHub opt log_setting mac n)"
proof -
  have "HashListToArray (NewHashList 8 False :: MAC_TABLE_ENTRY HASH_LIST) = []"
    by (simp add: HashListToArray_def NewHashList_def Let_def bucket_items_def)
  then show "hub_inv g memory n (NewHub opt log_setting mac n, \<lambda>_. Outside)" using assms
    by (simp add: hub_inv_def lst_new_empty NewHub_def Let_def hub_ok_def hub_tables_ok_def mac_tbl.NewHashList_ok ip_tbl.tbl_new
        keys_def places_ok_def place_ok_def session_def within_def queue_def acl_ok_def InitAccessList_def
        sorted_cmp_def balance_def)
  show "monitors_ok (NewHub opt log_setting mac n)" by (simp add: monitors_ok_def session_def NewHub_def Let_def)
qed

lemma monitor_same:
  assumes "same_setting hub hub'"
  shows "(\<exists>s. session hub' k = Some s \<and> PA_MonitorPort s) = (\<exists>s. session hub k = Some s \<and> PA_MonitorPort s)"
proof -
  have p: "map_option profile (session hub' k) = map_option profile (session hub k)"
    using assms by (simp add: same_setting_def)
  show ?thesis
  proof (cases "session hub k")
    case None
    then show ?thesis using p by simp
  next
    case (Some s)
    then obtain s' where s': "session hub' k = Some s'" "profile s' = profile s" using p by auto
    then show ?thesis using Some profile_fields(3) [OF s'(2)] by simp
  qed
qed

lemma places_same: "same_setting hub hub' \<Longrightarrow> places_ok hub at \<Longrightarrow> places_ok hub' at"
  using monitor_same [of hub hub'] session_exists [of hub] session_exists [of hub']
  by (simp add: places_ok_def place_ok_def same_setting_def)

lemma hub_step_inv: "step g D hub hub' \<Longrightarrow> hub_inv g memory n (hub, at) \<Longrightarrow> hub_inv g memory n (hub', at)"
  using places_same [of hub hub' at] by (auto simp: step_def hub_inv_def same_setting_def)

text \<open>The steps that only change lists.\<close>

lemma lists_inv:
  assumes "hub_inv g memory n (hub, at)" and "lists_only hub hub'" and "hub_ok hub'" and "places_ok hub' at'"
  shows "hub_inv g memory n (hub', at')"
  using assms lists_only_within [OF assms(2)] by (auto simp: hub_inv_def lists_only_def)

lemma inv_parts:
  assumes "hub_inv g memory n (hub, at)"
  shows "hub_ok hub" and "places_ok hub at" and "place_ok hub k (at k)" and "distinct (H_MonitorList hub)"
    and "distinct (H_SessionList hub)"
  using assms by (auto simp: hub_inv_def places_ok_def hub_ok_def)

lemma adds_inv:
  assumes "hub_inv g memory n (hub, at)" and "at k = Outside"
  shows "hub_inv g memory n (AddSession hub k, at(k := Added))"
proof -
  note inv = inv_parts [OF assms(1)]
  have "k \<notin> set (H_SessionList hub)" using inv(3) [of k] assms(2) by (auto simp: place_ok_def)
  then have "hub_ok (AddSession hub k)" by (rule lists_ok(1) [OF inv(1)])
  moreover have "places_ok (AddSession hub k) (at(k := Added))"
    by (rule places_step [OF inv(2)]) (use assms(2) in \<open>auto simp: place_ok_def, auto simp: AddSession_def\<close>)
  ultimately show ?thesis by (rule lists_inv [OF assms(1) lists_only_steps(1)])
qed

lemma deletes_inv:
  assumes "hub_inv g memory n (hub, at)" and "at k = Added \<and> c = Outside \<or> at k = Running \<and> c = Deleted"
  shows "hub_inv g memory n (DelSession hub k, at(k := c))"
proof -
  note inv = inv_parts [OF assms(1)]
  have l: "set (H_SessionList (DelSession hub k)) = set (H_SessionList hub) - {k}"
    "H_MonitorList (DelSession hub k) = H_MonitorList hub" using inv(5) by (simp_all add: DelSession_def)
  have "places_ok (DelSession hub k) (at(k := c))"
    by (rule places_step [OF inv(2)]) (use assms(2) in \<open>auto simp: place_ok_def l\<close>)
  then show ?thesis by (rule lists_inv [OF assms(1) lists_only_steps(2) lists_ok(2) [OF inv(1)]])
qed

lemma attaches_inv:
  assumes "hub_inv g memory n (hub, at)" and "at (S_Key t) = Added" and "PA_PacketQueue t = []"
  shows "hub_inv g memory n (attach_adapter hub t, at(S_Key t := Attached))"
proof -
  note inv = inv_parts [OF assms(1)]
  have "session hub (S_Key t) = None" using inv(3) [of "S_Key t"] assms(2) by (simp add: place_ok_def)
  then have k: "S_Key t \<notin> set (keys hub)" using session_exists by blast
  have l: "H_SessionList (attach_adapter hub t) = H_SessionList hub" "H_MonitorList (attach_adapter hub t) = H_MonitorList hub"
    by (simp_all add: attach_adapter_def)
  have "places_ok (attach_adapter hub t) (at(S_Key t := Attached))"
    by (rule places_step [OF inv(2)]) (use assms(2) in \<open>auto simp: place_ok_def session_attach [OF k] l\<close>)
  then show ?thesis
    by (rule lists_inv [OF assms(1) lists_only_attach [OF k assms(3)] lists_ok(6) [OF inv(1) k]])
qed

lemma monitors_inv:
  assumes "hub_inv g memory n (hub, at)" and "at k = Attached" and "session hub k = Some s"
  shows "hub_inv g memory n (join_monitors hub s, at(k := Running))"
proof -
  note inv = inv_parts [OF assms(1)]
  have key: "S_Key s = k" "k \<in> set (keys hub)" using session_key [OF assms(3)] session_exists assms(3) by auto
  have l: "H_SessionList (join_monitors hub s) = H_SessionList hub"
    "H_MonitorList (join_monitors hub s) = (if PA_MonitorPort s then H_MonitorList hub @ [k] else H_MonitorList hub)"
    by (simp_all add: join_monitors_def key)
  have "k \<notin> set (H_MonitorList hub)" using inv(3) [of k] assms(2) by (simp add: place_ok_def)
  then have "places_ok (join_monitors hub s) (at(k := Running))"
    by (intro places_step [OF inv(2)]) (use assms(2,3) in \<open>auto simp: place_ok_def l\<close>)
  moreover have "hub_ok (join_monitors hub s)" using lists_ok(4) [OF inv(1)] key by simp
  ultimately show ?thesis using lists_inv [OF assms(1) lists_only_steps(4)] by blast
qed

lemma leaves_inv:
  assumes "hub_inv g memory n (hub, at)" and "at k = Deleted" and "session hub k = Some s"
  shows "hub_inv g memory n (leave_monitors hub s, at(k := Unmonitored))"
proof -
  note inv = inv_parts [OF assms(1)]
  have key: "S_Key s = k" using session_key [OF assms(3)] by simp
  have l: "H_SessionList (leave_monitors hub s) = H_SessionList hub"
    "H_MonitorList (leave_monitors hub s) = (if PA_MonitorPort s then remove1 k (H_MonitorList hub) else H_MonitorList hub)"
    by (simp_all add: leave_monitors_def key)
  have "places_ok (leave_monitors hub s) (at(k := Unmonitored))"
    by (rule places_step [OF inv(2)]) (use assms(2,3) inv(4) in \<open>auto simp: place_ok_def l\<close>)
  then show ?thesis by (rule lists_inv [OF assms(1) lists_only_steps(5) lists_ok(5) [OF inv(1)]])
qed

lemma frees_inv:
  assumes "hub_inv g memory n (hub, at)" and "at k = Unmonitored" and "session hub k = Some s"
  shows "hub_inv g memory n (release_adapter (erase_entries hub s) s, at(k := Outside))"
proof -
  note inv = inv_parts [OF assms(1)]
  have out: "k \<notin> set (H_MonitorList hub)" "k \<notin> set (H_SessionList hub)"
    using inv(3) [of k] assms(2) by (auto simp: place_ok_def)
  note e = HubPaFree_tables [OF inv(1) assms(3) out(1) refl, of g]
  have "places_ok (release_adapter (erase_entries hub s) s) (at(k := Outside))"
    by (rule places_step [OF inv(2)]) (use e out in \<open>auto simp: place_ok_def\<close>)
  then show ?thesis using e assms(1) by (simp add: hub_inv_def)
qed

lemma hub_event_inv:
  assumes "hub_event g memory x y" and inv: "hub_inv g memory n x"
    and mem: "\<And>a i. memory (a\<lparr>A_Id := i\<rparr>) = memory a"
  shows "hub_inv g memory n y"
  using assms(1)
proof cases
  case (adds at k hub)
  then show ?thesis using adds_inv inv by blast
next
  case (quits at k hub)
  then show ?thesis using deletes_inv inv by blast
next
  case (attaches at s t sha1 rnd1 rnd2 username groupname mon hub)
  then show ?thesis using attaches_inv [of g memory n hub at t] inv by simp
next
  case (monitors at k hub s)
  then show ?thesis using monitors_inv inv by blast
next
  case (puts at k envs hub data hub')
  then show ?thesis using hub_step_inv [OF PutPacket_step] inv by blast
next
  case (gets at k hub r hub')
  then have h: "hub_inv g memory n (hub, at)" using inv by simp
  then have "hub_ok hub' \<and> same_setting hub hub' \<and> balance hub' = balance hub \<and> (within g hub \<longrightarrow> within g hub')"
    using GetNext_ok [OF _ gets(4), of g] by (simp add: hub_inv_def)
  then show ?thesis using h gets(2) places_same [of hub hub' at] by (auto simp: hub_inv_def same_setting_def)
next
  case (deletes at k hub)
  then show ?thesis using deletes_inv inv by blast
next
  case (leaves at k hub s)
  then show ?thesis using leaves_inv inv by blast
next
  case (frees at k hub s)
  then show ?thesis using frees_inv inv by blast
next
  case (stops hub at)
  then have h: "hub_inv g memory n (hub, at)" using inv by simp
  have "H_MonitorList (StopAllSession hub) = H_MonitorList hub" "H_SessionList (StopAllSession hub) = []"
    by (simp_all add: StopAllSession_def)
  then have "places_ok (StopAllSession hub) at" using inv_parts(2) [OF h] by (simp add: places_ok_def place_ok_def)
  then show ?thesis using lists_inv [OF h lists_only_steps(3) lists_ok(3)] inv_parts(1) [OF h] stops by blast
next
  case (own env hub p hub' at)
  then show ?thesis using hub_step_inv [OF StorePacket_step] inv by blast
next
  case (access hub at sha1 rnd1 rnd2 a)
  then show ?thesis using AddAccessList_ok [OF mem, of "H_AccessList hub"] inv
    by (auto simp: hub_inv_def hub_ok_def hub_tables_ok_def places_ok_def place_ok_def within_def balance_def keys_def
        session_def queue_def)
qed

lemma reachable_inv:
  assumes "hub_reachable g memory n x" and "0 < MAX_IP_TABLES g" and "\<And>a i. memory (a\<lparr>A_Id := i\<rparr>) = memory a"
  shows "hub_inv g memory n x"
  using assms(1) by induction (use NewHub_inv(1) assms(2) hub_event_inv assms(3) in blast)+

end
