(* ===== verification/HubTotal.thy ===== *)
theory HubTotal
  imports HubLife
begin

text \<open>
  Storing a packet always comes to an end: every session that the hub's tables name is there, and
  every edit of a frame stays inside of it. Two cases are
  excluded, since the code does not survive or the model does not decide them: an access list
  entry whose delay times jitter is below 100, and router advertisements for a session that must
  not learn a default router.
\<close>

section \<open>Single steps\<close>

definition exists_in :: "HUB \<Rightarrow> nat option \<Rightarrow> bool" where
  "exists_in hub s \<longleftrightarrow> (\<forall>k. s = Some k \<longrightarrow> k \<in> set (keys hub))"

lemma exists_same: "same_setting hub hub' \<Longrightarrow> exists_in hub s \<Longrightarrow> exists_in hub' s"
  by (simp add: exists_in_def same_setting_def)

lemma session_total: "k \<in> set (keys hub) \<Longrightarrow> \<exists>s. session hub k = Some s"
  using session_exists by blast

lemma sender_total: "exists_in hub s \<Longrightarrow> \<exists>src. sender hub s = Some src"
  using session_total by (cases s) (auto simp: exists_in_def sender_def)

lemma adjust_mss_total: "\<exists>d. adjust_mss hub data mss = Some d"
proof -
  have "\<exists>r. AdjustTcpMssL2 host_le data mss tpid = Some r" for tpid
    using AdjustTcpMssL2_spec [of data host_le mss tpid] by (auto simp: adjusted_def)
  then show ?thesis by (force simp: adjust_mss_def)
qed

lemma StorePacketToHubPa_total:
  assumes "d \<in> set (keys hub)" and "exists_in hub s"
  shows "\<exists>hub'. StorePacketToHubPa env hub d s data packet fl acl = Some hub'"
proof -
  obtain dest where dest: "session hub d = Some dest" using session_total [OF assms(1)] by blast
  obtain b where "(case (s, packet) of
              (Some k, Some p) \<Rightarrow> do {
                s \<leftarrow> session hub k;
                Some (acl \<or> ApplyAccessListToForwardPacket (listed env) hub s dest p)
              }
            | (Some k, None) \<Rightarrow> Some acl
            | (None, _) \<Rightarrow> Some True) = Some b"
  proof (cases s)
    case (Some k)
    then obtain x where "session hub k = Some x" using session_total assms(2) by (auto simp: exists_in_def)
    then show ?thesis using that Some by (cases packet) auto
  qed (use that in simp)
  note allowed = this
  have mss: "\<exists>d. (if s \<noteq> None then adjust_mss hub data' (target_mss x INFINITE) else Some data') = Some d" for data' x
    using adjust_mss_total by simp
  show ?thesis unfolding StorePacketToHubPa_def dest Option.bind_lunit allowed
    using mss by (auto simp: Let_def split: prod.split) (metis bind.bind_lunit)+
qed

lemma monitor_loop_total:
  "hub_ok hub \<Longrightarrow> exists_in hub s \<Longrightarrow> set ds \<subseteq> set (keys hub) \<Longrightarrow> \<exists>hub'. monitor_loop env s p ds hub = Some hub'"
proof (induction ds arbitrary: hub)
  case (Cons d ds)
  have "\<exists>hub1. StorePacketToHubPa env hub d s (PacketData p) (Some p) False False = Some hub1"
    by (rule StorePacketToHubPa_total) (use Cons.prems in simp_all)
  then obtain hub1 where h: "StorePacketToHubPa env hub d s (PacketData p) (Some p) False False = Some hub1" by blast
  have same: "hub_ok hub1 \<and> same_setting hub hub1" using moves_ok [OF store_queue_moves [OF h] Cons.prems(1)] by simp
  then have "set ds \<subseteq> set (keys hub1)" "exists_in hub1 s" using Cons.prems exists_same by (auto simp: same_setting_def)
  then show ?case using Cons.IH [of hub1] same h by simp
qed simp

text \<open>No session has to be kept from learning a default router from this packet.\<close>

definition plain_ra :: "HUB \<Rightarrow> PKT \<Rightarrow> bool" where
  "plain_ra hub p \<longleftrightarrow> is_ra p \<longrightarrow> list_all (\<lambda>d. \<not> no_default_router (H_Option hub) d) (H_PaSessions hub)"

lemma plain_raD: "plain_ra hub p \<Longrightarrow> is_ra p \<Longrightarrow> session hub d = Some dest \<Longrightarrow> \<not> no_default_router (H_Option hub) dest"
  using session_key by (fastforce simp: plain_ra_def list_all_iff)

lemma plain_ra_same:
  assumes "same_setting hub hub'" and "hub_ok hub'" and "plain_ra hub p"
  shows "plain_ra hub' p"
proof -
  have "\<not> no_default_router (H_Option hub') x" if x: "is_ra p" "x \<in> set (H_PaSessions hub')" for x
  proof -
    have "session hub' (S_Key x) = Some x"
      using find_unique [OF _ x(2), of S_Key] assms(2) by (simp add: session_def hub_ok_def keys_def)
    then have "map_option profile (session hub (S_Key x)) = Some (profile x)"
      using same_sessions(2) [OF assms(1), of "S_Key x"] by simp
    then obtain y where y: "session hub (S_Key x) = Some y" "profile y = profile x" by auto
    have "S_IPv6Session y = S_IPv6Session x" using arg_cong [OF y(2), of S_IPv6Session] by (simp add: profile_def)
    then have "no_default_router (H_Option hub') x = no_default_router (H_Option hub) y"
      using assms(1) profile_fields(2) [OF y(2)] by (simp add: no_default_router_def same_setting_def)
    then show ?thesis using plain_raD [OF assms(3) x(1) y(1)] by simp
  qed
  then show ?thesis by (simp add: plain_ra_def list_all_iff)
qed

lemma store_unicast_total:
  assumes "hub_ok hub" and "exists_in hub s" and "d \<in> set (keys hub)" and "plain_ra hub p"
  shows "\<exists>hub'. store_unicast env hub s d p = Some hub'"
proof -
  obtain src where src: "sender hub s = Some src" using sender_total [OF assms(2)] by blast
  obtain dest where dest: "session hub d = Some dest" using session_total [OF assms(3)] by blast
  have ra: "(if no_default_router (H_Option hub) dest then DeleteIPv6DefaultRouterInRA p else Some p) = Some p"
    using plain_raD [OF assms(4) _ dest] by (auto simp: DeleteIPv6DefaultRouterInRA_def)
  obtain ok hub1 where lg: "log_packet env hub src p = (ok, hub1)" by fastforce
  have same: "same_setting hub hub1" using moves_ok [OF log_packet_sender [OF src lg] assms(1)] by simp
  then have "d \<in> set (keys hub1)" "exists_in hub1 s" using assms exists_same by (auto simp: same_setting_def)
  then show ?thesis using StorePacketToHubPa_total [of d hub1 s]
    unfolding store_unicast_def src dest ra Option.bind_lunit Let_def lg prod.case by simp
qed

lemma flood_data_total:
  assumes "plain_ra hub p" and "session hub d = Some dest"
  shows "flood_data hub dest p = Some (PacketData p)"
  using plain_raD [OF assms(1) _ assms(2)] by (auto simp: flood_data_def)

lemma flood_one_total:
  assumes "exists_in hub s" and "plain_ra hub p"
  shows "\<exists>hub'. flood_one env s p d hub = Some hub'"
proof -
  obtain src where src: "sender hub s = Some src" using sender_total [OF assms(1)] by blast
  show ?thesis
  proof (cases "session hub d")
    case None
    then show ?thesis by (simp add: flood_one_def src)
  next
    case (Some dest)
    then have "d \<in> set (keys hub)" using session_exists by blast
    then show ?thesis using StorePacketToHubPa_total [OF _ assms(1)]
      unfolding flood_one_def src Some Option.bind_lunit option.case flood_data_total [OF assms(2) Some] by simp
  qed
qed

lemma flood_loop_total:
  "hub_ok hub \<Longrightarrow> exists_in hub s \<Longrightarrow> plain_ra hub p \<Longrightarrow>
    \<exists>hub'. flood_loop env s p ds hub = Some hub'"
proof (induction ds arbitrary: hub)
  case (Cons d ds)
  then obtain hub1 where h: "flood_one env s p d hub = Some hub1" using flood_one_total [of hub s p env d] by auto
  have same: "hub_ok hub1 \<and> same_setting hub hub1" using moves_ok [OF flood_one_moves [OF h] Cons.prems(1)] by simp
  have "exists_in hub1 s" "plain_ra hub1 p" using same Cons.prems exists_same plain_ra_same by blast+
  then show ?case using Cons.IH [of hub1] same h by simp
qed simp

lemma store_flood_total:
  assumes "hub_ok hub" and "exists_in hub s" and "plain_ra hub p"
  shows "\<exists>hub'. store_flood env hub s p = Some hub'"
proof -
  obtain src where src: "sender hub s = Some src" using sender_total [OF assms(2)] by blast
  obtain ok hub1 where lg: "log_packet env hub src p = (ok, hub1)" by fastforce
  have same: "hub_ok hub1 \<and> same_setting hub hub1" using moves_ok [OF log_packet_sender [OF src lg] assms(1)] by simp
  then have "exists_in hub1 s" "plain_ra hub1 p" using assms exists_same plain_ra_same by blast+
  then have "\<exists>hub'. flood_loop env s p (H_SessionList hub1) hub1 = Some hub'"
    using flood_loop_total [of hub1 s] same by simp
  then show ?thesis unfolding store_flood_def src Option.bind_lunit Let_def lg prod.case by simp
qed

section \<open>The whole path\<close>

text \<open>An entry that does not make the division of the jitter fail.\<close>

definition delay_ok :: "ACCESS \<Rightarrow> bool" where
  "delay_ok a \<longleftrightarrow> A_Delay a = 0 \<or> A_Jitter a = 0 \<or>
     unat (A_Jitter a) \<le> 100 \<and> 100 \<le> unat (A_Jitter a) * unat (A_Delay a)"

lemma impair_total:
  assumes "Delay p = 0 \<or> s \<noteq> None \<and> (\<exists>a. delay_ok a \<and> p = marked q a)"
  shows "\<exists>r. impair env hub s p = Some r"
proof (cases "Delay p = 0")
  case True
  then show ?thesis by (auto simp: impair_def)
next
  case False
  then obtain a k where a: "delay_ok a" "p = marked q a" "s = Some k" using assms by auto
  have d: "Delay p = A_Delay a" "Jitter p = A_Jitter a" by (simp_all add: a marked_def)
  define delay where "delay = uint (Delay p)"
  have pos: "0 < delay" using False by (simp add: delay_def word_neq_0_conv word_less_def)
  obtain j where j: "(if Jitter p = 0 then Some 0
           else let n = uint (Jitter p) * delay div 100
             in if n = 0 then None else Some (uint (Rand32 env) mod n)) = Some j" "0 \<le> j" "j < delay"
  proof (cases "Jitter p = 0")
    case True
    then show ?thesis using that pos by simp
  next
    case j0: False
    define n where "n = uint (Jitter p) * delay div 100"
    have b: "uint (Jitter p) \<le> 100" "100 \<le> uint (Jitter p) * delay"
    proof -
      have u: "unat (Jitter p) \<le> 100" "100 \<le> unat (Jitter p) * unat (Delay p)"
        using a(1) j0 False d by (auto simp: delay_ok_def)
      have "int (unat (Jitter p)) \<le> int 100" using u(1) by (simp only: of_nat_le_iff)
      then show "uint (Jitter p) \<le> 100" by (simp only: uint_nat of_nat_numeral)
      have "int 100 \<le> int (unat (Jitter p) * unat (Delay p))" using u(2) by (simp only: of_nat_le_iff)
      then show "100 \<le> uint (Jitter p) * delay" by (simp only: delay_def uint_nat of_nat_mult of_nat_numeral)
    qed
    have "uint (Jitter p) * delay \<le> 100 * delay" using b(1) pos by (intro mult_right_mono) simp_all
    then have n: "0 < n" "n \<le> delay" using b(2) unfolding n_def by linarith+
    have "uint (Rand32 env) mod n < delay" "0 \<le> uint (Rand32 env) mod n"
      using n(2) pos_mod_bound [OF n(1), of "uint (Rand32 env)"] pos_mod_sign [OF n(1), of "uint (Rand32 env)"] by linarith+
    then show ?thesis using that [of "uint (Rand32 env) mod n"] j0 n by (simp add: n_def [symmetric])
  qed
  have one: "1 \<le> Delay p" using pos by (simp add: delay_def word_le_def)
  define r where "r = (if Rand1 env then delay + j else delay - j)"
  have w: "\<not> r < 0" "1 \<le> r" using j pos by (auto simp: r_def)
  show ?thesis
    unfolding impair_def Let_def delay_def [symmetric] j(1) [unfolded Let_def] Option.bind_lunit a(3) r_def [symmetric]
    by (simp only: one w if_True if_False not_False_eq_True Option.bind_lunit ex_simps split: if_split) blast
qed

lemma learning_total: "exists_in hub s \<Longrightarrow> \<exists>r. learning env hub s p = Some r"
  using session_total [of "the s" hub] by (cases s) (auto simp: learning_def exists_in_def)

lemma learn_ips_total:
  assumes "hub_ok hub" and "exists_in hub s"
  shows "\<exists>r. learn_ips env hub s p = Some r"
proof (cases s)
  case (Some k)
  obtain src where src: "session hub k = Some src" using assms(2) Some session_total by (auto simp: exists_in_def)
  obtain ok1 hub1 where l6: "learn_ip6 env hub src p = (ok1, hub1)" by fastforce
  have "S_Key src \<in> set (keys hub)" using session_key [OF src] by (auto simp: keys_def)
  then have "same_setting hub hub1" using moves_ok [OF learn_ip6_silent [OF l6] assms(1)] by simp
  then have "k \<in> set (keys hub1)" using assms(2) Some by (simp add: exists_in_def same_setting_def)
  then obtain x where "session hub1 k = Some x" using session_total by blast
  then show ?thesis using src by (auto simp: learn_ips_def Some l6 then_step_def)
qed (auto simp: learn_ips_def)

lemma check_storm_total: "exists_in hub s \<Longrightarrow> \<exists>r. check_storm env hub s route p = Some r"
  using session_total by (cases s) (fastforce simp: check_storm_def exists_in_def split: prod.split)+

lemma deliver_total:
  assumes ok: "hub_ok hub" and s: "exists_in hub s" and ra: "plain_ra hub p"
    and d: "\<And>d. route = Unicast d \<Longrightarrow> d \<in> set (keys hub)"
  shows "\<exists>hub1 hub'. monitor_loop env s p (H_MonitorList hub) hub = Some hub1 \<and>
    (case route of Unicast d \<Rightarrow> store_unicast env hub1 s d p | _ \<Rightarrow> store_flood env hub1 s p) = Some hub'"
proof -
  obtain hub1 where h: "monitor_loop env s p (H_MonitorList hub) hub = Some hub1"
    using monitor_loop_total [OF ok s, of "H_MonitorList hub"] ok unfolding hub_ok_def by blast
  have same: "hub_ok hub1" "same_setting hub hub1" using moves_ok [OF monitor_loop_moves [OF h] ok] by simp_all
  have s1: "exists_in hub1 s" "plain_ra hub1 p" using same s ra exists_same plain_ra_same by blast+
  have "\<And>d. route = Unicast d \<Longrightarrow> d \<in> set (keys hub1)" using d same by (simp add: same_setting_def)
  then show ?thesis
    using h store_unicast_total [OF same(1) s1(1) _ s1(2)] store_flood_total [OF same(1) s1] by (cases route) auto
qed

lemma forward_total:
  assumes ok: "hub_ok hub" and s: "exists_in hub s" and ra: "plain_ra hub p"
  shows "\<exists>hub'. forward_packet env hub s p = Some hub'"
proof (cases "MacAddressSrc p = H_HubMacAddr hub \<and> s \<noteq> None")
  case True
  then show ?thesis by (simp add: forward_packet_def)
next
  case False
  have keep: "exists_in h s \<and> plain_ra h p" if "same_setting hub h" "hub_ok h" for h
    using that s ra exists_same plain_ra_same by blast
  obtain ok1 hub1 where l: "learning env hub s p = Some (ok1, hub1)" using learning_total [OF s] by fastforce
  have h1: "hub_ok hub1" "same_setting hub hub1" using learning_spec [OF l ok] by simp_all
  obtain route hub2 where r: "find_destination hub1 s p = (route, hub2)" by fastforce
  note r1 = find_destination_spec [OF r]
  have h2: "hub_ok hub2" "same_setting hub hub2" using r1 moves_ok [OF _ h1(1)] same_trans [OF h1(2)] by blast+
  obtain ok3 hub3 where l3: "learn_ips env hub2 s p = Some (ok3, hub3)"
    using learn_ips_total [OF h2(1)] keep [OF h2(2,1)] by fastforce
  have h3: "hub_ok hub3" "same_setting hub hub3"
    using moves_ok [OF learn_ips_silent [OF l3] h2(1)] same_trans [OF h2(2)] by blast+
  obtain ok4 hub4 where l4: "check_storm env hub3 s route p = Some (ok4, hub4)"
    using check_storm_total keep [OF h3(2,1)] by fastforce
  have h4: "hub_ok hub4" "same_setting hub hub4"
    using moves_ok [OF check_storm_silent [OF l4] h3(1)] same_trans [OF h3(2)] by blast+
  have "d \<in> set (keys hub4)" if "route = Unicast d" for d
  proof -
    obtain e where "macs hub1 (dest_key hub1 p) = Some e" "M_Session e = d"
    proof -
      have "route = (if BroadcastPacket p then Flood else case macs hub1 (dest_key hub1 p) of
          None \<Rightarrow> Flood | Some e \<Rightarrow> if Some (M_Session e) \<noteq> s then Unicast (M_Session e) else Own)"
        using r1 h1(1) by blast
      then show ?thesis using that \<open>route = Unicast d\<close> by (simp split: if_splits option.splits)
    qed
    then have "d \<in> set (keys hub1)" using macs_session [OF h1(1)] by blast
    then show ?thesis using h1 h4 by (simp add: same_setting_def)
  qed
  then obtain hub5 hub' where d: "monitor_loop env s p (H_MonitorList hub4) hub4 = Some hub5"
    "(case route of Unicast d \<Rightarrow> store_unicast env hub5 s d p | _ \<Rightarrow> store_flood env hub5 s p) = Some hub'"
    using deliver_total [OF h4(1)] keep [OF h4(2,1)] by blast
  show ?thesis
    unfolding forward_packet_def learning_def [symmetric] l Option.bind_lunit prod.case r Let_def l3 l4 d(1)
    using False d(2) by auto
qed

lemma Filter_total:
  assumes ok: "hub_ok hub" and k: "k \<in> set (keys hub)"
  shows "\<exists>r. StorePacketFilter env hub k p = Some r"
proof -
  obtain s where s: "session hub k = Some s" using session_total [OF k] by blast
  obtain ok1 s1 where l: "StorePacketFilterByTrafficLimiter (Now env) s p = (ok1, s1)" by fastforce
  note l1 = TrafficLimiter_profile [OF l]
  define hub1 where "hub1 = put_session s1 hub"
  have "silent env hub hub1" unfolding hub1_def using l1 s session_key [OF s] by (intro silent_put [of _ _ s]) auto
  then have h1: "hub_ok hub1" "same_setting hub hub1" using moves_ok [OF _ ok] by blast+
  obtain ok2 hub2 where po: "StorePacketFilterByPolicy env hub1 s1 p = (ok2, hub2)" by fastforce
  have "silent env hub1 hub2" using policy_silent [OF po] by blast
  then have h2: "hub_ok hub2" "same_setting hub hub2" using moves_ok [OF _ h1(1)] same_trans [OF h1(2)] by blast+
  have "k \<in> set (keys hub2)" using k h2 by (simp add: same_setting_def)
  then obtain s2 where s2: "session hub2 k = Some s2" using session_total by blast
  define hub3 where "hub3 = put_session (Stored_session (ApplyAccessListToStoredPacket (listed env) hub2 s2 p)) hub2"
  have "keys hub3 = keys hub2" unfolding hub3_def put_session_def by (rule keys_with) simp
  then have "k \<in> set (keys hub3)" "exists_in hub3 None" using k h2 by (simp_all add: same_setting_def exists_in_def)
  then have "\<exists>h. ForceRedirectToUrl env hub3 k p url = Some h" for url
    using StorePacketToHubPa_total by (simp add: ForceRedirectToUrl_def split: option.split)
  then show ?thesis
    unfolding StorePacketFilter_def s Option.bind_lunit l prod.case hub1_def [symmetric] Let_def po s2 hub3_def [symmetric]
    by (auto split: option.split) (metis bind.bind_lunit)
qed

lemma StorePacket_total:
  assumes ok: "hub_ok hub" and s: "exists_in hub s" and ra: "plain_ra hub p" and d: "Delay p = 0"
    and acl: "list_all delay_ok (items (H_AccessList hub))"
  shows "\<exists>hub'. StorePacket env hub s p = Some hub'"
proof -
  obtain src where src: "sender hub s = Some src" using sender_total [OF s] by blast
  define front where "front = (case s of
      None \<Rightarrow> Some (True, hub, p)
    | Some k \<Rightarrow> let hub = with_session k (note_sender env (H_Option hub) p) hub
        in if DelayedForwardTick p = 0 then StorePacketFilter env hub k p else Some (True, hub, p))"
  have "\<exists>ok1 hub1 p1. front = Some (ok1, hub1, p1) \<and> hub_ok hub1 \<and> same_setting hub hub1 \<and>
      (ok1 \<longrightarrow> p1 = p \<or> s \<noteq> None \<and> (\<exists>a. delay_ok a \<and> p1 = marked p a))"
  proof (cases s)
    case None
    then show ?thesis using ok by (auto simp: front_def same_setting_def)
  next
    case (Some k)
    let ?h = "with_session k (note_sender env (H_Option hub) p) hub"
    have h: "hub_ok ?h" "same_setting hub ?h" using moves_ok [OF note_sender_silent ok] by blast+
    show ?thesis
    proof (cases "DelayedForwardTick p = 0")
      case False
      then show ?thesis using Some h by (auto simp: front_def Let_def)
    next
      case True
      have "k \<in> set (keys ?h)" using s Some h by (simp add: exists_in_def same_setting_def)
      then obtain ok1 hub1 p1 where f: "StorePacketFilter env ?h k p = Some (ok1, hub1, p1)"
        using Filter_total [OF h(1)] by (metis prod_cases3)
      note fi = StorePacketFilter_spec [OF f h(1)]
      have h1: "hub_ok hub1" "same_setting hub hub1" using fi moves_ok [OF _ h(1)] same_trans [OF h(2)] by blast+
      have "p1 = p \<or> (\<exists>a. delay_ok a \<and> p1 = marked p a)" if ok1
      proof -
        have "\<exists>x. decided env ?h x p p1" using fi that by blast
        then show ?thesis using acl h(2) stored_scan_mem
          by (fastforce simp: decided_def list_all_iff same_setting_def split: option.splits)
      qed
      then show ?thesis using Some True f h1 by (auto simp: front_def Let_def)
    qed
  qed
  then obtain ok1 hub1 p1 where f: "front = Some (ok1, hub1, p1)" "hub_ok hub1" "same_setting hub hub1"
    "ok1 \<longrightarrow> p1 = p \<or> s \<noteq> None \<and> (\<exists>a. delay_ok a \<and> p1 = marked p a)" by blast
  show ?thesis
  proof (cases "(\<exists>x \<in> set_option src. PA_MonitorPort x) \<or> \<not> ok1")
    case True
    then show ?thesis unfolding StorePacket_def src Option.bind_lunit front_def [symmetric] f(1) prod.case by auto
  next
    case False
    then have p1: "p1 = p \<or> s \<noteq> None \<and> (\<exists>a. delay_ok a \<and> p1 = marked p a)" using f(4) by blast
    then obtain now hub2 where i: "impair env hub1 s p1 = Some (now, hub2)"
      using impair_total [of p1 s p env hub1] d by auto
    have "is_ra p1 = is_ra p" using p1 by (auto simp: is_ra_def marked_def)
    then have "exists_in hub1 s" "plain_ra hub1 p1"
      using exists_same [OF f(3) s] plain_ra_same [OF f(3,2) ra] by (simp_all add: plain_ra_def)
    then have "\<exists>h. forward_packet env hub1 s p1 = Some h" using forward_total [OF f(2)] by blast
    then show ?thesis using False i impair_silent [OF i]
      unfolding StorePacket_def src Option.bind_lunit front_def [symmetric] f(1) prod.case by auto
  qed
qed

end
