(* ===== verification/HubProps.thy ===== *)
theory HubProps
  imports HubTotal
begin

text \<open>
  The properties of the virtual hub, with an example for each at which its hypotheses hold: a
  hub with three sessions, of which the first two have the privacy filter.
\<close>

section \<open>An example\<close>

definition demo_env :: ENV where
  "demo_env = \<lparr>Now = 100000, Now_highres = 100000, Params = default_params, Rand_loss = 0, Rand_storm = 0,
     Rand1 = False, Rand32 = 0, Rand16 = 0, md5 = (\<lambda>_. replicate 16 0), listed = (\<lambda>_ _. False),
     private_list = None, on_localhost = (\<lambda>_. False), redirect_page = (\<lambda>_. None), has_http_log = (\<lambda>_. False)\<rparr>"

definition demo_session :: "nat \<Rightarrow> POLICY \<Rightarrow> SESSION" where
  "demo_session k pol =
     \<lparr>S_Key = k, S_Policy = pol, S_NormalClient = True, S_BridgeMode = False, S_SecureNATMode = False,
      S_LinkModeServer = False, S_LinkModeClient = False, S_L3SwitchMode = False, S_IsMonitorMode = False,
      S_IsOpenVPNL3Session = False, S_IPv6Session = False, S_IsTcpConnection = True, S_VLanId = 0,
      S_EnableLightRecvFilter = False, S_LightRecvFilterMac = 0, S_LightRecvFilterIPv4_1 = 0,
      S_LightRecvFilterIPv4_2 = 0, S_LastCommTimeForDormant = 0, S_LastDLinkSTPPacketSendTick = 0,
      S_LastDLinkSTPPacketDataHash = [], S_DelayedPacketList = [], S_MaxLoggedPacketsPerMinuteStartTick = 0,
      S_CurrentNumPackets = 0, S_AdjustMss = 0, S_IsUsingUdpAcceleration = False, S_UdpAccelMss = 0,
      S_IsRUDPSession = False, S_RUdpMss = 0, S_FirstTimeHttpRedirect = False,
      S_FirstTimeHttpAccessCheckIp = 0, S_FirstTimeHttpRedirectUrl = [], PA_PacketQueue = [],
      PA_MonitorPort = False, PA_UploadLimiter = \<lparr>LastTime = 0, Lim_Value = 0\<rparr>,
      PA_DownloadLimiter = \<lparr>LastTime = 0, Lim_Value = 0\<rparr>, PA_StormList = lst_new,
      PA_UsernameHash = 0, PA_GroupnameHash = 0\<rparr>"

definition private_policy :: POLICY where
  "private_policy = no_policy\<lparr>P_PrivacyFilter := True, P_CheckMac := True\<rparr>"

definition demo_join :: "nat \<Rightarrow> POLICY \<Rightarrow> HUB \<Rightarrow> HUB" where
  "demo_join k pol hub = session_starts (\<lambda>_. []) 0 0 hub (demo_session k pol) [] [] False"

definition demo_hub :: HUB where
  "demo_hub = demo_join 3 no_policy (demo_join 2 private_policy (demo_join 1 private_policy
     (NewHub no_hub_options \<lparr>SavePacketLog = False, PacketLogConfig = []\<rparr> [2, 0, 0, 0, 0, 0xAE] 0)))"

lemma no_name: "UsernameToInt64 sha1 rnd [] = 0"
proof -
  have "StrLen (Trim (CopyStr [])) = 0" by (simp add: CopyStr_def Trim_strip StrLen_def StrCpy_def rtrim_def)
  then show ?thesis by (simp add: UsernameToInt64_def IsEmptyStr_def)
qed

lemmas join_defs = attach_adapter_def join_monitors_def new_adapter_def

lemma demo_hub_list:
  "H_PaSessions demo_hub = [demo_session 1 private_policy, demo_session 2 private_policy, demo_session 3 no_policy]"
  "H_SessionList demo_hub = [1, 2, 3]"
  "H_MonitorList demo_hub = []" "items (H_AccessList demo_hub) = []" "is_sorted (H_AccessList demo_hub)"
  "H_Option demo_hub = no_hub_options\<lparr>O_DropBroadcastsInPrivacyFilterMode := True, O_DropArpInPrivacyFilterMode := True\<rparr>"
  "H_HubMacAddr demo_hub = [2, 0, 0, 0, 0, 0xAE]" "H_CurrentTcpQueueSize demo_hub = 0" "H_LastFlushTick demo_hub = 0"
  by (simp_all add: demo_hub_def demo_join_def session_starts_def HubPaInit_def AddSession_def join_defs
      NewHub_def demo_session_def no_name InitAccessList_def lst_new_def no_hub_options_def Let_def)

lemma demo_session_fields [simp]: "S_Key (demo_session k pol) = k" "S_Policy (demo_session k pol) = pol"
  by (simp_all add: demo_session_def)

lemma demo_hub_sessions:
  "session demo_hub 1 = Some (demo_session 1 private_policy)" "session demo_hub 2 = Some (demo_session 2 private_policy)"
  "session demo_hub 3 = Some (demo_session 3 no_policy)" "keys demo_hub = [1, 2, 3]"
  by (simp_all add: session_def keys_def demo_hub_list)

lemma demo_joined:
  assumes "hub_ok hub" and "monitors_ok hub" and "k \<notin> set (keys hub)" and "k \<notin> set (H_SessionList hub)"
  shows "hub_ok (demo_join k pol hub) \<and> monitors_ok (demo_join k pol hub) \<and>
    keys (demo_join k pol hub) = keys hub @ [k] \<and> H_SessionList (demo_join k pol hub) = H_SessionList hub @ [k] \<and>
    macs (demo_join k pol hub) = macs hub"
  using session_starts_ok [of hub "demo_session k pol" "demo_join k pol hub" "\<lambda>_. []" 0 0 "[]" "[]" False default_params] assms
  by (simp add: demo_join_def)

definition empty_hub :: HUB where
  "empty_hub = NewHub no_hub_options \<lparr>SavePacketLog = False, PacketLogConfig = []\<rparr> [2, 0, 0, 0, 0, 0xAE] 0"

lemma demo_hub_joins:
  "demo_hub = demo_join 3 no_policy (demo_join 2 private_policy (demo_join 1 private_policy empty_hub))"
  by (simp add: demo_hub_def empty_hub_def)

lemma empty_hub_ok: "hub_ok empty_hub" "monitors_ok empty_hub" "keys empty_hub = []" "H_SessionList empty_hub = []"
  "macs empty_hub = Map.empty"
proof -
  have "hub_inv default_params (\<lambda>_. []) 0 (empty_hub, \<lambda>_. Outside)"
    unfolding empty_hub_def by (rule NewHub_inv) (simp add: default_params_def)
  then show "hub_ok empty_hub" by (simp add: hub_inv_def)
  show "monitors_ok empty_hub" unfolding empty_hub_def
    by (rule NewHub_inv(2) [of default_params]) (simp add: default_params_def)
  show "keys empty_hub = []" "H_SessionList empty_hub = []" by (simp_all add: empty_hub_def NewHub_def keys_def Let_def)
  show "macs empty_hub = Map.empty"
    by (simp add: fun_eq_iff macs_def empty_hub_def NewHub_def Let_def mac_tbl.NewHashList_view)
qed

lemma demo_hub_ok: "hub_ok demo_hub" "monitors_ok demo_hub" "macs demo_hub = Map.empty"
proof -
  define h1 h2 where "h1 = demo_join 1 private_policy empty_hub" and "h2 = demo_join 2 private_policy h1"
  have h1: "hub_ok h1 \<and> monitors_ok h1 \<and> keys h1 = [1] \<and> H_SessionList h1 = [1] \<and> macs h1 = Map.empty"
    using demo_joined [of empty_hub 1 private_policy] empty_hub_ok by (simp add: h1_def)
  then have h2: "hub_ok h2 \<and> monitors_ok h2 \<and> keys h2 = [1, 2] \<and> H_SessionList h2 = [1, 2] \<and> macs h2 = Map.empty"
    using demo_joined [of h1 2 private_policy] by (simp add: h2_def)
  then have "hub_ok demo_hub \<and> monitors_ok demo_hub \<and> macs demo_hub = Map.empty"
    using demo_joined [of h2 3 no_policy] by (simp add: demo_hub_joins h2_def h1_def)
  then show "hub_ok demo_hub" "monitors_ok demo_hub" "macs demo_hub = Map.empty" by simp_all
qed

text \<open>A frame to and from MAC addresses that end with the given bytes.\<close>

definition hub_packet :: "u8 \<Rightarrow> u8 \<Rightarrow> PKT" where
  "hub_packet x y = no_packet\<lparr>PacketData := [2, 0, 0, 0, 0, x] @ [2, 0, 0, 0, 0, y] @ [0x88, 0xb5] @ replicate 46 0,
     MacAddressSrc_at := 6\<rparr>"

lemma hub_packet_fields:
  "MacAddressSrc (hub_packet x y) = [2, 0, 0, 0, 0, y]" "MacAddressDest (hub_packet x y) = [2, 0, 0, 0, 0, x]"
  "VlanId (hub_packet x y) = 0" "\<not> BroadcastPacket (hub_packet x y)" "\<not> AccessChecked (hub_packet x y)"
  "Delay (hub_packet x y) = 0" "DelayedForwardTick (hub_packet x y) = 0" "\<not> is_ra (hub_packet x y)"
  "TypeL3 (hub_packet x y) = 0"
  by (simp_all add: hub_packet_def no_packet_def MacAddressSrc_def MacAddressDest_def is_ra_def)

text \<open>The third session has made itself known.\<close>

definition third_entry :: MAC_TABLE_ENTRY where
  "third_entry = \<lparr>M_MacAddress = [2, 0, 0, 0, 0, 3], M_VlanId = 0, M_Session = 3, M_CreatedTime = 99000, M_UpdatedTime = 99000\<rparr>"

definition demo_known :: HUB where
  "demo_known = demo_hub\<lparr>H_MacHashTable := AddHash GetHashOfMacTable CompareMacTable (H_MacHashTable demo_hub) third_entry\<rparr>"

lemma demo_known_ok: "hub_ok demo_known" "macs demo_known = [([2, 0, 0, 0, 0, 3], 0) \<mapsto> third_entry]"
proof -
  have n: "HASH_NumItems (H_MacHashTable demo_hub) < MAX_MAC_TABLES default_params"
  proof -
    have "HashListToArray (H_MacHashTable demo_hub) = []"
    proof (rule ccontr)
      assume "HashListToArray (H_MacHashTable demo_hub) \<noteq> []"
      then obtain e where "e \<in> set (HashListToArray (H_MacHashTable demo_hub))" by (metis list.set_sel(1))
      then have "macs demo_hub (mac_key e) = Some e" using macs_Some [OF demo_hub_ok(1)] by blast
      then show False by (simp add: demo_hub_ok(3))
    qed
    moreover have "mac_tbl.hash_ok (H_MacHashTable demo_hub)" using demo_hub_ok(1) by (simp add: hub_ok_def hub_tables_ok_def)
    ultimately show ?thesis by (simp add: mac_tbl.hash_ok_def default_params_def)
  qed
  have "step default_params {} demo_hub demo_known \<and> macs demo_known = (macs demo_hub)(mac_key third_entry \<mapsto> third_entry)"
    using add_mac_spec [where hub = demo_hub and e = third_entry and g = default_params] n demo_hub_ok(1)
    by (simp add: demo_hub_ok(3) demo_known_def demo_hub_sessions third_entry_def)
  then show "hub_ok demo_known" "macs demo_known = [([2, 0, 0, 0, 0, 3], 0) \<mapsto> third_entry]"
    using demo_hub_ok(1) by (simp_all add: step_def demo_hub_ok(3) mac_key_def third_entry_def)
qed

lemma demo_known_list:
  "session demo_known = session demo_hub" "keys demo_known = [1, 2, 3]" "H_MonitorList demo_known = []"
  "H_Option demo_known = H_Option demo_hub" "H_AccessList demo_known = H_AccessList demo_hub"
  "queue demo_known = queue demo_hub" "H_PaSessions demo_known = H_PaSessions demo_hub"
  "H_HubMacAddr demo_known = H_HubMacAddr demo_hub"
  by (simp_all add: demo_known_def demo_hub_sessions demo_hub_list)

section \<open>The hub as a whole\<close>

text \<open>C2: a hub takes a packet of the hub itself or of any session that has an adapter to the end: no
  destination that its tables, its lists or its monitors lead to is missing, and no division by zero
  stops it, provided that no entry of the access list has a jitter above 100 or, with a delay and a
  jitter, a product of both below 100, that the packet is not delayed yet, and that it is no router
  advertisement when some session must not learn a default router. Afterwards the tables are well
  formed and name only sessions that have an adapter, settings, policies and the access list are the
  same, the tables and queues are within their limits if they were, and the count of the bytes
  that wait to be flooded is right. What the code reads of a packet's headers is taken from the
  parsed packet here; that those headers are inside of the frame is the parser's business (C12).\<close>

theorem hub_stores_packet:
  assumes "hub_ok hub" and "\<forall>k. s = Some k \<longrightarrow> k \<in> set (keys hub)" and "plain_ra hub p" and "Delay p = 0"
    and "list_all delay_ok (items (H_AccessList hub))"
  shows "\<exists>hub'. StorePacket env hub s p = Some hub' \<and> hub_ok hub' \<and> same_setting hub hub' \<and>
    balance hub' = balance hub \<and> (within (Params env) hub \<longrightarrow> within (Params env) hub')"
proof -
  have "exists_in hub s" using assms(2) by (simp add: exists_in_def)
  then obtain hub' where h: "StorePacket env hub s p = Some hub'" using StorePacket_total assms by blast
  show ?thesis using h StorePacket_spec [OF h assms(1)] assms(1) by (simp add: step_def)
qed

lemma demo_stores: "\<exists>hub'. StorePacket demo_env demo_known (Some 1) (hub_packet x y) = Some hub'"
  by (rule StorePacket_total)
    (simp_all add: demo_known_ok exists_in_def demo_known_list plain_ra_def hub_packet_fields demo_hub_list)

theorem hub_stores_packet_witness:
  "\<exists>hub'. StorePacket demo_env demo_known (Some 1) (hub_packet 9 1) = Some hub' \<and> hub_ok hub'"
proof -
  have "plain_ra demo_known (hub_packet 9 1)" by (simp add: plain_ra_def hub_packet_fields)
  with hub_stores_packet [OF demo_known_ok(1), of "Some 1" "hub_packet 9 1" demo_env]
  show ?thesis by (auto simp: demo_known_list hub_packet_fields demo_hub_list)
qed

text \<open>C3: whatever happens to a hub, in any order and with the threads of any number of sessions anywhere on
  their way, from \<open>AddSession\<close> over \<open>HubPaInit\<close>, the frames that they hand in and fetch, and
  \<open>DelSession\<close> to the parts of \<open>HubPaFree\<close> (the list of monitors; the tables and then the adapter, to
  which nothing leads in between), also when all sessions are stopped, with packets of the hub itself and new entries of its access list in between: the tables of addresses, the
  monitors and the queues belong to sessions whose adapter is there and not freed yet, with one entry
  for an address; a session that runs has its adapter, one that has left is in no list; the
  monitors are exactly the monitoring sessions between the two locks of that list; tables and
  queues stay within their limits, the access list stays sorted, and the server's count of waiting
  bytes differs from those in the hub's queues by what the rest of the server has. It is assumed
  that the table of IP addresses may have entries at all and that how access list entries compare in
  memory does not depend on their number.\<close>

theorem hub_invariant:
  assumes "hub_reachable g memory n (hub, at)" and "0 < MAX_IP_TABLES g" and "\<And>a i. memory (a\<lparr>A_Id := i\<rparr>) = memory a"
  shows "hub_ok hub \<and> places_ok hub at \<and> within g hub \<and> acl_ok memory (H_AccessList hub) \<and>
    H_CurrentTcpQueueSize hub = n + total_flooded (H_PaSessions hub)"
  using reachable_inv [OF assms] by (auto simp: hub_inv_def balance_def)

text \<open>A session that starts, step by step, and the third one on its way out, when its adapter is still known.\<close>

lemma demo_joins_reachable:
  assumes r: "hub_reachable g memory n (hub, at)" and out: "at k = Outside" and new: "k \<notin> set (keys hub)"
  shows "hub_reachable g memory n (demo_join k pol hub, at(k := Running))"
proof -
  define t where "t = new_adapter (\<lambda>_. []) 0 0 [] [] False (demo_session k pol)"
  have t: "S_Key t = k" by (simp add: t_def)
  have r1: "hub_reachable g memory n (AddSession hub k, at(k := Added))"
    by (rule hub_reachable.event [OF r]) (rule hub_event.adds, rule out)
  have "hub_event g memory (AddSession hub k, at(k := Added)) (attach_adapter (AddSession hub k) t,
      (at(k := Added))(S_Key (demo_session k pol) := Attached))"
    by (rule hub_event.attaches [OF _ t_def]) simp
  then have r2: "hub_reachable g memory n (attach_adapter (AddSession hub k) t, at(k := Attached))"
    using hub_reachable.event [OF r1] by simp
  have "session (attach_adapter (AddSession hub k) t) k = Some t"
    using session_attach [of t "AddSession hub k" k] new by (simp add: t list_fields)
  then have "hub_event g memory (attach_adapter (AddSession hub k) t, at(k := Attached))
      (join_monitors (attach_adapter (AddSession hub k) t) t, (at(k := Attached))(k := Running))"
    by (intro hub_event.monitors) simp_all
  then show ?thesis using hub_reachable.event [OF r2]
    by (simp add: demo_join_def session_starts_def HubPaInit_def t_def Let_def)
qed

definition demo_places :: "nat \<Rightarrow> PLACE" where
  "demo_places = (\<lambda>_. Outside)(1 := Running, 2 := Running, 3 := Running)"

lemma demo_reachable: "hub_reachable default_params memory 0 (demo_hub, demo_places)"
proof -
  define h1 h2 where "h1 = demo_join 1 private_policy empty_hub" and "h2 = demo_join 2 private_policy h1"
  have "keys h1 = [1]" "keys h2 = [1, 2]"
    by (simp_all add: h1_def h2_def keys_def demo_join_def session_starts_def HubPaInit_def join_defs AddSession_def
        empty_hub_def NewHub_def Let_def)
  moreover have "hub_reachable default_params memory 0 (empty_hub, \<lambda>_. Outside)"
    unfolding empty_hub_def by (rule hub_reachable.fresh)
  then have "hub_reachable default_params memory 0 (h1, (\<lambda>_. Outside)(1 := Running))"
    unfolding h1_def by (rule demo_joins_reachable) (simp_all add: empty_hub_ok)
  then have "hub_reachable default_params memory 0 (h2, (\<lambda>_. Outside)(1 := Running, 2 := Running))"
    unfolding h2_def by (rule demo_joins_reachable) (simp_all add: \<open>keys h1 = [1]\<close>)
  then show ?thesis unfolding demo_hub_joins h1_def [symmetric] h2_def [symmetric] demo_places_def
    by (rule demo_joins_reachable) (simp_all add: \<open>keys h2 = [1, 2]\<close>)
qed

theorem hub_invariant_witness:
  "\<exists>at. at 3 = Deleted \<and> hub_ok (DelSession demo_hub 3) \<and> places_ok (DelSession demo_hub 3) at \<and>
    H_CurrentTcpQueueSize (DelSession demo_hub 3) = total_flooded (H_PaSessions (DelSession demo_hub 3))"
proof -
  have "hub_event default_params (\<lambda>_. []) (demo_hub, demo_places) (DelSession demo_hub 3, demo_places(3 := Deleted))"
    by (rule hub_event.deletes) (simp add: demo_places_def)
  then have "hub_reachable default_params (\<lambda>_. []) 0 (DelSession demo_hub 3, demo_places(3 := Deleted))"
    by (rule hub_reachable.event [OF demo_reachable])
  from hub_invariant [OF this] show ?thesis by (intro exI [of _ "demo_places(3 := Deleted)"]) (simp add: default_params_def)
qed

section \<open>The access list\<close>

text \<open>C7: the two passes over the access list, one when a packet comes in and one for each destination, decide
  as if the whole list were searched once with the destination known: a packet that no option of
  the hub filters and that no entry redirects passes both exactly if no matching entry discards it
  whose priority number is below that of every matching entry that lets it pass.\<close>

theorem access_list_first_match:
  assumes "plain hub s p" and "acl_sorted (items (H_AccessList hub))"
    and "r = ApplyAccessListToStoredPacket lst hub s p"
  shows "(Pass r \<and> ApplyAccessListToForwardPacket lst hub s dest (Stored_packet r)) =
    (\<not> refuses (masks lst (H_Option hub) s dest p) (items (H_AccessList hub)))"
  using two_passes [OF assms(1), of lst dest] first_match_refuses [OF assms(2)] by (simp add: Let_def assms(3))

text \<open>An entry that lets the first sender's frames pass, and one that discards everything.\<close>

definition demo_rule :: "u32 \<Rightarrow> bool \<Rightarrow> bool \<Rightarrow> ACCESS" where
  "demo_rule prio discard check_src =
     \<lparr>A_Id = 0, A_Active = True, A_Priority = prio, A_Discard = discard, A_SrcIpAddress = 0, A_SrcSubnetMask = 0,
      A_DestIpAddress = 0, A_DestSubnetMask = 0, A_Protocol = 0, A_SrcPortStart = 0, A_SrcPortEnd = 0,
      A_DestPortStart = 0, A_DestPortEnd = 0, A_SrcUsernameHash = 0, A_IsSrcUsernameIncludeOrExclude = False,
      A_SrcUsername = [], A_IsDestUsernameIncludeOrExclude = False, A_DestUsernameHash = 0, A_DestUsername = [],
      A_CheckSrcMac = check_src, A_SrcMacAddress = [2, 0, 0, 0, 0, 1], A_SrcMacMask = replicate 6 0xff,
      A_CheckDstMac = False, A_DstMacAddress = replicate 6 0, A_DstMacMask = replicate 6 0,
      A_CheckTcpState = False, A_Established = False, A_Delay = 0, A_Jitter = 0, A_Loss = 0, A_RedirectUrl = [],
      A_IsIPv6 = False, A_SrcIpAddress6 = replicate 16 0, A_SrcSubnetMask6 = replicate 16 0,
      A_DestIpAddress6 = replicate 16 0, A_DestSubnetMask6 = replicate 16 0, A_UniqueId = 0\<rparr>"

definition guarded :: HUB where
  "guarded = demo_known\<lparr>H_AccessList := \<lparr>items = [demo_rule 10 False True, demo_rule 20 True False], is_sorted = True\<rparr>\<rparr>"

lemma guarded_list:
  "session guarded = session demo_hub" "keys guarded = [1, 2, 3]" "H_MonitorList guarded = []"
  "H_Option guarded = H_Option demo_hub" "queue guarded = queue demo_hub" "H_PaSessions guarded = H_PaSessions demo_hub"
  "items (H_AccessList guarded) = [demo_rule 10 False True, demo_rule 20 True False]"
proof -
  have ses: "session guarded = session demo_known" by (simp add: guarded_def fun_eq_iff session_def)
  then show "session guarded = session demo_hub" by (simp add: demo_known_list)
  show "queue guarded = queue demo_hub" using demo_known_list(6) ses by (simp add: fun_eq_iff queue_def)
  show "keys guarded = [1, 2, 3]" using demo_known_list(2) by (simp add: guarded_def keys_def)
  show "H_MonitorList guarded = []" "H_Option guarded = H_Option demo_hub" "H_PaSessions guarded = H_PaSessions demo_hub"
    "items (H_AccessList guarded) = [demo_rule 10 False True, demo_rule 20 True False]"
    by (simp_all add: guarded_def demo_known_list)
qed

lemma guarded_ok: "hub_ok guarded"
  using demo_known_ok(1) by (simp add: guarded_def hub_ok_def hub_tables_ok_def keys_def)

lemma demo_mac_match: "mac_match [2, 0, 0, 0, 0, 1] (replicate 6 0xff) [2, 0, 0, 0, 0, y] = (y = 1)"
proof -
  have "(0xff :: u8) = - 1" by simp
  then have "(0xff :: u8) AND y = y" by (metis and.left_neutral)
  moreover have "[0..<6] = [0, 1, 2, 3, 4, 5]" by (simp add: upt_rec)
  ultimately show ?thesis by (simp add: mac_match_def byte_of_def numeral_eq_Suc eq_commute [of 1])
qed

lemma demo_masks:
  "masks lst opt (demo_session i a) (demo_session j b) (hub_packet x y) (demo_rule n f c) = (\<not> c \<or> y = 1)"
  by (simp add: masks_def IsPacketMaskedByAccessList_def user_match_zero hub_packet_fields demo_rule_def demo_mac_match
      ip4_match_def protocol_match_def ports_match_def tcp_state_match_def)

lemma guarded_refuses:
  "refuses (masks lst opt (demo_session i a) (demo_session j b) (hub_packet x y)) (items (H_AccessList guarded)) = (y \<noteq> 1)"
  by (auto simp: refuses_def guarded_list demo_masks) (auto simp: demo_rule_def)

lemma guarded_sorted: "acl_sorted (items (H_AccessList guarded))"
  by (simp add: acl_sorted_def guarded_list rank_def demo_rule_def)

lemma demo_plain: "plain guarded (demo_session k pol) (hub_packet x y)"
proof -
  have "\<not> filtered_by_option (H_Option guarded) (hub_packet x y)"
    by (simp add: filtered_by_option_def guarded_list demo_hub_list no_hub_options_def)
  then show ?thesis
    by (simp add: plain_def hub_packet_fields guarded_list demo_rule_def) (simp add: demo_session_def)
qed

theorem access_list_first_match_witness:
  "\<exists>r. r = ApplyAccessListToStoredPacket (\<lambda>_ _. False) guarded (demo_session 1 private_policy) (hub_packet 3 2) \<and>
    \<not> (Pass r \<and> ApplyAccessListToForwardPacket (\<lambda>_ _. False) guarded (demo_session 1 private_policy)
      (demo_session 3 no_policy) (Stored_packet r))"
proof -
  define r where "r = ApplyAccessListToStoredPacket (\<lambda>_ _. False) guarded (demo_session 1 private_policy) (hub_packet 3 2)"
  have "(Pass r \<and> ApplyAccessListToForwardPacket (\<lambda>_ _. False) guarded (demo_session 1 private_policy)
      (demo_session 3 no_policy) (Stored_packet r)) =
    (\<not> refuses (masks (\<lambda>_ _. False) (H_Option guarded) (demo_session 1 private_policy) (demo_session 3 no_policy) (hub_packet 3 2))
      (items (H_AccessList guarded)))"
    by (rule access_list_first_match [OF demo_plain guarded_sorted r_def])
  then show ?thesis unfolding guarded_refuses using r_def by auto
qed

text \<open>C4: the access list is enforced on every way through the hub, to monitoring sessions too: the queue of a
  session for which the list refuses a packet does not change (router advertisements aside, which
  are checked after they have been changed).\<close>

theorem access_list_enforced:
  assumes "StorePacket env hub (Some k) p = Some hub'" and "hub_ok hub"
    and "session hub k = Some src" and "session hub d = Some dest" and "d \<noteq> k"
    and "DelayedForwardTick p = 0" and "\<not> AccessChecked p" and "\<not> is_ra p"
    and "acl_sorted (items (H_AccessList hub))"
    and "refuses (masks (listed env) (H_Option hub) src dest p) (items (H_AccessList hub))"
  shows "queue hub' d = queue hub d"
proof -
  have "\<not> allows (first_match (listed env) (H_Option hub) src dest p (items (H_AccessList hub)))"
    using first_match_refuses [OF assms(9)] assms(10) by simp
  with refused_not_reached [OF assms(3-8)] not_reached [OF assms(1,2)] show ?thesis by blast
qed

theorem access_list_enforced_witness:
  "\<exists>hub'. StorePacket demo_env guarded (Some 1) (hub_packet 3 2) = Some hub' \<and> queue hub' 3 = queue guarded 3"
proof -
  have "\<exists>hub'. StorePacket demo_env guarded (Some 1) (hub_packet 3 2) = Some hub'"
    by (rule StorePacket_total)
      (simp_all add: guarded_ok exists_in_def guarded_list plain_ra_def hub_packet_fields delay_ok_def demo_rule_def)
  then obtain hub' where h: "StorePacket demo_env guarded (Some 1) (hub_packet 3 2) = Some hub'" by blast
  have "session guarded 1 = Some (demo_session 1 private_policy)" "session guarded 3 = Some (demo_session 3 no_policy)"
    by (simp_all only: guarded_list demo_hub_sessions)
  from access_list_enforced [OF h guarded_ok this] guarded_sorted guarded_refuses h show ?thesis
    by (simp add: hub_packet_fields)
qed

text \<open>C22: adding an entry to the access list keeps it sorted by priority, with entries that pass before entries
  that discard, and within its limit; the entries are the old ones and the corrected new one, numbered
  from 1 in their order. How the rest of an entry compares must not depend on its number.\<close>

theorem access_list_sorted:
  assumes "\<And>a i. memory (a\<lparr>A_Id := i\<rparr>) = memory a" and "acl_ok memory l"
    and "l' = AddAccessList memory sha1 rnd1 rnd2 l a"
  shows "acl_ok memory l' \<and> acl_sorted (items l') \<and>
    (length (items l) < MAX_ACCESSLISTS \<longrightarrow>
      mset (map (A_Id_update (\<lambda>_. 0)) (items l')) =
        mset (map (A_Id_update (\<lambda>_. 0)) (correct_access sha1 rnd1 rnd2 a # items l)) \<and>
      map A_Id (items l') = map (\<lambda>i. of_nat i + 1) [0..<length (items l')])"
  using AddAccessList_ok [OF assms] sorted_cmp_rank by (auto simp: acl_ok_def)

theorem access_list_sorted_witness:
  "\<exists>l'. l' = AddAccessList (\<lambda>_. []) (\<lambda>_. []) 0 0 InitAccessList (demo_rule 10 True False) \<and> acl_sorted (items l') \<and>
    map A_Id (items l') = map (\<lambda>i. of_nat i + 1) [0..<length (items l')]"
proof -
  have l: "acl_ok (\<lambda>_. []) InitAccessList" by (simp add: acl_ok_def InitAccessList_def lst_new_def sorted_cmp_def)
  have n: "length (items InitAccessList) < MAX_ACCESSLISTS" by (simp add: InitAccessList_def lst_new_def)
  from access_list_sorted [OF _ l refl, of "\<lambda>_. []" 0 0 "demo_rule 10 True False"] n show ?thesis by blast
qed

section \<open>Who gets a packet\<close>

text \<open>C5: two sessions with the privacy filter do not hear of each other: what one sends, to a known address, to
  an unknown one or to all, is not put into the queue of the other, which does not monitor the hub.
  For a broadcast or multicast this takes the hub option \<open>DropBroadcastsInPrivacyFilterMode\<close>, for an ARP
  packet the option \<open>DropArpInPrivacyFilterMode\<close>; without them the code lets these two kinds pass.\<close>

theorem privacy_filter:
  assumes "StorePacket env hub (Some k) p = Some hub'" and "hub_ok hub"
    and "session hub k = Some src" and "session hub d = Some dest" and "d \<noteq> k" and "d \<notin> set (H_MonitorList hub)"
    and "P_PrivacyFilter (S_Policy src)" and "P_PrivacyFilter (S_Policy dest)"
    and "O_DropBroadcastsInPrivacyFilterMode (H_Option hub) \<or> \<not> BroadcastPacket p"
    and "O_DropArpInPrivacyFilterMode (H_Option hub) \<or> TypeL3 p \<noteq> L3_ARPV4"
  shows "queue hub' d = queue hub d"
proof -
  have "private_pair hub (Some k) d p"
    using assms(3,4,7-10) by (simp add: private_pair_def the_sender_def private_between_def)
  then have "d \<notin> reached env hub (Some k) p" using kept_apart_not_reached assms(5,6) by blast
  then show ?thesis by (rule not_reached [OF assms(1,2)])
qed

theorem privacy_filter_witness:
  "\<exists>hub'. StorePacket demo_env demo_known (Some 1) (hub_packet 9 1) = Some hub' \<and> queue hub' 2 = queue demo_known 2"
proof -
  obtain hub' where h: "StorePacket demo_env demo_known (Some 1) (hub_packet 9 1) = Some hub'" using demo_stores by blast
  have "session demo_known 1 = Some (demo_session 1 private_policy)" "session demo_known 2 = Some (demo_session 2 private_policy)"
    by (simp_all only: demo_known_list demo_hub_sessions)
  from privacy_filter [OF h demo_known_ok(1) this] h show ?thesis
    by (simp add: demo_known_list demo_hub_list private_policy_def)
qed

text \<open>C6: a packet to an address that another session has made known goes to no one else: the queues of all
  others but the monitoring sessions stay as they are, whatever this packet makes the hub learn.\<close>

theorem unicast_to_owner:
  assumes "StorePacket env hub s p = Some hub'" and "hub_ok hub"
    and "\<not> BroadcastPacket p" and "dest_key hub p \<noteq> src_key hub p"
    and "macs hub (dest_key hub p) = Some e" and "\<not> mac_expired (Params env) (Now env) e"
    and "d \<noteq> M_Session e" and "Some d \<noteq> s" and "d \<notin> set (H_MonitorList hub)"
  shows "queue hub' d = queue hub d"
proof -
  have "elsewhere env hub d p" using assms(3-7) by (auto simp: elsewhere_def)
  then have "d \<notin> reached env hub s p" using kept_apart_not_reached assms(8,9) by blast
  then show ?thesis by (rule not_reached [OF assms(1,2)])
qed

theorem unicast_to_owner_witness:
  "\<exists>hub'. StorePacket demo_env demo_known (Some 1) (hub_packet 3 1) = Some hub' \<and> queue hub' 2 = queue demo_known 2"
proof -
  obtain hub' where h: "StorePacket demo_env demo_known (Some 1) (hub_packet 3 1) = Some hub'" using demo_stores by blast
  have k: "dest_key demo_known (hub_packet 3 1) = ([2, 0, 0, 0, 0, 3], 0)" "src_key demo_known (hub_packet 3 1) = ([2, 0, 0, 0, 0, 1], 0)"
    by (simp_all add: dest_key_def src_key_def vlan_of_def hub_packet_fields)
  have "\<not> mac_expired (Params demo_env) (Now demo_env) third_entry"
    by (simp add: mac_expired_def demo_env_def default_params_def third_entry_def)
  from unicast_to_owner [OF h demo_known_ok(1) _ _ _ this, of 2] h show ?thesis
    by (simp add: k demo_known_ok(2) hub_packet_fields demo_known_list) (simp add: third_entry_def)
qed

text \<open>C8: a session never gets its own packets back, broadcasts included, unless it monitors the hub; the hub
  answers in its place only to show it a page.\<close>

theorem no_echo:
  assumes "StorePacket env hub (Some k) p = Some hub'" and "hub_ok hub" and "session hub k = Some src"
    and "no_redirect hub src" and "k \<notin> set (H_MonitorList hub)"
  shows "queue hub' k = queue hub k"
  by (rule not_reached [OF assms(1,2)]) (rule sender_not_reached [OF assms(3-5)])

theorem no_echo_witness:
  "\<exists>hub'. StorePacket demo_env demo_known (Some 1) (hub_packet 9 1) = Some hub' \<and> queue hub' 1 = queue demo_known 1"
proof -
  obtain hub' where h: "StorePacket demo_env demo_known (Some 1) (hub_packet 9 1) = Some hub'" using demo_stores by blast
  have s: "session demo_known 1 = Some (demo_session 1 private_policy)" by (simp only: demo_known_list demo_hub_sessions)
  have "no_redirect demo_known (demo_session 1 private_policy)"
    by (simp add: no_redirect_def demo_known_list demo_hub_list demo_session_def)
  from no_echo [OF h demo_known_ok(1) s this] h show ?thesis by (simp add: demo_known_list)
qed

section \<open>Learning addresses\<close>

text \<open>C19: what a hub knows of MAC addresses comes from their senders only: storing a packet changes no other entry
  than that of its source address, apart from dropping expired ones, and the entry that it may get
  is the sender's, as of now.\<close>

theorem addresses_learnt:
  assumes "StorePacket env hub (Some k) p = Some hub'" and "hub_ok hub"
  shows "macs hub' a = macs hub a \<or>
    (a \<noteq> src_key hub p \<and> macs hub' a = None \<and> (\<exists>e. macs hub a = Some e \<and> mac_expired (Params env) (Now env) e)) \<or>
    (a = src_key hub p \<and> (\<exists>e. macs hub' a = Some e \<and> M_Session e = k \<and> M_UpdatedTime e = Now env))"
proof -
  have l: "other_macs_kept env hub hub' (src_key hub p)"
    "macs hub' (src_key hub p) = macs hub (src_key hub p) \<or>
     (\<exists>e. macs hub' (src_key hub p) = Some e \<and> M_Session e = k \<and> M_UpdatedTime e = Now env)"
    using StorePacket_spec [OF assms] by (simp_all add: learnt_def)
  show ?thesis
  proof (cases "a = src_key hub p")
    case False
    from l(1) [unfolded other_macs_kept_def, rule_format, OF False] False show ?thesis by blast
  qed (use l(2) in blast)
qed

theorem addresses_learnt_witness:
  "\<exists>hub'. StorePacket demo_env demo_known (Some 1) (hub_packet 9 1) = Some hub' \<and>
    macs hub' ([2, 0, 0, 0, 0, 3], 0) = Some third_entry"
proof -
  obtain hub' where h: "StorePacket demo_env demo_known (Some 1) (hub_packet 9 1) = Some hub'" using demo_stores by blast
  have "src_key demo_known (hub_packet 9 1) = ([2, 0, 0, 0, 0, 1], 0)"
    by (simp add: src_key_def vlan_of_def hub_packet_fields)
  then show ?thesis using addresses_learnt [OF h demo_known_ok(1), of "([2, 0, 0, 0, 0, 3], 0)"] h
    by (auto simp: demo_known_ok(2) mac_expired_def demo_env_def default_params_def third_entry_def)
qed

text \<open>C20: with the policy \<open>CheckMac\<close>, or as a local bridge while the hub option
  \<open>DisableCheckMacOnLocalBridge\<close> is off, a session cannot take over an address that another one has used
  within the last 13 seconds: its packet reaches no one else and no entry of the table changes.
  Not covered are the sources that the code lets through: the address of the hub itself,
  00:0d:88:00:00:00 always, and 00:80:c8:00:00:00 while the option \<open>FixForDLinkBPDU\<close> is on.\<close>

theorem takeover_refused:
  assumes "StorePacket env hub (Some k) p = Some hub'" and "hub_ok hub" and "session hub k = Some s"
    and "protected env hub s p"
  shows "macs hub' = macs hub \<and> (\<forall>d. d = k \<or> queue hub' d = queue hub d)"
proof -
  have "moves env (answered hub k) hub hub'" by (rule protected_stays [OF assms(2,3,4,1)])
  then have "macs hub' = macs hub" "appended (answered hub k) hub hub'"
    using assms(2) by (simp_all add: moves_def step_def)
  moreover have "queue hub' d = queue hub d" if "d \<noteq> k" for d
    using calculation(2) that by (auto simp: appended_def answered_def dest: spec [of _ d])
  ultimately show ?thesis by blast
qed

theorem takeover_refused_witness:
  "\<exists>hub'. StorePacket demo_env demo_known (Some 1) (hub_packet 9 3) = Some hub' \<and> macs hub' = macs demo_known \<and>
    queue hub' 3 = queue demo_known 3"
proof -
  obtain hub' where h: "StorePacket demo_env demo_known (Some 1) (hub_packet 9 3) = Some hub'" using demo_stores by blast
  have s: "session demo_known 1 = Some (demo_session 1 private_policy)" by (simp only: demo_known_list demo_hub_sessions)
  have "protected demo_env demo_known (demo_session 1 private_policy) (hub_packet 9 3)"
    by (simp add: protected_def hub_packet_fields private_policy_def demo_known_list demo_hub_list no_hub_options_def
        DLinkStp_def DLinkStp2_def demo_known_ok(2) src_key_def vlan_of_def third_entry_def demo_env_def)
  from takeover_refused [OF h demo_known_ok(1) s this] have "macs hub' = macs demo_known" "queue hub' 3 = queue demo_known 3"
    by (auto dest: spec [of _ 3])
  then show ?thesis using h by blast
qed

section \<open>Sessions that end\<close>

text \<open>C21: when a session has ended, with \<open>DelSession\<close> and \<open>HubPaFree\<close>, nothing in the hub names it any
  more, in the list of sessions, among the monitors or in the tables of addresses; the entries and the
  queues of all others stay, and the bytes of its queue are given back.\<close>

theorem session_leaves_no_trace:
  assumes "hub_ok hub" and "monitors_ok hub" and "session_ends hub k = Some hub'"
  shows "hub_ok hub' \<and> monitors_ok hub' \<and> session hub' k = None \<and> k \<notin> set (H_MonitorList hub') \<and>
    (\<forall>a. macs hub' a = (case macs hub a of None \<Rightarrow> None | Some e \<Rightarrow> if M_Session e = k then None else Some e)) \<and>
    (\<forall>a. ips hub' a = (case ips hub a of None \<Rightarrow> None | Some e \<Rightarrow> if I_Session e = k then None else Some e)) \<and>
    (\<forall>j. queue hub' j = (if j = k then [] else queue hub j)) \<and> balance hub' = balance hub \<and>
    k \<notin> set (H_SessionList hub')"
proof -
  note e = session_ends_ok [OF assms, of default_params]
  then have "k \<notin> set (keys hub')" by simp
  then show ?thesis using e session_exists [of hub' k] unfolding hub_ok_def by blast
qed

theorem session_leaves_no_trace_witness:
  "\<exists>hub'. session_ends demo_known 3 = Some hub' \<and> session hub' 3 = None \<and> macs hub' ([2, 0, 0, 0, 0, 3], 0) = None"
proof -
  obtain hub' where h: "session_ends demo_known 3 = Some hub'"
    by (simp add: session_ends_def demo_known_list demo_hub_sessions)
  have "monitors_ok demo_known" using demo_hub_ok(2) by (simp add: monitors_ok_def demo_known_list demo_hub_list)
  from session_leaves_no_trace [OF demo_known_ok(1) this h] h show ?thesis
    by (simp add: demo_known_ok(2) third_entry_def)
qed

section \<open>Bandwidth\<close>

text \<open>C32: the limit on a session's upload holds: of the packets without priority that come within one measuring
  period, those that pass have no more bits in all than the policy allows.\<close>

theorem upload_limited:
  assumes "P_MaxUpload (S_Policy s) \<noteq> 0" and "LastTime (PA_UploadLimiter s) = start"
    and "\<forall>(now, p) \<in> set ps. in_window start now \<and> \<not> IsMostHighestPriorityPacket p"
    and "unat start + 1000 < 2 ^ 64"
    and "unat (Lim_Value (PA_UploadLimiter s)) + total_bits (map snd ps) < 2 ^ 50"
  shows "upload s ps = [] \<or>
    unat (Lim_Value (PA_UploadLimiter s)) + total_bits (upload s ps) \<le> unat (P_MaxUpload (S_Policy s))"
  by (rule upload_window [OF assms])

definition slow_session :: SESSION where
  "slow_session = (demo_session 1 (no_policy\<lparr>P_MaxUpload := 1000\<rparr>))\<lparr>PA_UploadLimiter := \<lparr>LastTime = 5000, Lim_Value = 0\<rparr>\<rparr>"

theorem upload_limited_witness:
  "upload slow_session [(5100, hub_packet 9 1), (5200, hub_packet 9 1), (5300, hub_packet 9 1)] = [] \<or>
    total_bits (upload slow_session [(5100, hub_packet 9 1), (5200, hub_packet 9 1), (5300, hub_packet 9 1)]) \<le> 1000"
proof -
  have "PacketSize (hub_packet 9 1) = 60" by (simp add: PacketSize_def hub_packet_def)
  moreover have "\<not> IsMostHighestPriorityPacket (hub_packet 9 1)"
    by (simp add: IsMostHighestPriorityPacket_def hub_packet_def no_packet_def)
  ultimately show ?thesis
    using upload_limited [of slow_session 5000 "[(5100, hub_packet 9 1), (5200, hub_packet 9 1), (5300, hub_packet 9 1)]"]
    by (simp add: slow_session_def in_window_def total_bits_def)
qed

section \<open>Frames\<close>

text \<open>C35: a frame that a session of a VLAN sends gets the tag of the VLAN, and a session of the same VLAN gets the
  frame back without the tag; a session of another VLAN does not get it.\<close>

theorem vlan_tags:
  assumes "14 \<le> length d" and "vlan_id \<noteq> 0" and "vlan_id AND 0xFFF = vlan_id" and "other \<noteq> 0" and "other \<noteq> vlan_id"
  shows "VLanRemoveTag (VLanInsertTag d vlan_id tpid) vlan_id tpid = (True, d) \<and>
    VLanRemoveTag (VLanInsertTag d vlan_id tpid) other tpid = (False, VLanInsertTag d vlan_id tpid)"
  using vlan_roundtrip [OF assms(1-3)] vlan_other [OF assms(1,2,4)] assms(3,5) by simp

theorem vlan_tags_witness:
  "VLanRemoveTag (VLanInsertTag (replicate 60 7) 5 0x8100) 5 0x8100 = (True, replicate 60 7) \<and>
    fst (VLanRemoveTag (VLanInsertTag (replicate 60 7) 5 0x8100) 6 0x8100) = False"
  using vlan_tags [where d = "replicate 60 7" and vlan_id = 5 and other = 6 and tpid = "0x8100"] by simp

text \<open>C33: lowering the maximum segment size of a TCP connection is safe on every frame: all accesses are inside of
  it, the frame keeps its length and its Ethernet header, and is not changed when the result says so.\<close>

theorem mss_adjustment_safe:
  "\<exists>ok m'. AdjustTcpMssL2 le m mss tpid = Some (ok, m') \<and> length m' = length m \<and> take 14 m' = take 14 m \<and>
    (\<not> ok \<longrightarrow> m' = m)"
  using AdjustTcpMssL2_spec [of m le mss tpid] by (simp add: adjusted_def)

theorem mss_adjustment_safe_witness:
  "\<exists>ok m'. AdjustTcpMssL2 True (replicate 60 0) 1400 0x8100 = Some (ok, m') \<and> length m' = 60"
  using mss_adjustment_safe [where le = True and m = "replicate 60 0" and mss = 1400 and tpid = "0x8100"] by auto

text \<open>C34: when the segment size of a TCP segment is replaced the option holds the new value and the TCP checksum, of
  IPv4 or IPv6, is right for the new frame.\<close>

theorem mss_checksum_right:
  assumes "set_mss le v6 m src tcp n k = Some m'" and "src + (if v6 then 40 else 20) \<le> tcp" and "24 \<le> n"
    and "tcp + n \<le> length m" and "n < 32000"
  shows "tcp_checksum le v6 m' src tcp n = 0 \<and> of_be16 (take 2 (drop (tcp + 22) m')) = ucast k"
  by (rule set_mss_result [OF assms])

theorem mss_checksum_right_witness:
  "\<exists>m'. set_mss True False (replicate 44 0) 0 20 24 1400 = Some m' \<and> tcp_checksum True False m' 0 20 24 = 0"
proof -
  have "edits 0 (replicate 44 0) (set_mss True False (replicate 44 0) 0 20 24 1400)" by (rule set_mss_edits) simp_all
  then obtain m' where m: "set_mss True False (replicate 44 0) 0 20 24 1400 = Some m'"
    by (auto simp: edits_def)
  from mss_checksum_right [OF m] m show ?thesis by simp
qed

end
