(* ===== verification/VirtualHost.thy ===== *)
theory VirtualHost
  imports HubTables
begin

text \<open>
  The virtual host of SecureNAT (src/src/Cedar/Virtual.c): a TCP/IP stack in the server that is a
  session of a hub. Here are its state (struct VH), its ARP table, the packets that wait for an
  address, the sending of IP packets in fragments, and the reassembly of what it receives. A
  complete packet is handed to the protocol above, which is the result \<open>DELIVERY\<close>.
  \<open>tick\<close> is the clock Tick64; \<open>V_Now\<close> is the time that the host has read last.
\<close>

section \<open>Constants\<close>

abbreviation MAX_L3_DATA_SIZE :: u32 where "MAX_L3_DATA_SIZE \<equiv> 1500"
abbreviation IP_HEADER_SIZE :: u32 where "IP_HEADER_SIZE \<equiv> 20"
abbreviation MAX_IP_DATA_SIZE :: u32 where "MAX_IP_DATA_SIZE \<equiv> MAX_L3_DATA_SIZE - IP_HEADER_SIZE"
abbreviation IP_COMBINE_INITIAL_BUF_SIZE :: u32 where "IP_COMBINE_INITIAL_BUF_SIZE \<equiv> MAX_IP_DATA_SIZE"
abbreviation IP_COMBINE_WAIT_QUEUE_SIZE_QUOTA :: u32 where "IP_COMBINE_WAIT_QUEUE_SIZE_QUOTA \<equiv> 50 * 1024 * 1024"
abbreviation IP_COMBINE_TIMEOUT :: u64 where "IP_COMBINE_TIMEOUT \<equiv> 10 * 1000"
abbreviation MAX_IP_DATA_SIZE_TOTAL :: nat where "MAX_IP_DATA_SIZE_TOTAL \<equiv> 65535"
abbreviation MAX_PACKET_SIZE :: nat where "MAX_PACKET_SIZE \<equiv> 1600"
abbreviation DEFAULT_IP_TOS :: u8 where "DEFAULT_IP_TOS \<equiv> 0"
abbreviation DEFAULT_IP_TTL :: u8 where "DEFAULT_IP_TTL \<equiv> 128"

section \<open>State\<close>

record ARP_ENTRY =
  AE_IpAddress :: u32
  AE_MacAddress :: "u8 list"
  AE_Created :: u64
  AE_Expire :: u64

record ARP_WAIT =
  AW_IpAddress :: u32
  NextTimeoutTimeValue :: u32
  TimeoutTime :: u64
  GiveupTime :: u64

record IP_WAIT =
  W_DestIP :: u32
  W_SrcIP :: u32
  W_Expire :: u64
  W_Data :: "u8 list"

record IP_PART =
  Part_Offset :: u32
  Part_Size :: u32

text \<open>The data of a packet that is being put together are cells, uninitialised ones included.\<close>

record IP_COMBINE =
  C_DestIP :: u32
  C_SrcIP :: u32
  C_Id :: u16
  C_Ttl :: u8
  C_Expire :: u64
  C_Data :: "u8 block"
  C_DataReserved :: u32
  C_Size :: u32
  C_IpParts :: "IP_PART list"
  C_Protocol :: u8
  C_MacBroadcast :: bool
  C_HeadIpHeaderData :: "u8 list option"
  C_SrcIsLocalMacAddr :: bool
  C_MaxL3Size :: u32

record DHCP_LEASE =
  L_Id :: u32
  L_LeasedTime :: u64
  L_ExpireTime :: u64
  L_MacAddress :: "u8 list"
  L_IpAddress :: u32
  L_Mask :: u32
  L_Hostname :: cstr

record VH =
  V_SendQueue :: "u8 list list"
  V_ArpTable :: "ARP_ENTRY LST"
  V_ArpWaitTable :: "ARP_WAIT LST"
  V_IpWaitTable :: "IP_WAIT LST"
  V_IpCombine :: "IP_COMBINE LST"
  V_Now :: u64
  V_NextArpTablePolling :: u64
  V_IpMss :: u32
  V_flag1 :: bool
  V_NextId :: u16
  V_CurrentIpQuota :: u32
  V_MacAddress :: "u8 list"
  V_HostIP :: u32
  V_HostMask :: u32
  V_UseNat :: bool
  V_UseDhcp :: bool
  V_DhcpIpStart :: u32
  V_DhcpIpEnd :: u32
  V_DhcpMask :: u32
  V_DhcpExpire :: u32
  V_DhcpGateway :: u32
  V_DhcpDns :: u32
  V_DhcpDns2 :: u32
  V_DhcpDomain :: cstr
  V_DhcpLeaseList :: "DHCP_LEASE LST"
  V_LastDhcpPolling :: u64
  V_PushRoute :: DHCP_CLASSLESS_ROUTE_TABLE
  V_DhcpId :: u32
  V_LastSendBeacon :: u64
  V_RandomizeAssignIp :: bool

text \<open>What the code calls a protocol above IP with.\<close>

record DELIVERY =
  D_SrcIP :: u32
  D_DestIP :: u32
  D_Protocol :: u8
  D_Data :: "u8 block"
  D_MacBroadcast :: bool
  D_Ttl :: u8
  D_Header :: "u8 list option"
  D_IsLocalMac :: bool
  D_MaxL3Size :: u32

definition CompareArpTable :: "ARP_ENTRY \<Rightarrow> ARP_ENTRY \<Rightarrow> int" where
  "CompareArpTable e1 e2 =
     (if AE_IpAddress e1 > AE_IpAddress e2 then 1 else if AE_IpAddress e1 < AE_IpAddress e2 then -1 else 0)"

definition CompareArpWaitTable :: "ARP_WAIT \<Rightarrow> ARP_WAIT \<Rightarrow> int" where
  "CompareArpWaitTable e1 e2 =
     (if AW_IpAddress e1 > AW_IpAddress e2 then 1 else if AW_IpAddress e1 < AW_IpAddress e2 then -1 else 0)"

definition CompareIpCombine :: "IP_COMBINE \<Rightarrow> IP_COMBINE \<Rightarrow> int" where
  "CompareIpCombine c1 c2 =
     (if C_Id c1 > C_Id c2 then 1 else if C_Id c1 < C_Id c2 then -1
      else if C_DestIP c1 > C_DestIP c2 then 1 else if C_DestIP c1 < C_DestIP c2 then -1
      else if C_SrcIP c1 > C_SrcIP c2 then 1 else if C_SrcIP c1 < C_SrcIP c2 then -1
      else if C_Protocol c1 > C_Protocol c2 then 1 else if C_Protocol c1 < C_Protocol c2 then -1 else 0)"

definition CompareDhcpLeaseList :: "DHCP_LEASE \<Rightarrow> DHCP_LEASE \<Rightarrow> int" where
  "CompareDhcpLeaseList d1 d2 = COMPARE_RET (L_MacAddress d1) (L_MacAddress d2)"

definition combine_key :: "IP_COMBINE \<Rightarrow> u16 \<times> u32 \<times> u32 \<times> u8" where
  "combine_key c = (C_Id c, C_DestIP c, C_SrcIP c, C_Protocol c)"

interpretation host_arp: keyed_table CompareArpTable AE_IpAddress
  by unfold_locales (simp add: CompareArpTable_def COMPARE_RET_def)

interpretation host_wait: keyed_table CompareArpWaitTable AW_IpAddress
  by unfold_locales (simp add: CompareArpWaitTable_def COMPARE_RET_def)

interpretation combining: keyed_table CompareIpCombine combine_key
  by unfold_locales (auto simp: CompareIpCombine_def COMPARE_RET_def combine_key_def less_prod_def')

interpretation lease_order: keyed_table CompareDhcpLeaseList L_MacAddress
  by unfold_locales (simp add: CompareDhcpLeaseList_def)

section \<open>Frames and ARP\<close>

definition VirtualLayer2Send :: "VH \<Rightarrow> u8 list \<Rightarrow> u8 list \<Rightarrow> u16 \<Rightarrow> u8 list \<Rightarrow> VH" where
  "VirtualLayer2Send v dest_mac src_mac protocol data =
     (if length data > MAX_PACKET_SIZE - 14 then v
      else v\<lparr>V_SendQueue := V_SendQueue v @
        [dest_mac @ src_mac @ mem16 host_le (Endian16 host_le protocol) @ data]\<rparr>)"

definition arp_message :: "u16 \<Rightarrow> u8 list \<Rightarrow> u32 \<Rightarrow> u8 list \<Rightarrow> u32 \<Rightarrow> u8 list" where
  "arp_message operation src_mac src_ip target_mac target_ip =
     arp_bytes host_le \<lparr>HardwareType = Endian16 host_le ARP_HARDWARE_TYPE_ETHERNET,
       ProtocolType = Endian16 host_le MAC_PROTO_IPV4, HardwareSize = 6, ProtocolSize = 4,
       Operation = Endian16 host_le operation, SrcAddress = src_mac, ARP_SrcIP = src_ip,
       TargetAddress = target_mac, TargetIP = target_ip\<rparr>"

definition VirtualArpSendRequest :: "VH \<Rightarrow> u32 \<Rightarrow> VH" where
  "VirtualArpSendRequest v dest_ip =
     VirtualLayer2Send v broadcast (V_MacAddress v) MAC_PROTO_ARPV4
       (arp_message ARP_OPERATION_REQUEST (V_MacAddress v) (V_HostIP v) (replicate 6 0) dest_ip)"

definition VirtualArpSendResponse :: "VH \<Rightarrow> u8 list \<Rightarrow> u32 \<Rightarrow> u32 \<Rightarrow> VH" where
  "VirtualArpSendResponse v dest_mac dest_ip src_ip =
     VirtualLayer2Send v dest_mac (V_MacAddress v) MAC_PROTO_ARPV4
       (arp_message ARP_OPERATION_RESPONSE (V_MacAddress v) src_ip dest_mac dest_ip)"

definition IsMacInvalid :: "u8 list \<Rightarrow> bool" where
  "IsMacInvalid mac = list_all (\<lambda>i. byte_of mac i = 0) [0..<6]"

definition IsMacBroadcast :: "u8 list \<Rightarrow> bool" where
  "IsMacBroadcast mac = list_all (\<lambda>i. byte_of mac i = 0xff) [0..<6]"

definition SearchArpTable :: "VH \<Rightarrow> u32 \<Rightarrow> ARP_ENTRY option \<times> VH" where
  "SearchArpTable v ip =
     (let t = \<lparr>AE_IpAddress = ip, AE_MacAddress = [], AE_Created = 0, AE_Expire = 0\<rparr>;
          (e, l) = lst_search (Some CompareArpTable) (V_ArpTable v) t
      in (e, v\<lparr>V_ArpTable := l\<rparr>))"

definition InsertArpTable :: "VH \<Rightarrow> u8 list \<Rightarrow> u32 \<Rightarrow> VH" where
  "InsertArpTable v mac ip =
     (if ip = 0 \<or> ip = 0xffffffff \<or> IsMacBroadcast mac \<or> IsMacInvalid mac then v
      else
        let (found, v) = SearchArpTable v ip; l = V_ArpTable v; expire = V_Now v + ARP_ENTRY_EXPIRES
        in case found of
             Some e \<Rightarrow>
               let e' = (if AE_MacAddress e \<noteq> mac then e\<lparr>AE_Created := V_Now v, AE_MacAddress := mac\<rparr> else e)
               in v\<lparr>V_ArpTable := l\<lparr>items := replace_first e (e'\<lparr>AE_Expire := expire\<rparr>) (items l)\<rparr>\<rparr>
           | None \<Rightarrow>
               v\<lparr>V_ArpTable := lst_add l
                 \<lparr>AE_IpAddress = ip, AE_MacAddress = mac, AE_Created = V_Now v, AE_Expire = expire\<rparr>\<rparr>)"

definition RefreshArpTable :: "VH \<Rightarrow> VH" where
  "RefreshArpTable v =
     v\<lparr>V_ArpTable := delete_each (filter (\<lambda>e. AE_Expire e < V_Now v) (items (V_ArpTable v))) (V_ArpTable v)\<rparr>"

definition PollingArpTable :: "VH \<Rightarrow> VH" where
  "PollingArpTable v =
     (if V_Now v > V_NextArpTablePolling v
      then RefreshArpTable (v\<lparr>V_NextArpTablePolling := V_Now v + ARP_ENTRY_POLLING_TIME\<rparr>) else v)"

definition SearchArpWaitTable :: "VH \<Rightarrow> u32 \<Rightarrow> ARP_WAIT option \<times> VH" where
  "SearchArpWaitTable v ip =
     (let t = \<lparr>AW_IpAddress = ip, NextTimeoutTimeValue = 0, TimeoutTime = 0, GiveupTime = 0\<rparr>;
          (w, l) = lst_search (Some CompareArpWaitTable) (V_ArpWaitTable v) t
      in (w, v\<lparr>V_ArpWaitTable := l\<rparr>))"

definition DeleteArpWaitTable :: "VH \<Rightarrow> u32 \<Rightarrow> VH" where
  "DeleteArpWaitTable v ip =
     (let (w, v) = SearchArpWaitTable v ip
      in case w of None \<Rightarrow> v | Some w \<Rightarrow> v\<lparr>V_ArpWaitTable := snd (lst_delete (V_ArpWaitTable v) w)\<rparr>)"

definition InsertArpWaitTable :: "VH \<Rightarrow> ARP_WAIT \<Rightarrow> VH" where
  "InsertArpWaitTable v w = v\<lparr>V_ArpWaitTable := lst_add (V_ArpWaitTable v) w\<rparr>"

definition SendArp :: "VH \<Rightarrow> u32 \<Rightarrow> VH" where
  "SendArp v ip =
     (let (w, v) = SearchArpWaitTable v ip
      in case w of
           Some w \<Rightarrow> v
         | None \<Rightarrow>
             let v = VirtualArpSendRequest v ip
             in InsertArpWaitTable v
               \<lparr>AW_IpAddress = ip, NextTimeoutTimeValue = ucast ARP_REQUEST_TIMEOUT,
                TimeoutTime = V_Now v + ARP_REQUEST_TIMEOUT, GiveupTime = V_Now v + ARP_REQUEST_GIVEUP\<rparr>)"

text \<open>The loop over the queries: it gives the entries as they are now, and those to delete.\<close>

fun host_wait_loop :: "VH \<Rightarrow> ARP_WAIT list \<Rightarrow> VH \<times> ARP_WAIT list \<times> ARP_WAIT list" where
  "host_wait_loop v [] = (v, [], [])"
| "host_wait_loop v (w # ws) =
     (if GiveupTime w < V_Now v \<or> GiveupTime w - 100 * 1000 > V_Now v
      then let (v, ws, del) = host_wait_loop v ws in (v, w # ws, w # del)
      else if TimeoutTime w < V_Now v
      then
        let v = VirtualArpSendRequest v (AW_IpAddress w);
            w = w\<lparr>TimeoutTime := V_Now v + ucast (NextTimeoutTimeValue w),
                  NextTimeoutTimeValue := NextTimeoutTimeValue w + ucast ARP_REQUEST_TIMEOUT\<rparr>;
            (v, ws, del) = host_wait_loop v ws
        in (v, w # ws, del)
      else let (v, ws, del) = host_wait_loop v ws in (v, w # ws, del))"

definition PollingArpWaitTable :: "VH \<Rightarrow> VH" where
  "PollingArpWaitTable v =
     (let (v, ws, del) = host_wait_loop v (items (V_ArpWaitTable v));
          v = v\<lparr>V_ArpWaitTable := (V_ArpWaitTable v)\<lparr>items := ws\<rparr>\<rparr>
      in fold (\<lambda>w v. DeleteArpWaitTable v (AW_IpAddress w)) del v)"

section \<open>Sending IP packets\<close>

definition VirtualIpSend :: "VH \<Rightarrow> u8 list \<Rightarrow> u8 list \<Rightarrow> VH" where
  "VirtualIpSend v dest_mac data =
     (if data = [] then v else VirtualLayer2Send v dest_mac (V_MacAddress v) MAC_PROTO_IPV4 data)"

definition InsertIpWaitTable :: "VH \<Rightarrow> u32 \<Rightarrow> u32 \<Rightarrow> u8 list \<Rightarrow> VH" where
  "InsertIpWaitTable v dest_ip src_ip data =
     (if data = [] then v
      else v\<lparr>V_IpWaitTable := lst_add (V_IpWaitTable v)
        \<lparr>W_DestIP = dest_ip, W_SrcIP = src_ip, W_Expire = V_Now v + IP_WAIT_FOR_ARP_TIMEOUT, W_Data = data\<rparr>\<rparr>)"

definition SendWaitingIp :: "VH \<Rightarrow> u8 list \<Rightarrow> u32 \<Rightarrow> VH" where
  "SendWaitingIp v mac dest_ip =
     fold (\<lambda>w v. (VirtualIpSend v mac (W_Data w))\<lparr>V_IpWaitTable := snd (lst_delete (V_IpWaitTable v) w)\<rparr>)
       (filter (\<lambda>w. W_DestIP w = dest_ip) (items (V_IpWaitTable v))) v"

definition DeleteOldIpWaitTable :: "VH \<Rightarrow> VH" where
  "DeleteOldIpWaitTable v =
     v\<lparr>V_IpWaitTable := delete_each (filter (\<lambda>w. W_Expire w < V_Now v) (items (V_IpWaitTable v))) (V_IpWaitTable v)\<rparr>"

definition PollingIpWaitTable :: "VH \<Rightarrow> VH" where
  "PollingIpWaitTable v = DeleteOldIpWaitTable v"

definition ArpIpWasKnown :: "VH \<Rightarrow> u32 \<Rightarrow> u8 list \<Rightarrow> VH" where
  "ArpIpWasKnown v ip mac = SendWaitingIp (InsertArpTable (DeleteArpWaitTable v ip) mac ip) mac ip"

definition IsInNetwork :: "u32 \<Rightarrow> u32 \<Rightarrow> u32 \<Rightarrow> bool" where
  "IsInNetwork uni_addr network_addr msk \<longleftrightarrow> uni_addr AND msk = network_addr AND msk"

definition fragment_header :: "u32 \<Rightarrow> u32 \<Rightarrow> u16 \<Rightarrow> u16 \<Rightarrow> u16 \<Rightarrow> u8 \<Rightarrow> u32 \<Rightarrow> u8 \<Rightarrow> IPV4_HEADER" where
  "fragment_header dest_ip src_ip ident total_size offset protocol sz ttl =
     (let more = (if ucast offset + sz \<ge> (ucast total_size :: u32) then 0 else 1 :: u8);
          ip = \<lparr>VersionAndHeaderLength = IPV4_SET_HEADER_LEN (IPV4_SET_VERSION 0 4) 5,
                TypeOfService = DEFAULT_IP_TOS,
                TotalLength = Endian16 host_le (ucast (sz + IP_HEADER_SIZE)),
                Identification = Endian16 host_le ident,
                FlagsAndFlagmentOffset =
                  [ucast (offset div 8 div 256) OR push_bit 5 (more AND 0x07), ucast (offset div 8 mod 256)],
                TimeToLive = (if ttl = 0 then DEFAULT_IP_TTL else ttl), IP_Protocol = protocol,
                IP_Checksum = 0, IP_SrcIP = src_ip, IP_DstIP = dest_ip\<rparr>
      in ip\<lparr>IP_Checksum := IpChecksum host_le (ip_bytes host_le ip)\<rparr>)"

definition SendFragmentedIp ::
    "VH \<Rightarrow> u32 \<Rightarrow> u32 \<Rightarrow> u16 \<Rightarrow> u16 \<Rightarrow> u16 \<Rightarrow> u8 \<Rightarrow> u8 list \<Rightarrow> u8 list option \<Rightarrow> u8 \<Rightarrow> VH" where
  "SendFragmentedIp v dest_ip src_ip ident total_size offset protocol data dest_mac ttl =
     (if data = [] then v
      else
        let buf = ip_bytes host_le
              (fragment_header dest_ip src_ip ident total_size offset protocol (of_nat (length data)) ttl) @ data;
            (dest_mac, v) =
              (case dest_mac of
                 Some m \<Rightarrow> (Some m, v)
               | None \<Rightarrow>
                   if dest_ip = 0xffffffff \<or>
                     (IsInNetwork dest_ip (V_HostIP v) (V_HostMask v) \<and>
                      dest_ip AND NOT (V_HostMask v) = NOT (V_HostMask v))
                   then (Some broadcast, v)
                   else let (arp, v) = SearchArpTable v dest_ip in (map_option AE_MacAddress arp, v))
        in case dest_mac of
             Some m \<Rightarrow> VirtualIpSend v m buf
           | None \<Rightarrow> SendArp (InsertIpWaitTable v dest_ip src_ip buf) dest_ip)"

text \<open>
  The loop over the fragments: the sizes and the offset are 16 bits wide. It does not end for a
  segment size that is 0 in 16 bits.
\<close>

partial_function (option) send_fragments ::
    "VH \<Rightarrow> u32 \<Rightarrow> u32 \<Rightarrow> u16 \<Rightarrow> u16 \<Rightarrow> u16 \<Rightarrow> u8 \<Rightarrow> u8 list \<Rightarrow> u16 \<Rightarrow> u8 \<Rightarrow> VH option" where
  "send_fragments v dest_ip src_ip ident total_size offset protocol buf mss ttl =
     (let n = min (uint mss) (uint total_size - uint offset);
          last_packet = (uint offset + n = uint total_size);
          data = take (nat n) (drop (unat offset) buf);
          v = SendFragmentedIp v dest_ip src_ip ident total_size offset protocol data None ttl
      in if last_packet then Some v
         else send_fragments v dest_ip src_ip ident total_size (offset + word_of_int n) protocol buf mss ttl)"

definition SendIpEx :: "VH \<Rightarrow> u32 \<Rightarrow> u32 \<Rightarrow> u8 \<Rightarrow> u8 list \<Rightarrow> u8 \<Rightarrow> VH option" where
  "SendIpEx v dest_ip src_ip protocol data ttl =
     (if data = [] \<or> length data > MAX_IP_DATA_SIZE_TOTAL then Some v
      else send_fragments (v\<lparr>V_NextId := V_NextId v + 1\<rparr>) dest_ip src_ip (V_NextId v)
        (of_nat (length data)) 0 protocol data (ucast (V_IpMss v)) ttl)"

definition SendIp :: "VH \<Rightarrow> u32 \<Rightarrow> u32 \<Rightarrow> u8 \<Rightarrow> u8 list \<Rightarrow> VH option" where
  "SendIp v dest_ip src_ip protocol data = SendIpEx v dest_ip src_ip protocol data 0"

definition SendUdp :: "VH \<Rightarrow> u32 \<Rightarrow> u32 \<Rightarrow> u32 \<Rightarrow> u32 \<Rightarrow> u8 list \<Rightarrow> VH option" where
  "SendUdp v dest_ip dest_port src_ip src_port data =
     (let n = 8 + of_nat (length data) :: u32
      in if n > 65536 then Some v
         else
           let len = Endian16 host_le (ucast n);
               udp = udp_bytes host_le \<lparr>UDP_HEADER.SrcPort = Endian16 host_le (ucast src_port),
                 UDP_HEADER.DstPort = Endian16 host_le (ucast dest_port), PacketLength = len, UDP_Checksum = 0\<rparr>;
               sum = IpChecksum host_le (mem32 host_le src_ip @ mem32 host_le dest_ip @ [0, 17] @
                 mem16 host_le len @ udp @ data);
               checksum = (if sum = 0 then 0xffff else sum)
           in SendIp v dest_ip src_ip 17 (take 6 udp @ mem16 host_le checksum @ data))"

definition host_beacon_str :: "u8 list" where
  "host_beacon_str = ascii ''SecureNAT Virtual TCP/IP Stack Beacon'' @ [0]"

definition SendBeacon :: "VH \<Rightarrow> VH option" where
  "SendBeacon v =
     do {
       let dest_ip = (V_HostIP v AND V_HostMask v) OR NOT (V_HostMask v);
       v \<leftarrow> SendUdp v dest_ip 7 (V_HostIP v) 7 host_beacon_str;
       Some (VirtualLayer2Send v broadcast (V_MacAddress v) MAC_PROTO_ARPV4
         (arp_message ARP_OPERATION_RESPONSE (V_MacAddress v) (V_HostIP v) (replicate 6 0xff) dest_ip))
     }"

definition PollingBeacon :: "u64 \<Rightarrow> VH \<Rightarrow> VH option" where
  "PollingBeacon tick v =
     (if V_LastSendBeacon v = 0 \<or> V_LastSendBeacon v + BEACON_SEND_INTERVAL \<le> tick
      then SendBeacon (v\<lparr>V_LastSendBeacon := tick\<rparr>) else Some v)"

section \<open>Putting fragments together\<close>

definition IpReceived ::
    "u32 \<Rightarrow> u32 \<Rightarrow> u8 \<Rightarrow> u8 block \<Rightarrow> bool \<Rightarrow> u8 \<Rightarrow> u8 list option \<Rightarrow> bool \<Rightarrow> u32 \<Rightarrow> DELIVERY option" where
  "IpReceived src_ip dest_ip protocol data mac_broadcast ttl ip_header is_local_mac max_l3_size =
     (if protocol = 17 \<or> (protocol = 1 \<or> protocol = 6) \<and> \<not> mac_broadcast
      then Some \<lparr>D_SrcIP = src_ip, D_DestIP = dest_ip, D_Protocol = protocol, D_Data = data,
        D_MacBroadcast = mac_broadcast, D_Ttl = ttl, D_Header = ip_header, D_IsLocalMac = is_local_mac,
        D_MaxL3Size = max_l3_size\<rparr>
      else None)"

partial_function (option) combine_grow :: "u8 block \<Rightarrow> u32 \<Rightarrow> u32 \<Rightarrow> (u8 block \<times> u32) option" where
  "combine_grow data reserved need_size =
     (if reserved < need_size
      then do { data \<leftarrow> ReAlloc data (reserved * 4); combine_grow data (reserved * 4) need_size }
      else Some (data, reserved))"

text \<open>The loop over the parts received before: what is left of the new part.\<close>

fun combine_overlaps :: "IP_PART list \<Rightarrow> u32 \<Rightarrow> u32 \<Rightarrow> IP_PART list \<times> u32 \<times> u32" where
  "combine_overlaps [] offset sz = ([], offset, sz)"
| "combine_overlaps (p # ps) offset sz =
     (let p_end = Part_Offset p + Part_Size p;
          (offset, sz) =
            (if Part_Offset p \<le> offset \<and> p_end > offset
             then if offset + sz \<le> p_end then (offset, 0)
                  else (offset + (p_end - offset), sz - (p_end - offset))
             else (offset, sz));
          sz =
            (if Part_Offset p < offset + sz \<and> p_end \<ge> offset + sz then sz - (p_end - offset - sz) else sz);
          p' = (if Part_Offset p \<ge> offset \<and> p_end \<le> offset + sz then p\<lparr>Part_Size := 0\<rparr> else p);
          (ps, offset, sz) = combine_overlaps ps offset sz
      in (p' # ps, offset, sz))"

definition FreeIpCombine :: "VH \<Rightarrow> IP_COMBINE \<Rightarrow> VH" where
  "FreeIpCombine v c = v\<lparr>V_CurrentIpQuota := V_CurrentIpQuota v - C_DataReserved c\<rparr>"

text \<open>
  \<open>c\<close> is an object of the list; the changed one takes its place, or it is removed when its packet is
  complete.
\<close>

definition CombineIp ::
    "VH \<Rightarrow> IP_COMBINE \<Rightarrow> u32 \<Rightarrow> u8 list \<Rightarrow> bool \<Rightarrow> u8 list option \<Rightarrow> (VH \<times> DELIVERY option) option" where
  "CombineIp v c offset data last_packet head_ip_header =
     (let sz = of_nat (length data) :: u32
      in if offset + sz > 65535 then Some (v, None)
         else if \<not> last_packet \<and> C_Size c \<noteq> 0 \<and> offset + sz > C_Size c then Some (v, None)
         else do {
           let c' = (case head_ip_header of
               Some h \<Rightarrow> if length h \<ge> 20 \<and> C_HeadIpHeaderData c = None then c\<lparr>C_HeadIpHeaderData := Some h\<rparr> else c
             | None \<Rightarrow> c);
           (cells, reserved) \<leftarrow> combine_grow (C_Data c) (C_DataReserved c) (offset + sz);
           let v = v\<lparr>V_CurrentIpQuota := V_CurrentIpQuota v + (reserved - C_DataReserved c)\<rparr>;
           cells \<leftarrow> mem_write cells (unat offset) (map Some data);
           let total = (if last_packet then offset + sz else C_Size c);
           let (parts, offset, sz) = combine_overlaps (C_IpParts c) offset sz;
           let parts = (if sz \<noteq> 0 then parts @ [\<lparr>Part_Offset = offset, Part_Size = sz\<rparr>] else parts);
           let c' = c'\<lparr>C_Data := cells, C_DataReserved := reserved, C_Size := total, C_IpParts := parts\<rparr>;
           let l = V_IpCombine v;
           let l = l\<lparr>items := replace_first c c' (items l)\<rparr>;
           if total \<noteq> 0 \<and> sum_list (map Part_Size parts) = total
           then do {
             packet \<leftarrow> mem_read cells 0 (unat total);
             let v = FreeIpCombine (v\<lparr>V_IpCombine := snd (lst_delete l c')\<rparr>) c';
             Some (v, IpReceived (C_SrcIP c') (C_DestIP c') (C_Protocol c') packet (C_MacBroadcast c') (C_Ttl c')
               (C_HeadIpHeaderData c') (C_SrcIsLocalMacAddr c') (C_MaxL3Size c'))
           }
           else Some (v\<lparr>V_IpCombine := l\<rparr>, None)
         })"

definition new_combine :: "VH \<Rightarrow> u32 \<Rightarrow> u32 \<Rightarrow> u16 \<Rightarrow> u8 \<Rightarrow> bool \<Rightarrow> u8 \<Rightarrow> bool \<Rightarrow> IP_COMBINE" where
  "new_combine v src_ip dest_ip ident protocol mac_broadcast ttl src_is_localmac =
     \<lparr>C_DestIP = dest_ip, C_SrcIP = src_ip, C_Id = ident, C_Ttl = ttl, C_Expire = V_Now v + IP_COMBINE_TIMEOUT,
      C_Data = replicate (unat IP_COMBINE_INITIAL_BUF_SIZE) None, C_DataReserved = IP_COMBINE_INITIAL_BUF_SIZE,
      C_Size = 0, C_IpParts = [], C_Protocol = protocol, C_MacBroadcast = mac_broadcast,
      C_HeadIpHeaderData = None, C_SrcIsLocalMacAddr = src_is_localmac, C_MaxL3Size = 0\<rparr>"

definition SearchIpCombine :: "VH \<Rightarrow> u32 \<Rightarrow> u32 \<Rightarrow> u16 \<Rightarrow> u8 \<Rightarrow> IP_COMBINE option \<times> VH" where
  "SearchIpCombine v src_ip dest_ip ident protocol =
     (let t = new_combine v src_ip dest_ip ident protocol False 0 False;
          (c, l) = lst_search (Some CompareIpCombine) (V_IpCombine v) t
      in (c, v\<lparr>V_IpCombine := l\<rparr>))"

definition InsertIpCombine ::
    "VH \<Rightarrow> u32 \<Rightarrow> u32 \<Rightarrow> u16 \<Rightarrow> u8 \<Rightarrow> bool \<Rightarrow> u8 \<Rightarrow> bool \<Rightarrow> IP_COMBINE option \<times> VH" where
  "InsertIpCombine v src_ip dest_ip ident protocol mac_broadcast ttl src_is_localmac =
     (if V_CurrentIpQuota v + IP_COMBINE_INITIAL_BUF_SIZE > IP_COMBINE_WAIT_QUEUE_SIZE_QUOTA then (None, v)
      else
        let c = new_combine v src_ip dest_ip ident protocol mac_broadcast ttl src_is_localmac
        in (Some c, v\<lparr>V_CurrentIpQuota := V_CurrentIpQuota v + IP_COMBINE_INITIAL_BUF_SIZE,
              V_IpCombine := lst_insert (Some CompareIpCombine) (V_IpCombine v) c\<rparr>))"

definition PollingIpCombine :: "VH \<Rightarrow> VH" where
  "PollingIpCombine v =
     fold (\<lambda>c v. FreeIpCombine (v\<lparr>V_IpCombine := snd (lst_delete (V_IpCombine v) c)\<rparr>) c)
       (filter (\<lambda>c. C_Expire c < V_Now v) (items (V_IpCombine v))) v"

text \<open>\<open>MAX(c->MaxL3Size, ip_l3_size)\<close> on the object in the list.\<close>

definition set_max_l3 :: "u32 \<Rightarrow> IP_COMBINE \<Rightarrow> VH \<Rightarrow> IP_COMBINE \<times> VH" where
  "set_max_l3 n c v =
     (let c' = c\<lparr>C_MaxL3Size := n\<rparr>; l = V_IpCombine v
      in (c', v\<lparr>V_IpCombine := l\<lparr>items := replace_first c c' (items l)\<rparr>\<rparr>))"

text \<open>\<open>is_local\<close> tells whether an address is one of the computer's network adapters.\<close>

definition VirtualIpReceived :: "(u8 list \<Rightarrow> bool) \<Rightarrow> VH \<Rightarrow> PKT \<Rightarrow> (VH \<times> DELIVERY option) option" where
  "VirtualIpReceived is_local v p =
     do {
       let ip = PointerL3 p;
       let is_local_mac = (BroadcastPacket p \<and> is_local (MacAddressSrc p));
       let header_size = unat (byte_of ip 0 AND 0x0f) * 4;
       if \<not> IpCheckChecksum host_le ip then Some (v, None)
       else do {
         let v = ArpIpWasKnown v (SrcIP p) (MacAddressSrc p);
         let l3_size = unat (net16_of ip 2);
         if l3_size \<le> header_size then Some (v, None)
         else if uint (PacketSize p - of_nat (header_size + 14)) < int (l3_size - header_size) then Some (v, None)
         else do {
           data \<leftarrow> mem_bytes ip header_size (l3_size - header_size);
           header \<leftarrow> mem_bytes ip 0 header_size;
           let flags = drop_bit 5 (byte_of ip 6) AND 0x07;
           let offset = (ucast (byte_of ip 6 AND 0x1f) * 256 + ucast (byte_of ip 7) :: u32);
           let ttl = byte_of ip 8;
           if offset = 0 \<and> flags AND 0x01 = 0
           then Some (v, IpReceived (SrcIP p) (DstIP p) (ip_protocol p) (map Some data) (BroadcastPacket p) ttl
             (Some header) is_local_mac (of_nat l3_size))
           else do {
             let last_packet = (flags AND 0x01 = 0);
             let head = (if offset = 0 then Some header else None);
             let (found, v) = SearchIpCombine v (SrcIP p) (DstIP p) (net16_of ip 4) (ip_protocol p);
             case found of
               Some c \<Rightarrow>
                 let (c, v) = set_max_l3 (max (C_MaxL3Size c) (of_nat l3_size)) c v
                 in CombineIp v c (offset * 8) data last_packet head
             | None \<Rightarrow>
                 let (c, v) = InsertIpCombine v (SrcIP p) (DstIP p) (net16_of ip 4) (ip_protocol p)
                       (BroadcastPacket p) ttl is_local_mac
                 in (case c of
                       None \<Rightarrow> Some (v, None)
                     | Some c \<Rightarrow>
                         let (c, v) = set_max_l3 (of_nat l3_size) c v
                         in CombineIp v c (offset * 8) data last_packet head)
           }
         }
       }
     }"

section \<open>Receiving ARP packets\<close>

definition VirtualArpResponseRequest :: "VH \<Rightarrow> PKT \<Rightarrow> VH" where
  "VirtualArpResponseRequest v p =
     (let a = arp_header host_le (PointerL3 p);
          v = ArpIpWasKnown v (ARP_SrcIP a) (SrcAddress a)
      in if V_HostIP v = TargetIP a then VirtualArpSendResponse v (SrcAddress a) (ARP_SrcIP a) (V_HostIP v) else v)"

definition VirtualArpResponseReceived :: "VH \<Rightarrow> PKT \<Rightarrow> VH" where
  "VirtualArpResponseReceived v p =
     (let a = arp_header host_le (PointerL3 p) in ArpIpWasKnown v (ARP_SrcIP a) (SrcAddress a))"

definition VirtualArpReceived :: "VH \<Rightarrow> PKT \<Rightarrow> VH" where
  "VirtualArpReceived v p =
     (let a = arp_header host_le (PointerL3 p)
      in if Endian16 host_le (HardwareType a) \<noteq> ARP_HARDWARE_TYPE_ETHERNET then v
         else if Endian16 host_le (ProtocolType a) \<noteq> MAC_PROTO_IPV4 then v
         else if HardwareSize a \<noteq> 6 \<or> ProtocolSize a \<noteq> 4 then v
         else if SrcAddress a \<noteq> MacAddressSrc p then v
         else if Endian16 host_le (Operation a) = ARP_OPERATION_REQUEST then VirtualArpResponseRequest v p
         else if Endian16 host_le (Operation a) = ARP_OPERATION_RESPONSE then VirtualArpResponseReceived v p
         else v)"

end
