(* ===== verification/VirtualDhcp.thy ===== *)
theory VirtualDhcp
  imports VirtualHost
begin

text \<open>
  The DHCP server of SecureNAT (src/src/Cedar/Virtual.c): the leases, the choice of an address,
  the answer to a message; then the virtual host as a session: what it does with a frame of the
  hub, its polling, and the frames that it hands out. The hash function MD5, the addresses of the
  computer's network adapters and the flag that turns pushed routes off are arguments. An address
  is a number whose bytes in memory are those of the packet; \<open>Endian32\<close> gives its value.
\<close>

abbreviation DHCP_POLLING_INTERVAL :: u64 where "DHCP_POLLING_INTERVAL \<equiv> 1000"
abbreviation DHCP_INFORM :: u32 where "DHCP_INFORM \<equiv> 8"
abbreviation DHCP_NACK :: u32 where "DHCP_NACK \<equiv> 6"
abbreviation DHCP_MIN_SIZE :: nat where "DHCP_MIN_SIZE \<equiv> 300"
abbreviation NAT_DHCP_SERVER_PORT :: u32 where "NAT_DHCP_SERVER_PORT \<equiv> 67"
abbreviation DHCP_MIN_EXPIRE_TIMESPAN :: u32 where "DHCP_MIN_EXPIRE_TIMESPAN \<equiv> 15 * 1000"

section \<open>Leases\<close>

definition SearchDhcpLeaseByIp :: "VH \<Rightarrow> u32 \<Rightarrow> DHCP_LEASE option" where
  "SearchDhcpLeaseByIp v ip = find (\<lambda>d. L_IpAddress d = ip) (items (V_DhcpLeaseList v))"

definition SearchDhcpLeaseByMac :: "VH \<Rightarrow> u8 list \<Rightarrow> DHCP_LEASE option \<times> VH" where
  "SearchDhcpLeaseByMac v mac =
     (let t = \<lparr>L_Id = 0, L_LeasedTime = 0, L_ExpireTime = 0, L_MacAddress = mac, L_IpAddress = 0, L_Mask = 0,
            L_Hostname = []\<rparr>;
          (d, l) = lst_search (Some CompareDhcpLeaseList) (V_DhcpLeaseList v) t
      in (d, v\<lparr>V_DhcpLeaseList := l\<rparr>))"

definition NewDhcpLease :: "u64 \<Rightarrow> u32 \<Rightarrow> u8 list \<Rightarrow> u32 \<Rightarrow> u32 \<Rightarrow> cstr \<Rightarrow> DHCP_LEASE" where
  "NewDhcpLease tick expire mac_address ip msk hostname =
     \<lparr>L_Id = 0, L_LeasedTime = tick,
      L_ExpireTime = (if expire = INFINITE then ucast INFINITE else tick + ucast expire),
      L_MacAddress = mac_address, L_IpAddress = ip, L_Mask = msk, L_Hostname = hostname\<rparr>"

text \<open>Removing the first expired lease and starting again.\<close>

function expire_leases :: "u64 \<Rightarrow> DHCP_LEASE LST \<Rightarrow> DHCP_LEASE LST" where
  "expire_leases now l =
     (case find (\<lambda>d. L_ExpireTime d < now) (items l) of
        None \<Rightarrow> l
      | Some d \<Rightarrow> expire_leases now (snd (lst_delete l d)))"
  by pat_completeness auto
termination
proof (relation "measure (\<lambda>(now, l). length (items l))")
  fix now :: u64 and l :: "DHCP_LEASE LST" and d
  assume "find (\<lambda>d. L_ExpireTime d < now) (items l) = Some d"
  then have "d \<in> set (items l)" by (auto simp: find_Some_iff)
  moreover from this have "0 < length (items l)" by (cases "items l") auto
  ultimately show "((now, snd (lst_delete l d)), now, l) \<in> measure (\<lambda>(now, l). length (items l))"
    by (simp add: lst_delete_def length_remove1)
qed simp

declare expire_leases.simps [simp del]

definition PollingDhcpServer :: "VH \<Rightarrow> VH" where
  "PollingDhcpServer v =
     (if V_LastDhcpPolling v \<noteq> 0 \<and> V_LastDhcpPolling v + DHCP_POLLING_INTERVAL > V_Now v \<and>
         V_LastDhcpPolling v < V_Now v
      then v
      else v\<lparr>V_LastDhcpPolling := V_Now v, V_DhcpLeaseList := expire_leases (V_Now v) (V_DhcpLeaseList v)\<rparr>)"

section \<open>The choice of an address\<close>

definition in_range :: "VH \<Rightarrow> u32 \<Rightarrow> bool" where
  "in_range v ip \<longleftrightarrow> Endian32 host_le (V_DhcpIpStart v) \<le> Endian32 host_le ip \<and>
     Endian32 host_le ip \<le> Endian32 host_le (V_DhcpIpEnd v)"

text \<open>The counter wraps after the last of all addresses.\<close>

partial_function (option) free_ip_loop :: "VH \<Rightarrow> u32 \<Rightarrow> u32 \<Rightarrow> u32 option" where
  "free_ip_loop v i ip_end =
     (if i \<le> ip_end
      then if SearchDhcpLeaseByIp v (Endian32 host_le i) = None then Some (Endian32 host_le i)
           else free_ip_loop v (i + 1) ip_end
      else Some 0)"

definition GetFreeDhcpIpAddress :: "VH \<Rightarrow> u32 option" where
  "GetFreeDhcpIpAddress v =
     free_ip_loop v (Endian32 host_le (V_DhcpIpStart v)) (Endian32 host_le (V_DhcpIpEnd v))"

fun random_ip_loop :: "(u8 list \<Rightarrow> u8 list) \<Rightarrow> VH \<Rightarrow> u8 list \<Rightarrow> u32 \<Rightarrow> u32 \<Rightarrow> nat \<Rightarrow> u32 \<Rightarrow> u32" where
  "random_ip_loop md5 v mac ip_start span 0 i = 0"
| "random_ip_loop md5 v mac ip_start span (Suc n) i =
     (let rand_int = of_be32 (take 4 (md5 (be32 i @ mac)));
          new_ip = Endian32 host_le (ip_start + rand_int mod span)
      in if SearchDhcpLeaseByIp v new_ip = None then new_ip
         else random_ip_loop md5 v mac ip_start span n (i + 1))"

definition GetFreeDhcpIpAddressByRandom :: "(u8 list \<Rightarrow> u8 list) \<Rightarrow> VH \<Rightarrow> u8 list \<Rightarrow> u32" where
  "GetFreeDhcpIpAddressByRandom md5 v mac =
     (let ip_start = Endian32 host_le (V_DhcpIpStart v); ip_end = Endian32 host_le (V_DhcpIpEnd v);
          span = ip_end - ip_start + 1
      in if ip_start > ip_end then 0
         else random_ip_loop md5 v mac ip_start span (unat (min (span * 2) (65536 * 2))) 0)"

text \<open>The address that the request names, if the client may have it.\<close>

definition wished_ip :: "VH \<Rightarrow> u8 list \<Rightarrow> u32 \<Rightarrow> u32" where
  "wished_ip v mac request_ip =
     (if request_ip = 0 then 0
      else case SearchDhcpLeaseByIp v request_ip of
          Some d \<Rightarrow> if L_MacAddress d = mac \<and> in_range v request_ip then request_ip else 0
        | None \<Rightarrow> if in_range v request_ip then request_ip else 0)"

definition ServeDhcpDiscover :: "(u8 list \<Rightarrow> u8 list) \<Rightarrow> VH \<Rightarrow> u8 list \<Rightarrow> u32 \<Rightarrow> (u32 \<times> VH) option" where
  "ServeDhcpDiscover md5 v mac request_ip =
     (let ret = wished_ip v mac request_ip
      in if ret \<noteq> 0 then Some (ret, v)
         else
           let (d, v) = SearchDhcpLeaseByMac v mac;
               ret = (case d of Some d \<Rightarrow> if in_range v (L_IpAddress d) then L_IpAddress d else 0 | None \<Rightarrow> 0)
           in if ret \<noteq> 0 then Some (ret, v)
              else if V_RandomizeAssignIp v then Some (GetFreeDhcpIpAddressByRandom md5 v mac, v)
              else map_option (\<lambda>ip. (ip, v)) (GetFreeDhcpIpAddress v))"

definition ServeDhcpRequest :: "(u8 list \<Rightarrow> u8 list) \<Rightarrow> VH \<Rightarrow> u8 list \<Rightarrow> u32 \<Rightarrow> (u32 \<times> VH) option" where
  "ServeDhcpRequest md5 v mac request_ip =
     map_option (\<lambda>(ret, v). (if ret \<noteq> request_ip \<and> request_ip \<noteq> 0 then 0 else ret, v))
       (ServeDhcpDiscover md5 v mac request_ip)"

section \<open>The answer\<close>

definition dhcp_message :: "u32 \<Rightarrow> u32 \<Rightarrow> u32 \<Rightarrow> u8 list \<Rightarrow> u8 list \<Rightarrow> u8 \<Rightarrow> u8 \<Rightarrow> u8 list" where
  "dhcp_message host_ip tran_id new_ip client_mac b hw_type hw_addr_size =
     (let m = [2, hw_type, hw_addr_size, 0] @ mem32 host_le (Endian32 host_le tran_id) @ [0, 0, 0, 0] @ [0, 0, 0, 0] @
            mem32 host_le new_ip @ mem32 host_le host_ip @ [0, 0, 0, 0] @ client_mac @ replicate 10 0 @
            replicate (128 + 64) 0 @ mem32 host_le (Endian32 host_le DHCP_MAGIC_COOKIE) @ b
      in m @ replicate (DHCP_MIN_SIZE - length m) 0)"

definition VirtualDhcpSend ::
    "VH \<Rightarrow> u32 \<Rightarrow> u32 \<Rightarrow> u32 \<Rightarrow> u32 \<Rightarrow> u8 list \<Rightarrow> BUF \<Rightarrow> u8 \<Rightarrow> u8 \<Rightarrow> VH option" where
  "VirtualDhcpSend v tran_id dest_ip dest_port new_ip client_mac b hw_type hw_addr_size =
     do {
       b \<leftarrow> cells_value (take (unat (Size b)) (Buf b));
       SendUdp v dest_ip dest_port (V_HostIP v) NAT_DHCP_SERVER_PORT
         (dhcp_message (V_HostIP v) tran_id new_ip client_mac b hw_type hw_addr_size)
     }"

definition IsIpcMacAddress :: "u8 list \<Rightarrow> bool" where
  "IsIpcMacAddress mac \<longleftrightarrow> byte_of mac 0 = 0xCA"

text \<open>
  The pushed routes; a PPP client, which has no gateway from the server, also gets a route to the
  subnet of its own address.
\<close>

definition answer_routes :: "VH \<Rightarrow> PKT \<Rightarrow> u32 \<Rightarrow> DHCP_CLASSLESS_ROUTE_TABLE" where
  "answer_routes v p ip =
     (let t = V_PushRoute v;
          dhcp_ip = UINTToIP host_le (if ip = 0 then SrcIP p else ip);
          dhcp_mask = UINTToIP host_le (V_DhcpMask v);
          n = unat (NumExistingRoutes t)
      in if IsIpcMacAddress (MacAddressSrc p) \<and> V_DhcpGateway v = 0 \<and> GetBestClasslessRoute t dhcp_ip = None \<and>
            n < MAX_DHCP_CLASSLESS_ROUTE_ENTRIES
         then
           let cr = \<lparr>Route_Exists = True, Route_Network = IPAnd4 host_le dhcp_ip dhcp_mask,
                 Route_SubnetMask = dhcp_mask,
                 Route_Gateway = (if \<not> V_UseNat v \<and> n \<ge> 1 then Route_Gateway (Entries t ! 0)
                                  else UINTToIP host_le (V_HostIP v)),
                 Route_SubnetMaskLen = SubnetMaskToInt4 host_le dhcp_mask\<rparr>
           in t\<lparr>Entries := (Entries t)[n := cr], NumExistingRoutes := NumExistingRoutes t + 1\<rparr>
         else t)"

definition answer_options :: "bool \<Rightarrow> VH \<Rightarrow> PKT \<Rightarrow> u32 \<Rightarrow> u32 \<Rightarrow> DHCP_OPTION_LIST" where
  "answer_options no_push_route v p opcode ip =
     no_options\<lparr>Opcode := (if opcode = DHCP_DISCOVER then DHCP_OFFER else DHCP_ACK),
       ServerAddress := V_HostIP v,
       LeaseTime := (if opcode = DHCP_INFORM then 0
         else if V_DhcpExpire v = INFINITE then INFINITE else Endian32 host_le (V_DhcpExpire v div 1000)),
       DomainName := fst (StrCpy 256 (V_DhcpDomain v)),
       DhcpSubnetMask := V_DhcpMask v, DnsServer := V_DhcpDns v, DnsServer2 := V_DhcpDns2 v,
       Gateway := V_DhcpGateway v,
       ClasslessRoute := (if no_push_route then no_routes else answer_routes v p ip)\<rparr>"

definition refusal_options :: "VH \<Rightarrow> DHCP_OPTION_LIST" where
  "refusal_options v =
     no_options\<lparr>Opcode := DHCP_NACK, ServerAddress := V_HostIP v,
       DomainName := fst (StrCpy 256 (V_DhcpDomain v)), DhcpSubnetMask := V_DhcpMask v\<rparr>"

text \<open>A message with the options goes to the sender of the packet, or to all if it has no address yet.\<close>

definition dhcp_reply :: "VH \<Rightarrow> PKT \<Rightarrow> u32 \<Rightarrow> DHCP_OPTION_LIST \<Rightarrow> VH option" where
  "dhcp_reply v p ip ret =
     do {
       os \<leftarrow> BuildDhcpOption ret;
       b \<leftarrow> BuildDhcpOptionsBuf os;
       let dhcp = PointerL7 p;
       VirtualDhcpSend v (of_be32 (take 4 (drop 4 dhcp))) (if SrcIP p = 0 then 0xffffffff else SrcIP p)
         (ucast (SrcPort p)) ip (take 6 (drop 28 dhcp)) b (byte_of dhcp 1) (byte_of dhcp 2)
     }"

text \<open>The new lease replaces one of the same address.\<close>

definition grant_lease :: "u64 \<Rightarrow> VH \<Rightarrow> u8 list \<Rightarrow> u32 \<Rightarrow> cstr \<Rightarrow> VH" where
  "grant_lease tick v mac ip hostname =
     (let l = (case SearchDhcpLeaseByIp v ip of
            Some d \<Rightarrow> snd (lst_delete (V_DhcpLeaseList v) d) | None \<Rightarrow> V_DhcpLeaseList v);
          d = (NewDhcpLease tick (V_DhcpExpire v) mac ip (V_DhcpMask v) hostname)\<lparr>L_Id := V_DhcpId v + 1\<rparr>
      in v\<lparr>V_DhcpId := V_DhcpId v + 1, V_DhcpLeaseList := lst_add l d\<rparr>)"

definition VirtualDhcpServer ::
    "u64 \<Rightarrow> (u8 list \<Rightarrow> u8 list) \<Rightarrow> bool \<Rightarrow> VH \<Rightarrow> PKT \<Rightarrow> VH option" where
  "VirtualDhcpServer tick md5 no_push_route v p =
     (case find_cookie (drop 44 (PointerL7 p)) of
        None \<Rightarrow> Some v
      | Some data \<Rightarrow> do {
          opt \<leftarrow> ParseDhcpOptionList data (of_nat (length data));
          if StartWith (Hostname opt) (ascii ''securenat-'') \<or> StartWith (Hostname opt) (ascii ''securenat_'')
          then Some v
          else if \<not> (byte_of (PointerL7 p) 0 = 1 \<and>
            (Opcode opt = DHCP_DISCOVER \<or> Opcode opt = DHCP_REQUEST \<or> Opcode opt = DHCP_INFORM))
          then Some v
          else do {
            let requested_ip = (if RequestedIp opt = 0 then SrcIP p else RequestedIp opt);
            let mac = MacAddressSrc p;
            (ip, v) \<leftarrow>
              (if Opcode opt = DHCP_DISCOVER then ServeDhcpDiscover md5 v mac requested_ip
               else if Opcode opt = DHCP_REQUEST then ServeDhcpRequest md5 v mac requested_ip
               else Some (0, v));
            if ip \<noteq> 0 \<or> Opcode opt = DHCP_INFORM
            then do {
              let v = (if Opcode opt = DHCP_REQUEST then grant_lease tick v mac ip (Hostname opt) else v);
              dhcp_reply v p ip (answer_options no_push_route v p (Opcode opt) ip)
            }
            else dhcp_reply v p ip (refusal_options v)
          }
        })"

section \<open>The host as a session\<close>

definition VirtualLayer2Filter :: "VH \<Rightarrow> PKT \<Rightarrow> bool" where
  "VirtualLayer2Filter v p \<longleftrightarrow>
     (if BroadcastPacket p then True
      else if MacAddressSrc p = V_MacAddress v then False
      else MacAddressDest p = V_MacAddress v)"

record VENV =
  Tick :: u64
  v_md5 :: "u8 list \<Rightarrow> u8 list"
  v_local :: "u8 list \<Rightarrow> bool"
  no_push :: bool

definition VirtualLayer2 :: "VENV \<Rightarrow> VH \<Rightarrow> PKT \<Rightarrow> (VH \<times> DELIVERY option) option" where
  "VirtualLayer2 e v p =
     (if \<not> VirtualLayer2Filter v p then Some (v, None)
      else if TypeL3 p = L3_IPV4 \<and> TypeL4 p = L4_UDP \<and> TypeL7 p = L7_DHCPV4 \<and> V_UseDhcp v \<and>
        (BroadcastPacket p \<or> MacAddressDest p = V_MacAddress v)
      then map_option (\<lambda>v. (v, None)) (VirtualDhcpServer (Tick e) (v_md5 e) (no_push e) v p)
      else if TypeL3 p = L3_ARPV4 then Some (VirtualArpReceived v p, None)
      else if TypeL3 p = L3_IPV4 then VirtualIpReceived (v_local e) v p
      else Some (v, None))"

text \<open>A frame from the hub, or \<^const>\<open>None\<close> when it has no more. The native NAT is left out.\<close>

definition VirtualPutPacket :: "VENV \<Rightarrow> VH \<Rightarrow> u8 list option \<Rightarrow> (VH \<times> DELIVERY option) option" where
  "VirtualPutPacket e v data =
     (case data of
        None \<Rightarrow> Some (v\<lparr>V_flag1 := False\<rparr>, None)
      | Some data \<Rightarrow> do {
          packet \<leftarrow> ParsePacket host_le data (of_nat (length data));
          let v = (if V_flag1 v then v else v\<lparr>V_flag1 := True, V_Now := Tick e\<rparr>);
          case packet of
            None \<Rightarrow> Some (v, None)
          | Some p \<Rightarrow> VirtualLayer2 e v p
        })"

definition VirtualPolling :: "u64 \<Rightarrow> VH \<Rightarrow> VH option" where
  "VirtualPolling tick v =
     PollingBeacon tick
       (PollingIpCombine (PollingIpWaitTable (PollingArpWaitTable (PollingArpTable (PollingDhcpServer v)))))"

partial_function (option) VirtualGetNextPacket :: "u64 \<Rightarrow> VH \<Rightarrow> (u8 list option \<times> VH) option" where
  "VirtualGetNextPacket tick v =
     (case V_SendQueue v of
        b # bs \<Rightarrow> if b \<noteq> [] then Some (Some b, v\<lparr>V_SendQueue := bs\<rparr>)
          else do {
            v \<leftarrow> VirtualPolling tick (v\<lparr>V_SendQueue := bs, V_Now := tick\<rparr>);
            if V_SendQueue v \<noteq> [] then VirtualGetNextPacket tick v else Some (None, v)
          }
      | [] \<Rightarrow> do {
          v \<leftarrow> VirtualPolling tick (v\<lparr>V_Now := tick\<rparr>);
          if V_SendQueue v \<noteq> [] then VirtualGetNextPacket tick v else Some (None, v)
        })"

section \<open>Options\<close>

text \<open>\<open>VO_PushRoutes\<close> are the parsed routes, if they are to be applied and the text is right.\<close>

record VH_OPTION =
  VO_MacAddress :: "u8 list"
  VO_Ip :: IP
  VO_Mask :: IP
  VO_UseNat :: bool
  VO_Mtu :: u32
  VO_UseDhcp :: bool
  VO_DhcpLeaseIPStart :: IP
  VO_DhcpLeaseIPEnd :: IP
  VO_DhcpSubnetMask :: IP
  VO_DhcpExpireTimeSpan :: u32
  VO_DhcpGatewayAddress :: IP
  VO_DhcpDnsServerAddress :: IP
  VO_DhcpDnsServerAddress2 :: IP
  VO_DhcpDomainName :: cstr
  VO_PushRoutes :: "DHCP_CLASSLESS_ROUTE_TABLE option"

definition ip_mss :: "u32 \<Rightarrow> u32" where
  "ip_mss mtu =
     (let m = min mtu MAX_L3_DATA_SIZE;
          m = (if m = 0 then MAX_L3_DATA_SIZE else m);
          m = max m (20 + IP_HEADER_SIZE + 14 + 8)
      in (m - IP_HEADER_SIZE) div 8 * 8)"

definition SetVirtualHostOption :: "VH \<Rightarrow> VH_OPTION \<Rightarrow> VH" where
  "SetVirtualHostOption v vo =
     (let uint = IPToUINT host_le;
          start_ip = uint (VO_DhcpLeaseIPStart vo); end_ip = uint (VO_DhcpLeaseIPEnd vo);
          span = VO_DhcpExpireTimeSpan vo
      in v\<lparr>V_MacAddress := (if list_ex (\<lambda>c. c \<noteq> 0) (take 6 (VO_MacAddress vo)) then VO_MacAddress vo else V_MacAddress v),
           V_HostIP := uint (VO_Ip vo), V_HostMask := uint (VO_Mask vo), V_IpMss := ip_mss (VO_Mtu vo),
           V_UseNat := VO_UseNat vo, V_UseDhcp := VO_UseDhcp vo,
           V_DhcpExpire := (if span = 0 \<or> span = INFINITE then INFINITE
             else max DHCP_MIN_EXPIRE_TIMESPAN (min (span * 1000) 2000000000)),
           V_DhcpIpStart := start_ip,
           V_DhcpIpEnd := (if Endian32 host_le end_ip < Endian32 host_le start_ip then start_ip else end_ip),
           V_DhcpMask := uint (VO_DhcpSubnetMask vo), V_DhcpGateway := uint (VO_DhcpGatewayAddress vo),
           V_DhcpDns := uint (VO_DhcpDnsServerAddress vo), V_DhcpDns2 := uint (VO_DhcpDnsServerAddress2 vo),
           V_DhcpDomain := fst (StrCpy 256 (VO_DhcpDomainName vo)),
           V_PushRoute := (case VO_PushRoutes vo of Some t \<Rightarrow> t | None \<Rightarrow> V_PushRoute v)\<rparr>)"

definition VirtualInit :: "u64 \<Rightarrow> VH \<Rightarrow> VH" where
  "VirtualInit tick v =
     v\<lparr>V_SendQueue := [], V_DhcpId := 0, V_ArpTable := lst_new, V_ArpWaitTable := lst_new,
       V_IpWaitTable := lst_new, V_IpCombine := lst_new, V_DhcpLeaseList := lst_new, V_flag1 := False,
       V_NextArpTablePolling := tick + ARP_ENTRY_POLLING_TIME, V_CurrentIpQuota := 0\<rparr>"

end
