(* ===== verification/VirtualLease.thy ===== *)
theory VirtualLease
  imports VirtualDhcp
begin

text \<open>
  The leases of the DHCP server of SecureNAT (src/src/Cedar/Virtual.c): what the searches find, which
  address a client is offered, that the search for a free one ends, and what a new lease does to the
  leases of other clients.
\<close>

definition leased :: "VH \<Rightarrow> u32 \<Rightarrow> bool" where
  "leased v ip \<longleftrightarrow> (\<exists>d \<in> set (items (V_DhcpLeaseList v)). L_IpAddress d = ip)"

text \<open>No address is leased twice, and the address 0 is not leased.\<close>

definition leases_ok :: "VH \<Rightarrow> bool" where
  "leases_ok v \<longleftrightarrow> lst_ok CompareDhcpLeaseList (V_DhcpLeaseList v) \<and>
     distinct (map L_IpAddress (items (V_DhcpLeaseList v))) \<and> \<not> leased v 0"

text \<open>The list of leases in another order.\<close>

definition resorted :: "VH \<Rightarrow> VH \<Rightarrow> bool" where
  "resorted v v' \<longleftrightarrow> (\<exists>l. v' = v\<lparr>V_DhcpLeaseList := l\<rparr> \<and> mset (items l) = mset (items (V_DhcpLeaseList v)) \<and>
     lst_ok CompareDhcpLeaseList l)"

lemma SearchDhcpLeaseByIp_None: "(SearchDhcpLeaseByIp v ip = None) = (\<not> leased v ip)"
  by (auto simp: SearchDhcpLeaseByIp_def leased_def find_None_iff)

lemma SearchDhcpLeaseByIp_Some:
  "leases_ok v \<Longrightarrow> (SearchDhcpLeaseByIp v ip = Some d) = (d \<in> set (items (V_DhcpLeaseList v)) \<and> L_IpAddress d = ip)"
  using find_unique [of L_IpAddress "items (V_DhcpLeaseList v)" d]
  by (auto simp: SearchDhcpLeaseByIp_def leases_ok_def find_Some_iff in_set_conv_nth)

lemma resorted_refl: "leases_ok v \<Longrightarrow> resorted v v"
  unfolding resorted_def leases_ok_def by (intro exI [of _ "V_DhcpLeaseList v"]) simp

lemma resorted_same:
  assumes "resorted v v'"
  shows "set (items (V_DhcpLeaseList v')) = set (items (V_DhcpLeaseList v))" and "leased v' = leased v"
    and "in_range v' = in_range v" and "leases_ok v \<Longrightarrow> leases_ok v'"
proof -
  obtain l where l: "v' = v\<lparr>V_DhcpLeaseList := l\<rparr>" "mset (items l) = mset (items (V_DhcpLeaseList v))" "lst_ok CompareDhcpLeaseList l"
    using assms by (auto simp: resorted_def)
  show s: "set (items (V_DhcpLeaseList v')) = set (items (V_DhcpLeaseList v))"
    using l(1) mset_eq_setD [OF l(2)] by simp
  then show le: "leased v' = leased v" by (simp add: leased_def fun_eq_iff)
  show "in_range v' = in_range v" by (simp add: l(1) in_range_def fun_eq_iff)
  have "mset (map L_IpAddress (items l)) = mset (map L_IpAddress (items (V_DhcpLeaseList v)))" using l(2) by simp
  then have "distinct (map L_IpAddress (items l)) = distinct (map L_IpAddress (items (V_DhcpLeaseList v)))"
    by (metis mset_eq_imp_distinct_iff)
  then show "leases_ok v'" if "leases_ok v" using that l le by (simp add: leases_ok_def)
qed

lemma SearchDhcpLeaseByMac_spec:
  assumes "SearchDhcpLeaseByMac v mac = (r, v')" and "leases_ok v"
  shows "resorted v v'" and "case r of None \<Rightarrow> \<forall>d \<in> set (items (V_DhcpLeaseList v)). L_MacAddress d \<noteq> mac
    | Some d \<Rightarrow> d \<in> set (items (V_DhcpLeaseList v)) \<and> L_MacAddress d = mac"
proof -
  define t where "t = \<lparr>L_Id = 0, L_LeasedTime = 0, L_ExpireTime = 0, L_MacAddress = mac, L_IpAddress = 0, L_Mask = 0,
            L_Hostname = []\<rparr>"
  obtain l where s: "lst_search (Some CompareDhcpLeaseList) (V_DhcpLeaseList v) t = (r, l)" "v' = v\<lparr>V_DhcpLeaseList := l\<rparr>"
    using assms(1) by (auto simp: SearchDhcpLeaseByMac_def t_def Let_def split: prod.splits)
  have ok: "lst_ok CompareDhcpLeaseList (V_DhcpLeaseList v)" using assms(2) by (simp add: leases_ok_def)
  note sp = comparator.lst_search_spec [OF lease_order.comparator_cmp ok s(1)]
  show "resorted v v'" using sp s(2) by (auto simp: resorted_def)
  show "case r of None \<Rightarrow> \<forall>d \<in> set (items (V_DhcpLeaseList v)). L_MacAddress d \<noteq> mac
    | Some d \<Rightarrow> d \<in> set (items (V_DhcpLeaseList v)) \<and> L_MacAddress d = mac"
    using sp by (auto simp: lease_order.cmp_zero t_def split: option.splits)
qed

section \<open>The choice of an address\<close>

text \<open>What a client may be given: an address of the range that nobody else has.\<close>

definition offerable :: "VH \<Rightarrow> u8 list \<Rightarrow> u32 \<Rightarrow> bool" where
  "offerable v mac ip \<longleftrightarrow> in_range v ip \<and> (\<forall>d \<in> set (items (V_DhcpLeaseList v)). L_IpAddress d = ip \<longrightarrow> L_MacAddress d = mac)"

lemma resorted_offerable: "resorted v v' \<Longrightarrow> offerable v' mac ip = offerable v mac ip"
  by (simp add: offerable_def resorted_same)

lemma wished_ip_spec:
  assumes "leases_ok v"
  shows "wished_ip v mac ip = (if ip \<noteq> 0 \<and> offerable v mac ip then ip else 0)"
proof (cases "SearchDhcpLeaseByIp v ip")
  case None
  then have "\<forall>d \<in> set (items (V_DhcpLeaseList v)). L_IpAddress d \<noteq> ip"
    using SearchDhcpLeaseByIp_None [of v ip] by (auto simp: leased_def)
  then show ?thesis using None by (auto simp: wished_ip_def offerable_def)
next
  case (Some d)
  then have d: "d \<in> set (items (V_DhcpLeaseList v))" "L_IpAddress d = ip" using SearchDhcpLeaseByIp_Some [OF assms] by auto
  have uniq: "x = d" if "x \<in> set (items (V_DhcpLeaseList v))" "L_IpAddress x = ip" for x
  proof -
    have "SearchDhcpLeaseByIp v ip = Some x" using that SearchDhcpLeaseByIp_Some [OF assms, of ip x] by blast
    then show ?thesis using Some by simp
  qed
  have "(\<forall>x \<in> set (items (V_DhcpLeaseList v)). L_IpAddress x = ip \<longrightarrow> L_MacAddress x = mac) = (L_MacAddress d = mac)"
    using d uniq by blast
  then show ?thesis using Some by (auto simp: wished_ip_def offerable_def)
qed

lemma Endian32_zero: "Endian32 le 0 = 0"
  by (cases le) (simp_all add: Endian_eq_of_mem of_mem32_def be32_def)

lemma Endian32_zero_iff: "(Endian32 le x = 0) = (x = 0)"
  using Endian_involution(2) [of le x] Endian32_zero by metis

lemma word_overflow_max: "(i :: u32) + 1 = 0 \<Longrightarrow> i \<le> j \<Longrightarrow> j = i"
proof -
  assume "i + 1 = 0" "i \<le> j"
  moreover from this have "i = - 1" by (simp add: eq_neg_iff_add_eq_0)
  moreover have "j \<le> - 1" by simp
  ultimately show "j = i" by simp
qed

text \<open>The loop ends: when its counter wraps it is at the address 0, which is free.\<close>

lemma free_ip_loop_spec:
  assumes "leases_ok v"
  shows "\<exists>ip. free_ip_loop v i e = Some ip \<and> (ip \<noteq> 0 \<longrightarrow> i \<le> Endian32 host_le ip \<and> Endian32 host_le ip \<le> e \<and> \<not> leased v ip) \<and>
    (ip = 0 \<and> i \<noteq> 0 \<longrightarrow> (\<forall>j. i \<le> j \<and> j \<le> e \<longrightarrow> leased v (Endian32 host_le j)))"
proof (induction "two32 - unat i" arbitrary: i rule: less_induct)
  case less
  have zero: "free_ip_loop v 0 e = Some 0"
    using assms by (subst free_ip_loop.simps) (simp add: SearchDhcpLeaseByIp_None leases_ok_def Endian32_zero)
  show ?case
  proof (cases "i \<le> e \<and> leased v (Endian32 host_le i)")
    case False
    then show ?thesis
      by (subst free_ip_loop.simps) (auto simp: SearchDhcpLeaseByIp_None Endian32_zero_iff)
  next
    case True
    then have "i \<noteq> 0" using assms by (auto simp: leases_ok_def Endian32_zero)
    have step: "free_ip_loop v i e = free_ip_loop v (i + 1) e"
      using True SearchDhcpLeaseByIp_None [of v "Endian32 host_le i"] by (subst free_ip_loop.simps) auto
    show ?thesis
    proof (cases "i + 1 = 0")
      case wrap: True
      have "j = i" if "i \<le> j" for j :: u32
        using that wrap by (metis word_overflow_max)
      then show ?thesis using zero wrap True step by auto
    next
      case False
      have suc: "unat (i + 1) = unat i + 1" using False by (metis Suc_eq_plus1 add.commute unatSuc)
      then have "two32 - unat (i + 1) < two32 - unat i" using unat_lt32 [of "i + 1"] by linarith
      then obtain ip where ip: "free_ip_loop v (i + 1) e = Some ip"
        "ip \<noteq> 0 \<longrightarrow> i + 1 \<le> Endian32 host_le ip \<and> Endian32 host_le ip \<le> e \<and> \<not> leased v ip"
        "ip = 0 \<longrightarrow> (\<forall>j. i + 1 \<le> j \<and> j \<le> e \<longrightarrow> leased v (Endian32 host_le j))"
        using less [of "i + 1"] False by blast
      have le: "i + 1 \<le> j \<longleftrightarrow> i < j" for j :: u32 using suc by (simp add: word_le_nat_alt word_less_nat_alt Suc_le_eq)
      have "ip = 0 \<longrightarrow> (\<forall>j. i \<le> j \<and> j \<le> e \<longrightarrow> leased v (Endian32 host_le j))"
        using ip(3) True unfolding le by (metis order.order_iff_strict)
      moreover have "ip \<noteq> 0 \<longrightarrow> i \<le> Endian32 host_le ip" using ip(2) unfolding le by (blast intro: less_imp_le)
      ultimately show ?thesis using ip step by auto
    qed
  qed
qed

lemma GetFreeDhcpIpAddress_spec:
  assumes "leases_ok v"
  shows "\<exists>ip. GetFreeDhcpIpAddress v = Some ip \<and> (ip \<noteq> 0 \<longrightarrow> in_range v ip \<and> \<not> leased v ip) \<and>
    (ip = 0 \<and> V_DhcpIpStart v \<noteq> 0 \<longrightarrow> (\<forall>a. in_range v a \<longrightarrow> leased v a))"
proof -
  obtain ip where ip: "free_ip_loop v (Endian32 host_le (V_DhcpIpStart v)) (Endian32 host_le (V_DhcpIpEnd v)) = Some ip"
    "ip \<noteq> 0 \<longrightarrow> in_range v ip \<and> \<not> leased v ip"
    "ip = 0 \<and> V_DhcpIpStart v \<noteq> 0 \<longrightarrow> (\<forall>j. Endian32 host_le (V_DhcpIpStart v) \<le> j \<and> j \<le> Endian32 host_le (V_DhcpIpEnd v) \<longrightarrow>
      leased v (Endian32 host_le j))"
    using free_ip_loop_spec [OF assms, of "Endian32 host_le (V_DhcpIpStart v)" "Endian32 host_le (V_DhcpIpEnd v)"]
    by (auto simp: in_range_def Endian32_zero_iff)
  have "leased v a" if "ip = 0 \<and> V_DhcpIpStart v \<noteq> 0" "in_range v a" for a
    using ip(3) that by (metis Endian_involution(2) in_range_def)
  then show ?thesis using ip by (auto simp: GetFreeDhcpIpAddress_def)
qed

lemma random_ip_loop_spec:
  assumes "s \<le> e"
  shows "random_ip_loop md5 v mac s (e - s + 1) n i = 0 \<or>
    (let ip = random_ip_loop md5 v mac s (e - s + 1) n i in s \<le> Endian32 host_le ip \<and> Endian32 host_le ip \<le> e \<and> \<not> leased v ip)"
proof (induction n arbitrary: i)
  case (Suc n)
  define x where "x = of_be32 (take 4 (md5 (be32 i @ mac)))"
  have le: "unat s \<le> unat e" using assms by (simp add: word_le_nat_alt)
  have d: "unat (e - s) = unat e - unat s" using le by (rule unat_sub32)
  have range: "s \<le> s + x mod (e - s + 1) \<and> s + x mod (e - s + 1) \<le> e"
  proof (cases "e - s + 1 = 0")
    case True
    then have "e - s = - 1" by (simp add: eq_neg_iff_add_eq_0)
    then have "unat (e - s) = unat (- 1 :: u32)" by (rule arg_cong)
    also have "\<dots> = two32 - 1" by (simp add: unsigned_minus_1_eq_mask mask_eq_exp_minus_1)
    finally have "unat s = 0 \<and> unat e = two32 - 1" using d unat_lt32 [of e] by linarith
    moreover have "unat (s + x) \<le> two32 - 1" using unat_lt32 [of "s + x"] by linarith
    ultimately show ?thesis using True by (simp add: word_le_nat_alt)
  next
    case False
    then have "unat (e - s + 1) = unat e - unat s + 1" using d by (metis Suc_eq_plus1 add.commute unatSuc)
    then have r: "unat (x mod (e - s + 1)) \<le> unat e - unat s" by (simp add: unat_mod less_Suc_eq_le [symmetric])
    then have "unat (s + x mod (e - s + 1)) = unat s + unat (x mod (e - s + 1))"
      using le unat_lt32 [of e] by (intro unat_add32) linarith
    then show ?thesis using r le by (simp add: word_le_nat_alt)
  qed
  show ?case
    using range Suc by (simp add: x_def [symmetric] Let_def SearchDhcpLeaseByIp_None)
qed simp

lemma random_spec:
  "GetFreeDhcpIpAddressByRandom md5 v mac = 0 \<or>
    in_range v (GetFreeDhcpIpAddressByRandom md5 v mac) \<and> \<not> leased v (GetFreeDhcpIpAddressByRandom md5 v mac)"
  using random_ip_loop_spec [of "Endian32 host_le (V_DhcpIpStart v)" "Endian32 host_le (V_DhcpIpEnd v)"]
  by (auto simp: GetFreeDhcpIpAddressByRandom_def in_range_def Let_def linorder_not_less)

lemma not_leased_offerable: "in_range v ip \<Longrightarrow> \<not> leased v ip \<Longrightarrow> offerable v mac ip"
  by (auto simp: offerable_def leased_def)

text \<open>An offer returns with an address that the client may have, or with none.\<close>

lemma ServeDhcpDiscover_spec:
  assumes "leases_ok v"
  shows "\<exists>ip v'. ServeDhcpDiscover md5 v mac req = Some (ip, v') \<and> resorted v v' \<and> (ip \<noteq> 0 \<longrightarrow> offerable v mac ip) \<and>
    (req \<noteq> 0 \<and> offerable v mac req \<longrightarrow> ip = req) \<and>
    (ip = 0 \<and> \<not> V_RandomizeAssignIp v \<and> V_DhcpIpStart v \<noteq> 0 \<longrightarrow> (\<forall>a. in_range v a \<longrightarrow> leased v a))"
proof (cases "wished_ip v mac req = 0")
  case False
  then show ?thesis
    using resorted_refl [OF assms] by (auto simp: ServeDhcpDiscover_def wished_ip_spec [OF assms] split: if_splits)
next
  case True
  then have w: "\<not> (req \<noteq> 0 \<and> offerable v mac req)" by (auto simp: wished_ip_spec [OF assms])
  obtain r v1 where s: "SearchDhcpLeaseByMac v mac = (r, v1)" by (metis surj_pair)
  note sp = SearchDhcpLeaseByMac_spec [OF s assms]
  note same = resorted_same [OF sp(1)]
  define own where "own = (case r of Some d \<Rightarrow> if in_range v1 (L_IpAddress d) then L_IpAddress d else 0 | None \<Rightarrow> 0)"
  have fields: "V_RandomizeAssignIp v1 = V_RandomizeAssignIp v" "V_DhcpIpStart v1 = V_DhcpIpStart v"
    using sp(1) by (auto simp: resorted_def)
  have own: "offerable v mac own" if own0: "own \<noteq> 0"
  proof -
    obtain d where d: "r = Some d" "in_range v (L_IpAddress d)" "own = L_IpAddress d"
      using own0 by (auto simp: own_def same(3) split: option.splits if_splits)
    then have m: "d \<in> set (items (V_DhcpLeaseList v))" "L_MacAddress d = mac" using sp(2) by auto
    have "x = d" if "x \<in> set (items (V_DhcpLeaseList v))" "L_IpAddress x = L_IpAddress d" for x
      using that m SearchDhcpLeaseByIp_Some [OF assms, of "L_IpAddress d"] by (metis option.inject)
    then show ?thesis using d m by (auto simp: offerable_def)
  qed
  have eq: "ServeDhcpDiscover md5 v mac req =
      (if own \<noteq> 0 then Some (own, v1)
       else if V_RandomizeAssignIp v then Some (GetFreeDhcpIpAddressByRandom md5 v1 mac, v1)
       else map_option (\<lambda>ip. (ip, v1)) (GetFreeDhcpIpAddress v1))"
    by (simp add: ServeDhcpDiscover_def True s own_def [symmetric] fields)
  obtain ip where "GetFreeDhcpIpAddress v1 = Some ip" "ip \<noteq> 0 \<longrightarrow> in_range v ip \<and> \<not> leased v ip"
    "ip = 0 \<and> V_DhcpIpStart v \<noteq> 0 \<longrightarrow> (\<forall>a. in_range v a \<longrightarrow> leased v a)"
    using GetFreeDhcpIpAddress_spec [OF same(4) [OF assms]] unfolding same(2,3) fields by blast
  moreover have "GetFreeDhcpIpAddressByRandom md5 v1 mac = 0 \<or>
      in_range v (GetFreeDhcpIpAddressByRandom md5 v1 mac) \<and> \<not> leased v (GetFreeDhcpIpAddressByRandom md5 v1 mac)"
    using random_spec [of md5 v1 mac] unfolding same(2,3) .
  ultimately show ?thesis using eq own w sp(1) not_leased_offerable [of v] by auto
qed

lemma ServeDhcpRequest_spec:
  assumes "leases_ok v"
  shows "\<exists>ip v'. ServeDhcpRequest md5 v mac req = Some (ip, v') \<and> resorted v v' \<and> (ip \<noteq> 0 \<longrightarrow> offerable v mac ip \<and> (req \<noteq> 0 \<longrightarrow> ip = req)) \<and>
    (req \<noteq> 0 \<and> offerable v mac req \<longrightarrow> ip = req)"
proof -
  obtain ip v' where "ServeDhcpDiscover md5 v mac req = Some (ip, v')" "resorted v v'" "ip \<noteq> 0 \<longrightarrow> offerable v mac ip"
    "req \<noteq> 0 \<and> offerable v mac req \<longrightarrow> ip = req"
    using ServeDhcpDiscover_spec [OF assms] by blast
  then show ?thesis by (auto simp: ServeDhcpRequest_def)
qed

section \<open>A new lease\<close>

lemma resorted_others:
  "resorted v v' \<Longrightarrow> filter_mset P (mset (items (V_DhcpLeaseList v'))) = filter_mset P (mset (items (V_DhcpLeaseList v)))"
  by (auto simp: resorted_def)

text \<open>It takes the place of the client's own lease of that address.\<close>

lemma grant_lease_spec:
  assumes "leases_ok v" and "offerable v mac ip" and "ip \<noteq> 0"
    and v'_def: "v' = grant_lease tick v mac ip h"
  shows "leases_ok v'" and "filter_mset (\<lambda>d. L_MacAddress d \<noteq> mac) (mset (items (V_DhcpLeaseList v'))) =
      filter_mset (\<lambda>d. L_MacAddress d \<noteq> mac) (mset (items (V_DhcpLeaseList v)))"
    and "\<exists>d \<in> set (items (V_DhcpLeaseList v')). L_IpAddress d = ip \<and> L_MacAddress d = mac"
proof -
  define l where "l = (case SearchDhcpLeaseByIp v ip of
            Some d \<Rightarrow> snd (lst_delete (V_DhcpLeaseList v) d) | None \<Rightarrow> V_DhcpLeaseList v)"
  define d where "d = (NewDhcpLease tick (V_DhcpExpire v) mac ip (V_DhcpMask v) h)\<lparr>L_Id := V_DhcpId v + 1\<rparr>"
  have v': "V_DhcpLeaseList v' = lst_add l d" by (simp add: v'_def grant_lease_def l_def d_def Let_def)
  have d: "L_IpAddress d = ip" "L_MacAddress d = mac" by (simp_all add: d_def NewDhcpLease_def)
  note ok = assms(1) [unfolded leases_ok_def]
  have l: "set (items l) = {x \<in> set (items (V_DhcpLeaseList v)). L_IpAddress x \<noteq> ip} \<and> distinct (map L_IpAddress (items l)) \<and>
      filter_mset (\<lambda>d. L_MacAddress d \<noteq> mac) (mset (items l)) =
      filter_mset (\<lambda>d. L_MacAddress d \<noteq> mac) (mset (items (V_DhcpLeaseList v)))"
  proof (cases "SearchDhcpLeaseByIp v ip")
    case None
    then have "\<not> leased v ip" by (simp add: SearchDhcpLeaseByIp_None)
    then show ?thesis using None ok by (auto simp: l_def leased_def)
  next
    case (Some x)
    then have x: "x \<in> set (items (V_DhcpLeaseList v))" "L_IpAddress x = ip" using SearchDhcpLeaseByIp_Some [OF assms(1)] by auto
    then have xm: "L_MacAddress x = mac" using assms(2) by (simp add: offerable_def)
    have li: "items l = remove1 x (items (V_DhcpLeaseList v))" by (simp add: l_def Some lst_delete_def)
    have dis: "distinct (items (V_DhcpLeaseList v))" using ok by (simp add: distinct_map)
    have "inj_on L_IpAddress (set (items (V_DhcpLeaseList v)))" using ok by (simp add: distinct_map)
    then have "set (items l) = {y \<in> set (items (V_DhcpLeaseList v)). L_IpAddress y \<noteq> ip}"
      using x dis by (auto simp: li inj_on_def)
    moreover have "distinct (map L_IpAddress (items l))" using ok unfolding li by (auto simp: distinct_map intro: inj_on_subset)
    moreover have "filter_mset (\<lambda>d. L_MacAddress d \<noteq> mac) (mset (items l)) =
      filter_mset (\<lambda>d. L_MacAddress d \<noteq> mac) (mset (items (V_DhcpLeaseList v)))"
    proof -
      have "mset (items (V_DhcpLeaseList v)) = add_mset x (mset (items l))" using x(1) by (simp add: li)
      then show ?thesis using xm by simp
    qed
    ultimately show ?thesis by blast
  qed
  have "lst_ok CompareDhcpLeaseList (lst_add l d)" by (simp add: lst_ok_def lst_add_def)
  moreover have "\<not> leased v' 0" using l d assms(3) ok by (auto simp: leased_def v' lst_add_def)
  moreover have "ip \<notin> L_IpAddress ` set (items l)" using conjunct1 [OF l] by auto
  then have "distinct (map L_IpAddress (items l @ [d]))" using conjunct1 [OF conjunct2 [OF l]] d by simp
  ultimately show "leases_ok v'" by (simp add: leases_ok_def v') (simp add: lst_add_def)
  show "filter_mset (\<lambda>d. L_MacAddress d \<noteq> mac) (mset (items (V_DhcpLeaseList v'))) =
      filter_mset (\<lambda>d. L_MacAddress d \<noteq> mac) (mset (items (V_DhcpLeaseList v)))"
    using l d by (simp add: v' lst_add_def)
  show "\<exists>d \<in> set (items (V_DhcpLeaseList v')). L_IpAddress d = ip \<and> L_MacAddress d = mac"
    using d by (auto simp: v' lst_add_def)
qed

end
