(* ===== verification/VirtualFrag.thy ===== *)
theory VirtualFrag
  imports VirtualHost
begin

text \<open>
  Fragments on their way through the virtual host (src/src/Cedar/Virtual.c): what the object that
  puts a packet together holds while fragments arrive, and that it never reads or writes outside
  of its buffer; the frames that the host makes of a packet; a packet cut by one host and put
  together by another, in whatever order its fragments arrive.
\<close>

section \<open>Buffers\<close>

text \<open>The buffer grows by a factor of four, at most three times.\<close>

definition buffer_sizes :: "u32 set" where
  "buffer_sizes = {1480, 5920, 23680, 94720}"

definition combine_ok :: "IP_COMBINE \<Rightarrow> bool" where
  "combine_ok c \<longleftrightarrow> length (C_Data c) = unat (C_DataReserved c) \<and> C_DataReserved c \<in> buffer_sizes \<and>
     C_Size c \<le> C_DataReserved c"

lemma buffer_grows:
  assumes "k \<in> buffer_sizes" and "k < need" and "unat need \<le> 65535"
  shows "k * 4 \<in> buffer_sizes \<and> unat (k * 4) = 4 * unat k \<and> k * 4 \<le> MAX_MALLOC_MEM_SIZE"
proof -
  have "\<not> 94720 < need" using assms(3) by (simp add: word_less_nat_alt)
  then show ?thesis using assms(1,2) by (auto simp: buffer_sizes_def)
qed

lemma combine_grow_spec:
  assumes "length cells = unat r" and "r \<in> buffer_sizes" and "unat need \<le> 65535"
  shows "\<exists>ext r'. combine_grow cells r need = Some (cells @ ext, r') \<and> length (cells @ ext) = unat r' \<and>
    r' \<in> buffer_sizes \<and> need \<le> r' \<and> r \<le> r'"
  using assms(1,2)
proof (induction "94720 - unat r" arbitrary: cells r rule: less_induct)
  case less
  show ?case
  proof (cases "r < need")
    case False
    then have "need \<le> r" by simp
    then show ?thesis using less.prems False
      by (intro exI [of _ "[]"]) (subst combine_grow.simps, simp)
  next
    case True
    note g = buffer_grows [OF less.prems(2) True assms(3)]
    define d where "d = cells @ replicate (unat (r * 4) - length cells) None"
    have "0 < unat r" "unat r < 94720"
      using less.prems(2) True assms(3) by (auto simp: buffer_sizes_def word_less_nat_alt)
    then have "94720 - unat (r * 4) < 94720 - unat r" using g by linarith
    then obtain ext r' where "combine_grow d (r * 4) need = Some (d @ ext, r')" "length (d @ ext) = unat r'"
        "r' \<in> buffer_sizes" "need \<le> r'" "r * 4 \<le> r'"
      using g less.prems(1) less.hyps [of "r * 4" d] by (auto simp: d_def)
    moreover have "combine_grow cells r need = combine_grow d (r * 4) need"
      using True g less.prems(1) by (subst combine_grow.simps) (simp add: ReAlloc_grow d_def)
    moreover have "r \<le> r * 4" using g by (simp add: word_le_nat_alt)
    ultimately show ?thesis unfolding d_def
      by (intro exI [of _ "replicate (unat (r * 4) - length cells) None @ ext"] exI [of _ r']) simp
  qed
qed

section \<open>One more fragment\<close>

text \<open>The object with a part that fits into its buffer \<open>cells\<close> of size \<open>r\<close>.\<close>

definition with_part :: "IP_COMBINE \<Rightarrow> u32 \<Rightarrow> u8 list \<Rightarrow> bool \<Rightarrow> u8 list option \<Rightarrow> u8 block \<Rightarrow> u32 \<Rightarrow> IP_COMBINE" where
  "with_part c offset data last_packet head cells r =
     (let (parts, off, sz) = combine_overlaps (C_IpParts c) offset (of_nat (length data))
      in c\<lparr>C_HeadIpHeaderData := (case head of
               Some h \<Rightarrow> if length h \<ge> 20 \<and> C_HeadIpHeaderData c = None then Some h else C_HeadIpHeaderData c
             | None \<Rightarrow> C_HeadIpHeaderData c),
           C_Data := take (unat offset) cells @ map Some data @ drop (unat offset + length data) cells,
           C_DataReserved := r,
           C_Size := (if last_packet then offset + of_nat (length data) else C_Size c),
           C_IpParts := (if sz \<noteq> 0 then parts @ [\<lparr>Part_Offset = off, Part_Size = sz\<rparr>] else parts)\<rparr>)"

definition complete :: "IP_COMBINE \<Rightarrow> bool" where
  "complete c \<longleftrightarrow> C_Size c \<noteq> 0 \<and> sum_list (map Part_Size (C_IpParts c)) = C_Size c"

definition deliver :: "IP_COMBINE \<Rightarrow> DELIVERY option" where
  "deliver c =
     IpReceived (C_SrcIP c) (C_DestIP c) (C_Protocol c) (take (unat (C_Size c)) (C_Data c)) (C_MacBroadcast c)
       (C_Ttl c) (C_HeadIpHeaderData c) (C_SrcIsLocalMacAddr c) (C_MaxL3Size c)"

text \<open>The state with \<open>c'\<close> in place of \<open>c\<close>, or without it.\<close>

definition keep_combine :: "VH \<Rightarrow> IP_COMBINE \<Rightarrow> IP_COMBINE \<Rightarrow> VH" where
  "keep_combine v c c' =
     v\<lparr>V_CurrentIpQuota := V_CurrentIpQuota v + (C_DataReserved c' - C_DataReserved c),
       V_IpCombine := (V_IpCombine v)\<lparr>items := replace_first c c' (items (V_IpCombine v))\<rparr>\<rparr>"

definition drop_combine :: "VH \<Rightarrow> IP_COMBINE \<Rightarrow> VH" where
  "drop_combine v c = FreeIpCombine (v\<lparr>V_IpCombine := snd (lst_delete (V_IpCombine v) c)\<rparr>) c"

lemma CombineIp_eq:
  assumes "combine_ok c" and "unat offset + length data \<le> 65535" and "data \<noteq> []"
    and "last_packet \<or> C_Size c = 0 \<or> unat offset + length data \<le> unat (C_Size c)"
  shows "\<exists>cells r. let c' = with_part c offset data last_packet head cells r
    in CombineIp v c offset data last_packet head =
        Some (if complete c' then (drop_combine (keep_combine v c c') c', deliver c') else (keep_combine v c c', None)) \<and>
      combine_ok c' \<and> unat offset + length data \<le> length cells \<and> take (length (C_Data c)) cells = C_Data c \<and>
      C_DataReserved c \<le> r"
proof -
  define n :: u32 where "n = of_nat (length data)"
  have un: "unat n = length data" "unat (offset + n) = unat offset + length data"
    using assms(2) by (simp_all add: n_def nowrap)
  note ok = assms(1) [unfolded combine_ok_def]
  obtain ext r where g: "combine_grow (C_Data c) (C_DataReserved c) (offset + n) = Some (C_Data c @ ext, r)"
    "length (C_Data c @ ext) = unat r" "r \<in> buffer_sizes" "offset + n \<le> r" "C_DataReserved c \<le> r"
    using combine_grow_spec [of "C_Data c" "C_DataReserved c" "offset + n"] ok un(2) assms(2) by auto
  define cells where "cells = C_Data c @ ext"
  define c' where "c' = with_part c offset data last_packet head cells r"
  have fits: "unat offset + length data \<le> length cells"
    using g(2,4) un(2) by (simp add: cells_def word_le_nat_alt)
  then have wr: "mem_write cells (unat offset) (map Some data) =
      Some (take (unat offset) cells @ map Some data @ drop (unat offset + length data) cells)"
    by (simp add: mem_write_ok)
  have size: "C_Size c' \<le> r" using ok g(4,5) un by (auto simp: c'_def with_part_def n_def split: prod.splits)
  have ok': "combine_ok c'"
    using g(2,3) fits size
    by (auto simp: combine_ok_def c'_def with_part_def cells_def split: prod.splits)
  have read: "mem_read (C_Data c') 0 (unat (C_Size c')) = Some (take (unat (C_Size c')) (C_Data c'))"
    using ok' by (simp add: mem_read_ok combine_ok_def word_le_nat_alt)
  have small: "\<not> 65535 < offset + n" using un(2) assms(2) by (simp add: word_less_nat_alt)
  obtain parts off sz where co: "combine_overlaps (C_IpParts c) offset n = (parts, off, sz)"
    by (metis prod_cases3)
  define total where "total = (if last_packet then offset + n else C_Size c)"
  define ps where "ps = (if sz \<noteq> 0 then parts @ [\<lparr>Part_Offset = off, Part_Size = sz\<rparr>] else parts)"
  define d where "d = take (unat offset) cells @ map Some data @ drop (unat offset + length data) cells"
  define h where "h = (case head of
               Some h \<Rightarrow> if length h \<ge> 20 \<and> C_HeadIpHeaderData c = None then Some h else C_HeadIpHeaderData c
             | None \<Rightarrow> C_HeadIpHeaderData c)"
  have c': "c' = c\<lparr>C_HeadIpHeaderData := h, C_Data := d, C_DataReserved := r, C_Size := total, C_IpParts := ps\<rparr>"
    by (simp add: c'_def with_part_def n_def [symmetric] co total_def ps_def d_def h_def)
  have h': "(case head of
               Some h \<Rightarrow> if length h \<ge> 20 \<and> C_HeadIpHeaderData c = None then c\<lparr>C_HeadIpHeaderData := Some h\<rparr> else c
             | None \<Rightarrow> c) = c\<lparr>C_HeadIpHeaderData := h\<rparr>"
    by (simp add: h_def split: option.split)
  have within: "\<not> (\<not> last_packet \<and> C_Size c \<noteq> 0 \<and> C_Size c < offset + n)"
    using assms(4) un by (auto simp: word_less_nat_alt)
  have "CombineIp v c offset data last_packet head =
      Some (if complete c' then (drop_combine (keep_combine v c c') c', deliver c') else (keep_combine v c c', None))"
    using read
    unfolding CombineIp_def n_def [symmetric] Let_def if_not_P [OF small] if_not_P [OF within] h' g(1) Option.bind_lunit prod.case cells_def [symmetric] wr co
      total_def [symmetric] ps_def [symmetric] d_def [symmetric]
    by (simp add: c' complete_def keep_combine_def drop_combine_def deliver_def)
  then show ?thesis using ok' fits g(5) unfolding c'_def
    by (intro exI [of _ cells] exI [of _ r]) (simp add: Let_def cells_def)
qed

section \<open>The fragments of a packet\<close>

type_synonym frag = "nat \<times> u8 list"

abbreviation frag_end :: "frag \<Rightarrow> nat" where "frag_end f \<equiv> fst f + length (snd f)"

definition frag_of :: "u8 list \<Rightarrow> frag \<Rightarrow> bool" where
  "frag_of d f \<longleftrightarrow> snd f \<noteq> [] \<and> frag_end f \<le> length d \<and> snd f = take (length (snd f)) (drop (fst f) d)"

definition apart :: "frag \<Rightarrow> frag \<Rightarrow> bool" where
  "apart f g \<longleftrightarrow> frag_end f \<le> fst g \<or> frag_end g \<le> fst f"

definition covers :: "frag \<Rightarrow> nat \<Rightarrow> bool" where
  "covers f i \<longleftrightarrow> fst f \<le> i \<and> i < frag_end f"

definition frag_part :: "frag \<Rightarrow> IP_PART" where
  "frag_part f = \<lparr>Part_Offset = of_nat (fst f), Part_Size = of_nat (length (snd f))\<rparr>"

text \<open>The packet is cut into these pieces.\<close>

definition pieces :: "u8 list \<Rightarrow> frag list \<Rightarrow> bool" where
  "pieces d fs \<longleftrightarrow> list_all (frag_of d) fs \<and> distinct fs \<and> (\<forall>f \<in> set fs. \<forall>g \<in> set fs. f \<noteq> g \<longrightarrow> apart f g) \<and>
     sum_list (map (length \<circ> snd) fs) = length d \<and> (\<forall>i < length d. \<exists>f \<in> set fs. covers f i)"

lemma pieces_mset: "mset fs = mset gs \<Longrightarrow> pieces d fs = pieces d gs"
proof -
  assume m: "mset fs = mset gs"
  then have "set fs = set gs" by (metis set_mset_mset)
  moreover have "distinct fs = distinct gs" using m by (metis mset_eq_imp_distinct_iff)
  moreover have "sum_list (map (length \<circ> snd) fs) = sum_list (map (length \<circ> snd) gs)"
    using m by (metis mset_map sum_mset_sum_list)
  ultimately show ?thesis by (simp add: pieces_def list_all_iff)
qed

lemma overlaps_apart:
  assumes "0 < n" and "a + n \<le> 65535" and "list_all (\<lambda>g. 0 < length (snd g) \<and> frag_end g \<le> 65535 \<and>
      (frag_end g \<le> a \<or> a + n \<le> fst g)) gs"
  shows "combine_overlaps (map frag_part gs) (of_nat a) (of_nat n) = (map frag_part gs, of_nat a, of_nat n)"
  using assms(3)
proof (induction gs)
  case (Cons g gs)
  define e :: u32 where "e = of_nat (frag_end g)"
  have u: "unat (of_nat (fst g) :: u32) = fst g" "unat e = frag_end g"
    "unat (of_nat a :: u32) = a" "unat (of_nat (a + n) :: u32) = a + n"
    using Cons.prems assms(1,2) by (simp_all add: e_def nowrap)
  have g: "0 < length (snd g)" "frag_end g \<le> a \<or> a + n \<le> fst g" using Cons.prems by simp_all
  have sum: "of_nat (fst g) + of_nat (length (snd g)) = e" "of_nat a + of_nat n = (of_nat (a + n) :: u32)"
    by (simp_all add: e_def)
  have no: "\<not> ((of_nat (fst g) :: u32) \<le> of_nat a \<and> e > of_nat a)"
      "\<not> ((of_nat (fst g) :: u32) < of_nat (a + n) \<and> e \<ge> of_nat (a + n))"
      "\<not> ((of_nat (fst g) :: u32) \<ge> of_nat a \<and> e \<le> of_nat (a + n))"
    using g assms(1) unfolding unat_order u by linarith+
  have part: "Part_Offset (frag_part g) = of_nat (fst g)" "Part_Size (frag_part g) = of_nat (length (snd g))"
    by (simp_all add: frag_part_def)
  have "combine_overlaps (map frag_part gs) (of_nat a) (of_nat n) = (map frag_part gs, of_nat a, of_nat n)"
    using Cons by simp
  then show ?case
    unfolding list.map combine_overlaps.simps Let_def part sum if_not_P [OF no(1)] prod.case sum(2)
      if_not_P [OF no(2)] if_not_P [OF no(3)] by simp
qed simp

text \<open>The object holds the fragments \<open>fs\<close> of the packet \<open>d\<close>.\<close>

definition has_pieces :: "u8 list \<Rightarrow> frag list \<Rightarrow> IP_COMBINE \<Rightarrow> bool" where
  "has_pieces d fs c \<longleftrightarrow> combine_ok c \<and> C_IpParts c = map frag_part fs \<and>
     (\<forall>f \<in> set fs. frag_end f \<le> length (C_Data c) \<and> (\<forall>i. covers f i \<longrightarrow> C_Data c ! i = Some (d ! i))) \<and>
     C_Size c = (if \<exists>f \<in> set fs. frag_end f = length d then of_nat (length d) else 0)"

lemma has_pieces_part:
  assumes "has_pieces d fs c" and "frag_of d f" and "list_all (\<lambda>g. frag_of d g \<and> apart g f) fs" and "length d \<le> 65535"
    and "c' = with_part c (of_nat (fst f)) (snd f) (frag_end f = length d) head cells r" and "combine_ok c'"
    and "frag_end f \<le> length cells" and "take (length (C_Data c)) cells = C_Data c"
  shows "has_pieces d (fs @ [f]) c'"
proof -
  note h = assms(1) [unfolded has_pieces_def]
  note f = assms(2) [unfolded frag_of_def]
  have u: "unat (of_nat (fst f) :: u32) = fst f" "(of_nat (length (snd f)) :: u32) \<noteq> 0"
    using f assms(4) by (simp_all add: nowrap word_unat_eq_iff)
  have "combine_overlaps (map frag_part fs) (of_nat (fst f)) (of_nat (length (snd f))) =
      (map frag_part fs, of_nat (fst f), of_nat (length (snd f)))"
    using assms(3,4) f by (intro overlaps_apart) (auto simp: list_all_iff frag_of_def apart_def)
  then have parts: "C_IpParts c' = map frag_part (fs @ [f])"
      "C_Data c' = take (fst f) cells @ map Some (snd f) @ drop (frag_end f) cells"
      "C_Size c' = (if frag_end f = length d then of_nat (length d) else C_Size c)"
    using h u unfolding assms(5) with_part_def by (simp_all add: frag_part_def flip: of_nat_add)
  have len: "length (C_Data c') = length cells" "length (C_Data c) \<le> length cells"
    using assms(7) parts(2) assms(8) by auto (metis length_take min.cobounded1)
  have new: "C_Data c' ! i = Some (d ! i)" if "covers f i" for i
  proof -
    have "C_Data c' ! i = Some (snd f ! (i - fst f))"
      using that assms(7) unfolding covers_def parts(2) by (subst nth_append) (auto simp: nth_append)
    also have "snd f ! (i - fst f) = d ! i"
      using that f by (metis (no_types, lifting) add_diff_cancel_left' covers_def le_add_diff_inverse nth_drop nth_take nat_add_left_cancel_less add_leD1)
    finally show ?thesis .
  qed
  have old: "C_Data c' ! i = Some (d ! i)" if g: "g \<in> set fs" "covers g i" for g i
  proof -
    have i: "i < fst f \<or> frag_end f \<le> i" using assms(3) g by (auto simp: list_all_iff apart_def covers_def)
    have "i < length (C_Data c)" using h g by (auto simp: covers_def)
    then have "cells ! i = C_Data c ! i" using assms(8) by (metis nth_take)
    moreover have "C_Data c' ! i = cells ! i"
      using i assms(7) by (auto simp: parts(2) nth_append)
    ultimately show ?thesis using h g by simp
  qed
  show ?thesis
    using h parts(1,3) assms(6,7) len new old by (auto simp: has_pieces_def)
qed

lemma sum_list_of_nat: "sum_list (map (\<lambda>x. of_nat (g x)) xs) = (of_nat (sum_list (map g xs)) :: u32)"
  by (induction xs) simp_all

text \<open>The packet is complete with its last piece, and then it is what was cut.\<close>

lemma complete_pieces:
  assumes "has_pieces d fs c" and "pieces d (fs @ rest)" and "length d \<le> 65535" and "d \<noteq> []"
  shows "complete c = (rest = [])" and "rest = [] \<Longrightarrow> take (unat (C_Size c)) (C_Data c) = map Some d"
proof -
  note h = assms(1) [unfolded has_pieces_def]
  note p = assms(2) [unfolded pieces_def]
  have u: "unat (of_nat (length d) :: u32) = length d" using assms(3) by (simp add: nowrap)
  define s where "s = sum_list (map (length \<circ> snd) fs)"
  have s: "s \<le> length d" using p by (simp add: s_def)
  have us: "unat (of_nat s :: u32) = s" using s assms(3) by (simp add: nowrap)
  have "sum_list (map Part_Size (C_IpParts c)) = of_nat s"
    using h sum_list_of_nat [of "length \<circ> snd" fs] by (simp add: s_def frag_part_def comp_def)
  moreover have "(s = length d) = (rest = [])"
  proof (cases rest)
    case (Cons g gs)
    then have "0 < length (snd g)" using p by (simp add: frag_of_def)
    moreover have "s + (length (snd g) + sum_list (map (length \<circ> snd) gs)) = length d" using p Cons by (simp add: s_def)
    ultimately have "s \<noteq> length d" by linarith
    then show ?thesis using Cons by simp
  qed (use p in \<open>simp add: s_def\<close>)
  moreover have "\<exists>f \<in> set fs. frag_end f = length d" if "rest = []"
  proof -
    have "length d - 1 < length d" using assms(4) by simp
    moreover have "\<forall>i < length d. \<exists>f \<in> set fs. covers f i" using p that by simp
    ultimately obtain f where "f \<in> set fs" "covers f (length d - 1)" by blast
    moreover from this have "frag_end f \<le> length d" using p by (simp add: list_all_iff frag_of_def)
    ultimately show ?thesis by (intro bexI [of _ f]) (auto simp: covers_def)
  qed
  moreover have "(of_nat (length d) :: u32) \<noteq> 0" using u assms(4) by (simp add: word_unat_eq_iff)
  moreover have "((of_nat s :: u32) = of_nat (length d)) = (s = length d)" using us u by (simp add: word_unat_eq_iff)
  ultimately show c: "complete c = (rest = [])" using h unfolding complete_def by auto
  show "take (unat (C_Size c)) (C_Data c) = map Some d" if "rest = []"
  proof -
    have size: "unat (C_Size c) = length d" using c that h u by (auto simp: complete_def split: if_splits)
    have cell: "i < length (C_Data c) \<and> C_Data c ! i = Some (d ! i)" if i: "i < length d" for i
    proof -
      have "\<forall>i < length d. \<exists>f \<in> set fs. covers f i" using p \<open>rest = []\<close> by simp
      then obtain f where "f \<in> set fs" "covers f i" using i by blast
      then show ?thesis using h by (auto simp: covers_def)
    qed
    have "length d \<le> length (C_Data c)" using cell [of "length d - 1"] assms(4) by (cases d) auto
    then show ?thesis using cell by (intro nth_equalityI) (auto simp: size)
  qed
qed

section \<open>Receiving\<close>

text \<open>A packet of the fragment \<open>f\<close> of a datagram of \<open>n\<close> bytes.\<close>

definition carries :: "u32 \<Rightarrow> u32 \<Rightarrow> u16 \<Rightarrow> u8 \<Rightarrow> nat \<Rightarrow> frag \<Rightarrow> PKT \<Rightarrow> bool" where
  "carries src dst ident proto n f p \<longleftrightarrow>
     \<not> BroadcastPacket p \<and> SrcIP p = src \<and> DstIP p = dst \<and> ip_protocol p = proto \<and> 8 dvd fst f \<and>
     length (snd f) \<le> 1480 \<and> PacketSize p = of_nat (34 + length (snd f)) \<and>
     (let ip = PointerL3 p
      in IpCheckChecksum host_le ip \<and> byte_of ip 0 AND 0x0f = 5 \<and> net16_of ip 2 = of_nat (20 + length (snd f)) \<and>
         length ip = 20 + length (snd f) \<and> drop 20 ip = snd f \<and> net16_of ip 4 = ident \<and>
         (drop_bit 5 (byte_of ip 6) AND 0x07) AND 0x01 = (if frag_end f = n then 0 else 1) \<and>
         (ucast (byte_of ip 6 AND 0x1f) * 256 + ucast (byte_of ip 7) :: u32) = of_nat (fst f div 8))"

text \<open>What the host learns from the addresses of a packet has no effect on the packets it puts together.\<close>

definition combine_part :: "VH \<Rightarrow> IP_COMBINE LST \<times> u32 \<times> u64" where
  "combine_part v = (V_IpCombine v, V_CurrentIpQuota v, V_Now v)"

lemma combine_part_known: "combine_part (ArpIpWasKnown v ip mac) = combine_part v"
proof -
  have waiting: "combine_part (fold (\<lambda>w v. (VirtualIpSend v mac (W_Data w))\<lparr>V_IpWaitTable := snd (lst_delete (V_IpWaitTable v) w)\<rparr>) ws v)
      = combine_part v" for ws v
    by (induction ws arbitrary: v) (simp_all add: combine_part_def VirtualIpSend_def VirtualLayer2Send_def)
  have "combine_part (InsertArpTable v mac ip) = combine_part v" for v
    by (simp add: InsertArpTable_def SearchArpTable_def combine_part_def Let_def split: prod.splits option.splits)
  moreover have "combine_part (DeleteArpWaitTable v ip) = combine_part v"
    by (simp add: DeleteArpWaitTable_def SearchArpWaitTable_def combine_part_def Let_def split: prod.splits option.splits)
  ultimately show ?thesis by (simp add: ArpIpWasKnown_def SendWaitingIp_def waiting)
qed

type_synonym combine_id = "u16 \<times> u32 \<times> u32 \<times> u8"

text \<open>The object \<open>c\<close> with the identifier \<open>k\<close> is in the list and satisfies \<open>P\<close>.\<close>

definition ready ::
    "combine_id \<Rightarrow> u32 \<Rightarrow> (combine_id \<Rightarrow> IP_COMBINE option) \<Rightarrow> (IP_COMBINE \<Rightarrow> bool) \<Rightarrow> VH \<Rightarrow> IP_COMBINE \<Rightarrow> bool" where
  "ready k q others P v c \<longleftrightarrow>
     combining.tbl_ok (V_IpCombine v) \<and> (combining.view (V_IpCombine v))(k := None) = others \<and>
     combining.view (V_IpCombine v) k = Some c \<and> P c \<and> \<not> C_MacBroadcast c \<and>
     V_CurrentIpQuota v = q + C_DataReserved c"

definition absent :: "combine_id \<Rightarrow> u32 \<Rightarrow> (combine_id \<Rightarrow> IP_COMBINE option) \<Rightarrow> VH \<Rightarrow> bool" where
  "absent k q others v \<longleftrightarrow> combining.tbl_ok (V_IpCombine v) \<and> combining.view (V_IpCombine v) = others \<and> others k = None \<and>
     V_CurrentIpQuota v = q \<and> q + 1480 \<le> IP_COMBINE_WAIT_QUEUE_SIZE_QUOTA"

text \<open>
  The fragments \<open>fs\<close> of the packet \<open>d\<close> have arrived: the object with the identifier \<open>k\<close> holds
  them. The other objects are \<open>others\<close>, and \<open>q\<close> bytes are reserved for them.
\<close>

definition collecting ::
    "combine_id \<Rightarrow> u32 \<Rightarrow> (combine_id \<Rightarrow> IP_COMBINE option) \<Rightarrow> u8 list \<Rightarrow> VH \<Rightarrow> frag list \<Rightarrow> bool" where
  "collecting k q others d v fs \<longleftrightarrow>
     (if fs = [] then absent k q others v else \<exists>c. ready k q others (has_pieces d fs) v c)"

lemma combine_part_state:
  "combine_part v' = combine_part v \<Longrightarrow> ready k q others P v' = ready k q others P v"
  "combine_part v' = combine_part v \<Longrightarrow> absent k q others v' = absent k q others v"
  by (simp_all add: ready_def [abs_def] absent_def combine_part_def)

definition right_delivery :: "combine_id \<Rightarrow> u8 list \<Rightarrow> DELIVERY \<Rightarrow> bool" where
  "right_delivery k d r \<longleftrightarrow>
     D_Data r = map Some d \<and> (\<exists>i. k = (i, D_DestIP r, D_SrcIP r, D_Protocol r)) \<and> \<not> D_MacBroadcast r"

lemma IpReceived_right:
  assumes "proto \<in> {1, 6, 17}"
  shows "\<exists>r. IpReceived src dst proto (map Some d) False ttl h loc l3 = Some r \<and> right_delivery (i, dst, src, proto) d r"
  using assms by (auto simp: IpReceived_def right_delivery_def)

lemma with_part_fields [simp]:
  "C_SrcIP (with_part c off d l h cells r) = C_SrcIP c" "C_DestIP (with_part c off d l h cells r) = C_DestIP c"
  "C_Id (with_part c off d l h cells r) = C_Id c" "C_Protocol (with_part c off d l h cells r) = C_Protocol c"
  "C_MacBroadcast (with_part c off d l h cells r) = C_MacBroadcast c"
  "C_DataReserved (with_part c off d l h cells r) = r"
  by (simp_all add: with_part_def split: prod.splits)

lemma has_pieces_max_l3: "has_pieces d fs (c\<lparr>C_MaxL3Size := n\<rparr>) = has_pieces d fs c"
  by (simp add: has_pieces_def combine_ok_def)

text \<open>Putting the object with one more part in the place of the old one.\<close>

lemma ready_keep:
  assumes "ready k q others P v c" and "combine_key c' = combine_key c" and "C_MacBroadcast c' = C_MacBroadcast c" and "P' c'"
  shows "ready k q others P' (keep_combine v c c') c'"
proof -
  note r = assms(1) [unfolded ready_def]
  have ck: "combine_key c = k" using r combining.view_Some [of "V_IpCombine v" k c] by blast
  show ?thesis
    using combining.tbl_replace [OF _ _ assms(2), of "V_IpCombine v", unfolded ck] r assms(3,4)
    by (simp add: ready_def keep_combine_def)
qed

lemma absent_drop:
  assumes "ready k q others P v c" and "q + 1480 \<le> IP_COMBINE_WAIT_QUEUE_SIZE_QUOTA"
  shows "absent k q others (drop_combine v c)"
proof -
  note r = assms(1) [unfolded ready_def]
  have ck: "combine_key c = k" using r combining.view_Some [of "V_IpCombine v" k c] by blast
  have "combining.view (snd (lst_delete (V_IpCombine v) c)) = others" "combining.tbl_ok (snd (lst_delete (V_IpCombine v) c))"
    using combining.tbl_delete [of "V_IpCombine v" c] r ck by auto
  moreover have "others k = None" using r by auto
  ultimately show ?thesis using r assms(2) by (simp add: absent_def drop_combine_def FreeIpCombine_def)
qed

text \<open>A piece for an object that holds some of the others.\<close>

lemma CombineIp_piece:
  assumes ready: "ready k q others (has_pieces d fs) v c" and "q + 1480 \<le> IP_COMBINE_WAIT_QUEUE_SIZE_QUOTA" and "pieces d (fs @ f # rest)" and "length d \<le> 65535" and "d \<noteq> []"
    and "snd (snd (snd k)) \<in> {1, 6, 17}"
  shows "\<exists>v' r. CombineIp v c (of_nat (fst f)) (snd f) (frag_end f = length d) head = Some (v', r) \<and>
    (if rest = [] then collecting k q others d v' [] \<and> (\<exists>r'. r = Some r' \<and> right_delivery k d r')
     else collecting k q others d v' (fs @ [f]) \<and> r = None)"
proof -
  let ?l = "V_IpCombine v"
  note r = ready [unfolded ready_def]
  have ck: "combine_key c = k" using r combining.view_Some [of "V_IpCombine v" k c] by blast
  have f: "frag_of d f" "list_all (\<lambda>g. frag_of d g \<and> apart g f) fs"
    using assms(3) by (auto simp: pieces_def list_all_iff)
  then have bounds: "frag_end f \<le> length d" "snd f \<noteq> []" "unat (of_nat (fst f) :: u32) = fst f"
    using assms(4) by (auto simp: frag_of_def nowrap)
  have hold0: "has_pieces d fs c" using r by simp
  note h = hold0 [unfolded has_pieces_def]
  have "frag_end f = length d \<or> C_Size c = 0 \<or> unat (of_nat (fst f) :: u32) + length (snd f) \<le> unat (C_Size c)"
    using h bounds assms(4) by (auto simp: nowrap)
  then have "\<exists>cells r. let c' = with_part c (of_nat (fst f)) (snd f) (frag_end f = length d) head cells r
    in CombineIp v c (of_nat (fst f)) (snd f) (frag_end f = length d) head =
        Some (if complete c' then (drop_combine (keep_combine v c c') c', deliver c') else (keep_combine v c c', None)) \<and>
      combine_ok c' \<and> unat (of_nat (fst f) :: u32) + length (snd f) \<le> length cells \<and>
      take (length (C_Data c)) cells = C_Data c \<and> C_DataReserved c \<le> r"
    using h bounds assms(4) by (intro CombineIp_eq) auto
  then obtain cells r where e: "let c' = with_part c (of_nat (fst f)) (snd f) (frag_end f = length d) head cells r
    in CombineIp v c (of_nat (fst f)) (snd f) (frag_end f = length d) head =
        Some (if complete c' then (drop_combine (keep_combine v c c') c', deliver c') else (keep_combine v c c', None)) \<and>
      combine_ok c' \<and> frag_end f \<le> length cells \<and> take (length (C_Data c)) cells = C_Data c \<and> C_DataReserved c \<le> r"
    unfolding bounds(3) by blast
  define c' where "c' = with_part c (of_nat (fst f)) (snd f) (frag_end f = length d) head cells r"
  note e = e [folded c'_def, unfolded Let_def, folded c'_def]
  have hold: "has_pieces d (fs @ [f]) c'"
    using e f assms(4) by (intro has_pieces_part [OF hold0 f assms(4) c'_def]) auto
  have ck': "combine_key c' = combine_key c" by (simp add: combine_key_def c'_def)
  have kept: "ready k q others (has_pieces d (fs @ [f])) (keep_combine v c c') c'"
    by (rule ready_keep [OF ready ck']) (simp_all add: c'_def hold [unfolded c'_def])
  have p: "pieces d ((fs @ [f]) @ rest)" using assms(3) by simp
  note full = complete_pieces [OF hold p assms(4,5)]
  show ?thesis
  proof (cases "rest = []")
    case True
    have "collecting k q others d (drop_combine (keep_combine v c c') c') []"
      using absent_drop [OF kept assms(2)] by (simp add: collecting_def)
    moreover have "\<exists>r'. deliver c' = Some r' \<and> right_delivery k d r'"
      using IpReceived_right [of "C_Protocol c"] r assms(6) ck full(2) [OF True]
      by (auto simp: deliver_def c'_def combine_key_def)
    ultimately show ?thesis using e full(1) True by simp
  next
    case False
    have "collecting k q others d (keep_combine v c c') (fs @ [f])" using kept by (auto simp: collecting_def)
    then show ?thesis using e full(1) False by simp
  qed
qed

text \<open>The packet of one fragment.\<close>

lemma pieces_whole:
  assumes "pieces d (fs @ f # rest)" and "fst f = 0" and "frag_end f = length d"
  shows "fs = [] \<and> rest = [] \<and> snd f = d"
proof -
  note p = assms(1) [unfolded pieces_def]
  have f: "snd f = take (length d) (drop 0 d)" using p assms(2,3) by (simp add: frag_of_def)
  have empty: "gs = []" if "list_all (frag_of d) gs" "sum_list (map (length \<circ> snd) gs) = 0" for gs
    using that by (cases gs) (auto simp: frag_of_def)
  have "sum_list (map (length \<circ> snd) fs) + sum_list (map (length \<circ> snd) rest) = 0" using p assms(2,3) by simp
  then show ?thesis using p f empty [of fs] empty [of rest] by simp
qed

text \<open>The object that a piece is for: one that is there, or a new one.\<close>

lemma ready_max_l3:
  assumes "ready k q others P v c" and "P (c\<lparr>C_MaxL3Size := n\<rparr>)"
  shows "\<exists>c' v'. set_max_l3 n c v = (c', v') \<and> ready k q others P v' c'"
proof -
  note r = assms(1) [unfolded ready_def]
  have ck: "combine_key c = k" using r combining.view_Some [of "V_IpCombine v" k c] by blast
  have ck2: "combine_key (c\<lparr>C_MaxL3Size := n\<rparr>) = combine_key c" by (simp add: combine_key_def)
  show ?thesis
    using combining.tbl_replace [OF _ _ ck2, of "V_IpCombine v"] r ck assms(2)
    by (auto simp: set_max_l3_def ready_def Let_def)
qed

lemma SearchIpCombine_state:
  assumes "SearchIpCombine v src dst ident proto = (r, v')" and "combining.tbl_ok (V_IpCombine v)"
  shows "r = combining.view (V_IpCombine v) (ident, dst, src, proto)"
    and "ready k q others P v' = ready k q others P v" and "absent k q others v' = absent k q others v"
proof -
  define t where "t = new_combine v src dst ident proto False 0 False"
  obtain r1 l where s: "lst_search (Some CompareIpCombine) (V_IpCombine v) t = (r1, l)" by (metis surj_pair)
  have k: "combine_key t = (ident, dst, src, proto)" by (simp add: t_def new_combine_def combine_key_def)
  have e: "r1 = r" "v' = v\<lparr>V_IpCombine := l\<rparr>" using assms(1) by (simp_all add: SearchIpCombine_def t_def [symmetric] s)
  note l = combining.tbl_search [OF assms(2) s]
  show "r = combining.view (V_IpCombine v) (ident, dst, src, proto)" using l e k by simp
  show "ready k q others P v' = ready k q others P v" "absent k q others v' = absent k q others v"
    using l assms(2) by (auto simp: e ready_def [abs_def] absent_def)
qed

definition new_object :: "IP_COMBINE \<Rightarrow> bool" where
  "new_object c \<longleftrightarrow> C_IpParts c = [] \<and> C_Size c = 0 \<and> C_Data c = replicate 1480 None \<and> C_DataReserved c = 1480"

lemma ready_new:
  assumes "absent k q others v" and "k = (ident, dst, src, proto)"
  shows "\<exists>c v'. InsertIpCombine v src dst ident proto False ttl loc = (Some c, v') \<and> ready k q others new_object v' c"
proof -
  note a = assms(1) [unfolded absent_def]
  define c where "c = new_combine v src dst ident proto False ttl loc"
  have c: "combine_key c = k" "new_object c" "\<not> C_MacBroadcast c" "C_DataReserved c = 1480"
    by (simp_all add: c_def new_combine_def combine_key_def assms(2) new_object_def)
  have "\<not> V_CurrentIpQuota v + IP_COMBINE_INITIAL_BUF_SIZE > IP_COMBINE_WAIT_QUEUE_SIZE_QUOTA"
    using a by (simp add: linorder_not_less)
  then show ?thesis
    using combining.tbl_insert [of "V_IpCombine v" c] a c
    by (simp add: InsertIpCombine_def c_def [symmetric] ready_def fun_upd_idem)
qed

lemma uint_diff_of_nat: "uint (of_nat (34 + n) - of_nat 34 :: u32) = int n" if "n < two32"
  using that by (simp add: uint_nat nowrap)

text \<open>A packet that is a fragment: what the host does with it.\<close>

lemma carries_offset:
  assumes "8 dvd fst f" and "fst f \<le> 65535"
  shows "of_nat (fst f div 8) * 8 = (of_nat (fst f) :: u32)" and "((of_nat (fst f div 8) :: u32) = 0) = (fst f = 0)"
proof -
  have "of_nat (fst f div 8) * 8 = (of_nat (fst f div 8 * 8) :: u32)" by simp
  then show "of_nat (fst f div 8) * 8 = (of_nat (fst f) :: u32)" using assms(1) by (metis dvd_div_mult_self)
  have "unat (of_nat (fst f div 8) :: u32) = fst f div 8" using assms(2) by (simp add: nowrap)
  then show "((of_nat (fst f div 8) :: u32) = 0) = (fst f = 0)" using assms(1) by (auto simp: word_unat_eq_iff)
qed

lemma VirtualIpReceived_eq:
  assumes "carries src dst ident proto n f p" and "snd f \<noteq> []" and "fst f \<le> 65535"
  fixes v :: VH
  defines "v1 \<equiv> ArpIpWasKnown v src (MacAddressSrc p)" and "ttl \<equiv> byte_of (PointerL3 p) 8" and "l3_size \<equiv> 20 + length (snd f)"
    and "header \<equiv> take 20 (PointerL3 p)"
  shows "VirtualIpReceived loc v p =
    (if fst f = 0 \<and> frag_end f = n
     then Some (v1, IpReceived src dst proto (map Some (snd f)) False ttl (Some header) False (of_nat l3_size))
     else
       let (r, v2) = SearchIpCombine v1 src dst ident proto;
           head = (if fst f = 0 then Some header else None)
       in case r of
            Some c \<Rightarrow> let (c, v) = set_max_l3 (max (C_MaxL3Size c) (of_nat l3_size)) c v2
              in CombineIp v c (of_nat (fst f)) (snd f) (frag_end f = n) head
          | None \<Rightarrow>
              let (c, v) = InsertIpCombine v2 src dst ident proto False ttl False
              in case c of
                   None \<Rightarrow> Some (v, None)
                 | Some c \<Rightarrow> let (c, v) = set_max_l3 (of_nat l3_size) c v
                     in CombineIp v c (of_nat (fst f)) (snd f) (frag_end f = n) head)"
proof -
  note c = assms(1) [unfolded carries_def Let_def]
  define l where "l = length (snd f)"
  have l: "l \<le> 1480" "0 < l" using c assms(2) by (auto simp: l_def)
  have "unat (of_nat (20 + l) :: u16) = 20 + l" using l by (simp add: unat_of_nat take_bit_nat_eq_self del: of_nat_add)
  then have l3: "unat (net16_of (PointerL3 p) 2) = 20 + l" using c by (simp only: l_def)
  have hs: "unat (byte_of (PointerL3 p) 0 AND 0x0f) * 4 = 20" using c by simp
  have enough: "\<not> uint (PacketSize p - of_nat (20 + 14)) < int (20 + l - 20)"
    using c l uint_diff_of_nat [of l] by (simp add: l_def)
  have reads: "mem_bytes (PointerL3 p) 20 (20 + l - 20) = Some (snd f)" "mem_bytes (PointerL3 p) 0 20 = Some header"
    using c by (simp_all add: l_def mem_bytes_def header_def)
  define off where "off = (ucast (byte_of (PointerL3 p) 6 AND 0x1f) * 256 + ucast (byte_of (PointerL3 p) 7) :: u32)"
  have "off = of_nat (fst f div 8)" using c by (simp add: off_def)
  then have off: "off * 8 = of_nat (fst f)" "(off = 0) = (fst f = 0)"
    using carries_offset [of f] c assms(3) by simp_all
  define flags where "flags = drop_bit 5 (byte_of (PointerL3 p) 6) AND 0x07"
  have mf: "(flags AND 0x01 = 0) = (frag_end f = n)" using c by (auto simp: flags_def)
  have l3_size: "l3_size = 20 + l" by (simp add: l3_size_def l_def)
  obtain r v2 where s: "SearchIpCombine v1 src dst ident proto = (r, v2)" by (metis surj_pair)
  show ?thesis
    using c l off
    unfolding VirtualIpReceived_def Let_def hs l3 reads Option.bind_lunit off_def [symmetric] flags_def [symmetric] mf
      if_not_P [OF enough] off l3_size ttl_def
    by (simp add: v1_def [symmetric] s cong: if_cong option.case_cong)
qed

text \<open>The object that a fragment goes to.\<close>

lemma received_by:
  assumes "carries src dst ident proto n f p" and "snd f \<noteq> []" and "fst f \<le> 65535" and "\<not> (fst f = 0 \<and> frag_end f = n)"
    and "k = (ident, dst, src, proto)" and "\<And>c l3. P c \<Longrightarrow> P (c\<lparr>C_MaxL3Size := l3\<rparr>)"
    and "(absent k q others v \<and> (\<forall>c. new_object c \<longrightarrow> P c)) \<or> (\<exists>c. ready k q others P v c)"
  shows "\<exists>v' c head. ready k q others P v' c \<and>
    VirtualIpReceived loc v p = CombineIp v' c (of_nat (fst f)) (snd f) (frag_end f = n) head"
proof -
  define v1 where "v1 = ArpIpWasKnown v src (MacAddressSrc p)"
  have same: "ready k q others P v1 = ready k q others P v" "absent k q others v1 = absent k q others v"
    using combine_part_state [OF combine_part_known] by (simp_all add: v1_def)
  have there: "(absent k q others v1 \<and> (\<forall>c. new_object c \<longrightarrow> P c)) \<or> (\<exists>c. ready k q others P v1 c)"
    using assms(7) unfolding same .
  then have tbl: "combining.tbl_ok (V_IpCombine v1)" by (auto simp: ready_def absent_def)
  obtain r v2 where s: "SearchIpCombine v1 src dst ident proto = (r, v2)" by (metis surj_pair)
  note st = SearchIpCombine_state [OF s tbl, folded assms(5)]
  note eq = VirtualIpReceived_eq [OF assms(1-3), of loc v, folded v1_def, unfolded s if_not_P [OF assms(4)] Let_def prod.case]
  show ?thesis
    using there
  proof
    assume a: "absent k q others v1 \<and> (\<forall>c. new_object c \<longrightarrow> P c)"
    then have n: "absent k q others v2" using st(3) by blast
    have rn: "r = None" using a st(1) by (auto simp: absent_def)
    obtain c v3 where i: "InsertIpCombine v2 src dst ident proto False (byte_of (PointerL3 p) 8) False = (Some c, v3)"
      "ready k q others new_object v3 c" using ready_new [OF n assms(5)] by blast
    have "ready k q others P v3 c" using i(2) a by (simp add: ready_def)
    then obtain c' v4 where "set_max_l3 (of_nat (20 + length (snd f))) c v3 = (c', v4)" "ready k q others P v4 c'"
      using ready_max_l3 assms(6) by (metis ready_def)
    then show ?thesis unfolding eq rn option.case i(1) prod.case by auto
  next
    assume "\<exists>c. ready k q others P v1 c"
    then obtain c where c1: "ready k q others P v1 c" by blast
    then have c: "ready k q others P v2 c" "r = Some c" using st(2) by simp (use c1 st(1) in \<open>simp add: ready_def\<close>)
    obtain c' v4 where "set_max_l3 (max (C_MaxL3Size c) (of_nat (20 + length (snd f)))) c v2 = (c', v4)" "ready k q others P v4 c'"
      using ready_max_l3 [OF c(1)] assms(6) c(1) by (metis ready_def)
    then show ?thesis unfolding eq c(2) option.case prod.case by auto
  qed
qed

lemma VirtualIpReceived_piece:
  assumes "collecting k q others d v fs" and "k = (ident, dst, src, proto)" and "carries src dst ident proto (length d) f p"
    and "pieces d (fs @ f # rest)" and "length d \<le> 65535" and "d \<noteq> []" and "proto \<in> {1, 6, 17}"
    and "q + 1480 \<le> IP_COMBINE_WAIT_QUEUE_SIZE_QUOTA"
  shows "\<exists>v' r. VirtualIpReceived loc v p = Some (v', r) \<and>
    (if rest = [] then collecting k q others d v' [] \<and> (\<exists>r'. r = Some r' \<and> right_delivery k d r')
     else collecting k q others d v' (fs @ [f]) \<and> r = None)"
proof -
  have f: "snd f \<noteq> []" "fst f \<le> 65535" using assms(4,5) by (auto simp: pieces_def frag_of_def)
  show ?thesis
  proof (cases "fst f = 0 \<and> frag_end f = length d")
    case True
    then have w: "fs = []" "rest = []" "snd f = d" using pieces_whole [OF assms(4)] by auto
    define v1 where "v1 = ArpIpWasKnown v src (MacAddressSrc p)"
    have "collecting k q others d v1 []"
      using assms(1) combine_part_state(2) [OF combine_part_known] by (simp add: collecting_def w(1) v1_def)
    moreover obtain r where "IpReceived src dst proto (map Some (snd f)) False (byte_of (PointerL3 p) 8) (Some (take 20 (PointerL3 p)))
        False (of_nat (20 + length (snd f))) = Some r \<and> right_delivery k d r"
      using IpReceived_right [OF assms(7), of src dst d] unfolding w(3) assms(2) by blast
    ultimately show ?thesis
      using VirtualIpReceived_eq [OF assms(3) f, of loc v] w(2) True by (simp add: v1_def)
  next
    case False
    have kp: "snd (snd (snd k)) \<in> {1, 6, 17}" using assms(2,7) by simp
    have new: "has_pieces d [] c" if "new_object c" for c
      using that by (simp add: new_object_def has_pieces_def combine_ok_def buffer_sizes_def)
    have "(absent k q others v \<and> (\<forall>c. new_object c \<longrightarrow> has_pieces d fs c)) \<or> (\<exists>c. ready k q others (has_pieces d fs) v c)"
      using assms(1) new by (cases "fs = []") (auto simp: collecting_def)
    then obtain v' c head where "ready k q others (has_pieces d fs) v' c"
      "VirtualIpReceived loc v p = CombineIp v' c (of_nat (fst f)) (snd f) (frag_end f = length d) head"
      using received_by [OF assms(3) f False assms(2), of "has_pieces d fs" q others v loc] has_pieces_max_l3 by blast
    then show ?thesis using CombineIp_piece [OF _ assms(8,4,5,6) kp] by simp
  qed
qed

text \<open>A sequence of packets: the state that the host is in then, and what it has delivered.\<close>

fun receive_all :: "(u8 list \<Rightarrow> bool) \<Rightarrow> VH \<Rightarrow> PKT list \<Rightarrow> (VH \<times> DELIVERY list) option" where
  "receive_all loc v [] = Some (v, [])"
| "receive_all loc v (p # ps) =
     do {
       (v, r) \<leftarrow> VirtualIpReceived loc v p;
       (v, rs) \<leftarrow> receive_all loc v ps;
       Some (v, (case r of None \<Rightarrow> rs | Some r \<Rightarrow> r # rs))
     }"

lemma receive_pieces:
  assumes "collecting k q others d v fs" and "k = (ident, dst, src, proto)"
    and "list_all2 (carries src dst ident proto (length d)) gs ps" and "gs \<noteq> []"
    and "pieces d (fs @ gs)" and "length d \<le> 65535" and "d \<noteq> []" and "proto \<in> {1, 6, 17}"
    and "q + 1480 \<le> IP_COMBINE_WAIT_QUEUE_SIZE_QUOTA"
  shows "\<exists>v' r. receive_all loc v ps = Some (v', [r]) \<and> right_delivery k d r \<and> collecting k q others d v' []"
  using assms(1,3,4,5)
proof (induction gs arbitrary: v fs ps)
  case (Cons f gs)
  then obtain p qs where ps: "ps = p # qs" "carries src dst ident proto (length d) f p"
    "list_all2 (carries src dst ident proto (length d)) gs qs"
    by (auto simp: list_all2_Cons1)
  obtain v1 r where step: "VirtualIpReceived loc v p = Some (v1, r)"
    "if gs = [] then collecting k q others d v1 [] \<and> (\<exists>r'. r = Some r' \<and> right_delivery k d r')
     else collecting k q others d v1 (fs @ [f]) \<and> r = None"
    using VirtualIpReceived_piece [OF Cons.prems(1) assms(2) ps(2) Cons.prems(4) assms(6-9)] by blast
  show ?case
  proof (cases "gs = []")
    case True
    then show ?thesis using step ps by auto
  next
    case False
    then obtain v' r' where "receive_all loc v1 qs = Some (v', [r'])" "right_delivery k d r'" "collecting k q others d v' []"
      using Cons.IH [of v1 "fs @ [f]" qs] step(2) ps(3) Cons.prems(4) by auto
    then show ?thesis using step False ps(1) by simp
  qed
qed simp

end
