(* ===== verification/VirtualSend.thy ===== *)
theory VirtualSend
  imports VirtualFrag Layer3Arp
begin

text \<open>
  What the virtual host sends (src/src/Cedar/Virtual.c): the frames that it makes of a packet whose
  destination it knows, and that a host that receives these frames, in whatever order, gets the
  packet.
\<close>

section \<open>How a packet is cut\<close>

function cut :: "nat \<Rightarrow> nat \<Rightarrow> u8 list \<Rightarrow> frag list" where
  "cut m off d = (if m = 0 \<or> length d \<le> m then [(off, d)] else (off, take m d) # cut m (off + m) (drop m d))"
  by pat_completeness auto
termination by (relation "measure (\<lambda>(m, off, d). length d)") auto

declare cut.simps [simp del]

lemma cut_spec:
  assumes "0 < m" and "d \<noteq> []"
  shows "list_all (\<lambda>f. snd f \<noteq> [] \<and> off \<le> fst f \<and> frag_end f \<le> off + length d \<and> length (snd f) \<le> m \<and>
      m dvd fst f - off \<and> snd f = take (length (snd f)) (drop (fst f - off) d)) (cut m off d)"
    (is "list_all (?ok m off d) _")
    and "distinct (cut m off d)" and "\<forall>f \<in> set (cut m off d). \<forall>g \<in> set (cut m off d). f \<noteq> g \<longrightarrow> apart f g"
    and "sum_list (map (length \<circ> snd) (cut m off d)) = length d"
    and "\<forall>i < length d. \<exists>f \<in> set (cut m off d). covers f (off + i)"
proof -
  let ?c = "cut m off d"
  have "list_all (?ok m off d) ?c \<and> distinct ?c \<and> (\<forall>f \<in> set ?c. \<forall>g \<in> set ?c. f \<noteq> g \<longrightarrow> apart f g) \<and>
      sum_list (map (length \<circ> snd) ?c) = length d \<and> (\<forall>i < length d. \<exists>f \<in> set ?c. covers f (off + i))"
    using assms
  proof (induction m off d rule: cut.induct)
    case (1 m off d)
    show ?case
    proof (cases "length d \<le> m")
      case True
      then show ?thesis using 1(2,3) by (subst cut.simps, subst cut.simps, subst cut.simps) (auto simp: cut.simps covers_def)
    next
      case False
      define t where "t = cut m (off + m) (drop m d)"
      have ih: "list_all (?ok m (off + m) (drop m d)) t" "distinct t" "\<forall>f \<in> set t. \<forall>g \<in> set t. f \<noteq> g \<longrightarrow> apart f g"
        "sum_list (map (length \<circ> snd) t) = length (drop m d)" "\<forall>i < length (drop m d). \<exists>f \<in> set t. covers f (off + m + i)"
        using 1 False unfolding t_def by (auto simp: comp_def)
      have c: "cut m off d = (off, take m d) # t" using False 1(2) by (subst cut.simps) (simp add: t_def)
      have ok: "?ok m off d f" if "f \<in> set t" for f
      proof -
        have f: "?ok m (off + m) (drop m d) f" using ih(1) that unfolding list_all_iff by blast
        then have e: "fst f - off = (fst f - (off + m)) + m" by auto
        then have "drop (fst f - (off + m)) (drop m d) = drop (fst f - off) d" by simp
        moreover have "m dvd (fst f - (off + m)) + m" using f by (metis dvd_add_left_iff dvd_refl)
        then have "m dvd fst f - off" unfolding e .
        ultimately show ?thesis using f False by auto
      qed
      have new: "apart (off, take m d) f \<and> apart f (off, take m d) \<and> (off, take m d) \<noteq> f" if "f \<in> set t" for f
        using ih(1) that False 1(2) by (auto simp: list_all_iff apart_def)
      have cov: "\<exists>f \<in> set (cut m off d). covers f (off + i)" if i: "i < length d" for i
      proof (cases "i < m")
        case True
        then show ?thesis using i unfolding c by (auto simp: covers_def)
      next
        case False
        then have "i - m < length (drop m d)" "off + m + (i - m) = off + i" using i by auto
        then show ?thesis using ih(5) unfolding c by (metis list.set_intros(2))
      qed
      have "list_all (?ok m off d) (cut m off d)" using ok 1(2,3) False unfolding c by (simp add: list_all_iff)
      moreover have "distinct (cut m off d)" using ih(2) new unfolding c by auto
      moreover have "\<forall>f \<in> set (cut m off d). \<forall>g \<in> set (cut m off d). f \<noteq> g \<longrightarrow> apart f g"
        using ih(3) new unfolding c by auto
      moreover have "sum_list (map (length \<circ> snd) (cut m off d)) = length d"
        using ih(4) False unfolding c by simp
      ultimately show ?thesis using cov by blast
    qed
  qed
  then show "list_all (?ok m off d) ?c" "distinct ?c" "\<forall>f \<in> set ?c. \<forall>g \<in> set ?c. f \<noteq> g \<longrightarrow> apart f g"
    "sum_list (map (length \<circ> snd) ?c) = length d" "\<forall>i < length d. \<exists>f \<in> set ?c. covers f (off + i)" by blast+
qed

lemma cut_pieces:
  assumes "0 < m" and "d \<noteq> []"
  shows "pieces d (cut m 0 d)" and "\<forall>f \<in> set (cut m 0 d). length (snd f) \<le> m \<and> m dvd fst f"
proof -
  note c = cut_spec [OF assms, of 0]
  show "pieces d (cut m 0 d)"
    using c unfolding pieces_def by (auto simp: list_all_iff frag_of_def)
  show "\<forall>f \<in> set (cut m 0 d). length (snd f) \<le> m \<and> m dvd fst f"
    using c(1) by (auto simp: list_all_iff)
qed

section \<open>The frames of a packet\<close>

definition frag_frame :: "u8 list \<Rightarrow> u8 list \<Rightarrow> u32 \<Rightarrow> u32 \<Rightarrow> u16 \<Rightarrow> nat \<Rightarrow> u8 \<Rightarrow> u8 \<Rightarrow> frag \<Rightarrow> u8 list" where
  "frag_frame dest_mac src_mac dst src ident n proto ttl f =
     dest_mac @ src_mac @ be16 MAC_PROTO_IPV4 @
     ip_bytes host_le (fragment_header dst src ident (of_nat n) (of_nat (fst f)) proto (of_nat (length (snd f))) ttl) @ snd f"

text \<open>The host \<open>v\<close> has the address \<open>mac\<close> for \<open>ip\<close>, which is not a broadcast address.\<close>

definition knows :: "VH \<Rightarrow> u32 \<Rightarrow> u8 list \<Rightarrow> bool" where
  "knows v ip mac \<longleftrightarrow> host_arp.tbl_ok (V_ArpTable v) \<and>
     (\<exists>e. host_arp.view (V_ArpTable v) ip = Some e \<and> AE_MacAddress e = mac) \<and> ip \<noteq> 0xffffffff \<and>
     \<not> (IsInNetwork ip (V_HostIP v) (V_HostMask v) \<and> ip AND NOT (V_HostMask v) = NOT (V_HostMask v))"

text \<open>The state after some frames: the search may have sorted the ARP table.\<close>

definition sent :: "VH \<Rightarrow> VH \<Rightarrow> u8 list list \<Rightarrow> bool" where
  "sent v v' fs \<longleftrightarrow> (\<exists>l. v' = v\<lparr>V_ArpTable := l, V_SendQueue := V_SendQueue v @ fs\<rparr> \<and>
     (host_arp.tbl_ok (V_ArpTable v) \<longrightarrow> host_arp.tbl_ok l \<and> host_arp.view l = host_arp.view (V_ArpTable v)))"

lemma sent_trans: "sent v v1 fs \<Longrightarrow> sent v1 v2 gs \<Longrightarrow> sent v v2 (fs @ gs)"
  by (auto simp: sent_def)

lemma sent_knows: "sent v v' fs \<Longrightarrow> knows v ip mac \<Longrightarrow> knows v' ip mac"
  by (auto simp: sent_def knows_def)

lemma ip_bytes_length:
  "length (FlagsAndFlagmentOffset h) = 2 \<Longrightarrow> length (ip_bytes le h) = 20"
  by (simp add: ip_bytes_def)

lemma fragment_header_length [simp]:
  "length (ip_bytes host_le (fragment_header dst src ident tot off proto sz ttl)) = 20"
  by (rule ip_bytes_length) (simp add: fragment_header_def Let_def)

lemma SendFragmentedIp_sent:
  assumes "knows v dst mac" and "snd f \<noteq> []" and "length (snd f) \<le> 1480"
  shows "sent v (SendFragmentedIp v dst src ident (of_nat n) (of_nat (fst f)) proto (snd f) None ttl)
    [frag_frame mac (V_MacAddress v) dst src ident n proto ttl f]"
proof -
  define t where "t = \<lparr>AE_IpAddress = dst, AE_MacAddress = [], AE_Created = 0, AE_Expire = 0\<rparr>"
  obtain r l where s: "lst_search (Some CompareArpTable) (V_ArpTable v) t = (r, l)" by (metis surj_pair)
  note k = assms(1) [unfolded knows_def]
  have l: "r = host_arp.view (V_ArpTable v) dst" "host_arp.tbl_ok l" "host_arp.view l = host_arp.view (V_ArpTable v)"
    using host_arp.tbl_search [OF _ s] k by (simp_all add: t_def)
  then have a: "\<exists>e. SearchArpTable v dst = (Some e, v\<lparr>V_ArpTable := l\<rparr>) \<and> AE_MacAddress e = mac"
    using k s by (auto simp: SearchArpTable_def t_def)
  have nb: "\<not> (dst = 0xffffffff \<or> (IsInNetwork dst (V_HostIP v) (V_HostMask v) \<and> dst AND NOT (V_HostMask v) = NOT (V_HostMask v)))"
    using k by blast
  have "SendFragmentedIp v dst src ident (of_nat n) (of_nat (fst f)) proto (snd f) None ttl =
      v\<lparr>V_ArpTable := l, V_SendQueue := V_SendQueue v @ [frag_frame mac (V_MacAddress v) dst src ident n proto ttl f]\<rparr>"
    using a assms(2,3) unfolding SendFragmentedIp_def option.case if_not_P [OF nb]
    by (auto simp: Let_def VirtualIpSend_def VirtualLayer2Send_def frag_frame_def)
  then show ?thesis using l by (auto simp: sent_def)
qed

lemma send_fragments_sent:
  assumes "knows v dst mac" and "length d \<le> 65535" and "off < length d" and "0 < unat mss" and "unat mss \<le> 1480"
  shows "\<exists>v'. send_fragments v dst src ident (of_nat (length d)) (of_nat off) proto d mss ttl = Some v' \<and>
    sent v v' (map (frag_frame mac (V_MacAddress v) dst src ident (length d) proto ttl) (cut (unat mss) off (drop off d)))"
  using assms(1,3)
proof (induction "length d - off" arbitrary: v off rule: less_induct)
  case less
  define n where "n = min (unat mss) (length d - off)"
  have ud: "unat (of_nat (length d) :: u16) = length d" "unat (of_nat off :: u16) = off"
    using assms(2) less.prems(2) by (simp_all add: unat_of_nat take_bit_nat_eq_self)
  have u: "uint (of_nat (length d) :: u16) = int (length d)" "uint (of_nat off :: u16) = int off" "unat (of_nat off :: u16) = off"
    unfolding uint_nat ud by (rule refl)+
  have "min (int a) (int (length d) - int off) = int (min a (length d - off))" for a
    using less.prems(2) by auto
  then have n: "min (uint mss) (int (length d) - int off) = int n" unfolding uint_nat n_def by blast
  define f where "f = (off, take n (drop off d))"
  have f: "snd f \<noteq> []" "length (snd f) \<le> 1480" "fst f = off" "snd f = take n (drop off d)"
    using less.prems(2) assms(4,5) by (auto simp: f_def n_def)
  define v1 where "v1 = SendFragmentedIp v dst src ident (of_nat (length d)) (of_nat off) proto (snd f) None ttl"
  have v1: "sent v v1 [frag_frame mac (V_MacAddress v) dst src ident (length d) proto ttl f]"
    using SendFragmentedIp_sent [OF less.prems(1) f(1,2), of src ident "length d" proto ttl] f(3) by (simp add: v1_def)
  have mac: "V_MacAddress v1 = V_MacAddress v" using v1 by (auto simp: sent_def)
  have eq: "send_fragments v dst src ident (of_nat (length d)) (of_nat off) proto d mss ttl =
      (if off + n = length d then Some v1
       else send_fragments v1 dst src ident (of_nat (length d)) (of_nat (off + n)) proto d mss ttl)"
    by (subst send_fragments.simps) (simp add: Let_def u n f(4) v1_def flip: of_nat_add)
  show ?case
  proof (cases "off + n = length d")
    case True
    then have "cut (unat mss) off (drop off d) = [f]"
      using less.prems(2) by (subst cut.simps) (auto simp: f_def n_def min_def)
    then show ?thesis using eq True v1 by simp
  next
    case False
    then have nm: "n = unat mss" "off + n < length d" using less.prems(2) by (auto simp: n_def)
    then have c: "cut (unat mss) off (drop off d) = f # cut (unat mss) (off + n) (drop (off + n) d)"
      using assms(4) by (subst cut.simps) (auto simp: f_def add.commute)
    have "length d - (off + n) < length d - off" using nm assms(4) by linarith
    then obtain v' where "send_fragments v1 dst src ident (of_nat (length d)) (of_nat (off + n)) proto d mss ttl = Some v'"
      "sent v1 v' (map (frag_frame mac (V_MacAddress v1) dst src ident (length d) proto ttl) (cut (unat mss) (off + n) (drop (off + n) d)))"
      using less.hyps [of "off + n" v1] nm(2) sent_knows [OF v1 less.prems(1)] by blast
    then show ?thesis using eq False sent_trans [OF v1] unfolding c mac by fastforce
  qed
qed

text \<open>A packet to a known address becomes the frames of its pieces; it takes the next identifier.\<close>

lemma SendIpEx_sent:
  assumes "knows v dst mac" and "d \<noteq> []" and "length d \<le> 65535" and "0 < V_IpMss v" and "V_IpMss v \<le> 1480"
  shows "\<exists>v'. SendIpEx v dst src proto d ttl = Some v' \<and>
    sent (v\<lparr>V_NextId := V_NextId v + 1\<rparr>) v'
      (map (frag_frame mac (V_MacAddress v) dst src (V_NextId v) (length d) proto ttl) (cut (unat (V_IpMss v)) 0 d))"
proof -
  have m: "unat (ucast (V_IpMss v) :: u16) = unat (V_IpMss v)"
  proof -
    have "unat (V_IpMss v) \<le> 1480" using assms(5) by (simp add: word_le_nat_alt)
    then show ?thesis by (simp add: unsigned_ucast_eq take_bit_nat_eq_self)
  qed
  have "0 < unat (V_IpMss v)" "unat (V_IpMss v) \<le> 1480" using assms(4,5) by (simp_all add: unat_order)
  moreover have "knows (v\<lparr>V_NextId := V_NextId v + 1\<rparr>) dst mac" using assms(1) by (simp add: knows_def)
  ultimately show ?thesis
    using send_fragments_sent [of "v\<lparr>V_NextId := V_NextId v + 1\<rparr>" dst mac d 0 "ucast (V_IpMss v)" src "V_NextId v" proto ttl]
      assms(2,3) m by (auto simp: SendIpEx_def)
qed

section \<open>A frame, as its receiver reads it\<close>

lemma flag_bits:
  assumes "h < 32"
  shows "(of_nat h OR push_bit 5 (1 AND 0x07)) AND 0x1f = (of_nat h :: u8)"
    and "(of_nat h OR push_bit 5 (0 AND 0x07)) AND 0x1f = (of_nat h :: u8)"
    and "(drop_bit 5 (of_nat h OR push_bit 5 (1 AND 0x07)) AND 0x07) AND 0x01 = (1 :: u8)"
    and "(drop_bit 5 (of_nat h OR push_bit 5 (0 AND 0x07)) AND 0x07) AND 0x01 = (0 :: u8)"
proof -
  have "\<forall>h \<in> {0..<32 :: nat}. (of_nat h OR push_bit 5 (1 AND 0x07)) AND 0x1f = (of_nat h :: u8) \<and>
      (of_nat h OR push_bit 5 (0 AND 0x07)) AND 0x1f = (of_nat h :: u8) \<and>
      (drop_bit 5 (of_nat h OR push_bit 5 (1 AND 0x07)) AND 0x07) AND 0x01 = (1 :: u8) \<and>
      (drop_bit 5 (of_nat h OR push_bit 5 (0 AND 0x07)) AND 0x07) AND 0x01 = (0 :: u8)"
    by code_simp
  moreover have "h \<in> {0..<32}" using assms by simp
  ultimately show "(of_nat h OR push_bit 5 (1 AND 0x07)) AND 0x1f = (of_nat h :: u8)"
    "(of_nat h OR push_bit 5 (0 AND 0x07)) AND 0x1f = (of_nat h :: u8)"
    "(drop_bit 5 (of_nat h OR push_bit 5 (1 AND 0x07)) AND 0x07) AND 0x01 = (1 :: u8)"
    "(drop_bit 5 (of_nat h OR push_bit 5 (0 AND 0x07)) AND 0x07) AND 0x01 = (0 :: u8)" by blast+
qed

lemma ucast_small:
  assumes "n < 65536"
  shows "(ucast (of_nat n :: u16) :: u32) = of_nat n" and "(ucast (of_nat n :: u16) :: u8) = of_nat n"
  using assms by (simp_all add: unsigned_of_nat take_bit_nat_eq_self)

lemma div_u16:
  assumes "n < 65536"
  shows "(of_nat n :: u16) div 8 = of_nat (n div 8)" and "(of_nat n :: u16) div 256 = of_nat (n div 256)"
    and "(of_nat n :: u16) mod 256 = of_nat (n mod 256)"
proof -
  have u: "unat (of_nat m :: u16) = m" if "m \<le> n" for m
    using that assms by (simp add: unat_of_nat take_bit_nat_eq_self)
  show "(of_nat n :: u16) div 8 = of_nat (n div 8)" "(of_nat n :: u16) div 256 = of_nat (n div 256)"
    "(of_nat n :: u16) mod 256 = of_nat (n mod 256)"
    by (simp_all add: word_unat_eq_iff unat_div unat_mod u)
qed

text \<open>The bytes of the header of a piece.\<close>

lemma fragment_header_bytes:
  assumes "frag_end f \<le> n" and "n \<le> 65535" and "length (snd f) \<le> 1480"
  defines "mf \<equiv> (if frag_end f = n then 0 else 1 :: u8)" and "k \<equiv> fst f div 8"
  shows "\<exists>t c. ip_bytes host_le (fragment_header dst src ident (of_nat n) (of_nat (fst f)) proto (of_nat (length (snd f))) ttl) =
    [0x45, 0] @ be16 (of_nat (20 + length (snd f))) @ be16 ident @
    [of_nat (k div 256) OR push_bit 5 (mf AND 0x07), of_nat (k mod 256), t, proto] @
    mem16 host_le c @ mem32 host_le src @ mem32 host_le dst"
    and "IpCheckChecksum host_le (ip_bytes host_le (fragment_header dst src ident (of_nat n) (of_nat (fst f)) proto
      (of_nat (length (snd f))) ttl) @ rest)"
proof -
  have kb: "k < 65536" "fst f < 65536" using assms(1,2) by (auto simp: k_def)
  have mf: "(if ucast (of_nat (fst f) :: u16) + of_nat (length (snd f)) \<ge> (ucast (of_nat n :: u16) :: u32) then 0 else 1) = mf"
  proof -
    have "ucast (of_nat (fst f) :: u16) + of_nat (length (snd f)) = (of_nat (frag_end f) :: u32)"
      using kb by (simp add: ucast_small)
    moreover have "unat (of_nat (frag_end f) :: u32) = frag_end f" "unat (of_nat n :: u32) = n"
      using assms(1,2) by (simp_all add: nowrap del: of_nat_add)
    ultimately show ?thesis using assms(1,2) by (simp add: mf_def ucast_small word_le_nat_alt del: of_nat_add)
  qed
  have off: "ucast ((of_nat (fst f) :: u16) div 8 div 256) = (of_nat (k div 256) :: u8)"
    "ucast ((of_nat (fst f) :: u16) div 8 mod 256) = (of_nat (k mod 256) :: u8)"
    using kb by (simp_all add: div_u16 ucast_small k_def [symmetric])
  have len: "(ucast (of_nat (length (snd f)) + IP_HEADER_SIZE :: u32) :: u16) = of_nat (20 + length (snd f))"
  proof -
    have "of_nat (length (snd f)) + IP_HEADER_SIZE = of_nat (20 + length (snd f))" by simp
    then show ?thesis using assms(3) by (simp add: unsigned_of_nat take_bit_nat_eq_self del: of_nat_add)
  qed
  show "\<exists>t c. ip_bytes host_le (fragment_header dst src ident (of_nat n) (of_nat (fst f)) proto (of_nat (length (snd f))) ttl) =
    [0x45, 0] @ be16 (of_nat (20 + length (snd f))) @ be16 ident @
    [of_nat (k div 256) OR push_bit 5 (mf AND 0x07), of_nat (k mod 256), t, proto] @
    mem16 host_le c @ mem32 host_le src @ mem32 host_le dst"
    unfolding fragment_header_def mf off len
    by (auto simp: ip_bytes_def Let_def IPV4_SET_VERSION_def IPV4_SET_HEADER_LEN_def)
  show "IpCheckChecksum host_le (ip_bytes host_le (fragment_header dst src ident (of_nat n) (of_nat (fst f)) proto
      (of_nat (length (snd f))) ttl) @ rest)"
    unfolding fragment_header_def Let_def
    by (rule ip_header_checks) (simp_all add: IPV4_SET_VERSION_def IPV4_SET_HEADER_LEN_def)
qed

lemma frame_carries:
  assumes "length dest_mac = 6" and "hd dest_mac AND 0x01 = 0" and "length src_mac = 6"
    and "snd f \<noteq> []" and "frag_end f \<le> n" and "n \<le> 65535" and "length (snd f) \<le> 1480" and "8 dvd fst f"
    and m_def: "m = frag_frame dest_mac src_mac dst src ident n proto ttl f"
    and "ParsePacket host_le m (of_nat (length m)) = Some (Some p)"
  shows "carries src dst ident proto n f p"
proof -
  define k where "k = fst f div 8"
  define b where "b = (of_nat (k div 256) OR push_bit 5 ((if frag_end f = n then 0 else 1) AND 0x07) :: u8)"
  define ip where "ip = ip_bytes host_le (fragment_header dst src ident (of_nat n) (of_nat (fst f)) proto (of_nat (length (snd f))) ttl)"
  note hb = fragment_header_bytes [OF assms(5,6,7), of dst src ident proto ttl, folded ip_def]
  obtain t c where ip: "ip = [0x45, 0] @ be16 (of_nat (20 + length (snd f))) @ be16 ident @
    [b, of_nat (k mod 256), t, proto] @ mem16 host_le c @ mem32 host_le src @ mem32 host_le dst"
    using hb(1) unfolding b_def k_def by blast
  have m: "m = dest_mac @ src_mac @ [8, 0] @ ip @ snd f"
    by (simp add: m_def frag_frame_def ip_def be16_def)
  have lip: "length ip = 20" by (simp add: ip_def)
  have lm: "length m = 34 + length (snd f)" using assms(1,3) lip by (simp add: m)
  have d14: "drop 14 m = ip @ snd f" using assms(1,3) by (simp add: m)
  have tot: "unat (of_nat (20 + length (snd f)) :: u16) = 20 + length (snd f)"
    using assms(7) by (simp add: unat_of_nat take_bit_nat_eq_self del: of_nat_add)
  have ids: "take 2 (drop 2 (ip @ snd f)) = be16 (of_nat (20 + length (snd f)))" "take 2 (drop 4 (ip @ snd f)) = be16 ident"
    "take 4 (drop 12 (ip @ snd f)) = mem32 host_le src" "take 4 (drop 16 (ip @ snd f)) = mem32 host_le dst"
    "byte_of (ip @ snd f) 0 = 0x45" "byte_of (ip @ snd f) 6 = b" "byte_of (ip @ snd f) 7 = of_nat (k mod 256)"
    "byte_of (ip @ snd f) 9 = proto" "drop 20 (ip @ snd f) = snd f"
    unfolding ip by (simp_all add: byte_of_def nth_append)
  have m14: "m ! 14 = 0x45" "take 2 (drop 12 m) = [8, 0]" "take 2 (drop 16 m) = be16 (of_nat (20 + length (snd f)))"
  proof -
    show "m ! 14 = 0x45" using nth_drop [of 14 m 0] lm d14 by (simp add: ip)
    show "take 2 (drop 12 m) = [8, 0]" using assms(1,3) by (simp add: m)
    have "drop 16 m = drop 2 (drop 14 m)" by simp
    then show "take 2 (drop 16 m) = be16 (of_nat (20 + length (snd f)))" unfolding d14 using ids(1) by simp
  qed
  have v4: "v4_frame m" using m14 tot lm by (simp add: v4_frame_def)
  have p: "PacketData p = m" "parsed m (length m) p" "TypeL3 p = L3_IPV4"
    "BroadcastPacket p = (list_all (\<lambda>c. c = 0xff) (take 6 m) \<or> hd m AND 0x01 \<noteq> 0)"
    using ParsePacket_v4 [OF v4, of host_le] lm assms(7,10) by auto
  have l3: "PointerL3 p = ip @ snd f"
    using p(1-3) d14 by (simp add: PointerL3_def parsed_def v4_parsed_def)
  have hd: "hd m = hd dest_mac" "take 6 m = dest_mac" using assms(1) by (cases dest_mac; simp add: m)+
  have "hd dest_mac \<noteq> 0xff" using assms(2) by auto
  then have "\<not> list_all (\<lambda>c. c = 0xff) dest_mac" using assms(1) by (cases dest_mac) auto
  then have bc: "\<not> BroadcastPacket p" using p(4) hd assms(2) by simp
  have k: "k div 256 < 32" using assms(5,6) by (simp add: k_def)
  have flags: "(drop_bit 5 b AND 0x07) AND 0x01 = (if frag_end f = n then 0 else 1)" "b AND 0x1f = of_nat (k div 256)"
    using flag_bits [OF k] by (simp_all add: b_def)
  have "(ucast (of_nat (k div 256) :: u8) :: u32) = of_nat (k div 256)" "(ucast (of_nat (k mod 256) :: u8) :: u32) = of_nat (k mod 256)"
    using k by (simp_all add: unsigned_of_nat take_bit_nat_eq_self)
  then have off: "(ucast (of_nat (k div 256) :: u8) * 256 + ucast (of_nat (k mod 256) :: u8) :: u32) = of_nat k"
    by (metis (no_types, lifting) div_mult_mod_eq of_nat_add of_nat_mult of_nat_numeral)
  show ?thesis
    using bc assms(4,7,8) lip hb(2) flags off ids lm p(1)
    unfolding carries_def Let_def l3 SrcIP_def DstIP_def ip_protocol_def host32_of_def net16_of_def
    by (simp add: PacketSize_def k_def)
qed

text \<open>The parser refuses no frame of an ICMP packet with four bytes of data.\<close>

lemma icmp_frame_parsed:
  assumes "length dest_mac = 6" and "length src_mac = 6" and "frag_end f \<le> n" and "n \<le> 65535"
    and "4 \<le> length (snd f)" and "length (snd f) \<le> 1480"
    and m_def: "m = frag_frame dest_mac src_mac dst src ident n 1 ttl f"
  shows "\<exists>p. ParsePacket host_le m (of_nat (length m)) = Some (Some p)"
proof -
  obtain t c b where ip: "ip_bytes host_le (fragment_header dst src ident (of_nat n) (of_nat (fst f)) 1 (of_nat (length (snd f))) ttl) =
    [0x45, 0] @ be16 (of_nat (20 + length (snd f))) @ be16 ident @
    [b, of_nat (fst f div 8 mod 256), t, 1] @ mem16 host_le c @ mem32 host_le src @ mem32 host_le dst"
    using fragment_header_bytes(1) [OF assms(3,4,6), of dst src ident 1 ttl] by blast
  have tot: "unat (of_nat (20 + length (snd f)) :: u16) = 20 + length (snd f)"
    using assms(6) by (simp add: unat_of_nat take_bit_nat_eq_self del: of_nat_add)
  have m: "m = dest_mac @ src_mac @ [8, 0] @ [0x45, 0] @ be16 (of_nat (20 + length (snd f))) @ be16 ident @
    [b, of_nat (fst f div 8 mod 256), t, 1] @ mem16 host_le c @ mem32 host_le src @ mem32 host_le dst @ snd f"
    unfolding m_def frag_frame_def ip by (simp add: be16_def)
  have lm: "length m = 34 + length (snd f)" using assms(1,2) by (simp add: m)
  have bytes: "m ! 14 = 0x45" "m ! 23 = 1" "take 2 (drop 12 m) = [8, 0]" "take 2 (drop 16 m) = be16 (of_nat (20 + length (snd f)))"
    using assms(1,2) unfolding m by (simp_all add: nth_append)
  have "v4_frame m" using bytes tot lm by (simp add: v4_frame_def)
  then show ?thesis using ParsePacket_v4 [of m host_le] lm assms(5,6) bytes by auto
qed

lemma mset_map_permuted:
  "mset ys = mset (map g xs) \<Longrightarrow> \<exists>zs. mset zs = mset xs \<and> map g zs = ys"
proof (induction ys arbitrary: xs)
  case (Cons y ys)
  then have "y \<in> set (map g xs)" by (metis list.set_intros(1) set_mset_mset)
  then obtain x where x: "x \<in> set xs" "g x = y" by auto
  then have "mset xs = add_mset x (mset (remove1 x xs))" by simp
  then have "image_mset g (mset xs) = image_mset g (add_mset x (mset (remove1 x xs)))" by (rule arg_cong)
  then have "mset (map g xs) = add_mset y (mset (map g (remove1 x xs)))" using x(2) by (simp only: mset_map image_mset_add_mset)
  then have "mset ys = mset (map g (remove1 x xs))" using Cons.prems by simp
  then obtain zs where "mset zs = mset (remove1 x xs)" "map g zs = ys" using Cons.IH by blast
  then show ?case using x by (intro exI [of _ "x # zs"]) simp
qed simp

end
