(* ===== verification/VirtualTotal.thy ===== *)
theory VirtualTotal
  imports VirtualLease VirtualSend
begin

text \<open>
  The virtual host never fails (src/src/Cedar/Virtual.c): what it sends leaves its leases, its options
  and the packets it puts together as they are; every frame that it gets, and every time it is asked
  for one, it returns and keeps its state in order.
\<close>

section \<open>Sending\<close>

text \<open>The state without the queue, the address tables and the counters of the sender.\<close>

definition core :: "VH \<Rightarrow> VH" where
  "core v = v\<lparr>V_SendQueue := [], V_ArpTable := lst_new, V_ArpWaitTable := lst_new, V_IpWaitTable := lst_new,
     V_NextId := 0, V_LastSendBeacon := 0, V_NextArpTablePolling := 0\<rparr>"

lemma core_update [simp]:
  "core (v\<lparr>V_SendQueue := q\<rparr>) = core v" "core (v\<lparr>V_ArpTable := a\<rparr>) = core v" "core (v\<lparr>V_ArpWaitTable := w\<rparr>) = core v"
  "core (v\<lparr>V_IpWaitTable := t\<rparr>) = core v" "core (v\<lparr>V_NextId := i\<rparr>) = core v" "core (v\<lparr>V_LastSendBeacon := b\<rparr>) = core v"
  "core (v\<lparr>V_NextArpTablePolling := n\<rparr>) = core v"
  by (simp_all add: core_def)

text \<open>A step that only sends: every frame in the queue has bytes.\<close>

definition sends :: "VH \<Rightarrow> VH \<Rightarrow> bool" where
  "sends v v' \<longleftrightarrow> core v' = core v \<and> ([] \<notin> set (V_SendQueue v) \<longrightarrow> [] \<notin> set (V_SendQueue v'))"

lemma sends_refl [simp, intro]: "sends v v"
  by (simp add: sends_def)

lemma sends_trans [trans]: "sends v v1 \<Longrightarrow> sends v1 v2 \<Longrightarrow> sends v v2"
  by (simp add: sends_def)

lemma sends_fold: "(\<And>x v. sends v (g x v)) \<Longrightarrow> sends v (fold g xs v)"
  by (induction xs arbitrary: v) (auto intro: sends_trans)

lemma sends_table [simp]:
  "sends v (v\<lparr>V_ArpTable := a\<rparr>)" "sends v (v\<lparr>V_ArpWaitTable := w\<rparr>)" "sends v (v\<lparr>V_IpWaitTable := t\<rparr>)"
  "sends v (v\<lparr>V_NextId := i\<rparr>)" "sends v (v\<lparr>V_LastSendBeacon := b\<rparr>)" "sends v (v\<lparr>V_NextArpTablePolling := n\<rparr>)"
  by (simp_all add: sends_def)

lemma sends_then_table [simp]:
  "sends v (v'\<lparr>V_ArpTable := a\<rparr>) = sends v v'" "sends v (v'\<lparr>V_ArpWaitTable := w\<rparr>) = sends v v'"
  "sends v (v'\<lparr>V_IpWaitTable := t\<rparr>) = sends v v'" "sends (v\<lparr>V_LastSendBeacon := b\<rparr>) v' = sends v v'"
  by (simp_all add: sends_def)

lemma sends_Layer2 [simp]: "sends v (VirtualLayer2Send v d s pr x)"
  by (simp add: sends_def VirtualLayer2Send_def mem16_def be16_def)

lemma sends_VirtualIpSend [simp]: "sends v (VirtualIpSend v m x)"
  by (simp add: VirtualIpSend_def)

lemma sends_SendArp: "sends v (SendArp v ip)"
proof -
  obtain w v1 where s: "SearchArpWaitTable v ip = (w, v1)" by (metis surj_pair)
  then have "sends v v1" by (auto simp: SearchArpWaitTable_def Let_def split: prod.splits)
  moreover have "sends v1 (VirtualArpSendRequest v1 ip)" by (simp add: VirtualArpSendRequest_def)
  ultimately show ?thesis
    by (auto simp: SendArp_def s InsertArpWaitTable_def Let_def intro: sends_trans split: option.split)
qed

lemma sends_SearchArpTable: "sends v (snd (SearchArpTable v ip))"
  by (simp add: SearchArpTable_def Let_def split: prod.splits)

lemma sends_SendFragmentedIp: "sends v (SendFragmentedIp v dst src i n off pr x m ttl)"
proof -
  have w: "sends v v' \<Longrightarrow> sends v (SendArp (InsertIpWaitTable v' a b buf) c)" for v' a b c buf
    by (rule sends_trans [OF _ sends_SendArp]) (simp add: InsertIpWaitTable_def)
  have "sends v v' \<Longrightarrow> sends v (VirtualIpSend v' m buf)" for v' m buf
    by (rule sends_trans [OF _ sends_VirtualIpSend])
  then show ?thesis
    using w sends_SearchArpTable [of v dst] unfolding SendFragmentedIp_def
    by (auto simp: Let_def split: option.split prod.split)
qed

lemma send_fragments_total:
  assumes "0 < unat mss" and "off < n" and "n \<le> 65535"
  shows "\<exists>v'. send_fragments v dst src i (of_nat n) (of_nat off) pr buf mss ttl = Some v' \<and> sends v v'"
  using assms(2)
proof (induction "n - off" arbitrary: v off rule: less_induct)
  case less
  have ud: "unat (of_nat n :: u16) = n" "unat (of_nat off :: u16) = off"
    using assms(3) less.prems by (simp_all add: unat_of_nat take_bit_nat_eq_self)
  have u: "uint (of_nat n :: u16) = int n" "uint (of_nat off :: u16) = int off" unfolding uint_nat ud by (rule refl)+
  define k where "k = min (unat mss) (n - off)"
  have "min (int a) (int n - int off) = int (min a (n - off))" for a using less.prems by auto
  then have k: "min (uint mss) (int n - int off) = int k" unfolding uint_nat k_def by blast
  define v1 where "v1 = SendFragmentedIp v dst src i (of_nat n) (of_nat off) pr (take k (drop off buf)) None ttl"
  have v1: "sends v v1" by (simp add: v1_def sends_SendFragmentedIp)
  have eq: "send_fragments v dst src i (of_nat n) (of_nat off) pr buf mss ttl =
      (if off + k = n then Some v1 else send_fragments v1 dst src i (of_nat n) (of_nat (off + k)) pr buf mss ttl)"
    by (subst send_fragments.simps) (simp add: Let_def u ud k v1_def flip: of_nat_add)
  show ?case
  proof (cases "off + k = n")
    case True
    then show ?thesis using eq v1 by simp
  next
    case False
    then have "n - (off + k) < n - off" "off + k < n" using less.prems assms(1) by (auto simp: k_def)
    then obtain v' where "send_fragments v1 dst src i (of_nat n) (of_nat (off + k)) pr buf mss ttl = Some v'" "sends v1 v'"
      using less.hyps by blast
    then show ?thesis using eq False sends_trans [OF v1] by auto
  qed
qed

definition mss_ok :: "VH \<Rightarrow> bool" where
  "mss_ok v \<longleftrightarrow> 0 < V_IpMss v \<and> V_IpMss v \<le> 1480"

lemma core_fields [simp]:
  "V_IpMss (core v) = V_IpMss v" "V_IpCombine (core v) = V_IpCombine v" "V_CurrentIpQuota (core v) = V_CurrentIpQuota v"
  "V_DhcpLeaseList (core v) = V_DhcpLeaseList v" "V_DhcpDomain (core v) = V_DhcpDomain v" "V_PushRoute (core v) = V_PushRoute v"
  by (simp_all add: core_def)

text \<open>A step that sends, with its result.\<close>

definition does_send :: "VH \<Rightarrow> VH option \<Rightarrow> bool" where
  "does_send v r \<longleftrightarrow> (\<exists>v'. r = Some v' \<and> sends v v')"

lemma does_send_Some [simp]: "does_send v (Some v') = sends v v'"
  by (simp add: does_send_def)

lemma SendIpEx_total:
  assumes "mss_ok v"
  shows "does_send v (SendIpEx v dst src pr d ttl)"
proof (cases "d = [] \<or> 65535 < length d")
  case False
  have "unat (V_IpMss v) \<le> 1480" "0 < unat (V_IpMss v)" using assms by (simp_all add: mss_ok_def unat_order)
  then have "0 < unat (ucast (V_IpMss v) :: u16)" by (simp add: unsigned_ucast_eq take_bit_nat_eq_self)
  then obtain v' where "send_fragments (v\<lparr>V_NextId := V_NextId v + 1\<rparr>) dst src (V_NextId v) (of_nat (length d)) 0 pr d
      (ucast (V_IpMss v)) ttl = Some v'" "sends (v\<lparr>V_NextId := V_NextId v + 1\<rparr>) v'"
    using send_fragments_total [of "ucast (V_IpMss v)" 0 "length d" "v\<lparr>V_NextId := V_NextId v + 1\<rparr>" dst src "V_NextId v" pr d ttl] False
    by auto
  moreover from this(2) have "sends v v'" by (rule sends_trans [rotated]) simp
  ultimately show ?thesis using False by (simp add: SendIpEx_def)
qed (auto simp: SendIpEx_def)

lemma SendUdp_total: "mss_ok v \<Longrightarrow> does_send v (SendUdp v dst dp src sp d)"
  by (auto simp: SendUdp_def SendIp_def Let_def intro: SendIpEx_total)

lemma SendBeacon_total:
  assumes "mss_ok v"
  shows "does_send v (SendBeacon v)"
proof -
  define dest where "dest = (V_HostIP v AND V_HostMask v) OR NOT (V_HostMask v)"
  obtain v1 where v1: "SendUdp v dest 7 (V_HostIP v) 7 host_beacon_str = Some v1" "sends v v1"
    using SendUdp_total [OF assms] unfolding does_send_def by blast
  then show ?thesis using sends_trans [OF v1(2) sends_Layer2]
    by (simp add: SendBeacon_def Let_def dest_def [symmetric])
qed

lemma PollingBeacon_total: "mss_ok v \<Longrightarrow> does_send v (PollingBeacon tick v)"
proof -
  assume "mss_ok v"
  then have "does_send (v\<lparr>V_LastSendBeacon := tick\<rparr>) (SendBeacon (v\<lparr>V_LastSendBeacon := tick\<rparr>))"
    by (intro SendBeacon_total) (simp add: mss_ok_def)
  then have "does_send v (SendBeacon (v\<lparr>V_LastSendBeacon := tick\<rparr>))"
    by (auto simp: does_send_def)
  then show ?thesis by (simp add: PollingBeacon_def)
qed

text \<open>What the host learns.\<close>

lemma sends_SearchArpWaitTable: "sends v (snd (SearchArpWaitTable v ip))"
  by (simp add: SearchArpWaitTable_def Let_def split: prod.splits)

lemma sends_DeleteArpWaitTable: "sends v (DeleteArpWaitTable v ip)"
  using sends_SearchArpWaitTable [of v ip] by (auto simp: DeleteArpWaitTable_def Let_def split: prod.splits option.splits)

lemma sends_InsertArpTable: "sends v (InsertArpTable v mac ip)"
  using sends_SearchArpTable [of v ip] by (auto simp: InsertArpTable_def Let_def split: prod.splits option.splits)

lemma sends_ArpIpWasKnown: "sends v (ArpIpWasKnown v ip mac)"
proof -
  have "sends v (SendWaitingIp v mac ip)" for v
    unfolding SendWaitingIp_def by (rule sends_fold) simp
  then show ?thesis unfolding ArpIpWasKnown_def
    using sends_DeleteArpWaitTable sends_InsertArpTable by (meson sends_trans)
qed

lemma sends_VirtualArpReceived: "sends v (VirtualArpReceived v p)"
proof -
  have "sends v (VirtualArpResponseRequest v p)"
    using sends_trans [OF sends_ArpIpWasKnown sends_Layer2] sends_ArpIpWasKnown
    by (simp add: VirtualArpResponseRequest_def VirtualArpSendResponse_def Let_def)
  then show ?thesis using sends_ArpIpWasKnown
    by (simp add: VirtualArpReceived_def VirtualArpResponseReceived_def Let_def)
qed

lemma sends_PollingArp: "sends v (PollingArpTable v)" "sends v (PollingArpWaitTable v)" "sends v (PollingIpWaitTable v)"
proof -
  show "sends v (PollingArpTable v)" by (simp add: PollingArpTable_def RefreshArpTable_def)
  show "sends v (PollingIpWaitTable v)" by (simp add: PollingIpWaitTable_def DeleteOldIpWaitTable_def)
  have loop: "sends v (fst (host_wait_loop v ws))" for ws
  proof (induction ws arbitrary: v)
    case (Cons w ws)
    have "sends v (fst (host_wait_loop v' ws))" if "sends v v'" for v' using that Cons by (rule sends_trans)
    then show ?case using Cons by (simp add: Let_def case_prod_beta VirtualArpSendRequest_def)
  qed simp
  then show "sends v (PollingArpWaitTable v)"
    unfolding PollingArpWaitTable_def
    by (auto simp: Let_def split: prod.splits intro!: sends_trans [OF _ sends_fold] sends_DeleteArpWaitTable)
      (metis fst_conv)
qed

section \<open>Receiving\<close>

text \<open>
  The packets that are being put together: no two of the same identifier, every one with a buffer as
  large as it says, and the memory reserved for them is what has been counted.
\<close>

definition combos_ok :: "VH \<Rightarrow> bool" where
  "combos_ok v \<longleftrightarrow> combining.tbl_ok (V_IpCombine v) \<and> list_all combine_ok (items (V_IpCombine v)) \<and>
     V_CurrentIpQuota v = sum_list (map C_DataReserved (items (V_IpCombine v)))"

definition only_combine :: "VH \<Rightarrow> VH \<Rightarrow> bool" where
  "only_combine v v' \<longleftrightarrow>
     v'\<lparr>V_IpCombine := lst_new, V_CurrentIpQuota := 0\<rparr> = v\<lparr>V_IpCombine := lst_new, V_CurrentIpQuota := 0\<rparr>"

lemma only_combine_refl [simp]: "only_combine v v"
  by (simp add: only_combine_def)

lemma only_combine_trans: "only_combine v v1 \<Longrightarrow> only_combine v1 v2 \<Longrightarrow> only_combine v v2"
  by (simp add: only_combine_def)

lemma combos_sends: "sends v v' \<Longrightarrow> combos_ok v' = combos_ok v"
proof -
  assume "sends v v'"
  then have c: "core v' = core v" by (simp add: sends_def)
  have "V_IpCombine v' = V_IpCombine v" "V_CurrentIpQuota v' = V_CurrentIpQuota v"
    using arg_cong [OF c, of V_IpCombine] arg_cong [OF c, of V_CurrentIpQuota] by simp_all
  then show ?thesis by (simp add: combos_ok_def)
qed

lemma combos_replace:
  assumes "combos_ok v" and "c \<in> set (items (V_IpCombine v))" and "combine_key c' = combine_key c" and "combine_ok c'"
  shows "combos_ok (keep_combine v c c')" and "c' \<in> set (items (V_IpCombine (keep_combine v c c')))"
    and "only_combine v (keep_combine v c c')"
proof -
  let ?l = "V_IpCombine v"
  note ok = assms(1) [unfolded combos_ok_def]
  have "combining.view ?l (combine_key c) = Some c" using ok assms(2) by (simp add: combining.view_Some)
  then have t: "combining.tbl_ok (?l\<lparr>items := replace_first c c' (items ?l)\<rparr>)"
    using combining.tbl_replace ok assms(3) by blast
  have "distinct (items ?l)" using ok by (simp add: combining.tbl_ok_def distinct_map)
  then obtain a b where ab: "items ?l = a @ c # b" "replace_first c c' (items ?l) = a @ c' # b"
    using combining.replace_first_split [OF assms(2)] by blast
  then show "combos_ok (keep_combine v c c')" "c' \<in> set (items (V_IpCombine (keep_combine v c c')))"
    using t ok assms(4) by (simp_all add: combos_ok_def keep_combine_def)
  show "only_combine v (keep_combine v c c')" by (simp add: only_combine_def keep_combine_def)
qed

lemma combos_drop:
  assumes "combos_ok v" and "c \<in> set (items (V_IpCombine v))"
  shows "combos_ok (drop_combine v c)" and "only_combine v (drop_combine v c)"
    and "items (V_IpCombine (drop_combine v c)) = remove1 c (items (V_IpCombine v))"
proof -
  note ok = assms(1) [unfolded combos_ok_def]
  show i: "items (V_IpCombine (drop_combine v c)) = remove1 c (items (V_IpCombine v))"
    by (simp add: drop_combine_def FreeIpCombine_def lst_delete_def)
  have "combining.tbl_ok (snd (lst_delete (V_IpCombine v) c))" using combining.tbl_delete ok by blast
  moreover have "sum_list (map C_DataReserved (items (V_IpCombine v))) - C_DataReserved c =
      sum_list (map C_DataReserved (remove1 c (items (V_IpCombine v))))"
    using sum_list_map_remove1 [OF assms(2), of C_DataReserved] by simp
  moreover have "list_all combine_ok (remove1 c (items (V_IpCombine v)))"
    using ok set_remove1_subset [of c "items (V_IpCombine v)"] unfolding list_all_iff by blast
  ultimately show "combos_ok (drop_combine v c)"
    using ok unfolding combos_ok_def i by (simp add: drop_combine_def FreeIpCombine_def)
  show "only_combine v (drop_combine v c)" by (simp add: only_combine_def drop_combine_def FreeIpCombine_def)
qed

lemma CombineIp_survives:
  assumes "combos_ok v" and "c \<in> set (items (V_IpCombine v))" and "data \<noteq> []" and "unat offset + length data < two32"
  shows "\<exists>v' r. CombineIp v c offset data l head = Some (v', r) \<and> combos_ok v' \<and> only_combine v v'"
proof -
  define n :: u32 where "n = of_nat (length data)"
  have n: "unat (offset + n) = unat offset + length data" using assms(4) by (simp add: n_def nowrap)
  have ok: "combine_ok c" using assms(1,2) by (auto simp: combos_ok_def list_all_iff)
  show ?thesis
  proof (cases "offset + n > 65535 \<or> (\<not> l \<and> C_Size c \<noteq> 0 \<and> offset + n > C_Size c)")
    case True
    then have "CombineIp v c offset data l head = Some (v, None)" by (auto simp: CombineIp_def n_def Let_def)
    then show ?thesis using assms(1) by simp
  next
    case False
    then have "unat offset + length data \<le> 65535" "l \<or> C_Size c = 0 \<or> unat offset + length data \<le> unat (C_Size c)"
      using n by (auto simp: word_less_nat_alt linorder_not_less)
    then obtain cells r where e: "let c' = with_part c offset data l head cells r
      in CombineIp v c offset data l head =
          Some (if complete c' then (drop_combine (keep_combine v c c') c', deliver c') else (keep_combine v c c', None)) \<and>
        combine_ok c' \<and> unat offset + length data \<le> length cells \<and> take (length (C_Data c)) cells = C_Data c \<and>
        C_DataReserved c \<le> r"
      using CombineIp_eq [OF ok _ assms(3)] by blast
    define c' where "c' = with_part c offset data l head cells r"
    note e = e [folded c'_def, unfolded Let_def, folded c'_def]
    have "combine_key c' = combine_key c" by (simp add: c'_def combine_key_def)
    note k = combos_replace [OF assms(1,2) this conjunct1 [OF conjunct2 [OF e]]]
    note d = combos_drop [OF k(1,2)]
    show ?thesis
    proof (cases "complete c'")
      case True
      then show ?thesis using e d(1) only_combine_trans [OF k(3) d(2)] by simp
    next
      case False
      then show ?thesis using e k(1,3) by simp
    qed
  qed
qed

lemma combos_max_l3:
  assumes "combos_ok v" and "c \<in> set (items (V_IpCombine v))"
  shows "\<exists>c' v'. set_max_l3 n c v = (c', v') \<and> combos_ok v' \<and> c' \<in> set (items (V_IpCombine v')) \<and> only_combine v v'"
proof -
  define c' where "c' = c\<lparr>C_MaxL3Size := n\<rparr>"
  have ok: "combine_ok c" using assms by (auto simp: combos_ok_def list_all_iff)
  have c': "combine_key c' = combine_key c" "combine_ok c'" using ok by (simp_all add: c'_def combine_key_def combine_ok_def)
  have "set_max_l3 n c v = (c', keep_combine v c c')" by (simp add: set_max_l3_def keep_combine_def c'_def Let_def)
  then show ?thesis using combos_replace [OF assms c'] by simp
qed

lemma combos_search:
  assumes "combos_ok v" and "SearchIpCombine v src dst i pr = (r, v')"
  shows "combos_ok v'" and "only_combine v v'" and "r = Some c \<Longrightarrow> c \<in> set (items (V_IpCombine v'))"
    and "r = None \<Longrightarrow> combining.view (V_IpCombine v') (i, dst, src, pr) = None"
proof -
  define t where "t = new_combine v src dst i pr False 0 False"
  obtain r1 l where s: "lst_search (Some CompareIpCombine) (V_IpCombine v) t = (r1, l)" by (metis surj_pair)
  have k: "combine_key t = (i, dst, src, pr)" by (simp add: t_def new_combine_def combine_key_def)
  have e: "r1 = r" "v' = v\<lparr>V_IpCombine := l\<rparr>" using assms(2) by (simp_all add: SearchIpCombine_def t_def [symmetric] s)
  note ok = assms(1) [unfolded combos_ok_def]
  note l = combining.tbl_search [OF conjunct1 [OF ok] s]
  have m: "mset (items l) = mset (items (V_IpCombine v))" using l by blast
  then have "sum_mset (mset (map C_DataReserved (items l))) = sum_mset (mset (map C_DataReserved (items (V_IpCombine v))))" by simp
  then have "sum_list (map C_DataReserved (items l)) = sum_list (map C_DataReserved (items (V_IpCombine v)))"
    by (simp only: sum_mset_sum_list)
  moreover have "list_all combine_ok (items l)" using ok mset_eq_setD [OF m] by (simp add: list_all_iff)
  ultimately show "combos_ok v'" using ok l by (simp add: combos_ok_def e)
  show "only_combine v v'" by (simp add: only_combine_def e)
  show "c \<in> set (items (V_IpCombine v'))" if "r = Some c"
  proof -
    have "combining.view l (combine_key t) = Some c" using that l by (simp add: e)
    then show ?thesis using l combining.view_Some [of l "combine_key t" c] by (simp add: e)
  qed
  show "combining.view (V_IpCombine v') (i, dst, src, pr) = None" if "r = None"
    using that l k by (auto simp: e)
qed

lemma combos_insert:
  assumes "combos_ok v" and "combining.view (V_IpCombine v) (i, dst, src, pr) = None"
    and "InsertIpCombine v src dst i pr mb ttl loc = (r, v')"
  shows "combos_ok v'" and "only_combine v v'" and "r = Some c \<Longrightarrow> c \<in> set (items (V_IpCombine v'))"
proof -
  define x where "x = new_combine v src dst i pr mb ttl loc"
  have x: "combine_key x = (i, dst, src, pr)" "combine_ok x" "C_DataReserved x = 1480"
    by (simp_all add: x_def new_combine_def combine_key_def combine_ok_def buffer_sizes_def)
  note ok = assms(1) [unfolded combos_ok_def]
  define l where "l = lst_insert (Some CompareIpCombine) (V_IpCombine v) x"
  have l: "combining.tbl_ok l" "mset (items l) = add_mset x (mset (items (V_IpCombine v)))"
    using combining.tbl_insert [of "V_IpCombine v" x] ok assms(2) x(1) by (simp_all add: l_def)
  have set: "set (items l) = insert x (set (items (V_IpCombine v)))"
    using l(2) by (metis set_mset_add_mset_insert set_mset_mset)
  have "sum_mset (mset (map C_DataReserved (items l))) = 1480 + sum_list (map C_DataReserved (items (V_IpCombine v)))"
    using l(2) x(3) by (simp add: sum_mset_sum_list [symmetric] del: sum_mset_sum_list)
  then have "sum_list (map C_DataReserved (items l)) = 1480 + sum_list (map C_DataReserved (items (V_IpCombine v)))"
    by (simp only: sum_mset_sum_list)
  then have new: "combos_ok (v\<lparr>V_CurrentIpQuota := V_CurrentIpQuota v + 1480, V_IpCombine := l\<rparr>)"
    using ok l(1) x(2) set by (simp add: combos_ok_def list_all_iff)
  show "combos_ok v'" "only_combine v v'"
    using assms(1,3) new by (auto simp: InsertIpCombine_def x_def [symmetric] l_def [symmetric] Let_def only_combine_def split: if_splits)
  show "c \<in> set (items (V_IpCombine v'))" if "r = Some c"
    using that assms(3) set by (auto simp: InsertIpCombine_def x_def [symmetric] l_def [symmetric] Let_def split: if_splits)
qed

text \<open>A step that sends and changes the packets that are being put together.\<close>

definition receives :: "VH \<Rightarrow> VH \<Rightarrow> bool" where
  "receives v v' \<longleftrightarrow> combos_ok v' \<and> (\<exists>v1. sends v v1 \<and> only_combine v1 v')"

lemma receives_only: "receives v v1 \<Longrightarrow> combos_ok v2 \<Longrightarrow> only_combine v1 v2 \<Longrightarrow> receives v v2"
  unfolding receives_def by (blast intro: only_combine_trans)

text \<open>A fragment for the objects of \<open>v\<close>: the part of the code after the header has been read.\<close>

lemma fragment_survives:
  assumes "combos_ok v" and "data \<noteq> []" and "unat off + length data < two32"
  shows "\<exists>v' x. (do {
             let (found, v) = SearchIpCombine v src dst i pr;
             case found of
               Some c \<Rightarrow>
                 let (c, v) = set_max_l3 (max (C_MaxL3Size c) n) c v
                 in CombineIp v c off data l head
             | None \<Rightarrow>
                 let (c, v) = InsertIpCombine v src dst i pr mb ttl loc
                 in (case c of
                       None \<Rightarrow> Some (v, None)
                     | Some c \<Rightarrow>
                         let (c, v) = set_max_l3 n c v
                         in CombineIp v c off data l head)
           }) = Some (v', x) \<and> combos_ok v' \<and> only_combine v v'"
proof -
  obtain r v1 where s: "SearchIpCombine v src dst i pr = (r, v1)" by (metis surj_pair)
  note st = combos_search [OF assms(1) s]
  have put: "\<exists>v' x. (case set_max_l3 m c v2 of (c, v) \<Rightarrow> CombineIp v c off data l head) = Some (v', x) \<and> combos_ok v' \<and> only_combine v v'"
    if "combos_ok v2" "c \<in> set (items (V_IpCombine v2))" "only_combine v v2" for m c v2
  proof -
    obtain c' v3 where m: "set_max_l3 m c v2 = (c', v3)" "combos_ok v3" "c' \<in> set (items (V_IpCombine v3))" "only_combine v2 v3"
      using combos_max_l3 [OF \<open>combos_ok v2\<close> \<open>c \<in> _\<close>] by blast
    obtain v4 x where v4: "CombineIp v3 c' off data l head = Some (v4, x)" "combos_ok v4" "only_combine v3 v4"
      using CombineIp_survives [OF m(2,3) assms(2,3)] by blast
    have "only_combine v v4"
      using only_combine_trans [OF \<open>only_combine v v2\<close> only_combine_trans [OF m(4) v4(3)]] .
    then show ?thesis using m(1) v4 by simp
  qed
  show ?thesis
  proof (cases r)
    case (Some c)
    then show ?thesis using put [OF st(1) st(3) [OF Some] st(2)] by (simp add: s Let_def)
  next
    case None
    obtain q v2 where ins: "InsertIpCombine v1 src dst i pr mb ttl loc = (q, v2)" by (metis surj_pair)
    note it = combos_insert [OF st(1) st(4) [OF None] ins]
    have v2: "only_combine v v2" using only_combine_trans st(2) it(2) by blast
    show ?thesis
    proof (cases q)
      case None
      then show ?thesis using it(1) v2 \<open>r = None\<close> by (simp add: s ins Let_def)
    next
      case (Some c)
      then show ?thesis using put [OF it(1) it(3) [OF Some] v2] \<open>r = None\<close> by (simp add: s ins Let_def)
    qed
  qed
qed

lemma offset_bound: "unat ((ucast ((a :: u8) AND 0x1f) * 256 + ucast (b :: u8)) * 8 :: u32) \<le> 65528"
proof -
  have "a AND 0x1f \<le> 0x1f" by (rule word_and_le1)
  then have a: "unat (ucast (a AND 0x1f) :: u32) \<le> 31" by (simp add: word_le_nat_alt)
  have b: "unat (ucast b :: u32) \<le> 255" using unat_byte [of b] by simp
  have m: "unat (ucast (a AND 0x1f) * 256 :: u32) = unat (ucast (a AND 0x1f) :: u32) * 256" using a by (subst unat_mult32) auto
  have s: "unat (ucast (a AND 0x1f) * 256 + ucast b :: u32) = unat (ucast (a AND 0x1f) :: u32) * 256 + unat (ucast b :: u32)"
    using a b m by (subst unat_add32) auto
  then have "unat ((ucast (a AND 0x1f) * 256 + ucast b) * 8 :: u32) = (unat (ucast (a AND 0x1f) :: u32) * 256 + unat (ucast b :: u32)) * 8"
    using a b by (subst unat_mult32) auto
  also have "\<dots> \<le> (31 * 256 + 255) * 8" using a b by (intro mult_le_mono1 add_mono) simp_all
  finally show ?thesis by simp
qed

text \<open>A packet as the parser gives it, of at most \<open>BUF_MAX\<close> bytes.\<close>

definition good_packet :: "PKT \<Rightarrow> bool" where
  "good_packet p \<longleftrightarrow> parsed (PacketData p) (length (PacketData p)) p \<and> length (PacketData p) + 255 \<le> BUF_MAX"

lemma VirtualIpReceived_survives:
  assumes "combos_ok v" and "good_packet p" and "TypeL3 p = L3_IPV4"
  shows "\<exists>v' x. VirtualIpReceived loc v p = Some (v', x) \<and> receives v v'"
proof -
  let ?m = "PacketData p"
  define ip where "ip = drop 14 ?m"
  define h where "h = unat (?m ! 14 AND 0x0f) * 4"
  have p: "L3_at p = Some 14" "20 \<le> h" "14 + h \<le> length ?m" "length ?m + 255 \<le> BUF_MAX"
    using assms(2,3) by (auto simp: good_packet_def parsed_def v4_parsed_def h_def Let_def)
  have l3: "PointerL3 p = ip" using p(1) by (simp add: PointerL3_def ip_def)
  have len: "length ip = length ?m - 14" by (simp add: ip_def)
  have hs: "unat (byte_of ip 0 AND 0x0f) * 4 = h"
    using p(2,3) by (simp add: byte_of_def ip_def h_def)
  define n where "n = unat (net16_of ip 2)"
  have "unat (net16_of ip 2) < 2 ^ 16" using unsigned_less [of "net16_of ip 2"] by simp
  then have n: "n < 65536" by (simp add: n_def)
  have "unat (PacketSize p) = length ?m" using p(4) by (simp add: PacketSize_def nowrap)
  moreover have "unat (of_nat (h + 14) :: u32) = h + 14" using p(3,4) by (simp add: nowrap del: of_nat_add)
  ultimately have "unat (PacketSize p - of_nat (h + 14)) = length ?m - (h + 14)"
    using p(3) by (subst unat_sub32) simp_all
  then have enough: "(uint (PacketSize p - of_nat (h + 14)) < int (n - h)) = (length ?m - (h + 14) < n - h)"
    unfolding uint_nat by simp
  define v1 where "v1 = ArpIpWasKnown v (SrcIP p) (MacAddressSrc p)"
  have v1s: "sends v v1" unfolding v1_def by (rule sends_ArpIpWasKnown)
  have v1: "sends v v1" "combos_ok v1" using v1s combos_sends [OF v1s] assms(1) by simp_all
  have stop: "receives v v1" using v1 by (auto simp: receives_def)
  note unf = VirtualIpReceived_def Let_def l3 hs n_def [symmetric] v1_def [symmetric] enough
  show ?thesis
  proof (cases "IpCheckChecksum host_le ip \<and> h < n \<and> n - h \<le> length ?m - (h + 14)")
    case False
    have "receives v v" using assms(1) by (auto simp: receives_def)
    then show ?thesis using False stop unfolding unf by (auto simp: linorder_not_le linorder_not_less)
  next
    case True
    then have fits: "h + (n - h) \<le> length ip" "0 < n - h" using p(3) len by linarith+
    have reads: "mem_bytes ip h (n - h) = Some (take (n - h) (drop h ip))" "mem_bytes ip 0 h = Some (take h ip)"
      using fits by (simp_all add: mem_bytes_def)
    have conds: "\<not> \<not> IpCheckChecksum host_le ip" "\<not> n \<le> h" "\<not> length ?m - (h + 14) < n - h" using True by linarith+
    define off where "off = (ucast (byte_of ip 6 AND 0x1f) * 256 + ucast (byte_of ip 7) :: u32)"
    have off: "unat (off * 8) + length (take (n - h) (drop h ip)) < two32"
      using offset_bound [of "byte_of ip 6" "byte_of ip 7"] n by (simp add: off_def)
    have "length (take (n - h) (drop h ip)) = n - h" using fits(1) by simp
    then have ne: "take (n - h) (drop h ip) \<noteq> []" using fits(2) by (metis length_0_conv less_irrefl)
    note frag = fragment_survives [OF v1(2) ne off, of "SrcIP p" "DstIP p" "net16_of ip 4" "ip_protocol p"]
    have "\<exists>v' x. VirtualIpReceived loc v p = Some (v', x) \<and> combos_ok v' \<and> only_combine v1 v'"
    proof (cases "off = 0 \<and> (drop_bit 5 (byte_of ip 6) AND 0x07) AND 0x01 = 0")
      case whole: True
      then show ?thesis using v1(2) whole
        unfolding unf if_not_P [OF conds(1)] if_not_P [OF conds(2)] if_not_P [OF conds(3)] reads Option.bind_lunit off_def [symmetric]
          if_P [OF whole] by auto
    next
      case part: False
      show ?thesis using frag
        unfolding unf if_not_P [OF conds(1)] if_not_P [OF conds(2)] if_not_P [OF conds(3)] reads Option.bind_lunit off_def [symmetric]
          if_not_P [OF part] Let_def by blast
    qed
    then show ?thesis using v1(1) by (auto simp: receives_def)
  qed
qed

end
