(* ===== verification/VirtualReply.thy ===== *)
theory VirtualReply
  imports VirtualTotal
begin

text \<open>
  The answers of the DHCP server of SecureNAT (src/src/Cedar/Virtual.c, with what builds options in
  src/src/Mayaqua/TcpIp.c): every answer can be built and sent, so every message of a client is
  handled, and it leaves the leases of other clients as they are. Then the whole virtual host: it
  returns whatever frames it gets.
\<close>

section \<open>Options that can be built\<close>

definition sane_route :: "DHCP_CLASSLESS_ROUTE \<Rightarrow> bool" where
  "sane_route r \<longleftrightarrow> (Route_Exists r \<and> Route_SubnetMaskLen r \<le> 32 \<longrightarrow> length (addr (Route_Network r)) = 4)"

definition sane_table :: "DHCP_CLASSLESS_ROUTE_TABLE \<Rightarrow> bool" where
  "sane_table t \<longleftrightarrow> length (Entries t) = MAX_DHCP_CLASSLESS_ROUTE_ENTRIES \<and> list_all sane_route (Entries t)"

lemma write_route_total:
  assumes "writing b bs" and "sane_route r" and "length bs + 9 \<le> BUF_MAX"
  shows "\<exists>b' ext. write_route b r = Some b' \<and> writing b' (bs @ ext) \<and> length ext \<le> 9"
proof (cases "Route_Exists r \<and> Route_SubnetMaskLen r \<le> 32")
  case False
  then show ?thesis using assms(1) by (auto simp: write_route_def intro!: exI [of _ "[]"])
next
  case True
  note k = data_len_unat [OF conjunct2 [OF True]]
  have l4: "length (addr (Route_Network r)) = 4" using assms(2) True by (simp add: sane_route_def)
  define net where "net = take (net_octets r) (addr (Route_Network r))"
  define gw where "gw = mem32 host_le (IPToUINT host_le (Route_Gateway r))"
  have ln: "length net = net_octets r" "length gw = 4" using k l4 by (simp_all add: net_def gw_def)
  obtain b1 where b1: "WriteBuf b [Some (ucast (Route_SubnetMaskLen r))] 1 = Some b1" "writing b1 (bs @ [ucast (Route_SubnetMaskLen r)])"
    using WriteBuf_append_exact [OF assms(1), of "[ucast (Route_SubnetMaskLen r)]" 1] assms(3) by auto
  obtain b2 where b2: "WriteBuf b1 (map Some net) ((Route_SubnetMaskLen r + 7) div 8) = Some b2"
    "writing b2 ((bs @ [ucast (Route_SubnetMaskLen r)]) @ net)"
    using WriteBuf_append_exact [OF b1(2), of net] assms(3) k ln by auto
  obtain b3 where b3: "WriteBuf b2 (map Some gw) 4 = Some b3" "writing b3 (((bs @ [ucast (Route_SubnetMaskLen r)]) @ net) @ gw)"
    using WriteBuf_append_exact [OF b2(2), of gw 4] assms(3) k ln by auto
  have "mem_bytes (addr (Route_Network r)) 0 (unat ((Route_SubnetMaskLen r + 7) div 8)) = Some net"
    using k l4 by (simp add: mem_bytes_def net_def)
  then have "write_route b r = Some b3"
    using True b1(1) b2(1) b3(1) by (simp add: write_route_def Let_def gw_def [symmetric])
  moreover have "length ([ucast (Route_SubnetMaskLen r)] @ net @ gw) \<le> 9" using ln k by simp
  ultimately show ?thesis using b3(2) by (intro exI [of _ b3] exI [of _ "[ucast (Route_SubnetMaskLen r)] @ net @ gw"]) simp
qed

lemma write_routes_total:
  "writing b bs \<Longrightarrow> list_all sane_route rs \<Longrightarrow> length bs + 9 * length rs \<le> BUF_MAX \<Longrightarrow>
   \<exists>b' ext. write_list write_route b rs = Some b' \<and> writing b' (bs @ ext) \<and> length ext \<le> 9 * length rs"
proof (induction rs arbitrary: b bs)
  case (Cons r rs)
  obtain b1 e1 where b1: "write_route b r = Some b1" "writing b1 (bs @ e1)" "length e1 \<le> 9"
    using write_route_total [OF Cons(2), of r] Cons(3,4) by auto
  obtain b2 e2 where b2: "write_list write_route b1 rs = Some b2" "writing b2 ((bs @ e1) @ e2)" "length e2 \<le> 9 * length rs"
    using Cons(1) [OF b1(2)] Cons(3,4) b1(3) by auto
  then show ?case using b1 by (intro exI [of _ b2] exI [of _ "e1 @ e2"]) simp
qed (auto intro: exI [of _ "[]"])

lemma routes_data_total:
  assumes "sane_table t"
  shows "\<exists>r. DhcpBuildClasslessRouteData t = Some r \<and> (\<forall>b. r = Some b \<longrightarrow> buf_wf b \<and> unat (Size b) \<le> 576)"
proof (cases "NumExistingRoutes t = 0")
  case False
  obtain b where b: "NewBuf = Some b" "writing b []" using NewBuf_writing by blast
  note t = assms [unfolded sane_table_def]
  have "length ([] :: u8 list) + 9 * length (Entries t) \<le> BUF_MAX" using t by simp
  then obtain b1 ext where b1: "write_list write_route b (Entries t) = Some b1" "writing b1 ([] @ ext)" "length ext \<le> 9 * length (Entries t)"
    using write_routes_total [OF b(2) conjunct2 [OF t]] by blast
  have wf: "buf_wf b1" "length (contents b1) \<le> 576" using b1(2,3) t by (simp_all add: writing_def)
  then have "buf_wf (SeekBufToBegin b1) \<and> unat (Size (SeekBufToBegin b1)) \<le> 576"
    using SeekBufToBegin_reading [OF b1(2)] length_contents [OF wf(1)] wf(2)
    by (simp add: reading_def SeekBufToBegin_def SeekBuf_def Let_def)
  moreover have "DhcpBuildClasslessRouteData t = Some (Some (SeekBufToBegin b1))"
    using False t by (simp add: DhcpBuildClasslessRouteData_def b(1) b1(1))
  ultimately show ?thesis by simp
qed (simp add: DhcpBuildClasslessRouteData_def)

text \<open>What \<open>BuildDhcpOption\<close> adds before the routes.\<close>

definition plain_options :: "DHCP_OPTION_LIST \<Rightarrow> DHCP_OPTION list" where
  "plain_options opt =
     (let dns = (if DnsServer opt \<noteq> 0 then mem32 host_le (DnsServer opt) else []) @
                (if DnsServer2 opt \<noteq> 0 then mem32 host_le (DnsServer2 opt) else [])
      in [opt_bytes DHCP_ID_MESSAGE_TYPE [ucast (Opcode opt)], opt_uint DHCP_ID_SERVER_ADDRESS (ServerAddress opt)] @
     (if LeaseTime opt \<noteq> 0 then [opt_uint DHCP_ID_LEASE_TIME (LeaseTime opt)] else []) @
     (if DomainName opt \<noteq> [] \<and> DnsServer opt \<noteq> 0 then [opt_bytes DHCP_ID_DOMAIN_NAME (DomainName opt)] else []) @
     (if DhcpSubnetMask opt \<noteq> 0 then [opt_uint DHCP_ID_SUBNET_MASK (DhcpSubnetMask opt)] else []) @
     (if Gateway opt \<noteq> 0 then [opt_uint DHCP_ID_GATEWAY_ADDR (Gateway opt)] else []) @
     (if length dns \<ge> 1 then [opt_bytes DHCP_ID_DNS_ADDR dns] else []))"

lemma BuildDhcpOption_plain:
  assumes "length (DomainName opt) \<le> 255"
  shows "BuildDhcpOption opt =
    (let os = plain_options opt
     in if NumExistingRoutes (ClasslessRoute opt) \<ge> 1
       then do {
         b \<leftarrow> DhcpBuildClasslessRouteData (ClasslessRoute opt);
         case b of
           None \<Rightarrow> Some os
         | Some b \<Rightarrow> do {
             d \<leftarrow> cells_value (take (unat (Size b)) (Buf b));
             os \<leftarrow> add_option (NewDhcpOption DHCP_ID_CLASSLESS_ROUTE d (Size b)) os;
             add_option (NewDhcpOption DHCP_ID_MS_CLASSLESS_ROUTE d (Size b)) os
           }
       }
       else Some os)"
proof -
  have name: "(StrLen (DomainName opt) \<noteq> 0) = (DomainName opt \<noteq> [])" "unat (StrLen (DomainName opt)) = length (DomainName opt)"
    using assms by (auto simp: StrLen_def nowrap word_unat_eq_iff)
  define dns where "dns = (if DnsServer opt \<noteq> 0 then mem32 host_le (DnsServer opt) else []) @
                (if DnsServer2 opt \<noteq> 0 then mem32 host_le (DnsServer2 opt) else [])"
  have "length dns \<le> 8" by (simp add: dns_def)
  then have dns: "unat (of_nat (length dns) :: u32) = length dns" by (simp add: nowrap)
  have opts: "NewDhcpOption DHCP_ID_MESSAGE_TYPE [ucast (Opcode opt)] 1 = Some (opt_bytes DHCP_ID_MESSAGE_TYPE [ucast (Opcode opt)])"
    "NewDhcpOption DHCP_ID_DOMAIN_NAME (DomainName opt) (StrLen (DomainName opt)) = Some (opt_bytes DHCP_ID_DOMAIN_NAME (DomainName opt))"
    "NewDhcpOption DHCP_ID_DNS_ADDR dns (of_nat (length dns)) = Some (opt_bytes DHCP_ID_DNS_ADDR dns)"
    by (rule bytes_option_eq, simp) (rule bytes_option_eq, rule name(2), rule bytes_option_eq, rule dns)
  show ?thesis
    unfolding BuildDhcpOption_def plain_options_def Let_def dns_def [symmetric] opts uint_option_eq name(1) add_Some maybe_add
    by (simp del: One_nat_def split del: if_split cong: if_cong option.case_cong)
qed

lemma plain_options_ok:
  assumes "length (DomainName opt) \<le> 255"
  shows "list_all option_ok (plain_options opt)" and "sum_list (map (\<lambda>a. length (Opt_Data a)) (plain_options opt)) \<le> 300"
    and "length (plain_options opt) \<le> 8"
proof -
  have u: "option_ok (opt_uint i v)" for i v by (simp add: option_ok_def)
  have b: "option_ok (opt_bytes i d)" if "length d \<le> 1000" for i d
    using that by (simp add: option_ok_def nowrap)
  show "list_all option_ok (plain_options opt)"
    using assms by (auto simp: plain_options_def Let_def intro!: u b)
  show "sum_list (map (\<lambda>a. length (Opt_Data a)) (plain_options opt)) \<le> 300" "length (plain_options opt) \<le> 8"
    using assms by (simp_all add: plain_options_def Let_def)
qed

text \<open>Every list of options has its message.\<close>

lemma options_buf_total:
  assumes "length (DomainName opt) \<le> 255" and "sane_table (ClasslessRoute opt)"
  shows "\<exists>os b d. BuildDhcpOption opt = Some os \<and> BuildDhcpOptionsBuf os = Some b \<and>
    cells_value (take (unat (Size b)) (Buf b)) = Some d"
proof -
  note pl = plain_options_ok [OF assms(1)]
  have finish: "\<exists>b d. BuildDhcpOptionsBuf os = Some b \<and> cells_value (take (unat (Size b)) (Buf b)) = Some d"
    if ok: "list_all option_ok os" and n: "sum_list (map (\<lambda>a. length (Opt_Data a)) os) \<le> 3000" "length os \<le> 10" for os
  proof -
    have "length (concat (map enc_dhcp os)) < BUF_MAX" using options_length [of os] n by linarith
    then obtain b where b: "BuildDhcpOptionsBuf os = Some b" "writing b (concat (map enc_dhcp os) @ [0xff])"
      using BuildDhcpOptionsBuf_writing [OF ok] by blast
    have "buf_wf b" using b(2) by (simp add: writing_def)
    then show ?thesis using b(1) buf_wf_cells by simp
  qed
  obtain r where r: "DhcpBuildClasslessRouteData (ClasslessRoute opt) = Some r"
    "\<forall>b. r = Some b \<longrightarrow> buf_wf b \<and> unat (Size b) \<le> 576" using routes_data_total [OF assms(2)] by blast
  show ?thesis
  proof (cases "NumExistingRoutes (ClasslessRoute opt) \<ge> 1 \<and> r \<noteq> None")
    case False
    then have "BuildDhcpOption opt = Some (plain_options opt)"
      using BuildDhcpOption_plain [OF assms(1)] r(1) by (auto simp: Let_def)
    then show ?thesis using finish [of "plain_options opt"] pl by auto
  next
    case True
    then obtain b where b: "r = Some b" "buf_wf b" "unat (Size b) \<le> 576" using r(2) by auto
    define x y where "x = opt_bytes DHCP_ID_CLASSLESS_ROUTE (contents b)" and "y = opt_bytes DHCP_ID_MS_CLASSLESS_ROUTE (contents b)"
    have len: "length (contents b) = unat (Size b)" using length_contents [OF b(2)] .
    have new: "NewDhcpOption i (contents b) (Size b) = Some (opt_bytes i (contents b))" for i
      using len by (intro bytes_option_eq) simp
    have "BuildDhcpOption opt = Some (plain_options opt @ [x, y])"
      using BuildDhcpOption_plain [OF assms(1)] r(1) b(1) True buf_wf_cells [OF b(2)] new by (simp add: Let_def add_Some x_def y_def)
    moreover have "option_ok x" "option_ok y" using len b(3) by (simp_all add: x_def y_def option_ok_def nowrap)
    ultimately show ?thesis using finish [of "plain_options opt @ [x, y]"] pl len b(3) by (auto simp: x_def y_def)
  qed
qed

section \<open>The server\<close>

definition opts_ok :: "VH \<Rightarrow> bool" where
  "opts_ok v \<longleftrightarrow> mss_ok v \<and> length (V_DhcpDomain v) \<le> 255 \<and> sane_table (V_PushRoute v)"

lemma sane_no_routes: "sane_table no_routes"
  by (simp add: sane_table_def no_routes_def sane_route_def no_route_def list_all_iff)

lemma domain_copied: "length d \<le> 255 \<Longrightarrow> length (fst (StrCpy 256 d)) \<le> 255"
  by (simp add: StrCpy_def Let_def)

lemma answer_routes_sane:
  assumes "sane_table (V_PushRoute v)"
  shows "sane_table (answer_routes v p ip)"
proof -
  have "length (addr (IPAnd4 host_le a b)) = 4" for a b
    by (simp add: IPAnd4_def UINTToIP_def ZeroIP_def)
  then have "sane_table (t\<lparr>Entries := (Entries t)[n := r], NumExistingRoutes := k\<rparr>)"
    if "sane_table t" "Route_Network r = IPAnd4 host_le a b" for t n r k a b
    using that set_update_subset_insert [of "Entries t" n r]
    by (auto simp: sane_table_def list_all_iff sane_route_def)
  then show ?thesis using assms by (auto simp: answer_routes_def Let_def)
qed

lemma dhcp_reply_total:
  assumes "mss_ok v" and "length (DomainName ret) \<le> 255" and "sane_table (ClasslessRoute ret)"
  shows "does_send v (dhcp_reply v p ip ret)"
proof -
  obtain os b d where "BuildDhcpOption ret = Some os" "BuildDhcpOptionsBuf os = Some b"
    "cells_value (take (unat (Size b)) (Buf b)) = Some d" using options_buf_total [OF assms(2,3)] by blast
  then show ?thesis using SendUdp_total [OF assms(1)] by (simp add: dhcp_reply_def VirtualDhcpSend_def Let_def)
qed

lemma answer_total:
  assumes "opts_ok v"
  shows "does_send v (dhcp_reply v p ip (answer_options np v p opc ip2))" and "does_send v (dhcp_reply v p ip (refusal_options v))"
proof -
  note o = assms [unfolded opts_ok_def]
  show "does_send v (dhcp_reply v p ip (answer_options np v p opc ip2))"
    using o answer_routes_sane [of v p ip2] sane_no_routes domain_copied
    by (intro dhcp_reply_total) (simp_all add: answer_options_def)
  show "does_send v (dhcp_reply v p ip (refusal_options v))"
    using o sane_no_routes domain_copied by (intro dhcp_reply_total) (simp_all add: refusal_options_def no_options_def)
qed

text \<open>A step that sends and changes the leases, but only those of one client.\<close>

abbreviation others_leases :: "VH \<Rightarrow> u8 list \<Rightarrow> DHCP_LEASE multiset" where
  "others_leases v mac \<equiv> filter_mset (\<lambda>d. L_MacAddress d \<noteq> mac) (mset (items (V_DhcpLeaseList v)))"

definition serves :: "u8 list \<Rightarrow> VH \<Rightarrow> VH \<Rightarrow> bool" where
  "serves mac v v' \<longleftrightarrow> leases_ok v' \<and> others_leases v' mac = others_leases v mac \<and>
     (core v')\<lparr>V_DhcpLeaseList := lst_new, V_DhcpId := 0\<rparr> = (core v)\<lparr>V_DhcpLeaseList := lst_new, V_DhcpId := 0\<rparr> \<and>
     ([] \<notin> set (V_SendQueue v) \<longrightarrow> [] \<notin> set (V_SendQueue v'))"

lemma sends_core: "sends v v' \<Longrightarrow> V_DhcpLeaseList v' = V_DhcpLeaseList v \<and> V_IpMss v' = V_IpMss v \<and> V_DhcpDomain v' = V_DhcpDomain v \<and>
    V_PushRoute v' = V_PushRoute v"
proof -
  assume "sends v v'"
  then have c: "core v' = core v" by (simp add: sends_def)
  show ?thesis
    using arg_cong [OF c, of V_DhcpLeaseList] arg_cong [OF c, of V_IpMss] arg_cong [OF c, of V_DhcpDomain] arg_cong [OF c, of V_PushRoute]
    by simp
qed

lemma sends_leases: "sends v v' \<Longrightarrow> leases_ok v' = leases_ok v"
  using sends_core [of v v'] by (simp add: leases_ok_def leased_def)

lemma serves_sends: "serves mac v v1 \<Longrightarrow> sends v1 v2 \<Longrightarrow> serves mac v v2"
  using sends_core [of v1 v2] sends_leases [of v1 v2] by (simp add: serves_def sends_def)

lemma serves_refl: "leases_ok v \<Longrightarrow> serves mac v v"
  by (simp add: serves_def)

lemma resorted_serves:
  assumes "resorted v v'" and "leases_ok v"
  shows "serves mac v v'" and "opts_ok v' = opts_ok v"
proof -
  have "V_SendQueue v' = V_SendQueue v \<and> (core v')\<lparr>V_DhcpLeaseList := lst_new, V_DhcpId := 0\<rparr> = (core v)\<lparr>V_DhcpLeaseList := lst_new, V_DhcpId := 0\<rparr>"
    using assms(1) by (auto simp: resorted_def core_def)
  then show "serves mac v v'"
    using resorted_same(4) [OF assms] resorted_others [OF assms(1)] by (simp add: serves_def)
  show "opts_ok v' = opts_ok v" using assms(1) by (auto simp: resorted_def opts_ok_def mss_ok_def)
qed

lemma grant_serves:
  assumes "leases_ok v" and "offerable v mac ip" and "ip \<noteq> 0"
  shows "serves mac v (grant_lease tick v mac ip h)" and "opts_ok (grant_lease tick v mac ip h) = opts_ok v"
proof -
  have "V_SendQueue (grant_lease tick v mac ip h) = V_SendQueue v \<and>
    (core (grant_lease tick v mac ip h))\<lparr>V_DhcpLeaseList := lst_new, V_DhcpId := 0\<rparr> = (core v)\<lparr>V_DhcpLeaseList := lst_new, V_DhcpId := 0\<rparr>"
    by (simp add: grant_lease_def core_def Let_def)
  then show "serves mac v (grant_lease tick v mac ip h)"
    using grant_lease_spec [OF assms refl, of tick h] by (simp add: serves_def)
  show "opts_ok (grant_lease tick v mac ip h) = opts_ok v" by (simp add: grant_lease_def opts_ok_def mss_ok_def Let_def)
qed

lemma serves_trans: "serves mac v v1 \<Longrightarrow> serves mac v1 v2 \<Longrightarrow> serves mac v v2"
  by (simp add: serves_def)

lemma VirtualDhcpServer_serves:
  assumes "leases_ok v" and "opts_ok v" and "good_packet p"
  shows "\<exists>v'. VirtualDhcpServer tick md5 np v p = Some v' \<and> serves (MacAddressSrc p) v v'"
proof (cases "find_cookie (drop 44 (PointerL7 p))")
  case None
  then show ?thesis using serves_refl [OF assms(1)] by (simp add: VirtualDhcpServer_def)
next
  case (Some data)
  let ?mac = "MacAddressSrc p"
  have "length (PointerL7 p) \<le> length (PacketData p)" by (simp add: PointerL7_def split: option.split)
  then have len: "length data + 255 \<le> BUF_MAX"
    using find_cookie_length [OF Some] assms(3) unfolding good_packet_def length_drop by linarith
  then have "unat (of_nat (length data) :: u32) = length data" by (simp add: nowrap)
  then obtain opt where opt: "ParseDhcpOptionList data (of_nat (length data)) = Some opt"
    using ParseDhcpOptionList_total [of "of_nat (length data)" data] len by auto
  define req where "req = (if RequestedIp opt = 0 then SrcIP p else RequestedIp opt)"
  obtain ip v1 where ip: "(if Opcode opt = DHCP_DISCOVER then ServeDhcpDiscover md5 v ?mac req
               else if Opcode opt = DHCP_REQUEST then ServeDhcpRequest md5 v ?mac req
               else Some (0, v)) = Some (ip, v1)" "resorted v v1" "Opcode opt = DHCP_REQUEST \<and> ip \<noteq> 0 \<longrightarrow> offerable v ?mac ip"
    "Opcode opt \<noteq> DHCP_DISCOVER \<and> Opcode opt \<noteq> DHCP_REQUEST \<longrightarrow> ip = 0"
  proof -
    obtain i1 w1 where d: "ServeDhcpDiscover md5 v ?mac req = Some (i1, w1)" "resorted v w1"
      using ServeDhcpDiscover_spec [OF assms(1)] by blast
    obtain i2 w2 where r: "ServeDhcpRequest md5 v ?mac req = Some (i2, w2)" "resorted v w2" "i2 \<noteq> 0 \<longrightarrow> offerable v ?mac i2"
      using ServeDhcpRequest_spec [OF assms(1)] by blast
    show ?thesis
      using that [of i1 w1] that [of i2 w2] that [of 0 v] d r resorted_refl [OF assms(1)]
      by (cases "Opcode opt = DHCP_DISCOVER"; cases "Opcode opt = DHCP_REQUEST") simp_all
  qed
  note v1 = resorted_serves [OF ip(2) assms(1)] resorted_same(4) [OF ip(2) assms(1)]
  define v2 where "v2 = (if Opcode opt = DHCP_REQUEST then grant_lease tick v1 ?mac ip (Hostname opt) else v1)"
  have v2: "serves ?mac v v2 \<and> opts_ok v2" if "ip \<noteq> 0 \<or> Opcode opt = DHCP_INFORM"
  proof (cases "Opcode opt = DHCP_REQUEST")
    case True
    then have "ip \<noteq> 0" "offerable v1 ?mac ip" using that ip(3) resorted_offerable [OF ip(2)] by auto
    then show ?thesis
      using grant_serves [OF v1(3)] serves_trans [OF v1(1)] v1(2) assms(2) True by (simp add: v2_def)
  next
    case False
    then show ?thesis using v1 assms(2) by (simp add: v2_def)
  qed
  have answer: "\<exists>v'. dhcp_reply v2 p ip (answer_options np v2 p (Opcode opt) ip) = Some v' \<and> serves ?mac v v'"
    if "ip \<noteq> 0 \<or> Opcode opt = DHCP_INFORM"
    using answer_total(1) [of v2 p ip np "Opcode opt" ip] v2 [OF that] serves_sends by (auto simp: does_send_def)
  have refuse: "\<exists>v'. dhcp_reply v1 p ip (refusal_options v1) = Some v' \<and> serves ?mac v v'"
    using answer_total(2) [of v1 p ip] v1 assms(2) by (auto simp: does_send_def intro: serves_sends)
  show ?thesis
    unfolding VirtualDhcpServer_def Some option.case opt Option.bind_lunit Let_def req_def [symmetric] ip(1) prod.case v2_def [symmetric]
    using answer refuse serves_refl [OF assms(1), of ?mac] by auto
qed

section \<open>The whole host\<close>

text \<open>What every operation of the host keeps.\<close>

definition host_ok :: "VH \<Rightarrow> bool" where
  "host_ok v \<longleftrightarrow> combos_ok v \<and> leases_ok v \<and> opts_ok v \<and> [] \<notin> set (V_SendQueue v)"

lemma host_ok_sends:
  assumes "sends v v'" and "host_ok v"
  shows "host_ok v'"
  using assms(2) combos_sends [OF assms(1)] sends_leases [OF assms(1)] sends_core [OF assms(1)] assms(1)
  by (simp add: host_ok_def opts_ok_def mss_ok_def sends_def)

lemma host_ok_receives:
  assumes "receives v v'" and "host_ok v"
  shows "host_ok v'"
proof -
  obtain v1 where v1: "sends v v1" "only_combine v1 v'" and c: "combos_ok v'" using assms(1) by (auto simp: receives_def)
  have h: "host_ok v1" using host_ok_sends [OF v1(1) assms(2)] .
  note o = v1(2) [unfolded only_combine_def]
  have "V_DhcpLeaseList v' = V_DhcpLeaseList v1" "V_IpMss v' = V_IpMss v1" "V_DhcpDomain v' = V_DhcpDomain v1"
    "V_PushRoute v' = V_PushRoute v1" "V_SendQueue v' = V_SendQueue v1"
    using arg_cong [OF o, of V_DhcpLeaseList] arg_cong [OF o, of V_IpMss] arg_cong [OF o, of V_DhcpDomain]
      arg_cong [OF o, of V_PushRoute] arg_cong [OF o, of V_SendQueue] by simp_all
  then show ?thesis using h c by (simp add: host_ok_def leases_ok_def leased_def opts_ok_def mss_ok_def)
qed

lemma host_ok_serves:
  assumes "serves mac v v'" and "host_ok v"
  shows "host_ok v'"
proof -
  note s = assms(1) [unfolded serves_def]
  have o: "(core v')\<lparr>V_DhcpLeaseList := lst_new, V_DhcpId := 0\<rparr> = (core v)\<lparr>V_DhcpLeaseList := lst_new, V_DhcpId := 0\<rparr>" using s by blast
  have "V_IpCombine v' = V_IpCombine v" "V_CurrentIpQuota v' = V_CurrentIpQuota v" "V_IpMss v' = V_IpMss v"
    "V_DhcpDomain v' = V_DhcpDomain v" "V_PushRoute v' = V_PushRoute v"
    using arg_cong [OF o, of V_IpCombine] arg_cong [OF o, of V_CurrentIpQuota] arg_cong [OF o, of V_IpMss]
      arg_cong [OF o, of V_DhcpDomain] arg_cong [OF o, of V_PushRoute] by simp_all
  then show ?thesis using assms(2) s by (simp add: host_ok_def combos_ok_def opts_ok_def mss_ok_def)
qed

lemma VirtualLayer2_survives:
  assumes "host_ok v" and "good_packet p"
  shows "\<exists>v' x. VirtualLayer2 e v p = Some (v', x) \<and> host_ok v'"
proof -
  note h = assms(1) [unfolded host_ok_def]
  obtain v1 where v1: "VirtualDhcpServer (Tick e) (v_md5 e) (no_push e) v p = Some v1" "host_ok v1"
    using VirtualDhcpServer_serves [OF _ _ assms(2)] h host_ok_serves [OF _ assms(1)] by blast
  have v2: "host_ok (VirtualArpReceived v p)" using host_ok_sends [OF sends_VirtualArpReceived assms(1)] .
  have v3: "\<exists>v' x. VirtualIpReceived (v_local e) v p = Some (v', x) \<and> host_ok v'" if "TypeL3 p = L3_IPV4"
    using VirtualIpReceived_survives [OF _ assms(2) that] h host_ok_receives [OF _ assms(1)] by blast
  show ?thesis using v1 v2 v3 assms(1) by (simp add: VirtualLayer2_def)
qed

lemma VirtualPutPacket_survives:
  assumes "host_ok v" and "\<forall>d. data = Some d \<longrightarrow> length d + 255 \<le> BUF_MAX"
  shows "\<exists>v' x. VirtualPutPacket e v data = Some (v', x) \<and> host_ok v'"
proof (cases data)
  case None
  have "host_ok (v\<lparr>V_flag1 := False\<rparr>)"
    using assms(1) by (simp add: host_ok_def combos_ok_def leases_ok_def leased_def opts_ok_def mss_ok_def)
  then show ?thesis using None by (simp add: VirtualPutPacket_def)
next
  case (Some d)
  have n: "length d + 255 \<le> BUF_MAX" using assms(2) Some by simp
  then have u: "unat (of_nat (length d) :: u32) = length d" by (simp add: nowrap)
  obtain r where r: "ParsePacket host_le d (of_nat (length d)) = Some r"
    "\<forall>p. r = Some p \<longrightarrow> length (PacketData p) \<le> length d \<and> parsed (PacketData p) (length (PacketData p)) p"
    using ParsePacketEx4_spec [of "of_nat (length d)" d host_le False 0 True False] n
    by (auto simp: u ParsePacket_def ParsePacketEx_def ParsePacketEx2_def ParsePacketEx3_def)
  define v1 where "v1 = (if V_flag1 v then v else v\<lparr>V_flag1 := True, V_Now := Tick e\<rparr>)"
  have v1: "host_ok v1"
    using assms(1) by (simp add: v1_def host_ok_def combos_ok_def leases_ok_def leased_def opts_ok_def mss_ok_def)
  show ?thesis
  proof (cases r)
    case None
    then show ?thesis using r(1) v1 Some by (simp add: VirtualPutPacket_def v1_def [symmetric] Let_def)
  next
    case (Some p)
    then have "good_packet p" using r(2) n by (auto simp: good_packet_def)
    from VirtualLayer2_survives [OF v1 this] show ?thesis
      using r(1) Some \<open>data = Some d\<close> by (simp add: VirtualPutPacket_def v1_def [symmetric] Let_def)
  qed
qed

text \<open>The poll of the leases removes those that have expired, and no other.\<close>

lemma expire_leases_items:
  assumes "distinct (items l)"
  shows "items (expire_leases now l) = filter (\<lambda>d. \<not> L_ExpireTime d < now) (items l) \<and>
    is_sorted (expire_leases now l) = is_sorted l"
  using assms
proof (induction now l rule: expire_leases.induct)
  case (1 now l)
  show ?case
  proof (cases "find (\<lambda>d. L_ExpireTime d < now) (items l)")
    case None
    then have "filter (\<lambda>d. \<not> L_ExpireTime d < now) (items l) = items l" by (auto simp: find_None_iff filter_id_conv)
    then show ?thesis using None by (subst expire_leases.simps, subst expire_leases.simps) simp
  next
    case (Some d)
    then have d: "L_ExpireTime d < now" by (auto simp: find_Some_iff)
    define l' where "l' = snd (lst_delete l d)"
    have l': "items l' = remove1 d (items l)" "is_sorted l' = is_sorted l" by (simp_all add: l'_def lst_delete_def)
    have "filter (\<lambda>d. \<not> L_ExpireTime d < now) (remove1 d (items l)) = filter (\<lambda>d. \<not> L_ExpireTime d < now) (items l)"
      using d 1(2) by (simp add: distinct_remove1_removeAll removeAll_filter_not_eq) (auto intro: filter_cong)
    moreover have "expire_leases now l = expire_leases now l'" by (subst expire_leases.simps) (simp add: Some l'_def)
    ultimately show ?thesis using 1(1) [OF Some] 1(2) l' by (simp add: l'_def [symmetric])
  qed
qed

lemma PollingDhcpServer_ok:
  assumes "host_ok v"
  shows "host_ok (PollingDhcpServer v)"
proof -
  let ?l = "V_DhcpLeaseList v"
  have ok: "leases_ok v" using assms by (simp add: host_ok_def)
  note lk = ok [unfolded leases_ok_def]
  have dis: "distinct (items ?l)" using lk by (simp add: distinct_map)
  note e = expire_leases_items [OF dis, of "V_Now v"]
  have "lst_ok CompareDhcpLeaseList (expire_leases (V_Now v) ?l)"
    using lk e unfolding lst_ok_def lease_order.sorted_cmp_keys by (auto intro: sorted_filter)
  moreover have "distinct (map L_IpAddress (items (expire_leases (V_Now v) ?l)))"
    using lk e by (simp add: distinct_map_filter)
  ultimately have "leases_ok (v\<lparr>V_LastDhcpPolling := V_Now v, V_DhcpLeaseList := expire_leases (V_Now v) ?l\<rparr>)"
    using lk e by (auto simp: leases_ok_def leased_def)
  then show ?thesis using assms by (simp add: PollingDhcpServer_def host_ok_def combos_ok_def opts_ok_def mss_ok_def)
qed

lemma drop_combines_ok:
  "host_ok v \<Longrightarrow> distinct cs \<Longrightarrow> set cs \<subseteq> set (items (V_IpCombine v)) \<Longrightarrow> host_ok (fold (\<lambda>c v. drop_combine v c) cs v)"
proof (induction cs arbitrary: v)
  case (Cons c cs)
  have ok: "combos_ok v" and c: "c \<in> set (items (V_IpCombine v))" using Cons(2,4) by (simp_all add: host_ok_def)
  note d = combos_drop [OF ok c]
  have "distinct (items (V_IpCombine v))" using ok by (simp add: combos_ok_def combining.tbl_ok_def distinct_map)
  then have "set cs \<subseteq> set (items (V_IpCombine (drop_combine v c)))" using d(3) Cons(3,4) by auto
  moreover have "host_ok (drop_combine v c)"
    using host_ok_receives [of v "drop_combine v c"] Cons(2) d(1,2) unfolding receives_def by blast
  ultimately show ?case using Cons by simp
qed simp

lemma PollingIpCombine_ok:
  assumes "host_ok v"
  shows "host_ok (PollingIpCombine v)"
proof -
  have "distinct (items (V_IpCombine v))" using assms by (simp add: host_ok_def combos_ok_def combining.tbl_ok_def distinct_map)
  then have "host_ok (fold (\<lambda>c v. drop_combine v c) (filter (\<lambda>c. C_Expire c < V_Now v) (items (V_IpCombine v))) v)"
    by (intro drop_combines_ok [OF assms]) auto
  then show ?thesis by (simp add: PollingIpCombine_def drop_combine_def)
qed

lemma VirtualPolling_survives:
  assumes "host_ok v"
  shows "\<exists>v'. VirtualPolling tick v = Some v' \<and> host_ok v'"
proof -
  define v1 where "v1 = PollingIpWaitTable (PollingArpWaitTable (PollingArpTable (PollingDhcpServer v)))"
  have "host_ok v1" unfolding v1_def
    using host_ok_sends [OF sends_PollingArp(3)] host_ok_sends [OF sends_PollingArp(2)] host_ok_sends [OF sends_PollingArp(1)]
      PollingDhcpServer_ok [OF assms] by blast
  then have v2: "host_ok (PollingIpCombine v1)" by (rule PollingIpCombine_ok)
  then have "mss_ok (PollingIpCombine v1)" by (simp add: host_ok_def opts_ok_def)
  from PollingBeacon_total [OF this, of tick] obtain v' where "PollingBeacon tick (PollingIpCombine v1) = Some v'" "sends (PollingIpCombine v1) v'"
    by (auto simp: does_send_def)
  then show ?thesis using host_ok_sends v2 by (auto simp: VirtualPolling_def v1_def)
qed

lemma VirtualGetNextPacket_survives:
  assumes "host_ok v"
  shows "\<exists>m v'. VirtualGetNextPacket tick v = Some (m, v') \<and> host_ok v' \<and> m \<noteq> Some []"
proof -
  have queued: "\<exists>b v'. VirtualGetNextPacket tick v = Some (Some b, v') \<and> host_ok v' \<and> b \<noteq> []"
    if "host_ok v" "V_SendQueue v \<noteq> []" for v
  proof -
    obtain b bs where q: "V_SendQueue v = b # bs" using \<open>V_SendQueue v \<noteq> []\<close> by (cases "V_SendQueue v") auto
    have "b \<noteq> []" using \<open>host_ok v\<close> q by (auto simp: host_ok_def)
    moreover have "host_ok (v\<lparr>V_SendQueue := bs\<rparr>)"
      using \<open>host_ok v\<close> q by (simp add: host_ok_def combos_ok_def leases_ok_def leased_def opts_ok_def mss_ok_def)
    ultimately show ?thesis by (subst VirtualGetNextPacket.simps) (simp add: q)
  qed
  show ?thesis
  proof (cases "V_SendQueue v = []")
    case False
    then show ?thesis using queued [OF assms] by fastforce
  next
    case True
    have "host_ok (v\<lparr>V_Now := tick\<rparr>)"
      using assms by (simp add: host_ok_def combos_ok_def leases_ok_def leased_def opts_ok_def mss_ok_def)
    then obtain v1 where v1: "VirtualPolling tick (v\<lparr>V_Now := tick\<rparr>) = Some v1" "host_ok v1"
      using VirtualPolling_survives by blast
    have eq: "VirtualGetNextPacket tick v = (if V_SendQueue v1 \<noteq> [] then VirtualGetNextPacket tick v1 else Some (None, v1))"
      by (subst VirtualGetNextPacket.simps) (simp add: True v1(1))
    show ?thesis
    proof (cases "V_SendQueue v1 = []")
      case True
      then show ?thesis using eq v1(2) by simp
    next
      case False
      then show ?thesis using eq queued [OF v1(2)] by fastforce
    qed
  qed
qed

section \<open>From the start\<close>

lemma ip_mss_range: "0 < ip_mss mtu \<and> ip_mss mtu \<le> 1480 \<and> 8 dvd unat (ip_mss mtu)"
proof -
  define m where "m = (let m = min mtu MAX_L3_DATA_SIZE; m = (if m = 0 then MAX_L3_DATA_SIZE else m) in max m 62)"
  have m: "62 \<le> m" "m \<le> 1500" by (auto simp: m_def Let_def min_def max_def)
  then have un: "62 \<le> unat m" "unat m \<le> 1500" by (simp_all add: word_le_nat_alt)
  have d: "unat ((m - 20) div 8) = (unat m - 20) div 8" using un by (simp add: unat_div unat_sub32)
  have e: "ip_mss mtu = (m - 20) div 8 * 8" by (simp add: ip_mss_def m_def Let_def)
  have u: "unat (ip_mss mtu) = (unat m - 20) div 8 * 8" using un d unfolding e by (subst unat_mult32) auto
  have "40 \<le> (unat m - 20) div 8 * 8" using un by presburger
  moreover have "(unat m - 20) div 8 * 8 \<le> 1480" using un by presburger
  ultimately show ?thesis using u by (auto simp: word_less_nat_alt word_le_nat_alt)
qed

text \<open>A host that has been started with some options.\<close>

definition options_ok :: "VH_OPTION \<Rightarrow> bool" where
  "options_ok vo \<longleftrightarrow> length (VO_DhcpDomainName vo) \<le> 255 \<and>
     (\<forall>t. VO_PushRoutes vo = Some t \<longrightarrow> sane_table t)"

lemma SetVirtualHostOption_ok:
  assumes "combos_ok v" and "leases_ok v" and "[] \<notin> set (V_SendQueue v)" and "sane_table (V_PushRoute v)" and "options_ok vo"
  shows "host_ok (SetVirtualHostOption v vo)"
  using assms ip_mss_range [of "VO_Mtu vo"] domain_copied [of "VO_DhcpDomainName vo"]
  by (auto simp: SetVirtualHostOption_def host_ok_def combos_ok_def leases_ok_def leased_def opts_ok_def mss_ok_def options_ok_def
    Let_def split: option.split)

lemma VirtualInit_ok: "combos_ok (VirtualInit tick v)" "leases_ok (VirtualInit tick v)" "V_SendQueue (VirtualInit tick v) = []"
  "V_PushRoute (VirtualInit tick v) = V_PushRoute v"
  by (simp_all add: VirtualInit_def combos_ok_def combining.tbl_new leases_ok_def leased_def comparator.lst_new_ok [OF lease_order.comparator_cmp])
    (simp_all add: lst_new_def)

text \<open>What happens to a host: it gets a frame or the end of the frames, is asked for one, or gets new options.\<close>

datatype host_event = Put VENV "u8 list option" | Take u64 | Configure VH_OPTION

fun host_step :: "host_event \<Rightarrow> VH \<Rightarrow> VH option" where
  "host_step (Put e data) v = map_option fst (VirtualPutPacket e v data)"
| "host_step (Take tick) v = map_option snd (VirtualGetNextPacket tick v)"
| "host_step (Configure vo) v = Some (SetVirtualHostOption v vo)"

fun host_run :: "host_event list \<Rightarrow> VH \<Rightarrow> VH option" where
  "host_run [] v = Some v"
| "host_run (e # es) v = do { v \<leftarrow> host_step e v; host_run es v }"

fun event_ok :: "host_event \<Rightarrow> bool" where
  "event_ok (Put e data) = (case data of None \<Rightarrow> True | Some d \<Rightarrow> length d + 255 \<le> BUF_MAX)"
| "event_ok (Take tick) = True"
| "event_ok (Configure vo) = options_ok vo"

lemma host_step_survives:
  assumes "host_ok v" and "event_ok e"
  shows "\<exists>v'. host_step e v = Some v' \<and> host_ok v'"
proof (cases e)
  case (Put env data)
  then show ?thesis using VirtualPutPacket_survives [OF assms(1), of data env] assms(2) by (fastforce split: option.splits)
next
  case (Take tick)
  then show ?thesis using VirtualGetNextPacket_survives [OF assms(1), of tick] by auto
next
  case (Configure vo)
  then show ?thesis
    using SetVirtualHostOption_ok [of v vo] assms by (simp add: host_ok_def opts_ok_def)
qed

lemma host_run_survives: "host_ok v \<Longrightarrow> list_all event_ok es \<Longrightarrow> \<exists>v'. host_run es v = Some v' \<and> host_ok v'"
proof (induction es arbitrary: v)
  case (Cons e es)
  then obtain v1 where "host_step e v = Some v1" "host_ok v1" using host_step_survives [OF Cons.prems(1)] by auto
  then show ?case using Cons by simp
qed simp

end
