(* ===== verification/VirtualProps.thy ===== *)
theory VirtualProps
  imports VirtualReply
begin

text \<open>
  The properties of SecureNAT (src/src/Cedar/Virtual.c): a packet that is sent in fragments
  arrives, whatever the order of its fragments; what overlapping fragments do; the virtual host
  survives whatever arrives; what its DHCP server promises.
\<close>

section \<open>Fragments\<close>

definition demo_host :: VH where
  "demo_host =
     \<lparr>V_SendQueue = [], V_ArpTable = \<lparr>items = [\<lparr>AE_IpAddress = 5, AE_MacAddress = [2, 0, 0, 0, 0, 5], AE_Created = 0,
        AE_Expire = 0\<rparr>], is_sorted = False\<rparr>, V_ArpWaitTable = lst_new, V_IpWaitTable = lst_new,
      V_IpCombine = lst_new, V_Now = 0, V_NextArpTablePolling = 0, V_IpMss = 8, V_flag1 = False, V_NextId = 7,
      V_CurrentIpQuota = 0, V_MacAddress = [2, 0, 0, 0, 0, 6], V_HostIP = 6, V_HostMask = 0xff,
      V_UseNat = False, V_UseDhcp = True, V_DhcpIpStart = 0x0a00a8c0, V_DhcpIpEnd = 0x0b00a8c0, V_DhcpMask = 0x00ffffff,
      V_DhcpExpire = 7200000, V_DhcpGateway = 0, V_DhcpDns = 1, V_DhcpDns2 = 0, V_DhcpDomain = [],
      V_DhcpLeaseList = lst_new, V_LastDhcpPolling = 0, V_PushRoute = no_routes, V_DhcpId = 0,
      V_LastSendBeacon = 0, V_RandomizeAssignIp = False\<rparr>"

definition parse_all :: "u8 list list \<Rightarrow> PKT list \<Rightarrow> bool" where
  "parse_all ms ps \<longleftrightarrow> list_all2 (\<lambda>m p. ParsePacket host_le m (of_nat (length m)) = Some (Some p)) ms ps"

definition can_send :: "VH \<Rightarrow> u32 \<Rightarrow> u8 list \<Rightarrow> bool" where
  "can_send v ip mac \<longleftrightarrow> knows v ip mac \<and> length mac = 6 \<and> hd mac AND 0x01 = 0 \<and> length (V_MacAddress v) = 6 \<and>
     0 < V_IpMss v \<and> V_IpMss v \<le> 1480 \<and> 8 dvd unat (V_IpMss v)"

lemma pieces_ok: "pieces d gs \<Longrightarrow> f \<in> set gs \<Longrightarrow> snd f \<noteq> [] \<and> frag_end f \<le> length d"
  by (simp add: pieces_def list_all_iff frag_of_def)

text \<open>C23: a packet of 1 to 65535 bytes goes through the virtual network unharmed. The host that sends it with
  \<^const>\<open>SendIpEx\<close> returns and puts out frames; a host that receives these frames with
  \<^const>\<open>VirtualIpReceived\<close>, in any order, delivers exactly one packet, with the bytes, the addresses and
  the protocol that were sent, and afterwards puts together and has reserved what it had before. The
  sender has the unicast MAC address of the destination in its ARP table and fragments of a multiple
  of 8 and at most 1480 bytes; the receiver is not putting together a packet with the same
  identifier, addresses and protocol, has 1480 bytes of its quota left, and its parser accepts the frames
  (for ICMP it always does) and comes to no poll in between that would give the packet up; the protocol is
  one that the host handles (1, 6 or 17). What the NAT does with the packet is not modelled.\<close>

theorem datagram_arrives:
  assumes "can_send s dst mac" and "data \<noteq> []" and "length data \<le> 65535" and "proto \<in> {1, 6, 17}"
    and "combining.tbl_ok (V_IpCombine r)" and "combining.view (V_IpCombine r) (V_NextId s, dst, src, proto) = None"
    and "V_CurrentIpQuota r + 1480 \<le> IP_COMBINE_WAIT_QUEUE_SIZE_QUOTA"
  shows "\<exists>s' frames. SendIpEx s dst src proto data ttl = Some s' \<and> V_SendQueue s' = V_SendQueue s @ frames \<and>
    (\<forall>arrived ps. mset arrived = mset frames \<longrightarrow> parse_all arrived ps \<longrightarrow>
      (\<exists>r' d. receive_all loc r ps = Some (r', [d]) \<and> D_Data d = map Some data \<and> D_SrcIP d = src \<and> D_DestIP d = dst \<and>
        D_Protocol d = proto \<and> combining.view (V_IpCombine r') = combining.view (V_IpCombine r) \<and>
        V_CurrentIpQuota r' = V_CurrentIpQuota r))"
proof -
  define frame where "frame = frag_frame mac (V_MacAddress s) dst src (V_NextId s) (length data) proto ttl"
  define gs where "gs = cut (unat (V_IpMss s)) 0 data"
  note c = assms(1) [unfolded can_send_def]
  obtain s' where s': "SendIpEx s dst src proto data ttl = Some s'" "V_SendQueue s' = V_SendQueue s @ map frame gs"
    using SendIpEx_sent [of s dst mac data src proto ttl] c assms(2,3) by (auto simp: sent_def frame_def gs_def)
  have mss: "0 < unat (V_IpMss s)" "unat (V_IpMss s) \<le> 1480" using c by (simp_all add: unat_order)
  note cut = cut_pieces [OF mss(1) assms(2), folded gs_def]
  define k where "k = (V_NextId s, dst, src, proto)"
  have start: "collecting k (V_CurrentIpQuota r) (combining.view (V_IpCombine r)) data r []"
    using assms(5-7) by (simp add: collecting_def absent_def k_def)
  have "\<exists>r' d. receive_all loc r ps = Some (r', [d]) \<and> D_Data d = map Some data \<and> D_SrcIP d = src \<and> D_DestIP d = dst \<and>
        D_Protocol d = proto \<and> combining.view (V_IpCombine r') = combining.view (V_IpCombine r) \<and>
        V_CurrentIpQuota r' = V_CurrentIpQuota r"
    if perm: "mset arrived = mset (map frame gs)" and parse: "parse_all arrived ps" for arrived ps
  proof -
    obtain hs where hs: "mset hs = mset gs" "map frame hs = arrived" using mset_map_permuted [OF perm] by blast
    have pieces: "pieces data ([] @ hs)" using cut(1) pieces_mset [OF hs(1)] by simp
    then have ne: "hs \<noteq> []" using assms(2) by (auto simp: pieces_def)
    have small: "length (snd f) \<le> 1480 \<and> 8 dvd fst f" if "f \<in> set hs" for f
    proof -
      have "f \<in> set gs" using that mset_eq_setD [OF hs(1)] by blast
      then have "length (snd f) \<le> unat (V_IpMss s)" "unat (V_IpMss s) dvd fst f" using cut(2) by blast+
      then show ?thesis using mss(2) c by (auto intro: dvd_trans)
    qed
    have "list_all2 (carries src dst (V_NextId s) proto (length data)) hs ps"
      using parse unfolding parse_all_def hs(2) [symmetric] list_all2_map1
    proof (rule list.rel_mono_strong)
      fix f p assume f: "f \<in> set hs"
        and p: "ParsePacket host_le (frame f) (of_nat (length (frame f))) = Some (Some p)"
      show "carries src dst (V_NextId s) proto (length data) f p"
        using pieces_ok [OF pieces, of f] small [OF f] f c assms(3) p
        by (intro frame_carries [of mac "V_MacAddress s" f _ "frame f" dst src _ proto ttl]) (auto simp: frame_def)
    qed
    then obtain r' d where "receive_all loc r ps = Some (r', [d])" "right_delivery k data d"
      "collecting k (V_CurrentIpQuota r) (combining.view (V_IpCombine r)) data r' []"
      using receive_pieces [OF start k_def _ ne pieces assms(3,2,4,7)] by blast
    then show ?thesis by (auto simp: right_delivery_def k_def collecting_def absent_def)
  qed
  then show ?thesis using s' by (intro exI [of _ s'] exI [of _ "map frame gs"]) simp
qed

lemma demo_can_send: "can_send demo_host 5 [2, 0, 0, 0, 0, 5]"
  by (simp add: can_send_def knows_def demo_host_def host_arp.tbl_ok_def host_arp.view_def host_arp.lst_ok_keys IsInNetwork_def)

lemma demo_empty: "combining.tbl_ok (V_IpCombine demo_host)" "combining.view (V_IpCombine demo_host) k = None"
  "V_CurrentIpQuota demo_host = 0"
  by (simp_all add: demo_host_def combining.tbl_new)

lemma all_parsed:
  assumes "\<And>m. m \<in> set ms \<Longrightarrow> \<exists>p. ParsePacket host_le m (of_nat (length m)) = Some (Some p)"
  shows "\<exists>ps. parse_all ms ps"
  using assms
proof (induction ms)
  case (Cons m ms)
  then obtain p ps where "ParsePacket host_le m (of_nat (length m)) = Some (Some p)" "parse_all ms ps" by fastforce
  then show ?case by (intro exI [of _ "p # ps"]) (simp add: parse_all_def)
qed (auto simp: parse_all_def)

theorem datagram_arrives_witness:
  "\<exists>s' frames ps r' d. SendIpEx demo_host 5 6 1 (replicate 20 7) 0 = Some s' \<and> V_SendQueue s' = frames \<and> length frames = 3 \<and>
    parse_all (rev frames) ps \<and> receive_all (\<lambda>m. False) demo_host ps = Some (r', [d]) \<and> D_Data d = map Some (replicate 20 7)"
proof -
  let ?d = "replicate 20 7 :: u8 list"
  let ?frame = "frag_frame [2, 0, 0, 0, 0, 5] [2, 0, 0, 0, 0, 6] 5 6 7 20 1 0"
  have cut: "cut 8 0 ?d = [(0, replicate 8 7), (8, replicate 8 7), (16, replicate 4 7)]"
    by (simp add: cut.simps take_Cons' drop_Cons' numeral_eq_Suc)
  have host: "V_SendQueue demo_host = []" "V_IpMss demo_host = 8" "V_NextId demo_host = 7" "V_MacAddress demo_host = [2, 0, 0, 0, 0, 6]"
    by (simp_all add: demo_host_def)
  obtain s' where s': "SendIpEx demo_host 5 6 1 ?d 0 = Some s'" "V_SendQueue s' = map ?frame (cut 8 0 ?d)"
    using SendIpEx_sent [of demo_host 5 "[2, 0, 0, 0, 0, 5]" ?d 6 1 0] demo_can_send host by (auto simp: sent_def can_send_def)
  have "\<exists>p. ParsePacket host_le m (of_nat (length m)) = Some (Some p)" if "m \<in> set (rev (map ?frame (cut 8 0 ?d)))" for m
  proof -
    obtain f where f: "m = ?frame f" "f \<in> set (cut 8 0 ?d)" using \<open>m \<in> _\<close> by auto
    then have "frag_end f \<le> 20" "4 \<le> length (snd f)" "length (snd f) \<le> 1480" by (auto simp: cut)
    then show ?thesis by (intro icmp_frame_parsed [of "[2, 0, 0, 0, 0, 5]" "[2, 0, 0, 0, 0, 6]" f 20 m 5 6 7 0]) (simp_all add: f(1))
  qed
  then obtain ps where ps: "parse_all (rev (map ?frame (cut 8 0 ?d))) ps" using all_parsed by blast
  have len: "?d \<noteq> []" "length ?d \<le> 65535" "(1 :: u8) \<in> {1, 6, 17}" "V_CurrentIpQuota demo_host + 1480 \<le> IP_COMBINE_WAIT_QUEUE_SIZE_QUOTA"
    by (simp_all add: demo_empty)
  obtain s2 frames where t: "SendIpEx demo_host 5 6 1 ?d 0 = Some s2" "V_SendQueue s2 = V_SendQueue demo_host @ frames"
    "\<forall>arrived ps. mset arrived = mset frames \<longrightarrow> parse_all arrived ps \<longrightarrow>
      (\<exists>r' d. receive_all (\<lambda>m. False) demo_host ps = Some (r', [d]) \<and> D_Data d = map Some ?d \<and> D_SrcIP d = 6 \<and> D_DestIP d = 5 \<and>
        D_Protocol d = 1 \<and> combining.view (V_IpCombine r') = combining.view (V_IpCombine demo_host) \<and>
        V_CurrentIpQuota r' = V_CurrentIpQuota demo_host)"
    using datagram_arrives [OF demo_can_send len(1-3) demo_empty(1,2) len(4), of 6 0 "\<lambda>m. False"] by blast
  have frames: "frames = map ?frame (cut 8 0 ?d)" "s2 = s'" using t(1,2) s' host(1) by simp_all
  obtain r' d where "receive_all (\<lambda>m. False) demo_host ps = Some (r', [d])" "D_Data d = map Some ?d"
    using t(3) [rule_format, of "rev frames" ps] ps frames by auto
  then show ?thesis
    using s' ps by (intro exI [of _ s'] exI [of _ "V_SendQueue s'"] exI [of _ ps] exI [of _ r'] exI [of _ d]) (simp add: cut)
qed

text \<open>An object whose cells 24 to 31 nothing has been written to.\<close>

definition hole :: "IP_PART list \<Rightarrow> IP_COMBINE \<Rightarrow> bool" where
  "hole ps c \<longleftrightarrow> combine_ok c \<and> C_IpParts c = ps \<and> C_Size c = 0 \<and> 1480 \<le> length (C_Data c) \<and>
     (\<forall>i \<in> {24..<32}. C_Data c ! i = None)"

lemma with_part_cell:
  assumes "unat off + length d \<le> length cells" and "i < unat off \<or> unat off + length d \<le> i"
  shows "C_Data (with_part c off d l h cells r) ! i = cells ! i"
  using assms by (auto simp: with_part_def nth_append split: prod.splits)

lemma with_part_length:
  "unat off + length d \<le> length cells \<Longrightarrow> length (C_Data (with_part c off d l h cells r)) = length cells"
  by (auto simp: with_part_def split: prod.splits)

lemma hole_part:
  assumes "hole ps c" and "unat off + length d \<le> 24 \<or> 32 \<le> unat off" and "unat off + length d \<le> length cells"
    and "take (length (C_Data c)) cells = C_Data c"
  shows "1480 \<le> length (C_Data (with_part c off d l h cells r))"
    and "\<forall>i \<in> {24..<32}. C_Data (with_part c off d l h cells r) ! i = None"
proof -
  note h = assms(1) [unfolded hole_def]
  have "length (C_Data c) \<le> length cells" by (metis assms(4) length_take min.cobounded1)
  then show "1480 \<le> length (C_Data (with_part c off d l h cells r))"
    using h by (simp add: with_part_length [OF assms(3)])
  show "\<forall>i \<in> {24..<32}. C_Data (with_part c off d l h cells r) ! i = None"
  proof
    fix i :: nat assume i: "i \<in> {24..<32}"
    then have "i < unat off \<or> unat off + length d \<le> i" using assms(2) by auto
    then have "C_Data (with_part c off d l h cells r) ! i = cells ! i" using with_part_cell [OF assms(3)] by blast
    also have "cells ! i = take (length (C_Data c)) cells ! i" using i h by simp
    also have "\<dots> = C_Data c ! i" by (simp only: assms(4))
    finally show "C_Data (with_part c off d l h cells r) ! i = None" using h i by simp
  qed
qed

lemma hole_max_l3: "hole ps c \<Longrightarrow> hole ps (c\<lparr>C_MaxL3Size := n\<rparr>)"
  by (simp add: hole_def combine_ok_def)

lemma with_part_parts:
  assumes "combine_overlaps (C_IpParts c) off (of_nat (length d)) = (qs, o', s')"
  shows "C_IpParts (with_part c off d l h cells r) = (if s' \<noteq> 0 then qs @ [\<lparr>Part_Offset = o', Part_Size = s'\<rparr>] else qs)"
    and "C_Size (with_part c off d l h cells r) = (if l then off + of_nat (length d) else C_Size c)"
  using assms by (simp_all add: with_part_def)

lemma combine_key_part [simp]: "combine_key (with_part c off d l h cells r) = combine_key c"
  by (simp add: combine_key_def)

text \<open>A part beside the hole that is not the last one.\<close>

lemma hole_step:
  assumes "ready k q others (hole ps) v c" and "snd f \<noteq> []" and "frag_end f \<le> 24 \<or> 32 \<le> fst f" and "frag_end f \<le> 65535"
    and "combine_overlaps ps (of_nat (fst f)) (of_nat (length (snd f))) = (qs, o', s')" and "s' \<noteq> 0"
  shows "\<exists>v' c'. CombineIp v c (of_nat (fst f)) (snd f) False head = Some (v', None) \<and>
    ready k q others (hole (qs @ [\<lparr>Part_Offset = o', Part_Size = s'\<rparr>])) v' c'"
proof -
  have h: "hole ps c" using assms(1) by (simp add: ready_def)
  note hd = h [unfolded hole_def]
  have u: "unat (of_nat (fst f) :: u32) = fst f" using assms(4) by (simp add: nowrap)
  have "\<exists>cells r. let c' = with_part c (of_nat (fst f)) (snd f) False head cells r
    in CombineIp v c (of_nat (fst f)) (snd f) False head =
        Some (if complete c' then (drop_combine (keep_combine v c c') c', deliver c') else (keep_combine v c c', None)) \<and>
      combine_ok c' \<and> unat (of_nat (fst f) :: u32) + length (snd f) \<le> length cells \<and>
      take (length (C_Data c)) cells = C_Data c \<and> C_DataReserved c \<le> r"
    using hd assms(2,4) u by (intro CombineIp_eq) auto
  then obtain cells r where e: "let c' = with_part c (of_nat (fst f)) (snd f) False head cells r
    in CombineIp v c (of_nat (fst f)) (snd f) False head =
        Some (if complete c' then (drop_combine (keep_combine v c c') c', deliver c') else (keep_combine v c c', None)) \<and>
      combine_ok c' \<and> unat (of_nat (fst f) :: u32) + length (snd f) \<le> length cells \<and>
      take (length (C_Data c)) cells = C_Data c \<and> C_DataReserved c \<le> r" by blast
  define c' where "c' = with_part c (of_nat (fst f)) (snd f) False head cells r"
  note e = e [folded c'_def, unfolded Let_def, folded c'_def]
  have ov: "combine_overlaps (C_IpParts c) (of_nat (fst f)) (of_nat (length (snd f))) = (qs, o', s')"
    using assms(5) hd by simp
  have parts: "C_IpParts c' = qs @ [\<lparr>Part_Offset = o', Part_Size = s'\<rparr>]" "C_Size c' = 0"
    using with_part_parts [OF ov] assms(6) hd by (simp_all add: c'_def)
  have "hole (qs @ [\<lparr>Part_Offset = o', Part_Size = s'\<rparr>]) c'"
    using hole_part [OF h, of "of_nat (fst f)" "snd f" cells] e parts u assms(3) by (simp add: hole_def c'_def)
  moreover have "\<not> complete c'" using parts by (simp add: complete_def)
  ultimately show ?thesis
    using e ready_keep [OF assms(1), of c'] by (auto simp: c'_def)
qed

text \<open>The last part, with which the sizes seem to add up.\<close>

lemma hole_last:
  assumes "ready k q others (hole ps) v c" and "snd f \<noteq> []" and "32 \<le> fst f" and "frag_end f \<le> 65535"
    and "combine_overlaps ps (of_nat (fst f)) (of_nat (length (snd f))) = (qs, o', s')" and "s' \<noteq> 0"
    and "sum_list (map Part_Size qs) + s' = of_nat (frag_end f)" and "snd (snd (snd k)) \<in> {1, 6, 17}"
  shows "\<exists>v' r. CombineIp v c (of_nat (fst f)) (snd f) True head = Some (v', Some r) \<and> length (D_Data r) = frag_end f \<and>
    (\<forall>i \<in> {24..<32}. D_Data r ! i = None)"
proof -
  have h: "hole ps c" using assms(1) by (simp add: ready_def)
  note hd = h [unfolded hole_def]
  have u: "unat (of_nat (fst f) :: u32) = fst f" "unat (of_nat (frag_end f) :: u32) = frag_end f"
    using assms(4) by (simp_all add: nowrap del: of_nat_add)
  have "\<exists>cells r. let c' = with_part c (of_nat (fst f)) (snd f) True head cells r
    in CombineIp v c (of_nat (fst f)) (snd f) True head =
        Some (if complete c' then (drop_combine (keep_combine v c c') c', deliver c') else (keep_combine v c c', None)) \<and>
      combine_ok c' \<and> unat (of_nat (fst f) :: u32) + length (snd f) \<le> length cells \<and>
      take (length (C_Data c)) cells = C_Data c \<and> C_DataReserved c \<le> r"
    using hd assms(2,4) u(1) by (intro CombineIp_eq) auto
  then obtain cells r where e: "let c' = with_part c (of_nat (fst f)) (snd f) True head cells r
    in CombineIp v c (of_nat (fst f)) (snd f) True head =
        Some (if complete c' then (drop_combine (keep_combine v c c') c', deliver c') else (keep_combine v c c', None)) \<and>
      combine_ok c' \<and> unat (of_nat (fst f) :: u32) + length (snd f) \<le> length cells \<and>
      take (length (C_Data c)) cells = C_Data c \<and> C_DataReserved c \<le> r" by blast
  define c' where "c' = with_part c (of_nat (fst f)) (snd f) True head cells r"
  note e = e [folded c'_def, unfolded Let_def, folded c'_def]
  have ov: "combine_overlaps (C_IpParts c) (of_nat (fst f)) (of_nat (length (snd f))) = (qs, o', s')"
    using assms(5) hd by simp
  have parts: "C_IpParts c' = qs @ [\<lparr>Part_Offset = o', Part_Size = s'\<rparr>]" "C_Size c' = of_nat (frag_end f)"
    using with_part_parts [OF ov] assms(6) by (simp_all add: c'_def)
  have cf: "unat (C_Size c') = frag_end f" "C_Protocol c' = C_Protocol c" "C_MacBroadcast c' = C_MacBroadcast c"
    unfolding parts(2) by (rule u(2)) (simp_all add: c'_def)
  have "(of_nat (frag_end f) :: u32) \<noteq> 0" using u(2) assms(3) by (simp add: word_unat_eq_iff del: of_nat_add)
  then have "complete c'" using parts assms(7) by (simp add: complete_def)
  moreover have cells: "frag_end f \<le> length (C_Data c')" "\<forall>i \<in> {24..<32}. C_Data c' ! i = None"
    using hole_part(2) [OF h, of "of_nat (fst f)" "snd f" cells] e u(1) assms(3) with_part_length [of "of_nat (fst f)" "snd f" cells]
    by (simp_all add: c'_def)
  moreover have "C_Protocol c \<in> {1, 6, 17}" "\<not> C_MacBroadcast c"
    using assms(1,8) combining.view_Some [of "V_IpCombine v" k c] by (auto simp: ready_def combine_key_def)
  then obtain x where "deliver c' = Some x" "D_Data x = take (frag_end f) (C_Data c')"
    by (auto simp: deliver_def IpReceived_def cf)
  ultimately show ?thesis using e assms(3) by auto
qed

text \<open>
  A packet can be delivered before all of it has arrived: of a part that overlaps the head of one
  received before, too little is taken off, and the sum of the sizes of the parts, which is what tells
  that nothing is missing, counts the overlap. With three fragments a sender makes the host deliver 40
  bytes of which the bytes 24 to 31 are what happened to be in the memory of the server.
\<close>

theorem overlap_discloses:
  assumes "absent k q others v" and "k = (ident, dst, src, proto)" and "proto \<in> {1, 6, 17}"
    and "carries src dst ident proto 40 (8, a) p1" and "length a = 16"
    and "carries src dst ident proto 40 (0, b) p2" and "length b = 20"
    and "carries src dst ident proto 40 (32, c) p3" and "length c = 8"
  shows "\<exists>v' r. receive_all loc v [p1, p2, p3] = Some (v', [r]) \<and> length (D_Data r) = 40 \<and>
    (\<forall>i \<in> {24..<32}. D_Data r ! i = None)"
proof -
  have ne: "a \<noteq> []" "b \<noteq> []" "c \<noteq> []" using assms(5,7,9) by auto
  have new: "hole [] x" if "new_object x" for x
    using that by (simp add: new_object_def hole_def combine_ok_def buffer_sizes_def)
  define s1 where "s1 = [\<lparr>Part_Offset = 8, Part_Size = 16\<rparr>]"
  define s2 where "s2 = s1 @ [\<lparr>Part_Offset = 0, Part_Size = 16\<rparr>]"
  have o1: "combine_overlaps [] 8 16 = ([], 8, 16)" "combine_overlaps s1 0 20 = (s1, 0, 16)" "combine_overlaps s2 32 8 = (s2, 32, 8)"
    unfolding s2_def s1_def by code_simp+
  obtain v1 c1 h1 where r1: "ready k q others (hole []) v1 c1" "VirtualIpReceived loc v p1 = CombineIp v1 c1 8 a False h1"
    using received_by [OF assms(4) _ _ _ assms(2), of "hole []" q others v loc] hole_max_l3 assms(1) new ne assms(5) by auto
  obtain v2 c2 where r2: "CombineIp v1 c1 8 a False h1 = Some (v2, None)" "ready k q others (hole s1) v2 c2"
    using hole_step [OF r1(1), of "(8, a)" "[]" 8 16 h1] ne assms(5) o1(1) by (auto simp: s1_def)
  obtain v3 c3 h3 where r3: "ready k q others (hole s1) v3 c3" "VirtualIpReceived loc v2 p2 = CombineIp v3 c3 0 b False h3"
    using received_by [OF assms(6) _ _ _ assms(2), of "hole s1" q others v2 loc] hole_max_l3 r2(2) ne assms(7) by auto
  obtain v4 c4 where r4: "CombineIp v3 c3 0 b False h3 = Some (v4, None)" "ready k q others (hole s2) v4 c4"
    using hole_step [OF r3(1), of "(0, b)" s1 0 16 h3] ne assms(7) o1(2) by (auto simp: s2_def)
  obtain v5 c5 h5 where r5: "ready k q others (hole s2) v5 c5" "VirtualIpReceived loc v4 p3 = CombineIp v5 c5 32 c True h5"
    using received_by [OF assms(8) _ _ _ assms(2), of "hole s2" q others v4 loc] hole_max_l3 r4(2) ne assms(9) by auto
  obtain v6 r where "CombineIp v5 c5 32 c True h5 = Some (v6, Some r)" "length (D_Data r) = 40" "\<forall>i \<in> {24..<32}. D_Data r ! i = None"
    using hole_last [OF r5(1), of "(32, c)" s2 32 8 h5] ne assms(2,3,9) o1(3) by (auto simp: s2_def s1_def)
  then show ?thesis using r1 r2 r3 r4 r5 by simp
qed

section \<open>The whole host\<close>

text \<open>C40: the virtual host of SecureNAT survives: started by \<^const>\<open>VirtualInit\<close> with some options, it comes to
  an end with every frame that it is given, whatever its bytes (up to the largest block of memory
  that the model's buffers allow), with every request for a frame, its periodic work included, and
  with new options at any time, in any order of these. No step copies outside of a packet's bytes or
  of the buffer in which fragments are put together, every loop ends, that over the free addresses
  too, and what the DHCP server builds fits. Afterwards the memory reserved for fragments is what has
  been counted, every packet being put together has the buffer that it says and no other has the same
  key, no address is leased twice and the address 0 never, the size of fragments is a positive
  multiple of 8 of at most 1480, and no empty frame is in the queue. The domain name of the options
  has at most 255 bytes and the routes to push fill a table of 64; TCP and UDP streams of the NAT
  are not part of the model.\<close>

theorem host_survives:
  assumes "sane_table (V_PushRoute v)" and "options_ok vo" and "list_all event_ok es"
  shows "\<exists>v'. host_run es (SetVirtualHostOption (VirtualInit tick v) vo) = Some v' \<and> host_ok v'"
proof -
  have "host_ok (SetVirtualHostOption (VirtualInit tick v) vo)"
    by (rule SetVirtualHostOption_ok) (use assms(1,2) VirtualInit_ok in simp_all)
  then show ?thesis using host_run_survives assms(3) by blast
qed

definition demo_vh_options :: VH_OPTION where
  "demo_vh_options = \<lparr>VO_MacAddress = [2, 0, 0, 0, 0, 6], VO_Ip = UINTToIP host_le 0x0101a8c0,
     VO_Mask = UINTToIP host_le 0x00ffffff, VO_UseNat = False, VO_Mtu = 1500, VO_UseDhcp = True,
     VO_DhcpLeaseIPStart = UINTToIP host_le 0x0a01a8c0, VO_DhcpLeaseIPEnd = UINTToIP host_le 0x0b01a8c0,
     VO_DhcpSubnetMask = UINTToIP host_le 0x00ffffff, VO_DhcpExpireTimeSpan = 7200, VO_DhcpGatewayAddress = ZeroIP,
     VO_DhcpDnsServerAddress = ZeroIP, VO_DhcpDnsServerAddress2 = ZeroIP, VO_DhcpDomainName = ascii ''vpn'',
     VO_PushRoutes = None\<rparr>"

definition demo_events :: "host_event list" where
  "demo_events = [Put \<lparr>Tick = 1000, v_md5 = (\<lambda>_. []), v_local = (\<lambda>_. False), no_push = False\<rparr> (Some (replicate 60 0xff)),
     Take 6000, Configure demo_vh_options, Take 7000]"

theorem host_survives_witness:
  "\<exists>v'. host_run demo_events (SetVirtualHostOption (VirtualInit 0 demo_host) demo_vh_options) = Some v' \<and> host_ok v'"
proof (rule host_survives)
  show "sane_table (V_PushRoute demo_host)" by (simp add: demo_host_def sane_no_routes)
  show "options_ok demo_vh_options" by (simp add: options_ok_def demo_vh_options_def ascii_def)
  then show "list_all event_ok demo_events" by (simp add: demo_events_def)
qed

section \<open>The DHCP server\<close>

text \<open>
  An address that has been offered is given when the client asks for it, as long as the leases are the
  same: the offer is an address of the range that no other client has, the requested one if the client
  may have it; none is offered only when, without the random choice, every address is leased.
\<close>

theorem offer_is_kept:
  assumes "leases_ok v" and "ServeDhcpDiscover md5 v mac req = Some (ip, v1)"
  shows "leases_ok v1 \<and> (ip \<noteq> 0 \<longrightarrow> offerable v mac ip \<and> (\<exists>v2. ServeDhcpRequest md5' v1 mac ip = Some (ip, v2))) \<and>
    (req \<noteq> 0 \<and> offerable v mac req \<longrightarrow> ip = req) \<and>
    (ip = 0 \<and> \<not> V_RandomizeAssignIp v \<and> V_DhcpIpStart v \<noteq> 0 \<longrightarrow> (\<forall>a. in_range v a \<longrightarrow> leased v a))"
proof -
  have d: "resorted v v1" "ip \<noteq> 0 \<longrightarrow> offerable v mac ip" "req \<noteq> 0 \<and> offerable v mac req \<longrightarrow> ip = req"
    "ip = 0 \<and> \<not> V_RandomizeAssignIp v \<and> V_DhcpIpStart v \<noteq> 0 \<longrightarrow> (\<forall>a. in_range v a \<longrightarrow> leased v a)"
    using ServeDhcpDiscover_spec [OF assms(1), of md5 mac req] assms(2) by auto
  have l1: "leases_ok v1" using resorted_same(4) [OF d(1) assms(1)] .
  have "\<exists>v2. ServeDhcpRequest md5' v1 mac ip = Some (ip, v2)" if "ip \<noteq> 0"
    using ServeDhcpRequest_spec [OF l1, of md5' mac ip] d(2) that resorted_offerable [OF d(1)] by auto
  then show ?thesis using d l1 by blast
qed

text \<open>Handling a client's message leaves the leases of all other clients as they are.\<close>

theorem other_leases_kept:
  assumes "leases_ok v" and "opts_ok v" and "good_packet p"
  shows "\<exists>v'. VirtualDhcpServer tick md5 np v p = Some v' \<and> leases_ok v' \<and>
    others_leases v' (MacAddressSrc p) = others_leases v (MacAddressSrc p)"
  using VirtualDhcpServer_serves [OF assms, of tick md5 np] by (auto simp: serves_def)

text \<open>The periodic work removes the leases that have run out, and only these.\<close>

theorem leases_expire:
  assumes "leases_ok v"
  shows "items (V_DhcpLeaseList (PollingDhcpServer v)) =
    (if V_LastDhcpPolling v \<noteq> 0 \<and> V_LastDhcpPolling v + DHCP_POLLING_INTERVAL > V_Now v \<and> V_LastDhcpPolling v < V_Now v
     then items (V_DhcpLeaseList v)
     else filter (\<lambda>d. \<not> L_ExpireTime d < V_Now v) (items (V_DhcpLeaseList v)))"
proof -
  have "distinct (items (V_DhcpLeaseList v))" using assms by (simp add: leases_ok_def distinct_map)
  then show ?thesis using expire_leases_items by (simp add: PollingDhcpServer_def)
qed

end
