(* ===== verification/Spec2Isabelle.thy ===== *)
theory Spec2Isabelle
  imports PackTransfer NetProps HubProps VirtualProps
begin

text \<open>
  A model of the core libraries of SoftEther VPN, of its virtual hub, of its virtual layer-3 switch
  and of the virtual host of SecureNAT, translated from the C sources under src/src/Mayaqua and src/src/Cedar.

  \<^bold>\<open>The program.\<close> Mayaqua is the portable run-time library: memory, buffers, queues,
  lists, strings, packs (the self-describing messages that every remote procedure and every
  negotiation between client and server exchanges) and packet formats. Cedar is the VPN: virtual
  hubs, sessions, and virtual layer-3 switches that route between hubs. A hub is an Ethernet
  switch with a session at each port: it takes a frame from the session, filters it by limits,
  policies and access lists, learns the addresses of the sender, and puts copies into the queues
  of the sessions that are to get it, from which they are sent. A layer-3 switch has an
  interface in each hub; to the hub it is a session that answers ARP, delivers the IP packets
  that other interfaces put into its queue, and sends frames through its own queue. SecureNAT is a
  session of a hub too: a virtual host with a DHCP server, which answers ARP, puts fragments of IP
  packets together, hands them to its address translation and sends what that answers. All of it rests
  on the lists and queues of Mayaqua; packs rest on buffers, strings, lists and UTF-8.

  \<^bold>\<open>The theories\<close>, in the order they build on each other:
  \<^item> Prelude: machine words, blocks of memory (Memory.c: MallocEx, ReAlloc, Copy).
    A cell of a block is \<^const>\<open>None\<close> while it is uninitialised; an access outside
    the block, and a call that ends the program (AbortExitEx), give the result
    \<^const>\<open>None\<close> of the operation.
  \<^item> Endian: Swap16 to LittleEndian64 (Memory.c) for either byte order of the host, and the
    bytes of an integer in memory.
  \<^item> Buf: struct BUF and its operations (NewBuf to CompareBuf in Memory.c). A locale of
    wire formats states what a writer and its reader owe each other; the integer formats, and
    later the strings, values and elements of packs, are its instances.
  \<^item> Compare: the contract of a COMPARE function as a locale, and COMPARE_RET.
  \<^item> CStr: strings of char (Str.c).
  \<^item> Fifo: struct FIFO and struct QUEUE (Memory.c). A locale of queues relates a state to
    the list it holds; the pointer queue is its instance.
  \<^item> PtrList: struct LIST (Memory.c) as an array with a capacity, the binary searches of
    Search and Insert, and the same operations on plain lists (lst_add, lst_insert, ...) with the
    refinement from the array to them. Keyed: such a list as a table from keys to entries.
    Containers: struct SK, lists of integers and of strings, RandomizeList.
  \<^item> Utf8: wide strings and their conversion to and from UTF-8 (Internat.c).
  \<^item> Pack, PackApi, PackTransfer: struct VALUE, ELEMENT and PACK, writing and reading
    them (WritePack, ReadPack, ... in Pack.c), the functions that add and get one value,
    addresses (struct IP of Network.c) included, and a value sent in a pack.
  \<^item> Checksum: IpChecksum, CalcChecksumForIPv4, IpCheckChecksum (TcpIp.c).
  \<^item> Dhcp: DHCP options and option lists, subnet masks, classless routes
    (BuildDhcpOption to ParseDhcpOptions in TcpIp.c).
  \<^item> Packet: the packet parser ParsePacketEx4 with the parsers of every protocol it knows,
    and CorrectChecksum (TcpIp.c). A pointer into a frame is an offset; reading outside of the
    frame gives \<^const>\<open>None\<close>.
  \<^item> Layer3If, Layer3Arp: an interface of a layer-3 switch (struct L3IF in Layer3.c): its
    ARP table, the addresses it is resolving, the packets that wait for an address, its two
    queues, and every operation on them; then the invariant of an interface and what each
    operation does to the tables, as maps from addresses.
  \<^item> Layer3Switch: struct L3SW: interfaces, routes, the list of switches, and the choice of
    the outgoing interface (L3GetNextIf, L3GetBestRoute).
  \<^item> Layer3Recv: what arrives at an interface (L3PutPacket, L3RecvL2, L3RecvIp): forwarding,
    echo replies, ICMP errors, on the state of the whole switch.
  \<^item> NetProps: the properties of the last six theories about packets, with examples.
  \<^item> HashList: struct HASH_LIST (Memory.c) with its buckets and its list of all entries,
    and the refinement of its operations to maps.
  \<^item> HubTypes: the state of a hub: struct HUB, HUB_PA, HUB_OPTION, MAC_TABLE_ENTRY,
    IP_TABLE_ENTRY, STORM (Hub.h), POLICY, ACCESS and the members of SESSION that the hub uses.
  \<^item> HubAcl: access lists (IsPacketMaskedByAccessList, ApplyAccessListToStoredPacket,
    ApplyAccessListToForwardPacket, AddAccessListEx in Hub.c), and their two passes against one
    search for the first entry that matches.
  \<^item> HubTables: the keys and comparisons of the tables, expiry, the traffic limiter, the
    counters of broadcast storms (CheckBroadcastStorm).
  \<^item> Frames: VLAN tags, the maximum segment size of TCP, router advertisements
    (VLanInsertTag, VLanRemoveTag, DeleteIPv6DefaultRouterInRA in Hub.c, AdjustTcpMssL2 in TcpIp.c).
  \<^item> HubStore: the path of a packet: HubPaPutPacket, StorePacket with its filters, its
    learning, its unicast and its flooding, StorePacketToHubPa, HubPaGetNextPacket; HubPaInit,
    HubPaFree, NewHub. StorePacket is one function of 1,300 lines with jumps; here each of its
    stages is a definition, and a jump to DISCARD_PACKET ends the stage with \<^const>\<open>False\<close>.
  \<^item> HubInv: the well-formedness \<^const>\<open>hub_ok\<close> of a hub, what a step may change, and what
    each stage does. HubFlow, HubPath: to whom a packet may go (\<^const>\<open>reached\<close>).
    HubLife: sessions that come and go; the step relation \<^const>\<open>hub_event\<close>, in which a session
    is at one of several places (\<^const>\<open>Added\<close>, \<^const>\<open>Attached\<close>, \<^const>\<open>Running\<close>, ...), and
    the invariant of every reachable hub. HubTotal: storing a packet returns.
  \<^item> HubProps: the properties of hubs, with examples.
  \<^item> VirtualHost: struct VH (Virtual.h) with its ARP table, ARP queries, waiting packets and the
    packets being put together; SendIpEx, SendFragmentedIp, VirtualIpReceived, CombineIp,
    InsertIpCombine, VirtualArpReceived and what they call (Virtual.c). VirtualDhcp: the leases, the
    choice of an address, VirtualDhcpServer, and the host as a session: VirtualLayer2,
    VirtualPutPacket, VirtualPolling, VirtualGetNextPacket, SetVirtualHostOption, VirtualInit.
  \<^item> VirtualFrag: fragments put together, in any order. VirtualSend: the frames that a packet
    is cut into, and what a parser finds in them. VirtualLease: the invariant of the leases and
    what each choice gives. VirtualTotal, VirtualReply: the invariant of the whole host, which
    every event keeps, the answers of the DHCP server fit their buffers.
  \<^item> VirtualProps: the properties of the host, with examples.

  \<^bold>\<open>The lemmas.\<close> Buffers: every operation keeps \<^const>\<open>buf_wf\<close>, appends
  or consumes exactly the bytes of its encoding, and truncates what lay behind the cursor. Lists,
  queues, stacks and tables: each array operation computes the operation of the same name on
  lists, and a sorted list is a map. Packs: reading undoes writing; the reader never leaves the
  buffer and accepts nothing outside the limits of Pack.h, whatever the bytes. Strings and UTF-8:
  bounds, round trips, safety of the decoder. Layer-3 interfaces: an inductive step relation over
  the operations, the invariant \<^const>\<open>if_inv\<close> of every reachable state, termination of
  the loop that hands out frames, delivery of a waiting packet once its address is resolved.
  Switches: a script of configuration operations keeps the configuration valid; the chosen route
  matches the address. Packets: the parser returns on every frame and stays inside of it, and
  what it announces lies inside; the switch handles every frame and keeps its invariant, forwards,
  answers and reports errors as it should. DHCP: building and parsing are inverse. Hubs: tables
  name living sessions only, one entry for an address, limits hold, and the server's count of waiting
  bytes is right in every reachable state; storing a packet only appends to queues, and only to
  those of sessions that the access list, the privacy filter and the MAC table allow. SecureNAT:
  a packet cut into fragments arrives whole in any order of the fragments, the host survives every
  frame and every change of its options, no address is leased twice, an address that is offered is given.

  \<^bold>\<open>Bounds.\<close> Sizes are 32-bit words that wrap, as in the code. The lemmas that say an
  operation succeeds ask for sizes below the point where its doubling or tripling wraps:
  \<^term>\<open>BUF_MAX\<close> bytes in a buffer (10240 doubled to the last size the loop of AdjustBufSize
  reaches), \<^term>\<open>FIFO_MAX\<close> bytes in a FIFO, \<^term>\<open>QUEUE_MAX\<close> pointers in a queue
  (eight bytes each, within the FIFO), \<^term>\<open>LIST_MAX\<close> pointers in a list (the size of the
  array in bytes is cut to 32 bits). Loops that may not end are partial functions into
  \<open>option\<close>, and the lemmas show that they return: adjust_loop, fifo_grow, L3GetNextPacket, L3RecvIp,
  dhcp_options_loop, dns_labels, combine_grow, send_fragments, free_ip_loop, VirtualGetNextPacket.

  \<^bold>\<open>Conventions.\<close> \<open>le\<close> is the byte order of the host. The clock Tick64 is an
  argument, read once per call. A pointer to an element of a list is the element; lists of
  pointers hold distinct entries where the code deletes by pointer. Random numbers (Rand32) and
  the limits of the server product (GetServerCapsInt, and the values that a build of the server
  sets with VPN_GP: record PARAMS) are arguments. What a hub asks of the rest of the
  server is an argument too (record ENV): the hash function of packets and user names, user
  lists in files, the list of private networks, the addresses of the host, the page for redirected
  clients. Sessions have numbers in place of addresses. Locks and reference
  counters are left out: an operation is one step, except where a session comes to a hub or leaves
  it. There each piece under one lock is a step of \<^const>\<open>hub_event\<close>, and the frames of other sessions
  may be stored between any two: AddSession, the new adapter, the list of monitors (HubPaInit); DelSession,
  the list of monitors, the tables and the adapter (HubPaFree, where nothing leads to the
  adapter once the tables are erased, so the last two are one step). StorePacket runs under the lock of
  the MAC table and reads the lists of sessions and of monitors once each inside of it: it is one step.
  Releasing memory is left out.

  \<^bold>\<open>Not modelled.\<close> Of the hub: what the packet log writes (its decision is modelled),
  RemoveDefGwOnDhcpForLocalhost, the watchdog that polls addresses, links between hubs, user
  databases, tickets, administration options. The reads of headers in StorePacket give 0 beyond
  the end of the packet and so cannot show an access outside of it; that the headers which
  the parser announces are there is what the parser's property says. The parser leaves out
  the logs of HTTP and HTTPS (no_http = true).
  Of SecureNAT: the translation of TCP, UDP and ICMP, the one over raw sockets (NativeStack.c), the
  DNS proxy, the text form of pushed routes, its administration (Nat.c). Server, Client, Admin, Protocol,
  Connection, Session, the IPsec, OpenVPN, SSTP and Radius front ends (Cedar),
  configuration files, tokenizers and formatting of strings (Mayaqua): their pure
  parts can be added in the same style; the next is the NAT table of SecureNAT.
  Network, Encrypt, Kernel, FileIO, Object, Unix, Win32, Microsoft and the user interfaces (CM, SM, EM,
  NM, UT, SW, WinUi), drivers and bridges are calls to the system or to libraries and have no
  logic of their own that a model of this kind can say much about.
\<close>

section \<open>Packs\<close>

definition demo_element :: ELEMENT where
  "demo_element =
     \<lparr>E_name = ascii ''method'', num_value = 2, E_type = VALUE_STR,
      E_values = [Some (new_value\<lparr>V_Size := 6, Str := Some (ascii ''login'')\<rparr>),
        Some (new_value\<lparr>V_Size := 4, Str := Some (ascii ''x y'')\<rparr>)],
      JsonHint_IsArray = True, JsonHint_IsBool = False, JsonHint_IsDateTime = False,
      JsonHint_IsIP = False, JsonHint_GroupName = []\<rparr>"

definition demo_pack :: PACK where
  "demo_pack =
     \<lparr>elements = \<lparr>items = [demo_element], is_sorted = True\<rparr>, json_subitem_names = None,
      CurrentJsonHint_GroupName = []\<rparr>"

lemma demo_pack_ok: "pack_ok demo_pack" "length (enc_pack demo_pack) \<le> 100"
    "pack_map demo_pack = [StrUpper (ascii ''method'') \<mapsto> demo_element]"
  "length (items (elements demo_pack)) = 1"
  by (simp_all add: demo_pack_def demo_element_def pack_ok_def pack_wf_def name_ok_def element_ok_def value_ok_def
      new_value_def lst_ok_def sorted_cmp_def ascii_def trimmed_def is_blank_def Trim_strip
      enc_pack_def enc_element_def enc_value_def pack_map_def elem_map_def)

text \<open>C1: a pack within the limits of the format (values of the declared type, trimmed strings, text of
  the basic plane) is written to the bytes \<^const>\<open>enc_pack\<close>, and reading them back gives a
  well-formed pack with the same elements under the same names, up to their hints.\<close>

theorem pack_roundtrip:
  assumes "pack_ok p" and "length (enc_pack p) \<le> BUF_MAX"
  shows "\<exists>b b' q. PackToBuf p = Some b \<and> contents b = enc_pack p
      \<and> BufToPack (SeekBufToBegin b) = Some (Some q, b') \<and> pack_wf q
      \<and> mset (items (elements q)) = image_mset reread_element (mset (items (elements p)))
      \<and> (\<forall>k. pack_map q k = map_option reread_element (pack_map p k))"
  by (rule pack_transfer [OF assms])

theorem pack_roundtrip_witness:
  "\<exists>b b' q. PackToBuf demo_pack = Some b \<and> contents b = enc_pack demo_pack
      \<and> BufToPack (SeekBufToBegin b) = Some (Some q, b') \<and> pack_wf q
      \<and> mset (items (elements q)) = image_mset reread_element (mset (items (elements demo_pack)))
      \<and> (\<forall>k. pack_map q k = map_option reread_element (pack_map demo_pack k))"
  by (rule pack_roundtrip) (use demo_pack_ok in auto)

text \<open>C27: whatever bytes a buffer holds, \<^const>\<open>BufToPack\<close> returns, reads inside the buffer
  only, leaves its contents alone, and a pack it returns is well formed: names are C strings within
  the limit, no two equal up to case, no element without values.\<close>

theorem pack_reader_safe:
  assumes "buf_wf b"
  shows "\<exists>r b'. BufToPack b = Some (r, b') \<and> buf_wf b' \<and> contents b' = contents b
      \<and> (\<forall>p. r = Some p \<longrightarrow> pack_wf p)"
proof -
  obtain ok b' p where "ReadPack b NewPack = Some (ok, b', p)" "buf_next b b'" "pack_wf p"
    using ReadPack_total [OF assms NewPack_wf(1)] by blast
  then show ?thesis by (simp add: BufToPack_def buf_next_def)
qed

lemma hostile_buf:
  "\<exists>b. MemToBuf (map Some [0, 0, 0, 1, 0xff, 0xff, 0xff, 0xff, 7]) 9 = Some b
    \<and> reading b [0, 0, 0, 1, 0xff, 0xff, 0xff, 0xff, 7]"
  by (rule MemToBuf_reading) simp_all

theorem pack_reader_safe_witness:
  "\<exists>b r b'. MemToBuf (map Some [0, 0, 0, 1, 0xff, 0xff, 0xff, 0xff, 7]) 9 = Some b \<and> BufToPack b = Some (r, b')
    \<and> contents b' = contents b"
proof -
  obtain b where b: "MemToBuf (map Some [0, 0, 0, 1, 0xff, 0xff, 0xff, 0xff, 7]) 9 = Some b"
    "reading b [0, 0, 0, 1, 0xff, 0xff, 0xff, 0xff, 7]" using hostile_buf by blast
  then have "buf_wf b" by (simp add: reading_def)
  with b pack_reader_safe [of b] show ?thesis by blast
qed

text \<open>An integer that one end adds under a new name with \<^const>\<open>PackAddInt\<close> is what
  \<^const>\<open>PackGetInt\<close> returns at the other end, and the other elements arrive with it.\<close>

theorem int_arrives:
  assumes "pack_ok p" and "name_ok name" and "StrUpper name \<notin> dom (pack_map p)"
    and "length (items (elements p)) < 262144" and "length (enc_pack p) + length name + 16 \<le> BUF_MAX"
  shows "\<exists>p' b b' q q'. PackAddInt p name i = (True, p') \<and> PackToBuf p' = Some b
      \<and> BufToPack (SeekBufToBegin b) = Some (Some q, b') \<and> PackGetInt q name = Some (i, q')
      \<and> (\<forall>k. k \<noteq> StrUpper name \<longrightarrow> pack_map q k = map_option reread_element (pack_map p k))"
  by (rule transfer_int [OF assms])

theorem int_arrives_witness:
  "\<exists>p' b b' q q'. PackAddInt demo_pack (ascii ''port'') 443 = (True, p') \<and> PackToBuf p' = Some b
      \<and> BufToPack (SeekBufToBegin b) = Some (Some q, b') \<and> PackGetInt q (ascii ''port'') = Some (443, q')"
proof -
  have "name_ok (ascii ''port'')" "StrUpper (ascii ''port'') \<notin> dom (pack_map demo_pack)"
    "length (ascii ''port'') = 4"
    unfolding demo_pack_ok(3)
    by (simp_all add: name_ok_def ascii_def StrUpper_def ToUpper_def word_sless_alt word_sle_eq)
  with int_arrives [of demo_pack "ascii ''port''" 443] demo_pack_ok show ?thesis by auto
qed

text \<open>An address, IPv4 or IPv6 with its scope, that is added to a pack with
  \<^const>\<open>PackAddIp\<close> is read back by \<^const>\<open>PackGetIp\<close>.\<close>

theorem ip_roundtrip:
  assumes "pack_wf p" and "is_cstr name" and "length name \<le> 49"
    and "\<forall>n \<in> set (ip_names name). StrUpper n \<notin> dom (pack_map p)"
    and "length (items (elements p)) + 4 \<le> 262144" and "ip_ok ip"
  shows "\<exists>p' p''. PackAddIp p name ip = Some p' \<and> PackGetIp p' name = Some (True, ip, p'')
      \<and> pack_map p'' = pack_map p'"
  using PackAddIp_members [OF assms] PackGetIp_members [OF _ assms(2,3,6)] by meson

theorem ip_roundtrip_witness:
  "\<exists>p' p''. PackAddIp NewPack (ascii ''ip'') (SetIP6 [0x20, 1, 0xd, 0xb8, 0, 0, 0, 0, 0, 0, 0, 0, 0, 0, 0, 1]) = Some p'
    \<and> PackGetIp p' (ascii ''ip'') =
      Some (True, SetIP6 [0x20, 1, 0xd, 0xb8, 0, 0, 0, 0, 0, 0, 0, 0, 0, 0, 0, 1], p'')"
proof -
  let ?ip = "SetIP6 [0x20, 1, 0xd, 0xb8, 0, 0, 0, 0, 0, 0, 0, 0, 0, 0, 0, 1]"
  have "ip_ok ?ip" by (simp add: ip_ok_def SetIP6_def ZeroIP_def IsIP6_def)
  moreover have "items (elements NewPack) = []" by (simp add: NewPack_def lst_new_def)
  moreover have "is_cstr (ascii ''ip'')" "length (ascii ''ip'') \<le> 49" by (simp_all add: ascii_def)
  ultimately show ?thesis using ip_roundtrip [of NewPack "ascii ''ip''" ?ip] NewPack_wf by fastforce
qed

text \<open>C30: \<^const>\<open>AddElement\<close> refines the update of a finite map from names (up to case) to
  elements: it succeeds exactly when there is room, the name is new and the element has a value.\<close>

theorem add_element_refines:
  assumes "pack_wf p" and "name_ok (E_name e)" and "AddElement p (Some e) = (ok, p')"
  shows "pack_wf p' \<and>
    ok = (length (items (elements p)) < 262144 \<and> pack_map p (StrUpper (E_name e)) = None \<and> num_value e \<noteq> 0) \<and>
    pack_map p' = (if ok then (pack_map p)(StrUpper (E_name e) \<mapsto>
        e\<lparr>JsonHint_GroupName := fst (StrCpy 64 (CurrentJsonHint_GroupName p))\<rparr>) else pack_map p)"
  using AddElement_spec [OF assms] by blast

theorem add_element_refines_witness:
  "\<exists>p'. AddElement demo_pack (Some (demo_element\<lparr>E_name := ascii ''METHOD''\<rparr>)) = (False, p')
    \<and> pack_map p' = pack_map demo_pack"
proof -
  let ?e = "demo_element\<lparr>E_name := ascii ''METHOD''\<rparr>"
  have u: "StrUpper (ascii ''METHOD'') = StrUpper (ascii ''method'')"
    by (simp add: ascii_def StrUpper_def ToUpper_def word_sless_alt word_sle_eq)
  have "name_ok (E_name ?e)" by (simp add: name_ok_def ascii_def)
  moreover have "pack_wf demo_pack" using demo_pack_ok(1) by (simp add: pack_ok_def)
  moreover obtain ok p' where a: "AddElement demo_pack (Some ?e) = (ok, p')" by fastforce
  ultimately show ?thesis
    using add_element_refines [of demo_pack ?e ok p'] u demo_pack_ok(3) by auto
qed

text \<open>\<^const>\<open>DelElement\<close> removes a name from the finite map, whatever its case, and a
  search for it finds nothing afterwards.\<close>

theorem del_element_refines:
  assumes "pack_wf p" and "name_ok name"
  shows "pack_wf (DelElement p name) \<and> pack_map (DelElement p name) = (pack_map p)(StrUpper name := None)
    \<and> fst (GetElement (DelElement p name) name INFINITE) = None"
proof -
  have d: "pack_wf (DelElement p name)" "pack_map (DelElement p name) = (pack_map p)(StrUpper name := None)"
    using DelElement_spec [OF assms] by auto
  obtain e q where "GetElement (DelElement p name) name INFINITE = (e, q)" by fastforce
  with GetElement_spec(1) [OF d(1) assms(2) this] d show ?thesis by simp
qed

theorem del_element_refines_witness:
  "fst (GetElement (DelElement demo_pack (ascii ''Method'')) (ascii ''Method'') INFINITE) = None"
  using del_element_refines [of demo_pack "ascii ''Method''"] demo_pack_ok(1)
  by (simp add: pack_ok_def name_ok_def ascii_def)

section \<open>Buffers\<close>

text \<open>\<^const>\<open>WriteBuf\<close> writes at the cursor and truncates the buffer behind what it wrote;
  the reserved size grows by doubling as far as the 2684354560 bytes that the doubling can reach.\<close>

theorem write_truncates:
  assumes "buf_wf b" and "unat sz \<le> length p" and "None \<notin> set (take (unat sz) p)"
    and "sz \<noteq> 0" and "unat (Current b) + unat sz \<le> BUF_MAX"
  shows "\<exists>b'. WriteBuf b p sz = Some b' \<and> buf_wf b' \<and> Current b' = Size b'
      \<and> contents b' = take (unat (Current b)) (contents b) @ map the (take (unat sz) p)"
  by (rule WriteBuf_spec [OF assms])

theorem write_truncates_witness:
  "\<exists>b b'. MemToBuf (map Some [1, 2, 3]) 3 = Some b \<and> WriteBuf b [Some 9] 1 = Some b' \<and> contents b' = [9]"
proof -
  obtain b where b: "MemToBuf (map Some [1, 2, 3]) 3 = Some b" "reading b [1, 2, 3]"
    using MemToBuf_reading [of "[1, 2, 3]" 3] by auto
  then have wf: "buf_wf b" and u: "unread b = [1, 2, 3]" by (simp_all add: reading_def)
  have "Current b = 0"
    using b(1) by (auto simp: MemToBuf_def SeekBuf_def MAKESURE_def LESS_def MORE_def bind_Some_conv Let_def)
  with write_truncates [of b 1 "[Some 9]"] wf b(1) show ?thesis by auto
qed

text \<open>A request for more memory than the doubling can reach never returns (the program
  aborts in the allocation); no buffer of that size exists.\<close>

theorem adjust_limit:
  assumes "buf_wf b"
  shows "AdjustBufSize b n = None \<longleftrightarrow> BUF_MAX < unat n"
proof (cases "unat n \<le> BUF_MAX")
  case True
  then show ?thesis using AdjustBufSize_ok [OF assms True] by auto
next
  case False
  then show ?thesis using AdjustBufSize_too_large [OF assms] by simp
qed

theorem adjust_limit_witness: "\<exists>b. NewBuf = Some b \<and> AdjustBufSize b 0xA0000001 = None"
proof -
  obtain b where b: "NewBuf = Some b" "writing b []" using NewBuf_writing by auto
  then have "buf_wf b" by (simp add: writing_def)
  with b adjust_limit [of b "0xA0000001"] show ?thesis by auto
qed

text \<open>C39: the bound check of \<^const>\<open>ReadBuf\<close> adds 32-bit numbers: a length that a peer
  chose can wrap the sum around and take the cursor back to the beginning of the buffer.\<close>

theorem skip_goes_back:
  assumes "Current b \<noteq> 0" and "Size b \<noteq> 0"
  shows "ReadBuf b False (- Current b) = Some (- Current b, [], b\<lparr>Current := 0\<rparr>)"
  using assms by (auto simp: ReadBuf_def Let_def word_le_0_iff)

theorem skip_goes_back_witness:
  "ReadBuf \<lparr>Buf = [Some 1, Some 2, Some 3], Size = 3, SizeReserved = 3, Current = 2\<rparr> False (- 2) =
    Some (- 2, [], \<lparr>Buf = [Some 1, Some 2, Some 3], Size = 3, SizeReserved = 3, Current = 0\<rparr>)"
  using skip_goes_back [of "\<lparr>Buf = [Some 1, Some 2, Some 3], Size = 3, SizeReserved = 3, Current = 2\<rparr>"]
  by simp

section \<open>Queues and blocks\<close>

text \<open>A queue of pointers behaves as a first-in first-out list under every script of
  insertions, removals and peeks that stays within its capacity.\<close>

theorem queue_is_fifo:
  assumes "ops_fit QUEUE_MAX 0 os"
  shows "\<exists>q q'. NewQueue = Some q \<and>
    run_ops (\<lambda>q x. InsertQueue q (Some x)) (GetNext FIFO_REALLOC_MEM_SIZE) PeekQueue q os
      = Some (fst (list_ops [] os), q') \<and> queue_rel FIFO_REALLOC_MEM_SIZE q' (snd (list_ops [] os))"
proof -
  obtain q :: "'a QUEUE" where q: "NewQueue = Some q" "queue_rel FIFO_REALLOC_MEM_SIZE q []"
    using NewQueue_rel by blast
  have "ops_fit QUEUE_MAX (length ([] :: 'a list)) os" using assms by simp
  from pointer_queue.run_list_ops [OF q(2) this] q(1) show ?thesis by blast
qed

theorem queue_is_fifo_witness:
  "\<exists>q q'. NewQueue = Some q \<and>
    run_ops (\<lambda>q x. InsertQueue q (Some x)) (GetNext FIFO_REALLOC_MEM_SIZE) PeekQueue q
      [Ins (7 :: nat), Ins 8, Next, Peek, Next, Next] = Some ([Some 7, Some 8, Some 8, None], q')"
  using queue_is_fifo [of "[Ins (7 :: nat), Ins 8, Next, Peek, Next, Next]"] by auto

text \<open>C29: what is written to a block FIFO is what the next reads return, byte by byte and in
  order, whatever was in it before and however the memory was moved and shrunk.\<close>

theorem fifo_write_read:
  assumes "fifo_wf r f" and "fifo_room r (length (fifo_cells f)) (unat sz)" and "unat sz \<le> length src"
    and "sz \<noteq> 0"
  shows "\<exists>f1 f2 f3 n d. WriteFifo f (Some src) sz = Some f1 \<and>
    ReadFifo r f1 True (FIFO_size f) = Some (FIFO_size f, fifo_cells f, f2) \<and>
    ReadFifo r f2 True n = Some (d, take (unat n) (take (unat sz) src), f3) \<and>
    d = min n sz \<and> fifo_cells f3 = drop (unat n) (take (unat sz) src)"
proof -
  obtain f1 where f1: "WriteFifo f (Some src) sz = Some f1" "fifo_wf r f1"
    "fifo_cells f1 = fifo_cells f @ take (unat sz) src" using WriteFifo_spec [OF assms(1-3)] by blast
  have len: "length (fifo_cells f) = unat (FIFO_size f)" by (rule fifo_cells_length [OF assms(1)])
  have "unat (FIFO_size f1) = unat (FIFO_size f) + unat sz"
    using fifo_cells_length [OF f1(2)] f1(3) assms(3) len by simp
  then have le: "FIFO_size f \<le> FIFO_size f1" by (simp add: unat_order)
  obtain f2 where f2: "ReadFifo r f1 True (FIFO_size f) = Some (FIFO_size f, fifo_cells f, f2)" "fifo_wf r f2"
    "fifo_cells f2 = take (unat sz) src"
    using ReadFifo_spec [OF f1(2), of "FIFO_size f"] f1(3) len le by (auto simp: min_def)
  have sz: "FIFO_size f2 = sz"
    using fifo_cells_length [OF f2(2)] f2(3) assms(3) by (metis length_take min.absorb2 of_nat_unat32)
  obtain f3 where "ReadFifo r f2 True n = Some (min n sz, take (unat n) (take (unat sz) src), f3)"
    "fifo_cells f3 = drop (unat n) (take (unat sz) src)"
    using ReadFifo_spec [OF f2(2), of n] f2(3) sz by auto
  with f1(1) f2(1) show ?thesis by blast
qed

theorem fifo_write_read_witness:
  "\<exists>f f1 f2 f3 n d. NewFifoEx2 True False = Some (f :: nat FIFO) \<and> WriteFifo f (Some [Some 5, Some 6]) 2 = Some f1 \<and>
    ReadFifo 0 f1 True (FIFO_size f) = Some (FIFO_size f, fifo_cells f, f2) \<and>
    ReadFifo 0 f2 True n = Some (d, take (unat n) [Some 5, Some 6], f3)"
proof -
  obtain f :: "nat FIFO" where f: "NewFifoEx2 True False = Some f" "fifo_wf 0 f" "fifo_cells f = []"
    using NewFifo_ok [of True False 0] by blast
  then show ?thesis
    using fifo_write_read [of 0 f 2 "[Some 5, Some 6]"] by (fastforce simp: fifo_room_def)
qed

text \<open>\<^const>\<open>WriteFifoFront\<close> moves the start of the data back without room for it: with
  less free space in front than it is given, it writes outside its memory.\<close>

theorem write_front_overruns:
  assumes "fifo_wf r f" and "FIFO_pos f < sz" and "unat sz \<le> length p"
    and "unat (FIFO_memsize f) + unat sz \<le> 0x7FFFFFFF"
  shows "WriteFifoFront f p sz = None"
  by (rule WriteFifoFront_out_of_bounds [OF assms])

theorem write_front_overruns_witness:
  "\<exists>f. NewFifoEx2 True False = Some (f :: nat FIFO) \<and> WriteFifoFront f [Some 5] 1 = None"
proof -
  obtain f :: "nat FIFO" where f: "NewFifoEx2 True False = Some f" "fifo_wf 0 f"
    using NewFifo_ok [of True False 0] by blast
  then have "FIFO_pos f = 0" "unat (FIFO_memsize f) \<le> 4096"
    by (auto simp: NewFifoEx2_def bind_Some_conv)
  with f write_front_overruns [of 0 f 1 "[Some 5]"] show ?thesis by auto
qed

section \<open>Lists\<close>

text \<open>C31: on a list whose comparison function is a comparison, the binary search of
  \<^const>\<open>Search\<close> after \<^const>\<open>Insert\<close> finds an element with the inserted key, and both
  keep the representation of the abstract list.\<close>

theorem insert_search:
  assumes "list_rep o1 l" and "length (items l) < LIST_MAX" and "LIST_cmp o1 = Some c"
    and "comparator (call c)" and "lst_ok (call c) l"
  shows "\<exists>o2 o3 y l'. Insert call o1 (Some x) = Some o2 \<and> Search call o2 (Some x) = Some (Some y, o3)
    \<and> call c x y = 0 \<and> list_rep o3 l' \<and> lst_ok (call c) l' \<and> mset (items l') = add_mset x (mset (items l))"
proof -
  let ?l = "lst_insert (Some (call c)) l x"
  obtain o2 where o2: "Insert call o1 (Some x) = Some o2" "list_rep o2 ?l" "LIST_cmp o2 = Some c"
    using Insert_rep [OF assms(1,2), of call x] assms(3) by auto
  have ok: "lst_ok (call c) ?l" "mset (items ?l) = add_mset x (mset (items l))"
    using comparator.lst_insert_spec [OF assms(4,5), of x] by auto
  obtain y l' where s: "lst_search (Some (call c)) ?l x = (Some y, l')" "call c x y = 0"
    using comparator.insert_then_search [OF assms(4,5), of x] by (metis prod.collapse)
  from Search_rep [OF o2(2), of call x] s(1) o2(3) obtain o3 where
    o3: "Search call o2 (Some x) = Some (Some y, o3)" "list_rep o3 l'" by auto
  have "lst_ok (call c) l' \<and> mset (items l') = mset (items ?l)"
    using comparator.lst_search_spec [OF assms(4) ok(1) s(1)] by blast
  with o2(1) o3 s(2) ok(2) show ?thesis by auto
qed

theorem insert_search_witness:
  "\<exists>o1 o2 o3 y. NewList (Some ()) = Some (o1 :: (u32, unit) LIST) \<and>
    Insert (\<lambda>_. CompareInt) o1 (Some 5) = Some o2 \<and> Search (\<lambda>_. CompareInt) o2 (Some 5) = Some (Some y, o3)
    \<and> CompareInt 5 y = 0"
proof -
  obtain o1 :: "(u32, unit) LIST" where o1: "NewList (Some ()) = Some o1" "list_rep o1 lst_new" "LIST_cmp o1 = Some ()"
    using NewList_rep [of "Some ()" False False] by (auto simp: NewList_def NewListEx_def)
  have "lst_ok CompareInt lst_new" by (rule int_cmp.lst_new_ok)
  then show ?thesis
    using insert_search [of o1 lst_new "()" "\<lambda>_. CompareInt" 5] o1 int_cmp.comparator_axioms
    by (fastforce simp: lst_new_def)
qed

text \<open>\<^const>\<open>Delete\<close> on an array of pointers refines the removal of the first occurrence
  from the list, and reports whether there was one.\<close>

theorem delete_refines:
  assumes "list_rep o1 l"
  shows "\<exists>o2 l'. Delete o1 (Some x) = Some (x \<in> set (items l), o2) \<and> list_rep o2 l'
      \<and> items l' = remove1 x (items l) \<and> is_sorted l' = is_sorted l"
proof -
  obtain o2 where "Delete o1 (Some x) = Some (fst (lst_delete l x), o2)" "list_rep o2 (snd (lst_delete l x))"
    using Delete_rep [OF assms, of x] by blast
  then show ?thesis
    by (intro exI [of _ o2] exI [of _ "snd (lst_delete l x)"]) (simp add: lst_delete_def)
qed

theorem delete_refines_witness:
  "\<exists>o1 o2. NewList None = Some (o1 :: (nat, unit) LIST) \<and> Delete o1 (Some 3) = Some (False, o2)"
proof -
  obtain o1 :: "(nat, unit) LIST" where o1: "NewList None = Some o1" "list_rep o1 lst_new"
    using NewList_rep [of None False False] by (auto simp: NewList_def NewListEx_def)
  with delete_refines [OF o1(2), of 3] show ?thesis by (auto simp: lst_new_def)
qed

text \<open>The clone of an empty list reserves no memory, and the first \<^const>\<open>Add\<close> to it writes
  outside its array: doubling a reserve of nothing leaves nothing.\<close>

theorem empty_clone_overruns:
  fixes o1 :: "('a, 'c) LIST"
  assumes "list_rep o1 l" and "items l = []"
  shows "\<exists>o2. CloneList o1 = Some o2 \<and> Add o2 (Some x) = None"
  by (rule CloneList_empty_Add [OF assms])

theorem empty_clone_overruns_witness:
  "\<exists>o1 o2. NewList None = Some (o1 :: (nat, unit) LIST) \<and> CloneList o1 = Some o2 \<and> Add o2 (Some 3) = None"
proof -
  obtain o1 :: "(nat, unit) LIST" where o1: "NewList None = Some o1" "list_rep o1 lst_new"
    using NewList_rep [of None False False] by (auto simp: NewList_def NewListEx_def)
  with empty_clone_overruns [OF o1(2), of 3] show ?thesis by (auto simp: lst_new_def)
qed

text \<open>\<^const>\<open>Pop\<close> after \<^const>\<open>Push\<close> returns the pushed pointer and leaves the stack
  it was, through every growth and compaction of its array.\<close>

theorem stack_lifo:
  assumes "sk_rep s xs" and "length xs < LIST_MAX"
  shows "\<exists>s1 s2. Push s (Some x) = Some s1 \<and> Pop s1 = Some (Some x, s2) \<and> sk_rep s2 xs"
proof -
  obtain s1 where s1: "Push s (Some x) = Some s1" "sk_rep s1 (x # xs)" using Push_rep [OF assms, of x] by blast
  with Pop_rep [OF s1(2)] show ?thesis by blast
qed

theorem stack_lifo_witness:
  "\<exists>s s1 s2. NewSkEx False = Some (s :: nat SK) \<and> Push s (Some 4) = Some s1 \<and> Pop s1 = Some (Some 4, s2)"
proof -
  obtain s :: "nat SK" where s: "NewSkEx False = Some s" "sk_rep s []" using NewSk_rep [of False] by blast
  with stack_lifo [OF s(2), of 4] show ?thesis by auto
qed

text \<open>A sorted list of integers with distinct members stays one under
  \<^const>\<open>InsertIntDistinct\<close>, which adds exactly the given integer to its set.\<close>

theorem int_set_insert:
  assumes "intlist_ok l"
  shows "intlist_ok (InsertIntDistinct l i) \<and>
    set (items (il_list (InsertIntDistinct l i))) = insert i (set (items (il_list l)))"
  using InsertIntDistinct_ok [OF assms] by blast

theorem int_set_insert_witness:
  "set (items (il_list (InsertIntDistinct (InsertIntDistinct (NewIntList True) 5) 3))) = {3, 5}"
  using int_set_insert [OF intlist_new_ok, of 5] int_set_insert [of "InsertIntDistinct (NewIntList True) 5" 3]
  by (simp add: NewIntList_def lst_new_def insert_commute)

text \<open>The shuffled list of \<^const>\<open>RandomizeList\<close> is a permutation of the list, for every
  source of random numbers.\<close>

theorem shuffle_permutes: "mset (items (RandomizeList rnd l)) = mset (items l)"
  by (rule RandomizeList_mset)

section \<open>Strings\<close>

text \<open>\<^const>\<open>StrCmpi\<close> is the comparison of the upper-cased strings: a total preorder,
  equal exactly on the strings that differ in case only.\<close>

theorem compare_strings:
  "StrCmpi t s = - StrCmpi s t \<and> (StrCmpi s t \<le> 0 \<and> StrCmpi t u \<le> 0 \<longrightarrow> StrCmpi s u \<le> 0) \<and>
   (is_cstr s \<and> is_cstr t \<longrightarrow> (StrCmpi s t = 0) = (StrUpper s = StrUpper t))"
  using str_compare.cmp_swap [of t s] str_compare.cmp_trans [of s t u] StrCmpi_eq_iff [of s t] by blast

theorem compare_strings_witness:
  "(StrCmpi (ascii ''Hub'') (ascii ''hUB'') = 0) = (StrUpper (ascii ''Hub'') = StrUpper (ascii ''hUB''))"
  using compare_strings [of "ascii ''hUB''" "ascii ''Hub''" "[]"] by (simp add: ascii_def)

text \<open>\<^const>\<open>StrCat\<close> never makes a string longer than its buffer allows: it is the
  concatenation cut to the size less the terminating zero.\<close>

theorem concatenation_bounded:
  assumes "unat sz < 0x7FFFFFFF" and "sz \<noteq> 0" and "length dst < unat sz" and "length src < 0x7FFFFFFF"
  shows "fst (StrCat dst sz src) = take (unat sz - 1) (dst @ src) \<and> length (fst (StrCat dst sz src)) < unat sz"
  using StrCat_result [OF assms] assms(3) by auto

theorem concatenation_bounded_witness: "fst (StrCat (ascii ''abc'') 6 (ascii ''defg'')) = ascii ''abcde''"
  using concatenation_bounded [of 6 "ascii ''abc''" "ascii ''defg''"] by (simp add: ascii_def)

text \<open>\<^const>\<open>Trim\<close> removes exactly the blanks at both ends; trimming again changes nothing.\<close>

theorem trim_strips:
  "Trim s = rtrim (dropWhile is_blank s) \<and> trimmed (Trim s) \<and> Trim (Trim s) = Trim s \<and>
   length (Trim s) \<le> length s"
  using trimmed_Trim [of s] length_Trim [of s] by (simp add: Trim_strip [symmetric])

text \<open>\<^const>\<open>HexToInt\<close> reads every number back from the digits of \<^const>\<open>ToHex\<close>.\<close>

theorem hex_roundtrip: "HexToInt (ToHex v) = v"
  by (rule HexToInt_ToHex_digits)

text \<open>C26: text of the basic plane survives the conversion to UTF-8 and back, on hosts of both byte
  orders, with buffers of exactly the sizes that the two size functions compute.\<close>

theorem utf8_roundtrip:
  assumes "is_wstr s" and "list_all bmp s" and "s \<noteq> []" and "length (utf8_of s) \<le> 0x3ffffff0"
  shows "UniToUtf8 le (CalcUniToUtf8 le s) s = utf8_of s \<and>
    CalcUtf8ToUni (utf8_of s) (CalcUniToUtf8 le s) = Some ((of_nat (length s) + 1) * 4) \<and>
    Utf8ToUni ((of_nat (length s) + 1) * 4) (utf8_of s) (CalcUniToUtf8 le s) = Some (s, True)"
proof -
  have n: "unat (of_nat (length (utf8_of s)) :: u32) = length (utf8_of s)"
    using assms(4) by (intro unat_of_nat32) simp
  have d: "decode (utf8_of s) = s" using decode_utf8_of [OF assms(2), of "[]"] by (simp add: decode.simps [of "[]"])
  have "utf8_of s \<noteq> []" using assms(3) d by (auto simp: decode.simps [of "[]"])
  then have nz: "(of_nat (length (utf8_of s)) :: u32) \<noteq> 0" using n by (metis length_0_conv unat_0)
  have "s = decode (take (unat (of_nat (length (utf8_of s)) :: u32)) (utf8_of s))" using n d by simp
  note u = Utf8_decode [OF _ nz _ this]
  have "UniToUtf8 le (of_nat (length (utf8_of s))) s = utf8_of s"
    using UniToUtf8_exact [OF nz] n by simp
  then show ?thesis unfolding CalcUniToUtf8_length using u n assms(4) by simp
qed

theorem utf8_roundtrip_witness:
  "UniToUtf8 True (CalcUniToUtf8 True [0x41, 0x3042]) [0x41, 0x3042] = utf8_of [0x41, 0x3042] \<and>
   Utf8ToUni 12 (utf8_of [0x41, 0x3042]) (CalcUniToUtf8 True [0x41, 0x3042]) = Some ([0x41, 0x3042], True)"
proof -
  have "list_all bmp [0x41, 0x3042]" by (simp add: bmp_def)
  moreover have "is_wstr [0x41, 0x3042]" by (simp add: is_wstr_def)
  moreover have "length (utf8_of [0x41, 0x3042]) \<le> 0x3ffffff0"
    using length_uni_bytes_le [of True "0x41"] length_uni_bytes_le [of True "0x3042"] by (simp add: utf8_of_def)
  ultimately show ?thesis using utf8_roundtrip [of "[0x41, 0x3042]" True] by simp
qed

text \<open>C38: decoding never reads outside its input or writes outside the buffer that
  \<^const>\<open>CalcUtf8ToUni\<close> sized for it, whatever the bytes are; it gives the characters of the
  reference decoder.\<close>

theorem utf8_decoding_safe:
  assumes "unat sz \<le> length u" and "sz \<noteq> 0" and "unat sz \<le> 0x3ffffff0"
  shows "\<exists>n. CalcUtf8ToUni u sz = Some n \<and>
    Utf8ToUni n u sz = Some (decode (take (unat sz) u), True) \<and>
    n = (of_nat (length (decode (take (unat sz) u))) + 1) * 4"
  using Utf8_decode [OF assms refl] by simp

theorem utf8_decoding_safe_witness:
  "\<exists>n. CalcUtf8ToUni [0xe3, 0x81, 0x82, 0xff, 0xe3] 5 = Some n \<and>
    Utf8ToUni n [0xe3, 0x81, 0x82, 0xff, 0xe3] 5 = Some (decode [0xe3, 0x81, 0x82, 0xff, 0xe3], True)"
  using utf8_decoding_safe [of 5 "[0xe3, 0x81, 0x82, 0xff, 0xe3]"] by auto

section \<open>Checksums\<close>

text \<open>A block that carries the Internet checksum computed with zeros in its place sums to zero,
  so that the receiver's test accepts it, on hosts of both byte orders.\<close>

theorem checksum_accepts:
  assumes "even (length a)" and "length a + length b + 2 < 32768"
  shows "IpChecksum le (a @ mem16 le (IpChecksum le (a @ [0, 0] @ b)) @ b) = 0"
  by (rule checksum_verifies [OF assms])

theorem checksum_accepts_witness:
  "IpChecksum True ([0x45, 0] @ mem16 True (IpChecksum True ([0x45, 0] @ [0, 0] @ [1, 2, 3])) @ [1, 2, 3]) = 0"
  by (rule checksum_accepts) simp_all

text \<open>Replacing one aligned 16-bit word changes the checksum, unless it replaces one
  representation of zero by the other.\<close>

theorem checksum_sees_change:
  assumes "even (length a)" and "length a + length b + 2 < 32768" and "x \<noteq> y" and "{x, y} \<noteq> {0, 0xFFFF}"
  shows "IpChecksum le (a @ mem16 le x @ b) \<noteq> IpChecksum le (a @ mem16 le y @ b)"
  by (rule checksum_detects [OF assms])

theorem checksum_sees_change_witness:
  "IpChecksum True ([] @ mem16 True 1 @ [7]) \<noteq> IpChecksum True ([] @ mem16 True 2 @ [7])"
  by (rule checksum_sees_change) (auto simp: doubleton_eq_iff)

section \<open>The layer-3 switch\<close>

definition demo_if :: L3IF where
  "demo_if = L3InitInterface (\<lambda>x. [1, 2, 3, 4]) [0, 0xac, 0, 0, 0, 0] True (ascii ''SW'')
     (new_if (ascii ''HUB'') 0x0101a8c0 0x00ffffff)"

lemma demo_if_inv: "if_inv demo_if"
  unfolding demo_if_def by (rule InitInterface_inv) simp_all

text \<open>The packet for 192.168.1.2 behind the interface 192.168.1.1/24.\<close>

definition demo_packet :: L3PACKET where
  "demo_packet =
     \<lparr>Packet = no_packet\<lparr>PacketData := replicate 12 0 @ [8, 0, 0x45] @ replicate 15 0 @ [192, 168, 1, 2],
         MacAddressSrc_at := 6, TypeL3 := L3_IPV4, L3_at := Some 14\<rparr>,
      PACKET_Expire = 0, NextHopIp = 0x0201a8c0\<rparr>"

text \<open>C9: whatever ARP packets, IP packets and frame requests reach an interface, in any order and at
  any time, its ARP table and its table of queries keep one entry per address, every ARP entry is
  inside the network of the interface, no packet waits for an address that is known, and every
  frame it sends has a complete MAC header.\<close>

theorem interface_invariant:
  assumes "length gen = 6" and "\<And>x. 4 \<le> length (sha1 x)"
    and "if_reach le (L3InitInterface sha1 gen le name f0) f"
  shows "distinct (map ARPENTRY_IpAddress (items (ArpTable f))) \<and>
    distinct (map ARPWAIT_IpAddress (items (ArpWaitTable f))) \<and>
    (\<forall>e \<in> set (items (ArpTable f)). ARPENTRY_IpAddress e AND SubnetMask f = IpAddress f AND SubnetMask f) \<and>
    (\<forall>p \<in> set (items (IpWaitList f)). NextHopIp p \<notin> ARPENTRY_IpAddress ` set (items (ArpTable f))) \<and>
    (\<forall>d \<in> set (SendQueue f). 14 \<le> length d)"
proof -
  have "if_inv (L3InitInterface sha1 gen le name f0)"
    by (rule InitInterface_inv) (rule assms(1), rule assms(2))
  with reach_inv [OF assms(3)] have inv: "if_inv f" .
  have "arp_view f (ARPENTRY_IpAddress e) = Some e" if "e \<in> set (items (ArpTable f))" for e
    using that if_inv_tables(3) [OF inv] by (simp add: arp_view_eq arp_table.view_Some)
  moreover have "NextHopIp p \<notin> ARPENTRY_IpAddress ` set (items (ArpTable f))"
    if "p \<in> set (items (IpWaitList f))" for p
    using if_inv_stuck [OF inv that] by (simp add: arp_view_eq arp_table.view_None)
  ultimately show ?thesis
    using inv by (simp add: if_inv_def tables_ok_def frames_ok_def arp_ok_def)
qed

theorem interface_invariant_witness:
  "list_all (\<lambda>d. 14 \<le> length d) (SendQueue (L3StoreIpPacketToIf demo_if demo_packet))"
proof -
  have "if_step True demo_if (L3StoreIpPacketToIf demo_if demo_packet)"
    by (rule packet_stored) (simp add: demo_packet_def packet_ok_def no_packet_def)
  then have "if_reach True demo_if (L3StoreIpPacketToIf demo_if demo_packet)"
    by (rule if_next [OF if_start])
  then show ?thesis
    using interface_invariant [of "[0, 0xac, 0, 0, 0, 0]" "\<lambda>x. [1, 2, 3, 4]" True "ascii ''SW''"
        "new_if (ascii ''HUB'') 0x0101a8c0 0x00ffffff" "L3StoreIpPacketToIf demo_if demo_packet"]
    by (simp add: demo_if_def list_all_iff)
qed

text \<open>C28: a packet for a neighbour with an unknown MAC address is kept, and leaves, after the
  packets that wait for the same neighbour, in a frame to the MAC address with which the neighbour
  is heard of next.\<close>

theorem waiting_packet_leaves:
  assumes "if_inv f" and "TypeL3 (Packet p) = L3_IPV4" and "packet_ok (Packet p)"
    and "\<not> is_broadcast f (NextHopIp p)" and "IPv4_DstIP le (Packet p) \<noteq> IpAddress f"
    and "NextHopIp p \<noteq> 0" and "NextHopIp p AND SubnetMask f = IpAddress f AND SubnetMask f"
    and "arp_view f (NextHopIp p) = None"
  shows "SendQueue (L3SendIp le now f p) = SendQueue f \<and>
    SendQueue (L3KnownArp le later (L3SendIp le now f p) (NextHopIp p) mac) =
    SendQueue f @ map (ip_frame mac (MacAddress f))
      (filter (\<lambda>q. NextHopIp q = NextHopIp p) (items (IpWaitList f)) @ [p])"
proof -
  obtain l l2 where "L3SendIp le now f p = f\<lparr>ArpTable := l, ArpWaitTable := l2, IpWaitList :=
      lst_add (IpWaitList f) (p\<lparr>PACKET_Expire := now + IP_WAIT_FOR_ARP_TIMEOUT\<rparr>)\<rparr>"
    using SendIp_unknown [OF assms(2,4,5) if_inv_tables(1) [OF assms(1)], of now] assms(8) by blast
  then have "SendQueue (L3SendIp le now f p) = SendQueue f" by simp
  with resolution_delivers [OF assms] show ?thesis by blast
qed

lemma demo_unknown:
  "TypeL3 (Packet demo_packet) = L3_IPV4" "packet_ok (Packet demo_packet)"
  "\<not> is_broadcast demo_if (NextHopIp demo_packet)" "IPv4_DstIP True (Packet demo_packet) \<noteq> IpAddress demo_if"
  "NextHopIp demo_packet \<noteq> 0"
  "NextHopIp demo_packet AND SubnetMask demo_if = IpAddress demo_if AND SubnetMask demo_if"
  "arp_view demo_if (NextHopIp demo_packet) = None" "SendQueue demo_if = []" "items (IpWaitList demo_if) = []"
  "MacAddress demo_if = [0, 0xa3, 1, 2, 3, 4]"
  by (simp_all add: demo_packet_def demo_if_def is_broadcast_def new_if_def if_zero_def L3InitInterface_def
      L3GenerateMacAddress_def IPv4_DstIP_def PointerL3_def of_mem32_def arp_view_def lst_new_def Let_def packet_ok_def no_packet_def)

theorem waiting_packet_leaves_witness:
  "SendQueue (L3KnownArp True 2000 (L3SendIp True 1000 demo_if demo_packet) 0x0201a8c0 [2, 2, 2, 2, 2, 2]) =
    [ip_frame [2, 2, 2, 2, 2, 2] [0, 0xa3, 1, 2, 3, 4] demo_packet]"
  using waiting_packet_leaves [OF demo_if_inv demo_unknown(1-7), of 1000 2000 "[2, 2, 2, 2, 2, 2]"]
  unfolding demo_unknown(8-10) by (simp add: demo_packet_def)

text \<open>C36: a session that takes a frame from an interface always gets an answer: the first frame
  queued, or, when none is, the first one that a single polling produces, or none; the loop of
  \<^const>\<open>L3GetNextPacket\<close> ends.\<close>

theorem frame_request_returns:
  assumes "if_inv f"
  shows "\<exists>n d g. L3GetNextPacket le now f = Some (n, d, g) \<and> if_inv g \<and>
    (let h = (if SendQueue f = [] then L3Polling le now f else f)
     in SendQueue h = [] \<and> n = 0 \<and> g = h \<or>
        (\<exists>fr. SendQueue h = fr # SendQueue g \<and> d = Some fr \<and> n = length fr))"
proof -
  let ?h = "if SendQueue f = [] then L3Polling le now f else f"
  have inv: "if_inv ?h" using assms Polling_inv by simp
  obtain n d g where t: "take_frame ?h = (n, d, g)" by (metis prod_cases3)
  have "if_inv g" by (rule take_frame_inv [OF inv t])
  moreover have "SendQueue ?h = [] \<and> n = 0 \<and> g = ?h \<or>
      (\<exists>fr. SendQueue ?h = fr # SendQueue g \<and> d = Some fr \<and> n = length fr)"
    using t by (cases "SendQueue ?h") (auto simp: take_frame_def)
  moreover have "L3GetNextPacket le now f = Some (n, d, g)" using GetNextPacket_eq [OF assms] t by simp
  ultimately show ?thesis unfolding Let_def by blast
qed

theorem frame_request_returns_witness: "\<exists>n d g. L3GetNextPacket True 10000 demo_if = Some (n, d, g)"
  using frame_request_returns [OF demo_if_inv, of True 10000] by blast

text \<open>After a polling, no packet from another interface is left unprocessed and no query and no
  waiting packet is left whose time is over.\<close>

theorem polling_clears:
  "IpPacketQueue (L3Polling le now f) = [] \<and>
   (\<forall>w \<in> set (items (ArpWaitTable (L3Polling le now f))). now < ARPWAIT_Expire w) \<and>
   (\<forall>p \<in> set (items (IpWaitList (L3Polling le now f))). now < PACKET_Expire p)"
  using Polling_leaves by blast

theorem polling_clears_witness: "IpPacketQueue (L3Polling True 7 demo_if) = []"
  using polling_clears [of True 7 demo_if] by blast

text \<open>Hearing of a neighbour never ends the query for it: \<^const>\<open>L3KnownArp\<close> looks for the query
  in the list of waiting packets, and the table of queries stays as it is until the query expires.\<close>

theorem query_goes_on: "ArpWaitTable (L3KnownArp le now f ip mac) = ArpWaitTable f"
  by (rule KnownArp_keeps_queries)

text \<open>The beacon of an interface is a packet whose IP header and UDP checksums are right.\<close>

theorem beacon_checksums:
  "IpCheckChecksum le (beacon_packet le f) \<and>
   CalcChecksumForIPv4 le (IpAddress f) ((IpAddress f AND SubnetMask f) OR NOT (SubnetMask f)) 0x11
     (drop 20 (beacon_packet le f)) 0 = 0"
  using beacon_verifies by blast

definition demo_route :: "u32 \<Rightarrow> u32 \<Rightarrow> u32 \<Rightarrow> u32 \<Rightarrow> L3TABLE" where
  "demo_route net m gw metric = \<lparr>TABLE_NetworkAddress = net, TABLE_SubnetMask = m, TABLE_GatewayAddress = gw, TABLE_Metric = metric\<rparr>"

text \<open>Three routes to 10.1.2.3: a default route, 10.0.0.0/8 and 10.1.0.0/16, as a little-endian host keeps them.\<close>

definition demo_switch :: "u32 \<Rightarrow> u32 \<Rightarrow> u32 \<Rightarrow> L3SW" where
  "demo_switch m0 m1 m2 =
     (NewL3Sw (ascii ''SW''))
       \<lparr>IfList := \<lparr>items = [new_if (ascii ''HUB'') 0x0101a8c0 0x00ffffff], is_sorted = True\<rparr>,
        TableList := \<lparr>items = [demo_route 0 0 0x0901a8c0 m0, demo_route 0x0000000a 0x000000ff 0x0801a8c0 m1,
          demo_route 0x0000010a 0x0000ffff 0x0701a8c0 m2], is_sorted = True\<rparr>\<rparr>"

text \<open>C25: the interface and next hop that \<^const>\<open>L3GetNextIf\<close> chooses fit: the next hop is in the
  network of the interface, and it is either the destination itself or the gateway of a route that
  matches the destination, the latter only when no interface is connected to the destination.\<close>

theorem next_hop_sound:
  assumes "L3GetNextIf s ip = Some (f, hop)"
  shows "f \<in> set (items (IfList s)) \<and> in_network hop f \<and>
    (hop = ip \<or>
     (\<forall>g \<in> set (items (IfList s)). \<not> in_network ip g) \<and>
     (\<exists>t \<in> set (items (TableList s)). route_matches ip t \<and> hop = TABLE_GatewayAddress t))"
  by (rule GetNextIf_sound [OF assms])

theorem next_hop_sound_witness:
  "in_network 0x0701a8c0 (new_if (ascii ''HUB'') 0x0101a8c0 0x00ffffff)"
proof -
  have "L3GetNextIf (demo_switch 1 1 1) 0x0302010a =
      Some (new_if (ascii ''HUB'') 0x0101a8c0 0x00ffffff, 0x0701a8c0)"
    by (simp add: L3GetNextIf_def L3GetBestRoute_def demo_switch_def demo_route_def NewL3Sw_def in_network_def
        new_if_def if_zero_def)
  from next_hop_sound [OF this] show ?thesis by blast
qed

text \<open>C24: with one metric for all routes, the route \<^const>\<open>L3GetBestRoute\<close> chooses is one that
  matches, with the largest mask of all that match; there is none only when none matches.\<close>

theorem best_route_longest:
  assumes "\<forall>t \<in> set (items (TableList s)). TABLE_Metric t = k" and "ip \<noteq> 0"
  shows "case L3GetBestRoute s ip of
      None \<Rightarrow> \<forall>t \<in> set (items (TableList s)). \<not> route_matches ip t
    | Some t \<Rightarrow> t \<in> set (items (TableList s)) \<and> route_matches ip t \<and>
        (\<forall>u \<in> set (items (TableList s)). route_matches ip u \<longrightarrow> TABLE_SubnetMask u \<le> TABLE_SubnetMask t)"
proof (cases "L3GetBestRoute s ip")
  case None
  have "\<forall>t \<in> set (items (TableList s)). \<not> route_matches ip t"
    using BestRoute_complete [OF assms(2)] None by blast
  then show ?thesis unfolding None by simp
next
  case (Some t)
  then show ?thesis using BestRoute_sound [OF Some] BestRoute_longest [OF assms(1) Some] by auto
qed

theorem best_route_longest_witness:
  "case L3GetBestRoute (demo_switch 1 1 1) 0x0302010a of None \<Rightarrow> False | Some t \<Rightarrow> 0x0000ffff \<le> TABLE_SubnetMask t"
proof -
  have "\<forall>t \<in> set (items (TableList (demo_switch 1 1 1))). TABLE_Metric t = 1"
    by (simp add: demo_switch_def demo_route_def)
  from best_route_longest [OF this, of "0x0302010a"] show ?thesis
    by (auto simp: demo_switch_def demo_route_def route_matches_def split: option.splits)
qed

text \<open>With different metrics the choice is not the route with the longest mask: the metric of a
  shorter route, once taken, bars every longer one with a larger metric.\<close>

theorem best_route_not_longest:
  "\<exists>s ip t u. L3GetBestRoute s ip = Some t \<and> u \<in> set (items (TableList s)) \<and> route_matches ip u \<and>
     TABLE_SubnetMask t < TABLE_SubnetMask u"
proof -
  let ?s = "demo_switch 2 5 5"
  have "L3GetBestRoute ?s 0x0302010a = Some (demo_route 0 0 0x0901a8c0 2)"
    by (simp add: L3GetBestRoute_def demo_switch_def demo_route_def NewL3Sw_def)
  moreover have "demo_route 0x0000010a 0x0000ffff 0x0701a8c0 5 \<in> set (items (TableList ?s))"
    "route_matches 0x0302010a (demo_route 0x0000010a 0x0000ffff 0x0701a8c0 5)"
    by (simp_all add: demo_switch_def demo_route_def route_matches_def)
  moreover have "TABLE_SubnetMask (demo_route 0 0 0x0901a8c0 2)
      < TABLE_SubnetMask (demo_route 0x0000010a 0x0000ffff 0x0701a8c0 5)"
    by (simp add: demo_route_def)
  ultimately show ?thesis by blast
qed

text \<open>C37: after any script of configuration commands and starts and stops, the interfaces of a switch
  have names that differ in more than case and usable addresses, its routes are distinct with
  usable gateways and metrics, and their number is within the limit of the server.\<close>

theorem switch_invariant:
  "sw_ok max_table (fold (sw_apply max_if max_table) script (NewL3Sw name))"
proof (induction script rule: rev_induct)
  case Nil
  then show ?case by (simp add: NewL3Sw_ok)
next
  case (snoc op script)
  then show ?case by (simp add: sw_apply_ok)
qed

text \<open>\<^const>\<open>L3AddIf\<close> succeeds exactly for a safe new name and a usable address on a stopped
  switch whose number of \<^emph>\<open>routes\<close> is below the limit of interfaces; how many interfaces there
  are does not matter.\<close>

theorem add_interface_accepts:
  assumes "sw_ok m s"
  shows "fst (L3AddIf max_if s name ip subnet) =
    (IsSafeStr name \<and> ip \<noteq> 0 \<and> ip \<noteq> 0xffffffff \<and> of_nat (length (items (TableList s))) < max_if \<and>
     \<not> SW_Active s \<and> if_of s name = None)"
proof -
  obtain r s' where "L3AddIf max_if s name ip subnet = (r, s')" by fastforce
  with AddIf_spec [OF sw_ok_tables(1) [OF assms] this] show ?thesis by (simp add: if_accepted_def)
qed

theorem add_interface_accepts_witness:
  "fst (L3AddIf 0 (NewL3Sw (ascii ''SW'')) (ascii ''HUB'') 0x0101a8c0 0x00ffffff) = False"
  using add_interface_accepts [OF NewL3Sw_ok, of 0 "ascii ''SW''" "ascii ''HUB''" "0x0101a8c0" "0x00ffffff"] by simp

text \<open>The list of switches is a finite map by name, up to case: a switch is added only under a new
  name, is found under it, and is gone after its deletion.\<close>

theorem switch_list_map:
  assumes "sws_ok l" and "L3AddSw l name = (r, l1)" and "L3DelSw l1 name = (d, l2)"
  shows "sws_ok l1 \<and> sws_ok l2 \<and> (r \<noteq> None) = (sw_of l name = None) \<and>
    sw_of l1 name \<noteq> None \<and> d \<and> sw_of l2 name = None"
proof -
  note a = AddSw_spec [OF assms(1,2)]
  have found: "sw_of l1 name \<noteq> None"
  proof (cases "sw_of l name")
    case None
    then show ?thesis using a by auto
  next
    case (Some s)
    then have "mset (items l1) = mset (items l)" using a by simp
    then have "set (items l1) = set (items l)" by (metis set_mset_mset)
    moreover have "sw_of l name \<noteq> None" using Some by simp
    ultimately show ?thesis unfolding sw_of_view sw_list.view_None by simp
  qed
  have "(r \<noteq> None) = (sw_of l name = None)" using a by (auto split: option.splits)
  with DelSw_spec [OF _ assms(3)] a found show ?thesis by blast
qed

theorem switch_list_map_witness:
  "sw_of (snd (L3AddSw lst_new (ascii ''SW''))) (ascii ''SW'') \<noteq> None"
proof -
  have "sws_ok lst_new" by (simp add: sws_ok_def lst_new_def)
  then show ?thesis
    using switch_list_map [of lst_new "ascii ''SW''"] by (metis prod.collapse snd_conv)
qed

end
